(* ===== verification/Prelude.thy ===== *)
theory Prelude
  imports Main "HOL-Library.Finite_Map" "HOL-Library.Word" "HOL-Library.Sublist"
begin

section \<open>Prelude: strings, results and collections as the Rust code has them\<close>

text \<open>
  What every component shares. A Rust \<open>char\<close> is a Unicode scalar value and a
  \<open>String\<close> a sequence of them; both are modelled by their code points, so that
  non-ASCII input is covered. Positions that the code computes with \<open>str::find\<close> and
  uses in slices are byte offsets into the UTF-8 encoding: \<open>byte_len\<close> is \<open>str::len\<close>,
  and \<open>str_to\<close> and \<open>str_from\<close> are the slices \<open>&s[..b]\<close> and \<open>&s[b..]\<close>, whose
  panic on an offset that is not a character boundary is the value \<open>None\<close>.
  A \<open>HashMap\<close> is a finite map (\<open>fmap\<close>), a \<open>HashSet\<close> a finite set (\<open>fset\<close>);
  where the code iterates over a \<open>HashMap\<close> the unspecified order is an explicit
  argument (an iteration function, see \<open>hash_order\<close>).
\<close>

named_theorems str_simps "computation rules of the string functions"
named_theorems byte_simps "facts about UTF-8 lengths and slices"

subsection \<open>Characters and strings\<close>

type_synonym rchar = nat
type_synonym rstr = "nat list"

text \<open>A string literal of the source, written as an Isabelle string.\<close>

definition lit :: "string \<Rightarrow> rstr" where
  "lit s = map of_char s"

lemma lit_Nil [str_simps, simp]: "lit [] = []"
  by (simp add: lit_def)

lemma lit_Cons [str_simps]: "lit (c # s) = of_char c # lit s"
  by (simp add: lit_def)

lemma lit_append: "lit (s @ t) = lit s @ lit t"
  by (simp add: lit_def)

lemma lit_eq_iff [simp]: "lit s = lit t \<longleftrightarrow> s = t"
proof -
  have "inj (map (of_char :: char \<Rightarrow> nat))"
    by (rule inj_mapI) (rule inj_of_char)
  then show ?thesis
    by (simp add: lit_def inj_eq)
qed

lemma lit_eq_Nil [simp]: "lit s = [] \<longleftrightarrow> s = []"
  by (simp add: lit_def)

lemma length_lit [simp]: "length (lit s) = length s"
  by (simp add: lit_def)

abbreviation c_dquote :: rchar where "c_dquote \<equiv> 34"   \<comment> \<open>double quote\<close>
abbreviation c_squote :: rchar where "c_squote \<equiv> 39"   \<comment> \<open>single quote\<close>
abbreviation c_bslash :: rchar where "c_bslash \<equiv> 92"   \<comment> \<open>backslash\<close>
abbreviation c_nl :: rchar where "c_nl \<equiv> 10"
abbreviation c_cr :: rchar where "c_cr \<equiv> 13"
abbreviation c_tab :: rchar where "c_tab \<equiv> 9"
abbreviation c_space :: rchar where "c_space \<equiv> 32"
abbreviation c_hash :: rchar where "c_hash \<equiv> 35"
abbreviation c_percent :: rchar where "c_percent \<equiv> 37"
abbreviation c_lparen :: rchar where "c_lparen \<equiv> 40"
abbreviation c_rparen :: rchar where "c_rparen \<equiv> 41"
abbreviation c_plus :: rchar where "c_plus \<equiv> 43"
abbreviation c_comma :: rchar where "c_comma \<equiv> 44"
abbreviation c_minus :: rchar where "c_minus \<equiv> 45"
abbreviation c_dot :: rchar where "c_dot \<equiv> 46"
abbreviation c_slash :: rchar where "c_slash \<equiv> 47"
abbreviation c_colon :: rchar where "c_colon \<equiv> 58"
abbreviation c_semi :: rchar where "c_semi \<equiv> 59"
abbreviation c_lt :: rchar where "c_lt \<equiv> 60"
abbreviation c_gt :: rchar where "c_gt \<equiv> 62"
abbreviation c_at :: rchar where "c_at \<equiv> 64"
abbreviation c_lbracket :: rchar where "c_lbracket \<equiv> 91"
abbreviation c_rbracket :: rchar where "c_rbracket \<equiv> 93"
abbreviation c_caret :: rchar where "c_caret \<equiv> 94"
abbreviation c_underscore :: rchar where "c_underscore \<equiv> 95"
abbreviation c_backtick :: rchar where "c_backtick \<equiv> 96"

text \<open>\<open>char::is_ascii_*\<close>, \<open>char::is_control\<close> (Unicode category Cc) and
  \<open>char::is_whitespace\<close> (Unicode property White\_Space).\<close>

definition is_ascii_digit :: "rchar \<Rightarrow> bool" where
  "is_ascii_digit c \<longleftrightarrow> 48 \<le> c \<and> c \<le> 57"

definition is_ascii_alphabetic :: "rchar \<Rightarrow> bool" where
  "is_ascii_alphabetic c \<longleftrightarrow> (65 \<le> c \<and> c \<le> 90) \<or> (97 \<le> c \<and> c \<le> 122)"

definition is_ascii_alphanumeric :: "rchar \<Rightarrow> bool" where
  "is_ascii_alphanumeric c \<longleftrightarrow> is_ascii_alphabetic c \<or> is_ascii_digit c"

definition is_control :: "rchar \<Rightarrow> bool" where
  "is_control c \<longleftrightarrow> c < 32 \<or> (127 \<le> c \<and> c \<le> 159)"

definition is_whitespace :: "rchar \<Rightarrow> bool" where
  "is_whitespace c \<longleftrightarrow> (9 \<le> c \<and> c \<le> 13) \<or> c = 32 \<or> c = 133 \<or> c = 160 \<or> c = 5760 \<or>
     (8192 \<le> c \<and> c \<le> 8202) \<or> c = 8232 \<or> c = 8233 \<or> c = 8239 \<or> c = 8287 \<or> c = 12288"

lemmas char_class_defs = is_ascii_digit_def is_ascii_alphabetic_def is_ascii_alphanumeric_def
  is_control_def is_whitespace_def

text \<open>ASCII part of \<open>char::to_lowercase\<close>.\<close>

definition ascii_lower :: "rchar \<Rightarrow> rchar" where
  "ascii_lower c = (if 65 \<le> c \<and> c \<le> 90 then c + 32 else c)"

subsection \<open>Byte offsets\<close>

definition utf8_len :: "rchar \<Rightarrow> nat" where
  "utf8_len c = (if c < 128 then 1 else if c < 2048 then 2 else if c < 65536 then 3 else 4)"

lemma utf8_len_pos [simp]: "0 < utf8_len c"
  by (simp add: utf8_len_def)

lemma utf8_len_neq_0 [simp]: "utf8_len c \<noteq> 0"
  by (simp add: utf8_len_def)

lemma utf8_len_ascii [byte_simps]: "c < 128 \<Longrightarrow> utf8_len c = 1"
  by (simp add: utf8_len_def)

definition byte_len :: "rstr \<Rightarrow> nat" where
  "byte_len s = sum_list (map utf8_len s)"

lemma byte_len_Nil [simp]: "byte_len [] = 0"
  by (simp add: byte_len_def)

lemma byte_len_Cons [simp]: "byte_len (c # s) = utf8_len c + byte_len s"
  by (simp add: byte_len_def)

lemma byte_len_append [simp]: "byte_len (s @ t) = byte_len s + byte_len t"
  by (simp add: byte_len_def)

lemma byte_len_0 [simp]: "byte_len s = 0 \<longleftrightarrow> s = []"
  by (cases s) simp_all

text \<open>\<open>&s[b..]\<close> and \<open>&s[..b]\<close>; \<open>None\<close> is the panic.\<close>

fun str_from :: "rstr \<Rightarrow> nat \<Rightarrow> rstr option" where
  "str_from s b = (if b = 0 then Some s else
     (case s of [] \<Rightarrow> None
      | c # cs \<Rightarrow> if utf8_len c \<le> b then str_from cs (b - utf8_len c) else None))"

fun str_to :: "rstr \<Rightarrow> nat \<Rightarrow> rstr option" where
  "str_to s b = (if b = 0 then Some [] else
     (case s of [] \<Rightarrow> None
      | c # cs \<Rightarrow> if utf8_len c \<le> b then map_option ((#) c) (str_to cs (b - utf8_len c)) else None))"

declare str_from.simps [simp del] str_to.simps [simp del]

lemma str_from_append [byte_simps]: "str_from (s @ t) (byte_len s) = Some t"
  by (induction s) (auto simp: str_from.simps [where b = 0] str_from.simps [where s = "_ # _"])

lemma str_to_append [byte_simps]: "str_to (s @ t) (byte_len s) = Some s"
  by (induction s) (auto simp: str_to.simps [where b = 0] str_to.simps [where s = "_ # _"])

lemma str_from_append_plus [byte_simps]: "str_from (s @ t) (byte_len s + b) = str_from t b"
  by (induction s) (simp_all add: str_from.simps [where s = "_ # _"] add.assoc)

text \<open>\<open>&s[a..b]\<close>.\<close>

definition str_slice :: "rstr \<Rightarrow> nat \<Rightarrow> nat \<Rightarrow> rstr option" where
  "str_slice s a b = Option.bind (str_to s b) (\<lambda>t. str_from t a)"

subsection \<open>Searching\<close>

text \<open>\<open>s.find(c)\<close>, \<open>s.rfind(c)\<close>, \<open>s.find("...")\<close> as byte offsets.\<close>

fun find_char :: "rchar \<Rightarrow> rstr \<Rightarrow> nat option" where
  "find_char c [] = None"
| "find_char c (x # xs) = (if x = c then Some 0 else map_option ((+) (utf8_len x)) (find_char c xs))"

fun rfind_char :: "rchar \<Rightarrow> rstr \<Rightarrow> nat option" where
  "rfind_char c [] = None"
| "rfind_char c (x # xs) = (case rfind_char c xs of Some i \<Rightarrow> Some (utf8_len x + i)
     | None \<Rightarrow> if x = c then Some 0 else None)"

fun find_str :: "rstr \<Rightarrow> rstr \<Rightarrow> nat option" where
  "find_str p [] = (if p = [] then Some 0 else None)"
| "find_str p (x # xs) = (if prefix p (x # xs) then Some 0
     else map_option ((+) (utf8_len x)) (find_str p xs))"

definition contains_str :: "rstr \<Rightarrow> rstr \<Rightarrow> bool" where
  "contains_str p s \<longleftrightarrow> find_str p s \<noteq> None"

lemma find_char_None: "find_char c s = None \<longleftrightarrow> c \<notin> set s"
  by (induction s) auto

lemma find_char_notin [simp]: "c \<notin> set s \<Longrightarrow> find_char c s = None"
  by (simp add: find_char_None)

lemma find_char_mem: "find_char c s = Some i \<Longrightarrow> c \<in> set s"
  using find_char_None [of c s] by fastforce

lemma find_char_Some:
  "find_char c s = Some i \<Longrightarrow> \<exists>xs ys. s = xs @ c # ys \<and> c \<notin> set xs \<and> i = byte_len xs"
proof (induction s arbitrary: i)
  case (Cons x s)
  show ?case
  proof (cases "x = c")
    case True
    then show ?thesis using Cons.prems by - (rule exI [of _ "[]"], rule exI [of _ s], auto)
  next
    case False
    then obtain j where j: "find_char c s = Some j" "i = utf8_len x + j"
      using Cons.prems by auto
    from Cons.IH [OF j(1)] obtain xs ys
      where "s = xs @ c # ys" "c \<notin> set xs" "j = byte_len xs" by blast
    with False j(2) show ?thesis by - (rule exI [of _ "x # xs"], rule exI [of _ ys], auto)
  qed
qed simp

lemma find_char_append: "c \<notin> set xs \<Longrightarrow> find_char c (xs @ c # ys) = Some (byte_len xs)"
  by (induction xs) auto

lemma rfind_char_None: "rfind_char c s = None \<longleftrightarrow> c \<notin> set s"
  by (induction s) (auto split: option.splits)

lemma rfind_char_notin [simp]: "c \<notin> set s \<Longrightarrow> rfind_char c s = None"
  by (simp add: rfind_char_None)

lemma rfind_char_mem: "rfind_char c s = Some i \<Longrightarrow> c \<in> set s"
  using rfind_char_None [of c s] by fastforce

lemma rfind_char_Some:
  "rfind_char c s = Some i \<Longrightarrow> \<exists>xs ys. s = xs @ c # ys \<and> c \<notin> set ys \<and> i = byte_len xs"
proof (induction s arbitrary: i)
  case (Cons x s)
  show ?case
  proof (cases "rfind_char c s")
    case None
    then have "c \<notin> set s" by (simp add: rfind_char_None)
    with None Cons.prems show ?thesis
      by - (rule exI [of _ "[]"], rule exI [of _ s], auto split: if_splits)
  next
    case (Some j)
    from Cons.IH [OF Some] obtain xs ys
      where "s = xs @ c # ys" "c \<notin> set ys" "j = byte_len xs" by blast
    with Some Cons.prems show ?thesis by - (rule exI [of _ "x # xs"], rule exI [of _ ys], auto)
  qed
qed simp

lemma find_str_Some:
  "find_str p s = Some i \<Longrightarrow> \<exists>xs ys. s = xs @ p @ ys \<and> i = byte_len xs"
proof (induction s arbitrary: i)
  case Nil
  then show ?case by (auto split: if_splits)
next
  case (Cons x s)
  show ?case
  proof (cases "prefix p (x # s)")
    case True
    then obtain ys where ys: "x # s = p @ ys" by (auto simp: prefix_def)
    from True Cons.prems have "i = 0" by simp
    with ys show ?thesis
      by - (rule exI [of _ "[]"], rule exI [of _ ys], auto)
  next
    case False
    then obtain j where j: "find_str p s = Some j" "i = utf8_len x + j"
      using Cons.prems by auto
    from Cons.IH [OF j(1)] obtain xs ys where "s = xs @ p @ ys" "j = byte_len xs" by blast
    with j(2) show ?thesis by - (rule exI [of _ "x # xs"], rule exI [of _ ys], auto)
  qed
qed

lemma find_str_None: "find_str p s = None \<longleftrightarrow> \<not> sublist p s"
proof (induction s)
  case (Cons x s)
  then show ?case by (auto simp: sublist_Cons_right)
qed simp

lemma contains_str_iff: "contains_str p s \<longleftrightarrow> sublist p s"
  by (simp add: contains_str_def find_str_None)

lemma takeWhile_notin [simp]: "c \<notin> set s \<Longrightarrow> takeWhile (\<lambda>x. x \<noteq> c) s = s"
  by (induction s) auto

text \<open>\<open>s.replace(c, "...")\<close> for a one-character pattern.\<close>

definition replace_char :: "rchar \<Rightarrow> rstr \<Rightarrow> rstr \<Rightarrow> rstr" where
  "replace_char c r s = concat (map (\<lambda>x. if x = c then r else [x]) s)"

lemma replace_char_simps [simp]:
  "replace_char c r [] = []"
  "replace_char c r (x # s) = (if x = c then r else [x]) @ replace_char c r s"
  "replace_char c r (s @ t) = replace_char c r s @ replace_char c r t"
  by (simp_all add: replace_char_def)

text \<open>\<open>parts.join(sep)\<close>.\<close>

fun join :: "rstr \<Rightarrow> rstr list \<Rightarrow> rstr" where
  "join sep [] = []"
| "join sep [x] = x"
| "join sep (x # y # ys) = x @ sep @ join sep (y # ys)"

lemma join_Cons: "join sep (x # xs) = x @ (if xs = [] then [] else sep @ join sep xs)"
  by (cases xs) simp_all


subsection \<open>Numbers in strings\<close>

text \<open>Decimal formatting (\<open>format!("{n}")\<close>) of unsigned and signed integers.\<close>

fun show_nat :: "nat \<Rightarrow> rstr" where
  "show_nat n = (if n < 10 then [48 + n] else show_nat (n div 10) @ [48 + n mod 10])"

declare show_nat.simps [simp del]

definition show_int :: "int \<Rightarrow> rstr" where
  "show_int i = (if i < 0 then c_minus # show_nat (nat (- i)) else show_nat (nat i))"

text \<open>A non-empty sequence of ASCII digits as a number.\<close>

definition digits_value :: "rstr \<Rightarrow> nat" where
  "digits_value s = foldl (\<lambda>n c. 10 * n + (c - 48)) 0 s"

definition all_digits :: "rstr \<Rightarrow> bool" where
  "all_digits s \<longleftrightarrow> s \<noteq> [] \<and> list_all is_ascii_digit s"

text \<open>
  \<open>str::parse\<close> for the integer types: an optional sign (a minus only for the signed
  types), at least one digit, and a value in range; everything else is an error, here
  \<open>None\<close>.
\<close>

definition parse_unsigned :: "nat \<Rightarrow> rstr \<Rightarrow> nat option" where
  "parse_unsigned hi s =
     (let body = (case s of c # cs \<Rightarrow> if c = c_plus then cs else s | [] \<Rightarrow> s)
      in if all_digits body \<and> digits_value body \<le> hi then Some (digits_value body) else None)"

definition parse_signed :: "nat \<Rightarrow> rstr \<Rightarrow> int option" where
  "parse_signed hi s =
     (let neg = (case s of c # _ \<Rightarrow> c = c_minus | [] \<Rightarrow> False);
          body = (case s of c # cs \<Rightarrow> if c = c_plus \<or> c = c_minus then cs else s | [] \<Rightarrow> s)
      in if \<not> all_digits body then None
         else if neg then (if digits_value body \<le> hi + 1 then Some (- int (digits_value body)) else None)
         else (if digits_value body \<le> hi then Some (int (digits_value body)) else None))"

definition parse_u32 :: "rstr \<Rightarrow> nat option" where
  "parse_u32 = parse_unsigned (2 ^ 32 - 1)"

definition parse_i32 :: "rstr \<Rightarrow> int option" where
  "parse_i32 = parse_signed (2 ^ 31 - 1)"

definition parse_i64 :: "rstr \<Rightarrow> int option" where
  "parse_i64 = parse_signed (2 ^ 63 - 1)"

text \<open>
  Whether \<open>str::parse::<f64>\<close> succeeds: an optional sign, then \<open>inf\<close>, \<open>infinity\<close> or
  \<open>nan\<close> in any case, or digits with an optional point (a digit on one side of it at
  least) and an optional exponent. Values out of range round to infinity or zero, they are
  no error.
\<close>

definition f64_exponent_ok :: "rstr \<Rightarrow> bool" where
  "f64_exponent_ok s \<longleftrightarrow> s = [] \<or>
     (ascii_lower (hd s) = 101 \<and>
      (let r = tl s in all_digits (if r \<noteq> [] \<and> (hd r = c_plus \<or> hd r = c_minus) then tl r else r)))"

definition f64_number_ok :: "rstr \<Rightarrow> bool" where
  "f64_number_ok s =
     (let ip = takeWhile is_ascii_digit s; r = dropWhile is_ascii_digit s
      in if r \<noteq> [] \<and> hd r = c_dot
         then (let fp = takeWhile is_ascii_digit (tl r)
               in (ip \<noteq> [] \<or> fp \<noteq> []) \<and> f64_exponent_ok (dropWhile is_ascii_digit (tl r)))
         else ip \<noteq> [] \<and> f64_exponent_ok r)"

definition parses_f64 :: "rstr \<Rightarrow> bool" where
  "parses_f64 s =
     (let b = (if s \<noteq> [] \<and> (hd s = c_plus \<or> hd s = c_minus) then tl s else s);
          w = map ascii_lower b
      in w = lit ''inf'' \<or> w = lit ''infinity'' \<or> w = lit ''nan'' \<or> f64_number_ok b)"

lemma foldl_digits_append:
  "foldl (\<lambda>n c. 10 * n + (c - 48)) a (s @ [c]) = 10 * foldl (\<lambda>n c. 10 * n + (c - 48)) a s + (c - (48::nat))"
  by simp

lemma digits_value_snoc: "digits_value (s @ [c]) = 10 * digits_value s + (c - 48)"
  by (simp add: digits_value_def)

lemma all_digits_show_nat [simp]: "all_digits (show_nat n)"
proof (induction n rule: show_nat.induct)
  case (1 n)
  then show ?case
    by (subst show_nat.simps) (auto simp: all_digits_def is_ascii_digit_def)
qed

lemma digits_value_show_nat [simp]: "digits_value (show_nat n) = n"
proof (induction n rule: show_nat.induct)
  case (1 n)
  show ?case
  proof (cases "n < 10")
    case True
    then show ?thesis by (subst show_nat.simps) (simp add: digits_value_def)
  next
    case False
    with 1 show ?thesis by (subst show_nat.simps) (simp add: digits_value_snoc)
  qed
qed

lemma show_nat_inject [simp]: "show_nat m = show_nat n \<longleftrightarrow> m = n"
  by (metis digits_value_show_nat)

lemma show_nat_not_Nil [simp]: "show_nat n \<noteq> []"
  using all_digits_show_nat [of n] by (simp add: all_digits_def)

lemma show_nat_digits: "c \<in> set (show_nat n) \<Longrightarrow> is_ascii_digit c"
  using all_digits_show_nat [of n] by (simp add: all_digits_def list_all_iff)

lemma show_nat_no_sign [simp]: "\<not> is_ascii_digit c \<Longrightarrow> c \<notin> set (show_nat n)"
  using show_nat_digits by blast

lemma show_nat_hd: "\<exists>c cs. show_nat n = c # cs \<and> 48 \<le> c \<and> c \<le> 57"
proof (cases "show_nat n")
  case (Cons c cs)
  then have "is_ascii_digit c" by (metis list.set_intros(1) show_nat_digits)
  with Cons show ?thesis by (simp add: is_ascii_digit_def)
qed simp

lemma parse_signed_show_int:
  assumes "- int hi - 1 \<le> i" "i \<le> int hi"
  shows "parse_signed hi (show_int i) = Some i"
proof (cases "i < 0")
  case True
  then show ?thesis using assms by (simp add: parse_signed_def show_int_def)
next
  case False
  obtain c cs where c: "show_nat (nat i) = c # cs" "48 \<le> c" "c \<le> 57"
    using show_nat_hd by blast
  from c(1) have "all_digits (c # cs)" "digits_value (c # cs) = nat i"
    by (metis all_digits_show_nat, metis digits_value_show_nat)
  with False c assms show ?thesis by (simp add: parse_signed_def show_int_def)
qed

subsection \<open>HashMap iteration\<close>

text \<open>
  Rust leaves the iteration order of a \<open>HashMap\<close> unspecified, and it differs between
  runs. A definition that iterates takes an iteration function; \<open>hash_order\<close> is what the
  standard library promises of it: every entry exactly once.
\<close>

definition hash_order :: "(('k, 'v) fmap \<Rightarrow> ('k \<times> 'v) list) \<Rightarrow> bool" where
  "hash_order iter \<longleftrightarrow> (\<forall>m. distinct (map fst (iter m)) \<and> map_of (iter m) = fmlookup m)"

text \<open>The order by key, an instance that computes.\<close>

definition key_order :: "('k::linorder, 'v) fmap \<Rightarrow> ('k \<times> 'v) list" where
  "key_order m = sorted_list_of_fmap m"

lemma hash_order_key_order: "hash_order (key_order :: ('k::linorder, 'v) fmap \<Rightarrow> _)"
  by (simp add: hash_order_def key_order_def)
    (simp add: sorted_list_of_fmap_def comp_def sorted_list_of_fset.rep_eq)

lemma hash_order_in_iff:
  assumes "hash_order iter"
  shows "(k, v) \<in> set (iter m) \<longleftrightarrow> fmlookup m k = Some v"
  using assms by (metis hash_order_def map_of_eq_Some_iff)

lemma hash_order_distinct: "hash_order iter \<Longrightarrow> distinct (map fst (iter m))"
  by (simp add: hash_order_def)

lemma hash_order_empty: "hash_order iter \<Longrightarrow> iter fmempty = []"
  using hash_order_in_iff [of iter _ _ fmempty] by (cases "iter fmempty") auto

lemma hash_order_single:
  assumes "hash_order iter"
  shows "iter (fmupd k v fmempty) = [(k, v)]"
proof -
  let ?xs = "iter (fmupd k v fmempty)"
  have "set ?xs = {(k, v)}"
    using hash_order_in_iff [OF assms, of _ _ "fmupd k v fmempty"] by (auto split: if_splits)
  moreover have "distinct ?xs" using hash_order_distinct [OF assms] by (simp add: distinct_map)
  ultimately have "length ?xs = 1" by (metis distinct_card card_1_singleton_iff One_nat_def)
  then obtain x where "?xs = [x]" by (auto simp: length_Suc_conv)
  with \<open>set ?xs = {(k, v)}\<close> show ?thesis by simp
qed


subsection \<open>Interfaces of keyed stores\<close>

text \<open>
  What a client of a keyed store relies on: what a lookup returns after an insertion and
  a removal, and an invariant that both keep. The lemmas about inserting a whole list of
  entries are proved once here and used for every store of the program.
\<close>

locale keyed_store =
  fixes empty :: "'s" and put :: "'s \<Rightarrow> 'k \<Rightarrow> 'v \<Rightarrow> 's" and get :: "'s \<Rightarrow> 'k \<Rightarrow> 'v option"
    and inv :: "'s \<Rightarrow> bool"
  assumes get_empty: "get empty k = None"
    and get_put: "get (put s k v) j = (if j = k then Some v else get s j)"
    and inv_empty: "inv empty"
    and inv_put: "inv s \<Longrightarrow> inv (put s k v)"
begin

definition put_all :: "('k \<times> 'v) list \<Rightarrow> 's \<Rightarrow> 's" where
  "put_all xs s = fold (\<lambda>(k, v) s. put s k v) xs s"

lemma inv_put_all: "inv s \<Longrightarrow> inv (put_all xs s)"
  unfolding put_all_def by (induction xs arbitrary: s) (auto simp: inv_put)

lemma get_put_all:
  "distinct (map fst xs) \<Longrightarrow> get (put_all xs s) j = (case map_of xs j of Some v \<Rightarrow> Some v | None \<Rightarrow> get s j)"
  unfolding put_all_def
proof (induction xs arbitrary: s)
  case (Cons x xs)
  obtain k v where "x = (k, v)" by fastforce
  then show ?case
    using Cons by (auto simp: get_put split: option.split dest: map_of_SomeD intro: rev_image_eqI)
qed simp

lemma get_put_all_hash_order:
  "hash_order iter \<Longrightarrow> get (put_all (iter m) s) j = (case fmlookup m j of Some v \<Rightarrow> Some v | None \<Rightarrow> get s j)"
  using get_put_all [of "iter m"] by (simp add: hash_order_def)

end

locale keyed_store_del = keyed_store +
  fixes del :: "'a \<Rightarrow> 'b \<Rightarrow> 'a"
  assumes get_del: "get (del s k) j = (if j = k then None else get s j)"
    and inv_del: "inv s \<Longrightarrow> inv (del s k)"
begin

lemma del_put: "get (del (put s k v) k) j = (if j = k then None else get s j)"
  by (simp add: get_del get_put)

lemma put_del: "get (put (del s k) k v) j = get (put s k v) j"
  by (simp add: get_del get_put)

end


text \<open>A \<open>HashMap\<close> is itself such a store.\<close>

interpretation fm: keyed_store_del fmempty "\<lambda>m k v. fmupd k v m" fmlookup "\<lambda>_. True" "\<lambda>m k. fmdrop k m"
  by unfold_locales auto

lemma fcard_fmupd_new: "fmlookup m k = None \<Longrightarrow> fcard (fmdom (fmupd k v m)) = Suc (fcard (fmdom m))"
  by (simp add: fcard_finsert_disjoint fmlookup_dom_iff)

lemma fcard_fmdom_le: "fcard (fmdom m) \<le> fcard (fmdom (fmupd k v m))"
  by (simp add: fcard_mono fsubset_finsertI)

end
