(* ===== verification/Iri.thy ===== *)
theory Iri
  imports Prelude
begin

section \<open>IRIs (parser/src/rdf/iri.rs)\<close>

text \<open>
  The parser crate's error type and the IRI component: construction with validation, the
  accessors that slice the IRI text at cached or searched byte offsets, and reference
  resolution. Every slice is modelled with its panic (\<open>None\<close>); the lemmas show that no
  accessor panics and give each its meaning as a split of the text. Error values carry the
  arguments of the source's message instead of the formatted text.
\<close>

subsection \<open>Errors of the parser crate\<close>

datatype err_msg =
    IriEmpty | IriNoScheme | IriInvalidChar rchar
  | LangEmpty | LangStart | LangInvalidChar rchar
  | InvalidPrefixedName rstr | UnknownPrefix rstr
  | UnexpectedChar rchar nat nat | InvalidCharInIriRef rchar | UnterminatedIri
  | NewlineInString | UnterminatedString | ExpectedBlankColon | InvalidBlankFirst rchar
  | ExpectedDoubleCaret | InvalidInteger rstr | InvalidDecimal rstr | InvalidDouble rstr
  | ExpectedColonAfter rstr
  | MaxDepthExceeded nat nat | ExpectedSubject nat nat | ExpectedPredicate nat nat
  | ExpectedObject nat nat | ExpectedDatatype nat nat | ExpectedCloseBracket nat nat
  | ExpectedPrefixDecl nat nat | ExpectedIriRef nat nat

datatype parser_error = ParseError err_msg | InvalidInput err_msg

subsection \<open>The type and its constructors\<close>

record iri =
  iri_value :: rstr
  scheme_end :: nat
  fragment_start :: "nat option"

fun validate_chars :: "rstr \<Rightarrow> parser_error + unit" where
  "validate_chars [] = Inr ()"
| "validate_chars (c # cs) =
     (if is_control c \<or> c = c_space \<or> c = c_lt \<or> c = c_gt
      then Inl (InvalidInput (IriInvalidChar c)) else validate_chars cs)"

definition validate :: "rstr \<Rightarrow> parser_error + unit" where
  "validate v =
     (if v = [] then Inl (InvalidInput IriEmpty)
      else if c_colon \<notin> set v then Inl (InvalidInput IriNoScheme)
      else validate_chars v)"

definition scheme_end_of :: "rstr \<Rightarrow> nat" where
  "scheme_end_of v =
     (case find_str (lit ''://'') v of Some i \<Rightarrow> i + 3
      | None \<Rightarrow> (case find_char c_colon v of Some i \<Rightarrow> i + 1 | None \<Rightarrow> 0))"

definition fragment_start_of :: "rstr \<Rightarrow> nat option" where
  "fragment_start_of v = map_option (\<lambda>i. i + 1) (find_char c_hash v)"

definition iri_new :: "rstr \<Rightarrow> parser_error + iri" where
  "iri_new v =
     (case validate v of Inl e \<Rightarrow> Inl e
      | Inr _ \<Rightarrow> Inr \<lparr>iri_value = v, scheme_end = scheme_end_of v,
                   fragment_start = fragment_start_of v\<rparr>)"

definition iri_new_unchecked :: "rstr \<Rightarrow> iri" where
  "iri_new_unchecked v =
     \<lparr>iri_value = v, scheme_end = scheme_end_of v, fragment_start = fragment_start_of v\<rparr>"

definition iri_eq :: "iri \<Rightarrow> iri \<Rightarrow> bool" where
  "iri_eq a b \<longleftrightarrow> iri_value a = iri_value b"

definition iri_display :: "iri \<Rightarrow> rstr" where
  "iri_display i = c_lt # iri_value i @ [c_gt]"

subsection \<open>Accessors, with the slices of the source\<close>

definition iri_scheme :: "iri \<Rightarrow> rstr option" where
  "iri_scheme i =
     (let e = (case find_char c_colon (iri_value i) of Some e \<Rightarrow> e | None \<Rightarrow> scheme_end i)
      in str_to (iri_value i) e)"

definition iri_fragment :: "iri \<Rightarrow> rstr option option" where
  "iri_fragment i =
     (case fragment_start i of None \<Rightarrow> Some None
      | Some st \<Rightarrow> map_option Some (str_from (iri_value i) st))"

definition iri_namespace :: "iri \<Rightarrow> rstr option" where
  "iri_namespace i =
     (case rfind_char c_hash (iri_value i) of Some p \<Rightarrow> str_to (iri_value i) (p + 1)
      | None \<Rightarrow> (case rfind_char c_slash (iri_value i) of Some p \<Rightarrow> str_to (iri_value i) (p + 1)
                | None \<Rightarrow> Some (iri_value i)))"

definition iri_local_name :: "iri \<Rightarrow> rstr option" where
  "iri_local_name i =
     (case rfind_char c_hash (iri_value i) of Some p \<Rightarrow> str_from (iri_value i) (p + 1)
      | None \<Rightarrow> (case rfind_char c_slash (iri_value i) of Some p \<Rightarrow> str_from (iri_value i) (p + 1)
                | None \<Rightarrow> Some []))"

text \<open>
  Reference resolution. The outer option is the panic of a slice, the sum the result of
  \<open>Iri::new\<close>.
\<close>

definition authority_end :: "rstr \<Rightarrow> (nat option) option" where
  "authority_end v =
     (case find_str (lit ''://'') v of None \<Rightarrow> Some None
      | Some i \<Rightarrow> (case str_from v (i + 3) of None \<Rightarrow> None
          | Some r \<Rightarrow> (case find_char c_slash r of None \<Rightarrow> Some (Some (byte_len v))
              | Some j \<Rightarrow> Some (Some (i + 3 + j)))))"

definition resolve :: "iri \<Rightarrow> rstr \<Rightarrow> (parser_error + iri) option" where
  "resolve b r =
     (let v = iri_value b;
          relative_path = map_option (\<lambda>ns. iri_new (ns @ r)) (iri_namespace b)
      in if contains_str (lit ''://'') r then Some (iri_new r)
         else if prefix [c_hash] r then
           (case find_char c_hash v of Some p \<Rightarrow> map_option (\<lambda>base. iri_new (base @ r)) (str_to v p)
            | None \<Rightarrow> Some (iri_new (v @ r)))
         else if prefix [c_slash] r then
           (case authority_end v of None \<Rightarrow> None
            | Some (Some e) \<Rightarrow> map_option (\<lambda>base. iri_new (base @ r)) (str_to v e)
            | Some None \<Rightarrow> relative_path)
         else relative_path)"

subsection \<open>Reference meaning of the accessors\<close>

text \<open>The same functions as splits of the text, with no offsets.\<close>

definition upto_last :: "rchar \<Rightarrow> rstr \<Rightarrow> rstr" where
  "upto_last c v = rev (dropWhile (\<lambda>x. x \<noteq> c) (rev v))"

definition after_last :: "rchar \<Rightarrow> rstr \<Rightarrow> rstr" where
  "after_last c v = rev (takeWhile (\<lambda>x. x \<noteq> c) (rev v))"

definition namespace_part :: "rstr \<Rightarrow> rstr" where
  "namespace_part v = (if c_hash \<in> set v then upto_last c_hash v
     else if c_slash \<in> set v then upto_last c_slash v else v)"

definition local_part :: "rstr \<Rightarrow> rstr" where
  "local_part v = (if c_hash \<in> set v then after_last c_hash v
     else if c_slash \<in> set v then after_last c_slash v else [])"

fun split_str :: "rstr \<Rightarrow> rstr \<Rightarrow> (rstr \<times> rstr) option" where
  "split_str p [] = (if p = [] then Some ([], []) else None)"
| "split_str p (x # xs) = (if prefix p (x # xs) then Some ([], drop (length p) (x # xs))
     else map_option (\<lambda>(a, b). (x # a, b)) (split_str p xs))"

definition resolve_ref :: "iri \<Rightarrow> rstr \<Rightarrow> parser_error + iri" where
  "resolve_ref b r =
     (let v = iri_value b
      in if contains_str (lit ''://'') r then iri_new r
         else if prefix [c_hash] r then iri_new (takeWhile (\<lambda>x. x \<noteq> c_hash) v @ r)
         else case (if prefix [c_slash] r then split_str (lit ''://'') v else None) of
           Some (pre, rest) \<Rightarrow> iri_new (pre @ lit ''://'' @ takeWhile (\<lambda>x. x \<noteq> c_slash) rest @ r)
         | None \<Rightarrow> iri_new (namespace_part v @ r))"

lemma split_at_last:
  assumes "c \<notin> set ys"
  shows "upto_last c (xs @ c # ys) = xs @ [c]" and "after_last c (xs @ c # ys) = ys"
  using assms by (auto simp: upto_last_def after_last_def dropWhile_append takeWhile_append)

lemma takeWhile_split: "c \<notin> set xs \<Longrightarrow> takeWhile (\<lambda>x. x \<noteq> c) (xs @ c # ys) = xs"
  by (induction xs) auto

lemma byte_len_snoc_ascii: "c < 128 \<Longrightarrow> byte_len xs + 1 = byte_len (xs @ [c])"
  by (simp add: utf8_len_ascii)

lemma rfind_slices:
  assumes "rfind_char c v = Some p" "c < 128"
  shows "str_to v (Suc p) = Some (upto_last c v)" and "str_from v (Suc p) = Some (after_last c v)"
proof -
  obtain xs ys where v: "v = xs @ c # ys" "c \<notin> set ys" and p: "p = byte_len xs"
    using rfind_char_Some [OF assms(1)] by blast
  have v': "v = (xs @ [c]) @ ys" using v(1) by simp
  have p': "Suc p = byte_len (xs @ [c])" using p byte_len_snoc_ascii [OF assms(2)] by simp
  show "str_to v (Suc p) = Some (upto_last c v)"
    unfolding p' using str_to_append [of "xs @ [c]" ys] v split_at_last(1) [OF v(2)] by simp
  show "str_from v (Suc p) = Some (after_last c v)"
    unfolding p' using str_from_append [of "xs @ [c]" ys] v split_at_last(2) [OF v(2)] by simp
qed

lemma iri_namespace_part: "iri_namespace i = Some (namespace_part (iri_value i))"
  by (auto simp: iri_namespace_def namespace_part_def rfind_slices split: option.split
      dest: rfind_char_mem simp: rfind_char_None)

lemma iri_local_part: "iri_local_name i = Some (local_part (iri_value i))"
  by (auto simp: iri_local_name_def local_part_def rfind_slices split: option.split
      dest: rfind_char_mem simp: rfind_char_None)

lemma upto_after_last: "upto_last c v @ after_last c v = v"
  by (simp add: upto_last_def after_last_def flip: rev_append)

lemma namespace_local_part: "namespace_part v @ local_part v = v"
  by (simp add: namespace_part_def local_part_def upto_after_last)

lemma hash_notin_local: "c_hash \<notin> set (local_part v)"
  by (auto simp: local_part_def after_last_def dest: set_takeWhileD)


subsection \<open>Construction\<close>

lemma validate_chars_ok:
  "validate_chars v = Inr u \<longleftrightarrow> list_all (\<lambda>c. \<not> is_control c \<and> c \<noteq> c_space \<and> c \<noteq> c_lt \<and> c \<noteq> c_gt) v"
  by (induction v) auto

lemma iri_new_Inr: "iri_new v = Inr i \<Longrightarrow> i = iri_new_unchecked v"
  by (auto simp: iri_new_def iri_new_unchecked_def split: sum.splits)

lemma iri_new_value: "iri_new v = Inr i \<Longrightarrow> iri_value i = v"
  by (auto dest: iri_new_Inr simp: iri_new_unchecked_def)

lemma iri_value_unchecked [simp]: "iri_value (iri_new_unchecked v) = v"
  by (simp add: iri_new_unchecked_def)

definition valid_iri_text :: "rstr \<Rightarrow> bool" where
  "valid_iri_text v \<longleftrightarrow> c_colon \<in> set v \<and>
     list_all (\<lambda>c. \<not> is_control c \<and> c \<noteq> c_space \<and> c \<noteq> c_lt \<and> c \<noteq> c_gt) v"

lemma iri_new_valid: "valid_iri_text v \<Longrightarrow> iri_new v = Inr (iri_new_unchecked v)"
  using validate_chars_ok [of v "()"]
  by (auto simp: valid_iri_text_def iri_new_def validate_def iri_new_unchecked_def split: sum.splits)

text \<open>\<open>Iri::new\<close> accepts exactly the texts that are non-empty, contain a colon and hold no
  control character, space or angle bracket; what it returns carries that very text and the
  offsets that the unchecked constructor computes.\<close>

theorem iri_new_accepts: "(\<exists>i. iri_new v = Inr i) = valid_iri_text v \<and>
   (valid_iri_text v = (iri_new v = Inr (iri_new_unchecked v)))"
proof -
  have "\<exists>i. iri_new v = Inr i \<Longrightarrow> valid_iri_text v"
    using validate_chars_ok [of v]
    by (auto simp: valid_iri_text_def iri_new_def validate_def split: sum.splits if_splits)
  then show ?thesis using iri_new_valid by blast
qed

subsection \<open>The accessors never panic\<close>

lemma scheme_slice: "iri_scheme (iri_new_unchecked v) =
    Some (if c_colon \<in> set v then takeWhile (\<lambda>x. x \<noteq> c_colon) v else [])"
proof (cases "find_char c_colon v")
  case None
  then have nc: "c_colon \<notin> set v" by (simp add: find_char_None)
  have "\<not> sublist (lit ''://'') v"
    using nc set_mono_sublist [of "lit ''://''" v] by (auto simp: str_simps)
  then have "scheme_end_of v = 0"
    using None by (simp add: scheme_end_of_def find_str_None [THEN iffD2])
  then show ?thesis
    using None nc by (simp add: iri_scheme_def iri_new_unchecked_def str_to.simps [where b = 0])
next
  case (Some p)
  from find_char_Some [OF Some] obtain xs ys
    where v: "v = xs @ c_colon # ys" "c_colon \<notin> set xs" "p = byte_len xs" by blast
  then show ?thesis
    using Some by (simp add: iri_scheme_def takeWhile_split str_to_append)
qed

lemma fragment_slice: "iri_fragment (iri_new_unchecked v) =
    Some (if c_hash \<in> set v then Some (tl (dropWhile (\<lambda>x. x \<noteq> c_hash) v)) else None)"
proof (cases "find_char c_hash v")
  case None
  then have "c_hash \<notin> set v" by (simp add: find_char_None)
  then show ?thesis
    by (simp add: iri_fragment_def iri_new_unchecked_def fragment_start_of_def)
next
  case (Some p)
  from find_char_Some [OF Some] obtain xs ys
    where v: "v = xs @ c_hash # ys" "c_hash \<notin> set xs" "p = byte_len xs" by blast
  have v': "v = (xs @ [c_hash]) @ ys" using v by simp
  have "str_from v (Suc p) = Some ys"
    using str_from_append [of "xs @ [c_hash]" ys] v by (simp add: utf8_len_ascii)
  moreover have "tl (dropWhile (\<lambda>x. x \<noteq> c_hash) v) = ys"
    using v by (simp add: dropWhile_append)
  ultimately show ?thesis
    using Some v by (simp add: iri_fragment_def iri_new_unchecked_def fragment_start_of_def)
qed

text \<open>on every IRI that the constructors build, the byte offsets used by \<open>scheme\<close>,
  \<open>fragment\<close>, \<open>namespace\<close> and \<open>local_name\<close> are character boundaries within the text, so
  none of these slices panics; the scheme is the text before the first colon, the fragment the
  text after the first hash sign, and namespace and local name are the two halves of the text
  (split after the last hash sign, or else after the last slash).\<close>

theorem iri_accessors:
  "iri_scheme (iri_new_unchecked v) = Some (if c_colon \<in> set v then takeWhile (\<lambda>x. x \<noteq> c_colon) v else []) \<and>
   iri_fragment (iri_new_unchecked v) =
     Some (if c_hash \<in> set v then Some (tl (dropWhile (\<lambda>x. x \<noteq> c_hash) v)) else None) \<and>
   (\<exists>n l. iri_namespace (iri_new_unchecked v) = Some n \<and> iri_local_name (iri_new_unchecked v) = Some l \<and>
      n @ l = v \<and> c_hash \<notin> set l \<and> n = namespace_part v \<and> l = local_part v)"
  by (simp add: scheme_slice fragment_slice iri_namespace_part iri_local_part
      namespace_local_part hash_notin_local)

subsection \<open>Reference resolution\<close>

lemma split_str_Some: "split_str p s = Some (a, b) \<Longrightarrow> s = a @ p @ b \<and> find_str p s = Some (byte_len a)"
proof (induction s arbitrary: a)
  case (Cons x s)
  show ?case
  proof (cases "prefix p (x # s)")
    case True
    with Cons.prems show ?thesis by (auto simp: prefix_def)
  next
    case False
    with Cons.prems obtain a' where "split_str p s = Some (a', b)" "a = x # a'" by auto
    with Cons.IH [of a'] False show ?thesis by (simp del: append_Cons) auto
  qed
qed (simp split: if_splits)

lemma split_str_None: "split_str p s = None \<longleftrightarrow> find_str p s = None"
  by (induction s) auto

lemma authority_end_None: "split_str (lit ''://'') v = None \<Longrightarrow> authority_end v = Some None"
  by (simp add: split_str_None authority_end_def)

lemma authority_end_Some:
  assumes "split_str (lit ''://'') v = Some (pre, rest)"
  shows "\<exists>e. authority_end v = Some (Some e) \<and>
           str_to v e = Some (pre @ lit ''://'' @ takeWhile (\<lambda>x. x \<noteq> c_slash) rest)"
proof -
  let ?h = "pre @ lit ''://''"
  have v: "v = ?h @ rest" and f: "find_str (lit ''://'') v = Some (byte_len pre)"
    using split_str_Some [OF assms] by (simp, blast)
  have h: "byte_len ?h = byte_len pre + 3"
    by (simp add: str_simps utf8_len_ascii)
  have fr: "str_from v (byte_len pre + 3) = Some rest"
    using str_from_append [of ?h rest] v h by simp
  show ?thesis
  proof (cases "find_char c_slash rest")
    case None
    then have "takeWhile (\<lambda>x. x \<noteq> c_slash) rest = rest"
      using find_char_None [of c_slash rest] by simp
    moreover have "str_to v (byte_len v) = Some v"
      using str_to_append [of v "[]"] by simp
    ultimately show ?thesis
      using None f fr v by (auto simp: authority_end_def)
  next
    case (Some j)
    from find_char_Some [OF Some] obtain xs ys
      where r: "rest = xs @ c_slash # ys" "c_slash \<notin> set xs" "j = byte_len xs" by blast
    have "str_to v (byte_len (?h @ xs)) = Some (?h @ xs)"
      using str_to_append [of "?h @ xs" "c_slash # ys"] v r by simp
    then show ?thesis
      using Some f fr v r h by (auto simp: authority_end_def takeWhile_split add.assoc)
  qed
qed

lemma resolve_eq: "resolve b r = Some (resolve_ref b r)"
proof -
  let ?v = "iri_value b"
  have frag: "find_char c_hash ?v = Some p \<Longrightarrow> str_to ?v p = Some (takeWhile (\<lambda>x. x \<noteq> c_hash) ?v)" for p
    by (frule find_char_Some) (auto simp: str_to_append takeWhile_split)
  have nofrag: "find_char c_hash ?v = None \<Longrightarrow> c_hash \<notin> set ?v"
    by (simp add: find_char_None)
  show ?thesis
  proof (cases "contains_str (lit ''://'') r \<or> prefix [c_hash] r \<or> \<not> prefix [c_slash] r")
    case True
    then show ?thesis
      using frag nofrag
      by (auto simp: resolve_def resolve_ref_def Let_def iri_namespace_part 
          split: option.split)
  next
    case False
    then show ?thesis
      using authority_end_None [of ?v] authority_end_Some [of ?v]
      by (cases "split_str (lit ''://'') ?v")
        (auto simp: resolve_def resolve_ref_def Let_def iri_namespace_part)
  qed
qed

text \<open>resolving a reference against a base never panics, and computes the reference
  function \<open>resolve_ref\<close>: an absolute reference replaces the base, a fragment replaces the
  base's fragment, a reference that starts with a slash keeps the scheme and authority of the
  base, and any other reference (or one against a base with no authority) is appended to the
  namespace of the base; the result is validated as by \<open>Iri::new\<close>.\<close>

theorem resolve_correct: "resolve b r = Some (resolve_ref b r)"
  by (rule resolve_eq)

end
