(* ===== verification/Namespace.thy ===== *)
theory Namespace
  imports Iri "HOL-Library.List_Lexorder"
begin

section \<open>Namespace prefixes (parser/src/rdf/namespace.rs)\<close>

text \<open>
  Prefixed names and the prefix registry with its two hash maps, prefix to namespace and
  namespace to prefix. The lemmas state the consistency that every operation keeps between
  the two maps, soundness of contraction (expanding a contracted IRI gives the IRI back),
  and what \<open>merge\<close> does whatever the iteration order.
\<close>

definition ns_RDF :: rstr where "ns_RDF = lit ''http://www.w3.org/1999/02/22-rdf-syntax-ns#''"
definition ns_RDFS :: rstr where "ns_RDFS = lit ''http://www.w3.org/2000/01/rdf-schema#''"
definition ns_XSD :: rstr where "ns_XSD = lit ''http://www.w3.org/2001/XMLSchema#''"
definition ns_OWL :: rstr where "ns_OWL = lit ''http://www.w3.org/2002/07/owl#''"
definition ns_SKOS :: rstr where "ns_SKOS = lit ''http://www.w3.org/2004/02/skos/core#''"
definition ns_DC :: rstr where "ns_DC = lit ''http://purl.org/dc/elements/1.1/''"
definition ns_DCT :: rstr where "ns_DCT = lit ''http://purl.org/dc/terms/''"
definition ns_FOAF :: rstr where "ns_FOAF = lit ''http://xmlns.com/foaf/0.1/''"

subsection \<open>Prefixed names\<close>

record prefixed_name =
  pn_prefix :: rstr
  pn_local :: rstr

definition pn_new :: "rstr \<Rightarrow> rstr \<Rightarrow> prefixed_name" where
  "pn_new p l = \<lparr>pn_prefix = p, pn_local = l\<rparr>"

text \<open>\<open>s.splitn(2, ':')\<close>: one part if there is no colon, else the texts around the first.\<close>

definition splitn2 :: "rchar \<Rightarrow> rstr \<Rightarrow> rstr list" where
  "splitn2 c s = (if c \<in> set s then [takeWhile (\<lambda>x. x \<noteq> c) s, tl (dropWhile (\<lambda>x. x \<noteq> c) s)] else [s])"

definition pn_parse :: "rstr \<Rightarrow> parser_error + prefixed_name" where
  "pn_parse s =
     (let parts = splitn2 c_colon s
      in if length parts \<noteq> 2 then Inl (InvalidInput (InvalidPrefixedName s))
         else Inr (pn_new (parts ! 0) (parts ! 1)))"

definition pn_display :: "prefixed_name \<Rightarrow> rstr" where
  "pn_display p = pn_prefix p @ lit '':'' @ pn_local p"

subsection \<open>The registry\<close>

record registry =
  prefix_to_ns :: "(rstr, rstr) fmap"
  ns_to_prefix :: "(rstr, rstr) fmap"

definition reg_new :: registry where
  "reg_new = \<lparr>prefix_to_ns = fmempty, ns_to_prefix = fmempty\<rparr>"

definition reg_add :: "registry \<Rightarrow> rstr \<Rightarrow> rstr \<Rightarrow> registry" where
  "reg_add r p n =
     (let r1 = (case fmlookup (prefix_to_ns r) p of
                  Some old \<Rightarrow> r\<lparr>ns_to_prefix := fmdrop old (ns_to_prefix r)\<rparr>
                | None \<Rightarrow> r);
          r2 = r1\<lparr>ns_to_prefix := fmupd n p (ns_to_prefix r1)\<rparr>
      in r2\<lparr>prefix_to_ns := fmupd p n (prefix_to_ns r2)\<rparr>)"

definition reg_remove :: "registry \<Rightarrow> rstr \<Rightarrow> rstr option \<times> registry" where
  "reg_remove r p =
     (case fmlookup (prefix_to_ns r) p of
        Some ns \<Rightarrow> (Some ns, r\<lparr>prefix_to_ns := fmdrop p (prefix_to_ns r),
                             ns_to_prefix := fmdrop ns (ns_to_prefix r)\<rparr>)
      | None \<Rightarrow> (None, r))"

definition reg_with_defaults :: registry where
  "reg_with_defaults =
     (let r = reg_new;
          r = reg_add r (lit ''rdf'') ns_RDF;
          r = reg_add r (lit ''rdfs'') ns_RDFS;
          r = reg_add r (lit ''xsd'') ns_XSD
      in reg_add r (lit ''owl'') ns_OWL)"

definition reg_with_extended_defaults :: registry where
  "reg_with_extended_defaults =
     (let r = reg_with_defaults;
          r = reg_add r (lit ''skos'') ns_SKOS;
          r = reg_add r (lit ''dc'') ns_DC;
          r = reg_add r (lit ''dct'') ns_DCT
      in reg_add r (lit ''foaf'') ns_FOAF)"

definition reg_get_namespace :: "registry \<Rightarrow> rstr \<Rightarrow> rstr option" where
  "reg_get_namespace r p = fmlookup (prefix_to_ns r) p"

definition reg_get_prefix :: "registry \<Rightarrow> rstr \<Rightarrow> rstr option" where
  "reg_get_prefix r n = fmlookup (ns_to_prefix r) n"

definition reg_has_prefix :: "registry \<Rightarrow> rstr \<Rightarrow> bool" where
  "reg_has_prefix r p \<longleftrightarrow> p |\<in>| fmdom (prefix_to_ns r)"

definition reg_expand :: "registry \<Rightarrow> prefixed_name \<Rightarrow> parser_error + iri" where
  "reg_expand r pn =
     (case reg_get_namespace r (pn_prefix pn) of
        None \<Rightarrow> Inl (InvalidInput (UnknownPrefix (pn_prefix pn)))
      | Some n \<Rightarrow> iri_new (n @ pn_local pn))"

definition reg_expand_str :: "registry \<Rightarrow> rstr \<Rightarrow> parser_error + iri" where
  "reg_expand_str r s = (case pn_parse s of Inl e \<Rightarrow> Inl e | Inr pn \<Rightarrow> reg_expand r pn)"

text \<open>The loop of \<open>contract\<close> over the entries in iteration order; the outer option is the
  panic of the slice.\<close>

fun contract_loop :: "(rstr \<times> rstr) list \<Rightarrow> rstr \<Rightarrow> (prefixed_name option) option" where
  "contract_loop [] s = Some None"
| "contract_loop ((ns, p) # es) s =
     (if prefix ns s then
        (case str_from s (byte_len ns) of None \<Rightarrow> None
         | Some local \<Rightarrow>
             if c_slash \<notin> set local \<and> c_hash \<notin> set local then Some (Some (pn_new p local))
             else contract_loop es s)
      else contract_loop es s)"

definition reg_contract ::
  "((rstr, rstr) fmap \<Rightarrow> (rstr \<times> rstr) list) \<Rightarrow> registry \<Rightarrow> iri \<Rightarrow> (prefixed_name option) option" where
  "reg_contract iter r i = contract_loop (iter (ns_to_prefix r)) (iri_value i)"

definition reg_prefixes ::
  "((rstr, rstr) fmap \<Rightarrow> (rstr \<times> rstr) list) \<Rightarrow> registry \<Rightarrow> (rstr \<times> rstr) list" where
  "reg_prefixes iter r = iter (prefix_to_ns r)"

definition reg_len :: "registry \<Rightarrow> nat" where
  "reg_len r = fcard (fmdom (prefix_to_ns r))"

definition reg_is_empty :: "registry \<Rightarrow> bool" where
  "reg_is_empty r \<longleftrightarrow> fmdom (prefix_to_ns r) = {||}"

definition reg_merge ::
  "((rstr, rstr) fmap \<Rightarrow> (rstr \<times> rstr) list) \<Rightarrow> registry \<Rightarrow> registry \<Rightarrow> registry" where
  "reg_merge iter r other = fold (\<lambda>(p, n) r. reg_add r p n) (iter (prefix_to_ns other)) r"

definition reg_display :: "((rstr, rstr) fmap \<Rightarrow> (rstr \<times> rstr) list) \<Rightarrow> registry \<Rightarrow> rstr" where
  "reg_display iter r =
     concat (map (\<lambda>(p, n). lit ''@prefix '' @ p @ lit '': <'' @ n @ lit ''> .'' @ [c_nl]) (iter (prefix_to_ns r)))"

subsection \<open>Consistency\<close>

text \<open>Every entry of the reverse map is the inverse of an entry of the forward map.\<close>

definition reg_inv :: "registry \<Rightarrow> bool" where
  "reg_inv r \<longleftrightarrow> (\<forall>n p. fmlookup (ns_to_prefix r) n = Some p \<longrightarrow> fmlookup (prefix_to_ns r) p = Some n)"

lemma reg_inv_new [simp]: "reg_inv reg_new"
  by (simp add: reg_inv_def reg_new_def)

lemma reg_inv_add: "reg_inv r \<Longrightarrow> reg_inv (reg_add r p n)"
  by (auto simp: reg_inv_def reg_add_def Let_def split: option.splits if_splits)

lemma reg_inv_remove: "reg_inv r \<Longrightarrow> reg_inv (snd (reg_remove r p))"
  by (auto simp: reg_inv_def reg_remove_def split: option.splits if_splits)

lemma reg_get_new: "reg_get_namespace reg_new p = None"
  by (simp add: reg_get_namespace_def reg_new_def)

lemma reg_get_add: "reg_get_namespace (reg_add r p n) q = (if q = p then Some n else reg_get_namespace r q)"
  by (simp add: reg_get_namespace_def reg_add_def Let_def split: option.split)

lemma reg_get_remove:
  "reg_get_namespace (snd (reg_remove r p)) q = (if q = p then None else reg_get_namespace r q)"
  by (simp add: reg_get_namespace_def reg_remove_def split: option.split)

interpretation reg: keyed_store_del reg_new reg_add reg_get_namespace reg_inv "\<lambda>r p. snd (reg_remove r p)"
  by unfold_locales (simp_all add: reg_get_new reg_get_add reg_get_remove reg_inv_add reg_inv_remove)

lemma reg_merge_put_all: "reg_merge iter r other = reg.put_all (iter (prefix_to_ns other)) r"
  by (simp add: reg_merge_def reg.put_all_def)

text \<open>Sequences of operations. The bindings they make, as a map of its own, and whether they ever bind a namespace
  while another prefix is bound to it.\<close>

datatype reg_op = RegAdd rstr rstr | RegRemove rstr

fun reg_do :: "reg_op \<Rightarrow> registry \<Rightarrow> registry" where
  "reg_do (RegAdd p n) r = reg_add r p n"
| "reg_do (RegRemove p) r = snd (reg_remove r p)"

definition reg_run :: "reg_op list \<Rightarrow> registry \<Rightarrow> registry" where
  "reg_run ops r = fold reg_do ops r"

fun bind_op :: "reg_op \<Rightarrow> (rstr \<rightharpoonup> rstr) \<Rightarrow> (rstr \<rightharpoonup> rstr)" where
  "bind_op (RegAdd p n) m = m(p \<mapsto> n)"
| "bind_op (RegRemove p) m = m(p := None)"

fun one_prefix_each :: "reg_op list \<Rightarrow> (rstr \<rightharpoonup> rstr) \<Rightarrow> bool" where
  "one_prefix_each [] m = True"
| "one_prefix_each (x # xs) m \<longleftrightarrow>
     (case x of RegAdd p n \<Rightarrow> \<forall>q. q \<noteq> p \<longrightarrow> m q \<noteq> Some n | RegRemove p \<Rightarrow> True) \<and> one_prefix_each xs (bind_op x m)"

definition reg_inverse :: "registry \<Rightarrow> bool" where
  "reg_inverse r \<longleftrightarrow> (\<forall>n p. fmlookup (ns_to_prefix r) n = Some p \<longleftrightarrow> fmlookup (prefix_to_ns r) p = Some n)"

lemma reg_run_simps [simp]:
  "reg_run [] r = r" "reg_run (x # xs) r = reg_run xs (reg_do x r)" "reg_run (xs @ ys) r = reg_run ys (reg_run xs r)"
  by (simp_all add: reg_run_def)

lemma reg_defaults_run: "reg_with_extended_defaults = reg_run
    [RegAdd (lit ''rdf'') ns_RDF, RegAdd (lit ''rdfs'') ns_RDFS, RegAdd (lit ''xsd'') ns_XSD, RegAdd (lit ''owl'') ns_OWL,
     RegAdd (lit ''skos'') ns_SKOS, RegAdd (lit ''dc'') ns_DC, RegAdd (lit ''dct'') ns_DCT, RegAdd (lit ''foaf'') ns_FOAF] reg_new"
  by (simp add: reg_with_extended_defaults_def reg_with_defaults_def Let_def)

lemma reg_merge_run: "reg_merge iter r other = reg_run (map (\<lambda>(p, n). RegAdd p n) (iter (prefix_to_ns other))) r"
proof -
  have "fold (\<lambda>(p, n) r. reg_add r p n) es r = reg_run (map (\<lambda>(p, n). RegAdd p n) es) r" for es
    by (induction es arbitrary: r) auto
  then show ?thesis by (simp add: reg_merge_def)
qed

lemma reg_run_inv: "reg_inv r \<Longrightarrow> reg_inv (reg_run ops r)"
proof (induction ops arbitrary: r)
  case (Cons x ops)
  then show ?case by (cases x) (simp_all add: reg_inv_add reg_inv_remove)
qed simp

lemma reg_run_forward: "reg_get_namespace (reg_run ops r) = fold bind_op ops (reg_get_namespace r)"
proof (induction ops arbitrary: r)
  case (Cons x ops)
  have "reg_get_namespace (reg_do x r) = bind_op x (reg_get_namespace r)"
    by (cases x) (auto simp: reg_get_add reg_get_remove)
  then show ?case using Cons by simp
qed simp

lemma reg_inverse_unique: "reg_inverse r \<Longrightarrow> fmlookup (prefix_to_ns r) p = Some n \<Longrightarrow> fmlookup (prefix_to_ns r) q = Some n \<Longrightarrow> p = q"
  unfolding reg_inverse_def by (metis option.inject)

lemma reg_add_inverse:
  assumes "reg_inverse r" "\<forall>q. q \<noteq> p \<longrightarrow> fmlookup (prefix_to_ns r) q \<noteq> Some n"
  shows "reg_inverse (reg_add r p n)"
  using assms reg_inverse_unique [OF assms(1)]
  by (auto simp: reg_inverse_def reg_add_def Let_def split: option.splits if_splits)

lemma reg_remove_inverse: "reg_inverse r \<Longrightarrow> reg_inverse (snd (reg_remove r p))"
  using reg_inverse_unique [of r p]
  by (auto simp: reg_inverse_def reg_remove_def split: option.splits if_splits)

lemma reg_run_inverse: "reg_inverse r \<Longrightarrow> one_prefix_each ops (reg_get_namespace r) \<Longrightarrow> reg_inverse (reg_run ops r)"
proof (induction ops arbitrary: r)
  case (Cons x ops)
  have "reg_get_namespace (reg_do x r) = bind_op x (reg_get_namespace r)"
    by (cases x) (auto simp: reg_get_add reg_get_remove)
  moreover have "reg_inverse (reg_do x r)"
    using Cons.prems by (cases x) (auto simp: reg_add_inverse reg_remove_inverse reg_get_namespace_def)
  ultimately show ?case using Cons by simp
qed simp

text \<open>C36: after any sequence of \<open>add\<close> and \<open>remove\<close> on a new registry (and so after the defaults and after merges)
  a prefix has the namespace that the sequence bound it to last; every entry of the reverse map is the
  inverse of one of the forward map; the namespace bound last is found under its prefix; and
  if no namespace was bound while another prefix was bound to it, the two maps are inverse to each
  other: every bound namespace is found under its one prefix.\<close>

theorem registry_invariant:
  "reg_get_namespace (reg_run ops reg_new) = fold bind_op ops Map.empty \<and>
   (\<forall>n p. reg_get_prefix (reg_run ops reg_new) n = Some p \<longrightarrow> reg_get_namespace (reg_run ops reg_new) p = Some n) \<and>
   reg_get_prefix (reg_run (ops @ [RegAdd p n]) reg_new) n = Some p \<and>
   (one_prefix_each ops Map.empty \<longrightarrow>
      (\<forall>n p. reg_get_prefix (reg_run ops reg_new) n = Some p \<longleftrightarrow> reg_get_namespace (reg_run ops reg_new) p = Some n))"
proof -
  have empty: "reg_get_namespace reg_new = Map.empty" by (auto simp: reg_get_new)
  have new: "reg_inverse reg_new" by (simp add: reg_inverse_def reg_new_def)
  have "\<forall>n p. reg_get_prefix (reg_run ops reg_new) n = Some p \<longrightarrow> reg_get_namespace (reg_run ops reg_new) p = Some n"
    using reg_run_inv [OF reg_inv_new, of ops] unfolding reg_inv_def reg_get_namespace_def reg_get_prefix_def .
  moreover have "reg_get_prefix (reg_run (ops @ [RegAdd p n]) reg_new) n = Some p"
    by (simp add: reg_get_prefix_def reg_add_def Let_def split: option.split)
  moreover have "one_prefix_each ops Map.empty \<longrightarrow>
      (\<forall>n p. reg_get_prefix (reg_run ops reg_new) n = Some p \<longleftrightarrow> reg_get_namespace (reg_run ops reg_new) p = Some n)"
    using reg_run_inverse [OF new, of ops] unfolding empty reg_inverse_def reg_get_namespace_def reg_get_prefix_def by blast
  ultimately show ?thesis using reg_run_forward [of ops reg_new] unfolding empty by blast
qed

text \<open>A prefix that is rebound and one that is removed.\<close>

theorem registry_invariant_witness:
  "\<forall>n p. reg_get_prefix (reg_run [RegAdd (lit ''a'') (lit ''u:''), RegAdd (lit ''a'') (lit ''w:''), RegAdd (lit ''b'') (lit ''u:''),
       RegRemove (lit ''a'')] reg_new) n = Some p \<longleftrightarrow> p = lit ''b'' \<and> n = lit ''u:''"
proof -
  let ?ops = "[RegAdd (lit ''a'') (lit ''u:''), RegAdd (lit ''a'') (lit ''w:''), RegAdd (lit ''b'') (lit ''u:''), RegRemove (lit ''a'')]"
  have "one_prefix_each ?ops Map.empty" by (simp add: str_simps)
  moreover have "fold bind_op ?ops Map.empty = [lit ''b'' \<mapsto> lit ''u:'']" by (auto simp: str_simps)
  ultimately show ?thesis using registry_invariant [of ?ops] by (auto split: if_splits)
qed

text \<open>merging registries gives the other registry's mapping precedence for each prefix, and
  keeps every other mapping, whatever the hash map's iteration order.\<close>

theorem merge_precedence:
  "hash_order iter \<Longrightarrow> reg_get_namespace (reg_merge iter r other) p =
     (case reg_get_namespace other p of Some n \<Rightarrow> Some n | None \<Rightarrow> reg_get_namespace r p)"
  using reg.get_put_all_hash_order [of iter "prefix_to_ns other" r p]
  by (simp add: reg_merge_put_all reg_get_namespace_def)

theorem merge_precedence_witness:
  "hash_order (key_order :: (rstr, rstr) fmap \<Rightarrow> _) \<and>
   reg_get_namespace (reg_merge key_order reg_new (reg_add reg_new (lit ''ex'') (lit ''http://e/''))) (lit ''ex'') =
     Some (lit ''http://e/'')"
  using merge_precedence [OF hash_order_key_order, of reg_new "reg_add reg_new (lit ''ex'') (lit ''http://e/'')" "lit ''ex''"]
    hash_order_key_order
  by (simp add: reg_get_add)


subsection \<open>Contraction and expansion\<close>

definition contracts :: "rstr \<Rightarrow> rstr \<Rightarrow> rstr \<Rightarrow> bool" where
  "contracts ns local s \<longleftrightarrow> s = ns @ local \<and> c_slash \<notin> set local \<and> c_hash \<notin> set local"

lemma contract_loop_result:
  "\<exists>res. contract_loop es s = Some res \<and>
     (\<forall>pn. res = Some pn \<longrightarrow> (\<exists>ns. (ns, pn_prefix pn) \<in> set es \<and> contracts ns (pn_local pn) s)) \<and>
     (res = None \<longrightarrow> (\<forall>ns p local. (ns, p) \<in> set es \<longrightarrow> \<not> contracts ns local s))"
proof (induction es s rule: contract_loop.induct)
  case (2 ns p es s)
  show ?case
  proof (cases "prefix ns s")
    case True
    then obtain local where s: "s = ns @ local" by (auto simp: prefix_def)
    then have sl: "str_from s (byte_len ns) = Some local" by (simp add: str_from_append)
    show ?thesis
    proof (cases "c_slash \<notin> set local \<and> c_hash \<notin> set local")
      case fits: True
      then show ?thesis using True s sl by (auto simp: contracts_def pn_new_def)
    next
      case False
      with True sl 2 obtain res where "contract_loop es s = Some res"
        "\<forall>pn. res = Some pn \<longrightarrow> (\<exists>ns. (ns, pn_prefix pn) \<in> set es \<and> contracts ns (pn_local pn) s)"
        "res = None \<longrightarrow> (\<forall>ns p local. (ns, p) \<in> set es \<longrightarrow> \<not> contracts ns local s)" by blast
      with True False sl s show ?thesis by (fastforce simp: contracts_def)
    qed
  next
    case False
    then have "\<not> contracts ns local s" for local by (auto simp: contracts_def prefix_def)
    with False 2 show ?thesis by fastforce
  qed
qed simp

text \<open>contraction never panics; a prefixed name it returns expands, in the same registry, to the
  IRI that was contracted (with the validation of \<open>Iri::new\<close>); and it returns none only if
  no namespace of the reverse map is a prefix of the IRI with a local rest that is free of
  slashes and hash signs. All this holds whatever the iteration order.\<close>

theorem contract_sound_complete:
  assumes "hash_order iter" "reg_inv r"
  shows "\<exists>res. reg_contract iter r i = Some res \<and>
    (\<forall>pn. res = Some pn \<longrightarrow> reg_expand r pn = iri_new (iri_value i)) \<and>
    (res = None \<longrightarrow> \<not> (\<exists>ns p local. reg_get_prefix r ns = Some p \<and> contracts ns local (iri_value i)))"
proof -
  have set: "(ns, p) \<in> set (iter (ns_to_prefix r)) \<longleftrightarrow> fmlookup (ns_to_prefix r) ns = Some p" for ns p
    using hash_order_in_iff [OF assms(1)] .
  have expand: "fmlookup (ns_to_prefix r) ns = Some (pn_prefix pn) \<Longrightarrow> contracts ns (pn_local pn) v \<Longrightarrow>
      reg_expand r pn = iri_new v" for ns pn v
    using assms(2) by (simp add: reg_inv_def reg_expand_def reg_get_namespace_def contracts_def)
  from contract_loop_result [of "iter (ns_to_prefix r)" "iri_value i"] show ?thesis
    unfolding reg_contract_def reg_get_prefix_def set using expand by blast
qed

theorem contract_sound_complete_witness:
  "\<exists>res. reg_contract key_order reg_with_defaults (iri_new_unchecked (ns_RDF @ lit ''type'')) = Some res \<and>
    (\<forall>pn. res = Some pn \<longrightarrow> reg_expand reg_with_defaults pn = iri_new (ns_RDF @ lit ''type''))"
  using contract_sound_complete [OF hash_order_key_order, of reg_with_defaults
      "iri_new_unchecked (ns_RDF @ lit ''type'')"]
  by (auto simp: reg_with_defaults_def Let_def reg_inv_add)

text \<open>a prefixed name parses back from its display form exactly when its prefix holds no
  colon.\<close>

theorem prefixed_name_roundtrip: "pn_parse (pn_display pn) = Inr pn \<longleftrightarrow> c_colon \<notin> set (pn_prefix pn)"
proof (cases "c_colon \<in> set (pn_prefix pn)")
  case False
  then show ?thesis
    by (simp add: pn_parse_def pn_display_def splitn2_def pn_new_def str_simps takeWhile_split dropWhile_append)
next
  case True
  then have "c_colon \<notin> set (takeWhile (\<lambda>x. x \<noteq> c_colon) (pn_display pn))"
    by (auto dest: set_takeWhileD)
  with True have "takeWhile (\<lambda>x. x \<noteq> c_colon) (pn_display pn) \<noteq> pn_prefix pn" by metis
  with True show ?thesis
    by (cases pn) (auto simp: pn_parse_def pn_display_def splitn2_def pn_new_def str_simps)
qed

text \<open>binding a second prefix to a namespace and then rebinding that second prefix elsewhere
  removes the namespace from the reverse map although the first prefix is still bound to it, so
  IRIs of that namespace no longer contract.\<close>

theorem rebinding_loses_contraction:
  assumes "p \<noteq> q" "n \<noteq> m"
  shows "reg_get_namespace (reg_add (reg_add (reg_add r p n) q n) q m) p = Some n \<and>
    reg_get_prefix (reg_add (reg_add (reg_add r p n) q n) q m) n = None"
  using assms by (simp add: reg_get_namespace_def reg_get_prefix_def reg_add_def Let_def split: option.split)

theorem rebinding_loses_contraction_witness:
  "reg_get_namespace (reg_add (reg_add (reg_add reg_new (lit ''a'') (lit ''u:'')) (lit ''b'') (lit ''u:'')) (lit ''b'') (lit ''w:''))
     (lit ''a'') = Some (lit ''u:'')"
  using rebinding_loses_contraction [of "lit ''a''" "lit ''b''" "lit ''u:''" "lit ''w:''" reg_new] by simp

end
