(* ===== verification/NamespaceStore.thy ===== *)
theory NamespaceStore
  imports Namespace
begin

section \<open>The namespace store (storage/src/namespace\_store.rs)\<close>

text \<open>
  The serializable mapping of a registry's prefixes and the store that keeps one per graph.
  The writer and the reader of \<open>serde_json\<close> are arguments of the JSON import and export.
\<close>

record namespace_mapping =
  nm_prefixes :: "(rstr, rstr) fmap"

definition nm_from_registry ::
  "((rstr, rstr) fmap \<Rightarrow> (rstr \<times> rstr) list) \<Rightarrow> registry \<Rightarrow> namespace_mapping" where
  "nm_from_registry iter r = \<lparr>nm_prefixes = fold (\<lambda>(p, n) m. fmupd p n m) (reg_prefixes iter r) fmempty\<rparr>"

definition nm_to_registry ::
  "((rstr, rstr) fmap \<Rightarrow> (rstr \<times> rstr) list) \<Rightarrow> namespace_mapping \<Rightarrow> registry" where
  "nm_to_registry iter m = fold (\<lambda>(p, n) r. reg_add r p n) (iter (nm_prefixes m)) reg_new"

record namespace_store =
  ns_graphs :: "(rstr, namespace_mapping) fmap"

definition nst_new :: namespace_store where
  "nst_new = \<lparr>ns_graphs = fmempty\<rparr>"

definition nst_set ::
  "((rstr, rstr) fmap \<Rightarrow> (rstr \<times> rstr) list) \<Rightarrow> namespace_store \<Rightarrow> rstr \<Rightarrow> registry \<Rightarrow> namespace_store" where
  "nst_set iter st g r = st\<lparr>ns_graphs := fmupd g (nm_from_registry iter r) (ns_graphs st)\<rparr>"

definition nst_get ::
  "((rstr, rstr) fmap \<Rightarrow> (rstr \<times> rstr) list) \<Rightarrow> namespace_store \<Rightarrow> rstr \<Rightarrow> registry option" where
  "nst_get iter st g = map_option (nm_to_registry iter) (fmlookup (ns_graphs st) g)"

definition nst_remove ::
  "((rstr, rstr) fmap \<Rightarrow> (rstr \<times> rstr) list) \<Rightarrow> namespace_store \<Rightarrow> rstr \<Rightarrow> registry option \<times> namespace_store" where
  "nst_remove iter st g =
     (map_option (nm_to_registry iter) (fmlookup (ns_graphs st) g),
      st\<lparr>ns_graphs := fmdrop g (ns_graphs st)\<rparr>)"

definition nst_contains :: "namespace_store \<Rightarrow> rstr \<Rightarrow> bool" where
  "nst_contains st g \<longleftrightarrow> g |\<in>| fmdom (ns_graphs st)"

definition nst_graph_names :: "namespace_store \<Rightarrow> rstr fset" where
  "nst_graph_names st = fmdom (ns_graphs st)"

definition nst_clear :: "namespace_store \<Rightarrow> namespace_store" where
  "nst_clear st = st\<lparr>ns_graphs := fmempty\<rparr>"

subsection \<open>JSON\<close>

text \<open>\<open>StorageError\<close> of the crate, and \<open>to_string\<close> and \<open>from_str\<close> of \<open>serde_json\<close> for one type, with the
  text of their error.\<close>

datatype storage_error = StorageError rstr | NotFound rstr | SerializationError rstr

record 'a json_codec =
  jc_to_string :: "'a \<Rightarrow> rstr + rstr"
  jc_from_str :: "rstr \<Rightarrow> rstr + 'a"

definition nm_to_json :: "namespace_mapping json_codec \<Rightarrow> namespace_mapping \<Rightarrow> storage_error + rstr" where
  "nm_to_json C m = map_sum SerializationError id (jc_to_string C m)"

definition nm_from_json :: "namespace_mapping json_codec \<Rightarrow> rstr \<Rightarrow> storage_error + namespace_mapping" where
  "nm_from_json C json = map_sum SerializationError id (jc_from_str C json)"

definition nst_export ::
  "(rstr, namespace_mapping) fmap json_codec \<Rightarrow> namespace_store \<Rightarrow> storage_error + rstr" where
  "nst_export C st = map_sum SerializationError id (jc_to_string C (ns_graphs st))"

definition nst_import ::
  "(rstr, namespace_mapping) fmap json_codec \<Rightarrow> rstr \<Rightarrow> namespace_store \<Rightarrow> (storage_error + unit) \<times> namespace_store" where
  "nst_import C json st =
     (case jc_from_str C json of
        Inl e \<Rightarrow> (Inl (SerializationError e), st)
      | Inr gs \<Rightarrow> (Inr (), st\<lparr>ns_graphs := gs\<rparr>))"

text \<open>What is assumed of a codec where a text is read back: it reads the texts that it writes.\<close>

definition codec_ok :: "'a json_codec \<Rightarrow> bool" where
  "codec_ok C \<longleftrightarrow> (\<forall>x t. jc_to_string C x = Inr t \<longrightarrow> jc_from_str C t = Inr x)"

subsection \<open>What comes back\<close>

lemma nm_from_registry_lookup:
  assumes "hash_order iter"
  shows "fmlookup (nm_prefixes (nm_from_registry iter r)) p = reg_get_namespace r p"
proof -
  have "nm_prefixes (nm_from_registry iter r) = fm.put_all (iter (prefix_to_ns r)) fmempty"
    by (simp add: nm_from_registry_def reg_prefixes_def fm.put_all_def)
  then show ?thesis
    using fm.get_put_all_hash_order [OF assms, of "prefix_to_ns r" fmempty p]
    by (simp add: reg_get_namespace_def split: option.split)
qed

lemma nm_to_registry_put_all: "nm_to_registry iter m = reg.put_all (iter (nm_prefixes m)) reg_new"
  by (simp add: nm_to_registry_def reg.put_all_def)

lemma nm_to_registry_get:
  "hash_order iter \<Longrightarrow> reg_get_namespace (nm_to_registry iter m) p = fmlookup (nm_prefixes m) p"
  using reg.get_put_all_hash_order [of iter "nm_prefixes m" reg_new p]
  by (simp add: nm_to_registry_put_all reg_get_new split: option.split)

text \<open>what the store returns for a graph after \<open>set\<close> is a consistent registry that binds every
  prefix as the stored one did, whatever the iteration orders of the two hash map traversals;
  other graphs keep their entries, and a removed graph has none.\<close>

theorem namespace_store_set_get:
  assumes "hash_order iter"
  shows "(\<exists>r'. nst_get iter (nst_set iter st g r) g = Some r' \<and> reg_inv r' \<and>
           reg_get_namespace r' = reg_get_namespace r) \<and>
    (h \<noteq> g \<longrightarrow> nst_get iter (nst_set iter st g r) h = nst_get iter st h) \<and>
    nst_get iter (snd (nst_remove iter st g)) g = None"
  using assms
  by (auto simp: nst_get_def nst_set_def nst_remove_def nm_to_registry_get nm_from_registry_lookup
      fun_eq_iff) (simp add: nm_to_registry_put_all reg.inv_put_all)

theorem namespace_store_set_get_witness:
  "\<exists>r'. nst_get key_order (nst_set key_order nst_new (lit ''g'') reg_with_defaults) (lit ''g'') = Some r' \<and>
     reg_get_namespace r' (lit ''rdf'') = Some ns_RDF"
  using namespace_store_set_get [OF hash_order_key_order, of nst_new "lit ''g''" reg_with_defaults "lit ''g''"]
  by (auto simp: reg_with_defaults_def reg_get_add Let_def)

text \<open>A text that was exported replaces the content of any store by what it was exported from; any other text the
  codec refuses leaves the store as it is.\<close>

theorem namespace_store_import_export:
  assumes "codec_ok C"
  shows "(nst_export C st = Inr t \<longrightarrow> nst_import C t st' = (Inr (), st)) \<and>
    (fst (nst_import C t st') \<noteq> Inr () \<longrightarrow> snd (nst_import C t st') = st')"
  using assms
  by (cases "jc_to_string C (ns_graphs st)") (auto simp: nst_export_def nst_import_def codec_ok_def split: sum.splits)

theorem namespace_store_import_export_witness:
  "let C = \<lparr>jc_to_string = (\<lambda>gs. if gs = fmempty then Inr (lit ''{}'') else Inl []),
            jc_from_str = (\<lambda>t. if t = lit ''{}'' then Inr fmempty else Inl (lit ''expected value''))\<rparr>
   in nst_import C (lit ''{}'') (nst_set key_order nst_new (lit ''g'') reg_with_defaults) = (Inr (), nst_new)"
  using namespace_store_import_export [of "\<lparr>jc_to_string = (\<lambda>gs. if gs = fmempty then Inr (lit ''{}'') else Inl []),
            jc_from_str = (\<lambda>t. if t = lit ''{}'' then Inr fmempty else Inl (lit ''expected value''))\<rparr>"
      nst_new "lit ''{}''" "nst_set key_order nst_new (lit ''g'') reg_with_defaults"]
  by (simp add: codec_ok_def nst_export_def nst_new_def Let_def split: if_splits)

end
