(* ===== verification/BlankNode.thy ===== *)
theory BlankNode
  imports Prelude
begin

section \<open>Blank nodes and their scopes (parser/src/rdf/blank\_node.rs)\<close>

text \<open>
  A blank node is its label. The process-wide counter and the counter of a scope are
  \<open>AtomicU64\<close>s: 64-bit words whose \<open>fetch_add\<close> wraps around; each generator takes the
  counter and returns it updated. The lemmas show when generated labels are distinct,
  that labels of different generated scopes never meet, and exactly when a label mapped from
  a document meets a generated one.
\<close>

type_synonym u64 = "64 word"

record blank_node =
  bn_label :: rstr

definition bn_new :: "rstr \<Rightarrow> blank_node" where
  "bn_new l = \<lparr>bn_label = l\<rparr>"

definition bn_generate :: "u64 \<Rightarrow> blank_node \<times> u64" where
  "bn_generate global = (\<lparr>bn_label = lit ''b'' @ show_nat (unat global)\<rparr>, global + 1)"

definition bn_eq :: "blank_node \<Rightarrow> blank_node \<Rightarrow> bool" where
  "bn_eq a b \<longleftrightarrow> bn_label a = bn_label b"

definition bn_display :: "blank_node \<Rightarrow> rstr" where
  "bn_display b = lit ''_:'' @ bn_label b"

record bn_scope =
  scope_prefix :: rstr
  scope_counter :: u64

definition scope_new :: "rstr \<Rightarrow> bn_scope" where
  "scope_new p = \<lparr>scope_prefix = p, scope_counter = 0\<rparr>"

definition scope_generate :: "u64 \<Rightarrow> bn_scope \<times> u64" where
  "scope_generate global = (scope_new (lit ''g'' @ show_nat (unat global)), global + 1)"

definition scope_next :: "bn_scope \<Rightarrow> blank_node \<times> bn_scope" where
  "scope_next s =
     (bn_new (scope_prefix s @ lit ''_'' @ show_nat (unat (scope_counter s))),
      s\<lparr>scope_counter := scope_counter s + 1\<rparr>)"

definition scope_map :: "bn_scope \<Rightarrow> rstr \<Rightarrow> blank_node" where
  "scope_map s external = bn_new (scope_prefix s @ lit ''_'' @ external)"

subsection \<open>Distinctness\<close>

fun scope_nexts :: "nat \<Rightarrow> bn_scope \<Rightarrow> blank_node list" where
  "scope_nexts 0 s = []"
| "scope_nexts (Suc n) s = (let (b, s') = scope_next s in b # scope_nexts n s')"

lemma scope_nexts_eq:
  "scope_nexts n s = map (\<lambda>k. bn_new (scope_prefix s @ lit ''_'' @
     show_nat (unat (scope_counter s + of_nat k)))) [0..<n]"
proof (induction n arbitrary: s)
  case (Suc n)
  show ?case
    by (simp add: scope_next_def Suc.IH upt_conv_Cons map_Suc_upt [symmetric] comp_def add.assoc
        del: upt_Suc)
qed simp

lemma u64_of_nat_inj: "inj_on (of_nat :: nat \<Rightarrow> u64) {..<2 ^ 64}"
proof (rule inj_onI)
  fix j k :: nat
  assume "j \<in> {..<2 ^ 64}" "k \<in> {..<2 ^ 64}" and eq: "(of_nat j :: u64) = of_nat k"
  moreover have "unat (of_nat n :: u64) = n" if "n < 2 ^ 64" for n
    using that by (simp add: unsigned_of_nat take_bit_nat_eq_self)
  ultimately show "j = k" by (metis lessThan_iff)
qed

text \<open>the blank nodes that one scope generates are pairwise distinct, for any sequence of
  calls up to the \<open>2 ^ 64\<close> values of its counter (the counter may wrap during the sequence).\<close>

theorem scope_next_distinct: "n \<le> 2 ^ 64 \<Longrightarrow> distinct (scope_nexts n s)"
  by (auto simp: scope_nexts_eq distinct_map bn_new_def word_unat_eq_iff [symmetric]
      intro!: inj_onI dest!: inj_onD [OF u64_of_nat_inj])

theorem scope_next_distinct_witness:
  "(3::nat) \<le> 2 ^ 64 \<and> distinct (scope_nexts 3 (scope_new (lit ''g0'')))"
  using scope_next_distinct [of 3 "scope_new (lit ''g0'')"] by simp

lemma digits_then_underscore:
  assumes "show_nat a @ c_underscore # x = show_nat b @ c_underscore # y"
  shows "a = b \<and> x = y"
proof -
  have tw: "takeWhile is_ascii_digit (show_nat n @ c_underscore # z) = show_nat n" for n z
    using takeWhile_append2 [of "show_nat n" is_ascii_digit "c_underscore # z"]
    by (simp add: show_nat_digits is_ascii_digit_def [of c_underscore])
  from assms have "show_nat a = show_nat b" using tw [of a x] tw [of b y] by simp
  with assms show ?thesis by simp
qed

text \<open>labels from two scopes that were generated at different values of the process-wide
  counter never coincide, whether they were mapped from a document label or generated: blank
  nodes of different documents stay apart.\<close>

theorem generated_scopes_disjoint:
  assumes "g1 \<noteq> g2"
  shows "\<not> bn_eq (scope_map (fst (scope_generate g1)) x) (scope_map (fst (scope_generate g2)) y) \<and>
    \<not> bn_eq (fst (scope_next (fst (scope_generate g1)))) (scope_map (fst (scope_generate g2)) y) \<and>
    \<not> bn_eq (bn_new (lit ''b'' @ z)) (scope_map (fst (scope_generate g2)) y)"
proof -
  from assms have "unat g1 \<noteq> unat g2" by (simp add: word_unat_eq_iff)
  then have "show_nat (unat g1) @ c_underscore # v \<noteq> show_nat (unat g2) @ c_underscore # w" for v w
    using digits_then_underscore by blast
  then show ?thesis
    by (simp add: bn_eq_def scope_map_def scope_next_def scope_generate_def scope_new_def bn_new_def
        str_simps)
qed

theorem generated_scopes_disjoint_witness:
  "(1::u64) \<noteq> 12 \<and>
   \<not> bn_eq (scope_map (fst (scope_generate 1)) (lit ''2_0'')) (scope_map (fst (scope_generate 12)) (lit ''0''))"
  using generated_scopes_disjoint [of 1 12 "lit ''2_0''" "lit ''0''"] by simp

text \<open>within one scope a mapped document label and the next generated label coincide
  exactly when the document label is the decimal value of the scope's counter. The document
  label \<open>0\<close> of a fresh scope is therefore identified with the scope's first anonymous node.\<close>

theorem scope_map_next_collision:
  "bn_eq (scope_map s l) (fst (scope_next s)) \<longleftrightarrow> l = show_nat (unat (scope_counter s))"
  by (simp add: bn_eq_def scope_map_def scope_next_def bn_new_def)

end
