(* ===== verification/Dictionary.thy ===== *)
theory Dictionary
  imports Iri BlankNode
begin

section \<open>The IRI dictionary (storage/src/dictionary.rs)\<close>

text \<open>
  The dictionary numbers IRIs with 64-bit ids: a map each way behind its own lock and an
  atomic counter. \<open>dict_get_or_insert\<close> is one call from beginning to end; since the code
  first looks up under a read lock and only then takes both write locks, other calls may
  run in between, and \<open>dict_step\<close> is the step relation of any number of threads with that
  interleaving.
\<close>

type_synonym iri_id = u64

definition UNKNOWN_IRI_ID :: iri_id where "UNKNOWN_IRI_ID = 0"

record dictionary =
  iri_to_id :: "(rstr, iri_id) fmap"
  id_to_iri :: "(iri_id, rstr) fmap"
  next_id :: iri_id

definition dict_new :: dictionary where
  "dict_new = \<lparr>iri_to_id = fmempty, id_to_iri = fmempty, next_id = 1\<rparr>"

text \<open>The part under both write locks: look again, then insert both ways.\<close>

definition dict_insert_locked :: "dictionary \<Rightarrow> rstr \<Rightarrow> iri_id \<times> dictionary" where
  "dict_insert_locked d s =
     (case fmlookup (iri_to_id d) s of
        Some i \<Rightarrow> (i, d)
      | None \<Rightarrow>
          (let i = next_id d;
               d1 = d\<lparr>next_id := next_id d + 1\<rparr>;
               d2 = d1\<lparr>iri_to_id := fmupd s i (iri_to_id d1)\<rparr>
           in (i, d2\<lparr>id_to_iri := fmupd i s (id_to_iri d2)\<rparr>)))"

definition dict_get_or_insert :: "dictionary \<Rightarrow> iri \<Rightarrow> iri_id \<times> dictionary" where
  "dict_get_or_insert d i =
     (let s = iri_value i
      in case fmlookup (iri_to_id d) s of Some n \<Rightarrow> (n, d) | None \<Rightarrow> dict_insert_locked d s)"

definition dict_get_id :: "dictionary \<Rightarrow> iri \<Rightarrow> iri_id option" where
  "dict_get_id d i = fmlookup (iri_to_id d) (iri_value i)"

definition dict_get_iri :: "dictionary \<Rightarrow> iri_id \<Rightarrow> iri option" where
  "dict_get_iri d n = map_option iri_new_unchecked (fmlookup (id_to_iri d) n)"

definition dict_contains :: "dictionary \<Rightarrow> iri \<Rightarrow> bool" where
  "dict_contains d i \<longleftrightarrow> iri_value i |\<in>| fmdom (iri_to_id d)"

definition dict_contains_id :: "dictionary \<Rightarrow> iri_id \<Rightarrow> bool" where
  "dict_contains_id d n \<longleftrightarrow> n |\<in>| fmdom (id_to_iri d)"

definition dict_len :: "dictionary \<Rightarrow> nat" where
  "dict_len d = fcard (fmdom (iri_to_id d))"

definition dict_is_empty :: "dictionary \<Rightarrow> bool" where
  "dict_is_empty d \<longleftrightarrow> dict_len d = 0"

definition dict_all_iris ::
  "((iri_id, rstr) fmap \<Rightarrow> (iri_id \<times> rstr) list) \<Rightarrow> dictionary \<Rightarrow> iri list" where
  "dict_all_iris iter d = map (\<lambda>(n, s). iri_new_unchecked s) (iter (id_to_iri d))"

definition dict_all_ids ::
  "((iri_id, rstr) fmap \<Rightarrow> (iri_id \<times> rstr) list) \<Rightarrow> dictionary \<Rightarrow> iri_id list" where
  "dict_all_ids iter d = map fst (iter (id_to_iri d))"

definition dict_export ::
  "((iri_id, rstr) fmap \<Rightarrow> (iri_id \<times> rstr) list) \<Rightarrow> dictionary \<Rightarrow> (iri_id \<times> rstr) list" where
  "dict_export iter d = iter (id_to_iri d)"

text \<open>The loop of \<open>import\<close>; \<open>id + 1\<close> wraps as in a release build.\<close>

fun import_loop :: "(iri_id \<times> rstr) list \<Rightarrow> dictionary \<Rightarrow> iri_id \<Rightarrow> dictionary \<times> iri_id" where
  "import_loop [] d max_id = (d, max_id)"
| "import_loop ((n, s) # es) d max_id =
     import_loop es (d\<lparr>iri_to_id := fmupd s n (iri_to_id d), id_to_iri := fmupd n s (id_to_iri d)\<rparr>)
       (if max_id \<le> n then n + 1 else max_id)"

definition dict_import :: "dictionary \<Rightarrow> (iri_id \<times> rstr) list \<Rightarrow> dictionary" where
  "dict_import d es = (let (d', m) = import_loop es d (next_id d) in d'\<lparr>next_id := m\<rparr>)"

definition dict_clear :: "dictionary \<Rightarrow> dictionary" where
  "dict_clear d = d\<lparr>next_id := 1, iri_to_id := fmempty, id_to_iri := fmempty\<rparr>"

subsection \<open>Well-formed dictionaries\<close>

text \<open>The two maps are inverse, and every id in use lies between 1 and the next id.\<close>

definition dict_ok :: "dictionary \<Rightarrow> bool" where
  "dict_ok d \<longleftrightarrow>
     (\<forall>s i. fmlookup (iri_to_id d) s = Some i \<longleftrightarrow> fmlookup (id_to_iri d) i = Some s) \<and>
     (\<forall>i s. fmlookup (id_to_iri d) i = Some s \<longrightarrow> 0 < i \<and> i < next_id d)"

lemma dict_ok_new: "dict_ok dict_new"
  by (simp add: dict_ok_def dict_new_def)

lemma dict_ok_clear: "dict_ok (dict_clear d)"
  by (simp add: dict_ok_def dict_clear_def)

lemma u64_succ: "(w :: u64) \<noteq> - 1 \<Longrightarrow> w < w + 1 \<and> unat (w + 1) = unat w + 1"
  by (metis Suc_eq_plus1 add.commute lessI max_word_wrap unatSuc word_less_nat_alt)

lemma dict_insert_fresh:
  assumes "fmlookup (iri_to_id d) s = None"
  shows "dict_insert_locked d s =
    (next_id d, d\<lparr>next_id := next_id d + 1, iri_to_id := fmupd s (next_id d) (iri_to_id d),
       id_to_iri := fmupd (next_id d) s (id_to_iri d)\<rparr>)"
  using assms by (simp add: dict_insert_locked_def Let_def)

lemma dict_ok_insert:
  assumes ok: "dict_ok d" and nx: "next_id d \<noteq> - 1" "0 < next_id d"
    and fresh: "fmlookup (iri_to_id d) s = None"
  shows "dict_ok (snd (dict_insert_locked d s)) \<and> 0 < next_id (snd (dict_insert_locked d s))"
proof -
  have lt: "next_id d < next_id d + 1" using u64_succ [OF nx(1)] by blast
  have new: "fmlookup (id_to_iri d) (next_id d) = None"
    using ok by (cases "fmlookup (id_to_iri d) (next_id d)") (auto simp: dict_ok_def)
  have "0 < next_id d + 1" using lt nx(2) by (rule order_less_trans [rotated])
  moreover have "fmlookup (id_to_iri d) j \<noteq> Some s" for j
    using ok fresh unfolding dict_ok_def by (metis option.distinct(1))
  ultimately show ?thesis
    using ok fresh new lt nx(2)
    by (auto simp: dict_insert_fresh [OF fresh] dict_ok_def intro: order_less_trans)
qed

text \<open>C19: one call of \<open>get_or_insert\<close> on a well-formed dictionary with ids left returns the id
  under which the IRI is then found, and the IRI under that id; it keeps the dictionary well-formed,
  keeps all earlier entries, never hands out the reserved id, and repeating the call returns the
  same id and changes nothing.\<close>

theorem get_or_insert_correct:
  assumes "dict_ok d" "next_id d \<noteq> - 1" "0 < next_id d" "dict_get_or_insert d i = (n, d')"
  shows "dict_ok d' \<and> dict_get_id d' i = Some n \<and>
    dict_get_iri d' n = Some (iri_new_unchecked (iri_value i)) \<and> n \<noteq> UNKNOWN_IRI_ID \<and>
    (\<forall>j m. dict_get_id d j = Some m \<longrightarrow> dict_get_id d' j = Some m) \<and>
    dict_get_or_insert d' i = (n, d')"
proof (cases "fmlookup (iri_to_id d) (iri_value i)")
  case (Some m)
  with assms(4) have "m = n" "d' = d" by (auto simp: dict_get_or_insert_def)
  moreover have "0 < n" using Some assms(1) \<open>m = n\<close> by (auto simp: dict_ok_def)
  moreover have "dict_get_or_insert d' i = (n, d')" "dict_get_id d' i = Some n"
    using Some \<open>m = n\<close> \<open>d' = d\<close> by (simp_all add: dict_get_or_insert_def dict_get_id_def)
  ultimately show ?thesis
    using assms(1) by (auto simp: dict_get_id_def dict_get_iri_def dict_ok_def UNKNOWN_IRI_ID_def)
next
  case None
  with assms(4) have ins: "dict_insert_locked d (iri_value i) = (n, d')"
    by (simp add: dict_get_or_insert_def)
  then have "dict_ok d'" using dict_ok_insert [OF assms(1-3) None] by simp
  then show ?thesis
    using None ins assms(3) by (auto simp: dict_insert_fresh [OF None] dict_get_or_insert_def
        dict_get_id_def dict_get_iri_def UNKNOWN_IRI_ID_def Let_def)
qed

theorem get_or_insert_correct_witness:
  "dict_get_id (snd (dict_get_or_insert dict_new (iri_new_unchecked (lit ''u:a'')))) (iri_new_unchecked (lit ''u:a'')) =
     Some (fst (dict_get_or_insert dict_new (iri_new_unchecked (lit ''u:a''))))"
  using get_or_insert_correct [OF dict_ok_new, of "iri_new_unchecked (lit ''u:a'')"
      "fst (dict_get_or_insert dict_new (iri_new_unchecked (lit ''u:a'')))"
      "snd (dict_get_or_insert dict_new (iri_new_unchecked (lit ''u:a'')))"]
  by (simp add: dict_new_def)


subsection \<open>Concurrent callers\<close>

text \<open>
  Each thread is before its call, has missed on the fast path and waits for the write
  locks, or has returned. Between the miss and the locked part any other thread may run.
  \<close>

datatype caller = Calling rstr | Missed rstr | Returned rstr iri_id

record dict_sys =
  dict :: dictionary
  callers :: "nat \<Rightarrow> caller"

inductive dict_step :: "dict_sys \<Rightarrow> dict_sys \<Rightarrow> bool" where
  fast_hit: "callers s t = Calling v \<Longrightarrow> fmlookup (iri_to_id (dict s)) v = Some n \<Longrightarrow>
     dict_step s (s\<lparr>callers := (callers s)(t := Returned v n)\<rparr>)"
| fast_miss: "callers s t = Calling v \<Longrightarrow> fmlookup (iri_to_id (dict s)) v = None \<Longrightarrow>
     dict_step s (s\<lparr>callers := (callers s)(t := Missed v)\<rparr>)"
| locked: "callers s t = Missed v \<Longrightarrow> dict_insert_locked (dict s) v = (n, d') \<Longrightarrow>
     dict_step s (s\<lparr>dict := d', callers := (callers s)(t := Returned v n)\<rparr>)"
| new_call: "callers s t = Returned v n \<Longrightarrow>
     dict_step s (s\<lparr>callers := (callers s)(t := Calling w)\<rparr>)"

inductive dict_reachable :: "(nat \<Rightarrow> rstr) \<Rightarrow> dict_sys \<Rightarrow> bool" for calls where
  start: "dict_reachable calls \<lparr>dict = dict_new, callers = (\<lambda>t. Calling (calls t))\<rparr>"
| step: "dict_reachable calls s \<Longrightarrow> dict_step s s' \<Longrightarrow> dict_reachable calls s'"

inductive_cases dict_stepE: "dict_step s s'"

definition dict_used :: "dict_sys \<Rightarrow> nat" where
  "dict_used s = fcard (fmdom (iri_to_id (dict s)))"

definition dict_sys_inv :: "dict_sys \<Rightarrow> bool" where
  "dict_sys_inv s \<longleftrightarrow> dict_ok (dict s) \<and> unat (next_id (dict s)) = dict_used s + 1 \<and>
     (\<forall>t v n. callers s t = Returned v n \<longrightarrow> fmlookup (iri_to_id (dict s)) v = Some n)"

lemma dict_used_mono: "dict_step s s' \<Longrightarrow> dict_used s \<le> dict_used s'"
  by (auto elim!: dict_stepE simp: dict_used_def dict_insert_locked_def Let_def fcard_mono fsubset_finsertI
      split: option.splits)

lemma dict_step_inv:
  assumes step: "dict_step s s'" and inv: "dict_sys_inv s" and room: "dict_used s' < 2 ^ 64 - 1"
  shows "dict_sys_inv s'"
  using step
proof cases
  case (locked t v n d')
  show ?thesis
  proof (cases "fmlookup (iri_to_id (dict s)) v")
    case (Some m)
    with locked inv show ?thesis by (auto simp: dict_insert_locked_def dict_sys_inv_def dict_used_def)
  next
    case None
    have d': "n = next_id (dict s)" "dict s' = d'" "iri_to_id d' = fmupd v n (iri_to_id (dict s))"
      "next_id d' = next_id (dict s) + 1"
      using locked dict_insert_fresh [OF None] by auto
    have used: "dict_used s' = dict_used s + 1"
      using d' fcard_fmupd_new [OF None] by (simp add: dict_used_def)
    have "unat (next_id (dict s)) < 2 ^ 64 - 1"
      using inv room used by (simp add: dict_sys_inv_def)
    then have nx: "next_id (dict s) \<noteq> - 1"
      by (auto simp: unsigned_minus_1_eq_mask mask_eq_exp_minus_1)
    have "0 < next_id (dict s)" using inv by (simp add: dict_sys_inv_def unat_gt_0 [symmetric] word_gt_0)
    then have "dict_ok d'"
      using dict_ok_insert [OF _ nx _ None] inv locked by (simp add: dict_sys_inv_def)
    then show ?thesis
      using inv d' used u64_succ [OF nx] locked None by (auto simp: dict_sys_inv_def)
  qed
qed (use inv in \<open>auto simp: dict_sys_inv_def dict_used_def\<close>)

lemma dict_reachable_inv: "dict_reachable calls s \<Longrightarrow> dict_used s < 2 ^ 64 - 1 \<Longrightarrow> dict_sys_inv s"
proof (induction rule: dict_reachable.induct)
  case start
  show ?case by (simp add: dict_sys_inv_def dict_used_def dict_new_def dict_ok_def)
next
  case (step s s')
  then show ?case using dict_used_mono [OF step.hyps(2)] dict_step_inv by auto
qed

text \<open>C14: however the calls of any number of threads interleave, in every reachable state with ids
  left the two maps are inverse to each other, and two calls that have returned got the same id
  if and only if they asked for the same IRI: the second look under the write locks closes the
  window between the fast path and the insertion.\<close>

theorem concurrent_get_or_insert:
  assumes "dict_reachable calls s" "dict_used s < 2 ^ 64 - 1"
    "callers s t = Returned v n" "callers s u = Returned w m"
  shows "dict_ok (dict s) \<and> (n = m \<longleftrightarrow> v = w) \<and> n \<noteq> UNKNOWN_IRI_ID"
proof -
  from dict_reachable_inv [OF assms(1,2)] have inv: "dict_sys_inv s" .
  then have "fmlookup (iri_to_id (dict s)) v = Some n" "fmlookup (iri_to_id (dict s)) w = Some m"
    using assms(3,4) by (auto simp: dict_sys_inv_def)
  moreover from inv have "dict_ok (dict s)" by (simp add: dict_sys_inv_def)
  ultimately show ?thesis
    unfolding dict_ok_def UNKNOWN_IRI_ID_def by (metis option.inject less_irrefl)
qed


text \<open>A run in which two threads miss the same IRI before either inserts it.\<close>

definition race_end :: dict_sys where
  "race_end = \<lparr>dict = snd (dict_insert_locked dict_new (lit ''u:a'')),
     callers = (\<lambda>t. Calling (lit ''u:a''))(0 := Missed (lit ''u:a''), 1 := Missed (lit ''u:a''),
       0 := Returned (lit ''u:a'') 1, 1 := Returned (lit ''u:a'') 1)\<rparr>"

lemma race_reachable: "dict_reachable (\<lambda>_. lit ''u:a'') race_end"
proof -
  let ?v = "lit ''u:a''" and ?r = "dict_reachable (\<lambda>_. lit ''u:a'')"
  let ?c1 = "(\<lambda>t. Calling ?v)(0 := Missed ?v)"
  let ?c2 = "?c1(1 := Missed ?v)"
  let ?d = "snd (dict_insert_locked dict_new ?v)"
  have "?r \<lparr>dict = dict_new, callers = (\<lambda>t. Calling ?v)\<rparr>" by (rule dict_reachable.start)
  then have "?r \<lparr>dict = dict_new, callers = ?c1\<rparr>"
    by (rule dict_reachable.step) (use fast_miss [of "\<lparr>dict = dict_new, callers = (\<lambda>t. Calling ?v)\<rparr>" 0] in
      \<open>simp add: dict_new_def\<close>)
  then have "?r \<lparr>dict = dict_new, callers = ?c2\<rparr>"
    by (rule dict_reachable.step) (use fast_miss [of "\<lparr>dict = dict_new, callers = ?c1\<rparr>" 1] in
      \<open>simp add: dict_new_def\<close>)
  then have "?r \<lparr>dict = ?d, callers = ?c2(0 := Returned ?v 1)\<rparr>"
    by (rule dict_reachable.step) (use locked [of "\<lparr>dict = dict_new, callers = ?c2\<rparr>" 0 ?v 1 ?d] in
      \<open>simp add: dict_insert_locked_def dict_new_def\<close>)
  then show ?thesis unfolding race_end_def
    by (rule dict_reachable.step)
      (use locked [of "\<lparr>dict = ?d, callers = ?c2(0 := Returned ?v 1)\<rparr>" 1 ?v 1 ?d] in
        \<open>simp add: dict_insert_locked_def dict_new_def\<close>)
qed

theorem concurrent_get_or_insert_witness:
  "dict_reachable (\<lambda>_. lit ''u:a'') race_end \<and> dict_ok (dict race_end)"
proof -
  have "dict_used race_end = 1"
    by (simp add: race_end_def dict_used_def dict_insert_locked_def dict_new_def fcard_finsert_disjoint)
  then have "dict_ok (dict race_end)"
    using concurrent_get_or_insert [OF race_reachable, of 0 "lit ''u:a''" 1 1 "lit ''u:a''" 1]
    by (simp add: race_end_def)
  with race_reachable show ?thesis by simp
qed

subsection \<open>Export and import\<close>

lemma import_loop_maps:
  "iri_to_id (fst (import_loop es d m)) = fm.put_all (map (\<lambda>(n, s). (s, n)) es) (iri_to_id d) \<and>
   id_to_iri (fst (import_loop es d m)) = fm.put_all es (id_to_iri d)"
  by (induction es d m rule: import_loop.induct) (simp_all add: fm.put_all_def)

lemma dict_import_maps:
  "iri_to_id (dict_import d es) = fm.put_all (map (\<lambda>(n, s). (s, n)) es) (iri_to_id d)"
  "id_to_iri (dict_import d es) = fm.put_all es (id_to_iri d)"
  using import_loop_maps [of es d "next_id d"] by (simp_all add: dict_import_def case_prod_beta)

lemma import_loop_next:
  "(\<forall>(n, s) \<in> set es. n \<noteq> - 1) \<Longrightarrow>
     m \<le> snd (import_loop es d m) \<and> (\<forall>(n, s) \<in> set es. n < snd (import_loop es d m))"
proof (induction es d m rule: import_loop.induct)
  case (2 n s es d m)
  let ?m = "if m \<le> n then n + 1 else m"
  and ?r = "snd (import_loop ((n, s) # es) d m)"
  have "n < n + 1" using 2(2) u64_succ [of n] by simp
  then have m: "m \<le> ?m" "n < ?m" by auto
  from 2 have IH: "?m \<le> ?r" "\<forall>(n, s) \<in> set es. n < ?r" by simp_all
  from m(1) IH(1) have "m \<le> ?r" by (rule order_trans)
  moreover from m(2) IH(1) have "n < ?r" by (rule order_less_le_trans)
  ultimately show ?case using IH(2) by simp
qed simp

text \<open>C20: importing the export of a well-formed dictionary into an empty one restores both maps, so
  every IRI keeps its id, and leaves the new dictionary well-formed with its next id above
  every imported one; the iteration order of the export does not matter.\<close>

theorem export_import_roundtrip:
  assumes "hash_order iter" "dict_ok d"
  shows "iri_to_id (dict_import dict_new (dict_export iter d)) = iri_to_id d \<and>
    id_to_iri (dict_import dict_new (dict_export iter d)) = id_to_iri d \<and>
    dict_ok (dict_import dict_new (dict_export iter d))"
proof -
  let ?es = "iter (id_to_iri d)" and ?d' = "dict_import dict_new (iter (id_to_iri d))"
  have es: "(n, s) \<in> set ?es \<longleftrightarrow> fmlookup (id_to_iri d) n = Some s" for n s
    using hash_order_in_iff [OF assms(1)] .
  have dist: "distinct (map fst ?es)" using hash_order_distinct [OF assms(1)] .
  have inj: "inj_on snd (set ?es)"
    using assms(2) es by (auto simp: inj_on_def dict_ok_def) (metis option.inject)+
  have "distinct (map snd ?es)"
    using dist inj by (simp add: distinct_map)
  then have dist': "distinct (map fst (map (\<lambda>(n, s). (s, n)) ?es))"
    by (simp add: comp_def case_prod_beta)
  have 1: "id_to_iri ?d' = id_to_iri d"
    using fm.get_put_all_hash_order [OF assms(1), of "id_to_iri d" fmempty]
    by (intro fmap_ext) (simp add: dict_import_maps dict_new_def split: option.split)
  have mo: "map_of (map (\<lambda>(n, s). (s, n)) ?es) v = fmlookup (iri_to_id d) v" for v
  proof (cases "fmlookup (iri_to_id d) v")
    case None
    then have "fmlookup (id_to_iri d) n \<noteq> Some v" for n
      using assms(2) by (metis dict_ok_def option.distinct(1))
    then have "v \<notin> snd ` set ?es" using es by auto
    then show ?thesis using None by (simp add: map_of_eq_None_iff image_image case_prod_beta)
  next
    case (Some n)
    then have "(n, v) \<in> set ?es" using es assms(2) by (simp add: dict_ok_def)
    then have "(v, n) \<in> set (map (\<lambda>(n, s). (s, n)) ?es)" by force
    then show ?thesis using map_of_is_SomeI [OF dist'] Some by metis
  qed
  have 2: "iri_to_id ?d' = iri_to_id d"
    using fm.get_put_all [OF dist', of fmempty] mo
    by (intro fmap_ext) (simp add: dict_import_maps dict_new_def split: option.split)
  have "i < next_id d" "0 < i" if "fmlookup (id_to_iri d) i = Some s" for i s
    using assms(2) that by (auto simp: dict_ok_def)
  then have "i \<noteq> - 1" if "fmlookup (id_to_iri d) i = Some s" for i s
    using that word_n1_ge [of "next_id d"] by (metis leD)
  then have "\<forall>(n, s) \<in> set ?es. n \<noteq> - 1" using es by auto
  then have "\<forall>(n, s) \<in> set ?es. n < next_id ?d'"
    using import_loop_next [of ?es "next_id dict_new" dict_new]
    by (simp add: dict_import_def case_prod_beta)
  then have "dict_ok ?d'" using 1 2 es assms(2) by (auto simp: dict_ok_def)
  with 1 2 show ?thesis by (simp add: dict_export_def)
qed

theorem export_import_roundtrip_witness:
  "\<exists>d. fmlookup (iri_to_id d) (lit ''u:a'') = Some 1 \<and>
     fmlookup (id_to_iri (dict_import dict_new (dict_export key_order d))) 1 = Some (lit ''u:a'')"
proof -
  let ?d = "snd (dict_insert_locked dict_new (lit ''u:a''))"
  have "dict_ok ?d" using dict_ok_insert [OF dict_ok_new, of "lit ''u:a''"] by (simp add: dict_new_def)
  from export_import_roundtrip [OF hash_order_key_order this] show ?thesis
    by (intro exI [of _ ?d]) (simp add: dict_insert_locked_def dict_new_def)
qed

text \<open>an import that gives an id already in use to another IRI leaves the old forward entry in
  place: the old IRI still has that id, but the id now stands for the new IRI, and the
  dictionary is no longer well-formed.\<close>

theorem import_conflict:
  assumes "fmlookup (iri_to_id d) a = Some n" "a \<noteq> b"
  shows "fmlookup (iri_to_id (dict_import d [(n, b)])) a = Some n \<and>
    fmlookup (id_to_iri (dict_import d [(n, b)])) n = Some b \<and> \<not> dict_ok (dict_import d [(n, b)])"
proof -
  have "fmlookup (iri_to_id (dict_import d [(n, b)])) a = Some n"
    "fmlookup (id_to_iri (dict_import d [(n, b)])) n = Some b"
    using assms by (simp_all add: dict_import_def)
  with assms(2) show ?thesis unfolding dict_ok_def by (metis option.inject)
qed

theorem import_conflict_witness:
  "\<not> dict_ok (dict_import (dict_import dict_new [(5, lit ''u:a'')]) [(5, lit ''u:b'')])"
  using import_conflict [of "dict_import dict_new [(5, lit ''u:a'')]" "lit ''u:a''" 5 "lit ''u:b''"]
  by (simp add: dict_import_def dict_new_def)

end
