(* ===== verification/Cache.thy ===== *)
theory Cache
  imports Prelude BlankNode "HOL-Library.List_Lexorder"
begin

section \<open>Caches (storage/src/cache.rs)\<close>

text \<open>
  The LRU cache with optional time to live, and its two clients, the namespace cache and the
  query plan cache. Clock readings (\<open>Instant::now\<close>) are arguments, as natural numbers; \<open>elapsed\<close> is the
  reading minus the stored one, zero if the clock seems to run backwards, as in the
  standard library. The hash function of the plan cache (\<open>DefaultHasher\<close>) and the hash
  map's iteration order are arguments.
\<close>

record 'v cache_entry =
  ce_value :: 'v
  ce_last_access :: nat
  ce_created :: nat

record ('k, 'v) lru_cache =
  lru_capacity :: nat
  lru_entries :: "('k, 'v cache_entry) fmap"
  lru_ttl :: "nat option"

type_synonym ('k, 'v) entry_order = "('k, 'v cache_entry) fmap \<Rightarrow> ('k \<times> 'v cache_entry) list"

definition lru_new :: "nat \<Rightarrow> ('k, 'v) lru_cache" where
  "lru_new cap = \<lparr>lru_capacity = cap, lru_entries = fmempty, lru_ttl = None\<rparr>"

definition lru_with_ttl :: "nat \<Rightarrow> nat \<Rightarrow> ('k, 'v) lru_cache" where
  "lru_with_ttl cap ttl = \<lparr>lru_capacity = cap, lru_entries = fmempty, lru_ttl = Some ttl\<rparr>"

definition elapsed :: "nat \<Rightarrow> nat \<Rightarrow> nat" where
  "elapsed now since = now - since"

text \<open>\<open>get\<close> reads the clock for the expiry test (\<open>now\<close>) and again for the access time (\<open>now'\<close>).\<close>

definition lru_get :: "nat \<Rightarrow> nat \<Rightarrow> ('k, 'v) lru_cache \<Rightarrow> 'k \<Rightarrow> 'v option \<times> ('k, 'v) lru_cache" where
  "lru_get now now' c k =
     (case fmlookup (lru_entries c) k of
        None \<Rightarrow> (None, c)
      | Some e \<Rightarrow>
          (if (case lru_ttl c of Some ttl \<Rightarrow> ttl < elapsed now (ce_created e) | None \<Rightarrow> False)
           then (None, c\<lparr>lru_entries := fmdrop k (lru_entries c)\<rparr>)
           else (Some (ce_value e),
                 c\<lparr>lru_entries := fmupd k (e\<lparr>ce_last_access := now'\<rparr>) (lru_entries c)\<rparr>)))"

text \<open>\<open>min_by_key\<close>: the first of the elements with the least key.\<close>

fun min_by_key :: "('a \<Rightarrow> nat) \<Rightarrow> 'a list \<Rightarrow> 'a option" where
  "min_by_key f [] = None"
| "min_by_key f (x # xs) =
     (case min_by_key f xs of None \<Rightarrow> Some x | Some y \<Rightarrow> if f y < f x then Some y else Some x)"

definition evict_lru :: "('k, 'v) entry_order \<Rightarrow> ('k, 'v cache_entry) fmap \<Rightarrow> ('k, 'v cache_entry) fmap" where
  "evict_lru iter es =
     (if fmdom es = {||} then es
      else case map_option fst (min_by_key (\<lambda>(k, e). ce_last_access e) (iter es)) of
        Some k \<Rightarrow> fmdrop k es
      | None \<Rightarrow> es)"

definition lru_insert ::
  "('k, 'v) entry_order \<Rightarrow> nat \<Rightarrow> ('k, 'v) lru_cache \<Rightarrow> 'k \<Rightarrow> 'v \<Rightarrow> ('k, 'v) lru_cache" where
  "lru_insert iter now c k v =
     (let es = lru_entries c;
          es1 = (if lru_capacity c \<le> fcard (fmdom es) \<and> k |\<notin>| fmdom es then evict_lru iter es else es)
      in c\<lparr>lru_entries := fmupd k \<lparr>ce_value = v, ce_last_access = now, ce_created = now\<rparr> es1\<rparr>)"

definition lru_remove :: "('k, 'v) lru_cache \<Rightarrow> 'k \<Rightarrow> 'v option \<times> ('k, 'v) lru_cache" where
  "lru_remove c k = (map_option ce_value (fmlookup (lru_entries c) k),
     c\<lparr>lru_entries := fmdrop k (lru_entries c)\<rparr>)"

definition lru_contains :: "nat \<Rightarrow> ('k, 'v) lru_cache \<Rightarrow> 'k \<Rightarrow> bool" where
  "lru_contains now c k =
     (case fmlookup (lru_entries c) k of
        None \<Rightarrow> False
      | Some e \<Rightarrow> (case lru_ttl c of Some ttl \<Rightarrow> elapsed now (ce_created e) \<le> ttl | None \<Rightarrow> True))"

definition lru_clear :: "('k, 'v) lru_cache \<Rightarrow> ('k, 'v) lru_cache" where
  "lru_clear c = c\<lparr>lru_entries := fmempty\<rparr>"

definition lru_len :: "('k, 'v) lru_cache \<Rightarrow> nat" where
  "lru_len c = fcard (fmdom (lru_entries c))"

definition lru_is_empty :: "('k, 'v) lru_cache \<Rightarrow> bool" where
  "lru_is_empty c \<longleftrightarrow> lru_len c = 0"

definition lru_evict_expired :: "nat \<Rightarrow> ('k, 'v) lru_cache \<Rightarrow> ('k, 'v) lru_cache" where
  "lru_evict_expired now c =
     (case lru_ttl c of None \<Rightarrow> c
      | Some ttl \<Rightarrow> c\<lparr>lru_entries := fmfilter (\<lambda>k. case fmlookup (lru_entries c) k of
            Some e \<Rightarrow> elapsed now (ce_created e) \<le> ttl | None \<Rightarrow> False) (lru_entries c)\<rparr>)"

subsection \<open>Namespace cache\<close>

record namespace_cache =
  expansion_cache :: "(rstr, rstr) lru_cache"
  contraction_cache :: "(rstr, rstr) lru_cache"

record cache_stats =
  expansion_size :: nat
  contraction_size :: nat

definition nc_new :: namespace_cache where
  "nc_new = \<lparr>expansion_cache = lru_new 1000, contraction_cache = lru_new 1000\<rparr>"

definition nc_with_capacity :: "nat \<Rightarrow> namespace_cache" where
  "nc_with_capacity cap = \<lparr>expansion_cache = lru_new cap, contraction_cache = lru_new cap\<rparr>"

definition nc_cache_expansion ::
  "(rstr, rstr) entry_order \<Rightarrow> nat \<Rightarrow> namespace_cache \<Rightarrow> rstr \<Rightarrow> rstr \<Rightarrow> namespace_cache" where
  "nc_cache_expansion iter now c p n = c\<lparr>expansion_cache := lru_insert iter now (expansion_cache c) p n\<rparr>"

definition nc_get_expansion :: "nat \<Rightarrow> nat \<Rightarrow> namespace_cache \<Rightarrow> rstr \<Rightarrow> rstr option \<times> namespace_cache" where
  "nc_get_expansion now now' c p =
     (let (r, e) = lru_get now now' (expansion_cache c) p in (r, c\<lparr>expansion_cache := e\<rparr>))"

definition nc_cache_contraction ::
  "(rstr, rstr) entry_order \<Rightarrow> nat \<Rightarrow> namespace_cache \<Rightarrow> rstr \<Rightarrow> rstr \<Rightarrow> namespace_cache" where
  "nc_cache_contraction iter now c n p = c\<lparr>contraction_cache := lru_insert iter now (contraction_cache c) n p\<rparr>"

definition nc_get_contraction :: "nat \<Rightarrow> nat \<Rightarrow> namespace_cache \<Rightarrow> rstr \<Rightarrow> rstr option \<times> namespace_cache" where
  "nc_get_contraction now now' c n =
     (let (r, e) = lru_get now now' (contraction_cache c) n in (r, c\<lparr>contraction_cache := e\<rparr>))"

definition nc_clear :: "namespace_cache \<Rightarrow> namespace_cache" where
  "nc_clear c = c\<lparr>expansion_cache := lru_clear (expansion_cache c),
     contraction_cache := lru_clear (contraction_cache c)\<rparr>"

definition nc_stats :: "namespace_cache \<Rightarrow> cache_stats" where
  "nc_stats c = \<lparr>expansion_size = lru_len (expansion_cache c), contraction_size = lru_len (contraction_cache c)\<rparr>"

subsection \<open>Query plan cache\<close>

text \<open>The estimated cost, a float that the cache only stores, is of a type of its own.\<close>

record 'f cached_plan =
  plan_query :: rstr
  plan_cypher_statements :: "rstr list"
  plan_estimated_cost :: 'f
  plan_hit_count :: u64

type_synonym 'f plan_cache = "(u64, 'f cached_plan) lru_cache"

fun split_ws :: "rstr \<Rightarrow> rstr \<Rightarrow> rstr list" where
  "split_ws [] w = (if w = [] then [] else [w])"
| "split_ws (c # cs) w =
     (if is_whitespace c then (if w = [] then split_ws cs [] else w # split_ws cs [])
      else split_ws cs (w @ [c]))"

definition split_whitespace :: "rstr \<Rightarrow> rstr list" where
  "split_whitespace s = split_ws s []"

definition normalize_query :: "rstr \<Rightarrow> rstr" where
  "normalize_query q = join [c_space] (split_whitespace q)"

definition hash_query :: "(rstr \<Rightarrow> u64) \<Rightarrow> rstr \<Rightarrow> u64" where
  "hash_query hasher q = hasher (normalize_query q)"

definition qpc_new :: "'f plan_cache" where "qpc_new = lru_new 500"

definition qpc_with_capacity :: "nat \<Rightarrow> 'f plan_cache" where "qpc_with_capacity cap = lru_new cap"

definition qpc_with_ttl :: "nat \<Rightarrow> nat \<Rightarrow> 'f plan_cache" where "qpc_with_ttl cap ttl = lru_with_ttl cap ttl"

definition qpc_get ::
  "(rstr \<Rightarrow> u64) \<Rightarrow> nat \<Rightarrow> nat \<Rightarrow> 'f plan_cache \<Rightarrow> rstr \<Rightarrow> 'f cached_plan option \<times> 'f plan_cache" where
  "qpc_get hasher now now' c q =
     (let (r, c') = lru_get now now' c (hash_query hasher q)
      in (case r of Some p \<Rightarrow> if plan_query p = normalize_query q then Some p else None | None \<Rightarrow> None, c'))"

definition qpc_insert ::
  "(rstr \<Rightarrow> u64) \<Rightarrow> (u64, 'f cached_plan) entry_order \<Rightarrow> nat \<Rightarrow> 'f plan_cache \<Rightarrow> rstr \<Rightarrow> rstr list \<Rightarrow> 'f \<Rightarrow> 'f plan_cache" where
  "qpc_insert hasher iter now c q stmts cost =
     lru_insert iter now c (hash_query hasher q)
       \<lparr>plan_query = normalize_query q, plan_cypher_statements = stmts, plan_estimated_cost = cost,
        plan_hit_count = 0\<rparr>"

definition qpc_invalidate :: "(rstr \<Rightarrow> u64) \<Rightarrow> 'f plan_cache \<Rightarrow> rstr \<Rightarrow> 'f plan_cache" where
  "qpc_invalidate hasher c q = snd (lru_remove c (hash_query hasher q))"

definition qpc_clear :: "'f plan_cache \<Rightarrow> 'f plan_cache" where "qpc_clear c = lru_clear c"

definition qpc_len :: "'f plan_cache \<Rightarrow> nat" where "qpc_len c = lru_len c"

definition qpc_is_empty :: "'f plan_cache \<Rightarrow> bool" where "qpc_is_empty c = lru_is_empty c"

definition qpc_evict_expired :: "nat \<Rightarrow> 'f plan_cache \<Rightarrow> 'f plan_cache" where
  "qpc_evict_expired now c = lru_evict_expired now c"


subsection \<open>Operation sequences\<close>

text \<open>Every operation of the cache that changes its state, with the clock readings it makes.\<close>

datatype ('k, 'v) lru_op =
    LGet nat nat 'k
  | LInsert nat 'k 'v
  | LRemove 'k
  | LEvictExpired nat
  | LClear

fun lru_exec :: "('k, 'v) entry_order \<Rightarrow> ('k, 'v) lru_op \<Rightarrow> ('k, 'v) lru_cache \<Rightarrow> ('k, 'v) lru_cache" where
  "lru_exec iter (LGet now now' k) c = snd (lru_get now now' c k)"
| "lru_exec iter (LInsert now k v) c = lru_insert iter now c k v"
| "lru_exec iter (LRemove k) c = snd (lru_remove c k)"
| "lru_exec iter (LEvictExpired now) c = lru_evict_expired now c"
| "lru_exec iter LClear c = lru_clear c"

datatype 'f qpc_op =
    QGet nat nat rstr
  | QInsert nat rstr "rstr list" 'f
  | QInvalidate rstr
  | QEvictExpired nat
  | QClear

fun qpc_exec ::
  "(rstr \<Rightarrow> u64) \<Rightarrow> (u64, 'f cached_plan) entry_order \<Rightarrow> 'f qpc_op \<Rightarrow> 'f plan_cache \<Rightarrow> 'f plan_cache" where
  "qpc_exec hasher iter (QGet now now' q) c = snd (qpc_get hasher now now' c q)"
| "qpc_exec hasher iter (QInsert now q stmts cost) c = qpc_insert hasher iter now c q stmts cost"
| "qpc_exec hasher iter (QInvalidate q) c = qpc_invalidate hasher c q"
| "qpc_exec hasher iter (QEvictExpired now) c = qpc_evict_expired now c"
| "qpc_exec hasher iter QClear c = qpc_clear c"

subsection \<open>The interface: a store that may forget\<close>

text \<open>
  What a client may rely on from any cache: an operation writes at most one key, the key
  it writes reads back as written or not at all, and no other operation makes a value
  appear. Whatever is read after a sequence of operations is then the last value written.
\<close>

fun last_write :: "('op \<Rightarrow> ('k \<times> 'v) option) \<Rightarrow> 'op list \<Rightarrow> 'k \<Rightarrow> 'v option" where
  "last_write w [] k = None"
| "last_write w (op # ops) k =
     (case last_write w ops k of Some v \<Rightarrow> Some v
      | None \<Rightarrow> (case w op of Some (k', v) \<Rightarrow> if k' = k then Some v else None | None \<Rightarrow> None))"

lemma last_write_snoc:
  "last_write w (ops @ [op]) k =
     (case w op of Some (k', v) \<Rightarrow> if k' = k then Some v else last_write w ops k
      | None \<Rightarrow> last_write w ops k)"
  by (induction ops) (auto split: option.splits prod.splits)

locale lossy_store =
  fixes read :: "'s \<Rightarrow> 'k \<Rightarrow> 'v option" and exec :: "'op \<Rightarrow> 's \<Rightarrow> 's"
    and writes :: "'op \<Rightarrow> ('k \<times> 'v) option"
  assumes read_written: "writes op = Some (k, v) \<Longrightarrow> read (exec op s) k = Some v' \<Longrightarrow> v' = v"
    and read_other: "map_option fst (writes op) \<noteq> Some k \<Longrightarrow> read (exec op s) k = Some v' \<Longrightarrow> read s k = Some v'"
begin

lemma read_last_write:
  assumes "\<And>k. read s k = None" "read (fold exec ops s) k = Some v"
  shows "last_write writes ops k = Some v"
  using assms(2)
proof (induction ops arbitrary: v rule: rev_induct)
  case Nil
  then show ?case using assms(1) by simp
next
  case (snoc op ops)
  have r: "read (exec op (fold exec ops s)) k = Some v"
    using snoc.prems by simp
  show ?case
  proof (cases "map_option fst (writes op) = Some k")
    case True
    then obtain w where w: "writes op = Some (k, w)" by auto
    then have "v = w" using read_written r by blast
    with w show ?thesis by (simp add: last_write_snoc)
  next
    case False
    then have "read (fold exec ops s) k = Some v"
      using r by (rule read_other)
    with False snoc.IH show ?thesis by (auto simp: last_write_snoc split: option.splits)
  qed
qed

end

definition lru_value :: "('k, 'v) lru_cache \<Rightarrow> 'k \<Rightarrow> 'v option" where
  "lru_value c k = map_option ce_value (fmlookup (lru_entries c) k)"

fun lru_writes :: "('k, 'v) lru_op \<Rightarrow> ('k \<times> 'v) option" where
  "lru_writes (LInsert now k v) = Some (k, v)"
| "lru_writes _ = None"

definition plan_value :: "(rstr \<Rightarrow> u64) \<Rightarrow> 'f plan_cache \<Rightarrow> rstr \<Rightarrow> 'f cached_plan option" where
  "plan_value hasher c nq =
     (case lru_value c (hasher nq) of Some p \<Rightarrow> if plan_query p = nq then Some p else None | None \<Rightarrow> None)"

definition fresh_plan :: "rstr \<Rightarrow> rstr list \<Rightarrow> 'f \<Rightarrow> 'f cached_plan" where
  "fresh_plan q stmts cost = \<lparr>plan_query = normalize_query q, plan_cypher_statements = stmts,
     plan_estimated_cost = cost, plan_hit_count = 0\<rparr>"

fun qpc_writes :: "'f qpc_op \<Rightarrow> (rstr \<times> 'f cached_plan) option" where
  "qpc_writes (QInsert now q stmts cost) = Some (normalize_query q, fresh_plan q stmts cost)"
| "qpc_writes _ = None"

lemma evict_lru_lookup: "fmlookup (evict_lru iter es) k = Some e \<Longrightarrow> fmlookup es k = Some e"
  by (auto simp: evict_lru_def split: if_splits option.splits)

lemma lru_value_insert:
  "lru_value (lru_insert iter now c k v) j = Some w \<Longrightarrow> (if j = k then w = v else lru_value c j = Some w)"
  by (auto simp: lru_value_def lru_insert_def Let_def dest: evict_lru_lookup split: if_splits)

lemma lru_value_get: "lru_value (snd (lru_get now now' c k)) j = Some w \<Longrightarrow> lru_value c j = Some w"
  by (auto simp: lru_value_def lru_get_def split: option.splits if_splits)

lemma lru_value_remove: "lru_value (snd (lru_remove c k)) j = Some w \<Longrightarrow> lru_value c j = Some w"
  by (auto simp: lru_value_def lru_remove_def split: if_splits)

lemma lru_value_clear [simp]: "lru_value (lru_clear c) j = None"
  by (simp add: lru_value_def lru_clear_def)

lemma lru_value_evict_expired:
  "lru_value (lru_evict_expired now c) j = Some w \<Longrightarrow> lru_value c j = Some w"
  by (auto simp: lru_value_def lru_evict_expired_def split: option.splits if_splits)

lemmas lru_value_ops = lru_value_get lru_value_remove lru_value_evict_expired

interpretation lru: lossy_store lru_value "lru_exec iter" lru_writes
proof (unfold_locales, goal_cases)
  case (1 op k v s v')
  then show ?case by (cases op) (auto dest: lru_value_insert)
next
  case (2 op k s v')
  then show ?case by (cases op) (auto dest: lru_value_insert lru_value_ops split: if_splits)
qed

lemma plan_value_mono:
  assumes "\<And>j w. lru_value c' j = Some w \<Longrightarrow> lru_value c j = Some w"
  shows "plan_value hasher c' q = Some p \<Longrightarrow> plan_value hasher c q = Some p"
  using assms by (auto simp: plan_value_def split: option.splits if_splits)

lemma snd_qpc_get [simp]: "snd (qpc_get hasher now now' c q) = snd (lru_get now now' c (hash_query hasher q))"
  by (simp add: qpc_get_def case_prod_beta)

lemma plan_value_insert:
  assumes "plan_value hasher (qpc_insert hasher iter now c q stmts cost) nq = Some p"
  shows "if nq = normalize_query q then p = fresh_plan q stmts cost else plan_value hasher c nq = Some p"
proof -
  let ?c = "lru_insert iter now c (hash_query hasher q) (fresh_plan q stmts cost)"
  have v: "lru_value ?c (hasher nq) = Some p" and nq: "plan_query p = nq"
    using assms by (auto simp: plan_value_def qpc_insert_def fresh_plan_def split: option.splits if_splits)
  from lru_value_insert [OF v] nq show ?thesis
    by (auto simp: plan_value_def hash_query_def fresh_plan_def split: if_splits)
qed

interpretation qp: lossy_store "plan_value hasher" "qpc_exec hasher iter" qpc_writes
proof (unfold_locales, goal_cases)
  case (1 op k v s v')
  then show ?case by (cases op) (auto dest: plan_value_insert)
next
  case (2 op k s v')
  show ?case
  proof (cases op)
    case (QInsert now q stmts cost)
    with 2 show ?thesis by (auto dest!: plan_value_insert split: if_splits)
  qed (use 2 in \<open>auto simp: qpc_invalidate_def qpc_evict_expired_def qpc_clear_def
      dest: lru_value_ops elim!: plan_value_mono [rotated]\<close>)
qed


subsection \<open>Size and eviction\<close>

lemma min_by_key_Some:
  "min_by_key f xs = Some x \<Longrightarrow> x \<in> set xs \<and> (\<forall>y\<in>set xs. f x \<le> f y)"
proof (induction xs arbitrary: x)
  case (Cons a xs)
  show ?case
  proof (cases "min_by_key f xs")
    case None
    then have "xs = []" by (cases xs) (auto split: option.splits if_splits)
    with Cons.prems show ?thesis by simp
  next
    case (Some y)
    with Cons show ?thesis by (fastforce split: if_splits)
  qed
qed simp

lemma min_by_key_None: "min_by_key f xs = None \<longleftrightarrow> xs = []"
  by (cases xs) (auto split: option.splits)

lemma evict_lru_correct:
  assumes "hash_order iter" "es \<noteq> fmempty"
  shows "\<exists>k e. fmlookup es k = Some e \<and> evict_lru iter es = fmdrop k es \<and>
    (\<forall>k' e'. fmlookup es k' = Some e' \<longrightarrow> ce_last_access e \<le> ce_last_access e')"
proof -
  obtain k0 e0 where "fmlookup es k0 = Some e0"
    using assms(2) by (metis fmap_ext fmempty_lookup option.exhaust)
  then have "(k0, e0) \<in> set (iter es)" using assms(1) by (simp add: hash_order_in_iff)
  then have "min_by_key (\<lambda>(k, e). ce_last_access e) (iter es) \<noteq> None"
    by (auto simp: min_by_key_None)
  then obtain k e where m: "min_by_key (\<lambda>(k, e). ce_last_access e) (iter es) = Some (k, e)" by auto
  have "fmdom es \<noteq> {||}" using fmdomI [OF \<open>fmlookup es k0 = Some e0\<close>] by auto
  then have "evict_lru iter es = fmdrop k es" using m by (simp add: evict_lru_def)
  moreover have e: "(k, e) \<in> set (iter es)"
    and le: "\<forall>(k', e')\<in>set (iter es). ce_last_access e \<le> ce_last_access e'"
    using min_by_key_Some [OF m] by auto
  moreover have "fmlookup es k = Some e"
    using e by (simp add: hash_order_in_iff [OF assms(1)])
  moreover have "ce_last_access e \<le> ce_last_access e'" if "fmlookup es k' = Some e'" for k' e'
    using le that by (auto simp: hash_order_in_iff [OF assms(1), symmetric])
  ultimately show ?thesis by blast
qed

lemma fcard_fmdrop: "fcard (fmdom (fmdrop k m)) \<le> fcard (fmdom m)"
  by (rule fcard_mono) auto

lemma fcard_fmdrop_mem: "k |\<in>| fmdom m \<Longrightarrow> Suc (fcard (fmdom (fmdrop k m))) = fcard (fmdom m)"
  using fcard_Suc_fminus1 [of k "fmdom m"] by simp

lemma lru_insert_len:
  assumes "hash_order iter" "lru_len c \<le> max 1 (lru_capacity c)"
  shows "lru_len (lru_insert iter now c k v) \<le> max 1 (lru_capacity c)"
proof (cases "k |\<in>| fmdom (lru_entries c)")
  case True
  then show ?thesis using assms(2) by (simp add: lru_len_def lru_insert_def Let_def finsert_absorb)
next
  case new: False
  have ins: "fcard (fmdom (fmupd k e es)) \<le> Suc (fcard (fmdom es))" for e and es :: "('a, 'b cache_entry) fmap"
    by (simp add: fcard_finsert_if)
  show ?thesis
  proof (cases "lru_entries c = fmempty")
    case True
    then show ?thesis by (simp add: lru_len_def lru_insert_def Let_def evict_lru_def fcard_finsert_if fcard_fempty)
  next
    case ne: False
    show ?thesis
    proof (cases "lru_capacity c \<le> fcard (fmdom (lru_entries c))")
      case True
      obtain j e where "fmlookup (lru_entries c) j = Some e" "evict_lru iter (lru_entries c) = fmdrop j (lru_entries c)"
        using evict_lru_correct [OF assms(1) ne] by blast
      then have "Suc (fcard (fmdom (evict_lru iter (lru_entries c)))) = fcard (fmdom (lru_entries c))"
        by (simp add: fcard_fmdrop_mem fmdomI del: fmdom_drop)
      with True new assms(2) ins [of _ "evict_lru iter (lru_entries c)"] show ?thesis
        by (simp add: lru_len_def lru_insert_def Let_def del: fmdom_fmupd) (meson le_trans)
    next
      case False
      with new assms(2) ins [of _ "lru_entries c"] show ?thesis
        by (simp add: lru_len_def lru_insert_def Let_def del: fmdom_fmupd) (meson Suc_leI not_le le_trans max.coboundedI2)
    qed
  qed
qed

lemma lru_capacity_exec [simp]: "lru_capacity (lru_exec iter op c) = lru_capacity c"
  by (cases op) (auto simp: lru_get_def lru_insert_def lru_remove_def lru_evict_expired_def lru_clear_def
      Let_def split: option.splits)

lemma lru_len_mono:
  "lru_len (snd (lru_get now now' c k)) \<le> lru_len c" "lru_len (snd (lru_remove c k)) \<le> lru_len c"
  "lru_len (lru_evict_expired now c) \<le> lru_len c" "lru_len (lru_clear c) = 0"
proof -
  have upd: "k |\<in>| fmdom m \<Longrightarrow> fcard (fmdom (fmupd k e m)) = fcard (fmdom m)" for k e and m :: "('x, 'y) fmap"
    by (simp add: finsert_absorb)
  show "lru_len (snd (lru_get now now' c k)) \<le> lru_len c"
    using fcard_fmdrop [of k "lru_entries c"]
    by (auto simp: lru_len_def lru_get_def upd fmdomI simp del: fmdom_fmupd fmdom_drop split: option.splits)
  show "lru_len (snd (lru_remove c k)) \<le> lru_len c"
    using fcard_fmdrop by (simp add: lru_len_def lru_remove_def del: fmdom_drop)
  show "lru_len (lru_evict_expired now c) \<le> lru_len c"
    by (auto simp: lru_len_def lru_evict_expired_def fmdom_filter intro!: fcard_mono split: option.splits)
  show "lru_len (lru_clear c) = 0"
    by (simp add: lru_len_def lru_clear_def)
qed

lemma lru_exec_len:
  assumes "hash_order iter" "lru_len c \<le> max 1 (lru_capacity c)"
  shows "lru_len (lru_exec iter op c) \<le> max 1 (lru_capacity c)"
proof (cases op)
  case (LInsert now k v)
  with lru_insert_len [OF assms] show ?thesis by simp
next
  case (LGet now now' k)
  with order_trans [OF lru_len_mono(1) assms(2)] show ?thesis by simp
next
  case (LRemove k)
  with order_trans [OF lru_len_mono(2) assms(2)] show ?thesis by simp
next
  case (LEvictExpired now)
  with order_trans [OF lru_len_mono(3) assms(2)] show ?thesis by simp
qed (simp add: lru_len_mono)


subsection \<open>Properties of the caches\<close>

text \<open>C34: Whatever sequence of operations runs on an empty cache, with or without a time to live,
  it never holds more entries than its capacity, or than one when the capacity is zero.\<close>

theorem lru_size_bound:
  assumes "hash_order iter" "c \<in> {lru_new cap, lru_with_ttl cap ttl}"
  shows "lru_len (fold (lru_exec iter) ops c) \<le> max 1 cap"
proof -
  have "lru_capacity (fold (lru_exec iter) ops c) = lru_capacity c" for ops
    by (induction ops rule: rev_induct) simp_all
  moreover have "lru_capacity c = cap" "lru_len c = 0"
    using assms(2) by (auto simp: lru_new_def lru_with_ttl_def lru_len_def fcard_fempty)
  ultimately show ?thesis
  proof (induction ops rule: rev_induct)
    case (snoc op ops)
    then show ?case using lru_exec_len [OF assms(1), of "fold (lru_exec iter) ops c" op] by simp
  qed simp
qed

theorem lru_size_bound_witness:
  "lru_len (fold (lru_exec key_order) [LInsert 0 (1::nat) (5::nat), LInsert 1 2 6, LGet 2 2 1, LInsert 3 3 7]
     (lru_new 2)) \<le> max 1 2"
  using lru_size_bound [OF hash_order_key_order, of "lru_new 2" 2 0] by blast

text \<open>A cache of capacity zero does hold an entry after an insertion: the capacity is tested
  before the insertion and the eviction of an empty map does nothing.\<close>

theorem lru_zero_capacity:
  "lru_len (lru_insert iter now (lru_new 0) k v) = 1 \<and>
   fst (lru_get now' now'' (lru_insert iter now (lru_new 0) k v) k) = Some v"
  by (simp add: lru_len_def lru_insert_def lru_new_def evict_lru_def lru_get_def fcard_finsert_if fcard_fempty)

text \<open>Inserting a new key into a full cache removes exactly one entry, one with the oldest
  access time, and adds the new one with the clock reading as creation and access time.\<close>

theorem lru_insert_evicts_oldest:
  assumes "hash_order iter" "0 < lru_len c" "lru_capacity c \<le> lru_len c" "fmlookup (lru_entries c) k = None"
  shows "\<exists>j e. fmlookup (lru_entries c) j = Some e \<and>
      (\<forall>j' e'. fmlookup (lru_entries c) j' = Some e' \<longrightarrow> ce_last_access e \<le> ce_last_access e') \<and>
      lru_insert iter now c k v = c\<lparr>lru_entries := fmupd k
        \<lparr>ce_value = v, ce_last_access = now, ce_created = now\<rparr> (fmdrop j (lru_entries c))\<rparr>"
proof -
  have "lru_entries c \<noteq> fmempty" using assms(2) by (auto simp: lru_len_def fcard_fempty)
  from evict_lru_correct [OF assms(1) this] obtain j e
    where "fmlookup (lru_entries c) j = Some e"
      and "evict_lru iter (lru_entries c) = fmdrop j (lru_entries c)"
      and "\<forall>j' e'. fmlookup (lru_entries c) j' = Some e' \<longrightarrow> ce_last_access e \<le> ce_last_access e'"
    by blast
  then show ?thesis using assms(3,4)
    by - (rule exI [of _ j], rule exI [of _ e], simp add: lru_insert_def lru_len_def Let_def fmlookup_dom_iff)
qed

definition full_cache :: "(nat, nat) lru_cache" where
  "full_cache = \<lparr>lru_capacity = 1, lru_entries =
     fmupd 1 \<lparr>ce_value = 10, ce_last_access = 4, ce_created = 0\<rparr> fmempty, lru_ttl = None\<rparr>"

theorem lru_insert_evicts_oldest_witness:
  "\<exists>j e. fmlookup (lru_entries full_cache) j = Some e \<and>
      (\<forall>j' e'. fmlookup (lru_entries full_cache) j' = Some e' \<longrightarrow> ce_last_access e \<le> ce_last_access e') \<and>
      lru_insert key_order 9 full_cache 2 20 = full_cache\<lparr>lru_entries := fmupd 2
        \<lparr>ce_value = 20, ce_last_access = 9, ce_created = 9\<rparr> (fmdrop j (lru_entries full_cache))\<rparr>"
  by (rule lru_insert_evicts_oldest [OF hash_order_key_order])
    (simp_all add: full_cache_def lru_len_def fcard_finsert_if fcard_fempty)

text \<open>A lookup returns the stored value exactly when \<open>contains\<close> holds at that time; it
  renews the access time of a live entry, removes an expired one, and touches no other entry.\<close>

theorem lru_get_correct:
  "lru_get now now' c k =
     (if lru_contains now c k then lru_value c k else None,
      c\<lparr>lru_entries := (case fmlookup (lru_entries c) k of
          None \<Rightarrow> lru_entries c
        | Some e \<Rightarrow> if lru_contains now c k then fmupd k (e\<lparr>ce_last_access := now'\<rparr>) (lru_entries c)
                    else fmdrop k (lru_entries c))\<rparr>)"
  by (auto simp: lru_get_def lru_contains_def lru_value_def split: option.splits)

text \<open>After any sequence of operations on an empty cache a lookup that returns a value returns
  the one most recently inserted under that key: eviction, expiry and removal only forget.\<close>

theorem lru_get_last_insert:
  assumes "c \<in> {lru_new cap, lru_with_ttl cap ttl}"
    and "fst (lru_get now now' (fold (lru_exec iter) ops c) k) = Some v"
  shows "last_write lru_writes ops k = Some v"
proof -
  have "lru_value c k = None" for k
    using assms(1) by (auto simp: lru_value_def lru_new_def lru_with_ttl_def)
  moreover have "lru_value (fold (lru_exec iter) ops c) k = Some v"
    using assms(2) by (auto simp: lru_get_def lru_value_def split: option.splits if_splits)
  ultimately show ?thesis by (rule lru.read_last_write)
qed

theorem lru_get_last_insert_witness:
  "last_write lru_writes [LInsert 0 (1::nat) (5::nat), LInsert 3 1 6, LGet 4 4 1] 1 = Some 6"
  by (rule lru_get_last_insert [where c = "lru_new 2" and cap = 2 and ttl = 0 and iter = key_order
        and now = 5 and now' = 5])
    (simp_all add: lru_new_def lru_insert_def lru_get_def Let_def fcard_finsert_if fcard_fempty)

text \<open>C18: For every hash function, collisions included: a plan that the query plan cache returns
  after any sequence of operations is the one inserted last for a query with the same
  normalised text.\<close>

theorem plan_cache_sound:
  assumes "c \<in> {qpc_new, qpc_with_capacity cap, qpc_with_ttl cap ttl}"
    and "fst (qpc_get hasher now now' (fold (qpc_exec hasher iter) ops c) q) = Some p"
  shows "last_write qpc_writes ops (normalize_query q) = Some p"
proof -
  have "plan_value hasher c k = None" for k
    using assms(1) by (auto simp: plan_value_def lru_value_def qpc_new_def qpc_with_capacity_def
        qpc_with_ttl_def lru_new_def lru_with_ttl_def)
  moreover have "plan_value hasher (fold (qpc_exec hasher iter) ops c) (normalize_query q) = Some p"
    using assms(2) by (auto simp: qpc_get_def lru_get_def lru_value_def plan_value_def hash_query_def
        split: option.splits if_splits)
  ultimately show ?thesis by (rule qp.read_last_write)
qed

theorem plan_cache_sound_witness:
  "last_write qpc_writes [QInsert 0 (lit ''a b'') [lit ''x''] (7::nat), QInsert 1 (lit ''c'') [lit ''y''] 8]
     (normalize_query (lit ''c'')) = Some (fresh_plan (lit ''c'') [lit ''y''] 8)"
  by (rule plan_cache_sound [where c = qpc_new and cap = 0 and ttl = 0 and hasher = "\<lambda>_. 0" and now = 2
        and now' = 2 and iter = key_order])
    (simp_all add: qpc_new_def lru_new_def qpc_insert_def lru_insert_def Let_def fcard_finsert_if fcard_fempty
      qpc_get_def lru_get_def hash_query_def fresh_plan_def)

text \<open>A plan just inserted is found under every query that differs only in white space,
  as long as its time to live has not passed.\<close>

theorem plan_cache_hit:
  assumes "normalize_query q' = normalize_query q"
    and "\<And>ttl. lru_ttl c = Some ttl \<Longrightarrow> elapsed now' now \<le> ttl"
  shows "fst (qpc_get hasher now' now'' (qpc_insert hasher iter now c q stmts cost) q') = Some (fresh_plan q stmts cost)"
  using assms by (auto simp: qpc_get_def qpc_insert_def lru_get_def lru_insert_def Let_def hash_query_def
      fresh_plan_def not_less split: option.splits)

theorem plan_cache_hit_witness:
  "fst (qpc_get (\<lambda>_. 0) 12 12 (qpc_insert (\<lambda>_. 0) key_order 10 (qpc_with_ttl 3 5) (lit ''a b'') [] (0::nat))
     (lit '' a   b '')) = Some (fresh_plan (lit ''a b'') [] 0)"
  by (rule plan_cache_hit)
    (simp_all add: qpc_with_ttl_def lru_with_ttl_def elapsed_def normalize_query_def split_whitespace_def
      lit_def is_whitespace_def)

lemma split_ws_word:
  "\<forall>c\<in>set w. \<not> is_whitespace c \<Longrightarrow> split_ws (w @ r) acc = split_ws r (acc @ w)"
  by (induction w arbitrary: acc) auto

lemma split_ws_join:
  assumes "\<forall>w\<in>set ws. w \<noteq> [] \<and> (\<forall>c\<in>set w. \<not> is_whitespace c)"
  shows "split_ws (join [c_space] ws) [] = ws"
  using assms
proof (induction ws)
  case (Cons w ws)
  have "is_whitespace c_space" by (simp add: is_whitespace_def)
  with Cons split_ws_word [of w "[]" "[]"] show ?case
    by (auto simp: join_Cons split_ws_word)
qed simp

definition is_word :: "rstr \<Rightarrow> bool" where
  "is_word w \<longleftrightarrow> w \<noteq> [] \<and> (\<forall>c\<in>set w. \<not> is_whitespace c)"

lemma split_ws_words: "acc = [] \<or> is_word acc \<Longrightarrow> list_all is_word (split_ws s acc)"
proof (induction s arbitrary: acc)
  case (Cons c s)
  then have "is_word (acc @ [c])" if "\<not> is_whitespace c"
    using that by (auto simp: is_word_def)
  with Cons show ?case by auto
qed auto

text \<open>Two queries share a plan exactly when they are the same sequence of words; normalising is
  idempotent, and the normalised text has no white space but single spaces.\<close>

theorem normalize_query_correct:
  "(normalize_query q = normalize_query q' \<longleftrightarrow> split_whitespace q = split_whitespace q') \<and>
   normalize_query (normalize_query q) = normalize_query q \<and>
   split_whitespace (normalize_query q) = split_whitespace q"
proof -
  have eq: "split_whitespace (normalize_query q) = split_whitespace q" for q
    using split_ws_words [of "[]" q] split_ws_join [of "split_ws q []"]
    by (simp add: normalize_query_def split_whitespace_def list_all_iff is_word_def)
  have inj: "normalize_query q = normalize_query q' \<Longrightarrow> split_whitespace q = split_whitespace q'"
    using eq [of q] eq [of q'] by simp
  then show ?thesis
    using eq by (auto simp: normalize_query_def)
qed

end
