(* ===== verification/Index.thy ===== *)
theory Index
  imports Dictionary
begin

section \<open>Lookup indexes (storage/src/index.rs)\<close>

text \<open>
  The four indexes over interned identifiers and their manager. A \<open>Vec\<close> that a lookup
  collects from a hash set is represented by that set, its order being unspecified; the
  loop of \<open>remove_subject\<close>, whose intermediate states depend on the order, takes the order
  as an argument. A selectivity is a float: the division of the two counters is an argument
  (\<open>fdiv\<close>) with values in a linear order, and the constants of \<open>estimated_cost\<close>
  are arguments too. Counters are natural numbers: each call adds at most one, so a \<open>usize\<close>
  does not overflow in feasible runs.
\<close>

text \<open>What the library promises of iterating over a \<open>HashSet\<close>.\<close>

definition set_order :: "('a fset \<Rightarrow> 'a list) \<Rightarrow> bool" where
  "set_order it \<longleftrightarrow> (\<forall>s. distinct (it s) \<and> set (it s) = fset s)"

lemma set_order_sorted: "set_order sorted_list_of_fset"
  by (simp add: set_order_def sorted_list_of_fset.rep_eq)

subsection \<open>Maps to sets\<close>

text \<open>\<open>map.get(k)\<close> with \<open>unwrap_or_default\<close>; \<open>map.entry(k).or_default().insert(x)\<close>; and the removal
  that drops a key whose set becomes empty.\<close>

definition mm_get :: "('k, 'a fset) fmap \<Rightarrow> 'k \<Rightarrow> 'a fset" where
  "mm_get m k = (case fmlookup m k of Some s \<Rightarrow> s | None \<Rightarrow> {||})"

definition mm_add :: "'k \<Rightarrow> 'a \<Rightarrow> ('k, 'a fset) fmap \<Rightarrow> ('k, 'a fset) fmap" where
  "mm_add k x m = fmupd k (finsert x (mm_get m k)) m"

definition mm_del :: "'k \<Rightarrow> 'a \<Rightarrow> ('k, 'a fset) fmap \<Rightarrow> ('k, 'a fset) fmap" where
  "mm_del k x m = (case fmlookup m k of
       Some s \<Rightarrow> (let s' = s |-| {|x|} in if s' = {||} then fmdrop k m else fmupd k s' m)
     | None \<Rightarrow> m)"

definition no_empty_sets :: "('k, 'a fset) fmap \<Rightarrow> bool" where
  "no_empty_sets m \<longleftrightarrow> (\<forall>k. fmlookup m k \<noteq> Some {||})"

lemma mm_get_empty [simp]: "mm_get fmempty k = {||}"
  by (simp add: mm_get_def)

lemma mm_get_add [simp]: "mm_get (mm_add k x m) j = (if j = k then finsert x (mm_get m k) else mm_get m j)"
  by (simp add: mm_get_def mm_add_def)

lemma mm_get_del [simp]: "mm_get (mm_del k x m) j = (if j = k then mm_get m k |-| {|x|} else mm_get m j)"
  by (auto simp: mm_get_def mm_del_def Let_def split: option.splits)

lemma mm_get_drop [simp]: "mm_get (fmdrop k m) j = (if j = k then {||} else mm_get m j)"
  by (simp add: mm_get_def)

lemma no_empty_sets_ops [simp]:
  "no_empty_sets fmempty" "no_empty_sets m \<Longrightarrow> no_empty_sets (mm_add k x m)"
  "no_empty_sets m \<Longrightarrow> no_empty_sets (mm_del k x m)" "no_empty_sets m \<Longrightarrow> no_empty_sets (fmdrop k m)"
  by (auto simp: no_empty_sets_def mm_add_def mm_del_def Let_def split: option.splits)

lemma mm_lookup: "no_empty_sets m \<Longrightarrow> fmlookup m k = (if mm_get m k = {||} then None else Some (mm_get m k))"
  by (auto simp: no_empty_sets_def mm_get_def split: option.splits)

subsection \<open>Interface of an index: a relation maintained by adding and deleting pairs\<close>

datatype ('a, 'b) rel_op = RAdd 'a 'b | RDel 'a 'b

fun rel_exec :: "('a, 'b) rel_op \<Rightarrow> ('a \<times> 'b) set \<Rightarrow> ('a \<times> 'b) set" where
  "rel_exec (RAdd a b) r = insert (a, b) r"
| "rel_exec (RDel a b) r = r - {(a, b)}"

locale relation_store =
  fixes rel :: "'s \<Rightarrow> ('a \<times> 'b) set" and ok :: "'s \<Rightarrow> bool"
    and add :: "'a \<Rightarrow> 'b \<Rightarrow> 's \<Rightarrow> 's" and del :: "'a \<Rightarrow> 'b \<Rightarrow> 's \<Rightarrow> 's"
  assumes rel_add: "ok s \<Longrightarrow> rel (add a b s) = insert (a, b) (rel s)"
    and rel_del: "ok s \<Longrightarrow> rel (del a b s) = rel s - {(a, b)}"
    and ok_add: "ok s \<Longrightarrow> ok (add a b s)"
    and ok_del: "ok s \<Longrightarrow> ok (del a b s)"
begin

fun exec :: "('a, 'b) rel_op \<Rightarrow> 's \<Rightarrow> 's" where
  "exec (RAdd a b) s = add a b s"
| "exec (RDel a b) s = del a b s"

lemma exec_step: "ok s \<Longrightarrow> ok (exec op s) \<and> rel (exec op s) = rel_exec op (rel s)"
  by (cases op) (simp_all add: rel_add rel_del ok_add ok_del)

lemma fold_exec: "ok s \<Longrightarrow> ok (fold exec ops s) \<and> rel (fold exec ops s) = fold rel_exec ops (rel s)"
  by (induction ops arbitrary: s) (simp_all add: exec_step)

lemma fold_del:
  "ok s \<Longrightarrow> ok (fold (\<lambda>a. del a b) as s) \<and> rel (fold (\<lambda>a. del a b) as s) = rel s - set as \<times> {b}"
proof (induction as arbitrary: s)
  case (Cons a as)
  from Cons.IH [OF ok_del [OF Cons.prems]] show ?case
    by (auto simp: rel_del Cons.prems)
qed simp

end

definition mm_rel :: "('k, 'a fset) fmap \<Rightarrow> ('k \<times> 'a) set" where
  "mm_rel m = {(k, x). x |\<in>| mm_get m k}"

interpretation mm: relation_store mm_rel no_empty_sets mm_add mm_del
  by unfold_locales (auto simp: mm_rel_def split: if_splits)

subsection \<open>Namespace index\<close>

record namespace_index =
  namespace_to_ids :: "(rstr, iri_id fset) fmap"
  id_to_namespace :: "(iri_id, rstr) fmap"

definition nsi_new :: namespace_index where
  "nsi_new = \<lparr>namespace_to_ids = fmempty, id_to_namespace = fmempty\<rparr>"

definition nsi_add :: "iri_id \<Rightarrow> rstr \<Rightarrow> namespace_index \<Rightarrow> namespace_index" where
  "nsi_add i ns x = x\<lparr>namespace_to_ids := mm_add ns i (namespace_to_ids x),
     id_to_namespace := fmupd i ns (id_to_namespace x)\<rparr>"

definition nsi_get_by_namespace :: "namespace_index \<Rightarrow> rstr \<Rightarrow> iri_id fset" where
  "nsi_get_by_namespace x ns = mm_get (namespace_to_ids x) ns"

definition nsi_get_namespace :: "namespace_index \<Rightarrow> iri_id \<Rightarrow> rstr option" where
  "nsi_get_namespace x i = fmlookup (id_to_namespace x) i"

definition nsi_namespaces :: "namespace_index \<Rightarrow> rstr fset" where
  "nsi_namespaces x = fmdom (namespace_to_ids x)"

definition nsi_namespace_count :: "namespace_index \<Rightarrow> rstr \<Rightarrow> nat" where
  "nsi_namespace_count x ns = (case fmlookup (namespace_to_ids x) ns of Some s \<Rightarrow> fcard s | None \<Rightarrow> 0)"

definition nsi_remove :: "iri_id \<Rightarrow> namespace_index \<Rightarrow> namespace_index" where
  "nsi_remove i x =
     (let x1 = x\<lparr>id_to_namespace := fmdrop i (id_to_namespace x)\<rparr>
      in case fmlookup (id_to_namespace x) i of
           Some ns \<Rightarrow> x1\<lparr>namespace_to_ids := mm_del ns i (namespace_to_ids x1)\<rparr>
         | None \<Rightarrow> x1)"

definition nsi_clear :: "namespace_index \<Rightarrow> namespace_index" where
  "nsi_clear x = x\<lparr>namespace_to_ids := fmempty, id_to_namespace := fmempty\<rparr>"

definition nsi_len :: "namespace_index \<Rightarrow> nat" where
  "nsi_len x = fcard (fmdom (id_to_namespace x))"

definition nsi_is_empty :: "namespace_index \<Rightarrow> bool" where
  "nsi_is_empty x \<longleftrightarrow> nsi_len x = 0"

subsection \<open>Local name index\<close>

record local_name_index =
  local_to_ids :: "(rstr, iri_id fset) fmap"

definition lni_new :: local_name_index where
  "lni_new = \<lparr>local_to_ids = fmempty\<rparr>"

definition lni_add :: "iri_id \<Rightarrow> rstr \<Rightarrow> local_name_index \<Rightarrow> local_name_index" where
  "lni_add i l x = x\<lparr>local_to_ids := mm_add l i (local_to_ids x)\<rparr>"

definition lni_get_by_local_name :: "local_name_index \<Rightarrow> rstr \<Rightarrow> iri_id fset" where
  "lni_get_by_local_name x l = mm_get (local_to_ids x) l"

definition lni_contains :: "local_name_index \<Rightarrow> rstr \<Rightarrow> bool" where
  "lni_contains x l \<longleftrightarrow> l |\<in>| fmdom (local_to_ids x)"

definition lni_clear :: "local_name_index \<Rightarrow> local_name_index" where
  "lni_clear x = x\<lparr>local_to_ids := fmempty\<rparr>"

subsection \<open>Type index\<close>

record type_index =
  type_to_subjects :: "(iri_id, iri_id fset) fmap"
  subject_to_types :: "(iri_id, iri_id fset) fmap"

definition tyi_new :: type_index where
  "tyi_new = \<lparr>type_to_subjects = fmempty, subject_to_types = fmempty\<rparr>"

definition tyi_add_type :: "iri_id \<Rightarrow> iri_id \<Rightarrow> type_index \<Rightarrow> type_index" where
  "tyi_add_type s t x = x\<lparr>type_to_subjects := mm_add t s (type_to_subjects x),
     subject_to_types := mm_add s t (subject_to_types x)\<rparr>"

definition tyi_get_subjects_by_type :: "type_index \<Rightarrow> iri_id \<Rightarrow> iri_id fset" where
  "tyi_get_subjects_by_type x t = mm_get (type_to_subjects x) t"

definition tyi_get_types_for_subject :: "type_index \<Rightarrow> iri_id \<Rightarrow> iri_id fset" where
  "tyi_get_types_for_subject x s = mm_get (subject_to_types x) s"

definition tyi_has_type :: "type_index \<Rightarrow> iri_id \<Rightarrow> iri_id \<Rightarrow> bool" where
  "tyi_has_type x s t = (case fmlookup (subject_to_types x) s of Some ts \<Rightarrow> t |\<in>| ts | None \<Rightarrow> False)"

definition tyi_type_count :: "type_index \<Rightarrow> iri_id \<Rightarrow> nat" where
  "tyi_type_count x t = (case fmlookup (type_to_subjects x) t of Some s \<Rightarrow> fcard s | None \<Rightarrow> 0)"

definition tyi_all_types :: "type_index \<Rightarrow> iri_id fset" where
  "tyi_all_types x = fmdom (type_to_subjects x)"

definition tyi_remove_type :: "iri_id \<Rightarrow> iri_id \<Rightarrow> type_index \<Rightarrow> type_index" where
  "tyi_remove_type s t x = x\<lparr>type_to_subjects := mm_del t s (type_to_subjects x),
     subject_to_types := mm_del s t (subject_to_types x)\<rparr>"

definition tyi_remove_subject :: "(iri_id fset \<Rightarrow> iri_id list) \<Rightarrow> iri_id \<Rightarrow> type_index \<Rightarrow> type_index" where
  "tyi_remove_subject it s x =
     (let x1 = x\<lparr>subject_to_types := fmdrop s (subject_to_types x)\<rparr>
      in case fmlookup (subject_to_types x) s of
           Some ts \<Rightarrow> x1\<lparr>type_to_subjects := fold (\<lambda>t. mm_del t s) (it ts) (type_to_subjects x1)\<rparr>
         | None \<Rightarrow> x1)"

definition tyi_clear :: "type_index \<Rightarrow> type_index" where
  "tyi_clear x = x\<lparr>type_to_subjects := fmempty, subject_to_types := fmempty\<rparr>"

definition tyi_len :: "type_index \<Rightarrow> nat" where
  "tyi_len x = (\<Sum>t\<in>fset (fmdom (type_to_subjects x)). fcard (the (fmlookup (type_to_subjects x) t)))"

definition tyi_is_empty :: "type_index \<Rightarrow> bool" where
  "tyi_is_empty x \<longleftrightarrow> fmdom (type_to_subjects x) = {||}"

subsection \<open>Predicate index\<close>

record predicate_index =
  predicate_to_edges :: "(iri_id, (iri_id \<times> iri_id) fset) fmap"
  predicate_counts :: "(iri_id, nat) fmap"
  total_triples :: nat

definition pri_new :: predicate_index where
  "pri_new = \<lparr>predicate_to_edges = fmempty, predicate_counts = fmempty, total_triples = 0\<rparr>"

definition pri_predicate_count :: "predicate_index \<Rightarrow> iri_id \<Rightarrow> nat" where
  "pri_predicate_count x p = (case fmlookup (predicate_counts x) p of Some n \<Rightarrow> n | None \<Rightarrow> 0)"

definition pri_add :: "iri_id \<Rightarrow> iri_id \<Rightarrow> iri_id \<Rightarrow> predicate_index \<Rightarrow> predicate_index" where
  "pri_add p s ob x = x\<lparr>predicate_to_edges := mm_add p (s, ob) (predicate_to_edges x),
     predicate_counts := fmupd p (pri_predicate_count x p + 1) (predicate_counts x),
     total_triples := total_triples x + 1\<rparr>"

definition pri_get_by_predicate :: "predicate_index \<Rightarrow> iri_id \<Rightarrow> (iri_id \<times> iri_id) fset" where
  "pri_get_by_predicate x p = mm_get (predicate_to_edges x) p"

definition pri_get_subjects_by_predicate :: "predicate_index \<Rightarrow> iri_id \<Rightarrow> iri_id fset" where
  "pri_get_subjects_by_predicate x p = fst |`| mm_get (predicate_to_edges x) p"

definition pri_get_objects_by_predicate :: "predicate_index \<Rightarrow> iri_id \<Rightarrow> iri_id fset" where
  "pri_get_objects_by_predicate x p = snd |`| mm_get (predicate_to_edges x) p"

text \<open>\<open>one\<close> is the float \<open>1.0\<close>, \<open>fdiv n m\<close> the float \<open>n as f64 / m as f64\<close>.\<close>

definition pri_selectivity :: "'f \<Rightarrow> (nat \<Rightarrow> nat \<Rightarrow> 'f) \<Rightarrow> predicate_index \<Rightarrow> iri_id \<Rightarrow> 'f" where
  "pri_selectivity one fdiv x p =
     (if total_triples x = 0 then one else fdiv (pri_predicate_count x p) (total_triples x))"

definition pri_predicates_by_selectivity ::
  "(nat \<Rightarrow> nat \<Rightarrow> 'f::linorder) \<Rightarrow> ((iri_id, nat) fmap \<Rightarrow> (iri_id \<times> nat) list) \<Rightarrow> predicate_index \<Rightarrow> (iri_id \<times> 'f) list" where
  "pri_predicates_by_selectivity fdiv iter x =
     (if total_triples x = 0 then []
      else sort_key snd (map (\<lambda>(p, n). (p, fdiv n (total_triples x))) (iter (predicate_counts x))))"

definition pri_all_predicates :: "predicate_index \<Rightarrow> iri_id fset" where
  "pri_all_predicates x = fmdom (predicate_counts x)"

definition pri_remove :: "iri_id \<Rightarrow> iri_id \<Rightarrow> iri_id \<Rightarrow> predicate_index \<Rightarrow> predicate_index" where
  "pri_remove p s ob x =
     (let removed = (case fmlookup (predicate_to_edges x) p of Some es \<Rightarrow> (s, ob) |\<in>| es | None \<Rightarrow> False);
          x1 = x\<lparr>predicate_to_edges := mm_del p (s, ob) (predicate_to_edges x)\<rparr>
      in if removed
         then x1\<lparr>predicate_counts :=
                  (case fmlookup (predicate_counts x1) p of
                     Some n \<Rightarrow> if n - 1 = 0 then fmdrop p (predicate_counts x1)
                              else fmupd p (n - 1) (predicate_counts x1)
                   | None \<Rightarrow> predicate_counts x1),
                total_triples := total_triples x1 - 1\<rparr>
         else x1)"

definition pri_clear :: "predicate_index \<Rightarrow> predicate_index" where
  "pri_clear x = x\<lparr>predicate_to_edges := fmempty, predicate_counts := fmempty, total_triples := 0\<rparr>"

definition pri_len :: "predicate_index \<Rightarrow> nat" where
  "pri_len x = total_triples x"

definition pri_is_empty :: "predicate_index \<Rightarrow> bool" where
  "pri_is_empty x \<longleftrightarrow> pri_len x = 0"

subsection \<open>Hints and the index manager\<close>

datatype 'f index_hint =
    UseTypeIndex iri_id
  | UsePredicateIndex iri_id 'f
  | UseNamespaceIndex rstr
  | FullScan

record 'f cost_consts =
  cost_type :: 'f
  cost_namespace :: 'f
  cost_full :: 'f

fun hint_estimated_cost :: "'f cost_consts \<Rightarrow> 'f index_hint \<Rightarrow> 'f" where
  "hint_estimated_cost k (UseTypeIndex t) = cost_type k"
| "hint_estimated_cost k (UsePredicateIndex p sel) = sel"
| "hint_estimated_cost k (UseNamespaceIndex ns) = cost_namespace k"
| "hint_estimated_cost k FullScan = cost_full k"

definition hint_uses_index :: "'f index_hint \<Rightarrow> bool" where
  "hint_uses_index h \<longleftrightarrow> (case h of FullScan \<Rightarrow> False | _ \<Rightarrow> True)"

record index_manager =
  im_namespace_index :: namespace_index
  im_local_name_index :: local_name_index
  im_type_index :: type_index
  im_predicate_index :: predicate_index

definition im_new :: index_manager where
  "im_new = \<lparr>im_namespace_index = nsi_new, im_local_name_index = lni_new, im_type_index = tyi_new,
     im_predicate_index = pri_new\<rparr>"

definition im_index_triple ::
  "iri_id \<Rightarrow> iri_id \<Rightarrow> iri_id \<Rightarrow> rstr option \<Rightarrow> rstr option \<Rightarrow> bool \<Rightarrow> index_manager \<Rightarrow> index_manager" where
  "im_index_triple s p ob ns loc is_type m =
     (let m1 = (case ns of Some n \<Rightarrow> m\<lparr>im_namespace_index := nsi_add s n (im_namespace_index m)\<rparr> | None \<Rightarrow> m);
          m2 = (case loc of Some l \<Rightarrow> m1\<lparr>im_local_name_index := lni_add s l (im_local_name_index m1)\<rparr> | None \<Rightarrow> m1);
          m3 = m2\<lparr>im_predicate_index := pri_add p s ob (im_predicate_index m2)\<rparr>
      in if is_type \<and> ob \<noteq> UNKNOWN_IRI_ID
         then m3\<lparr>im_type_index := tyi_add_type s ob (im_type_index m3)\<rparr> else m3)"

definition im_get_hint ::
  "'f \<Rightarrow> (nat \<Rightarrow> nat \<Rightarrow> 'f) \<Rightarrow> index_manager \<Rightarrow> iri_id option \<Rightarrow> bool \<Rightarrow> iri_id option \<Rightarrow> 'f index_hint" where
  "im_get_hint one fdiv m pred is_type_pattern type_id =
     (case (is_type_pattern, type_id) of
        (True, Some t) \<Rightarrow> UseTypeIndex t
      | _ \<Rightarrow> (case pred of
          Some p \<Rightarrow> UsePredicateIndex p (pri_selectivity one fdiv (im_predicate_index m) p)
        | None \<Rightarrow> FullScan))"

definition im_clear :: "index_manager \<Rightarrow> index_manager" where
  "im_clear m = m\<lparr>im_namespace_index := nsi_clear (im_namespace_index m),
     im_local_name_index := lni_clear (im_local_name_index m),
     im_type_index := tyi_clear (im_type_index m),
     im_predicate_index := pri_clear (im_predicate_index m)\<rparr>"


subsection \<open>The type index is a relation\<close>

definition tyi_rel :: "type_index \<Rightarrow> (iri_id \<times> iri_id) set" where
  "tyi_rel x = mm_rel (subject_to_types x)"

definition tyi_ok :: "type_index \<Rightarrow> bool" where
  "tyi_ok x \<longleftrightarrow> no_empty_sets (type_to_subjects x) \<and> no_empty_sets (subject_to_types x) \<and>
     mm_rel (type_to_subjects x) = (mm_rel (subject_to_types x))\<inverse>"

interpretation ti: relation_store tyi_rel tyi_ok tyi_add_type tyi_remove_type
  by unfold_locales (auto simp: tyi_rel_def tyi_ok_def tyi_add_type_def tyi_remove_type_def mm.rel_add mm.rel_del)

lemma tyi_new_ok: "tyi_ok tyi_new \<and> tyi_rel tyi_new = {}"
  by (simp add: tyi_ok_def tyi_rel_def tyi_new_def mm_rel_def)

lemma tyi_remove_subject_rel:
  assumes "set_order it" "tyi_ok x"
  shows "tyi_ok (tyi_remove_subject it s x) \<and> tyi_rel (tyi_remove_subject it s x) = tyi_rel x - {s} \<times> UNIV"
proof (cases "fmlookup (subject_to_types x) s")
  case None
  then have n: "mm_get (subject_to_types x) s = {||}" by (simp add: mm_get_def)
  then have "mm_rel (fmdrop s (subject_to_types x)) = mm_rel (subject_to_types x)"
    "mm_rel (subject_to_types x) - {s} \<times> UNIV = mm_rel (subject_to_types x)"
    by (auto simp: mm_rel_def split: if_splits)
  with None show ?thesis using assms(2)
    by (simp add: tyi_remove_subject_def tyi_ok_def tyi_rel_def)
next
  case (Some ts)
  then have g: "mm_get (subject_to_types x) s = ts" by (simp add: mm_get_def)
  have t2s: "mm_rel (type_to_subjects x) = (mm_rel (subject_to_types x))\<inverse>"
    "no_empty_sets (type_to_subjects x)" "no_empty_sets (subject_to_types x)"
    using assms(2) by (auto simp: tyi_ok_def)
  have "set (it ts) = fset ts" using assms(1) by (simp add: set_order_def)
  with mm.fold_del [OF t2s(2), of s "it ts"]
  have d: "no_empty_sets (fold (\<lambda>t. mm_del t s) (it ts) (type_to_subjects x))"
    "mm_rel (fold (\<lambda>t. mm_del t s) (it ts) (type_to_subjects x)) = mm_rel (type_to_subjects x) - fset ts \<times> {s}"
    by simp_all
  have drop: "mm_rel (fmdrop s (subject_to_types x)) = mm_rel (subject_to_types x) - {s} \<times> UNIV"
    by (auto simp: mm_rel_def split: if_splits)
  have "mm_rel (subject_to_types x) \<inter> {s} \<times> UNIV = {s} \<times> fset ts"
    using g by (auto simp: mm_rel_def)
  then have "(mm_rel (subject_to_types x))\<inverse> - fset ts \<times> {s} = (mm_rel (subject_to_types x) - {s} \<times> UNIV)\<inverse>"
    by auto
  with Some d drop t2s show ?thesis
    by (simp add: tyi_remove_subject_def tyi_ok_def tyi_rel_def)
qed

datatype type_op = TAdd iri_id iri_id | TRemove iri_id iri_id | TRemoveSubject iri_id | TClear

fun type_exec :: "(iri_id fset \<Rightarrow> iri_id list) \<Rightarrow> type_op \<Rightarrow> type_index \<Rightarrow> type_index" where
  "type_exec it (TAdd s t) x = tyi_add_type s t x"
| "type_exec it (TRemove s t) x = tyi_remove_type s t x"
| "type_exec it (TRemoveSubject s) x = tyi_remove_subject it s x"
| "type_exec it TClear x = tyi_clear x"

fun type_spec :: "type_op \<Rightarrow> (iri_id \<times> iri_id) set \<Rightarrow> (iri_id \<times> iri_id) set" where
  "type_spec (TAdd s t) r = insert (s, t) r"
| "type_spec (TRemove s t) r = r - {(s, t)}"
| "type_spec (TRemoveSubject s) r = r - {s} \<times> UNIV"
| "type_spec TClear r = {}"

lemma type_exec_step:
  "set_order it \<Longrightarrow> tyi_ok x \<Longrightarrow> tyi_ok (type_exec it op x) \<and> tyi_rel (type_exec it op x) = type_spec op (tyi_rel x)"
  by (cases op) (simp_all add: ti.rel_add ti.rel_del ti.ok_add ti.ok_del tyi_remove_subject_rel,
      simp add: tyi_clear_def tyi_ok_def tyi_rel_def mm_rel_def)

lemma type_exec_fold:
  "set_order it \<Longrightarrow> tyi_ok x \<Longrightarrow>
   tyi_ok (fold (type_exec it) ops x) \<and> tyi_rel (fold (type_exec it) ops x) = fold type_spec ops (tyi_rel x)"
  by (induction ops arbitrary: x) (simp_all add: type_exec_step)

text \<open>C33: The type index implements a set of (subject, type) pairs: after any sequence of
  operations on a new index both of its maps hold that set, in either direction and
  without empty entries.\<close>

theorem type_index_refines:
  assumes "set_order it" "x = fold (type_exec it) ops tyi_new" "r = fold type_spec ops {}"
  shows "tyi_has_type x s t = ((s, t) \<in> r) \<and>
    fset (tyi_get_types_for_subject x s) = {t. (s, t) \<in> r} \<and>
    fset (tyi_get_subjects_by_type x t) = {s. (s, t) \<in> r} \<and>
    fset (tyi_all_types x) = snd ` r \<and> tyi_len x = card r \<and> tyi_is_empty x = (r = {})"
proof -
  have "tyi_ok tyi_new" "tyi_rel tyi_new = {}" using tyi_new_ok by auto
  then have ok: "tyi_ok x" and r: "tyi_rel x = r"
    using type_exec_fold [OF assms(1)] assms(2,3) by auto
  have s2t: "r = mm_rel (subject_to_types x)" "mm_rel (type_to_subjects x) = r\<inverse>"
    using ok r by (auto simp: tyi_rel_def tyi_ok_def)
  have ne: "no_empty_sets (type_to_subjects x)" using ok by (simp add: tyi_ok_def)
  have lk: "fmlookup (type_to_subjects x) t = (if mm_get (type_to_subjects x) t = {||} then None
      else Some (mm_get (type_to_subjects x) t))" for t
    using mm_lookup [OF ne] .
  have mem: "s |\<in>| mm_get (type_to_subjects x) t \<longleftrightarrow> (s, t) \<in> r" for s t
    using s2t(2) by (auto simp: mm_rel_def)
  have dom: "t |\<in>| fmdom (type_to_subjects x) \<longleftrightarrow> t \<in> snd ` r" for t
  proof -
    have "t |\<in>| fmdom (type_to_subjects x) \<longleftrightarrow> (\<exists>s. s |\<in>| mm_get (type_to_subjects x) t)"
      using lk [of t] by (auto simp: fmlookup_dom_iff)
    then show ?thesis using mem by force
  qed
  have sig: "r\<inverse> = Sigma (fset (fmdom (type_to_subjects x))) (\<lambda>t. fset (mm_get (type_to_subjects x) t))"
    using mem dom by force
  have "tyi_len x = (\<Sum>t\<in>fset (fmdom (type_to_subjects x)). card (fset (mm_get (type_to_subjects x) t)))"
    unfolding tyi_len_def by (rule sum.cong) (auto simp: lk fcard.rep_eq fmlookup_dom_iff)
  then have len: "tyi_len x = card r"
    using card_SigmaI [of "fset (fmdom (type_to_subjects x))" "\<lambda>t. fset (mm_get (type_to_subjects x) t)"]
      sig card_inverse [of r] by simp
  have "fset (tyi_all_types x) = snd ` r" using dom by (auto simp: tyi_all_types_def)
  moreover have "tyi_is_empty x = (r = {})" using dom by (auto simp: tyi_is_empty_def fset_eq_iff)
  moreover have mem': "t |\<in>| mm_get (subject_to_types x) s \<longleftrightarrow> (s, t) \<in> r" for s t
    using s2t(1) by (auto simp: mm_rel_def)
  moreover have "tyi_has_type x s t = (t |\<in>| mm_get (subject_to_types x) s)"
    by (simp add: tyi_has_type_def mm_get_def split: option.split)
  moreover have "fset (tyi_get_types_for_subject x s) = {t. (s, t) \<in> r}"
    using mem' by (auto simp: tyi_get_types_for_subject_def)
  moreover have "fset (tyi_get_subjects_by_type x t) = {s. (s, t) \<in> r}"
    using mem by (auto simp: tyi_get_subjects_by_type_def)
  ultimately show ?thesis using len by blast
qed

theorem type_index_refines_witness:
  "tyi_has_type (fold (type_exec sorted_list_of_fset) [TAdd 1 7, TAdd 2 7, TAdd 1 8, TRemoveSubject 1] tyi_new) 2 7 \<and>
   tyi_len (fold (type_exec sorted_list_of_fset) [TAdd 1 7, TAdd 2 7, TAdd 1 8, TRemoveSubject 1] tyi_new) = 1"
  using type_index_refines [OF set_order_sorted refl refl, of "[TAdd 1 7, TAdd 2 7, TAdd 1 8, TRemoveSubject 1]" 2 7]
  by (simp add: insert_Diff_if)


subsection \<open>The namespace index\<close>

datatype ns_op = NAdd iri_id rstr | NRemove iri_id | NClear

fun ns_exec :: "ns_op \<Rightarrow> namespace_index \<Rightarrow> namespace_index" where
  "ns_exec (NAdd i ns) x = nsi_add i ns x"
| "ns_exec (NRemove i) x = nsi_remove i x"
| "ns_exec NClear x = nsi_clear x"

fun ns_ids :: "ns_op \<Rightarrow> iri_id set \<Rightarrow> iri_id set" where
  "ns_ids (NAdd i ns) ids = insert i ids"
| "ns_ids (NRemove i) ids = ids - {i}"
| "ns_ids NClear ids = {}"

text \<open>Every identifier is added under the namespace \<open>f\<close> gives it.\<close>

fun ns_follows :: "(iri_id \<Rightarrow> rstr) \<Rightarrow> ns_op \<Rightarrow> bool" where
  "ns_follows f (NAdd i ns) = (ns = f i)"
| "ns_follows f _ = True"

definition nsi_models :: "(iri_id \<Rightarrow> rstr) \<Rightarrow> iri_id set \<Rightarrow> namespace_index \<Rightarrow> bool" where
  "nsi_models f ids x \<longleftrightarrow> no_empty_sets (namespace_to_ids x) \<and>
     (\<forall>ns. fset (mm_get (namespace_to_ids x) ns) = {i\<in>ids. f i = ns}) \<and>
     (\<forall>i. fmlookup (id_to_namespace x) i = (if i \<in> ids then Some (f i) else None))"

lemma ns_exec_models:
  assumes "nsi_models f ids x" "ns_follows f op"
  shows "nsi_models f (ns_ids op ids) (ns_exec op x)"
proof (cases op)
  case (NAdd i ns)
  with assms show ?thesis by (auto simp: nsi_models_def nsi_add_def)
next
  case (NRemove i)
  with assms(1) show ?thesis
    by (cases "i \<in> ids") (auto simp: nsi_models_def nsi_remove_def Let_def)
next
  case NClear
  then show ?thesis by (simp add: nsi_models_def nsi_clear_def)
qed

lemma ns_fold_models:
  "nsi_models f ids x \<Longrightarrow> list_all (ns_follows f) ops \<Longrightarrow> nsi_models f (fold ns_ids ops ids) (fold ns_exec ops x)"
  by (induction ops arbitrary: ids x) (simp_all add: ns_exec_models)

text \<open>As long as every identifier is indexed under one namespace, the namespace index is a set of
  identifiers: a lookup by namespace returns those of the set that have it, the reverse lookup the namespace
  of a member, and a namespace is listed exactly while it has a member.\<close>

theorem namespace_index_correct:
  assumes "list_all (ns_follows f) ops" "x = fold ns_exec ops nsi_new" "ids = fold ns_ids ops {}"
  shows "fset (nsi_get_by_namespace x ns) = {i\<in>ids. f i = ns} \<and>
    nsi_get_namespace x i = (if i \<in> ids then Some (f i) else None) \<and>
    fset (nsi_namespaces x) = f ` ids \<and> nsi_len x = card ids"
proof -
  have "nsi_models f {} nsi_new" by (simp add: nsi_models_def nsi_new_def)
  then have m: "nsi_models f ids x" using ns_fold_models assms by blast
  have lk: "fmlookup (namespace_to_ids x) ns = (if mm_get (namespace_to_ids x) ns = {||} then None
      else Some (mm_get (namespace_to_ids x) ns))" for ns
    using m by (simp add: nsi_models_def mm_lookup)
  have dom: "ns |\<in>| fmdom (namespace_to_ids x) \<longleftrightarrow> ns \<in> f ` ids" for ns
  proof -
    have "ns |\<in>| fmdom (namespace_to_ids x) \<longleftrightarrow> fset (mm_get (namespace_to_ids x) ns) \<noteq> {}"
      using lk [of ns] by (auto simp: fmlookup_dom_iff)
    then show ?thesis using m by (auto simp: nsi_models_def)
  qed
  have "fset (fmdom (id_to_namespace x)) = ids"
    using m by (auto simp: nsi_models_def fmlookup_dom_iff split: if_splits)
  then have "nsi_len x = card ids" by (simp add: nsi_len_def fcard.rep_eq)
  moreover have "fset (nsi_namespaces x) = f ` ids" using dom by (auto simp: nsi_namespaces_def)
  ultimately show ?thesis
    using m by (simp add: nsi_models_def nsi_get_by_namespace_def nsi_get_namespace_def)
qed

theorem namespace_index_correct_witness:
  "nsi_len (fold ns_exec [NAdd 1 (lit ''a''), NAdd 2 (lit ''b''), NRemove 1] nsi_new) = 1"
  using namespace_index_correct [OF _ refl refl, of "\<lambda>i. if i = 1 then lit ''a'' else lit ''b''"
      "[NAdd 1 (lit ''a''), NAdd 2 (lit ''b''), NRemove 1]"]
  by simp

text \<open>An identifier that is indexed again under another namespace stays a member of the first one,
  even after its removal, when the reverse lookup knows nothing of it any more.\<close>

theorem namespace_index_stale:
  assumes "ns1 \<noteq> ns2"
  shows "i |\<in>| nsi_get_by_namespace (nsi_remove i (nsi_add i ns2 (nsi_add i ns1 x))) ns1 \<and>
    nsi_get_namespace (nsi_remove i (nsi_add i ns2 (nsi_add i ns1 x))) i = None"
  using assms by (simp add: nsi_get_by_namespace_def nsi_get_namespace_def nsi_remove_def nsi_add_def Let_def)

theorem namespace_index_stale_witness:
  "1 |\<in>| nsi_get_by_namespace (nsi_remove 1 (nsi_add 1 (lit ''b'') (nsi_add 1 (lit ''a'') nsi_new))) (lit ''a'')"
  using namespace_index_stale [of "lit ''a''" "lit ''b''" 1 nsi_new] by simp

subsection \<open>The predicate index\<close>

datatype edge_op = EAdd iri_id iri_id iri_id | ERemove iri_id iri_id iri_id | EClear

fun edge_exec :: "edge_op \<Rightarrow> predicate_index \<Rightarrow> predicate_index" where
  "edge_exec (EAdd p s ob) x = pri_add p s ob x"
| "edge_exec (ERemove p s ob) x = pri_remove p s ob x"
| "edge_exec EClear x = pri_clear x"

fun edge_spec :: "edge_op \<Rightarrow> (iri_id \<times> iri_id \<times> iri_id) set \<Rightarrow> (iri_id \<times> iri_id \<times> iri_id) set" where
  "edge_spec (EAdd p s ob) r = insert (p, s, ob) r"
| "edge_spec (ERemove p s ob) r = r - {(p, s, ob)}"
| "edge_spec EClear r = {}"

definition pri_rel :: "predicate_index \<Rightarrow> (iri_id \<times> iri_id \<times> iri_id) set" where
  "pri_rel x = mm_rel (predicate_to_edges x)"

definition count_sum :: "(iri_id, nat) fmap \<Rightarrow> nat" where
  "count_sum m = (\<Sum>p\<in>fset (fmdom m). the (fmlookup m p))"

definition pri_ok :: "predicate_index \<Rightarrow> bool" where
  "pri_ok x \<longleftrightarrow> no_empty_sets (predicate_to_edges x) \<and> (\<forall>p. fmlookup (predicate_counts x) p \<noteq> Some 0) \<and>
     (\<forall>p. fcard (mm_get (predicate_to_edges x) p) \<le> pri_predicate_count x p) \<and>
     total_triples x = count_sum (predicate_counts x)"

lemma count_sum_upd:
  "count_sum (fmupd p n m) + (case fmlookup m p of Some k \<Rightarrow> k | None \<Rightarrow> 0) = count_sum m + n"
proof -
  let ?D = "fset (fmdom m)"
  have rest: "(\<Sum>q\<in>?D - {p}. the (fmlookup (fmupd p n m) q)) = (\<Sum>q\<in>?D - {p}. the (fmlookup m q))"
    by (rule sum.cong) auto
  have new: "count_sum (fmupd p n m) = n + (\<Sum>q\<in>?D - {p}. the (fmlookup m q))"
    using rest by (simp add: count_sum_def sum.insert_remove)
  show ?thesis
  proof (cases "fmlookup m p")
    case None
    then have "?D - {p} = ?D" by (auto simp: fmlookup_dom_iff)
    with None new show ?thesis by (simp add: count_sum_def)
  next
    case (Some k)
    then have "p \<in> ?D" by (simp add: fmdomI)
    then have "count_sum m = k + (\<Sum>q\<in>?D - {p}. the (fmlookup m q))"
      using Some by (simp add: count_sum_def sum.remove)
    with Some new show ?thesis by simp
  qed
qed

lemma count_sum_drop: "fmlookup m p = Some k \<Longrightarrow> count_sum (fmdrop p m) + k = count_sum m"
proof -
  assume lk: "fmlookup m p = Some k"
  have "(\<Sum>q\<in>fset (fmdom m) - {p}. the (fmlookup (fmdrop p m) q)) = (\<Sum>q\<in>fset (fmdom m) - {p}. the (fmlookup m q))"
    by (rule sum.cong) auto
  moreover have "p \<in> fset (fmdom m)" using lk by (simp add: fmdomI)
  ultimately show ?thesis using lk by (simp add: count_sum_def sum.remove)
qed

lemma pri_add_ok:
  assumes "pri_ok x"
  shows "pri_ok (pri_add p s ob x) \<and> pri_rel (pri_add p s ob x) = insert (p, s, ob) (pri_rel x)"
proof -
  have f: "fcard (finsert (s, ob) A) \<le> Suc n" if "fcard A \<le> n" for A n
    using that by (simp add: fcard_finsert_if)
  have "total_triples x + 1 = count_sum (fmupd p (pri_predicate_count x p + 1) (predicate_counts x))"
    using assms count_sum_upd [of p "pri_predicate_count x p + 1" "predicate_counts x"]
    by (simp add: pri_ok_def pri_predicate_count_def)
  then show ?thesis using assms f
    by (auto simp: pri_ok_def pri_add_def pri_rel_def mm.rel_add pri_predicate_count_def)
qed

lemma pri_remove_ok:
  assumes "pri_ok x"
  shows "pri_ok (pri_remove p s ob x) \<and> pri_rel (pri_remove p s ob x) = pri_rel x - {(p, s, ob)}"
proof -
  let ?es = "mm_get (predicate_to_edges x) p"
  have ne: "no_empty_sets (predicate_to_edges x)" using assms by (simp add: pri_ok_def)
  have rem: "(case fmlookup (predicate_to_edges x) p of Some es \<Rightarrow> (s, ob) |\<in>| es | None \<Rightarrow> False) \<longleftrightarrow> (s, ob) |\<in>| ?es"
    by (simp add: mm_get_def split: option.split)
  show ?thesis
  proof (cases "(s, ob) |\<in>| ?es")
    case False
    then have "?es |-| {|(s, ob)|} = ?es" by auto
    with False rem assms show ?thesis
      by (auto simp: pri_remove_def Let_def pri_ok_def pri_rel_def mm.rel_del [OF ne] pri_predicate_count_def)
  next
    case True
    then have "0 < fcard ?es" by (metis fcard_Suc_fminus1 zero_less_Suc)
    then have "0 < pri_predicate_count x p" using assms by (metis gr0I leD pri_ok_def)
    then obtain n where n: "fmlookup (predicate_counts x) p = Some n" "0 < n"
      by (auto simp: pri_predicate_count_def split: option.splits)
    have card: "Suc (fcard (?es |-| {|(s, ob)|})) = fcard ?es" using True by (rule fcard_Suc_fminus1)
    have le: "fcard ?es \<le> n" using assms n by (auto simp: pri_ok_def pri_predicate_count_def dest: spec [of _ p])
    have rel: "pri_rel (pri_remove p s ob x) = pri_rel x - {(p, s, ob)}"
      using rem True by (simp add: pri_remove_def Let_def pri_rel_def mm.rel_del [OF ne])
    show ?thesis
    proof (cases "n = 1")
      case n1: True
      then show ?thesis using rel rem True assms n le card count_sum_drop [OF n(1)]
        by (auto simp: pri_ok_def pri_remove_def Let_def pri_predicate_count_def ne)
    next
      case False
      then have "n - 1 \<noteq> 0" using n by simp
      then show ?thesis using rel rem True assms n le card count_sum_upd [of p "n - 1" "predicate_counts x"]
        by (auto simp: pri_ok_def pri_remove_def Let_def pri_predicate_count_def ne)
    qed
  qed
qed

lemma edge_exec_ok:
  "pri_ok x \<Longrightarrow> pri_ok (edge_exec op x) \<and> pri_rel (edge_exec op x) = edge_spec op (pri_rel x)"
  by (cases op) (simp_all add: pri_add_ok pri_remove_ok,
      simp add: pri_ok_def pri_rel_def pri_clear_def count_sum_def pri_predicate_count_def mm_rel_def fcard_fempty)

lemma edge_fold_ok:
  "pri_ok x \<Longrightarrow> pri_ok (fold edge_exec ops x) \<and> pri_rel (fold edge_exec ops x) = fold edge_spec ops (pri_rel x)"
  by (induction ops arbitrary: x) (simp_all add: edge_exec_ok)

lemma pri_new_ok: "pri_ok pri_new" "pri_rel pri_new = {}"
  by (simp_all add: pri_ok_def pri_rel_def pri_new_def count_sum_def pri_predicate_count_def mm_rel_def fcard_fempty)


text \<open>After any sequence of operations the predicate index answers with exactly the edges of the
  abstract set; its counter of a predicate is at least the number of edges, is never zero when listed, and the
  total is the sum of the counters.\<close>

theorem predicate_index_correct:
  assumes "x = fold edge_exec ops pri_new" "r = fold edge_spec ops {}"
  shows "fset (pri_get_by_predicate x p) = {(s, ob). (p, s, ob) \<in> r} \<and>
    fset (pri_get_subjects_by_predicate x p) = {s. \<exists>ob. (p, s, ob) \<in> r} \<and>
    fset (pri_get_objects_by_predicate x p) = {ob. \<exists>s. (p, s, ob) \<in> r} \<and>
    card {(s, ob). (p, s, ob) \<in> r} \<le> pri_predicate_count x p \<and>
    pri_len x = count_sum (predicate_counts x)"
proof -
  have ok: "pri_ok x" and rel: "pri_rel x = r"
    using edge_fold_ok [OF pri_new_ok(1)] assms pri_new_ok(2) by auto
  have edges: "fset (pri_get_by_predicate x p) = {(s, ob). (p, s, ob) \<in> r}"
    using rel by (auto simp: pri_get_by_predicate_def pri_rel_def mm_rel_def)
  then have c: "card {(s, ob). (p, s, ob) \<in> r} \<le> pri_predicate_count x p"
    using ok by (simp add: pri_ok_def pri_get_by_predicate_def fcard.rep_eq flip: edges)
  have "fset (pri_get_subjects_by_predicate x p) = fst ` {(s, ob). (p, s, ob) \<in> r}"
    "fset (pri_get_objects_by_predicate x p) = snd ` {(s, ob). (p, s, ob) \<in> r}"
    using edges by (simp_all add: pri_get_subjects_by_predicate_def pri_get_objects_by_predicate_def
        pri_get_by_predicate_def)
  moreover have "fst ` {(s, ob). (p, s, ob) \<in> r} = {s. \<exists>ob. (p, s, ob) \<in> r}"
    "snd ` {(s, ob). (p, s, ob) \<in> r} = {ob. \<exists>s. (p, s, ob) \<in> r}" by force+
  ultimately show ?thesis using edges c ok by (simp add: pri_len_def pri_ok_def)
qed

theorem predicate_index_correct_witness:
  "fset (pri_get_by_predicate (fold edge_exec [EAdd 1 2 3, EAdd 1 2 4, ERemove 1 2 3] pri_new) 1) = {(2, 4)}"
proof -
  let ?ops = "[EAdd 1 2 3, EAdd 1 2 4, ERemove 1 2 3]"
  have "{(s, ob). (1, s, ob) \<in> fold edge_spec ?ops {}} = {(2, 4)}" by auto
  with predicate_index_correct [OF refl refl, of ?ops 1] show ?thesis by blast
qed

text \<open>Adding an edge twice counts it twice, although it is stored once: after its removal the index
  has no edge of the predicate and yet counts one triple and lists the predicate.\<close>

theorem predicate_index_drift:
  assumes "x = pri_remove p s ob (pri_add p s ob (pri_add p s ob pri_new))"
  shows "pri_get_by_predicate x p = {||} \<and> pri_len x = 1 \<and> pri_predicate_count x p = 1 \<and>
    pri_all_predicates x = {|p|}"
  using assms by (simp add: pri_remove_def pri_add_def pri_new_def pri_get_by_predicate_def pri_len_def
      pri_predicate_count_def pri_all_predicates_def Let_def mm_add_def mm_del_def mm_get_def)

theorem predicate_index_drift_witness:
  "pri_len (pri_remove 5 1 2 (pri_add 5 1 2 (pri_add 5 1 2 pri_new))) = 1"
  using predicate_index_drift [OF refl, of 5 1 2] by simp

text \<open>The predicates listed by selectivity are the counted ones, each once, with the quotient of its
  counter and the total, in ascending order.\<close>

theorem predicates_by_selectivity_correct:
  assumes "hash_order iter" "0 < total_triples x"
  shows "set (pri_predicates_by_selectivity fdiv iter x) =
      (\<lambda>p. (p, pri_selectivity one fdiv x p)) ` fset (pri_all_predicates x) \<and>
    distinct (map fst (pri_predicates_by_selectivity fdiv iter x)) \<and>
    sorted (map snd (pri_predicates_by_selectivity fdiv iter x))"
proof -
  let ?g = "\<lambda>(p, n). (p, fdiv n (total_triples x))"
  let ?xs = "iter (predicate_counts x)"
  have "set (pri_predicates_by_selectivity fdiv iter x) = ?g ` set ?xs"
    using assms(2) by (simp add: pri_predicates_by_selectivity_def)
  also have "\<dots> = (\<lambda>p. (p, pri_selectivity one fdiv x p)) ` fset (pri_all_predicates x)"
    using assms(2) by (force simp: pri_selectivity_def pri_predicate_count_def pri_all_predicates_def
        hash_order_in_iff [OF assms(1)] fmlookup_dom_iff image_iff)
  finally have "set (pri_predicates_by_selectivity fdiv iter x) = \<dots>" .
  moreover have "distinct (map fst (pri_predicates_by_selectivity fdiv iter x))"
  proof -
    have "map fst (map ?g ?xs) = map fst ?xs" by auto
    then have "distinct (map fst (map ?g ?xs))" using hash_order_distinct [OF assms(1)] by metis
    then have "distinct (map ?g ?xs)" "inj_on fst (set (map ?g ?xs))" unfolding distinct_map by blast+
    then show ?thesis using assms(2) by (simp add: pri_predicates_by_selectivity_def distinct_map)
  qed
  ultimately show ?thesis using assms(2) by (simp add: pri_predicates_by_selectivity_def)
qed

theorem predicates_by_selectivity_correct_witness:
  "sorted (map snd (pri_predicates_by_selectivity (\<lambda>n m. 100 * n div m) key_order
     (pri_add 2 1 1 (pri_add 3 1 1 (pri_add 2 1 4 pri_new)))))"
proof -
  have "0 < total_triples (pri_add 2 1 1 (pri_add 3 1 1 (pri_add 2 1 4 pri_new)))"
    by (simp add: pri_add_def)
  from predicates_by_selectivity_correct [OF hash_order_key_order this, of "\<lambda>n m. 100 * n div m" 100]
  show ?thesis by blast
qed

text \<open>Indexing a triple makes its subject found by namespace, local name, predicate and, for a type
  assertion whose object is interned, type; no other pair enters the type index.\<close>

theorem index_triple_found:
  "let m' = im_index_triple s p ob (Some ns) (Some l) is_type m in
     s |\<in>| nsi_get_by_namespace (im_namespace_index m') ns \<and>
     nsi_get_namespace (im_namespace_index m') s = Some ns \<and>
     s |\<in>| lni_get_by_local_name (im_local_name_index m') l \<and>
     pri_get_by_predicate (im_predicate_index m') p = finsert (s, ob) (pri_get_by_predicate (im_predicate_index m) p) \<and>
     tyi_has_type (im_type_index m') a b =
       ((a = s \<and> b = ob \<and> is_type \<and> ob \<noteq> UNKNOWN_IRI_ID) \<or> tyi_has_type (im_type_index m) a b)"
  by (auto simp: im_index_triple_def Let_def nsi_get_by_namespace_def nsi_get_namespace_def nsi_add_def
      lni_get_by_local_name_def lni_add_def pri_get_by_predicate_def pri_add_def tyi_has_type_def
      tyi_add_type_def mm_add_def mm_get_def split: option.splits)

end
