(* ===== verification/Statistics.thy ===== *)
theory Statistics
  imports Index
begin

section \<open>Statistics for the query optimiser (storage/src/statistics.rs)\<close>

text \<open>
  Counters are 64-bit words and wrap as in a release build; the atomics are read and
  written one operation at a time. The arithmetic of \<open>f64\<close> is not interpreted: its constants and
  operations are a record of functions that the definitions take. The order of iterating
  over the collector's maps is an argument.
\<close>

record 'f f64_ops =
  f_0 :: 'f
  f_1 :: 'f
  f_tenth :: 'f
  f_of :: "u64 \<Rightarrow> 'f"
  f_mul :: "'f \<Rightarrow> 'f \<Rightarrow> 'f"
  f_div :: "'f \<Rightarrow> 'f \<Rightarrow> 'f"
  f_is_zero :: "'f \<Rightarrow> bool"

record 'f histogram =
  h_distinct_subjects :: u64
  h_distinct_objects :: u64
  h_count :: u64
  h_avg_objects_per_subject :: 'f

record 'f statistics =
  st_triple_count :: u64
  st_distinct_subjects :: u64
  st_distinct_predicates :: u64
  st_distinct_objects :: u64
  st_predicate_frequency :: "(iri_id, u64) fmap"
  st_type_distribution :: "(iri_id, u64) fmap"
  st_avg_subject_degree :: 'f
  st_avg_object_degree :: 'f
  st_predicate_histograms :: "(iri_id, 'f histogram) fmap"

definition hist_with_subject :: "'f f64_ops \<Rightarrow> 'f histogram \<Rightarrow> 'f" where
  "hist_with_subject F h = (if h_count h = 0 then f_1 F else f_div F (f_1 F) (f_of F (h_distinct_subjects h)))"

definition hist_with_object :: "'f f64_ops \<Rightarrow> 'f histogram \<Rightarrow> 'f" where
  "hist_with_object F h = (if h_count h = 0 then f_1 F else f_div F (f_1 F) (f_of F (h_distinct_objects h)))"

definition hist_with_both :: "'f f64_ops \<Rightarrow> 'f histogram \<Rightarrow> 'f" where
  "hist_with_both F h = (if h_count h = 0 then f_1 F else f_div F (f_1 F) (f_of F (h_count h)))"

definition st_new :: "'f f64_ops \<Rightarrow> 'f statistics" where
  "st_new F = \<lparr>st_triple_count = 0, st_distinct_subjects = 0, st_distinct_predicates = 0,
     st_distinct_objects = 0, st_predicate_frequency = fmempty, st_type_distribution = fmempty,
     st_avg_subject_degree = f_0 F, st_avg_object_degree = f_0 F, st_predicate_histograms = fmempty\<rparr>"

definition counter :: "(iri_id, u64) fmap \<Rightarrow> iri_id \<Rightarrow> u64" where
  "counter m k = (case fmlookup m k of Some n \<Rightarrow> n | None \<Rightarrow> 0)"

definition st_freq :: "'f statistics \<Rightarrow> iri_id \<Rightarrow> u64" where
  "st_freq st p = counter (st_predicate_frequency st) p"

definition st_type_count :: "'f statistics \<Rightarrow> iri_id \<Rightarrow> u64" where
  "st_type_count st t = counter (st_type_distribution st) t"

definition st_predicate_selectivity :: "'f f64_ops \<Rightarrow> 'f statistics \<Rightarrow> iri_id \<Rightarrow> 'f" where
  "st_predicate_selectivity F st p =
     (if st_triple_count st = 0 then f_1 F
      else f_div F (f_of F (st_freq st p)) (f_of F (st_triple_count st)))"

definition st_type_selectivity :: "'f f64_ops \<Rightarrow> 'f statistics \<Rightarrow> iri_id \<Rightarrow> 'f" where
  "st_type_selectivity F st t =
     (if st_distinct_subjects st = 0 then f_1 F
      else f_div F (f_of F (st_type_count st t)) (f_of F (st_distinct_subjects st)))"

definition st_predicate_histogram :: "'f statistics \<Rightarrow> iri_id \<Rightarrow> 'f histogram option" where
  "st_predicate_histogram st p = fmlookup (st_predicate_histograms st) p"

definition st_estimate_join_cardinality ::
  "'f f64_ops \<Rightarrow> 'f statistics \<Rightarrow> iri_id option \<Rightarrow> iri_id option \<Rightarrow> bool \<Rightarrow> 'f" where
  "st_estimate_join_cardinality F st p1 p2 shared =
     (let total = f_of F (st_triple_count st)
      in if f_is_zero F total then f_0 F
         else (let sel1 = (case p1 of None \<Rightarrow> f_1 F | Some p \<Rightarrow> st_predicate_selectivity F st p);
                   sel2 = (case p2 of None \<Rightarrow> f_1 F | Some p \<Rightarrow> st_predicate_selectivity F st p)
               in if shared then f_mul F (f_mul F (f_mul F total sel1) sel2) (f_tenth F)
                  else f_mul F (f_mul F (f_mul F total sel1) total) sel2))"

definition st_increment :: "'f statistics \<Rightarrow> 'f statistics" where
  "st_increment st = st\<lparr>st_triple_count := st_triple_count st + 1\<rparr>"

definition st_decrement :: "'f statistics \<Rightarrow> 'f statistics" where
  "st_decrement st = st\<lparr>st_triple_count := st_triple_count st - 1\<rparr>"

definition sat_sub :: "u64 \<Rightarrow> u64 \<Rightarrow> u64" where
  "sat_sub a b = (if a < b then 0 else a - b)"

text \<open>The body of the two \<open>update_*\<close> functions; \<open>delta\<close> is the \<open>i64\<close>, \<open>0 <s\<close> its signed comparison.\<close>

definition bump :: "u64 \<Rightarrow> u64 \<Rightarrow> u64" where
  "bump n delta = (if 0 <s delta then n + delta else sat_sub n (- delta))"

definition st_update_predicate_frequency :: "iri_id \<Rightarrow> u64 \<Rightarrow> 'f statistics \<Rightarrow> 'f statistics" where
  "st_update_predicate_frequency p delta st =
     st\<lparr>st_predicate_frequency := fmupd p (bump (st_freq st p) delta) (st_predicate_frequency st)\<rparr>"

definition st_update_type_count :: "iri_id \<Rightarrow> u64 \<Rightarrow> 'f statistics \<Rightarrow> 'f statistics" where
  "st_update_type_count t delta st =
     st\<lparr>st_type_distribution := fmupd t (bump (st_type_count st t) delta) (st_type_distribution st)\<rparr>"

definition st_set_distinct_counts :: "u64 \<Rightarrow> u64 \<Rightarrow> u64 \<Rightarrow> 'f statistics \<Rightarrow> 'f statistics" where
  "st_set_distinct_counts s p ob st =
     st\<lparr>st_distinct_subjects := s, st_distinct_predicates := p, st_distinct_objects := ob\<rparr>"

definition st_set_avg_degrees :: "'f \<Rightarrow> 'f \<Rightarrow> 'f statistics \<Rightarrow> 'f statistics" where
  "st_set_avg_degrees s ob st = st\<lparr>st_avg_subject_degree := s, st_avg_object_degree := ob\<rparr>"

definition st_update_predicate_histogram :: "iri_id \<Rightarrow> 'f histogram \<Rightarrow> 'f statistics \<Rightarrow> 'f statistics" where
  "st_update_predicate_histogram p h st =
     st\<lparr>st_predicate_histograms := fmupd p h (st_predicate_histograms st)\<rparr>"

definition st_clear :: "'f f64_ops \<Rightarrow> 'f statistics \<Rightarrow> 'f statistics" where
  "st_clear F st = st\<lparr>st_triple_count := 0, st_distinct_subjects := 0, st_distinct_predicates := 0,
     st_distinct_objects := 0, st_predicate_frequency := fmempty, st_type_distribution := fmempty,
     st_avg_subject_degree := f_0 F, st_avg_object_degree := f_0 F, st_predicate_histograms := fmempty\<rparr>"

record 'f statistics_summary =
  su_triple_count :: u64
  su_distinct_subjects :: u64
  su_distinct_predicates :: u64
  su_distinct_objects :: u64
  su_predicate_count :: nat
  su_type_count :: nat
  su_avg_subject_degree :: 'f
  su_avg_object_degree :: 'f

definition st_summary :: "'f statistics \<Rightarrow> 'f statistics_summary" where
  "st_summary st = \<lparr>su_triple_count = st_triple_count st, su_distinct_subjects = st_distinct_subjects st,
     su_distinct_predicates = st_distinct_predicates st, su_distinct_objects = st_distinct_objects st,
     su_predicate_count = fcard (fmdom (st_predicate_frequency st)),
     su_type_count = fcard (fmdom (st_type_distribution st)),
     su_avg_subject_degree = st_avg_subject_degree st, su_avg_object_degree = st_avg_object_degree st\<rparr>"

definition su_density :: "'f f64_ops \<Rightarrow> 'f statistics_summary \<Rightarrow> 'f" where
  "su_density F su =
     (if su_distinct_subjects su = 0 \<or> su_distinct_objects su = 0 then f_0 F
      else f_div F (f_of F (su_triple_count su)) (f_of F (su_distinct_subjects su * su_distinct_objects su)))"

subsection \<open>The collector\<close>

record collector =
  co_subjects :: "iri_id fset"
  co_predicates :: "iri_id fset"
  co_objects :: "iri_id fset"
  co_predicate_edges :: "(iri_id, (iri_id \<times> iri_id) list) fmap"
  co_types :: "(iri_id, iri_id fset) fmap"
  co_count :: u64

definition co_new :: collector where
  "co_new = \<lparr>co_subjects = {||}, co_predicates = {||}, co_objects = {||},
     co_predicate_edges = fmempty, co_types = fmempty, co_count = 0\<rparr>"

definition co_edges :: "collector \<Rightarrow> iri_id \<Rightarrow> (iri_id \<times> iri_id) list" where
  "co_edges c p = (case fmlookup (co_predicate_edges c) p of Some es \<Rightarrow> es | None \<Rightarrow> [])"

definition co_add_triple :: "iri_id \<Rightarrow> iri_id \<Rightarrow> iri_id \<Rightarrow> collector \<Rightarrow> collector" where
  "co_add_triple s p ob c = c\<lparr>co_subjects := finsert s (co_subjects c),
     co_predicates := finsert p (co_predicates c), co_objects := finsert ob (co_objects c),
     co_predicate_edges := fmupd p (co_edges c p @ [(s, ob)]) (co_predicate_edges c),
     co_count := co_count c + 1\<rparr>"

definition co_add_type :: "iri_id \<Rightarrow> iri_id \<Rightarrow> collector \<Rightarrow> collector" where
  "co_add_type s t c = c\<lparr>co_types := mm_add t s (co_types c)\<rparr>"

definition co_histogram :: "'f f64_ops \<Rightarrow> (iri_id \<times> iri_id) list \<Rightarrow> 'f histogram" where
  "co_histogram F es =
     (let ds = fset_of_list (map fst es); dobj = fset_of_list (map snd es)
      in \<lparr>h_distinct_subjects = of_nat (fcard ds), h_distinct_objects = of_nat (fcard dobj),
          h_count = of_nat (length es),
          h_avg_objects_per_subject = (if ds = {||} then f_0 F
             else f_div F (f_of F (of_nat (length es))) (f_of F (of_nat (fcard ds))))\<rparr>)"

definition co_build ::
  "'f f64_ops \<Rightarrow> ((iri_id, (iri_id \<times> iri_id) list) fmap \<Rightarrow> (iri_id \<times> (iri_id \<times> iri_id) list) list) \<Rightarrow>
   ((iri_id, iri_id fset) fmap \<Rightarrow> (iri_id \<times> iri_id fset) list) \<Rightarrow> collector \<Rightarrow> 'f statistics" where
  "co_build F iter titer c =
     (let st0 = (st_new F)\<lparr>st_triple_count := co_count c\<rparr>;
          subjects = of_nat (fcard (co_subjects c));
          predicates = of_nat (fcard (co_predicates c));
          objs = of_nat (fcard (co_objects c));
          st1 = st_set_distinct_counts subjects predicates objs st0;
          st2 = fold (\<lambda>(p, es) st. st_update_predicate_histogram p (co_histogram F es)
                    (st_update_predicate_frequency p (of_nat (length es)) st)) (iter (co_predicate_edges c)) st1;
          st3 = fold (\<lambda>(t, ss). st_update_type_count t (of_nat (fcard ss))) (titer (co_types c)) st2
      in if subjects > 0
         then st_set_avg_degrees (f_div F (f_of F (co_count c)) (f_of F subjects))
                (f_div F (f_of F (co_count c)) (f_of F objs)) st3
         else st3)"

definition co_clear :: "collector \<Rightarrow> collector" where
  "co_clear c = c\<lparr>co_subjects := {||}, co_predicates := {||}, co_objects := {||},
     co_predicate_edges := fmempty, co_types := fmempty, co_count := 0\<rparr>"


subsection \<open>What the collector builds\<close>

lemma sless_zero_of_nat:
  assumes "n < 2 ^ 63"
  shows "(0::u64) <s of_nat n \<longleftrightarrow> 0 < n"
proof -
  have "sint (of_nat n :: u64) = int n"
    using assms by (simp add: signed_of_nat signed_take_bit_int_eq_self)
  then show ?thesis by (simp add: word_sless_alt)
qed

lemma bump_of_nat: "n < 2 ^ 63 \<Longrightarrow> bump 0 (of_nat n) = of_nat n"
  using sless_zero_of_nat [of n] by (auto simp: bump_def sat_sub_def)

lemma counter_upd [simp]: "counter (fmupd k n m) j = (if j = k then n else counter m j)"
  by (simp add: counter_def)

definition freq_step :: "'f f64_ops \<Rightarrow> iri_id \<times> (iri_id \<times> iri_id) list \<Rightarrow> 'f statistics \<Rightarrow> 'f statistics" where
  "freq_step F = (\<lambda>(p, es) st. st_update_predicate_histogram p (co_histogram F es)
     (st_update_predicate_frequency p (of_nat (length es)) st))"

definition type_step :: "iri_id \<times> iri_id fset \<Rightarrow> 'f statistics \<Rightarrow> 'f statistics" where
  "type_step = (\<lambda>(t, ss). st_update_type_count t (of_nat (fcard ss)))"

lemmas st_update_defs = st_update_predicate_frequency_def st_update_predicate_histogram_def
  st_update_type_count_def st_freq_def st_type_count_def

text \<open>What a loop over the entries of a map leaves: each listed key is updated once from its old value.\<close>

lemma freq_loop:
  "distinct (map fst xs) \<Longrightarrow>
   st_freq (fold (freq_step F) xs st) p =
     (case map_of xs p of Some es \<Rightarrow> bump (st_freq st p) (of_nat (length es)) | None \<Rightarrow> st_freq st p)"
  by (induction xs arbitrary: st)
    (auto simp: freq_step_def st_update_defs split: option.splits dest: map_of_SomeD intro: rev_image_eqI)

lemma hist_loop:
  "distinct (map fst xs) \<Longrightarrow>
   st_predicate_histogram (fold (freq_step F) xs st) p =
     (case map_of xs p of Some es \<Rightarrow> Some (co_histogram F es) | None \<Rightarrow> st_predicate_histogram st p)"
  by (induction xs arbitrary: st)
    (auto simp: freq_step_def st_update_defs st_predicate_histogram_def split: option.splits
      dest: map_of_SomeD intro: rev_image_eqI)

lemma type_loop:
  "distinct (map fst xs) \<Longrightarrow>
   st_type_count (fold type_step xs st) t =
     (case map_of xs t of Some ss \<Rightarrow> bump (st_type_count st t) (of_nat (fcard ss)) | None \<Rightarrow> st_type_count st t)"
  by (induction xs arbitrary: st)
    (auto simp: type_step_def st_update_defs split: option.splits dest: map_of_SomeD intro: rev_image_eqI)

lemma freq_loop_frame:
  "st_triple_count (fold (freq_step F) xs st) = st_triple_count st \<and>
   st_distinct_subjects (fold (freq_step F) xs st) = st_distinct_subjects st \<and>
   st_distinct_predicates (fold (freq_step F) xs st) = st_distinct_predicates st \<and>
   st_distinct_objects (fold (freq_step F) xs st) = st_distinct_objects st \<and>
   st_type_distribution (fold (freq_step F) xs st) = st_type_distribution st"
  by (induction xs arbitrary: st) (auto simp: freq_step_def st_update_defs)

lemma type_loop_frame:
  "st_triple_count (fold type_step xs st) = st_triple_count st \<and>
   st_distinct_subjects (fold type_step xs st) = st_distinct_subjects st \<and>
   st_distinct_predicates (fold type_step xs st) = st_distinct_predicates st \<and>
   st_distinct_objects (fold type_step xs st) = st_distinct_objects st \<and>
   st_predicate_frequency (fold type_step xs st) = st_predicate_frequency st \<and>
   st_predicate_histograms (fold type_step xs st) = st_predicate_histograms st"
  by (induction xs arbitrary: st) (auto simp: type_step_def st_update_defs)

definition collect ::
  "(iri_id \<times> iri_id \<times> iri_id) list \<Rightarrow> (iri_id \<times> iri_id) list \<Rightarrow> collector" where
  "collect ts tys = fold (\<lambda>(s, t). co_add_type s t) tys (fold (\<lambda>(s, p, ob). co_add_triple s p ob) ts co_new)"

lemma collect_triples:
  "c = fold (\<lambda>(s, p, ob). co_add_triple s p ob) ts c0 \<Longrightarrow>
   fset (co_subjects c) = fset (co_subjects c0) \<union> fst ` set ts \<and>
   fset (co_predicates c) = fset (co_predicates c0) \<union> (fst \<circ> snd) ` set ts \<and>
   fset (co_objects c) = fset (co_objects c0) \<union> (snd \<circ> snd) ` set ts \<and>
   co_count c = co_count c0 + of_nat (length ts) \<and> co_types c = co_types c0 \<and>
   co_edges c p = co_edges c0 p @ map (\<lambda>(s, q, ob). (s, ob)) (filter (\<lambda>(s, q, ob). q = p) ts)"
proof (induction ts arbitrary: c0)
  case (Cons t ts)
  obtain s q ob where t: "t = (s, q, ob)" by (cases t)
  have e: "co_edges (co_add_triple s q ob c0) p = (if q = p then co_edges c0 p @ [(s, ob)] else co_edges c0 p)"
    by (auto simp: co_edges_def co_add_triple_def)
  from Cons.IH [of "co_add_triple s q ob c0"] Cons.prems t show ?case
    by (simp add: e) (auto simp: co_add_triple_def)
qed simp

lemma collect_types:
  "c = fold (\<lambda>(s, t). co_add_type s t) tys c0 \<Longrightarrow>
   mm_get (co_types c) t = mm_get (co_types c0) t |\<union>| fset_of_list (map fst (filter (\<lambda>(s, u). u = t) tys)) \<and>
   co_subjects c = co_subjects c0 \<and> co_predicates c = co_predicates c0 \<and> co_objects c = co_objects c0 \<and>
   co_count c = co_count c0 \<and> co_predicate_edges c = co_predicate_edges c0"
proof (induction tys arbitrary: c0)
  case (Cons x tys)
  obtain s u where x: "x = (s, u)" by (cases x)
  from Cons.IH [of "co_add_type s u c0"] Cons.prems x show ?case
    by (auto simp: co_add_type_def)
qed simp

lemma fold_steps:
  "fold (\<lambda>(p, es) st. st_update_predicate_histogram p (co_histogram F es)
     (st_update_predicate_frequency p (of_nat (length es)) st)) = fold (freq_step F)"
  "fold (\<lambda>(t, ss). st_update_type_count t (of_nat (fcard ss))) = fold type_step"
  by (simp_all add: freq_step_def type_step_def)

lemma co_build_fields:
  fixes F :: "'f f64_ops"
  assumes "hash_order iter" "hash_order titer" "st = co_build F iter titer c"
  shows "st_triple_count st = co_count c" "st_distinct_subjects st = of_nat (fcard (co_subjects c))"
    "st_distinct_predicates st = of_nat (fcard (co_predicates c))"
    "st_distinct_objects st = of_nat (fcard (co_objects c))"
    "st_freq st p = (case fmlookup (co_predicate_edges c) p of Some es \<Rightarrow> bump 0 (of_nat (length es)) | None \<Rightarrow> 0)"
    "st_predicate_histogram st p = map_option (co_histogram F) (fmlookup (co_predicate_edges c) p)"
    "st_type_count st t = (case fmlookup (co_types c) t of Some ss \<Rightarrow> bump 0 (of_nat (fcard ss)) | None \<Rightarrow> 0)"
proof -
  note d = hash_order_distinct [OF assms(1)] hash_order_distinct [OF assms(2)]
  have m: "map_of (iter (co_predicate_edges c)) p = fmlookup (co_predicate_edges c) p"
    "map_of (titer (co_types c)) t = fmlookup (co_types c) t" for p t
    using assms(1,2) by (simp_all add: hash_order_def)
  define st1 :: "'f statistics" where
    "st1 = st_set_distinct_counts (of_nat (fcard (co_subjects c))) (of_nat (fcard (co_predicates c)))
      (of_nat (fcard (co_objects c))) ((st_new F)\<lparr>st_triple_count := co_count c\<rparr>)"
  define st2 where "st2 = fold (freq_step F) (iter (co_predicate_edges c)) st1"
  define st3 where "st3 = fold type_step (titer (co_types c)) st2"
  have st: "\<exists>a b. st = st3 \<or> st = st_set_avg_degrees a b st3"
    unfolding assms(3) co_build_def Let_def fold_steps st3_def st2_def st1_def by auto
  have one: "st_freq st1 p = 0" "st_type_count st1 t = 0" "st_predicate_histogram st1 p = None" for p t
    by (simp_all add: st1_def st_set_distinct_counts_def st_new_def st_freq_def st_type_count_def counter_def
        st_predicate_histogram_def)
  have two: "st_freq st2 p = (case fmlookup (co_predicate_edges c) p of Some es \<Rightarrow> bump 0 (of_nat (length es)) | None \<Rightarrow> 0)"
    "st_predicate_histogram st2 p = map_option (co_histogram F) (fmlookup (co_predicate_edges c) p)"
    "st_type_count st2 t = 0" for p t
    using one freq_loop_frame [of F "iter (co_predicate_edges c)" st1]
    by (auto simp: st2_def freq_loop [OF d(1)] hist_loop [OF d(1)] m st_type_count_def split: option.split)
  have three: "st_freq st3 p = st_freq st2 p" "st_predicate_histogram st3 p = st_predicate_histogram st2 p"
    "st_type_count st3 t = (case fmlookup (co_types c) t of Some ss \<Rightarrow> bump 0 (of_nat (fcard ss)) | None \<Rightarrow> 0)" for p t
    using type_loop_frame [of "titer (co_types c)" st2] two(3)
    by (auto simp: st3_def type_loop [OF d(2)] m st_freq_def st_predicate_histogram_def split: option.split)
  have frame: "st_triple_count st3 = co_count c" "st_distinct_subjects st3 = of_nat (fcard (co_subjects c))"
    "st_distinct_predicates st3 = of_nat (fcard (co_predicates c))"
    "st_distinct_objects st3 = of_nat (fcard (co_objects c))"
    using type_loop_frame [of "titer (co_types c)" st2] freq_loop_frame [of F "iter (co_predicate_edges c)" st1]
    by (simp_all add: st3_def st2_def) (simp_all add: st1_def st_set_distinct_counts_def)
  have avg: "st_freq (st_set_avg_degrees a b st3) p = st_freq st3 p"
    "st_type_count (st_set_avg_degrees a b st3) t = st_type_count st3 t"
    "st_predicate_histogram (st_set_avg_degrees a b st3) p = st_predicate_histogram st3 p" for a b p t
    by (simp_all add: st_set_avg_degrees_def st_freq_def st_type_count_def st_predicate_histogram_def)
  from st show "st_triple_count st = co_count c" "st_distinct_subjects st = of_nat (fcard (co_subjects c))"
    "st_distinct_predicates st = of_nat (fcard (co_predicates c))"
    "st_distinct_objects st = of_nat (fcard (co_objects c))"
    using frame by (auto simp: st_set_avg_degrees_def)
  from st show "st_freq st p = (case fmlookup (co_predicate_edges c) p of Some es \<Rightarrow> bump 0 (of_nat (length es)) | None \<Rightarrow> 0)"
    "st_predicate_histogram st p = map_option (co_histogram F) (fmlookup (co_predicate_edges c) p)"
    "st_type_count st t = (case fmlookup (co_types c) t of Some ss \<Rightarrow> bump 0 (of_nat (fcard ss)) | None \<Rightarrow> 0)"
    using two three avg by metis+
qed


text \<open>The statistics built from collected triples and type assertions are exact: the triple count,
  the numbers of distinct subjects, predicates and objects, the frequency of every predicate and the
  number of subjects of every type, whatever the order in which the maps are traversed.\<close>

theorem build_correct:
  assumes "hash_order iter" "hash_order titer" "length ts < 2 ^ 63" "length tys < 2 ^ 63"
    and "st = co_build F iter titer (collect ts tys)"
  shows "st_triple_count st = of_nat (length ts) \<and>
    st_distinct_subjects st = of_nat (card (fst ` set ts)) \<and>
    st_distinct_predicates st = of_nat (card ((fst \<circ> snd) ` set ts)) \<and>
    st_distinct_objects st = of_nat (card ((snd \<circ> snd) ` set ts)) \<and>
    st_freq st p = of_nat (length (filter (\<lambda>(s, q, ob). q = p) ts)) \<and>
    st_type_count st t = of_nat (card {s. (s, t) \<in> set tys})"
proof -
  define c0 where "c0 = fold (\<lambda>(s, p, ob). co_add_triple s p ob) ts co_new"
  define c where "c = fold (\<lambda>(s, t). co_add_type s t) tys c0"
  note c0 = collect_triples [OF c0_def, of p] and c = collect_types [OF c_def, of t]
  have new: "co_edges co_new p = []" "co_types co_new = fmempty" by (simp_all add: co_edges_def co_new_def)
  have "collect ts tys = c" by (simp add: collect_def c_def c0_def)
  note b = co_build_fields [OF assms(1,2) assms(5) [unfolded this]]
  have edges: "co_edges c p = map (\<lambda>(s, q, ob). (s, ob)) (filter (\<lambda>(s, q, ob). q = p) ts)"
    using c0 c new by (simp add: co_edges_def)
  have "length (filter (\<lambda>(s, q, ob). q = p) ts) < 2 ^ 63"
    using assms(3) le_less_trans length_filter_le by blast
  then have freq: "st_freq st p = of_nat (length (filter (\<lambda>(s, q, ob). q = p) ts))"
    using b(5) [of p] edges bump_of_nat
    by (cases "fmlookup (co_predicate_edges c) p") (auto simp: co_edges_def dest: arg_cong [where f = length])
  let ?ss = "fset_of_list (map fst (filter (\<lambda>(s, u). u = t) tys))"
  have ss: "mm_get (co_types c) t = ?ss" using c c0 new by simp
  have "fset ?ss = {s. (s, t) \<in> set tys}" by (force simp: fset_of_list.rep_eq)
  then have card: "fcard ?ss = card {s. (s, t) \<in> set tys}" by (simp add: fcard.rep_eq)
  have "fcard ?ss \<le> length tys"
  proof -
    have "fcard ?ss \<le> length (filter (\<lambda>(s, u). u = t) tys)"
      using card_length [of "map fst (filter (\<lambda>(s, u). u = t) tys)"]
      by (simp only: fcard.rep_eq fset_of_list.rep_eq length_map)
    then show ?thesis using length_filter_le le_trans by blast
  qed
  then have "st_type_count st t = of_nat (fcard ?ss)"
    using b(7) [of t] ss bump_of_nat [of "fcard ?ss"] assms(4)
    by (cases "fmlookup (co_types c) t") (auto simp: mm_get_def fcard_fempty)
  then show ?thesis using b(1-4) c c0 freq card
    by (simp add: fcard.rep_eq) (simp add: co_new_def)
qed

definition unit_f64 :: "unit f64_ops" where
  "unit_f64 = \<lparr>f_0 = (), f_1 = (), f_tenth = (), f_of = (\<lambda>_. ()), f_mul = (\<lambda>_ _. ()),
     f_div = (\<lambda>_ _. ()), f_is_zero = (\<lambda>_. True)\<rparr>"

theorem build_correct_witness:
  "st_freq (co_build unit_f64 key_order key_order (collect [(1, 9, 2), (1, 9, 3)] [(1, 5)])) 9 = 2"
  using build_correct [OF hash_order_key_order hash_order_key_order _ _ refl,
      of "[(1, 9, 2), (1, 9, 3)]" "[(1, 5)]" unit_f64 9] by simp

text \<open>The counters of predicates and types stop at zero, but the triple counter wraps: a
  decrement of new statistics makes it the largest 64-bit value.\<close>

theorem triple_count_wraps:
  "st_triple_count (st_decrement (st_new F)) = - 1 \<and>
   st_freq (st_update_predicate_frequency p (- 1) (st_new F)) p = 0 \<and>
   st_type_count (st_update_type_count t (- 1) (st_new F)) t = 0"
  by (simp add: st_decrement_def st_new_def st_update_defs counter_def bump_def sat_sub_def
      word_sless_alt)

end
