(* ===== verification/RdfLiteral.thy ===== *)
theory RdfLiteral
  imports Iri
begin

section \<open>RDF literals (parser/src/rdf/literal.rs)\<close>

text \<open>
  Literals with their constructors, the language tag check, the typed views of the lexical
  value (boolean, 64-bit integer, float, date) and the display form. The date check indexes
  the UTF-8 bytes of the value and slices it at fixed byte offsets, which is modelled with
  the panic of a slice that is no character boundary. A float enters a literal only
  through \<open>f64::to_string\<close>, so \<open>literal_decimal\<close> and \<open>literal_double\<close> take that text.
\<close>

record literal =
  lit_value :: rstr
  lit_datatype :: "iri option"
  lit_language :: "rstr option"

subsection \<open>Datatype IRIs\<close>

definition xsd_namespace :: rstr where
  "xsd_namespace = lit ''http://www.w3.org/2001/XMLSchema#''"

definition xsd_datatype :: "rstr \<Rightarrow> iri" where
  "xsd_datatype local = iri_new_unchecked (xsd_namespace @ local)"

definition xsd_string :: iri where "xsd_string = xsd_datatype (lit ''string'')"
definition xsd_boolean :: iri where "xsd_boolean = xsd_datatype (lit ''boolean'')"
definition xsd_integer :: iri where "xsd_integer = xsd_datatype (lit ''integer'')"
definition xsd_decimal :: iri where "xsd_decimal = xsd_datatype (lit ''decimal'')"
definition xsd_double :: iri where "xsd_double = xsd_datatype (lit ''double'')"

definition RDF_LANG_STRING :: rstr where
  "RDF_LANG_STRING = lit ''http://www.w3.org/1999/02/22-rdf-syntax-ns#langString''"

subsection \<open>Constructors\<close>

definition literal_new :: "rstr \<Rightarrow> literal" where
  "literal_new v = \<lparr>lit_value = v, lit_datatype = None, lit_language = None\<rparr>"

definition literal_with_datatype :: "rstr \<Rightarrow> iri \<Rightarrow> literal" where
  "literal_with_datatype v dt = \<lparr>lit_value = v, lit_datatype = Some dt, lit_language = None\<rparr>"

fun lang_chars :: "rstr \<Rightarrow> parser_error + unit" where
  "lang_chars [] = Inr ()"
| "lang_chars (c # cs) =
     (if \<not> is_ascii_alphanumeric c \<and> c \<noteq> c_minus then Inl (InvalidInput (LangInvalidChar c))
      else lang_chars cs)"

definition validate_language_tag :: "rstr \<Rightarrow> parser_error + unit" where
  "validate_language_tag tag =
     (case tag of [] \<Rightarrow> Inl (InvalidInput LangEmpty)
      | first # _ \<Rightarrow> if \<not> is_ascii_alphabetic first then Inl (InvalidInput LangStart)
                    else lang_chars tag)"

definition literal_with_language :: "rstr \<Rightarrow> rstr \<Rightarrow> parser_error + literal" where
  "literal_with_language v lang =
     (case validate_language_tag lang of Inl e \<Rightarrow> Inl e
      | Inr _ \<Rightarrow> Inr \<lparr>lit_value = v, lit_datatype = None, lit_language = Some lang\<rparr>)"

definition literal_boolean :: "bool \<Rightarrow> literal" where
  "literal_boolean b = literal_with_datatype (if b then lit ''true'' else lit ''false'') xsd_boolean"

definition literal_integer :: "int \<Rightarrow> literal" where
  "literal_integer n = literal_with_datatype (show_int n) xsd_integer"

definition literal_decimal :: "rstr \<Rightarrow> literal" where
  "literal_decimal shown = literal_with_datatype shown xsd_decimal"

definition literal_double :: "rstr \<Rightarrow> literal" where
  "literal_double shown = literal_with_datatype shown xsd_double"

subsection \<open>Views\<close>

definition literal_datatype :: "literal \<Rightarrow> iri" where
  "literal_datatype l =
     (if lit_language l \<noteq> None then iri_new_unchecked RDF_LANG_STRING
      else case lit_datatype l of Some dt \<Rightarrow> dt | None \<Rightarrow> xsd_string)"

definition is_plain :: "literal \<Rightarrow> bool" where
  "is_plain l \<longleftrightarrow> lit_datatype l = None \<and> lit_language l = None"

definition is_language_tagged :: "literal \<Rightarrow> bool" where
  "is_language_tagged l \<longleftrightarrow> lit_language l \<noteq> None"

definition as_bool :: "literal \<Rightarrow> bool option" where
  "as_bool l =
     (if lit_value l = lit ''true'' \<or> lit_value l = lit ''1'' then Some True
      else if lit_value l = lit ''false'' \<or> lit_value l = lit ''0'' then Some False
      else None)"

definition as_integer :: "literal \<Rightarrow> int option" where
  "as_integer l = parse_i64 (lit_value l)"

text \<open>\<open>as_float(..).is_some()\<close>: the code uses no more of the float than its existence.\<close>

definition as_float_is_some :: "literal \<Rightarrow> bool" where
  "as_float_is_some l = parses_f64 (lit_value l)"

definition utf8_encode :: "rchar \<Rightarrow> nat list" where
  "utf8_encode c =
     (if c < 128 then [c]
      else if c < 2048 then [192 + c div 64, 128 + c mod 64]
      else if c < 65536 then [224 + c div 4096, 128 + c div 64 mod 64, 128 + c mod 64]
      else [240 + c div 262144, 128 + c div 4096 mod 64, 128 + c div 64 mod 64, 128 + c mod 64])"

definition as_bytes :: "rstr \<Rightarrow> nat list" where
  "as_bytes s = concat (map utf8_encode s)"

definition max_day :: "int \<Rightarrow> nat \<Rightarrow> nat" where
  "max_day year month =
     (if month = 2 then
        (if (year mod 4 = 0 \<and> year mod 100 \<noteq> 0) \<or> year mod 400 = 0 then 29 else 28)
      else if month \<in> {4, 6, 9, 11} then 30 else 31)"

text \<open>The outer option is the panic of a slice, the inner one the function's result.\<close>

definition as_date :: "literal \<Rightarrow> (rstr option) option" where
  "as_date l =
     (let s = lit_value l; bytes = as_bytes s
      in if byte_len s \<noteq> 10 then Some None
         else if bytes ! 4 \<noteq> c_minus \<or> bytes ! 7 \<noteq> c_minus then Some None
         else if \<not> list_all is_ascii_digit (take 4 bytes) then Some None
         else case str_slice s 0 4 of None \<Rightarrow> None | Some ys \<Rightarrow>
           (case parse_i32 ys of None \<Rightarrow> Some None | Some year \<Rightarrow>
             (case str_slice s 5 7 of None \<Rightarrow> None | Some ms \<Rightarrow>
               (case parse_u32 ms of None \<Rightarrow> Some None | Some month \<Rightarrow>
                 (case str_slice s 8 10 of None \<Rightarrow> None | Some ds \<Rightarrow>
                   (case parse_u32 ds of None \<Rightarrow> Some None | Some day \<Rightarrow>
                     (if year < 1 \<or> \<not> (1 \<le> month \<and> month \<le> 12) \<or> \<not> (1 \<le> day \<and> day \<le> 31)
                      then Some None
                      else if day > max_day year month then Some None
                      else Some (Some s))))))))"

definition escape_literal :: "rstr \<Rightarrow> rstr" where
  "escape_literal v =
     replace_char c_tab (lit [CHR 0x5C, CHR ''t''])
      (replace_char c_cr (lit [CHR 0x5C, CHR ''r''])
       (replace_char c_nl (lit [CHR 0x5C, CHR ''n''])
        (replace_char c_dquote [c_bslash, c_dquote]
         (replace_char c_bslash [c_bslash, c_bslash] v))))"

definition literal_display :: "literal \<Rightarrow> rstr" where
  "literal_display l = [c_dquote] @ escape_literal (lit_value l) @ [c_dquote] @
     (case lit_language l of Some lang \<Rightarrow> c_at # lang
      | None \<Rightarrow> (case lit_datatype l of Some dt \<Rightarrow> lit ''^^'' @ iri_display dt | None \<Rightarrow> []))"


subsection \<open>Language tags\<close>

definition lang_tag_ok :: "rstr \<Rightarrow> bool" where
  "lang_tag_ok t \<longleftrightarrow> t \<noteq> [] \<and> is_ascii_alphabetic (hd t) \<and>
     list_all (\<lambda>c. is_ascii_alphanumeric c \<or> c = c_minus) t"

lemma lang_chars_ok: "lang_chars t = Inr u \<longleftrightarrow> list_all (\<lambda>c. is_ascii_alphanumeric c \<or> c = c_minus) t"
  by (induction t) auto

text \<open>a language-tagged literal is built exactly for the tags that start with an ASCII letter
  and consist of ASCII letters, digits and hyphens; it then carries the value and the tag
  unchanged and reports the datatype \<open>rdf:langString\<close>.\<close>

theorem with_language_accepts:
  "(\<exists>l. literal_with_language v t = Inr l) = lang_tag_ok t \<and>
   (lang_tag_ok t = (literal_with_language v t = Inr \<lparr>lit_value = v, lit_datatype = None, lit_language = Some t\<rparr>)) \<and>
   iri_value (literal_datatype \<lparr>lit_value = v, lit_datatype = d, lit_language = Some t\<rparr>) = RDF_LANG_STRING"
  using lang_chars_ok [of t]
  by (cases t) (auto simp: literal_with_language_def validate_language_tag_def lang_tag_ok_def
      literal_datatype_def simp del: lang_chars.simps split: sum.splits)

text \<open>the integer view of an integer literal is the integer it was built from, for every
  value of the code's \<open>i64\<close>.\<close>

theorem integer_roundtrip:
  "- (2 ^ 63) \<le> n \<Longrightarrow> n < 2 ^ 63 \<Longrightarrow> as_integer (literal_integer n) = Some n"
  using parse_signed_show_int [of "2 ^ 63 - 1" n]
  by (simp add: as_integer_def literal_integer_def literal_with_datatype_def parse_i64_def)

theorem integer_roundtrip_witness:
  "- (2 ^ 63) \<le> (-9223372036854775808 :: int) \<and> as_integer (literal_integer (-9223372036854775808)) = Some (-9223372036854775808)"
  using integer_roundtrip [of "-9223372036854775808"] by simp

subsection \<open>Dates\<close>

lemma length_utf8_encode [simp]: "length (utf8_encode c) = utf8_len c"
  by (simp add: utf8_encode_def utf8_len_def)

lemma length_as_bytes [simp]: "length (as_bytes s) = byte_len s"
  by (induction s) (simp_all add: as_bytes_def)

lemma utf8_encode_high: "128 \<le> c \<Longrightarrow> b \<in> set (utf8_encode c) \<Longrightarrow> 128 \<le> b"
  by (auto simp: utf8_encode_def split: if_splits)

lemma as_bytes_append: "as_bytes (s @ t) = as_bytes s @ as_bytes t"
  by (simp add: as_bytes_def)

lemma as_bytes_ascii: "list_all (\<lambda>c. c < 128) s \<Longrightarrow> as_bytes s = s \<and> byte_len s = length s"
  by (induction s) (auto simp: as_bytes_def utf8_encode_def utf8_len_ascii)

text \<open>An ASCII byte of the encoding is a character of the text, so its offset is a boundary.\<close>

lemma ascii_byte_split:
  "k < byte_len s \<Longrightarrow> as_bytes s ! k = b \<Longrightarrow> b < 128 \<Longrightarrow>
   \<exists>xs ys. s = xs @ b # ys \<and> byte_len xs = k"
proof (induction s arbitrary: k)
  case (Cons c s)
  have split: "as_bytes (c # s) = utf8_encode c @ as_bytes s"
    by (simp add: as_bytes_def)
  show ?case
  proof (cases "k < utf8_len c")
    case True
    then have b: "b = utf8_encode c ! k" using Cons.prems(2) split by (simp add: nth_append)
    then have "b \<in> set (utf8_encode c)" using True by simp
    then have c: "c < 128" using Cons.prems(3) utf8_encode_high [of c b] by fastforce
    with True have "k = 0" by (simp add: utf8_len_ascii)
    with b c show ?thesis
      by - (rule exI [of _ "[]"], rule exI [of _ s], simp add: utf8_encode_def)
  next
    case False
    then have "as_bytes s ! (k - utf8_len c) = b" "k - utf8_len c < byte_len s"
      using Cons.prems split by (auto simp: nth_append)
    then obtain xs ys where "s = xs @ b # ys" "byte_len xs = k - utf8_len c"
      using Cons.IH Cons.prems(3) by blast
    with False show ?thesis by - (rule exI [of _ "c # xs"], rule exI [of _ ys], simp)
  qed
qed simp

text \<open>The two-byte month and day fields: \<open>u32\<close> parsing takes a plus sign.\<close>

definition two_ok :: "rchar \<Rightarrow> rchar \<Rightarrow> bool" where
  "two_ok a b \<longleftrightarrow> (is_ascii_digit a \<or> a = c_plus) \<and> is_ascii_digit b"

definition two_val :: "rchar \<Rightarrow> rchar \<Rightarrow> nat" where
  "two_val a b = (if a = c_plus then 0 else 10 * (a - 48)) + (b - 48)"

definition date_text :: "rstr \<Rightarrow> bool" where
  "date_text s \<longleftrightarrow> length s = 10 \<and> list_all is_ascii_digit (take 4 s) \<and> s ! 4 = c_minus \<and>
     two_ok (s ! 5) (s ! 6) \<and> s ! 7 = c_minus \<and> two_ok (s ! 8) (s ! 9) \<and>
     (let y = digits_value (take 4 s); m = two_val (s ! 5) (s ! 6); d = two_val (s ! 8) (s ! 9)
      in 1 \<le> y \<and> 1 \<le> m \<and> m \<le> 12 \<and> 1 \<le> d \<and> d \<le> max_day (int y) m)"

lemma two_bytes_cases:
  assumes "byte_len ms = 2"
  obtains a b where "ms = [a, b]" "a < 128" "b < 128" | c where "ms = [c]" "128 \<le> c"
proof (cases ms)
  case (Cons a r)
  show ?thesis
  proof (cases r)
    case Nil
    with Cons assms have "128 \<le> a" by (auto simp: utf8_len_def split: if_splits)
    with Cons Nil that(2) show ?thesis by blast
  next
    case (Cons b q)
    with \<open>ms = a # r\<close> assms have "utf8_len a + utf8_len b + byte_len q = 2" by simp
    then have "q = []" "a < 128" "b < 128"
      by (auto simp: utf8_len_def split: if_splits)
    with Cons \<open>ms = a # r\<close> that(1) show ?thesis by blast
  qed
qed (use assms in simp)

lemma parse_two: "parse_u32 [a, b] = (if two_ok a b then Some (two_val a b) else None)"
  by (auto simp: parse_u32_def parse_unsigned_def all_digits_def digits_value_def two_ok_def
      two_val_def is_ascii_digit_def Let_def)

lemma parse_one_wide: "128 \<le> c \<Longrightarrow> parse_u32 [c] = None"
  by (simp add: parse_u32_def parse_unsigned_def all_digits_def is_ascii_digit_def)

lemma parse_year:
  assumes "list_all is_ascii_digit [y1, y2, y3, y4]"
  shows "parse_i32 [y1, y2, y3, y4] = Some (int (digits_value [y1, y2, y3, y4]))"
  using assms by (auto simp: parse_i32_def parse_signed_def all_digits_def digits_value_def
      is_ascii_digit_def Let_def)

lemma max_day_le: "max_day y m \<le> 31"
  by (simp add: max_day_def)


lemma date_text_split:
  assumes "list_all is_ascii_digit [y1, y2, y3, y4]" "byte_len ms = 2" "byte_len ds = 2"
  shows "date_text ([y1, y2, y3, y4] @ c_minus # ms @ c_minus # ds) \<longleftrightarrow>
    (\<exists>m d. parse_u32 ms = Some m \<and> parse_u32 ds = Some d \<and> 1 \<le> digits_value [y1, y2, y3, y4] \<and>
       1 \<le> m \<and> m \<le> 12 \<and> 1 \<le> d \<and> d \<le> max_day (int (digits_value [y1, y2, y3, y4])) m)"
  using assms(2)
proof (cases rule: two_bytes_cases)
  case m: (1 a b)
  show ?thesis using assms(3)
  proof (cases rule: two_bytes_cases)
    case (1 c d)
    with m assms(1) show ?thesis by (auto simp: date_text_def parse_two Let_def)
  qed (use m in \<open>simp add: date_text_def parse_one_wide\<close>)
next
  case (2 c)
  have "length ds \<le> 2" using assms(3) by (cases rule: two_bytes_cases) auto
  with 2 show ?thesis by (simp add: date_text_def parse_one_wide)
qed

lemma date_text_bytes:
  assumes "date_text s"
  shows "byte_len s = 10 \<and> as_bytes s = s"
proof -
  obtain x0 x1 x2 x3 x4 x5 x6 x7 x8 x9 where "s = [x0, x1, x2, x3, x4, x5, x6, x7, x8, x9]"
    using assms by (auto simp: date_text_def numeral_eq_Suc length_Suc_conv)
  with assms have "list_all (\<lambda>c. c < 128) s"
    by (auto simp: date_text_def two_ok_def is_ascii_digit_def)
  with assms show ?thesis using as_bytes_ascii [of s] by (simp add: date_text_def)
qed

lemma date_layout:
  assumes len: "byte_len s = 10" and b4: "as_bytes s ! 4 = c_minus" and b7: "as_bytes s ! 7 = c_minus"
    and ds: "list_all is_ascii_digit (take 4 (as_bytes s))"
  obtains y1 y2 y3 y4 ms dd where "s = [y1, y2, y3, y4] @ c_minus # ms @ c_minus # dd"
    "list_all is_ascii_digit [y1, y2, y3, y4]" "byte_len ms = 2" "byte_len dd = 2"
proof -
  obtain xs dd where s: "s = xs @ c_minus # dd" "byte_len xs = 7"
    using ascii_byte_split [of 7 s c_minus] len b7 by auto
  have "as_bytes xs ! 4 = c_minus"
    using b4 s by (simp add: as_bytes_append nth_append)
  then obtain ys ms where xs: "xs = ys @ c_minus # ms" "byte_len ys = 4"
    using ascii_byte_split [of 4 xs c_minus] s(2) by auto
  have tk: "take 4 (as_bytes s) = as_bytes ys"
    using s(1) xs by (simp add: as_bytes_append)
  have asc: "list_all (\<lambda>c. c < 128) ys"
  proof (rule ccontr)
    assume "\<not> list_all (\<lambda>c. c < 128) ys"
    then obtain c where c: "c \<in> set ys" "128 \<le> c" by (auto simp: list_all_iff not_less)
    obtain b where b: "b \<in> set (utf8_encode c)"
      by (metis length_utf8_encode length_greater_0_conv list.set_sel(1) utf8_len_pos)
    with c(1) have "b \<in> set (as_bytes ys)" by (auto simp: as_bytes_def)
    with utf8_encode_high [OF c(2) b] ds tk show False
      by (auto simp: list_all_iff is_ascii_digit_def)
  qed
  then have "as_bytes ys = ys" "length ys = 4"
    using as_bytes_ascii [of ys] xs(2) by simp_all
  then obtain y1 y2 y3 y4 where "ys = [y1, y2, y3, y4]"
    by (auto simp: numeral_eq_Suc length_Suc_conv)
  moreover have "list_all is_ascii_digit ys" using ds tk \<open>as_bytes ys = ys\<close> by simp
  moreover have "byte_len ms = 2" "byte_len dd = 2" using s xs len by (simp_all add: utf8_len_ascii)
  ultimately show ?thesis using that s(1) xs(1) by simp
qed

lemma date_slices:
  assumes s: "s = ys @ c_minus # ms @ c_minus # dd"
    and "byte_len ys = 4" "byte_len ms = 2" "byte_len dd = 2"
  shows "str_slice s 0 4 = Some ys" "str_slice s 5 7 = Some ms" "str_slice s 8 10 = Some dd"
proof -
  have slice: "str_slice (a @ b @ c) (byte_len a) (byte_len a + byte_len b) = Some b" for a b c
    using str_to_append [of "a @ b" c] by (simp add: str_slice_def str_from_append)
  show "str_slice s 0 4 = Some ys"
    using slice [of "[]" ys] assms by simp
  show "str_slice s 5 7 = Some ms"
    using slice [of "ys @ [c_minus]" ms "c_minus # dd"] assms by (simp add: utf8_len_ascii)
  show "str_slice s 8 10 = Some dd"
    using slice [of "ys @ c_minus # ms @ [c_minus]" dd "[]"] assms by (simp add: utf8_len_ascii)
qed

text \<open>the date check never panics on a slice, whatever the value (non-ASCII text included), and
  accepts exactly the texts of ten characters of the form YYYY-MM-DD that name a day of the
  Gregorian calendar from year 1 on, where the month and the day field may also be a plus
  sign and one digit.\<close>

theorem as_date_correct: "as_date l = Some (if date_text (lit_value l) then Some (lit_value l) else None)"
proof (cases "byte_len (lit_value l) = 10 \<and> as_bytes (lit_value l) ! 4 = c_minus \<and>
    as_bytes (lit_value l) ! 7 = c_minus \<and> list_all is_ascii_digit (take 4 (as_bytes (lit_value l)))")
  case True
  define s where "s = lit_value l"
  from True obtain y1 y2 y3 y4 ms dd where
    s: "s = [y1, y2, y3, y4] @ c_minus # ms @ c_minus # dd"
    and y: "list_all is_ascii_digit [y1, y2, y3, y4]" and md: "byte_len ms = 2" "byte_len dd = 2"
    unfolding s_def using date_layout by blast
  have y4: "byte_len [y1, y2, y3, y4] = 4"
    using as_bytes_ascii [of "[y1, y2, y3, y4]"] y by (simp add: is_ascii_digit_def)
  have "as_date l = (case parse_u32 ms of None \<Rightarrow> Some None | Some month \<Rightarrow>
      (case parse_u32 dd of None \<Rightarrow> Some None | Some day \<Rightarrow>
        (let year = int (digits_value [y1, y2, y3, y4]) in
         if year < 1 \<or> \<not> (1 \<le> month \<and> month \<le> 12) \<or> \<not> (1 \<le> day \<and> day \<le> 31) then Some None
         else if day > max_day year month then Some None else Some (Some s))))"
    using True date_slices [OF s y4 md] parse_year [OF y]
    by (simp add: as_date_def s_def Let_def split: option.split)
  also have "\<dots> = Some (if date_text s then Some s else None)"
  proof -
    define y where "y = digits_value [y1, y2, y3, y4]"
    have iff: "date_text s \<longleftrightarrow> (\<exists>m d. parse_u32 ms = Some m \<and> parse_u32 dd = Some d \<and> 1 \<le> y \<and>
        1 \<le> m \<and> m \<le> 12 \<and> 1 \<le> d \<and> d \<le> max_day (int y) m)"
      using date_text_split [OF y md] by (simp only: s y_def)
    have "\<not> max_day (int y) m < d \<Longrightarrow> d \<le> 31" for d m
      using max_day_le [of "int y" m] by linarith
    then show ?thesis
      unfolding iff y_def [symmetric] Let_def
      by (cases "parse_u32 ms"; cases "parse_u32 dd") auto
  qed
  finally show ?thesis by (simp add: s_def)
next
  case False
  then have "\<not> date_text (lit_value l)"
    using date_text_bytes [of "lit_value l"] by (auto simp: date_text_def)
  with False show ?thesis by (auto simp: as_date_def Let_def)
qed

text \<open>the value 2024-+1-+5, which is no ISO 8601 date, passes the date check.\<close>

theorem as_date_accepts_signs:
  "as_date (literal_new (lit ''2024-+1-+5'')) = Some (Some (lit ''2024-+1-+5''))"
  by (simp add: as_date_correct literal_new_def date_text_def two_ok_def two_val_def str_simps
      is_ascii_digit_def digits_value_def max_day_def)

end
