(* ===== verification/Triple.thy ===== *)
theory Triple
  imports RdfLiteral BlankNode
begin

section \<open>Triples, quads and patterns (parser/src/rdf/triple.rs)\<close>

text \<open>
  The statements of RDF and the patterns that deletion uses. The derived equality of the
  Rust types goes through \<open>Iri\<close>'s own equality, which compares the text only and not
  the cached offsets; the \<open>_eq\<close> functions are that equality. On terms built by the
  constructors (\<open>wf\<close>) it is equality of the model's values.
\<close>

datatype subject = SubjIri iri | SubjBlank blank_node

datatype object = ObjIri iri | ObjBlank blank_node | ObjLiteral literal

record triple =
  t_subject :: subject
  t_predicate :: iri
  t_object :: object

datatype graph_name = GraphIri iri | GraphBlank blank_node

record quad =
  q_triple :: triple
  q_graph :: "graph_name option"

subsection \<open>Equality\<close>

fun literal_eq :: "literal \<Rightarrow> literal \<Rightarrow> bool" where
  "literal_eq a b \<longleftrightarrow> lit_value a = lit_value b \<and>
     (case (lit_datatype a, lit_datatype b) of (None, None) \<Rightarrow> True
      | (Some x, Some y) \<Rightarrow> iri_eq x y | _ \<Rightarrow> False) \<and>
     lit_language a = lit_language b"

fun subject_eq :: "subject \<Rightarrow> subject \<Rightarrow> bool" where
  "subject_eq (SubjIri a) (SubjIri b) \<longleftrightarrow> iri_eq a b"
| "subject_eq (SubjBlank a) (SubjBlank b) \<longleftrightarrow> bn_eq a b"
| "subject_eq _ _ \<longleftrightarrow> False"

fun object_eq :: "object \<Rightarrow> object \<Rightarrow> bool" where
  "object_eq (ObjIri a) (ObjIri b) \<longleftrightarrow> iri_eq a b"
| "object_eq (ObjBlank a) (ObjBlank b) \<longleftrightarrow> bn_eq a b"
| "object_eq (ObjLiteral a) (ObjLiteral b) \<longleftrightarrow> literal_eq a b"
| "object_eq _ _ \<longleftrightarrow> False"

fun graph_eq :: "graph_name \<Rightarrow> graph_name \<Rightarrow> bool" where
  "graph_eq (GraphIri a) (GraphIri b) \<longleftrightarrow> iri_eq a b"
| "graph_eq (GraphBlank a) (GraphBlank b) \<longleftrightarrow> bn_eq a b"
| "graph_eq _ _ \<longleftrightarrow> False"

definition triple_eq :: "triple \<Rightarrow> triple \<Rightarrow> bool" where
  "triple_eq a b \<longleftrightarrow> subject_eq (t_subject a) (t_subject b) \<and>
     iri_eq (t_predicate a) (t_predicate b) \<and> object_eq (t_object a) (t_object b)"

definition graph_opt_eq :: "graph_name option \<Rightarrow> graph_name option \<Rightarrow> bool" where
  "graph_opt_eq a b \<longleftrightarrow> (case (a, b) of (None, None) \<Rightarrow> True | (Some x, Some y) \<Rightarrow> graph_eq x y | _ \<Rightarrow> False)"

definition quad_eq :: "quad \<Rightarrow> quad \<Rightarrow> bool" where
  "quad_eq a b \<longleftrightarrow> triple_eq (q_triple a) (q_triple b) \<and> graph_opt_eq (q_graph a) (q_graph b)"

subsection \<open>Term views and constructors\<close>

fun subject_is_iri :: "subject \<Rightarrow> bool" where
  "subject_is_iri (SubjIri _) = True" | "subject_is_iri _ = False"

fun subject_is_blank_node :: "subject \<Rightarrow> bool" where
  "subject_is_blank_node (SubjBlank _) = True" | "subject_is_blank_node _ = False"

fun subject_as_iri :: "subject \<Rightarrow> iri option" where
  "subject_as_iri (SubjIri i) = Some i" | "subject_as_iri _ = None"

fun subject_as_blank_node :: "subject \<Rightarrow> blank_node option" where
  "subject_as_blank_node (SubjBlank b) = Some b" | "subject_as_blank_node _ = None"

fun object_is_iri :: "object \<Rightarrow> bool" where
  "object_is_iri (ObjIri _) = True" | "object_is_iri _ = False"

fun object_is_blank_node :: "object \<Rightarrow> bool" where
  "object_is_blank_node (ObjBlank _) = True" | "object_is_blank_node _ = False"

fun object_is_literal :: "object \<Rightarrow> bool" where
  "object_is_literal (ObjLiteral _) = True" | "object_is_literal _ = False"

fun object_as_iri :: "object \<Rightarrow> iri option" where
  "object_as_iri (ObjIri i) = Some i" | "object_as_iri _ = None"

fun object_as_blank_node :: "object \<Rightarrow> blank_node option" where
  "object_as_blank_node (ObjBlank b) = Some b" | "object_as_blank_node _ = None"

fun object_as_literal :: "object \<Rightarrow> literal option" where
  "object_as_literal (ObjLiteral l) = Some l" | "object_as_literal _ = None"

definition triple_new :: "subject \<Rightarrow> iri \<Rightarrow> object \<Rightarrow> triple" where
  "triple_new s p o' = \<lparr>t_subject = s, t_predicate = p, t_object = o'\<rparr>"

definition quad_new :: "triple \<Rightarrow> graph_name option \<Rightarrow> quad" where
  "quad_new t g = \<lparr>q_triple = t, q_graph = g\<rparr>"

definition quad_in_default_graph :: "triple \<Rightarrow> quad" where
  "quad_in_default_graph t = \<lparr>q_triple = t, q_graph = None\<rparr>"

definition quad_in_named_graph :: "triple \<Rightarrow> graph_name \<Rightarrow> quad" where
  "quad_in_named_graph t g = \<lparr>q_triple = t, q_graph = Some g\<rparr>"

definition quad_is_default_graph :: "quad \<Rightarrow> bool" where
  "quad_is_default_graph q \<longleftrightarrow> q_graph q = None"

subsection \<open>Display\<close>

fun subject_display :: "subject \<Rightarrow> rstr" where
  "subject_display (SubjIri i) = iri_display i"
| "subject_display (SubjBlank b) = bn_display b"

fun object_display :: "object \<Rightarrow> rstr" where
  "object_display (ObjIri i) = iri_display i"
| "object_display (ObjBlank b) = bn_display b"
| "object_display (ObjLiteral l) = literal_display l"

fun graph_display :: "graph_name \<Rightarrow> rstr" where
  "graph_display (GraphIri i) = iri_display i"
| "graph_display (GraphBlank b) = bn_display b"

definition triple_display :: "triple \<Rightarrow> rstr" where
  "triple_display t = subject_display (t_subject t) @ [c_space] @ iri_display (t_predicate t) @
     [c_space] @ object_display (t_object t) @ lit '' .''"

definition quad_display :: "quad \<Rightarrow> rstr" where
  "quad_display q =
     (case q_graph q of
        Some g \<Rightarrow> subject_display (t_subject (q_triple q)) @ [c_space] @
          iri_display (t_predicate (q_triple q)) @ [c_space] @
          object_display (t_object (q_triple q)) @ [c_space] @ graph_display g @ lit '' .''
      | None \<Rightarrow> triple_display (q_triple q))"

subsection \<open>Patterns\<close>

record triple_pattern =
  p_subject :: "subject option"
  p_predicate :: "iri option"
  p_object :: "object option"

definition pattern_new :: triple_pattern where
  "pattern_new = \<lparr>p_subject = None, p_predicate = None, p_object = None\<rparr>"

definition pattern_from_triple :: "triple \<Rightarrow> triple_pattern" where
  "pattern_from_triple t = \<lparr>p_subject = Some (t_subject t), p_predicate = Some (t_predicate t),
     p_object = Some (t_object t)\<rparr>"

definition pattern_with_subject :: "subject \<Rightarrow> triple_pattern" where
  "pattern_with_subject s = \<lparr>p_subject = Some s, p_predicate = None, p_object = None\<rparr>"

definition pattern_with_predicate :: "iri \<Rightarrow> triple_pattern" where
  "pattern_with_predicate p = \<lparr>p_subject = None, p_predicate = Some p, p_object = None\<rparr>"

definition pattern_with_object :: "object \<Rightarrow> triple_pattern" where
  "pattern_with_object x = \<lparr>p_subject = None, p_predicate = None, p_object = Some x\<rparr>"

definition pattern_set_subject :: "triple_pattern \<Rightarrow> subject \<Rightarrow> triple_pattern" where
  "pattern_set_subject p s = p\<lparr>p_subject := Some s\<rparr>"

definition pattern_set_predicate :: "triple_pattern \<Rightarrow> iri \<Rightarrow> triple_pattern" where
  "pattern_set_predicate p i = p\<lparr>p_predicate := Some i\<rparr>"

definition pattern_set_object :: "triple_pattern \<Rightarrow> object \<Rightarrow> triple_pattern" where
  "pattern_set_object p x = p\<lparr>p_object := Some x\<rparr>"

definition pattern_matches :: "triple_pattern \<Rightarrow> triple \<Rightarrow> bool" where
  "pattern_matches p t =
     (let subject_matches = (case p_subject p of None \<Rightarrow> True | Some s \<Rightarrow> subject_eq s (t_subject t));
          predicate_matches = (case p_predicate p of None \<Rightarrow> True | Some i \<Rightarrow> iri_eq i (t_predicate t));
          object_matches = (case p_object p of None \<Rightarrow> True | Some x \<Rightarrow> object_eq x (t_object t))
      in subject_matches \<and> predicate_matches \<and> object_matches)"

definition pattern_is_all_wildcard :: "triple_pattern \<Rightarrow> bool" where
  "pattern_is_all_wildcard p \<longleftrightarrow> p_subject p = None \<and> p_predicate p = None \<and> p_object p = None"

definition pattern_has_wildcard :: "triple_pattern \<Rightarrow> bool" where
  "pattern_has_wildcard p \<longleftrightarrow> p_subject p = None \<or> p_predicate p = None \<or> p_object p = None"

definition pattern_is_exact :: "triple_pattern \<Rightarrow> bool" where
  "pattern_is_exact p \<longleftrightarrow> p_subject p \<noteq> None \<and> p_predicate p \<noteq> None \<and> p_object p \<noteq> None"

definition or_star :: "('a \<Rightarrow> rstr) \<Rightarrow> 'a option \<Rightarrow> rstr" where
  "or_star f x = (case x of None \<Rightarrow> lit ''*'' | Some y \<Rightarrow> f y)"

definition pattern_display :: "triple_pattern \<Rightarrow> rstr" where
  "pattern_display p = or_star subject_display (p_subject p) @ [c_space] @
     or_star iri_display (p_predicate p) @ [c_space] @ or_star object_display (p_object p) @ lit '' .''"

text \<open>The graph of a quad pattern: none is the default graph, \<open>Some None\<close> any graph.\<close>

record quad_pattern =
  qp_pattern :: triple_pattern
  qp_graph :: "(graph_name option) option"

datatype graph_scope = ScopeDefault | ScopeNamed graph_name | ScopeAll

definition qpattern_new :: quad_pattern where
  "qpattern_new = \<lparr>qp_pattern = pattern_new, qp_graph = None\<rparr>"

definition qpattern_from_triple_pattern :: "triple_pattern \<Rightarrow> quad_pattern" where
  "qpattern_from_triple_pattern p = \<lparr>qp_pattern = p, qp_graph = None\<rparr>"

definition qpattern_from_quad :: "quad \<Rightarrow> quad_pattern" where
  "qpattern_from_quad q = \<lparr>qp_pattern = pattern_from_triple (q_triple q), qp_graph = Some (q_graph q)\<rparr>"

definition qpattern_in_graph :: "triple_pattern \<Rightarrow> graph_name \<Rightarrow> quad_pattern" where
  "qpattern_in_graph p g = \<lparr>qp_pattern = p, qp_graph = Some (Some g)\<rparr>"

definition qpattern_in_all_graphs :: "triple_pattern \<Rightarrow> quad_pattern" where
  "qpattern_in_all_graphs p = \<lparr>qp_pattern = p, qp_graph = Some None\<rparr>"

definition qpattern_graph_scope :: "quad_pattern \<Rightarrow> graph_scope" where
  "qpattern_graph_scope p =
     (case qp_graph p of None \<Rightarrow> ScopeDefault | Some None \<Rightarrow> ScopeAll | Some (Some g) \<Rightarrow> ScopeNamed g)"

definition qpattern_matches :: "quad_pattern \<Rightarrow> quad \<Rightarrow> bool" where
  "qpattern_matches p q =
     (if \<not> pattern_matches (qp_pattern p) (q_triple q) then False
      else case qp_graph p of
        None \<Rightarrow> q_graph q = None
      | Some None \<Rightarrow> True
      | Some (Some g) \<Rightarrow> graph_opt_eq (q_graph q) (Some g))"

definition qpattern_display :: "quad_pattern \<Rightarrow> rstr" where
  "qpattern_display p =
     (let s = or_star subject_display (p_subject (qp_pattern p));
          i = or_star iri_display (p_predicate (qp_pattern p));
          x = or_star object_display (p_object (qp_pattern p))
      in case qp_graph p of
        None \<Rightarrow> pattern_display (qp_pattern p)
      | Some None \<Rightarrow> s @ [c_space] @ i @ [c_space] @ x @ lit '' * .''
      | Some (Some g) \<Rightarrow> s @ [c_space] @ i @ [c_space] @ x @ [c_space] @ graph_display g @ lit '' .'')"

subsection \<open>Equality is equality of well-formed terms\<close>

definition wf_iri :: "iri \<Rightarrow> bool" where
  "wf_iri i \<longleftrightarrow> i = iri_new_unchecked (iri_value i)"

fun wf_subject :: "subject \<Rightarrow> bool" where
  "wf_subject (SubjIri i) = wf_iri i" | "wf_subject (SubjBlank _) = True"

fun wf_object :: "object \<Rightarrow> bool" where
  "wf_object (ObjIri i) = wf_iri i" | "wf_object (ObjBlank _) = True"
| "wf_object (ObjLiteral l) = (case lit_datatype l of None \<Rightarrow> True | Some d \<Rightarrow> wf_iri d)"

definition wf_triple :: "triple \<Rightarrow> bool" where
  "wf_triple t \<longleftrightarrow> wf_subject (t_subject t) \<and> wf_iri (t_predicate t) \<and> wf_object (t_object t)"

lemma iri_eq_wf: "wf_iri a \<Longrightarrow> wf_iri b \<Longrightarrow> iri_eq a b \<longleftrightarrow> a = b"
  by (metis iri_eq_def wf_iri_def)

lemma iri_eq_refl [simp]: "iri_eq a a"
  by (simp add: iri_eq_def)

lemma bn_eq_iff [simp]: "bn_eq a b \<longleftrightarrow> a = b"
  by (cases a; cases b) (simp add: bn_eq_def)

lemma subject_eq_wf: "wf_subject a \<Longrightarrow> wf_subject b \<Longrightarrow> subject_eq a b \<longleftrightarrow> a = b"
  by (cases a; cases b) (simp_all add: iri_eq_wf)

lemma object_eq_wf: "wf_object a \<Longrightarrow> wf_object b \<Longrightarrow> object_eq a b \<longleftrightarrow> a = b"
  by (cases a; cases b) (auto simp: iri_eq_wf intro!: literal.equality split: option.splits)

lemma triple_eq_wf: "wf_triple a \<Longrightarrow> wf_triple b \<Longrightarrow> triple_eq a b \<longleftrightarrow> a = b"
  by (cases a; cases b) (simp add: wf_triple_def triple_eq_def subject_eq_wf object_eq_wf iri_eq_wf)


subsection \<open>What patterns match\<close>

text \<open>on well-formed terms a triple pattern matches a triple exactly when every component it
  fixes is the triple's component; the pattern of a triple matches that triple and no other, and
  the all-wildcard pattern is the only one that matches every triple.\<close>

theorem pattern_matches_meaning:
  assumes "wf_triple t" "wf_triple u"
    "case p_subject p of None \<Rightarrow> True | Some s \<Rightarrow> wf_subject s"
    "case p_predicate p of None \<Rightarrow> True | Some i \<Rightarrow> wf_iri i"
    "case p_object p of None \<Rightarrow> True | Some x \<Rightarrow> wf_object x"
  shows "pattern_matches p t = (p_subject p \<in> {None, Some (t_subject t)} \<and>
      p_predicate p \<in> {None, Some (t_predicate t)} \<and> p_object p \<in> {None, Some (t_object t)}) \<and>
    pattern_matches (pattern_from_triple t) u = (t = u) \<and>
    (pattern_is_all_wildcard p \<longrightarrow> pattern_matches p t) \<and>
    pattern_is_exact p = (\<not> pattern_has_wildcard p)"
proof -
  have "pattern_matches (pattern_from_triple t) u = triple_eq t u"
    by (simp add: pattern_matches_def pattern_from_triple_def triple_eq_def)
  then show ?thesis
    using assms triple_eq_wf [of t u]
    by (auto simp: pattern_matches_def wf_triple_def subject_eq_wf iri_eq_wf object_eq_wf
        pattern_is_all_wildcard_def pattern_is_exact_def pattern_has_wildcard_def split: option.splits)
qed

definition example_triple :: triple where
  "example_triple = triple_new (SubjIri (iri_new_unchecked (lit ''http://e/s''))) (iri_new_unchecked (lit ''http://e/p''))
     (ObjLiteral (literal_new (lit ''v'')))"

lemma wf_example_triple: "wf_triple example_triple"
  by (simp add: example_triple_def triple_new_def wf_triple_def wf_iri_def literal_new_def)

theorem pattern_matches_meaning_witness:
  "pattern_matches (pattern_with_subject (t_subject example_triple)) example_triple"
  using pattern_matches_meaning [OF wf_example_triple wf_example_triple,
      of "pattern_with_subject (t_subject example_triple)"] wf_example_triple
  by (simp add: pattern_with_subject_def wf_triple_def)

lemma graph_eq_sym: "graph_eq a b = graph_eq b a"
  by (cases a; cases b) (auto simp: iri_eq_def)

text \<open>the pattern built from a quad matches the quads that have its triple and, if it is in a
  named graph, its graph; but if it is in the default graph the pattern matches its triple in every
  graph, and its deletion scope is all graphs: for such a quad the pattern is not exact.\<close>

theorem pattern_from_quad_meaning:
  "qpattern_matches (qpattern_from_quad q) r =
     (triple_eq (q_triple q) (q_triple r) \<and> (q_graph q = None \<or> graph_opt_eq (q_graph q) (q_graph r))) \<and>
   qpattern_graph_scope (qpattern_from_quad q) =
     (case q_graph q of None \<Rightarrow> ScopeAll | Some g \<Rightarrow> ScopeNamed g)"
  by (auto simp: qpattern_matches_def qpattern_from_quad_def pattern_matches_def pattern_from_triple_def
      triple_eq_def graph_opt_eq_def qpattern_graph_scope_def graph_eq_sym split: option.split)

end
