(* ===== verification/Schema.thy ===== *)
theory Schema
  imports Prelude
begin

section \<open>Graph schema and Cypher escaping (mapper/src/graph/schema.rs)\<close>

text \<open>
  The node and edge records of the property graph and the three functions that make RDF
  text safe inside Cypher text: \<open>escape_cypher_string\<close> for quoted strings,
  \<open>escape_cypher_identifier\<close> for names in backticks and \<open>sanitize_identifier\<close> for bare names.
  The reader of a Cypher string or of a quoted name, \<open>cypher_read\<close> and \<open>backtick_read\<close>, is
  a specification: what they read back is what the escaping promises.
\<close>

datatype node_type = NodeResource | NodeLiteral

record property_value =
  pv_value :: rstr
  pv_datatype :: rstr
  pv_language :: "rstr option"

definition property_value_new :: "rstr \<Rightarrow> rstr \<Rightarrow> rstr option \<Rightarrow> property_value" where
  "property_value_new v d l = \<lparr>pv_value = v, pv_datatype = d, pv_language = l\<rparr>"

record resource_node =
  rn_uri :: rstr
  rn_is_blank :: bool
  rn_labels :: "rstr list"
  rn_properties :: "(rstr, property_value list) fmap"

definition resource_from_iri :: "rstr \<Rightarrow> resource_node" where
  "resource_from_iri u = \<lparr>rn_uri = u, rn_is_blank = False, rn_labels = [], rn_properties = fmempty\<rparr>"

definition resource_blank :: "rstr \<Rightarrow> resource_node" where
  "resource_blank l = \<lparr>rn_uri = l, rn_is_blank = True, rn_labels = [], rn_properties = fmempty\<rparr>"

definition add_label :: "rstr \<Rightarrow> resource_node \<Rightarrow> resource_node" where
  "add_label l n = (if l \<notin> set (rn_labels n) then n\<lparr>rn_labels := rn_labels n @ [l]\<rparr> else n)"

definition node_property :: "resource_node \<Rightarrow> rstr \<Rightarrow> property_value list" where
  "node_property n k = (case fmlookup (rn_properties n) k of Some vs \<Rightarrow> vs | None \<Rightarrow> [])"

definition add_property :: "rstr \<Rightarrow> property_value \<Rightarrow> resource_node \<Rightarrow> resource_node" where
  "add_property k v n = n\<lparr>rn_properties := fmupd k (node_property n k @ [v]) (rn_properties n)\<rparr>"

definition primary_label :: "resource_node \<Rightarrow> rstr" where
  "primary_label n = (case rn_labels n of [] \<Rightarrow> lit ''Resource'' | l # _ \<Rightarrow> l)"

record literal_node =
  ln_value :: rstr
  ln_datatype :: rstr
  ln_language :: "rstr option"

definition literal_node_new :: "rstr \<Rightarrow> rstr \<Rightarrow> rstr option \<Rightarrow> literal_node" where
  "literal_node_new v d l = \<lparr>ln_value = v, ln_datatype = d, ln_language = l\<rparr>"

subsection \<open>Escaping\<close>

fun escape_char :: "rchar \<Rightarrow> rstr" where
  "escape_char c =
     (if c = c_bslash then [c_bslash, c_bslash]
      else if c = c_squote then [c_bslash, c_squote]
      else if c = c_dquote then [c_bslash, c_dquote]
      else if c = c_nl then [c_bslash, 110]
      else if c = c_cr then [c_bslash, 114]
      else if c = c_tab then [c_bslash, 116]
      else if c = 0 then []
      else if is_control c then []
      else [c])"

definition escape_cypher_string :: "rstr \<Rightarrow> rstr" where
  "escape_cypher_string s = concat (map escape_char s)"

definition escape_cypher_identifier :: "rstr \<Rightarrow> rstr" where
  "escape_cypher_identifier s = [c_backtick] @ replace_char c_backtick [c_backtick, c_backtick] s @ [c_backtick]"

definition sanitize_identifier :: "rstr \<Rightarrow> rstr" where
  "sanitize_identifier s =
     (let start = (case s of c # _ \<Rightarrow> if \<not> is_ascii_alphabetic c \<and> c \<noteq> c_underscore then [c_underscore] else []
                   | [] \<Rightarrow> []);
          result = start @ map (\<lambda>c. if is_ascii_alphanumeric c \<or> c = c_underscore then c else c_underscore) s
      in if result = [] then lit ''_unnamed'' else result)"

record edge =
  edge_predicate :: rstr
  edge_local_name :: rstr
  edge_graph :: "rstr option"

definition edge_new :: "rstr \<Rightarrow> rstr \<Rightarrow> edge" where
  "edge_new p l = \<lparr>edge_predicate = p, edge_local_name = l, edge_graph = None\<rparr>"

definition edge_in_graph :: "rstr \<Rightarrow> rstr \<Rightarrow> rstr \<Rightarrow> edge" where
  "edge_in_graph p l g = \<lparr>edge_predicate = p, edge_local_name = l, edge_graph = Some g\<rparr>"

definition edge_type :: "edge \<Rightarrow> rstr" where
  "edge_type e = sanitize_identifier (edge_local_name e)"

datatype graph_element =
    GResource resource_node
  | GLiteral literal_node
  | GEdge rstr rstr edge bool

definition RDF_TYPE :: rstr where "RDF_TYPE = lit ''http://www.w3.org/1999/02/22-rdf-syntax-ns#type''"
definition RDF_FIRST :: rstr where "RDF_FIRST = lit ''http://www.w3.org/1999/02/22-rdf-syntax-ns#first''"
definition RDF_REST :: rstr where "RDF_REST = lit ''http://www.w3.org/1999/02/22-rdf-syntax-ns#rest''"
definition RDF_NIL :: rstr where "RDF_NIL = lit ''http://www.w3.org/1999/02/22-rdf-syntax-ns#nil''"

subsection \<open>Reading Cypher text back\<close>

text \<open>The text after an opening quote: the content up to the closing quote and the rest, by the escape
  sequences of Cypher strings; \<open>None\<close> when the string is not closed or not valid.\<close>

definition unescape_char :: "rchar \<Rightarrow> rchar option" where
  "unescape_char c =
     (if c \<in> {c_bslash, c_squote, c_dquote} then Some c
      else if c = 110 then Some c_nl else if c = 114 then Some c_cr else if c = 116 then Some c_tab
      else if c = 98 then Some 8 else if c = 102 then Some 12 else None)"

fun cypher_read :: "rchar \<Rightarrow> rstr \<Rightarrow> (rstr \<times> rstr) option" where
  "cypher_read q [] = None"
| "cypher_read q (c # cs) =
     (if c = q then Some ([], cs)
      else if c = c_bslash then
        (case cs of [] \<Rightarrow> None
         | d # ds \<Rightarrow> (case (unescape_char d, cypher_read q ds) of
             (Some e, Some (s, r)) \<Rightarrow> Some (e # s, r) | _ \<Rightarrow> None))
      else map_option (\<lambda>(s, r). (c # s, r)) (cypher_read q cs))"

fun backtick_read :: "rstr \<Rightarrow> (rstr \<times> rstr) option" where
  "backtick_read [] = None"
| "backtick_read (c # cs) =
     (if c = c_backtick
      then (case cs of d # ds \<Rightarrow> if d = c_backtick then map_option (\<lambda>(s, r). (c_backtick # s, r)) (backtick_read ds)
                                else Some ([], cs)
            | [] \<Rightarrow> Some ([], []))
      else map_option (\<lambda>(s, r). (c # s, r)) (backtick_read cs))"

text \<open>The characters that survive escaping.\<close>

definition kept :: "rchar \<Rightarrow> bool" where
  "kept c \<longleftrightarrow> \<not> is_control c \<or> c \<in> {c_nl, c_cr, c_tab}"

lemma escape_cypher_string_simps [simp]:
  "escape_cypher_string [] = []"
  "escape_cypher_string (c # s) = escape_char c @ escape_cypher_string s"
  "escape_cypher_string (s @ t) = escape_cypher_string s @ escape_cypher_string t"
  by (simp_all add: escape_cypher_string_def)

declare escape_char.simps [simp del]

lemma escape_char_cases:
  "c \<in> {c_bslash, c_squote, c_dquote} \<and> escape_char c = [c_bslash, c] \<and> unescape_char c = Some c \<and> kept c \<or>
   (\<exists>d. escape_char c = [c_bslash, d] \<and> unescape_char d = Some c \<and> kept c) \<or>
   c \<notin> {c_bslash, c_squote, c_dquote} \<and> escape_char c = [c] \<and> kept c \<or>
   escape_char c = [] \<and> \<not> kept c"
  by (auto simp: escape_char.simps kept_def is_control_def unescape_char_def)

lemma cypher_read_bslash:
  "q \<noteq> c_bslash \<Longrightarrow> unescape_char d = Some c \<Longrightarrow>
   cypher_read q (c_bslash # d # r) = map_option (\<lambda>(s, r'). (c # s, r')) (cypher_read q r)"
  by (auto split: option.split)

lemma cypher_read_escape_char:
  assumes "q = c_squote \<or> q = c_dquote"
  shows "cypher_read q (escape_char c @ r) =
    (if kept c then map_option (\<lambda>(s, r'). (c # s, r')) (cypher_read q r) else cypher_read q r)"
proof -
  have q: "q \<noteq> c_bslash" using assms by auto
  consider d where "escape_char c = [c_bslash, d]" "unescape_char d = Some c" "kept c"
    | "c \<notin> {c_bslash, c_squote, c_dquote}" "escape_char c = [c]" "kept c"
    | "escape_char c = []" "\<not> kept c"
    using escape_char_cases [of c] by blast
  then show ?thesis
  proof cases
    case 1
    then show ?thesis using cypher_read_bslash [OF q 1(2)] by simp
  next
    case 2
    with assms have "c \<noteq> q" by auto
    with 2 show ?thesis by simp
  qed simp
qed

lemma cypher_read_escape [simp]:
  "q = c_squote \<or> q = c_dquote \<Longrightarrow>
   cypher_read q (escape_cypher_string s @ q # rest) = Some (filter kept s, rest)"
  by (induction s) (simp_all add: cypher_read_escape_char)

text \<open>C17: Escaping makes any text safe inside a quoted Cypher string, with either quote: a reader
  that starts after the opening quote reads back the text without its control
  characters and stops exactly at the closing quote that the generator wrote.\<close>

theorem escape_cypher_string_safe:
  "cypher_read c_squote (escape_cypher_string s @ c_squote # rest) = Some (filter kept s, rest) \<and>
   cypher_read c_dquote (escape_cypher_string s @ c_dquote # rest) = Some (filter kept s, rest)"
  by simp

text \<open>A name in backticks reads back as the name itself, whatever its characters, as long as the
  text that follows does not start with another backtick.\<close>

theorem escape_identifier_safe:
  assumes "rest = [] \<or> hd rest \<noteq> c_backtick"
  shows "backtick_read (tl (escape_cypher_identifier s) @ rest) = Some (s, rest)"
proof -
  have "backtick_read (replace_char c_backtick [c_backtick, c_backtick] s @ c_backtick # rest) = Some (s, rest)"
  proof (induction s)
    case Nil
    then show ?case using assms by (cases rest) auto
  qed simp
  then show ?thesis by (simp add: escape_cypher_identifier_def)
qed

theorem escape_identifier_safe_witness:
  "backtick_read (tl (escape_cypher_identifier (lit ''a`b'')) @ lit '' {'') = Some (lit ''a`b'', lit '' {'')"
  by (rule escape_identifier_safe) (simp add: lit_def)

definition identifier_start :: "rchar \<Rightarrow> bool" where
  "identifier_start c \<longleftrightarrow> is_ascii_alphabetic c \<or> c = c_underscore"

definition identifier_char :: "rchar \<Rightarrow> bool" where
  "identifier_char c \<longleftrightarrow> is_ascii_alphanumeric c \<or> c = c_underscore"

definition is_identifier :: "rstr \<Rightarrow> bool" where
  "is_identifier s \<longleftrightarrow> s \<noteq> [] \<and> identifier_start (hd s) \<and> list_all identifier_char s"

lemma sanitize_is_identifier: "is_identifier (sanitize_identifier s)"
proof -
  let ?f = "\<lambda>c. if is_ascii_alphanumeric c \<or> c = c_underscore then c else c_underscore"
  have f: "list_all identifier_char (map ?f xs)" for xs
    by (induction xs) (simp_all add: identifier_char_def)
  show ?thesis
  proof (cases s)
    case Nil
    then show ?thesis
      by (simp add: sanitize_identifier_def is_identifier_def identifier_start_def identifier_char_def lit_def
          is_ascii_alphanumeric_def is_ascii_alphabetic_def)
  next
    case (Cons c cs)
    with f [of "c # cs"] show ?thesis
      by (auto simp: sanitize_identifier_def is_identifier_def identifier_start_def Let_def
          is_ascii_alphanumeric_def identifier_char_def)
  qed
qed

text \<open>A sanitised name is always an identifier (not empty, letters, digits and underscores, no digit
  first), an identifier is left as it is, and every other non-empty name keeps its length or
  gets one leading underscore.\<close>

theorem sanitize_identifier_correct:
  "is_identifier (sanitize_identifier s) \<and>
   (sanitize_identifier s = s \<longleftrightarrow> is_identifier s) \<and>
   sanitize_identifier (sanitize_identifier s) = sanitize_identifier s \<and>
   (s = [] \<or> length (sanitize_identifier s) = length s + (if identifier_start (hd s) then 0 else 1))"
proof -
  let ?f = "\<lambda>c. if is_ascii_alphanumeric c \<or> c = c_underscore then c else c_underscore"
  have id: "list_all identifier_char s \<Longrightarrow> map ?f s = s" for s
    by (induction s) (auto simp: identifier_char_def)
  have idem: "is_identifier s \<Longrightarrow> sanitize_identifier s = s" for s
    using id [of s]
    by (cases s) (auto simp: sanitize_identifier_def is_identifier_def identifier_start_def Let_def)
  have ok: "is_identifier (sanitize_identifier s)" by (rule sanitize_is_identifier)
  have "sanitize_identifier s = s \<longleftrightarrow> is_identifier s" using ok idem by metis
  moreover have "s = [] \<or> length (sanitize_identifier s) = length s + (if identifier_start (hd s) then 0 else 1)"
    by (cases s) (auto simp: sanitize_identifier_def identifier_start_def Let_def)
  ultimately show ?thesis using ok idem by blast
qed

end
