(* ===== verification/Cypher.thy ===== *)
theory Cypher
  imports Triple Schema "HOL-Library.List_Lexorder"
begin

section \<open>Cypher generation (mapper/src/graph/cypher.rs)\<close>

text \<open>
  The statements that insert RDF: one per triple (\<open>generate_triple\<close>), or one per subject for a batch
  (\<open>generate_batch\<close>), which first turns RDF lists into array properties. The \<open>Result\<close> of these
  functions is always \<open>Ok\<close> in the code and is not modelled; the value \<open>None\<close> of the list
  walk, and of what calls it, is a loop that does not end. The two \<open>HashMap\<close>s that
  \<open>generate_batch\<close> iterates over come with their iteration orders as arguments.
\<close>

definition XSD_DATE :: rstr where "XSD_DATE = lit ''http://www.w3.org/2001/XMLSchema#date''"

record cypher_generator =
  use_merge :: bool

definition cg_new :: cypher_generator where "cg_new = \<lparr>use_merge = True\<rparr>"

definition cg_with_create :: cypher_generator where "cg_with_create = \<lparr>use_merge = False\<rparr>"

definition cg_set_use_merge :: "bool \<Rightarrow> cypher_generator \<Rightarrow> cypher_generator" where
  "cg_set_use_merge b g = g\<lparr>use_merge := b\<rparr>"

definition operation :: "cypher_generator \<Rightarrow> rstr" where
  "operation g = (if use_merge g then lit ''MERGE'' else lit ''CREATE'')"

subsection \<open>Pieces of text\<close>

definition quoted :: "rstr \<Rightarrow> rstr" where
  "quoted s = [c_squote] @ escape_cypher_string s @ [c_squote]"

definition show_bool :: "bool \<Rightarrow> rstr" where
  "show_bool b = (if b then lit ''true'' else lit ''false'')"

text \<open>\<open>Iri::local_name\<close>; its slice never panics (\<open>iri_local_part\<close>).\<close>

definition local_name :: "iri \<Rightarrow> rstr" where
  "local_name i = the (iri_local_name i)"

definition blank_id :: "blank_node \<Rightarrow> rstr" where
  "blank_id b = lit ''_:'' @ bn_label b"

fun subject_uri :: "subject \<Rightarrow> rstr" where
  "subject_uri (SubjIri i) = iri_value i"
| "subject_uri (SubjBlank b) = blank_id b"

definition node_label :: "bool \<Rightarrow> rstr" where
  "node_label is_blank = (if is_blank then lit ''BlankNode'' else lit ''Resource'')"

definition node_pattern :: "rstr \<Rightarrow> bool \<Rightarrow> rstr \<Rightarrow> rstr" where
  "node_pattern var is_blank uri =
     lit ''('' @ var @ lit '':'' @ node_label is_blank @ lit '' {uri: '' @ quoted uri @ lit ''})''"

definition generate_resource_node :: "cypher_generator \<Rightarrow> rstr \<Rightarrow> rstr \<Rightarrow> subject \<Rightarrow> rstr" where
  "generate_resource_node g var uri s =
     operation g @ lit '' '' @ node_pattern var (subject_is_blank_node s) uri @ lit '' SET '' @ var @
     lit ''.isBlank = '' @ show_bool (subject_is_blank_node s)"

definition generate_resource_node_from_iri :: "cypher_generator \<Rightarrow> rstr \<Rightarrow> rstr \<Rightarrow> rstr" where
  "generate_resource_node_from_iri g var uri =
     operation g @ lit '' '' @ node_pattern var False uri @ lit '' SET '' @ var @ lit ''.isBlank = false''"

definition generate_blank_node :: "cypher_generator \<Rightarrow> rstr \<Rightarrow> rstr \<Rightarrow> rstr" where
  "generate_blank_node g var uri =
     operation g @ lit '' '' @ node_pattern var True uri @ lit '' SET '' @ var @ lit ''.isBlank = true''"

definition generate_edge :: "cypher_generator \<Rightarrow> rstr \<Rightarrow> rstr \<Rightarrow> rstr \<Rightarrow> rstr \<Rightarrow> rstr" where
  "generate_edge g from_var to_var predicate lname =
     operation g @ lit '' ('' @ from_var @ lit '')-[:'' @ sanitize_identifier lname @
     lit ''{predicate: '' @ quoted predicate @ lit ''}]->('' @ to_var @ lit '')''"

text \<open>The value of a literal in a statement; \<open>numeric_or_bool\<close> tests the lexical form only.\<close>

definition has_date_datatype :: "literal \<Rightarrow> bool" where
  "has_date_datatype l = (case lit_datatype l of Some dt \<Rightarrow> iri_value dt = XSD_DATE | None \<Rightarrow> False)"

definition is_date :: "literal \<Rightarrow> bool" where
  "is_date l = (case lit_datatype l of
      Some dt \<Rightarrow> iri_value dt = XSD_DATE \<and> (case as_date l of Some (Some d) \<Rightarrow> True | _ \<Rightarrow> False)
    | None \<Rightarrow> False)"

definition numeric_or_bool :: "literal \<Rightarrow> bool" where
  "numeric_or_bool l \<longleftrightarrow> as_integer l \<noteq> None \<or> as_float_is_some l \<or> as_bool l \<noteq> None"

definition value_repr :: "literal \<Rightarrow> rstr" where
  "value_repr l =
     (if is_date l then lit ''date('' @ quoted (lit_value l) @ lit '')''
      else if \<not> has_date_datatype l \<and> numeric_or_bool l then lit_value l
      else quoted (lit_value l))"

definition generate_literal_edge :: "cypher_generator \<Rightarrow> rstr \<Rightarrow> iri \<Rightarrow> literal \<Rightarrow> rstr" where
  "generate_literal_edge g var p l =
     lit ''SET '' @ var @ lit ''.'' @ sanitize_identifier (local_name p) @ lit '' = '' @ value_repr l"

subsection \<open>Single triples and quads\<close>

definition generate_type_statement :: "cypher_generator \<Rightarrow> subject \<Rightarrow> iri \<Rightarrow> rstr" where
  "generate_type_statement g s ty =
     operation g @ lit '' '' @ node_pattern (lit ''n'') (subject_is_blank_node s) (subject_uri s) @
     lit '' SET n:'' @ sanitize_identifier (local_name ty) @ lit '', n.isBlank = '' @
     show_bool (subject_is_blank_node s)"

definition generate_triple :: "cypher_generator \<Rightarrow> triple \<Rightarrow> rstr list" where
  "generate_triple g t =
     (let subject = generate_resource_node g (lit ''s'') (subject_uri (t_subject t)) (t_subject t);
          edge = generate_edge g (lit ''s'') (lit ''o'') (iri_value (t_predicate t)) (local_name (t_predicate t));
          parts = (case t_object t of
             ObjIri i \<Rightarrow> [subject, generate_resource_node_from_iri g (lit ''o'') (iri_value i), edge]
           | ObjBlank b \<Rightarrow> [subject, generate_blank_node g (lit ''o'') (blank_id b), edge]
           | ObjLiteral l \<Rightarrow> [subject, generate_literal_edge g (lit ''s'') (t_predicate t) l])
      in case (iri_value (t_predicate t) = RDF_TYPE, t_object t) of
           (True, ObjIri ty) \<Rightarrow> [generate_type_statement g (t_subject t) ty]
         | _ \<Rightarrow> [join [c_nl] parts])"

fun graph_uri :: "graph_name \<Rightarrow> rstr" where
  "graph_uri (GraphIri i) = iri_value i"
| "graph_uri (GraphBlank b) = blank_id b"

definition generate_quad :: "cypher_generator \<Rightarrow> quad \<Rightarrow> rstr list" where
  "generate_quad g q =
     (let statements = generate_triple g (q_triple q)
      in case q_graph q of
           Some graph \<Rightarrow> map (\<lambda>s. lit ''// Graph: '' @ graph_uri graph @ [c_nl] @ s) statements
         | None \<Rightarrow> statements)"

subsection \<open>RDF lists\<close>

type_synonym head_map = "(rstr, rstr \<times> rstr) fmap"

definition first_pass ::
  "triple \<Rightarrow> (rstr, object) fmap \<times> (rstr, object) fmap \<times> head_map \<Rightarrow>
   (rstr, object) fmap \<times> (rstr, object) fmap \<times> head_map" where
  "first_pass t = (\<lambda>(fm, rm, heads).
     (if iri_value (t_predicate t) = RDF_FIRST then
        (case t_subject t of SubjBlank b \<Rightarrow> (fmupd (blank_id b) (t_object t) fm, rm, heads) | _ \<Rightarrow> (fm, rm, heads))
      else if iri_value (t_predicate t) = RDF_REST then
        (case t_subject t of SubjBlank b \<Rightarrow> (fm, fmupd (blank_id b) (t_object t) rm, heads) | _ \<Rightarrow> (fm, rm, heads))
      else (case t_object t of
          ObjBlank b \<Rightarrow> (fm, rm, fmupd (blank_id b)
            (subject_uri (t_subject t), sanitize_identifier (local_name (t_predicate t))) heads)
        | _ \<Rightarrow> (fm, rm, heads))))"

text \<open>The value of a list element; \<open>None\<close> for a nested blank node.\<close>

fun element_value :: "object \<Rightarrow> rstr option" where
  "element_value (ObjLiteral l) = Some (if numeric_or_bool l then lit_value l else quoted (lit_value l))"
| "element_value (ObjIri i) = Some (quoted (iri_value i))"
| "element_value (ObjBlank b) = None"

text \<open>The \<open>loop\<close> that follows \<open>rdf:rest\<close>: whether the list is simple, its values and its nodes.\<close>

partial_function (option) walk ::
  "(rstr, object) fmap \<Rightarrow> (rstr, object) fmap \<Rightarrow> rstr \<Rightarrow> rstr list \<Rightarrow> rstr fset \<Rightarrow>
   (bool \<times> rstr list \<times> rstr fset) option" where
  "walk fm rm current vs ns =
     (case Option.bind (fmlookup fm current) element_value of
        None \<Rightarrow> Some (False, vs, finsert current ns)
      | Some v \<Rightarrow>
          (case fmlookup rm current of
             Some (ObjIri i) \<Rightarrow> Some (iri_value i = RDF_NIL, vs @ [v], finsert current ns)
           | Some (ObjBlank b) \<Rightarrow> walk fm rm (blank_id b) (vs @ [v]) (finsert current ns)
           | _ \<Rightarrow> Some (False, vs @ [v], finsert current ns)))"

type_synonym collection_array = "rstr \<times> rstr \<times> rstr list"

fun second_pass ::
  "(rstr, object) fmap \<Rightarrow> (rstr, object) fmap \<Rightarrow> (rstr \<times> rstr \<times> rstr) list \<Rightarrow>
   collection_array list \<Rightarrow> rstr fset \<Rightarrow> (collection_array list \<times> rstr fset) option" where
  "second_pass fm rm [] cs used = Some (cs, used)"
| "second_pass fm rm ((h, s, p) # hs) cs used =
     (case walk fm rm h [] {||} of
        None \<Rightarrow> None
      | Some (simple, vs, ns) \<Rightarrow>
          (if simple \<and> vs \<noteq> [] then second_pass fm rm hs (cs @ [(s, p, vs)]) (used |\<union>| ns)
           else second_pass fm rm hs cs used))"

definition keep_triple :: "rstr fset \<Rightarrow> head_map \<Rightarrow> triple \<Rightarrow> bool" where
  "keep_triple used heads t \<longleftrightarrow>
     \<not> (case t_subject t of SubjBlank b \<Rightarrow> blank_id b |\<in>| used | _ \<Rightarrow> False) \<and>
     \<not> (case t_object t of
           ObjBlank b \<Rightarrow> blank_id b |\<in>| used \<and>
             (case fmlookup heads (blank_id b) of Some (s, _) \<Rightarrow> s = subject_uri (t_subject t) | None \<Rightarrow> False)
         | _ \<Rightarrow> False)"

definition detect_and_extract_collections ::
  "(head_map \<Rightarrow> (rstr \<times> rstr \<times> rstr) list) \<Rightarrow> triple list \<Rightarrow> (collection_array list \<times> triple list) option" where
  "detect_and_extract_collections iter ts =
     (case fold first_pass ts (fmempty, fmempty, fmempty) of
        (fm, rm, heads) \<Rightarrow>
          (case second_pass fm rm (filter (\<lambda>(h, _). h |\<in>| fmdom fm) (iter heads)) [] {||} of
             None \<Rightarrow> None
           | Some (cs, used) \<Rightarrow> Some (cs, filter (keep_triple used heads) ts)))"

subsection \<open>Batches\<close>

record relationship_data =
  rel_predicate :: rstr
  rel_local_name :: rstr
  rel_target_uri :: rstr
  rel_target_is_blank :: bool

record subject_data =
  sd_uri :: rstr
  sd_is_blank :: bool
  sd_labels :: "rstr list"
  sd_properties :: "(rstr \<times> rstr) list"
  sd_array_properties :: "(rstr \<times> rstr list) list"
  sd_relationships :: "relationship_data list"

definition subject_data_new :: "rstr \<Rightarrow> bool \<Rightarrow> subject_data" where
  "subject_data_new u b = \<lparr>sd_uri = u, sd_is_blank = b, sd_labels = [], sd_properties = [],
     sd_array_properties = [], sd_relationships = []\<rparr>"

definition add_to_subject :: "triple \<Rightarrow> subject_data \<Rightarrow> subject_data" where
  "add_to_subject t d =
     (if iri_value (t_predicate t) = RDF_TYPE then
        (case t_object t of
           ObjIri ty \<Rightarrow> (let label = sanitize_identifier (local_name ty)
             in if label \<notin> set (sd_labels d) then d\<lparr>sd_labels := sd_labels d @ [label]\<rparr> else d)
         | _ \<Rightarrow> d)
      else (case t_object t of
           ObjLiteral l \<Rightarrow> d\<lparr>sd_properties := sd_properties d @
             [(sanitize_identifier (local_name (t_predicate t)), value_repr l)]\<rparr>
         | ObjIri i \<Rightarrow> d\<lparr>sd_relationships := sd_relationships d @
             [\<lparr>rel_predicate = iri_value (t_predicate t), rel_local_name = local_name (t_predicate t),
               rel_target_uri = iri_value i, rel_target_is_blank = False\<rparr>]\<rparr>
         | ObjBlank b \<Rightarrow> d\<lparr>sd_relationships := sd_relationships d @
             [\<lparr>rel_predicate = iri_value (t_predicate t), rel_local_name = local_name (t_predicate t),
               rel_target_uri = blank_id b, rel_target_is_blank = True\<rparr>]\<rparr>))"

type_synonym subject_map = "(rstr, subject_data) fmap"

definition entry_or :: "subject_map \<Rightarrow> rstr \<Rightarrow> bool \<Rightarrow> subject_data" where
  "entry_or m u b = (case fmlookup m u of Some d \<Rightarrow> d | None \<Rightarrow> subject_data_new u b)"

definition batch_add :: "triple \<Rightarrow> subject_map \<Rightarrow> subject_map" where
  "batch_add t m =
     (let u = subject_uri (t_subject t)
      in fmupd u (add_to_subject t (entry_or m u (subject_is_blank_node (t_subject t)))) m)"

definition batch_add_array :: "collection_array \<Rightarrow> subject_map \<Rightarrow> subject_map" where
  "batch_add_array = (\<lambda>(u, p, vs) m.
     (let d = entry_or m u (prefix (lit ''_:'') u)
      in fmupd u (d\<lparr>sd_array_properties := sd_array_properties d @ [(p, vs)]\<rparr>) m))"

definition relationship_parts :: "cypher_generator \<Rightarrow> nat \<Rightarrow> relationship_data \<Rightarrow> rstr list" where
  "relationship_parts g idx r =
     (let var = lit ''o'' @ show_nat idx
      in [operation g @ lit '' '' @ node_pattern var (rel_target_is_blank r) (rel_target_uri r) @
            lit '' SET '' @ var @ lit ''.isBlank = '' @ show_bool (rel_target_is_blank r),
          operation g @ lit '' (s)-[:'' @ sanitize_identifier (rel_local_name r) @
            lit ''{predicate: '' @ quoted (rel_predicate r) @ lit ''}]->('' @ var @ lit '')''])"

definition set_parts :: "subject_data \<Rightarrow> rstr list" where
  "set_parts d =
     map (\<lambda>l. lit ''s:'' @ l) (sort (sd_labels d)) @
     [lit ''s.isBlank = '' @ show_bool (sd_is_blank d)] @
     map (\<lambda>(p, v). lit ''s.'' @ p @ lit '' = '' @ v) (sd_properties d) @
     map (\<lambda>(p, vs). lit ''s.'' @ p @ lit '' = '' @ lit ''['' @ join (lit '', '') vs @ lit '']'') (sd_array_properties d)"

definition generate_subject_query :: "cypher_generator \<Rightarrow> subject_data \<Rightarrow> rstr" where
  "generate_subject_query g d =
     join [c_nl]
       ((operation g @ lit '' '' @ node_pattern (lit ''s'') (sd_is_blank d) (sd_uri d) @
           lit '' SET '' @ join (lit '', '') (set_parts d)) #
        concat (map (\<lambda>(i, r). relationship_parts g i r) (enumerate 0 (sd_relationships d))))"

definition batch_subjects ::
  "(head_map \<Rightarrow> (rstr \<times> rstr \<times> rstr) list) \<Rightarrow> triple list \<Rightarrow> subject_map option" where
  "batch_subjects iter ts =
     map_option (\<lambda>(arrays, remaining). fold batch_add_array arrays (fold batch_add remaining fmempty))
       (detect_and_extract_collections iter ts)"

definition generate_batch ::
  "(head_map \<Rightarrow> (rstr \<times> rstr \<times> rstr) list) \<Rightarrow> (subject_map \<Rightarrow> (rstr \<times> subject_data) list) \<Rightarrow>
   cypher_generator \<Rightarrow> triple list \<Rightarrow> rstr list option" where
  "generate_batch iter subjects_iter g ts =
     map_option (\<lambda>m. map (\<lambda>(_, d). generate_subject_query g d) (subjects_iter m)) (batch_subjects iter ts)"

subsection \<open>The graph builder\<close>

record graph_builder =
  gb_resources :: "(rstr, resource_node) fmap"
  gb_literals :: "literal_node list"
  gb_edges :: "(rstr \<times> rstr \<times> edge \<times> bool) list"

definition gb_new :: graph_builder where
  "gb_new = \<lparr>gb_resources = fmempty, gb_literals = [], gb_edges = []\<rparr>"

definition ensure_resource :: "rstr \<Rightarrow> resource_node \<Rightarrow> (rstr, resource_node) fmap \<Rightarrow> (rstr, resource_node) fmap" where
  "ensure_resource u n m = (if u |\<in>| fmdom m then m else fmupd u n m)"

definition update_resource ::
  "rstr \<Rightarrow> (resource_node \<Rightarrow> resource_node) \<Rightarrow> (rstr, resource_node) fmap \<Rightarrow> (rstr, resource_node) fmap" where
  "update_resource u f m = (case fmlookup m u of Some n \<Rightarrow> fmupd u (f n) m | None \<Rightarrow> m)"

definition gb_add_edge :: "rstr \<Rightarrow> iri \<Rightarrow> rstr \<Rightarrow> graph_builder \<Rightarrow> graph_builder" where
  "gb_add_edge from p to b = b\<lparr>gb_edges := gb_edges b @ [(from, to, edge_new (iri_value p) (local_name p), False)]\<rparr>"

definition gb_add_triple :: "triple \<Rightarrow> graph_builder \<Rightarrow> graph_builder" where
  "gb_add_triple t b =
     (let u = subject_uri (t_subject t);
          n = (case t_subject t of SubjIri i \<Rightarrow> resource_from_iri (iri_value i)
                                 | SubjBlank bn \<Rightarrow> resource_blank (bn_label bn));
          b1 = b\<lparr>gb_resources := ensure_resource u n (gb_resources b)\<rparr>
      in case (iri_value (t_predicate t) = RDF_TYPE, t_object t) of
           (True, ObjIri ty) \<Rightarrow>
             b1\<lparr>gb_resources := update_resource u (add_label (sanitize_identifier (local_name ty))) (gb_resources b1)\<rparr>
         | (_, ObjIri i) \<Rightarrow>
             gb_add_edge u (t_predicate t) (iri_value i)
               (b1\<lparr>gb_resources := ensure_resource (iri_value i) (resource_from_iri (iri_value i)) (gb_resources b1)\<rparr>)
         | (_, ObjBlank bn) \<Rightarrow>
             gb_add_edge u (t_predicate t) (blank_id bn)
               (b1\<lparr>gb_resources := ensure_resource (blank_id bn) (resource_blank (bn_label bn)) (gb_resources b1)\<rparr>)
         | (_, ObjLiteral l) \<Rightarrow>
             b1\<lparr>gb_resources := update_resource u (add_property (sanitize_identifier (local_name (t_predicate t)))
                    (property_value_new (lit_value l) (iri_value (literal_datatype l)) (lit_language l))) (gb_resources b1),
                gb_literals := gb_literals b1 @
                    [literal_node_new (lit_value l) (iri_value (literal_datatype l)) (lit_language l)]\<rparr>)"

end
