(* ===== verification/RdfLists.thy ===== *)
theory RdfLists
  imports Cypher
begin

section \<open>RDF lists in a batch\<close>

text \<open>
  The loop of \<open>detect_and_extract_collections\<close> that follows \<open>rdf:rest\<close>: when it ends,
  and what it extracts. \<open>walk_n\<close> is the loop with a bound on the number of rounds, and
  \<open>follow n b\<close> the node that \<open>n\<close> rounds from \<open>b\<close> reach.
\<close>

fun walk_n ::
  "nat \<Rightarrow> (rstr, object) fmap \<Rightarrow> (rstr, object) fmap \<Rightarrow> rstr \<Rightarrow> rstr list \<Rightarrow> rstr fset \<Rightarrow>
   (bool \<times> rstr list \<times> rstr fset) option" where
  "walk_n 0 fm rm b vs ns = None"
| "walk_n (Suc n) fm rm b vs ns =
     (case Option.bind (fmlookup fm b) element_value of
        None \<Rightarrow> Some (False, vs, finsert b ns)
      | Some v \<Rightarrow>
          (case fmlookup rm b of
             Some (ObjIri i) \<Rightarrow> Some (iri_value i = RDF_NIL, vs @ [v], finsert b ns)
           | Some (ObjBlank b') \<Rightarrow> walk_n n fm rm (blank_id b') (vs @ [v]) (finsert b ns)
           | _ \<Rightarrow> Some (False, vs @ [v], finsert b ns)))"

lemma walk_n_walk: "walk_n n fm rm b vs ns = Some r \<Longrightarrow> walk fm rm b vs ns = Some r"
proof (induction n arbitrary: b vs ns)
  case (Suc n)
  then show ?case
    by (subst walk.simps) (auto split: option.splits object.splits)
qed simp

lemma walk_walk_n:
  assumes "walk fm rm b vs ns = Some r"
  shows "\<exists>n. walk_n n fm rm b vs ns = Some r"
proof (rule walk.raw_induct [OF _ assms], goal_cases)
  case (1 w fm rm b vs ns r)
  show ?case
  proof (cases "\<exists>v b'. Option.bind (fmlookup fm b) element_value = Some v \<and> fmlookup rm b = Some (ObjBlank b')")
    case True
    then obtain v b' where v: "Option.bind (fmlookup fm b) element_value = Some v" "fmlookup rm b = Some (ObjBlank b')"
      by blast
    with 1(2) have "w fm rm (blank_id b') (vs @ [v]) (finsert b ns) = Some r" by simp
    from 1(1) [OF this] obtain n where "walk_n n fm rm (blank_id b') (vs @ [v]) (finsert b ns) = Some r" by blast
    with v show ?thesis by (auto intro!: exI [of _ "Suc n"])
  next
    case False
    with 1(2) show ?thesis
      by (intro exI [of _ "Suc 0"]) (auto split: option.splits object.splits)
  qed
qed

lemma walk_None_iff: "walk fm rm b vs ns = None \<longleftrightarrow> (\<forall>n. walk_n n fm rm b vs ns = None)"
  using walk_n_walk walk_walk_n by (metis not_None_eq)

definition next_node :: "(rstr, object) fmap \<Rightarrow> (rstr, object) fmap \<Rightarrow> rstr \<Rightarrow> rstr option" where
  "next_node fm rm b =
     (if Option.bind (fmlookup fm b) element_value = None then None
      else case fmlookup rm b of Some (ObjBlank b') \<Rightarrow> Some (blank_id b') | _ \<Rightarrow> None)"

fun follow :: "(rstr, object) fmap \<Rightarrow> (rstr, object) fmap \<Rightarrow> nat \<Rightarrow> rstr \<Rightarrow> rstr option" where
  "follow fm rm 0 b = Some b"
| "follow fm rm (Suc n) b = Option.bind (next_node fm rm b) (follow fm rm n)"

lemma walk_n_None_iff: "walk_n n fm rm b vs ns = None \<longleftrightarrow> follow fm rm n b \<noteq> None"
proof (induction n arbitrary: b vs ns)
  case (Suc n)
  then show ?case
    by (auto simp: next_node_def split: option.splits object.splits)
qed simp

lemma follow_add: "follow fm rm (m + n) b = Option.bind (follow fm rm m b) (follow fm rm n)"
  by (induction m arbitrary: b) (auto intro!: Option.bind_cong)

lemma follow_le: "follow fm rm n b \<noteq> None \<Longrightarrow> m \<le> n \<Longrightarrow> follow fm rm m b \<noteq> None"
  by (metis Option.bind_lzero follow_add le_add_diff_inverse)

lemma follow_Suc: "follow fm rm (Suc n) b = Option.bind (follow fm rm n b) (next_node fm rm)"
proof -
  have "follow fm rm (Suc 0) c = next_node fm rm c" for c
    by (cases "next_node fm rm c") simp_all
  then show ?thesis using follow_add [of fm rm n "Suc 0" b] by (cases "follow fm rm n b") simp_all
qed

lemma follow_dom:
  assumes "follow fm rm (Suc n) b \<noteq> None"
  shows "the (follow fm rm n b) \<in> fset (fmdom rm)"
proof -
  obtain c where c: "follow fm rm n b = Some c" "next_node fm rm c \<noteq> None"
    using assms by (auto simp: follow_Suc bind_eq_None_conv simp del: follow.simps)
  then show ?thesis by (auto simp: next_node_def fmdomI split: if_splits option.splits)
qed

text \<open>A walk of more rounds than the map has entries meets a node twice.\<close>

lemma follow_repeats:
  assumes "follow fm rm (fcard (fmdom rm) + 1) b \<noteq> None"
  shows "\<exists>i j c. i < j \<and> follow fm rm i b = Some c \<and> follow fm rm j b = Some c"
proof -
  let ?n = "fcard (fmdom rm)" and ?f = "\<lambda>k. the (follow fm rm k b)"
  have some: "follow fm rm k b \<noteq> None" if "k \<le> ?n + 1" for k
    using assms that by (rule follow_le)
  have "?f ` {..?n} \<subseteq> fset (fmdom rm)"
    using some follow_dom by (fastforce simp del: follow.simps)
  then have "card (?f ` {..?n}) \<le> ?n" by (simp add: card_mono fcard.rep_eq)
  then have "\<not> inj_on ?f {..?n}" by (auto dest: card_image)
  then obtain i j where ij: "i \<le> ?n" "j \<le> ?n" "i \<noteq> j" "?f i = ?f j" by (auto simp: inj_on_def)
  then obtain c where "follow fm rm i b = Some c" "follow fm rm j b = Some c"
    using some by (metis le_SucI Suc_eq_plus1 option.collapse)
  with ij(3) show ?thesis by (metis linorder_neqE_nat)
qed

lemma follow_cycle:
  assumes "follow fm rm i b = Some c" "follow fm rm j b = Some c" "i < j"
  shows "follow fm rm n b \<noteq> None"
proof -
  define d where "d = j - i"
  have d: "0 < d" "follow fm rm d c = Some c"
    using assms follow_add [of fm rm i d b] by (simp_all add: d_def)
  have "follow fm rm (k * d) c = Some c" for k
  proof (induction k)
    case (Suc k)
    then show ?case using follow_add [of fm rm d "k * d" c] d(2) by simp
  qed simp
  then have "follow fm rm (i + n * d) b \<noteq> None" using assms(1) follow_add [of fm rm i "n * d" b] by simp
  moreover have "n \<le> i + n * d" using d(1) by (simp add: trans_le_add2)
  ultimately show ?thesis by (rule follow_le)
qed

lemma walk_None_follow: "walk fm rm b vs ns = None \<longleftrightarrow> (\<forall>n. follow fm rm n b \<noteq> None)"
  unfolding walk_None_iff walk_n_None_iff ..

lemma walk_None_cycle:
  "walk fm rm b vs ns = None \<longleftrightarrow> (\<exists>i j c. i < j \<and> follow fm rm i b = Some c \<and> follow fm rm j b = Some c)"
  (is "_ \<longleftrightarrow> ?cycle")
proof
  assume "walk fm rm b vs ns = None"
  then have "follow fm rm (fcard (fmdom rm) + 1) b \<noteq> None" unfolding walk_None_follow by blast
  then show ?cycle by (rule follow_repeats)
next
  assume ?cycle
  then obtain i j c where "i < j" "follow fm rm i b = Some c" "follow fm rm j b = Some c" by blast
  then have "follow fm rm n b \<noteq> None" for n using follow_cycle by metis
  then show "walk fm rm b vs ns = None" unfolding walk_None_follow by blast
qed

text \<open>The loop over an RDF list ends exactly when it does not come back to a node, and it then
  ends within one round more than there are \<open>rdf:rest\<close> entries: a cyclic list makes it run forever.\<close>

theorem walk_terminates_iff:
  "(walk fm rm b vs ns = None \<longleftrightarrow>
     (\<exists>i j c. i < j \<and> follow fm rm i b = Some c \<and> follow fm rm j b = Some c)) \<and>
   walk_n (fcard (fmdom rm) + 1) fm rm b vs ns = walk fm rm b vs ns"
proof -
  let ?N = "fcard (fmdom rm) + 1"
  have "walk_n ?N fm rm b vs ns = walk fm rm b vs ns"
  proof (cases "walk_n ?N fm rm b vs ns")
    case None
    then have "follow fm rm ?N b \<noteq> None" unfolding walk_n_None_iff .
    then have "walk fm rm b vs ns = None" unfolding walk_None_cycle by (rule follow_repeats)
    with None show ?thesis by simp
  next
    case (Some r)
    then show ?thesis using walk_n_walk by metis
  qed
  with walk_None_cycle show ?thesis by blast
qed

lemma second_pass_None_iff:
  "second_pass fm rm hs cs used = None \<longleftrightarrow> (\<exists>(h, s, p)\<in>set hs. walk fm rm h [] {||} = None)"
  by (induction fm rm hs cs used rule: second_pass.induct) (auto split: option.splits prod.splits)

definition list_maps :: "triple list \<Rightarrow> (rstr, object) fmap \<times> (rstr, object) fmap \<times> head_map" where
  "list_maps ts = fold first_pass ts (fmempty, fmempty, fmempty)"

lemma generate_batch_None_iff:
  assumes "hash_order iter" "list_maps ts = (fm, rm, heads)"
  shows "generate_batch iter so g ts = None \<longleftrightarrow>
    (\<exists>h\<in>fset (fmdom heads) \<inter> fset (fmdom fm). walk fm rm h [] {||} = None)"
proof -
  let ?hs = "filter (\<lambda>(h, _). h |\<in>| fmdom fm) (iter heads)"
  have "generate_batch iter so g ts = None \<longleftrightarrow> second_pass fm rm ?hs [] {||} = None"
    using assms(2) by (simp add: generate_batch_def batch_subjects_def detect_and_extract_collections_def
        list_maps_def split: option.split)
  also have "\<dots> \<longleftrightarrow> (\<exists>h\<in>fset (fmdom heads) \<inter> fset (fmdom fm). walk fm rm h [] {||} = None)"
    unfolding second_pass_None_iff
    by (fastforce simp: hash_order_in_iff [OF assms(1)] fmlookup_dom_iff)
  finally show ?thesis .
qed

subsection \<open>Cyclic lists\<close>

text \<open>The lists of a graph read off its triples: the object of the last statement about a blank node with a given
  property, the edges from a list node with an IRI or a literal as its value to the next one, and the nodes where
  a list starts.\<close>

definition states_of :: "rstr \<Rightarrow> triple \<Rightarrow> rstr \<Rightarrow> bool" where
  "states_of q t b \<longleftrightarrow> iri_value (t_predicate t) = q \<and> (\<exists>n. t_subject t = SubjBlank n \<and> blank_id n = b)"

fun last_object :: "rstr \<Rightarrow> triple list \<Rightarrow> rstr \<Rightarrow> object option" where
  "last_object q [] b = None"
| "last_object q (t # ts) b = (case last_object q ts b of
      Some ob \<Rightarrow> Some ob | None \<Rightarrow> if states_of q t b then Some (t_object t) else None)"

definition list_edges :: "triple list \<Rightarrow> (rstr \<times> rstr) set" where
  "list_edges ts = {(b, c). (\<exists>ob. last_object RDF_FIRST ts b = Some ob \<and> (\<forall>n. ob \<noteq> ObjBlank n)) \<and>
     (\<exists>n. last_object RDF_REST ts b = Some (ObjBlank n) \<and> blank_id n = c)}"

definition list_starts :: "triple list \<Rightarrow> rstr \<Rightarrow> bool" where
  "list_starts ts b \<longleftrightarrow> last_object RDF_FIRST ts b \<noteq> None \<and>
     (\<exists>t \<in> set ts. iri_value (t_predicate t) \<notin> {RDF_FIRST, RDF_REST} \<and> (\<exists>n. t_object t = ObjBlank n \<and> blank_id n = b))"

lemma first_rest [simp]: "RDF_FIRST \<noteq> RDF_REST" "RDF_REST \<noteq> RDF_FIRST"
  by (simp_all add: RDF_FIRST_def RDF_REST_def)

lemma first_passes:
  "fold first_pass ts (fm, rm, heads) = (fm', rm', heads') \<Longrightarrow>
     fmlookup fm' b = (case last_object RDF_FIRST ts b of Some ob \<Rightarrow> Some ob | None \<Rightarrow> fmlookup fm b) \<and>
     fmlookup rm' b = (case last_object RDF_REST ts b of Some ob \<Rightarrow> Some ob | None \<Rightarrow> fmlookup rm b) \<and>
     (b |\<in>| fmdom heads' \<longleftrightarrow> b |\<in>| fmdom heads \<or> (\<exists>t \<in> set ts. iri_value (t_predicate t) \<notin> {RDF_FIRST, RDF_REST} \<and>
        (\<exists>n. t_object t = ObjBlank n \<and> blank_id n = b)))"
proof (induction ts arbitrary: fm rm heads)
  case (Cons t ts)
  obtain f r h where p: "first_pass t (fm, rm, heads) = (f, r, h)" by (metis prod_cases3)
  have "fmlookup f b = (if states_of RDF_FIRST t b then Some (t_object t) else fmlookup fm b)"
    "fmlookup r b = (if states_of RDF_REST t b then Some (t_object t) else fmlookup rm b)"
    "b |\<in>| fmdom h \<longleftrightarrow> b |\<in>| fmdom heads \<or> iri_value (t_predicate t) \<notin> {RDF_FIRST, RDF_REST} \<and>
        (\<exists>n. t_object t = ObjBlank n \<and> blank_id n = b)"
    using p by (auto simp: first_pass_def states_of_def split: if_splits subject.splits object.splits)
  with Cons.IH [of f r h] Cons.prems p show ?case by (auto split: option.splits)
qed simp

lemma list_maps_read:
  assumes "list_maps ts = (fm, rm, heads)"
  shows "fmlookup fm b = last_object RDF_FIRST ts b" "fmlookup rm b = last_object RDF_REST ts b"
    "list_starts ts b \<longleftrightarrow> b \<in> fset (fmdom heads) \<inter> fset (fmdom fm)"
  using first_passes [of ts fmempty fmempty fmempty fm rm heads b] assms
  by (auto simp: list_maps_def list_starts_def fmlookup_dom_iff split: option.splits)

lemma next_node_edge:
  assumes "list_maps ts = (fm, rm, heads)"
  shows "next_node fm rm b = Some c \<longleftrightarrow> (b, c) \<in> list_edges ts"
proof -
  have "element_value ob = None \<longleftrightarrow> (\<exists>n. ob = ObjBlank n)" for ob by (cases ob) simp_all
  then show ?thesis
    by (auto simp: next_node_def list_edges_def list_maps_read [OF assms] bind_eq_None_conv split: option.splits object.splits)
qed

lemma follow_edges:
  assumes "list_maps ts = (fm, rm, heads)"
  shows "follow fm rm n b = Some c \<longleftrightarrow> (b, c) \<in> list_edges ts ^^ n"
proof (induction n arbitrary: c)
  case (Suc n)
  then show ?case
    unfolding follow_Suc by (auto simp: bind_eq_Some_conv next_node_edge [OF assms])
qed auto

lemma walk_cyclic:
  assumes "list_maps ts = (fm, rm, heads)"
  shows "walk fm rm b vs ns = None \<longleftrightarrow> (\<exists>c. (b, c) \<in> (list_edges ts)\<^sup>* \<and> (c, c) \<in> (list_edges ts)\<^sup>+)"
proof
  assume "walk fm rm b vs ns = None"
  then obtain i j c where ij: "i < j" "follow fm rm i b = Some c" "follow fm rm j b = Some c"
    unfolding walk_None_cycle by blast
  then have "follow fm rm (j - i) c = Some c" using follow_add [of fm rm i "j - i" b] by simp
  then have "(b, c) \<in> list_edges ts ^^ i" "(c, c) \<in> list_edges ts ^^ (j - i)" "0 < j - i"
    using ij follow_edges [OF assms] by auto
  then show "\<exists>c. (b, c) \<in> (list_edges ts)\<^sup>* \<and> (c, c) \<in> (list_edges ts)\<^sup>+"
    using rtrancl_power trancl_power by blast
next
  assume "\<exists>c. (b, c) \<in> (list_edges ts)\<^sup>* \<and> (c, c) \<in> (list_edges ts)\<^sup>+"
  then obtain c i n where n: "(b, c) \<in> list_edges ts ^^ i" "(c, c) \<in> list_edges ts ^^ n" "0 < n"
    using rtrancl_power trancl_power by metis
  then have f: "follow fm rm i b = Some c" "follow fm rm n c = Some c" by (simp_all only: follow_edges [OF assms])
  then have "follow fm rm (i + n) b = Some c" using follow_add [of fm rm i n b] by simp
  with f n(3) show "walk fm rm b vs ns = None" unfolding walk_None_cycle
    by (metis less_add_same_cancel1)
qed

text \<open>C39: A batch is generated exactly when no list of its triples is cyclic: the generator does not return if
  and only if from a blank node that has an \<open>rdf:first\<close> and is the object of another property, the \<open>rdf:rest\<close> statements lead,
  over nodes whose value is an IRI or a literal, back to a node met before. A node with a blank node as its value ends the walk, and
  of several statements about a node the last one counts. Assumed is only that the hash map of list heads is iterated in some
  order of its entries.\<close>

theorem generate_batch_terminates_iff:
  assumes "hash_order iter"
  shows "generate_batch iter so g ts = None \<longleftrightarrow>
    (\<exists>b c. list_starts ts b \<and> (b, c) \<in> (list_edges ts)\<^sup>* \<and> (c, c) \<in> (list_edges ts)\<^sup>+)"
proof -
  obtain fm rm heads where m: "list_maps ts = (fm, rm, heads)" by (metis prod_cases3)
  show ?thesis
    unfolding generate_batch_None_iff [OF assms m] walk_cyclic [OF m] using list_maps_read(3) [OF m] by blast
qed

definition first_iri :: iri where "first_iri = iri_new_unchecked RDF_FIRST"
definition rest_iri :: iri where "rest_iri = iri_new_unchecked RDF_REST"
definition nil_iri :: iri where "nil_iri = iri_new_unchecked RDF_NIL"

lemma list_iri_values [simp]:
  "iri_value first_iri = RDF_FIRST" "iri_value rest_iri = RDF_REST" "iri_value nil_iri = RDF_NIL"
  "RDF_REST \<noteq> RDF_FIRST" "RDF_FIRST \<noteq> RDF_REST"
  by (simp_all add: first_iri_def rest_iri_def nil_iri_def RDF_FIRST_def RDF_REST_def)

text \<open>The triples of an RDF list, given its nodes and elements.\<close>

fun cell_triples :: "(blank_node \<times> object) list \<Rightarrow> triple list" where
  "cell_triples [] = []"
| "cell_triples ((b, ob) # cells) =
     [triple_new (SubjBlank b) first_iri ob,
      triple_new (SubjBlank b) rest_iri (case cells of [] \<Rightarrow> ObjIri nil_iri | (b', _) # _ \<Rightarrow> ObjBlank b')] @
     cell_triples cells"

definition example_cycle :: "triple list" where
  "example_cycle =
     [triple_new (SubjIri (iri_new_unchecked (lit ''urn:x''))) (iri_new_unchecked (lit ''urn:p'')) (ObjBlank (bn_new (lit ''a''))),
      triple_new (SubjBlank (bn_new (lit ''a''))) first_iri (ObjIri nil_iri),
      triple_new (SubjBlank (bn_new (lit ''a''))) rest_iri (ObjBlank (bn_new (lit ''a'')))]"

lemma urn_p [simp]: "lit ''urn:p'' \<noteq> RDF_FIRST" "lit ''urn:p'' \<noteq> RDF_REST" "lit ''urn:p'' \<noteq> RDF_TYPE"
  by (simp_all add: RDF_FIRST_def RDF_REST_def RDF_TYPE_def)

theorem generate_batch_terminates_iff_witness:
  "generate_batch key_order key_order cg_new example_cycle = None"
proof -
  let ?a = "blank_id (bn_new (lit ''a''))"
  have "(?a, ?a) \<in> list_edges example_cycle" "list_starts example_cycle ?a"
    by (auto simp: list_edges_def list_starts_def example_cycle_def states_of_def triple_new_def)
  then show ?thesis
    using generate_batch_terminates_iff [OF hash_order_key_order] by blast
qed

subsection \<open>Extraction\<close>

definition cells_ok ::
  "(rstr, object) fmap \<Rightarrow> (rstr, object) fmap \<Rightarrow> (blank_node \<times> object) list \<Rightarrow> bool" where
  "cells_ok fm rm cells \<longleftrightarrow> (\<forall>i<length cells.
     fmlookup fm (blank_id (fst (cells ! i))) = Some (snd (cells ! i)) \<and>
     fmlookup rm (blank_id (fst (cells ! i))) =
       Some (if Suc i < length cells then ObjBlank (fst (cells ! Suc i)) else ObjIri nil_iri))"

lemma cells_ok_Cons:
  "cells_ok fm rm ((b, ob) # cells) \<longleftrightarrow>
     fmlookup fm (blank_id b) = Some ob \<and>
     fmlookup rm (blank_id b) = Some (case cells of [] \<Rightarrow> ObjIri nil_iri | (b', _) # _ \<Rightarrow> ObjBlank b') \<and>
     cells_ok fm rm cells"
  unfolding cells_ok_def length_Cons All_less_Suc2 by (cases cells) auto

lemma walk_cells:
  assumes "cells_ok fm rm ((b, ob) # cells)" "\<forall>(b, ob)\<in>set ((b, ob) # cells). element_value ob \<noteq> None"
  shows "walk fm rm (blank_id b) vs ns =
    Some (True, vs @ map (the \<circ> element_value \<circ> snd) ((b, ob) # cells),
          ns |\<union>| fset_of_list (map (blank_id \<circ> fst) ((b, ob) # cells)))"
  using assms
proof (induction cells arbitrary: b ob vs ns)
  case Nil
  then obtain v where "element_value ob = Some v" by auto
  with Nil show ?case
    by (subst walk.simps) (auto simp: cells_ok_Cons)
next
  case (Cons c cells)
  obtain b' ob' where c: "c = (b', ob')" by (cases c)
  from Cons.prems(2) obtain v where v: "element_value ob = Some v" by auto
  have ok: "cells_ok fm rm ((b', ob') # cells)" and lk: "fmlookup fm (blank_id b) = Some ob"
    "fmlookup rm (blank_id b) = Some (ObjBlank b')"
    using Cons.prems(1) c cells_ok_Cons [of fm rm b ob "c # cells"] by auto
  have "walk fm rm (blank_id b) vs ns = walk fm rm (blank_id b') (vs @ [v]) (finsert (blank_id b) ns)"
    by (subst walk.simps) (simp add: lk v)
  with Cons.IH [OF ok, of "vs @ [v]" "finsert (blank_id b) ns"] Cons.prems(2) c v show ?case
    by (auto simp: o_def)
qed


lemma blank_id_inject [simp]: "blank_id a = blank_id b \<longleftrightarrow> a = b"
  by (cases a; cases b) (simp add: blank_id_def)

lemma first_pass_cell [simp]:
  "first_pass (triple_new (SubjBlank b) first_iri ob) (fm, rm, heads) = (fmupd (blank_id b) ob fm, rm, heads)"
  "first_pass (triple_new (SubjBlank b) rest_iri ob) (fm, rm, heads) = (fm, fmupd (blank_id b) ob rm, heads)"
  by (simp_all add: first_pass_def triple_new_def)

lemma first_pass_cells:
  assumes "distinct (map fst cells)" "fold first_pass (cell_triples cells) (fm, rm, heads) = (fm', rm', heads')"
  shows "heads' = heads \<and> cells_ok fm' rm' cells \<and>
    (\<forall>b. b \<notin> fst ` set cells \<longrightarrow> fmlookup fm' (blank_id b) = fmlookup fm (blank_id b) \<and>
      fmlookup rm' (blank_id b) = fmlookup rm (blank_id b))"
  using assms
proof (induction cells arbitrary: fm rm)
  case Nil
  then show ?case by (simp add: cells_ok_def)
next
  case (Cons c cells)
  obtain b ob where c: "c = (b, ob)" by (cases c)
  let ?nxt = "case cells of [] \<Rightarrow> ObjIri nil_iri | (b', _) # _ \<Rightarrow> ObjBlank b'"
  have "fold first_pass (cell_triples cells) (fmupd (blank_id b) ob fm, fmupd (blank_id b) ?nxt rm, heads) = (fm', rm', heads')"
    using Cons.prems(2) c by simp
  with Cons.IH [OF _ this] Cons.prems(1) c show ?case
    by (auto simp: cells_ok_Cons)
qed

definition no_blank :: "triple \<Rightarrow> bool" where
  "no_blank t \<longleftrightarrow> \<not> subject_is_blank_node (t_subject t) \<and> \<not> object_is_blank_node (t_object t)"

lemma first_pass_no_blank: "no_blank t \<Longrightarrow> first_pass t x = x"
  by (cases x) (auto simp: no_blank_def first_pass_def split: subject.split object.split)

lemma fold_first_pass_no_blank: "list_all no_blank ts \<Longrightarrow> fold first_pass ts x = x"
  by (induction ts arbitrary: x) (simp_all add: first_pass_no_blank)

lemma keep_no_blank: "no_blank t \<Longrightarrow> keep_triple used heads t"
  by (auto simp: no_blank_def keep_triple_def split: subject.split object.split)

lemma drop_cells:
  "fst ` set cells \<subseteq> B \<Longrightarrow> (\<And>b. b \<in> B \<Longrightarrow> blank_id b |\<in>| used) \<Longrightarrow> filter (keep_triple used heads) (cell_triples cells) = []"
  by (induction cells rule: cell_triples.induct) (auto simp: keep_triple_def triple_new_def)

text \<open>C15: An RDF list of IRIs and literals is extracted as a whole: if its head triple and the \<open>rdf:first\<close> and \<open>rdf:rest\<close> triples of its
  distinct nodes stand one after the other between other triples without any blank node, and the property that
  leads to it is neither \<open>rdf:first\<close> nor \<open>rdf:rest\<close>, then it becomes one array of its values in order, under that
  property, and exactly the other triples remain. With other statements about its nodes, or a second property that leads
  to it, more is removed: see the last subsection.\<close>

theorem list_extraction:
  assumes "hash_order iter" "distinct (map fst ((b, ob) # cells))"
    and "\<forall>(b, ob)\<in>set ((b, ob) # cells). element_value ob \<noteq> None"
    and "list_all no_blank others1" "list_all no_blank others2"
    and "iri_value p \<noteq> RDF_FIRST" "iri_value p \<noteq> RDF_REST"
    and "ts = others1 @ triple_new s p (ObjBlank b) # cell_triples ((b, ob) # cells) @ others2"
  shows "detect_and_extract_collections iter ts =
    Some ([(subject_uri s, sanitize_identifier (local_name p),
        map (the \<circ> element_value \<circ> snd) ((b, ob) # cells))], others1 @ others2)"
proof -
  let ?cells = "(b, ob) # cells"
  let ?heads = "fmupd (blank_id b) (subject_uri s, sanitize_identifier (local_name p)) fmempty"
  let ?used = "fset_of_list (map (blank_id \<circ> fst) ?cells)"
  obtain fm rm where f: "fold first_pass ts (fmempty, fmempty, fmempty) = (fm, rm, ?heads)"
    and ok: "cells_ok fm rm ?cells"
  proof -
    obtain fm rm heads where m: "fold first_pass (cell_triples ?cells) (fmempty, fmempty, ?heads) = (fm, rm, heads)"
      by (metis prod_cases3)
    have head: "first_pass (triple_new s p (ObjBlank b)) (fmempty, fmempty, fmempty) = (fmempty, fmempty, ?heads)"
      using assms(6,7) by (simp add: first_pass_def triple_new_def)
    have "heads = ?heads" "cells_ok fm rm ?cells"
      using first_pass_cells [OF assms(2) m] by auto
    moreover have "fold first_pass ts (fmempty, fmempty, fmempty) = (fm, rm, heads)"
      using m head by (simp only: assms(8) fold_append comp_apply fold_Cons
          fold_first_pass_no_blank [OF assms(4)] fold_first_pass_no_blank [OF assms(5)] id_apply)
    ultimately show thesis using that by blast
  qed
  have dom: "blank_id b |\<in>| fmdom fm" using ok by (simp add: cells_ok_Cons fmdomI)
  have "filter (\<lambda>(h, _). h |\<in>| fmdom fm) (iter ?heads) = [(blank_id b, subject_uri s, sanitize_identifier (local_name p))]"
    using dom by (simp add: hash_order_single [OF assms(1)])
  moreover have "walk fm rm (blank_id b) [] {||} =
      Some (True, map (the \<circ> element_value \<circ> snd) ?cells, ?used)"
    using walk_cells [OF ok assms(3), of "[]" "{||}"] by simp
  ultimately have sp: "second_pass fm rm (filter (\<lambda>(h, _). h |\<in>| fmdom fm) (iter ?heads)) [] {||} =
      Some ([(subject_uri s, sanitize_identifier (local_name p), map (the \<circ> element_value \<circ> snd) ?cells)], ?used)"
    by simp
  have used: "blank_id c |\<in>| ?used" if "c \<in> fst ` set ?cells" for c
    using that by (auto simp: fset_of_list_elem)
  have "\<not> keep_triple ?used ?heads (triple_new s p (ObjBlank b))"
    by (simp add: keep_triple_def triple_new_def)
  then have "filter (keep_triple ?used ?heads) ts = others1 @ others2"
    using assms(4,5) drop_cells [of ?cells "fst ` set ?cells" ?used ?heads] used
    by (simp add: assms(8) keep_no_blank list_all_iff del: cell_triples.simps)
  then show ?thesis
    using f sp by (simp add: detect_and_extract_collections_def)
qed

theorem list_extraction_witness:
  "detect_and_extract_collections key_order
     ([] @ triple_new (SubjIri nil_iri) (iri_new_unchecked (lit ''urn:p'')) (ObjBlank (bn_new (lit ''a''))) #
        cell_triples [(bn_new (lit ''a''), ObjIri nil_iri), (bn_new (lit ''b''), ObjIri first_iri)] @ []) =
   Some ([(RDF_NIL, lit ''_unnamed'', [quoted RDF_NIL, quoted RDF_FIRST])], [])"
proof -
  have "local_part (lit ''urn:p'') = []" by (simp add: local_part_def lit_def)
  then have n: "sanitize_identifier (local_name (iri_new_unchecked (lit ''urn:p''))) = lit ''_unnamed''"
    by (simp add: local_name_def iri_local_part sanitize_identifier_def)
  show ?thesis
    using list_extraction [OF hash_order_key_order _ _ _ _ _ _ refl, of "bn_new (lit ''a'')" "ObjIri nil_iri"
        "[(bn_new (lit ''b''), ObjIri first_iri)]" "[]" "[]" "iri_new_unchecked (lit ''urn:p'')" "SubjIri nil_iri"]
    by (simp add: bn_new_def n del: cell_triples.simps)
qed

subsection \<open>What extraction loses\<close>

definition shared_list :: "iri \<Rightarrow> iri \<Rightarrow> subject \<Rightarrow> blank_node \<Rightarrow> object \<Rightarrow> triple list" where
  "shared_list p1 p2 s b ob =
     [triple_new s p1 (ObjBlank b), triple_new s p2 (ObjBlank b),
      triple_new (SubjBlank b) first_iri ob, triple_new (SubjBlank b) rest_iri (ObjIri nil_iri)]"

lemma walk_single:
  assumes "fmlookup fm (blank_id b) = Some ob" "fmlookup rm (blank_id b) = Some (ObjIri nil_iri)"
    "element_value ob = Some v"
  shows "walk fm rm (blank_id b) [] {||} = Some (True, [v], {|blank_id b|})"
  using assms by (subst walk.simps) simp

text \<open>Two properties of one subject that lead to the same list lose one of them: both triples are dropped
  and one array remains, under the property that comes last.\<close>

theorem shared_list_loses_property:
  assumes "hash_order iter" "element_value ob = Some v" "s = SubjIri i"
    and "iri_value p1 \<notin> {RDF_FIRST, RDF_REST}" "iri_value p2 \<notin> {RDF_FIRST, RDF_REST}"
  shows "detect_and_extract_collections iter (shared_list p1 p2 s b ob) =
    Some ([(iri_value i, sanitize_identifier (local_name p2), [v])], [])"
proof -
  let ?h = "fmupd (blank_id b) (iri_value i, sanitize_identifier (local_name p2)) fmempty"
  let ?fm = "fmupd (blank_id b) ob fmempty" and ?rm = "fmupd (blank_id b) (ObjIri nil_iri) fmempty"
  have upd: "fmupd (blank_id b) y (fmupd (blank_id b) x fmempty) = fmupd (blank_id b) y fmempty" for x y :: "rstr \<times> rstr"
    by (simp add: fmap_ext)
  have "fold first_pass (shared_list p1 p2 s b ob) (fmempty, fmempty, fmempty) = (?fm, ?rm, ?h)"
    using assms(3,4,5) upd by (simp add: shared_list_def) (simp add: first_pass_def triple_new_def)
  moreover have "walk ?fm ?rm (blank_id b) [] {||} = Some (True, [v], {|blank_id b|})"
    using assms(2) by (intro walk_single) simp_all
  moreover have "filter (keep_triple {|blank_id b|} ?h) (shared_list p1 p2 s b ob) = []"
    using assms(3) by (simp add: shared_list_def keep_triple_def triple_new_def)
  ultimately show ?thesis
    by (simp add: detect_and_extract_collections_def hash_order_single [OF assms(1)])
qed

theorem shared_list_loses_property_witness:
  "detect_and_extract_collections key_order
     (shared_list (iri_new_unchecked (lit ''urn:p'')) (iri_new_unchecked (lit ''http://x/q'')) (SubjIri nil_iri)
       (bn_new (lit ''a'')) (ObjIri nil_iri)) =
   Some ([(RDF_NIL, sanitize_identifier (local_name (iri_new_unchecked (lit ''http://x/q''))), [quoted RDF_NIL])], [])"
proof -
  have "lit ''http://x/q'' \<notin> {RDF_FIRST, RDF_REST}" by (simp add: RDF_FIRST_def RDF_REST_def)
  then show ?thesis
    using shared_list_loses_property [OF hash_order_key_order _ refl, of "ObjIri nil_iri" "quoted RDF_NIL"
        "iri_new_unchecked (lit ''urn:p'')" "iri_new_unchecked (lit ''http://x/q'')" nil_iri "bn_new (lit ''a'')"] by simp
qed

lemma walk_n_values: "walk_n n fm rm b vs ns = Some (True, vs', ns') \<Longrightarrow> vs' \<noteq> []"
  by (induction n arbitrary: b vs ns) (auto split: option.splits object.splits)

lemma walk_values: "walk fm rm b vs ns = Some (True, vs', ns') \<Longrightarrow> vs' \<noteq> []"
  using walk_walk_n walk_n_values by blast

lemma second_pass_used_mono: "second_pass fm rm hs cs used = Some (cs', used') \<Longrightarrow> used |\<subseteq>| used'"
  by (induction fm rm hs cs used rule: second_pass.induct) (auto split: option.splits prod.splits if_splits)

lemma second_pass_used:
  "second_pass fm rm hs cs used = Some (cs', used') \<Longrightarrow> (h, s, p) \<in> set hs \<Longrightarrow>
   walk fm rm h [] {||} = Some (True, vs, ns) \<Longrightarrow> ns |\<subseteq>| used'"
proof (induction fm rm hs cs used rule: second_pass.induct)
  case (2 fm rm h' s' p' hs cs used)
  obtain simple vs' ns' where w: "walk fm rm h' [] {||} = Some (simple, vs', ns')"
    using 2(3) by (auto split: option.splits)
  show ?case
  proof (cases "(h, s, p) = (h', s', p')")
    case True
    then have "simple" "vs' \<noteq> []" "ns' = ns" using w 2(5) walk_values by auto
    then have "second_pass fm rm hs (cs @ [(s', p', vs')]) (used |\<union>| ns) = Some (cs', used')"
      using 2(3) w by simp
    from second_pass_used_mono [OF this] show ?thesis by auto
  next
    case False
    then have "(h, s, p) \<in> set hs" using 2(4) by auto
    then show ?thesis using 2 w by (auto split: if_splits)
  qed
qed simp

text \<open>Every statement about a node of an extracted list is dropped, also those that are not part of
  the list, such as the node's type or a label.\<close>

theorem list_node_statements_dropped:
  assumes "detect_and_extract_collections iter ts = Some (cs, remaining)" "list_maps ts = (fm, rm, heads)"
    and "hash_order iter" "fmlookup heads h = Some (s, p)" "h |\<in>| fmdom fm"
    and "walk fm rm h [] {||} = Some (True, vs, ns)" "blank_id b |\<in>| ns" "t_subject t = SubjBlank b"
  shows "t \<notin> set remaining"
proof -
  let ?hs = "filter (\<lambda>(h, _). h |\<in>| fmdom fm) (iter heads)"
  obtain used where u: "second_pass fm rm ?hs [] {||} = Some (cs, used)"
    "remaining = filter (keep_triple used heads) ts"
    using assms(1,2) by (auto simp: detect_and_extract_collections_def list_maps_def split: option.splits)
  have "(h, s, p) \<in> set ?hs" using assms(4,5) by (simp add: hash_order_in_iff [OF assms(3)])
  from second_pass_used [OF u(1) this assms(6)] assms(7) have "blank_id b |\<in>| used" by auto
  then show ?thesis using u(2) assms(8) by (simp add: keep_triple_def)
qed

definition labelled_list :: "triple list" where
  "labelled_list =
     [triple_new (SubjIri nil_iri) (iri_new_unchecked (lit ''urn:p'')) (ObjBlank (bn_new (lit ''a''))),
      triple_new (SubjBlank (bn_new (lit ''a''))) (iri_new_unchecked (lit ''urn:p'')) (ObjLiteral (literal_new (lit ''x''))),
      triple_new (SubjBlank (bn_new (lit ''a''))) first_iri (ObjIri nil_iri),
      triple_new (SubjBlank (bn_new (lit ''a''))) rest_iri (ObjIri nil_iri)]"

theorem list_node_statements_dropped_witness:
  "\<exists>cs remaining. detect_and_extract_collections key_order labelled_list = Some (cs, remaining) \<and>
     labelled_list ! 1 \<in> set labelled_list \<and> labelled_list ! 1 \<notin> set remaining"
proof -
  let ?b = "bn_new (lit ''a'')"
  let ?fm = "fmupd (blank_id ?b) (ObjIri nil_iri) fmempty"
  let ?h = "fmupd (blank_id ?b) (RDF_NIL, sanitize_identifier (local_name (iri_new_unchecked (lit ''urn:p'')))) fmempty"
  have m: "list_maps labelled_list = (?fm, ?fm, ?h)"
    by (simp add: list_maps_def labelled_list_def) (simp add: first_pass_def triple_new_def)
  have w: "walk ?fm ?fm (blank_id ?b) [] {||} = Some (True, [quoted RDF_NIL], {|blank_id ?b|})"
    by (rule walk_single [where ob = "ObjIri nil_iri"]) simp_all
  obtain cs remaining where d: "detect_and_extract_collections key_order labelled_list = Some (cs, remaining)"
    using m w by (auto simp: detect_and_extract_collections_def list_maps_def hash_order_single [OF hash_order_key_order])
  have "labelled_list ! 1 \<notin> set remaining"
    by (rule list_node_statements_dropped [OF d m hash_order_key_order _ _ w, where b = ?b])
      (simp_all add: labelled_list_def triple_new_def)
  moreover have "labelled_list ! 1 \<in> set labelled_list" by (simp add: labelled_list_def)
  ultimately show ?thesis using d by blast
qed

end
