(* ===== verification/CypherSafety.thy ===== *)
theory CypherSafety
  imports RdfLists
begin

section \<open>Cypher injection\<close>

text \<open>
  A scanner that separates the code of a Cypher statement from its quoted strings, and the
  proof that RDF text reaches a generated statement only inside strings, as sanitised
  identifiers, or as numerals. \<open>scan\<close> returns the text outside strings (with the quotes)
  and the mode at the end.
\<close>

datatype scan_mode = Code | InString rchar | Escaped rchar

fun scan :: "scan_mode \<Rightarrow> rstr \<Rightarrow> rstr \<times> scan_mode" where
  "scan m [] = ([], m)"
| "scan Code (c # cs) =
     (let (s, m) = scan (if c = c_squote \<or> c = c_dquote then InString c else Code) cs in (c # s, m))"
| "scan (InString q) (c # cs) =
     (if c = q then (let (s, m) = scan Code cs in (c # s, m))
      else scan (if c = c_bslash then Escaped q else InString q) cs)"
| "scan (Escaped q) (c # cs) = scan (InString q) cs"

lemma scan_append:
  "scan m (a @ b) = (let (x, m1) = scan m a; (y, m2) = scan m1 b in (x @ y, m2))"
  by (induction m a rule: scan.induct) (auto simp: Let_def split: prod.splits)

lemma scan_plain: "c_squote \<notin> set a \<Longrightarrow> c_dquote \<notin> set a \<Longrightarrow> scan Code a = (a, Code)"
  by (induction a) auto

lemma scan_escape_char:
  "q = c_squote \<or> q = c_dquote \<Longrightarrow> scan (InString q) (escape_char c @ r) = scan (InString q) r"
  by (auto simp: escape_char.simps)

lemma scan_escape:
  "q = c_squote \<or> q = c_dquote \<Longrightarrow> scan (InString q) (escape_cypher_string s @ r) = scan (InString q) r"
  by (induction s) (simp_all add: scan_escape_char)

lemma scan_quoted: "scan Code (quoted s) = ([c_squote, c_squote], Code)"
  using scan_escape [of c_squote s "[c_squote]"] by (simp add: quoted_def)

text \<open>The characters that generated code may have outside strings.\<close>

definition num_char :: "rchar \<Rightarrow> bool" where
  "num_char c \<longleftrightarrow> is_ascii_alphanumeric c \<or> c \<in> {c_plus, c_minus, c_dot}"

definition code_char :: "rchar \<Rightarrow> bool" where
  "code_char c \<longleftrightarrow> num_char c \<or> c \<in> {c_underscore, c_squote, c_space, c_nl, c_lparen, c_rparen, c_lbracket,
     c_rbracket, 123, 125, c_colon, c_comma, 61, c_gt}"

definition safe_code :: "rstr \<Rightarrow> bool" where
  "safe_code s \<longleftrightarrow> snd (scan Code s) = Code \<and> list_all code_char (fst (scan Code s))"

named_theorems safe "pieces of statements that are safe code"

lemma safe_append [safe]: "safe_code a \<Longrightarrow> safe_code b \<Longrightarrow> safe_code (a @ b)"
  by (auto simp: safe_code_def scan_append Let_def split: prod.splits)

lemma safe_Nil [safe]: "safe_code []"
  by (simp add: safe_code_def)

lemma safe_quoted [safe]: "safe_code (quoted s)"
  by (simp add: safe_code_def scan_quoted code_char_def)

lemma safe_plain: "list_all code_char s \<Longrightarrow> c_squote \<notin> set s \<Longrightarrow> safe_code s"
  by (subgoal_tac "c_dquote \<notin> set s")
    (auto simp: safe_code_def scan_plain list_all_iff code_char_def num_char_def char_class_defs)

lemma identifier_code:
  assumes "is_identifier s" shows "list_all code_char s" "c_squote \<notin> set s"
  using assms unfolding is_identifier_def list_all_iff identifier_char_def code_char_def num_char_def
  by (auto simp: char_class_defs)

lemma safe_identifier: "is_identifier s \<Longrightarrow> safe_code s"
  using identifier_code safe_plain by blast

lemma safe_sanitize [safe]: "safe_code (sanitize_identifier s)"
  by (rule safe_identifier) (rule sanitize_is_identifier)

lemma safe_operation [safe]: "safe_code (operation g)"
  by (rule safe_plain) (auto simp: operation_def lit_def code_char_def num_char_def char_class_defs)

lemma safe_show_bool [safe]: "safe_code (show_bool b)"
  by (rule safe_plain) (auto simp: show_bool_def lit_def code_char_def num_char_def char_class_defs)

lemma safe_node_label [safe]: "safe_code (node_label b)"
  by (rule safe_plain) (auto simp: node_label_def lit_def code_char_def num_char_def char_class_defs)

lemma safe_show_nat [safe]: "safe_code (show_nat n)"
  by (rule safe_plain)
    (auto simp: list_all_iff code_char_def num_char_def is_ascii_alphanumeric_def is_ascii_digit_def
      dest: show_nat_digits)

lemma safe_lits [safe]:
  "safe_code (lit ''('')" "safe_code (lit '':'')" "safe_code (lit '' {uri: '')" "safe_code (lit ''})'')"
  "safe_code (lit '' '')" "safe_code (lit '' SET '')" "safe_code (lit ''.isBlank = '')"
  "safe_code (lit ''.isBlank = false'')" "safe_code (lit ''.isBlank = true'')" "safe_code (lit '' ('')"
  "safe_code (lit '')-[:'')" "safe_code (lit ''{predicate: '')" "safe_code (lit ''}]->('')"
  "safe_code (lit '')'')" "safe_code (lit ''date('')" "safe_code (lit ''SET '')" "safe_code (lit ''.'')"
  "safe_code (lit '' = '')" "safe_code (lit ''n'')" "safe_code (lit ''s'')" "safe_code (lit ''o'')"
  "safe_code (lit '' SET n:'')" "safe_code (lit '', n.isBlank = '')" "safe_code (lit '' (s)-[:'')"
  "safe_code (lit ''s:'')" "safe_code (lit ''s.isBlank = '')" "safe_code (lit ''s.'')"
  "safe_code (lit ''['')" "safe_code (lit '']'')" "safe_code (lit '', '')" "safe_code [c_nl]"
  by (rule safe_plain; simp add: lit_def code_char_def num_char_def char_class_defs)+

lemma safe_join [safe]: "safe_code sep \<Longrightarrow> list_all safe_code xs \<Longrightarrow> safe_code (join sep xs)"
proof (induction xs)
  case (Cons x xs)
  then show ?case by (cases "xs = []") (auto simp: join_Cons intro!: safe_append)
qed (simp add: safe_Nil)

lemma safe_node_pattern [safe]: "safe_code var \<Longrightarrow> safe_code (node_pattern var b u)"
  by (simp add: node_pattern_def safe)


subsection \<open>Values\<close>

lemma all_digits_num: "all_digits s \<Longrightarrow> list_all num_char s"
  by (auto simp: all_digits_def list_all_iff num_char_def is_ascii_alphanumeric_def)

lemma parse_i64_num: "parse_i64 s = Some n \<Longrightarrow> list_all num_char s"
  by (cases s) (auto simp: parse_i64_def parse_signed_def Let_def num_char_def split: if_splits dest: all_digits_num)

lemma takeWhile_digits_num: "list_all num_char (takeWhile is_ascii_digit s)"
  by (induction s) (auto simp: num_char_def is_ascii_alphanumeric_def)

lemma num_split: "list_all num_char (dropWhile is_ascii_digit s) \<Longrightarrow> list_all num_char s"
  by (metis list_all_append takeWhile_digits_num takeWhile_dropWhile_id)

lemma ascii_lower_num: "is_ascii_alphabetic (ascii_lower c) \<Longrightarrow> num_char c"
  by (auto simp: ascii_lower_def num_char_def char_class_defs split: if_splits)

lemma lower_list_num: "list_all is_ascii_alphabetic (map ascii_lower b) \<Longrightarrow> list_all num_char b"
  by (induction b) (auto intro: ascii_lower_num)

lemma lower_word_num: "map ascii_lower b = lit w \<Longrightarrow> list_all is_ascii_alphabetic (lit w) \<Longrightarrow> list_all num_char b"
  using lower_list_num [of b] by simp

lemma exponent_num: "f64_exponent_ok s \<Longrightarrow> list_all num_char s"
proof (cases s)
  case (Cons c r)
  assume e: "f64_exponent_ok s"
  with Cons have "is_ascii_alphabetic (ascii_lower c)"
    by (simp add: f64_exponent_ok_def is_ascii_alphabetic_def)
  then have "num_char c" by (rule ascii_lower_num)
  moreover have "list_all num_char r"
    using e Cons by (cases r) (auto simp: f64_exponent_ok_def Let_def num_char_def split: if_splits dest: all_digits_num)
  ultimately show ?thesis using Cons by simp
qed simp

lemma number_num: "f64_number_ok s \<Longrightarrow> list_all num_char s"
proof (rule num_split)
  assume n: "f64_number_ok s"
  show "list_all num_char (dropWhile is_ascii_digit s)"
  proof (cases "dropWhile is_ascii_digit s")
    case (Cons c r)
    show ?thesis
    proof (cases "c = c_dot")
      case True
      then have "f64_exponent_ok (dropWhile is_ascii_digit r)"
        using n Cons by (simp add: f64_number_ok_def Let_def)
      then have "list_all num_char r" by (rule num_split [OF exponent_num])
      with True Cons show ?thesis by (simp add: num_char_def)
    next
      case False
      then show ?thesis using n Cons by (auto simp: f64_number_ok_def Let_def dest: exponent_num)
    qed
  next
    case Nil
    show ?thesis unfolding Nil by simp
  qed
qed

lemma parses_f64_num: "parses_f64 s \<Longrightarrow> list_all num_char s"
proof -
  assume p: "parses_f64 s"
  define b where "b = (if s \<noteq> [] \<and> (hd s = c_plus \<or> hd s = c_minus) then tl s else s)"
  have "list_all num_char b"
    using p number_num [of b] lower_word_num [of b "''inf''"] lower_word_num [of b "''infinity''"] lower_word_num [of b "''nan''"]
    unfolding parses_f64_def Let_def b_def [symmetric]
    by (auto simp: lit_def is_ascii_alphabetic_def)
  then show ?thesis by (cases s) (auto simp: b_def num_char_def split: if_splits)
qed

lemma numeric_num: "numeric_or_bool l \<Longrightarrow> list_all num_char (lit_value l)"
proof -
  assume "numeric_or_bool l"
  then consider n where "parse_i64 (lit_value l) = Some n" | "parses_f64 (lit_value l)" | "as_bool l \<noteq> None"
    by (auto simp: numeric_or_bool_def as_integer_def as_float_is_some_def)
  then show ?thesis
  proof cases
    case 3
    then have "lit_value l \<in> {lit ''true'', lit ''1'', lit ''false'', lit ''0''}"
      by (auto simp: as_bool_def split: if_splits)
    then show ?thesis by (auto simp: lit_def num_char_def char_class_defs)
  qed (auto dest: parse_i64_num parses_f64_num)
qed

lemma safe_num: "list_all num_char s \<Longrightarrow> safe_code s"
  by (rule safe_plain) (auto simp: list_all_iff code_char_def num_char_def char_class_defs)

lemma safe_numeric [safe]: "numeric_or_bool l \<Longrightarrow> safe_code (lit_value l)"
  by (rule safe_num) (rule numeric_num)

lemma safe_value_repr [safe]: "safe_code (value_repr l)"
  by (auto simp: value_repr_def intro!: safe)

subsection \<open>Statements\<close>

lemma safe_resource_node [safe]: "safe_code var \<Longrightarrow> safe_code (generate_resource_node g var u s)"
  by (simp add: generate_resource_node_def safe)

lemma safe_resource_from_iri [safe]: "safe_code var \<Longrightarrow> safe_code (generate_resource_node_from_iri g var u)"
  by (simp add: generate_resource_node_from_iri_def safe)

lemma safe_blank_node [safe]: "safe_code var \<Longrightarrow> safe_code (generate_blank_node g var u)"
  by (simp add: generate_blank_node_def safe)

lemma safe_edge [safe]: "safe_code a \<Longrightarrow> safe_code b \<Longrightarrow> safe_code (generate_edge g a b p l)"
  by (simp add: generate_edge_def safe)

lemma safe_literal_edge [safe]: "safe_code var \<Longrightarrow> safe_code (generate_literal_edge g var p l)"
  by (simp add: generate_literal_edge_def safe)

lemma safe_type_statement [safe]: "safe_code (generate_type_statement g s ty)"
  by (simp add: generate_type_statement_def safe)

text \<open>Whatever IRIs, labels and literals a triple has, its statement is one statement whose strings
  are closed and whose code has no character but those of the templates, identifiers and
  numerals: no RDF text can end a string and be read as Cypher.\<close>

theorem generate_triple_injection_safe:
  "\<exists>stmt. generate_triple g t = [stmt] \<and> safe_code stmt"
  by (cases "t_object t"; cases "iri_value (t_predicate t) = RDF_TYPE")
    (simp_all add: generate_triple_def Let_def safe del: join.simps)

definition safe_data :: "subject_data \<Rightarrow> bool" where
  "safe_data d \<longleftrightarrow> list_all safe_code (sd_labels d) \<and>
     list_all (\<lambda>(p, v). safe_code p \<and> safe_code v) (sd_properties d) \<and>
     list_all (\<lambda>(p, vs). safe_code p \<and> list_all safe_code vs) (sd_array_properties d)"

lemma safe_subject_query:
  assumes "safe_data d"
  shows "safe_code (generate_subject_query g d)"
proof -
  have parts: "list_all safe_code (set_parts d)"
    using assms by (auto simp: safe_data_def set_parts_def list_all_iff intro!: safe)
  have rels: "list_all safe_code (relationship_parts g i r)" for i r
    by (simp add: relationship_parts_def Let_def safe)
  then show ?thesis using parts
    by (auto simp: generate_subject_query_def list_all_iff intro!: safe)
qed

lemma safe_data_new: "safe_data (subject_data_new u b)"
  by (simp add: safe_data_def subject_data_new_def)

lemma safe_add_to_subject: "safe_data d \<Longrightarrow> safe_data (add_to_subject t d)"
  by (auto simp: add_to_subject_def safe_data_def Let_def safe split: object.split)

definition safe_map :: "subject_map \<Rightarrow> bool" where
  "safe_map m \<longleftrightarrow> (\<forall>u d. fmlookup m u = Some d \<longrightarrow> safe_data d)"

lemma safe_entry: "safe_map m \<Longrightarrow> safe_data (entry_or m u b)"
  by (auto simp: safe_map_def entry_or_def safe_data_new split: option.split)

lemma safe_batch_add: "safe_map m \<Longrightarrow> safe_map (batch_add t m)"
  using safe_add_to_subject safe_entry by (auto simp: batch_add_def Let_def) (auto simp: safe_map_def)

definition safe_array :: "collection_array \<Rightarrow> bool" where
  "safe_array = (\<lambda>(u, p, vs). safe_code p \<and> list_all safe_code vs)"

lemma safe_batch_add_array: "safe_map m \<Longrightarrow> safe_array a \<Longrightarrow> safe_map (batch_add_array a m)"
proof -
  assume m: "safe_map m" and a: "safe_array a"
  obtain u p vs where "a = (u, p, vs)" by (cases a)
  with safe_entry [OF m, of u "prefix (lit ''_:'') u"] a m show ?thesis
    by (auto simp: batch_add_array_def Let_def safe_array_def safe_map_def safe_data_def)
qed

lemma safe_element: "element_value ob = Some v \<Longrightarrow> safe_code v"
  by (cases ob) (auto intro!: safe split: if_splits)


definition safe_heads :: "head_map \<Rightarrow> bool" where
  "safe_heads heads \<longleftrightarrow> (\<forall>h s p. fmlookup heads h = Some (s, p) \<longrightarrow> safe_code p)"

lemma safe_first_pass:
  "safe_heads (snd (snd x)) \<Longrightarrow> safe_heads (snd (snd (first_pass t x)))"
  by (cases x) (auto simp: first_pass_def safe_heads_def safe split: subject.split object.split)

lemma safe_first_passes: "safe_heads (snd (snd x)) \<Longrightarrow> safe_heads (snd (snd (fold first_pass ts x)))"
  by (induction ts arbitrary: x) (simp_all add: safe_first_pass)

lemma walk_n_safe:
  "walk_n n fm rm b vs ns = Some (simple, vs', ns') \<Longrightarrow> list_all safe_code vs \<Longrightarrow> list_all safe_code vs'"
proof (induction n arbitrary: b vs ns)
  case (Suc n)
  show ?case
  proof (cases "Option.bind (fmlookup fm b) element_value")
    case (Some v)
    then have "safe_code v" by (auto simp: bind_eq_Some_conv dest: safe_element)
    with Suc.prems(2) have "list_all safe_code (vs @ [v])" by simp
    with Suc Some show ?thesis by (auto split: option.splits object.splits)
  qed (use Suc in auto)
qed simp

lemma walk_safe: "walk fm rm b [] ns = Some (simple, vs', ns') \<Longrightarrow> list_all safe_code vs'"
  using walk_walk_n walk_n_safe by (metis list.pred_inject(1))

lemma second_pass_safe:
  "second_pass fm rm hs cs used = Some (cs', used') \<Longrightarrow> list_all safe_array cs \<Longrightarrow>
   \<forall>(h, s, p)\<in>set hs. safe_code p \<Longrightarrow> list_all safe_array cs'"
proof (induction fm rm hs cs used rule: second_pass.induct)
  case (2 fm rm h s p hs cs used)
  obtain simple vs ns where w: "walk fm rm h [] {||} = Some (simple, vs, ns)"
    using 2(3) by (auto split: option.splits)
  have "safe_array (s, p, vs)" using walk_safe [OF w] 2(5) by (simp add: safe_array_def)
  then have "list_all safe_array (cs @ [(s, p, vs)])" using 2(4) by simp
  then show ?case using 2 w by (auto split: if_splits)
qed simp

lemma safe_batch_subjects:
  assumes "hash_order iter" "batch_subjects iter ts = Some m"
  shows "safe_map m"
proof -
  obtain fm rm heads where l: "list_maps ts = (fm, rm, heads)" by (metis prod_cases3)
  obtain cs remaining where d: "detect_and_extract_collections iter ts = Some (cs, remaining)"
    and m: "m = fold batch_add_array cs (fold batch_add remaining fmempty)"
    using assms(2) by (auto simp: batch_subjects_def)
  have "safe_heads heads"
    using safe_first_passes [of "(fmempty, fmempty, fmempty)" ts] l by (simp add: list_maps_def safe_heads_def)
  then have hs: "\<forall>(h, s, p)\<in>set (filter (\<lambda>(h, _). h |\<in>| fmdom fm) (iter heads)). safe_code p"
    by (auto simp: hash_order_in_iff [OF assms(1)] safe_heads_def)
  obtain used where sp: "second_pass fm rm (filter (\<lambda>(h, _). h |\<in>| fmdom fm) (iter heads)) [] {||} = Some (cs, used)"
    using d l by (auto simp: detect_and_extract_collections_def list_maps_def split: option.splits)
  have cs: "list_all safe_array cs" using second_pass_safe [OF sp _ hs] by simp
  have "safe_map (fold batch_add ts' m0)" if "safe_map m0" for ts' m0
    using that by (induction ts' arbitrary: m0) (simp_all add: safe_batch_add)
  moreover have "safe_map (fold batch_add_array cs' m0)" if "safe_map m0" "list_all safe_array cs'" for cs' m0
    using that by (induction cs' arbitrary: m0) (simp_all add: safe_batch_add_array)
  ultimately show ?thesis using cs by (simp add: m safe_map_def [of fmempty])
qed

lemma safe_batch:
  assumes "hash_order iter" "hash_order so" "generate_batch iter so g ts = Some stmts"
  shows "list_all safe_code stmts"
proof -
  obtain m where m: "batch_subjects iter ts = Some m" "stmts = map (\<lambda>(_, d). generate_subject_query g d) (so m)"
    using assms(3) by (auto simp: generate_batch_def)
  have "safe_map m" using safe_batch_subjects [OF assms(1) m(1)] .
  then have "safe_data d" if "(u, d) \<in> set (so m)" for u d
    using that by (simp add: hash_order_in_iff [OF assms(2)] safe_map_def)
  then show ?thesis using m(2) safe_subject_query by (auto simp: list_all_iff)
qed

text \<open>C1: The same holds for every statement of a batch, arrays extracted from RDF lists included.\<close>

theorem generate_batch_injection_safe:
  assumes "hash_order iter" "hash_order so" "generate_batch iter so g ts = Some stmts"
  shows "list_all safe_code stmts"
  using assms by (rule safe_batch)

theorem generate_batch_injection_safe_witness:
  "\<exists>stmts. generate_batch key_order key_order cg_new labelled_list = Some stmts \<and> list_all safe_code stmts"
proof -
  let ?b = "bn_new (lit ''a'')"
  let ?fm = "fmupd (blank_id ?b) (ObjIri nil_iri) fmempty"
  have w: "walk ?fm ?fm (blank_id ?b) [] {||} = Some (True, [quoted RDF_NIL], {|blank_id ?b|})"
    by (rule walk_single [where ob = "ObjIri nil_iri"]) simp_all
  have m: "list_maps labelled_list =
      (?fm, ?fm, fmupd (blank_id ?b) (RDF_NIL, sanitize_identifier (local_name (iri_new_unchecked (lit ''urn:p'')))) fmempty)"
    by (simp add: list_maps_def labelled_list_def) (simp add: first_pass_def triple_new_def)
  obtain stmts where "generate_batch key_order key_order cg_new labelled_list = Some stmts"
    using m w by (auto simp: generate_batch_def batch_subjects_def detect_and_extract_collections_def
        list_maps_def hash_order_single [OF hash_order_key_order])
  with generate_batch_injection_safe [OF hash_order_key_order hash_order_key_order this] show ?thesis by blast
qed

subsection \<open>What the statements say of values and names\<close>

lemma quoted_reads_back: "cypher_read c_squote (tl (quoted s) @ rest) = Some (filter kept s, rest)"
  by (simp add: quoted_def)

text \<open>The value written for a literal is its lexical form as a numeral or truth value, or a string or date
  that reads back as the lexical form without control characters.\<close>

theorem value_repr_reads_back:
  "(numeric_or_bool l \<and> value_repr l = lit_value l) \<or>
   (\<exists>body. value_repr l = c_squote # body \<and>
     cypher_read c_squote (body @ rest) = Some (filter kept (lit_value l), rest)) \<or>
   (\<exists>body. value_repr l = lit ''date('' @ c_squote # body @ lit '')'' \<and> is_date l \<and>
     cypher_read c_squote (body @ lit '')'' @ rest) = Some (filter kept (lit_value l), lit '')'' @ rest))"
proof -
  have q: "quoted s = c_squote # tl (quoted s)" for s by (simp add: quoted_def)
  show ?thesis
  proof (cases "is_date l")
    case True
    then have "value_repr l = lit ''date('' @ c_squote # tl (quoted (lit_value l)) @ lit '')''"
      using q [of "lit_value l"] by (simp add: value_repr_def)
    with True quoted_reads_back show ?thesis by blast
  next
    case False
    show ?thesis
    proof (cases "\<not> has_date_datatype l \<and> numeric_or_bool l")
      case True
      with False show ?thesis by (simp add: value_repr_def)
    next
      case num: False
      with False have "value_repr l = quoted (lit_value l)" by (auto simp: value_repr_def)
      with q have "value_repr l = c_squote # tl (quoted (lit_value l))" by metis
      with quoted_reads_back show ?thesis by blast
    qed
  qed
qed

text \<open>The choice is made by the lexical form and not by the datatype: a plain string of digits is written as a
  number and loses its leading zeros, and the infinity of \<open>xsd:double\<close> is written as a bare name.\<close>

theorem strings_written_as_numbers:
  "value_repr (literal_new (lit ''007'')) = lit ''007'' \<and>
   iri_value (literal_datatype (literal_new (lit ''007''))) = xsd_namespace @ lit ''string'' \<and>
   value_repr (literal_with_datatype (lit ''inf'') xsd_double) = lit ''inf''"
proof -
  have n7: "numeric_or_bool (literal_new (lit ''007''))"
    by (simp add: numeric_or_bool_def as_integer_def literal_new_def parse_i64_def parse_signed_def lit_def
        all_digits_def is_ascii_digit_def digits_value_def)
  have inf: "numeric_or_bool (literal_with_datatype (lit ''inf'') xsd_double)"
    by (simp add: numeric_or_bool_def as_float_is_some_def literal_with_datatype_def parses_f64_def lit_def
        ascii_lower_def)
  have d: "iri_value xsd_double \<noteq> XSD_DATE"
    by (simp add: xsd_double_def xsd_datatype_def xsd_namespace_def XSD_DATE_def lit_append [symmetric])
  show ?thesis using n7 inf d
    by (simp add: value_repr_def is_date_def has_date_datatype_def literal_new_def literal_with_datatype_def
        literal_datatype_def xsd_string_def xsd_datatype_def)
qed

text \<open>All properties whose IRI has neither a slash nor a hash sign, such as URNs, are stored under one and the
  same name.\<close>

theorem urn_names_collide:
  assumes "c_hash \<notin> set v" "c_slash \<notin> set v"
  shows "sanitize_identifier (local_name (iri_new_unchecked v)) = lit ''_unnamed''"
  using assms by (simp add: local_name_def iri_local_part local_part_def sanitize_identifier_def)

theorem urn_names_collide_witness:
  "sanitize_identifier (local_name (iri_new_unchecked (lit ''urn:isbn:1''))) = lit ''_unnamed''"
  by (rule urn_names_collide) (simp_all add: lit_def)

text \<open>The name of a graph is written into a comment without escaping: what follows a line break in a graph
  label stands on a line of its own before the statement, outside the comment.\<close>

theorem graph_label_leaves_comment:
  "generate_quad g (quad_in_named_graph t (GraphBlank (bn_new (a @ [c_nl] @ payload)))) =
     map (\<lambda>s. (lit ''// Graph: _:'' @ a) @ [c_nl] @ payload @ [c_nl] @ s) (generate_triple g t)"
proof -
  have "lit ''// Graph: _:'' = lit ''// Graph: '' @ lit ''_:''" by (simp add: lit_def)
  then show ?thesis
    by (simp add: generate_quad_def quad_in_named_graph_def blank_id_def bn_new_def)
qed

end
