(* ===== verification/CypherBatch.thy ===== *)
theory CypherBatch
  imports CypherSafety
begin

section \<open>What a batch and the graph builder collect\<close>

text \<open>
  The grouping of triples by subject, stated over the list of triples: which labels,
  properties, relationships and arrays the entry of a subject holds. Then the invariant
  of \<open>GraphBuilder\<close>.
\<close>

subsection \<open>Grouping\<close>

definition of_subject :: "rstr \<Rightarrow> triple list \<Rightarrow> triple list" where
  "of_subject u ts = filter (\<lambda>t. subject_uri (t_subject t) = u) ts"

fun type_label :: "triple \<Rightarrow> rstr option" where
  "type_label t = (if iri_value (t_predicate t) = RDF_TYPE
     then (case t_object t of ObjIri ty \<Rightarrow> Some (sanitize_identifier (local_name ty)) | _ \<Rightarrow> None) else None)"

fun literal_entry :: "triple \<Rightarrow> (rstr \<times> rstr) option" where
  "literal_entry t = (if iri_value (t_predicate t) = RDF_TYPE then None
     else (case t_object t of
       ObjLiteral l \<Rightarrow> Some (sanitize_identifier (local_name (t_predicate t)), value_repr l) | _ \<Rightarrow> None))"

definition relation_to :: "iri \<Rightarrow> rstr \<Rightarrow> bool \<Rightarrow> relationship_data" where
  "relation_to p u b = \<lparr>rel_predicate = iri_value p, rel_local_name = local_name p, rel_target_uri = u,
     rel_target_is_blank = b\<rparr>"

fun relation_entry :: "triple \<Rightarrow> relationship_data option" where
  "relation_entry t = (if iri_value (t_predicate t) = RDF_TYPE then None
     else (case t_object t of
       ObjIri i \<Rightarrow> Some (relation_to (t_predicate t) (iri_value i) False)
     | ObjBlank b \<Rightarrow> Some (relation_to (t_predicate t) (blank_id b) True)
     | ObjLiteral _ \<Rightarrow> None))"

lemma add_to_subject_fields:
  "sd_labels (add_to_subject t d) =
     (case type_label t of Some l \<Rightarrow> if l \<in> set (sd_labels d) then sd_labels d else sd_labels d @ [l]
      | None \<Rightarrow> sd_labels d)"
  "sd_properties (add_to_subject t d) = sd_properties d @ (case literal_entry t of Some e \<Rightarrow> [e] | None \<Rightarrow> [])"
  "sd_relationships (add_to_subject t d) = sd_relationships d @ (case relation_entry t of Some e \<Rightarrow> [e] | None \<Rightarrow> [])"
  "sd_array_properties (add_to_subject t d) = sd_array_properties d"
  "sd_uri (add_to_subject t d) = sd_uri d" "sd_is_blank (add_to_subject t d) = sd_is_blank d"
  by (auto simp: add_to_subject_def Let_def relation_to_def split: object.split)

declare type_label.simps [simp del] literal_entry.simps [simp del] relation_entry.simps [simp del]

lemma fold_add_fields:
  "set (sd_labels (fold add_to_subject ts d)) = set (sd_labels d) \<union> set (List.map_filter type_label ts)"
  "distinct (sd_labels d) \<Longrightarrow> distinct (sd_labels (fold add_to_subject ts d))"
  "sd_properties (fold add_to_subject ts d) = sd_properties d @ List.map_filter literal_entry ts"
  "sd_relationships (fold add_to_subject ts d) = sd_relationships d @ List.map_filter relation_entry ts"
  "sd_array_properties (fold add_to_subject ts d) = sd_array_properties d"
  "sd_uri (fold add_to_subject ts d) = sd_uri d" "sd_is_blank (fold add_to_subject ts d) = sd_is_blank d"
  by (induction ts arbitrary: d) (auto simp: add_to_subject_fields map_filter_simps split: option.splits)

lemma batch_add_lookup:
  "fmlookup (fold batch_add ts m) u =
     (case of_subject u ts of [] \<Rightarrow> fmlookup m u
      | t # ts' \<Rightarrow> Some (fold add_to_subject (t # ts') (entry_or m u (subject_is_blank_node (t_subject t)))))"
proof (induction ts arbitrary: m)
  case (Cons t ts)
  show ?case
  proof (cases "subject_uri (t_subject t) = u")
    case True
    have e: "entry_or (batch_add t m) u b = add_to_subject t (entry_or m u (subject_is_blank_node (t_subject t)))" for b
      using True by (simp add: batch_add_def Let_def entry_or_def)
    have "fmlookup (batch_add t m) u = Some (add_to_subject t (entry_or m u (subject_is_blank_node (t_subject t))))"
      using True by (simp add: batch_add_def Let_def)
    with Cons [of "batch_add t m"] True show ?thesis
      by (auto simp: of_subject_def e split: list.splits)
  next
    case False
    then have "fmlookup (batch_add t m) u = fmlookup m u" "entry_or (batch_add t m) u b = entry_or m u b" for b
      by (simp_all add: batch_add_def Let_def entry_or_def)
    with Cons [of "batch_add t m"] False show ?thesis by (auto simp: of_subject_def split: list.splits)
  qed
qed (simp add: of_subject_def)

definition arrays_of :: "rstr \<Rightarrow> collection_array list \<Rightarrow> (rstr \<times> rstr list) list" where
  "arrays_of u cs = map snd (filter (\<lambda>c. fst c = u) cs)"

lemma batch_add_array_lookup:
  "fmlookup (fold batch_add_array cs m) u =
     (if arrays_of u cs = [] then fmlookup m u
      else (let d = entry_or m u (prefix (lit ''_:'') u)
            in Some (d\<lparr>sd_array_properties := sd_array_properties d @ arrays_of u cs\<rparr>)))"
proof (induction cs arbitrary: m)
  case (Cons c cs)
  obtain v p vs where c: "c = (v, p, vs)" by (cases c)
  show ?case
  proof (cases "v = u")
    case True
    then have "fmlookup (batch_add_array c m) u = Some (let d = entry_or m u (prefix (lit ''_:'') u)
        in d\<lparr>sd_array_properties := sd_array_properties d @ [(p, vs)]\<rparr>)"
      using c by (simp add: batch_add_array_def Let_def)
    moreover have "arrays_of u (c # cs) = (p, vs) # arrays_of u cs" using True c by (simp add: arrays_of_def)
    ultimately show ?thesis using Cons [of "batch_add_array c m"]
      by (simp add: entry_or_def Let_def)
  next
    case False
    then have "fmlookup (batch_add_array c m) u = fmlookup m u" "arrays_of u (c # cs) = arrays_of u cs"
      using c by (simp_all add: batch_add_array_def Let_def arrays_of_def)
    with Cons [of "batch_add_array c m"] show ?thesis by (simp add: entry_or_def)
  qed
qed (simp add: arrays_of_def)

text \<open>C16: A batch has one entry per subject of the remaining triples and of the arrays; the entry holds
  the subject's type labels, each once, and, in the order of the triples, its literal
  properties, its relationships and its arrays, and nothing of other subjects.\<close>

theorem batch_groups_by_subject:
  assumes "detect_and_extract_collections iter ts = Some (arrays, remaining)" "batch_subjects iter ts = Some m"
  shows "case fmlookup m u of
      None \<Rightarrow> of_subject u remaining = [] \<and> arrays_of u arrays = []
    | Some d \<Rightarrow> (of_subject u remaining \<noteq> [] \<or> arrays_of u arrays \<noteq> []) \<and> sd_uri d = u \<and>
        distinct (sd_labels d) \<and> set (sd_labels d) = set (List.map_filter type_label (of_subject u remaining)) \<and>
        sd_properties d = List.map_filter literal_entry (of_subject u remaining) \<and>
        sd_relationships d = List.map_filter relation_entry (of_subject u remaining) \<and>
        sd_array_properties d = arrays_of u arrays"
proof -
  let ?m = "fold batch_add remaining fmempty" and ?ts = "of_subject u remaining"
  have m: "m = fold batch_add_array arrays ?m" using assms by (simp add: batch_subjects_def)
  have e: "entry_or fmempty u b = subject_data_new u b" for b by (simp add: entry_or_def)
  have l: "fmlookup ?m u = (case ?ts of [] \<Rightarrow> None
      | t # ts' \<Rightarrow> Some (fold add_to_subject (t # ts') (subject_data_new u (subject_is_blank_node (t_subject t)))))"
    by (simp add: batch_add_lookup e split: list.split)
  show ?thesis
  proof (cases ?ts)
    case Nil
    then show ?thesis using l
      by (auto simp: m batch_add_array_lookup entry_or_def Let_def subject_data_new_def map_filter_simps)
  next
    case (Cons t ts')
    then show ?thesis using l fold_add_fields [where ts = ?ts and d = "subject_data_new u (subject_is_blank_node (t_subject t))"]
      by (simp add: m batch_add_array_lookup entry_or_def Let_def del: fold_simps) (simp add: subject_data_new_def)
  qed
qed


lemma detect_no_blank:
  assumes "hash_order iter" "list_all no_blank ts"
  shows "detect_and_extract_collections iter ts = Some ([], ts)"
proof -
  have "filter (keep_triple used heads) ts = ts" for used heads
    using assms(2) keep_no_blank by (simp add: list_all_iff)
  then show ?thesis
    by (simp add: detect_and_extract_collections_def fold_first_pass_no_blank [OF assms(2)] hash_order_empty [OF assms(1)])
qed

definition name_triple :: triple where
  "name_triple = triple_new (SubjIri nil_iri) (iri_new_unchecked (lit ''urn:p'')) (ObjLiteral (literal_new (lit ''x'')))"

theorem batch_groups_by_subject_witness:
  "\<exists>m d. batch_subjects key_order [name_triple] = Some m \<and> fmlookup m RDF_NIL = Some d \<and>
     sd_properties d = List.map_filter literal_entry [name_triple]"
proof -
  have d: "detect_and_extract_collections key_order [name_triple] = Some ([], [name_triple])"
    by (rule detect_no_blank [OF hash_order_key_order]) (simp add: no_blank_def name_triple_def triple_new_def)
  have m: "batch_subjects key_order [name_triple] = Some (fold batch_add [name_triple] fmempty)"
    using d by (simp add: batch_subjects_def)
  have "of_subject RDF_NIL [name_triple] = [name_triple]"
    by (simp add: of_subject_def name_triple_def triple_new_def)
  with batch_groups_by_subject [OF d m, of RDF_NIL] m show ?thesis
    by (auto split: option.splits)
qed

subsection \<open>The graph builder\<close>

definition resource_key :: "resource_node \<Rightarrow> rstr" where
  "resource_key n = (if rn_is_blank n then lit ''_:'' @ rn_uri n else rn_uri n)"

definition gb_ok :: "graph_builder \<Rightarrow> bool" where
  "gb_ok b \<longleftrightarrow>
     (\<forall>u n. fmlookup (gb_resources b) u = Some n \<longrightarrow> resource_key n = u \<and> distinct (rn_labels n)) \<and>
     (\<forall>(from, to, e, is_lit)\<in>set (gb_edges b). from |\<in>| fmdom (gb_resources b) \<and> to |\<in>| fmdom (gb_resources b) \<and>
        \<not> is_lit \<and> edge_graph e = None)"

definition subject_node :: "subject \<Rightarrow> resource_node" where
  "subject_node s = (case s of SubjIri i \<Rightarrow> resource_from_iri (iri_value i) | SubjBlank bn \<Rightarrow> resource_blank (bn_label bn))"

lemma subject_node_key: "resource_key (subject_node s) = subject_uri s \<and> rn_labels (subject_node s) = []"
  by (cases s) (simp_all add: subject_node_def resource_key_def resource_from_iri_def resource_blank_def blank_id_def)

lemma key_nodes [simp]:
  "resource_key (resource_from_iri u) = u" "resource_key (resource_blank l) = lit ''_:'' @ l"
  "rn_labels (resource_from_iri u) = []" "rn_labels (resource_blank l) = []"
  "resource_key (add_label x n) = resource_key n" "resource_key (add_property k v n) = resource_key n"
  "distinct (rn_labels (add_label x n)) = distinct (rn_labels n)" "rn_labels (add_property k v n) = rn_labels n"
  by (simp_all add: resource_key_def resource_from_iri_def resource_blank_def add_label_def add_property_def)

lemma gb_ensure_ok:
  "gb_ok b \<Longrightarrow> resource_key n = u \<Longrightarrow> rn_labels n = [] \<Longrightarrow> gb_ok (b\<lparr>gb_resources := ensure_resource u n (gb_resources b)\<rparr>)"
  unfolding gb_ok_def ensure_resource_def by (auto split: if_splits)

lemma gb_update_ok:
  assumes "gb_ok b" "\<And>n. resource_key (f n) = resource_key n" "\<And>n. distinct (rn_labels n) \<Longrightarrow> distinct (rn_labels (f n))"
  shows "gb_ok (b\<lparr>gb_resources := update_resource u f (gb_resources b)\<rparr>)"
proof (cases "fmlookup (gb_resources b) u")
  case None
  then show ?thesis using assms(1) by (simp add: update_resource_def)
next
  case (Some n)
  then have "finsert u (fmdom (gb_resources b)) = fmdom (gb_resources b)" by (simp add: finsert_absorb fmdomI)
  with Some assms show ?thesis by (auto simp: update_resource_def gb_ok_def)
qed

lemma ensure_dom: "fmdom (ensure_resource u n m) = finsert u (fmdom m)"
  by (auto simp: ensure_resource_def)

lemma gb_edge_ok:
  "gb_ok b \<Longrightarrow> from |\<in>| fmdom (gb_resources b) \<Longrightarrow> to |\<in>| fmdom (gb_resources b) \<Longrightarrow> gb_ok (gb_add_edge from p to b)"
  by (auto simp: gb_ok_def gb_add_edge_def edge_new_def)

lemma gb_literals_ok: "gb_ok (b\<lparr>gb_literals := ls\<rparr>) = gb_ok b"
  by (simp add: gb_ok_def)

text \<open>The builder after one triple, by the kind of the triple.\<close>

definition gb_touch :: "subject \<Rightarrow> graph_builder \<Rightarrow> graph_builder" where
  "gb_touch s b = b\<lparr>gb_resources := ensure_resource (subject_uri s) (subject_node s) (gb_resources b)\<rparr>"

lemma gb_add_triple_cases:
  "gb_add_triple t b =
     (let b1 = gb_touch (t_subject t) b; u = subject_uri (t_subject t) in
      case t_object t of
        ObjIri i \<Rightarrow>
          (if iri_value (t_predicate t) = RDF_TYPE
           then b1\<lparr>gb_resources := update_resource u (add_label (sanitize_identifier (local_name i))) (gb_resources b1)\<rparr>
           else gb_add_edge u (t_predicate t) (iri_value i)
             (b1\<lparr>gb_resources := ensure_resource (iri_value i) (resource_from_iri (iri_value i)) (gb_resources b1)\<rparr>))
      | ObjBlank bn \<Rightarrow>
          gb_add_edge u (t_predicate t) (blank_id bn)
            (b1\<lparr>gb_resources := ensure_resource (blank_id bn) (resource_blank (bn_label bn)) (gb_resources b1)\<rparr>)
      | ObjLiteral l \<Rightarrow>
          b1\<lparr>gb_resources := update_resource u (add_property (sanitize_identifier (local_name (t_predicate t)))
                (property_value_new (lit_value l) (iri_value (literal_datatype l)) (lit_language l))) (gb_resources b1),
             gb_literals := gb_literals b1 @
                [literal_node_new (lit_value l) (iri_value (literal_datatype l)) (lit_language l)]\<rparr>)"
  by (simp add: gb_add_triple_def gb_touch_def subject_node_def Let_def split: object.split bool.split)

lemma gb_add_triple_ok:
  assumes "gb_ok b"
  shows "gb_ok (gb_add_triple t b)"
proof -
  let ?b1 = "gb_touch (t_subject t) b" and ?u = "subject_uri (t_subject t)"
  have b1: "gb_ok ?b1" unfolding gb_touch_def
    by (rule gb_ensure_ok [OF assms]) (simp_all add: subject_node_key)
  have u: "?u |\<in>| fmdom (gb_resources ?b1)" by (simp add: gb_touch_def ensure_dom)
  have ens: "gb_ok (?b1\<lparr>gb_resources := ensure_resource v n (gb_resources ?b1)\<rparr>)"
    if "resource_key n = v" "rn_labels n = []" for v n
    using gb_ensure_ok [OF b1 that] .
  have upd: "gb_ok (?b1\<lparr>gb_resources := update_resource ?u f (gb_resources ?b1)\<rparr>)"
    if "\<And>n. resource_key (f n) = resource_key n" "\<And>n. distinct (rn_labels n) \<Longrightarrow> distinct (rn_labels (f n))" for f
    using gb_update_ok [OF b1 that] .
  show ?thesis
  proof (cases "t_object t")
    case (ObjIri i)
    then show ?thesis
      by (auto simp: gb_add_triple_cases Let_def ensure_dom u intro!: upd gb_edge_ok ens)
  next
    case (ObjBlank bn)
    then show ?thesis
      by (auto simp: gb_add_triple_cases Let_def ensure_dom u blank_id_def intro!: gb_edge_ok ens)
  next
    case (ObjLiteral l)
    let ?f = "add_property (sanitize_identifier (local_name (t_predicate t)))
      (property_value_new (lit_value l) (iri_value (literal_datatype l)) (lit_language l))"
    have "gb_ok (?b1\<lparr>gb_resources := update_resource ?u ?f (gb_resources ?b1)\<rparr>)" by (rule upd) simp_all
    then have "gb_ok ((?b1\<lparr>gb_resources := update_resource ?u ?f (gb_resources ?b1)\<rparr>)\<lparr>gb_literals := ls\<rparr>)" for ls
      unfolding gb_literals_ok .
    then show ?thesis using ObjLiteral by (simp add: gb_add_triple_cases Let_def)
  qed
qed

fun is_edge_triple :: "triple \<Rightarrow> bool" where
  "is_edge_triple t \<longleftrightarrow> (case t_object t of ObjIri _ \<Rightarrow> iri_value (t_predicate t) \<noteq> RDF_TYPE | ObjBlank _ \<Rightarrow> True
     | ObjLiteral _ \<Rightarrow> False)"

lemma gb_add_triple_counts:
  "length (gb_edges (gb_add_triple t b)) = length (gb_edges b) + (if is_edge_triple t then 1 else 0)"
  "length (gb_literals (gb_add_triple t b)) = length (gb_literals b) + (if object_is_literal (t_object t) then 1 else 0)"
  by (auto simp: gb_add_triple_cases Let_def gb_add_edge_def gb_touch_def split: object.split)

text \<open>A graph built from any triples is well formed: a resource stands under its own identifier and has
  each label once, both ends of every edge are resources of the graph, and there is one edge per
  triple between resources that is not a type and one literal per literal triple.\<close>

theorem graph_builder_correct:
  "gb_ok (fold gb_add_triple ts gb_new) \<and>
   length (gb_edges (fold gb_add_triple ts gb_new)) = length (filter is_edge_triple ts) \<and>
   length (gb_literals (fold gb_add_triple ts gb_new)) = length (filter (\<lambda>t. object_is_literal (t_object t)) ts)"
proof -
  have "gb_ok b \<Longrightarrow> gb_ok (fold gb_add_triple ts b)" for b
    by (induction ts arbitrary: b) (simp_all add: gb_add_triple_ok)
  moreover have "gb_ok gb_new" by (simp add: gb_ok_def gb_new_def)
  moreover have "length (gb_edges (fold gb_add_triple ts b)) = length (gb_edges b) + length (filter is_edge_triple ts)" for b
    by (induction ts arbitrary: b) (simp_all add: gb_add_triple_counts)
  moreover have "length (gb_literals (fold gb_add_triple ts b)) =
      length (gb_literals b) + length (filter (\<lambda>t. object_is_literal (t_object t)) ts)" for b
    by (induction ts arbitrary: b) (simp_all add: gb_add_triple_counts)
  ultimately show ?thesis by (simp add: gb_new_def)
qed

end
