(* ===== verification/Delete.thy ===== *)
theory Delete
  imports CypherSafety
begin

section \<open>Deletion and the mapper (mapper/src/graph/delete.rs, mapper/src/lib.rs)\<close>

text \<open>
  The statements that delete triples by pattern, and the mapper that joins the two
  generators. The \<open>Result\<close>s are always \<open>Ok\<close> in the code and not modelled, but for
  \<open>map_triples\<close>, which may not return (\<open>None\<close>, see \<open>RdfLists\<close>). The lemmas compare what
  deletion matches with what insertion creates.
\<close>

record delete_options =
  cascade_literals :: bool
  cascade_blank_nodes :: bool
  detach :: bool

definition do_new :: delete_options where
  "do_new = \<lparr>cascade_literals = False, cascade_blank_nodes = False, detach = False\<rparr>"

definition do_with_cascade_literals :: "delete_options \<Rightarrow> delete_options" where
  "do_with_cascade_literals x = x\<lparr>cascade_literals := True\<rparr>"

definition do_with_cascade_blank_nodes :: "delete_options \<Rightarrow> delete_options" where
  "do_with_cascade_blank_nodes x = x\<lparr>cascade_blank_nodes := True\<rparr>"

definition do_with_cascade_all :: "delete_options \<Rightarrow> delete_options" where
  "do_with_cascade_all x = x\<lparr>cascade_literals := True, cascade_blank_nodes := True\<rparr>"

definition do_with_detach :: "delete_options \<Rightarrow> delete_options" where
  "do_with_detach x = x\<lparr>detach := True\<rparr>"

record delete_generator =
  dg_options :: delete_options

definition dg_new :: delete_generator where "dg_new = \<lparr>dg_options = do_new\<rparr>"

definition dg_with_options :: "delete_options \<Rightarrow> delete_generator" where
  "dg_with_options x = \<lparr>dg_options = x\<rparr>"

definition dg_set_options :: "delete_options \<Rightarrow> delete_generator \<Rightarrow> delete_generator" where
  "dg_set_options x g = g\<lparr>dg_options := x\<rparr>"

definition blank_match :: "rstr \<Rightarrow> blank_node \<Rightarrow> rstr" where
  "blank_match var b = lit ''('' @ var @ lit '':BlankNode {uri: '' @ [c_squote] @ lit ''_:'' @
     escape_cypher_string (bn_label b) @ [c_squote] @ lit ''})''"

definition iri_match :: "rstr \<Rightarrow> iri \<Rightarrow> rstr" where
  "iri_match var i = lit ''('' @ var @ lit '' {uri: '' @ quoted (iri_value i) @ lit ''})''"

fun subject_match :: "subject option \<Rightarrow> rstr" where
  "subject_match (Some (SubjIri i)) = iri_match (lit ''s'') i"
| "subject_match (Some (SubjBlank b)) = blank_match (lit ''s'') b"
| "subject_match None = lit ''(s)''"

fun edge_match :: "iri option \<Rightarrow> rstr" where
  "edge_match (Some p) = lit ''-[r:'' @ sanitize_identifier (local_name p) @ lit ''{predicate: '' @
     quoted (iri_value p) @ lit ''}]->''"
| "edge_match None = lit ''-[r]->''"

fun object_match :: "object option \<Rightarrow> rstr" where
  "object_match (Some (ObjIri i)) = iri_match (lit ''o'') i"
| "object_match (Some (ObjBlank b)) = blank_match (lit ''o'') b"
| "object_match (Some (ObjLiteral l)) = lit ''(o:Literal {value: '' @ quoted (lit_value l) @ lit ''})''"
| "object_match None = lit ''(o)''"

fun scope_conditions :: "graph_scope \<Rightarrow> rstr list" where
  "scope_conditions ScopeDefault = [lit ''r.graph IS NULL'']"
| "scope_conditions (ScopeNamed g) = [lit ''r.graph = '' @ quoted (graph_uri g)]"
| "scope_conditions ScopeAll = []"

definition build_match_clause :: "triple_pattern \<Rightarrow> graph_scope \<Rightarrow> rstr" where
  "build_match_clause p scope =
     (let conditions = scope_conditions scope;
          pattern_str = subject_match (p_subject p) @ edge_match (p_predicate p) @ object_match (p_object p)
      in if conditions = [] then lit ''MATCH '' @ pattern_str
         else lit ''MATCH '' @ pattern_str @ [c_nl] @ lit ''WHERE '' @ join (lit '' AND '') conditions)"

definition build_delete_clause :: "delete_generator \<Rightarrow> triple_pattern \<Rightarrow> rstr" where
  "build_delete_clause g p =
     (if pattern_is_all_wildcard p \<and> detach (dg_options g) then lit ''DETACH DELETE s, o'' else lit ''DELETE r'')"

definition orphan_literal_cleanup :: rstr where
  "orphan_literal_cleanup = lit ''MATCH (l:Literal) WHERE NOT ()-[]->(l) DELETE l''"

definition orphan_blank_node_cleanup :: rstr where
  "orphan_blank_node_cleanup = lit ''MATCH (b:BlankNode) WHERE NOT ()-[]->(b) AND NOT (b)-[]->() DELETE b''"

definition cleanups :: "delete_options \<Rightarrow> rstr list" where
  "cleanups x = (if cascade_literals x then [orphan_literal_cleanup] else []) @
     (if cascade_blank_nodes x then [orphan_blank_node_cleanup] else [])"

definition generate_delete_pattern :: "delete_generator \<Rightarrow> triple_pattern \<Rightarrow> graph_scope \<Rightarrow> rstr list" where
  "generate_delete_pattern g p scope =
     (let match_clause = build_match_clause p scope;
          delete_clause = build_delete_clause g p
      in [match_clause @ [c_nl] @ delete_clause] @ cleanups (dg_options g))"

definition generate_delete_triple :: "delete_generator \<Rightarrow> triple \<Rightarrow> rstr list" where
  "generate_delete_triple g t = generate_delete_pattern g (pattern_from_triple t) ScopeDefault"

definition generate_delete_quad_pattern :: "delete_generator \<Rightarrow> quad_pattern \<Rightarrow> rstr list" where
  "generate_delete_quad_pattern g p = generate_delete_pattern g (qp_pattern p) (qpattern_graph_scope p)"

definition generate_delete_subject :: "delete_generator \<Rightarrow> subject \<Rightarrow> rstr list" where
  "generate_delete_subject g s = generate_delete_pattern g (pattern_with_subject s) ScopeDefault"

definition generate_delete_predicate :: "delete_generator \<Rightarrow> iri \<Rightarrow> rstr list" where
  "generate_delete_predicate g p = generate_delete_pattern g (pattern_with_predicate p) ScopeDefault"

text \<open>\<open>Vec::dedup\<close> removes consecutive repetitions: \<open>remdups_adj\<close>.\<close>

definition generate_batch_delete :: "delete_generator \<Rightarrow> triple_pattern list \<Rightarrow> graph_scope \<Rightarrow> rstr list" where
  "generate_batch_delete g ps scope =
     (let all_statements = concat (map (\<lambda>p. generate_delete_pattern g p scope) ps)
      in if cascade_literals (dg_options g) \<or> cascade_blank_nodes (dg_options g)
         then remdups_adj all_statements else all_statements)"

subsection \<open>The mapper\<close>

record mapper =
  cypher_gen :: cypher_generator
  delete_gen :: delete_generator

definition mapper_new :: mapper where
  "mapper_new = \<lparr>cypher_gen = cg_new, delete_gen = dg_new\<rparr>"

definition mapper_with_delete_options :: "delete_options \<Rightarrow> mapper" where
  "mapper_with_delete_options x = \<lparr>cypher_gen = cg_new, delete_gen = dg_with_options x\<rparr>"

definition map_triple :: "mapper \<Rightarrow> triple \<Rightarrow> rstr list" where
  "map_triple m t = generate_triple (cypher_gen m) t"

definition map_quad :: "mapper \<Rightarrow> quad \<Rightarrow> rstr list" where
  "map_quad m q = generate_quad (cypher_gen m) q"

definition map_triples ::
  "(head_map \<Rightarrow> (rstr \<times> rstr \<times> rstr) list) \<Rightarrow> (subject_map \<Rightarrow> (rstr \<times> subject_data) list) \<Rightarrow>
   mapper \<Rightarrow> triple list \<Rightarrow> rstr list option" where
  "map_triples iter so m ts = generate_batch iter so (cypher_gen m) ts"

definition delete_triple :: "mapper \<Rightarrow> triple \<Rightarrow> rstr list" where
  "delete_triple m t = generate_delete_triple (delete_gen m) t"

definition delete_pattern :: "mapper \<Rightarrow> triple_pattern \<Rightarrow> graph_scope \<Rightarrow> rstr list" where
  "delete_pattern m p scope = generate_delete_pattern (delete_gen m) p scope"

definition delete_quad_pattern :: "mapper \<Rightarrow> quad_pattern \<Rightarrow> rstr list" where
  "delete_quad_pattern m p = generate_delete_quad_pattern (delete_gen m) p"

definition delete_patterns :: "mapper \<Rightarrow> triple_pattern list \<Rightarrow> graph_scope \<Rightarrow> rstr list" where
  "delete_patterns m ps scope = generate_batch_delete (delete_gen m) ps scope"

subsection \<open>Safety\<close>

lemma safe_delete_lits [safe]:
  "safe_code (lit '':BlankNode {uri: '')" "safe_code (lit ''(s)'')" "safe_code (lit ''-[r:'')"
  "safe_code (lit ''}]->'')" "safe_code (lit ''-[r]->'')" "safe_code (lit ''(o:Literal {value: '')"
  "safe_code (lit ''(o)'')" "safe_code (lit ''r.graph IS NULL'')" "safe_code (lit ''r.graph = '')"
  "safe_code (lit ''MATCH '')" "safe_code (lit ''WHERE '')" "safe_code (lit '' AND '')"
  "safe_code (lit ''DETACH DELETE s, o'')" "safe_code (lit ''DELETE r'')"
  "safe_code orphan_literal_cleanup" "safe_code orphan_blank_node_cleanup"
  by (rule safe_plain; simp add: lit_def code_char_def num_char_def char_class_defs orphan_literal_cleanup_def
      orphan_blank_node_cleanup_def)+

lemma blank_match_quoted:
  "blank_match var b = lit ''('' @ var @ lit '':BlankNode {uri: '' @ quoted (blank_id b) @ lit ''})''"
proof -
  have "escape_cypher_string (lit ''_:'') = lit ''_:''"
    by (simp add: lit_def escape_char.simps is_control_def)
  then show ?thesis by (simp add: blank_match_def quoted_def blank_id_def)
qed

lemma safe_subject_match [safe]: "safe_code (subject_match s)"
  by (cases s rule: subject_match.cases) (simp_all add: blank_match_quoted iri_match_def safe)

lemma safe_edge_match [safe]: "safe_code (edge_match p)"
  by (cases p) (simp_all add: safe)

lemma safe_object_match [safe]: "safe_code (object_match x)"
  by (cases x rule: object_match.cases) (simp_all add: blank_match_quoted iri_match_def safe)

lemma safe_conditions [safe]: "list_all safe_code (scope_conditions scope)"
  by (cases scope) (simp_all add: safe)

lemma safe_Cons_nl [safe]: "safe_code s \<Longrightarrow> safe_code (c_nl # s)"
  using safe_append [of "[c_nl]" s] by (simp add: safe)

text \<open>Deletion statements, like insertions, never let RDF text out of its quotes.\<close>

theorem delete_injection_safe:
  "list_all safe_code (generate_delete_pattern g p scope)"
  by (simp add: generate_delete_pattern_def build_match_clause_def build_delete_clause_def cleanups_def Let_def safe)

subsection \<open>Insertion and deletion compared\<close>

definition edge_key :: "iri \<Rightarrow> rstr" where
  "edge_key p = sanitize_identifier (local_name p) @ lit ''{predicate: '' @ quoted (iri_value p) @ lit ''}]->''"

definition node_key :: "rstr \<Rightarrow> rstr" where
  "node_key u = lit '' {uri: '' @ quoted u @ lit ''})''"

fun object_uri :: "object \<Rightarrow> rstr" where
  "object_uri (ObjIri i) = iri_value i"
| "object_uri (ObjBlank b) = blank_id b"
| "object_uri (ObjLiteral l) = lit_value l"

definition blank_label :: "bool \<Rightarrow> rstr" where
  "blank_label b = (if b then lit '':BlankNode'' else [])"

lemma subject_match_key:
  "subject_match (Some s) = lit ''(s'' @ blank_label (subject_is_blank_node s) @ node_key (subject_uri s)"
  by (cases s) (simp_all add: blank_match_quoted iri_match_def node_key_def blank_label_def lit_append [symmetric]
      flip: append_assoc)

lemma object_match_key:
  "\<not> object_is_literal x \<Longrightarrow>
   object_match (Some x) = lit ''(o'' @ blank_label (object_is_blank_node x) @ node_key (object_uri x)"
  by (cases x) (simp_all add: blank_match_quoted iri_match_def node_key_def blank_label_def lit_append [symmetric]
      flip: append_assoc)

lemma node_pattern_key: "node_pattern var b u = lit ''('' @ var @ lit '':'' @ node_label b @ node_key u"
  by (simp add: node_pattern_def node_key_def)

lemma edge_key_insert:
  "generate_edge g a b (iri_value p) (local_name p) =
     operation g @ lit '' ('' @ a @ lit '')-[:'' @ edge_key p @ lit ''('' @ b @ lit '')''"
proof -
  have "lit ''}]->('' = lit ''}]->'' @ lit ''(''" by (simp add: lit_def)
  then show ?thesis by (simp add: generate_edge_def edge_key_def)
qed

text \<open>C35: For a triple whose object is no literal, and which is no \<open>rdf:type\<close> of an IRI, deletion matches the
  relationship that insertion creates, no more and in no other direction: insertion writes the node \<open>s\<close> of the subject and
  the node \<open>o\<close> of the object with their identifiers, labels and blank marks and a relationship from \<open>s\<close> to
  \<open>o\<close> with its type and predicate and without a graph; deletion matches from a node \<open>s\<close> with the subject's identifier
  to a node \<open>o\<close> with the object's, each with the label of blank nodes if and only if it is one, a relationship with the
  same type and predicate and without a graph, and deletes it.\<close>

theorem delete_matches_insert:
  assumes "\<not> object_is_literal (t_object t)" "iri_value (t_predicate t) \<noteq> RDF_TYPE \<or> object_is_blank_node (t_object t)"
  shows "generate_triple g t =
      [operation g @ lit '' (s:'' @ (if subject_is_blank_node (t_subject t) then lit ''BlankNode'' else lit ''Resource'') @
         node_key (subject_uri (t_subject t)) @ lit '' SET s.isBlank = '' @ show_bool (subject_is_blank_node (t_subject t)) @ [c_nl] @
       operation g @ lit '' (o:'' @ (if object_is_blank_node (t_object t) then lit ''BlankNode'' else lit ''Resource'') @
         node_key (object_uri (t_object t)) @ lit '' SET o.isBlank = '' @ show_bool (object_is_blank_node (t_object t)) @ [c_nl] @
       operation g @ lit '' (s)-[:'' @ edge_key (t_predicate t) @ lit ''(o)''] \<and>
    hd (generate_delete_triple d t) =
      lit ''MATCH (s'' @ (if subject_is_blank_node (t_subject t) then lit '':BlankNode'' else []) @
      node_key (subject_uri (t_subject t)) @
      lit ''-[r:'' @ edge_key (t_predicate t) @
      lit ''(o'' @ (if object_is_blank_node (t_object t) then lit '':BlankNode'' else []) @ node_key (object_uri (t_object t)) @
      [c_nl] @ lit ''WHERE r.graph IS NULL'' @ [c_nl] @ lit ''DELETE r''"
proof
  let ?s = "t_subject t" and ?p = "t_predicate t" and ?x = "t_object t"
  have "\<not> pattern_is_all_wildcard (pattern_from_triple t)"
    by (simp add: pattern_is_all_wildcard_def pattern_from_triple_def)
  then have "hd (generate_delete_triple d t) =
      lit ''MATCH '' @ (lit ''(s'' @ blank_label (subject_is_blank_node ?s) @ node_key (subject_uri ?s)) @
      (lit ''-[r:'' @ edge_key ?p) @
      (lit ''(o'' @ blank_label (object_is_blank_node ?x) @ node_key (object_uri ?x)) @
      [c_nl] @ (lit ''WHERE '' @ lit ''r.graph IS NULL'') @ [c_nl] @ lit ''DELETE r''"
    using subject_match_key [of ?s] object_match_key [OF assms(1)]
    by (simp add: generate_delete_triple_def generate_delete_pattern_def build_match_clause_def
        build_delete_clause_def pattern_from_triple_def edge_key_def)
  moreover have "lit ''MATCH '' @ lit ''(s'' = lit ''MATCH (s''" "lit ''WHERE '' @ lit ''r.graph IS NULL'' = lit ''WHERE r.graph IS NULL''"
    by (simp_all add: lit_def)
  ultimately show "hd (generate_delete_triple d t) =
      lit ''MATCH (s'' @ (if subject_is_blank_node ?s then lit '':BlankNode'' else []) @ node_key (subject_uri ?s) @
      lit ''-[r:'' @ edge_key ?p @
      lit ''(o'' @ (if object_is_blank_node ?x then lit '':BlankNode'' else []) @ node_key (object_uri ?x) @
      [c_nl] @ lit ''WHERE r.graph IS NULL'' @ [c_nl] @ lit ''DELETE r''"
    unfolding blank_label_def by (metis append_assoc)
  have ins: "generate_triple g t = [generate_resource_node g (lit ''s'') (subject_uri ?s) ?s @ [c_nl] @
      (if object_is_blank_node ?x then generate_blank_node g (lit ''o'') (object_uri ?x)
       else generate_resource_node_from_iri g (lit ''o'') (object_uri ?x)) @ [c_nl] @
      generate_edge g (lit ''s'') (lit ''o'') (iri_value ?p) (local_name ?p)]"
    using assms by (cases ?x) (auto simp: generate_triple_def Let_def split: bool.split)
  have e: "lit '' (s)-[:'' = lit '' ('' @ lit ''s'' @ lit '')-[:''" "lit ''(o)'' = lit ''('' @ lit ''o'' @ lit '')''"
    by (simp_all add: lit_def)
  have n: "lit '' (s:'' = lit '' '' @ lit ''('' @ lit ''s'' @ lit '':''" "lit '' (o:'' = lit '' '' @ lit ''('' @ lit ''o'' @ lit '':''"
    "lit '' SET s.isBlank = '' = lit '' SET '' @ lit ''s'' @ lit ''.isBlank = ''"
    "lit '' SET o.isBlank = '' = lit '' SET '' @ lit ''o'' @ lit ''.isBlank = ''"
    "lit ''.isBlank = true'' = lit ''.isBlank = '' @ lit ''true''" "lit ''.isBlank = false'' = lit ''.isBlank = '' @ lit ''false''"
    by (simp_all add: lit_def)
  show "generate_triple g t =
      [operation g @ lit '' (s:'' @ (if subject_is_blank_node ?s then lit ''BlankNode'' else lit ''Resource'') @
         node_key (subject_uri ?s) @ lit '' SET s.isBlank = '' @ show_bool (subject_is_blank_node ?s) @ [c_nl] @
       operation g @ lit '' (o:'' @ (if object_is_blank_node ?x then lit ''BlankNode'' else lit ''Resource'') @
         node_key (object_uri ?x) @ lit '' SET o.isBlank = '' @ show_bool (object_is_blank_node ?x) @ [c_nl] @
       operation g @ lit '' (s)-[:'' @ edge_key ?p @ lit ''(o)'']"
    unfolding ins edge_key_insert generate_resource_node_def generate_resource_node_from_iri_def generate_blank_node_def
      node_pattern_key node_label_def n e
    by (simp add: show_bool_def)
qed

text \<open>A blank node that knows an IRI.\<close>

theorem delete_matches_insert_witness:
  "hd (generate_delete_triple dg_new (triple_new (SubjBlank (bn_new (lit ''b''))) (iri_new_unchecked (lit ''urn:p'')) (ObjIri first_iri))) =
     lit ''MATCH (s:BlankNode'' @ node_key (lit ''_:b'') @ lit ''-[r:'' @ edge_key (iri_new_unchecked (lit ''urn:p'')) @
     lit ''(o'' @ node_key RDF_FIRST @ [c_nl] @ lit ''WHERE r.graph IS NULL'' @ [c_nl] @ lit ''DELETE r''"
proof -
  let ?t = "triple_new (SubjBlank (bn_new (lit ''b''))) (iri_new_unchecked (lit ''urn:p'')) (ObjIri first_iri)"
  have "\<not> object_is_literal (t_object ?t)" "iri_value (t_predicate ?t) \<noteq> RDF_TYPE \<or> object_is_blank_node (t_object ?t)"
    by (simp_all add: triple_new_def)
  from delete_matches_insert [OF this, of cg_new dg_new] show ?thesis
    by (simp add: triple_new_def blank_id_def bn_new_def lit_append [symmetric] flip: append_assoc)
qed

text \<open>The characters of a statement outside its strings.\<close>

definition code_of :: "rstr \<Rightarrow> rchar set" where
  "code_of s = set (fst (scan Code s))"

lemma code_of_append: "safe_code a \<Longrightarrow> code_of (a @ b) = code_of a \<union> code_of b"
  by (auto simp: code_of_def safe_code_def scan_append Let_def split: prod.splits)

lemma code_of_lit: "c_squote \<notin> set a \<Longrightarrow> c_dquote \<notin> set a \<Longrightarrow> code_of a = set a"
  by (simp add: code_of_def scan_plain)

lemma code_of_quoted: "code_of (quoted s) = {c_squote}"
  by (simp add: code_of_def scan_quoted)

lemma code_of_Cons_nl: "code_of (c_nl # s) = insert c_nl (code_of s)"
  using code_of_append [of "[c_nl]" s] code_of_lit [of "[c_nl]"] by (simp add: safe)

lemma no_bracket_identifier: "is_identifier s \<Longrightarrow> c_lbracket \<notin> set s \<and> c_squote \<notin> set s \<and> c_dquote \<notin> set s"
  by (auto simp: is_identifier_def list_all_iff identifier_char_def char_class_defs)

lemma no_bracket_num: "list_all num_char s \<Longrightarrow> c_lbracket \<notin> set s \<and> c_squote \<notin> set s \<and> c_dquote \<notin> set s"
  by (auto simp: list_all_iff num_char_def char_class_defs)

lemma no_bracket_sanitize [simp]: "c_lbracket \<notin> code_of (sanitize_identifier s)"
  using no_bracket_identifier [OF sanitize_is_identifier] by (simp add: code_of_lit)

lemma no_bracket_value [simp]: "c_lbracket \<notin> code_of (value_repr l)"
proof -
  have "c_lbracket \<notin> code_of (lit_value l)" if "numeric_or_bool l"
    using no_bracket_num [OF numeric_num [OF that]] by (simp add: code_of_lit)
  moreover have "c_lbracket \<notin> code_of (lit ''date('' @ quoted v @ lit '')'')" for v
    by (simp add: code_of_append safe code_of_quoted) (simp add: code_of_lit lit_def)
  ultimately show ?thesis by (auto simp: value_repr_def code_of_quoted)
qed

lemma no_bracket_lits [simp]:
  "c_lbracket \<notin> code_of (operation g)" "c_lbracket \<notin> code_of (show_bool b)" "c_lbracket \<notin> code_of (node_label b)"
  "c_lbracket \<notin> code_of (lit ''('')" "c_lbracket \<notin> code_of (lit '':'')" "c_lbracket \<notin> code_of (lit '' {uri: '')"
  "c_lbracket \<notin> code_of (lit ''})'')" "c_lbracket \<notin> code_of (lit '' '')" "c_lbracket \<notin> code_of (lit '' SET '')"
  "c_lbracket \<notin> code_of (lit ''.isBlank = '')" "c_lbracket \<notin> code_of (lit ''SET '')" "c_lbracket \<notin> code_of (lit ''.'')"
  "c_lbracket \<notin> code_of (lit '' = '')" "c_lbracket \<notin> code_of (lit ''n'')" "c_lbracket \<notin> code_of (lit ''s'')"
  "c_lbracket \<notin> code_of (lit '' SET n:'')" "c_lbracket \<notin> code_of (lit '', n.isBlank = '')"
  by (simp_all add: code_of_lit lit_def operation_def show_bool_def node_label_def)

lemma no_bracket_node [simp]: "safe_code var \<Longrightarrow> c_lbracket \<notin> code_of var \<Longrightarrow> c_lbracket \<notin> code_of (node_pattern var b u)"
  by (simp add: node_pattern_def code_of_append safe code_of_quoted)

lemma delete_has_edge: "c_lbracket \<in> code_of (hd (generate_delete_pattern d p scope))"
proof -
  have "c_lbracket \<in> code_of (edge_match x)" for x
  proof (cases x)
    case None
    then show ?thesis by (simp add: code_of_lit lit_def)
  next
    case (Some i)
    have "c_lbracket \<in> code_of (lit ''-[r:'')" by (simp add: code_of_lit lit_def)
    with Some show ?thesis by (simp add: code_of_append safe)
  qed
  then show ?thesis
    by (simp add: generate_delete_pattern_def build_match_clause_def Let_def code_of_append safe)
qed

text \<open>Literal values and types are inserted without a relationship, but every deletion deletes a relationship: the
  statement inserted for such a triple has no relationship pattern at all, the one that should delete it
  matches one.\<close>

theorem literals_and_types_not_deleted:
  assumes "object_is_literal (t_object t) \<or> (object_is_iri (t_object t) \<and> iri_value (t_predicate t) = RDF_TYPE)"
  shows "(\<exists>ins. generate_triple g t = [ins] \<and> c_lbracket \<notin> code_of ins) \<and>
    c_lbracket \<in> code_of (hd (generate_delete_triple d t))"
proof -
  have "\<exists>ins. generate_triple g t = [ins] \<and> c_lbracket \<notin> code_of ins"
  proof (cases "t_object t")
    case (ObjIri i)
    with assms show ?thesis
      by (simp add: generate_triple_def Let_def generate_type_statement_def code_of_append safe)
  next
    case (ObjLiteral l)
    then have "generate_triple g t = [generate_resource_node g (lit ''s'') (subject_uri (t_subject t)) (t_subject t) @
        c_nl # generate_literal_edge g (lit ''s'') (t_predicate t) l]"
      by (cases "iri_value (t_predicate t) = RDF_TYPE") (simp_all add: generate_triple_def Let_def)
    then show ?thesis
      by (simp add: generate_resource_node_def generate_literal_edge_def code_of_append code_of_Cons_nl safe)
  qed (use assms in simp)
  then show ?thesis by (simp add: generate_delete_triple_def delete_has_edge)
qed

theorem literals_and_types_not_deleted_witness:
  "c_lbracket \<in> code_of (hd (generate_delete_triple dg_new
     (triple_new (SubjIri nil_iri) first_iri (ObjLiteral (literal_new (lit ''x''))))))"
  using literals_and_types_not_deleted [of "triple_new (SubjIri nil_iri) first_iri (ObjLiteral (literal_new (lit ''x'')))"
      cg_new dg_new] by (simp add: triple_new_def)

text \<open>The graph of a quad reaches the database only as a comment: the statement after it is the one of the default
  graph. Deletion from a named graph, however, requires the relationship to carry that graph.\<close>

theorem named_graph_only_comment:
  "generate_quad g (quad_in_named_graph t n) =
     map (\<lambda>s. (lit ''// Graph: '' @ graph_uri n) @ [c_nl] @ s) (generate_quad g (quad_in_default_graph t)) \<and>
   (\<exists>before. hd (generate_delete_quad_pattern d (qpattern_in_graph (pattern_from_triple t) n)) =
     before @ lit ''WHERE r.graph = '' @ quoted (graph_uri n) @ [c_nl] @ lit ''DELETE r'')"
proof -
  have w: "lit ''WHERE r.graph = '' = lit ''WHERE '' @ lit ''r.graph = ''" by (simp add: lit_def)
  have "\<not> pattern_is_all_wildcard (pattern_from_triple t)"
    by (simp add: pattern_is_all_wildcard_def pattern_from_triple_def)
  then have "hd (generate_delete_quad_pattern d (qpattern_in_graph (pattern_from_triple t) n)) =
      (lit ''MATCH '' @ subject_match (Some (t_subject t)) @ edge_match (Some (t_predicate t)) @
       object_match (Some (t_object t)) @ [c_nl]) @ lit ''WHERE r.graph = '' @ quoted (graph_uri n) @ [c_nl] @ lit ''DELETE r''"
    unfolding w by (simp add: generate_delete_quad_pattern_def generate_delete_pattern_def build_match_clause_def Let_def
        build_delete_clause_def qpattern_in_graph_def qpattern_graph_scope_def pattern_from_triple_def)
  then show ?thesis
    by (auto simp: generate_quad_def quad_in_named_graph_def quad_in_default_graph_def)
qed

text \<open>In a batch the clean-up statements are repeated for every pattern: only consecutive repetitions are removed, and
  a deletion stands between any two of them.\<close>

theorem batch_cleanup_repeated:
  assumes "dg_options g = do_with_cascade_literals do_new" "scope = ScopeDefault"
  shows "length (filter (\<lambda>s. s = orphan_literal_cleanup) (generate_batch_delete g ps scope)) = length ps"
proof -
  let ?del = "\<lambda>p. build_match_clause p scope @ [c_nl] @ build_delete_clause g p"
  have ne: "?del p \<noteq> orphan_literal_cleanup" for p
  proof -
    have "\<exists>r. subject_match (p_subject p) = [c_lparen, 115] @ r"
      by (cases "p_subject p" rule: subject_match.cases) (simp_all add: iri_match_def blank_match_def lit_def)
    then show ?thesis
      by (auto simp: build_match_clause_def Let_def assms(2) orphan_literal_cleanup_def lit_def)
  qed
  have stmts: "generate_batch_delete g ps scope = remdups_adj (concat (map (\<lambda>p. [?del p, orphan_literal_cleanup]) ps))"
    by (simp add: generate_batch_delete_def generate_delete_pattern_def cleanups_def assms(1)
        do_with_cascade_literals_def do_new_def Let_def)
  have adj: "remdups_adj (concat (map (\<lambda>p. [?del p, orphan_literal_cleanup]) ps)) =
      concat (map (\<lambda>p. [?del p, orphan_literal_cleanup]) ps)"
  proof (induction ps)
    case (Cons p ps)
    then show ?case using ne by (cases ps) (simp_all add: remdups_adj.simps eq_commute)
  qed simp
  have "length (filter (\<lambda>s. s = orphan_literal_cleanup) (concat (map (\<lambda>p. [?del p, orphan_literal_cleanup]) ps))) = length ps"
    using ne by (induction ps) auto
  then show ?thesis by (simp only: stmts adj)
qed

theorem batch_cleanup_repeated_witness:
  "length (filter (\<lambda>s. s = orphan_literal_cleanup)
     (generate_batch_delete (dg_with_options (do_with_cascade_literals do_new)) [pattern_new, pattern_new] ScopeDefault)) = 2"
  using batch_cleanup_repeated [of "dg_with_options (do_with_cascade_literals do_new)" ScopeDefault "[pattern_new, pattern_new]"]
  by (simp add: dg_with_options_def)

end
