(* ===== verification/TurtleLexer.thy ===== *)
theory TurtleLexer
  imports Triple
begin

section \<open>Turtle lexer (parser/src/formats/turtle/lexer.rs)\<close>

text \<open>
  The lexer is the pair of its position (line and column) and the remaining input; the flag
  \<open>eof\<close>, which the code sets and never reads, is left out, and so is the state after an
  error. What depends on the Unicode tables and on floats is a record of the library
  functions used: \<open>is_alphabetic\<close>, \<open>is_alphanumeric\<close>, \<open>to_lowercase\<close> and the parsing
  and printing of \<open>f64\<close>; \<open>std_ok\<close> states what is documented of them on ASCII.
\<close>

record 'f rust_std =
  u_alphabetic :: "rchar \<Rightarrow> bool"
  u_alphanumeric :: "rchar \<Rightarrow> bool"
  to_lowercase :: "rstr \<Rightarrow> rstr"
  parse_f64 :: "rstr \<Rightarrow> 'f option"
  show_f64 :: "'f \<Rightarrow> rstr"

definition std_ok :: "'f rust_std \<Rightarrow> bool" where
  "std_ok S \<longleftrightarrow>
     (\<forall>c<128. u_alphabetic S c = is_ascii_alphabetic c) \<and>
     (\<forall>c<128. u_alphanumeric S c = is_ascii_alphanumeric c) \<and>
     (\<forall>c. u_alphabetic S c \<longrightarrow> u_alphanumeric S c) \<and>
     (\<forall>c. is_whitespace c \<or> is_control c \<longrightarrow> \<not> u_alphanumeric S c) \<and>
     (\<forall>s. list_all (\<lambda>c. c < 128) s \<longrightarrow> to_lowercase S s = map ascii_lower s) \<and>
     (\<forall>s. parse_f64 S s \<noteq> None \<longleftrightarrow> parses_f64 s)"

definition ascii_std :: "rstr rust_std" where
  "ascii_std = \<lparr>u_alphabetic = is_ascii_alphabetic, u_alphanumeric = is_ascii_alphanumeric,
     to_lowercase = map ascii_lower, parse_f64 = (\<lambda>s. if parses_f64 s then Some s else None),
     show_f64 = (\<lambda>s. s)\<rparr>"

lemma ascii_std_ok: "std_ok ascii_std"
  by (auto simp: std_ok_def ascii_std_def char_class_defs)

subsection \<open>Tokens\<close>

datatype 'f token_kind =
    IriRef rstr
  | PrefixedName rstr rstr
  | BlankNodeLabel rstr
  | StringLiteral rstr
  | LangTag rstr
  | IntegerTok int
  | DecimalTok 'f
  | DoubleTok 'f
  | BooleanTok bool
  | PrefixKeyword | BaseKeyword | SparqlPrefix | SparqlBase
  | KwA | Dot | Semicolon | Comma | OpenBracket | CloseBracket | OpenParen | CloseParen
  | DoubleCaret | Eof

record 'f token =
  tk_kind :: "'f token_kind"
  tk_line :: nat
  tk_column :: nat

type_synonym lex_pos = "nat \<times> nat"
type_synonym lexer = "lex_pos \<times> rstr"
type_synonym 'a lex_result = "parser_error + ('a \<times> lexer)"

definition lexer_new :: "rstr \<Rightarrow> lexer" where
  "lexer_new input = ((1, 1), input)"

fun peek :: "lexer \<Rightarrow> rchar option" where
  "peek (p, []) = None"
| "peek (p, c # cs) = Some c"

definition adv_pos :: "rchar \<Rightarrow> lex_pos \<Rightarrow> lex_pos" where
  "adv_pos c p = (if c = c_nl then (fst p + 1, 1) else (fst p, snd p + 1))"

text \<open>The lexer state after \<open>advance\<close>.\<close>

fun advance :: "lexer \<Rightarrow> lexer" where
  "advance (p, []) = (p, [])"
| "advance (p, c # cs) = (adv_pos c p, cs)"

subsection \<open>Character classes of names\<close>

definition is_pn_chars_base :: "'f rust_std \<Rightarrow> rchar \<Rightarrow> bool" where
  "is_pn_chars_base S c = u_alphabetic S c"

definition is_pn_chars_u :: "'f rust_std \<Rightarrow> rchar \<Rightarrow> bool" where
  "is_pn_chars_u S c \<longleftrightarrow> is_pn_chars_base S c \<or> c = c_underscore"

definition is_pn_chars :: "'f rust_std \<Rightarrow> rchar \<Rightarrow> bool" where
  "is_pn_chars S c \<longleftrightarrow> is_pn_chars_u S c \<or> c = c_minus \<or> is_ascii_digit c \<or> c = 183"

definition is_pn_char_or_colon :: "'f rust_std \<Rightarrow> rchar option \<Rightarrow> bool" where
  "is_pn_char_or_colon S c \<longleftrightarrow> (case c of Some c \<Rightarrow> is_pn_chars S c \<or> c = c_colon | None \<Rightarrow> False)"

subsection \<open>Scanning functions\<close>

text \<open>\<open>skip_whitespace_and_comments\<close>; the flag says whether a comment is being skipped.\<close>

fun skip_ws :: "bool \<Rightarrow> lexer \<Rightarrow> lexer" where
  "skip_ws b (p, []) = (p, [])"
| "skip_ws True (p, c # cs) = skip_ws (c \<noteq> c_nl) (adv_pos c p, cs)"
| "skip_ws False (p, c # cs) =
     (if is_whitespace c then skip_ws False (adv_pos c p, cs)
      else if c = c_hash then skip_ws True (adv_pos c p, cs)
      else (p, c # cs))"

definition unescape :: "rchar \<Rightarrow> rchar" where
  "unescape c = (if c = 110 then c_nl else if c = 114 then c_cr else if c = 116 then c_tab else c)"

fun iri_loop :: "lexer \<Rightarrow> rstr \<Rightarrow> rstr lex_result" where
  "iri_loop (p, []) iri = Inl (ParseError UnterminatedIri)"
| "iri_loop (p, c # cs) iri =
     (if c = c_gt then Inr (iri, (adv_pos c p, cs))
      else if c = c_bslash then
        (case cs of [] \<Rightarrow> Inl (ParseError UnterminatedIri)
         | d # ds \<Rightarrow> iri_loop (adv_pos d (adv_pos c p), ds) (iri @ [unescape d]))
      else if c = c_lt \<or> (is_whitespace c \<and> c \<noteq> c_space) then Inl (ParseError (InvalidCharInIriRef c))
      else iri_loop (adv_pos c p, cs) (iri @ [c]))"

definition read_iri_ref :: "lexer \<Rightarrow> 'f token_kind lex_result" where
  "read_iri_ref lx = (case iri_loop (advance lx) [] of Inl e \<Rightarrow> Inl e | Inr (iri, lx') \<Rightarrow> Inr (IriRef iri, lx'))"

fun string_loop :: "rchar \<Rightarrow> bool \<Rightarrow> lexer \<Rightarrow> rstr \<Rightarrow> rstr lex_result" where
  "string_loop q is_long (p, []) v = Inl (ParseError UnterminatedString)"
| "string_loop q is_long (p, c # cs) v =
     (if c = q then
        (if is_long then
           (case cs of
              d # ds \<Rightarrow>
                (if d = q then
                   (case ds of
                      e # es \<Rightarrow>
                        (if e = q then Inr (v, (adv_pos e (adv_pos d (adv_pos c p)), es))
                         else string_loop q is_long (adv_pos d (adv_pos c p), ds) (v @ [q, q]))
                    | [] \<Rightarrow> string_loop q is_long (adv_pos d (adv_pos c p), ds) (v @ [q, q]))
                 else string_loop q is_long (adv_pos c p, cs) (v @ [q]))
            | [] \<Rightarrow> string_loop q is_long (adv_pos c p, cs) (v @ [q]))
         else Inr (v, (adv_pos c p, cs)))
      else if c = c_bslash then
        (case cs of [] \<Rightarrow> Inl (ParseError UnterminatedString)
         | d # ds \<Rightarrow> string_loop q is_long (adv_pos d (adv_pos c p), ds) (v @ [unescape d]))
      else if (c = c_nl \<or> c = c_cr) \<and> \<not> is_long then Inl (ParseError NewlineInString)
      else string_loop q is_long (adv_pos c p, cs) (v @ [c]))"

definition read_string_literal :: "rchar \<Rightarrow> lexer \<Rightarrow> 'f token_kind lex_result" where
  "read_string_literal q lx =
     (let lx1 = advance lx;
          tok = (\<lambda>r. case r of Inl e \<Rightarrow> Inl e | Inr (v, lx') \<Rightarrow> Inr (StringLiteral v, lx'))
      in if peek lx1 = Some q then
           (let lx2 = advance lx1
            in if peek lx2 = Some q then tok (string_loop q True (advance lx2) [])
               else Inr (StringLiteral [], lx2))
         else tok (string_loop q False lx1 []))"

fun word_loop :: "(rchar \<Rightarrow> bool) \<Rightarrow> lexer \<Rightarrow> rstr \<Rightarrow> rstr \<times> lexer" where
  "word_loop ok (p, []) w = (w, (p, []))"
| "word_loop ok (p, c # cs) w = (if ok c then word_loop ok (adv_pos c p, cs) (w @ [c]) else (w, (p, c # cs)))"

definition read_word :: "'f rust_std \<Rightarrow> lexer \<Rightarrow> rstr \<times> lexer" where
  "read_word S lx = word_loop (\<lambda>c. u_alphanumeric S c \<or> c = c_underscore \<or> c = c_minus) lx []"

definition read_digits :: "lexer \<Rightarrow> rstr \<times> lexer" where
  "read_digits lx = word_loop is_ascii_digit lx []"

definition read_at_keyword :: "'f rust_std \<Rightarrow> lexer \<Rightarrow> 'f token_kind lex_result" where
  "read_at_keyword S lx =
     (let (word, lx') = read_word S (advance lx)
      in if to_lowercase S word = lit ''prefix'' then Inr (PrefixKeyword, lx')
         else if to_lowercase S word = lit ''base'' then Inr (BaseKeyword, lx')
         else Inr (LangTag word, lx'))"

text \<open>The loop of blank node labels and local names: a dot is kept only before a character of
  the class \<open>cont\<close>; otherwise it is consumed and dropped.\<close>

fun dotted_loop :: "(rchar \<Rightarrow> bool) \<Rightarrow> (rchar \<Rightarrow> bool) \<Rightarrow> lexer \<Rightarrow> rstr \<Rightarrow> rstr \<times> lexer" where
  "dotted_loop ok cont (p, []) w = (w, (p, []))"
| "dotted_loop ok cont (p, c # cs) w =
     (if c = c_dot then
        (case cs of
           d # ds \<Rightarrow> if cont d then dotted_loop ok cont (adv_pos c p, cs) (w @ [c]) else (w, (adv_pos c p, cs))
         | [] \<Rightarrow> (w, (adv_pos c p, cs)))
      else if ok c then dotted_loop ok cont (adv_pos c p, cs) (w @ [c])
      else (w, (p, c # cs)))"

definition read_blank_node_label :: "'f rust_std \<Rightarrow> lexer \<Rightarrow> 'f token_kind lex_result" where
  "read_blank_node_label S lx =
     (let lx1 = advance lx; loop = dotted_loop (is_pn_chars S) (is_pn_chars S)
      in if peek lx1 \<noteq> Some c_colon then Inl (ParseError ExpectedBlankColon)
         else (let lx2 = advance lx1
               in case peek lx2 of
                    None \<Rightarrow> Inr (BlankNodeLabel [], lx2)
                  | Some c \<Rightarrow>
                      (if is_pn_chars_u S c \<or> is_ascii_digit c
                       then (let (w, lx3) = loop (advance lx2) [c] in Inr (BlankNodeLabel w, lx3))
                       else Inl (ParseError (InvalidBlankFirst c)))))"

definition read_double_caret :: "lexer \<Rightarrow> 'f token_kind lex_result" where
  "read_double_caret lx =
     (let lx1 = advance lx
      in if peek lx1 \<noteq> Some c_caret then Inl (ParseError ExpectedDoubleCaret)
         else Inr (DoubleCaret, advance lx1))"

definition read_pn_local :: "'f rust_std \<Rightarrow> lexer \<Rightarrow> rstr \<times> lexer" where
  "read_pn_local S lx =
     (let loop = dotted_loop (\<lambda>c. is_pn_chars S c \<or> c = c_colon \<or> c = c_percent \<or> c = c_bslash)
                   (\<lambda>c. is_pn_chars S c \<or> c = c_colon)
      in case peek lx of
           None \<Rightarrow> ([], lx)
         | Some c \<Rightarrow>
             (if is_pn_chars_u S c \<or> c = c_colon \<or> is_ascii_digit c \<or> c = c_percent \<or> c = c_bslash
              then loop (advance lx) [c] else ([], lx)))"

definition prefixed_token :: "'f rust_std \<Rightarrow> rstr \<Rightarrow> lexer \<Rightarrow> 'f token_kind lex_result" where
  "prefixed_token S pfx lx = (let (loc, lx') = read_pn_local S lx in Inr (PrefixedName pfx loc, lx'))"

fun prefix_loop :: "'f rust_std \<Rightarrow> lexer \<Rightarrow> rstr \<Rightarrow> 'f token_kind lex_result" where
  "prefix_loop S (p, []) w = Inl (ParseError (ExpectedColonAfter w))"
| "prefix_loop S (p, c # cs) w =
     (if c = c_colon then prefixed_token S w (adv_pos c p, cs)
      else if is_pn_chars S c then prefix_loop S (adv_pos c p, cs) (w @ [c])
      else Inl (ParseError (ExpectedColonAfter w)))"

definition read_prefixed_name_from :: "'f rust_std \<Rightarrow> rchar \<Rightarrow> lexer \<Rightarrow> 'f token_kind lex_result" where
  "read_prefixed_name_from S first lx = prefix_loop S lx [first]"

definition read_prefixed_name_from_word :: "'f rust_std \<Rightarrow> rstr \<Rightarrow> lexer \<Rightarrow> 'f token_kind lex_result" where
  "read_prefixed_name_from_word S word lx =
     (if peek lx = Some c_colon then prefixed_token S word (advance lx)
      else Inl (ParseError (ExpectedColonAfter word)))"

subsection \<open>Numbers\<close>

definition integer_token :: "rstr \<Rightarrow> lexer \<Rightarrow> 'f token_kind lex_result" where
  "integer_token num lx = (case parse_i64 num of Some v \<Rightarrow> Inr (IntegerTok v, lx)
     | None \<Rightarrow> Inl (ParseError (InvalidInteger num)))"

definition read_sign :: "lexer \<Rightarrow> rstr \<times> lexer" where
  "read_sign lx = (case peek lx of Some c \<Rightarrow> if c = c_plus \<or> c = c_minus then ([c], advance lx) else ([], lx)
     | None \<Rightarrow> ([], lx))"

text \<open>From the check for an exponent to the end of \<open>read_number\<close>.\<close>

definition read_exponent :: "'f rust_std \<Rightarrow> bool \<Rightarrow> rstr \<Rightarrow> lexer \<Rightarrow> 'f token_kind lex_result" where
  "read_exponent S has_dot num lx =
     (if peek lx = Some 101 \<or> peek lx = Some 69 then
        (let (sg, lx1) = read_sign (advance lx);
             (ds, lx2) = read_digits lx1;
             num' = num @ [the (peek lx)] @ sg @ ds
         in case parse_f64 S num' of Some v \<Rightarrow> Inr (DoubleTok v, lx2)
            | None \<Rightarrow> Inl (ParseError (InvalidDouble num')))
      else if has_dot then
        (case parse_f64 S num of Some v \<Rightarrow> Inr (DecimalTok v, lx) | None \<Rightarrow> Inl (ParseError (InvalidDecimal num)))
      else integer_token num lx)"

definition read_number :: "'f rust_std \<Rightarrow> lexer \<Rightarrow> 'f token_kind lex_result" where
  "read_number S lx =
     (let (sg, lx1) = read_sign lx; (ds, lx2) = read_digits lx1; num = sg @ ds
      in if peek lx2 = Some c_dot then
           (let saved_col = snd (fst lx2); lx3 = advance lx2
            in case peek lx3 of
                 Some c \<Rightarrow>
                   (if is_ascii_digit c then
                      (let (fs, lx4) = read_digits lx3 in read_exponent S True (num @ [c_dot] @ fs) lx4)
                    else
                      (let lx4 = ((fst (fst lx3), saved_col), snd lx3)
                       in if num = [] \<or> num = [c_plus] \<or> num = [c_minus] then Inr (Dot, lx4)
                          else integer_token num lx4))
               | None \<Rightarrow> read_exponent S False num lx3)
         else read_exponent S False num lx2)"

subsection \<open>The next token\<close>

definition read_kind :: "'f rust_std \<Rightarrow> rchar \<Rightarrow> lexer \<Rightarrow> 'f token_kind lex_result" where
  "read_kind S ch lx =
     (if ch = c_lt then read_iri_ref lx
      else if ch = c_dquote \<or> ch = c_squote then read_string_literal ch lx
      else if ch = c_at then read_at_keyword S lx
      else if ch = c_underscore then read_blank_node_label S lx
      else if ch = c_dot then Inr (Dot, advance lx)
      else if ch = c_semi then Inr (Semicolon, advance lx)
      else if ch = c_comma then Inr (Comma, advance lx)
      else if ch = c_lbracket then Inr (OpenBracket, advance lx)
      else if ch = c_rbracket then Inr (CloseBracket, advance lx)
      else if ch = c_lparen then Inr (OpenParen, advance lx)
      else if ch = c_rparen then Inr (CloseParen, advance lx)
      else if ch = c_caret then read_double_caret lx
      else if ch = c_plus \<or> ch = c_minus \<or> is_ascii_digit ch then read_number S lx
      else if ch = 97 then
        (if is_pn_char_or_colon S (peek (advance lx)) then read_prefixed_name_from S 97 (advance lx)
         else Inr (KwA, advance lx))
      else if ch = 80 \<or> ch = 66 then
        (let (word, lx') = read_word S lx
         in if word = lit ''PREFIX'' then Inr (SparqlPrefix, lx')
            else if word = lit ''BASE'' then Inr (SparqlBase, lx')
            else read_prefixed_name_from_word S word lx')
      else if ch = 84 \<or> ch = 116 \<or> ch = 70 \<or> ch = 102 then
        (let (word, lx') = read_word S lx
         in if to_lowercase S word = lit ''true'' then Inr (BooleanTok True, lx')
            else if to_lowercase S word = lit ''false'' then Inr (BooleanTok False, lx')
            else read_prefixed_name_from_word S word lx')
      else if is_pn_chars_base S ch then
        (let (word, lx') = read_word S lx in read_prefixed_name_from_word S word lx')
      else if ch = c_colon then prefixed_token S [] (advance lx)
      else Inl (ParseError (UnexpectedChar ch (fst (fst lx)) (snd (fst lx)))))"

definition next_token :: "'f rust_std \<Rightarrow> lexer \<Rightarrow> 'f token lex_result" where
  "next_token S lx0 =
     (let lx = skip_ws False lx0; tok = (\<lambda>k. \<lparr>tk_kind = k, tk_line = fst (fst lx), tk_column = snd (fst lx)\<rparr>)
      in case peek lx of
           None \<Rightarrow> Inr (tok Eof, lx)
         | Some ch \<Rightarrow> (case read_kind S ch lx of Inl e \<Rightarrow> Inl e | Inr (k, lx') \<Rightarrow> Inr (tok k, lx')))"


text \<open>\<open>tokenize\<close>: the loop pushes tokens up to the end of input; \<open>None\<close> if it does not end.\<close>

partial_function (option) tokenize :: "'f rust_std \<Rightarrow> lexer \<Rightarrow> (parser_error + 'f token list) option" where
  "tokenize S lx =
     (case next_token S lx of
        Inl e \<Rightarrow> Some (Inl e)
      | Inr (t, lx') \<Rightarrow>
          (if tk_kind t = Eof then Some (Inr [t])
           else Option.bind (tokenize S lx')
                  (\<lambda>r. Some (case r of Inl e \<Rightarrow> Inl e | Inr ts \<Rightarrow> Inr (t # ts)))))"

subsection \<open>Progress and termination\<close>

abbreviation rem :: "lexer \<Rightarrow> nat" where
  "rem lx \<equiv> length (snd lx)"

named_theorems progress "what the scanning functions consume"

lemma rem_advance [progress]: "rem (advance lx) = rem lx - 1"
  by (cases lx rule: advance.cases) simp_all

lemma peek_rem: "peek lx = Some c \<Longrightarrow> 0 < rem lx"
  by (cases lx rule: peek.cases) simp_all

lemma skip_ws_rem [progress]: "rem (skip_ws b lx) \<le> rem lx"
  by (induction b lx rule: skip_ws.induct) auto

lemma iri_loop_rem: "iri_loop lx iri = Inr (r, lx') \<Longrightarrow> rem lx' < rem lx"
  by (induction lx iri rule: iri_loop.induct) (auto split: if_splits list.splits)

lemma string_loop_rem: "string_loop q b lx v = Inr (r, lx') \<Longrightarrow> rem lx' < rem lx"
proof (induction q b lx v rule: string_loop.induct)
  case (2 q b p c cs v)
  show ?case
  proof (cases "c = q \<and> b")
    case True
    show ?thesis
    proof (cases cs)
      case Nil
      with 2 True show ?thesis by simp
    next
      case (Cons d ds)
      show ?thesis
      proof (cases "d = q")
        case dq: True
        show ?thesis
        proof (cases ds)
          case (Cons e es)
          have c: "c = q" "b" "cs = q # e # es" using True dq \<open>cs = d # ds\<close> Cons by simp_all
          show ?thesis
          proof (cases "e = q")
            case True
            with 2(7) c show ?thesis by auto
          next
            case False
            with 2(7) c have "string_loop q b (adv_pos q (adv_pos q p), e # es) (v @ [q, q]) = Inr (r, lx')" by simp
            with 2(3) [of q "e # es" e es] c False show ?thesis by simp
          qed
        qed (use 2 True dq \<open>cs = d # ds\<close> in fastforce)
      qed (use 2 True \<open>cs = d # ds\<close> in fastforce)
    qed
  next
    case False
    show ?thesis
    proof (cases "c = c_bslash \<and> c \<noteq> q")
      case True
      with 2 show ?thesis by (cases cs) (simp, fastforce)
    next
      case other: False
      with 2 False show ?thesis by (fastforce split: if_splits)
    qed
  qed
qed simp

lemma word_loop_rem: "word_loop ok lx w = (w', lx') \<Longrightarrow> length w' + rem lx' = length w + rem lx"
  by (induction ok lx w rule: word_loop.induct) (auto split: if_splits)

lemma word_loop_acc: "word_loop ok lx w = (w', lx') \<Longrightarrow> \<exists>u. w' = w @ u"
  by (induction ok lx w rule: word_loop.induct) (fastforce split: if_splits)+

lemma dotted_loop_rem: "dotted_loop ok cont lx w = (w', lx') \<Longrightarrow> rem lx' \<le> rem lx"
  by (induction ok cont lx w rule: dotted_loop.induct) (auto split: if_splits list.splits)

lemma read_word_rem: "read_word S lx = (w, lx') \<Longrightarrow> length w + rem lx' = rem lx"
  using word_loop_rem [of _ lx "[]"] by (simp add: read_word_def)

lemma read_digits_rem: "read_digits lx = (w, lx') \<Longrightarrow> length w + rem lx' = rem lx"
  using word_loop_rem [of _ lx "[]"] by (simp add: read_digits_def)

lemma read_pn_local_rem: "read_pn_local S lx = (w, lx') \<Longrightarrow> rem lx' \<le> rem lx"
  by (auto simp: read_pn_local_def Let_def progress split: option.splits if_splits dest!: dotted_loop_rem)

lemma prefixed_token_rem: "prefixed_token S pfx lx = Inr (k, lx') \<Longrightarrow> rem lx' \<le> rem lx"
  by (auto simp: prefixed_token_def dest: read_pn_local_rem split: prod.splits)

lemma prefix_loop_rem: "prefix_loop S lx w = Inr (k, lx') \<Longrightarrow> rem lx' < rem lx"
  by (induction S lx w rule: prefix_loop.induct) (auto split: if_splits dest!: prefixed_token_rem)

lemma from_word_rem: "read_prefixed_name_from_word S w lx = Inr (k, lx') \<Longrightarrow> rem lx' < rem lx"
  by (cases lx rule: peek.cases)
    (auto simp: read_prefixed_name_from_word_def split: if_splits dest!: prefixed_token_rem)

lemma read_sign_rem: "read_sign lx = (w, lx') \<Longrightarrow> length w + rem lx' = rem lx"
  by (cases lx rule: peek.cases) (auto simp: read_sign_def split: if_splits)

lemma integer_token_rem: "integer_token num lx = Inr (k, lx') \<Longrightarrow> lx' = lx"
  by (auto simp: integer_token_def split: option.splits)

lemma read_exponent_rem: "read_exponent S d num lx = Inr (k, lx') \<Longrightarrow> rem lx' \<le> rem lx"
  by (auto simp: read_exponent_def Let_def progress split: if_splits option.splits prod.splits
      dest!: integer_token_rem read_digits_rem read_sign_rem)

lemma read_number_rem:
  assumes "read_number S lx = Inr (k, lx')" "peek lx = Some c" "c = c_plus \<or> c = c_minus \<or> is_ascii_digit c"
  shows "rem lx' < rem lx"
proof -
  obtain sg lx1 where s: "read_sign lx = (sg, lx1)" by (cases "read_sign lx")
  obtain ds lx2 where d: "read_digits lx1 = (ds, lx2)" by (cases "read_digits lx1")
  have "rem lx2 < rem lx"
  proof (cases sg)
    case Nil
    then have "lx1 = lx" "is_ascii_digit c" using s assms(2,3) by (auto simp: read_sign_def split: if_splits)
    then have "ds \<noteq> []" using d assms(2) word_loop_acc [of is_ascii_digit "advance lx" "[c]"]
      by (cases lx rule: peek.cases) (auto simp: read_digits_def)
    then show ?thesis using read_digits_rem [OF d] read_sign_rem [OF s] Nil by (cases ds) auto
  next
    case (Cons a list)
    then show ?thesis using read_digits_rem [OF d] read_sign_rem [OF s] by simp
  qed
  moreover have "rem lx' \<le> rem lx2"
    using assms(1) s d
    by (auto simp: read_number_def Let_def progress split: if_splits option.splits prod.splits
        dest!: read_exponent_rem integer_token_rem read_digits_rem)
  ultimately show ?thesis by simp
qed


lemma read_iri_ref_rem: "peek lx \<noteq> None \<Longrightarrow> read_iri_ref lx = Inr (k, lx') \<Longrightarrow> rem lx' < rem lx"
  by (cases lx rule: peek.cases) (auto simp: read_iri_ref_def split: sum.splits dest: iri_loop_rem)

lemma read_string_literal_rem:
  "peek lx = Some q \<Longrightarrow> read_string_literal q lx = Inr (k, lx') \<Longrightarrow> rem lx' < rem lx"
proof (cases lx rule: peek.cases)
  case (2 p c cs)
  assume "peek lx = Some q" and r: "read_string_literal q lx = Inr (k, lx')"
  with 2 have lx: "lx = (p, q # cs)" by simp
  show ?thesis
  proof (cases cs)
    case Nil
    with lx r show ?thesis
      by (auto simp: read_string_literal_def simp del: string_loop.simps split: sum.splits prod.splits dest!: string_loop_rem)
  next
    case (Cons d ds)
    with lx r show ?thesis
      by (cases ds) (auto simp: read_string_literal_def Let_def simp del: string_loop.simps
          split: sum.splits prod.splits if_splits dest!: string_loop_rem)
  qed
qed simp

lemma read_at_rem: "peek lx \<noteq> None \<Longrightarrow> read_at_keyword S lx = Inr (k, lx') \<Longrightarrow> rem lx' < rem lx"
  by (cases lx rule: peek.cases)
    (auto simp: read_at_keyword_def split: prod.splits if_splits dest!: read_word_rem)

lemma read_blank_rem: "peek lx \<noteq> None \<Longrightarrow> read_blank_node_label S lx = Inr (k, lx') \<Longrightarrow> rem lx' < rem lx"
  by (cases lx rule: peek.cases)
    (auto simp: read_blank_node_label_def Let_def progress split: prod.splits if_splits option.splits dest!: dotted_loop_rem)

lemma read_caret_rem: "peek lx \<noteq> None \<Longrightarrow> read_double_caret lx = Inr (k, lx') \<Longrightarrow> rem lx' < rem lx"
  by (cases lx rule: peek.cases) (auto simp: read_double_caret_def Let_def progress split: if_splits)

lemma to_lowercase_Nil: "std_ok S \<Longrightarrow> to_lowercase S [] = []"
  unfolding std_ok_def by (metis list.pred_inject(1) list.simps(8))

lemma read_kind_progress:
  assumes S: "std_ok S" and ch: "peek lx = Some ch" and r: "read_kind S ch lx = Inr (k, lx')"
  shows "rem lx' < rem lx \<and> k \<noteq> Eof"
proof -
  obtain w l1 where w: "read_word S lx = (w, l1)" by (cases "read_word S lx")
  note wr = read_word_rem [OF w]
  have adv: "rem (advance lx) < rem lx" using ch by (cases lx rule: peek.cases) simp_all
  have fromword: "rem lx' < rem lx \<and> k \<noteq> Eof" if "read_prefixed_name_from_word S w l1 = Inr (k, lx')"
    using from_word_rem [OF that] wr that
    by (auto simp: read_prefixed_name_from_word_def prefixed_token_def split: if_splits prod.splits)
  have word: "w \<noteq> [] \<Longrightarrow> rem l1 < rem lx" using wr by (cases w) auto
  have lower: "to_lowercase S w = lit (c # cs) \<Longrightarrow> w \<noteq> []" for c cs
    using to_lowercase_Nil [OF S] by (metis lit_eq_Nil list.distinct(1))
  have prefixed: "rem lx' \<le> rem l \<and> k \<noteq> Eof" if "prefixed_token S pfx l = Inr (k, lx')" for l pfx
    using prefixed_token_rem [OF that] that by (auto simp: prefixed_token_def split: prod.splits)
  have some: "peek lx \<noteq> None" using ch by simp
  consider "ch = c_lt" | "ch = c_dquote \<or> ch = c_squote" | "ch = c_at" | "ch = c_underscore"
    | "ch \<in> {c_dot, c_semi, c_comma, c_lbracket, c_rbracket, c_lparen, c_rparen}" | "ch = c_caret"
    | "ch = c_plus \<or> ch = c_minus \<or> is_ascii_digit ch" | "ch = 97" | "ch = 80 \<or> ch = 66"
    | "ch = 84 \<or> ch = 116 \<or> ch = 70 \<or> ch = 102"
    | "ch \<notin> {c_lt, c_dquote, c_squote, c_at, c_underscore, c_dot, c_semi, c_comma, c_lbracket, c_rbracket,
        c_lparen, c_rparen, c_caret, c_plus, c_minus, 97, 80, 66, 84, 116, 70, 102} \<and> \<not> is_ascii_digit ch"
    by blast
  then show ?thesis
  proof cases
    case 1
    with r have k: "read_iri_ref lx = Inr (k, lx')" by (simp add: read_kind_def)
    then show ?thesis using read_iri_ref_rem [OF some k] by (auto simp: read_iri_ref_def split: sum.splits)
  next
    case 2
    then have q: "read_string_literal ch lx = Inr (k, lx')" using r by (auto simp: read_kind_def)
    then show ?thesis using read_string_literal_rem [OF ch q]
      by (auto simp: read_string_literal_def Let_def split: sum.splits if_splits)
  next
    case 3
    with r have k: "read_at_keyword S lx = Inr (k, lx')" by (simp add: read_kind_def)
    then show ?thesis using read_at_rem [OF some k] by (auto simp: read_at_keyword_def split: prod.splits if_splits)
  next
    case 4
    with r have k: "read_blank_node_label S lx = Inr (k, lx')" by (simp add: read_kind_def)
    then show ?thesis using read_blank_rem [OF some k]
      by (auto simp: read_blank_node_label_def Let_def split: prod.splits if_splits option.splits)
  next
    case 5
    then show ?thesis using r adv by (auto simp: read_kind_def)
  next
    case 6
    with r have k: "read_double_caret lx = Inr (k, lx')" by (simp add: read_kind_def)
    then show ?thesis using read_caret_rem [OF some k] by (auto simp: read_double_caret_def Let_def split: if_splits)
  next
    case 7
    then have n: "read_number S lx = Inr (k, lx')" using r by (auto simp: read_kind_def is_ascii_digit_def)
    have "k \<noteq> Eof" using n
      by (auto simp: read_number_def read_exponent_def integer_token_def Let_def split: prod.splits if_splits option.splits)
    then show ?thesis using read_number_rem [OF n ch] 7 by auto
  next
    case 8
    with r have "if is_pn_char_or_colon S (peek (advance lx)) then read_prefixed_name_from S 97 (advance lx) = Inr (k, lx')
        else Inr (KwA, advance lx) = (Inr (k, lx') :: _ lex_result)"
      by (auto simp: read_kind_def is_ascii_digit_def)
    moreover have "prefix_loop S l v = Inr (k, lx') \<Longrightarrow> rem lx' < rem l \<and> k \<noteq> Eof" for l v
    proof (induction S l v rule: prefix_loop.induct)
      case (2 S p c cs w)
      then show ?case
        by (auto simp: prefixed_token_def split: if_splits prod.splits dest!: read_pn_local_rem)
    qed simp
    ultimately show ?thesis using adv by (fastforce simp: read_prefixed_name_from_def split: if_splits)
  next
    case 9
    then have "(if w = lit ''PREFIX'' then Inr (SparqlPrefix, l1) else if w = lit ''BASE'' then Inr (SparqlBase, l1)
        else read_prefixed_name_from_word S w l1) = Inr (k, lx')"
      using r w by (auto simp: read_kind_def is_ascii_digit_def)
    then show ?thesis using word fromword by (auto split: if_splits)
  next
    case 10
    then have "(if to_lowercase S w = lit ''true'' then Inr (BooleanTok True, l1)
        else if to_lowercase S w = lit ''false'' then Inr (BooleanTok False, l1)
        else read_prefixed_name_from_word S w l1) = Inr (k, lx')"
      using r w by (auto simp: read_kind_def is_ascii_digit_def)
    then show ?thesis using word lower fromword by (auto split: if_splits)
  next
    case 11
    then have "(if is_pn_chars_base S ch then read_prefixed_name_from_word S w l1
        else if ch = c_colon then prefixed_token S [] (advance lx)
        else Inl (ParseError (UnexpectedChar ch (fst (fst lx)) (snd (fst lx))))) = Inr (k, lx')"
      using r w by (cases "is_pn_chars_base S ch"; cases "ch = c_colon") (simp_all add: read_kind_def)
    then show ?thesis using fromword prefixed adv by (fastforce split: if_splits)
  qed
qed

lemma next_token_progress:
  assumes "std_ok S" "next_token S lx = Inr (t, lx')"
  shows "if tk_kind t = Eof then snd lx' = [] else rem lx' < rem lx"
proof (cases "peek (skip_ws False lx)")
  case None
  then have "snd (skip_ws False lx) = []" by (cases "skip_ws False lx" rule: peek.cases) simp_all
  with None assms(2) show ?thesis by (auto simp: next_token_def Let_def)
next
  case (Some ch)
  then obtain k where k: "read_kind S ch (skip_ws False lx) = Inr (k, lx')" "tk_kind t = k"
    using assms(2) by (auto simp: next_token_def Let_def split: sum.splits)
  from read_kind_progress [OF assms(1) Some k(1)] k(2) skip_ws_rem [of False lx] show ?thesis by auto
qed

lemma tokenize_total:
  assumes "std_ok S"
  shows "\<exists>r. tokenize S lx = Some r \<and>
    (case r of Inl e \<Rightarrow> True
     | Inr ts \<Rightarrow> ts \<noteq> [] \<and> tk_kind (last ts) = Eof \<and> list_all (\<lambda>t. tk_kind t \<noteq> Eof) (butlast ts) \<and>
         length ts \<le> rem lx + 1)"
proof (induction "rem lx" arbitrary: lx rule: less_induct)
  case less
  show ?case
  proof (cases "next_token S lx")
    case (Inl e)
    then show ?thesis by (subst tokenize.simps) simp
  next
    case (Inr x)
    then obtain t lx' where x: "next_token S lx = Inr (t, lx')" by (cases x) auto
    show ?thesis
    proof (cases "tk_kind t = Eof")
      case True
      with x show ?thesis by (subst tokenize.simps) simp
    next
      case False
      with next_token_progress [OF assms x] have "rem lx' < rem lx" by simp
      moreover from less [OF this] obtain r where "tokenize S lx' = Some r"
        "case r of Inl e \<Rightarrow> True
         | Inr ts \<Rightarrow> ts \<noteq> [] \<and> tk_kind (last ts) = Eof \<and> list_all (\<lambda>t. tk_kind t \<noteq> Eof) (butlast ts) \<and>
             length ts \<le> rem lx' + 1" by blast
      ultimately show ?thesis using x False
        by (subst tokenize.simps) (auto split: sum.splits)
    qed
  qed
qed

text \<open>C21: The lexer terminates on every input, with an error or with a list of tokens that ends with the only
  end-of-input token.\<close>

theorem tokenize_terminates:
  assumes "std_ok S"
  shows "\<exists>r. tokenize S lx = Some r \<and>
    (case r of Inl e \<Rightarrow> True
     | Inr ts \<Rightarrow> ts \<noteq> [] \<and> tk_kind (last ts) = Eof \<and> list_all (\<lambda>t. tk_kind t \<noteq> Eof) (butlast ts) \<and>
         length ts \<le> rem lx + 1)"
  using assms by (rule tokenize_total)

theorem tokenize_terminates_witness:
  "\<exists>r. tokenize ascii_std (lexer_new (lit ''a.'')) = Some r"
  using tokenize_terminates [OF ascii_std_ok] by blast

end
