(* ===== verification/TurtleParser.thy ===== *)
theory TurtleParser
  imports TurtleLexer Namespace Schema
begin

section \<open>Turtle parser (parser/src/formats/turtle/parser.rs)\<close>

text \<open>
  The recursive descent over the token vector. A position is an index into the vector, and
  indexing it out of range is the failure \<open>Panic\<close>. The state is the parser's record and the
  vector of triples being filled. The mutually recursive functions and their loops take
  fuel, one unit per call or round; \<open>Diverges\<close> is its exhaustion, and the function
  \<open>fuel_for\<close> gives enough of it, as the lemmas show. The state that the parser keeps after an
  error is not modelled.
\<close>

datatype failure = Fail parser_error | Panic | Diverges

text \<open>The operator \<open>?\<close>: pass an error on, go on with a value.\<close>

fun and_then :: "'e + 'a \<Rightarrow> ('a \<Rightarrow> 'e + 'b) \<Rightarrow> 'e + 'b" where
  "and_then (Inl e) f = Inl e"
| "and_then (Inr x) f = f x"

definition lift_err :: "parser_error + 'a \<Rightarrow> failure + 'a" where
  "lift_err r = (case r of Inl e \<Rightarrow> Inl (Fail e) | Inr x \<Rightarrow> Inr x)"

definition MAX_NESTING_DEPTH :: nat where "MAX_NESTING_DEPTH = 128"

record turtle_parser =
  tp_namespaces :: registry
  tp_base_iri :: "iri option"
  tp_scope :: bn_scope
  tp_blank_node_map :: "(rstr, blank_node) fmap"
  tp_triples :: "triple list"

text \<open>\<open>new\<close> and \<open>with_base\<close>; \<open>BlankNodeScope::generate\<close> takes the global counter.\<close>

definition tp_new :: "u64 \<Rightarrow> turtle_parser \<times> u64" where
  "tp_new global = (let (scope, global') = scope_generate global in
     (\<lparr>tp_namespaces = reg_with_defaults, tp_base_iri = None, tp_scope = scope,
       tp_blank_node_map = fmempty, tp_triples = []\<rparr>, global'))"

definition tp_with_base :: "iri \<Rightarrow> u64 \<Rightarrow> turtle_parser \<times> u64" where
  "tp_with_base base global = (let (scope, global') = scope_generate global in
     (\<lparr>tp_namespaces = reg_with_defaults, tp_base_iri = Some base, tp_scope = scope,
       tp_blank_node_map = fmempty, tp_triples = []\<rparr>, global'))"

type_synonym 'f tokens = "'f token list"
type_synonym 'a presult = "failure + ('a \<times> nat \<times> turtle_parser)"

definition tok :: "'f tokens \<Rightarrow> nat \<Rightarrow> failure + 'f token" where
  "tok ts pos = (if pos < length ts then Inr (ts ! pos) else Inl Panic)"

definition is_kind :: "'f tokens \<Rightarrow> nat \<Rightarrow> 'f token_kind \<Rightarrow> bool" where
  "is_kind ts pos k \<longleftrightarrow> pos < length ts \<and> tk_kind (ts ! pos) = k"

definition line_col :: "'f tokens \<Rightarrow> nat \<Rightarrow> nat \<times> nat" where
  "line_col ts pos = (if pos < length ts then (tk_line (ts ! pos), tk_column (ts ! pos)) else (0, 0))"

definition push_triple :: "triple \<Rightarrow> turtle_parser \<Rightarrow> turtle_parser" where
  "push_triple t st = st\<lparr>tp_triples := tp_triples st @ [t]\<rparr>"

definition next_blank :: "turtle_parser \<Rightarrow> blank_node \<times> turtle_parser" where
  "next_blank st = (let (b, scope) = scope_next (tp_scope st) in (b, st\<lparr>tp_scope := scope\<rparr>))"

definition get_or_create_blank_node :: "turtle_parser \<Rightarrow> rstr \<Rightarrow> blank_node \<times> turtle_parser" where
  "get_or_create_blank_node st label =
     (case fmlookup (tp_blank_node_map st) label of
        Some b \<Rightarrow> (b, st)
      | None \<Rightarrow> (let b = scope_map (tp_scope st) label
                 in (b, st\<lparr>tp_blank_node_map := fmupd label b (tp_blank_node_map st)\<rparr>)))"

definition resolve_iri :: "turtle_parser \<Rightarrow> rstr \<Rightarrow> failure + iri" where
  "resolve_iri st i =
     (case tp_base_iri st of
        Some base \<Rightarrow> (case resolve base i of None \<Rightarrow> Inl Panic | Some r \<Rightarrow> lift_err r)
      | None \<Rightarrow> lift_err (iri_new i))"

definition expand_prefixed_name :: "turtle_parser \<Rightarrow> rstr \<Rightarrow> rstr \<Rightarrow> failure + iri" where
  "expand_prefixed_name st pfx loc =
     (case reg_get_namespace (tp_namespaces st) pfx of
        None \<Rightarrow> Inl (Fail (InvalidInput (UnknownPrefix pfx)))
      | Some ns \<Rightarrow> lift_err (iri_new (ns @ loc)))"

definition expect_prefix_decl :: "'f tokens \<Rightarrow> nat \<Rightarrow> failure + (rstr \<times> nat)" where
  "expect_prefix_decl ts pos = and_then (tok ts pos) (\<lambda>t.
     case tk_kind t of
       PrefixedName pfx loc \<Rightarrow> (if loc = [] then Inr (pfx, pos + 1)
         else Inl (Fail (ParseError (ExpectedPrefixDecl (tk_line t) (tk_column t)))))
     | _ \<Rightarrow> Inl (Fail (ParseError (ExpectedPrefixDecl (tk_line t) (tk_column t)))))"

definition expect_iri_ref :: "'f tokens \<Rightarrow> nat \<Rightarrow> failure + (iri \<times> nat)" where
  "expect_iri_ref ts pos = and_then (tok ts pos) (\<lambda>t.
     case tk_kind t of
       IriRef i \<Rightarrow> and_then (lift_err (iri_new i)) (\<lambda>iri. Inr (iri, pos + 1))
     | _ \<Rightarrow> Inl (Fail (ParseError (ExpectedIriRef (tk_line t) (tk_column t)))))"

subsection \<open>Directives\<close>

definition skip_dot :: "'f tokens \<Rightarrow> nat \<Rightarrow> nat" where
  "skip_dot ts pos = (if is_kind ts pos Dot then pos + 1 else pos)"

definition parse_prefix_directive :: "'f tokens \<Rightarrow> nat \<Rightarrow> turtle_parser \<Rightarrow> failure + (nat \<times> turtle_parser)" where
  "parse_prefix_directive ts pos st =
     and_then (expect_prefix_decl ts (pos + 1)) (\<lambda>(pfx, pos1).
     and_then (expect_iri_ref ts pos1) (\<lambda>(ns, pos2).
       Inr (skip_dot ts pos2, st\<lparr>tp_namespaces := reg_add (tp_namespaces st) pfx (iri_value ns)\<rparr>)))"

definition parse_base_directive :: "'f tokens \<Rightarrow> nat \<Rightarrow> turtle_parser \<Rightarrow> failure + (nat \<times> turtle_parser)" where
  "parse_base_directive ts pos st =
     and_then (expect_iri_ref ts (pos + 1)) (\<lambda>(base, pos1).
       Inr (skip_dot ts pos1, st\<lparr>tp_base_iri := Some base\<rparr>))"

subsection \<open>Terms without nesting\<close>

definition parse_predicate :: "'f tokens \<Rightarrow> nat \<Rightarrow> turtle_parser \<Rightarrow> failure + (iri \<times> nat)" where
  "parse_predicate ts pos st = and_then (tok ts pos) (\<lambda>t.
     case tk_kind t of
       IriRef i \<Rightarrow> and_then (resolve_iri st i) (\<lambda>iri. Inr (iri, pos + 1))
     | PrefixedName pfx loc \<Rightarrow> and_then (expand_prefixed_name st pfx loc) (\<lambda>iri. Inr (iri, pos + 1))
     | KwA \<Rightarrow> Inr (iri_new_unchecked RDF_TYPE, pos + 1)
     | _ \<Rightarrow> Inl (Fail (ParseError (ExpectedPredicate (tk_line t) (tk_column t)))))"

definition parse_datatype_iri :: "'f tokens \<Rightarrow> nat \<Rightarrow> turtle_parser \<Rightarrow> failure + (iri \<times> nat)" where
  "parse_datatype_iri ts pos st = and_then (tok ts pos) (\<lambda>t.
     case tk_kind t of
       IriRef i \<Rightarrow> and_then (resolve_iri st i) (\<lambda>iri. Inr (iri, pos + 1))
     | PrefixedName pfx loc \<Rightarrow> and_then (expand_prefixed_name st pfx loc) (\<lambda>iri. Inr (iri, pos + 1))
     | _ \<Rightarrow> Inl (Fail (ParseError (ExpectedDatatype (tk_line t) (tk_column t)))))"

definition parse_literal :: "'f tokens \<Rightarrow> nat \<Rightarrow> turtle_parser \<Rightarrow> rstr \<Rightarrow> object presult" where
  "parse_literal ts pos0 st v =
     (let pos = pos0 + 1; plain = Inr (ObjLiteral (literal_new v), pos, st)
      in if pos < length ts then
           (case tk_kind (ts ! pos) of
              LangTag lang \<Rightarrow> and_then (lift_err (literal_with_language v lang))
                (\<lambda>l. Inr (ObjLiteral l, pos + 1, st))
            | DoubleCaret \<Rightarrow> and_then (parse_datatype_iri ts (pos + 1) st)
                (\<lambda>(dt, pos'). Inr (ObjLiteral (literal_with_datatype v dt), pos', st))
            | _ \<Rightarrow> plain)
         else plain)"

function skip_semicolons :: "'f tokens \<Rightarrow> nat \<Rightarrow> nat" where
  "skip_semicolons ts pos = (if is_kind ts pos Semicolon then skip_semicolons ts (pos + 1) else pos)"
  by pat_completeness auto

termination
  by (relation "measure (\<lambda>(ts, pos). length ts - pos)") (auto simp: is_kind_def)

declare skip_semicolons.simps [simp del]

subsection \<open>Nested terms\<close>

fun object_of_subject :: "subject \<Rightarrow> object" where
  "object_of_subject (SubjIri i) = ObjIri i"
| "object_of_subject (SubjBlank b) = ObjBlank b"

definition depth_error :: "nat \<times> nat \<Rightarrow> failure" where
  "depth_error lc = Fail (ParseError (MaxDepthExceeded (fst lc) (snd lc)))"

definition list_first :: iri where "list_first = iri_new_unchecked RDF_FIRST"
definition list_rest :: iri where "list_rest = iri_new_unchecked RDF_REST"
definition list_nil :: iri where "list_nil = iri_new_unchecked RDF_NIL"

function parse_object :: "'f rust_std \<Rightarrow> nat \<Rightarrow> 'f tokens \<Rightarrow> nat \<Rightarrow> turtle_parser \<Rightarrow> nat \<Rightarrow> object presult"
  and parse_predicate_object_list ::
    "'f rust_std \<Rightarrow> nat \<Rightarrow> 'f tokens \<Rightarrow> nat \<Rightarrow> subject \<Rightarrow> turtle_parser \<Rightarrow> nat \<Rightarrow> failure + (nat \<times> turtle_parser)"
  and parse_object_list ::
    "'f rust_std \<Rightarrow> nat \<Rightarrow> 'f tokens \<Rightarrow> nat \<Rightarrow> subject \<Rightarrow> iri \<Rightarrow> turtle_parser \<Rightarrow> nat \<Rightarrow> failure + (nat \<times> turtle_parser)"
  and parse_blank_node_property_list ::
    "'f rust_std \<Rightarrow> nat \<Rightarrow> 'f tokens \<Rightarrow> nat \<Rightarrow> turtle_parser \<Rightarrow> nat \<Rightarrow> blank_node presult"
  and parse_collection :: "'f rust_std \<Rightarrow> nat \<Rightarrow> 'f tokens \<Rightarrow> nat \<Rightarrow> turtle_parser \<Rightarrow> nat \<Rightarrow> subject presult"
  and collection_loop ::
    "'f rust_std \<Rightarrow> nat \<Rightarrow> 'f tokens \<Rightarrow> nat \<Rightarrow> blank_node \<Rightarrow> turtle_parser \<Rightarrow> nat \<Rightarrow> failure + (nat \<times> turtle_parser)"
where
  "parse_object S 0 ts pos st depth = Inl Diverges"
| "parse_object S (Suc n) ts pos st depth = and_then (tok ts pos) (\<lambda>t.
     if depth > MAX_NESTING_DEPTH then Inl (depth_error (tk_line t, tk_column t))
     else case tk_kind t of
       IriRef i \<Rightarrow> and_then (resolve_iri st i) (\<lambda>iri. Inr (ObjIri iri, pos + 1, st))
     | PrefixedName pfx loc \<Rightarrow> and_then (expand_prefixed_name st pfx loc) (\<lambda>iri. Inr (ObjIri iri, pos + 1, st))
     | BlankNodeLabel label \<Rightarrow> (let (b, st') = get_or_create_blank_node st label in Inr (ObjBlank b, pos + 1, st'))
     | OpenBracket \<Rightarrow> and_then (parse_blank_node_property_list S n ts (pos + 1) st (depth + 1))
         (\<lambda>(b, pos', st'). Inr (ObjBlank b, pos', st'))
     | OpenParen \<Rightarrow> and_then (parse_collection S n ts (pos + 1) st (depth + 1))
         (\<lambda>(s, pos', st'). Inr (object_of_subject s, pos', st'))
     | StringLiteral v \<Rightarrow> parse_literal ts pos st v
     | IntegerTok i \<Rightarrow> Inr (ObjLiteral (literal_integer i), pos + 1, st)
     | DecimalTok f \<Rightarrow> Inr (ObjLiteral (literal_decimal (show_f64 S f)), pos + 1, st)
     | DoubleTok f \<Rightarrow> Inr (ObjLiteral (literal_double (show_f64 S f)), pos + 1, st)
     | BooleanTok b \<Rightarrow> Inr (ObjLiteral (literal_boolean b), pos + 1, st)
     | _ \<Rightarrow> Inl (Fail (ParseError (ExpectedObject (tk_line t) (tk_column t)))))"
| "parse_predicate_object_list S 0 ts pos subj st depth = Inl Diverges"
| "parse_predicate_object_list S (Suc n) ts pos subj st depth =
     and_then (parse_predicate ts pos st) (\<lambda>(pred, pos1).
     and_then (parse_object_list S n ts pos1 subj pred st depth) (\<lambda>(pos2, st2).
       if is_kind ts pos2 Semicolon then
         (let pos3 = skip_semicolons ts (pos2 + 1)
          in if length ts \<le> pos3 then Inr (pos3, st2)
             else if tk_kind (ts ! pos3) \<in> {Dot, CloseBracket, Eof} then Inr (pos3, st2)
             else parse_predicate_object_list S n ts pos3 subj st2 depth)
       else Inr (pos2, st2)))"
| "parse_object_list S 0 ts pos subj pred st depth = Inl Diverges"
| "parse_object_list S (Suc n) ts pos subj pred st depth =
     and_then (parse_object S n ts pos st depth) (\<lambda>(ob, pos1, st1).
       let st2 = push_triple (triple_new subj pred ob) st1
       in if is_kind ts pos1 Comma then parse_object_list S n ts (pos1 + 1) subj pred st2 depth
          else Inr (pos1, st2))"
| "parse_blank_node_property_list S 0 ts pos st depth = Inl Diverges"
| "parse_blank_node_property_list S (Suc n) ts pos st depth =
     (if depth > MAX_NESTING_DEPTH then Inl (depth_error (line_col ts pos))
      else let (b, st1) = next_blank st
      in if is_kind ts pos CloseBracket then Inr (b, pos + 1, st1)
         else and_then (parse_predicate_object_list S n ts pos (SubjBlank b) st1 depth) (\<lambda>(pos1, st2).
           if \<not> is_kind ts pos1 CloseBracket
           then Inl (Fail (ParseError (ExpectedCloseBracket (fst (line_col ts pos1)) (snd (line_col ts pos1)))))
           else Inr (b, pos1 + 1, st2)))"
| "parse_collection S 0 ts pos st depth = Inl Diverges"
| "parse_collection S (Suc n) ts pos st depth =
     (if depth > MAX_NESTING_DEPTH then Inl (depth_error (line_col ts pos))
      else if is_kind ts pos CloseParen then Inr (SubjIri list_nil, pos + 1, st)
      else let (head, st1) = next_blank st
      in and_then (collection_loop S n ts pos head st1 depth) (\<lambda>(pos', st'). Inr (SubjBlank head, pos', st')))"
| "collection_loop S 0 ts pos current st depth = Inl Diverges"
| "collection_loop S (Suc n) ts pos current st depth =
     and_then (parse_object S n ts pos st (depth + 1)) (\<lambda>(item, pos1, st1).
       let st2 = push_triple (triple_new (SubjBlank current) list_first item) st1
       in if is_kind ts pos1 CloseParen
          then Inr (pos1 + 1, push_triple (triple_new (SubjBlank current) list_rest (ObjIri list_nil)) st2)
          else (let (nxt, st3) = next_blank st2
                in collection_loop S n ts pos1 nxt
                     (push_triple (triple_new (SubjBlank current) list_rest (ObjBlank nxt)) st3) depth))"
  by pat_completeness auto

termination
  by (relation "measure (case_sum (case_sum (\<lambda>(S, n, ts, x). n)
        (case_sum (\<lambda>(S, n, ts, x). n) (\<lambda>(S, n, ts, x). n)))
      (case_sum (\<lambda>(S, n, ts, x). n)
        (case_sum (\<lambda>(S, n, ts, x). n) (\<lambda>(S, n, ts, x). n))))") simp_all

definition parse_subject :: "'f rust_std \<Rightarrow> nat \<Rightarrow> 'f tokens \<Rightarrow> nat \<Rightarrow> turtle_parser \<Rightarrow> nat \<Rightarrow> subject presult" where
  "parse_subject S n ts pos st depth = and_then (tok ts pos) (\<lambda>t.
     if depth > MAX_NESTING_DEPTH then Inl (depth_error (tk_line t, tk_column t))
     else case tk_kind t of
       IriRef i \<Rightarrow> and_then (resolve_iri st i) (\<lambda>iri. Inr (SubjIri iri, pos + 1, st))
     | PrefixedName pfx loc \<Rightarrow> and_then (expand_prefixed_name st pfx loc) (\<lambda>iri. Inr (SubjIri iri, pos + 1, st))
     | BlankNodeLabel label \<Rightarrow> (let (b, st') = get_or_create_blank_node st label in Inr (SubjBlank b, pos + 1, st'))
     | OpenBracket \<Rightarrow> and_then (parse_blank_node_property_list S n ts (pos + 1) st (depth + 1))
         (\<lambda>(b, pos', st'). Inr (SubjBlank b, pos', st'))
     | OpenParen \<Rightarrow> parse_collection S n ts (pos + 1) st (depth + 1)
     | _ \<Rightarrow> Inl (Fail (ParseError (ExpectedSubject (tk_line t) (tk_column t)))))"

subsection \<open>Statements and documents\<close>

definition parse_triples :: "'f rust_std \<Rightarrow> nat \<Rightarrow> 'f tokens \<Rightarrow> nat \<Rightarrow> turtle_parser \<Rightarrow> failure + (nat \<times> turtle_parser)" where
  "parse_triples S n ts pos st =
     and_then (parse_subject S n ts pos st 0) (\<lambda>(subj, pos1, st1).
     and_then (parse_predicate_object_list S n ts pos1 subj st1 0) (\<lambda>(pos2, st2).
       Inr (skip_dot ts pos2, st2)))"

definition parse_statement :: "'f rust_std \<Rightarrow> nat \<Rightarrow> 'f tokens \<Rightarrow> nat \<Rightarrow> turtle_parser \<Rightarrow> failure + (nat \<times> turtle_parser)" where
  "parse_statement S n ts pos st = and_then (tok ts pos) (\<lambda>t.
     case tk_kind t of
       PrefixKeyword \<Rightarrow> parse_prefix_directive ts pos st
     | SparqlPrefix \<Rightarrow> parse_prefix_directive ts pos st
     | BaseKeyword \<Rightarrow> parse_base_directive ts pos st
     | SparqlBase \<Rightarrow> parse_base_directive ts pos st
     | _ \<Rightarrow> parse_triples S n ts pos st)"

text \<open>The loop of \<open>parse_tokens\<close>, with fuel for its rounds and for each statement.\<close>

fun parse_loop :: "'f rust_std \<Rightarrow> nat \<Rightarrow> nat \<Rightarrow> 'f tokens \<Rightarrow> nat \<Rightarrow> turtle_parser \<Rightarrow> failure + turtle_parser" where
  "parse_loop S n 0 ts pos st = Inl Diverges"
| "parse_loop S n (Suc k) ts pos st =
     (if pos < length ts then
        (if tk_kind (ts ! pos) = Eof then Inr st
         else and_then (parse_statement S n ts pos st) (\<lambda>(pos', st'). parse_loop S n k ts pos' st'))
      else Inr st)"

definition fuel_for :: "'f tokens \<Rightarrow> nat" where
  "fuel_for ts = 4 * length ts + 4"

definition parse_tokens :: "'f rust_std \<Rightarrow> 'f tokens \<Rightarrow> turtle_parser \<Rightarrow> failure + (triple list \<times> turtle_parser)" where
  "parse_tokens S ts st =
     and_then (parse_loop S (fuel_for ts) (length ts + 1) ts 0 (st\<lparr>tp_triples := []\<rparr>))
       (\<lambda>st'. Inr (tp_triples st', st'))"

definition turtle_parse :: "'f rust_std \<Rightarrow> turtle_parser \<Rightarrow> rstr \<Rightarrow> failure + (triple list \<times> turtle_parser)" where
  "turtle_parse S st input =
     (case tokenize S (lexer_new input) of
        None \<Rightarrow> Inl Diverges
      | Some (Inl e) \<Rightarrow> Inl (Fail e)
      | Some (Inr ts) \<Rightarrow> parse_tokens S ts st)"

end
