(* ===== verification/TurtleSafety.thy ===== *)
theory TurtleSafety
  imports TurtleParser
begin

section \<open>The Turtle parser returns, and returns valid triples\<close>

text \<open>
  A fact about every function of the parser: on a token vector that ends with the end-of-input
  token and from a position inside it, with enough fuel, the function returns an error of the
  parser or a value with a later position still inside the vector; it never indexes out of
  range and never exhausts its fuel, and the triples it adds have valid IRIs only.
\<close>

definition ends_eof :: "'f tokens \<Rightarrow> bool" where
  "ends_eof ts \<longleftrightarrow> ts \<noteq> [] \<and> tk_kind (last ts) = Eof"

subsection \<open>Valid terms\<close>

definition valid_iri :: "iri \<Rightarrow> bool" where
  "valid_iri i \<longleftrightarrow> iri_new (iri_value i) = Inr i"

fun valid_subject :: "subject \<Rightarrow> bool" where
  "valid_subject (SubjIri i) = valid_iri i" | "valid_subject (SubjBlank _) = True"

definition valid_literal :: "literal \<Rightarrow> bool" where
  "valid_literal l \<longleftrightarrow> (case lit_datatype l of None \<Rightarrow> True | Some d \<Rightarrow> valid_iri d) \<and>
     (case lit_language l of None \<Rightarrow> True | Some g \<Rightarrow> validate_language_tag g = Inr ())"

fun valid_object :: "object \<Rightarrow> bool" where
  "valid_object (ObjIri i) = valid_iri i" | "valid_object (ObjBlank _) = True"
| "valid_object (ObjLiteral l) = valid_literal l"

definition valid_triple :: "triple \<Rightarrow> bool" where
  "valid_triple t \<longleftrightarrow> valid_subject (t_subject t) \<and> valid_iri (t_predicate t) \<and> valid_object (t_object t)"

definition valid_state :: "turtle_parser \<Rightarrow> bool" where
  "valid_state st \<longleftrightarrow> list_all valid_triple (tp_triples st)"

named_theorems valid "terms and states the parser builds are valid"

lemma iri_new_is_valid: "iri_new v = Inr i \<Longrightarrow> valid_iri i"
  by (metis iri_new_value valid_iri_def)

lemma valid_text: "iri_new v = Inr (iri_new_unchecked v) \<Longrightarrow> valid_iri (iri_new_unchecked v)"
  by (simp add: valid_iri_def)

lemma iri_new_if_valid: "validate v = Inr () \<Longrightarrow> iri_new v = Inr (iri_new_unchecked v)"
  by (simp add: iri_new_def iri_new_unchecked_def)

lemma valid_vocabulary [valid]: "valid_iri list_first" "valid_iri list_rest" "valid_iri list_nil"
  "valid_iri (iri_new_unchecked RDF_TYPE)" "valid_iri xsd_boolean" "valid_iri xsd_integer"
  "valid_iri xsd_decimal" "valid_iri xsd_double"
  unfolding list_first_def list_rest_def list_nil_def xsd_boolean_def xsd_integer_def xsd_decimal_def
    xsd_double_def xsd_datatype_def
  by (rule valid_text [OF iri_new_if_valid],
      simp add: validate_def str_simps RDF_FIRST_def RDF_REST_def RDF_NIL_def RDF_TYPE_def
        xsd_namespace_def is_control_def)+

lemma valid_literals [valid]: "valid_literal (literal_new v)" "valid_literal (literal_integer n)"
  "valid_literal (literal_decimal f)" "valid_literal (literal_double f)" "valid_literal (literal_boolean b)"
  "valid_literal (literal_with_datatype v d) = valid_iri d"
  by (simp_all add: valid_literal_def literal_new_def literal_integer_def literal_decimal_def
      literal_double_def literal_boolean_def literal_with_datatype_def valid)

lemma valid_language: "literal_with_language v g = Inr l \<Longrightarrow> valid_literal l"
  by (auto simp: literal_with_language_def valid_literal_def split: sum.splits)

lemma valid_state_simps [valid]:
  "valid_state (st\<lparr>tp_scope := sc\<rparr>) = valid_state st"
  "valid_state (st\<lparr>tp_blank_node_map := m\<rparr>) = valid_state st"
  "valid_state (st\<lparr>tp_namespaces := ns\<rparr>) = valid_state st"
  "valid_state (st\<lparr>tp_base_iri := b\<rparr>) = valid_state st"
  "valid_state (st\<lparr>tp_triples := []\<rparr>)"
  "valid_state (push_triple (triple_new s p x) st) =
     (valid_state st \<and> valid_subject s \<and> valid_iri p \<and> valid_object x)"
  by (auto simp: valid_state_def push_triple_def valid_triple_def triple_new_def)

lemma next_blank_valid: "next_blank st = (b, st') \<Longrightarrow> valid_state st' = valid_state st"
  by (auto simp: next_blank_def valid split: prod.splits)

lemma get_blank_valid: "get_or_create_blank_node st l = (b, st') \<Longrightarrow> valid_state st' = valid_state st"
  by (auto simp: get_or_create_blank_node_def Let_def valid split: option.splits)

subsection \<open>Positions\<close>

text \<open>The result is an error of the parser, or a value that satisfies \<open>P\<close>.\<close>

fun holds :: "('a \<Rightarrow> bool) \<Rightarrow> failure + 'a \<Rightarrow> bool" where
  "holds P (Inl (Fail e)) = True"
| "holds P (Inl Panic) = False"
| "holds P (Inl Diverges) = False"
| "holds P (Inr x) = P x"

lemma holds_and_then: "holds P r \<Longrightarrow> (\<And>x. P x \<Longrightarrow> holds Q (f x)) \<Longrightarrow> holds Q (and_then r f)"
  by (cases "(P, r)" rule: holds.cases) auto

lemma holds_mono: "holds P r \<Longrightarrow> (\<And>x. P x \<Longrightarrow> Q x) \<Longrightarrow> holds Q r"
  by (cases "(P, r)" rule: holds.cases) auto

lemma holds_lift [simp]: "holds P (lift_err r) \<longleftrightarrow> (\<forall>x. r = Inr x \<longrightarrow> P x)"
  by (cases r) (auto simp: lift_err_def)

lemma holds_Fail [simp]: "holds P (Inl (depth_error lc))"
  by (simp add: depth_error_def)

lemma not_last: "ends_eof ts \<Longrightarrow> pos < length ts \<Longrightarrow> tk_kind (ts ! pos) \<noteq> Eof \<Longrightarrow> pos + 1 < length ts"
  unfolding ends_eof_def by (metis Suc_eq_plus1 Suc_lessI diff_Suc_1 last_conv_nth)

lemma is_kind_next: "ends_eof ts \<Longrightarrow> is_kind ts pos k \<Longrightarrow> k \<noteq> Eof \<Longrightarrow> pos + 1 < length ts"
  using not_last by (auto simp: is_kind_def)

lemma holds_tok: "pos < length ts \<Longrightarrow> (pos < length ts \<Longrightarrow> holds Q (f (ts ! pos))) \<Longrightarrow> holds Q (and_then (tok ts pos) f)"
  by (simp add: tok_def)

lemma skip_dot_inside: "ends_eof ts \<Longrightarrow> pos < length ts \<Longrightarrow> pos \<le> skip_dot ts pos \<and> skip_dot ts pos < length ts"
  by (auto simp: skip_dot_def dest: is_kind_next)

lemma skip_semicolons_inside:
  "ends_eof ts \<Longrightarrow> pos < length ts \<Longrightarrow> pos \<le> skip_semicolons ts pos \<and> skip_semicolons ts pos < length ts"
proof (induction ts pos rule: skip_semicolons.induct)
  case (1 ts pos)
  then show ?case
    using is_kind_next [of ts pos Semicolon] by (subst (1 2) skip_semicolons.simps) auto
qed

definition inside :: "'f tokens \<Rightarrow> nat \<Rightarrow> nat \<Rightarrow> bool" where
  "inside ts pos p \<longleftrightarrow> pos < p \<and> p < length ts"

lemma inside_step: "ends_eof ts \<Longrightarrow> pos < length ts \<Longrightarrow> tk_kind (ts ! pos) \<noteq> Eof \<Longrightarrow> inside ts pos (Suc pos)"
  using not_last by (auto simp: inside_def)

lemma inside_trans: "inside ts p q \<Longrightarrow> pos \<le> p \<Longrightarrow> inside ts pos q"
  by (simp add: inside_def)

subsection \<open>Terms without nesting\<close>

lemma resolve_iri_holds: "holds valid_iri (resolve_iri st i)"
  by (auto simp: resolve_iri_def resolve_eq resolve_ref_def Let_def
      dest!: iri_new_is_valid split: option.splits if_splits)

lemma expand_holds: "holds valid_iri (expand_prefixed_name st p l)"
  by (auto simp: expand_prefixed_name_def dest: iri_new_is_valid split: option.splits)

lemma parse_predicate_holds:
  "ends_eof ts \<Longrightarrow> pos < length ts \<Longrightarrow> holds (\<lambda>(i, p). valid_iri i \<and> inside ts pos p) (parse_predicate ts pos st)"
  unfolding parse_predicate_def
  by (rule holds_tok, assumption)
    (auto split: token_kind.splits intro!: holds_and_then [OF resolve_iri_holds] holds_and_then [OF expand_holds]
      simp: valid inside_step)

lemma parse_datatype_holds:
  "ends_eof ts \<Longrightarrow> pos < length ts \<Longrightarrow> holds (\<lambda>(i, p). valid_iri i \<and> inside ts pos p) (parse_datatype_iri ts pos st)"
  unfolding parse_datatype_iri_def
  by (rule holds_tok, assumption)
    (auto split: token_kind.splits intro!: holds_and_then [OF resolve_iri_holds] holds_and_then [OF expand_holds]
      simp: inside_step)

lemma parse_literal_holds:
  assumes "ends_eof ts" "pos < length ts" "tk_kind (ts ! pos) = StringLiteral v" "valid_state st"
  shows "holds (\<lambda>(x, p, st'). valid_object x \<and> inside ts pos p \<and> valid_state st') (parse_literal ts pos st w)"
proof -
  have next1: "inside ts pos (Suc pos)" using inside_step [OF assms(1,2)] assms(3) by simp
  have next2: "pos + 1 < length ts \<Longrightarrow> tk_kind (ts ! (pos + 1)) \<noteq> Eof \<Longrightarrow> inside ts pos (pos + 2)"
    using inside_step [OF assms(1), of "pos + 1"] by (auto simp: inside_def)
  have dt: "holds (\<lambda>(i, p). valid_iri i \<and> inside ts pos p) (parse_datatype_iri ts (pos + 2) st)"
    if "inside ts pos (pos + 2)"
    using that parse_datatype_holds [OF assms(1), of "pos + 2" st]
    by (auto simp: inside_def elim!: holds_mono)
  show ?thesis
    using next1 next2 dt assms(4)
    by (auto simp: parse_literal_def Let_def valid valid_language split: token_kind.splits
        intro!: holds_and_then [where P = "\<lambda>(i, p). valid_iri i \<and> inside ts pos p"] holds_and_then [where P = valid_literal])
qed

subsection \<open>Nested terms\<close>

definition returns :: "'f tokens \<Rightarrow> nat \<Rightarrow> failure + (nat \<times> turtle_parser) \<Rightarrow> bool" where
  "returns ts pos = holds (\<lambda>(p, st). inside ts pos p \<and> valid_state st)"

definition returns_term :: "('a \<Rightarrow> bool) \<Rightarrow> 'f tokens \<Rightarrow> nat \<Rightarrow> 'a presult \<Rightarrow> bool" where
  "returns_term P ts pos = holds (\<lambda>(x, p, st). P x \<and> inside ts pos p \<and> valid_state st)"

lemma returns_mono: "returns ts p r \<Longrightarrow> pos \<le> p \<Longrightarrow> returns ts pos r"
  unfolding returns_def by (erule holds_mono) (auto simp: inside_def)

lemma returns_term_mono: "returns_term P ts p r \<Longrightarrow> pos \<le> p \<Longrightarrow> returns_term P ts pos r"
  unfolding returns_term_def by (erule holds_mono) (auto simp: inside_def)

text \<open>What each function needs in fuel, by the number \<open>r\<close> of tokens left.\<close>

definition nested_ok :: "'f rust_std \<Rightarrow> 'f tokens \<Rightarrow> nat \<Rightarrow> bool" where
  "nested_ok S ts n \<longleftrightarrow>
    (\<forall>pos st d s p b. pos < length ts \<and> valid_state st \<longrightarrow>
      (let r = 4 * (length ts - pos) in
        (r + 1 \<le> n \<longrightarrow> returns_term valid_object ts pos (parse_object S n ts pos st d)) \<and>
        (r + 1 \<le> n \<and> valid_subject s \<longrightarrow> returns ts pos (parse_predicate_object_list S n ts pos s st d)) \<and>
        (r + 2 \<le> n \<and> valid_subject s \<and> valid_iri p \<longrightarrow> returns ts pos (parse_object_list S n ts pos s p st d)) \<and>
        (r + 2 \<le> n \<longrightarrow> returns_term (\<lambda>b. True) ts pos (parse_blank_node_property_list S n ts pos st d)) \<and>
        (r + 3 \<le> n \<longrightarrow> returns_term valid_subject ts pos (parse_collection S n ts pos st d)) \<and>
        (r + 2 \<le> n \<longrightarrow> returns ts pos (collection_loop S n ts pos b st d))))"

lemma nested_okD:
  assumes "nested_ok S ts n" "pos < length ts" "valid_state st"
  shows "4 * (length ts - pos) + 1 \<le> n \<Longrightarrow> returns_term valid_object ts pos (parse_object S n ts pos st d)"
    and "4 * (length ts - pos) + 1 \<le> n \<Longrightarrow> valid_subject s \<Longrightarrow> returns ts pos (parse_predicate_object_list S n ts pos s st d)"
    and "4 * (length ts - pos) + 2 \<le> n \<Longrightarrow> valid_subject s \<Longrightarrow> valid_iri p \<Longrightarrow> returns ts pos (parse_object_list S n ts pos s p st d)"
    and "4 * (length ts - pos) + 2 \<le> n \<Longrightarrow> returns_term (\<lambda>b. True) ts pos (parse_blank_node_property_list S n ts pos st d)"
    and "4 * (length ts - pos) + 3 \<le> n \<Longrightarrow> returns_term valid_subject ts pos (parse_collection S n ts pos st d)"
    and "4 * (length ts - pos) + 2 \<le> n \<Longrightarrow> returns ts pos (collection_loop S n ts pos b st d)"
  using assms unfolding nested_ok_def Let_def by blast+

lemma valid_object_of_subject [simp]: "valid_object (object_of_subject s) = valid_subject s"
  by (cases s) simp_all

lemma opened_bracket:
  assumes "nested_ok S ts n" "valid_state st" "4 * (length ts - pos) \<le> n" "inside ts pos (pos + 1)"
  shows "returns_term (\<lambda>b. True) ts pos (parse_blank_node_property_list S n ts (Suc pos) st d)"
  using assms by (intro returns_term_mono [OF nested_okD(4) [OF assms(1) _ assms(2)]]) (auto simp: inside_def)

lemma opened_paren:
  assumes "nested_ok S ts n" "valid_state st" "4 * (length ts - pos) \<le> n" "inside ts pos (pos + 1)"
  shows "returns_term valid_subject ts pos (parse_collection S n ts (Suc pos) st d)"
  using assms by (intro returns_term_mono [OF nested_okD(5) [OF assms(1) _ assms(2)]]) (auto simp: inside_def)

lemma object_step:
  assumes eof: "ends_eof ts" and IH: "nested_ok S ts n" and pos: "pos < length ts" and st: "valid_state st"
    and n: "4 * (length ts - pos) \<le> n"
  shows "returns_term valid_object ts pos (parse_object S (Suc n) ts pos st d)"
proof -
  have one: "inside ts pos (pos + 1)" if "tk_kind (ts ! pos) \<noteq> Eof"
    using inside_step [OF eof pos that] by simp
  note opened = opened_bracket [OF IH st n] opened_paren [OF IH st n]
  show ?thesis
    unfolding parse_object.simps returns_term_def
  proof (rule holds_tok [OF pos], cases "MAX_NESTING_DEPTH < d", goal_cases)
    case 2
    then show ?case
    proof (cases "tk_kind (ts ! pos)")
      case (StringLiteral v)
      then show ?thesis using parse_literal_holds [OF eof pos _ st] 2 by simp
    qed (use 2 one st in
        \<open>auto simp: valid returns_term_def dest: get_blank_valid split: prod.splits
          intro!: holds_and_then [OF resolve_iri_holds] holds_and_then [OF expand_holds]
            opened [unfolded returns_term_def, THEN holds_and_then]\<close>)
  qed simp
qed

lemma predicate_list_step:
  assumes eof: "ends_eof ts" and IH: "nested_ok S ts n" and pos: "pos < length ts" and st: "valid_state st"
    and s: "valid_subject s" and n: "4 * (length ts - pos) \<le> n"
  shows "returns ts pos (parse_predicate_object_list S (Suc n) ts pos s st d)"
proof -
  have ol: "returns ts pos1 (parse_object_list S n ts pos1 s p st d)"
    if "inside ts pos pos1" "valid_iri p" for pos1 p
  proof -
    have "pos1 < length ts" "4 * (length ts - pos1) + 2 \<le> n" using that(1) n unfolding inside_def by arith+
    then show ?thesis using nested_okD(3) [OF IH _ st _ s that(2)] by blast
  qed
  have more: "returns ts pos (parse_predicate_object_list S n ts q s st' d)"
    if "inside ts pos q" "valid_state st'" for q st'
    using that n by (intro returns_mono [OF nested_okD(2) [OF IH _ that(2) _ s]]) (auto simp: inside_def)
  have semi: "inside ts pos (skip_semicolons ts (p + 1))"
    if "inside ts pos p" "is_kind ts p Semicolon" for p
    using skip_semicolons_inside [OF eof is_kind_next [OF eof that(2)]] that(1) by (auto simp: inside_def)
  show ?thesis
    unfolding parse_predicate_object_list.simps returns_def
  proof (rule holds_and_then [OF parse_predicate_holds [OF eof pos]], clarify, goal_cases)
    case (1 p pos1)
    show ?case
    proof (rule holds_and_then [OF ol [OF 1(2,1), unfolded returns_def]], clarify, goal_cases)
      case (1 pos2 st2)
      with \<open>inside ts pos pos1\<close> have "inside ts pos pos2" by (simp add: inside_def)
      then show ?case
        using 1 semi [of pos2] more [unfolded returns_def] by (simp add: Let_def)
    qed
  qed
qed

lemma object_list_step:
  assumes eof: "ends_eof ts" and IH: "nested_ok S ts n" and pos: "pos < length ts" and st: "valid_state st"
    and s: "valid_subject s" "valid_iri p" and n: "4 * (length ts - pos) + 1 \<le> n"
  shows "returns ts pos (parse_object_list S (Suc n) ts pos s p st d)"
proof -
  have more: "returns ts pos (parse_object_list S n ts q s p st' d)"
    if "inside ts pos q" "valid_state st'" for q st'
    using that n by (intro returns_mono [OF nested_okD(3) [OF IH _ that(2) _ s]]) (auto simp: inside_def)
  have comma: "inside ts pos (Suc q)" if "inside ts pos q" "is_kind ts q Comma" for q
    using is_kind_next [OF eof that(2)] that(1) by (simp add: inside_def)
  show ?thesis
    unfolding parse_object_list.simps returns_def
  proof (rule holds_and_then [OF nested_okD(1) [OF IH pos st n, unfolded returns_term_def]], clarify, goal_cases)
    case (1 x q st')
    then show ?case
      using comma [of q] more [unfolded returns_def] s by (simp add: Let_def valid)
  qed
qed

lemma property_list_step:
  assumes eof: "ends_eof ts" and IH: "nested_ok S ts n" and pos: "pos < length ts" and st: "valid_state st"
    and n: "4 * (length ts - pos) + 1 \<le> n"
  shows "returns_term (\<lambda>b. True) ts pos (parse_blank_node_property_list S (Suc n) ts pos st d)"
proof -
  have close: "inside ts pos (Suc q)" if "pos \<le> q" "is_kind ts q CloseBracket" for q
    using is_kind_next [OF eof that(2)] that(1) by (simp add: inside_def)
  obtain b st1 where b: "next_blank st = (b, st1)" by (cases "next_blank st")
  then have st1: "valid_state st1" using st next_blank_valid by simp
  show ?thesis
  proof (cases "MAX_NESTING_DEPTH < d \<or> is_kind ts pos CloseBracket")
    case True
    then show ?thesis using b st1 close [of pos] by (auto simp: returns_term_def)
  next
    case False
    show ?thesis
      using False b
      apply (simp add: returns_term_def)
      apply (rule holds_and_then [OF nested_okD(2) [OF IH pos st1 n, unfolded returns_def]])
      using close by (auto simp: inside_def)
  qed
qed

lemma collection_step:
  assumes eof: "ends_eof ts" and IH: "nested_ok S ts n" and pos: "pos < length ts" and st: "valid_state st"
    and n: "4 * (length ts - pos) + 2 \<le> n"
  shows "returns_term valid_subject ts pos (parse_collection S (Suc n) ts pos st d)"
proof -
  have close: "inside ts pos (Suc pos)" if "is_kind ts pos CloseParen"
    using is_kind_next [OF eof that] by (simp add: inside_def)
  obtain b st1 where b: "next_blank st = (b, st1)" by (cases "next_blank st")
  then have st1: "valid_state st1" using st next_blank_valid by simp
  show ?thesis
  proof (cases "MAX_NESTING_DEPTH < d \<or> is_kind ts pos CloseParen")
    case True
    then show ?thesis using st close by (auto simp: returns_term_def valid)
  next
    case False
    show ?thesis
      using False b
      apply (simp add: returns_term_def)
      apply (rule holds_and_then [OF nested_okD(6) [OF IH pos st1 n, unfolded returns_def]])
      by auto
  qed
qed

lemma loop_step:
  assumes eof: "ends_eof ts" and IH: "nested_ok S ts n" and pos: "pos < length ts" and st: "valid_state st"
    and n: "4 * (length ts - pos) + 1 \<le> n"
  shows "returns ts pos (collection_loop S (Suc n) ts pos b st d)"
proof -
  have close: "inside ts pos (Suc q)" if "inside ts pos q" "is_kind ts q CloseParen" for q
    using is_kind_next [OF eof that(2)] that(1) by (simp add: inside_def)
  have more: "returns ts pos (collection_loop S n ts q b' st' d)"
    if "inside ts pos q" "valid_state st'" for q st' b'
    using that n by (intro returns_mono [OF nested_okD(6) [OF IH _ that(2)]]) (auto simp: inside_def)
  show ?thesis
    unfolding collection_loop.simps returns_def
  proof (rule holds_and_then [OF nested_okD(1) [OF IH pos st n, unfolded returns_term_def]], clarify, goal_cases)
    case (1 x q st')
    obtain b' st2 where b: "next_blank (push_triple (triple_new (SubjBlank b) list_first x) st') = (b', st2)"
      by (cases "next_blank (push_triple (triple_new (SubjBlank b) list_first x) st')")
    with 1 have "valid_state st2" using next_blank_valid [OF b] by (simp add: valid)
    with 1 b show ?case
      using close [of q] more [unfolded returns_def] by (simp add: Let_def valid)
  qed
qed

lemma nested_ok: "ends_eof ts \<Longrightarrow> nested_ok S ts n"
proof (induction n)
  case 0
  then show ?case by (simp add: nested_ok_def)
next
  case (Suc n)
  show ?case
    unfolding nested_ok_def Let_def
  proof (intro allI impI, elim conjE, intro conjI impI, goal_cases)
    case 1 show ?case by (rule object_step [OF Suc.prems Suc.IH [OF Suc.prems] 1(1,2)]) (use 1 in simp)
  next
    case 2 show ?case by (rule predicate_list_step [OF Suc.prems Suc.IH [OF Suc.prems] 2(1,2)]) (use 2 in auto)
  next
    case 3 show ?case by (rule object_list_step [OF Suc.prems Suc.IH [OF Suc.prems] 3(1,2)]) (use 3 in auto)
  next
    case 4 show ?case by (rule property_list_step [OF Suc.prems Suc.IH [OF Suc.prems] 4(1,2)]) (use 4 in simp)
  next
    case 5 show ?case by (rule collection_step [OF Suc.prems Suc.IH [OF Suc.prems] 5(1,2)]) (use 5 in simp)
  next
    case 6 show ?case by (rule loop_step [OF Suc.prems Suc.IH [OF Suc.prems] 6(1,2)]) (use 6 in simp)
  qed
qed

subsection \<open>Statements and documents\<close>

lemma parse_subject_returns:
  assumes eof: "ends_eof ts" and pos: "pos < length ts" and st: "valid_state st"
    and n: "4 * (length ts - pos) \<le> n"
  shows "returns_term valid_subject ts pos (parse_subject S n ts pos st d)"
proof -
  note IH = nested_ok [OF eof, of S n]
  have one: "inside ts pos (pos + 1)" if "tk_kind (ts ! pos) \<noteq> Eof"
    using inside_step [OF eof pos that] by simp
  note opened = opened_bracket [OF IH st n] opened_paren [OF IH st n]
  show ?thesis
    unfolding parse_subject_def returns_term_def
  proof (rule holds_tok [OF pos], cases "MAX_NESTING_DEPTH < d", goal_cases)
    case 2
    then show ?case
      using one st
      by (cases "tk_kind (ts ! pos)")
        (auto simp: valid returns_term_def dest: get_blank_valid split: prod.splits
          intro!: holds_and_then [OF resolve_iri_holds] holds_and_then [OF expand_holds]
            opened(1) [unfolded returns_term_def, THEN holds_and_then]
            opened(2) [unfolded returns_term_def, THEN holds_mono])
  qed simp
qed

lemma parse_triples_returns:
  assumes eof: "ends_eof ts" and pos: "pos < length ts" and st: "valid_state st"
    and n: "4 * (length ts - pos) \<le> n"
  shows "returns ts pos (parse_triples S n ts pos st)"
  unfolding parse_triples_def returns_def
proof (rule holds_and_then [OF parse_subject_returns [OF eof pos st n, unfolded returns_term_def]], clarify, goal_cases)
  case (1 s pos1 st1)
  then have "returns ts pos1 (parse_predicate_object_list S n ts pos1 s st1 0)"
    using n by (intro nested_okD(2) [OF nested_ok [OF eof]]) (auto simp: inside_def)
  then show ?case
    unfolding returns_def
    by (rule holds_and_then) (use 1 skip_dot_inside [OF eof] in \<open>fastforce simp: inside_def\<close>)
qed

lemma prefix_directive_returns:
  assumes eof: "ends_eof ts" and next1: "inside ts pos (pos + 1)" and st: "valid_state st"
  shows "returns ts pos (parse_prefix_directive ts pos st)" "returns ts pos (parse_base_directive ts pos st)"
proof -
  have p1: "pos + 1 < length ts" using next1 by (simp add: inside_def)
  have decl: "holds (\<lambda>(pfx, p). inside ts (pos + 1) p) (expect_prefix_decl ts (pos + 1))"
    unfolding expect_prefix_decl_def
    by (rule holds_tok [OF p1]) (use inside_step [OF eof p1] in \<open>auto split: token_kind.splits\<close>)
  have ref: "holds (\<lambda>(i, q). inside ts p q) (expect_iri_ref ts p)" if "p < length ts" for p
    unfolding expect_iri_ref_def
    by (rule holds_tok [OF that])
      (use inside_step [OF eof that] in \<open>auto split: token_kind.splits intro!: holds_and_then [where P = "\<lambda>_. True"]\<close>)
  note dot = skip_dot_inside [OF eof]
  show "returns ts pos (parse_prefix_directive ts pos st)"
    unfolding returns_def parse_prefix_directive_def
  proof (rule holds_and_then [OF decl], clarify, goal_cases)
    case (1 pfx q)
    show ?case
      by (rule holds_and_then [OF ref])
        (use 1 dot st in \<open>fastforce simp: inside_def valid\<close>)+
  qed
  show "returns ts pos (parse_base_directive ts pos st)"
    unfolding returns_def parse_base_directive_def
    by (rule holds_and_then [OF ref [OF p1]]) (use dot st in \<open>fastforce simp: inside_def valid\<close>)
qed

lemma parse_statement_returns:
  assumes eof: "ends_eof ts" and pos: "pos < length ts" and k: "tk_kind (ts ! pos) \<noteq> Eof" and st: "valid_state st"
    and n: "4 * (length ts - pos) \<le> n"
  shows "returns ts pos (parse_statement S n ts pos st)"
  using prefix_directive_returns [OF eof _ st, of pos] inside_step [OF eof pos k] parse_triples_returns [OF eof pos st n] pos
  by (simp add: parse_statement_def tok_def split: token_kind.splits)

lemma parse_loop_returns:
  assumes eof: "ends_eof ts"
  shows "pos < length ts \<Longrightarrow> valid_state st \<Longrightarrow> length ts - pos \<le> k \<Longrightarrow> 4 * length ts \<le> n \<Longrightarrow>
    holds valid_state (parse_loop S n k ts pos st)"
proof (induction k arbitrary: pos st)
  case (Suc k)
  show ?case
  proof (cases "tk_kind (ts ! pos) = Eof")
    case False
    have "returns ts pos (parse_statement S n ts pos st)"
      using Suc.prems by (intro parse_statement_returns [OF eof _ False]) simp_all
    then have "holds valid_state (and_then (parse_statement S n ts pos st) (\<lambda>(p, st'). parse_loop S n k ts p st'))"
      unfolding returns_def
      by (rule holds_and_then) (use Suc in \<open>auto simp: inside_def\<close>)
    with False Suc.prems show ?thesis by simp
  qed (use Suc.prems in simp)
qed simp

lemma parse_tokens_returns:
  assumes "ends_eof ts"
  shows "holds (\<lambda>(triples, st'). list_all valid_triple triples) (parse_tokens S ts st)"
  unfolding parse_tokens_def
  by (rule holds_and_then [OF parse_loop_returns [OF assms]])
    (use assms in \<open>auto simp: ends_eof_def valid fuel_for_def valid_state_def\<close>)

lemma turtle_parse_holds:
  assumes "std_ok S"
  shows "holds (\<lambda>(triples, st'). list_all valid_triple triples) (turtle_parse S st input)"
proof -
  obtain r where r: "tokenize S (lexer_new input) = Some r"
    "case r of Inl e \<Rightarrow> True | Inr ts \<Rightarrow> ts \<noteq> [] \<and> tk_kind (last ts) = Eof"
    using tokenize_total [OF assms, of "lexer_new input"] by (fastforce split: sum.splits)
  then show ?thesis
    using parse_tokens_returns [of _ S st] by (cases r) (auto simp: turtle_parse_def ends_eof_def)
qed

text \<open>C22: on every text and from every state the Turtle parser returns: it ends, it never indexes
  its token vector out of range, and its answer is either one of the parser's errors or a vector
  of triples in which every IRI and language tag has passed the validation of its constructor.\<close>

theorem turtle_parse_total:
  assumes "std_ok S"
  shows "(\<exists>e. turtle_parse S st input = Inl (Fail e)) \<or>
    (\<exists>triples st'. turtle_parse S st input = Inr (triples, st') \<and> list_all valid_triple triples)"
  using turtle_parse_holds [OF assms, of st input]
  by (cases "(\<lambda>x :: triple list \<times> turtle_parser. case x of (t, st') \<Rightarrow> list_all valid_triple t, turtle_parse S st input)"
      rule: holds.cases) auto

theorem turtle_parse_total_witness:
  "(\<exists>e. turtle_parse ascii_std (fst (tp_new 0)) (lit ''(1'') = Inl (Fail e)) \<or>
    (\<exists>triples st'. turtle_parse ascii_std (fst (tp_new 0)) (lit ''(1'') = Inr (triples, st') \<and>
       list_all valid_triple triples)"
  by (rule turtle_parse_total [OF ascii_std_ok])

subsection \<open>Evaluation\<close>

text \<open>The rules that evaluate the lexer and the parser on a given text.\<close>

lemma fuel_for_step: "fuel_for [] = Suc (Suc (Suc (Suc 0)))" "fuel_for (t # ts) = Suc (Suc (Suc (Suc (fuel_for ts))))"
  by (simp_all add: fuel_for_def)

lemma std_on_ascii:
  "std_ok S \<Longrightarrow> c < 128 \<Longrightarrow> u_alphabetic S c = is_ascii_alphabetic c"
  "std_ok S \<Longrightarrow> c < 128 \<Longrightarrow> u_alphanumeric S c = is_ascii_alphanumeric c"
  "std_ok S \<Longrightarrow> list_all (\<lambda>c. c < 128) s \<Longrightarrow> to_lowercase S s = map ascii_lower s"
  by (simp_all add: std_ok_def)

lemmas lexer_eval = lit_def lexer_new_def next_token_def read_kind_def char_class_defs read_iri_ref_def
  prefixed_token_def read_pn_local_def is_pn_chars_def is_pn_chars_base_def is_pn_chars_u_def
  read_at_keyword_def read_blank_node_label_def read_double_caret_def read_string_literal_def
  read_word_def read_digits_def is_pn_char_or_colon_def read_prefixed_name_from_def
  read_prefixed_name_from_word_def integer_token_def read_sign_def read_exponent_def read_number_def
  adv_pos_def unescape_def ascii_lower_def tokenize.simps std_on_ascii

lemmas parser_eval = turtle_parse_def parse_tokens_def parse_statement_def parse_triples_def parse_subject_def
  parse_prefix_directive_def parse_base_directive_def expect_prefix_decl_def expect_iri_ref_def tok_def
  is_kind_def skip_dot_def parse_predicate_def parse_literal_def parse_datatype_iri_def skip_semicolons.simps
  resolve_iri_def expand_prefixed_name_def MAX_NESTING_DEPTH_def lift_err_def iri_new_def tp_new_def Let_def
  get_or_create_blank_node_def next_blank_def push_triple_def reg_get_add validate_def
  literal_with_language_def validate_language_tag_def scope_generate_def fuel_for_step split_beta

end
