(* ===== verification/Sparql.thy ===== *)
theory Sparql
  imports Prelude
begin

section \<open>SPARQL queries (parser/src/sparql)\<close>

text \<open>
  The algebra that the third-party grammar (\<open>spargebra\<close>) produces, with the constructors that
  the source matches on; the crate's own query types; the extraction of the variables and of
  the solution modifiers of a query; its validation; and the prefix map. Parts of the algebra
  that the code never inspects (property paths, aggregates, service names) are left out, and a
  literal is what the code reads of it: value, datatype and printed form. Variables, IRIs and
  labels are their texts.
\<close>

subsection \<open>The algebra of the grammar\<close>

record sp_literal =
  sl_value :: rstr
  sl_datatype :: rstr
  sl_display :: rstr

datatype sp_term = TpVariable rstr | TpNamedNode rstr | TpBlankNode rstr | TpLiteral sp_literal

datatype sp_pred = NnpNamedNode rstr | NnpVariable rstr

datatype ground_term = GtNamedNode rstr | GtLiteral sp_literal

record sp_triple =
  st_subject :: sp_term
  st_predicate :: sp_pred
  st_object :: sp_term

datatype sp_function =
    FStr | FStrLen | FUCase | FLCase | FContains | FStrStarts | FStrEnds | FRegex | FSubStr | FConcat
  | FReplace | FLang | FDatatype | FIsIri | FIsBlank | FIsLiteral | FIsNumeric | FAbs | FCeil | FFloor
  | FRound | FOther rstr

datatype gp =
    Bgp "sp_triple list"
  | PathP sp_term sp_term
  | JoinP gp gp
  | LeftJoin gp gp "sp_expr option"
  | FilterP sp_expr gp
  | UnionP gp gp
  | GraphP sp_pred gp
  | Extend gp rstr sp_expr
  | MinusP gp gp
  | Values "rstr list" "ground_term option list list"
  | OrderBy gp "order_expr list"
  | Project gp "rstr list"
  | DistinctP gp
  | Reduced gp
  | Slice gp nat "nat option"
  | Group gp "rstr list"
  | Service gp
and sp_expr =
    ENamedNode rstr
  | ELiteral sp_literal
  | EVariable rstr
  | EOr sp_expr sp_expr
  | EAnd sp_expr sp_expr
  | EEqual sp_expr sp_expr
  | ESameTerm sp_expr sp_expr
  | EGreater sp_expr sp_expr
  | EGreaterOrEqual sp_expr sp_expr
  | ELess sp_expr sp_expr
  | ELessOrEqual sp_expr sp_expr
  | EIn sp_expr "sp_expr list"
  | EAdd sp_expr sp_expr
  | ESubtract sp_expr sp_expr
  | EMultiply sp_expr sp_expr
  | EDivide sp_expr sp_expr
  | EUnaryPlus sp_expr
  | EUnaryMinus sp_expr
  | ENot sp_expr
  | EExists gp
  | EBound rstr
  | EIf sp_expr sp_expr sp_expr
  | ECoalesce "sp_expr list"
  | EFunctionCall sp_function "sp_expr list"
and order_expr = Asc sp_expr | Desc sp_expr

record sp_dataset =
  sd_default :: "rstr list"
  sd_named :: "rstr list option"

datatype sp_query =
    SpSelect gp "sp_dataset option"
  | SpConstruct "sp_triple list" gp "sp_dataset option"
  | SpAsk gp "sp_dataset option"
  | SpDescribe gp "sp_dataset option"

subsection \<open>The crate's query types (ast.rs)\<close>

datatype ast_term = AVariable rstr | ANamedNode rstr | ALiteral rstr | ABlankNode rstr

record ast_triple =
  at_subject :: ast_term
  at_predicate :: ast_term
  at_object :: ast_term

record order_condition =
  oc_expression :: sp_expr
  oc_descending :: bool

record query_dataset =
  default_graphs :: "rstr list"
  named_graphs :: "rstr list"

record select_query =
  sq_inner :: sp_query
  sq_projection :: "rstr list option"
  sq_distinct :: bool
  sq_reduced :: bool
  sq_pattern :: gp
  sq_dataset :: "query_dataset option"
  sq_order_by :: "order_condition list option"
  sq_limit :: "nat option"
  sq_offset :: "nat option"
  sq_group_by :: "rstr list option"
  sq_having :: "sp_expr option"

record construct_query =
  cq_inner :: sp_query
  cq_template :: "ast_triple list"
  cq_pattern :: gp
  cq_dataset :: "query_dataset option"

record ask_query =
  aq_inner :: sp_query
  aq_pattern :: gp
  aq_dataset :: "query_dataset option"

record describe_query =
  dq_inner :: sp_query
  dq_resources :: "ast_term list"
  dq_pattern :: gp
  dq_dataset :: "query_dataset option"

datatype query = QSelect select_query | QConstruct construct_query | QAsk ask_query | QDescribe describe_query

fun is_variable :: "ast_term \<Rightarrow> bool" where
  "is_variable (AVariable _) = True" | "is_variable _ = False"

fun as_variable :: "ast_term \<Rightarrow> rstr option" where
  "as_variable (AVariable v) = Some v" | "as_variable _ = None"

fun is_select :: "query \<Rightarrow> bool" where
  "is_select (QSelect _) = True" | "is_select _ = False"

fun is_construct :: "query \<Rightarrow> bool" where
  "is_construct (QConstruct _) = True" | "is_construct _ = False"

fun is_ask :: "query \<Rightarrow> bool" where
  "is_ask (QAsk _) = True" | "is_ask _ = False"

fun is_describe :: "query \<Rightarrow> bool" where
  "is_describe (QDescribe _) = True" | "is_describe _ = False"

fun as_select :: "query \<Rightarrow> select_query option" where
  "as_select (QSelect q) = Some q" | "as_select _ = None"

fun as_construct :: "query \<Rightarrow> construct_query option" where
  "as_construct (QConstruct q) = Some q" | "as_construct _ = None"

fun as_ask :: "query \<Rightarrow> ask_query option" where
  "as_ask (QAsk q) = Some q" | "as_ask _ = None"

fun as_describe :: "query \<Rightarrow> describe_query option" where
  "as_describe (QDescribe q) = Some q" | "as_describe _ = None"

fun query_pattern :: "query \<Rightarrow> gp" where
  "query_pattern (QSelect q) = sq_pattern q"
| "query_pattern (QConstruct q) = cq_pattern q"
| "query_pattern (QAsk q) = aq_pattern q"
| "query_pattern (QDescribe q) = dq_pattern q"

fun dataset_of_query :: "query \<Rightarrow> query_dataset option" where
  "dataset_of_query (QSelect q) = sq_dataset q"
| "dataset_of_query (QConstruct q) = cq_dataset q"
| "dataset_of_query (QAsk q) = aq_dataset q"
| "dataset_of_query (QDescribe q) = dq_dataset q"

fun query_inner :: "query \<Rightarrow> sp_query" where
  "query_inner (QSelect q) = sq_inner q"
| "query_inner (QConstruct q) = cq_inner q"
| "query_inner (QAsk q) = aq_inner q"
| "query_inner (QDescribe q) = dq_inner q"

definition dataset_is_empty :: "query_dataset \<Rightarrow> bool" where
  "dataset_is_empty d \<longleftrightarrow> default_graphs d = [] \<and> named_graphs d = []"

definition with_prefix :: "rstr \<Rightarrow> rstr" where
  "with_prefix v = lit ''?'' @ v"

subsection \<open>Variables\<close>

definition MAX_EXTRACT_DEPTH :: nat where "MAX_EXTRACT_DEPTH = 128"

fun term_var :: "sp_term \<Rightarrow> rstr fset" where
  "term_var (TpVariable v) = {|v|}" | "term_var _ = {||}"

fun pred_var :: "sp_pred \<Rightarrow> rstr fset" where
  "pred_var (NnpVariable v) = {|v|}" | "pred_var _ = {||}"

definition triple_vars :: "sp_triple \<Rightarrow> rstr fset" where
  "triple_vars t = term_var (st_subject t) |\<union>| pred_var (st_predicate t) |\<union>| term_var (st_object t)"

fun extract_variables_with_depth :: "gp \<Rightarrow> nat \<Rightarrow> rstr fset" where
  "extract_variables_with_depth p depth =
     (if depth > MAX_EXTRACT_DEPTH then {||}
      else case p of
        Bgp ts \<Rightarrow> fold (\<lambda>t vs. vs |\<union>| triple_vars t) ts {||}
      | PathP s x \<Rightarrow> term_var s |\<union>| term_var x
      | JoinP l r \<Rightarrow> extract_variables_with_depth l (depth + 1) |\<union>| extract_variables_with_depth r (depth + 1)
      | LeftJoin l r e \<Rightarrow> extract_variables_with_depth l (depth + 1) |\<union>| extract_variables_with_depth r (depth + 1)
      | MinusP l r \<Rightarrow> extract_variables_with_depth l (depth + 1) |\<union>| extract_variables_with_depth r (depth + 1)
      | UnionP l r \<Rightarrow> extract_variables_with_depth l (depth + 1) |\<union>| extract_variables_with_depth r (depth + 1)
      | FilterP e inner \<Rightarrow> extract_variables_with_depth inner (depth + 1)
      | GraphP g inner \<Rightarrow> extract_variables_with_depth inner (depth + 1)
      | Extend inner v e \<Rightarrow> finsert v (extract_variables_with_depth inner (depth + 1))
      | Group inner vs \<Rightarrow> extract_variables_with_depth inner (depth + 1) |\<union>| fset_of_list vs
      | Values vs rows \<Rightarrow> fset_of_list vs
      | OrderBy inner es \<Rightarrow> extract_variables_with_depth inner (depth + 1)
      | DistinctP inner \<Rightarrow> extract_variables_with_depth inner (depth + 1)
      | Reduced inner \<Rightarrow> extract_variables_with_depth inner (depth + 1)
      | Project inner vs \<Rightarrow> extract_variables_with_depth inner (depth + 1) |\<union>| fset_of_list vs
      | Slice inner k n \<Rightarrow> extract_variables_with_depth inner (depth + 1)
      | Service inner \<Rightarrow> extract_variables_with_depth inner (depth + 1))"

declare extract_variables_with_depth.simps [simp del]

definition extract_variables :: "gp \<Rightarrow> rstr fset" where
  "extract_variables p = extract_variables_with_depth p 0"

fun pattern_is_empty :: "gp \<Rightarrow> bool" where
  "pattern_is_empty (Bgp ts) = (ts = [])" | "pattern_is_empty _ = False"

definition ast_triple_variables :: "ast_triple \<Rightarrow> rstr fset" where
  "ast_triple_variables t = (case at_subject t of AVariable v \<Rightarrow> {|v|} | _ \<Rightarrow> {||}) |\<union>|
     (case at_predicate t of AVariable v \<Rightarrow> {|v|} | _ \<Rightarrow> {||}) |\<union>|
     (case at_object t of AVariable v \<Rightarrow> {|v|} | _ \<Rightarrow> {||})"

definition is_select_all :: "select_query \<Rightarrow> bool" where
  "is_select_all q \<longleftrightarrow> sq_projection q = None"

text \<open>Without a projection the variables come in the iteration order of the hash set.\<close>

definition projected_variables :: "(rstr fset \<Rightarrow> rstr list) \<Rightarrow> select_query \<Rightarrow> rstr list" where
  "projected_variables iter q =
     (case sq_projection q of Some vs \<Rightarrow> vs | None \<Rightarrow> iter (extract_variables (sq_pattern q)))"

definition select_variables :: "select_query \<Rightarrow> rstr fset" where
  "select_variables q = extract_variables (sq_pattern q) |\<union>|
     (case sq_projection q of Some vs \<Rightarrow> fset_of_list vs | None \<Rightarrow> {||})"

definition construct_variables :: "construct_query \<Rightarrow> rstr fset" where
  "construct_variables q = fold (\<lambda>t vs. vs |\<union>| ast_triple_variables t) (cq_template q) (extract_variables (cq_pattern q))"

definition ask_variables :: "ask_query \<Rightarrow> rstr fset" where
  "ask_variables q = extract_variables (aq_pattern q)"

definition describe_variables :: "describe_query \<Rightarrow> rstr fset" where
  "describe_variables q = fold (\<lambda>r vs. case r of AVariable v \<Rightarrow> finsert v vs | _ \<Rightarrow> vs)
     (dq_resources q) (extract_variables (dq_pattern q))"

fun query_variables :: "query \<Rightarrow> rstr fset" where
  "query_variables (QSelect q) = select_variables q"
| "query_variables (QConstruct q) = construct_variables q"
| "query_variables (QAsk q) = ask_variables q"
| "query_variables (QDescribe q) = describe_variables q"

subsection \<open>From the grammar's query (parser.rs)\<close>

record select_modifiers =
  sm_projection :: "rstr list option"
  sm_distinct :: bool
  sm_reduced :: bool
  sm_order_by :: "order_condition list option"
  sm_limit :: "nat option"
  sm_offset :: "nat option"
  sm_group_by :: "rstr list option"
  sm_having :: "sp_expr option"

definition no_modifiers :: select_modifiers where
  "no_modifiers = \<lparr>sm_projection = None, sm_distinct = False, sm_reduced = False, sm_order_by = None,
     sm_limit = None, sm_offset = None, sm_group_by = None, sm_having = None\<rparr>"

fun order_condition_of :: "order_expr \<Rightarrow> order_condition" where
  "order_condition_of (Asc e) = \<lparr>oc_expression = e, oc_descending = False\<rparr>"
| "order_condition_of (Desc e) = \<lparr>oc_expression = e, oc_descending = True\<rparr>"

text \<open>The loop of \<open>extract_select_modifiers\<close>.\<close>

fun modifiers_loop :: "gp \<Rightarrow> select_modifiers \<Rightarrow> select_modifiers \<times> gp" where
  "modifiers_loop (Project inner vs) m = modifiers_loop inner (m\<lparr>sm_projection := Some vs\<rparr>)"
| "modifiers_loop (DistinctP inner) m = modifiers_loop inner (m\<lparr>sm_distinct := True\<rparr>)"
| "modifiers_loop (Reduced inner) m = modifiers_loop inner (m\<lparr>sm_reduced := True\<rparr>)"
| "modifiers_loop (OrderBy inner es) m =
     modifiers_loop inner (m\<lparr>sm_order_by := Some (map order_condition_of es)\<rparr>)"
| "modifiers_loop (Slice inner start len) m =
     modifiers_loop inner ((if 0 < start then m\<lparr>sm_offset := Some start\<rparr> else m)\<lparr>sm_limit := len\<rparr>)"
| "modifiers_loop (Group inner vs) m = modifiers_loop inner (m\<lparr>sm_group_by := Some vs\<rparr>)"
| "modifiers_loop p m = (m, p)"

definition extract_select_modifiers :: "gp \<Rightarrow> select_modifiers \<times> gp" where
  "extract_select_modifiers p = modifiers_loop p no_modifiers"

fun extract_describe_resources :: "gp \<Rightarrow> ast_term list \<times> gp" where
  "extract_describe_resources (Project inner vs) = (map AVariable vs, inner)"
| "extract_describe_resources p = ([], p)"

definition convert_dataset :: "sp_dataset option \<Rightarrow> query_dataset option" where
  "convert_dataset d = (if d \<noteq> None then Some \<lparr>default_graphs = [], named_graphs = []\<rparr> else None)"

fun convert_term_pattern :: "sp_term \<Rightarrow> ast_term" where
  "convert_term_pattern (TpVariable v) = AVariable v"
| "convert_term_pattern (TpNamedNode n) = ANamedNode n"
| "convert_term_pattern (TpBlankNode b) = ABlankNode b"
| "convert_term_pattern (TpLiteral l) = ALiteral (sl_display l)"

fun convert_named_node_pattern :: "sp_pred \<Rightarrow> ast_term" where
  "convert_named_node_pattern (NnpVariable v) = AVariable v"
| "convert_named_node_pattern (NnpNamedNode n) = ANamedNode n"

definition convert_template :: "sp_triple list \<Rightarrow> ast_triple list" where
  "convert_template ts = map (\<lambda>t. \<lparr>at_subject = convert_term_pattern (st_subject t),
     at_predicate = convert_named_node_pattern (st_predicate t),
     at_object = convert_term_pattern (st_object t)\<rparr>) ts"

fun convert_query :: "sp_query \<Rightarrow> query" where
  "convert_query (SpSelect p d) =
     (let (m, inner) = extract_select_modifiers p
      in QSelect \<lparr>sq_inner = SpSelect p d, sq_projection = sm_projection m, sq_distinct = sm_distinct m,
           sq_reduced = sm_reduced m, sq_pattern = inner, sq_dataset = convert_dataset d,
           sq_order_by = sm_order_by m, sq_limit = sm_limit m, sq_offset = sm_offset m,
           sq_group_by = sm_group_by m, sq_having = sm_having m\<rparr>)"
| "convert_query (SpConstruct ts p d) =
     QConstruct \<lparr>cq_inner = SpConstruct ts p d, cq_template = convert_template ts, cq_pattern = p,
       cq_dataset = convert_dataset d\<rparr>"
| "convert_query (SpAsk p d) = QAsk \<lparr>aq_inner = SpAsk p d, aq_pattern = p, aq_dataset = convert_dataset d\<rparr>"
| "convert_query (SpDescribe p d) =
     (let (rs, inner) = extract_describe_resources p
      in QDescribe \<lparr>dq_inner = SpDescribe p d, dq_resources = rs, dq_pattern = inner,
           dq_dataset = convert_dataset d\<rparr>)"

end
