(* ===== verification/Translator.thy ===== *)
theory Translator
  imports CypherSafety Sparql "HOL-Library.List_Lexorder"
begin

section \<open>SPARQL to Cypher (mapper/src/query/translator.rs)\<close>

text \<open>
  The translation of the algebra to the text of one Cypher query. The translator's state is its
  variable counter, which also advances in parts whose error is dropped; \<open>Result\<close> is a sum in a
  monad over that counter. The vectors of MATCH parts and of conditions and the set of bound
  variables, which the code passes by mutable reference, are threaded through as one record.
  The order of the set of bound variables is an iteration function.
\<close>

datatype mapper_error = MappingError rstr | InvalidTransformation sp_expr

datatype cypher_query_type = CqSelect | CqAsk | CqConstruct

record cypher_query =
  cy_query :: rstr
  cy_variables :: "rstr list"
  cy_type :: cypher_query_type

subsection \<open>The monad over the variable counter\<close>

type_synonym 'a trans = "nat \<Rightarrow> (mapper_error + 'a) \<times> nat"

definition ret :: "'a \<Rightarrow> 'a trans" where
  "ret x c = (Inr x, c)"

definition fail :: "mapper_error \<Rightarrow> 'a trans" where
  "fail e c = (Inl e, c)"

definition bind :: "'a trans \<Rightarrow> ('a \<Rightarrow> 'b trans) \<Rightarrow> 'b trans" where
  "bind m f c = (case m c of (Inl e, c') \<Rightarrow> (Inl e, c') | (Inr x, c') \<Rightarrow> f x c')"

text \<open>\<open>.ok().flatten()\<close>: an error is dropped, the counter is kept.\<close>

definition ok_flatten :: "'a option trans \<Rightarrow> 'a option trans" where
  "ok_flatten m c = (case m c of (Inl e, c') \<Rightarrow> (Inr None, c') | (Inr x, c') \<Rightarrow> (Inr x, c'))"

definition next_var :: "rstr \<Rightarrow> rstr trans" where
  "next_var p c = (Inr (p @ lit ''_'' @ show_nat c), c + 1)"

subsection \<open>Terms\<close>

fun term_to_cypher :: "sp_term \<Rightarrow> (rstr \<times> rstr option) trans" where
  "term_to_cypher (TpVariable v) = ret (v, None)"
| "term_to_cypher (TpNamedNode n) =
     bind (next_var (lit ''n'')) (\<lambda>v. ret (v, Some (v @ lit ''.uri = '' @ quoted n)))"
| "term_to_cypher (TpBlankNode b) =
     bind (next_var (lit ''b'')) (\<lambda>v. ret (v, Some (v @ lit ''.uri = '' @ [c_squote] @ lit ''_:'' @ b @ [c_squote])))"
| "term_to_cypher (TpLiteral l) =
     bind (next_var (lit ''l'')) (\<lambda>v. ret (v, Some (v @ lit ''.value = '' @ quoted (sl_value l))))"

fun predicate_to_cypher :: "sp_pred \<Rightarrow> rstr" where
  "predicate_to_cypher (NnpNamedNode n) = lit ''{predicate: '' @ quoted n @ lit ''}''"
| "predicate_to_cypher (NnpVariable v) = []"

definition opt_list :: "'a option \<Rightarrow> 'a list" where
  "opt_list x = (case x of None \<Rightarrow> [] | Some y \<Rightarrow> [y])"

definition translate_triple_pattern :: "sp_triple \<Rightarrow> (rstr \<times> rstr list \<times> rstr fset) trans" where
  "translate_triple_pattern t =
     bind (term_to_cypher (st_subject t)) (\<lambda>(s, sc).
     bind (term_to_cypher (st_object t)) (\<lambda>(x, xc).
     bind (next_var (lit ''r'')) (\<lambda>r.
       ret (lit ''('' @ s @ lit '')-['' @ r @ predicate_to_cypher (st_predicate t) @ lit '']->('' @ x @ lit '')'',
            opt_list sc @ opt_list xc, triple_vars t))))"

fun ground_term_to_cypher :: "ground_term \<Rightarrow> rstr" where
  "ground_term_to_cypher (GtNamedNode n) = quoted n"
| "ground_term_to_cypher (GtLiteral l) = quoted (sl_value l)"

fun is_named_node :: "ground_term \<Rightarrow> bool" where
  "is_named_node (GtNamedNode _) = True" | "is_named_node _ = False"

subsection \<open>Expressions without patterns\<close>

definition numeric_datatypes :: "rstr list" where
  "numeric_datatypes = map (\<lambda>n. xsd_namespace @ lit n)
     [''integer'', ''decimal'', ''double'', ''float'', ''boolean'', ''nonNegativeInteger'',
      ''positiveInteger'', ''negativeInteger'', ''nonPositiveInteger'']"

definition literal_to_cypher :: "sp_literal \<Rightarrow> rstr" where
  "literal_to_cypher l =
     (if sl_datatype l \<in> set numeric_datatypes then sl_value l
      else if sl_datatype l = xsd_namespace @ lit ''date'' then lit ''date('' @ quoted (sl_value l) @ lit '')''
      else quoted (sl_value l))"

text \<open>The result of a binary operator: nothing when an operand has no translation.\<close>

definition both :: "rstr option \<Rightarrow> rstr option \<Rightarrow> (rstr \<Rightarrow> rstr \<Rightarrow> rstr) \<Rightarrow> rstr option" where
  "both a b f = (case (a, b) of (Some l, Some r) \<Rightarrow> Some (f l r) | _ \<Rightarrow> None)"

definition and_parts :: "rstr option \<Rightarrow> rstr option \<Rightarrow> rstr option" where
  "and_parts a b = (case (a, b) of (Some l, Some r) \<Rightarrow> Some (lit ''('' @ l @ lit '' AND '' @ r @ lit '')'')
     | (Some l, None) \<Rightarrow> Some l | (None, Some r) \<Rightarrow> Some r | (None, None) \<Rightarrow> None)"

definition paren :: "string \<Rightarrow> rstr \<Rightarrow> rstr \<Rightarrow> rstr" where
  "paren op l r = lit ''('' @ l @ lit op @ r @ lit '')''"

definition infix_op :: "string \<Rightarrow> rstr \<Rightarrow> rstr \<Rightarrow> rstr" where
  "infix_op op l r = l @ lit op @ r"

text \<open>The function call on its translated arguments.\<close>

definition first_arg :: "rstr list \<Rightarrow> (rstr \<Rightarrow> rstr) \<Rightarrow> rstr option" where
  "first_arg as f = (case as of [] \<Rightarrow> None | a # _ \<Rightarrow> Some (f a))"

definition call :: "string \<Rightarrow> rstr \<Rightarrow> rstr" where
  "call f a = lit f @ lit ''('' @ a @ lit '')''"

definition two_args :: "rstr list \<Rightarrow> string \<Rightarrow> rstr option" where
  "two_args as op = (case as of a # b # _ \<Rightarrow> Some (infix_op op a b) | _ \<Rightarrow> None)"

fun function_to_cypher :: "sp_function \<Rightarrow> rstr list \<Rightarrow> rstr option" where
  "function_to_cypher FStr as = first_arg as (call ''toString'')"
| "function_to_cypher FStrLen as = first_arg as (call ''size'')"
| "function_to_cypher FUCase as = first_arg as (call ''toUpper'')"
| "function_to_cypher FLCase as = first_arg as (call ''toLower'')"
| "function_to_cypher FContains as = two_args as '' CONTAINS ''"
| "function_to_cypher FStrStarts as = two_args as '' STARTS WITH ''"
| "function_to_cypher FStrEnds as = two_args as '' ENDS WITH ''"
| "function_to_cypher FRegex as = two_args as '' =~ ''"
| "function_to_cypher FSubStr as =
     (case as of
        [a, b] \<Rightarrow> Some (lit ''substring('' @ a @ lit '', '' @ b @ lit '' - 1)'')
      | a # b # c # _ \<Rightarrow> Some (lit ''substring('' @ a @ lit '', '' @ b @ lit '' - 1, '' @ c @ lit '')'')
      | _ \<Rightarrow> None)"
| "function_to_cypher FConcat as = (if as = [] then None else Some (lit ''('' @ join (lit '' + '') as @ lit '')''))"
| "function_to_cypher FReplace as =
     (case as of [a, b, c] \<Rightarrow> Some (lit ''replace('' @ a @ lit '', '' @ b @ lit '', '' @ c @ lit '')'') | _ \<Rightarrow> None)"
| "function_to_cypher FLang as = first_arg as (\<lambda>a. lit ''coalesce('' @ a @ lit ''.language, '' @ quoted [] @ lit '')'')"
| "function_to_cypher FDatatype as = first_arg as (\<lambda>a. a @ lit ''.datatype'')"
| "function_to_cypher FIsIri as = first_arg as (\<lambda>a. lit ''('' @ a @ lit ''.uri IS NOT NULL AND coalesce('' @ a @
     lit ''.isBlank, false) = false)'')"
| "function_to_cypher FIsBlank as = first_arg as (\<lambda>a. lit ''('' @ a @ lit ''.uri IS NOT NULL AND '' @ a @
     lit ''.isBlank = true)'')"
| "function_to_cypher FIsLiteral as = first_arg as (\<lambda>a. a @ lit ''.value IS NOT NULL'')"
| "function_to_cypher FIsNumeric as = first_arg as (\<lambda>a. lit ''toFloat('' @ a @ lit ''.value) IS NOT NULL'')"
| "function_to_cypher FAbs as = first_arg as (call ''abs'')"
| "function_to_cypher FCeil as = first_arg as (call ''ceil'')"
| "function_to_cypher FFloor as = first_arg as (call ''floor'')"
| "function_to_cypher FRound as = first_arg as (call ''round'')"
| "function_to_cypher (FOther f) as = None"

subsection \<open>Patterns and expressions\<close>

record pattern_state =
  ps_match :: "rstr list"
  ps_where :: "rstr list"
  ps_vars :: "rstr fset"

definition ps_empty :: "rstr fset \<Rightarrow> pattern_state" where
  "ps_empty vs = \<lparr>ps_match = [], ps_where = [], ps_vars = vs\<rparr>"

definition add_match :: "rstr list \<Rightarrow> pattern_state \<Rightarrow> pattern_state" where
  "add_match ms s = s\<lparr>ps_match := ps_match s @ ms\<rparr>"

definition add_where :: "rstr list \<Rightarrow> pattern_state \<Rightarrow> pattern_state" where
  "add_where ws s = s\<lparr>ps_where := ps_where s @ ws\<rparr>"

definition add_vars :: "rstr fset \<Rightarrow> pattern_state \<Rightarrow> pattern_state" where
  "add_vars vs s = s\<lparr>ps_vars := ps_vars s |\<union>| vs\<rparr>"

text \<open>The loop over the triple patterns of a BGP.\<close>

fun process_triples :: "sp_triple list \<Rightarrow> pattern_state \<Rightarrow> pattern_state trans" where
  "process_triples [] s = ret s"
| "process_triples (t # ts) s =
     bind (translate_triple_pattern t) (\<lambda>(m, ws, vs).
       process_triples ts (add_vars vs (add_where ws (add_match [m] s))))"

definition first_term :: "nat \<Rightarrow> ground_term option list list \<Rightarrow> ground_term option" where
  "first_term i rows = (case List.map_filter (\<lambda>row. if i < length row then row ! i else None) rows of
     [] \<Rightarrow> None | t # _ \<Rightarrow> Some t)"

definition values_row :: "rstr list \<Rightarrow> ground_term option list \<Rightarrow> rstr" where
  "values_row vs row = lit ''{'' @ join (lit '', '') (List.map_filter (\<lambda>(v, x).
     map_option (\<lambda>t. v @ lit '': '' @ ground_term_to_cypher t) x) (zip vs row)) @ lit ''}''"

definition values_condition :: "ground_term option list list \<Rightarrow> nat \<times> rstr \<Rightarrow> rstr" where
  "values_condition rows = (\<lambda>(i, v).
     (let prop = (case first_term i rows of Some t \<Rightarrow> if is_named_node t then lit ''uri'' else lit ''value''
        | None \<Rightarrow> lit ''value'')
      in v @ lit ''.'' @ prop @ lit '' = _values.'' @ v))"

definition process_values :: "rstr list \<Rightarrow> ground_term option list list \<Rightarrow> pattern_state \<Rightarrow> pattern_state" where
  "process_values vs rows s0 =
     (let s = add_vars (fset_of_list vs) s0
      in if length vs = 1 \<and> rows \<noteq> [] then
           (let terms = List.map_filter (\<lambda>row. case row of [] \<Rightarrow> None | x # _ \<Rightarrow> x) rows
            in if terms = [] then s
               else add_where [hd vs @ lit ''.'' @ (if list_all is_named_node terms then lit ''uri'' else lit ''value'') @
                      lit '' IN ['' @ join (lit '', '') (map ground_term_to_cypher terms) @ lit '']''] s)
         else if 1 < length vs \<and> rows \<noteq> [] then
           add_where (map (values_condition rows) (zip [0..<length vs] vs))
             (add_match [lit ''UNWIND ['' @ join (lit '', '') (map (values_row vs) rows) @ lit ''] AS _values''] s)
         else s)"

definition nested_union :: mapper_error where
  "nested_union = MappingError (lit ''Nested SPARQL UNION patterns are not yet supported. UNION must be the top-level graph pattern in the query.'')"

definition exists_clause :: "pattern_state \<Rightarrow> rstr option" where
  "exists_clause s =
     (if ps_match s = [] then None
      else let m = lit ''MATCH '' @ join (lit '', '') (ps_match s)
        in Some (lit ''EXISTS { '' @ m @ (if ps_where s = [] then [] else lit '' WHERE '' @ join (lit '' AND '') (ps_where s)) @ lit '' }''))"

text \<open>What OPTIONAL, BIND and MINUS add to the parts.\<close>

definition add_optional :: "pattern_state \<Rightarrow> pattern_state \<Rightarrow> pattern_state" where
  "add_optional opt s =
     (let s' = s\<lparr>ps_vars := ps_vars opt\<rparr>
      in if ps_match opt \<noteq> [] then add_match [lit ''OPTIONAL MATCH '' @ join (lit '', '') (ps_match opt)] s' else s')"

definition add_binding :: "rstr \<Rightarrow> rstr \<Rightarrow> pattern_state \<Rightarrow> pattern_state" where
  "add_binding v x s = add_vars {|v|} (add_match
     [(if ps_match s \<noteq> [] then lit ''WITH *, '' else lit ''WITH '') @ x @ lit '' AS '' @ v] s)"

definition add_minus :: "pattern_state \<Rightarrow> pattern_state \<Rightarrow> pattern_state" where
  "add_minus m s =
     (if ps_match m \<noteq> [] then add_where [lit ''NOT EXISTS { MATCH '' @ join (lit '', '') (ps_match m) @ lit '' }''] s else s)"

function (sequential) translate_expression :: "sp_expr \<Rightarrow> rstr option trans"
  and translate_list :: "sp_expr list \<Rightarrow> rstr list trans"
  and process_pattern :: "gp \<Rightarrow> pattern_state \<Rightarrow> pattern_state trans"
where
  "translate_expression (EEqual l r) = bind (translate_expression l) (\<lambda>a. bind (translate_expression r) (\<lambda>b.
     ret (both a b (infix_op '' = ''))))"
| "translate_expression (ESameTerm l r) = bind (translate_expression l) (\<lambda>a. bind (translate_expression r) (\<lambda>b.
     ret (both a b (infix_op '' = ''))))"
| "translate_expression (ELess l r) = bind (translate_expression l) (\<lambda>a. bind (translate_expression r) (\<lambda>b.
     ret (both a b (infix_op '' < ''))))"
| "translate_expression (EGreater l r) = bind (translate_expression l) (\<lambda>a. bind (translate_expression r) (\<lambda>b.
     ret (both a b (infix_op '' > ''))))"
| "translate_expression (ELessOrEqual l r) = bind (translate_expression l) (\<lambda>a. bind (translate_expression r) (\<lambda>b.
     ret (both a b (infix_op '' <= ''))))"
| "translate_expression (EGreaterOrEqual l r) = bind (translate_expression l) (\<lambda>a. bind (translate_expression r) (\<lambda>b.
     ret (both a b (infix_op '' >= ''))))"
| "translate_expression (EAnd l r) = bind (translate_expression l) (\<lambda>a. bind (translate_expression r) (\<lambda>b.
     ret (and_parts a b)))"
| "translate_expression (EOr l r) = bind (translate_expression l) (\<lambda>a. bind (translate_expression r) (\<lambda>b.
     ret (both a b (paren '' OR ''))))"
| "translate_expression (EAdd l r) = bind (translate_expression l) (\<lambda>a. bind (translate_expression r) (\<lambda>b.
     ret (both a b (paren '' + ''))))"
| "translate_expression (ESubtract l r) = bind (translate_expression l) (\<lambda>a. bind (translate_expression r) (\<lambda>b.
     ret (both a b (paren '' - ''))))"
| "translate_expression (EMultiply l r) = bind (translate_expression l) (\<lambda>a. bind (translate_expression r) (\<lambda>b.
     ret (both a b (paren '' * ''))))"
| "translate_expression (EDivide l r) = bind (translate_expression l) (\<lambda>a. bind (translate_expression r) (\<lambda>b.
     ret (both a b (paren '' / ''))))"
| "translate_expression (ENot e) = bind (translate_expression e) (\<lambda>a.
     ret (map_option (\<lambda>i. lit ''NOT ('' @ i @ lit '')'') a))"
| "translate_expression (EVariable v) = ret (Some v)"
| "translate_expression (ELiteral l) = ret (Some (literal_to_cypher l))"
| "translate_expression (ENamedNode n) = ret (Some (quoted n))"
| "translate_expression (EBound v) = ret (Some (v @ lit '' IS NOT NULL''))"
| "translate_expression (EIf c t e) = bind (translate_expression c) (\<lambda>x. bind (translate_expression t) (\<lambda>y.
     bind (translate_expression e) (\<lambda>z. ret (case (x, y, z) of
       (Some c', Some t', Some e') \<Rightarrow> Some (lit ''CASE WHEN '' @ c' @ lit '' THEN '' @ t' @ lit '' ELSE '' @ e' @ lit '' END'')
     | _ \<Rightarrow> None))))"
| "translate_expression (ECoalesce es) = bind (translate_list es) (\<lambda>as.
     ret (if as = [] then None else Some (call ''coalesce'' (join (lit '', '') as))))"
| "translate_expression (EFunctionCall f es) = bind (translate_list es) (\<lambda>as. ret (function_to_cypher f as))"
| "translate_expression (EIn e es) = bind (translate_expression e) (\<lambda>a. bind (translate_list es) (\<lambda>as.
     ret (case a of Some x \<Rightarrow> if as \<noteq> [] then Some (x @ lit '' IN ['' @ join (lit '', '') as @ lit '']'') else None
       | None \<Rightarrow> None)))"
| "translate_expression (EUnaryPlus e) = translate_expression e"
| "translate_expression (EUnaryMinus e) = bind (translate_expression e) (\<lambda>a.
     ret (map_option (\<lambda>i. lit ''-('' @ i @ lit '')'') a))"
| "translate_expression (EExists p) = bind (process_pattern p (ps_empty {||})) (\<lambda>s. ret (exists_clause s))"
| "translate_list [] = ret []"
| "translate_list (e # es) = bind (ok_flatten (translate_expression e)) (\<lambda>a. bind (translate_list es) (\<lambda>as.
     ret (opt_list a @ as)))"
| "process_pattern (Bgp ts) s = process_triples ts s"
| "process_pattern (JoinP l r) s = bind (process_pattern l s) (\<lambda>s1. process_pattern r s1)"
| "process_pattern (LeftJoin l r e) s = bind (process_pattern l s) (\<lambda>s1.
     bind (process_pattern r (ps_empty (ps_vars s1))) (\<lambda>opt.
       case e of None \<Rightarrow> ret (add_optional opt s1)
       | Some x \<Rightarrow> bind (translate_expression x) (\<lambda>f. ret (add_where (opt_list f) (add_optional opt s1)))))"
| "process_pattern (FilterP e p) s = bind (process_pattern p s) (\<lambda>s1. bind (translate_expression e) (\<lambda>f.
     ret (add_where (opt_list f) s1)))"
| "process_pattern (UnionP l r) s = fail nested_union"
| "process_pattern (Extend p v e) s = bind (process_pattern p s) (\<lambda>s1. bind (translate_expression e) (\<lambda>f.
     (case f of None \<Rightarrow> fail (InvalidTransformation e)
      | Some x \<Rightarrow> ret (add_binding v x s1))))"
| "process_pattern (OrderBy p es) s = process_pattern p s"
| "process_pattern (DistinctP p) s = process_pattern p s"
| "process_pattern (Reduced p) s = process_pattern p s"
| "process_pattern (Project p vs) s = bind (process_pattern p s) (\<lambda>s1. ret (add_vars (fset_of_list vs) s1))"
| "process_pattern (Slice p k n) s = process_pattern p s"
| "process_pattern (GraphP g p) s = process_pattern p s"
| "process_pattern (Group p vs) s = process_pattern p s"
| "process_pattern (Values vs rows) s = ret (process_values vs rows s)"
| "process_pattern (Service p) s = fail (MappingError (lit ''SERVICE clause not supported''))"
| "process_pattern (PathP a b) s = bind (term_to_cypher a) (\<lambda>(x, xc). bind (term_to_cypher b) (\<lambda>(y, yc).
     ret (add_vars (term_var a |\<union>| term_var b) (add_where (opt_list xc @ opt_list yc)
       (add_match [lit ''('' @ x @ lit '')-[*]->('' @ y @ lit '')''] s)))))"
| "process_pattern (MinusP l r) s = bind (process_pattern l s) (\<lambda>s1.
     bind (process_pattern r (ps_empty {||})) (\<lambda>m. ret (add_minus m s1)))"
  by pat_completeness auto

termination
  by (relation "measure (case_sum size (case_sum (size_list size) (\<lambda>(p, s). size p)))") simp_all

subsection \<open>Clauses\<close>

text \<open>\<open>build_match_clause\<close>: the accumulated plain patterns, then the clauses.\<close>

definition flush_patterns :: "rstr list \<Rightarrow> rstr list" where
  "flush_patterns cur = (if cur = [] then [] else [lit ''MATCH '' @ join (lit '', '') cur])"

definition is_own_clause :: "rstr \<Rightarrow> bool" where
  "is_own_clause p \<longleftrightarrow> prefix (lit ''OPTIONAL MATCH'') p \<or> prefix (lit ''WITH '') p \<or> prefix (lit ''UNWIND '') p"

fun match_loop :: "rstr list \<Rightarrow> rstr list \<Rightarrow> rstr list" where
  "match_loop [] cur = flush_patterns cur"
| "match_loop (p # ps) cur =
     (if is_own_clause p then flush_patterns cur @ p # match_loop ps [] else match_loop ps (cur @ [p]))"

definition build_match_clause :: "rstr list \<Rightarrow> rstr" where
  "build_match_clause ms = (if ms = [] then lit ''MATCH (n)'' else join [c_nl] (match_loop ms []))"

definition return_item :: "rstr \<Rightarrow> rstr" where
  "return_item v = lit ''CASE WHEN '' @ v @ lit '' IS NOT NULL THEN { uri: '' @ v @ lit ''.uri, value: '' @ v @
     lit ''.value } ELSE null END AS '' @ v"

definition build_return_clause :: "rstr list \<Rightarrow> bool \<Rightarrow> rstr" where
  "build_return_clause vs dist =
     [c_nl] @ lit ''RETURN '' @ (if dist then lit ''DISTINCT '' else []) @ join (lit '', '') (map return_item vs)"

text \<open>The conditions of ORDER BY: an expression with an error or no translation is left out.\<close>

fun order_parts :: "order_condition list \<Rightarrow> rstr list trans" where
  "order_parts [] = ret []"
| "order_parts (c # cs) = bind (ok_flatten (translate_expression (oc_expression c))) (\<lambda>a.
     bind (order_parts cs) (\<lambda>ps.
       ret (map (\<lambda>e. e @ (if oc_descending c then lit '' DESC'' else [])) (opt_list a) @ ps)))"

definition build_order_clause :: "order_condition list \<Rightarrow> rstr trans" where
  "build_order_clause cs = bind (order_parts cs) (\<lambda>ps.
     ret (if ps = [] then [] else [c_nl] @ lit ''ORDER BY '' @ join (lit '', '') ps))"

text \<open>ORDER BY, LIMIT and OFFSET, in this order.\<close>

definition modifiers_text :: "select_query \<Rightarrow> rstr trans" where
  "modifiers_text q = bind (case sq_order_by q of None \<Rightarrow> ret [] | Some cs \<Rightarrow> build_order_clause cs) (\<lambda>ob.
     ret (ob @ (case sq_limit q of None \<Rightarrow> [] | Some n \<Rightarrow> [c_nl] @ lit ''LIMIT '' @ show_nat n) @
       (case sq_offset q of None \<Rightarrow> [] | Some n \<Rightarrow> [c_nl] @ lit ''SKIP '' @ show_nat n)))"

subsection \<open>Queries\<close>

definition where_text :: "rstr list \<Rightarrow> rstr" where
  "where_text ws = (if join (lit '' AND '') ws = [] then [] else [c_nl] @ lit ''WHERE '' @ join (lit '' AND '') ws)"

definition translate_ask :: "gp \<Rightarrow> cypher_query trans" where
  "translate_ask p = bind (process_pattern p (ps_empty {||})) (\<lambda>s.
     ret \<lparr>cy_query = build_match_clause (ps_match s) @ where_text (ps_where s) @ [c_nl] @ lit ''RETURN count(*) > 0 AS result'',
          cy_variables = [lit ''result''], cy_type = CqAsk\<rparr>)"

fun flatten_union :: "gp \<Rightarrow> gp list" where
  "flatten_union (UnionP l r) = flatten_union l @ flatten_union r"
| "flatten_union p = [p]"

fun process_branches :: "gp list \<Rightarrow> pattern_state list trans" where
  "process_branches [] = ret []"
| "process_branches (p # ps) = bind (process_pattern p (ps_empty {||})) (\<lambda>s.
     bind (process_branches ps) (\<lambda>ss. ret (s # ss)))"

definition union_vars :: "pattern_state list \<Rightarrow> rstr fset" where
  "union_vars ss = fold (\<lambda>s vs. vs |\<union>| ps_vars s) ss {||}"

definition branch_query :: "rstr list \<Rightarrow> bool \<Rightarrow> pattern_state \<Rightarrow> rstr" where
  "branch_query vs dist s = build_match_clause (ps_match s) @
     (if ps_where s = [] then [] else [c_nl] @ lit ''WHERE '' @ join (lit '' AND '') (ps_where s)) @
     build_return_clause vs dist"

definition translate_select_union :: "(rstr fset \<Rightarrow> rstr list) \<Rightarrow> select_query \<Rightarrow> cypher_query trans" where
  "translate_select_union iter q = bind (process_branches (flatten_union (sq_pattern q))) (\<lambda>ss.
     let vs = (if is_select_all q then sort (iter (union_vars ss)) else projected_variables iter q);
         body = join (if sq_distinct q then [c_nl] @ lit ''UNION'' @ [c_nl] else [c_nl] @ lit ''UNION ALL'' @ [c_nl])
           (map (branch_query vs (sq_distinct q)) ss);
         cypher = (if sq_order_by q \<noteq> None \<or> sq_limit q \<noteq> None \<or> sq_offset q \<noteq> None
           then lit ''CALL {'' @ [c_nl] @ body @ [c_nl] @ lit ''}'' @ [c_nl] @ lit ''RETURN '' @
             (if vs = [] then lit ''*'' else join (lit '', '') vs)
           else body)
     in bind (modifiers_text q) (\<lambda>m. ret \<lparr>cy_query = cypher @ m, cy_variables = vs, cy_type = CqSelect\<rparr>))"

fun is_union :: "gp \<Rightarrow> bool" where
  "is_union (UnionP l r) = True" | "is_union _ = False"

definition translate_select :: "(rstr fset \<Rightarrow> rstr list) \<Rightarrow> select_query \<Rightarrow> cypher_query trans" where
  "translate_select iter q =
     (if is_union (sq_pattern q) then translate_select_union iter q
      else bind (process_pattern (sq_pattern q) (ps_empty {||})) (\<lambda>s.
        let vs = (if is_select_all q then iter (ps_vars s) else projected_variables iter q)
        in bind (modifiers_text q) (\<lambda>m.
          ret \<lparr>cy_query = build_match_clause (ps_match s) @ where_text (ps_where s) @
                 build_return_clause vs (sq_distinct q) @ m,
               cy_variables = vs, cy_type = CqSelect\<rparr>)))"

fun translate_query :: "(rstr fset \<Rightarrow> rstr list) \<Rightarrow> query \<Rightarrow> cypher_query trans" where
  "translate_query iter (QSelect q) = translate_select iter q"
| "translate_query iter (QAsk q) = translate_ask (aq_pattern q)"
| "translate_query iter (QConstruct q) = fail (MappingError (lit ''CONSTRUCT queries not yet supported''))"
| "translate_query iter (QDescribe q) = fail (MappingError (lit ''DESCRIBE queries not yet supported''))"

end
