(* ===== verification/SparqlFront.thy ===== *)
theory SparqlFront
  imports Sparql
begin

section \<open>Prefixes, query type and validation of SPARQL queries (parser/src/sparql)\<close>

text \<open>
  The prefix map, the reading of prefixes and of the query type from the text, the errors with
  their positions, the validator and the entry points of the parser. The grammar itself and the
  check of a base IRI are functions passed in, and so is \<open>to_lowercase\<close>. A slice at an offset
  that is no character boundary is \<open>None\<close>.
\<close>

subsection \<open>Errors (error.rs)\<close>

datatype sparql_error_kind = SkParse | SkValidation | SkUnsupported

record sparql_error =
  se_kind :: sparql_error_kind
  se_message :: rstr
  se_line :: "nat option"
  se_column :: "nat option"
  se_offset :: "nat option"

definition error_parse :: "rstr \<Rightarrow> sparql_error" where
  "error_parse m = \<lparr>se_kind = SkParse, se_message = m, se_line = None, se_column = None, se_offset = None\<rparr>"

definition error_validation :: "rstr \<Rightarrow> sparql_error" where
  "error_validation m = \<lparr>se_kind = SkValidation, se_message = m, se_line = None, se_column = None, se_offset = None\<rparr>"

definition error_unsupported :: "rstr \<Rightarrow> sparql_error" where
  "error_unsupported m = \<lparr>se_kind = SkUnsupported, se_message = m, se_line = None, se_column = None, se_offset = None\<rparr>"

definition error_with_position :: "sparql_error \<Rightarrow> rstr \<Rightarrow> nat \<Rightarrow> sparql_error option" where
  "error_with_position e input offset =
     map_option (\<lambda>before.
       let line = count_list before c_nl + 1;
           last_newline = (case rfind_char c_nl before of None \<Rightarrow> 0 | Some i \<Rightarrow> i + 1);
           column = offset - last_newline + 1
       in e\<lparr>se_offset := Some offset, se_line := Some line, se_column := Some column\<rparr>)
       (str_to input (min offset (byte_len input)))"

definition error_with_location :: "sparql_error \<Rightarrow> nat \<Rightarrow> nat \<Rightarrow> sparql_error" where
  "error_with_location e line column = e\<lparr>se_line := Some line, se_column := Some column\<rparr>"

fun show_error_kind :: "sparql_error_kind \<Rightarrow> rstr" where
  "show_error_kind SkParse = lit ''parse error''"
| "show_error_kind SkValidation = lit ''validation error''"
| "show_error_kind SkUnsupported = lit ''unsupported''"

definition show_error :: "sparql_error \<Rightarrow> rstr" where
  "show_error e =
     (case (se_line e, se_column e) of
        (Some line, Some col) \<Rightarrow> show_nat line @ lit '':'' @ show_nat col @ lit '': ''
      | (Some line, None) \<Rightarrow> lit ''line '' @ show_nat line @ lit '': ''
      | _ \<Rightarrow> []) @ show_error_kind (se_kind e) @ lit '' - '' @ se_message e"

subsection \<open>The prefix map (prefixes.rs)\<close>

record prefix_map =
  pm_prefixes :: "(rstr, rstr) fmap"
  pm_base :: "rstr option"

definition pm_new :: prefix_map where
  "pm_new = \<lparr>pm_prefixes = fmempty, pm_base = None\<rparr>"

definition pm_set_base :: "prefix_map \<Rightarrow> rstr \<Rightarrow> prefix_map" where
  "pm_set_base m b = m\<lparr>pm_base := Some b\<rparr>"

definition pm_add :: "prefix_map \<Rightarrow> rstr \<Rightarrow> rstr \<Rightarrow> prefix_map" where
  "pm_add m p i = m\<lparr>pm_prefixes := fmupd p i (pm_prefixes m)\<rparr>"

definition pm_with_common_prefixes :: prefix_map where
  "pm_with_common_prefixes = foldl (\<lambda>m (p, i). pm_add m (lit p) (lit i)) pm_new
     [(''rdf'', ''http://www.w3.org/1999/02/22-rdf-syntax-ns#''),
      (''rdfs'', ''http://www.w3.org/2000/01/rdf-schema#''),
      (''xsd'', ''http://www.w3.org/2001/XMLSchema#''),
      (''owl'', ''http://www.w3.org/2002/07/owl#''),
      (''foaf'', ''http://xmlns.com/foaf/0.1/''),
      (''dc'', ''http://purl.org/dc/elements/1.1/''),
      (''dcterms'', ''http://purl.org/dc/terms/''),
      (''skos'', ''http://www.w3.org/2004/02/skos/core#'')]"

definition pm_get :: "prefix_map \<Rightarrow> rstr \<Rightarrow> rstr option" where
  "pm_get m p = fmlookup (pm_prefixes m) p"

definition pm_contains :: "prefix_map \<Rightarrow> rstr \<Rightarrow> bool" where
  "pm_contains m p \<longleftrightarrow> p |\<in>| fmdom (pm_prefixes m)"

definition pm_len :: "prefix_map \<Rightarrow> nat" where
  "pm_len m = fcard (fmdom (pm_prefixes m))"

definition pm_is_empty :: "prefix_map \<Rightarrow> bool" where
  "pm_is_empty m \<longleftrightarrow> fmdom (pm_prefixes m) = {||}"

text \<open>\<open>split_once(':')\<close>.\<close>

definition split_colon :: "rstr \<Rightarrow> (rstr \<times> rstr) option" where
  "split_colon s = (case dropWhile (\<lambda>c. c \<noteq> c_colon) s of [] \<Rightarrow> None
     | _ # r \<Rightarrow> Some (takeWhile (\<lambda>c. c \<noteq> c_colon) s, r))"

definition pm_expand :: "prefix_map \<Rightarrow> rstr \<Rightarrow> rstr option" where
  "pm_expand m name =
     (case split_colon name of None \<Rightarrow> None
      | Some (p, l) \<Rightarrow> map_option (\<lambda>ns. ns @ l) (fmlookup (pm_prefixes m) p))"

definition pm_valid_local :: "rstr \<Rightarrow> bool" where
  "pm_valid_local s \<longleftrightarrow> s = [] \<or> set s \<inter> {c_lt, c_gt, c_dquote, c_space, 123, 125} = {}"

fun compact_loop :: "(rstr \<times> rstr) list \<Rightarrow> rstr \<Rightarrow> rstr option" where
  "compact_loop [] i = None"
| "compact_loop ((p, ns) # r) i =
     (if prefix ns i \<and> pm_valid_local (drop (length ns) i)
      then Some (p @ [c_colon] @ drop (length ns) i) else compact_loop r i)"

definition pm_compact :: "((rstr, rstr) fmap \<Rightarrow> (rstr \<times> rstr) list) \<Rightarrow> prefix_map \<Rightarrow> rstr \<Rightarrow> rstr option" where
  "pm_compact iter m i = compact_loop (iter (pm_prefixes m)) i"

definition pm_merge ::
  "((rstr, rstr) fmap \<Rightarrow> (rstr \<times> rstr) list) \<Rightarrow> prefix_map \<Rightarrow> prefix_map \<Rightarrow> prefix_map" where
  "pm_merge iter m other = fold (\<lambda>(p, i) m. if pm_contains m p then m else pm_add m p i) (iter (pm_prefixes other)) m"

definition pm_from_query :: "sp_query \<Rightarrow> prefix_map" where
  "pm_from_query q = pm_new"

interpretation pm: keyed_store pm_new pm_add pm_get "\<lambda>_. True"
  by unfold_locales (simp_all add: pm_get_def pm_add_def pm_new_def)

subsection \<open>Prefixes from the text (parser.rs)\<close>

definition trim_start :: "rstr \<Rightarrow> rstr" where
  "trim_start s = dropWhile is_whitespace s"

definition trim :: "rstr \<Rightarrow> rstr" where
  "trim s = rev (trim_start (rev (trim_start s)))"

text \<open>\<open>str::lines\<close>: split after line feeds, without a last empty line, each without its
  trailing carriage return.\<close>

fun split_lines :: "rstr \<Rightarrow> rstr \<Rightarrow> rstr list" where
  "split_lines acc [] = (if acc = [] then [] else [acc])"
| "split_lines acc (c # cs) =
     (if c = c_nl then (if acc \<noteq> [] \<and> last acc = c_cr then butlast acc else acc) # split_lines [] cs
      else split_lines (acc @ [c]) cs)"

text \<open>\<open>after_colon\<close> between angle brackets.\<close>

definition in_brackets :: "rstr \<Rightarrow> rstr option" where
  "in_brackets s = (if s \<noteq> [] \<and> hd s = c_lt \<and> last s = c_gt then Some (butlast (tl s)) else None)"

definition prefix_line :: "(rstr \<Rightarrow> rstr) \<Rightarrow> rstr \<Rightarrow> prefix_map \<Rightarrow> prefix_map" where
  "prefix_line lower line m =
     (let trimmed = trim line; lower_line = lower trimmed
      in if prefix (lit ''prefix'') lower_line then
           (case str_from trimmed 6 of None \<Rightarrow> m
            | Some r \<Rightarrow> (case split_colon (trim r) of None \<Rightarrow> m
                | Some (p, after) \<Rightarrow> (case in_brackets (trim after) of None \<Rightarrow> m
                    | Some i \<Rightarrow> pm_add m (trim p) i)))
         else if prefix (lit ''base'') lower_line then
           (case str_from trimmed 4 of None \<Rightarrow> m
            | Some r \<Rightarrow> (case in_brackets (trim r) of None \<Rightarrow> m | Some i \<Rightarrow> pm_set_base m i))
         else m)"

definition extract_prefixes_from_query :: "(rstr \<Rightarrow> rstr) \<Rightarrow> rstr \<Rightarrow> prefix_map" where
  "extract_prefixes_from_query lower q = fold (prefix_line lower) (split_lines [] q) pm_new"

subsection \<open>The query type from the text (parser.rs)\<close>

datatype query_type = QtSelect | QtConstruct | QtAsk | QtDescribe

text \<open>The two inner loops, on the characters from the position on.\<close>

fun skip_spaces :: "rstr \<Rightarrow> nat \<Rightarrow> nat" where
  "skip_spaces [] pos = pos"
| "skip_spaces (c # cs) pos = (if is_whitespace c then skip_spaces cs (pos + 1) else pos)"

fun skip_declaration :: "rstr \<Rightarrow> nat \<Rightarrow> nat" where
  "skip_declaration [] pos = pos"
| "skip_declaration (c # cs) pos =
     (if c = c_nl then pos else if c = c_gt then pos + 1 else skip_declaration cs (pos + 1))"

lemma skip_spaces_ge: "pos \<le> skip_spaces cs pos"
  by (induction cs arbitrary: pos) (auto intro: Suc_leD)

lemma skip_declaration_ge: "pos \<le> skip_declaration cs pos"
  by (induction cs arbitrary: pos) (auto intro: Suc_leD)

lemma skip_spaces_stops: "skip_spaces cs pos < pos + length cs \<Longrightarrow> \<not> is_whitespace (cs ! (skip_spaces cs pos - pos))"
proof (induction cs arbitrary: pos)
  case (Cons c cs)
  show ?case
  proof (cases "is_whitespace c")
    case True
    with Cons.prems have "skip_spaces cs (Suc pos) < Suc pos + length cs" by simp
    with Cons.IH [of "Suc pos"] skip_spaces_ge [of "Suc pos" cs] True show ?thesis
      by (simp add: nth_Cons')
  qed simp
qed simp

text \<open>The positions count characters, the slices bytes. The loop returns the position at its
  end, \<open>None\<close> for the panic of a slice.\<close>

function declarations_loop :: "rstr \<Rightarrow> nat \<Rightarrow> nat option" where
  "declarations_loop lower pos =
     (if pos < length lower then
        (let pos1 = skip_spaces (drop pos lower) pos
         in case str_from lower pos1 of None \<Rightarrow> None
          | Some remaining \<Rightarrow>
              (if prefix (lit ''prefix'') remaining \<or> prefix (lit ''base'') remaining
               then (if pos1 < length lower then declarations_loop lower (skip_declaration (drop pos1 lower) pos1)
                     else Some pos1)
               else Some pos1))
      else Some pos)"
  by pat_completeness auto

termination
proof (relation "measure (\<lambda>(lower, pos). length lower - pos)", goal_cases)
  case (2 lower pos pos1 remaining)
  have ge: "pos \<le> pos1" using 2 skip_spaces_ge by simp
  have "\<not> is_whitespace (drop pos lower ! (pos1 - pos))"
    using 2 skip_spaces_stops [of "drop pos lower" pos] by simp
  then have "\<not> is_whitespace (lower ! pos1)" using ge 2 by simp
  then have "lower ! pos1 \<noteq> c_nl" by (auto simp: is_whitespace_def)
  moreover obtain c cs where "drop pos1 lower = c # cs" "c = lower ! pos1"
    using 2 by (metis Cons_nth_drop_Suc)
  ultimately have "pos1 < skip_declaration (drop pos1 lower) pos1"
    using skip_declaration_ge [of "Suc pos1" cs] by auto
  with ge 2 show ?case by auto
qed simp

declare declarations_loop.simps [simp del]

definition query_type :: "(rstr \<Rightarrow> rstr) \<Rightarrow> rstr \<Rightarrow> query_type option option" where
  "query_type to_lower q =
     (let lower = to_lower (trim_start q)
      in case declarations_loop lower 0 of None \<Rightarrow> None
       | Some pos \<Rightarrow> (case str_from lower pos of None \<Rightarrow> None
           | Some remaining \<Rightarrow> Some
               (if prefix (lit ''select'') remaining then Some QtSelect
                else if prefix (lit ''construct'') remaining then Some QtConstruct
                else if prefix (lit ''ask'') remaining then Some QtAsk
                else if prefix (lit ''describe'') remaining then Some QtDescribe
                else None)))"

subsection \<open>Validation (validation.rs)\<close>

record validation_error =
  ve_message :: rstr
  ve_element :: "rstr option"

definition ve_new :: "rstr \<Rightarrow> validation_error" where
  "ve_new m = \<lparr>ve_message = m, ve_element = None\<rparr>"

definition ve_with_element :: "rstr \<Rightarrow> rstr \<Rightarrow> validation_error" where
  "ve_with_element m e = \<lparr>ve_message = m, ve_element = Some e\<rparr>"

definition ve_display :: "validation_error \<Rightarrow> rstr" where
  "ve_display e = (case ve_element e of Some x \<Rightarrow> ve_message e @ lit '': '' @ x | None \<Rightarrow> ve_message e)"

record query_validator =
  qv_allow_undefined_projection :: bool
  qv_max_pattern_depth :: "nat option"

definition qv_new :: query_validator where
  "qv_new = \<lparr>qv_allow_undefined_projection = False, qv_max_pattern_depth = None\<rparr>"

definition is_aggregate_variable :: "rstr \<Rightarrow> bool" where
  "is_aggregate_variable v = False"

definition collect_errors :: "query_validator \<Rightarrow> query \<Rightarrow> validation_error list" where
  "collect_errors v q =
     (case as_select q of None \<Rightarrow> []
      | Some s \<Rightarrow>
          (if qv_allow_undefined_projection v then []
           else case sq_projection s of None \<Rightarrow> []
            | Some vs \<Rightarrow> map (\<lambda>x. ve_with_element (lit ''Projected variable not defined in pattern'') (with_prefix x))
                (filter (\<lambda>x. x |\<notin>| extract_variables (sq_pattern s) \<and> \<not> is_aggregate_variable x) vs))) @
     (case as_describe q of None \<Rightarrow> []
      | Some d \<Rightarrow> List.map_filter (\<lambda>r. case r of
            AVariable x \<Rightarrow> if x |\<notin>| extract_variables (dq_pattern d)
              then Some (ve_with_element (lit ''DESCRIBE variable not defined in pattern'') (with_prefix x)) else None
          | _ \<Rightarrow> None) (dq_resources d))"

definition validate_query :: "query_validator \<Rightarrow> query \<Rightarrow> sparql_error + unit" where
  "validate_query v q =
     (let errors = collect_errors v q
      in if errors = [] then Inr () else Inl (error_validation (join (lit ''; '') (map ve_display errors))))"

definition query_is_valid :: "query_validator \<Rightarrow> query \<Rightarrow> bool" where
  "query_is_valid v q \<longleftrightarrow> collect_errors v q = []"

definition required_bindings :: "query \<Rightarrow> rstr fset" where
  "required_bindings q =
     (case q of
        QSelect s \<Rightarrow> (case sq_projection s of Some vs \<Rightarrow> fset_of_list vs | None \<Rightarrow> extract_variables (sq_pattern s))
      | QConstruct c \<Rightarrow> fold (\<lambda>t vs. vs |\<union>| ast_triple_variables t) (cq_template c) {||}
      | QAsk _ \<Rightarrow> {||}
      | QDescribe d \<Rightarrow> fold (\<lambda>r vs. case r of AVariable v \<Rightarrow> finsert v vs | _ \<Rightarrow> vs) (dq_resources d) {||})"

subsection \<open>The parser (parser.rs)\<close>

text \<open>The third-party grammar: parsing with an optional base, and the check of a base IRI, each
  with the text of its error.\<close>

record sparql_grammar =
  g_parse_iri :: "rstr \<Rightarrow> rstr + rstr"
  g_with_base :: "rstr \<Rightarrow> rstr + unit"
  g_parse_query :: "rstr option \<Rightarrow> rstr \<Rightarrow> rstr + sp_query"

record sparql_parser =
  sp_base_iri :: "rstr option"
  sp_validate :: bool
  sp_validator :: "query_validator option"

definition sp_new :: sparql_parser where
  "sp_new = \<lparr>sp_base_iri = None, sp_validate = False, sp_validator = None\<rparr>"

definition sp_with_validator :: "sparql_parser \<Rightarrow> query_validator \<Rightarrow> sparql_parser" where
  "sp_with_validator p v = p\<lparr>sp_validator := Some v, sp_validate := True\<rparr>"

definition grammar_query :: "sparql_grammar \<Rightarrow> rstr \<Rightarrow> rstr option \<Rightarrow> sparql_error + sp_query" where
  "grammar_query g q base =
     (case base of
        Some b \<Rightarrow>
          (case g_parse_iri g b of
             Inl e \<Rightarrow> Inl (error_parse (lit ''Invalid base IRI: '' @ e))
           | Inr i \<Rightarrow> (case g_with_base g i of
               Inl e \<Rightarrow> Inl (error_parse (lit ''Invalid base IRI: '' @ e))
             | Inr _ \<Rightarrow> (case g_parse_query g (Some i) q of Inl e \<Rightarrow> Inl (error_parse e) | Inr r \<Rightarrow> Inr r)))
      | None \<Rightarrow> (case g_parse_query g None q of Inl e \<Rightarrow> Inl (error_parse e) | Inr r \<Rightarrow> Inr r))"

definition parse_impl :: "sparql_grammar \<Rightarrow> sparql_parser \<Rightarrow> rstr \<Rightarrow> rstr option \<Rightarrow> sparql_error + query" where
  "parse_impl g p q base =
     (case grammar_query g q base of Inl e \<Rightarrow> Inl e
      | Inr sq \<Rightarrow>
          (let query = convert_query sq
           in if sp_validate p then
                (case validate_query (case sp_validator p of Some v \<Rightarrow> v | None \<Rightarrow> qv_new) query of
                   Inl e \<Rightarrow> Inl e | Inr _ \<Rightarrow> Inr query)
              else Inr query))"

definition sparql_parse :: "sparql_grammar \<Rightarrow> sparql_parser \<Rightarrow> rstr \<Rightarrow> sparql_error + query" where
  "sparql_parse g p q = parse_impl g p q (sp_base_iri p)"

definition parse_with_base :: "sparql_grammar \<Rightarrow> sparql_parser \<Rightarrow> rstr \<Rightarrow> rstr \<Rightarrow> sparql_error + query" where
  "parse_with_base g p q base = parse_impl g p q (Some base)"

definition parse_with_prefixes ::
  "(rstr \<Rightarrow> rstr) \<Rightarrow> sparql_grammar \<Rightarrow> sparql_parser \<Rightarrow> rstr \<Rightarrow> sparql_error + query \<times> prefix_map" where
  "parse_with_prefixes lower g p q =
     (case sparql_parse g p q of Inl e \<Rightarrow> Inl e | Inr r \<Rightarrow> Inr (r, extract_prefixes_from_query lower q))"

definition sparql_is_valid :: "sparql_grammar \<Rightarrow> sparql_parser \<Rightarrow> rstr \<Rightarrow> bool" where
  "sparql_is_valid g p q \<longleftrightarrow> (case sparql_parse g p q of Inr _ \<Rightarrow> True | Inl _ \<Rightarrow> False)"

subsection \<open>The variables of a pattern\<close>

text \<open>The variables of a pattern, and its depth as the extraction counts it.\<close>

fun gp_vars :: "gp \<Rightarrow> rstr set" where
  "gp_vars (Bgp ts) = (\<Union>t\<in>set ts. fset (triple_vars t))"
| "gp_vars (PathP s x) = fset (term_var s) \<union> fset (term_var x)"
| "gp_vars (JoinP l r) = gp_vars l \<union> gp_vars r"
| "gp_vars (LeftJoin l r e) = gp_vars l \<union> gp_vars r"
| "gp_vars (MinusP l r) = gp_vars l \<union> gp_vars r"
| "gp_vars (UnionP l r) = gp_vars l \<union> gp_vars r"
| "gp_vars (FilterP e p) = gp_vars p"
| "gp_vars (GraphP g p) = gp_vars p"
| "gp_vars (Extend p v e) = insert v (gp_vars p)"
| "gp_vars (Group p vs) = gp_vars p \<union> set vs"
| "gp_vars (Values vs rows) = set vs"
| "gp_vars (OrderBy p es) = gp_vars p"
| "gp_vars (DistinctP p) = gp_vars p"
| "gp_vars (Reduced p) = gp_vars p"
| "gp_vars (Project p vs) = gp_vars p \<union> set vs"
| "gp_vars (Slice p k n) = gp_vars p"
| "gp_vars (Service p) = gp_vars p"

fun gp_depth :: "gp \<Rightarrow> nat" where
  "gp_depth (Bgp ts) = 0"
| "gp_depth (PathP s x) = 0"
| "gp_depth (Values vs rows) = 0"
| "gp_depth (JoinP l r) = Suc (max (gp_depth l) (gp_depth r))"
| "gp_depth (LeftJoin l r e) = Suc (max (gp_depth l) (gp_depth r))"
| "gp_depth (MinusP l r) = Suc (max (gp_depth l) (gp_depth r))"
| "gp_depth (UnionP l r) = Suc (max (gp_depth l) (gp_depth r))"
| "gp_depth (FilterP e p) = Suc (gp_depth p)"
| "gp_depth (GraphP g p) = Suc (gp_depth p)"
| "gp_depth (Extend p v e) = Suc (gp_depth p)"
| "gp_depth (Group p vs) = Suc (gp_depth p)"
| "gp_depth (OrderBy p es) = Suc (gp_depth p)"
| "gp_depth (DistinctP p) = Suc (gp_depth p)"
| "gp_depth (Reduced p) = Suc (gp_depth p)"
| "gp_depth (Project p vs) = Suc (gp_depth p)"
| "gp_depth (Slice p k n) = Suc (gp_depth p)"
| "gp_depth (Service p) = Suc (gp_depth p)"

lemma fold_triple_vars: "fset (fold (\<lambda>t vs. vs |\<union>| triple_vars t) ts vs) = fset vs \<union> (\<Union>t\<in>set ts. fset (triple_vars t))"
  by (induction ts arbitrary: vs) auto

lemma extract_depth: "gp_depth p + d \<le> MAX_EXTRACT_DEPTH \<Longrightarrow> fset (extract_variables_with_depth p d) = gp_vars p"
  by (induction p arbitrary: d rule: gp_vars.induct)
    (simp_all add: extract_variables_with_depth.simps [where depth = d for d] fold_triple_vars fset_of_list.rep_eq)

lemma extract_too_deep: "extract_variables_with_depth ((FilterP e ^^ (MAX_EXTRACT_DEPTH + 1 - d)) p) d = {||}"
proof (induction "MAX_EXTRACT_DEPTH + 1 - d" arbitrary: d)
  case 0
  then show ?case by (simp add: extract_variables_with_depth.simps [where depth = d])
next
  case (Suc n)
  then have n: "n = MAX_EXTRACT_DEPTH + 1 - (d + 1)" "\<not> MAX_EXTRACT_DEPTH < d" by simp_all
  have "(FilterP e ^^ (MAX_EXTRACT_DEPTH + 1 - d)) p = FilterP e ((FilterP e ^^ n) p)"
    using Suc(2) by (metis comp_apply funpow.simps(2))
  then show ?case
    using Suc(1) [OF n(1)] n by (simp add: extract_variables_with_depth.simps [where depth = d])
qed

text \<open>The parts of a pattern, and the variables that a part itself binds: those of its triples and paths, of a BIND,
  of VALUES, of GROUP BY and of a projection. The name of a GRAPH is counted apart.\<close>

fun operands :: "gp \<Rightarrow> gp list" where
  "operands (JoinP l r) = [l, r]"
| "operands (LeftJoin l r e) = [l, r]"
| "operands (MinusP l r) = [l, r]"
| "operands (UnionP l r) = [l, r]"
| "operands (FilterP e p) = [p]"
| "operands (GraphP g p) = [p]"
| "operands (Extend p v e) = [p]"
| "operands (Group p vs) = [p]"
| "operands (OrderBy p es) = [p]"
| "operands (DistinctP p) = [p]"
| "operands (Reduced p) = [p]"
| "operands (Project p vs) = [p]"
| "operands (Slice p k n) = [p]"
| "operands (Service p) = [p]"
| "operands _ = []"

inductive_set parts :: "gp \<Rightarrow> gp set" for p where
  whole: "p \<in> parts p"
| part: "q \<in> parts p \<Longrightarrow> r \<in> set (operands q) \<Longrightarrow> r \<in> parts p"

fun binds :: "gp \<Rightarrow> rstr \<Rightarrow> bool" where
  "binds (Bgp ts) v = (\<exists>t \<in> set ts. st_subject t = TpVariable v \<or> st_predicate t = NnpVariable v \<or> st_object t = TpVariable v)"
| "binds (PathP s x) v = (s = TpVariable v \<or> x = TpVariable v)"
| "binds (Extend p w e) v = (v = w)"
| "binds (Values vs rows) v = (v \<in> set vs)"
| "binds (Group p vs) v = (v \<in> set vs)"
| "binds (Project p vs) v = (v \<in> set vs)"
| "binds _ v = False"

lemma parts_operand: "r \<in> parts q \<Longrightarrow> q \<in> set (operands p) \<Longrightarrow> r \<in> parts p"
  by (induction rule: parts.induct) (auto intro: parts.intros)

lemma parts_unfold: "parts p = insert p (\<Union>q \<in> set (operands p). parts q)"
proof
  show "parts p \<subseteq> insert p (\<Union>q \<in> set (operands p). parts q)"
  proof
    fix r assume "r \<in> parts p"
    then show "r \<in> insert p (\<Union>q \<in> set (operands p). parts q)"
      by induction (auto intro: parts.intros)
  qed
  show "insert p (\<Union>q \<in> set (operands p). parts q) \<subseteq> parts p"
    using parts_operand by (auto intro: parts.intros)
qed

lemma term_var_iff: "v |\<in>| term_var t \<longleftrightarrow> t = TpVariable v"
  by (cases t) auto

lemma triple_vars_iff: "v |\<in>| triple_vars t \<longleftrightarrow> st_subject t = TpVariable v \<or> st_predicate t = NnpVariable v \<or> st_object t = TpVariable v"
  by (cases "st_predicate t") (auto simp: triple_vars_def term_var_iff)

lemma parts_vars: "gp_vars p = {v. \<exists>q \<in> parts p. binds q v}"
  by (induction p rule: gp_vars.induct) (subst parts_unfold; auto simp: triple_vars_iff term_var_iff)+

text \<open>C32: up to a nesting of 128 the extraction returns exactly the variables that some part of the pattern
  binds, in a triple, a path, a BIND, VALUES, GROUP BY or a projection, at any depth; the variable that names a GRAPH is
  not among them unless it is bound so too. A pattern inside 129 filters has no variables for it,
  so that the validator calls them undefined.\<close>

theorem extract_variables_correct:
  "(gp_depth p \<le> MAX_EXTRACT_DEPTH \<longrightarrow>
      fset (extract_variables p) = {v. \<exists>q \<in> parts p. binds q v} \<and>
      (\<forall>v. gp_depth p < MAX_EXTRACT_DEPTH \<longrightarrow>
         v |\<in>| extract_variables (GraphP (NnpVariable v) p) \<longleftrightarrow> (\<exists>q \<in> parts p. binds q v))) \<and>
   extract_variables ((FilterP e ^^ 129) p) = {||}"
  using extract_depth [of p 0] extract_depth [of "GraphP (NnpVariable v) p" 0 for v] extract_too_deep [where d = 0 and e = e and p = p]
  by (simp add: extract_variables_def MAX_EXTRACT_DEPTH_def parts_vars [symmetric]) (simp add: parts_vars)

theorem extract_variables_correct_witness:
  "fset (extract_variables (JoinP (Bgp [\<lparr>st_subject = TpVariable [1], st_predicate = NnpVariable [2], st_object = TpNamedNode []\<rparr>])
     (GraphP (NnpVariable [4]) (Values [[3]] [])))) = {[1], [2], [3]}"
proof -
  let ?l = "Bgp [\<lparr>st_subject = TpVariable [1], st_predicate = NnpVariable [2], st_object = TpNamedNode []\<rparr>]"
  let ?v = "Values [[3]] []"
  have "parts (JoinP ?l (GraphP (NnpVariable [4]) ?v)) = {JoinP ?l (GraphP (NnpVariable [4]) ?v), ?l, GraphP (NnpVariable [4]) ?v, ?v}"
    using parts_unfold [of "JoinP ?l (GraphP (NnpVariable [4]) ?v)"] parts_unfold [of ?l] parts_unfold [of "GraphP (NnpVariable [4]) ?v"]
      parts_unfold [of ?v] by auto
  then show ?thesis
    using extract_variables_correct [of "JoinP ?l (GraphP (NnpVariable [4]) ?v)"] by (auto simp: MAX_EXTRACT_DEPTH_def)
qed

text \<open>The variable of \<open>GRAPH ?g\<close> is missed, although the documentation promises all variables of the pattern.\<close>

lemma graph_name_missed: "extract_variables (GraphP (NnpVariable v) (Bgp [])) = {||}"
  by (simp add: extract_variables_def extract_variables_with_depth.simps MAX_EXTRACT_DEPTH_def)

subsection \<open>Solution modifiers\<close>

fun modifier_free :: "gp \<Rightarrow> bool" where
  "modifier_free (Project p vs) = False" | "modifier_free (DistinctP p) = False"
| "modifier_free (Reduced p) = False" | "modifier_free (OrderBy p es) = False"
| "modifier_free (Slice p k n) = False" | "modifier_free (Group p vs) = False"
| "modifier_free p = True"

lemma modifiers_loop_free: "modifier_free p \<Longrightarrow> modifiers_loop p m = (m, p)"
  by (cases p) simp_all

text \<open>the modifiers of a query without a subquery are recovered, and the pattern below
  them: projection, distinctness, order, offset (unless zero) and limit.\<close>

theorem modifiers_recovered:
  assumes "modifier_free p"
  shows "extract_select_modifiers (Slice (DistinctP (Project (OrderBy p es) vs)) k n) =
    (no_modifiers\<lparr>sm_projection := Some vs, sm_distinct := True, sm_order_by := Some (map order_condition_of es),
       sm_offset := (if 0 < k then Some k else None), sm_limit := n\<rparr>, p)"
  using assms by (simp add: extract_select_modifiers_def modifiers_loop_free no_modifiers_def)

lemma modifiers_loop_pattern: "modifier_free (snd (modifiers_loop p m)) \<and> gp_vars (snd (modifiers_loop p m)) \<subseteq> gp_vars p"
  by (induction p m rule: modifiers_loop.induct) auto

lemma modifiers_loop_projection: "(case sm_projection m of Some vs \<Rightarrow> set vs \<subseteq> A | None \<Rightarrow> True) \<Longrightarrow> gp_vars p \<subseteq> A \<Longrightarrow>
    (case sm_projection (fst (modifiers_loop p m)) of Some vs \<Rightarrow> set vs \<subseteq> A | None \<Rightarrow> True)"
  by (induction p m rule: modifiers_loop.induct) auto

text \<open>conversion keeps the form of a query and its algebra, and a converted SELECT is well formed: its
  pattern is no solution modifier, and neither the pattern nor the projection
  speaks of a variable that the algebra does not have.\<close>

theorem converted_query_wf:
  "query_inner (convert_query q) = q \<and>
   (case convert_query q of
      QSelect s \<Rightarrow> modifier_free (sq_pattern s) \<and>
        (\<exists>p d. q = SpSelect p d \<and> gp_vars (sq_pattern s) \<subseteq> gp_vars p \<and>
           (case sq_projection s of Some vs \<Rightarrow> set vs \<subseteq> gp_vars p | None \<Rightarrow> True))
    | QConstruct c \<Rightarrow> \<exists>ts p d. q = SpConstruct ts p d \<and> cq_pattern c = p
    | QAsk a \<Rightarrow> \<exists>p d. q = SpAsk p d \<and> aq_pattern a = p
    | QDescribe d \<Rightarrow> \<exists>p e. q = SpDescribe p e \<and> gp_vars (dq_pattern d) \<union> {x. AVariable x \<in> set (dq_resources d)} \<subseteq> gp_vars p)"
proof (cases q)
  case (SpSelect p d)
  have "case sm_projection (fst (modifiers_loop p no_modifiers)) of Some vs \<Rightarrow> set vs \<subseteq> gp_vars p | None \<Rightarrow> True"
    by (rule modifiers_loop_projection) (simp_all add: no_modifiers_def)
  then show ?thesis
    using modifiers_loop_pattern [of p no_modifiers] SpSelect
    by (simp add: extract_select_modifiers_def case_prod_beta)
next
  case (SpDescribe p d)
  then show ?thesis by (cases p) auto
qed simp_all

text \<open>when the pattern of a query is itself a subquery, the extraction runs on into it: the
  query gets the subquery's projection, its limit (or none) and its distinctness, and the
  outer projection and limit are lost.\<close>

theorem subselect_overrides:
  assumes "modifier_free p"
  shows "let m = fst (extract_select_modifiers (Slice (Project (Slice (DistinctP (Project p inner)) k2 n2) outer) k1 n1))
    in sm_projection m = Some inner \<and> sm_limit m = n2 \<and> sm_distinct m"
  using assms by (simp add: extract_select_modifiers_def modifiers_loop_free no_modifiers_def)

theorem subselect_overrides_witness:
  "sm_limit (fst (extract_select_modifiers
     (Slice (Project (Slice (DistinctP (Project (Bgp []) [[1], [2]])) 0 None) [[1]]) 0 (Some 5)))) = None"
  using subselect_overrides [of "Bgp []" "[[1], [2]]" 0 None "[[1]]" 0 "Some 5"] by (simp add: Let_def)

subsection \<open>Validation\<close>

text \<open>a query is accepted exactly when every projected variable of a SELECT (unless the
  validator allows undefined ones) and every variable that a DESCRIBE names is among the
  variables extracted from its pattern; otherwise the error is a validation error.\<close>

theorem validate_correct:
  "(validate_query v q = Inr () \<longleftrightarrow>
     (case q of
        QSelect s \<Rightarrow> qv_allow_undefined_projection v \<or>
          (case sq_projection s of None \<Rightarrow> True | Some vs \<Rightarrow> set vs \<subseteq> fset (extract_variables (sq_pattern s)))
      | QDescribe d \<Rightarrow> {x. AVariable x \<in> set (dq_resources d)} \<subseteq> fset (extract_variables (dq_pattern d))
      | _ \<Rightarrow> True)) \<and>
   (\<forall>e. validate_query v q = Inl e \<longrightarrow> se_kind e = SkValidation)"
proof -
  have mf: "List.map_filter (\<lambda>r. case r of AVariable x \<Rightarrow> if x |\<notin>| V then Some (f x) else None | _ \<Rightarrow> None) rs = []
      \<longleftrightarrow> {x. AVariable x \<in> set rs} \<subseteq> fset V" for V and f :: "rstr \<Rightarrow> validation_error" and rs
    by (induction rs) (auto simp: List.map_filter_simps split: ast_term.splits option.splits)
  show ?thesis
    by (cases q) (auto simp: validate_query_def collect_errors_def Let_def mf is_aggregate_variable_def
        filter_empty_conv error_validation_def split: option.splits if_splits)
qed

subsection \<open>Query type\<close>

lemma byte_len_ascii: "list_all (\<lambda>c. c < 128) s \<Longrightarrow> byte_len s = length s"
  by (induction s) (simp_all add: utf8_len_ascii)

lemma str_from_ascii: "list_all (\<lambda>c. c < 128) s \<Longrightarrow> pos \<le> length s \<Longrightarrow> str_from s pos = Some (drop pos s)"
  using str_from_append [of "take pos s" "drop pos s"] byte_len_ascii [of "take pos s"]
  by (simp add: list_all_iff) (metis in_set_takeD min.absorb2)

lemma skip_spaces_le: "skip_spaces cs pos \<le> pos + length cs"
  by (induction cs pos rule: skip_spaces.induct) auto

lemma skip_declaration_le: "skip_declaration cs pos \<le> pos + length cs"
  by (induction cs pos rule: skip_declaration.induct) auto

lemma declarations_ascii:
  "list_all (\<lambda>c. c < 128) s \<Longrightarrow> pos \<le> length s \<Longrightarrow> \<exists>p. declarations_loop s pos = Some p \<and> p \<le> length s"
proof (induction s pos rule: declarations_loop.induct)
  case (1 s pos)
  define p1 where "p1 = skip_spaces (drop pos s) pos"
  have le: "p1 \<le> length s"
    using skip_spaces_le [of "drop pos s" pos] 1(3) by (simp add: p1_def)
  then have slice: "str_from s p1 = Some (drop p1 s)" using str_from_ascii 1(2) by blast
  have "skip_declaration (drop p1 s) p1 \<le> length s"
    using skip_declaration_le [of "drop p1 s" p1] le by simp
  then show ?case
    using 1(1) [OF _ p1_def slice] 1(2,3) le slice
    by (subst declarations_loop.simps) (auto simp: Let_def p1_def [symmetric])
qed

text \<open>on text that lower-cases to ASCII the query type is found without a panic. The
  position counts characters while the slices take bytes, so other text can make it panic: a
  base declaration with three accented letters does.\<close>

theorem query_type_panics:
  "(list_all (\<lambda>c. c < 128) (lower (trim_start q)) \<longrightarrow> query_type lower q \<noteq> None) \<and>
   query_type (\<lambda>s. s) (lit ''base<'' @ [233, 233, 233] @ lit ''> select'') = None"
proof -
  have "query_type (\<lambda>s. s) (lit ''base<'' @ [233, 233, 233] @ lit ''> select'') = None"
    by (simp add: query_type_def trim_start_def lit_def is_whitespace_def declarations_loop.simps [where pos = 0]
        declarations_loop.simps [where pos = "Suc p" for p] str_from.simps utf8_len_def)
  moreover have "query_type lower q \<noteq> None" if "list_all (\<lambda>c. c < 128) (lower (trim_start q))"
    using declarations_ascii [OF that, of 0] str_from_ascii [OF that]
    by (auto simp: query_type_def Let_def)
  ultimately show ?thesis by blast
qed

theorem query_type_panics_witness: "query_type (map ascii_lower) (lit ''ASK {}'') \<noteq> None"
  using query_type_panics [of "map ascii_lower" "lit ''ASK {}''"]
  by (simp add: trim_start_def lit_def ascii_lower_def is_whitespace_def)

subsection \<open>The prefix map\<close>

lemma compact_loop_Some:
  "compact_loop xs i = Some n \<Longrightarrow> \<exists>p ns l. (p, ns) \<in> set xs \<and> i = ns @ l \<and> n = p @ c_colon # l"
proof (induction xs i rule: compact_loop.induct)
  case (2 p ns r i)
  show ?case
  proof (cases "prefix ns i \<and> pm_valid_local (drop (length ns) i)")
    case True
    then have "i = ns @ drop (length ns) i" by (auto simp: prefix_def)
    with 2(2) True show ?thesis by (intro exI [of _ p] exI [of _ ns] exI [of _ "drop (length ns) i"]) simp
  next
    case False
    with 2 show ?thesis by auto
  qed
qed simp

lemma split_colon_append: "c_colon \<notin> set p \<Longrightarrow> split_colon (p @ c_colon # l) = Some (p, l)"
  by (induction p) (auto simp: split_colon_def split: list.splits)

lemma pm_merge_get_list:
  "distinct (map fst xs) \<Longrightarrow> pm_get (fold (\<lambda>(p, i) m. if pm_contains m p then m else pm_add m p i) xs m) k =
     (case pm_get m k of Some i \<Rightarrow> Some i | None \<Rightarrow> map_of xs k)"
proof (induction xs arbitrary: m)
  case (Cons x xs)
  obtain p i where x: "x = (p, i)" by (cases x)
  have "pm_contains m p \<longleftrightarrow> pm_get m p \<noteq> None" by (auto simp: pm_contains_def pm_get_def fmlookup_dom_iff)
  then show ?case
    using Cons x by (auto simp: pm.get_put split: option.splits dest: map_of_SomeD intro: rev_image_eqI)
qed (simp split: option.split)

text \<open>a compacted IRI expands to itself, in every iteration order of the map, if no prefix
  contains a colon; and merging keeps the own binding of a prefix and takes the others.\<close>

theorem prefix_map_correct:
  assumes "hash_order iter"
  shows "(\<forall>p \<in> fset (fmdom (pm_prefixes m)). c_colon \<notin> set p) \<longrightarrow> pm_compact iter m i = Some n \<longrightarrow> pm_expand m n = Some i"
    and "pm_get (pm_merge iter m other) k = (case pm_get m k of Some v \<Rightarrow> Some v | None \<Rightarrow> pm_get other k)"
proof -
  show "pm_get (pm_merge iter m other) k = (case pm_get m k of Some v \<Rightarrow> Some v | None \<Rightarrow> pm_get other k)"
  proof -
    have "map_of (iter (pm_prefixes other)) = fmlookup (pm_prefixes other)" using assms by (simp add: hash_order_def)
    then show ?thesis
      by (simp only: pm_merge_def pm_merge_get_list [OF hash_order_distinct [OF assms]] pm_get_def [of other])
  qed
  show "(\<forall>p \<in> fset (fmdom (pm_prefixes m)). c_colon \<notin> set p) \<longrightarrow> pm_compact iter m i = Some n \<longrightarrow> pm_expand m n = Some i"
  proof (intro impI)
    assume colon: "\<forall>p \<in> fset (fmdom (pm_prefixes m)). c_colon \<notin> set p" and "pm_compact iter m i = Some n"
    then obtain p ns l where x: "(p, ns) \<in> set (iter (pm_prefixes m))" "i = ns @ l" "n = p @ c_colon # l"
      unfolding pm_compact_def using compact_loop_Some by blast
    then have lk: "fmlookup (pm_prefixes m) p = Some ns" using hash_order_in_iff [OF assms] by blast
    with colon have "c_colon \<notin> set p" by (auto simp: fmdomI)
    with lk x show "pm_expand m n = Some i" by (simp add: pm_expand_def split_colon_append)
  qed
qed

end
