(* ===== verification/QuerySafety.thy ===== *)
theory QuerySafety
  imports Translator SparqlFront
begin

section \<open>What the query translation guarantees\<close>

text \<open>
  Injection: the Cypher text of a query closes its strings and has outside them only template characters and
  names, but for the texts of literals of numeric datatypes that are no numerals, which it copies.
  The columns of a translated query are variable names.
\<close>

subsection \<open>Facts about results in the monad\<close>

definition yields :: "('a \<Rightarrow> bool) \<Rightarrow> 'a trans \<Rightarrow> bool" where
  "yields P m \<longleftrightarrow> (\<forall>c x c'. m c = (Inr x, c') \<longrightarrow> P x)"

named_theorems yield "rules of yields"

lemma yields_ret [yield]: "P x \<Longrightarrow> yields P (ret x)"
  by (simp add: yields_def ret_def)

lemma yields_fail [yield]: "yields P (fail e)"
  by (simp add: yields_def fail_def)

lemma yields_bind: "yields P m \<Longrightarrow> (\<And>x. P x \<Longrightarrow> yields Q (f x)) \<Longrightarrow> yields Q (bind m f)"
  unfolding yields_def bind_def by (fastforce split: prod.splits sum.splits)

lemma yields_mono: "yields P m \<Longrightarrow> (\<And>x. P x \<Longrightarrow> Q x) \<Longrightarrow> yields Q m"
  by (auto simp: yields_def)

lemma yields_next_var [yield]: "(\<And>k. P (p @ lit ''_'' @ show_nat k)) \<Longrightarrow> yields P (next_var p)"
  by (simp add: yields_def next_var_def)

lemma yields_ok_flatten: "yields (pred_option P) m \<Longrightarrow> yields (pred_option P) (ok_flatten m)"
  by (auto simp: yields_def ok_flatten_def split: prod.splits sum.splits)

lemma yieldsD: "yields P m \<Longrightarrow> m c = (Inr x, c') \<Longrightarrow> P x"
  unfolding yields_def by blast

subsection \<open>Safe query text\<close>

definition query_char :: "rchar \<Rightarrow> bool" where
  "query_char c \<longleftrightarrow> code_char c \<or> 128 \<le> c \<or> c \<in> {c_lt, 42, c_slash, 126}"

definition safe_query :: "rstr \<Rightarrow> bool" where
  "safe_query s \<longleftrightarrow> snd (scan Code s) = Code \<and> list_all query_char (fst (scan Code s))"

named_theorems sq "pieces of safe query text"

lemma sq_code [sq]: "safe_code s \<Longrightarrow> safe_query s"
  by (auto simp: safe_code_def safe_query_def query_char_def list_all_iff)

lemma sq_append [sq]: "safe_query a \<Longrightarrow> safe_query b \<Longrightarrow> safe_query (a @ b)"
  by (auto simp: safe_query_def scan_append Let_def split: prod.splits)

lemma sq_Nil [sq]: "safe_query []"
  by (simp add: safe_query_def)

lemma sq_quoted [sq]: "safe_query (quoted s)"
  by (rule sq_code) (rule safe_quoted)

lemma sq_show_nat [sq]: "safe_query (show_nat n)"
  by (rule sq_code) (rule safe_show_nat)

lemma sq_plain: "list_all query_char s \<Longrightarrow> c_squote \<notin> set s \<Longrightarrow> safe_query s"
  by (subgoal_tac "c_dquote \<notin> set s")
    (auto simp: safe_query_def scan_plain list_all_iff query_char_def code_char_def num_char_def char_class_defs)

lemma sq_join [sq]: "safe_query sep \<Longrightarrow> list_all safe_query xs \<Longrightarrow> safe_query (join sep xs)"
proof (induction xs)
  case (Cons x xs)
  then show ?case by (cases "xs = []") (auto simp: join_Cons intro!: sq_append)
qed (simp add: sq_Nil)

definition template :: "string \<Rightarrow> bool" where
  "template s \<longleftrightarrow> list_all query_char (lit s) \<and> c_squote \<notin> set (lit s)"

lemma sq_template [sq]: "template s \<Longrightarrow> safe_query (lit s)"
  by (simp add: template_def sq_plain)

lemma template_Nil [simp]: "template []"
  by (simp add: template_def)

lemma template_Cons [simp]: "template (c # s) \<longleftrightarrow> query_char (of_char c) \<and> of_char c \<noteq> (39::nat) \<and> template s"
  by (auto simp: template_def lit_def)

lemmas chars = query_char_def code_char_def num_char_def char_class_defs

lemma sq_nl [sq]: "safe_query [c_nl]" "safe_query (c_nl # s) \<longleftrightarrow> safe_query s"
  by (auto simp: safe_query_def chars Let_def split: prod.splits)

text \<open>Text in which pieces of \<open>R\<close> stand between pieces that are safe by themselves.\<close>

definition safe_around :: "rstr set \<Rightarrow> rstr \<Rightarrow> bool" where
  "safe_around R s \<longleftrightarrow> (\<exists>ps. s = concat ps \<and> (\<forall>p \<in> set ps. safe_query p \<or> p \<in> R))"

lemma around_safe: "safe_query s \<Longrightarrow> safe_around R s"
  unfolding safe_around_def by (rule exI [of _ "[s]"]) simp

lemma around_raw: "s \<in> R \<Longrightarrow> safe_around R s"
  unfolding safe_around_def by (rule exI [of _ "[s]"]) simp

lemma around_append [sq]: "safe_around R a \<Longrightarrow> safe_around R b \<Longrightarrow> safe_around R (a @ b)"
  unfolding safe_around_def by (metis Un_iff concat_append set_append)

lemma around_empty: "safe_around {} s \<longleftrightarrow> safe_query s"
proof
  assume "safe_around {} s"
  then obtain ps where ps: "s = concat ps" "\<forall>p \<in> set ps. safe_query p" by (auto simp: safe_around_def)
  from ps(2) have "safe_query (concat ps)" by (induction ps) (simp_all add: sq)
  then show "safe_query s" using ps(1) by simp
qed (rule around_safe)

lemma around_nl [sq]: "safe_around R s \<Longrightarrow> safe_around R (c_nl # s)"
  using around_append [OF around_safe [OF sq_nl(1)], of R s] by simp

lemmas around_base [sq] = sq_Nil [THEN around_safe] sq_quoted [THEN around_safe] sq_show_nat [THEN around_safe]
  sq_template [THEN around_safe] sq_nl(1) [THEN around_safe]

lemma around_join [sq]: "safe_around R sep \<Longrightarrow> list_all (safe_around R) xs \<Longrightarrow> safe_around R (join sep xs)"
proof (induction xs)
  case (Cons x xs)
  then show ?case by (cases "xs = []") (auto simp: join_Cons intro!: around_append)
qed (simp add: sq)

subsection \<open>Queries as the grammar makes them\<close>

definition name_char :: "rchar \<Rightarrow> bool" where
  "name_char c \<longleftrightarrow> is_ascii_alphanumeric c \<or> c = c_underscore \<or> 128 \<le> c"

definition name_ok :: "rstr \<Rightarrow> bool" where
  "name_ok v \<longleftrightarrow> list_all name_char v"

definition label_ok :: "rstr \<Rightarrow> bool" where
  "label_ok b \<longleftrightarrow> list_all (\<lambda>c. name_char c \<or> c = c_minus \<or> c = c_dot) b"

fun term_ok :: "sp_term \<Rightarrow> bool" where
  "term_ok (TpVariable v) = name_ok v" | "term_ok (TpBlankNode b) = label_ok b" | "term_ok _ = True"

fun pred_ok :: "sp_pred \<Rightarrow> bool" where
  "pred_ok (NnpVariable v) = name_ok v" | "pred_ok _ = True"

definition triple_ok :: "sp_triple \<Rightarrow> bool" where
  "triple_ok t \<longleftrightarrow> term_ok (st_subject t) \<and> pred_ok (st_predicate t) \<and> term_ok (st_object t)"

fun gp_ok :: "gp \<Rightarrow> bool" and expr_ok :: "sp_expr \<Rightarrow> bool" and exprs_ok :: "sp_expr list \<Rightarrow> bool" where
  "gp_ok (Bgp ts) = list_all triple_ok ts"
| "gp_ok (PathP a b) = (term_ok a \<and> term_ok b)"
| "gp_ok (JoinP l r) = (gp_ok l \<and> gp_ok r)"
| "gp_ok (LeftJoin l r e) = (gp_ok l \<and> gp_ok r \<and> (case e of None \<Rightarrow> True | Some x \<Rightarrow> expr_ok x))"
| "gp_ok (FilterP e p) = (expr_ok e \<and> gp_ok p)"
| "gp_ok (UnionP l r) = (gp_ok l \<and> gp_ok r)"
| "gp_ok (GraphP g p) = gp_ok p"
| "gp_ok (Extend p v e) = (gp_ok p \<and> name_ok v \<and> expr_ok e)"
| "gp_ok (MinusP l r) = (gp_ok l \<and> gp_ok r)"
| "gp_ok (Values vs rows) = list_all name_ok vs"
| "gp_ok (OrderBy p es) = gp_ok p"
| "gp_ok (Project p vs) = (gp_ok p \<and> list_all name_ok vs)"
| "gp_ok (DistinctP p) = gp_ok p"
| "gp_ok (Reduced p) = gp_ok p"
| "gp_ok (Slice p k n) = gp_ok p"
| "gp_ok (Group p vs) = gp_ok p"
| "gp_ok (Service p) = gp_ok p"
| "expr_ok (ENamedNode n) = True"
| "expr_ok (ELiteral l) = True"
| "expr_ok (EVariable v) = name_ok v"
| "expr_ok (EOr l r) = (expr_ok l \<and> expr_ok r)"
| "expr_ok (EAnd l r) = (expr_ok l \<and> expr_ok r)"
| "expr_ok (EEqual l r) = (expr_ok l \<and> expr_ok r)"
| "expr_ok (ESameTerm l r) = (expr_ok l \<and> expr_ok r)"
| "expr_ok (EGreater l r) = (expr_ok l \<and> expr_ok r)"
| "expr_ok (EGreaterOrEqual l r) = (expr_ok l \<and> expr_ok r)"
| "expr_ok (ELess l r) = (expr_ok l \<and> expr_ok r)"
| "expr_ok (ELessOrEqual l r) = (expr_ok l \<and> expr_ok r)"
| "expr_ok (EIn e es) = (expr_ok e \<and> exprs_ok es)"
| "expr_ok (EAdd l r) = (expr_ok l \<and> expr_ok r)"
| "expr_ok (ESubtract l r) = (expr_ok l \<and> expr_ok r)"
| "expr_ok (EMultiply l r) = (expr_ok l \<and> expr_ok r)"
| "expr_ok (EDivide l r) = (expr_ok l \<and> expr_ok r)"
| "expr_ok (EUnaryPlus e) = expr_ok e"
| "expr_ok (EUnaryMinus e) = expr_ok e"
| "expr_ok (ENot e) = expr_ok e"
| "expr_ok (EExists p) = gp_ok p"
| "expr_ok (EBound v) = name_ok v"
| "expr_ok (EIf c t e) = (expr_ok c \<and> expr_ok t \<and> expr_ok e)"
| "expr_ok (ECoalesce es) = exprs_ok es"
| "expr_ok (EFunctionCall f es) = exprs_ok es"
| "exprs_ok [] = True"
| "exprs_ok (e # es) = (expr_ok e \<and> exprs_ok es)"

definition select_ok :: "select_query \<Rightarrow> bool" where
  "select_ok q \<longleftrightarrow> gp_ok (sq_pattern q) \<and>
     (case sq_projection q of None \<Rightarrow> True | Some vs \<Rightarrow> list_all name_ok vs) \<and>
     (case sq_order_by q of None \<Rightarrow> True | Some cs \<Rightarrow> list_all (\<lambda>c. expr_ok (oc_expression c)) cs)"

fun query_ok :: "query \<Rightarrow> bool" where
  "query_ok (QSelect q) = select_ok q"
| "query_ok (QAsk q) = gp_ok (aq_pattern q)"
| "query_ok _ = True"

text \<open>What the grammar does not guarantee: that the texts of its numeric literals are numerals. Those that are not.\<close>

definition literal_raw :: "sp_literal \<Rightarrow> rstr set" where
  "literal_raw l = (if sl_datatype l \<in> set numeric_datatypes \<and> \<not> list_all num_char (sl_value l) then {sl_value l} else {})"

fun gp_raw :: "gp \<Rightarrow> rstr set" and expr_raw :: "sp_expr \<Rightarrow> rstr set" and exprs_raw :: "sp_expr list \<Rightarrow> rstr set" where
  "gp_raw (JoinP l r) = gp_raw l \<union> gp_raw r"
| "gp_raw (LeftJoin l r e) = gp_raw l \<union> gp_raw r \<union> (case e of None \<Rightarrow> {} | Some x \<Rightarrow> expr_raw x)"
| "gp_raw (FilterP e p) = expr_raw e \<union> gp_raw p"
| "gp_raw (UnionP l r) = gp_raw l \<union> gp_raw r"
| "gp_raw (GraphP g p) = gp_raw p"
| "gp_raw (Extend p v e) = gp_raw p \<union> expr_raw e"
| "gp_raw (MinusP l r) = gp_raw l \<union> gp_raw r"
| "gp_raw (OrderBy p es) = gp_raw p"
| "gp_raw (Project p vs) = gp_raw p"
| "gp_raw (DistinctP p) = gp_raw p"
| "gp_raw (Reduced p) = gp_raw p"
| "gp_raw (Slice p k n) = gp_raw p"
| "gp_raw (Group p vs) = gp_raw p"
| "gp_raw (Service p) = gp_raw p"
| "gp_raw (Bgp ts) = {}"
| "gp_raw (PathP a b) = {}"
| "gp_raw (Values vs rows) = {}"
| "expr_raw (ELiteral l) = literal_raw l"
| "expr_raw (ENamedNode n) = {}"
| "expr_raw (EVariable v) = {}"
| "expr_raw (EBound v) = {}"
| "expr_raw (EOr l r) = expr_raw l \<union> expr_raw r"
| "expr_raw (EAnd l r) = expr_raw l \<union> expr_raw r"
| "expr_raw (EEqual l r) = expr_raw l \<union> expr_raw r"
| "expr_raw (ESameTerm l r) = expr_raw l \<union> expr_raw r"
| "expr_raw (EGreater l r) = expr_raw l \<union> expr_raw r"
| "expr_raw (EGreaterOrEqual l r) = expr_raw l \<union> expr_raw r"
| "expr_raw (ELess l r) = expr_raw l \<union> expr_raw r"
| "expr_raw (ELessOrEqual l r) = expr_raw l \<union> expr_raw r"
| "expr_raw (EAdd l r) = expr_raw l \<union> expr_raw r"
| "expr_raw (ESubtract l r) = expr_raw l \<union> expr_raw r"
| "expr_raw (EMultiply l r) = expr_raw l \<union> expr_raw r"
| "expr_raw (EDivide l r) = expr_raw l \<union> expr_raw r"
| "expr_raw (EIn e es) = expr_raw e \<union> exprs_raw es"
| "expr_raw (EUnaryPlus e) = expr_raw e"
| "expr_raw (EUnaryMinus e) = expr_raw e"
| "expr_raw (ENot e) = expr_raw e"
| "expr_raw (EExists p) = gp_raw p"
| "expr_raw (EIf c t e) = expr_raw c \<union> expr_raw t \<union> expr_raw e"
| "expr_raw (ECoalesce es) = exprs_raw es"
| "expr_raw (EFunctionCall f es) = exprs_raw es"
| "exprs_raw [] = {}"
| "exprs_raw (e # es) = expr_raw e \<union> exprs_raw es"

definition order_raw :: "order_condition list option \<Rightarrow> rstr set" where
  "order_raw cs = (case cs of None \<Rightarrow> {} | Some cs \<Rightarrow> (\<Union>c \<in> set cs. expr_raw (oc_expression c)))"

fun query_raw :: "query \<Rightarrow> rstr set" where
  "query_raw (QSelect q) = gp_raw (sq_pattern q) \<union> order_raw (sq_order_by q)"
| "query_raw (QAsk q) = gp_raw (aq_pattern q)"
| "query_raw _ = {}"

subsection \<open>Terms and triple patterns\<close>

lemma sq_name [sq]: "name_ok v \<Longrightarrow> safe_around R v"
  unfolding name_ok_def
  by (rule around_safe, rule sq_plain) (auto simp: list_all_iff name_char_def chars)

lemma scan_label: "label_ok b \<Longrightarrow> scan (InString c_squote) (b @ r) = scan (InString c_squote) r"
  unfolding label_ok_def by (induction b) (auto simp: name_char_def char_class_defs)

lemma sq_label [sq]: "label_ok b \<Longrightarrow> safe_around R (c_squote # lit ''_:'' @ b @ [c_squote])"
  by (rule around_safe) (simp add: safe_query_def lit_def scan_label chars)

definition term_result :: "rstr set \<Rightarrow> rstr \<times> rstr option \<Rightarrow> bool" where
  "term_result R = (\<lambda>(v, c). safe_around R v \<and> pred_option (safe_around R) c)"

lemma term_yields: "term_ok t \<Longrightarrow> yields (term_result R) (term_to_cypher t)"
  by (cases t)
    (auto simp: term_result_def chars sq
      intro!: yields_ret yields_bind [OF yields_next_var [where P = "safe_around R"]])

lemma sq_predicate [sq]: "safe_around R (predicate_to_cypher p)"
  by (cases p) (simp_all add: sq chars)

lemma opt_list_all: "pred_option P x \<Longrightarrow> list_all P (opt_list x)"
  by (cases x) (simp_all add: opt_list_def)

lemma triple_vars_ok: "triple_ok t \<Longrightarrow> \<forall>v \<in> fset (triple_vars t). name_ok v"
  by (cases "st_subject t"; cases "st_predicate t"; cases "st_object t") (simp_all add: triple_ok_def triple_vars_def)

lemma triple_yields:
  "triple_ok t \<Longrightarrow> yields (\<lambda>(m, ws, vs). safe_around R m \<and> list_all (safe_around R) ws \<and> (\<forall>v \<in> fset vs. name_ok v))
     (translate_triple_pattern t)"
  unfolding translate_triple_pattern_def
  by (rule yields_bind [OF term_yields [where R = R]], simp add: triple_ok_def, clarify,
      rule yields_bind [OF term_yields [where R = R]], simp add: triple_ok_def, clarify,
      rule yields_bind [OF yields_next_var [where P = "safe_around R"]], simp add: sq chars, rule yields_ret)
    (auto simp: term_result_def triple_vars_ok opt_list_all sq chars)

subsection \<open>Expressions\<close>

lemma sq_literal: "literal_raw l \<subseteq> R \<Longrightarrow> safe_around R (literal_to_cypher l)"
  by (auto simp: literal_to_cypher_def literal_raw_def sq chars intro: around_safe [OF sq_code [OF safe_num]] around_raw split: if_splits)

lemma sq_call [sq]: "template f \<Longrightarrow> safe_around R a \<Longrightarrow> safe_around R (call f a)"
  by (simp add: call_def sq chars)

lemma sq_infix [sq]: "template op \<Longrightarrow> safe_around R a \<Longrightarrow> safe_around R b \<Longrightarrow> safe_around R (infix_op op a b)"
  by (simp add: infix_op_def sq)

lemma sq_paren [sq]: "template op \<Longrightarrow> safe_around R a \<Longrightarrow> safe_around R b \<Longrightarrow> safe_around R (paren op a b)"
  by (simp add: paren_def sq chars)

lemma sq_both: "pred_option (safe_around R) a \<Longrightarrow> pred_option (safe_around R) b \<Longrightarrow>
    (\<And>l r. safe_around R l \<Longrightarrow> safe_around R r \<Longrightarrow> safe_around R (f l r)) \<Longrightarrow> pred_option (safe_around R) (both a b f)"
  by (cases a; cases b) (simp_all add: both_def)

lemma sq_and_parts: "pred_option (safe_around R) a \<Longrightarrow> pred_option (safe_around R) b \<Longrightarrow> pred_option (safe_around R) (and_parts a b)"
  by (cases a; cases b) (simp_all add: and_parts_def sq chars)

lemma sq_first_arg: "list_all (safe_around R) as \<Longrightarrow> (\<And>a. safe_around R a \<Longrightarrow> safe_around R (f a)) \<Longrightarrow> pred_option (safe_around R) (first_arg as f)"
  by (cases as) (simp_all add: first_arg_def)

lemma sq_two_args: "list_all (safe_around R) as \<Longrightarrow> template op \<Longrightarrow> pred_option (safe_around R) (two_args as op)"
  by (cases as; cases "tl as") (auto simp: two_args_def sq)

lemma sq_function: "list_all (safe_around R) as \<Longrightarrow> pred_option (safe_around R) (function_to_cypher f as)"
  by (induction f as rule: function_to_cypher.induct)
    (auto simp: chars sq split: list.splits intro!: sq_first_arg sq_two_args)

subsection \<open>Patterns\<close>

definition safe_state :: "rstr set \<Rightarrow> pattern_state \<Rightarrow> bool" where
  "safe_state R s \<longleftrightarrow> list_all (safe_around R) (ps_match s) \<and> list_all (safe_around R) (ps_where s) \<and>
     (\<forall>v \<in> fset (ps_vars s). name_ok v)"

lemma safe_state_simps [simp]:
  "safe_state R (ps_empty vs) \<longleftrightarrow> (\<forall>v \<in> fset vs. name_ok v)"
  "safe_state R (add_match ms s) \<longleftrightarrow> list_all (safe_around R) ms \<and> safe_state R s"
  "safe_state R (add_where ws s) \<longleftrightarrow> list_all (safe_around R) ws \<and> safe_state R s"
  "safe_state R (add_vars vs s) \<longleftrightarrow> (\<forall>v \<in> fset vs. name_ok v) \<and> safe_state R s"
  by (auto simp: safe_state_def ps_empty_def add_match_def add_where_def add_vars_def)

lemma safe_state_vars: "safe_state R s \<Longrightarrow> \<forall>v \<in> fset (ps_vars s). name_ok v"
  by (simp add: safe_state_def)

lemma triples_yield: "list_all triple_ok ts \<Longrightarrow> safe_state R s \<Longrightarrow> yields (safe_state R) (process_triples ts s)"
proof (induction ts arbitrary: s)
  case (Cons t ts)
  then show ?case
    by (simp, intro yields_bind [OF triple_yields [where R = R]]) auto
qed (simp add: yields_ret)

lemma sq_ground: "safe_around R (ground_term_to_cypher t)"
  by (cases t) (simp_all add: sq)

lemma sq_grounds: "list_all (safe_around R) (map ground_term_to_cypher ts)"
  by (simp add: list_all_iff sq_ground)

lemma sq_map_filter: "(\<And>x y. x \<in> set xs \<Longrightarrow> f x = Some y \<Longrightarrow> P y) \<Longrightarrow> list_all P (List.map_filter f xs)"
  by (auto simp: List.map_filter_def list_all_iff)

lemma safe_values: "list_all name_ok vs \<Longrightarrow> safe_state R s \<Longrightarrow> safe_state R (process_values vs rows s)"
proof -
  assume vs: "list_all name_ok vs" and s: "safe_state R s"
  have row: "safe_around R (values_row vs row)" for row
    using vs unfolding values_row_def
    by (intro around_append sq_template [THEN around_safe] around_join sq_map_filter)
      (auto simp: chars sq sq_ground list_all_iff dest!: set_zip_leftD)
  have cond: "safe_around R (values_condition rows (i, v))" if "v \<in> set vs" for i v
    using vs that by (auto simp: values_condition_def Let_def list_all_iff chars sq split: option.split)
  have conds: "list_all (safe_around R) (map (values_condition rows) (zip [0..<length vs] vs))"
    by (auto simp: list_all_iff intro: cond dest: set_zip_rightD)
  have names: "\<forall>v \<in> fset (fset_of_list vs). name_ok v"
    using vs by (simp add: fset_of_list.rep_eq list_all_iff)
  show ?thesis
  proof (cases "1 < length vs")
    case True
    then show ?thesis using s names conds row by (auto simp: process_values_def Let_def chars sq list_all_iff)
  next
    case False
    show ?thesis
    proof (cases vs)
      case Nil
      then show ?thesis using s by (simp add: process_values_def Let_def)
    next
      case (Cons v vs')
      then show ?thesis using s vs names False by (simp add: process_values_def Let_def chars sq sq_grounds)
    qed
  qed
qed

lemma safe_optional: "safe_state R o' \<Longrightarrow> safe_state R s \<Longrightarrow> safe_state R (add_optional o' s)"
  by (auto simp: add_optional_def safe_state_def add_match_def Let_def chars sq)

lemma safe_binding: "name_ok v \<Longrightarrow> safe_around R x \<Longrightarrow> safe_state R s \<Longrightarrow> safe_state R (add_binding v x s)"
  by (simp add: add_binding_def chars sq)

lemma safe_minus: "safe_state R m \<Longrightarrow> safe_state R s \<Longrightarrow> safe_state R (add_minus m s)"
  by (auto simp: add_minus_def safe_state_def add_where_def chars sq)

lemma safe_names: "list_all name_ok vs \<Longrightarrow> \<forall>v \<in> fset (fset_of_list vs). name_ok v"
  by (simp add: fset_of_list.rep_eq list_all_iff)

lemma term_vars_ok: "term_ok t \<Longrightarrow> \<forall>v \<in> fset (term_var t). name_ok v"
  by (cases t) simp_all

lemma sq_map_option: "pred_option (safe_around R) x \<Longrightarrow> (\<And>a. safe_around R a \<Longrightarrow> safe_around R (f a)) \<Longrightarrow> pred_option (safe_around R) (map_option f x)"
  by (cases x) simp_all

lemma sq_exists: "safe_state R s \<Longrightarrow> pred_option (safe_around R) (exists_clause s)"
  by (auto simp: exists_clause_def safe_state_def Let_def chars sq)

lemmas yields_expr = yields_bind [where P = "pred_option (safe_around R)"] for R
lemmas yields_list = yields_bind [where P = "list_all (safe_around R)"] for R
lemmas yields_path = yields_bind [OF term_yields [where R = R]] for R
lemmas yields_state = yields_bind [where P = "safe_state R"] for R

lemma translation_yields:
  "expr_ok e \<Longrightarrow> expr_raw e \<subseteq> R \<Longrightarrow> yields (pred_option (safe_around R)) (translate_expression e)"
  "exprs_ok es \<Longrightarrow> exprs_raw es \<subseteq> R \<Longrightarrow> yields (list_all (safe_around R)) (translate_list es)"
  "gp_ok p \<Longrightarrow> gp_raw p \<subseteq> R \<Longrightarrow> safe_state R s \<Longrightarrow> yields (safe_state R) (process_pattern p s)"
  by (induction e and es and p s rule: translate_expression_translate_list_process_pattern.induct)
    (auto simp: chars sq sq_literal opt_list_all safe_values triples_yield safe_optional safe_binding safe_minus
        safe_names term_vars_ok safe_state_vars term_result_def
      intro!: yields_ret yields_fail yields_ok_flatten yields_expr [where R = R] yields_list [where R = R] yields_state [where R = R] yields_path [where R = R] sq_both
        sq_and_parts sq_map_option sq_function sq_exists
      split: option.splits)

subsection \<open>Clauses and queries\<close>

lemma safe_order: "list_all (\<lambda>c. expr_ok (oc_expression c)) cs \<Longrightarrow> order_raw (Some cs) \<subseteq> R \<Longrightarrow> yields (list_all (safe_around R)) (order_parts cs)"
  by (induction cs)
    (auto simp: chars sq opt_list_all opt_list_def order_raw_def split: option.split
      intro!: yields_ret yields_expr [where R = R] yields_list [where R = R] yields_ok_flatten translation_yields)

lemma sq_modifiers:
  "(case sq_order_by q of None \<Rightarrow> True | Some cs \<Rightarrow> list_all (\<lambda>c. expr_ok (oc_expression c)) cs) \<Longrightarrow>
     order_raw (sq_order_by q) \<subseteq> R \<Longrightarrow> yields (safe_around R) (modifiers_text q)"
  unfolding modifiers_text_def build_order_clause_def
  by (rule yields_bind [where P = "safe_around R"])
    (auto simp: chars sq split: option.split intro!: yields_ret yields_bind [OF safe_order [where R = R]])

lemma sq_flush: "list_all (safe_around R) ps \<Longrightarrow> list_all (safe_around R) (flush_patterns ps)"
  by (simp add: flush_patterns_def chars sq)

lemma sq_match_loop: "list_all (safe_around R) ps \<Longrightarrow> list_all (safe_around R) cur \<Longrightarrow> list_all (safe_around R) (match_loop ps cur)"
  by (induction ps cur rule: match_loop.induct) (simp_all add: sq_flush)

lemma sq_match_clause [sq]: "list_all (safe_around R) ps \<Longrightarrow> safe_around R (build_match_clause ps)"
  by (simp add: build_match_clause_def chars sq sq_match_loop)

lemma sq_where_text [sq]: "list_all (safe_around R) ws \<Longrightarrow> safe_around R (where_text ws)"
  by (simp add: where_text_def chars sq)

lemma sq_names: "list_all name_ok vs \<Longrightarrow> list_all (safe_around R) vs"
  by (auto simp: list_all_iff sq)

lemma sq_return_item: "name_ok v \<Longrightarrow> safe_around R (return_item v)"
  by (simp add: return_item_def chars sq)

lemma sq_return [sq]: "list_all name_ok vs \<Longrightarrow> safe_around R (build_return_clause vs d)"
  by (auto simp: build_return_clause_def chars sq list_all_iff sq_return_item)

lemma flatten_ok: "gp_ok p \<Longrightarrow> list_all gp_ok (flatten_union p)"
  by (induction p rule: flatten_union.induct) simp_all

lemma flatten_raw: "gp_raw p \<subseteq> R \<Longrightarrow> list_all (\<lambda>p. gp_raw p \<subseteq> R) (flatten_union p)"
  by (induction p rule: flatten_union.induct) simp_all

lemma branches_yield: "list_all gp_ok ps \<Longrightarrow> list_all (\<lambda>p. gp_raw p \<subseteq> R) ps \<Longrightarrow> yields (list_all (safe_state R)) (process_branches ps)"
  by (induction ps)
   (auto intro!: yields_ret yields_state [where R = R] translation_yields yields_bind [where P = "list_all (safe_state R)"])

lemma sq_branch: "list_all name_ok vs \<Longrightarrow> safe_state R s \<Longrightarrow> safe_around R (branch_query vs d s)"
  by (auto simp: branch_query_def safe_state_def chars sq)

lemma fold_vars: "v |\<in>| fold (\<lambda>s vs. vs |\<union>| ps_vars s) ss A \<longleftrightarrow> v |\<in>| A \<or> (\<exists>s \<in> set ss. v |\<in>| ps_vars s)"
  by (induction ss arbitrary: A) auto

lemma union_vars_ok: "list_all (safe_state R) ss \<Longrightarrow> \<forall>v \<in> fset (union_vars ss). name_ok v"
  by (auto simp: union_vars_def fold_vars list_all_iff safe_state_def)

definition enumerates :: "(rstr fset \<Rightarrow> rstr list) \<Rightarrow> bool" where
  "enumerates iter \<longleftrightarrow> (\<forall>A. set (iter A) = fset A)"

definition safe_result :: "rstr set \<Rightarrow> cypher_query \<Rightarrow> bool" where
  "safe_result R c \<longleftrightarrow> safe_around R (cy_query c) \<and> list_all name_ok (cy_variables c)"

lemma columns_ok: "enumerates iter \<Longrightarrow> select_ok q \<Longrightarrow> \<forall>v \<in> fset A. name_ok v \<Longrightarrow>
    list_all name_ok (if is_select_all q then iter A else projected_variables iter q)"
  by (auto simp: select_ok_def is_select_all_def projected_variables_def enumerates_def list_all_iff split: option.splits)

lemma sorted_columns_ok: "enumerates iter \<Longrightarrow> select_ok q \<Longrightarrow> \<forall>v \<in> fset A. name_ok v \<Longrightarrow>
    list_all name_ok (if is_select_all q then sort (iter A) else projected_variables iter q)"
  using columns_ok [of iter q A] by (auto simp: list_all_iff)

lemma select_yields:
  assumes iter: "enumerates iter" and q: "select_ok q" and raw: "query_raw (QSelect q) \<subseteq> R" and plain: "\<not> is_union (sq_pattern q)"
  shows "yields (safe_result R) (translate_select iter q)"
proof -
  have "yields (safe_state R) (process_pattern (sq_pattern q) (ps_empty {||}))"
    using q raw by (intro translation_yields(3)) (simp_all add: select_ok_def)
  moreover have "yields (safe_around R) (modifiers_text q)"
    using q raw by (intro sq_modifiers) (simp_all add: select_ok_def)
  moreover have "safe_state R s \<Longrightarrow> list_all name_ok (if is_select_all q then iter (ps_vars s) else projected_variables iter q)" for s
    using columns_ok [OF iter q safe_state_vars] .
  ultimately show ?thesis
    using plain unfolding translate_select_def Let_def if_not_P [OF plain]
    by (intro yields_bind [where P = "safe_state R"] yields_bind [where P = "safe_around R"] yields_ret)
      (auto simp: safe_result_def sq safe_state_def)
qed

lemma union_yields:
  assumes iter: "enumerates iter" and q: "select_ok q" and raw: "query_raw (QSelect q) \<subseteq> R"
  shows "yields (safe_result R) (translate_select_union iter q)"
proof -
  have branches: "yields (list_all (safe_state R)) (process_branches (flatten_union (sq_pattern q)))"
    using q raw by (intro branches_yield flatten_ok flatten_raw) (simp_all add: select_ok_def)
  have modifiers: "yields (safe_around R) (modifiers_text q)"
    using q raw by (intro sq_modifiers) (simp_all add: select_ok_def)
  have result: "safe_result R \<lparr>cy_query = (if X then lit ''CALL {'' @ [c_nl] @ body @ [c_nl] @ lit ''}'' @ [c_nl] @ lit ''RETURN '' @
             (if vs = [] then lit ''*'' else join (lit '', '') vs) else body) @ m, cy_variables = vs, cy_type = CqSelect\<rparr>"
    if "safe_around R body" "list_all name_ok vs" "safe_around R m" for X body vs m
    using that by (auto simp: safe_result_def chars sq sq_names)
  have body: "safe_around R (join (if d then [c_nl] @ lit ''UNION'' @ [c_nl] else [c_nl] @ lit ''UNION ALL'' @ [c_nl])
      (map (branch_query vs d) ss))" if "list_all name_ok vs" "list_all (safe_state R) ss" for d vs ss
    using that by (intro around_join) (auto simp: chars sq list_all_iff [of "safe_state R"] list_all_iff [of "safe_around R"] intro: sq_branch)
  show ?thesis
    unfolding translate_select_union_def Let_def
    by (rule yields_bind [OF branches], rule yields_bind [OF modifiers], rule yields_ret, rule result)
      (intro body sorted_columns_ok iter q union_vars_ok | assumption)+
qed

lemma result_column: "name_ok (lit ''result'')"
  by (simp add: name_ok_def name_char_def lit_def char_class_defs)

lemma translation_safe: "enumerates iter \<Longrightarrow> query_ok q \<Longrightarrow> query_raw q \<subseteq> R \<Longrightarrow> yields (safe_result R) (translate_query iter q)"
proof (cases q)
  case (QAsk a)
  moreover assume "query_ok q" "query_raw q \<subseteq> R"
  ultimately have "yields (safe_state R) (process_pattern (aq_pattern a) (ps_empty {||}))"
    by (intro translation_yields(3)) simp_all
  then show ?thesis
    unfolding QAsk translate_query.simps translate_ask_def
    by (intro yields_state [rotated] yields_ret) (auto simp: safe_result_def safe_state_def chars sq result_column)
next
  case (QSelect s)
  moreover assume "enumerates iter" "query_ok q" "query_raw q \<subseteq> R"
  ultimately show ?thesis
    using union_yields [of iter s] select_yields [of iter s] by (cases "is_union (sq_pattern s)") (simp_all add: translate_select_def)
qed (simp_all add: yields_fail)

definition ask_of :: "gp \<Rightarrow> query" where
  "ask_of p = QAsk \<lparr>aq_inner = SpAsk p None, aq_pattern = p, aq_dataset = None\<rparr>"

definition quoted_ask :: query where
  "quoted_ask = ask_of (FilterP (EEqual (EVariable (lit ''o'')) (ELiteral \<lparr>sl_value = [c_squote],
       sl_datatype = xsd_namespace @ lit ''string'', sl_display = []\<rparr>))
     (Bgp [\<lparr>st_subject = TpVariable (lit ''s''), st_predicate = NnpVariable (lit ''p''), st_object = TpVariable (lit ''o'')\<rparr>]))"

text \<open>C2: A successful translation of a query whose variables and blank node labels are as the grammar makes
  them lets no text of the query out of its quotes but one kind: its text falls into pieces that close every
  string they open and have outside strings only characters of the templates, of names and of numbers, and
  pieces that are the texts of literals of a numeric datatype that are no numerals. If the query has no such literal, the whole
  text closes its strings and has only those characters outside them. The names of the result columns are variable names.\<close>

theorem translate_injection_safe:
  assumes "enumerates iter" "query_ok q" "translate_query iter q c = (Inr r, c')"
  shows "safe_around (query_raw q) (cy_query r) \<and> (query_raw q = {} \<longrightarrow> safe_query (cy_query r)) \<and>
    list_all name_ok (cy_variables r)"
proof -
  have "safe_result (query_raw q) r" using yieldsD [OF translation_safe assms(3)] assms(1,2) by blast
  then show ?thesis by (auto simp: safe_result_def around_empty [symmetric])
qed

text \<open>A quote in a string and an injected condition in a number.\<close>

lemma translate_injection_safe_witness: "enumerates sorted_list_of_fset \<and> query_ok quoted_ask \<and> query_raw quoted_ask = {} \<and>
    (\<exists>r c'. translate_query sorted_list_of_fset quoted_ask 0 = (Inr r, c') \<and> safe_query (cy_query r))"
proof -
  have ok: "query_ok quoted_ask" "query_raw quoted_ask = {}" "enumerates sorted_list_of_fset"
    by (simp_all add: quoted_ask_def ask_of_def triple_ok_def name_ok_def name_char_def literal_raw_def numeric_datatypes_def
      xsd_namespace_def lit_def char_class_defs enumerates_def)
  moreover obtain r c' where "translate_query sorted_list_of_fset quoted_ask 0 = (Inr r, c')"
    by (simp add: quoted_ask_def ask_of_def translate_ask_def bind_def ret_def translate_triple_pattern_def next_var_def)
  ultimately show ?thesis using translate_injection_safe by blast
qed

end
