(* ===== verification/TranslationFacts.thy ===== *)
theory TranslationFacts
  imports Translator SparqlFront
begin

section \<open>What the query translation does and loses\<close>

text \<open>
  Which queries translate, which columns a translated query has, and the places where the text
  no longer says what the query says: constants inside OPTIONAL and MINUS, predicate variables,
  literals of numeric datatypes, and variables named like generated ones.
\<close>


subsection \<open>Which translations fail\<close>

datatype status = Failed | NoText | Text

definition status_of :: "mapper_error + 'a option \<Rightarrow> status" where
  "status_of r = (case r of Inl _ \<Rightarrow> Failed | Inr None \<Rightarrow> NoText | Inr (Some _) \<Rightarrow> Text)"

definition outcome :: "'a option trans \<Rightarrow> status \<Rightarrow> bool" where
  "outcome m st \<longleftrightarrow> (\<forall>c. status_of (fst (m c)) = st)"

definition both_status :: "status \<Rightarrow> status \<Rightarrow> status" where
  "both_status a b = (if a = Failed \<or> b = Failed then Failed else if a = Text \<and> b = Text then Text else NoText)"

definition either_status :: "status \<Rightarrow> status \<Rightarrow> status" where
  "either_status a b = (if a = Failed \<or> b = Failed then Failed else if a = Text \<or> b = Text then Text else NoText)"

text \<open>How many arguments a function needs to have a text.\<close>

fun function_takes :: "sp_function \<Rightarrow> nat \<Rightarrow> bool" where
  "function_takes FContains n = (2 \<le> n)"
| "function_takes FStrStarts n = (2 \<le> n)"
| "function_takes FStrEnds n = (2 \<le> n)"
| "function_takes FRegex n = (2 \<le> n)"
| "function_takes FSubStr n = (2 \<le> n)"
| "function_takes FReplace n = (n = 3)"
| "function_takes (FOther f) n = False"
| "function_takes _ n = (1 \<le> n)"

text \<open>Whether a pattern that translates adds MATCH parts.\<close>

fun adds_match :: "gp \<Rightarrow> bool" where
  "adds_match (Bgp ts) = (ts \<noteq> [])"
| "adds_match (PathP a b) = True"
| "adds_match (JoinP l r) = (adds_match l \<or> adds_match r)"
| "adds_match (LeftJoin l r e) = (adds_match l \<or> adds_match r)"
| "adds_match (FilterP e p) = adds_match p"
| "adds_match (UnionP l r) = False"
| "adds_match (GraphP g p) = adds_match p"
| "adds_match (Extend p v e) = True"
| "adds_match (MinusP l r) = adds_match l"
| "adds_match (Values vs rows) = (1 < length vs \<and> rows \<noteq> [])"
| "adds_match (OrderBy p es) = adds_match p"
| "adds_match (Project p vs) = adds_match p"
| "adds_match (DistinctP p) = adds_match p"
| "adds_match (Reduced p) = adds_match p"
| "adds_match (Slice p k n) = adds_match p"
| "adds_match (Group p vs) = adds_match p"
| "adds_match (Service p) = False"

function (sequential) expr_status :: "sp_expr \<Rightarrow> status" and texts :: "sp_expr list \<Rightarrow> nat" and supported :: "gp \<Rightarrow> bool" where
  "expr_status (ENamedNode n) = Text"
| "expr_status (ELiteral l) = Text"
| "expr_status (EVariable v) = Text"
| "expr_status (EBound v) = Text"
| "expr_status (EAnd l r) = either_status (expr_status l) (expr_status r)"
| "expr_status (EOr l r) = both_status (expr_status l) (expr_status r)"
| "expr_status (EEqual l r) = both_status (expr_status l) (expr_status r)"
| "expr_status (ESameTerm l r) = both_status (expr_status l) (expr_status r)"
| "expr_status (EGreater l r) = both_status (expr_status l) (expr_status r)"
| "expr_status (EGreaterOrEqual l r) = both_status (expr_status l) (expr_status r)"
| "expr_status (ELess l r) = both_status (expr_status l) (expr_status r)"
| "expr_status (ELessOrEqual l r) = both_status (expr_status l) (expr_status r)"
| "expr_status (EAdd l r) = both_status (expr_status l) (expr_status r)"
| "expr_status (ESubtract l r) = both_status (expr_status l) (expr_status r)"
| "expr_status (EMultiply l r) = both_status (expr_status l) (expr_status r)"
| "expr_status (EDivide l r) = both_status (expr_status l) (expr_status r)"
| "expr_status (EIn e es) = both_status (expr_status e) (if 0 < texts es then Text else NoText)"
| "expr_status (EUnaryPlus e) = expr_status e"
| "expr_status (EUnaryMinus e) = expr_status e"
| "expr_status (ENot e) = expr_status e"
| "expr_status (EExists p) = (if \<not> supported p then Failed else if adds_match p then Text else NoText)"
| "expr_status (EIf c t e) = both_status (expr_status c) (both_status (expr_status t) (expr_status e))"
| "expr_status (ECoalesce es) = (if 0 < texts es then Text else NoText)"
| "expr_status (EFunctionCall f es) = (if function_takes f (texts es) then Text else NoText)"
| "texts [] = 0"
| "texts (e # es) = (if expr_status e = Text then Suc (texts es) else texts es)"
| "supported (Bgp ts) = True"
| "supported (PathP a b) = True"
| "supported (JoinP l r) = (supported l \<and> supported r)"
| "supported (LeftJoin l r e) = (supported l \<and> supported r \<and> (case e of None \<Rightarrow> True | Some x \<Rightarrow> expr_status x \<noteq> Failed))"
| "supported (FilterP e p) = (supported p \<and> expr_status e \<noteq> Failed)"
| "supported (UnionP l r) = False"
| "supported (GraphP g p) = supported p"
| "supported (Extend p v e) = (supported p \<and> expr_status e = Text)"
| "supported (MinusP l r) = (supported l \<and> supported r)"
| "supported (Values vs rows) = True"
| "supported (OrderBy p es) = supported p"
| "supported (Project p vs) = supported p"
| "supported (DistinctP p) = supported p"
| "supported (Reduced p) = supported p"
| "supported (Slice p k n) = supported p"
| "supported (Group p vs) = supported p"
| "supported (Service p) = False"
  by pat_completeness auto

termination
  by (relation "measure (case_sum size (case_sum (size_list size) size))") simp_all

text \<open>The outcome of a computation in the monad, whatever the counter.\<close>

definition always :: "(mapper_error + 'a \<Rightarrow> bool) \<Rightarrow> 'a trans \<Rightarrow> bool" where
  "always P m \<longleftrightarrow> (\<forall>c. P (fst (m c)))"

definition text_of :: "status \<Rightarrow> mapper_error + 'a option \<Rightarrow> bool" where
  "text_of st r \<longleftrightarrow> status_of r = st"

definition pattern_of :: "bool \<Rightarrow> bool \<Rightarrow> mapper_error + pattern_state \<Rightarrow> bool" where
  "pattern_of ok m r \<longleftrightarrow> (case r of Inl _ \<Rightarrow> \<not> ok | Inr s \<Rightarrow> ok \<and> (ps_match s \<noteq> []) = m)"

lemma always_ret: "always P (ret x) \<longleftrightarrow> P (Inr x)"
  by (simp add: always_def ret_def)

lemma always_fail: "always P (fail e) \<longleftrightarrow> P (Inl e)"
  by (simp add: always_def fail_def)

lemma always_bind: "always P m \<Longrightarrow> (\<And>e. P (Inl e) \<Longrightarrow> Q (Inl e)) \<Longrightarrow> (\<And>x. P (Inr x) \<Longrightarrow> always Q (f x)) \<Longrightarrow>
    always Q (bind m f)"
  unfolding always_def bind_def by (auto split: prod.splits sum.splits) (metis fst_conv)+

lemma always_mono: "always P m \<Longrightarrow> (\<And>r. P r \<Longrightarrow> Q r) \<Longrightarrow> always Q m"
  by (auto simp: always_def)

lemma text_of_simps [simp]:
  "text_of st (Inl e) \<longleftrightarrow> st = Failed"
  "text_of st (Inr (Some x)) \<longleftrightarrow> st = Text"
  "text_of st (Inr None) \<longleftrightarrow> st = NoText"
  by (auto simp: text_of_def status_of_def)

lemma text_of_Inr: "text_of st (Inr x) \<longleftrightarrow> st = (if x = None then NoText else Text)"
  by (cases x) auto

lemma pattern_of_simps [simp]:
  "pattern_of ok m (Inl e) \<longleftrightarrow> \<not> ok"
  "pattern_of ok m (Inr s) \<longleftrightarrow> ok \<and> (ps_match s \<noteq> []) = m"
  by (auto simp: pattern_of_def)

lemma always_next_var: "always (\<lambda>r. \<exists>v. r = Inr v) (next_var p)"
  by (simp add: always_def next_var_def)

lemma always_term: "always (\<lambda>r. \<exists>v. r = Inr v) (term_to_cypher t)"
  by (cases t) (auto simp: always_ret intro!: always_bind [OF always_next_var])

lemma always_triple: "always (\<lambda>r. \<exists>v. r = Inr v) (translate_triple_pattern t)"
  unfolding translate_triple_pattern_def
  by (auto simp: always_ret intro!: always_bind [OF always_next_var] always_bind [OF always_term])

lemma match_simps [simp]:
  "ps_match (add_match ms s) = ps_match s @ ms" "ps_match (add_where ws s) = ps_match s"
  "ps_match (add_vars vs s) = ps_match s" "ps_match (ps_empty vs) = []" "ps_match (add_minus m s) = ps_match s"
  "ps_match (add_optional opt s) = [] \<longleftrightarrow> ps_match s = [] \<and> ps_match opt = []"
  "ps_match (add_binding v x s) \<noteq> []"
  by (simp_all add: add_match_def add_where_def add_vars_def ps_empty_def add_minus_def add_optional_def
    add_binding_def Let_def)

lemma always_triples:
  "always (pattern_of True (ps_match s \<noteq> [] \<or> ts \<noteq> [])) (process_triples ts s)"
proof (induction ts arbitrary: s)
  case (Cons t ts)
  have "always (pattern_of True True) (process_triples ts s')" if "ps_match s' \<noteq> []" for s'
    using Cons [of s'] that by simp
  then show ?case by (auto intro!: always_bind [OF always_triple])
qed (simp add: always_ret)

lemma values_match: "ps_match (process_values vs rows s) \<noteq> [] \<longleftrightarrow> ps_match s \<noteq> [] \<or> 1 < length vs \<and> rows \<noteq> []"
  by (auto simp: process_values_def Let_def)

lemma function_text: "function_to_cypher f as = None \<longleftrightarrow> \<not> function_takes f (length as)"
  by (induction f as rule: function_to_cypher.induct)
    (auto simp: first_arg_def two_args_def Suc_le_eq numeral_2_eq_2 numeral_3_eq_3 split: list.splits)

lemma both_None: "both a b f = None \<longleftrightarrow> a = None \<or> b = None"
  by (cases a; cases b) (simp_all add: both_def)

lemma and_None: "and_parts a b = None \<longleftrightarrow> a = None \<and> b = None"
  by (cases a; cases b) (simp_all add: and_parts_def)

lemma binary_always: "always (text_of a) m \<Longrightarrow> always (text_of b) n \<Longrightarrow>
    always (text_of (both_status a b)) (bind m (\<lambda>x. bind n (\<lambda>y. ret (both x y f))))"
  by (rule always_bind, assumption, simp add: both_status_def, rule always_bind, assumption)
    (auto simp: always_ret text_of_Inr both_None both_status_def split: if_splits)

lemma and_always: "always (text_of a) m \<Longrightarrow> always (text_of b) n \<Longrightarrow>
    always (text_of (either_status a b)) (bind m (\<lambda>x. bind n (\<lambda>y. ret (and_parts x y))))"
  by (rule always_bind, assumption, simp add: either_status_def, rule always_bind, assumption)
    (auto simp: always_ret text_of_Inr and_None either_status_def split: if_splits)

definition list_of :: "nat \<Rightarrow> mapper_error + rstr list \<Rightarrow> bool" where
  "list_of n r \<longleftrightarrow> (\<exists>as. r = Inr as \<and> length as = n)"

lemma list_of_simps [simp]: "\<not> list_of n (Inl e)" "list_of n (Inr as) \<longleftrightarrow> length as = n"
  by (auto simp: list_of_def)

lemma expr_step:
  "always (text_of (expr_status e)) (translate_expression e) \<Longrightarrow> (\<And>err. expr_status e = Failed \<Longrightarrow> Q (Inl err)) \<Longrightarrow>
     (\<And>x. expr_status e = Text \<Longrightarrow> always Q (f (Some x))) \<Longrightarrow> (expr_status e = NoText \<Longrightarrow> always Q (f None)) \<Longrightarrow>
     always Q (bind (translate_expression e) f)"
  by (rule always_bind, assumption) (auto simp: text_of_Inr split: if_splits)

lemma flatten_step:
  "always (text_of (expr_status e)) (translate_expression e) \<Longrightarrow>
     (\<And>x. expr_status e = Text \<Longrightarrow> always Q (f (Some x))) \<Longrightarrow> (expr_status e \<noteq> Text \<Longrightarrow> always Q (f None)) \<Longrightarrow>
     always Q (bind (ok_flatten (translate_expression e)) f)"
proof (rule always_bind [where P = "\<lambda>r. \<exists>x. r = Inr x \<and> (x \<noteq> None) = (expr_status e = Text)"])
  assume outcome: "always (text_of (expr_status e)) (translate_expression e)"
  show "always (\<lambda>r. \<exists>x. r = Inr x \<and> (x \<noteq> None) = (expr_status e = Text)) (ok_flatten (translate_expression e))"
    unfolding always_def
  proof
    fix c
    from outcome have "text_of (expr_status e) (fst (translate_expression e c))"
      unfolding always_def by blast
    then show "\<exists>x. fst (ok_flatten (translate_expression e) c) = Inr x \<and> (x \<noteq> None) = (expr_status e = Text)"
      by (auto simp: ok_flatten_def text_of_Inr split: prod.split sum.split if_splits)
  qed
qed auto

lemma list_step:
  "always (list_of (texts es)) (translate_list es) \<Longrightarrow> (\<And>as. length as = texts es \<Longrightarrow> always Q (f as)) \<Longrightarrow>
     always Q (bind (translate_list es) f)"
  by (rule always_bind, assumption) simp_all

lemma pattern_step:
  "always (pattern_of (supported p) (ps_match s \<noteq> [] \<or> adds_match p)) (process_pattern p s) \<Longrightarrow>
     (\<And>err. \<not> supported p \<Longrightarrow> Q (Inl err)) \<Longrightarrow>
     (\<And>x. supported p \<Longrightarrow> (ps_match x \<noteq> []) = (ps_match s \<noteq> [] \<or> adds_match p) \<Longrightarrow> always Q (f x)) \<Longrightarrow>
     always Q (bind (process_pattern p s) f)"
  by (rule always_bind, assumption) simp_all

lemmas always_path = always_bind [OF always_term]

lemma exists_None: "exists_clause s = None \<longleftrightarrow> ps_match s = []"
  by (simp add: exists_clause_def Let_def)

lemma translation_outcome:
  "always (text_of (expr_status e)) (translate_expression e)"
  "always (list_of (texts es)) (translate_list es)"
  "always (pattern_of (supported p) (ps_match s \<noteq> [] \<or> adds_match p)) (process_pattern p s)"
proof (induction e and es and p s rule: translate_expression_translate_list_process_pattern.induct)
  case (28 l r s)
  show ?case
    unfolding process_pattern.simps
  proof (rule pattern_step [OF 28(1)])
    fix x :: pattern_state
    assume "supported l" "(ps_match x \<noteq> []) = (ps_match s \<noteq> [] \<or> adds_match l)"
    then show "always (pattern_of (supported (JoinP l r)) (ps_match s \<noteq> [] \<or> adds_match (JoinP l r))) (process_pattern r x)"
      using 28(2) [of x] by (simp del: disj_not1)
  qed simp
qed (auto simp: binary_always and_always always_ret always_fail text_of_Inr both_None and_None function_text exists_None
   always_triples values_match both_status_def opt_list_def
   simp del: disj_not1
  split: option.split
  intro!: expr_step flatten_step list_step pattern_step always_path)


definition succeeds :: "bool \<Rightarrow> 'a trans \<Rightarrow> bool" where
  "succeeds b = always (\<lambda>r. isl r = (\<not> b))"

lemma succeeds_ret: "succeeds True (ret x)"
  by (simp add: succeeds_def always_ret)

lemma succeeds_fail: "succeeds False (fail e)"
  by (simp add: succeeds_def always_fail)

lemma succeeds_bind: "succeeds b m \<Longrightarrow> (\<And>x. succeeds True (f x)) \<Longrightarrow> succeeds b (bind m f)"
  unfolding succeeds_def by (cases b) (auto elim!: always_bind simp: always_def bind_def split: prod.splits sum.splits; metis fst_conv sum.disc)+

lemma succeeds_flatten: "succeeds True (ok_flatten m)"
  by (simp add: succeeds_def always_def ok_flatten_def split: prod.split sum.split)

lemma succeeds_pattern: "succeeds (supported p) (process_pattern p s)"
  unfolding succeeds_def
  by (rule always_mono [OF translation_outcome(3)]) (auto simp: pattern_of_def split: sum.splits)

lemma succeeds_modifiers: "succeeds True (modifiers_text q)"
proof -
  have "succeeds True (order_parts cs)" for cs
    by (induction cs) (auto intro!: succeeds_ret succeeds_bind [OF succeeds_flatten] succeeds_bind)
  then show ?thesis
    unfolding modifiers_text_def build_order_clause_def
    by (auto split: option.split intro!: succeeds_bind succeeds_ret)
qed

lemma succeeds_branches: "succeeds (list_all supported ps) (process_branches ps)"
proof (induction ps)
  case (Cons p ps)
  have "always (\<lambda>r. isl r = (\<not> list_all supported (p # ps))) (bind (process_pattern p (ps_empty {||})) (\<lambda>s.
      bind (process_branches ps) (\<lambda>ss. ret (s # ss))))"
  proof (rule always_bind [OF succeeds_pattern [unfolded succeeds_def]])
    fix s
    assume "isl (Inr s :: mapper_error + pattern_state) = (\<not> supported p)"
    moreover have "succeeds (list_all supported ps) (bind (process_branches ps) (\<lambda>ss. ret (s # ss)))"
      by (rule succeeds_bind [OF Cons]) (rule succeeds_ret)
    ultimately show "always (\<lambda>r. isl r = (\<not> list_all supported (p # ps))) (bind (process_branches ps) (\<lambda>ss. ret (s # ss)))"
      by (simp add: succeeds_def)
  qed simp
  then show ?case by (simp add: succeeds_def)
qed (simp add: succeeds_ret)

fun query_supported :: "query \<Rightarrow> bool" where
  "query_supported (QSelect q) = list_all supported (flatten_union (sq_pattern q))"
| "query_supported (QAsk q) = supported (aq_pattern q)"
| "query_supported _ = False"

lemma flatten_single: "\<not> is_union p \<Longrightarrow> flatten_union p = [p]"
  by (cases p) simp_all

lemma succeeds_translate: "succeeds (query_supported q) (translate_query iter q)"
proof (cases q)
  case (QSelect s)
  have "succeeds (list_all supported (flatten_union (sq_pattern s))) (translate_select_union iter s)"
    unfolding translate_select_union_def Let_def
    by (intro succeeds_bind [OF succeeds_branches] succeeds_bind [OF succeeds_modifiers] succeeds_ret)
  moreover have "\<not> is_union (sq_pattern s) \<Longrightarrow> succeeds (supported (sq_pattern s)) (translate_select iter s)"
    unfolding translate_select_def Let_def
    by (simp, intro succeeds_bind [OF succeeds_pattern] succeeds_bind [OF succeeds_modifiers] succeeds_ret)
  ultimately show ?thesis
    using QSelect by (cases "is_union (sq_pattern s)") (simp_all add: translate_select_def flatten_single)
next
  case (QAsk a)
  then show ?thesis
    by (simp add: translate_ask_def) (intro succeeds_bind [OF succeeds_pattern] succeeds_ret)
qed (simp_all add: succeeds_fail)

lemma succeeds_iff: "succeeds b m \<Longrightarrow> (\<exists>x c'. m c = (Inr x, c')) = b"
  unfolding succeeds_def always_def
  by (drule spec [where x = c], cases "m c", cases "fst (m c)") auto

text \<open>C30: Whether a query has a translation depends on its shape alone, not on the variable
  counter. CONSTRUCT and DESCRIBE have none. A SELECT has one exactly if every branch of the union at the top of its
  pattern (the pattern itself if that is no union) is supported, an ASK if its pattern is. A pattern is supported if it
  has no UNION, no SERVICE and no BIND of an expression without a text, also in the conditions of its filters and
  OPTIONALs, where an EXISTS of an unsupported pattern fails the query; only among the arguments of IN, COALESCE and functions is such an
  EXISTS dropped, and the expressions of ORDER BY are not looked at. A condition that has no text for another reason is dropped and does
  not fail.\<close>

theorem translation_fails_iff:
  "(\<exists>r c'. translate_query iter q c = (Inr r, c')) \<longleftrightarrow> query_supported q"
  by (rule succeeds_iff) (rule succeeds_translate)

subsection \<open>Columns\<close>

text \<open>The variables a pattern binds for the translation; the right side of MINUS binds none.\<close>

fun visible :: "gp \<Rightarrow> rstr set" where
  "visible (Bgp ts) = (\<Union>t \<in> set ts. fset (triple_vars t))"
| "visible (PathP a b) = fset (term_var a) \<union> fset (term_var b)"
| "visible (JoinP l r) = visible l \<union> visible r"
| "visible (LeftJoin l r e) = visible l \<union> visible r"
| "visible (FilterP e p) = visible p"
| "visible (UnionP l r) = visible l \<union> visible r"
| "visible (GraphP g p) = visible p"
| "visible (Extend p v e) = insert v (visible p)"
| "visible (MinusP l r) = visible l"
| "visible (Values vs rows) = set vs"
| "visible (OrderBy p es) = visible p"
| "visible (Project p vs) = visible p \<union> set vs"
| "visible (DistinctP p) = visible p"
| "visible (Reduced p) = visible p"
| "visible (Slice p k n) = visible p"
| "visible (Group p vs) = visible p"
| "visible (Service p) = visible p"

fun all_visible :: "gp \<Rightarrow> bool" where
  "all_visible (MinusP l r) = False"
| "all_visible (Group p vs) = False"
| "all_visible (JoinP l r) = (all_visible l \<and> all_visible r)"
| "all_visible (LeftJoin l r e) = (all_visible l \<and> all_visible r)"
| "all_visible (UnionP l r) = (all_visible l \<and> all_visible r)"
| "all_visible (FilterP e p) = all_visible p"
| "all_visible (GraphP g p) = all_visible p"
| "all_visible (Extend p v e) = all_visible p"
| "all_visible (OrderBy p es) = all_visible p"
| "all_visible (Project p vs) = all_visible p"
| "all_visible (DistinctP p) = all_visible p"
| "all_visible (Reduced p) = all_visible p"
| "all_visible (Slice p k n) = all_visible p"
| "all_visible (Service p) = all_visible p"
| "all_visible _ = True"

lemma visible_gp_vars: "all_visible p \<Longrightarrow> visible p = gp_vars p"
  by (induction p rule: visible.induct) auto

lemma bind_Inr: "bind m f c = (Inr y, c') \<longleftrightarrow> (\<exists>x c1. m c = (Inr x, c1) \<and> f x c1 = (Inr y, c'))"
  by (auto simp: bind_def split: prod.splits sum.splits)

lemma ret_Inr: "ret x c = (Inr y, c') \<longleftrightarrow> y = x \<and> c' = c"
  by (auto simp: ret_def)

lemma vars_simps [simp]:
  "ps_vars (add_match ms s) = ps_vars s" "ps_vars (add_where ws s) = ps_vars s"
  "ps_vars (add_vars vs s) = ps_vars s |\<union>| vs" "ps_vars (ps_empty vs) = vs" "ps_vars (add_minus m s) = ps_vars s"
  "ps_vars (add_optional opt s) = ps_vars opt"
  "ps_vars (add_binding v x s) = finsert v (ps_vars s)"
  by (simp_all add: add_match_def add_where_def add_vars_def ps_empty_def add_minus_def add_optional_def
    add_binding_def Let_def)

lemma triple_pattern_vars: "translate_triple_pattern t c = (Inr (m, ws, vs), c') \<Longrightarrow> vs = triple_vars t"
  by (auto simp: translate_triple_pattern_def bind_Inr ret_Inr split: prod.splits)

lemma triples_vars: "process_triples ts s c = (Inr s', c') \<Longrightarrow>
    fset (ps_vars s') = fset (ps_vars s) \<union> (\<Union>t \<in> set ts. fset (triple_vars t))"
  by (induction ts arbitrary: s c) (fastforce simp: bind_Inr ret_Inr dest: triple_pattern_vars)+

lemma values_vars: "ps_vars (process_values vs rows s) = ps_vars s |\<union>| fset_of_list vs"
  by (simp add: process_values_def Let_def)

lemma pattern_vars:
  fixes e :: sp_expr and es :: "sp_expr list"
  shows "True" "True" "process_pattern p s c = (Inr s', c') \<Longrightarrow> fset (ps_vars s') = fset (ps_vars s) \<union> visible p"
proof (induction e and es and p s arbitrary: and and c s' c'
    rule: translate_expression_translate_list_process_pattern.induct)
qed (auto simp: bind_Inr ret_Inr fail_def values_vars fset_of_list.rep_eq dest!: triples_vars split: option.splits prod.splits)

text \<open>the columns of a translated SELECT * without a top-level union are the variables its
  pattern binds, in the order of the set's iteration. Without MINUS and grouping these are all
  variables of the pattern, so that they agree with the variables of the parsed query as far as
  the extraction goes down.\<close>

theorem select_star_columns:
  assumes "translate_select iter q c = (Inr r, c')" "is_select_all q" "\<not> is_union (sq_pattern q)"
  shows "(\<exists>vs. cy_variables r = iter vs \<and> fset vs = visible (sq_pattern q)) \<and>
    (all_visible (sq_pattern q) \<and> gp_depth (sq_pattern q) \<le> MAX_EXTRACT_DEPTH \<longrightarrow>
       cy_variables r = projected_variables iter q)"
proof -
  obtain s c1 where s: "process_pattern (sq_pattern q) (ps_empty {||}) c = (Inr s, c1)" "cy_variables r = iter (ps_vars s)"
    using assms by (auto simp: translate_select_def bind_Inr ret_Inr Let_def)
  from pattern_vars(3) [OF s(1)] have vars: "fset (ps_vars s) = visible (sq_pattern q)"
    by simp
  have "ps_vars s = extract_variables (sq_pattern q)"
    if "all_visible (sq_pattern q)" "gp_depth (sq_pattern q) \<le> MAX_EXTRACT_DEPTH"
    using vars visible_gp_vars [OF that(1)] extract_depth [of "sq_pattern q" 0] that(2)
    by (simp add: extract_variables_def fset_inject [symmetric] del: fset_inject)
  then show ?thesis
    using s(2) vars assms(2) by (auto simp: projected_variables_def is_select_all_def)
qed

definition triple_of :: "sp_term \<Rightarrow> sp_pred \<Rightarrow> sp_term \<Rightarrow> sp_triple" where
  "triple_of s p x = \<lparr>st_subject = s, st_predicate = p, st_object = x\<rparr>"

definition select_of :: "rstr list option \<Rightarrow> gp \<Rightarrow> select_query" where
  "select_of vs p = \<lparr>sq_inner = SpSelect p None, sq_projection = vs, sq_distinct = False, sq_reduced = False,
     sq_pattern = p, sq_dataset = None, sq_order_by = None, sq_limit = None, sq_offset = None,
     sq_group_by = None, sq_having = None\<rparr>"

lemma select_star_columns_witness:
  "\<exists>r c'. translate_select sorted_list_of_fset (select_of None (Values [[98], [97]] [])) 0 = (Inr r, c') \<and>
     cy_variables r = [[97], [98]]"
proof -
  let ?q = "select_of None (Values [[98], [97]] []) :: select_query"
  obtain r c' where r: "translate_select sorted_list_of_fset ?q 0 = (Inr r, c')"
    by (simp add: translate_select_def select_of_def bind_def ret_def process_values_def modifiers_text_def Let_def)
  have "\<exists>vs. cy_variables r = sorted_list_of_fset vs \<and> fset vs = visible (sq_pattern ?q)"
    by (rule select_star_columns [OF r, THEN conjunct1]) (simp_all add: select_of_def is_select_all_def)
  then obtain vs where "cy_variables r = sorted_list_of_fset vs" "fset vs = {[98], [97]}"
    by (auto simp: select_of_def)
  then have "cy_variables r = sorted_list_of_set {[98], [97]}"
    by (simp add: sorted_list_of_fset.rep_eq)
  then have "cy_variables r = [[97], [98]]" by simp
  with r show ?thesis by blast
qed

subsection \<open>What the text loses\<close>

lemma bind_cong: "(\<And>x c1. m c = (Inr x, c1) \<Longrightarrow> f x c1 = g x c1) \<Longrightarrow> bind m f c = bind m g c"
  by (auto simp: bind_def split: prod.split sum.split)

text \<open>an IRI inside OPTIONAL or MINUS constrains nothing: its condition is collected apart
  from the clause and thrown away, so that two patterns that differ in it have the same text.\<close>

theorem optional_constants_lost:
  "process_pattern (LeftJoin l (Bgp [triple_of s p (TpNamedNode a)]) e) =
     process_pattern (LeftJoin l (Bgp [triple_of s p (TpNamedNode b)]) e) \<and>
   process_pattern (MinusP l (Bgp [triple_of s p (TpNamedNode a)])) =
     process_pattern (MinusP l (Bgp [triple_of s p (TpNamedNode b)]))"
  by (intro conjI ext; cases s; cases e)
    (auto simp: bind_def ret_def triple_of_def translate_triple_pattern_def next_var_def opt_list_def triple_vars_def
      ps_empty_def add_vars_def add_where_def add_match_def add_optional_def add_minus_def Let_def
      split: prod.split sum.split)

text \<open>a variable in predicate position is not bound by the text: the relationship gets a
  generated name, and RETURN speaks of a variable no clause declares.\<close>

theorem predicate_variable_unbound:
  "translate_select iter (select_of (Some [p]) (Bgp [triple_of (TpVariable s) (NnpVariable p) (TpVariable x)])) c =
     (Inr \<lparr>cy_query = lit ''MATCH ('' @ s @ lit '')-['' @ lit ''r_'' @ show_nat c @ lit '']->('' @ x @ lit '')'' @ [c_nl] @
        lit ''RETURN '' @ return_item p,
       cy_variables = [p], cy_type = CqSelect\<rparr>, Suc c)"
  by (simp add: translate_select_def select_of_def triple_of_def translate_triple_pattern_def bind_def ret_def
    next_var_def is_select_all_def projected_variables_def modifiers_text_def build_match_clause_def
    build_return_clause_def where_text_def ps_empty_def add_vars_def add_where_def add_match_def opt_list_def
    is_own_clause_def flush_patterns_def lit_def)

text \<open>the value of a literal of a numeric datatype is put into the text as it is, without
  quotes or escapes: a literal of datatype xsd:integer in a filter is the condition it spells.\<close>

theorem numeric_literal_unquoted:
  assumes "d \<in> set numeric_datatypes" "v \<noteq> []"
  shows "fst (translate_ask (FilterP (ELiteral \<lparr>sl_value = v, sl_datatype = d, sl_display = y\<rparr>) (Bgp [])) c) =
    Inr \<lparr>cy_query = lit ''MATCH (n)'' @ [c_nl] @ lit ''WHERE '' @ v @ [c_nl] @ lit ''RETURN count(*) > 0 AS result'',
       cy_variables = [lit ''result''], cy_type = CqAsk\<rparr>"
  using assms
  by (simp add: translate_ask_def bind_def ret_def literal_to_cypher_def opt_list_def ps_empty_def add_where_def
    build_match_clause_def where_text_def)

lemma numeric_literal_unquoted_witness:
  "fst (translate_ask (FilterP (ELiteral \<lparr>sl_value = lit ''1 OR true'', sl_datatype = xsd_namespace @ lit ''integer'',
       sl_display = []\<rparr>) (Bgp [])) 0) =
    Inr \<lparr>cy_query = lit ''MATCH (n)'' @ [c_nl] @ lit ''WHERE 1 OR true'' @ [c_nl] @ lit ''RETURN count(*) > 0 AS result'',
       cy_variables = [lit ''result''], cy_type = CqAsk\<rparr>"
  using numeric_literal_unquoted [of "xsd_namespace @ lit ''integer''" "lit ''1 OR true''" "[]" 0]
  by (simp add: numeric_datatypes_def) (simp add: lit_def)

text \<open>a user variable spelled like a generated one is taken for it: the subject \<open>?n_c\<close> and the
  IRI in object position, whose generated name it is, become one node.\<close>

theorem generated_name_captures:
  "translate_triple_pattern (triple_of (TpVariable (lit ''n_'' @ show_nat c)) (NnpNamedNode p) (TpNamedNode x)) c =
     (Inr (lit ''('' @ lit ''n_'' @ show_nat c @ lit '')-[r_'' @ show_nat (Suc c) @ lit ''{predicate: '' @ quoted p @ lit ''}]->('' @
             lit ''n_'' @ show_nat c @ lit '')'',
           [lit ''n_'' @ show_nat c @ lit ''.uri = '' @ quoted x], {|lit ''n_'' @ show_nat c|}), Suc (Suc c))"
  by (simp add: triple_of_def translate_triple_pattern_def bind_def ret_def next_var_def opt_list_def triple_vars_def lit_def)

end
