(* ===== verification/QueryResults.thy ===== *)
theory QueryResults
  imports Triple
begin

section \<open>Query results and their formats (parser/src/results)\<close>

text \<open>
  Terms, bindings and result sets, and the writers for CSV, TSV, JSON, XML, Turtle and
  RDF/JSON. A writer is the text it puts into its sink; sinks that fail are left out, and the
  conversion of the bytes back to a string is then the identity. A binding is a finite map;
  the orders in which the writers of graphs iterate over their maps are arguments.
\<close>

subsection \<open>Terms (term.rs)\<close>

datatype rterm = RIri iri | RLiteral literal | RBlank blank_node

definition term_iri :: "rstr \<Rightarrow> rterm" where
  "term_iri v = RIri (iri_new_unchecked v)"

definition term_literal :: "rstr \<Rightarrow> rterm" where
  "term_literal v = RLiteral (literal_new v)"

definition term_typed_literal :: "rstr \<Rightarrow> rstr \<Rightarrow> rterm" where
  "term_typed_literal v dt = RLiteral (literal_with_datatype v (iri_new_unchecked dt))"

definition term_lang_literal :: "rstr \<Rightarrow> rstr \<Rightarrow> rterm" where
  "term_lang_literal v lang =
     RLiteral (case literal_with_language v lang of Inr l \<Rightarrow> l | Inl _ \<Rightarrow> literal_new [])"

definition term_blank_node :: "rstr \<Rightarrow> rterm" where
  "term_blank_node l = RBlank (bn_new l)"

fun rterm_is_iri :: "rterm \<Rightarrow> bool" where
  "rterm_is_iri (RIri _) = True" | "rterm_is_iri _ = False"

fun rterm_is_literal :: "rterm \<Rightarrow> bool" where
  "rterm_is_literal (RLiteral _) = True" | "rterm_is_literal _ = False"

fun rterm_is_blank_node :: "rterm \<Rightarrow> bool" where
  "rterm_is_blank_node (RBlank _) = True" | "rterm_is_blank_node _ = False"

fun rterm_as_iri :: "rterm \<Rightarrow> iri option" where
  "rterm_as_iri (RIri i) = Some i" | "rterm_as_iri _ = None"

fun rterm_as_literal :: "rterm \<Rightarrow> literal option" where
  "rterm_as_literal (RLiteral l) = Some l" | "rterm_as_literal _ = None"

fun rterm_as_blank_node :: "rterm \<Rightarrow> blank_node option" where
  "rterm_as_blank_node (RBlank b) = Some b" | "rterm_as_blank_node _ = None"

fun term_type :: "rterm \<Rightarrow> rstr" where
  "term_type (RIri _) = lit ''uri''"
| "term_type (RLiteral _) = lit ''literal''"
| "term_type (RBlank _) = lit ''bnode''"

fun rterm_value :: "rterm \<Rightarrow> rstr" where
  "rterm_value (RIri i) = iri_value i"
| "rterm_value (RLiteral l) = lit_value l"
| "rterm_value (RBlank b) = bn_label b"

fun rterm_display :: "rterm \<Rightarrow> rstr" where
  "rterm_display (RIri i) = c_lt # iri_display i @ [c_gt]"
| "rterm_display (RLiteral l) = literal_display l"
| "rterm_display (RBlank b) = lit ''_:'' @ bn_label b"

subsection \<open>Result sets (binding.rs)\<close>

type_synonym row_binding = "(rstr, rterm) fmap"

record select_results =
  sr_variables :: "rstr list"
  sr_bindings :: "row_binding list"

definition sr_with_variables :: "rstr list \<Rightarrow> select_results" where
  "sr_with_variables vs = \<lparr>sr_variables = vs, sr_bindings = []\<rparr>"

definition sr_new :: select_results where
  "sr_new = sr_with_variables []"

definition sr_add_binding :: "row_binding \<Rightarrow> select_results \<Rightarrow> select_results" where
  "sr_add_binding b r = r\<lparr>sr_bindings := sr_bindings r @ [b]\<rparr>"

definition sr_len :: "select_results \<Rightarrow> nat" where
  "sr_len r = length (sr_bindings r)"

definition sr_is_empty :: "select_results \<Rightarrow> bool" where
  "sr_is_empty r \<longleftrightarrow> sr_bindings r = []"

definition sr_num_variables :: "select_results \<Rightarrow> nat" where
  "sr_num_variables r = length (sr_variables r)"

definition sr_get :: "select_results \<Rightarrow> nat \<Rightarrow> row_binding option" where
  "sr_get r i = (if i < length (sr_bindings r) then Some (sr_bindings r ! i) else None)"

record ask_result =
  ar_result :: bool

record construct_results =
  cr_triples :: "triple list"

definition cr_with_triples :: "triple list \<Rightarrow> construct_results" where
  "cr_with_triples ts = \<lparr>cr_triples = ts\<rparr>"

definition cr_new :: construct_results where
  "cr_new = cr_with_triples []"

definition cr_add_triple :: "triple \<Rightarrow> construct_results \<Rightarrow> construct_results" where
  "cr_add_triple t r = r\<lparr>cr_triples := cr_triples r @ [t]\<rparr>"

definition cr_len :: "construct_results \<Rightarrow> nat" where
  "cr_len r = length (cr_triples r)"

definition cr_is_empty :: "construct_results \<Rightarrow> bool" where
  "cr_is_empty r \<longleftrightarrow> cr_triples r = []"

datatype result_set = RsSelect select_results | RsAsk ask_result | RsConstruct construct_results

definition rs_select :: "rstr list \<Rightarrow> row_binding list \<Rightarrow> result_set" where
  "rs_select vs bs = RsSelect \<lparr>sr_variables = vs, sr_bindings = bs\<rparr>"

definition rs_ask :: "bool \<Rightarrow> result_set" where
  "rs_ask b = RsAsk \<lparr>ar_result = b\<rparr>"

definition rs_construct :: "triple list \<Rightarrow> result_set" where
  "rs_construct ts = RsConstruct (cr_with_triples ts)"

fun rs_as_select :: "result_set \<Rightarrow> select_results option" where
  "rs_as_select (RsSelect r) = Some r" | "rs_as_select _ = None"

fun rs_as_ask :: "result_set \<Rightarrow> ask_result option" where
  "rs_as_ask (RsAsk r) = Some r" | "rs_as_ask _ = None"

fun rs_as_construct :: "result_set \<Rightarrow> construct_results option" where
  "rs_as_construct (RsConstruct r) = Some r" | "rs_as_construct _ = None"

fun rs_is_select :: "result_set \<Rightarrow> bool" where
  "rs_is_select (RsSelect _) = True" | "rs_is_select _ = False"

fun rs_is_ask :: "result_set \<Rightarrow> bool" where
  "rs_is_ask (RsAsk _) = True" | "rs_is_ask _ = False"

fun rs_is_construct :: "result_set \<Rightarrow> bool" where
  "rs_is_construct (RsConstruct _) = True" | "rs_is_construct _ = False"

subsection \<open>Formats (mod.rs)\<close>

datatype result_format = FmtJson | FmtXml | FmtCsv | FmtTsv | FmtTurtle | FmtRdfJson

fun mime_type :: "result_format \<Rightarrow> rstr" where
  "mime_type FmtJson = lit ''application/sparql-results+json''"
| "mime_type FmtXml = lit ''application/sparql-results+xml''"
| "mime_type FmtCsv = lit ''text/csv''"
| "mime_type FmtTsv = lit ''text/tab-separated-values''"
| "mime_type FmtTurtle = lit ''text/turtle''"
| "mime_type FmtRdfJson = lit ''application/rdf+json''"

fun file_extension :: "result_format \<Rightarrow> rstr" where
  "file_extension FmtJson = lit ''json''"
| "file_extension FmtXml = lit ''xml''"
| "file_extension FmtCsv = lit ''csv''"
| "file_extension FmtTsv = lit ''tsv''"
| "file_extension FmtTurtle = lit ''ttl''"
| "file_extension FmtRdfJson = lit ''rj''"

text \<open>The boolean of an ASK result as the writers print it.\<close>

definition show_result :: "bool \<Rightarrow> rstr" where
  "show_result b = (if b then lit ''true'' else lit ''false'')"

subsection \<open>CSV (csv.rs)\<close>

definition double_quotes :: "rstr \<Rightarrow> rstr" where
  "double_quotes v = concat (map (\<lambda>c. if c = c_dquote then [c_dquote, c_dquote] else [c]) v)"

definition csv_value :: "rterm \<Rightarrow> rstr" where
  "csv_value t =
     (let v = rterm_value t
      in if c_comma \<in> set v \<or> c_dquote \<in> set v \<or> c_nl \<in> set v \<or> c_cr \<in> set v
         then [c_dquote] @ double_quotes v @ [c_dquote] else v)"

definition csv_variable :: "rstr \<Rightarrow> rstr" where
  "csv_variable v =
     (if c_comma \<in> set v \<or> c_dquote \<in> set v
      then [c_dquote] @ replace_char c_dquote [c_dquote, c_dquote] v @ [c_dquote] else v)"

definition csv_row :: "rstr list \<Rightarrow> row_binding \<Rightarrow> rstr" where
  "csv_row vs b = join [c_comma] (map (\<lambda>v. case fmlookup b v of Some t \<Rightarrow> csv_value t | None \<Rightarrow> []) vs) @ [c_nl]"

definition select_to_csv :: "select_results \<Rightarrow> rstr" where
  "select_to_csv r = join [c_comma] (map csv_variable (sr_variables r)) @ [c_nl] @
     concat (map (csv_row (sr_variables r)) (sr_bindings r))"

definition ask_to_csv :: "ask_result \<Rightarrow> rstr" where
  "ask_to_csv r = lit ''result'' @ [c_nl] @ show_result (ar_result r) @ [c_nl]"

subsection \<open>TSV (csv.rs)\<close>

fun tsv_char :: "rchar \<Rightarrow> rstr" where
  "tsv_char c =
     (if c = c_tab then [c_bslash, 116] else if c = c_nl then [c_bslash, 110]
      else if c = c_cr then [c_bslash, 114] else if c = c_bslash then [c_bslash, c_bslash]
      else if c = c_dquote then [c_bslash, c_dquote] else [c])"

definition tsv_escaped :: "rstr \<Rightarrow> rstr" where
  "tsv_escaped s = concat (map tsv_char s)"

definition xsd_string_text :: rstr where
  "xsd_string_text = lit ''http://www.w3.org/2001/XMLSchema#string''"

fun tsv_value :: "rterm \<Rightarrow> rstr" where
  "tsv_value (RIri i) = [c_lt] @ tsv_escaped (iri_value i) @ [c_gt]"
| "tsv_value (RLiteral l) = [c_dquote] @ tsv_escaped (lit_value l) @ [c_dquote] @
     (case lit_language l of Some lang \<Rightarrow> c_at # lang
      | None \<Rightarrow> (case lit_datatype l of
            Some dt \<Rightarrow> if iri_value dt \<noteq> xsd_string_text then lit ''^^<'' @ iri_value dt @ [c_gt] else []
          | None \<Rightarrow> []))"
| "tsv_value (RBlank b) = lit ''_:'' @ bn_label b"

definition tsv_row :: "rstr list \<Rightarrow> row_binding \<Rightarrow> rstr" where
  "tsv_row vs b = join [c_tab] (map (\<lambda>v. case fmlookup b v of Some t \<Rightarrow> tsv_value t | None \<Rightarrow> []) vs) @ [c_nl]"

definition select_to_tsv :: "select_results \<Rightarrow> rstr" where
  "select_to_tsv r = join [c_tab] (map (\<lambda>v. lit ''?'' @ v) (sr_variables r)) @ [c_nl] @
     concat (map (tsv_row (sr_variables r)) (sr_bindings r))"

definition ask_to_tsv :: "ask_result \<Rightarrow> rstr" where
  "ask_to_tsv r = lit ''?result'' @ [c_nl] @ show_result (ar_result r) @ [c_nl]"

subsection \<open>JSON (json.rs)\<close>

definition hex_digit :: "nat \<Rightarrow> rchar" where
  "hex_digit n = (if n < 10 then 48 + n else 87 + n)"

text \<open>\<open>{:04x}\<close> of a control character, all of which are below 256.\<close>

definition hex4 :: "rchar \<Rightarrow> rstr" where
  "hex4 c = [hex_digit (c div 4096 mod 16), hex_digit (c div 256 mod 16), hex_digit (c div 16 mod 16), hex_digit (c mod 16)]"

fun json_char :: "rchar \<Rightarrow> rstr" where
  "json_char c =
     (if c = c_dquote then [c_bslash, c_dquote] else if c = c_bslash then [c_bslash, c_bslash]
      else if c = c_nl then [c_bslash, 110] else if c = c_cr then [c_bslash, 114]
      else if c = c_tab then [c_bslash, 116]
      else if is_control c then [c_bslash, 117] @ hex4 c else [c])"

definition json_escaped :: "rstr \<Rightarrow> rstr" where
  "json_escaped s = concat (map json_char s)"

definition json_string :: "rstr \<Rightarrow> rstr" where
  "json_string s = [c_dquote] @ json_escaped s @ [c_dquote]"

definition json_nl :: "bool \<Rightarrow> rstr" where
  "json_nl pretty = (if pretty then [c_nl] else [])"

definition json_indent :: "bool \<Rightarrow> nat \<Rightarrow> rstr" where
  "json_indent pretty n = (if pretty then replicate (2 * n) c_space else [])"

definition json_member :: "string \<Rightarrow> rstr \<Rightarrow> rstr" where
  "json_member k v = [c_comma] @ json_string (lit k) @ [c_colon] @ json_string v"

definition json_term :: "rterm \<Rightarrow> rstr" where
  "json_term t = [123] @ json_string (lit ''type'') @ [c_colon] @ json_string (term_type t) @
     json_member ''value'' (rterm_value t) @
     (case t of RLiteral l \<Rightarrow>
        (case lit_language l of Some lang \<Rightarrow> json_member ''xml:lang'' lang
         | None \<Rightarrow> (case lit_datatype l of
               Some dt \<Rightarrow> if iri_value dt \<noteq> xsd_string_text then json_member ''datatype'' (iri_value dt) else []
             | None \<Rightarrow> []))
      | _ \<Rightarrow> []) @ [125]"

definition json_binding :: "rstr list \<Rightarrow> row_binding \<Rightarrow> rstr" where
  "json_binding vs b = [123] @ join [c_comma] (List.map_filter (\<lambda>v.
     map_option (\<lambda>t. json_string v @ [c_colon] @ json_term t) (fmlookup b v)) vs) @ [125]"

definition write_select_json :: "bool \<Rightarrow> select_results \<Rightarrow> rstr" where
  "write_select_json p r =
     [123] @ json_nl p @ json_indent p 1 @ json_string (lit ''head'') @ [c_colon, 123] @ json_nl p @
     json_indent p 2 @ json_string (lit ''vars'') @ [c_colon, c_lbracket] @
     join [c_comma] (map json_string (sr_variables r)) @ [c_rbracket] @ json_nl p @
     json_indent p 1 @ [125, c_comma] @ json_nl p @
     json_indent p 1 @ json_string (lit ''results'') @ [c_colon, 123] @ json_nl p @
     json_indent p 2 @ json_string (lit ''bindings'') @ [c_colon, c_lbracket] @
     (if sr_bindings r \<noteq> [] then json_nl p else []) @
     join ([c_comma] @ json_nl p) (map (\<lambda>b. json_indent p 3 @ json_binding (sr_variables r) b) (sr_bindings r)) @
     (if sr_bindings r \<noteq> [] then json_nl p @ json_indent p 2 else []) @ [c_rbracket] @ json_nl p @
     json_indent p 1 @ [125] @ json_nl p @ [125] @ json_nl p"

definition write_ask_json :: "bool \<Rightarrow> ask_result \<Rightarrow> rstr" where
  "write_ask_json p r =
     [123] @ json_nl p @ json_indent p 1 @ json_string (lit ''head'') @ lit '':{},'' @ json_nl p @
     json_indent p 1 @ json_string (lit ''boolean'') @ [c_colon] @ show_result (ar_result r) @ json_nl p @
     [125] @ json_nl p"

definition select_to_json :: "select_results \<Rightarrow> rstr" where
  "select_to_json r = write_select_json False r"

definition ask_to_json :: "ask_result \<Rightarrow> rstr" where
  "ask_to_json r = write_ask_json False r"

end
