(* ===== verification/ResultFormats.thy ===== *)
theory ResultFormats
  imports QueryResults
begin

section \<open>XML, Turtle and RDF/JSON results (parser/src/results/xml.rs, turtle.rs)\<close>

text \<open>
  The remaining writers. The two graph writers group the triples in hash maps; the order in
  which these are traversed is an argument.
\<close>

subsection \<open>XML (xml.rs)\<close>

fun xml_char :: "rchar \<Rightarrow> rstr" where
  "xml_char c =
     (if c = 38 then lit ''&amp;'' else if c = c_lt then lit ''&lt;'' else if c = c_gt then lit ''&gt;''
      else if c = c_dquote then lit ''&quot;'' else if c = c_squote then lit ''&apos;'' else [c])"

definition xml_escaped :: "rstr \<Rightarrow> rstr" where
  "xml_escaped s = concat (map xml_char s)"

definition xml_header :: "bool \<Rightarrow> rstr" where
  "xml_header p = lit ''<?xml version='' @ [c_dquote] @ lit ''1.0'' @ [c_dquote] @ lit ''?>'' @ json_nl p @
     lit ''<sparql xmlns='' @ [c_dquote] @ lit ''http://www.w3.org/2005/sparql-results#'' @ [c_dquote, c_gt] @ json_nl p"

definition xml_footer :: "bool \<Rightarrow> rstr" where
  "xml_footer p = lit ''</sparql>'' @ json_nl p"

fun xml_term :: "rterm \<Rightarrow> rstr" where
  "xml_term (RIri i) = lit ''<uri>'' @ xml_escaped (iri_value i) @ lit ''</uri>''"
| "xml_term (RLiteral l) =
     (case lit_language l of
        Some lang \<Rightarrow> lit ''<literal xml:lang='' @ [c_dquote] @ xml_escaped lang @ [c_dquote, c_gt]
      | None \<Rightarrow> (case lit_datatype l of
            Some dt \<Rightarrow> if iri_value dt = xsd_string_text then lit ''<literal>''
                       else lit ''<literal datatype='' @ [c_dquote] @ xml_escaped (iri_value dt) @ [c_dquote, c_gt]
          | None \<Rightarrow> lit ''<literal>'')) @
     xml_escaped (lit_value l) @ lit ''</literal>''"
| "xml_term (RBlank b) = lit ''<bnode>'' @ xml_escaped (bn_label b) @ lit ''</bnode>''"

definition xml_binding :: "bool \<Rightarrow> row_binding \<Rightarrow> rstr \<Rightarrow> rstr" where
  "xml_binding p b v =
     (case fmlookup b v of None \<Rightarrow> []
      | Some t \<Rightarrow> json_indent p 3 @ lit ''<binding name='' @ [c_dquote] @ xml_escaped v @ [c_dquote, c_gt] @
          xml_term t @ lit ''</binding>'' @ json_nl p)"

definition xml_result :: "bool \<Rightarrow> rstr list \<Rightarrow> row_binding \<Rightarrow> rstr" where
  "xml_result p vs b = json_indent p 2 @ lit ''<result>'' @ json_nl p @ concat (map (xml_binding p b) vs) @
     json_indent p 2 @ lit ''</result>'' @ json_nl p"

definition write_select_xml :: "bool \<Rightarrow> select_results \<Rightarrow> rstr" where
  "write_select_xml p r = xml_header p @ json_indent p 1 @ lit ''<head>'' @ json_nl p @
     concat (map (\<lambda>v. json_indent p 2 @ lit ''<variable name='' @ [c_dquote] @ xml_escaped v @ [c_dquote] @ lit ''/>'' @
       json_nl p) (sr_variables r)) @
     json_indent p 1 @ lit ''</head>'' @ json_nl p @ json_indent p 1 @ lit ''<results>'' @ json_nl p @
     concat (map (xml_result p (sr_variables r)) (sr_bindings r)) @
     json_indent p 1 @ lit ''</results>'' @ json_nl p @ xml_footer p"

definition write_ask_xml :: "bool \<Rightarrow> ask_result \<Rightarrow> rstr" where
  "write_ask_xml p r = xml_header p @ json_indent p 1 @ lit ''<head/>'' @ json_nl p @
     json_indent p 1 @ lit ''<boolean>'' @ show_result (ar_result r) @ lit ''</boolean>'' @ json_nl p @ xml_footer p"

definition select_to_xml :: "select_results \<Rightarrow> rstr" where
  "select_to_xml r = write_select_xml False r"

definition ask_to_xml :: "ask_result \<Rightarrow> rstr" where
  "ask_to_xml r = write_ask_xml False r"

subsection \<open>Turtle (turtle.rs)\<close>

fun turtle_char :: "rchar \<Rightarrow> rstr" where
  "turtle_char c =
     (if c = c_dquote then [c_bslash, c_dquote] else if c = c_bslash then [c_bslash, c_bslash]
      else if c = c_nl then [c_bslash, 110] else if c = c_cr then [c_bslash, 114]
      else if c = c_tab then [c_bslash, 116] else [c])"

definition turtle_escaped :: "rstr \<Rightarrow> rstr" where
  "turtle_escaped s = concat (map turtle_char s)"

fun result_subject :: "subject \<Rightarrow> rstr" where
  "result_subject (SubjIri i) = [c_lt] @ iri_value i @ [c_gt]"
| "result_subject (SubjBlank b) = lit ''_:'' @ bn_label b"

fun result_object :: "object \<Rightarrow> rstr" where
  "result_object (ObjIri i) = [c_lt] @ iri_value i @ [c_gt]"
| "result_object (ObjBlank b) = lit ''_:'' @ bn_label b"
| "result_object (ObjLiteral l) = [c_dquote] @ turtle_escaped (lit_value l) @ [c_dquote] @
     (case lit_language l of Some lang \<Rightarrow> c_at # lang
      | None \<Rightarrow> (case lit_datatype l of
            Some dt \<Rightarrow> if iri_value dt \<noteq> xsd_string_text then lit ''^^<'' @ iri_value dt @ [c_gt] else []
          | None \<Rightarrow> []))"

definition result_line :: "triple \<Rightarrow> rstr" where
  "result_line t = result_subject (t_subject t) @ lit '' <'' @ iri_value (t_predicate t) @ lit ''> '' @
     result_object (t_object t) @ lit '' .'' @ [c_nl]"

text \<open>\<open>entry(k).or_default().push(v)\<close>.\<close>

definition push_to :: "'k \<Rightarrow> 'v \<Rightarrow> ('k, 'v list) fmap \<Rightarrow> ('k, 'v list) fmap" where
  "push_to k v m = fmupd k ((case fmlookup m k of Some vs \<Rightarrow> vs | None \<Rightarrow> []) @ [v]) m"

definition group_by_subject :: "triple list \<Rightarrow> (rstr, triple list) fmap" where
  "group_by_subject ts = fold (\<lambda>t. push_to (subject_display (t_subject t)) t) ts fmempty"

definition result_group :: "triple list \<Rightarrow> rstr" where
  "result_group ts = result_subject (t_subject (hd ts)) @
     concat (map (\<lambda>(i, t). (if i = 0 then [c_space] else lit '' ;'' @ [c_nl] @ lit ''    '') @
       [c_lt] @ iri_value (t_predicate t) @ lit ''> '' @ result_object (t_object t)) (enumerate 0 ts)) @
     lit '' .'' @ [c_nl]"

definition write_turtle_results ::
  "((rstr, triple list) fmap \<Rightarrow> (rstr \<times> triple list) list) \<Rightarrow> bool \<Rightarrow> construct_results \<Rightarrow> rstr" where
  "write_turtle_results iter pretty r =
     (if cr_triples r = [] then []
      else if pretty then join [c_nl] (map (result_group \<circ> snd) (iter (group_by_subject (cr_triples r))))
      else concat (map result_line (cr_triples r)))"

definition construct_to_turtle ::
  "((rstr, triple list) fmap \<Rightarrow> (rstr \<times> triple list) list) \<Rightarrow> construct_results \<Rightarrow> rstr" where
  "construct_to_turtle iter r = write_turtle_results iter False r"

subsection \<open>RDF/JSON (turtle.rs)\<close>

fun subject_key :: "subject \<Rightarrow> rstr" where
  "subject_key (SubjIri i) = iri_value i"
| "subject_key (SubjBlank b) = lit ''_:'' @ bn_label b"

fun rdf_json_object :: "object \<Rightarrow> rstr" where
  "rdf_json_object (ObjIri i) = [123] @ json_string (lit ''type'') @ [c_colon] @ json_string (lit ''uri'') @
     json_member ''value'' (iri_value i) @ [125]"
| "rdf_json_object (ObjBlank b) = [123] @ json_string (lit ''type'') @ [c_colon] @ json_string (lit ''bnode'') @
     json_member ''value'' (bn_label b) @ [125]"
| "rdf_json_object (ObjLiteral l) = [123] @ json_string (lit ''type'') @ [c_colon] @ json_string (lit ''literal'') @
     json_member ''value'' (lit_value l) @
     (case lit_language l of Some lang \<Rightarrow> json_member ''lang'' lang
      | None \<Rightarrow> (case lit_datatype l of
            Some dt \<Rightarrow> if iri_value dt \<noteq> xsd_string_text then json_member ''datatype'' (iri_value dt) else []
          | None \<Rightarrow> [])) @ [125]"

type_synonym predicate_map = "(rstr, object list) fmap"

definition graph_add :: "triple \<Rightarrow> (rstr, predicate_map) fmap \<Rightarrow> (rstr, predicate_map) fmap" where
  "graph_add t g =
     (let k = subject_key (t_subject t); m = (case fmlookup g k of Some m \<Rightarrow> m | None \<Rightarrow> fmempty)
      in fmupd k (push_to (iri_value (t_predicate t)) (t_object t) m) g)"

definition group_graph :: "triple list \<Rightarrow> (rstr, predicate_map) fmap" where
  "group_graph ts = fold graph_add ts fmempty"

definition rdf_json_predicate :: "bool \<Rightarrow> rstr \<times> object list \<Rightarrow> rstr" where
  "rdf_json_predicate p = (\<lambda>(k, os). json_indent p 2 @ json_string k @ [c_colon, c_lbracket] @
     join [c_comma] (map rdf_json_object os) @ [c_rbracket])"

definition rdf_json_subject ::
  "(predicate_map \<Rightarrow> (rstr \<times> object list) list) \<Rightarrow> bool \<Rightarrow> rstr \<times> predicate_map \<Rightarrow> rstr" where
  "rdf_json_subject piter p = (\<lambda>(k, m). json_indent p 1 @ json_string k @ [c_colon, 123] @ json_nl p @
     join ([c_comma] @ json_nl p) (map (rdf_json_predicate p) (piter m)) @ json_nl p @ json_indent p 1 @ [125])"

definition write_rdf_json ::
  "((rstr, predicate_map) fmap \<Rightarrow> (rstr \<times> predicate_map) list) \<Rightarrow> (predicate_map \<Rightarrow> (rstr \<times> object list) list) \<Rightarrow>
   bool \<Rightarrow> construct_results \<Rightarrow> rstr" where
  "write_rdf_json siter piter p r = [123] @ json_nl p @
     join ([c_comma] @ json_nl p) (map (rdf_json_subject piter p) (siter (group_graph (cr_triples r)))) @
     json_nl p @ [125] @ json_nl p"

subsection \<open>CSV reads back\<close>

text \<open>A reader of RFC 4180 text: records of fields, quoted fields with doubled quotes.\<close>

datatype csv_mode = Plain | Quoted | AfterQuote

fun csv_read :: "csv_mode \<Rightarrow> rstr \<Rightarrow> rstr list \<Rightarrow> rstr \<Rightarrow> rstr list list option" where
  "csv_read Plain f fs [] = (if f = [] \<and> fs = [] then Some [] else None)"
| "csv_read Plain f fs (c # cs) =
     (if c = c_dquote \<and> f = [] then csv_read Quoted [] fs cs
      else if c = c_comma then csv_read Plain [] (fs @ [f]) cs
      else if c = c_nl then map_option (Cons (fs @ [f])) (csv_read Plain [] [] cs)
      else csv_read Plain (f @ [c]) fs cs)"
| "csv_read Quoted f fs [] = None"
| "csv_read Quoted f fs (c # cs) =
     (if c = c_dquote then csv_read AfterQuote f fs cs else csv_read Quoted (f @ [c]) fs cs)"
| "csv_read AfterQuote f fs [] = None"
| "csv_read AfterQuote f fs (c # cs) =
     (if c = c_dquote then csv_read Quoted (f @ [c]) fs cs
      else if c = c_comma then csv_read Plain [] (fs @ [f]) cs
      else if c = c_nl then map_option (Cons (fs @ [f])) (csv_read Plain [] [] cs)
      else None)"

definition csv_special :: "rstr \<Rightarrow> bool" where
  "csv_special v \<longleftrightarrow> c_comma \<in> set v \<or> c_dquote \<in> set v \<or> c_nl \<in> set v"

lemma csv_plain: "\<not> csv_special v \<Longrightarrow> csv_read Plain f fs (v @ r) = csv_read Plain (f @ v) fs r"
  by (induction v arbitrary: f) (auto simp: csv_special_def)

lemma csv_quoted: "csv_read Quoted f fs (double_quotes v @ [c_dquote] @ r) = csv_read AfterQuote (f @ v) fs r"
  by (induction v arbitrary: f) (auto simp: double_quotes_def)

lemma replace_double: "replace_char c_dquote [c_dquote, c_dquote] v = double_quotes v"
  by (induction v) (simp_all add: double_quotes_def)

text \<open>What stands for a field: its text, or the text in quotes when it needs them.\<close>

definition csv_field :: "rstr \<Rightarrow> rstr \<Rightarrow> bool" where
  "csv_field v x \<longleftrightarrow> x = [c_dquote] @ double_quotes v @ [c_dquote] \<or> x = v \<and> \<not> csv_special v"

lemma csv_field_read: "csv_field v x \<Longrightarrow>
    csv_read Plain [] fs (x @ c_comma # r) = csv_read Plain [] (fs @ [v]) r \<and>
    csv_read Plain [] fs (x @ c_nl # r) = map_option (Cons (fs @ [v])) (csv_read Plain [] [] r)"
  using csv_quoted [of "[]" fs v "c_comma # r"] csv_quoted [of "[]" fs v "c_nl # r"]
    csv_plain [of v "[]" fs "c_comma # r"] csv_plain [of v "[]" fs "c_nl # r"]
  by (auto simp: csv_field_def)

lemma csv_record_read: "list_all2 csv_field vs xs \<Longrightarrow> vs \<noteq> [] \<Longrightarrow>
    csv_read Plain [] fs (join [c_comma] xs @ c_nl # r) = map_option (Cons (fs @ vs)) (csv_read Plain [] [] r)"
proof (induction vs xs arbitrary: fs rule: list_all2_induct)
  case (Cons v vs x xs)
  then show ?case
    using csv_field_read [of v x fs] by (cases "vs = []") (auto simp: join_Cons)
qed simp

definition csv_fields :: "rstr list \<Rightarrow> row_binding \<Rightarrow> rstr list" where
  "csv_fields vs b = map (\<lambda>v. case fmlookup b v of Some t \<Rightarrow> rterm_value t | None \<Rightarrow> []) vs"

lemma csv_value_field: "csv_field (rterm_value t) (csv_value t)"
  by (auto simp: csv_field_def csv_value_def csv_special_def Let_def)

lemma csv_row_read:
  assumes "vs \<noteq> []"
  shows "csv_read Plain [] [] (csv_row vs b @ r) = map_option (Cons (csv_fields vs b)) (csv_read Plain [] [] r)"
proof -
  have "list_all2 csv_field (csv_fields vs b) (map (\<lambda>v. case fmlookup b v of Some t \<Rightarrow> csv_value t | None \<Rightarrow> []) vs)"
    by (auto simp: csv_fields_def list_all2_map1 list_all2_map2 list_all2_same csv_value_field csv_field_def [of "[]"]
        csv_special_def split: option.split)
  then show ?thesis
    using csv_record_read [of _ _ "[]" r] assms by (simp add: csv_row_def csv_fields_def)
qed

lemma csv_rows_read: "vs \<noteq> [] \<Longrightarrow> csv_read Plain [] [] (concat (map (csv_row vs) bs)) = Some (map (csv_fields vs) bs)"
  by (induction bs) (simp_all add: csv_row_read)

text \<open>whatever the values hold, a reader of RFC 4180 records gets from the CSV text of a result
  with columns exactly the header of variable names and one record per row, with the text of
  each term in its column and an empty field for an unbound variable.\<close>

theorem csv_reads_back:
  assumes "sr_variables r \<noteq> []" "\<forall>v \<in> set (sr_variables r). c_nl \<notin> set v"
  shows "csv_read Plain [] [] (select_to_csv r) =
    Some (sr_variables r # map (csv_fields (sr_variables r)) (sr_bindings r))"
proof -
  have "csv_field v (csv_variable v)" if "v \<in> set (sr_variables r)" for v
    using assms(2) that by (auto simp: csv_field_def csv_variable_def csv_special_def replace_double)
  then have "list_all2 csv_field (sr_variables r) (map csv_variable (sr_variables r))"
    by (simp add: list_all2_map2 list_all2_same)
  then show ?thesis
    using assms(1) by (simp add: select_to_csv_def csv_record_read csv_rows_read)
qed

theorem csv_reads_back_witness:
  "csv_read Plain [] [] (select_to_csv \<lparr>sr_variables = [lit ''s'', lit ''t''],
     sr_bindings = [fmupd (lit ''s'') (term_literal [c_dquote, c_comma, c_nl]) fmempty]\<rparr>) =
   Some [[lit ''s'', lit ''t''], [[c_dquote, c_comma, c_nl], []]]"
  using csv_reads_back [of "\<lparr>sr_variables = [lit ''s'', lit ''t''],
     sr_bindings = [fmupd (lit ''s'') (term_literal [c_dquote, c_comma, c_nl]) fmempty]\<rparr>"]
  by (simp add: csv_fields_def term_literal_def literal_new_def lit_def)

subsection \<open>TSV keeps its columns\<close>

text \<open>Splitting at a character.\<close>

fun split_at :: "rchar \<Rightarrow> rstr \<Rightarrow> rstr list" where
  "split_at d [] = [[]]"
| "split_at d (c # cs) = (if c = d then [] # split_at d cs else (case split_at d cs of x # xs \<Rightarrow> (c # x) # xs | [] \<Rightarrow> [[c]]))"

lemma split_at_not_Nil [simp]: "split_at d s \<noteq> []"
  by (induction s) (auto split: list.split)

lemma split_at_notin: "d \<notin> set x \<Longrightarrow> split_at d x = [x]"
  by (induction x) auto

lemma split_at_append: "d \<notin> set x \<Longrightarrow> split_at d (x @ d # r) = x # split_at d r"
  by (induction x) auto

lemma split_at_join: "xs \<noteq> [] \<Longrightarrow> \<forall>x \<in> set xs. d \<notin> set x \<Longrightarrow> split_at d (join [d] xs) = xs"
  by (induction xs) (auto simp: join_Cons split_at_append split_at_notin)

lemma split_lines_concat: "\<forall>x \<in> set xs. d \<notin> set x \<Longrightarrow> split_at d (concat (map (\<lambda>x. x @ [d]) xs)) = xs @ [[]]"
  by (induction xs) (auto simp: split_at_append)

fun tsv_unescape :: "rstr \<Rightarrow> rstr option" where
  "tsv_unescape [] = Some []"
| "tsv_unescape (c # cs) =
     (if c = c_bslash then
        (case cs of [] \<Rightarrow> None
         | e # r \<Rightarrow> (if e \<in> {116, 110, 114, c_bslash, c_dquote} then
             map_option (Cons (if e = 116 then c_tab else if e = 110 then c_nl else if e = 114 then c_cr else e)) (tsv_unescape r)
           else None))
      else map_option (Cons c) (tsv_unescape cs))"

lemma tsv_unescape_escaped: "tsv_unescape (tsv_escaped s) = Some s"
  by (induction s) (auto simp: tsv_escaped_def)

definition clean :: "rstr \<Rightarrow> bool" where
  "clean s \<longleftrightarrow> c_tab \<notin> set s \<and> c_nl \<notin> set s"

fun tsv_clean :: "rterm \<Rightarrow> bool" where
  "tsv_clean (RIri i) = True"
| "tsv_clean (RLiteral l) = ((case lit_language l of Some g \<Rightarrow> clean g | None \<Rightarrow> True) \<and>
     (case lit_datatype l of Some d \<Rightarrow> clean (iri_value d) | None \<Rightarrow> True))"
| "tsv_clean (RBlank b) = clean (bn_label b)"

definition tsv_cell :: "row_binding \<Rightarrow> rstr \<Rightarrow> rstr" where
  "tsv_cell b v = (case fmlookup b v of Some t \<Rightarrow> tsv_value t | None \<Rightarrow> [])"

lemma clean_simps [simp]:
  "clean []" "clean (s @ t) \<longleftrightarrow> clean s \<and> clean t" "clean (c # s) \<longleftrightarrow> c \<noteq> c_tab \<and> c \<noteq> c_nl \<and> clean s"
  by (auto simp: clean_def)

lemma clean_escaped: "clean (tsv_escaped s)"
  by (induction s) (auto simp: tsv_escaped_def)

lemma clean_value: "tsv_clean t \<Longrightarrow> clean (tsv_value t)"
  by (cases t) (auto simp: clean_escaped lit_def split: option.splits)

text \<open>in the TSV text of a result with columns, lines and tabs separate exactly the rows and
  columns, whatever the values hold, provided that language tags, datatype IRIs, labels and names
  hold no tab and line feed; and the escaped value in a cell reads back.\<close>

theorem tsv_columns:
  assumes vs: "sr_variables r \<noteq> []" "\<forall>v \<in> set (sr_variables r). clean v"
    and terms: "\<forall>b \<in> set (sr_bindings r). \<forall>t \<in> fmran' b. tsv_clean t"
  shows "map (split_at c_tab) (split_at c_nl (select_to_tsv r)) =
      map (\<lambda>v. 63 # v) (sr_variables r) # map (\<lambda>b. map (tsv_cell b) (sr_variables r)) (sr_bindings r) @ [[[]]] \<and>
    tsv_unescape (tsv_escaped x) = Some x"
proof -
  let ?vs = "sr_variables r" and ?row = "\<lambda>b. map (tsv_cell b) (sr_variables r)"
  let ?lines = "map (\<lambda>v. 63 # v) ?vs # map ?row (sr_bindings r)"
  have cell: "clean (tsv_cell b v)" if "b \<in> set (sr_bindings r)" for b v
    using terms that by (auto simp: tsv_cell_def fmran'I intro!: clean_value split: option.split)
  have cells: "clean x" if "x \<in> set xs" "xs \<in> set ?lines" for x xs
    using that vs(2) cell by auto
  have lines: "xs \<noteq> []" if "xs \<in> set ?lines" for xs
    using that vs(1) by auto
  have joined: "c_nl \<notin> set (join [c_tab] xs)" if "\<forall>x \<in> set xs. clean x" for xs
    using that by (induction xs) (auto simp: join_Cons clean_def)
  have no_nl: "\<forall>y \<in> set (map (join [c_tab]) ?lines). c_nl \<notin> set y"
    unfolding set_map using cells joined by blast
  have row: "tsv_row ?vs b = join [c_tab] (?row b) @ [c_nl]" for b
    by (simp add: tsv_row_def tsv_cell_def [abs_def])
  have lines_text: "select_to_tsv r = concat (map (\<lambda>x. x @ [c_nl]) (map (join [c_tab]) ?lines))"
    by (simp add: select_to_tsv_def lit_def comp_def row [abs_def])
  have "split_at c_nl (select_to_tsv r) = map (join [c_tab]) ?lines @ [[]]"
    unfolding lines_text using no_nl by (rule split_lines_concat)
  moreover have "map (split_at c_tab) (map (join [c_tab]) ?lines) = ?lines"
    unfolding map_map comp_def
    by (rule map_idI, rule split_at_join) (use lines cells in \<open>auto simp: clean_def\<close>)
  ultimately show ?thesis by (simp add: tsv_unescape_escaped)
qed

theorem tsv_columns_witness:
  "map (split_at c_tab) (split_at c_nl (select_to_tsv \<lparr>sr_variables = [lit ''s''],
     sr_bindings = [fmupd (lit ''s'') (term_literal [c_tab, c_nl]) fmempty]\<rparr>)) =
   [[lit ''?s''], [[c_dquote, c_bslash, 116, c_bslash, 110, c_dquote]], [[]]]"
proof -
  have "\<forall>b \<in> set [fmupd (lit ''s'') (term_literal [c_tab, c_nl]) fmempty]. \<forall>t \<in> fmran' b. tsv_clean t"
    by (auto simp: term_literal_def literal_new_def elim!: fmran'E split: if_splits)
  then show ?thesis
    using tsv_columns [of "\<lparr>sr_variables = [lit ''s''],
      sr_bindings = [fmupd (lit ''s'') (term_literal [c_tab, c_nl]) fmempty]\<rparr>"]
    by (simp add: tsv_cell_def term_literal_def literal_new_def tsv_escaped_def lit_def)
qed

subsection \<open>XML text reads back\<close>

text \<open>Character data of XML: the five predefined entities are decoded, other markup ends it.\<close>

definition xml_entities :: "(rstr \<times> rchar) list" where
  "xml_entities = [(lit ''amp;'', 38), (lit ''lt;'', c_lt), (lit ''gt;'', c_gt), (lit ''quot;'', c_dquote), (lit ''apos;'', c_squote)]"

definition entity_at :: "rstr \<Rightarrow> (rstr \<times> rchar) option" where
  "entity_at s = find (\<lambda>(e, c). prefix e s) xml_entities"

function xml_data :: "rstr \<Rightarrow> rstr \<times> rstr" where
  "xml_data s =
     (case s of [] \<Rightarrow> ([], [])
      | c # cs \<Rightarrow>
          if c = c_lt \<or> c = c_dquote \<or> c = c_squote then ([], s)
          else if c = 38 then
            (case entity_at cs of Some (e, d) \<Rightarrow> (let (v, r) = xml_data (drop (length e) cs) in (d # v, r)) | None \<Rightarrow> ([], s))
          else (let (v, r) = xml_data cs in (c # v, r)))"
  by pat_completeness auto
termination by (relation "measure length") auto

declare xml_data.simps [simp del]

text \<open>whatever a term's text is, a reader of XML character data (or of an attribute value) gets it back from
  its escaped form and stops at the markup that the writer puts after it.\<close>

theorem xml_reads_back:
  assumes "m \<in> {c_lt, c_dquote, c_squote}"
  shows "xml_data (xml_escaped s @ m # r) = (s, m # r)"
proof (induction s)
  case Nil
  then show ?case using assms by (subst xml_data.simps) (auto simp: xml_escaped_def)
next
  case (Cons c s)
  have split: "xml_escaped (c # s) = xml_char c @ xml_escaped s"
    by (simp add: xml_escaped_def)
  have entity: "entity_at (e @ t) = Some (e, d) \<Longrightarrow> xml_data (38 # e @ xml_escaped s @ m # r) = (d # s, m # r)"
    if "(e, d) \<in> set xml_entities" "t = xml_escaped s @ m # r" for e d t
    using that Cons by (subst xml_data.simps) simp
  show ?case
  proof (cases "c \<in> {38, c_lt, c_gt, c_dquote, c_squote}")
    case True
    then obtain e where e: "xml_char c = 38 # e" "(e, c) \<in> set xml_entities" "\<And>t. entity_at (e @ t) = Some (e, c)"
      by (auto simp: xml_entities_def entity_at_def lit_def)
    then show ?thesis using entity [OF e(2) refl e(3)] by (simp add: split)
  next
    case False
    then have "xml_data (c # xml_escaped s @ m # r) = (c # s, m # r)"
      using Cons by (subst xml_data.simps) simp
    then show ?thesis using False by (simp add: split)
  qed
qed

theorem xml_reads_back_witness: "xml_data (xml_escaped [38, 60, 97] @ 60 # [47]) = ([38, 60, 97], [60, 47])"
  using xml_reads_back [of 60 "[38, 60, 97]" "[47]"] by simp

end
