(* ===== verification/Executor.thy ===== *)
theory Executor
  imports Translator ResultFormats
begin

section \<open>Query execution (mapper/src/query/executor.rs)\<close>

text \<open>
  Running a translated query and turning the rows of the database into SPARQL results. The
  database is the executor the code is given, a record of its two functions; a float of a
  row enters as its printed text, a duration as a number, and the two readings of the clock
  are arguments.
\<close>

subsection \<open>Configuration and errors\<close>

record query_config =
  qc_timeout :: "nat option"
  qc_max_results :: "nat option"
  qc_include_metadata :: bool

definition qc_new :: query_config where
  "qc_new = \<lparr>qc_timeout = Some 30000000000, qc_max_results = None, qc_include_metadata = False\<rparr>"

definition qc_with_timeout :: "nat \<Rightarrow> query_config \<Rightarrow> query_config" where
  "qc_with_timeout t c = c\<lparr>qc_timeout := Some t\<rparr>"

definition qc_without_timeout :: "query_config \<Rightarrow> query_config" where
  "qc_without_timeout c = c\<lparr>qc_timeout := None\<rparr>"

definition qc_with_max_results :: "nat \<Rightarrow> query_config \<Rightarrow> query_config" where
  "qc_with_max_results n c = c\<lparr>qc_max_results := Some n\<rparr>"

record query_error =
  qe_message :: rstr
  qe_code :: "rstr option"
  qe_query :: "rstr option"

definition qe_display :: "query_error \<Rightarrow> rstr" where
  "qe_display e = lit ''Query error: '' @ qe_message e"

datatype query_result = QrSelect select_results | QrAsk ask_result | QrError query_error

subsection \<open>Values of the database\<close>

datatype cypher_value =
    CvNull
  | CvBool bool
  | CvInteger "64 word"
  | CvFloat rstr
  | CvString rstr
  | CvNode "(rstr, cypher_value) fmap"
  | CvRelationship "(rstr, cypher_value) fmap"
  | CvList "cypher_value list"
  | CvMap "(rstr, cypher_value) fmap"

record cypher_result =
  cr_columns :: "rstr list"
  cr_rows :: "cypher_value list list"

record cypher_executor =
  ce_execute :: "rstr \<Rightarrow> query_error + cypher_result"
  ce_execute_with_timeout :: "rstr \<Rightarrow> nat \<Rightarrow> query_error + cypher_result"

definition string_prop :: "(rstr, cypher_value) fmap \<Rightarrow> string \<Rightarrow> rstr option" where
  "string_prop m k = (case fmlookup m (lit k) of Some (CvString s) \<Rightarrow> Some s | _ \<Rightarrow> None)"

definition literal_term :: "(rstr, cypher_value) fmap \<Rightarrow> rstr \<Rightarrow> rterm" where
  "literal_term m v =
     (case string_prop m ''language'' of Some g \<Rightarrow> term_lang_literal v g
      | None \<Rightarrow> (case string_prop m ''datatype'' of Some d \<Rightarrow> term_typed_literal v d | None \<Rightarrow> term_literal v))"

definition strip_blank :: "rstr \<Rightarrow> rstr option" where
  "strip_blank s = (if prefix (lit ''_:'') s then Some (drop 2 s) else None)"

fun to_term :: "cypher_value \<Rightarrow> rterm option" where
  "to_term CvNull = None"
| "to_term (CvBool b) = Some (term_typed_literal (show_result b) (lit ''http://www.w3.org/2001/XMLSchema#boolean''))"
| "to_term (CvInteger i) = Some (term_typed_literal (show_int (sint i)) (lit ''http://www.w3.org/2001/XMLSchema#integer''))"
| "to_term (CvFloat f) = Some (term_typed_literal f (lit ''http://www.w3.org/2001/XMLSchema#double''))"
| "to_term (CvString s) =
     (if prefix (lit ''http://'') s \<or> prefix (lit ''https://'') s \<or> prefix (lit ''urn:'') s then Some (term_iri s)
      else (case strip_blank s of Some l \<Rightarrow> Some (term_blank_node l) | None \<Rightarrow> Some (term_literal s)))"
| "to_term (CvNode m) =
     (case string_prop m ''uri'' of
        Some u \<Rightarrow> (case strip_blank u of Some l \<Rightarrow> Some (term_blank_node l) | None \<Rightarrow> Some (term_iri u))
      | None \<Rightarrow> map_option (literal_term m) (string_prop m ''value''))"
| "to_term (CvRelationship m) = map_option term_iri (string_prop m ''predicate'')"
| "to_term (CvMap m) =
     (case string_prop m ''uri'' of Some u \<Rightarrow> Some (term_iri u)
      | None \<Rightarrow> map_option (literal_term m) (string_prop m ''value''))"
| "to_term (CvList vs) = None"

subsection \<open>Converting results\<close>

definition bind_value :: "rstr list \<Rightarrow> nat \<times> cypher_value \<Rightarrow> row_binding \<Rightarrow> row_binding" where
  "bind_value vs = (\<lambda>(i, v) b.
     (if i < length vs then (case to_term v of Some t \<Rightarrow> fmupd (vs ! i) t b | None \<Rightarrow> b) else b))"

definition binding_of_row :: "rstr list \<Rightarrow> cypher_value list \<Rightarrow> row_binding" where
  "binding_of_row vs row = fold (bind_value vs) (enumerate 0 row) fmempty"

definition to_select_results :: "cypher_query \<Rightarrow> cypher_result \<Rightarrow> select_results" where
  "to_select_results q r =
     fold (\<lambda>row. sr_add_binding (binding_of_row (cy_variables q) row)) (cr_rows r) (sr_with_variables (cy_variables q))"

fun value_is_true :: "cypher_value \<Rightarrow> bool" where
  "value_is_true (CvBool b) = b"
| "value_is_true (CvInteger i) = (0 < sint i)"
| "value_is_true (CvString s) = (s = lit ''true'' \<or> s = lit ''1'')"
| "value_is_true _ = False"

definition to_ask_result :: "cypher_result \<Rightarrow> ask_result" where
  "to_ask_result r = \<lparr>ar_result = (case cr_rows r of (v # _) # _ \<Rightarrow> value_is_true v | _ \<Rightarrow> False)\<rparr>"

subsection \<open>Execution\<close>

definition query_failed :: "cypher_query \<Rightarrow> string \<Rightarrow> rstr option \<Rightarrow> query_result" where
  "query_failed q m code = QrError \<lparr>qe_message = lit m, qe_code = code, qe_query = Some (cy_query q)\<rparr>"

definition exceeded :: "query_config \<Rightarrow> nat \<Rightarrow> bool" where
  "exceeded c elapsed \<longleftrightarrow> (case qc_timeout c of Some t \<Rightarrow> t < elapsed | None \<Rightarrow> False)"

definition run_query :: "cypher_executor \<Rightarrow> query_config \<Rightarrow> cypher_query \<Rightarrow> query_error + cypher_result" where
  "run_query ex c q =
     (case qc_timeout c of Some t \<Rightarrow> ce_execute_with_timeout ex (cy_query q) t | None \<Rightarrow> ce_execute ex (cy_query q))"

definition convert_result :: "cypher_query \<Rightarrow> cypher_result \<Rightarrow> query_result" where
  "convert_result q r =
     (case cy_type q of
        CqSelect \<Rightarrow> QrSelect (to_select_results q r)
      | CqAsk \<Rightarrow> QrAsk (to_ask_result r)
      | CqConstruct \<Rightarrow> query_failed q ''CONSTRUCT not yet implemented'' None)"

definition execute_query :: "nat \<Rightarrow> nat \<Rightarrow> cypher_executor \<Rightarrow> query_config \<Rightarrow> cypher_query \<Rightarrow> query_result" where
  "execute_query before after ex c q =
     (if exceeded c before then query_failed q ''Query timeout before execution'' (Some (lit ''TIMEOUT''))
      else (case run_query ex c q of
          Inl e \<Rightarrow> QrError e
        | Inr r \<Rightarrow> if exceeded c after then query_failed q ''Query timeout during execution'' (Some (lit ''TIMEOUT''))
                  else convert_result q r))"

subsection \<open>Correctness\<close>

lemma bind_rows: "distinct vs \<Longrightarrow> i < length vs \<Longrightarrow>
    fmlookup (fold (bind_value vs) (enumerate n row) b) (vs ! i) =
      (if n \<le> i \<and> i < n + length row then (case to_term (row ! (i - n)) of Some t \<Rightarrow> Some t | None \<Rightarrow> fmlookup b (vs ! i))
       else fmlookup b (vs ! i))"
proof (induction row arbitrary: n b)
  case (Cons v row)
  then show ?case
    by (cases "i = n")
      (auto simp: bind_value_def nth_eq_iff_index_eq Suc_le_eq nth_Cons' split: option.split)
qed auto

lemma bind_key: "fset (fmdom (bind_value vs e b)) \<subseteq> set vs \<union> fset (fmdom b)"
  by (cases e) (auto simp: bind_value_def split: option.splits)

lemma bind_keys: "fset (fmdom (fold (bind_value vs) es b)) \<subseteq> set vs \<union> fset (fmdom b)"
proof (induction es arbitrary: b)
  case (Cons e es)
  then show ?case using bind_key [of vs e b] Cons [of "bind_value vs e b"] by auto
qed simp

lemma select_rows: "to_select_results q r =
    \<lparr>sr_variables = cy_variables q, sr_bindings = map (binding_of_row (cy_variables q)) (cr_rows r)\<rparr>"
proof -
  have "fold (\<lambda>row. sr_add_binding (f row)) rows s = s\<lparr>sr_bindings := sr_bindings s @ map f rows\<rparr>"
    for f :: "cypher_value list \<Rightarrow> row_binding" and rows and s :: select_results
    by (induction rows arbitrary: s) (simp_all add: sr_add_binding_def)
  then show ?thesis by (simp add: to_select_results_def sr_with_variables_def)
qed

text \<open>the results of a SELECT have the query's columns and one binding per row, in order; with
  distinct columns the binding of a row gives the column at a position the term of the value at
  that position, nothing when there is no value or it has no term, and binds nothing else.\<close>

theorem select_results_correct:
  assumes "distinct (cy_variables q)"
  shows "sr_variables (to_select_results q r) = cy_variables q \<and>
    length (sr_bindings (to_select_results q r)) = length (cr_rows r) \<and>
    (\<forall>j < length (cr_rows r). let b = sr_bindings (to_select_results q r) ! j; row = cr_rows r ! j in
       (\<forall>i < length (cy_variables q).
          fmlookup b (cy_variables q ! i) = (if i < length row then to_term (row ! i) else None)) \<and>
       fset (fmdom b) \<subseteq> set (cy_variables q))"
  using bind_keys [where b = fmempty] bind_rows [OF assms, where n = 0 and b = fmempty]
  by (auto simp: select_rows binding_of_row_def Let_def split: option.split)

theorem select_results_correct_witness:
  "fmlookup (sr_bindings (to_select_results \<lparr>cy_query = [], cy_variables = [lit ''s'', lit ''t''], cy_type = CqSelect\<rparr>
     \<lparr>cr_columns = [], cr_rows = [[CvNull, CvBool True]]\<rparr>) ! 0) (lit ''t'') =
   Some (term_typed_literal (lit ''true'') (lit ''http://www.w3.org/2001/XMLSchema#boolean''))"
proof -
  let ?q = "\<lparr>cy_query = [], cy_variables = [lit ''s'', lit ''t''], cy_type = CqSelect\<rparr>"
  let ?r = "\<lparr>cr_columns = [], cr_rows = [[CvNull, CvBool True]]\<rparr>"
  have "distinct (cy_variables ?q)" by simp
  from select_results_correct [OF this, of ?r]
  have "\<forall>i < 2. fmlookup (sr_bindings (to_select_results ?q ?r) ! 0) (cy_variables ?q ! i) = to_term ([CvNull, CvBool True] ! i)"
    by (simp add: Let_def)
  then show ?thesis by (auto dest: spec [where x = 1] simp: show_result_def)
qed

text \<open>running a query gives the database's error, a time-out when the clock has passed the limit before
  or after the run, and otherwise the converted rows; an answer never comes late, and the
  configured maximum of results plays no part.\<close>

theorem execute_outcome:
  "execute_query before after ex c q =
     (case (exceeded c before, run_query ex c q, exceeded c after) of
        (True, _, _) \<Rightarrow> query_failed q ''Query timeout before execution'' (Some (lit ''TIMEOUT''))
      | (False, Inl e, _) \<Rightarrow> QrError e
      | (False, Inr _, True) \<Rightarrow> query_failed q ''Query timeout during execution'' (Some (lit ''TIMEOUT''))
      | (False, Inr r, False) \<Rightarrow> convert_result q r) \<and>
   execute_query before after ex (qc_with_max_results n c) q = execute_query before after ex c q"
  by (auto simp: execute_query_def exceeded_def run_query_def qc_with_max_results_def split: sum.split option.split bool.split)

text \<open>a blank node that comes back in a map, which is how the translated RETURN clause delivers every
  value, becomes an IRI \<open>_:b\<close>, while the same properties on a node give the blank node.\<close>

theorem mapped_blank_node_is_iri:
  "to_term (CvMap (fmupd (lit ''uri'') (CvString (lit ''_:'' @ b)) m)) = Some (term_iri (lit ''_:'' @ b)) \<and>
   to_term (CvNode (fmupd (lit ''uri'') (CvString (lit ''_:'' @ b)) m)) = Some (term_blank_node b)"
  by (simp add: string_prop_def strip_blank_def lit_def)

text \<open>a literal with a language tag that is not well formed comes back as the empty literal.\<close>

theorem bad_language_loses_value:
  "validate_language_tag g = Inl e \<Longrightarrow> term_lang_literal v g = term_literal []"
  by (simp add: term_lang_literal_def literal_with_language_def term_literal_def)

text \<open>the display of an IRI term has its angle brackets twice.\<close>

theorem iri_term_display: "rterm_display (RIri i) = lit ''<<'' @ iri_value i @ lit ''>>''"
  by (simp add: iri_display_def lit_def)

end
