(* ===== verification/Optimizer.thy ===== *)
theory Optimizer
  imports Statistics Sparql "HOL-Library.Multiset"
begin

section \<open>Join ordering (mapper/src/query/optimizer.rs)\<close>

text \<open>
  The optimiser orders the triple patterns of a BGP by estimated cost. The arithmetic and
  the comparisons of \<open>f64\<close> are uninterpreted functions, like those of the statistics; a
  comparison that involves NaN has no result, and \<open>unwrap\<close> on it is a panic, the value
  \<open>None\<close>. The hash of an IRI is an argument.
\<close>

datatype ordering = OrdLess | OrdEqual | OrdGreater

record 'f opt_ops = "'f f64_ops" +
  f_add :: "'f \<Rightarrow> 'f \<Rightarrow> 'f"
  f_max :: "'f \<Rightarrow> 'f \<Rightarrow> 'f"
  f_lt :: "'f \<Rightarrow> 'f \<Rightarrow> bool"
  f_cmp :: "'f \<Rightarrow> 'f \<Rightarrow> ordering option"
  f_half :: 'f
  f_hundredth :: 'f
  f_thousandth :: 'f
  f_floor :: 'f
  f_two :: 'f
  f_MAX :: 'f

record 'f cost_model =
  full_scan_cost :: 'f
  index_access_cost :: 'f
  hash_join_cost :: 'f
  nested_loop_cost :: 'f

definition cost_model_default :: "'f opt_ops \<Rightarrow> 'f cost_model" where
  "cost_model_default F = \<lparr>full_scan_cost = f_1 F, index_access_cost = f_tenth F, hash_join_cost = f_half F,
     nested_loop_cost = f_two F\<rparr>"

record 'f pattern_cost =
  pc_pattern :: ast_triple
  pc_cardinality :: 'f
  pc_selectivity :: 'f
  pc_hint :: "'f index_hint"
  pc_bound :: "rstr fset"

definition pc_cost :: "'f opt_ops \<Rightarrow> 'f cost_model \<Rightarrow> 'f pattern_cost \<Rightarrow> 'f" where
  "pc_cost F m c =
     (let base = pc_cardinality c
      in case pc_hint c of
           FullScan \<Rightarrow> f_mul F base (full_scan_cost m)
         | UseTypeIndex t \<Rightarrow> f_mul F (f_mul F base (index_access_cost m)) (f_half F)
         | UsePredicateIndex p s \<Rightarrow> f_mul F (f_mul F base (index_access_cost m)) s
         | UseNamespaceIndex n \<Rightarrow> f_mul F base (index_access_cost m))"

record 'f plan =
  plan_patterns :: "'f pattern_cost list"
  plan_total_cost :: 'f
  plan_bound_at_step :: "rstr fset list"

definition plan_execution_order :: "'f plan \<Rightarrow> ast_triple list" where
  "plan_execution_order p = map pc_pattern (plan_patterns p)"

definition plan_uses_indexes :: "'f plan \<Rightarrow> bool" where
  "plan_uses_indexes p \<longleftrightarrow> list_ex (\<lambda>c. hint_uses_index (pc_hint c)) (plan_patterns p)"

record 'f optimizer =
  op_cost_model :: "'f cost_model"
  op_total_triples :: u64

definition op_with_cost_model :: "'f cost_model \<Rightarrow> 'f optimizer" where
  "op_with_cost_model m = \<lparr>op_cost_model = m, op_total_triples = 0\<rparr>"

definition op_new :: "'f opt_ops \<Rightarrow> 'f optimizer" where
  "op_new F = op_with_cost_model (cost_model_default F)"

definition op_set_total_triples :: "u64 \<Rightarrow> 'f optimizer \<Rightarrow> 'f optimizer" where
  "op_set_total_triples n o' = o'\<lparr>op_total_triples := n\<rparr>"

subsection \<open>Estimates\<close>

definition RDF_TYPE_IRI :: rstr where
  "RDF_TYPE_IRI = lit ''http://www.w3.org/1999/02/22-rdf-syntax-ns#type''"

definition is_type_pattern :: "ast_triple \<Rightarrow> bool" where
  "is_type_pattern p \<longleftrightarrow> at_predicate p = ANamedNode RDF_TYPE_IRI"

fun named_id :: "(rstr \<Rightarrow> u64) \<Rightarrow> ast_term \<Rightarrow> iri_id option" where
  "named_id hash (ANamedNode n) = Some (hash n)" | "named_id hash _ = None"

definition estimate_selectivity :: "'f opt_ops \<Rightarrow> (rstr \<Rightarrow> u64) \<Rightarrow> ast_triple \<Rightarrow> 'f statistics \<Rightarrow> 'f" where
  "estimate_selectivity F hash p st =
     (let s0 = f_1 F;
          s1 = (if \<not> is_variable (at_subject p)
                then f_mul F s0 (f_div F (f_1 F) (f_of F (max (st_distinct_subjects st) 1))) else s0);
          s2 = (case named_id hash (at_predicate p) of
                  Some i \<Rightarrow> f_mul F s1 (st_predicate_selectivity (f64_ops.truncate F) st i) | None \<Rightarrow> s1);
          s3 = (if \<not> is_variable (at_object p)
                then f_mul F s2 (f_div F (f_1 F) (f_of F (max (st_distinct_objects st) 1))) else s2)
      in f_max F s3 (f_floor F))"

definition index_ratio :: "'f opt_ops \<Rightarrow> nat \<Rightarrow> nat \<Rightarrow> 'f" where
  "index_ratio F a b = f_div F (f_of F (of_nat a)) (f_of F (of_nat b))"

definition estimate_pattern_cost ::
  "'f opt_ops \<Rightarrow> (rstr \<Rightarrow> u64) \<Rightarrow> 'f statistics \<Rightarrow> index_manager option \<Rightarrow> ast_triple \<Rightarrow> 'f pattern_cost" where
  "estimate_pattern_cost F hash st indexes p =
     (let total = f_of F (max (st_triple_count st) 1);
          predicate_id = named_id hash (at_predicate p);
          type_id = (if is_type_pattern p then named_id hash (at_object p) else None);
          hint = (case indexes of
              Some im \<Rightarrow> im_get_hint (f_1 F) (index_ratio F) im predicate_id (is_type_pattern p) type_id
            | None \<Rightarrow> (case (if is_type_pattern p then type_id else None) of
                Some t \<Rightarrow> UseTypeIndex t
              | None \<Rightarrow> (case predicate_id of
                  Some i \<Rightarrow> UsePredicateIndex i (st_predicate_selectivity (f64_ops.truncate F) st i)
                | None \<Rightarrow> FullScan)));
          sel = estimate_selectivity F hash p st
      in \<lparr>pc_pattern = p, pc_cardinality = f_mul F total sel, pc_selectivity = sel, pc_hint = hint,
          pc_bound = ast_triple_variables p\<rparr>)"

definition heuristic_selectivity :: "'f opt_ops \<Rightarrow> ast_triple \<Rightarrow> 'f" where
  "heuristic_selectivity F p =
     (let n = length (filter (\<lambda>t. \<not> is_variable t) [at_subject p, at_predicate p, at_object p]);
          s = (if n = 3 then f_thousandth F else if n = 2 then f_hundredth F else if n = 1 then f_tenth F else f_1 F)
      in if is_type_pattern p then f_mul F s (f_half F) else s)"

definition estimate_pattern_cost_heuristic ::
  "'f opt_ops \<Rightarrow> (rstr \<Rightarrow> u64) \<Rightarrow> 'f optimizer \<Rightarrow> ast_triple \<Rightarrow> 'f pattern_cost" where
  "estimate_pattern_cost_heuristic F hash o' p =
     (let sel = heuristic_selectivity F p;
          hint = (if is_type_pattern p then
                    (case named_id hash (at_object p) of Some t \<Rightarrow> UseTypeIndex t | None \<Rightarrow> FullScan)
                  else (case named_id hash (at_predicate p) of Some i \<Rightarrow> UsePredicateIndex i sel | None \<Rightarrow> FullScan))
      in \<lparr>pc_pattern = p, pc_cardinality = f_mul F (f_of F (max (op_total_triples o') 1000)) sel,
          pc_selectivity = sel, pc_hint = hint, pc_bound = ast_triple_variables p\<rparr>)"

subsection \<open>Ordering\<close>

text \<open>\<open>Iterator::min_by\<close> with a comparison that may panic; the first of equal elements wins.\<close>

fun min_by_cmp :: "('a \<Rightarrow> 'a \<Rightarrow> ordering option) \<Rightarrow> 'a \<Rightarrow> 'a list \<Rightarrow> 'a option" where
  "min_by_cmp cmp x [] = Some x"
| "min_by_cmp cmp x (y # ys) =
     (case cmp x y of None \<Rightarrow> None
      | Some OrdGreater \<Rightarrow> min_by_cmp cmp y ys
      | Some _ \<Rightarrow> min_by_cmp cmp x ys)"

text \<open>The loop for the lowest score.\<close>

fun best_score_loop :: "'f opt_ops \<Rightarrow> 'f cost_model \<Rightarrow> rstr fset \<Rightarrow> (nat \<times> 'f pattern_cost) list \<Rightarrow> nat \<Rightarrow> 'f \<Rightarrow> nat" where
  "best_score_loop F m bound [] best score = best"
| "best_score_loop F m bound ((i, c) # cs) best score =
     (let factor = (if 0 < fcard (pc_bound c |\<inter>| bound) then f_tenth F else f_1 F);
          s = f_mul F (pc_cost F m c) factor
      in if f_lt F s score then best_score_loop F m bound cs i s else best_score_loop F m bound cs best score)"

definition find_best_next :: "'f opt_ops \<Rightarrow> 'f cost_model \<Rightarrow> 'f pattern_cost list \<Rightarrow> rstr fset \<Rightarrow> nat option" where
  "find_best_next F m cs bound =
     (if bound = {||} then
        (case enumerate 0 cs of [] \<Rightarrow> Some 0
         | x # xs \<Rightarrow> map_option fst (min_by_cmp (\<lambda>(_, a) (_, b). f_cmp F (pc_selectivity a) (pc_selectivity b)) x xs))
      else Some (best_score_loop F m bound (enumerate 0 cs) 0 (f_MAX F)))"

definition remove_at :: "nat \<Rightarrow> 'a list \<Rightarrow> 'a list" where
  "remove_at i xs = take i xs @ drop (Suc i) xs"

function greedy_loop ::
  "'f opt_ops \<Rightarrow> 'f cost_model \<Rightarrow> 'f pattern_cost list \<Rightarrow> rstr fset \<Rightarrow> ('f pattern_cost list \<times> rstr fset list) option" where
  "greedy_loop F m cs bound =
     (if cs = [] then Some ([], [])
      else (case find_best_next F m cs bound of
          None \<Rightarrow> None
        | Some i \<Rightarrow>
            (if i < length cs then
               (let best = cs ! i; bound' = bound |\<union>| pc_bound best
                in map_option (\<lambda>(ps, bs). (best # ps, bound' # bs)) (greedy_loop F m (remove_at i cs) bound'))
             else None)))"
  by pat_completeness auto
termination
  by (relation "measure (\<lambda>(F, m, cs, b). length cs)") (auto simp: remove_at_def)

declare greedy_loop.simps [simp del]

definition calculate_plan_cost :: "'f opt_ops \<Rightarrow> 'f cost_model \<Rightarrow> 'f pattern_cost list \<Rightarrow> 'f" where
  "calculate_plan_cost F m cs = fst (fold (\<lambda>c (total, cumulative).
     (f_add F total (f_mul F (pc_cost F m c) cumulative), f_mul F cumulative (f_max F (pc_cardinality c) (f_1 F))))
     cs (f_0 F, f_1 F))"

definition empty_plan :: "'f opt_ops \<Rightarrow> 'f plan" where
  "empty_plan F = \<lparr>plan_patterns = [], plan_total_cost = f_0 F, plan_bound_at_step = []\<rparr>"

definition optimize_with_statistics ::
  "'f opt_ops \<Rightarrow> (rstr \<Rightarrow> u64) \<Rightarrow> 'f optimizer \<Rightarrow> ast_triple list \<Rightarrow> 'f statistics \<Rightarrow> index_manager option \<Rightarrow> 'f plan option" where
  "optimize_with_statistics F hash o' ps st indexes =
     (if ps = [] then Some (empty_plan F)
      else map_option (\<lambda>(ordered, bs). \<lparr>plan_patterns = ordered,
             plan_total_cost = calculate_plan_cost F (op_cost_model o') ordered, plan_bound_at_step = bs\<rparr>)
        (greedy_loop F (op_cost_model o') (map (estimate_pattern_cost F hash st indexes) ps) {||}))"

text \<open>\<open>sort_by\<close> is stable; the model inserts from the right.\<close>

fun insert_cmp :: "('a \<Rightarrow> 'a \<Rightarrow> ordering option) \<Rightarrow> 'a \<Rightarrow> 'a list \<Rightarrow> 'a list option" where
  "insert_cmp cmp x [] = Some [x]"
| "insert_cmp cmp x (y # ys) =
     (case cmp y x of None \<Rightarrow> None
      | Some OrdLess \<Rightarrow> map_option (Cons y) (insert_cmp cmp x ys)
      | Some _ \<Rightarrow> Some (x # y # ys))"

definition sort_cmp :: "('a \<Rightarrow> 'a \<Rightarrow> ordering option) \<Rightarrow> 'a list \<Rightarrow> 'a list option" where
  "sort_cmp cmp xs = foldr (\<lambda>x r. Option.bind r (insert_cmp cmp x)) xs (Some [])"

fun bound_steps :: "'f pattern_cost list \<Rightarrow> rstr fset \<Rightarrow> rstr fset list" where
  "bound_steps [] bound = []"
| "bound_steps (c # cs) bound = (bound |\<union>| pc_bound c) # bound_steps cs (bound |\<union>| pc_bound c)"

definition optimize_heuristic :: "'f opt_ops \<Rightarrow> (rstr \<Rightarrow> u64) \<Rightarrow> 'f optimizer \<Rightarrow> ast_triple list \<Rightarrow> 'f plan option" where
  "optimize_heuristic F hash o' ps =
     (if ps = [] then Some (empty_plan F)
      else map_option (\<lambda>cs. \<lparr>plan_patterns = cs, plan_total_cost = calculate_plan_cost F (op_cost_model o') cs,
             plan_bound_at_step = bound_steps cs {||}\<rparr>)
        (sort_cmp (\<lambda>a b. f_cmp F (pc_selectivity a) (pc_selectivity b)) (map (estimate_pattern_cost_heuristic F hash o') ps)))"

subsection \<open>The plans are permutations\<close>

definition comparable :: "'f opt_ops \<Rightarrow> 'f set \<Rightarrow> bool" where
  "comparable F A \<longleftrightarrow> (\<forall>x \<in> A. \<forall>y \<in> A. f_cmp F x y \<noteq> None)"

lemma min_by_cmp_in:
  "(\<And>a b. a \<in> set (x # xs) \<Longrightarrow> b \<in> set (x # xs) \<Longrightarrow> cmp a b \<noteq> None) \<Longrightarrow> \<exists>y \<in> set (x # xs). min_by_cmp cmp x xs = Some y"
proof (induction xs arbitrary: x)
  case (Cons z xs)
  obtain t where t: "cmp x z = Some t" using Cons.prems [of x z] by auto
  have "\<exists>y \<in> set (z # xs). min_by_cmp cmp z xs = Some y" "\<exists>y \<in> set (x # xs). min_by_cmp cmp x xs = Some y"
    by (rule Cons.IH, rule Cons.prems; auto)+
  then show ?case using t by (cases t) auto
qed simp

lemma best_score_in: "best_score_loop F m bound xs best score \<in> insert best (fst ` set xs)"
proof (induction xs arbitrary: best score)
  case (Cons x xs)
  obtain i c where x: "x = (i, c)" by (cases x)
  have "best_score_loop F m bound xs b s \<in> insert b (fst ` set xs)" for b s by (rule Cons)
  from this [of i] this [of best] show ?case by (auto simp: x Let_def)
qed simp

lemma find_best_index:
  assumes "cs \<noteq> []" "comparable F (pc_selectivity ` set cs)"
  shows "\<exists>i < length cs. find_best_next F m cs bound = Some i"
proof (cases "bound = {||}")
  case True
  obtain x xs where e: "enumerate 0 cs = x # xs" using assms(1) by (cases "enumerate 0 cs") (auto simp: enumerate_eq_zip)
  then have in_cs: "snd a \<in> set cs" "fst a < length cs" if "a \<in> set (x # xs)" for a
    using that in_set_enumerate_eq [of a 0 cs] unfolding e by (auto simp: in_set_conv_nth)
  let ?cmp = "\<lambda>(_ :: nat, a) (_ :: nat, b). f_cmp F (pc_selectivity a) (pc_selectivity b)"
  have "\<exists>y \<in> set (x # xs). min_by_cmp ?cmp x xs = Some y"
  proof (rule min_by_cmp_in)
    fix a b assume "a \<in> set (x # xs)" "b \<in> set (x # xs)"
    from in_cs(1) [OF this(1)] in_cs(1) [OF this(2)] show "?cmp a b \<noteq> None"
      using assms(2) unfolding comparable_def by (auto simp: case_prod_beta)
  qed
  then obtain y where y: "y \<in> set (x # xs)" "min_by_cmp ?cmp x xs = Some y" by blast
  then have "find_best_next F m cs bound = Some (fst y)" using True e by (simp add: find_best_next_def)
  then show ?thesis using in_cs(2) [OF y(1)] by blast
next
  case False
  have "best_score_loop F m bound (enumerate 0 cs) 0 (f_MAX F) < length cs"
    using best_score_in [of F m bound "enumerate 0 cs" 0 "f_MAX F"] assms(1)
    by (auto simp: in_set_enumerate_eq)
  then show ?thesis using False by (simp add: find_best_next_def)
qed

lemma mset_remove_at: "i < length cs \<Longrightarrow> add_mset (cs ! i) (mset (remove_at i cs)) = mset cs"
  using id_take_nth_drop [of i cs] unfolding remove_at_def by (metis mset.simps(2) mset_append union_mset_add_mset_right)

lemma greedy_permutes:
  "comparable F (pc_selectivity ` set cs) \<Longrightarrow>
     \<exists>ps. greedy_loop F m cs bound = Some (ps, bound_steps ps bound) \<and> mset ps = mset cs"
proof (induction "length cs" arbitrary: cs bound)
  case 0
  then show ?case by (subst greedy_loop.simps) simp
next
  case (Suc n)
  then obtain i where i: "i < length cs" "find_best_next F m cs bound = Some i"
    using find_best_index [of cs F m bound] by fastforce
  let ?rest = "remove_at i cs" and ?bound = "bound |\<union>| pc_bound (cs ! i)"
  have "set ?rest \<subseteq> set cs" unfolding remove_at_def by (auto dest: in_set_takeD in_set_dropD)
  then have "comparable F (pc_selectivity ` set ?rest)" using Suc(3) unfolding comparable_def by blast
  moreover have "n = length ?rest" using Suc(2) i(1) by (simp add: remove_at_def)
  ultimately obtain ps where ps: "greedy_loop F m ?rest ?bound = Some (ps, bound_steps ps ?bound)" "mset ps = mset ?rest"
    using Suc(1) by blast
  then show ?case
    using i Suc(2) mset_remove_at [OF i(1)] by (subst greedy_loop.simps) (auto simp: Let_def)
qed

lemma insert_cmp_mset:
  "(\<And>a. a \<in> set ys \<Longrightarrow> cmp a x \<noteq> None) \<Longrightarrow> \<exists>zs. insert_cmp cmp x ys = Some zs \<and> mset zs = add_mset x (mset ys)"
proof (induction ys)
  case (Cons y ys)
  then obtain zs where "insert_cmp cmp x ys = Some zs" "mset zs = add_mset x (mset ys)" by auto
  moreover obtain t where "cmp y x = Some t" using Cons.prems [of y] by auto
  ultimately show ?case by (cases t) auto
qed simp

lemma sort_cmp_mset:
  "(\<And>a b. a \<in> set xs \<Longrightarrow> b \<in> set xs \<Longrightarrow> cmp a b \<noteq> None) \<Longrightarrow> \<exists>zs. sort_cmp cmp xs = Some zs \<and> mset zs = mset xs"
proof (induction xs)
  case (Cons x xs)
  then obtain zs where zs: "sort_cmp cmp xs = Some zs" "mset zs = mset xs" by auto
  then have "set zs = set xs" by (metis set_mset_mset)
  then obtain us where "insert_cmp cmp x zs = Some us" "mset us = add_mset x (mset zs)"
    using insert_cmp_mset [of zs cmp x] Cons.prems by auto
  then show ?case using zs by (auto simp: sort_cmp_def)
qed (simp add: sort_cmp_def)

lemma bound_steps_nth: "i < length ps \<Longrightarrow>
    fset (bound_steps ps bound ! i) = fset bound \<union> (\<Union>c \<in> set (take (Suc i) ps). fset (pc_bound c))"
  by (induction ps arbitrary: bound i) (auto simp: nth_Cons' less_Suc_eq_0_disj)

lemma length_bound_steps [simp]: "length (bound_steps ps bound) = length ps"
  by (induction ps arbitrary: bound) simp_all

text \<open>What a plan is to be: the given patterns in some order, and at each step the variables of the
  patterns so far.\<close>

definition plan_of :: "ast_triple list \<Rightarrow> 'f plan \<Rightarrow> bool" where
  "plan_of ps p \<longleftrightarrow> mset (plan_execution_order p) = mset ps \<and>
     length (plan_bound_at_step p) = length ps \<and>
     (\<forall>i < length ps. fset (plan_bound_at_step p ! i) =
        (\<Union>t \<in> set (take (Suc i) (plan_execution_order p)). fset (ast_triple_variables t)))"

definition honest :: "'f pattern_cost \<Rightarrow> bool" where
  "honest c \<longleftrightarrow> pc_bound c = ast_triple_variables (pc_pattern c)"

lemma plan_of_costs:
  assumes "mset cs = mset (map est ps)" "\<And>p. pc_pattern (est p) = p" "\<And>p. honest (est p)"
  shows "plan_of ps \<lparr>plan_patterns = cs, plan_total_cost = k, plan_bound_at_step = bound_steps cs {||}\<rparr>"
proof -
  have "set cs = est ` set ps" using assms(1) by (metis set_map set_mset_mset)
  then have honest_cs: "\<forall>c \<in> set cs. pc_bound c = ast_triple_variables (pc_pattern c)"
    using assms(3) by (auto simp: honest_def)
  have "mset (map pc_pattern cs) = mset (map pc_pattern (map est ps))"
    using assms(1) by (metis mset_map)
  then have order: "mset (map pc_pattern cs) = mset ps"
    using assms(2) by (simp add: comp_def)
  have len: "length cs = length ps" using assms(1) by (metis length_map size_mset)
  have "(\<Union>c \<in> set (take (Suc i) cs). fset (pc_bound c)) =
      (\<Union>t \<in> set (take (Suc i) (map pc_pattern cs)). fset (ast_triple_variables t))" for i
    using honest_cs by (auto simp: take_map dest: in_set_takeD)
  then show ?thesis
    using order len by (simp add: plan_of_def plan_execution_order_def bound_steps_nth)
qed

definition no_nan :: "'f opt_ops \<Rightarrow> bool" where
  "no_nan F \<longleftrightarrow> comparable F (range (\<lambda>x. f_max F x (f_floor F)))"

definition constants_comparable :: "'f opt_ops \<Rightarrow> bool" where
  "constants_comparable F \<longleftrightarrow> comparable F (range (heuristic_selectivity F))"

text \<open>C38: where the maximum with a number is never NaN, and the four constants and their halves
  compare, neither way of optimising panics: each returns a plan that is a permutation of the
  given patterns (no pattern is lost or repeated) and lists at each step exactly the variables
  of the patterns so far.\<close>

theorem optimizer_permutes:
  assumes "no_nan F" "constants_comparable F"
  shows "(\<exists>p. optimize_with_statistics F hash o' ps st indexes = Some p \<and> plan_of ps p) \<and>
    (\<exists>p. optimize_heuristic F hash o' ps = Some p \<and> plan_of ps p)"
proof (cases "ps = []")
  case True
  then show ?thesis
    by (simp add: optimize_with_statistics_def optimize_heuristic_def empty_plan_def plan_of_def plan_execution_order_def)
next
  case False
  let ?est = "estimate_pattern_cost F hash st indexes" and ?heu = "estimate_pattern_cost_heuristic F hash o'"
  have "pc_selectivity ` set (map ?est ps) \<subseteq> range (\<lambda>x. f_max F x (f_floor F))"
    by (auto simp: estimate_pattern_cost_def estimate_selectivity_def Let_def)
  then have "comparable F (pc_selectivity ` set (map ?est ps))"
    using assms(1) unfolding no_nan_def comparable_def by blast
  from greedy_permutes [OF this] obtain cs where cs:
    "greedy_loop F (op_cost_model o') (map ?est ps) {||} = Some (cs, bound_steps cs {||})" "mset cs = mset (map ?est ps)"
    by blast
  have sel: "pc_selectivity (?heu p) = heuristic_selectivity F p" for p
    by (simp add: estimate_pattern_cost_heuristic_def Let_def)
  have "\<exists>zs. sort_cmp (\<lambda>a b. f_cmp F (pc_selectivity a) (pc_selectivity b)) (map ?heu ps) = Some zs \<and> mset zs = mset (map ?heu ps)"
    using assms(2) by (intro sort_cmp_mset) (auto simp: sel constants_comparable_def comparable_def)
  then obtain zs where zs: "sort_cmp (\<lambda>a b. f_cmp F (pc_selectivity a) (pc_selectivity b)) (map ?heu ps) = Some zs"
    "mset zs = mset (map ?heu ps)" by blast
  have est: "pc_pattern (?est p) = p" "honest (?est p)" "pc_pattern (?heu p) = p" "honest (?heu p)" for p
    by (simp_all add: estimate_pattern_cost_def estimate_pattern_cost_heuristic_def honest_def Let_def)
  show ?thesis
    using False cs(1) zs(1) plan_of_costs [OF cs(2) est(1,2)] plan_of_costs [OF zs(2) est(3,4)]
    by (simp add: optimize_with_statistics_def optimize_heuristic_def)
qed

text \<open>Arithmetic on the rationals, an instance without NaN.\<close>

definition rat_ops :: "rat opt_ops" where
  "rat_ops = \<lparr>f_0 = 0, f_1 = 1, f_tenth = 1 / 10, f_of = (\<lambda>n. of_nat (unat n)), f_mul = (*), f_div = (/),
     f_is_zero = (\<lambda>x. x = 0), f_add = (+), f_max = max, f_lt = (<),
     f_cmp = (\<lambda>x y. Some (if x < y then OrdLess else if x = y then OrdEqual else OrdGreater)),
     f_half = 1 / 2, f_hundredth = 1 / 100, f_thousandth = 1 / 1000, f_floor = 1 / 10000, f_two = 2, f_MAX = 10 ^ 20\<rparr>"

lemma optimizer_permutes_witness:
  "\<exists>p. optimize_heuristic rat_ops (\<lambda>s. 0) (op_new rat_ops)
     [\<lparr>at_subject = AVariable [97], at_predicate = AVariable [98], at_object = AVariable [99]\<rparr>] = Some p"
proof -
  have "no_nan rat_ops \<and> constants_comparable rat_ops"
    by (simp add: no_nan_def constants_comparable_def comparable_def rat_ops_def)
  then show ?thesis
    using optimizer_permutes [of rat_ops "\<lambda>s. 0" "op_new rat_ops" _ "st_new (f64_ops.truncate rat_ops)" None] by blast
qed

end
