(* ===== verification/Serializer.thy ===== *)
theory Serializer
  imports TurtleLexer "HOL-Library.List_Lexorder"
begin

section \<open>RDF serializers (parser/src/rdf/serializer)\<close>

text \<open>
  The streaming serializers for N-Triples, N-Quads, Turtle and TriG. A call is the text it
  writes and the serializer's state after it; writers that fail are left out. The order in
  which the prefix map is searched is an argument.
\<close>

subsection \<open>Shared helpers (traits.rs)\<close>

definition upper_hex :: "nat \<Rightarrow> rchar" where
  "upper_hex n = (if n < 10 then 48 + n else 55 + n)"

text \<open>\<open>{:04X}\<close> of a control character.\<close>

definition upper_hex4 :: "rchar \<Rightarrow> rstr" where
  "upper_hex4 c = [upper_hex (c div 4096 mod 16), upper_hex (c div 256 mod 16), upper_hex (c div 16 mod 16), upper_hex (c mod 16)]"

fun escape_string_char :: "rchar \<Rightarrow> rstr" where
  "escape_string_char c =
     (if c = c_bslash then [c_bslash, c_bslash] else if c = c_dquote then [c_bslash, c_dquote]
      else if c = c_nl then [c_bslash, 110] else if c = c_cr then [c_bslash, 114]
      else if c = c_tab then [c_bslash, 116]
      else if is_control c then [c_bslash, 117] @ upper_hex4 c else [c])"

definition escape_string :: "rstr \<Rightarrow> rstr" where
  "escape_string s = concat (map escape_string_char s)"

fun escape_json_char :: "rchar \<Rightarrow> rstr" where
  "escape_json_char c =
     (if c = c_bslash then [c_bslash, c_bslash] else if c = c_dquote then [c_bslash, c_dquote]
      else if c = c_nl then [c_bslash, 110] else if c = c_cr then [c_bslash, 114]
      else if c = c_tab then [c_bslash, 116] else if c = 8 then [c_bslash, 98] else if c = 12 then [c_bslash, 102]
      else if is_control c then [c_bslash, 117] @ upper_hex4 c else [c])"

definition escape_json_string :: "rstr \<Rightarrow> rstr" where
  "escape_json_string s = concat (map escape_json_char s)"

definition is_valid_local_name :: "'f rust_std \<Rightarrow> rstr \<Rightarrow> bool" where
  "is_valid_local_name S l \<longleftrightarrow> l \<noteq> [] \<and> list_all (\<lambda>c. u_alphanumeric S c \<or> c = c_underscore \<or> c = c_minus) l"

definition xsd_string_iri :: rstr where
  "xsd_string_iri = xsd_namespace @ lit ''string''"

subsection \<open>N-Triples (ntriples.rs)\<close>

fun nt_subject :: "subject \<Rightarrow> rstr" where
  "nt_subject (SubjIri i) = [c_lt] @ iri_value i @ [c_gt]"
| "nt_subject (SubjBlank b) = lit ''_:'' @ bn_label b"

definition nt_literal :: "literal \<Rightarrow> rstr" where
  "nt_literal l = [c_dquote] @ escape_string (lit_value l) @ [c_dquote] @
     (case lit_language l of Some lang \<Rightarrow> [c_at] @ lang
      | None \<Rightarrow> (case lit_datatype l of
            Some dt \<Rightarrow> if iri_value dt \<noteq> xsd_string_iri then lit ''^^<'' @ iri_value dt @ [c_gt] else []
          | None \<Rightarrow> []))"

fun nt_object :: "object \<Rightarrow> rstr" where
  "nt_object (ObjIri i) = [c_lt] @ iri_value i @ [c_gt]"
| "nt_object (ObjBlank b) = lit ''_:'' @ bn_label b"
| "nt_object (ObjLiteral l) = nt_literal l"

definition nt_triple :: "triple \<Rightarrow> rstr" where
  "nt_triple t = nt_subject (t_subject t) @ [c_space] @ [c_lt] @ iri_value (t_predicate t) @ [c_gt] @ [c_space] @
     nt_object (t_object t) @ lit '' .'' @ [c_nl]"

text \<open>\<open>serialize_triples\<close> and, with an empty header and end, \<open>serialize_graph\<close>.\<close>

definition nt_triples :: "triple list \<Rightarrow> rstr" where
  "nt_triples ts = concat (map nt_triple ts)"

subsection \<open>N-Quads (nquads.rs)\<close>

definition nq_graph :: "graph_name option \<Rightarrow> rstr" where
  "nq_graph g = (case g of None \<Rightarrow> []
     | Some (GraphIri i) \<Rightarrow> [c_space] @ [c_lt] @ iri_value i @ [c_gt]
     | Some (GraphBlank b) \<Rightarrow> [c_space] @ lit ''_:'' @ bn_label b)"

definition nq_quad :: "quad \<Rightarrow> rstr" where
  "nq_quad q = (let t = q_triple q in
     nt_subject (t_subject t) @ [c_space] @ [c_lt] @ iri_value (t_predicate t) @ [c_gt] @ [c_space] @
     nt_object (t_object t) @ nq_graph (q_graph q) @ lit '' .'' @ [c_nl])"

definition nq_quads :: "quad list \<Rightarrow> rstr" where
  "nq_quads qs = concat (map nq_quad qs)"

subsection \<open>Turtle (turtle.rs)\<close>

type_synonym prefix_table = "(rstr, rstr) fmap"
type_synonym prefix_order = "prefix_table \<Rightarrow> (rstr \<times> rstr) list"

record turtle_ser =
  se_prefixes :: prefix_table
  se_header_written :: bool
  se_current_subject :: "rstr option"
  se_in_subject_block :: bool

definition se_new :: turtle_ser where
  "se_new = \<lparr>se_prefixes = fmempty, se_header_written = False, se_current_subject = None, se_in_subject_block = False\<rparr>"

definition se_add_prefix :: "rstr \<Rightarrow> rstr \<Rightarrow> turtle_ser \<Rightarrow> turtle_ser" where
  "se_add_prefix p i st = st\<lparr>se_prefixes := fmupd p i (se_prefixes st)\<rparr>"

definition se_add_prefixes :: "(rstr \<times> rstr) list \<Rightarrow> turtle_ser \<Rightarrow> turtle_ser" where
  "se_add_prefixes ps st = fold (\<lambda>(p, i). se_add_prefix p i) ps st"

definition common_prefixes :: "(rstr \<times> rstr) list" where
  "common_prefixes = [(lit ''rdf'', lit ''http://www.w3.org/1999/02/22-rdf-syntax-ns#''),
     (lit ''rdfs'', lit ''http://www.w3.org/2000/01/rdf-schema#''),
     (lit ''xsd'', lit ''http://www.w3.org/2001/XMLSchema#''),
     (lit ''owl'', lit ''http://www.w3.org/2002/07/owl#'')]"

definition se_with_common_prefixes :: turtle_ser where
  "se_with_common_prefixes = se_add_prefixes common_prefixes se_new"

definition turtle_local_name :: "'f rust_std \<Rightarrow> rstr \<Rightarrow> bool" where
  "turtle_local_name S s \<longleftrightarrow> (case s of [] \<Rightarrow> True
     | c # cs \<Rightarrow> (u_alphanumeric S c \<or> c = c_underscore) \<and>
         list_all (\<lambda>d. u_alphanumeric S d \<or> d = c_underscore \<or> d = c_minus \<or> d = c_dot) cs)"

text \<open>The first prefix, in the order of the map, whose namespace starts the IRI and leaves a local name.\<close>

fun compact_with :: "'f rust_std \<Rightarrow> (rstr \<times> rstr) list \<Rightarrow> rstr \<Rightarrow> rstr" where
  "compact_with S [] i = [c_lt] @ i @ [c_gt]"
| "compact_with S ((p, ns) # ps) i =
     (if prefix ns i \<and> turtle_local_name S (drop (length ns) i) then p @ [c_colon] @ drop (length ns) i
      else compact_with S ps i)"

definition se_compact :: "'f rust_std \<Rightarrow> prefix_order \<Rightarrow> prefix_table \<Rightarrow> rstr \<Rightarrow> rstr" where
  "se_compact S iter ps i = compact_with S (iter ps) i"

fun se_subject :: "'f rust_std \<Rightarrow> prefix_order \<Rightarrow> prefix_table \<Rightarrow> subject \<Rightarrow> rstr" where
  "se_subject S iter ps (SubjIri i) = se_compact S iter ps (iri_value i)"
| "se_subject S iter ps (SubjBlank b) = lit ''_:'' @ bn_label b"

definition se_predicate :: "'f rust_std \<Rightarrow> prefix_order \<Rightarrow> prefix_table \<Rightarrow> iri \<Rightarrow> rstr" where
  "se_predicate S iter ps p =
     (if iri_value p = lit ''http://www.w3.org/1999/02/22-rdf-syntax-ns#type'' then lit ''a''
      else se_compact S iter ps (iri_value p))"

text \<open>The literals that are written bare.\<close>

definition short_form :: "literal \<Rightarrow> bool" where
  "short_form l = (case lit_datatype l of None \<Rightarrow> False
     | Some d \<Rightarrow> (let dt = iri_value d; v = lit_value l in
         (dt = xsd_namespace @ lit ''integer'' \<and> parse_i64 v \<noteq> None) \<or>
         ((dt = xsd_namespace @ lit ''decimal'' \<or> dt = xsd_namespace @ lit ''double'') \<and> parses_f64 v \<and> c_dot \<in> set v) \<or>
         (dt = xsd_namespace @ lit ''boolean'' \<and> (v = lit ''true'' \<or> v = lit ''false''))))"

definition se_literal :: "'f rust_std \<Rightarrow> prefix_order \<Rightarrow> prefix_table \<Rightarrow> literal \<Rightarrow> rstr" where
  "se_literal S iter ps l =
     (let v = lit_value l; q = (if c_nl \<in> set v \<or> c_cr \<in> set v then [c_dquote, c_dquote, c_dquote] else [c_dquote])
      in if short_form l then v
         else q @ escape_string v @ q @
           (case lit_language l of Some lang \<Rightarrow> [c_at] @ lang
            | None \<Rightarrow> (case lit_datatype l of
                  Some dt \<Rightarrow> if iri_value dt \<noteq> xsd_string_iri then lit ''^^'' @ se_compact S iter ps (iri_value dt) else []
                | None \<Rightarrow> [])))"

fun se_object :: "'f rust_std \<Rightarrow> prefix_order \<Rightarrow> prefix_table \<Rightarrow> object \<Rightarrow> rstr" where
  "se_object S iter ps (ObjIri i) = se_compact S iter ps (iri_value i)"
| "se_object S iter ps (ObjBlank b) = lit ''_:'' @ bn_label b"
| "se_object S iter ps (ObjLiteral l) = se_literal S iter ps l"

fun subject_string :: "subject \<Rightarrow> rstr" where
  "subject_string (SubjIri i) = iri_value i"
| "subject_string (SubjBlank b) = lit ''_:'' @ bn_label b"

definition se_triple :: "'f rust_std \<Rightarrow> prefix_order \<Rightarrow> triple \<Rightarrow> turtle_ser \<Rightarrow> rstr \<times> turtle_ser" where
  "se_triple S iter t st =
     (let s = subject_string (t_subject t); ps = se_prefixes st;
          (start, st') =
            (if se_current_subject st = Some s \<and> se_in_subject_block st then (lit '' ;'' @ [c_nl] @ lit ''    '', st)
             else ((if se_in_subject_block st then lit '' .'' @ [c_nl] else []) @ se_subject S iter ps (t_subject t) @ [c_space],
                   st\<lparr>se_current_subject := Some s, se_in_subject_block := True\<rparr>))
      in (start @ se_predicate S iter ps (t_predicate t) @ [c_space] @ se_object S iter ps (t_object t), st'))"

definition se_finish :: "turtle_ser \<Rightarrow> rstr \<times> turtle_ser" where
  "se_finish st =
     (if se_in_subject_block st then (lit '' .'' @ [c_nl], st\<lparr>se_in_subject_block := False, se_current_subject := None\<rparr>)
      else ([], st))"

definition prefix_lines :: "prefix_table \<Rightarrow> rstr" where
  "prefix_lines ps = concat (map (\<lambda>(p, i). lit ''@prefix '' @ p @ lit '': <'' @ i @ lit ''> .'' @ [c_nl]) (key_order ps)) @
     (if fmdom ps \<noteq> {||} then [c_nl] else [])"

definition se_header :: "turtle_ser \<Rightarrow> rstr \<times> turtle_ser" where
  "se_header st = (if se_header_written st then ([], st)
     else (prefix_lines (se_prefixes st), st\<lparr>se_header_written := True\<rparr>))"

fun se_triples :: "'f rust_std \<Rightarrow> prefix_order \<Rightarrow> triple list \<Rightarrow> turtle_ser \<Rightarrow> rstr \<times> turtle_ser" where
  "se_triples S iter [] st = ([], st)"
| "se_triples S iter (t # ts) st =
     (let (x, st1) = se_triple S iter t st; (y, st2) = se_triples S iter ts st1 in (x @ y, st2))"

text \<open>\<open>serialize_graph\<close>: header, triples, end.\<close>

definition se_graph :: "'f rust_std \<Rightarrow> prefix_order \<Rightarrow> triple list \<Rightarrow> turtle_ser \<Rightarrow> rstr \<times> turtle_ser" where
  "se_graph S iter ts st =
     (let (x, st1) = se_header st; (y, st2) = se_triples S iter ts st1; (z, st3) = se_finish st2 in (x @ y @ z, st3))"

subsection \<open>TriG (trig.rs)\<close>

record trig_ser =
  tg_prefixes :: prefix_table
  tg_header_written :: bool
  tg_current_graph :: "rstr option"
  tg_turtle :: turtle_ser

definition tg_new :: trig_ser where
  "tg_new = \<lparr>tg_prefixes = fmempty, tg_header_written = False, tg_current_graph = None, tg_turtle = se_new\<rparr>"

definition tg_add_prefix :: "rstr \<Rightarrow> rstr \<Rightarrow> trig_ser \<Rightarrow> trig_ser" where
  "tg_add_prefix p i st = st\<lparr>tg_prefixes := fmupd p i (tg_prefixes st), tg_turtle := se_add_prefix p i (tg_turtle st)\<rparr>"

definition tg_with_common_prefixes :: trig_ser where
  "tg_with_common_prefixes = fold (\<lambda>(p, i). tg_add_prefix p i) common_prefixes tg_new"

definition tg_header :: "trig_ser \<Rightarrow> rstr \<times> trig_ser" where
  "tg_header st = (if tg_header_written st then ([], st)
     else (prefix_lines (tg_prefixes st), st\<lparr>tg_header_written := True\<rparr>))"

definition graph_string :: "graph_name option \<Rightarrow> rstr option" where
  "graph_string g = (case g of None \<Rightarrow> None | Some (GraphIri i) \<Rightarrow> Some (iri_value i)
     | Some (GraphBlank b) \<Rightarrow> Some (lit ''_:'' @ bn_label b))"

fun graph_open :: "'f rust_std \<Rightarrow> prefix_order \<Rightarrow> prefix_table \<Rightarrow> graph_name \<Rightarrow> rstr" where
  "graph_open S iter ps (GraphIri i) = lit ''GRAPH '' @ se_compact S iter ps (iri_value i) @ lit '' {'' @ [c_nl]"
| "graph_open S iter ps (GraphBlank b) = lit ''GRAPH _:'' @ bn_label b @ lit '' {'' @ [c_nl]"

definition close_graph :: "trig_ser \<Rightarrow> rstr \<times> trig_ser" where
  "close_graph st =
     (if tg_current_graph st \<noteq> None then
        (let (x, tu) = se_finish (tg_turtle st)
         in (x @ lit ''}'' @ [c_nl] @ [c_nl], st\<lparr>tg_turtle := tu, tg_current_graph := None\<rparr>))
      else ([], st))"

definition tg_quad :: "'f rust_std \<Rightarrow> prefix_order \<Rightarrow> quad \<Rightarrow> trig_ser \<Rightarrow> rstr \<times> trig_ser" where
  "tg_quad S iter q st =
     (let g = graph_string (q_graph q);
          (x, st1) =
            (if g \<noteq> tg_current_graph st then
               (let (c, st') = close_graph st
                in (c @ (case q_graph q of Some gn \<Rightarrow> graph_open S iter (tg_prefixes st') gn | None \<Rightarrow> []),
                    st'\<lparr>tg_current_graph := g, tg_turtle := se_add_prefixes (iter (tg_prefixes st')) se_new\<rparr>))
             else ([], st));
          (y, tu) = se_triple S iter (q_triple q) (tg_turtle st1)
      in (x @ (if tg_current_graph st1 \<noteq> None then lit ''  '' else []) @ y, st1\<lparr>tg_turtle := tu\<rparr>))"

definition tg_finish :: "trig_ser \<Rightarrow> rstr \<times> trig_ser" where
  "tg_finish st = (let (x, st1) = close_graph st; (y, tu) = se_finish (tg_turtle st1) in (x @ y, st1\<lparr>tg_turtle := tu\<rparr>))"

fun tg_quads :: "'f rust_std \<Rightarrow> prefix_order \<Rightarrow> quad list \<Rightarrow> trig_ser \<Rightarrow> rstr \<times> trig_ser" where
  "tg_quads S iter [] st = ([], st)"
| "tg_quads S iter (q # qs) st =
     (let (x, st1) = tg_quad S iter q st; (y, st2) = tg_quads S iter qs st1 in (x @ y, st2))"

end
