(* ===== verification/RoundTrip.thy ===== *)
theory RoundTrip
  imports Serializer TurtleSafety
begin

section \<open>N-Triples output read back by the Turtle parser\<close>

text \<open>
  N-Triples is a part of Turtle. The lexer lemmas say which tokens the pieces of a serialized
  triple give, whatever follows them; the parser lemmas say what these tokens are parsed to.
  Together they give the round trip: blank nodes come back renamed by the parser's scope, and
  the datatype \<open>xsd:string\<close>, which is not written, comes back as a plain literal.
\<close>

subsection \<open>Texts that survive\<close>

definition plain_iri :: "iri \<Rightarrow> bool" where
  "plain_iri i \<longleftrightarrow> valid_iri i \<and> list_all (\<lambda>c. \<not> is_whitespace c \<and> c \<noteq> c_bslash) (iri_value i)"

text \<open>Control characters other than the three with an escape letter are written as \<open>\uXXXX\<close>,
  which the lexer does not decode.\<close>

definition plain_text :: "rstr \<Rightarrow> bool" where
  "plain_text v \<longleftrightarrow> list_all (\<lambda>c. is_control c \<longrightarrow> c \<in> {c_nl, c_cr, c_tab}) v"

fun plain_label :: "'f rust_std \<Rightarrow> rstr \<Rightarrow> bool" where
  "plain_label S [] = False"
| "plain_label S (c # cs) \<longleftrightarrow> (is_pn_chars_u S c \<or> is_ascii_digit c) \<and> c \<noteq> c_dot \<and>
     list_all (\<lambda>d. is_pn_chars S d \<and> d \<noteq> c_dot) cs"

definition plain_lang :: "'f rust_std \<Rightarrow> rstr \<Rightarrow> bool" where
  "plain_lang S g \<longleftrightarrow> validate_language_tag g = Inr () \<and>
     to_lowercase S g \<noteq> lit ''prefix'' \<and> to_lowercase S g \<noteq> lit ''base''"

definition plain_literal :: "'f rust_std \<Rightarrow> literal \<Rightarrow> bool" where
  "plain_literal S l \<longleftrightarrow> plain_text (lit_value l) \<and>
     (case lit_language l of Some g \<Rightarrow> plain_lang S g
      | None \<Rightarrow> (case lit_datatype l of Some d \<Rightarrow> plain_iri d | None \<Rightarrow> True))"

fun plain_subject :: "'f rust_std \<Rightarrow> subject \<Rightarrow> bool" where
  "plain_subject S (SubjIri i) = plain_iri i"
| "plain_subject S (SubjBlank b) = plain_label S (bn_label b)"

fun plain_object :: "'f rust_std \<Rightarrow> object \<Rightarrow> bool" where
  "plain_object S (ObjIri i) = plain_iri i"
| "plain_object S (ObjBlank b) = plain_label S (bn_label b)"
| "plain_object S (ObjLiteral l) = plain_literal S l"

definition plain_triple :: "'f rust_std \<Rightarrow> triple \<Rightarrow> bool" where
  "plain_triple S t \<longleftrightarrow> plain_subject S (t_subject t) \<and> plain_iri (t_predicate t) \<and> plain_object S (t_object t)"

text \<open>What comes back.\<close>

fun subject_back :: "bn_scope \<Rightarrow> subject \<Rightarrow> subject" where
  "subject_back sc (SubjIri i) = SubjIri i"
| "subject_back sc (SubjBlank b) = SubjBlank (scope_map sc (bn_label b))"

definition literal_back :: "literal \<Rightarrow> literal" where
  "literal_back l = (case lit_language l of
      Some g \<Rightarrow> \<lparr>lit_value = lit_value l, lit_datatype = None, lit_language = Some g\<rparr>
    | None \<Rightarrow> (case lit_datatype l of
        Some d \<Rightarrow> if iri_value d = xsd_string_iri then literal_new (lit_value l) else literal_with_datatype (lit_value l) d
      | None \<Rightarrow> literal_new (lit_value l)))"

fun object_back :: "bn_scope \<Rightarrow> object \<Rightarrow> object" where
  "object_back sc (ObjIri i) = ObjIri i"
| "object_back sc (ObjBlank b) = ObjBlank (scope_map sc (bn_label b))"
| "object_back sc (ObjLiteral l) = ObjLiteral (literal_back l)"

definition triple_back :: "bn_scope \<Rightarrow> triple \<Rightarrow> triple" where
  "triple_back sc t = triple_new (subject_back sc (t_subject t)) (t_predicate t) (object_back sc (t_object t))"

subsection \<open>Lexing what the serializer writes\<close>

text \<open>A scanning function that returns this value and stops before this rest of the input.\<close>

definition yields :: "'a lex_result \<Rightarrow> 'a \<Rightarrow> rstr \<Rightarrow> bool" where
  "yields r x rest \<longleftrightarrow> (case r of Inl e \<Rightarrow> False | Inr (y, lx) \<Rightarrow> y = x \<and> snd lx = rest)"

definition stops :: "'a \<times> lexer \<Rightarrow> 'a \<Rightarrow> rstr \<Rightarrow> bool" where
  "stops r x rest \<longleftrightarrow> fst r = x \<and> snd (snd r) = rest"

lemma yields_simps [simp]:
  "yields (Inr (y, lx)) x rest \<longleftrightarrow> y = x \<and> snd lx = rest" "\<not> yields (Inl e) x rest"
  by (simp_all add: yields_def)

lemma yieldsE:
  assumes "yields r x rest" obtains p where "r = Inr (x, (p, rest))"
  using assms by (auto simp: yields_def split: sum.splits)

lemma stopsE:
  assumes "stops r x rest" obtains p where "r = (x, (p, rest))"
  using assms by (cases r) (auto simp: stops_def)

definition lexes :: "'f rust_std \<Rightarrow> rstr \<Rightarrow> 'f token_kind list \<Rightarrow> bool" where
  "lexes S w ks \<longleftrightarrow> (\<forall>p. \<exists>ts. tokenize S (p, w) = Some (Inr ts) \<and> map tk_kind ts = ks)"

definition reads :: "'f rust_std \<Rightarrow> rstr \<Rightarrow> 'f token_kind \<Rightarrow> rstr \<Rightarrow> bool" where
  "reads S w k rest \<longleftrightarrow> (case w of [] \<Rightarrow> False
     | c # cs \<Rightarrow> \<not> is_whitespace c \<and> c \<noteq> c_hash \<and> (\<forall>p. yields (read_kind S c (p, w)) k rest))"

declare split_paired_All [simp del] split_paired_Ex [simp del]

lemma lexes_end: "lexes S [] [Eof]"
  by (simp add: lexes_def tokenize.simps next_token_def)

lemma lexes_blank:
  assumes c: "is_whitespace c" and w: "lexes S w ks"
  shows "lexes S (c # w) ks"
  unfolding lexes_def
proof
  fix p
  have "next_token S (p, c # w) = next_token S (adv_pos c p, w)"
    using c by (simp add: next_token_def)
  then have "tokenize S (p, c # w) = tokenize S (adv_pos c p, w)"
    by (simp only: tokenize.simps [of S "(p, c # w)"] tokenize.simps [of S "(adv_pos c p, w)"])
  then show "\<exists>ts. tokenize S (p, c # w) = Some (Inr ts) \<and> map tk_kind ts = ks"
    using w unfolding lexes_def by presburger
qed

lemma lexes_token:
  assumes r: "reads S w k rest" and k: "k \<noteq> Eof" and l: "lexes S rest ks"
  shows "lexes S w (k # ks)"
  unfolding lexes_def
proof
  fix p
  obtain c cs where w: "w = c # cs" using r by (cases w) (auto simp: reads_def)
  with r have c: "\<not> is_whitespace c" "c \<noteq> c_hash" "yields (read_kind S c (p, c # cs)) k rest"
    by (simp_all add: reads_def)
  from c(3) obtain p' where p': "read_kind S c (p, c # cs) = Inr (k, (p', rest))" by (rule yieldsE)
  from l obtain ts where ts: "tokenize S (p', rest) = Some (Inr ts)" "map tk_kind ts = ks"
    unfolding lexes_def by blast
  have "next_token S (p, w) = Inr (\<lparr>tk_kind = k, tk_line = fst p, tk_column = snd p\<rparr>, (p', rest))"
    using c p' w by (simp add: next_token_def)
  then show "\<exists>ts. tokenize S (p, w) = Some (Inr ts) \<and> map tk_kind ts = k # ks"
    using k ts by (subst tokenize.simps) simp
qed

lemma reads_intro:
  "\<not> is_whitespace c \<Longrightarrow> c \<noteq> c_hash \<Longrightarrow> (\<And>p. yields (read_kind S c (p, c # w)) k rest) \<Longrightarrow> reads S (c # w) k rest"
  by (simp add: reads_def)

lemma iri_loop_yields:
  "list_all (\<lambda>c. c \<noteq> c_gt \<and> c \<noteq> c_lt \<and> c \<noteq> c_bslash \<and> \<not> is_whitespace c) v \<Longrightarrow>
    x = acc @ v \<Longrightarrow> yields (iri_loop (p, v @ c_gt # rest) acc) x rest"
  by (induction v arbitrary: p acc) simp_all

lemma plain_iri_chars:
  assumes "plain_iri i"
  shows "list_all (\<lambda>c. c \<noteq> c_gt \<and> c \<noteq> c_lt \<and> c \<noteq> c_bslash \<and> \<not> is_whitespace c) (iri_value i)"
proof -
  have "validate_chars (iri_value i) = Inr ()"
    using assms by (auto simp: plain_iri_def valid_iri_def iri_new_def validate_def split: sum.splits if_splits)
  then show ?thesis using assms by (simp add: validate_chars_ok plain_iri_def list_all_iff)
qed

lemma reads_iri:
  assumes "plain_iri i"
  shows "reads S (c_lt # iri_value i @ c_gt # rest) (IriRef (iri_value i)) rest"
proof (rule reads_intro)
  fix p
  show "yields (read_kind S c_lt (p, c_lt # iri_value i @ c_gt # rest)) (IriRef (iri_value i)) rest"
    using iri_loop_yields [OF plain_iri_chars [OF assms] refl, of "adv_pos c_lt p" rest "[]"]
    by (elim yieldsE) (simp add: read_kind_def read_iri_ref_def)
qed (simp_all add: is_whitespace_def)

lemma string_loop_yields:
  "plain_text v \<Longrightarrow> yields (string_loop c_dquote False (p, escape_string v @ c_dquote # rest) acc) (acc @ v) rest"
proof (induction v arbitrary: p acc)
  case (Cons c v)
  then have v: "plain_text v" and c: "is_control c \<longrightarrow> c \<in> {c_nl, c_cr, c_tab}" by (simp_all add: plain_text_def)
  have IH: "yields (string_loop c_dquote False (q, escape_string v @ c_dquote # rest) (acc @ [c])) (acc @ c # v) rest" for q
    using Cons.IH [OF v, of q "acc @ [c]"] by simp
  have e: "escape_string (a # v) = escape_string_char a @ escape_string v" for a
    by (simp add: escape_string_def del: escape_string_char.simps)
  consider "c = c_bslash" | "c = c_dquote" | "c = c_nl" | "c = c_cr" | "c = c_tab"
    | "c \<notin> {c_bslash, c_dquote, c_nl, c_cr, c_tab} \<and> \<not> is_control c" using c by auto
  then show ?case by cases (use IH in \<open>simp_all add: e unescape_def\<close>)
qed (simp add: escape_string_def)

lemma escape_string_start: "v \<noteq> [] \<Longrightarrow> \<exists>c cs. escape_string v = c # cs \<and> c \<noteq> c_dquote"
  by (cases v) (auto simp: escape_string_def)

lemma reads_string:
  assumes v: "plain_text v" and rest: "rest = [] \<or> hd rest \<noteq> c_dquote"
  shows "reads S (c_dquote # escape_string v @ c_dquote # rest) (StringLiteral v) rest"
proof (rule reads_intro)
  fix p :: lex_pos
  let ?lx = "(p, c_dquote # escape_string v @ c_dquote # rest)"
  have "yields (read_string_literal c_dquote ?lx) (StringLiteral v) rest"
  proof (cases "v = []")
    case True
    have "peek (q, rest) \<noteq> Some c_dquote" for q using rest by (cases rest) simp_all
    with True show ?thesis by (simp add: read_string_literal_def Let_def escape_string_def)
  next
    case False
    from escape_string_start [OF this] obtain c cs where c: "escape_string v = c # cs" "c \<noteq> c_dquote" by blast
    from string_loop_yields [OF v, of "adv_pos c_dquote p" rest "[]"]
    show ?thesis
      by (elim yieldsE) (use c in \<open>simp add: read_string_literal_def Let_def del: string_loop.simps\<close>)
  qed
  then show "yields (read_kind S c_dquote ?lx) (StringLiteral v) rest" by (simp add: read_kind_def)
qed (simp_all add: is_whitespace_def)

lemma word_loop_stops:
  "list_all ok v \<Longrightarrow> rest = [] \<or> \<not> ok (hd rest) \<Longrightarrow> x = acc @ v \<Longrightarrow> stops (word_loop ok (p, v @ rest) acc) x rest"
proof (induction v arbitrary: p acc)
  case Nil
  then show ?case by (cases rest) (simp_all add: stops_def)
qed simp

lemma dotted_loop_stops:
  "list_all (\<lambda>c. ok c \<and> c \<noteq> c_dot) v \<Longrightarrow> rest = [] \<or> hd rest \<noteq> c_dot \<and> \<not> ok (hd rest) \<Longrightarrow>
    x = acc @ v \<Longrightarrow> stops (dotted_loop ok cont (p, v @ rest) acc) x rest"
proof (induction v arbitrary: p acc)
  case Nil
  then show ?case by (cases rest) (simp_all add: stops_def)
qed simp

lemma space_class:
  assumes "std_ok S"
  shows "\<not> u_alphanumeric S c_space" "\<not> is_pn_chars S c_space"
proof -
  have "is_whitespace c_space" by (simp add: is_whitespace_def)
  then show n: "\<not> u_alphanumeric S c_space" using assms unfolding std_ok_def by blast
  then have "\<not> u_alphabetic S c_space" using assms unfolding std_ok_def by blast
  then show "\<not> is_pn_chars S c_space"
    by (simp add: is_pn_chars_def is_pn_chars_u_def is_pn_chars_base_def is_ascii_digit_def)
qed

text \<open>A character that ends a name, a label and a language tag.\<close>

definition name_end :: "'f rust_std \<Rightarrow> rchar \<Rightarrow> bool" where
  "name_end S d \<longleftrightarrow> \<not> u_alphanumeric S d \<and> \<not> is_pn_chars S d \<and> \<not> is_ascii_digit d \<and>
     d \<notin> {c_underscore, c_minus, c_colon, c_percent, c_bslash, c_dot}"

lemma name_end_space: "std_ok S \<Longrightarrow> name_end S c_space"
  by (simp add: name_end_def space_class is_ascii_digit_def)

lemma reads_label:
  assumes S: "std_ok S" and d: "name_end S d" and l: "plain_label S l"
  shows "reads S (c_underscore # c_colon # l @ d # rest) (BlankNodeLabel l) (d # rest)"
proof (rule reads_intro)
  fix p :: lex_pos
  let ?lx = "(p, c_underscore # c_colon # l @ d # rest)"
  obtain c cs where c: "l = c # cs" using l by (cases l) simp_all
  have "stops (dotted_loop (is_pn_chars S) (is_pn_chars S)
      (adv_pos c (adv_pos c_colon (adv_pos c_underscore p)), cs @ d # rest) [c]) ([c] @ cs) (d # rest)"
    by (rule dotted_loop_stops) (use l c d in \<open>simp_all add: name_end_def\<close>)
  then have "yields (read_blank_node_label S ?lx) (BlankNodeLabel l) (d # rest)"
    by (elim stopsE) (use l c in \<open>simp add: read_blank_node_label_def Let_def del: dotted_loop.simps\<close>)
  then show "yields (read_kind S c_underscore ?lx) (BlankNodeLabel l) (d # rest)" by (simp add: read_kind_def)
qed (simp_all add: is_whitespace_def)

lemma lang_tag_chars: "validate_language_tag g = Inr () \<Longrightarrow> list_all (\<lambda>c. is_ascii_alphanumeric c \<or> c = c_minus) g"
  using lang_chars_ok [of g] by (auto simp: validate_language_tag_def split: if_splits list.splits)

lemma ascii_alphanumeric_std:
  assumes S: "std_ok S" and c: "is_ascii_alphanumeric c"
  shows "u_alphanumeric S c"
proof -
  have "c < 128" using c by (auto simp: char_class_defs)
  then show ?thesis using S c by (simp add: std_ok_def)
qed

lemma reads_lang:
  assumes S: "std_ok S" and d: "name_end S d" and g: "plain_lang S g"
  shows "reads S (c_at # g @ d # rest) (LangTag g) (d # rest)"
proof (rule reads_intro)
  fix p :: lex_pos
  let ?lx = "(p, c_at # g @ d # rest)"
  have "list_all (\<lambda>c. u_alphanumeric S c \<or> c = c_underscore \<or> c = c_minus) g"
    using lang_tag_chars [of g] g ascii_alphanumeric_std [OF S] by (auto simp: plain_lang_def list_all_iff)
  from word_loop_stops [OF this, of "d # rest" g "[]" "adv_pos c_at p"]
  have "stops (read_word S (advance ?lx)) g (d # rest)"
    using d by (simp add: read_word_def name_end_def)
  then have "yields (read_at_keyword S ?lx) (LangTag g) (d # rest)"
    by (elim stopsE) (use g in \<open>simp add: read_at_keyword_def plain_lang_def\<close>)
  then show "yields (read_kind S c_at ?lx) (LangTag g) (d # rest)" by (simp add: read_kind_def)
qed (simp_all add: is_whitespace_def)

lemma reads_caret: "reads S (c_caret # c_caret # rest) DoubleCaret rest"
  by (rule reads_intro) (simp_all add: read_kind_def read_double_caret_def is_whitespace_def)

lemma reads_dot: "reads S (c_dot # rest) Dot rest"
  by (rule reads_intro) (simp_all add: read_kind_def is_whitespace_def)

subsection \<open>The tokens of a document\<close>

fun subject_kinds :: "subject \<Rightarrow> 'f token_kind list" where
  "subject_kinds (SubjIri i) = [IriRef (iri_value i)]"
| "subject_kinds (SubjBlank b) = [BlankNodeLabel (bn_label b)]"

definition literal_kinds :: "literal \<Rightarrow> 'f token_kind list" where
  "literal_kinds l = StringLiteral (lit_value l) #
     (case lit_language l of Some g \<Rightarrow> [LangTag g]
      | None \<Rightarrow> (case lit_datatype l of
          Some d \<Rightarrow> if iri_value d = xsd_string_iri then [] else [DoubleCaret, IriRef (iri_value d)]
        | None \<Rightarrow> []))"

fun object_kinds :: "object \<Rightarrow> 'f token_kind list" where
  "object_kinds (ObjIri i) = [IriRef (iri_value i)]"
| "object_kinds (ObjBlank b) = [BlankNodeLabel (bn_label b)]"
| "object_kinds (ObjLiteral l) = literal_kinds l"

definition triple_kinds :: "triple \<Rightarrow> 'f token_kind list" where
  "triple_kinds t = subject_kinds (t_subject t) @ IriRef (iri_value (t_predicate t)) # object_kinds (t_object t) @ [Dot]"

lemma lexes_space: "lexes S w ks \<Longrightarrow> lexes S (c_space # w) ks" "lexes S w ks \<Longrightarrow> lexes S (c_nl # w) ks"
  by (simp_all add: lexes_blank is_whitespace_def)

lemma lexes_iri: "plain_iri i \<Longrightarrow> lexes S rest ks \<Longrightarrow> lexes S (c_lt # iri_value i @ c_gt # rest) (IriRef (iri_value i) # ks)"
  by (rule lexes_token [OF reads_iri]) simp_all

lemma lexes_label:
  "std_ok S \<Longrightarrow> plain_label S l \<Longrightarrow> lexes S rest ks \<Longrightarrow>
    lexes S (c_underscore # c_colon # l @ c_space # rest) (BlankNodeLabel l # ks)"
  by (rule lexes_token [OF reads_label]) (simp_all add: lexes_space name_end_space)

lemma lexes_subject:
  "std_ok S \<Longrightarrow> plain_subject S s \<Longrightarrow> lexes S rest ks \<Longrightarrow> lexes S (nt_subject s @ c_space # rest) (subject_kinds s @ ks)"
  by (cases s) (simp_all add: str_simps lexes_iri lexes_space lexes_label)

lemma lexes_literal:
  assumes S: "std_ok S" and l: "plain_literal S l" and r: "lexes S rest ks"
  shows "lexes S (nt_literal l @ c_space # rest) (literal_kinds l @ ks)"
proof -
  have v: "plain_text (lit_value l)" using l by (simp add: plain_literal_def)
  note str = lexes_token [OF reads_string [OF v], simplified]
  show ?thesis
  proof (cases "lit_language l")
    case (Some g)
    then have "plain_lang S g" using l by (simp add: plain_literal_def)
    from lexes_token [OF reads_lang [OF S name_end_space [OF S] this], OF _ lexes_space(1) [OF r]] show ?thesis
      by (simp add: nt_literal_def literal_kinds_def Some str)
  next
    case None
    show ?thesis
    proof (cases "\<exists>d. lit_datatype l = Some d \<and> iri_value d \<noteq> xsd_string_iri")
      case True
      then obtain d where d: "lit_datatype l = Some d" "iri_value d \<noteq> xsd_string_iri" by blast
      then have "plain_iri d" using l None by (simp add: plain_literal_def)
      from lexes_token [OF reads_caret _ lexes_iri [OF this lexes_space(1) [OF r]]] show ?thesis
        by (simp add: nt_literal_def literal_kinds_def None d str str_simps)
    next
      case False
      then show ?thesis using lexes_space(1) [OF r]
        by (auto simp: nt_literal_def literal_kinds_def None intro!: str split: option.splits)
    qed
  qed
qed

text \<open>A statement with anything after its dot.\<close>

lemma lexes_line:
  assumes S: "std_ok S" and t: "plain_triple S t" and l: "nt_triple t = l @ [c_nl]" and r: "lexes S rest ks"
  shows "lexes S (l @ rest) (triple_kinds t @ ks)"
proof -
  have dot: "lexes S (c_dot # rest) (Dot # ks)"
    by (rule lexes_token [OF reads_dot]) (simp_all add: r)
  have ob: "lexes S (nt_object (t_object t) @ c_space # c_dot # rest) (object_kinds (t_object t) @ Dot # ks)"
    using t dot by (cases "t_object t")
      (simp_all add: plain_triple_def str_simps lexes_iri lexes_space lexes_label S lexes_literal)
  have "l = nt_subject (t_subject t) @ [c_space] @ [c_lt] @ iri_value (t_predicate t) @ [c_gt] @ [c_space] @
     nt_object (t_object t) @ lit '' .''" using l by (simp add: nt_triple_def)
  then show ?thesis using t
    by (simp add: triple_kinds_def plain_triple_def str_simps lexes_subject lexes_iri lexes_space S ob)
qed

lemma lexes_triple:
  "std_ok S \<Longrightarrow> plain_triple S t \<Longrightarrow> lexes S rest ks \<Longrightarrow> lexes S (nt_triple t @ rest) (triple_kinds t @ ks)"
  using lexes_line [of S t "butlast (nt_triple t)" "c_nl # rest" ks] by (simp add: nt_triple_def lexes_space butlast_append)

lemma lexes_triples:
  "std_ok S \<Longrightarrow> list_all (plain_triple S) ts \<Longrightarrow> lexes S (nt_triples ts) (concat (map triple_kinds ts) @ [Eof])"
  by (induction ts) (simp_all add: nt_triples_def lexes_end lexes_triple)

subsection \<open>Parsing these tokens\<close>

definition upcoming :: "'f tokens \<Rightarrow> nat \<Rightarrow> 'f token_kind list \<Rightarrow> bool" where
  "upcoming ts pos ks \<longleftrightarrow> map tk_kind (drop pos ts) = ks"

lemma upcoming_Cons: "upcoming ts pos (k # ks) \<longleftrightarrow> pos < length ts \<and> tk_kind (ts ! pos) = k \<and> upcoming ts (Suc pos) ks"
  by (cases "pos < length ts") (auto simp: upcoming_def Cons_nth_drop_Suc [symmetric])

text \<open>The parser's blank node map holds only what the scope maps.\<close>

definition plain_state :: "turtle_parser \<Rightarrow> bool" where
  "plain_state st \<longleftrightarrow> tp_base_iri st = None \<and>
     (\<forall>l b. fmlookup (tp_blank_node_map st) l = Some b \<longrightarrow> b = scope_map (tp_scope st) l)"

definition only_blanks :: "turtle_parser \<Rightarrow> turtle_parser \<Rightarrow> bool" where
  "only_blanks st st' \<longleftrightarrow> plain_state st' \<and> tp_scope st' = tp_scope st \<and> tp_triples st' = tp_triples st \<and>
     tp_namespaces st' = tp_namespaces st"

lemma get_blank_maps:
  "plain_state st \<Longrightarrow> \<exists>st'. get_or_create_blank_node st l = (scope_map (tp_scope st) l, st') \<and> only_blanks st st'"
  by (auto simp: get_or_create_blank_node_def plain_state_def only_blanks_def Let_def split: option.splits)

lemma resolve_plain: "plain_state st \<Longrightarrow> valid_iri i \<Longrightarrow> resolve_iri st (iri_value i) = Inr i"
  by (simp add: resolve_iri_def plain_state_def valid_iri_def lift_err_def)

lemma subject_parses:
  assumes st: "plain_state st" and s: "plain_subject S s" and u: "upcoming ts pos (subject_kinds s @ ks)"
  shows "\<exists>st'. parse_subject S n ts pos st 0 = Inr (subject_back (tp_scope st) s, Suc pos, st') \<and> only_blanks st st' \<and>
    upcoming ts (Suc pos) ks"
proof (cases s)
  case (SubjIri i)
  then show ?thesis using assms
    by (simp add: parse_subject_def tok_def upcoming_Cons resolve_plain plain_iri_def only_blanks_def)
next
  case (SubjBlank b)
  with get_blank_maps [OF st, of "bn_label b"] u show ?thesis
    by (auto simp: parse_subject_def tok_def upcoming_Cons)
qed

lemma literal_parses:
  assumes st: "plain_state st" and l: "plain_literal S l" and u: "upcoming ts pos (literal_kinds l @ Dot # ks)"
  shows "\<exists>pos'. parse_literal ts pos st (lit_value l) = Inr (ObjLiteral (literal_back l), pos', st) \<and>
    upcoming ts pos' (Dot # ks)"
proof (cases "lit_language l")
  case (Some g)
  then have "literal_with_language (lit_value l) g = Inr (literal_back l)"
    using l by (simp add: plain_literal_def plain_lang_def literal_with_language_def literal_back_def)
  then show ?thesis using u Some
    by (auto simp: literal_kinds_def upcoming_Cons parse_literal_def Let_def lift_err_def)
next
  case None
  then show ?thesis using u l st
    by (auto simp: literal_kinds_def upcoming_Cons parse_literal_def Let_def literal_back_def plain_literal_def
        plain_iri_def parse_datatype_iri_def tok_def resolve_plain split: option.splits if_splits)
qed

lemma object_parses:
  assumes st: "plain_state st" and ob: "plain_object S ob" and u: "upcoming ts pos (object_kinds ob @ Dot # ks)"
  shows "\<exists>pos' st'. parse_object S (Suc n) ts pos st 0 = Inr (object_back (tp_scope st) ob, pos', st') \<and>
    only_blanks st st' \<and> upcoming ts pos' (Dot # ks)"
proof (cases ob)
  case (ObjIri i)
  then show ?thesis using assms
    by (auto simp: tok_def upcoming_Cons resolve_plain plain_iri_def only_blanks_def)
next
  case (ObjBlank b)
  with get_blank_maps [OF st, of "bn_label b"] u show ?thesis
    by (auto simp: tok_def upcoming_Cons)
next
  case (ObjLiteral l)
  with ob u have l: "plain_literal S l" "upcoming ts pos (literal_kinds l @ Dot # ks)" by simp_all
  from l(2) have "pos < length ts" "tk_kind (ts ! pos) = StringLiteral (lit_value l)"
    by (simp_all add: literal_kinds_def upcoming_Cons)
  with literal_parses [OF st l] ObjLiteral st show ?thesis
    by (auto simp: tok_def only_blanks_def)
qed

text \<open>One statement: a triple is added.\<close>

lemma statement_parses:
  assumes st: "plain_state st" and t: "plain_triple S t" and u: "upcoming ts pos (triple_kinds t @ ks)" and n: "3 \<le> n"
  shows "\<exists>pos' st'. parse_statement S n ts pos st = Inr (pos', st') \<and> plain_state st' \<and> tp_scope st' = tp_scope st \<and>
    tp_triples st' = tp_triples st @ [triple_back (tp_scope st) t] \<and> upcoming ts pos' ks"
proof -
  obtain m where m: "n = Suc (Suc (Suc m))" using n by (metis Suc_le_D numeral_3_eq_3 Suc_le_mono)
  have s: "plain_subject S (t_subject t)" and p: "plain_iri (t_predicate t)" and ob: "plain_object S (t_object t)"
    using t by (simp_all add: plain_triple_def)
  from u have "upcoming ts pos (subject_kinds (t_subject t) @ IriRef (iri_value (t_predicate t)) #
      object_kinds (t_object t) @ Dot # ks)" by (simp add: triple_kinds_def)
  from subject_parses [OF st s this, of n] obtain st1 where s1: "only_blanks st st1"
      "parse_subject S n ts pos st 0 = Inr (subject_back (tp_scope st) (t_subject t), Suc pos, st1)"
    and u1: "upcoming ts (Suc pos) (IriRef (iri_value (t_predicate t)) # object_kinds (t_object t) @ Dot # ks)" by blast
  from s1 have st1: "plain_state st1" "tp_scope st1 = tp_scope st" "tp_triples st1 = tp_triples st"
    by (simp_all add: only_blanks_def)
  have pr: "parse_predicate ts (Suc pos) st1 = Inr (t_predicate t, Suc (Suc pos))"
    using u1 p by (simp add: parse_predicate_def tok_def upcoming_Cons resolve_plain st1 plain_iri_def)
  from u1 have "upcoming ts (Suc (Suc pos)) (object_kinds (t_object t) @ Dot # ks)" by (simp add: upcoming_Cons)
  from object_parses [OF st1(1) ob this, of m] obtain pos2 st2 where
      o2: "parse_object S (Suc m) ts (Suc (Suc pos)) st1 0 = Inr (object_back (tp_scope st) (t_object t), pos2, st2)"
    and b2: "only_blanks st1 st2" and u2: "upcoming ts pos2 (Dot # ks)"
    using st1(2) by auto
  have dot: "is_kind ts pos2 Dot" "\<not> is_kind ts pos2 Comma" "\<not> is_kind ts pos2 Semicolon" "upcoming ts (Suc pos2) ks"
    using u2 by (auto simp: upcoming_Cons is_kind_def)
  have "parse_triples S n ts pos st = Inr (Suc pos2, push_triple (triple_back (tp_scope st) t) st2)"
    using s1(2) pr o2 dot by (simp add: parse_triples_def m Let_def skip_dot_def triple_back_def del: parse_object.simps)
  moreover have "parse_statement S n ts pos st = parse_triples S n ts pos st"
    using u by (cases "t_subject t") (simp_all add: parse_statement_def tok_def triple_kinds_def upcoming_Cons)
  ultimately show ?thesis using b2 st1 dot(4) by (auto simp: only_blanks_def push_triple_def plain_state_def)
qed

lemma loop_parses:
  "plain_state st \<Longrightarrow> list_all (plain_triple S) xs \<Longrightarrow> upcoming ts pos (concat (map triple_kinds xs) @ [Eof]) \<Longrightarrow>
    3 \<le> n \<Longrightarrow> length xs < k \<Longrightarrow>
    \<exists>st'. parse_loop S n k ts pos st = Inr st' \<and> tp_triples st' = tp_triples st @ map (triple_back (tp_scope st)) xs"
proof (induction xs arbitrary: pos st k)
  case Nil
  then show ?case by (cases k) (simp_all add: upcoming_Cons)
next
  case (Cons t xs)
  from Cons.prems obtain k' where k: "k = Suc k'" "length xs < k'" by (cases k) simp_all
  from Cons.prems have u: "upcoming ts pos (triple_kinds t @ concat (map triple_kinds xs) @ [Eof])" by simp
  then have first: "pos < length ts" "tk_kind (ts ! pos) \<noteq> Eof"
    by (cases "t_subject t"; simp add: triple_kinds_def upcoming_Cons)+
  from statement_parses [OF _ _ u, of st S n] Cons.prems obtain pos' st' where
      step: "parse_statement S n ts pos st = Inr (pos', st')" "plain_state st'" "tp_scope st' = tp_scope st"
        "tp_triples st' = tp_triples st @ [triple_back (tp_scope st) t]"
    and u': "upcoming ts pos' (concat (map triple_kinds xs) @ [Eof])" by auto
  from Cons.IH [OF step(2) _ u' _ k(2)] Cons.prems(2,4) step(3,4) show ?case
    by (auto simp: k(1) first step(1))
qed

subsection \<open>The round trip\<close>

lemma triples_parse:
  assumes w: "lexes S w (concat (map triple_kinds ts) @ [Eof])" and ts: "list_all (plain_triple S) ts" and st: "plain_state st"
  shows "\<exists>st'. turtle_parse S st w = Inr (map (triple_back (tp_scope st)) ts, st')"
proof -
  from w obtain tks where
    tks: "tokenize S (lexer_new w) = Some (Inr tks)" "map tk_kind tks = concat (map triple_kinds ts) @ [Eof]"
    unfolding lexes_def lexer_new_def by blast
  have "length ts \<le> length (concat (map (triple_kinds :: triple \<Rightarrow> 'a token_kind list) ts))"
  proof (induction ts)
    case (Cons t ts)
    have "triple_kinds t \<noteq> ([] :: 'a token_kind list)" by (simp add: triple_kinds_def)
    with Cons show ?case by (cases "triple_kinds t :: 'a token_kind list") simp_all
  qed simp
  moreover have "length tks = length (concat (map (triple_kinds :: triple \<Rightarrow> 'a token_kind list) ts)) + 1"
    using arg_cong [OF tks(2), of length] by simp
  ultimately have len: "length ts < length tks + 1" by simp
  have "plain_state (st\<lparr>tp_triples := []\<rparr>)" using st by (simp add: plain_state_def)
  from loop_parses [OF this ts _ _ len, of tks 0 "fuel_for tks"] tks(2) show ?thesis
    by (auto simp: turtle_parse_def tks(1) parse_tokens_def upcoming_def fuel_for_def)
qed

lemma nt_triples_parse:
  assumes "std_ok S" "list_all (plain_triple S) ts" "plain_state st"
  shows "\<exists>st'. turtle_parse S st (nt_triples ts) = Inr (map (triple_back (tp_scope st)) ts, st')"
  by (rule triples_parse [OF lexes_triples [OF assms(1,2)] assms(2,3)])

text \<open>N-Triples output is read back: whatever the triples, as long as their IRIs are valid and hold
  no backslash and no Unicode white space, their labels are lexable, their texts hold no control
  character besides tab, line feed and carriage return and their language tags are not directive
  keywords, a fresh Turtle parser returns from the serializer's output exactly these triples in
  their order, with blank nodes renamed by the parser's scope and \<open>xsd:string\<close> literals plain.\<close>

theorem ntriples_read_back:
  assumes "std_ok S" and "list_all (plain_triple S) ts"
  shows "\<exists>st'. turtle_parse S (fst (tp_new g)) (nt_triples ts) =
    Inr (map (triple_back (tp_scope (fst (tp_new g)))) ts, st')"
  by (rule nt_triples_parse [OF assms]) (simp add: tp_new_def scope_generate_def plain_state_def)

definition sample_triples :: "triple list" where
  "sample_triples = [triple_new (SubjBlank (bn_new (lit ''x1''))) (iri_new_unchecked (lit ''http://e/p''))
       (ObjLiteral \<lparr>lit_value = [97, c_dquote, c_nl], lit_datatype = None, lit_language = Some (lit ''en'')\<rparr>),
     triple_new (SubjIri (iri_new_unchecked (lit ''http://e/s''))) (iri_new_unchecked (lit ''http://e/p''))
       (ObjLiteral (literal_with_datatype [] (iri_new_unchecked (lit ''http://e/d''))))]"

lemma plain_iri_unchecked:
  "valid_iri_text v \<Longrightarrow> list_all (\<lambda>c. \<not> is_whitespace c \<and> c \<noteq> c_bslash) v \<Longrightarrow> plain_iri (iri_new_unchecked v)"
  using iri_new_valid [of v] by (simp add: plain_iri_def valid_iri_def iri_new_unchecked_def)

lemma sample_triples_plain: "list_all (plain_triple ascii_std) sample_triples"
  by (simp add: sample_triples_def plain_triple_def triple_new_def bn_new_def plain_literal_def plain_text_def plain_lang_def
      validate_language_tag_def plain_iri_unchecked valid_iri_text_def literal_with_datatype_def ascii_std_def
      is_pn_chars_def is_pn_chars_u_def is_pn_chars_base_def char_class_defs ascii_lower_def str_simps)

theorem ntriples_read_back_witness:
  "\<exists>st'. turtle_parse ascii_std (fst (tp_new 7)) (nt_triples sample_triples) =
    Inr (map (triple_back (tp_scope (fst (tp_new 7)))) sample_triples, st')"
  by (rule ntriples_read_back [OF ascii_std_ok sample_triples_plain])

end
