(* ===== verification/TurtleRoundTrip.thy ===== *)
theory TurtleRoundTrip
  imports RoundTrip
begin

section \<open>Turtle output read back by the Turtle parser\<close>

text \<open>
  The Turtle serializer writes a header of prefix declarations, groups triples by subject and
  abbreviates IRIs and some literals. The same two steps as for N-Triples, with the tokens of
  a document defined along the serializer's grouping, give its round trip.
\<close>

subsection \<open>Names that survive\<close>

fun dots_inside :: "'f rust_std \<Rightarrow> rstr \<Rightarrow> bool" where
  "dots_inside S [] = True"
| "dots_inside S (c # cs) \<longleftrightarrow>
     (if c = c_dot then cs \<noteq> [] \<and> is_pn_chars S (hd cs) else is_pn_chars S c) \<and> dots_inside S cs"

fun lexable_local :: "'f rust_std \<Rightarrow> rstr \<Rightarrow> bool" where
  "lexable_local S [] = True"
| "lexable_local S (c # cs) \<longleftrightarrow> (is_pn_chars_u S c \<or> is_ascii_digit c) \<and> dots_inside S cs"

definition lexable_prefix :: "'f rust_std \<Rightarrow> rstr \<Rightarrow> bool" where
  "lexable_prefix S p \<longleftrightarrow> (p = [] \<or> is_pn_chars_base S (hd p)) \<and>
     list_all (\<lambda>c. (u_alphanumeric S c \<or> c = c_underscore \<or> c = c_minus) \<and> is_pn_chars S c) p \<and>
     p \<noteq> lit ''PREFIX'' \<and> p \<noteq> lit ''BASE'' \<and> to_lowercase S p \<noteq> lit ''true'' \<and> to_lowercase S p \<noteq> lit ''false''"

definition lexable_table :: "'f rust_std \<Rightarrow> prefix_table \<Rightarrow> bool" where
  "lexable_table S ps \<longleftrightarrow> (\<forall>p ns. fmlookup ps p = Some ns \<longrightarrow> lexable_prefix S p \<and> plain_iri (iri_new_unchecked ns))"

definition lexable_iri :: "'f rust_std \<Rightarrow> prefix_table \<Rightarrow> iri \<Rightarrow> bool" where
  "lexable_iri S ps i \<longleftrightarrow> plain_iri i \<and>
     (\<forall>p ns. fmlookup ps p = Some ns \<longrightarrow> prefix ns (iri_value i) \<longrightarrow>
        turtle_local_name S (drop (length ns) (iri_value i)) \<longrightarrow> lexable_local S (drop (length ns) (iri_value i)))"

text \<open>Of the bare literals only canonical integers and booleans keep their text.\<close>

definition bare_literal :: "literal \<Rightarrow> bool" where
  "bare_literal l \<longleftrightarrow> (case lit_datatype l of None \<Rightarrow> False
     | Some d \<Rightarrow> iri_value d = iri_value xsd_boolean \<or>
         iri_value d = iri_value xsd_integer \<and>
           (case parse_i64 (lit_value l) of Some i \<Rightarrow> show_int i = lit_value l | None \<Rightarrow> False))"

definition lexable_literal :: "'f rust_std \<Rightarrow> prefix_table \<Rightarrow> literal \<Rightarrow> bool" where
  "lexable_literal S ps l \<longleftrightarrow> plain_text (lit_value l) \<and>
     (case lit_language l of Some g \<Rightarrow> plain_lang S g \<and> lit_datatype l = None
      | None \<Rightarrow> (case lit_datatype l of Some d \<Rightarrow> lexable_iri S ps d \<and> (short_form l \<longrightarrow> bare_literal l) | None \<Rightarrow> True))"

fun lexable_subject :: "'f rust_std \<Rightarrow> prefix_table \<Rightarrow> subject \<Rightarrow> bool" where
  "lexable_subject S ps (SubjIri i) \<longleftrightarrow> lexable_iri S ps i \<and> \<not> prefix (lit ''_:'') (iri_value i)"
| "lexable_subject S ps (SubjBlank b) \<longleftrightarrow> plain_label S (bn_label b)"

fun lexable_object :: "'f rust_std \<Rightarrow> prefix_table \<Rightarrow> object \<Rightarrow> bool" where
  "lexable_object S ps (ObjIri i) = lexable_iri S ps i"
| "lexable_object S ps (ObjBlank b) = plain_label S (bn_label b)"
| "lexable_object S ps (ObjLiteral l) = lexable_literal S ps l"

definition lexable_triple :: "'f rust_std \<Rightarrow> prefix_table \<Rightarrow> triple \<Rightarrow> bool" where
  "lexable_triple S ps t \<longleftrightarrow> lexable_subject S ps (t_subject t) \<and> lexable_iri S ps (t_predicate t) \<and>
     lexable_object S ps (t_object t)"

subsection \<open>Lexing names, strings and numbers\<close>

lemma ascii_pn:
  assumes "std_ok S" "c < 128"
  shows "is_pn_chars_base S c = is_ascii_alphabetic c" "u_alphanumeric S c = is_ascii_alphanumeric c"
  using assms by (simp_all add: std_ok_def is_pn_chars_base_def)

lemma dotted_local_stops:
  "name_end S d \<Longrightarrow> dots_inside S v \<Longrightarrow> x = acc @ v \<Longrightarrow>
    stops (dotted_loop (\<lambda>c. is_pn_chars S c \<or> c = c_colon \<or> c = c_percent \<or> c = c_bslash)
      (\<lambda>c. is_pn_chars S c \<or> c = c_colon) (p, v @ d # rest) acc) x (d # rest)"
proof (induction v arbitrary: p acc)
  case Nil
  then show ?case by (simp add: stops_def name_end_def)
next
  case (Cons c v)
  let ?loop = "dotted_loop (\<lambda>c. is_pn_chars S c \<or> c = c_colon \<or> c = c_percent \<or> c = c_bslash)
      (\<lambda>c. is_pn_chars S c \<or> c = c_colon)"
  have IH: "stops (?loop (adv_pos c p, v @ d # rest) (acc @ [c])) x (d # rest)"
    by (rule Cons.IH) (use Cons.prems in simp_all)
  show ?case
  proof (cases "c = c_dot")
    case True
    then obtain e w where v: "v = e # w" "is_pn_chars S e" using Cons.prems(2) by (cases v) simp_all
    have "?loop (p, (c # v) @ d # rest) acc = ?loop (adv_pos c p, v @ d # rest) (acc @ [c])"
      using True v by simp
    then show ?thesis using IH by simp
  next
    case False
    then show ?thesis using IH Cons.prems(2) by simp
  qed
qed

lemma prefixed_token_yields:
  assumes d: "name_end S d" and l: "lexable_local S v"
  shows "yields (prefixed_token S pfx (p, v @ d # rest)) (PrefixedName pfx v) (d # rest)"
proof (cases v)
  case Nil
  have "\<not> is_ascii_digit d" "\<not> is_pn_chars_u S d" using d by (auto simp: name_end_def is_pn_chars_def)
  then show ?thesis using d Nil
    by (simp add: name_end_def prefixed_token_def read_pn_local_def)
next
  case (Cons c cs)
  with l have cs: "dots_inside S cs" and c: "is_pn_chars_u S c \<or> is_ascii_digit c" by simp_all
  from dotted_local_stops [OF d cs refl, of "adv_pos c p" rest "[c]"] Cons c show ?thesis
    by (elim stopsE) (auto simp: prefixed_token_def read_pn_local_def Let_def simp del: dotted_loop.simps)
qed

lemma prefix_loop_yields:
  "name_end S d \<Longrightarrow> lexable_local S v \<Longrightarrow> list_all (\<lambda>c. is_pn_chars S c \<and> c \<noteq> c_colon) cs \<Longrightarrow> x = w @ cs \<Longrightarrow>
    yields (prefix_loop S (p, cs @ c_colon # v @ d # rest) w) (PrefixedName x v) (d # rest)"
  by (induction cs arbitrary: p w) (simp_all add: prefixed_token_yields)

lemma word_then_colon:
  assumes S: "std_ok S" and w: "list_all (\<lambda>c. u_alphanumeric S c \<or> c = c_underscore \<or> c = c_minus) w"
  shows "stops (read_word S (p, w @ c_colon # rest)) w (c_colon # rest)"
  unfolding read_word_def
  by (rule word_loop_stops [OF w]) (simp_all add: ascii_pn [OF S] is_ascii_alphanumeric_def is_ascii_alphabetic_def is_ascii_digit_def)

lemma reads_prefixed:
  assumes S: "std_ok S" and d: "name_end S d" and p: "lexable_prefix S pfx" and l: "lexable_local S v"
  shows "reads S (pfx @ c_colon # v @ d # rest) (PrefixedName pfx v) (d # rest)"
proof (cases pfx)
  case Nil
  have "\<not> is_pn_chars_base S c_colon" by (simp add: ascii_pn [OF S] is_ascii_alphabetic_def)
  with Nil show ?thesis
    by (auto intro!: reads_intro simp: read_kind_def is_whitespace_def is_ascii_digit_def prefixed_token_yields [OF d l])
next
  case (Cons c cs)
  from p Cons have c: "is_pn_chars_base S c" and cs: "list_all (is_pn_chars S) cs"
    and w: "list_all (\<lambda>c. u_alphanumeric S c \<or> c = c_underscore \<or> c = c_minus) pfx"
    by (simp_all add: lexable_prefix_def list_all_iff)
  have alpha: "c < 128 \<Longrightarrow> is_ascii_alphabetic c" using c ascii_pn [OF S] by simp
  have neq: "c \<notin> {c_lt, c_dquote, c_squote, c_at, c_underscore, c_dot, c_semi, c_comma, c_lbracket, c_rbracket,
      c_lparen, c_rparen, c_caret, c_plus, c_minus, c_hash}" "\<not> is_ascii_digit c"
    using alpha by (auto simp: is_ascii_alphabetic_def is_ascii_digit_def)
  have ws: "\<not> is_whitespace c" using S c unfolding std_ok_def is_pn_chars_base_def by blast
  have colon: "\<not> is_pn_chars S c_colon"
    by (simp add: is_pn_chars_def is_pn_chars_u_def ascii_pn [OF S] is_ascii_alphabetic_def is_ascii_digit_def)
  show ?thesis unfolding Cons append_Cons
  proof (rule reads_intro)
    fix q :: lex_pos
    let ?lx = "(q, c # cs @ c_colon # v @ d # rest)"
    from word_then_colon [OF S w, of q "v @ d # rest"]
    obtain q' where word: "read_word S ?lx = (pfx, (q', c_colon # v @ d # rest))"
      using Cons by (auto elim: stopsE)
    have from_word: "yields (read_prefixed_name_from_word S pfx (q', c_colon # v @ d # rest))
        (PrefixedName pfx v) (d # rest)"
      by (simp add: read_prefixed_name_from_word_def prefixed_token_yields [OF d l])
    show "yields (read_kind S c ?lx) (PrefixedName (c # cs) v) (d # rest)"
    proof (cases "c = 97")
      case True
      have "is_pn_char_or_colon S (peek (advance ?lx))"
        using cs by (cases cs) (simp_all add: is_pn_char_or_colon_def)
      moreover have "yields (prefix_loop S (adv_pos 97 q, cs @ c_colon # v @ d # rest) [97])
          (PrefixedName (97 # cs) v) (d # rest)"
        by (rule prefix_loop_yields [OF d l]) (use cs colon in \<open>auto simp: list_all_iff\<close>)
      ultimately show ?thesis using True
        by (simp add: read_kind_def read_prefixed_name_from_def is_ascii_digit_def del: prefix_loop.simps)
    next
      case False
      then have "read_kind S c ?lx = read_prefixed_name_from_word S pfx (q', c_colon # v @ d # rest)"
        using neq c p word by (simp add: read_kind_def lexable_prefix_def)
      then show ?thesis using from_word Cons by simp
    qed
  qed (use ws neq in simp_all)
qed

lemma reads_a:
  assumes "std_ok S"
  shows "reads S (97 # c_space # rest) KwA (c_space # rest)"
  by (rule reads_intro)
    (simp_all add: read_kind_def is_whitespace_def is_ascii_digit_def is_pn_char_or_colon_def space_class [OF assms])

lemma reads_semicolon: "reads S (c_semi # rest) Semicolon rest"
  by (rule reads_intro) (simp_all add: read_kind_def is_whitespace_def)

lemma long_string_yields:
  "plain_text v \<Longrightarrow> x = acc @ v \<Longrightarrow>
    yields (string_loop c_dquote True (p, escape_string v @ c_dquote # c_dquote # c_dquote # rest) acc) x rest"
proof (induction v arbitrary: p acc)
  case (Cons c v)
  then have v: "plain_text v" and c: "is_control c \<longrightarrow> c \<in> {c_nl, c_cr, c_tab}" by (simp_all add: plain_text_def)
  have IH: "yields (string_loop c_dquote True (q, escape_string v @ c_dquote # c_dquote # c_dquote # rest) (acc @ [c])) x rest" for q
    using Cons.IH [OF v] Cons.prems(2) by simp
  have e: "escape_string (a # v) = escape_string_char a @ escape_string v" for a
    by (simp add: escape_string_def del: escape_string_char.simps)
  consider "c = c_bslash" | "c = c_dquote" | "c = c_nl" | "c = c_cr" | "c = c_tab"
    | "c \<notin> {c_bslash, c_dquote, c_nl, c_cr, c_tab} \<and> \<not> is_control c" using c by auto
  then show ?case by cases (use IH in \<open>simp_all add: e unescape_def\<close>)
qed (simp add: escape_string_def)

lemma reads_long_string:
  assumes v: "plain_text v"
  shows "reads S (c_dquote # c_dquote # c_dquote # escape_string v @ c_dquote # c_dquote # c_dquote # rest) (StringLiteral v) rest"
proof (rule reads_intro)
  fix p :: lex_pos
  let ?w = "escape_string v @ c_dquote # c_dquote # c_dquote # rest"
  from long_string_yields [OF v, of v "[]" "adv_pos c_dquote (adv_pos c_dquote (adv_pos c_dquote p))" rest]
  have "yields (read_string_literal c_dquote (p, c_dquote # c_dquote # c_dquote # ?w)) (StringLiteral v) rest"
    by (auto elim!: yieldsE simp: read_string_literal_def Let_def simp del: string_loop.simps)
  then show "yields (read_kind S c_dquote (p, c_dquote # c_dquote # c_dquote # ?w)) (StringLiteral v) rest"
    by (simp add: read_kind_def)
qed (simp_all add: is_whitespace_def)

lemma show_int_shape: "\<exists>sg ds. show_int i = sg @ ds \<and> (sg = [] \<or> sg = [c_minus]) \<and> ds \<noteq> [] \<and> list_all is_ascii_digit ds"
proof (cases "i < 0")
  case True
  then show ?thesis using show_nat_digits
    by (intro exI [of _ "[c_minus]"] exI [of _ "show_nat (nat (- i))"]) (auto simp: show_int_def list_all_iff)
next
  case False
  then show ?thesis using show_nat_digits
    by (intro exI [of _ "[]"] exI [of _ "show_nat (nat i)"]) (auto simp: show_int_def list_all_iff)
qed

lemma reads_integer:
  assumes v: "parse_i64 (show_int i) = Some i"
  shows "reads S (show_int i @ c_space # rest) (IntegerTok i) (c_space # rest)"
proof -
  obtain sg ds where sh: "show_int i = sg @ ds" "sg = [] \<or> sg = [c_minus]" "ds \<noteq> []" "list_all is_ascii_digit ds"
    using show_int_shape by blast
  obtain c cs where c: "show_int i = c # cs" "c = c_minus \<or> is_ascii_digit c"
    using sh by (cases ds) auto
  have yields: "yields (read_number S (p, show_int i @ c_space # rest)) (IntegerTok i) (c_space # rest)" for p
  proof -
    let ?q = "if sg = [] then p else adv_pos c_minus p"
    obtain d w where d: "ds = d # w" "is_ascii_digit d" using sh(3,4) by (cases ds) auto
    have sign: "read_sign (p, show_int i @ c_space # rest) = (sg, (?q, ds @ c_space # rest))"
      using sh(1,2) d by (auto simp: read_sign_def is_ascii_digit_def)
    have "stops (read_digits (?q, ds @ c_space # rest)) ds (c_space # rest)"
      unfolding read_digits_def by (rule word_loop_stops [OF sh(4)]) (simp_all add: is_ascii_digit_def)
    then obtain q' where digits: "read_digits (?q, ds @ c_space # rest) = (ds, (q', c_space # rest))" by (rule stopsE)
    show ?thesis using v
      by (simp add: read_number_def sign digits read_exponent_def integer_token_def sh(1) [symmetric])
  qed
  show ?thesis unfolding c(1) append_Cons
  proof (rule reads_intro)
    fix p :: lex_pos
    have "read_kind S c (p, show_int i @ c_space # rest) = read_number S (p, show_int i @ c_space # rest)"
      using c(2) by (auto simp: read_kind_def is_ascii_digit_def)
    then show "yields (read_kind S c (p, c # cs @ c_space # rest)) (IntegerTok i) (c_space # rest)"
      using yields [of p] c(1) by simp
  qed (use c(2) in \<open>auto simp: is_whitespace_def is_ascii_digit_def\<close>)
qed

lemma reads_boolean:
  assumes S: "std_ok S" and v: "v = lit ''true'' \<or> v = lit ''false''"
  shows "reads S (v @ c_space # rest) (BooleanTok (v = lit ''true'')) (c_space # rest)"
proof -
  have ascii: "list_all (\<lambda>c. is_ascii_alphabetic c) v" "list_all (\<lambda>c. c < 128) v" "map ascii_lower v = v"
    using v by (auto simp: str_simps is_ascii_alphabetic_def ascii_lower_def)
  then have "list_all (\<lambda>c. u_alphanumeric S c \<or> c = c_underscore \<or> c = c_minus) v"
    using ascii_alphanumeric_std [OF S] by (auto simp: list_all_iff is_ascii_alphanumeric_def)
  then have word: "stops (read_word S (p, v @ c_space # rest)) v (c_space # rest)" for p
    unfolding read_word_def by (rule word_loop_stops) (simp_all add: space_class [OF S])
  have low: "to_lowercase S v = v" using S ascii(2,3) by (simp add: std_ok_def)
  obtain c cs where c: "v = c # cs" "c = 116 \<or> c = 102" using v by (auto simp: str_simps)
  show ?thesis unfolding c(1) append_Cons
  proof (rule reads_intro)
    fix p :: lex_pos
    from word [of p] obtain q where "read_word S (p, c # cs @ c_space # rest) = (v, (q, c_space # rest))"
      using c(1) by (auto elim: stopsE)
    moreover have "read_kind S c lx = (let (word, lx') = read_word S lx
        in if to_lowercase S word = lit ''true'' then Inr (BooleanTok True, lx')
           else if to_lowercase S word = lit ''false'' then Inr (BooleanTok False, lx')
           else read_prefixed_name_from_word S word lx')" for lx :: lexer
      using c(2) by (auto simp: read_kind_def is_ascii_digit_def)
    moreover have "v \<noteq> lit ''true'' \<Longrightarrow> v = lit ''false''" using v by blast
    ultimately show "yields (read_kind S c (p, c # cs @ c_space # rest)) (BooleanTok (c # cs = lit ''true'')) (c_space # rest)"
      unfolding c(1) [symmetric] by (simp add: low)
  qed (use c(2) in \<open>auto simp: is_whitespace_def\<close>)
qed

subsection \<open>The tokens of a document\<close>

text \<open>The token of an IRI for a table of prefixes and a test of local names.\<close>

fun kind_by :: "(rstr \<Rightarrow> bool) \<Rightarrow> (rstr \<times> rstr) list \<Rightarrow> rstr \<Rightarrow> 'f token_kind" where
  "kind_by ok [] i = IriRef i"
| "kind_by ok ((p, ns) # ps) i =
     (if prefix ns i \<and> ok (drop (length ns) i) then PrefixedName p (drop (length ns) i)
      else kind_by ok ps i)"

abbreviation compact_kind :: "'f rust_std \<Rightarrow> (rstr \<times> rstr) list \<Rightarrow> rstr \<Rightarrow> 'f token_kind" where
  "compact_kind S \<equiv> kind_by (turtle_local_name S)"

fun se_subject_kind :: "'f rust_std \<Rightarrow> (rstr \<times> rstr) list \<Rightarrow> subject \<Rightarrow> 'f token_kind" where
  "se_subject_kind S l (SubjIri i) = compact_kind S l (iri_value i)"
| "se_subject_kind S l (SubjBlank b) = BlankNodeLabel (bn_label b)"

definition se_predicate_kind :: "'f rust_std \<Rightarrow> (rstr \<times> rstr) list \<Rightarrow> iri \<Rightarrow> 'f token_kind" where
  "se_predicate_kind S l p = (if iri_value p = RDF_TYPE then KwA else compact_kind S l (iri_value p))"

definition se_literal_kinds :: "'f rust_std \<Rightarrow> (rstr \<times> rstr) list \<Rightarrow> literal \<Rightarrow> 'f token_kind list" where
  "se_literal_kinds S l x =
     (if short_form x then
        (if map_option iri_value (lit_datatype x) = Some (iri_value xsd_boolean) then [BooleanTok (lit_value x = lit ''true'')]
         else [IntegerTok (the (parse_i64 (lit_value x)))])
      else StringLiteral (lit_value x) #
        (case lit_language x of Some g \<Rightarrow> [LangTag g]
         | None \<Rightarrow> (case lit_datatype x of
             Some d \<Rightarrow> if iri_value d = xsd_string_iri then [] else [DoubleCaret, compact_kind S l (iri_value d)]
           | None \<Rightarrow> [])))"

fun se_object_kinds :: "'f rust_std \<Rightarrow> (rstr \<times> rstr) list \<Rightarrow> object \<Rightarrow> 'f token_kind list" where
  "se_object_kinds S l (ObjIri i) = [compact_kind S l (iri_value i)]"
| "se_object_kinds S l (ObjBlank b) = [BlankNodeLabel (bn_label b)]"
| "se_object_kinds S l (ObjLiteral x) = se_literal_kinds S l x"

definition pair_kinds :: "'f rust_std \<Rightarrow> (rstr \<times> rstr) list \<Rightarrow> triple \<Rightarrow> 'f token_kind list" where
  "pair_kinds S l t = se_predicate_kind S l (t_predicate t) # se_object_kinds S l (t_object t)"

text \<open>The subject whose block is open decides how the next triple is written.\<close>

fun body_kinds :: "'f rust_std \<Rightarrow> (rstr \<times> rstr) list \<Rightarrow> rstr option \<Rightarrow> triple list \<Rightarrow> 'f token_kind list" where
  "body_kinds S l cur [] = (if cur = None then [] else [Dot]) @ [Eof]"
| "body_kinds S l cur (t # ts) =
     (let s = subject_string (t_subject t)
      in (if cur = Some s then [Semicolon]
          else (if cur = None then [] else [Dot]) @ [se_subject_kind S l (t_subject t)]) @
         pair_kinds S l t @ body_kinds S l (Some s) ts)"

lemma lexes_compact_with:
  assumes S: "std_ok S" and r: "lexes S (c_space # rest) ks" and i: "plain_iri i"
    and l: "\<forall>(p, ns) \<in> set l. lexable_prefix S p \<and> (prefix ns (iri_value i) \<longrightarrow>
        turtle_local_name S (drop (length ns) (iri_value i)) \<longrightarrow> lexable_local S (drop (length ns) (iri_value i)))"
  shows "lexes S (compact_with S l (iri_value i) @ c_space # rest) (compact_kind S l (iri_value i) # ks)"
  using l
proof (induction l)
  case Nil
  then show ?case using r i by (simp add: lexes_iri)
next
  case (Cons x l)
  then show ?case using lexes_token [OF reads_prefixed [OF S name_end_space [OF S]] _ r] by (cases x) auto
qed

lemma lexes_compact:
  assumes S: "std_ok S" and iter: "hash_order iter" and ps: "lexable_table S ps" and i: "lexable_iri S ps i"
    and r: "lexes S (c_space # rest) ks"
  shows "lexes S (se_compact S iter ps (iri_value i) @ c_space # rest) (compact_kind S (iter ps) (iri_value i) # ks)"
  unfolding se_compact_def
  by (rule lexes_compact_with [OF S r])
    (use i ps hash_order_in_iff [OF iter] in \<open>auto simp: lexable_iri_def lexable_table_def\<close>)

lemma lexes_label': "std_ok S \<Longrightarrow> plain_label S l \<Longrightarrow> lexes S (c_space # rest) ks \<Longrightarrow>
    lexes S (c_underscore # c_colon # l @ c_space # rest) (BlankNodeLabel l # ks)"
  by (rule lexes_token [OF reads_label]) (simp_all add: name_end_space)

lemma lexes_quoted:
  assumes v: "plain_text v" and q: "rest = [] \<or> hd rest \<noteq> c_dquote" and r: "lexes S rest ks"
  shows "lexes S ((let q = (if c_nl \<in> set v \<or> c_cr \<in> set v then [c_dquote, c_dquote, c_dquote] else [c_dquote])
      in q @ escape_string v @ q) @ rest) (StringLiteral v # ks)"
  using lexes_token [OF reads_string [OF v q] _ r] lexes_token [OF reads_long_string [OF v] _ r] by (simp add: Let_def)

definition readable_by :: "'f rust_std \<Rightarrow> prefix_order \<Rightarrow> prefix_table \<Rightarrow> bool" where
  "readable_by S iter ps \<longleftrightarrow> std_ok S \<and> hash_order iter \<and> lexable_table S ps"

lemma lexes_se_literal:
  assumes R: "readable_by S iter ps" and x: "lexable_literal S ps x" and r: "lexes S (c_space # rest) ks"
  shows "lexes S (se_literal S iter ps x @ c_space # rest) (se_literal_kinds S (iter ps) x @ ks)"
proof (cases "short_form x")
  case True
  then obtain d where d: "lit_datatype x = Some d" by (auto simp: short_form_def split: option.splits)
  then have bare: "bare_literal x" "lit_language x = None"
    using x True by (auto simp: lexable_literal_def split: option.splits)
  show ?thesis
  proof (cases "iri_value d = iri_value xsd_boolean")
    case b: True
    then have v: "lit_value x = lit ''true'' \<or> lit_value x = lit ''false''"
      using True d by (simp add: short_form_def Let_def xsd_boolean_def xsd_datatype_def)
    show ?thesis using lexes_token [OF reads_boolean [OF _ v] _ r] R True b d
      by (simp add: se_literal_def Let_def se_literal_kinds_def readable_by_def)
  next
    case False
    then obtain i where i: "parse_i64 (lit_value x) = Some i" "show_int i = lit_value x"
      using bare d by (auto simp: bare_literal_def split: option.splits)
    have "parse_i64 (show_int i) = Some i" using i by simp
    from lexes_token [OF reads_integer [OF this] _ r] show ?thesis
      using True False d i by (simp add: se_literal_def Let_def se_literal_kinds_def)
  qed
next
  case False
  have v: "plain_text (lit_value x)" using x by (simp add: lexable_literal_def)
  note quoted = lexes_quoted [OF v, simplified Let_def]
  show ?thesis
  proof (cases "lit_language x")
    case (Some g)
    then have "lexes S (c_at # g @ c_space # rest) (LangTag g # ks)"
      using lexes_token [OF reads_lang _ r] x R by (simp add: lexable_literal_def readable_by_def name_end_space)
    from quoted [OF _ this] False Some show ?thesis
      by (simp add: se_literal_def Let_def se_literal_kinds_def)
  next
    case None
    show ?thesis
    proof (cases "\<exists>d. lit_datatype x = Some d \<and> iri_value d \<noteq> xsd_string_iri")
      case True
      then obtain d where d: "lit_datatype x = Some d" "iri_value d \<noteq> xsd_string_iri" by blast
      then have "lexable_iri S ps d" using x None by (simp add: lexable_literal_def)
      then have "lexes S (c_caret # c_caret # se_compact S iter ps (iri_value d) @ c_space # rest)
          (DoubleCaret # compact_kind S (iter ps) (iri_value d) # ks)"
        using lexes_token [OF reads_caret _ lexes_compact [OF _ _ _ _ r]] R by (simp add: readable_by_def)
      from quoted [OF _ this] False None d show ?thesis
        by (simp add: se_literal_def Let_def se_literal_kinds_def str_simps)
    next
      case no: False
      from quoted [OF _ r] False None no show ?thesis
        by (auto simp: se_literal_def Let_def se_literal_kinds_def split: option.splits)
    qed
  qed
qed

lemma lexes_se_object:
  "readable_by S iter ps \<Longrightarrow> lexable_object S ps ob \<Longrightarrow> lexes S (c_space # rest) ks \<Longrightarrow>
    lexes S (se_object S iter ps ob @ c_space # rest) (se_object_kinds S (iter ps) ob @ ks)"
  by (cases ob) (simp_all add: str_simps lexes_compact lexes_label' lexes_se_literal readable_by_def)

lemma lexes_se_subject:
  "readable_by S iter ps \<Longrightarrow> lexable_subject S ps s \<Longrightarrow> lexes S (c_space # rest) ks \<Longrightarrow>
    lexes S (se_subject S iter ps s @ c_space # rest) (se_subject_kind S (iter ps) s # ks)"
  by (cases s) (simp_all add: str_simps lexes_compact lexes_label' readable_by_def)

lemma rdf_type_text: "lit ''http://www.w3.org/1999/02/22-rdf-syntax-ns#type'' = RDF_TYPE"
  by (rule RDF_TYPE_def [symmetric])

lemma lexes_se_predicate:
  assumes "readable_by S iter ps" "lexable_iri S ps p" "lexes S (c_space # rest) ks"
  shows "lexes S (se_predicate S iter ps p @ c_space # rest) (se_predicate_kind S (iter ps) p # ks)"
proof (cases "iri_value p = RDF_TYPE")
  case True
  have "lexes S (97 # c_space # rest) (KwA # ks)"
    using lexes_token [OF reads_a _ assms(3)] assms(1) by (simp add: readable_by_def)
  then show ?thesis
    by (simp add: se_predicate_def rdf_type_text se_predicate_kind_def True) (simp add: str_simps)
next
  case False
  then show ?thesis using assms lexes_compact [of S iter ps p rest ks]
    by (simp add: se_predicate_def rdf_type_text se_predicate_kind_def readable_by_def)
qed

text \<open>What is still to be written from a state of the serializer.\<close>

definition body_text :: "'f rust_std \<Rightarrow> prefix_order \<Rightarrow> triple list \<Rightarrow> turtle_ser \<Rightarrow> rstr" where
  "body_text S iter ts st = (let (y, st') = se_triples S iter ts st in y @ fst (se_finish st'))"

definition open_block :: "turtle_ser \<Rightarrow> rstr option \<Rightarrow> bool" where
  "open_block st cur \<longleftrightarrow> se_in_subject_block st = (cur \<noteq> None) \<and> (cur \<noteq> None \<longrightarrow> se_current_subject st = cur)"

lemma body_text_Cons:
  "se_triple S iter t st = (x, st') \<Longrightarrow> body_text S iter (t # ts) st = x @ body_text S iter ts st'"
  by (simp add: body_text_def Let_def split_def)

lemma body_text_space: "open_block st (Some s) \<Longrightarrow> \<exists>w. body_text S iter ts st = c_space # w"
proof (cases ts)
  case Nil
  assume "open_block st (Some s)"
  with Nil show ?thesis by (simp add: body_text_def open_block_def se_finish_def str_simps)
next
  case (Cons t ts')
  assume "open_block st (Some s)"
  with Cons show ?thesis
    by (simp add: body_text_def open_block_def se_triple_def Let_def split_def str_simps)
qed

lemma se_triple_state: "se_triple S iter t st = (x, st') \<Longrightarrow>
    open_block st cur \<Longrightarrow> se_prefixes st' = se_prefixes st \<and> open_block st' (Some (subject_string (t_subject t)))"
  by (auto simp: se_triple_def Let_def open_block_def split_def split: if_splits)

lemma se_triple_text:
  assumes "open_block st cur" and "se_triple S iter t st = (x, st')"
  shows "x = (if cur = Some (subject_string (t_subject t))
        then [c_space, c_semi, c_nl, c_space, c_space, c_space, c_space]
        else (if cur = None then [] else [c_space, c_dot, c_nl]) @ se_subject S iter (se_prefixes st) (t_subject t) @ [c_space]) @
      se_predicate S iter (se_prefixes st) (t_predicate t) @ c_space # se_object S iter (se_prefixes st) (t_object t)"
  using assms by (cases cur) (auto simp: se_triple_def Let_def open_block_def lit_Cons split: if_splits)

lemma lexes_body:
  assumes R: "readable_by S iter ps"
  shows "list_all (lexable_triple S ps) ts \<Longrightarrow> se_prefixes st = ps \<Longrightarrow> open_block st cur \<Longrightarrow>
    lexes S (body_text S iter ts st) (body_kinds S (iter ps) cur ts)"
proof (induction ts arbitrary: st cur)
  case Nil
  have dot: "lexes S (c_space # c_dot # [c_nl]) [Dot, Eof]"
    by (intro lexes_space lexes_token [OF reads_dot] lexes_end) simp
  show ?case using Nil dot by (auto simp: body_text_def open_block_def se_finish_def str_simps lexes_end)
next
  case (Cons t ts)
  let ?s = "subject_string (t_subject t)"
  obtain x st' where st': "se_triple S iter t st = (x, st')" by (cases "se_triple S iter t st")
  note step = se_triple_state [OF st' Cons.prems(3)]
  from step obtain w where w: "body_text S iter ts st' = c_space # w" using body_text_space by blast
  have t: "lexable_subject S ps (t_subject t)" "lexable_iri S ps (t_predicate t)" "lexable_object S ps (t_object t)"
    using Cons.prems(1) by (simp_all add: lexable_triple_def)
  have "lexes S (c_space # w) (body_kinds S (iter ps) (Some ?s) ts)"
    using Cons.IH [of st' "Some ?s"] Cons.prems step w by simp
  from lexes_se_object [OF R t(3) this]
  have "lexes S (c_space # se_object S iter ps (t_object t) @ c_space # w)
      (se_object_kinds S (iter ps) (t_object t) @ body_kinds S (iter ps) (Some ?s) ts)" by (rule lexes_space)
  from lexes_se_predicate [OF R t(2) this]
  have pair: "lexes S (se_predicate S iter ps (t_predicate t) @ c_space # se_object S iter ps (t_object t) @ c_space # w)
      (pair_kinds S (iter ps) t @ body_kinds S (iter ps) (Some ?s) ts)" (is "lexes S ?pair ?ks")
    by (simp add: pair_kinds_def)
  have semi: "lexes S (c_space # c_semi # c_nl # c_space # c_space # c_space # c_space # ?pair) (Semicolon # ?ks)"
    by (intro lexes_space lexes_token [OF reads_semicolon] pair) simp
  from lexes_se_subject [OF R t(1) lexes_space(1) [OF pair]]
  have subj: "lexes S (se_subject S iter ps (t_subject t) @ c_space # ?pair)
      (se_subject_kind S (iter ps) (t_subject t) # ?ks)" .
  have dot: "lexes S (c_space # c_dot # c_nl # se_subject S iter ps (t_subject t) @ c_space # ?pair)
      (Dot # se_subject_kind S (iter ps) (t_subject t) # ?ks)"
    by (intro lexes_space lexes_token [OF reads_dot] subj) simp
  have "body_text S iter (t # ts) st = x @ c_space # w" using body_text_Cons [OF st'] w by simp
  note full = this [unfolded se_triple_text [OF Cons.prems(3) st'] Cons.prems(2)]
  consider "cur = Some ?s" | "cur = None" | "cur \<noteq> None" "cur \<noteq> Some ?s" by blast
  then show ?case
  proof cases
    case 1
    then show ?thesis using semi full by (simp add: Let_def)
  next
    case 2
    then show ?thesis using subj full by (simp add: Let_def)
  next
    case 3
    then show ?thesis using dot full by (auto simp: Let_def)
  qed
qed

subsection \<open>The header\<close>

definition header_kinds :: "prefix_table \<Rightarrow> 'f token_kind list" where
  "header_kinds ps = concat (map (\<lambda>(p, i). [PrefixKeyword, PrefixedName p [], IriRef i, Dot]) (key_order ps))"

lemma reads_prefix_keyword:
  assumes S: "std_ok S"
  shows "reads S (lit ''@prefix'' @ c_space # rest) PrefixKeyword (c_space # rest)"
proof -
  have word: "stops (read_word S (p, lit ''prefix'' @ c_space # rest)) (lit ''prefix'') (c_space # rest)" for p
    unfolding read_word_def
    by (rule word_loop_stops) (simp_all add: space_class [OF S] ascii_pn [OF S] str_simps is_ascii_alphanumeric_def
        is_ascii_alphabetic_def)
  have low: "to_lowercase S (lit ''prefix'') = lit ''prefix''"
    using S by (simp add: std_ok_def str_simps ascii_lower_def)
  have at: "lit ''@prefix'' = c_at # lit ''prefix''" by (simp add: str_simps)
  show ?thesis unfolding at append_Cons
  proof (rule reads_intro)
    fix p :: lex_pos
    from word [of "adv_pos c_at p"] show "yields (read_kind S c_at (p, c_at # lit ''prefix'' @ c_space # rest)) PrefixKeyword (c_space # rest)"
      by (elim stopsE) (simp add: read_kind_def read_at_keyword_def low)
  qed (simp_all add: is_whitespace_def)
qed

lemma lexes_declaration:
  assumes S: "std_ok S" and r: "lexes S w ks" and p: "lexable_prefix S p" and i: "plain_iri (iri_new_unchecked i)"
  shows "lexes S ((lit ''@prefix '' @ p @ lit '': <'' @ i @ lit ''> .'' @ [c_nl]) @ w)
    ([PrefixKeyword, PrefixedName p [], IriRef i, Dot] @ ks)"
proof -
  have "lexes S (c_space # c_lt # i @ c_gt # c_space # c_dot # c_nl # w) (IriRef i # Dot # ks)"
    using lexes_token [OF reads_iri [OF i] _ lexes_space(1) [OF lexes_token [OF reads_dot _ lexes_space(2) [OF r]]]]
    by (intro lexes_space) simp
  from lexes_token [OF reads_prefixed [OF S name_end_space [OF S] p, of "[]"] _ this [unfolded append_Nil]]
  have "lexes S (c_space # p @ c_colon # c_space # c_lt # i @ c_gt # c_space # c_dot # c_nl # w)
      (PrefixedName p [] # IriRef i # Dot # ks)" by (simp add: lexes_space)
  from lexes_token [OF reads_prefix_keyword [OF S] _ this] show ?thesis by (simp add: str_simps)
qed

lemma lexes_declarations:
  "std_ok S \<Longrightarrow> lexes S w ks \<Longrightarrow> \<forall>(p, i) \<in> set l. lexable_prefix S p \<and> plain_iri (iri_new_unchecked i) \<Longrightarrow>
    lexes S (concat (map (\<lambda>(p, i). lit ''@prefix '' @ p @ lit '': <'' @ i @ lit ''> .'' @ [c_nl]) l) @ w)
      (concat (map (\<lambda>(p, i). [PrefixKeyword, PrefixedName p [], IriRef i, Dot]) l) @ ks)"
proof (induction l)
  case (Cons x l)
  obtain p i where x: "x = (p, i)" by (cases x)
  show ?case
    using lexes_declaration [OF Cons.prems(1), of _ _ p i] Cons by (simp add: x)
qed simp

lemma lexes_header:
  assumes R: "readable_by S iter ps" and r: "lexes S rest ks"
  shows "lexes S (prefix_lines ps @ rest) (header_kinds ps @ ks)"
proof -
  have "\<forall>(p, i) \<in> set (key_order ps). lexable_prefix S p \<and> plain_iri (iri_new_unchecked i)"
    using R hash_order_in_iff [OF hash_order_key_order, of _ _ ps] by (auto simp: readable_by_def lexable_table_def)
  from lexes_declarations [of S "(if fmdom ps \<noteq> {||} then [c_nl] else []) @ rest" ks, OF _ _ this] show ?thesis
    using r R by (simp add: prefix_lines_def header_kinds_def lexes_space readable_by_def)
qed

definition knows :: "turtle_parser \<Rightarrow> (rstr \<times> rstr) list \<Rightarrow> bool" where
  "knows st l \<longleftrightarrow> (\<forall>(p, ns) \<in> set l. reg_get_namespace (tp_namespaces st) p = Some ns)"

lemma directive_parses:
  assumes u: "upcoming ts pos (PrefixKeyword # PrefixedName p [] # IriRef i # Dot # ks)" and i: "plain_iri (iri_new_unchecked i)"
  shows "\<exists>pos'. parse_statement S n ts pos st = Inr (pos', st\<lparr>tp_namespaces := reg_add (tp_namespaces st) p i\<rparr>) \<and>
    upcoming ts pos' ks"
proof -
  have "iri_new i = Inr (iri_new_unchecked i)" using i by (simp add: plain_iri_def valid_iri_def)
  then show ?thesis using u
    by (auto simp: parse_statement_def tok_def upcoming_Cons parse_prefix_directive_def expect_prefix_decl_def
        expect_iri_ref_def lift_err_def skip_dot_def is_kind_def)
qed

definition add_all :: "(rstr \<times> rstr) list \<Rightarrow> turtle_parser \<Rightarrow> turtle_parser" where
  "add_all l st = st\<lparr>tp_namespaces := fold (\<lambda>(p, i) r. reg_add r p i) l (tp_namespaces st)\<rparr>"

lemma header_parses:
  "upcoming ts pos (concat (map (\<lambda>(p, i). [PrefixKeyword, PrefixedName p [], IriRef i, Dot]) l) @ ks) \<Longrightarrow>
    list_all (\<lambda>(p, i). plain_iri (iri_new_unchecked i)) l \<Longrightarrow> length l \<le> k \<Longrightarrow>
    \<exists>pos'. parse_loop S n k ts pos st = parse_loop S n (k - length l) ts pos' (add_all l st) \<and> upcoming ts pos' ks"
proof (induction l arbitrary: pos st k)
  case Nil
  then show ?case by (auto simp: add_all_def)
next
  case (Cons x l)
  obtain p i where x: "x = (p, i)" by (cases x)
  obtain k' where k: "k = Suc k'" "length l \<le> k'" using Cons.prems(3) by (cases k) simp_all
  let ?st = "st\<lparr>tp_namespaces := reg_add (tp_namespaces st) p i\<rparr>"
  from Cons.prems(1) x have u: "upcoming ts pos (PrefixKeyword # PrefixedName p [] # IriRef i # Dot #
      concat (map (\<lambda>(p, i). [PrefixKeyword, PrefixedName p [], IriRef i, Dot]) l) @ ks)" by simp
  from directive_parses [OF u, of S n st] Cons.prems(2) x obtain pos' where
    step: "parse_statement S n ts pos st = Inr (pos', ?st)"
    and u': "upcoming ts pos' (concat (map (\<lambda>(p, i). [PrefixKeyword, PrefixedName p [], IriRef i, Dot]) l) @ ks)" by auto
  have "pos < length ts" "tk_kind (ts ! pos) \<noteq> Eof" using u by (simp_all add: upcoming_Cons)
  then have "parse_loop S n k ts pos st = parse_loop S n k' ts pos' ?st" by (simp add: k(1) step)
  moreover have "add_all (x # l) st = add_all l ?st" by (simp add: add_all_def x)
  ultimately show ?case using Cons.IH [OF u' _ k(2), of ?st] Cons.prems(2) by (simp add: k(1))
qed

lemma add_all_knows:
  assumes "distinct (map fst l)"
  shows "knows (add_all l st) l"
proof -
  have other: "p \<notin> fst ` set l \<Longrightarrow> reg_get_namespace (fold (\<lambda>(p, i) r. reg_add r p i) l r) p = reg_get_namespace r p" for l r p
    by (induction l arbitrary: r) (auto simp: reg_get_add)
  have "(p, ns) \<in> set l \<Longrightarrow> reg_get_namespace (fold (\<lambda>(p, i) r. reg_add r p i) l r) p = Some ns" for p ns r
    using assms
  proof (induction l arbitrary: r)
    case (Cons x l)
    then show ?case using other [of p l] by (cases x) (auto simp: reg_get_add)
  qed simp
  then show ?thesis by (auto simp: knows_def add_all_def)
qed

subsection \<open>The body\<close>

lemma kind_resolves:
  assumes st: "plain_state st" and kn: "knows st l" and i: "plain_iri i"
  shows "kind_by ok l (iri_value i) = IriRef (iri_value i) \<or>
    (\<exists>p loc. kind_by ok l (iri_value i) = PrefixedName p loc \<and> expand_prefixed_name st p loc = Inr i)"
  using kn
proof (induction l)
  case (Cons x l)
  obtain p ns where x: "x = (p, ns)" by (cases x)
  have known: "reg_get_namespace (tp_namespaces st) p = Some ns" "knows st l"
    using Cons.prems x by (simp_all add: knows_def)
  show ?case
  proof (cases "prefix ns (iri_value i) \<and> ok (drop (length ns) (iri_value i))")
    case True
    then have "ns @ drop (length ns) (iri_value i) = iri_value i" by (auto simp: prefix_def)
    then have "expand_prefixed_name st p (drop (length ns) (iri_value i)) = Inr i"
      using i known by (simp add: expand_prefixed_name_def lift_err_def plain_iri_def valid_iri_def)
    then show ?thesis using True x by simp
  next
    case False
    then show ?thesis using Cons.IH [OF known(2)] x by auto
  qed
qed simp

lemma compact_resolves:
  assumes "plain_state st" "knows st l" "plain_iri i"
  shows "compact_kind S l (iri_value i) = IriRef (iri_value i) \<or>
    (\<exists>p loc. compact_kind S l (iri_value i) = PrefixedName p loc \<and> expand_prefixed_name st p loc = Inr i)"
  by (rule kind_resolves [OF assms])

lemma valid_iri_eq: "valid_iri i \<Longrightarrow> i = iri_new_unchecked (iri_value i)"
  by (simp add: valid_iri_def iri_new_Inr)

lemma se_predicate_parses:
  assumes "plain_state st" "knows st l" "plain_iri p" "upcoming ts pos (se_predicate_kind S l p # ks)"
  shows "parse_predicate ts pos st = Inr (p, Suc pos)"
proof (cases "iri_value p = RDF_TYPE")
  case True
  then show ?thesis using assms valid_iri_eq [of p]
    by (simp add: parse_predicate_def tok_def upcoming_Cons se_predicate_kind_def plain_iri_def)
next
  case False
  then show ?thesis using assms compact_resolves [OF assms(1-3), of S]
    by (auto simp: parse_predicate_def tok_def upcoming_Cons se_predicate_kind_def plain_iri_def resolve_plain)
qed

lemma se_subject_parses:
  assumes st: "plain_state st" and kn: "knows st l" and s: "lexable_subject S ps s"
    and u: "upcoming ts pos (se_subject_kind S l s # ks)"
  shows "\<exists>st'. parse_subject S n ts pos st 0 = Inr (subject_back (tp_scope st) s, Suc pos, st') \<and> only_blanks st st'"
proof (cases s)
  case (SubjIri i)
  then show ?thesis using assms compact_resolves [OF st kn, of i S]
    by (auto simp: parse_subject_def tok_def upcoming_Cons lexable_iri_def plain_iri_def resolve_plain only_blanks_def)
next
  case (SubjBlank b)
  with get_blank_maps [OF st, of "bn_label b"] u show ?thesis
    by (auto simp: parse_subject_def tok_def upcoming_Cons)
qed

lemma se_literal_parses:
  assumes st: "plain_state st" and kn: "knows st l" and x: "lexable_literal S ps x"
    and u: "upcoming ts pos (se_literal_kinds S l x @ k # ks)" and k: "k = Dot \<or> k = Semicolon"
  shows "\<exists>pos'. parse_object S (Suc n) ts pos st 0 = Inr (ObjLiteral (literal_back x), pos', st) \<and> upcoming ts pos' (k # ks)"
proof (cases "short_form x")
  case True
  then obtain d where d: "lit_datatype x = Some d" by (auto simp: short_form_def split: option.splits)
  then have bare: "bare_literal x" "lit_language x = None" "plain_iri d"
    using x True by (auto simp: lexable_literal_def lexable_iri_def split: option.splits)
  have de: "d = iri_new_unchecked (iri_value d)" using bare(3) by (simp add: plain_iri_def valid_iri_eq)
  have vals: "iri_value xsd_boolean \<noteq> xsd_string_iri" "iri_value xsd_integer \<noteq> xsd_string_iri"
    by (simp_all add: xsd_boolean_def xsd_integer_def xsd_datatype_def xsd_string_iri_def)
  show ?thesis
  proof (cases "iri_value d = iri_value xsd_boolean")
    case b: True
    then have v: "lit_value x = lit ''true'' \<or> lit_value x = lit ''false''"
      using True d by (simp add: short_form_def Let_def xsd_boolean_def xsd_datatype_def)
    have "d = xsd_boolean" using de b by (simp add: xsd_boolean_def xsd_datatype_def)
    then have "literal_back x = literal_boolean (lit_value x = lit ''true'')"
      using bare d vals v by (auto simp: literal_back_def literal_boolean_def)
    then show ?thesis using u True b d by (auto simp: se_literal_kinds_def upcoming_Cons tok_def)
  next
    case False
    then obtain i where i: "parse_i64 (lit_value x) = Some i" "show_int i = lit_value x" "iri_value d = iri_value xsd_integer"
      using bare d by (auto simp: bare_literal_def split: option.splits)
    have "d = xsd_integer" using de i by (simp add: xsd_integer_def xsd_datatype_def)
    then have "literal_back x = literal_integer i"
      using bare d vals i by (simp add: literal_back_def literal_integer_def)
    then show ?thesis using u True False d i by (auto simp: se_literal_kinds_def upcoming_Cons tok_def)
  qed
next
  case False
  from u False have head: "pos < length ts" "tk_kind (ts ! pos) = StringLiteral (lit_value x)"
    by (simp_all add: se_literal_kinds_def upcoming_Cons)
  have "\<exists>pos'. parse_literal ts pos st (lit_value x) = Inr (ObjLiteral (literal_back x), pos', st) \<and> upcoming ts pos' (k # ks)"
  proof (cases "lit_language x")
    case (Some g)
    then have "literal_with_language (lit_value x) g = Inr (literal_back x)"
      using x by (simp add: lexable_literal_def plain_lang_def literal_with_language_def literal_back_def)
    then show ?thesis using u Some False
      by (auto simp: se_literal_kinds_def upcoming_Cons parse_literal_def Let_def lift_err_def)
  next
    case None
    show ?thesis
    proof (cases "\<exists>d. lit_datatype x = Some d \<and> iri_value d \<noteq> xsd_string_iri")
      case True
      then obtain d where d: "lit_datatype x = Some d" "iri_value d \<noteq> xsd_string_iri" by blast
      then have "plain_iri d" using x None by (simp add: lexable_literal_def lexable_iri_def)
      then show ?thesis using u False None d compact_resolves [OF st kn, of d S]
        by (auto simp: se_literal_kinds_def upcoming_Cons parse_literal_def Let_def literal_back_def parse_datatype_iri_def
            tok_def resolve_plain st plain_iri_def)
    next
      case no: False
      then show ?thesis using u False None k
        by (auto simp: se_literal_kinds_def upcoming_Cons parse_literal_def Let_def literal_back_def split: option.splits)
    qed
  qed
  then show ?thesis using head by (auto simp: tok_def)
qed

lemma se_object_parses:
  assumes st: "plain_state st" and kn: "knows st l" and ob: "lexable_object S ps ob"
    and u: "upcoming ts pos (se_object_kinds S l ob @ k # ks)" and k: "k = Dot \<or> k = Semicolon"
  shows "\<exists>pos' st'. parse_object S (Suc n) ts pos st 0 = Inr (object_back (tp_scope st) ob, pos', st') \<and>
    only_blanks st st' \<and> upcoming ts pos' (k # ks)"
proof (cases ob)
  case (ObjIri i)
  then show ?thesis using assms compact_resolves [OF st kn, of i S]
    by (auto simp: tok_def upcoming_Cons lexable_iri_def plain_iri_def resolve_plain only_blanks_def)
next
  case (ObjBlank b)
  with get_blank_maps [OF st, of "bn_label b"] u show ?thesis
    by (auto simp: tok_def upcoming_Cons)
next
  case (ObjLiteral x)
  with se_literal_parses [OF st kn, of S ps x ts pos k ks n] ob u k st show ?thesis
    by (auto simp: only_blanks_def)
qed

lemma subject_string_inject:
  assumes "lexable_subject S ps s" "lexable_subject S ps s'" "subject_string s = subject_string s'"
  shows "s = s'"
proof (cases s; cases s')
  fix i j assume e: "s = SubjIri i" "s' = SubjIri j"
  then show ?thesis using assms valid_iri_eq [of i] valid_iri_eq [of j] by (simp add: lexable_iri_def plain_iri_def)
qed (use assms in \<open>auto dest: sym simp: prefix_def\<close>)

text \<open>What the parser has to be to continue, and what a part of the document adds to it.\<close>

definition going :: "turtle_parser \<Rightarrow> (rstr \<times> rstr) list \<Rightarrow> bool" where
  "going st l \<longleftrightarrow> plain_state st \<and> knows st l"

definition extends_by :: "turtle_parser \<Rightarrow> triple list \<Rightarrow> turtle_parser \<Rightarrow> bool" where
  "extends_by st ts st' \<longleftrightarrow> tp_scope st' = tp_scope st \<and> tp_namespaces st' = tp_namespaces st \<and> plain_state st' \<and>
     tp_triples st' = tp_triples st @ map (triple_back (tp_scope st)) ts"

lemma going_after: "going st l \<Longrightarrow> extends_by st ts st' \<Longrightarrow> going st' l"
  by (simp add: going_def extends_by_def knows_def)

lemma extends_trans: "extends_by st ts st1 \<Longrightarrow> extends_by st1 us st2 \<Longrightarrow> extends_by st (ts @ us) st2"
  by (simp add: extends_by_def)

lemma going_blanks: "going st l \<Longrightarrow> only_blanks st st' \<Longrightarrow> going st' l \<and> extends_by st [] st'"
  by (simp add: going_def only_blanks_def knows_def extends_by_def)

text \<open>One predicate with its object: the triple is pushed and the list goes on after a semicolon.\<close>

lemma pair_parses:
  assumes st: "going st l" and p: "plain_iri (t_predicate t)" and ob: "lexable_object S ps (t_object t)"
    and u: "upcoming ts pos (pair_kinds S l t @ k # ks)" and k: "k = Dot \<or> k = Semicolon"
    and n: "3 \<le> n" and subj: "subj = subject_back (tp_scope st) (t_subject t)"
  shows "\<exists>pos' st'. extends_by st [t] st' \<and> upcoming ts pos' (k # ks) \<and>
    parse_predicate_object_list S n ts pos subj st 0 =
      (if k = Semicolon then
         (let pos3 = skip_semicolons ts (pos' + 1)
          in if length ts \<le> pos3 then Inr (pos3, st')
             else if tk_kind (ts ! pos3) \<in> {Dot, CloseBracket, Eof} then Inr (pos3, st')
             else parse_predicate_object_list S (n - 1) ts pos3 subj st' 0)
       else Inr (pos', st'))"
proof -
  obtain m where m: "n = Suc (Suc (Suc m))" using n by (metis Suc_le_D numeral_3_eq_3 Suc_le_mono)
  have s: "plain_state st" "knows st l" using st by (simp_all add: going_def)
  from u have u1: "upcoming ts pos (se_predicate_kind S l (t_predicate t) # se_object_kinds S l (t_object t) @ k # ks)"
    by (simp add: pair_kinds_def)
  note pr = se_predicate_parses [OF s p u1]
  from u1 have "upcoming ts (Suc pos) (se_object_kinds S l (t_object t) @ k # ks)" by (simp add: upcoming_Cons)
  from se_object_parses [OF s ob this k, of m] obtain pos2 st2 where
    o2: "parse_object S (Suc m) ts (Suc pos) st 0 = Inr (object_back (tp_scope st) (t_object t), pos2, st2)"
    and b2: "only_blanks st st2" and u2: "upcoming ts pos2 (k # ks)" by blast
  have kind: "is_kind ts pos2 Semicolon = (k = Semicolon)" "\<not> is_kind ts pos2 Comma"
    using u2 k by (auto simp: upcoming_Cons is_kind_def)
  let ?st = "push_triple (triple_back (tp_scope st) t) st2"
  have "extends_by st [t] ?st" using b2 by (auto simp: extends_by_def only_blanks_def push_triple_def plain_state_def)
  moreover have "parse_object_list S (Suc (Suc m)) ts (Suc pos) subj (t_predicate t) st 0 = Inr (pos2, ?st)"
    using o2 kind(2) by (simp add: subj triple_back_def Let_def del: parse_object.simps)
  ultimately show ?thesis using u2 pr kind(1)
    unfolding m diff_Suc_1 by (intro exI [of _ pos2] exI [of _ ?st]) (simp del: parse_object_list.simps parse_object.simps)
qed

lemma kind_by_cases: "kind_by ok l v = IriRef v \<or> (\<exists>p loc. kind_by ok l v = PrefixedName p loc)"
  by (induction ok l v rule: kind_by.induct) simp_all

lemma compact_kind_cases: "compact_kind S l v = IriRef v \<or> (\<exists>p loc. compact_kind S l v = PrefixedName p loc)"
  by (rule kind_by_cases)

lemma predicate_kind_first:
  "se_predicate_kind S l p \<noteq> Semicolon \<and> se_predicate_kind S l p \<notin> {Dot, CloseBracket, Eof}"
  using compact_kind_cases [of S l "iri_value p"] by (auto simp: se_predicate_kind_def)

lemma subject_kind_first:
  "(\<exists>v. se_subject_kind S l s = IriRef v) \<or> (\<exists>p loc. se_subject_kind S l s = PrefixedName p loc) \<or>
    (\<exists>v. se_subject_kind S l s = BlankNodeLabel v)"
  by (cases s) (use compact_kind_cases [of S l] in auto)

lemma pairs_parse:
  "going st l \<Longrightarrow> list_all (lexable_triple S ps) (t # ts) \<Longrightarrow> subj = subject_back (tp_scope st) (t_subject t) \<Longrightarrow>
    upcoming tks pos (pair_kinds S l t @ body_kinds S l (Some (subject_string (t_subject t))) ts) \<Longrightarrow> length ts + 3 \<le> n \<Longrightarrow>
    \<exists>pos' st' k. parse_predicate_object_list S n tks pos subj st 0 = Inr (pos', st') \<and> extends_by st (t # take k ts) st' \<and>
      upcoming tks pos' (Dot # body_kinds S l None (drop k ts))"
proof (induction ts arbitrary: t pos st n)
  case Nil
  then have p: "plain_iri (t_predicate t)" "lexable_object S ps (t_object t)" "3 \<le> n"
    by (simp_all add: lexable_triple_def lexable_iri_def)
  from pair_parses [OF Nil(1) p(1,2) _ _ p(3) Nil(3), of tks pos Dot "[Eof]"] Nil(4) show ?case by auto
next
  case (Cons t' ts)
  then have p: "plain_iri (t_predicate t)" "lexable_object S ps (t_object t)" "3 \<le> n"
    by (simp_all add: lexable_triple_def lexable_iri_def)
  note pair = pair_parses [OF Cons.prems(1) p(1,2) _ _ p(3) Cons.prems(3), of tks pos]
  show ?case
  proof (cases "subject_string (t_subject t') = subject_string (t_subject t)")
    case False
    then have "upcoming tks pos (pair_kinds S l t @ Dot # body_kinds S l None (t' # ts))"
      using Cons.prems(4) by (simp add: Let_def)
    from pair [OF this] obtain pos' st' where "extends_by st [t] st'" "upcoming tks pos' (Dot # body_kinds S l None (t' # ts))"
      "parse_predicate_object_list S n tks pos subj st 0 = Inr (pos', st')" by auto
    then show ?thesis by (intro exI [of _ pos'] exI [of _ st'] exI [of _ 0]) simp
  next
    case True
    then have same: "t_subject t' = t_subject t"
      using Cons.prems(2) by (auto simp: lexable_triple_def intro: subject_string_inject)
    let ?rest = "pair_kinds S l t' @ body_kinds S l (Some (subject_string (t_subject t'))) ts"
    from True Cons.prems(4) have "upcoming tks pos (pair_kinds S l t @ Semicolon # ?rest)" by (simp add: Let_def)
    from pair [OF this] obtain pos2 st2 where ext: "extends_by st [t] st2" and u2: "upcoming tks pos2 (Semicolon # ?rest)"
      and pol: "parse_predicate_object_list S n tks pos subj st 0 =
        (let pos3 = skip_semicolons tks (pos2 + 1)
          in if length tks \<le> pos3 then Inr (pos3, st2)
             else if tk_kind (tks ! pos3) \<in> {Dot, CloseBracket, Eof} then Inr (pos3, st2)
             else parse_predicate_object_list S (n - 1) tks pos3 subj st2 0)" by auto
    from u2 have u3: "upcoming tks (Suc pos2) ?rest" and inside: "Suc pos2 < length tks"
      and kind: "tk_kind (tks ! Suc pos2) = se_predicate_kind S l (t_predicate t')"
      by (simp_all add: upcoming_Cons pair_kinds_def)
    have "skip_semicolons tks (pos2 + 1) = Suc pos2"
      using kind predicate_kind_first [of S l "t_predicate t'"] by (subst skip_semicolons.simps) (simp add: is_kind_def)
    then have "parse_predicate_object_list S n tks pos subj st 0 = parse_predicate_object_list S (n - 1) tks (Suc pos2) subj st2 0"
      using pol inside kind predicate_kind_first [of S l "t_predicate t'"] by (simp add: Let_def)
    moreover have "tp_scope st2 = tp_scope st" using ext by (simp add: extends_by_def)
    ultimately show ?thesis
      using Cons.IH [OF going_after [OF Cons.prems(1) ext], of t' "Suc pos2" "n - 1"] u3 Cons.prems(2,3,5) same
        extends_trans [OF ext]
      by (fastforce intro: exI [of _ "Suc _"])
  qed
qed

lemma body_parses:
  "going st l \<Longrightarrow> list_all (lexable_triple S ps) ts \<Longrightarrow> upcoming tks pos (body_kinds S l None ts) \<Longrightarrow>
    length ts + 4 \<le> n \<Longrightarrow> length ts < k \<Longrightarrow>
    \<exists>st'. parse_loop S n k tks pos st = Inr st' \<and> extends_by st ts st'"
proof (induction "length ts" arbitrary: ts pos st k rule: less_induct)
  case less
  show ?case
  proof (cases ts)
    case Nil
    then show ?thesis using less.prems by (cases k) (auto simp: upcoming_Cons extends_by_def going_def)
  next
    case (Cons t us)
    obtain k' where k: "k = Suc k'" "length us < k'" using less.prems(5) Cons by (cases k) simp_all
    let ?s = "subject_string (t_subject t)"
    from less.prems(3) Cons have u: "upcoming tks pos (se_subject_kind S l (t_subject t) # pair_kinds S l t @
        body_kinds S l (Some ?s) us)" by (simp add: Let_def)
    have s: "lexable_subject S ps (t_subject t)" using less.prems(2) Cons by (simp add: lexable_triple_def)
    from less.prems(1) have st: "plain_state st" "knows st l" by (simp_all add: going_def)
    from se_subject_parses [OF st s u, of n] obtain st1 where
      s1: "parse_subject S n tks pos st 0 = Inr (subject_back (tp_scope st) (t_subject t), Suc pos, st1)"
      and b1: "only_blanks st st1" by blast
    from going_blanks [OF less.prems(1) b1] have g1: "going st1 l" and e1: "extends_by st [] st1" by simp_all
    from u have u1: "upcoming tks (Suc pos) (pair_kinds S l t @ body_kinds S l (Some ?s) us)"
      and inside: "pos < length tks" and kind: "tk_kind (tks ! pos) = se_subject_kind S l (t_subject t)"
      by (simp_all add: upcoming_Cons)
    have "subject_back (tp_scope st) (t_subject t) = subject_back (tp_scope st1) (t_subject t)"
      using b1 by (simp add: only_blanks_def)
    from pairs_parse [OF g1 _ this u1, of ps n] less.prems(2,4) Cons obtain pos2 st2 j where
      p2: "parse_predicate_object_list S n tks (Suc pos) (subject_back (tp_scope st) (t_subject t)) st1 0 = Inr (pos2, st2)"
      and e2: "extends_by st1 (t # take j us) st2" and u2: "upcoming tks pos2 (Dot # body_kinds S l None (drop j us))" by auto
    from u2 have dot: "skip_dot tks pos2 = Suc pos2" and u3: "upcoming tks (Suc pos2) (body_kinds S l None (drop j us))"
      by (simp_all add: skip_dot_def is_kind_def upcoming_Cons)
    have "parse_statement S n tks pos st = parse_triples S n tks pos st"
      using inside kind subject_kind_first [of S l "t_subject t"] by (auto simp: parse_statement_def tok_def)
    then have "parse_statement S n tks pos st = Inr (Suc pos2, st2)"
      using s1 p2 dot by (simp add: parse_triples_def)
    moreover have "tk_kind (tks ! pos) \<noteq> Eof"
      using kind subject_kind_first [of S l "t_subject t"] by auto
    ultimately have "parse_loop S n k tks pos st = parse_loop S n k' tks (Suc pos2) st2"
      using inside by (simp add: k(1))
    moreover have ext: "extends_by st (t # take j us) st2" using extends_trans [OF e1 e2] by simp
    moreover have "\<exists>st'. parse_loop S n k' tks (Suc pos2) st2 = Inr st' \<and> extends_by st2 (drop j us) st'"
    proof (rule less.hyps [OF _ going_after [OF less.prems(1) ext] _ u3])
      show "list_all (lexable_triple S ps) (drop j us)"
        using less.prems(2) Cons by (auto simp: list_all_iff dest: in_set_dropD)
    qed (use less.prems(4) Cons k in simp_all)
    ultimately show ?thesis using extends_trans [OF ext] Cons by (metis append_Cons append_take_drop_id)
  qed
qed

subsection \<open>The round trip\<close>

definition serializer_with :: "prefix_table \<Rightarrow> turtle_ser" where
  "serializer_with ps = se_new\<lparr>se_prefixes := ps\<rparr>"

lemma turtle_text_lexes:
  assumes R: "readable_by S iter ps" and ts: "list_all (lexable_triple S ps) ts"
  shows "lexes S (fst (se_graph S iter ts (serializer_with ps))) (header_kinds ps @ body_kinds S (iter ps) None ts)"
proof -
  let ?st = "(serializer_with ps)\<lparr>se_header_written := True\<rparr>"
  have "fst (se_graph S iter ts (serializer_with ps)) = prefix_lines ps @ body_text S iter ts ?st"
    by (simp add: se_graph_def se_header_def serializer_with_def se_new_def body_text_def Let_def split_def)
  moreover have "lexes S (body_text S iter ts ?st) (body_kinds S (iter ps) None ts)"
    by (rule lexes_body [OF R ts]) (simp_all add: serializer_with_def se_new_def open_block_def)
  ultimately show ?thesis using lexes_header [OF R] by simp
qed

lemma kinds_length:
  "length ts + 1 \<le> length (body_kinds S l cur ts)" "4 * length (key_order ps) \<le> length (header_kinds ps :: 'f token_kind list)"
proof -
  show "length ts + 1 \<le> length (body_kinds S l cur ts)"
    by (induction ts arbitrary: cur) (simp_all add: Let_def pair_kinds_def le_SucI trans_le_add2)
  have "length (concat (map (\<lambda>(p, i). [PrefixKeyword, PrefixedName p [], IriRef i, Dot :: 'f token_kind]) l)) = 4 * length l" for l
    by (induction l) auto
  then show "4 * length (key_order ps) \<le> length (header_kinds ps :: 'f token_kind list)"
    by (simp only: header_kinds_def order.refl)
qed

lemma turtle_text_parses:
  fixes S :: "'f rust_std"
  assumes R: "readable_by S iter ps" and ts: "list_all (lexable_triple S ps) ts" and st: "plain_state st"
  shows "\<exists>st'. turtle_parse S st (fst (se_graph S iter ts (serializer_with ps))) =
    Inr (map (triple_back (tp_scope st)) ts, st')"
proof -
  let ?l = "key_order ps"
  from turtle_text_lexes [OF R ts] obtain tks where
    tks: "tokenize S (lexer_new (fst (se_graph S iter ts (serializer_with ps)))) = Some (Inr tks)"
      "map tk_kind tks = header_kinds ps @ body_kinds S (iter ps) None ts"
    unfolding lexes_def lexer_new_def by blast
  have len: "length ts + 4 * length ?l + 1 \<le> length tks"
    using kinds_length(1) [of ts S "iter ps" None] kinds_length(2) [of ps, where 'f = 'f] arg_cong [OF tks(2), of length] by simp
  have up: "upcoming tks 0 (concat (map (\<lambda>(p, i). [PrefixKeyword, PrefixedName p [], IriRef i, Dot]) ?l) @
      body_kinds S (iter ps) None ts)" using tks(2) by (simp add: upcoming_def header_kinds_def)
  let ?st0 = "st\<lparr>tp_triples := []\<rparr>"
  have "list_all (\<lambda>(p, i). plain_iri (iri_new_unchecked i)) ?l"
    using R hash_order_in_iff [OF hash_order_key_order, of _ _ ps] by (auto simp: readable_by_def lexable_table_def list_all_iff)
  from header_parses [OF up this, of "length tks + 1" S "fuel_for tks" ?st0] len obtain pos where
    head: "parse_loop S (fuel_for tks) (length tks + 1) tks 0 ?st0 =
        parse_loop S (fuel_for tks) (length tks + 1 - length ?l) tks pos (add_all ?l ?st0)"
    and u: "upcoming tks pos (body_kinds S (iter ps) None ts)" by auto
  have "knows (add_all ?l ?st0) ?l" by (rule add_all_knows) (rule hash_order_distinct [OF hash_order_key_order])
  moreover have "set ?l = set (iter ps)"
    using R hash_order_in_iff [of iter] hash_order_in_iff [OF hash_order_key_order, of _ _ ps] by (auto simp: readable_by_def)
  ultimately have "going (add_all ?l ?st0) (iter ps)"
    using st by (simp add: going_def knows_def add_all_def plain_state_def)
  moreover have "length ts < length tks + 1 - length ?l" using len by arith
  ultimately have "\<exists>st'. parse_loop S (fuel_for tks) (length tks + 1 - length ?l) tks pos (add_all ?l ?st0) = Inr st' \<and>
      extends_by (add_all ?l ?st0) ts st'"
    using len by (intro body_parses [OF _ ts u]) (simp_all add: fuel_for_def)
  then obtain st' where
    "parse_loop S (fuel_for tks) (length tks + 1) tks 0 ?st0 = Inr st'" "extends_by (add_all ?l ?st0) ts st'"
    unfolding head by blast
  then show ?thesis by (simp add: turtle_parse_def tks(1) parse_tokens_def extends_by_def add_all_def)
qed

text \<open>C23: Turtle output is read back, under conditions that the text must meet. The table of prefixes must be
  lexable: prefixes are names that are neither the directives nor booleans, namespaces valid IRIs without backslash and white space. The
  triples must be lexable: IRIs are valid, without backslash and white space, and where one is abbreviated its local name is a name of the lexer,
  so it does not end in a dot or hold two in a row; a subject IRI does not start with \<open>_:\<close>; labels are names without dots; texts
  hold no control character besides tab, line feed and carriage return; a literal with a language has no datatype, and its tag is well formed and no directive keyword; of the literals that
  are written bare only booleans and integers in canonical spelling are covered, no decimals and no doubles. Then for every
  order in which the prefix map is searched a fresh Turtle parser returns from the complete output of the serializer
  (header, triples grouped by subject, abbreviated names, bare literals) exactly these triples in their order, with
  blank nodes renamed by the parser's scope and \<open>xsd:string\<close> literals plain. Some of what is excluded does come back changed: see the theory of the
  serializer's faults.\<close>

theorem turtle_read_back:
  assumes "std_ok S" "hash_order iter" "lexable_table S ps" "list_all (lexable_triple S ps) ts"
  shows "\<exists>st'. turtle_parse S (fst (tp_new g)) (fst (se_graph S iter ts (serializer_with ps))) =
    Inr (map (triple_back (tp_scope (fst (tp_new g)))) ts, st')"
  by (rule turtle_text_parses) (simp_all add: assms readable_by_def tp_new_def scope_generate_def plain_state_def)

definition sample_prefixes :: prefix_table where
  "sample_prefixes = fmupd (lit ''ex'') (lit ''http://e/'') fmempty"

definition sample_graph :: "triple list" where
  "sample_graph = [triple_new (SubjIri (iri_new_unchecked (lit ''http://e/s''))) (iri_new_unchecked RDF_TYPE)
       (ObjIri (iri_new_unchecked (lit ''http://e/C.1''))),
     triple_new (SubjIri (iri_new_unchecked (lit ''http://e/s''))) (iri_new_unchecked (lit ''http://e/n''))
       (ObjLiteral (literal_with_datatype (lit ''-5'') xsd_integer)),
     triple_new (SubjBlank (bn_new (lit ''x''))) (iri_new_unchecked (lit ''http://e/l''))
       (ObjLiteral \<lparr>lit_value = [97, c_nl, c_dquote], lit_datatype = None, lit_language = Some (lit ''en'')\<rparr>)]"

lemma sample_prefixes_lexable: "lexable_table ascii_std sample_prefixes"
  by (simp add: lexable_table_def sample_prefixes_def lexable_prefix_def plain_iri_unchecked valid_iri_text_def
      ascii_std_def is_pn_chars_def is_pn_chars_u_def is_pn_chars_base_def char_class_defs ascii_lower_def str_simps)

lemma lexable_iri_sample:
  assumes "valid_iri_text v" "list_all (\<lambda>c. \<not> is_whitespace c \<and> c \<noteq> c_bslash) v"
    "prefix (lit ''http://e/'') v \<longrightarrow> lexable_local ascii_std (drop (length (lit ''http://e/'')) v)"
  shows "lexable_iri ascii_std sample_prefixes (iri_new_unchecked v)"
  using assms by (auto simp: lexable_iri_def sample_prefixes_def plain_iri_unchecked split: if_splits)

lemma sample_iris_lexable:
  "lexable_iri ascii_std sample_prefixes (iri_new_unchecked (lit ''http://e/s''))"
  "lexable_iri ascii_std sample_prefixes (iri_new_unchecked (lit ''http://e/n''))"
  "lexable_iri ascii_std sample_prefixes (iri_new_unchecked (lit ''http://e/l''))"
  "lexable_iri ascii_std sample_prefixes (iri_new_unchecked (lit ''http://e/C.1''))"
  "lexable_iri ascii_std sample_prefixes (iri_new_unchecked RDF_TYPE)"
  "lexable_iri ascii_std sample_prefixes xsd_integer"
  unfolding xsd_integer_def xsd_datatype_def xsd_namespace_def RDF_TYPE_def
  by (rule lexable_iri_sample; simp add: valid_iri_text_def ascii_std_def is_pn_chars_def is_pn_chars_u_def
      is_pn_chars_base_def char_class_defs str_simps)+

lemma sample_graph_lexable: "list_all (lexable_triple ascii_std sample_prefixes) sample_graph"
proof -
  have "parse_i64 (show_int (- 5)) = Some (- 5)"
    unfolding parse_i64_def by (rule parse_signed_show_int) simp_all
  moreover have "show_int (- 5) = lit ''-5''" by (simp add: show_int_def str_simps show_nat.simps)
  ultimately have "bare_literal (literal_with_datatype (lit ''-5'') xsd_integer)"
    by (simp add: bare_literal_def literal_with_datatype_def)
  moreover have "plain_text (lit ''-5'')" "plain_text [97, c_nl, c_dquote]" "\<not> prefix (lit ''_:'') (lit ''http://e/s'')"
    by (simp_all add: plain_text_def is_control_def str_simps)
  moreover have "plain_lang ascii_std (lit ''en'')"
    by (simp add: plain_lang_def validate_language_tag_def ascii_std_def char_class_defs ascii_lower_def str_simps)
  moreover have "plain_label ascii_std (lit ''x'')"
    by (simp add: ascii_std_def is_pn_chars_def is_pn_chars_u_def is_pn_chars_base_def char_class_defs str_simps)
  ultimately show ?thesis
    by (simp add: sample_graph_def lexable_triple_def triple_new_def sample_iris_lexable lexable_literal_def bn_new_def
        literal_with_datatype_def)
qed

theorem turtle_read_back_witness:
  "\<exists>st'. turtle_parse ascii_std (fst (tp_new 7)) (fst (se_graph ascii_std key_order sample_graph (serializer_with sample_prefixes))) =
    Inr (map (triple_back (tp_scope (fst (tp_new 7)))) sample_graph, st')"
  by (rule turtle_read_back [OF ascii_std_ok hash_order_key_order sample_prefixes_lexable sample_graph_lexable])

end
