(* ===== verification/SerializerFacts.thy ===== *)
theory SerializerFacts
  imports TurtleRoundTrip
begin

section \<open>What the serializers lose\<close>

text \<open>
  Outputs that the library's own Turtle parser reads as something else than what was written.
\<close>

text \<open>A double with a point and no exponent is written bare; Turtle, and the lexer, read it as
  a decimal.\<close>

lemma bare_double_is_decimal:
  assumes "parse_f64 S (lit ''1.5'') = Some f"
  shows "se_literal S iter ps (literal_double (lit ''1.5'')) = lit ''1.5''"
    "read_kind S 49 ((1, 1), lit ''1.5'' @ [c_space]) = Inr (DecimalTok f, ((1, 4), [c_space]))"
proof -
  have "parses_f64 (lit ''1.5'')" by code_simp
  then show "se_literal S iter ps (literal_double (lit ''1.5'')) = lit ''1.5''"
    by (simp add: se_literal_def short_form_def literal_double_def literal_with_datatype_def xsd_double_def xsd_datatype_def
        Let_def) (simp add: str_simps)
  show "read_kind S 49 ((1, 1), lit ''1.5'' @ [c_space]) = Inr (DecimalTok f, ((1, 4), [c_space]))"
    using assms by (simp add: read_kind_def read_number_def read_sign_def read_digits_def read_exponent_def is_ascii_digit_def
        str_simps adv_pos_def)
qed

text \<open>An integer written bare comes back in its canonical spelling.\<close>

lemma bare_integer_respelled:
  "se_literal S iter ps (literal_with_datatype (lit ''007'') xsd_integer) = lit ''007''"
  "parse_i64 (lit ''007'') = Some 7" "literal_integer 7 = literal_with_datatype (lit ''7'') xsd_integer"
proof -
  show p: "parse_i64 (lit ''007'') = Some 7"
    by (simp add: parse_i64_def parse_signed_def digits_value_def all_digits_def is_ascii_digit_def str_simps)
  show "se_literal S iter ps (literal_with_datatype (lit ''007'') xsd_integer) = lit ''007''"
    by (simp add: se_literal_def short_form_def literal_with_datatype_def xsd_integer_def xsd_datatype_def Let_def p)
  show "literal_integer 7 = literal_with_datatype (lit ''7'') xsd_integer"
    by (simp add: literal_integer_def show_int_def show_nat.simps str_simps)
qed

text \<open>A local name may end in a dot for the serializer; the lexer drops that dot, so the IRI comes back shorter.\<close>

lemma trailing_dot_lost:
  assumes S: "std_ok S"
  shows "compact_with S [(lit ''ex'', lit ''http://e/'')] (lit ''http://e/a.'') = lit ''ex:a.''"
    "prefixed_token S (lit ''ex'') ((1, 4), lit ''a. '') = Inr (PrefixedName (lit ''ex'') (lit ''a''), ((1, 6), [c_space]))"
  using space_class [OF S] ascii_pn [OF S]
  by (simp_all add: turtle_local_name_def prefixed_token_def read_pn_local_def Let_def is_pn_chars_def is_pn_chars_u_def
      char_class_defs adv_pos_def str_simps)

text \<open>A control character is written as an escape of four hexadecimal digits, of which the lexer drops the backslash only.\<close>

lemma control_escape_not_decoded:
  "escape_string [1] = c_bslash # lit ''u0001''"
  "yields (string_loop c_dquote False (p, (c_bslash # lit ''u0001'') @ [c_dquote]) []) (lit ''u0001'') []"
  by (simp_all add: escape_string_def is_control_def upper_hex4_def upper_hex_def unescape_def str_simps)

text \<open>An IRI that starts like a blank node and that blank node have the same key: the second subject is not written.\<close>

lemma blank_subject_merged:
  "fst (se_triple S iter (triple_new (SubjBlank (bn_new (lit ''x''))) p ob)
     (snd (se_triple S iter (triple_new (SubjIri (iri_new_unchecked (lit ''_:x''))) q oc) se_new))) =
   lit '' ;'' @ [c_nl] @ lit ''    '' @ se_predicate S iter fmempty p @ [c_space] @ se_object S iter fmempty ob"
  by (simp add: se_triple_def triple_new_def bn_new_def se_new_def Let_def str_simps)

text \<open>TriG output that goes from the default graph to a named one: the last triple of the default graph is never ended.\<close>

lemma trig_switch_unterminated:
  assumes iter: "hash_order iter"
  defines "t \<equiv> triple_new (SubjIri (iri_new_unchecked (lit ''http://e/s''))) (iri_new_unchecked (lit ''http://e/p''))
      (ObjIri (iri_new_unchecked (lit ''http://e/o'')))"
  shows "fst (tg_quads S iter [\<lparr>q_triple = t, q_graph = None\<rparr>,
        \<lparr>q_triple = t, q_graph = Some (GraphIri (iri_new_unchecked (lit ''http://e/g'')))\<rparr>] tg_new) =
    lit ''<http://e/s> <http://e/p> <http://e/o>'' @ lit ''GRAPH <http://e/g> {'' @ [c_nl] @ lit ''  '' @
    lit ''<http://e/s> <http://e/p> <http://e/o>''"
proof -
  have "iter fmempty = []"
    using hash_order_in_iff [OF iter, of _ _ fmempty] by (cases "iter fmempty") auto
  then show ?thesis
    by (simp add: t_def tg_quad_def tg_new_def graph_string_def close_graph_def se_add_prefixes_def se_triple_def se_new_def
        triple_new_def Let_def se_predicate_def se_compact_def str_simps)
qed

end
