(* ===== verification/Export.thy ===== *)
theory Export
  imports Serializer ResultFormats
begin

section \<open>RDF exporters (parser/src/export)\<close>

text \<open>
  The second family of writers: N-Triples, N-Quads, Turtle and JSON-LD. A writer is the text
  it writes; sinks that fail are left out. Turtle and JSON-LD group their triples in hash
  maps, whose iteration orders are arguments.
\<close>

subsection \<open>Formats (mod.rs)\<close>

datatype export_format = XNTriples | XNQuads | XTurtle | XJsonLd

fun xf_mime_type :: "export_format \<Rightarrow> rstr" where
  "xf_mime_type XNTriples = lit ''text/n-triples''"
| "xf_mime_type XNQuads = lit ''text/n-quads''"
| "xf_mime_type XTurtle = lit ''text/turtle''"
| "xf_mime_type XJsonLd = lit ''application/ld+json''"

fun xf_extension :: "export_format \<Rightarrow> rstr" where
  "xf_extension XNTriples = lit ''nt''" | "xf_extension XNQuads = lit ''nq''"
| "xf_extension XTurtle = lit ''ttl''" | "xf_extension XJsonLd = lit ''jsonld''"

subsection \<open>N-Triples (ntriples.rs)\<close>

definition u_escape :: "rchar \<Rightarrow> rstr" where
  "u_escape c = [c_bslash, 117] @ upper_hex4 c"

fun xnt_iri_char :: "rchar \<Rightarrow> rstr" where
  "xnt_iri_char c =
     (if c \<in> {c_lt, c_gt, c_dquote, 123, 125, 124, c_caret, c_backtick, c_bslash, c_space} then u_escape c
      else if is_control c then u_escape c else [c])"

definition xnt_escaped_iri :: "rstr \<Rightarrow> rstr" where
  "xnt_escaped_iri s = concat (map xnt_iri_char s)"

definition xnt_iri :: "iri \<Rightarrow> rstr" where
  "xnt_iri i = [c_lt] @ xnt_escaped_iri (iri_value i) @ [c_gt]"

definition xnt_blank :: "blank_node \<Rightarrow> rstr" where
  "xnt_blank b = lit ''_:'' @ bn_label b"

text \<open>No character with \<open>is_control\<close> is above 0xFFFF, so the eight-digit form is never written.\<close>

fun xnt_string_char :: "rchar \<Rightarrow> rstr" where
  "xnt_string_char c =
     (if c = c_bslash then [c_bslash, c_bslash] else if c = c_dquote then [c_bslash, c_dquote]
      else if c = c_nl then [c_bslash, 110] else if c = c_cr then [c_bslash, 114]
      else if c = c_tab then [c_bslash, 116]
      else if is_control c then u_escape c else [c])"

definition xnt_escaped_string :: "rstr \<Rightarrow> rstr" where
  "xnt_escaped_string s = concat (map xnt_string_char s)"

definition xnt_literal :: "literal \<Rightarrow> rstr" where
  "xnt_literal l = [c_dquote] @ xnt_escaped_string (lit_value l) @ [c_dquote] @
     (case lit_language l of Some lang \<Rightarrow> [c_at] @ lang
      | None \<Rightarrow> (let dt = iri_value (literal_datatype l)
                in if dt \<noteq> xsd_string_iri then lit ''^^<'' @ xnt_escaped_iri dt @ [c_gt] else []))"

fun xnt_subject :: "subject \<Rightarrow> rstr" where
  "xnt_subject (SubjIri i) = xnt_iri i" | "xnt_subject (SubjBlank b) = xnt_blank b"

fun xnt_object :: "object \<Rightarrow> rstr" where
  "xnt_object (ObjIri i) = xnt_iri i" | "xnt_object (ObjBlank b) = xnt_blank b" | "xnt_object (ObjLiteral l) = xnt_literal l"

definition xnt_triple :: "triple \<Rightarrow> rstr" where
  "xnt_triple t = xnt_subject (t_subject t) @ [c_space] @ xnt_iri (t_predicate t) @ [c_space] @
     xnt_object (t_object t) @ lit '' .'' @ [c_nl]"

text \<open>\<open>write_triples\<close> of the trait.\<close>

definition xnt_triples :: "triple list \<Rightarrow> rstr" where
  "xnt_triples ts = concat (map xnt_triple ts)"

definition write_ntriples :: "triple list \<Rightarrow> rstr" where
  "write_ntriples ts = xnt_triples ts"

text \<open>The streaming writer: its output so far and its count.\<close>

record nt_stream =
  xs_output :: rstr
  xs_count :: nat

definition xnt_stream_new :: "rstr \<Rightarrow> nt_stream" where
  "xnt_stream_new out = \<lparr>xs_output = out, xs_count = 0\<rparr>"

definition xnt_stream_write :: "triple \<Rightarrow> nt_stream \<Rightarrow> nt_stream" where
  "xnt_stream_write t s = \<lparr>xs_output = xs_output s @ xnt_triple t, xs_count = xs_count s + 1\<rparr>"

definition xnt_stream_count :: "nt_stream \<Rightarrow> nat" where
  "xnt_stream_count s = xs_count s"

definition write_ntriples_streaming :: "rstr \<Rightarrow> triple list \<Rightarrow> rstr \<times> nat" where
  "write_ntriples_streaming out ts =
     (let s = fold xnt_stream_write ts (xnt_stream_new out) in (xs_output s, xnt_stream_count s))"

subsection \<open>N-Quads (nquads.rs)\<close>

definition xnq_escaped_iri :: "rstr \<Rightarrow> rstr" where
  "xnq_escaped_iri s = concat (map (\<lambda>c.
     if c \<in> {c_lt, c_gt, c_dquote, 123, 125, 124, c_caret, c_backtick, c_bslash, c_space} \<or> is_control c then u_escape c
     else [c]) s)"

fun xnq_graph :: "graph_name \<Rightarrow> rstr" where
  "xnq_graph (GraphIri i) = [c_lt] @ xnq_escaped_iri (iri_value i) @ [c_gt]"
| "xnq_graph (GraphBlank b) = lit ''_:'' @ bn_label b"

definition xnq_escaped_string :: "rstr \<Rightarrow> rstr" where
  "xnq_escaped_string s = concat (map (\<lambda>c.
     if c = c_bslash \<or> c = c_dquote then [c_bslash, c] else if c = c_nl then [c_bslash, 110]
     else if c = c_cr then [c_bslash, 114] else if c = c_tab then [c_bslash, 116]
     else if is_control c then u_escape c else [c]) s)"

text \<open>\<open>write_quad\<close> of the trait, over the N-Triples writer.\<close>

definition xnq_quad_trait :: "quad \<Rightarrow> rstr" where
  "xnq_quad_trait q = xnt_triple (q_triple q)"

definition xnq_quad_direct :: "quad \<Rightarrow> rstr" where
  "xnq_quad_direct q = (let t = q_triple q in
     (case t_subject t of SubjIri i \<Rightarrow> [c_lt] @ xnq_escaped_iri (iri_value i) @ [c_gt] | SubjBlank b \<Rightarrow> lit ''_:'' @ bn_label b) @
     [c_space] @ [c_lt] @ xnq_escaped_iri (iri_value (t_predicate t)) @ [c_gt] @ [c_space] @
     (case t_object t of
        ObjIri i \<Rightarrow> [c_lt] @ xnq_escaped_iri (iri_value i) @ [c_gt]
      | ObjBlank b \<Rightarrow> lit ''_:'' @ bn_label b
      | ObjLiteral l \<Rightarrow> [c_dquote] @ xnq_escaped_string (lit_value l) @ [c_dquote] @
          (case lit_language l of Some lang \<Rightarrow> [c_at] @ lang
           | None \<Rightarrow> (let dt = iri_value (literal_datatype l)
                     in if dt \<noteq> xsd_string_iri then lit ''^^<'' @ xnq_escaped_iri dt @ [c_gt] else []))) @
     (case q_graph q of Some g \<Rightarrow> [c_space] @ xnq_graph g | None \<Rightarrow> []) @ lit '' .'' @ [c_nl])"

definition xnq_quads :: "quad list \<Rightarrow> rstr" where
  "xnq_quads qs = concat (map xnq_quad_direct qs)"

definition write_nquads :: "quad list \<Rightarrow> rstr" where
  "write_nquads qs = xnq_quads qs"

record nq_stream =
  xq_output :: rstr
  xq_count :: nat

definition xnq_stream_new :: "rstr \<Rightarrow> nq_stream" where
  "xnq_stream_new out = \<lparr>xq_output = out, xq_count = 0\<rparr>"

definition xnq_stream_write :: "quad \<Rightarrow> nq_stream \<Rightarrow> nq_stream" where
  "xnq_stream_write q s = \<lparr>xq_output = xq_output s @ xnq_quad_direct q, xq_count = xq_count s + 1\<rparr>"

definition xnq_stream_write_triple :: "triple \<Rightarrow> nq_stream \<Rightarrow> nq_stream" where
  "xnq_stream_write_triple t s = xnq_stream_write (quad_in_default_graph t) s"

definition write_nquads_streaming :: "rstr \<Rightarrow> quad list \<Rightarrow> rstr \<times> nat" where
  "write_nquads_streaming out qs =
     (let s = fold xnq_stream_write qs (xnq_stream_new out) in (xq_output s, xq_count s))"

subsection \<open>Turtle (turtle.rs)\<close>

record turtle_writer =
  tw_prefixes :: prefix_table
  tw_group_by_subject :: bool
  tw_indent :: rstr

definition tw_new :: turtle_writer where
  "tw_new = \<lparr>tw_prefixes = fmempty, tw_group_by_subject = True, tw_indent = lit ''    ''\<rparr>"

definition tw_with_prefix :: "rstr \<Rightarrow> rstr \<Rightarrow> turtle_writer \<Rightarrow> turtle_writer" where
  "tw_with_prefix p ns w = w\<lparr>tw_prefixes := fmupd p ns (tw_prefixes w)\<rparr>"

definition tw_with_common_prefixes :: "turtle_writer \<Rightarrow> turtle_writer" where
  "tw_with_common_prefixes w = fold (\<lambda>(p, ns). tw_with_prefix p ns) common_prefixes w"

definition tw_without_grouping :: "turtle_writer \<Rightarrow> turtle_writer" where
  "tw_without_grouping w = w\<lparr>tw_group_by_subject := False\<rparr>"

definition tw_with_indent :: "rstr \<Rightarrow> turtle_writer \<Rightarrow> turtle_writer" where
  "tw_with_indent i w = w\<lparr>tw_indent := i\<rparr>"

definition tw_prefix_lines :: "prefix_order \<Rightarrow> turtle_writer \<Rightarrow> rstr" where
  "tw_prefix_lines iter w =
     concat (map (\<lambda>(p, ns). lit ''@prefix '' @ p @ lit '': <'' @ ns @ lit ''> .'' @ [c_nl]) (iter (tw_prefixes w))) @
     (if fmdom (tw_prefixes w) \<noteq> {||} then [c_nl] else [])"

definition tw_local_name :: "rstr \<Rightarrow> bool" where
  "tw_local_name s \<longleftrightarrow> (case s of [] \<Rightarrow> True
     | c # cs \<Rightarrow> (is_ascii_alphanumeric c \<or> c = c_underscore) \<and>
         list_all (\<lambda>d. is_ascii_alphanumeric d \<or> d = c_underscore \<or> d = c_minus \<or> d = c_dot) cs \<and> last s \<noteq> c_dot)"

fun tw_compact :: "(rstr \<times> rstr) list \<Rightarrow> rstr \<Rightarrow> rstr option" where
  "tw_compact [] i = None"
| "tw_compact ((p, ns) # ps) i =
     (if prefix ns i \<and> tw_local_name (drop (length ns) i) then Some (p @ [c_colon] @ drop (length ns) i) else tw_compact ps i)"

fun tw_iri_char :: "rchar \<Rightarrow> rstr" where
  "tw_iri_char c =
     (if c \<in> {c_lt, c_gt, c_dquote, 123, 125, 124, c_caret, c_backtick, c_bslash} then u_escape c
      else if c = c_space then lit ''%20'' else if is_control c then u_escape c else [c])"

definition tw_escaped_iri :: "rstr \<Rightarrow> rstr" where
  "tw_escaped_iri s = concat (map tw_iri_char s)"

definition tw_iri :: "prefix_order \<Rightarrow> turtle_writer \<Rightarrow> iri \<Rightarrow> rstr" where
  "tw_iri iter w i = (case tw_compact (iter (tw_prefixes w)) (iri_value i) of Some s \<Rightarrow> s
     | None \<Rightarrow> [c_lt] @ tw_escaped_iri (iri_value i) @ [c_gt])"

definition tw_blank :: "blank_node \<Rightarrow> rstr" where
  "tw_blank b = lit ''_:'' @ bn_label b"

fun tw_string_char :: "rchar \<Rightarrow> rstr" where
  "tw_string_char c =
     (if c = c_bslash then [c_bslash, c_bslash] else if c = c_dquote then [c_bslash, c_dquote]
      else if c = c_nl then [c_bslash, 110] else if c = c_cr then [c_bslash, 114]
      else if c = c_tab then [c_bslash, 116]
      else if is_control c then u_escape c else [c])"

definition tw_escaped_string :: "rstr \<Rightarrow> rstr" where
  "tw_escaped_string s = concat (map tw_string_char s)"

definition tw_escaped_long_string :: "rstr \<Rightarrow> rstr" where
  "tw_escaped_long_string s = concat (map (\<lambda>c. if c = c_bslash \<or> c = c_dquote then [c_bslash, c] else [c]) s)"

text \<open>The match on the datatype writes the same text for every datatype but \<open>xsd:string\<close>.\<close>

definition tw_literal :: "prefix_order \<Rightarrow> turtle_writer \<Rightarrow> literal \<Rightarrow> rstr" where
  "tw_literal iter w l =
     (let v = lit_value l; q3 = [c_dquote, c_dquote, c_dquote]
      in (if c_nl \<in> set v \<or> c_cr \<in> set v then q3 @ tw_escaped_long_string v @ q3
          else [c_dquote] @ tw_escaped_string v @ [c_dquote]) @
         (case lit_language l of Some lang \<Rightarrow> [c_at] @ lang
          | None \<Rightarrow> (let dt = literal_datatype l
                    in if iri_value dt = xsd_string_iri then [] else lit ''^^'' @ tw_iri iter w dt)))"

fun tw_subject :: "prefix_order \<Rightarrow> turtle_writer \<Rightarrow> subject \<Rightarrow> rstr" where
  "tw_subject iter w (SubjIri i) = tw_iri iter w i" | "tw_subject iter w (SubjBlank b) = tw_blank b"

fun tw_object :: "prefix_order \<Rightarrow> turtle_writer \<Rightarrow> object \<Rightarrow> rstr" where
  "tw_object iter w (ObjIri i) = tw_iri iter w i"
| "tw_object iter w (ObjBlank b) = tw_blank b"
| "tw_object iter w (ObjLiteral l) = tw_literal iter w l"

definition tw_predicate :: "prefix_order \<Rightarrow> turtle_writer \<Rightarrow> iri \<Rightarrow> rstr" where
  "tw_predicate iter w p =
     (if iri_value p = lit ''http://www.w3.org/1999/02/22-rdf-syntax-ns#type'' then lit ''a'' else tw_iri iter w p)"

fun tw_subject_key :: "subject \<Rightarrow> rstr" where
  "tw_subject_key (SubjIri i) = lit ''iri:'' @ iri_value i"
| "tw_subject_key (SubjBlank b) = lit ''bn:'' @ bn_label b"

text \<open>\<open>entry(key).or_default().push(value)\<close> for every element.\<close>

definition group_by :: "('a \<Rightarrow> rstr) \<Rightarrow> ('a \<Rightarrow> 'b) \<Rightarrow> 'a list \<Rightarrow> (rstr, 'b list) fmap" where
  "group_by key val xs = fold (\<lambda>x m. fmupd (key x) ((case fmlookup m (key x) of Some l \<Rightarrow> l | None \<Rightarrow> []) @ [val x]) m) xs fmempty"

type_synonym subject_order = "(rstr, triple list) fmap \<Rightarrow> (rstr \<times> triple list) list"
type_synonym object_order = "(rstr, object list) fmap \<Rightarrow> (rstr \<times> object list) list"

definition tw_predicate_block :: "prefix_order \<Rightarrow> turtle_writer \<Rightarrow> nat \<Rightarrow> rstr \<times> object list \<Rightarrow> rstr" where
  "tw_predicate_block iter w k = (\<lambda>(p, obs).
     (if k = 0 then [c_nl] else lit '' ;'' @ [c_nl]) @ tw_indent w @ tw_predicate iter w (iri_new_unchecked p) @
     concat (map (\<lambda>(j, ob). (if j = 0 then [c_space] else lit '', '') @ tw_object iter w ob) (enumerate 0 obs)))"

definition tw_subject_block :: "prefix_order \<Rightarrow> object_order \<Rightarrow> turtle_writer \<Rightarrow> triple list \<Rightarrow> rstr" where
  "tw_subject_block iter piter w ts =
     (let preds = piter (group_by (\<lambda>t. iri_value (t_predicate t)) t_object ts)
      in tw_subject iter w (t_subject (hd ts)) @
         concat (map (\<lambda>(k, e). tw_predicate_block iter w k e) (enumerate 0 preds)) @ lit '' .'' @ [c_nl])"

definition tw_grouped :: "prefix_order \<Rightarrow> subject_order \<Rightarrow> object_order \<Rightarrow> turtle_writer \<Rightarrow> triple list \<Rightarrow> rstr" where
  "tw_grouped iter siter piter w ts =
     tw_prefix_lines iter w @
     concat (map (\<lambda>(k, e). (if k = 0 then [] else [c_nl]) @ tw_subject_block iter piter w (snd e))
       (enumerate 0 (siter (group_by (\<lambda>t. tw_subject_key (t_subject t)) (\<lambda>t. t) ts))))"

definition tw_triple :: "prefix_order \<Rightarrow> turtle_writer \<Rightarrow> triple \<Rightarrow> rstr" where
  "tw_triple iter w t = tw_subject iter w (t_subject t) @ [c_space] @ tw_predicate iter w (t_predicate t) @ [c_space] @
     tw_object iter w (t_object t) @ lit '' .'' @ [c_nl]"

definition tw_triples :: "prefix_order \<Rightarrow> subject_order \<Rightarrow> object_order \<Rightarrow> turtle_writer \<Rightarrow> triple list \<Rightarrow> rstr" where
  "tw_triples iter siter piter w ts =
     (if tw_group_by_subject w then tw_grouped iter siter piter w ts
      else tw_prefix_lines iter w @ concat (map (tw_triple iter w) ts))"

definition write_turtle :: "prefix_order \<Rightarrow> subject_order \<Rightarrow> object_order \<Rightarrow> triple list \<Rightarrow> rstr" where
  "write_turtle iter siter piter ts = tw_triples iter siter piter tw_new ts"

subsection \<open>JSON-LD (jsonld.rs)\<close>

datatype context_entry = CtxIri rstr | CtxDefinition rstr "rstr option"

record jsonld_writer =
  jw_context :: "(rstr, context_entry) fmap"
  jw_pretty :: bool
  jw_indent :: rstr

type_synonym context_order = "(rstr, context_entry) fmap \<Rightarrow> (rstr \<times> context_entry) list"

definition jw_new :: jsonld_writer where
  "jw_new = \<lparr>jw_context = fmempty, jw_pretty = True, jw_indent = lit ''  ''\<rparr>"

definition jw_with_term :: "rstr \<Rightarrow> rstr \<Rightarrow> jsonld_writer \<Rightarrow> jsonld_writer" where
  "jw_with_term p ns w = w\<lparr>jw_context := fmupd p (CtxIri ns) (jw_context w)\<rparr>"

definition jw_with_prefix :: "rstr \<Rightarrow> rstr \<Rightarrow> jsonld_writer \<Rightarrow> jsonld_writer" where
  "jw_with_prefix p ns w = w\<lparr>jw_context := fmupd p (CtxIri ns) (jw_context w)\<rparr>"

definition jw_with_common_prefixes :: "jsonld_writer \<Rightarrow> jsonld_writer" where
  "jw_with_common_prefixes w =
     jw_with_prefix (lit ''xsd'') (lit ''http://www.w3.org/2001/XMLSchema#'')
      (jw_with_prefix (lit ''rdfs'') (lit ''http://www.w3.org/2000/01/rdf-schema#'')
        (jw_with_prefix (lit ''rdf'') (lit ''http://www.w3.org/1999/02/22-rdf-syntax-ns#'') w))"

definition jw_compact :: "jsonld_writer \<Rightarrow> jsonld_writer" where
  "jw_compact w = w\<lparr>jw_pretty := False\<rparr>"

fun jw_char :: "rchar \<Rightarrow> rstr" where
  "jw_char c =
     (if c = c_dquote then [c_bslash, c_dquote] else if c = c_bslash then [c_bslash, c_bslash]
      else if c = c_nl then [c_bslash, 110] else if c = c_cr then [c_bslash, 114]
      else if c = c_tab then [c_bslash, 116] else if is_control c then u_escape c else [c])"

definition jw_string :: "rstr \<Rightarrow> rstr" where
  "jw_string s = concat (map jw_char s)"

definition jw_quoted :: "rstr \<Rightarrow> rstr" where
  "jw_quoted s = [c_dquote] @ jw_string s @ [c_dquote]"

definition jw_nl :: "jsonld_writer \<Rightarrow> rstr" where
  "jw_nl w = (if jw_pretty w then [c_nl] else [])"

definition jw_ind :: "jsonld_writer \<Rightarrow> nat \<Rightarrow> rstr" where
  "jw_ind w n = (if jw_pretty w then concat (replicate n (jw_indent w)) else [])"

fun jw_compact_with :: "(rstr \<times> context_entry) list \<Rightarrow> rstr \<Rightarrow> rstr" where
  "jw_compact_with [] i = i"
| "jw_compact_with ((p, e) # es) i =
     (case e of CtxIri ns \<Rightarrow> if prefix ns i then p @ [c_colon] @ drop (length ns) i else jw_compact_with es i
      | CtxDefinition _ _ \<Rightarrow> jw_compact_with es i)"

definition jw_compact_iri :: "context_order \<Rightarrow> jsonld_writer \<Rightarrow> rstr \<Rightarrow> rstr" where
  "jw_compact_iri iter w i = jw_compact_with (iter (jw_context w)) i"

fun jw_entry :: "context_entry \<Rightarrow> rstr" where
  "jw_entry (CtxIri i) = jw_quoted i"
| "jw_entry (CtxDefinition i vt) = lit ''{\"@id\": '' @ jw_quoted i @
     (case vt of Some t \<Rightarrow> lit '', \"@type\": '' @ jw_quoted t | None \<Rightarrow> []) @ lit ''}''"

definition jw_write_context :: "context_order \<Rightarrow> jsonld_writer \<Rightarrow> nat \<Rightarrow> rstr" where
  "jw_write_context iter w n =
     (let es = iter (jw_context w)
      in if es = [] then []
         else jw_ind w n @ lit ''\"@context\": {'' @ jw_nl w @
           join ([c_comma] @ jw_nl w) (map (\<lambda>(t, e). jw_ind w (n + 1) @ jw_quoted t @ lit '': '' @ jw_entry e) es) @
           jw_nl w @ jw_ind w n @ lit ''}'')"

fun jw_value :: "context_order \<Rightarrow> jsonld_writer \<Rightarrow> object \<Rightarrow> rstr" where
  "jw_value iter w (ObjIri i) = lit ''{\"@id\": '' @ jw_quoted (jw_compact_iri iter w (iri_value i)) @ lit ''}''"
| "jw_value iter w (ObjBlank b) = lit ''{\"@id\": \"_:'' @ bn_label b @ lit ''\"}''"
| "jw_value iter w (ObjLiteral l) =
     (case lit_language l of
        Some lang \<Rightarrow> lit ''{\"@value\": '' @ jw_quoted (lit_value l) @ lit '', \"@language\": '' @ jw_quoted lang @ lit ''}''
      | None \<Rightarrow> (let dt = iri_value (literal_datatype l)
                in if dt = xsd_string_iri then jw_quoted (lit_value l)
                   else lit ''{\"@value\": '' @ jw_quoted (lit_value l) @ lit '', \"@type\": '' @
                     jw_quoted (jw_compact_iri iter w dt) @ lit ''}''))"

definition jw_predicate :: "context_order \<Rightarrow> jsonld_writer \<Rightarrow> rstr \<times> object list \<Rightarrow> rstr" where
  "jw_predicate iter w = (\<lambda>(p, obs).
     jw_quoted (jw_compact_iri iter w p) @ lit '': '' @
     (if length obs = 1 then jw_value iter w (hd obs)
      else [c_lbracket] @ join (lit '', '') (map (jw_value iter w) obs) @ [c_rbracket]))"

definition jw_subject :: "context_order \<Rightarrow> object_order \<Rightarrow> jsonld_writer \<Rightarrow> rstr \<times> predicate_map \<Rightarrow> rstr" where
  "jw_subject iter piter w = (\<lambda>(s, m).
     jw_ind w 2 @ lit ''{'' @ jw_nl w @ jw_ind w 3 @ lit ''\"@id\": '' @ jw_quoted (jw_compact_iri iter w s) @
     concat (map (\<lambda>e. [c_comma] @ jw_nl w @ jw_ind w 3 @ jw_predicate iter w e) (piter m)) @
     jw_nl w @ jw_ind w 2 @ lit ''}'')"

text \<open>\<open>write_graph\<close>; the triples are grouped by subject and predicate as in RDF/JSON.\<close>

definition jw_graph ::
  "context_order \<Rightarrow> ((rstr, predicate_map) fmap \<Rightarrow> (rstr \<times> predicate_map) list) \<Rightarrow> object_order \<Rightarrow>
   jsonld_writer \<Rightarrow> triple list \<Rightarrow> rstr" where
  "jw_graph iter siter piter w ts =
     (let subjects = siter (group_graph ts)
      in lit ''{'' @ jw_nl w @
         (if fmdom (jw_context w) \<noteq> {||} then jw_write_context iter w 1 @ [c_comma] @ jw_nl w else []) @
         jw_ind w 1 @ lit ''\"@graph\": ['' @ jw_nl w @
         join ([c_comma] @ jw_nl w) (map (jw_subject iter piter w) subjects) @ (if subjects = [] then [] else jw_nl w) @
         jw_ind w 1 @ lit '']'' @ jw_nl w @ lit ''}'' @ jw_nl w)"

definition write_jsonld ::
  "context_order \<Rightarrow> ((rstr, predicate_map) fmap \<Rightarrow> (rstr \<times> predicate_map) list) \<Rightarrow> object_order \<Rightarrow> triple list \<Rightarrow> rstr" where
  "write_jsonld iter siter piter ts = jw_graph iter siter piter jw_new ts"

end
