(* ===== verification/JsonResults.thy ===== *)
theory JsonResults
  imports ResultFormats "HOL-Library.List_Lexorder"
begin

section \<open>The JSON results are JSON\<close>

text \<open>
  The grammar of RFC 8259, as a relation between texts and values, and the proof that the
  writers' texts are in it and stand for the results they are given.
\<close>

datatype json = JString rstr | JBool bool | JArray "json list" | JObject "(rstr \<times> json) list"

definition hex_value :: "rchar \<Rightarrow> nat" where
  "hex_value c = (if is_ascii_digit c then c - 48 else if 97 \<le> c then c - 87 else c - 55)"

definition is_hex :: "rchar \<Rightarrow> bool" where
  "is_hex c \<longleftrightarrow> is_ascii_digit c \<or> (97 \<le> c \<and> c \<le> 102) \<or> (65 \<le> c \<and> c \<le> 70)"

definition simple_escapes :: "(rchar \<times> rchar) set" where
  "simple_escapes = {(c_dquote, c_dquote), (c_bslash, c_bslash), (c_slash, c_slash), (98, 8), (102, 12),
     (110, c_nl), (114, c_cr), (116, c_tab)}"

text \<open>The text between the quotes and the characters it stands for.\<close>

inductive json_chars :: "rstr \<Rightarrow> rstr \<Rightarrow> bool" where
  jc_Nil: "json_chars [] []"
| jc_plain: "32 \<le> c \<Longrightarrow> c \<noteq> c_dquote \<Longrightarrow> c \<noteq> c_bslash \<Longrightarrow> json_chars t v \<Longrightarrow> json_chars (c # t) (c # v)"
| jc_escape: "(e, c) \<in> simple_escapes \<Longrightarrow> json_chars t v \<Longrightarrow> json_chars (c_bslash # e # t) (c # v)"
| jc_hex: "list_all is_hex [a, b, d, e] \<Longrightarrow> json_chars t v \<Longrightarrow>
    json_chars (c_bslash # 117 # a # b # d # e # t)
      ((((hex_value a * 16 + hex_value b) * 16 + hex_value d) * 16 + hex_value e) # v)"

definition json_space :: "rstr \<Rightarrow> bool" where
  "json_space s \<longleftrightarrow> set s \<subseteq> {c_space, c_tab, c_nl, c_cr}"

inductive json_text :: "rstr \<Rightarrow> json \<Rightarrow> bool" where
  jt_string: "json_chars t v \<Longrightarrow> json_text ([c_dquote] @ t @ [c_dquote]) (JString v)"
| jt_true: "json_text (lit ''true'') (JBool True)"
| jt_false: "json_text (lit ''false'') (JBool False)"
| jt_space: "json_space w \<Longrightarrow> json_space w' \<Longrightarrow> json_text t j \<Longrightarrow> json_text (w @ t @ w') j"
| jt_array: "json_space w \<Longrightarrow> list_all2 json_text ts js \<Longrightarrow>
    json_text ([c_lbracket] @ w @ join [c_comma] ts @ [c_rbracket]) (JArray js)"
| jt_object: "json_space w \<Longrightarrow>
    list_all2 (\<lambda>t m. \<exists>a b. t = a @ c_colon # b \<and> json_text a (JString (fst m)) \<and> json_text b (snd m)) ts ms \<Longrightarrow>
    json_text ([123] @ w @ join [c_comma] ts @ [125]) (JObject ms)"

subsection \<open>Strings\<close>

lemma hex_digit_ok: "n < 16 \<Longrightarrow> is_hex (hex_digit n) \<and> hex_value (hex_digit n) = n"
  by (auto simp: hex_digit_def is_hex_def hex_value_def is_ascii_digit_def)

lemma json_chars_escaped: "json_chars (json_escaped s) s"
proof (induction s)
  case (Cons c s)
  have hex: "json_chars ([c_bslash, 117] @ hex4 c @ json_escaped s) (c # s)" if "is_control c"
  proof -
    have "c < 256" using that by (auto simp: is_control_def)
    then have code: "c div 4096 mod 16 = 0" "c div 256 mod 16 = 0" "c div 16 < 16" by simp_all
    let ?a = "hex_digit (c div 4096 mod 16)" and ?b = "hex_digit (c div 256 mod 16)"
      and ?d = "hex_digit (c div 16 mod 16)" and ?e = "hex_digit (c mod 16)"
    have digits: "list_all is_hex [?a, ?b, ?d, ?e]" by (simp add: hex_digit_ok)
    have "((hex_value ?a * 16 + hex_value ?b) * 16 + hex_value ?d) * 16 + hex_value ?e = c"
      using code by (simp add: hex_digit_ok)
    then show ?thesis
      using jc_hex [OF digits Cons] by (simp only: hex4_def append_Cons append_Nil)
  qed
  have split: "json_escaped (c # s) = json_char c @ json_escaped s"
    by (simp add: json_escaped_def)
  show ?case
    unfolding split using Cons hex
    by (auto simp: simple_escapes_def is_control_def intro!: jc_plain jc_escape)
qed (simp add: json_escaped_def jc_Nil)

lemma json_text_string: "json_text (json_string s) (JString s)"
  unfolding json_string_def by (rule jt_string) (rule json_chars_escaped)

subsection \<open>Objects and arrays\<close>

lemma space_simps [simp]: "json_space []" "json_space (json_nl p)" "json_space (json_indent p n)"
  "json_space (a @ b) \<longleftrightarrow> json_space a \<and> json_space b"
  by (auto simp: json_space_def json_nl_def json_indent_def)

lemma jt_before: "json_space w \<Longrightarrow> json_text t j \<Longrightarrow> json_text (w @ t) j"
  using jt_space [of w "[]"] by simp

lemma jt_after: "json_space w \<Longrightarrow> json_text t j \<Longrightarrow> json_text (t @ w) j"
  using jt_space [of "[]" w] by simp

definition member_text :: "rstr \<Rightarrow> rstr \<times> json \<Rightarrow> bool" where
  "member_text t m \<longleftrightarrow> (\<exists>a b. t = a @ c_colon # b \<and> json_text a (JString (fst m)) \<and> json_text b (snd m))"

lemma member_key: "json_text t j \<Longrightarrow> member_text (json_string k @ c_colon # t) (k, j)"
  unfolding member_text_def by (auto intro: json_text_string)

lemma member_before: "json_space w \<Longrightarrow> member_text t m \<Longrightarrow> member_text (w @ t) m"
  unfolding member_text_def by (metis append.assoc jt_before)

lemma member_after: "json_space w \<Longrightarrow> member_text t m \<Longrightarrow> member_text (t @ w) m"
  unfolding member_text_def by (metis append.assoc append_Cons jt_after)

lemma jt_members: "json_space w \<Longrightarrow> list_all2 member_text ts ms \<Longrightarrow> json_text ([123] @ w @ join [c_comma] ts @ [125]) (JObject ms)"
  by (rule jt_object) (simp_all add: member_text_def [abs_def])

text \<open>A separator followed by white space is white space before the elements after the first.\<close>

definition spaced :: "rstr \<Rightarrow> rstr list \<Rightarrow> rstr list" where
  "spaced w ts = (case ts of [] \<Rightarrow> [] | t # ts \<Rightarrow> t # map (\<lambda>t. w @ t) ts)"

lemma join_spaced: "join ([c_comma] @ w) ts = join [c_comma] (spaced w ts)"
proof -
  have "[c_comma] @ w @ join ([c_comma] @ w) (t # ts) = [c_comma] @ join [c_comma] (map (\<lambda>t. w @ t) (t # ts))" for t ts
    by (induction ts arbitrary: t) (simp_all add: join_Cons)
  then show ?thesis
    by (cases ts; cases "tl ts") (auto simp: spaced_def join_Cons)
qed

lemma spaced_all2: "(\<And>t j. P t j \<Longrightarrow> P (w @ t) j) \<Longrightarrow> list_all2 P ts js \<Longrightarrow> list_all2 P (spaced w ts) js"
  by (cases ts; cases js) (auto simp: spaced_def list_all2_map1 elim: list_all2_mono)

subsection \<open>Terms\<close>

lemma members_join:
  "json_string (lit k) @ [c_colon] @ json_string v @ concat (map (\<lambda>(k, v). json_member k v) ms) @ r =
   join [c_comma] (map (\<lambda>(k, v). json_string (lit k) @ c_colon # json_string v) ((k, v) # ms)) @ r"
  by (induction ms arbitrary: k v) (auto simp: join_Cons json_member_def)

lemma string_object:
  "json_text ([123] @ json_string (lit k) @ [c_colon] @ json_string v @ concat (map (\<lambda>(k, v). json_member k v) ms) @ [125])
     (JObject (map (\<lambda>(k, v). (lit k, JString v)) ((k, v) # ms)))"
  unfolding members_join
  by (rule jt_members [of "[]", unfolded append_Nil])
    (simp_all add: list_all2_map1 list_all2_map2 list_all2_same case_prod_beta member_key json_text_string)

text \<open>The language or the datatype of a literal; xsd:string is left out.\<close>

definition literal_members :: "string \<Rightarrow> literal \<Rightarrow> (string \<times> rstr) list" where
  "literal_members k l =
     (case lit_language l of Some g \<Rightarrow> [(k, g)]
      | None \<Rightarrow> (case lit_datatype l of
            Some d \<Rightarrow> if iri_value d \<noteq> xsd_string_text then [(''datatype'', iri_value d)] else []
          | None \<Rightarrow> []))"

fun term_members :: "rterm \<Rightarrow> (string \<times> rstr) list" where
  "term_members (RLiteral l) = literal_members ''xml:lang'' l" | "term_members _ = []"

definition term_json :: "rterm \<Rightarrow> json" where
  "term_json t = JObject (map (\<lambda>(k, v). (lit k, JString v))
     ((''type'', term_type t) # (''value'', rterm_value t) # term_members t))"

lemma json_term_text: "json_text (json_term t) (term_json t)"
proof -
  have "json_term t = [123] @ json_string (lit ''type'') @ [c_colon] @ json_string (term_type t) @
      concat (map (\<lambda>(k, v). json_member k v) ((''value'', rterm_value t) # term_members t)) @ [125]"
    by (cases t) (auto simp: json_term_def literal_members_def split: option.split)
  then show ?thesis
    using string_object [of "''type''" "term_type t" "(''value'', rterm_value t) # term_members t"] by (simp add: term_json_def)
qed

fun object_json :: "object \<Rightarrow> json" where
  "object_json (ObjIri i) = JObject [(lit ''type'', JString (lit ''uri'')), (lit ''value'', JString (iri_value i))]"
| "object_json (ObjBlank b) = JObject [(lit ''type'', JString (lit ''bnode'')), (lit ''value'', JString (bn_label b))]"
| "object_json (ObjLiteral l) = JObject (map (\<lambda>(k, v). (lit k, JString v))
     ((''type'', lit ''literal'') # (''value'', lit_value l) # literal_members ''lang'' l))"

lemma rdf_json_object_text: "json_text (rdf_json_object x) (object_json x)"
proof (cases x)
  case (ObjIri i)
  then show ?thesis using string_object [of "''type''" "lit ''uri''" "[(''value'', iri_value i)]"] by simp
next
  case (ObjBlank b)
  then show ?thesis using string_object [of "''type''" "lit ''bnode''" "[(''value'', bn_label b)]"] by simp
next
  case (ObjLiteral l)
  then have "rdf_json_object x = [123] @ json_string (lit ''type'') @ [c_colon] @ json_string (lit ''literal'') @
      concat (map (\<lambda>(k, v). json_member k v) ((''value'', lit_value l) # literal_members ''lang'' l)) @ [125]"
    by (auto simp: literal_members_def split: option.split)
  then show ?thesis
    using string_object [of "''type''" "lit ''literal''" "(''value'', lit_value l) # literal_members ''lang'' l"] ObjLiteral
    by simp
qed

subsection \<open>Results\<close>

definition binding_json :: "rstr list \<Rightarrow> row_binding \<Rightarrow> json" where
  "binding_json vs b = JObject (List.map_filter (\<lambda>v. map_option (\<lambda>t. (v, term_json t)) (fmlookup b v)) vs)"

lemma json_binding_text: "json_text (json_binding vs b) (binding_json vs b)"
proof -
  have "list_all2 member_text
      (List.map_filter (\<lambda>v. map_option (\<lambda>t. json_string v @ [c_colon] @ json_term t) (fmlookup b v)) vs)
      (List.map_filter (\<lambda>v. map_option (\<lambda>t. (v, term_json t)) (fmlookup b v)) vs)"
    by (induction vs) (auto simp: List.map_filter_simps json_term_text intro: member_key split: option.split)
  from jt_members [of "[]", OF _ this] show ?thesis
    by (simp add: json_binding_def binding_json_def)
qed

definition select_json :: "select_results \<Rightarrow> json" where
  "select_json r = JObject
     [(lit ''head'', JObject [(lit ''vars'', JArray (map JString (sr_variables r)))]),
      (lit ''results'', JObject [(lit ''bindings'', JArray (map (binding_json (sr_variables r)) (sr_bindings r)))])]"

lemma array_texts:
  assumes "json_space w" "json_space w'" "\<And>x. x \<in> set xs \<Longrightarrow> json_text (f x) (g x)"
  shows "json_text ([c_lbracket] @ (if xs \<noteq> [] then w else []) @ join ([c_comma] @ w) (map f xs) @
      (if xs \<noteq> [] then w' else []) @ [c_rbracket]) (JArray (map g xs))"
proof (cases xs rule: rev_cases)
  case Nil
  then show ?thesis using jt_array [of "[]" "[]" "[]"] by simp
next
  case (snoc ys y)
  have last: "join sep (ts @ [t @ v]) = join sep (ts @ [t]) @ v" for sep ts t v
    by (induction ts) (simp_all add: join_Cons)
  have "list_all2 json_text (map f ys @ [f y @ w']) (map g ys @ [g y])"
    using assms snoc by (auto simp: list_all2_map1 list_all2_map2 list_all2_same intro!: list_all2_appendI jt_after)
  then have "list_all2 json_text (spaced w (map f ys @ [f y @ w'])) (map g ys @ [g y])"
    by (rule spaced_all2 [rotated]) (rule jt_before [OF assms(1)])
  from jt_array [OF assms(1) this] show ?thesis
    using snoc by (simp add: join_spaced [symmetric] last)
qed

lemma one_member:
  assumes "json_space w" "json_space w'" "json_text t j"
  shows "json_text ([123] @ w @ json_string k @ [c_colon] @ t @ w' @ [125]) (JObject [(k, j)])"
  using jt_members [OF assms(1), of "[json_string k @ c_colon # t @ w']" "[(k, j)]"]
    member_key [OF jt_after [OF assms(2,3)], of k] by simp

lemma two_members:
  assumes "json_space w" "json_space w'" "json_space w''" "json_text t j" "json_text u i"
  shows "json_text ([123] @ w @ json_string k @ [c_colon] @ t @ [c_comma] @ w' @ json_string l @ [c_colon] @ u @ w'' @ [125])
    (JObject [(k, j), (l, i)])"
  using jt_members [OF assms(1), of "[json_string k @ c_colon # t, w' @ json_string l @ c_colon # u @ w'']" "[(k, j), (l, i)]"]
    member_key [OF assms(4), of k] member_before [OF assms(2) member_key [OF jt_after [OF assms(3,5)]], of l]
  by simp

text \<open>C37: the JSON text of a SELECT or ASK result, pretty-printed or not, is a text of the JSON grammar, and it
  stands for exactly that result: the variables, and in every row an object that gives
  each bound variable its term with type, value and language or datatype.\<close>

theorem json_results_correct:
  "json_text (write_select_json p r) (select_json r) \<and>
   json_text (write_ask_json p a) (JObject [(lit ''head'', JObject []), (lit ''boolean'', JBool (ar_result a))])"
proof
  have "json_text ([c_lbracket] @ join [c_comma] (map json_string vs) @ [c_rbracket]) (JArray (map JString vs))" for vs
    using array_texts [of "[]" "[]" vs json_string JString] json_text_string by simp
  then have head: "json_text ([123] @ (json_nl p @ json_indent p 2) @ json_string (lit ''vars'') @ [c_colon] @
      ([c_lbracket] @ join [c_comma] (map json_string (sr_variables r)) @ [c_rbracket]) @ (json_nl p @ json_indent p 1) @ [125])
      (JObject [(lit ''vars'', JArray (map JString (sr_variables r)))])"
    by (intro one_member) simp_all
  let ?vs = "sr_variables r" and ?bs = "sr_bindings r"
  have "json_text ([c_lbracket] @ (if ?bs \<noteq> [] then json_nl p else []) @
      join ([c_comma] @ json_nl p) (map (\<lambda>b. json_indent p 3 @ json_binding ?vs b) ?bs) @
      (if ?bs \<noteq> [] then json_nl p @ json_indent p 2 else []) @ [c_rbracket]) (JArray (map (binding_json ?vs) ?bs))"
    by (rule array_texts) (simp_all add: jt_before json_binding_text)
  then have results: "json_text ([123] @ (json_nl p @ json_indent p 2) @ json_string (lit ''bindings'') @ [c_colon] @
      ([c_lbracket] @ (if ?bs \<noteq> [] then json_nl p else []) @
      join ([c_comma] @ json_nl p) (map (\<lambda>b. json_indent p 3 @ json_binding ?vs b) ?bs) @
      (if ?bs \<noteq> [] then json_nl p @ json_indent p 2 else []) @ [c_rbracket]) @ (json_nl p @ json_indent p 1) @ [125])
      (JObject [(lit ''bindings'', JArray (map (binding_json ?vs) ?bs))])"
    by (intro one_member) simp_all
  have spaces: "json_space (json_nl p @ json_indent p 1)" "json_space (json_nl p)" by simp_all
  from jt_after [OF spaces(2) two_members [OF spaces(1) spaces(1) spaces(2) head results]]
  show "json_text (write_select_json p r) (select_json r)"
    by (simp add: write_select_json_def select_json_def)
next
  have empty: "json_text (lit ''{}'') (JObject [])"
    using jt_object [of "[]" "[]" "[]"] by (simp add: lit_def)
  have bool: "json_text (show_result b) (JBool b)" for b
    by (cases b) (simp_all add: show_result_def jt_true jt_false)
  have spaces: "json_space (json_nl p @ json_indent p 1)" "json_space (json_nl p)" by simp_all
  from jt_after [OF spaces(2) two_members [OF spaces(1) spaces(1) spaces(2) empty bool]]
  show "json_text (write_ask_json p a) (JObject [(lit ''head'', JObject []), (lit ''boolean'', JBool (ar_result a))])"
    by (simp add: write_ask_json_def lit_def)
qed

subsection \<open>RDF/JSON\<close>

definition predicate_json :: "rstr \<times> object list \<Rightarrow> rstr \<times> json" where
  "predicate_json = (\<lambda>(k, os). (k, JArray (map object_json os)))"

definition subject_json :: "(predicate_map \<Rightarrow> (rstr \<times> object list) list) \<Rightarrow> rstr \<times> predicate_map \<Rightarrow> rstr \<times> json" where
  "subject_json piter = (\<lambda>(k, m). (k, JObject (map predicate_json (piter m))))"

lemma object_lines:
  assumes "json_space w" "json_space w'" "json_space w''" "\<And>x. x \<in> set xs \<Longrightarrow> member_text (f x) (g x)"
  shows "json_text ([123] @ w @ join ([c_comma] @ w') (map f xs) @ w'' @ [125]) (JObject (map g xs))"
proof (cases xs rule: rev_cases)
  case Nil
  then show ?thesis using jt_members [of "w @ w''" "[]" "[]"] assms by simp
next
  case (snoc ys y)
  have last: "join sep (ts @ [t @ v]) = join sep (ts @ [t]) @ v" for sep ts t v
    by (induction ts) (simp_all add: join_Cons)
  have "list_all2 member_text (map f ys @ [f y @ w'']) (map g ys @ [g y])"
    using assms snoc by (auto simp: list_all2_map1 list_all2_map2 list_all2_same intro!: list_all2_appendI member_after)
  then have "list_all2 member_text (spaced w' (map f ys @ [f y @ w''])) (map g ys @ [g y])"
    by (rule spaced_all2 [rotated]) (rule member_before [OF assms(2)])
  from jt_members [OF assms(1) this] show ?thesis
    using snoc by (simp add: join_spaced [symmetric] last)
qed

lemma predicate_member: "member_text (rdf_json_predicate p x) (predicate_json x)"
proof -
  have "json_text ([c_lbracket] @ join [c_comma] (map rdf_json_object os) @ [c_rbracket]) (JArray (map object_json os))" for os
    using array_texts [of "[]" "[]" os rdf_json_object object_json] rdf_json_object_text by simp
  then show ?thesis
    by (auto simp: rdf_json_predicate_def predicate_json_def split: prod.split intro!: member_before member_key)
qed

lemma subject_member: "member_text (rdf_json_subject piter p x) (subject_json piter x)"
  using object_lines [of "json_nl p" "json_nl p" "json_nl p @ json_indent p 1" "piter (snd x)" "rdf_json_predicate p" predicate_json]
  by (auto simp: rdf_json_subject_def subject_json_def predicate_member split: prod.split intro!: member_before member_key)

lemma rdf_json_text:
  "json_text (write_rdf_json siter piter p r) (JObject (map (subject_json piter) (siter (group_graph (cr_triples r)))))"
proof -
  have "json_text ([123] @ json_nl p @ join ([c_comma] @ json_nl p) (map (rdf_json_subject piter p)
      (siter (group_graph (cr_triples r)))) @ json_nl p @ [125])
      (JObject (map (subject_json piter) (siter (group_graph (cr_triples r)))))"
    by (rule object_lines) (simp_all add: subject_member)
  from jt_after [OF _ this, of "json_nl p"] show ?thesis by (simp add: write_rdf_json_def)
qed

definition objects_of :: "triple list \<Rightarrow> rstr \<Rightarrow> rstr \<Rightarrow> object list" where
  "objects_of ts k q = map t_object (filter (\<lambda>t. subject_key (t_subject t) = k \<and> iri_value (t_predicate t) = q) ts)"

definition stored_objects :: "(rstr, predicate_map) fmap \<Rightarrow> rstr \<Rightarrow> rstr \<Rightarrow> object list option" where
  "stored_objects g k q = Option.bind (fmlookup g k) (\<lambda>m. fmlookup m q)"

lemma stored_add: "stored_objects (graph_add t g) k q =
    (if subject_key (t_subject t) = k \<and> iri_value (t_predicate t) = q
     then Some ((case stored_objects g k q of Some os \<Rightarrow> os | None \<Rightarrow> []) @ [t_object t]) else stored_objects g k q)"
  by (auto simp: stored_objects_def graph_add_def push_to_def Let_def split: option.split)

lemma stored_group: "stored_objects (group_graph ts) k q = (if objects_of ts k q = [] then None else Some (objects_of ts k q))"
proof -
  have "stored_objects (fold graph_add ts g) k q =
      (if objects_of ts k q = [] then stored_objects g k q
       else Some ((case stored_objects g k q of Some os \<Rightarrow> os | None \<Rightarrow> []) @ objects_of ts k q))" for g
    by (induction ts arbitrary: g) (auto simp: objects_of_def stored_add split: option.split)
  from this [of fmempty] show ?thesis by (simp add: group_graph_def stored_objects_def)
qed

text \<open>The entries of an RDF/JSON document: subjects with predicates with objects.\<close>

definition document_json :: "(rstr \<times> (rstr \<times> object list) list) list \<Rightarrow> json" where
  "document_json ss = JObject (map (\<lambda>(k, ps). (k, JObject (map (\<lambda>(q, os). (q, JArray (map object_json os))) ps))) ss)"

text \<open>the RDF/JSON text of a CONSTRUCT result is a text of the JSON grammar for a document that has each
  subject and under it each predicate once, and there exactly the objects of the triples with
  this subject and predicate, in their order.\<close>

theorem rdf_json_correct:
  assumes "hash_order siter" "hash_order piter"
  shows "\<exists>ss. json_text (write_rdf_json siter piter p r) (document_json ss) \<and> distinct (map fst ss) \<and>
    (\<forall>(k, ps) \<in> set ss. distinct (map fst ps)) \<and>
    (\<forall>k q os. (\<exists>ps. (k, ps) \<in> set ss \<and> (q, os) \<in> set ps) \<longleftrightarrow> os = objects_of (cr_triples r) k q \<and> os \<noteq> [])"
proof -
  let ?g = "group_graph (cr_triples r)"
  let ?ss = "map (\<lambda>(k, m). (k, piter m)) (siter ?g)"
  have doc: "document_json ?ss = JObject (map (subject_json piter) (siter ?g))"
    by (simp add: document_json_def subject_json_def predicate_json_def case_prod_beta comp_def)
  have stored: "(k, ps) \<in> set ?ss \<longleftrightarrow> (\<exists>m. fmlookup ?g k = Some m \<and> ps = piter m)" for k ps
    using hash_order_in_iff [OF assms(1), of k _ ?g] by (auto simp: image_iff split: prod.splits)
  have entries: "(\<exists>ps. (k, ps) \<in> set ?ss \<and> (q, os) \<in> set ps) \<longleftrightarrow> stored_objects ?g k q = Some os" for k q os
    unfolding stored using hash_order_in_iff [OF assms(2)] by (auto simp: stored_objects_def bind_eq_Some_conv)
  have keys: "map fst ?ss = map fst (siter ?g)"
    by (simp add: case_prod_beta comp_def)
  have "distinct (map fst ?ss)" "\<forall>(k, ps) \<in> set ?ss. distinct (map fst ps)"
    unfolding keys using assms by (auto simp: hash_order_distinct)
  then show ?thesis
    using rdf_json_text [of siter piter p r] doc
    by (intro exI [of _ ?ss] conjI allI) (simp_all only: entries stored_group, auto)
qed

theorem rdf_json_correct_witness:
  "\<exists>ss. json_text (write_rdf_json key_order key_order False
      \<lparr>cr_triples = [\<lparr>t_subject = SubjBlank (bn_new [97]), t_predicate = iri_new_unchecked [98], t_object = ObjBlank (bn_new [99])\<rparr>]\<rparr>)
     (document_json ss) \<and> distinct (map fst ss)"
  using rdf_json_correct [OF hash_order_key_order hash_order_key_order, of False "\<lparr>cr_triples =
    [\<lparr>t_subject = SubjBlank (bn_new [97]), t_predicate = iri_new_unchecked [98], t_object = ObjBlank (bn_new [99])\<rparr>]\<rparr>"]
  by blast

end
