(* ===== verification/ExportFacts.thy ===== *)
theory ExportFacts
  imports Export JsonResults
begin

section \<open>What the exporters write\<close>

text \<open>
  The streaming and the batch writers agree, the N-Quads exporter extends the N-Triples one,
  and both agree with the serializers on terms without characters that IRIs have to escape.
  The JSON-LD text is in the JSON grammar and stands for the grouped triples.
\<close>

subsection \<open>N-Triples and N-Quads\<close>

lemma nt_stream: "write_ntriples_streaming out ts = (out @ xnt_triples ts, length ts)"
proof -
  have "fold xnt_stream_write ts s = \<lparr>xs_output = xs_output s @ xnt_triples ts, xs_count = xs_count s + length ts\<rparr>" for s
    by (induction ts arbitrary: s) (simp_all add: xnt_stream_write_def xnt_triples_def)
  then show ?thesis by (simp add: write_ntriples_streaming_def Let_def xnt_stream_new_def xnt_stream_count_def)
qed

lemma nq_stream: "write_nquads_streaming out qs = (out @ xnq_quads qs, length qs)"
proof -
  have "fold xnq_stream_write qs s = \<lparr>xq_output = xq_output s @ xnq_quads qs, xq_count = xq_count s + length qs\<rparr>" for s
    by (induction qs arbitrary: s) (simp_all add: xnq_stream_write_def xnq_quads_def)
  then show ?thesis by (simp add: write_nquads_streaming_def Let_def xnq_stream_new_def)
qed

text \<open>The two copies of the escaping functions are the same functions.\<close>

lemma xnq_escapes: "xnq_escaped_iri = xnt_escaped_iri" "xnq_escaped_string = xnt_escaped_string"
  by (auto simp: fun_eq_iff xnq_escaped_iri_def xnt_escaped_iri_def xnq_escaped_string_def xnt_escaped_string_def
      intro!: arg_cong [where f = concat])

lemma xnq_default: "xnq_quad_direct (quad_in_default_graph t) = xnt_triple t"
  unfolding xnq_quad_direct_def xnq_escapes
  by (cases "t_subject t"; cases "t_object t")
    (simp_all add: quad_in_default_graph_def xnt_triple_def xnt_iri_def xnt_blank_def xnt_literal_def)

text \<open>IRIs that hold none of the characters that are written as escapes.\<close>

definition unescaped_iri :: "iri \<Rightarrow> bool" where
  "unescaped_iri i \<longleftrightarrow> list_all (\<lambda>c. xnt_iri_char c = [c]) (iri_value i)"

fun unescaped_subject :: "subject \<Rightarrow> bool" where
  "unescaped_subject (SubjIri i) = unescaped_iri i" | "unescaped_subject (SubjBlank b) = True"

fun unescaped_object :: "object \<Rightarrow> bool" where
  "unescaped_object (ObjIri i) = unescaped_iri i" | "unescaped_object (ObjBlank b) = True"
| "unescaped_object (ObjLiteral l) = (case lit_datatype l of Some d \<Rightarrow> unescaped_iri d | None \<Rightarrow> True)"

definition unescaped_triple :: "triple \<Rightarrow> bool" where
  "unescaped_triple t \<longleftrightarrow> unescaped_subject (t_subject t) \<and> unescaped_iri (t_predicate t) \<and> unescaped_object (t_object t)"

lemma concat_singletons: "list_all (\<lambda>c. f c = [c]) s \<Longrightarrow> concat (map f s) = s"
  by (induction s) simp_all

lemma unescaped_iri_text: "unescaped_iri i \<Longrightarrow> xnt_escaped_iri (iri_value i) = iri_value i"
  unfolding unescaped_iri_def xnt_escaped_iri_def by (rule concat_singletons)

lemma xnt_string_same: "xnt_escaped_string = escape_string"
  by (auto simp: fun_eq_iff xnt_escaped_string_def escape_string_def u_escape_def intro!: arg_cong [where f = concat])

lemma xnt_literal_same: "unescaped_object (ObjLiteral l) \<Longrightarrow> xnt_literal l = nt_literal l"
proof -
  have x: "iri_value xsd_string = xsd_string_iri" by (simp add: xsd_string_def xsd_datatype_def xsd_string_iri_def)
  assume "unescaped_object (ObjLiteral l)"
  then show ?thesis
    by (auto simp: xnt_literal_def nt_literal_def xnt_string_same literal_datatype_def x unescaped_iri_text Let_def
        split: option.splits)
qed

lemma xnt_triple_same: "unescaped_triple t \<Longrightarrow> xnt_triple t = nt_triple t"
  by (cases "t_subject t"; cases "t_object t")
    (auto simp: xnt_triple_def nt_triple_def unescaped_triple_def xnt_iri_def xnt_blank_def unescaped_iri_text xnt_literal_same
      simp del: unescaped_object.simps(3))

text \<open>the N-Triples exporter writes what the N-Triples serializer writes, for every list of triples whose
  IRIs hold no character that has to be escaped; streaming appends exactly the batch text and
  counts the triples; and for quads of the default graph the N-Quads exporter writes the N-Triples text.\<close>

theorem exporters_agree:
  "(list_all unescaped_triple ts \<longrightarrow> xnt_triples ts = nt_triples ts) \<and>
   write_ntriples_streaming out ts = (out @ xnt_triples ts, length ts) \<and>
   write_nquads_streaming out qs = (out @ xnq_quads qs, length qs) \<and>
   xnq_quads (map quad_in_default_graph ts) = xnt_triples ts"
proof -
  have "list_all unescaped_triple ts \<Longrightarrow> xnt_triples ts = nt_triples ts"
    by (induction ts) (simp_all add: xnt_triples_def nt_triples_def xnt_triple_same)
  moreover have "xnq_quads (map quad_in_default_graph ts) = xnt_triples ts"
    by (induction ts) (simp_all add: xnq_quads_def xnt_triples_def xnq_default)
  ultimately show ?thesis by (simp add: nt_stream nq_stream)
qed

theorem exporters_agree_witness:
  "xnt_triples [triple_new (SubjBlank (bn_new [97])) (iri_new_unchecked [98, 58]) (ObjLiteral (literal_new [34]))] =
   nt_triples [triple_new (SubjBlank (bn_new [97])) (iri_new_unchecked [98, 58]) (ObjLiteral (literal_new [34]))]"
  using exporters_agree [of "[triple_new (SubjBlank (bn_new [97])) (iri_new_unchecked [98, 58]) (ObjLiteral (literal_new [34]))]"
      "[]" "[]"]
  by (simp add: unescaped_triple_def triple_new_def unescaped_iri_def is_control_def literal_new_def)

text \<open>The trait method of the N-Quads writer writes the triple only: the graph is lost.\<close>

lemma trait_quad_loses_graph: "xnq_quad_trait (quad_in_named_graph t g) = xnq_quad_direct (quad_in_default_graph t)"
  by (simp add: xnq_quad_trait_def quad_in_named_graph_def xnq_default)

subsection \<open>JSON-LD\<close>

lemma u_escape_json: "is_control c \<Longrightarrow> json_chars t v \<Longrightarrow> json_chars (u_escape c @ t) (c # v)"
proof -
  assume c: "is_control c" and t: "json_chars t v"
  have upper: "n < 16 \<Longrightarrow> is_hex (upper_hex n) \<and> hex_value (upper_hex n) = n" for n
    by (auto simp: upper_hex_def is_hex_def hex_value_def is_ascii_digit_def)
  have "c < 256" using c by (auto simp: is_control_def)
  then have code: "c div 4096 mod 16 = 0" "c div 256 mod 16 = 0" "c div 16 < 16" by simp_all
  let ?a = "upper_hex (c div 4096 mod 16)" and ?b = "upper_hex (c div 256 mod 16)"
    and ?d = "upper_hex (c div 16 mod 16)" and ?e = "upper_hex (c mod 16)"
  have digits: "list_all is_hex [?a, ?b, ?d, ?e]" by (simp add: upper)
  have "((hex_value ?a * 16 + hex_value ?b) * 16 + hex_value ?d) * 16 + hex_value ?e = c"
    using code by (simp add: upper)
  then show ?thesis using jc_hex [OF digits t] by (simp only: u_escape_def upper_hex4_def append_Cons append_Nil)
qed

lemma jw_string_json: "json_chars (jw_string s) s"
proof (induction s)
  case (Cons c s)
  have split: "jw_string (c # s) = jw_char c @ jw_string s" by (simp add: jw_string_def)
  show ?case unfolding split using Cons u_escape_json [of c, OF _ Cons]
    by (auto simp: simple_escapes_def is_control_def intro!: jc_plain jc_escape)
qed (simp add: jw_string_def jc_Nil)

lemma jw_quoted_json: "json_text (jw_quoted s) (JString s)"
  unfolding jw_quoted_def by (rule jt_string) (rule jw_string_json)

lemma jw_member: "json_text t j \<Longrightarrow> member_text (jw_quoted k @ [c_colon, c_space] @ t) (k, j)"
  unfolding member_text_def using jw_quoted_json [of k] jt_before [of "[c_space]" t j]
  by (auto simp: json_space_def)

lemma jw_member_key:
  assumes "json_text t j" "jw_quoted (lit k) = lit q"
  shows "member_text (lit q @ [c_colon, c_space] @ t) (lit k, j)"
  using jw_member [OF assms(1), of "lit k"] assms(2) by simp

lemma jw_keys: "jw_quoted (lit ''@id'') = lit ''\"@id\"''" "jw_quoted (lit ''@type'') = lit ''\"@type\"''"
  "jw_quoted (lit ''@value'') = lit ''\"@value\"''" "jw_quoted (lit ''@language'') = lit ''\"@language\"''"
  "jw_quoted (lit ''@context'') = lit ''\"@context\"''" "jw_quoted (lit ''@graph'') = lit ''\"@graph\"''"
  by (simp_all add: jw_quoted_def jw_string_def is_control_def str_simps)

lemma one_jw: "member_text t m \<Longrightarrow> json_text ([123] @ t @ [125]) (JObject [m])"
  using jt_members [of "[]" "[t]" "[m]"] by simp

lemma two_jw: "member_text t m \<Longrightarrow> member_text u n \<Longrightarrow> json_text ([123] @ t @ [c_comma, c_space] @ u @ [125]) (JObject [m, n])"
  using jt_members [of "[]" "[t, [c_space] @ u]" "[m, n]"] member_before [of "[c_space]" u n] by (simp add: json_space_def)

fun entry_json :: "context_entry \<Rightarrow> json" where
  "entry_json (CtxIri i) = JString i"
| "entry_json (CtxDefinition i vt) = JObject ((lit ''@id'', JString i) #
     (case vt of Some t \<Rightarrow> [(lit ''@type'', JString t)] | None \<Rightarrow> []))"

fun value_json :: "context_order \<Rightarrow> jsonld_writer \<Rightarrow> object \<Rightarrow> json" where
  "value_json iter w (ObjIri i) = JObject [(lit ''@id'', JString (jw_compact_iri iter w (iri_value i)))]"
| "value_json iter w (ObjBlank b) = JObject [(lit ''@id'', JString (lit ''_:'' @ bn_label b))]"
| "value_json iter w (ObjLiteral l) =
     (case lit_language l of
        Some lang \<Rightarrow> JObject [(lit ''@value'', JString (lit_value l)), (lit ''@language'', JString lang)]
      | None \<Rightarrow> (let dt = iri_value (literal_datatype l)
                in if dt = xsd_string_iri then JString (lit_value l)
                   else JObject [(lit ''@value'', JString (lit_value l)), (lit ''@type'', JString (jw_compact_iri iter w dt))]))"

text \<open>Labels that the writer may put between the quotes as they are.\<close>

fun json_label :: "object \<Rightarrow> bool" where
  "json_label (ObjBlank b) = list_all (\<lambda>c. jw_char c = [c]) (bn_label b)" | "json_label _ = True"

lemma jw_entry_json: "json_text (jw_entry e) (entry_json e)"
proof (cases e)
  case (CtxIri i)
  then show ?thesis by (simp add: jw_quoted_json)
next
  case (CtxDefinition i vt)
  have i: "member_text (lit ''\"@id\"'' @ [c_colon, c_space] @ jw_quoted i) (lit ''@id'', JString i)"
    by (rule jw_member_key [OF jw_quoted_json jw_keys(1)])
  show ?thesis
  proof (cases vt)
    case None
    then show ?thesis using one_jw [OF i] CtxDefinition by (simp add: str_simps)
  next
    case (Some t)
    have "member_text (lit ''\"@type\"'' @ [c_colon, c_space] @ jw_quoted t) (lit ''@type'', JString t)"
      by (rule jw_member_key [OF jw_quoted_json jw_keys(2)])
    from two_jw [OF i this] show ?thesis using Some CtxDefinition by (simp add: str_simps)
  qed
qed

lemma jw_value_json:
  assumes "json_label x"
  shows "json_text (jw_value iter w x) (value_json iter w x)"
proof -
  have m: "member_text (lit ''\"@value\"'' @ [c_colon, c_space] @ jw_quoted v) (lit ''@value'', JString v)"
    "member_text (lit ''\"@language\"'' @ [c_colon, c_space] @ jw_quoted v) (lit ''@language'', JString v)"
    "member_text (lit ''\"@type\"'' @ [c_colon, c_space] @ jw_quoted v) (lit ''@type'', JString v)"
    "member_text (lit ''\"@id\"'' @ [c_colon, c_space] @ jw_quoted v) (lit ''@id'', JString v)" for v
    by (rule jw_member_key [OF jw_quoted_json jw_keys(3)] jw_member_key [OF jw_quoted_json jw_keys(4)]
        jw_member_key [OF jw_quoted_json jw_keys(2)] jw_member_key [OF jw_quoted_json jw_keys(1)])+
  show ?thesis
  proof (cases x)
    case (ObjIri i)
    then show ?thesis using one_jw [OF m(4)] by (simp add: str_simps)
  next
    case (ObjBlank b)
    then have "jw_string (bn_label b) = bn_label b"
      using assms concat_singletons [of jw_char "bn_label b"] by (simp add: jw_string_def)
    then have "jw_quoted (lit ''_:'' @ bn_label b) = [c_dquote] @ lit ''_:'' @ bn_label b @ [c_dquote]"
      by (simp add: jw_quoted_def jw_string_def is_control_def str_simps)
    with one_jw [OF m(4), of "lit ''_:'' @ bn_label b"] ObjBlank show ?thesis by (simp add: str_simps)
  next
    case (ObjLiteral l)
    show ?thesis
    proof (cases "lit_language l")
      case (Some g)
      then show ?thesis using two_jw [OF m(1) m(2), of "lit_value l" g] ObjLiteral by (simp add: str_simps)
    next
      case None
      then show ?thesis
        using two_jw [OF m(1) m(3), of "lit_value l" "jw_compact_iri iter w (iri_value (literal_datatype l))"] ObjLiteral
        by (auto simp: str_simps Let_def jw_quoted_json)
    qed
  qed
qed

definition ld_predicate_json :: "context_order \<Rightarrow> jsonld_writer \<Rightarrow> rstr \<times> object list \<Rightarrow> rstr \<times> json" where
  "ld_predicate_json iter w = (\<lambda>(p, obs). (jw_compact_iri iter w p,
     if length obs = 1 then value_json iter w (hd obs) else JArray (map (value_json iter w) obs)))"

definition ld_subject_json :: "context_order \<Rightarrow> jsonld_writer \<Rightarrow> rstr \<times> (rstr \<times> object list) list \<Rightarrow> json" where
  "ld_subject_json iter w = (\<lambda>(s, ps).
     JObject ((lit ''@id'', JString (jw_compact_iri iter w s)) # map (ld_predicate_json iter w) ps))"

definition ld_document_json ::
  "context_order \<Rightarrow> jsonld_writer \<Rightarrow> (rstr \<times> (rstr \<times> object list) list) list \<Rightarrow> json" where
  "ld_document_json iter w ss = JObject
     ((if fmdom (jw_context w) = {||} then []
       else [(lit ''@context'', JObject (map (\<lambda>(t, e). (t, entry_json e)) (iter (jw_context w))))]) @
      [(lit ''@graph'', JArray (map (ld_subject_json iter w) ss))])"

text \<open>The indentation of the writer is white space.\<close>

definition blank_indent :: "jsonld_writer \<Rightarrow> bool" where
  "blank_indent w \<longleftrightarrow> json_space (jw_indent w)"

lemma jw_spaces: "json_space (jw_nl w)" "blank_indent w \<Longrightarrow> json_space (jw_ind w n)"
proof -
  show "json_space (jw_nl w)" by (auto simp: jw_nl_def json_space_def)
  assume "blank_indent w"
  moreover have "json_space v \<Longrightarrow> json_space (concat (replicate n v))" for v by (induction n) simp_all
  ultimately show "json_space (jw_ind w n)" by (simp add: jw_ind_def blank_indent_def)
qed

lemma jw_predicate_member:
  assumes "list_all json_label (snd e)"
  shows "member_text (jw_predicate iter w e) (ld_predicate_json iter w e)"
proof -
  obtain p obs where e: "e = (p, obs)" by (cases e)
  have each: "x \<in> set obs \<Longrightarrow> json_text (jw_value iter w x) (value_json iter w x)" for x
    using assms e jw_value_json by (simp add: list_all_iff)
  have array: "json_text ([c_lbracket] @ join [c_comma, c_space] (map (jw_value iter w) obs) @ [c_rbracket])
      (JArray (map (value_json iter w) obs))"
  proof -
    have "list_all2 json_text (spaced [c_space] (map (jw_value iter w) obs)) (map (value_json iter w) obs)"
    proof (rule spaced_all2)
      show "json_text t j \<Longrightarrow> json_text ([c_space] @ t) j" for t j by (rule jt_before) (simp_all add: json_space_def)
    qed (simp add: each list_all2_map1 list_all2_map2 list_all2_same)
    from jt_array [of "[]", OF _ this] show ?thesis
      using join_spaced [of "[c_space]" "map (jw_value iter w) obs"] by simp
  qed
  show ?thesis
  proof (cases "length obs = 1")
    case True
    then have "hd obs \<in> set obs" by (cases obs) simp_all
    from jw_member [OF each [OF this], of "jw_compact_iri iter w p"] True show ?thesis
      by (simp add: e jw_predicate_def ld_predicate_json_def str_simps)
  next
    case False
    from jw_member [OF array, of "jw_compact_iri iter w p"] False show ?thesis
      by (simp add: e jw_predicate_def ld_predicate_json_def str_simps)
  qed
qed

lemma members_lines:
  assumes "json_space w" "json_space w'" "json_space w''" "list_all2 member_text ts ms"
  shows "json_text ([123] @ w @ join ([c_comma] @ w') ts @ w'' @ [125]) (JObject ms)"
proof -
  have "length ts = length ms" using assms(4) by (rule list_all2_lengthD)
  then show ?thesis
    using object_lines [OF assms(1-3), of "zip ts ms" fst snd] assms(4) by (force simp: list_all2_iff)
qed

lemma join_rest: "join sep (x # xs) = x @ concat (map (\<lambda>y. sep @ y) xs)"
  by (induction xs arbitrary: x) (simp_all add: join_Cons)

lemma jw_subject_text:
  assumes w: "blank_indent w" and m: "\<And>p obs. (p, obs) \<in> set (piter m) \<Longrightarrow> list_all json_label obs"
  shows "json_text (jw_subject iter piter w (s, m)) (ld_subject_json iter w (s, piter m))"
proof -
  let ?sp = "jw_nl w @ jw_ind w 3"
  let ?id = "lit ''\"@id\"'' @ [c_colon, c_space] @ jw_quoted (jw_compact_iri iter w s)"
  have sp: "json_space ?sp" "json_space (jw_nl w @ jw_ind w 2)" "json_space (jw_ind w 2)" by (simp_all add: jw_spaces w)
  have "member_text ?id (lit ''@id'', JString (jw_compact_iri iter w s))"
    by (rule jw_member_key [OF jw_quoted_json jw_keys(1)])
  moreover have "e \<in> set (piter m) \<Longrightarrow> member_text (jw_predicate iter w e) (ld_predicate_json iter w e)" for e
    by (rule jw_predicate_member) (use m in \<open>cases e; auto\<close>)
  ultimately have all: "list_all2 member_text (?id # map (jw_predicate iter w) (piter m))
      ((lit ''@id'', JString (jw_compact_iri iter w s)) # map (ld_predicate_json iter w) (piter m))"
    by (simp add: list_all2_map1 list_all2_map2 list_all2_same)
  from members_lines [OF sp(1) sp(1) sp(2) all]
  have "json_text ([123] @ ?sp @ join ([c_comma] @ ?sp) (?id # map (jw_predicate iter w) (piter m)) @
      (jw_nl w @ jw_ind w 2) @ [125]) (ld_subject_json iter w (s, piter m))"
    by (simp add: ld_subject_json_def)
  from jt_before [OF sp(3) this] show ?thesis
    by (simp add: jw_subject_def join_rest comp_def str_simps)
qed

lemma json_labels_grouped:
  assumes iter: "hash_order siter" "hash_order piter" and ts: "list_all (\<lambda>t. json_label (t_object t)) ts"
    and s: "(s, m) \<in> set (siter (group_graph ts))" and p: "(p, obs) \<in> set (piter m)"
  shows "list_all json_label obs"
proof -
  have "stored_objects (group_graph ts) s p = Some obs"
    using s p hash_order_in_iff [OF iter(1)] hash_order_in_iff [OF iter(2)] by (simp add: stored_objects_def)
  then have "obs = objects_of ts s p" by (simp add: stored_group split: if_splits)
  then show ?thesis using ts by (auto simp: objects_of_def list_all_iff)
qed

lemma jw_context_member:
  assumes w: "blank_indent w"
  shows "member_text (lit ''\"@context\"'' @ [c_colon, c_space] @ [123] @ jw_nl w @
      join ([c_comma] @ jw_nl w) (map (\<lambda>(t, e). jw_ind w n @ jw_quoted t @ lit '': '' @ jw_entry e) es) @
      jw_nl w @ jw_ind w k @ [125])
    (lit ''@context'', JObject (map (\<lambda>(t, e). (t, entry_json e)) es))"
proof -
  have "list_all2 member_text (map (\<lambda>(t, e). jw_ind w n @ jw_quoted t @ lit '': '' @ jw_entry e) es)
      (map (\<lambda>(t, e). (t, entry_json e)) es)"
    using jw_member [OF jw_entry_json] member_before [OF jw_spaces(2) [OF w]]
    by (auto simp: list_all2_map1 list_all2_map2 list_all2_same str_simps)
  then have "json_text ([123] @ jw_nl w @ join ([c_comma] @ jw_nl w)
      (map (\<lambda>(t, e). jw_ind w n @ jw_quoted t @ lit '': '' @ jw_entry e) es) @ (jw_nl w @ jw_ind w k) @ [125])
      (JObject (map (\<lambda>(t, e). (t, entry_json e)) es))"
    by (intro members_lines) (simp_all add: jw_spaces w)
  from jw_member_key [OF this jw_keys(5)] show ?thesis by simp
qed

lemma jw_graph_member:
  assumes w: "blank_indent w" and ss: "\<And>x. x \<in> set ss \<Longrightarrow> json_text (f x) (g x)"
  shows "member_text (lit ''\"@graph\"'' @ [c_colon, c_space] @ [c_lbracket] @ jw_nl w @
      join ([c_comma] @ jw_nl w) (map f ss) @ (if ss = [] then [] else jw_nl w) @ jw_ind w n @ [c_rbracket])
    (lit ''@graph'', JArray (map g ss))"
proof -
  have "json_text ([c_lbracket] @ jw_nl w @ join ([c_comma] @ jw_nl w) (map f ss) @ (if ss = [] then [] else jw_nl w) @
      jw_ind w n @ [c_rbracket]) (JArray (map g ss))"
  proof (cases "ss = []")
    case True
    have "json_space (jw_nl w @ jw_ind w n)" using jw_spaces w by simp
    from jt_array [OF this, of "[]" "[]"] True show ?thesis by simp
  next
    case False
    have "json_space (jw_nl w @ jw_ind w n)" using jw_spaces w by simp
    from array_texts [of "jw_nl w" "jw_nl w @ jw_ind w n" ss f g] this ss False show ?thesis by (simp add: jw_spaces)
  qed
  from jw_member_key [OF this jw_keys(6)] show ?thesis .
qed

lemma jw_graph_text:
  assumes w: "blank_indent w" and iter: "hash_order iter"
    and m: "\<And>s m p obs. (s, m) \<in> set (siter (group_graph ts)) \<Longrightarrow> (p, obs) \<in> set (piter m) \<Longrightarrow> list_all json_label obs"
  shows "json_text (jw_graph iter siter piter w ts)
    (ld_document_json iter w (map (\<lambda>(s, m). (s, piter m)) (siter (group_graph ts))))"
proof -
  let ?ss = "siter (group_graph ts)" and ?sp = "jw_nl w @ jw_ind w 1"
  let ?graph = "lit ''\"@graph\"'' @ [c_colon, c_space] @ [c_lbracket] @ jw_nl w @
      join ([c_comma] @ jw_nl w) (map (jw_subject iter piter w) ?ss) @ (if ?ss = [] then [] else jw_nl w) @ jw_ind w 1 @ [c_rbracket]"
  let ?gm = "(lit ''@graph'', JArray (map (\<lambda>(s, m). ld_subject_json iter w (s, piter m)) ?ss))"
  have "x \<in> set ?ss \<Longrightarrow> json_text (jw_subject iter piter w x) ((\<lambda>(s, m). ld_subject_json iter w (s, piter m)) x)" for x
    using jw_subject_text [OF w, of piter] m by (cases x) auto
  from jw_graph_member [OF w this] have graph: "member_text ?graph ?gm" .
  have sp: "json_space ?sp" "json_space (jw_nl w)" using jw_spaces w by simp_all
  have empty: "iter (jw_context w) = [] \<longleftrightarrow> fmdom (jw_context w) = {||}"
    using hash_order_in_iff [OF iter, of _ _ "jw_context w"]
    by (cases "iter (jw_context w)") (auto intro: fset_eqI, metis fempty_iff fmdomI)
  show ?thesis
  proof (cases "fmdom (jw_context w) = {||}")
    case True
    have "list_all2 member_text [?graph] [?gm]" using graph by simp
    from jt_after [OF sp(2) members_lines [OF sp(1) sp(1) sp(2) this]] True show ?thesis
      by (simp add: jw_graph_def Let_def ld_document_json_def comp_def case_prod_unfold str_simps split: if_splits)
  next
    case False
    with empty have ne: "iter (jw_context w) \<noteq> []" by simp
    let ?ctx = "lit ''\"@context\"'' @ [c_colon, c_space] @ [123] @ jw_nl w @
      join ([c_comma] @ jw_nl w) (map (\<lambda>(t, e). jw_ind w (1 + 1) @ jw_quoted t @ lit '': '' @ jw_entry e) (iter (jw_context w))) @
      jw_nl w @ jw_ind w 1 @ [125]"
    let ?cm = "(lit ''@context'', JObject (map (\<lambda>(t, e). (t, entry_json e)) (iter (jw_context w))))"
    have "list_all2 member_text [?ctx, ?graph] [?cm, ?gm]" using graph jw_context_member [OF w] by simp
    from jt_after [OF sp(2) members_lines [OF sp(1) sp(1) sp(2) this]] False ne show ?thesis
      by (simp add: jw_graph_def jw_write_context_def Let_def ld_document_json_def comp_def case_prod_unfold str_simps
          split: if_splits)
  qed
qed

text \<open>C31: the JSON-LD export of a graph, pretty-printed or not, is a text of the JSON grammar, and it stands for
  a document with the writer's context and one node object per subject, which holds exactly the
  objects of the triples with this subject under each of its predicates, in their order. Blank
  node labels must hold no character that JSON escapes: the writer copies them.\<close>

theorem jsonld_export_correct:
  assumes "hash_order iter" "hash_order siter" "hash_order piter"
    and "blank_indent w" and "list_all (\<lambda>t. json_label (t_object t)) ts"
  shows "\<exists>ss. json_text (jw_graph iter siter piter w ts) (ld_document_json iter w ss) \<and> distinct (map fst ss) \<and>
    (\<forall>(k, ps) \<in> set ss. distinct (map fst ps)) \<and>
    (\<forall>k q obs. (\<exists>ps. (k, ps) \<in> set ss \<and> (q, obs) \<in> set ps) \<longleftrightarrow> obs = objects_of ts k q \<and> obs \<noteq> [])"
proof -
  let ?g = "group_graph ts"
  let ?ss = "map (\<lambda>(k, m). (k, piter m)) (siter ?g)"
  have stored: "(k, ps) \<in> set ?ss \<longleftrightarrow> (\<exists>m. fmlookup ?g k = Some m \<and> ps = piter m)" for k ps
    using hash_order_in_iff [OF assms(2), of k _ ?g] by (auto simp: image_iff split: prod.splits)
  have entries: "(\<exists>ps. (k, ps) \<in> set ?ss \<and> (q, obs) \<in> set ps) \<longleftrightarrow> stored_objects ?g k q = Some obs" for k q obs
    using hash_order_in_iff [OF assms(3), of q obs]
    by (simp only: stored stored_objects_def bind_eq_Some_conv) blast
  have keys: "map fst ?ss = map fst (siter ?g)" by (simp add: case_prod_beta comp_def)
  have "distinct (map fst ?ss)" "\<forall>(k, ps) \<in> set ?ss. distinct (map fst ps)"
    unfolding keys using assms by (auto simp: hash_order_distinct)
  then show ?thesis
    using jw_graph_text [OF assms(4,1) json_labels_grouped [OF assms(2,3,5)]]
    by (intro exI [of _ ?ss] conjI allI) (simp_all only: entries stored_group, auto)
qed

theorem jsonld_export_correct_witness:
  "\<exists>ss. json_text (jw_graph key_order key_order key_order (jw_with_common_prefixes jw_new)
      [triple_new (SubjBlank (bn_new [97])) (iri_new_unchecked [98]) (ObjBlank (bn_new [99]))])
     (ld_document_json key_order (jw_with_common_prefixes jw_new) ss) \<and> distinct (map fst ss)"
proof -
  let ?t = "triple_new (SubjBlank (bn_new [97])) (iri_new_unchecked [98]) (ObjBlank (bn_new [99]))"
  have "blank_indent (jw_with_common_prefixes jw_new)" "list_all (\<lambda>t. json_label (t_object t)) [?t]"
    by (simp_all add: blank_indent_def jw_with_common_prefixes_def jw_with_prefix_def jw_new_def json_space_def lit_def
        triple_new_def bn_new_def is_control_def)
  from jsonld_export_correct [OF hash_order_key_order hash_order_key_order hash_order_key_order this]
  show ?thesis by blast
qed

text \<open>A label with a double quote ends the string early.\<close>

lemma blank_label_unescaped:
  "jw_value iter w (ObjBlank (bn_new [c_dquote])) = lit ''{\"@id\": \"_:\"\"}''"
  by (simp add: bn_new_def str_simps)

end
