(* ===== verification/Readers.thy ===== *)
theory Readers
  imports Triple
begin

section \<open>Readers over the rio parsers (parser/src/formats: common.rs, ntriples.rs, nquads.rs, trig.rs)\<close>

text \<open>
  N-Triples, N-Quads and TriG are parsed by the crate rio, which is not part of the program;
  the program converts what rio parses into its own types, in one go or as an iterator. A
  rio parser is the record \<open>rio\<close> of its three functions: one step hands some statements to the
  callback and ends well or with an error text; an error of the callback ends the step.
  The lemmas say what conversion accepts and keeps, and that the iterator gives the
  statements that reading in one go gives.
\<close>

subsection \<open>Errors and configuration (common.rs)\<close>

datatype conversion_error = ConvError parser_error | ConvLanguage parser_error | ConvQuoted

text \<open>A message is a text of rio, or the error of a conversion, which the code sends through
  rio's error type and back to a text.\<close>

datatype reader_message = RioMessage rstr | ConversionMessage conversion_error | ParserMessage parser_error

record parse_error_info =
  pe_message :: reader_message
  pe_line :: "64 word option"
  pe_column :: "64 word option"

definition pe_new :: "reader_message \<Rightarrow> parse_error_info" where
  "pe_new m = \<lparr>pe_message = m, pe_line = None, pe_column = None\<rparr>"

definition pe_with_line :: "reader_message \<Rightarrow> 64 word \<Rightarrow> parse_error_info" where
  "pe_with_line m l = \<lparr>pe_message = m, pe_line = Some l, pe_column = None\<rparr>"

definition pe_with_location :: "reader_message \<Rightarrow> 64 word \<Rightarrow> 64 word \<Rightarrow> parse_error_info" where
  "pe_with_location m l c = \<lparr>pe_message = m, pe_line = Some l, pe_column = Some c\<rparr>"

definition pe_display :: "(reader_message \<Rightarrow> rstr) \<Rightarrow> parse_error_info \<Rightarrow> rstr" where
  "pe_display show e =
     (case (pe_line e, pe_column e) of
        (Some l, Some c) \<Rightarrow> show_nat (unat l) @ [c_colon] @ show_nat (unat c) @ lit '': '' @ show (pe_message e)
      | (Some l, None) \<Rightarrow> lit ''line '' @ show_nat (unat l) @ lit '': '' @ show (pe_message e)
      | _ \<Rightarrow> show (pe_message e))"

definition pe_from_parser_error :: "parser_error \<Rightarrow> parse_error_info" where
  "pe_from_parser_error e = pe_new (ParserMessage e)"

record parser_config =
  pc_blank_node_prefix :: "rstr option"
  pc_base_iri :: "rstr option"

definition pc_new :: parser_config where
  "pc_new = \<lparr>pc_blank_node_prefix = None, pc_base_iri = None\<rparr>"

definition pc_with_blank_node_prefix :: "rstr \<Rightarrow> parser_config \<Rightarrow> parser_config" where
  "pc_with_blank_node_prefix p c = c\<lparr>pc_blank_node_prefix := Some p\<rparr>"

definition pc_with_base_iri :: "rstr \<Rightarrow> parser_config \<Rightarrow> parser_config" where
  "pc_with_base_iri b c = c\<lparr>pc_base_iri := Some b\<rparr>"

subsection \<open>Conversion (common.rs)\<close>

text \<open>The types of rio the code matches on.\<close>

datatype rio_literal = RioSimple rstr | RioTagged rstr rstr | RioTyped rstr rstr
datatype rio_subject = RioSubjNamed rstr | RioSubjBlank rstr | RioSubjTriple
datatype rio_term = RioNamed rstr | RioBlank rstr | RioLiteral rio_literal | RioTriple
datatype rio_graph = RioGraphNamed rstr | RioGraphBlank rstr

type_synonym rio_triple = "rio_subject \<times> rstr \<times> rio_term"
type_synonym rio_quad = "rio_triple \<times> rio_graph option"

text \<open>A converter is its blank node prefix.\<close>

type_synonym converter = "rstr option"

definition conv_result :: "parser_error + 'a \<Rightarrow> conversion_error + 'a" where
  "conv_result r = (case r of Inl e \<Rightarrow> Inl (ConvError e) | Inr x \<Rightarrow> Inr x)"

definition convert_blank_node :: "converter \<Rightarrow> rstr \<Rightarrow> blank_node" where
  "convert_blank_node v i = bn_new (case v of Some p \<Rightarrow> p @ [c_underscore] @ i | None \<Rightarrow> i)"

fun convert_literal :: "rio_literal \<Rightarrow> conversion_error + literal" where
  "convert_literal (RioSimple v) = Inr (literal_new v)"
| "convert_literal (RioTagged v g) =
     (case literal_with_language v g of Inl e \<Rightarrow> Inl (ConvLanguage e) | Inr l \<Rightarrow> Inr l)"
| "convert_literal (RioTyped v d) = map_sum id (literal_with_datatype v) (conv_result (iri_new d))"

fun convert_subject :: "converter \<Rightarrow> rio_subject \<Rightarrow> conversion_error + subject" where
  "convert_subject v (RioSubjNamed i) = map_sum id SubjIri (conv_result (iri_new i))"
| "convert_subject v (RioSubjBlank b) = Inr (SubjBlank (convert_blank_node v b))"
| "convert_subject v RioSubjTriple = Inl ConvQuoted"

definition convert_predicate :: "rstr \<Rightarrow> conversion_error + iri" where
  "convert_predicate i = conv_result (iri_new i)"

fun convert_object :: "converter \<Rightarrow> rio_term \<Rightarrow> conversion_error + object" where
  "convert_object v (RioNamed i) = map_sum id ObjIri (conv_result (iri_new i))"
| "convert_object v (RioBlank b) = Inr (ObjBlank (convert_blank_node v b))"
| "convert_object v (RioLiteral l) = map_sum id ObjLiteral (convert_literal l)"
| "convert_object v RioTriple = Inl ConvQuoted"

fun convert_graph_name :: "converter \<Rightarrow> rio_graph option \<Rightarrow> conversion_error + graph_name option" where
  "convert_graph_name v None = Inr None"
| "convert_graph_name v (Some (RioGraphNamed i)) = map_sum id (\<lambda>i. Some (GraphIri i)) (conv_result (iri_new i))"
| "convert_graph_name v (Some (RioGraphBlank b)) = Inr (Some (GraphBlank (convert_blank_node v b)))"

definition conv_then :: "'e + 'a \<Rightarrow> ('a \<Rightarrow> 'e + 'b) \<Rightarrow> 'e + 'b" where
  "conv_then r f = (case r of Inl e \<Rightarrow> Inl e | Inr x \<Rightarrow> f x)"

definition convert_triple :: "converter \<Rightarrow> rio_triple \<Rightarrow> conversion_error + triple" where
  "convert_triple v t =
     conv_then (convert_subject v (fst t)) (\<lambda>s.
     conv_then (convert_predicate (fst (snd t))) (\<lambda>p.
     conv_then (convert_object v (snd (snd t))) (\<lambda>obj. Inr (triple_new s p obj))))"

definition convert_quad :: "converter \<Rightarrow> rio_quad \<Rightarrow> conversion_error + quad" where
  "convert_quad v q =
     conv_then (convert_subject v (fst (fst q))) (\<lambda>s.
     conv_then (convert_predicate (fst (snd (fst q)))) (\<lambda>p.
     conv_then (convert_object v (snd (snd (fst q)))) (\<lambda>obj.
     conv_then (convert_graph_name v (snd q)) (\<lambda>g. Inr (quad_new (triple_new s p obj) g)))))"

subsection \<open>The parsers of rio\<close>

record ('p, 't) rio =
  rio_new :: "rstr \<Rightarrow> 'p"
  rio_is_end :: "'p \<Rightarrow> bool"
  rio_step :: "'p \<Rightarrow> ('t list \<times> rstr option) \<times> 'p"

text \<open>One step with the code's callback: convert and push each statement, stop at the first that
  does not convert.\<close>

fun push_converted :: "('t \<Rightarrow> conversion_error + 'a) \<Rightarrow> 't list \<Rightarrow> 'a list \<Rightarrow> 'a list \<times> conversion_error option" where
  "push_converted conv [] out = (out, None)"
| "push_converted conv (t # ts) out =
     (case conv t of Inr x \<Rightarrow> push_converted conv ts (out @ [x]) | Inl e \<Rightarrow> (out, Some e))"

definition parse_step ::
  "('p, 't) rio \<Rightarrow> ('t \<Rightarrow> conversion_error + 'a) \<Rightarrow> 'p \<Rightarrow> 'a list \<Rightarrow> ('a list \<times> reader_message option) \<times> 'p" where
  "parse_step R conv p out =
     (case rio_step R p of ((ts, end), p) \<Rightarrow>
        (case push_converted conv ts out of
           (out, Some e) \<Rightarrow> ((out, Some (ConversionMessage e)), p)
         | (out, None) \<Rightarrow> ((out, map_option RioMessage end), p)))"

subsection \<open>Reading in one go\<close>

text \<open>The loop runs as long as rio does: it may not return.\<close>

partial_function (option) reader_loop ::
  "('p, 't) rio \<Rightarrow> ('t \<Rightarrow> conversion_error + 'a) \<Rightarrow> 'p \<Rightarrow> 'a list \<Rightarrow> (parse_error_info + 'a list) option" where
  "reader_loop R conv p out =
     (if rio_is_end R p then Some (Inr out)
      else (case parse_step R conv p out of
              ((_, Some m), _) \<Rightarrow> Some (Inl (pe_new m))
            | ((pushed, None), next) \<Rightarrow> reader_loop R conv next pushed))"

definition nt_parse_all_str :: "('p, rio_triple) rio \<Rightarrow> converter \<Rightarrow> rstr \<Rightarrow> (parse_error_info + triple list) option" where
  "nt_parse_all_str R v s = reader_loop R (convert_triple v) (rio_new R s) []"

definition nq_parse_all_str :: "('p, rio_quad) rio \<Rightarrow> converter \<Rightarrow> rstr \<Rightarrow> (parse_error_info + quad list) option" where
  "nq_parse_all_str R v s = reader_loop R (convert_quad v) (rio_new R s) []"

definition trig_parse_all_str :: "('p, rio_quad) rio \<Rightarrow> converter \<Rightarrow> rstr \<Rightarrow> (parse_error_info + quad list) option" where
  "trig_parse_all_str R v s = reader_loop R (convert_quad v) (rio_new R s) []"

text \<open>The functions without a prefix.\<close>

definition parse_ntriples :: "('p, rio_triple) rio \<Rightarrow> rstr \<Rightarrow> (parse_error_info + triple list) option" where
  "parse_ntriples R s = nt_parse_all_str R None s"

definition parse_nquads :: "('p, rio_quad) rio \<Rightarrow> rstr \<Rightarrow> (parse_error_info + quad list) option" where
  "parse_nquads R s = nq_parse_all_str R None s"

definition parse_trig :: "('p, rio_quad) rio \<Rightarrow> rstr \<Rightarrow> (parse_error_info + quad list) option" where
  "parse_trig R s = trig_parse_all_str R None s"

subsection \<open>The iterators\<close>

record ('p, 'a) collector =
  co_parser :: 'p
  co_pending :: "'a list"
  co_finished :: bool

definition co_new :: "('p, 't) rio \<Rightarrow> rstr \<Rightarrow> ('p, 'a) collector" where
  "co_new R s = \<lparr>co_parser = rio_new R s, co_pending = [], co_finished = False\<rparr>"

text \<open>\<open>Iterator::next\<close>, the element and the next state; \<open>TripleCollector\<close> and \<open>QuadCollector\<close> call
  themselves to try again where \<open>TriGQuadCollector\<close> loops.\<close>

partial_function (option) co_next ::
  "('p, 't) rio \<Rightarrow> ('t \<Rightarrow> conversion_error + 'a) \<Rightarrow> ('p, 'a) collector \<Rightarrow>
   ((parse_error_info + 'a) option \<times> ('p, 'a) collector) option" where
  "co_next R conv c =
     (case co_pending c of
        x # xs \<Rightarrow> Some (Some (Inr x), c\<lparr>co_pending := xs\<rparr>)
      | [] \<Rightarrow>
        if co_finished c \<or> rio_is_end R (co_parser c) then Some (None, c)
        else (case parse_step R conv (co_parser c) [] of
                ((out, None), p) \<Rightarrow>
                  (case out of
                     x # xs \<Rightarrow> Some (Some (Inr x), c\<lparr>co_parser := p, co_pending := xs\<rparr>)
                   | [] \<Rightarrow> if rio_is_end R p then Some (None, c\<lparr>co_parser := p, co_finished := True\<rparr>)
                       else co_next R conv (c\<lparr>co_parser := p\<rparr>))
              | ((out, Some m), p) \<Rightarrow>
                  Some (Some (Inl (pe_new m)), c\<lparr>co_parser := p, co_pending := out, co_finished := True\<rparr>)))"

definition nt_next ::
  "('p, rio_triple) rio \<Rightarrow> converter \<Rightarrow> ('p, triple) collector \<Rightarrow>
   ((parse_error_info + triple) option \<times> ('p, triple) collector) option" where
  "nt_next R v = co_next R (convert_triple v)"

definition nq_next ::
  "('p, rio_quad) rio \<Rightarrow> converter \<Rightarrow> ('p, quad) collector \<Rightarrow>
   ((parse_error_info + quad) option \<times> ('p, quad) collector) option" where
  "nq_next R v = co_next R (convert_quad v)"

definition trig_next ::
  "('p, rio_quad) rio \<Rightarrow> converter \<Rightarrow> ('p, quad) collector \<Rightarrow>
   ((parse_error_info + quad) option \<times> ('p, quad) collector) option" where
  "trig_next R v = co_next R (convert_quad v)"

text \<open>What a \<open>for\<close> loop over the iterator sees.\<close>

partial_function (option) co_drain ::
  "('p, 't) rio \<Rightarrow> ('t \<Rightarrow> conversion_error + 'a) \<Rightarrow> ('p, 'a) collector \<Rightarrow> (parse_error_info + 'a) list option" where
  "co_drain R conv c =
     Option.bind (co_next R conv c) (\<lambda>r. case fst r of
        None \<Rightarrow> Some []
      | Some x \<Rightarrow> Option.bind (co_drain R conv (snd r)) (\<lambda>xs. Some (x # xs)))"


subsection \<open>The iterator and reading in one go agree\<close>

lemma push_converted_out:
  "push_converted conv ts out = (out @ fst (push_converted conv ts []), snd (push_converted conv ts []))"
proof (induction ts arbitrary: out)
  case (Cons t ts)
  show ?case
  proof (cases "conv t")
    case (Inr x)
    then show ?thesis using Cons.IH [of "out @ [x]"] Cons.IH [of "[x]"] by simp
  qed simp
qed simp

lemma parse_step_out:
  "parse_step R conv p out = ((out @ fst (fst (parse_step R conv p [])), snd (fst (parse_step R conv p []))), snd (parse_step R conv p []))"
  using push_converted_out [of conv "fst (fst (rio_step R p))" out]
  by (auto simp: parse_step_def split: prod.splits option.splits)

definition waiting :: "'p \<Rightarrow> 'a list \<Rightarrow> bool \<Rightarrow> ('p, 'a) collector" where
  "waiting p xs f = \<lparr>co_parser = p, co_pending = xs, co_finished = f\<rparr>"

lemma next_pending: "co_next R conv (waiting p (x # xs) f) = Some (Some (Inr x), waiting p xs f)"
  by (subst co_next.simps) (simp add: waiting_def)

lemma drain_pending:
  "co_drain R conv (waiting p (xs @ ys) f) = map_option ((@) (map Inr xs)) (co_drain R conv (waiting p ys f))"
proof (induction xs)
  case Nil
  then show ?case by (simp add: map_option.id [unfolded id_def])
next
  case (Cons x xs)
  then show ?case
    by (subst co_drain.simps) (cases "co_drain R conv (waiting p ys f)"; simp add: next_pending)
qed

lemma drain_end: "f \<or> rio_is_end R p \<Longrightarrow> co_drain R conv (waiting p [] f) = Some []"
  by (subst co_drain.simps, subst co_next.simps) (simp add: waiting_def)

lemma drain_finished: "co_drain R conv (waiting p xs True) = Some (map Inr xs)"
  using drain_pending [of R conv p xs "[]" True] by (simp add: drain_end)

lemma next_step:
  assumes "\<not> rio_is_end R p" "parse_step R conv p [] = ((out, None), q)"
  shows "co_next R conv (waiting p [] False) =
    (case out of x # xs \<Rightarrow> Some (Some (Inr x), waiting q xs False)
     | [] \<Rightarrow> if rio_is_end R q then Some (None, waiting q [] True) else co_next R conv (waiting q [] False))"
  using assms by (subst co_next.simps) (simp add: waiting_def split: list.split)

lemma drain_step:
  assumes "\<not> rio_is_end R p" "parse_step R conv p [] = ((out, None), q)"
  shows "co_drain R conv (waiting p [] False) = co_drain R conv (waiting q out False)"
proof (cases out)
  case Nil
  show ?thesis
  proof (cases "rio_is_end R q")
    case True
    then show ?thesis
      using Nil next_step [OF assms] drain_end [of False R q conv] by (subst co_drain.simps) simp
  next
    case False
    then show ?thesis
      using Nil next_step [OF assms] by (subst (1 2) co_drain.simps) simp
  qed
next
  case (Cons x xs)
  then show ?thesis
    using next_step [OF assms] next_pending [of R conv q x xs False] by (subst (1 2) co_drain.simps) simp
qed

lemma drain_error:
  assumes "\<not> rio_is_end R p" "parse_step R conv p [] = ((out, Some m), q)"
  shows "co_drain R conv (waiting p [] False) = Some (Inl (pe_new m) # map Inr out)"
proof -
  have "co_next R conv (waiting p [] False) = Some (Some (Inl (pe_new m)), waiting q out True)"
    using assms by (subst co_next.simps) (simp add: waiting_def)
  then show ?thesis by (subst co_drain.simps) (simp add: drain_finished)
qed

text \<open>What the iterator gives for a result of the loop that started with some output.\<close>

definition agrees :: "'a list \<Rightarrow> parse_error_info + 'a list \<Rightarrow> (parse_error_info + 'a) list option \<Rightarrow> bool" where
  "agrees out res seen \<longleftrightarrow>
     (\<exists>ys. res = Inr (out @ ys) \<and> seen = Some (map Inr ys)) \<or>
     (\<exists>ys e zs. res = Inl e \<and> seen = Some (map Inr ys @ Inl e # map Inr zs))"

lemma agrees_step:
  "agrees (out @ xs) res seen \<Longrightarrow> agrees out res (map_option ((@) (map Inr xs)) seen)"
proof (unfold agrees_def, elim disjE exE conjE)
  fix ys assume "res = Inr ((out @ xs) @ ys)" "seen = Some (map Inr ys)"
  then show "(\<exists>ys. res = Inr (out @ ys) \<and> map_option ((@) (map Inr xs)) seen = Some (map Inr ys)) \<or>
      (\<exists>ys e zs. res = Inl e \<and> map_option ((@) (map Inr xs)) seen = Some (map Inr ys @ Inl e # map Inr zs))"
    by (intro disjI1 exI [of _ "xs @ ys"]) simp
next
  fix ys e zs assume "res = Inl e" "seen = Some (map Inr ys @ Inl e # map Inr zs)"
  then show "(\<exists>ys. res = Inr (out @ ys) \<and> map_option ((@) (map Inr xs)) seen = Some (map Inr ys)) \<or>
      (\<exists>ys e zs. res = Inl e \<and> map_option ((@) (map Inr xs)) seen = Some (map Inr ys @ Inl e # map Inr zs))"
    by (intro disjI2 exI [of _ "xs @ ys"] exI [of _ e] exI [of _ zs]) simp
qed

lemma reader_loop_drain:
  assumes "reader_loop R conv p out = Some res"
  shows "agrees out res (co_drain R conv (waiting p [] False))"
  using assms
proof (induction rule: reader_loop.raw_induct [rotated 1, consumes 1])
  case (1 loop R conv p out res)
  show ?case
  proof (cases "rio_is_end R p")
    case True
    then show ?thesis using 1(2) drain_end [of False R p conv] by (simp add: agrees_def)
  next
    case False
    obtain xs m q where step: "parse_step R conv p [] = ((xs, m), q)" by (metis prod.exhaust)
    then have out: "parse_step R conv p out = ((out @ xs, m), q)" by (subst parse_step_out) simp
    show ?thesis
    proof (cases m)
      case (Some m')
      then show ?thesis
        using 1(2) False out drain_error [OF False, of conv xs m' q] step
        by (auto simp: agrees_def intro!: exI [of _ "[]"])
    next
      case None
      then have "loop R conv q (out @ xs) = Some res" using 1(2) False out by simp
      then have "agrees (out @ xs) res (co_drain R conv (waiting q [] False))" by (rule 1(1))
      then show ?thesis
        using drain_step [OF False, of conv xs q] step None drain_pending [of R conv q xs "[]" False]
        by (auto dest: agrees_step)
    qed
  qed
qed


text \<open>C13: for every rio parser, input and conversion (that of triples for N-Triples, that of quads
  for N-Quads and TriG): if reading in one go gives a list of statements then iterating
  gives exactly these, in order, and if it fails the iterator gives that error, once.\<close>

theorem iterator_agrees:
  assumes "reader_loop R conv (rio_new R s) [] = Some res"
  shows "(\<exists>ts. res = Inr ts \<and> co_drain R conv (co_new R s) = Some (map Inr ts)) \<or>
    (\<exists>e ts us. res = Inl e \<and> co_drain R conv (co_new R s) = Some (map Inr ts @ Inl e # map Inr us))"
  using reader_loop_drain [OF assms] by (auto simp: agrees_def co_new_def waiting_def)

text \<open>A parser that has its one statement ready.\<close>

definition one_triple :: "(rio_triple list, rio_triple) rio" where
  "one_triple = \<lparr>rio_new = (\<lambda>s. [(RioSubjBlank s, lit ''p:q'', RioBlank s)]), rio_is_end = (\<lambda>p. p = []),
     rio_step = (\<lambda>p. ((take 1 p, None), drop 1 p))\<rparr>"

lemma one_triple_read: "nt_parse_all_str one_triple (Some (lit ''d'')) (lit ''b'') =
    Some (Inr [triple_new (SubjBlank (bn_new (lit ''d_b''))) (iri_new_unchecked (lit ''p:q'')) (ObjBlank (bn_new (lit ''d_b'')))])"
  unfolding nt_parse_all_str_def
  by (subst reader_loop.simps, subst reader_loop.simps)
    (simp add: one_triple_def parse_step_def convert_triple_def conv_then_def convert_predicate_def conv_result_def
      convert_blank_node_def iri_new_def iri_new_unchecked_def validate_def str_simps is_control_def)

theorem iterator_agrees_witness:
  "\<exists>t. co_drain one_triple (convert_triple (Some (lit ''d''))) (co_new one_triple (lit ''b'')) = Some [Inr t]"
  using iterator_agrees [OF one_triple_read [unfolded nt_parse_all_str_def]] by simp

text \<open>When a step of rio pushes statements and then fails, the error comes before them.\<close>

lemma error_before_statements:
  assumes "\<not> rio_is_end R (rio_new R s)" "parse_step R conv (rio_new R s) [] = ((xs, Some m), q)"
  shows "co_drain R conv (co_new R s) = Some (Inl (pe_new m) # map Inr xs)"
  using drain_error [OF assms] by (simp add: co_new_def waiting_def)

subsection \<open>What conversion accepts\<close>

lemma conv_result_Inr: "conv_result r = Inr x \<longleftrightarrow> r = Inr x"
  by (simp add: conv_result_def split: sum.split)

lemma conv_then_Inr: "conv_then r f = Inr y \<longleftrightarrow> (\<exists>x. r = Inr x \<and> f x = Inr y)"
  by (simp add: conv_then_def split: sum.split)

lemma map_sum_Inr: "map_sum id f r = Inr y \<longleftrightarrow> (\<exists>x. r = Inr x \<and> y = f x)"
  by (cases r) auto

text \<open>A converted quad is made of the texts that rio gave, and it is in the default graph if rio's
  quad is.\<close>

lemma convert_quad_texts:
  assumes "convert_quad v ((RioSubjNamed s, p, RioNamed obj), g) = Inr q"
  shows "subject_display (t_subject (q_triple q)) = c_lt # s @ [c_gt]" "iri_value (t_predicate (q_triple q)) = p"
    "object_display (t_object (q_triple q)) = c_lt # obj @ [c_gt]"
  using assms
  by (auto simp: convert_quad_def conv_then_Inr map_sum_Inr conv_result_Inr convert_predicate_def
      triple_new_def quad_new_def iri_display_def iri_new_unchecked_def dest!: iri_new_Inr)

lemma convert_quad_graph:
  assumes "convert_quad v (t, g) = Inr q"
  shows "quad_is_default_graph q \<longleftrightarrow> g = None"
  using assms
  by (cases "(v, g)" rule: convert_graph_name.cases)
    (auto simp: convert_quad_def conv_then_Inr map_sum_Inr quad_new_def quad_is_default_graph_def)

end
