(* ===== verification/Redis.thy ===== *)
theory Redis
  imports TurtleLexer SparqlFront Readers "HOL-Library.List_Lexorder"
begin

section \<open>The Redis module interface (module/src/lib.rs, module/src/commands/utils.rs)\<close>

text \<open>
  What the commands of the Redis module share: reply values, errors, arguments, the calls to
  the server, and the key scan. The server is outside the program: a call is a parameter of
  type \<open>redis_call\<close>, a function of the state of the server that gives a reply and the next
  state. A command is a function of that state, and its result \<open>None\<close> stands for no reply at
  all (a panic, or a loop without end).
\<close>

subsection \<open>Replies, errors and arguments\<close>

text \<open>A float of a reply enters as its printed text; \<open>ROther\<close> stands for the kinds of reply
  that no command looks at.\<close>

datatype redis_value =
    RSimple rstr
  | RBulk rstr
  | RInteger "64 word"
  | RFloat rstr
  | RArray "redis_value list"
  | RNull
  | ROther

text \<open>An error is its message; where the code prints a value in the debug format, the value
  is kept beside the text before it.\<close>

datatype redis_error =
    WrongArity
  | NotUtf8
  | Refused rstr
  | Message rstr
  | MessageChar rstr rchar
  | MessageError rstr redis_error
  | MessageParser rstr parser_error
  | MessageReader rstr parse_error_info

definition reply_ok :: redis_value where "reply_ok = RSimple (lit ''OK'')"

text \<open>\<open>RedisString::try_as_str\<close>: an argument is its text, or \<open>None\<close> if its bytes are no UTF-8.\<close>

type_synonym redis_arg = "rstr option"

type_synonym 'w redis_call = "'w \<Rightarrow> rstr \<Rightarrow> rstr list \<Rightarrow> (redis_error + redis_value) \<times> 'w"

type_synonym ('w, 'a) command = "'w \<Rightarrow> ((redis_error + 'a) \<times> 'w) option"

definition cmd_return :: "'a \<Rightarrow> ('w, 'a) command" where
  "cmd_return x = (\<lambda>w. Some (Inr x, w))"

definition cmd_error :: "redis_error \<Rightarrow> ('w, 'a) command" where
  "cmd_error e = (\<lambda>w. Some (Inl e, w))"

definition cmd_panic :: "('w, 'a) command" where
  "cmd_panic = (\<lambda>w. None)"

definition cmd_bind :: "('w, 'a) command \<Rightarrow> ('a \<Rightarrow> ('w, 'b) command) \<Rightarrow> ('w, 'b) command" where
  "cmd_bind m f = (\<lambda>w. case m w of None \<Rightarrow> None
     | Some (Inl e, w) \<Rightarrow> Some (Inl e, w) | Some (Inr x, w) \<Rightarrow> f x w)"

definition cmd_result :: "redis_error + 'a \<Rightarrow> ('w, 'a) command" where
  "cmd_result r = (\<lambda>w. Some (r, w))"

text \<open>\<open>ctx.call(name, args)?\<close>, and the same with the error as a value.\<close>

definition redis_do :: "'w redis_call \<Rightarrow> string \<Rightarrow> rstr list \<Rightarrow> ('w, redis_value) command" where
  "redis_do call name args = (\<lambda>w. Some (call w (lit name) args))"

definition redis_try :: "'w redis_call \<Rightarrow> string \<Rightarrow> rstr list \<Rightarrow> ('w, redis_error + redis_value) command" where
  "redis_try call name args = (\<lambda>w. case call w (lit name) args of (r, w) \<Rightarrow> Some (Inr r, w))"

named_theorems cmd_simps "running the combinators of commands"

lemmas [cmd_simps] = cmd_return_def cmd_error_def cmd_panic_def cmd_result_def redis_do_def redis_try_def

lemma cmd_bind_Some [cmd_simps]:
  "m w = Some (Inr x, w') \<Longrightarrow> cmd_bind m f w = f x w'"
  "m w = Some (Inl e, w') \<Longrightarrow> cmd_bind m f w = Some (Inl e, w')"
  "m w = None \<Longrightarrow> cmd_bind m f w = None"
  by (simp_all add: cmd_bind_def)

lemma cmd_bind_result [cmd_simps]:
  "cmd_bind (cmd_return x) f = f x"
  "cmd_bind (cmd_error e) f = cmd_error e"
  "cmd_bind (cmd_result (Inr x)) f = f x"
  "cmd_bind (cmd_result (Inl e)) f = cmd_error e"
  by (simp_all add: cmd_bind_def cmd_return_def cmd_error_def cmd_result_def)

lemma cmd_bindE:
  assumes "cmd_bind m f w = Some (r, w')"
  obtains (error) e where "m w = Some (Inl e, w')" "r = Inl e"
    | (go) x v where "m w = Some (Inr x, v)" "f x v = Some (r, w')"
  using assms by (auto simp: cmd_bind_def split: option.splits sum.splits prod.splits)

text \<open>The argument at a position as text, the error of the command otherwise.\<close>

definition arg_text :: "redis_arg list \<Rightarrow> nat \<Rightarrow> string \<Rightarrow> redis_error + rstr" where
  "arg_text args i message = (case args ! i of Some s \<Rightarrow> Inr s | None \<Rightarrow> Inl (Message (lit message)))"

fun positive_integer :: "redis_value \<Rightarrow> bool" where
  "positive_integer (RInteger n) = (0 < sint n)"
| "positive_integer _ = False"

fun as_text :: "redis_value \<Rightarrow> rstr option" where
  "as_text (RSimple s) = Some s"
| "as_text (RBulk s) = Some s"
| "as_text _ = None"

subsection \<open>Scanning keys (utils.rs)\<close>

definition scan_args :: "rstr \<Rightarrow> rstr \<Rightarrow> rstr list" where
  "scan_args cursor pattern = [cursor, lit ''MATCH'', pattern, lit ''COUNT'', lit ''100'']"

fun scan_cursor :: "redis_value \<Rightarrow> rstr option" where
  "scan_cursor (RInteger i) = Some (show_int (sint i))"
| "scan_cursor v = as_text v"

fun scan_batch :: "redis_value \<Rightarrow> rstr list" where
  "scan_batch (RArray ks) = List.map_filter as_text ks"
| "scan_batch _ = []"

text \<open>What one reply means: stop, or the next cursor and the keys of the batch.\<close>

fun scan_reply :: "redis_error + redis_value \<Rightarrow> (rstr \<times> rstr list) option" where
  "scan_reply (Inr (RArray (c # ks # _))) = map_option (\<lambda>cursor. (cursor, scan_batch ks)) (scan_cursor c)"
| "scan_reply _ = None"

text \<open>The loop ends when the server says so: it may not return.\<close>

partial_function (option) scan_loop ::
  "'w redis_call \<Rightarrow> rstr \<Rightarrow> rstr list \<Rightarrow> rstr \<Rightarrow> 'w \<Rightarrow> (rstr list \<times> 'w) option" where
  "scan_loop call pattern keys cursor w =
     (let reply = call w (lit ''SCAN'') (scan_args cursor pattern) in
      case scan_reply (fst reply) of
        None \<Rightarrow> Some (keys, snd reply)
      | Some (cursor, batch) \<Rightarrow>
          if cursor = lit ''0'' then Some (keys @ batch, snd reply)
          else scan_loop call pattern (keys @ batch) cursor (snd reply))"

definition scan_keys :: "'w redis_call \<Rightarrow> rstr \<Rightarrow> ('w, rstr list) command" where
  "scan_keys call pattern = (\<lambda>w. map_option (map_prod Inr id) (scan_loop call pattern [] (lit ''0'') w))"

subsection \<open>Loading the module (lib.rs)\<close>

fun module_named_graph :: "(rstr \<Rightarrow> rstr) \<Rightarrow> redis_value list \<Rightarrow> bool" where
  "module_named_graph lower (k # v # r) =
     ((case (as_text k, as_text v) of
         (Some key, Some val) \<Rightarrow> key = lit ''name'' \<and>
           (contains_str (lit ''graph'') (lower val) \<or> contains_str (lit ''falkor'') (lower val))
       | _ \<Rightarrow> False) \<or> module_named_graph lower r)"
| "module_named_graph lower _ = False"

fun module_entry :: "(rstr \<Rightarrow> rstr) \<Rightarrow> redis_value \<Rightarrow> bool" where
  "module_entry lower (RArray info) = module_named_graph lower info"
| "module_entry lower _ = False"

definition check_falkordb_module :: "(rstr \<Rightarrow> rstr) \<Rightarrow> 'w redis_call \<Rightarrow> 'w \<Rightarrow> bool \<times> 'w" where
  "check_falkordb_module lower call w =
     (case call w (lit ''MODULE'') [lit ''LIST''] of
        (Inr (RArray modules), w) \<Rightarrow> (list_ex (module_entry lower) modules, w)
      | (_, w) \<Rightarrow> (False, w))"

text \<open>\<open>Status::Ok\<close> is \<open>True\<close>.\<close>

definition module_init :: "(rstr \<Rightarrow> rstr) \<Rightarrow> 'w redis_call \<Rightarrow> 'w \<Rightarrow> bool \<times> 'w" where
  "module_init lower call w =
     (let r = check_falkordb_module lower call w in if \<not> fst r then (False, snd r) else (True, snd r))"

definition rdf_parse :: "redis_arg list \<Rightarrow> ('w, redis_value) command" where
  "rdf_parse args =
     (if length args < 2 then cmd_error WrongArity
      else (case args ! 1 of None \<Rightarrow> cmd_error NotUtf8 | Some _ \<Rightarrow> cmd_return reply_ok))"


subsection \<open>What the server promises\<close>

text \<open>
  The documented effect of the server's commands on its keyspace. A command that is refused
  changes nothing; a reply of string type reaches the module as a simple string.
\<close>

datatype redis_object = OString rstr | OSet "rstr fset" | OOther

type_synonym keyspace = "(rstr, redis_object) fmap"

definition members :: "keyspace \<Rightarrow> rstr \<Rightarrow> rstr fset" where
  "members m k = (case fmlookup m k of Some (OSet A) \<Rightarrow> A | _ \<Rightarrow> {||})"

definition set_members :: "rstr \<Rightarrow> rstr fset \<Rightarrow> keyspace \<Rightarrow> keyspace" where
  "set_members k A m = (if A = {||} then fmdrop k m else fmupd k (OSet A) m)"

lemma members_set_members [simp]: "members (set_members k A m) k = A"
  by (auto simp: members_def set_members_def)

definition changes :: "('w \<Rightarrow> keyspace) \<Rightarrow> (redis_error + redis_value) \<times> 'w \<Rightarrow> 'w \<Rightarrow> keyspace \<Rightarrow> bool" where
  "changes ks r w m \<longleftrightarrow> ks (snd r) = (if isl (fst r) then ks w else m)"

definition answers :: "('w \<Rightarrow> keyspace) \<Rightarrow> (redis_error + redis_value) \<times> 'w \<Rightarrow> 'w \<Rightarrow> (redis_value \<Rightarrow> bool) \<Rightarrow> bool" where
  "answers ks r w P \<longleftrightarrow> ks (snd r) = ks w \<and> (\<forall>x. fst r = Inr x \<longrightarrow> P x)"

definition get_answer :: "redis_object option \<Rightarrow> redis_value \<Rightarrow> bool" where
  "get_answer entry x \<longleftrightarrow> (case entry of None \<Rightarrow> x = RNull | Some (OString s) \<Rightarrow> x = RSimple s | _ \<Rightarrow> False)"

definition strings_ok :: "'w redis_call \<Rightarrow> ('w \<Rightarrow> keyspace) \<Rightarrow> bool" where
  "strings_ok call ks \<longleftrightarrow> (\<forall>w k v.
     changes ks (call w (lit ''SET'') [k, v]) w (fmupd k (OString v) (ks w)) \<and>
     changes ks (call w (lit ''DEL'') [k]) w (fmdrop k (ks w)) \<and>
     answers ks (call w (lit ''GET'') [k]) w (get_answer (fmlookup (ks w) k)) \<and>
     answers ks (call w (lit ''EXISTS'') [k]) w (\<lambda>x. x = RInteger (if fmlookup (ks w) k = None then 0 else 1)))"

text \<open>A set command on a key of another type is refused.\<close>

definition not_a_set :: "redis_object option \<Rightarrow> bool" where
  "not_a_set entry \<longleftrightarrow> (case entry of None \<Rightarrow> False | Some (OSet _) \<Rightarrow> False | _ \<Rightarrow> True)"

definition sets_ok :: "'w redis_call \<Rightarrow> ('w \<Rightarrow> keyspace) \<Rightarrow> bool" where
  "sets_ok call ks \<longleftrightarrow> (\<forall>w k v.
     changes ks (call w (lit ''SADD'') [k, v]) w (set_members k (finsert v (members (ks w) k)) (ks w)) \<and>
     changes ks (call w (lit ''SREM'') [k, v]) w (set_members k (members (ks w) k |-| {|v|}) (ks w)) \<and>
     answers ks (call w (lit ''SISMEMBER'') [k, v]) w (\<lambda>x. x = RInteger (if v |\<in>| members (ks w) k then 1 else 0)) \<and>
     answers ks (call w (lit ''SMEMBERS'') [k]) w
       (\<lambda>x. \<exists>ms. x = RArray (map RSimple ms) \<and> distinct ms \<and> fset_of_list ms = members (ks w) k) \<and>
     (not_a_set (fmlookup (ks w) k) \<longrightarrow>
       isl (fst (call w (lit ''SADD'') [k, v])) \<and> isl (fst (call w (lit ''SREM'') [k, v])) \<and>
       isl (fst (call w (lit ''SISMEMBER'') [k, v])) \<and> isl (fst (call w (lit ''SMEMBERS'') [k]))))"

text \<open>A graph command touches no key but that of its graph, and that only if it is free or
  holds a graph; a query that succeeds leaves a graph there.\<close>

definition graph_entry :: "redis_object option \<Rightarrow> bool" where
  "graph_entry e \<longleftrightarrow> e = None \<or> e = Some OOther"

definition graph_command_ok :: "('w \<Rightarrow> keyspace) \<Rightarrow> (redis_error + redis_value) \<times> 'w \<Rightarrow> 'w \<Rightarrow> rstr \<Rightarrow> bool" where
  "graph_command_ok ks r w g \<longleftrightarrow>
     (\<forall>k. fmlookup (ks (snd r)) k = fmlookup (ks w) k \<or>
        (k = g \<and> graph_entry (fmlookup (ks w) k) \<and> graph_entry (fmlookup (ks (snd r)) k)))"

definition graphs_ok :: "'w redis_call \<Rightarrow> ('w \<Rightarrow> keyspace) \<Rightarrow> bool" where
  "graphs_ok call ks \<longleftrightarrow> (\<forall>w g q.
     graph_command_ok ks (call w (lit ''GRAPH.QUERY'') [g, q]) w g \<and>
     graph_command_ok ks (call w (lit ''GRAPH.DELETE'') [g]) w g \<and>
     (\<not> isl (fst (call w (lit ''GRAPH.QUERY'') [g, q])) \<longrightarrow>
        fmlookup (ks (snd (call w (lit ''GRAPH.QUERY'') [g, q]))) g = Some OOther))"

text \<open>A full iteration of the scan, from a cursor to the reply with cursor 0, and its documented
  guarantee: it ends, and it returns the keys that are there from its start to its end and
  match the pattern, possibly more than once. Of the patterns only this is used: a pattern
  without special characters before a final star matches the keys with that prefix.\<close>

inductive scans :: "'w redis_call \<Rightarrow> rstr \<Rightarrow> 'w \<Rightarrow> rstr \<Rightarrow> rstr list \<Rightarrow> 'w \<Rightarrow> bool"
  for call pattern where
    last_batch: "call w (lit ''SCAN'') (scan_args c pattern) =
        (Inr (RArray [RSimple (lit ''0''), RArray (map RSimple keys)]), w') \<Longrightarrow>
      scans call pattern w c keys w'"
  | next_batch: "call w (lit ''SCAN'') (scan_args c pattern) =
        (Inr (RArray [RSimple c', RArray (map RSimple keys)]), v) \<Longrightarrow> c' \<noteq> lit ''0'' \<Longrightarrow>
      scans call pattern v c' rest w' \<Longrightarrow> scans call pattern w c (keys @ rest) w'"

definition plain :: "rstr \<Rightarrow> bool" where
  "plain s \<longleftrightarrow> set s \<inter> {42, 63, c_lbracket, c_rbracket, c_bslash, c_caret} = {}"

definition scan_ok :: "(rstr \<Rightarrow> rstr \<Rightarrow> bool) \<Rightarrow> 'w redis_call \<Rightarrow> ('w \<Rightarrow> keyspace) \<Rightarrow> bool" where
  "scan_ok glob call ks \<longleftrightarrow>
     (\<forall>p k. plain p \<longrightarrow> glob (p @ [42]) k = prefix p k) \<and>
     (\<forall>pattern w. \<exists>keys w'. scans call pattern w (lit ''0'') keys w' \<and> ks w' = ks w \<and>
        set keys = {k. k |\<in>| fmdom (ks w) \<and> glob pattern k})"

definition redis_ok :: "(rstr \<Rightarrow> rstr \<Rightarrow> bool) \<Rightarrow> 'w redis_call \<Rightarrow> ('w \<Rightarrow> keyspace) \<Rightarrow> bool" where
  "redis_ok glob call ks \<longleftrightarrow> strings_ok call ks \<and> sets_ok call ks \<and> graphs_ok call ks \<and> scan_ok glob call ks"

lemma map_filter_as_text [simp]: "List.map_filter as_text (map RSimple keys) = keys"
  by (induction keys) (simp_all add: List.map_filter_simps)

lemma scan_loop_scans:
  "scans call pattern w c keys w' \<Longrightarrow> scan_loop call pattern acc c w = Some (acc @ keys, w')"
proof (induction arbitrary: acc rule: scans.induct)
  case (last_batch w c keys w')
  then show ?case by (subst scan_loop.simps) simp
next
  case (next_batch w c c' keys v rest w')
  then show ?case by (subst scan_loop.simps) simp
qed

text \<open>The scan returns, leaves the keyspace alone and finds exactly the keys under a prefix.\<close>

lemma scan_keys_prefix:
  assumes "redis_ok glob call ks" "plain p"
  obtains keys w' where "scan_keys call (p @ [42]) w = Some (Inr keys, w')" "ks w' = ks w"
    "set keys = {k. k |\<in>| fmdom (ks w) \<and> prefix p k}"
proof -
  obtain keys w' where scan: "scans call (p @ [42]) w (lit ''0'') keys w'" and same: "ks w' = ks w"
    and found: "set keys = {k. k |\<in>| fmdom (ks w) \<and> glob (p @ [42]) k}"
    using assms(1) unfolding redis_ok_def scan_ok_def by metis
  have "set keys = {k. k |\<in>| fmdom (ks w) \<and> prefix p k}"
    using assms found by (simp add: redis_ok_def scan_ok_def)
  then show ?thesis
    using that scan_loop_scans [OF scan, of "[]"] same by (simp add: scan_keys_def)
qed

subsection \<open>A server in memory\<close>

text \<open>An instance of the promises that computes, on which the properties are evaluated.\<close>

definition star_match :: "rstr \<Rightarrow> rstr \<Rightarrow> bool" where
  "star_match p k \<longleftrightarrow> p \<noteq> [] \<and> last p = 42 \<and> prefix (butlast p) k"

definition wrong_type :: "redis_error + redis_value" where
  "wrong_type = Inl (Refused (lit ''WRONGTYPE''))"

definition memory_set :: "keyspace \<Rightarrow> rstr \<Rightarrow> rstr list \<Rightarrow> (redis_error + redis_value) \<times> keyspace" where
  "memory_set m name args =
     (let k = args ! 0; A = members m k in
      if not_a_set (fmlookup m k) then (wrong_type, m)
      else if name = lit ''SADD'' then (Inr (RInteger 1), set_members k (finsert (args ! 1) A) m)
      else if name = lit ''SREM'' then (Inr (RInteger 1), set_members k (A |-| {|args ! 1|}) m)
      else if name = lit ''SISMEMBER'' then (Inr (RInteger (if args ! 1 |\<in>| A then 1 else 0)), m)
      else (Inr (RArray (map RSimple (sorted_list_of_fset A))), m))"

definition memory_graph :: "keyspace \<Rightarrow> rstr \<Rightarrow> rstr list \<Rightarrow> (redis_error + redis_value) \<times> keyspace" where
  "memory_graph m name args =
     (case fmlookup m (args ! 0) of
        Some OOther \<Rightarrow> (Inr (RArray []), if name = lit ''GRAPH.DELETE'' then fmdrop (args ! 0) m else m)
      | None \<Rightarrow> if name = lit ''GRAPH.DELETE'' then (Inl (Refused (lit ''empty key'')), m)
          else (Inr (RArray []), fmupd (args ! 0) OOther m)
      | _ \<Rightarrow> (wrong_type, m))"

definition memory_call :: "keyspace redis_call" where
  "memory_call m name args =
     (if name = lit ''SET'' then (Inr reply_ok, fmupd (args ! 0) (OString (args ! 1)) m)
      else if name = lit ''DEL'' then (Inr (RInteger 1), fmdrop (args ! 0) m)
      else if name = lit ''GET'' then
        (case fmlookup m (args ! 0) of None \<Rightarrow> (Inr RNull, m) | Some (OString s) \<Rightarrow> (Inr (RSimple s), m)
         | _ \<Rightarrow> (wrong_type, m))
      else if name = lit ''EXISTS'' then (Inr (RInteger (if fmlookup m (args ! 0) = None then 0 else 1)), m)
      else if name = lit ''SCAN'' then
        (Inr (RArray [RSimple (lit ''0''), RArray (map RSimple
           (filter (star_match (args ! 2)) (sorted_list_of_fset (fmdom m))))]), m)
      else if name = lit ''GRAPH.QUERY'' \<or> name = lit ''GRAPH.DELETE'' then memory_graph m name args
      else memory_set m name args)"

lemma memory_strings: "strings_ok memory_call (\<lambda>m. m)"
  by (auto simp: strings_ok_def memory_call_def changes_def answers_def get_answer_def wrong_type_def
      split: option.split redis_object.split)

lemma memory_sets: "sets_ok memory_call (\<lambda>m. m)"
  unfolding sets_ok_def memory_call_def memory_set_def changes_def answers_def wrong_type_def
  by (auto intro!: exI [of _ "sorted_list_of_fset _"] simp: sorted_list_of_fset.rep_eq fset_of_list_elem Let_def)

lemma memory_graphs: "graphs_ok memory_call (\<lambda>m. m)"
  unfolding graphs_ok_def graph_command_ok_def graph_entry_def memory_call_def memory_graph_def wrong_type_def
  by (auto split: option.split redis_object.split)

lemma memory_scan: "scan_ok star_match memory_call (\<lambda>m. m)"
proof -
  have "scans memory_call p m (lit ''0'') (filter (star_match p) (sorted_list_of_fset (fmdom m))) m" for p m
    by (rule scans.last_batch) (simp add: memory_call_def scan_args_def)
  moreover have "set (filter (star_match p) (sorted_list_of_fset (fmdom m))) = {k. k |\<in>| fmdom m \<and> star_match p k}" for p and m :: keyspace
    by auto
  ultimately show ?thesis
    unfolding scan_ok_def by (fastforce simp: star_match_def)
qed

lemma memory_ok: "redis_ok star_match memory_call (\<lambda>m. m)"
  by (simp add: redis_ok_def memory_strings memory_sets memory_graphs memory_scan)

end
