(* ===== verification/ModuleInsert.thy ===== *)
theory ModuleInsert
  imports Redis Delete Cache TurtleParser
begin

section \<open>RDF.INSERT (module/src/commands/rdf\_insert.rs)\<close>

text \<open>
  The insertion of a document: arguments, the guess of its format, parsing, mapping to
  statements, and their execution by the server. A slice of the guess can panic. The blank
  node counter of the Turtle parser is global to the process, so the state is that of the
  server with the counter.
\<close>

subsection \<open>Formats\<close>

datatype rdf_format = FTurtle | FNTriples | FNQuads | FTriG | FJsonLd

definition rdf_format_from_str :: "(rstr \<Rightarrow> rstr) \<Rightarrow> rstr \<Rightarrow> rdf_format option" where
  "rdf_format_from_str lower s =
     (let l = lower s in
      if l = lit ''turtle'' \<or> l = lit ''ttl'' then Some FTurtle
      else if l = lit ''ntriples'' \<or> l = lit ''nt'' then Some FNTriples
      else if l = lit ''nquads'' \<or> l = lit ''nq'' then Some FNQuads
      else if l = lit ''trig'' then Some FTriG
      else if l = lit ''jsonld'' \<or> l = lit ''json-ld'' then Some FJsonLd
      else None)"

definition starts :: "rchar \<Rightarrow> rstr \<Rightarrow> bool" where
  "starts c s \<longleftrightarrow> s \<noteq> [] \<and> hd s = c"

definition ignored_line :: "rstr \<Rightarrow> bool" where
  "ignored_line s \<longleftrightarrow> s = [] \<or> starts c_hash s"

text \<open>\<open>line[..5]\<close> of a line of more than 5 bytes is the keyword and a blank follows; \<open>None\<close> is
  the panic.\<close>

definition graph_line :: "rstr \<Rightarrow> bool option" where
  "graph_line line =
     (if byte_len line > 5 then
        (case str_to line 5 of None \<Rightarrow> None
         | Some h \<Rightarrow> Some (map ascii_lower h = lit ''graph'' \<and>
             (case drop (length h) line of c # _ \<Rightarrow> c = c_space \<or> c = c_tab | [] \<Rightarrow> False)))
      else Some False)"

fun any_graph_line :: "rstr list \<Rightarrow> bool option" where
  "any_graph_line [] = Some False"
| "any_graph_line (l # ls) =
     (let line = trim l in
      if ignored_line line then any_graph_line ls
      else (case graph_line line of None \<Rightarrow> None | Some True \<Rightarrow> Some True | Some False \<Rightarrow> any_graph_line ls))"

definition prefixed_word :: "rstr \<Rightarrow> bool" where
  "prefixed_word w \<longleftrightarrow> c_colon \<in> set w \<and> \<not> starts c_lt w \<and> \<not> starts c_dquote w \<and>
     \<not> prefix (lit ''_:'') w \<and> \<not> prefix (lit ''^^'') w"

definition turtle_line :: "rstr \<Rightarrow> bool" where
  "turtle_line line \<longleftrightarrow>
     prefix (lit ''@prefix'') line \<or> prefix (lit ''@base'') line \<or>
     prefix (lit ''PREFIX'') line \<or> prefix (lit ''BASE'') line \<or>
     c_semi \<in> set line \<or> (c_comma \<in> set line \<and> \<not> starts c_lt line) \<or>
     (\<not> starts c_lt line \<and> \<not> starts c_underscore line \<and> list_ex prefixed_word (split_whitespace line))"

definition any_turtle_line :: "rstr list \<Rightarrow> bool" where
  "any_turtle_line ls = list_ex (\<lambda>l. \<not> ignored_line (trim l) \<and> turtle_line (trim l)) ls"

definition quads_line :: "rstr \<Rightarrow> bool" where
  "quads_line line =
     (let parts = split_whitespace line in
      length parts \<ge> 4 \<and> line \<noteq> [] \<and> last line = c_dot \<and>
      (starts c_lt (parts ! 3) \<or> prefix (lit ''_:'') (parts ! 3)))"

fun first_line_quads :: "rstr list \<Rightarrow> bool" where
  "first_line_quads [] = False"
| "first_line_quads (l # ls) = (if ignored_line (trim l) then first_line_quads ls else quads_line (trim l))"

definition detect_format :: "rstr \<Rightarrow> rdf_format option" where
  "detect_format content =
     (let trimmed = trim content; ls = split_lines [] trimmed in
      if starts 123 trimmed \<or> starts c_lbracket trimmed then Some FJsonLd
      else (case any_graph_line ls of
              None \<Rightarrow> None
            | Some True \<Rightarrow> Some FTriG
            | Some False \<Rightarrow> Some (if any_turtle_line ls then FTurtle
                else if first_line_quads ls then FNQuads else FNTriples)))"

subsection \<open>Arguments\<close>

text \<open>What the command is given from outside: the library functions, the two rio parsers, the
  orders of the hash maps of the mapper.\<close>

record ('f, 'p, 'q) insert_env =
  env_std :: "'f rust_std"
  env_upper :: "rstr \<Rightarrow> rstr"
  env_ntriples :: "('p, rio_triple) rio"
  env_trig :: "('q, rio_quad) rio"
  env_heads :: "head_map \<Rightarrow> (rstr \<times> rstr \<times> rstr) list"
  env_subjects :: "subject_map \<Rightarrow> (rstr \<times> subject_data) list"

record insert_args =
  ia_graph_key :: rstr
  ia_data :: rstr
  ia_format :: "rdf_format option"
  ia_atomic :: bool

definition formats_text :: "string" where
  "formats_text = ''turtle, ntriples, nquads, trig, jsonld''"

text \<open>The value of \<open>FORMAT\<close>.\<close>

definition format_value :: "(rstr \<Rightarrow> rstr) \<Rightarrow> redis_arg \<Rightarrow> redis_error + rdf_format" where
  "format_value lower a =
     (case a of None \<Rightarrow> Inl (Message (lit ''Invalid format value''))
      | Some s \<Rightarrow> (case rdf_format_from_str lower s of Some f \<Rightarrow> Inr f
          | None \<Rightarrow> Inl (Message (lit ''Unknown format '' @ [c_squote] @ s @ [c_squote] @
              lit ''. Use: turtle, ntriples, nquads, trig, jsonld''))))"

definition format_missing :: redis_error where
  "format_missing = Message (lit ''FORMAT requires a value (turtle, ntriples, nquads, trig, jsonld)'')"

definition unknown_argument :: "rstr \<Rightarrow> redis_error" where
  "unknown_argument arg = Message (lit ''Unknown argument: '' @ arg)"

fun insert_options ::
  "(rstr \<Rightarrow> rstr) \<Rightarrow> (rstr \<Rightarrow> rstr) \<Rightarrow> redis_arg list \<Rightarrow> rdf_format option \<times> bool \<Rightarrow> redis_error + rdf_format option \<times> bool" where
  "insert_options upper lower [] r = Inr r"
| "insert_options upper lower (None # as) r = Inl (Message (lit ''Invalid argument''))"
| "insert_options upper lower (Some arg # as) r =
     (if upper arg = lit ''FORMAT'' then
        (case as of [] \<Rightarrow> Inl format_missing
         | v # as \<Rightarrow> (case format_value lower v of Inl e \<Rightarrow> Inl e
             | Inr f \<Rightarrow> insert_options upper lower as (Some f, snd r)))
      else if upper arg = lit ''ATOMIC'' then insert_options upper lower as (fst r, True)
      else Inl (unknown_argument arg))"

definition insert_args_parse :: "('f, 'p, 'q) insert_env \<Rightarrow> redis_arg list \<Rightarrow> redis_error + insert_args" where
  "insert_args_parse E args =
     (if length args < 3 then Inl WrongArity
      else case arg_text args 1 ''Invalid graph key'' of Inl e \<Rightarrow> Inl e
       | Inr g \<Rightarrow> (case arg_text args 2 ''Invalid data'' of Inl e \<Rightarrow> Inl e
           | Inr d \<Rightarrow> (case insert_options (env_upper E) (to_lowercase (env_std E)) (drop 3 args) (None, False) of
               Inl e \<Rightarrow> Inl e
             | Inr (f, a) \<Rightarrow> Inr \<lparr>ia_graph_key = g, ia_data = d, ia_format = f, ia_atomic = a\<rparr>)))"

subsection \<open>Parsing\<close>

datatype rdf_parse_error = TurtleError parser_error | ReaderError parse_error_info | NoJsonLd

definition turtle_triples :: "'f rust_std \<Rightarrow> rstr \<Rightarrow> u64 \<Rightarrow> ((rdf_parse_error + triple list) \<times> u64) option" where
  "turtle_triples S data global =
     (case tp_new global of (parser, global) \<Rightarrow>
        (case turtle_parse S parser data of
           Inl (Fail e) \<Rightarrow> Some (Inl (TurtleError e), global)
         | Inl _ \<Rightarrow> None
         | Inr (triples, _) \<Rightarrow> Some (Inr triples, global)))"

definition reader_result :: "u64 \<Rightarrow> ('a \<Rightarrow> triple) \<Rightarrow> (parse_error_info + 'a list) option \<Rightarrow> ((rdf_parse_error + triple list) \<times> u64) option" where
  "reader_result global f r = map_option (\<lambda>x. (map_sum ReaderError (map f) x, global)) r"

fun parse_rdf ::
  "('f, 'p, 'q) insert_env \<Rightarrow> rstr \<Rightarrow> rdf_format \<Rightarrow> u64 \<Rightarrow> ((rdf_parse_error + triple list) \<times> u64) option" where
  "parse_rdf E data FTurtle global = turtle_triples (env_std E) data global"
| "parse_rdf E data FNTriples global = reader_result global id (nt_parse_all_str (env_ntriples E) None data)"
| "parse_rdf E data FNQuads global = reader_result global id (nt_parse_all_str (env_ntriples E) None data)"
| "parse_rdf E data FTriG global = reader_result global q_triple (trig_parse_all_str (env_trig E) None data)"
| "parse_rdf E data FJsonLd global = Some (Inl NoJsonLd, global)"

fun parse_failed :: "rdf_parse_error \<Rightarrow> redis_error" where
  "parse_failed (TurtleError e) = MessageParser (lit ''Parse error: '') e"
| "parse_failed (ReaderError e) = MessageReader (lit ''Parse error: '') e"
| "parse_failed NoJsonLd = Message (lit ''Parse error: JSON-LD parsing not yet implemented'')"

subsection \<open>Execution\<close>

record insert_stats =
  is_triples_parsed :: nat
  is_statements_generated :: nat
  is_statements_executed :: nat
  is_errors :: nat
  is_error_messages :: "redis_error list"

definition count_error :: "redis_error \<Rightarrow> insert_stats \<Rightarrow> insert_stats" where
  "count_error e st = st\<lparr>is_errors := is_errors st + 1,
     is_error_messages := is_error_messages st @ [MessageError (lit ''Query error: '') e]\<rparr>"

fun run_queries ::
  "'w redis_call \<Rightarrow> rstr \<Rightarrow> bool \<Rightarrow> nat \<Rightarrow> rstr list \<Rightarrow> insert_stats \<Rightarrow> 'w \<Rightarrow> insert_stats \<times> 'w" where
  "run_queries call g atomic k [] st w = (st, w)"
| "run_queries call g atomic k (q # qs) st w =
     (case call w (lit ''GRAPH.QUERY'') [g, q] of
        (Inr _, w) \<Rightarrow> run_queries call g atomic k qs
          (st\<lparr>is_statements_executed := (if atomic then k else is_statements_executed st + 1)\<rparr>) w
      | (Inl e, w) \<Rightarrow>
          if atomic then (count_error e st, w)
          else run_queries call g atomic k qs (count_error e st) w)"

definition execute_cypher ::
  "'w redis_call \<Rightarrow> rstr \<Rightarrow> rstr list \<Rightarrow> bool \<Rightarrow> nat \<Rightarrow> 'w \<Rightarrow> insert_stats \<times> 'w" where
  "execute_cypher call g statements atomic parsed w =
     (let st = \<lparr>is_triples_parsed = parsed, is_statements_generated = length statements,
                is_statements_executed = 0, is_errors = 0, is_error_messages = []\<rparr>
      in if statements = [] then (st, w)
         else run_queries call g atomic (length statements)
                (if atomic then [join [c_nl] statements] else statements) st w)"

definition counts_reply :: "nat list \<Rightarrow> redis_value" where
  "counts_reply ns = RArray (map (\<lambda>n. RInteger (of_nat n)) ns)"

definition rdf_insert ::
  "('f, 'p, 'q) insert_env \<Rightarrow> 'w redis_call \<Rightarrow> redis_arg list \<Rightarrow> ('w \<times> u64, redis_value) command" where
  "rdf_insert E call args = cmd_bind (cmd_result (insert_args_parse E args)) (\<lambda>a (w, global).
     case (case ia_format a of Some f \<Rightarrow> Some f | None \<Rightarrow> detect_format (ia_data a)) of
       None \<Rightarrow> None
     | Some format \<Rightarrow>
         (case parse_rdf E (ia_data a) format global of
            None \<Rightarrow> None
          | Some (Inl e, global) \<Rightarrow> Some (Inl (parse_failed e), (w, global))
          | Some (Inr triples, global) \<Rightarrow>
              if triples = [] then Some (Inr (counts_reply [0, 0, 0]), (w, global))
              else (case map_triples (env_heads E) (env_subjects E) mapper_new triples of
                      None \<Rightarrow> None
                    | Some statements \<Rightarrow>
                        (case execute_cypher call (ia_graph_key a) statements (ia_atomic a) (length triples) w of
                           (st, w) \<Rightarrow> Some (Inr (counts_reply
                              [length triples, is_statements_executed st, is_errors st]), (w, global))))))"

end
