(* ===== verification/ModuleBulk.thy ===== *)
theory ModuleBulk
  imports ModuleInsert
begin

section \<open>RDF.BULK\_INSERT (module/src/commands/rdf\_bulk\_insert.rs)\<close>

text \<open>
  Insertion of a file: the check of its path, the arguments, the line-based formats read in
  batches, the others read as a whole and cut into chunks. The file system is a record of what
  the code asks of it; the lines of a file are a list, an element that could not be read an
  error text.
\<close>

subsection \<open>Paths\<close>

record file_system =
  fs_exists :: "rstr \<Rightarrow> bool"
  fs_canonicalize :: "rstr \<Rightarrow> rstr + rstr"
  fs_is_file :: "rstr \<Rightarrow> bool"
  fs_allowed_dir :: "rstr option"
  fs_read :: "rstr \<Rightarrow> rstr + rstr"
  fs_lines :: "rstr \<Rightarrow> rstr + (rstr + rstr) list"

fun split_slash :: "rstr \<Rightarrow> rstr \<Rightarrow> rstr list" where
  "split_slash w [] = [w]"
| "split_slash w (c # cs) = (if c = c_slash then w # split_slash [] cs else split_slash (w @ [c]) cs)"

text \<open>\<open>Path::starts_with\<close> compares whole components, of absolute paths here.\<close>

definition path_components :: "rstr \<Rightarrow> rstr list" where
  "path_components p = filter (\<lambda>w. w \<noteq> []) (split_slash [] p)"

definition path_starts_with :: "rstr \<Rightarrow> rstr \<Rightarrow> bool" where
  "path_starts_with p q \<longleftrightarrow> prefix (path_components q) (path_components p)"

definition validate_file_path :: "file_system \<Rightarrow> rstr \<Rightarrow> rstr + rstr" where
  "validate_file_path F path =
     (if contains_str (lit ''..'') path
      then Inl (lit ''Path traversal detected: '' @ [c_squote] @ lit ''..'' @ [c_squote] @ lit '' is not allowed in file paths'')
      else if \<not> fs_exists F path then Inl (lit ''File not found: '' @ path)
      else (case fs_canonicalize F path of
          Inl e \<Rightarrow> Inl (lit ''Failed to resolve path: '' @ e)
        | Inr canonical \<Rightarrow>
            (case (case fs_allowed_dir F of
                     None \<Rightarrow> Inr ()
                   | Some dir \<Rightarrow> (case fs_canonicalize F dir of
                         Inl e \<Rightarrow> Inl (lit ''Invalid allowed directory '' @ [c_squote] @ dir @ [c_squote] @ lit '': '' @ e)
                       | Inr allowed \<Rightarrow>
                           if \<not> path_starts_with canonical allowed
                           then Inl (lit ''Access denied: file must be within allowed directory '' @ [c_squote] @ allowed @ [c_squote])
                           else Inr ())) of
               Inl e \<Rightarrow> Inl e
             | Inr _ \<Rightarrow> if \<not> fs_is_file F canonical then Inl (lit ''Path is not a regular file: '' @ canonical)
                 else Inr canonical)))"

text \<open>\<open>Path::extension\<close>: what follows the last point of the file name, unless the name starts
  with its only point or is \<open>..\<close>.\<close>

definition path_extension :: "rstr \<Rightarrow> rstr option" where
  "path_extension p =
     (case rev (path_components p) of [] \<Rightarrow> None
      | name # _ \<Rightarrow>
          (let before = rev (dropWhile (\<lambda>c. c \<noteq> c_dot) (rev name)) in
           if name = lit ''..'' \<or> length before \<le> 1 then None
           else Some (rev (takeWhile (\<lambda>c. c \<noteq> c_dot) (rev name)))))"

definition detect_format_from_path :: "(rstr \<Rightarrow> rstr) \<Rightarrow> rstr \<Rightarrow> rdf_format option" where
  "detect_format_from_path lower p = Option.bind (path_extension p) (\<lambda>ext.
     let l = lower ext in
      if l = lit ''ttl'' \<or> l = lit ''turtle'' then Some FTurtle
      else if l = lit ''nt'' \<or> l = lit ''ntriples'' then Some FNTriples
      else if l = lit ''nq'' \<or> l = lit ''nquads'' then Some FNQuads
      else if l = lit ''trig'' then Some FTriG
      else if l = lit ''jsonld'' \<or> l = lit ''json'' then Some FJsonLd
      else None)"

subsection \<open>Arguments\<close>

definition DEFAULT_BATCH_SIZE :: nat where "DEFAULT_BATCH_SIZE = 1000"
definition usize_max :: nat where "usize_max = 2 ^ 64 - 1"

record bulk_options =
  bo_format :: "rdf_format option"
  bo_batch_size :: nat
  bo_skip_lines :: nat
  bo_max_errors :: nat
  bo_continue_on_error :: bool

definition bulk_defaults :: bulk_options where
  "bulk_defaults = \<lparr>bo_format = None, bo_batch_size = DEFAULT_BATCH_SIZE, bo_skip_lines = 0,
     bo_max_errors = usize_max, bo_continue_on_error = True\<rparr>"

text \<open>A number after a keyword; the three messages are for no value, one that is no text, and
  one that is no number.\<close>

definition number_value :: "string \<Rightarrow> string \<Rightarrow> redis_arg list \<Rightarrow> redis_error + nat \<times> redis_arg list" where
  "number_value missing invalid as =
     (case as of [] \<Rightarrow> Inl (Message (lit missing))
      | None # _ \<Rightarrow> Inl (Message (lit invalid))
      | Some s # r \<Rightarrow> (case parse_unsigned usize_max s of
          None \<Rightarrow> Inl (Message (lit invalid @ lit '': '' @ s)) | Some n \<Rightarrow> Inr (n, r)))"

lemma number_value_shorter: "number_value m i as = Inr (n, r) \<Longrightarrow> length r < length as"
  by (auto simp: number_value_def split: list.splits option.splits)

function (sequential) bulk_loop ::
  "(rstr \<Rightarrow> rstr) \<Rightarrow> (rstr \<Rightarrow> rstr) \<Rightarrow> redis_arg list \<Rightarrow> bulk_options \<Rightarrow> redis_error + bulk_options" where
  "bulk_loop upper lower [] b = Inr b"
| "bulk_loop upper lower (None # as) b = Inl (Message (lit ''Invalid argument''))"
| "bulk_loop upper lower (Some arg # as) b =
     (let u = upper arg in
      if u = lit ''FORMAT'' then
        (case as of [] \<Rightarrow> Inl format_missing
         | v # as' \<Rightarrow> (case format_value lower v of Inl e \<Rightarrow> Inl e
             | Inr f \<Rightarrow> bulk_loop upper lower as' (b\<lparr>bo_format := Some f\<rparr>)))
      else if u = lit ''BATCH'' then
        (case number_value ''BATCH requires a size value'' ''Invalid batch size'' as of Inl e \<Rightarrow> Inl e
         | Inr (n, as') \<Rightarrow> if n = 0 then Inl (Message (lit ''Batch size must be > 0''))
             else bulk_loop upper lower as' (b\<lparr>bo_batch_size := n\<rparr>))
      else if u = lit ''SKIP'' then
        (case number_value ''SKIP requires a line count'' ''Invalid skip count'' as of Inl e \<Rightarrow> Inl e
         | Inr (n, as') \<Rightarrow> bulk_loop upper lower as' (b\<lparr>bo_skip_lines := n\<rparr>))
      else if u = lit ''MAXERRORS'' then
        (case number_value ''MAXERRORS requires a count'' ''Invalid max errors'' as of Inl e \<Rightarrow> Inl e
         | Inr (n, as') \<Rightarrow> bulk_loop upper lower as' (b\<lparr>bo_max_errors := n\<rparr>))
      else if u = lit ''STOPONERROR'' then bulk_loop upper lower as (b\<lparr>bo_continue_on_error := False\<rparr>)
      else Inl (unknown_argument arg))"
  by pat_completeness auto

termination
  by (relation "measure (\<lambda>(_, _, as, _). length as)") (auto dest: number_value_shorter)

record bulk_args =
  ba_graph_key :: rstr
  ba_file_path :: rstr
  ba_options :: bulk_options

definition bulk_args_parse :: "('f, 'p, 'q) insert_env \<Rightarrow> redis_arg list \<Rightarrow> redis_error + bulk_args" where
  "bulk_args_parse E args =
     (if length args < 3 then Inl WrongArity
      else case arg_text args 1 ''Invalid graph key'' of Inl e \<Rightarrow> Inl e
       | Inr g \<Rightarrow> (case arg_text args 2 ''Invalid file path'' of Inl e \<Rightarrow> Inl e
           | Inr p \<Rightarrow> (case bulk_loop (env_upper E) (to_lowercase (env_std E)) (drop 3 args) bulk_defaults of
               Inl e \<Rightarrow> Inl e
             | Inr b \<Rightarrow> Inr \<lparr>ba_graph_key = g, ba_file_path = p, ba_options = b\<rparr>)))"

subsection \<open>Reading lines in batches\<close>

datatype bulk_message = BulkText rstr | BulkParse nat parse_error_info | BulkBatch redis_error

record bulk_stats =
  bs_triples_parsed :: nat
  bs_statements_executed :: nat
  bs_errors :: nat
  bs_batches_processed :: nat
  bs_failed_lines :: "nat list"
  bs_error_messages :: "bulk_message list"
  bs_last_successful_line :: nat

definition bs_new :: bulk_stats where
  "bs_new = \<lparr>bs_triples_parsed = 0, bs_statements_executed = 0, bs_errors = 0, bs_batches_processed = 0,
     bs_failed_lines = [], bs_error_messages = [], bs_last_successful_line = 0\<rparr>"

text \<open>The closure that processes a batch, on a state of its own: the statements executed and
  failed, or an error; \<open>None\<close> if the mapping does not end.\<close>

type_synonym 's batch_run = "triple list \<Rightarrow> nat \<Rightarrow> 's \<Rightarrow> ((rstr + nat \<times> nat) \<times> 's) option"

definition batch_done :: "nat \<Rightarrow> triple list \<Rightarrow> rstr + nat \<times> nat \<Rightarrow> bulk_stats \<Rightarrow> bulk_stats" where
  "batch_done line batch r st =
     (case r of
        Inr (executed, errors) \<Rightarrow>
          st\<lparr>bs_statements_executed := bs_statements_executed st + executed, bs_errors := bs_errors st + errors,
             bs_batches_processed := bs_batches_processed st + 1, bs_last_successful_line := line\<rparr>
      | Inl e \<Rightarrow>
          st\<lparr>bs_error_messages := bs_error_messages st @ [BulkText e], bs_errors := bs_errors st + length batch\<rparr>)"

text \<open>The state of the loop: statistics, batch, its first line, and the state of the closure.\<close>

type_synonym 's stream_state = "bulk_stats \<times> triple list \<times> nat \<times> 's"

fun push_triples :: "'s batch_run \<Rightarrow> nat \<Rightarrow> nat \<Rightarrow> triple list \<Rightarrow> 's stream_state \<Rightarrow> 's stream_state option" where
  "push_triples process limit line [] x = Some x"
| "push_triples process limit line (t # ts) (st, batch, start, s) =
     (let batch = batch @ [t]; st = st\<lparr>bs_triples_parsed := bs_triples_parsed st + 1\<rparr> in
      if length batch \<ge> limit then
        (case process batch start s of None \<Rightarrow> None
         | Some (r, s) \<Rightarrow> push_triples process limit line ts (batch_done line batch r st, [], line + 1, s))
      else push_triples process limit line ts (st, batch, start, s))"

definition parse_failed_line :: "nat \<Rightarrow> parse_error_info \<Rightarrow> bulk_stats \<Rightarrow> bulk_stats" where
  "parse_failed_line line e st = st\<lparr>bs_errors := bs_errors st + 1, bs_failed_lines := bs_failed_lines st @ [line],
     bs_error_messages := bs_error_messages st @ [BulkParse line e]\<rparr>"

fun stream_lines ::
  "('p, rio_triple) rio \<Rightarrow> 's batch_run \<Rightarrow> nat \<Rightarrow> nat \<Rightarrow> (rstr + rstr) list \<Rightarrow> nat \<Rightarrow> 's stream_state \<Rightarrow>
   ((rstr + nat) \<times> 's stream_state) option" where
  "stream_lines R process skip limit [] line x = Some (Inr line, x)"
| "stream_lines R process skip limit (l # ls) line x =
     (let line = line + 1 in
      if line \<le> skip then stream_lines R process skip limit ls line x
      else (case l of
          Inl e \<Rightarrow> Some (Inl (lit ''IO error at line '' @ show_nat line @ lit '': '' @ e), x)
        | Inr s \<Rightarrow>
            if ignored_line (trim s) then stream_lines R process skip limit ls line x
            else (case nt_parse_all_str R None (trim s) of
                None \<Rightarrow> None
              | Some (Inr ts) \<Rightarrow> (case push_triples process limit line ts x of
                    None \<Rightarrow> None | Some x \<Rightarrow> stream_lines R process skip limit ls line x)
              | Some (Inl e) \<Rightarrow>
                  stream_lines R process skip limit ls line (parse_failed_line line e (fst x), snd x))))"

definition stream_ntriples ::
  "('p, rio_triple) rio \<Rightarrow> 's batch_run \<Rightarrow> nat \<Rightarrow> nat \<Rightarrow> (rstr + rstr) list \<Rightarrow> 's \<Rightarrow> ((rstr + bulk_stats) \<times> 's) option" where
  "stream_ntriples R process skip limit ls s =
     (case stream_lines R process skip limit ls 0 (bs_new, [], skip, s) of
        None \<Rightarrow> None
      | Some (Inl e, (_, _, _, s)) \<Rightarrow> Some (Inl e, s)
      | Some (Inr line, (st, batch, start, s)) \<Rightarrow>
          if batch = [] then Some (Inr st, s)
          else (case process batch start s of None \<Rightarrow> None
                | Some (r, s) \<Rightarrow> Some (Inr (batch_done line batch r st), s)))"

subsection \<open>Processing a batch\<close>

definition process_batch ::
  "('f, 'p, 'q) insert_env \<Rightarrow> 'w redis_call \<Rightarrow> rstr \<Rightarrow> triple list \<Rightarrow> 'w \<Rightarrow> ((rstr + nat \<times> nat) \<times> 'w) option" where
  "process_batch E call g ts w =
     (if ts = [] then Some (Inr (0, 0), w)
      else (case map_triples (env_heads E) (env_subjects E) mapper_new ts of
              None \<Rightarrow> None
            | Some statements \<Rightarrow>
                (case call w (lit ''GRAPH.QUERY'') [g, join [c_nl] statements] of
                   (Inr _, w) \<Rightarrow> Some (Inr (length statements, 0), w)
                 | (Inl _, w) \<Rightarrow> Some (Inr (0, length statements), w))))"

text \<open>The closure of the handler: its count of errors is its state, beside the server's.\<close>

definition guarded_batch ::
  "('f, 'p, 'q) insert_env \<Rightarrow> 'w redis_call \<Rightarrow> rstr \<Rightarrow> bool \<Rightarrow> nat \<Rightarrow> ('w \<times> nat) batch_run" where
  "guarded_batch E call g continue_on_error max_errors ts start s =
     (case process_batch E call g ts (fst s) of
        None \<Rightarrow> None
      | Some (Inl e, w) \<Rightarrow> Some (Inl e, (w, snd s))
      | Some (Inr (executed, errors), w) \<Rightarrow>
          (let seen = snd s + errors in
           if \<not> continue_on_error \<and> errors > 0 then Some (Inl (lit ''Stopped on error''), (w, seen))
           else if seen \<ge> max_errors
           then Some (Inl (lit ''Max errors ('' @ show_nat max_errors @ lit '') reached''), (w, seen))
           else Some (Inr (executed, errors), (w, seen))))"

subsection \<open>Whole files\<close>

function chunks :: "nat \<Rightarrow> 'a list \<Rightarrow> 'a list list" where
  "chunks n xs = (if xs = [] \<or> n = 0 then [] else take n xs # chunks n (drop n xs))"
  by pat_completeness auto

termination
  by (relation "measure (\<lambda>(n, xs). length xs)") auto

declare chunks.simps [simp del]

fun run_chunks ::
  "('f, 'p, 'q) insert_env \<Rightarrow> 'w redis_call \<Rightarrow> rstr \<Rightarrow> triple list list \<Rightarrow> bulk_stats \<Rightarrow> 'w \<Rightarrow> (bulk_stats \<times> 'w) option" where
  "run_chunks E call g [] st w = Some (st, w)"
| "run_chunks E call g (ts # tss) st w =
     (case map_triples (env_heads E) (env_subjects E) mapper_new ts of
        None \<Rightarrow> None
      | Some statements \<Rightarrow>
          (case call w (lit ''GRAPH.QUERY'') [g, join [c_nl] statements] of
             (Inr _, w) \<Rightarrow> run_chunks E call g tss
               (st\<lparr>bs_statements_executed := bs_statements_executed st + length statements,
                   bs_batches_processed := bs_batches_processed st + 1\<rparr>) w
           | (Inl e, w) \<Rightarrow> run_chunks E call g tss
               (st\<lparr>bs_errors := bs_errors st + length statements,
                   bs_error_messages := bs_error_messages st @ [BulkBatch e]\<rparr>) w))"

fun complete_error :: "rdf_parse_error \<Rightarrow> redis_error" where
  "complete_error (TurtleError e) = MessageParser [] e"
| "complete_error (ReaderError e) = MessageReader [] e"
| "complete_error NoJsonLd = Message (lit ''JSON-LD parsing not yet implemented'')"

fun parse_complete ::
  "('f, 'p, 'q) insert_env \<Rightarrow> rstr \<Rightarrow> rdf_format \<Rightarrow> u64 \<Rightarrow> ((redis_error + triple list) \<times> u64) option" where
  "parse_complete E data FTurtle global =
     map_option (map_prod (map_sum complete_error id) id) (turtle_triples (env_std E) data global)"
| "parse_complete E data FTriG global =
     map_option (map_prod (map_sum complete_error id) id)
       (reader_result global q_triple (trig_parse_all_str (env_trig E) None data))"
| "parse_complete E data FJsonLd global = Some (Inl (complete_error NoJsonLd), global)"
| "parse_complete E data f global =
     Some (Inl (Message (lit ''Format '' @ (if f = FNTriples then lit ''NTriples'' else lit ''NQuads'') @ lit '' should use streaming'')), global)"

definition load_complete_file ::
  "('f, 'p, 'q) insert_env \<Rightarrow> file_system \<Rightarrow> 'w redis_call \<Rightarrow> rstr \<Rightarrow> rstr \<Rightarrow> rdf_format \<Rightarrow> nat \<Rightarrow>
   ('w \<times> u64, bulk_stats) command" where
  "load_complete_file E F call g path format limit = (\<lambda>(w, global).
     case fs_read F path of
       Inl e \<Rightarrow> Some (Inl (Message (lit ''Failed to read file: '' @ e)), (w, global))
     | Inr content \<Rightarrow>
         (case parse_complete E content format global of
            None \<Rightarrow> None
          | Some (Inl e, global) \<Rightarrow> Some (Inl e, (w, global))
          | Some (Inr triples, global) \<Rightarrow>
              map_option (\<lambda>(st, w). (Inr st, (w, global)))
                (run_chunks E call g (chunks limit triples) (bs_new\<lparr>bs_triples_parsed := length triples\<rparr>) w)))"

subsection \<open>The command\<close>

definition stream_file ::
  "('f, 'p, 'q) insert_env \<Rightarrow> file_system \<Rightarrow> 'w redis_call \<Rightarrow> bulk_args \<Rightarrow> rstr \<Rightarrow> ('w \<times> u64, bulk_stats) command" where
  "stream_file E F call a path = (\<lambda>(w, global).
     case fs_lines F path of
       Inl e \<Rightarrow> Some (Inl (Message (lit ''Failed to open file: '' @ e)), (w, global))
     | Inr ls \<Rightarrow>
         (let b = ba_options a in
          map_option (\<lambda>(r, (w, _)). (map_sum Message id r, (w, global)))
            (stream_ntriples (env_ntriples E)
               (guarded_batch E call (ba_graph_key a) (bo_continue_on_error b) (bo_max_errors b))
               (bo_skip_lines b) (bo_batch_size b) ls (w, 0))))"

definition bulk_format :: "('f, 'p, 'q) insert_env \<Rightarrow> bulk_args \<Rightarrow> rstr \<Rightarrow> rdf_format" where
  "bulk_format E a path =
     (case bo_format (ba_options a) of Some f \<Rightarrow> f
      | None \<Rightarrow> (case detect_format_from_path (to_lowercase (env_std E)) path of Some f \<Rightarrow> f | None \<Rightarrow> FNTriples))"

definition bulk_reply :: "bulk_stats \<Rightarrow> redis_value" where
  "bulk_reply st = counts_reply [bs_triples_parsed st, bs_statements_executed st, bs_errors st,
     bs_batches_processed st, bs_last_successful_line st]"

definition rdf_bulk_insert ::
  "('f, 'p, 'q) insert_env \<Rightarrow> file_system \<Rightarrow> 'w redis_call \<Rightarrow> redis_arg list \<Rightarrow> ('w \<times> u64, redis_value) command" where
  "rdf_bulk_insert E F call args =
     cmd_bind (cmd_result (bulk_args_parse E args)) (\<lambda>a.
     cmd_bind (cmd_result (map_sum Message id (validate_file_path F (ba_file_path a)))) (\<lambda>path.
     cmd_bind (let format = bulk_format E a path in
         if format = FNTriples \<or> format = FNQuads then stream_file E F call a path
         else load_complete_file E F call (ba_graph_key a) path format (bo_batch_size (ba_options a)))
       (\<lambda>st. cmd_return (bulk_reply st))))"

end
