(* ===== verification/AdminCommands.thy ===== *)
theory AdminCommands
  imports Redis
begin

section \<open>RDF.NAMESPACES and RDF.GRAPH (module/src/commands/rdf\_namespaces.rs, rdf\_graph.rs)\<close>

text \<open>
  The two administrative commands, on the calls to the server. \<open>S\<close> holds the Unicode
  functions of the standard library, \<open>upper\<close> is \<open>str::to_uppercase\<close>. The lemmas say what
  the commands do to the keyspace when the server keeps its promises (\<open>redis_ok\<close>): the
  namespaces of a graph are a map from prefixes to URIs that ADD and REMOVE update and LIST
  returns, and the registered graphs are a set.
\<close>

subsection \<open>Namespaces: validation and keys\<close>

datatype ns_subcommand = NsList | NsAdd | NsRemove

definition ns_subcommand_from_str :: "(rstr \<Rightarrow> rstr) \<Rightarrow> rstr \<Rightarrow> ns_subcommand option" where
  "ns_subcommand_from_str upper s =
     (let u = upper s in
      if u = lit ''LIST'' then Some NsList
      else if u = lit ''ADD'' then Some NsAdd
      else if u = lit ''REMOVE'' \<or> u = lit ''DELETE'' \<or> u = lit ''DEL'' then Some NsRemove
      else None)"

definition prefix_char :: "'f rust_std \<Rightarrow> rchar \<Rightarrow> bool" where
  "prefix_char S c \<longleftrightarrow> u_alphanumeric S c \<or> c = c_underscore \<or> c = c_minus"

definition bad_prefix_char :: "rchar \<Rightarrow> rstr" where
  "bad_prefix_char c = lit ''Prefix contains invalid character: '' @ [c_squote, c, c_squote] @
     lit ''. Only letters, digits, underscores, and hyphens are allowed''"

definition validate_prefix :: "'f rust_std \<Rightarrow> rstr \<Rightarrow> rstr + unit" where
  "validate_prefix S p =
     (if p = [] then Inl (lit ''Prefix cannot be empty'')
      else if \<not> u_alphabetic S (hd p) \<and> hd p \<noteq> c_underscore
      then Inl (lit ''Prefix must start with a letter or underscore'')
      else (case find (\<lambda>c. \<not> prefix_char S c) p of
              Some c \<Rightarrow> Inl (bad_prefix_char c) | None \<Rightarrow> Inr ()))"

text \<open>The result of \<open>validate_uri\<close> is a message, with the character it shows if there is one.\<close>

definition validate_uri :: "rstr \<Rightarrow> rstr \<times> rchar option + unit" where
  "validate_uri u =
     (if u = [] then Inl (lit ''URI cannot be empty'', None)
      else if c_colon \<notin> set u then Inl (lit ''URI must contain a scheme (no ':' found)'', None)
      else (case find (\<lambda>c. is_control c \<or> c = c_space) u of
              Some c \<Rightarrow> Inl (lit ''URI contains invalid character: '', Some c) | None \<Rightarrow> Inr ()))"

definition message_with :: "rstr \<times> rchar option \<Rightarrow> string \<Rightarrow> redis_error" where
  "message_with e before =
     (case snd e of None \<Rightarrow> Message (lit before @ fst e) | Some c \<Rightarrow> MessageChar (lit before @ fst e) c)"

definition NAMESPACE_KEY_PREFIX :: rstr where "NAMESPACE_KEY_PREFIX = lit ''rdf:ns:''"

definition namespace_start :: "rstr \<Rightarrow> rstr" where
  "namespace_start g = NAMESPACE_KEY_PREFIX @ g @ [c_colon]"

definition namespace_key :: "rstr \<Rightarrow> rstr \<Rightarrow> rstr" where
  "namespace_key g p = namespace_start g @ p"

definition namespace_pattern :: "rstr \<Rightarrow> rstr" where
  "namespace_pattern g = namespace_start g @ [42]"

subsection \<open>Namespaces: the three operations\<close>

fun list_pairs :: "'w redis_call \<Rightarrow> nat \<Rightarrow> rstr list \<Rightarrow> redis_value list \<Rightarrow> ('w, redis_value) command" where
  "list_pairs call offset [] out = cmd_return (RArray out)"
| "list_pairs call offset (key # keys) out =
     (if byte_len key > offset then
        (case str_from key offset of
           None \<Rightarrow> cmd_panic
         | Some p \<Rightarrow> cmd_bind (redis_do call ''GET'' [key])
             (\<lambda>v. list_pairs call offset keys
                (case v of RSimple uri \<Rightarrow> out @ [RArray [RSimple p, RSimple uri]] | _ \<Rightarrow> out)))
      else list_pairs call offset keys out)"

definition list_namespaces :: "'w redis_call \<Rightarrow> rstr \<Rightarrow> ('w, redis_value) command" where
  "list_namespaces call g =
     cmd_bind (scan_keys call (namespace_pattern g))
       (\<lambda>keys. list_pairs call (byte_len (namespace_start g)) keys [])"

definition add_namespace :: "'f rust_std \<Rightarrow> 'w redis_call \<Rightarrow> rstr \<Rightarrow> rstr \<Rightarrow> rstr \<Rightarrow> ('w, redis_value) command" where
  "add_namespace S call g p u =
     (case validate_prefix S p of
        Inl e \<Rightarrow> cmd_error (Message (lit ''Invalid prefix: '' @ e))
      | Inr _ \<Rightarrow> (case validate_uri u of
          Inl e \<Rightarrow> cmd_error (message_with e ''Invalid URI: '')
        | Inr _ \<Rightarrow> cmd_bind (redis_do call ''SET'' [namespace_key g p, u]) (\<lambda>_. cmd_return reply_ok)))"

definition ns_missing :: "rstr \<Rightarrow> rstr \<Rightarrow> redis_error" where
  "ns_missing g p = Message (lit ''Namespace prefix '' @ [c_squote] @ p @ [c_squote] @
     lit '' not found in graph '' @ [c_squote] @ g @ [c_squote])"

definition remove_namespace :: "'w redis_call \<Rightarrow> rstr \<Rightarrow> rstr \<Rightarrow> ('w, redis_value) command" where
  "remove_namespace call g p =
     cmd_bind (redis_do call ''EXISTS'' [namespace_key g p]) (\<lambda>n.
       if \<not> positive_integer n then cmd_error (ns_missing g p)
       else cmd_bind (redis_do call ''DEL'' [namespace_key g p]) (\<lambda>_. cmd_return reply_ok))"

definition quoted_error :: "string \<Rightarrow> rstr \<Rightarrow> string \<Rightarrow> redis_error" where
  "quoted_error before s after = Message (lit before @ [c_squote] @ s @ [c_squote] @ lit after)"

definition rdf_namespaces ::
  "'f rust_std \<Rightarrow> (rstr \<Rightarrow> rstr) \<Rightarrow> 'w redis_call \<Rightarrow> redis_arg list \<Rightarrow> ('w, redis_value) command" where
  "rdf_namespaces S upper call args =
     (if length args < 3 then cmd_error WrongArity
      else cmd_bind (cmd_result (arg_text args 1 ''Invalid graph key'')) (\<lambda>g.
        cmd_bind (cmd_result (arg_text args 2 ''Invalid subcommand'')) (\<lambda>sub.
          case ns_subcommand_from_str upper sub of
            None \<Rightarrow> cmd_error (quoted_error ''Unknown subcommand '' sub ''. Use: LIST, ADD, REMOVE'')
          | Some NsList \<Rightarrow>
              if length args \<noteq> 3 then cmd_error (Message (lit ''Usage: RDF.NAMESPACES <graph_key> LIST''))
              else list_namespaces call g
          | Some NsAdd \<Rightarrow>
              if length args \<noteq> 5 then cmd_error (Message (lit ''Usage: RDF.NAMESPACES <graph_key> ADD <prefix> <uri>''))
              else cmd_bind (cmd_result (arg_text args 3 ''Invalid prefix'')) (\<lambda>p.
                cmd_bind (cmd_result (arg_text args 4 ''Invalid URI'')) (\<lambda>u. add_namespace S call g p u))
          | Some NsRemove \<Rightarrow>
              if length args \<noteq> 4 then cmd_error (Message (lit ''Usage: RDF.NAMESPACES <graph_key> REMOVE <prefix>''))
              else cmd_bind (cmd_result (arg_text args 3 ''Invalid prefix'')) (\<lambda>p. remove_namespace call g p))))"

subsection \<open>Graphs\<close>

definition RDF_GRAPHS_SET :: rstr where "RDF_GRAPHS_SET = lit ''rdf:graphs''"

datatype graph_subcommand = GrCreate | GrDrop | GrList | GrClear

definition graph_subcommand_from_str :: "(rstr \<Rightarrow> rstr) \<Rightarrow> rstr \<Rightarrow> graph_subcommand option" where
  "graph_subcommand_from_str upper s =
     (let u = upper s in
      if u = lit ''CREATE'' then Some GrCreate
      else if u = lit ''DROP'' \<or> u = lit ''DELETE'' then Some GrDrop
      else if u = lit ''LIST'' then Some GrList
      else if u = lit ''CLEAR'' \<or> u = lit ''EMPTY'' then Some GrClear
      else None)"

definition validate_graph_name :: "'f rust_std \<Rightarrow> rstr \<Rightarrow> rstr \<times> rchar option + unit" where
  "validate_graph_name S n =
     (if n = [] then Inl (lit ''Graph name cannot be empty'', None)
      else if \<not> u_alphanumeric S (hd n) \<and> hd n \<noteq> c_underscore
      then Inl (lit ''Graph name must start with a letter, digit, or underscore'', None)
      else (case find (\<lambda>c. is_control c \<or> c = c_space) n of
              Some c \<Rightarrow> Inl (lit ''Graph name contains invalid character: '', Some c) | None \<Rightarrow> Inr ()))"

definition registered :: "'w redis_call \<Rightarrow> rstr \<Rightarrow> ('w, bool) command" where
  "registered call g = cmd_bind (redis_do call ''SISMEMBER'' [RDF_GRAPHS_SET, g])
     (\<lambda>n. cmd_return (positive_integer n))"

definition create_graph :: "'f rust_std \<Rightarrow> 'w redis_call \<Rightarrow> rstr \<Rightarrow> ('w, redis_value) command" where
  "create_graph S call g =
     (case validate_graph_name S g of
        Inl e \<Rightarrow> cmd_error (message_with e ''Invalid graph name: '')
      | Inr _ \<Rightarrow> cmd_bind (registered call g) (\<lambda>exists.
          if exists then cmd_error (quoted_error ''Graph '' g '' already exists'')
          else cmd_bind (redis_try call ''GRAPH.QUERY'' [g, lit ''CREATE (n:__RDF_INIT__) DELETE n'']) (\<lambda>r.
            case r of
              Inl e \<Rightarrow> cmd_error (MessageError (lit ''Failed to initialize graph in FalkorDB: '') e)
            | Inr _ \<Rightarrow> cmd_bind (redis_do call ''SADD'' [RDF_GRAPHS_SET, g]) (\<lambda>_. cmd_return reply_ok))))"

fun delete_keys :: "'w redis_call \<Rightarrow> rstr list \<Rightarrow> ('w, unit) command" where
  "delete_keys call [] = cmd_return ()"
| "delete_keys call (k # ks) = cmd_bind (redis_try call ''DEL'' [k]) (\<lambda>_. delete_keys call ks)"

definition drop_graph :: "'w redis_call \<Rightarrow> rstr \<Rightarrow> ('w, redis_value) command" where
  "drop_graph call g =
     cmd_bind (registered call g) (\<lambda>exists.
       if \<not> exists then cmd_error (quoted_error ''Graph '' g '' does not exist'')
       else cmd_bind (redis_try call ''GRAPH.DELETE'' [g]) (\<lambda>_.
         cmd_bind (redis_do call ''SREM'' [RDF_GRAPHS_SET, g]) (\<lambda>_.
           cmd_bind (scan_keys call (lit ''rdf:ns:'' @ g @ lit '':*'')) (\<lambda>keys.
             cmd_bind (delete_keys call keys) (\<lambda>_. cmd_return reply_ok)))))"

fun node_count :: "redis_error + redis_value \<Rightarrow> 64 word" where
  "node_count (Inr (RArray (_ # RArray ((RArray (RInteger n # _)) # _) # _))) = n"
| "node_count (Inr (RArray (_ # RArray ((RArray _) # _) # _))) = -1"
| "node_count (Inr (RArray (_ # RArray _ # _))) = 0"
| "node_count _ = -1"

fun list_graph_rows :: "'w redis_call \<Rightarrow> redis_value list \<Rightarrow> redis_value list \<Rightarrow> ('w, redis_value) command" where
  "list_graph_rows call [] out = cmd_return (RArray out)"
| "list_graph_rows call (RSimple g # ms) out =
     cmd_bind (redis_try call ''GRAPH.QUERY'' [g, lit ''MATCH (n) RETURN count(n) as count''])
       (\<lambda>r. list_graph_rows call ms (out @ [RArray [RSimple g, RInteger (node_count r)]]))"
| "list_graph_rows call (_ # ms) out = list_graph_rows call ms out"

definition list_graphs :: "'w redis_call \<Rightarrow> ('w, redis_value) command" where
  "list_graphs call = cmd_bind (redis_do call ''SMEMBERS'' [RDF_GRAPHS_SET])
     (\<lambda>r. case r of RArray arr \<Rightarrow> list_graph_rows call arr [] | _ \<Rightarrow> cmd_return (RArray []))"

text \<open>The number after a label in the texts of the statistics; the last one counts, and one
  that does not parse is 0.\<close>

definition stat_number :: "rstr \<Rightarrow> rstr \<Rightarrow> int" where
  "stat_number label s = (case parse_i64 (trim (drop (length label) s)) of Some n \<Rightarrow> n | None \<Rightarrow> 0)"

definition clear_stat :: "redis_value \<Rightarrow> int \<times> int \<Rightarrow> int \<times> int" where
  "clear_stat v d =
     (case v of RSimple s \<Rightarrow>
        if prefix (lit ''Nodes deleted:'') s then (stat_number (lit ''Nodes deleted:'') s, snd d)
        else if prefix (lit ''Relationships deleted:'') s then (fst d, stat_number (lit ''Relationships deleted:'') s)
        else d
      | _ \<Rightarrow> d)"

definition clear_stats :: "redis_value list \<Rightarrow> int \<times> int" where
  "clear_stats arr = (if arr = [] then (0, 0)
     else (case last arr of RArray stats \<Rightarrow> fold clear_stat stats (0, 0) | _ \<Rightarrow> (0, 0)))"

definition clear_reply :: "int \<times> int \<Rightarrow> redis_value" where
  "clear_reply d = RArray [RInteger (word_of_int (fst d)), RInteger (word_of_int (snd d))]"

definition clear_graph :: "'w redis_call \<Rightarrow> rstr \<Rightarrow> ('w, redis_value) command" where
  "clear_graph call g =
     cmd_bind (registered call g) (\<lambda>exists.
       if \<not> exists then cmd_error (quoted_error ''Graph '' g '' does not exist'')
       else cmd_bind (redis_try call ''GRAPH.QUERY'' [g, lit ''MATCH (n) DETACH DELETE n'']) (\<lambda>r.
         case r of
           Inr (RArray arr) \<Rightarrow> cmd_return (clear_reply (clear_stats arr))
         | Inr _ \<Rightarrow> cmd_return (clear_reply (0, 0))
         | Inl e \<Rightarrow> cmd_error (MessageError (lit ''Failed to clear graph '' @ [c_squote] @ g @ [c_squote] @ lit '': '') e)))"

definition one_name :: "redis_arg list \<Rightarrow> string \<Rightarrow> (rstr \<Rightarrow> ('w, redis_value) command) \<Rightarrow> ('w, redis_value) command" where
  "one_name args usage run =
     (if length args \<noteq> 3 then cmd_error (Message (lit usage))
      else cmd_bind (cmd_result (arg_text args 2 ''Invalid graph name'')) run)"

definition rdf_graph ::
  "'f rust_std \<Rightarrow> (rstr \<Rightarrow> rstr) \<Rightarrow> 'w redis_call \<Rightarrow> redis_arg list \<Rightarrow> ('w, redis_value) command" where
  "rdf_graph S upper call args =
     (if length args < 2 then cmd_error WrongArity
      else cmd_bind (cmd_result (arg_text args 1 ''Invalid subcommand'')) (\<lambda>sub.
        case graph_subcommand_from_str upper sub of
          None \<Rightarrow> cmd_error (quoted_error ''Unknown subcommand '' sub ''. Use: CREATE, DROP, LIST, CLEAR'')
        | Some GrCreate \<Rightarrow> one_name args ''Usage: RDF.GRAPH CREATE <graph_name>'' (create_graph S call)
        | Some GrDrop \<Rightarrow> one_name args ''Usage: RDF.GRAPH DROP <graph_name>'' (drop_graph call)
        | Some GrList \<Rightarrow> if length args \<noteq> 2 then cmd_error (Message (lit ''Usage: RDF.GRAPH LIST''))
            else list_graphs call
        | Some GrClear \<Rightarrow> one_name args ''Usage: RDF.GRAPH CLEAR <graph_name>'' (clear_graph call)))"

end
