(* ===== verification/AdminFacts.thy ===== *)
theory AdminFacts
  imports AdminCommands
begin

section \<open>What RDF.NAMESPACES and RDF.GRAPH do to the keyspace\<close>

text \<open>
  The namespaces of a graph as a map from prefixes to URIs, and the registered graphs as a
  set, both read from the keyspace; the commands as operations on them. The last lemmas show
  where the representation leaks: a graph whose key continues another one's with a colon, and
  a graph named like the set that registers graphs.
\<close>

subsection \<open>Keys\<close>

definition ns_lookup :: "keyspace \<Rightarrow> rstr \<Rightarrow> rstr \<Rightarrow> rstr option" where
  "ns_lookup m g p = (case fmlookup m (namespace_key g p) of Some (OString u) \<Rightarrow> Some u | _ \<Rightarrow> None)"

lemma last_colon:
  "xs @ c # ys = xs' @ c # ys' \<Longrightarrow> c \<notin> set ys \<Longrightarrow> c \<notin> set ys' \<Longrightarrow> xs = xs' \<and> ys = ys'"
proof (induction xs arbitrary: xs')
  case Nil
  then show ?case by (cases xs') auto
next
  case (Cons x xs)
  then show ?case by (cases xs') auto
qed

text \<open>Without a colon in the prefixes, different names have different keys.\<close>

lemma namespace_key_inject:
  "c_colon \<notin> set p \<Longrightarrow> c_colon \<notin> set q \<Longrightarrow> namespace_key g p = namespace_key h q \<longleftrightarrow> g = h \<and> p = q"
  using last_colon [of g c_colon p h q] by (auto simp: namespace_key_def namespace_start_def)

lemma namespace_key_colon: "namespace_key g (q @ c_colon # p) = namespace_key (g @ c_colon # q) p"
  by (simp add: namespace_key_def namespace_start_def)

lemma namespace_key_eq: "namespace_key h q = namespace_key g p \<longleftrightarrow> h @ c_colon # q = g @ c_colon # p"
  by (simp add: namespace_key_def namespace_start_def)

lemma colon_split: "c_colon \<notin> set p \<Longrightarrow> c_colon \<notin> set q \<Longrightarrow> h @ c_colon # q = g @ c_colon # p \<longleftrightarrow> h = g \<and> q = p"
  using namespace_key_inject [of q p h g] namespace_key_eq [of h q g p] by simp

lemma find_NoneD: "find P xs = None \<Longrightarrow> x \<in> set xs \<Longrightarrow> \<not> P x"
  by (auto simp: find_None_iff)

lemma valid_prefix_chars: "validate_prefix S p = Inr () \<Longrightarrow> c \<in> set p \<Longrightarrow> prefix_char S c"
  by (auto simp: validate_prefix_def split: if_splits option.splits dest: find_NoneD)

lemma valid_prefix_no_colon:
  assumes "std_ok S" "validate_prefix S p = Inr ()"
  shows "c_colon \<notin> set p"
proof
  assume "c_colon \<in> set p"
  with assms(2) have "prefix_char S c_colon" by (rule valid_prefix_chars)
  with assms(1) show False by (simp add: prefix_char_def std_ok_def char_class_defs)
qed

subsection \<open>Single calls\<close>

lemmas strings_okD = redis_ok_def [THEN iffD1, THEN conjunct1, unfolded strings_ok_def, rule_format]
lemmas sets_okD = redis_ok_def [THEN iffD1, THEN conjunct2, THEN conjunct1, unfolded sets_ok_def, rule_format]

lemma set_call:
  assumes "redis_ok glob call ks" "call w (lit ''SET'') [k, v] = (r, w')"
  shows "ks w' = (if isl r then ks w else fmupd k (OString v) (ks w))"
  using assms(2) strings_okD [OF assms(1), of w k v] by (simp add: changes_def)

lemma del_call:
  assumes "redis_ok glob call ks" "call w (lit ''DEL'') [k] = (r, w')"
  shows "ks w' = (if isl r then ks w else fmdrop k (ks w))"
  using assms(2) strings_okD [OF assms(1), of w k v] by (simp add: changes_def)

lemma get_call:
  assumes "redis_ok glob call ks" "call w (lit ''GET'') [k] = (r, w')"
  shows "ks w' = ks w \<and> (\<forall>x. r = Inr x \<longrightarrow> get_answer (fmlookup (ks w) k) x)"
  using assms(2) strings_okD [OF assms(1), of w k] by (simp add: answers_def)

lemma exists_call:
  assumes "redis_ok glob call ks" "call w (lit ''EXISTS'') [k] = (r, w')"
  shows "ks w' = ks w \<and> (\<forall>x. r = Inr x \<longrightarrow> x = RInteger (if fmlookup (ks w) k = None then 0 else 1))"
  using assms(2) strings_okD [OF assms(1), of w k] by (simp add: answers_def)

lemma sismember_call:
  assumes "redis_ok glob call ks" "call w (lit ''SISMEMBER'') [k, v] = (r, w')"
  shows "ks w' = ks w \<and> (\<forall>x. r = Inr x \<longrightarrow> x = RInteger (if v |\<in>| members (ks w) k then 1 else 0))"
  using assms(2) sets_okD [OF assms(1), of w k v] by (simp add: answers_def)

lemma sadd_call:
  assumes "redis_ok glob call ks" "call w (lit ''SADD'') [k, v] = (r, w')"
  shows "ks w' = (if isl r then ks w else set_members k (finsert v (members (ks w) k)) (ks w))"
  using assms(2) sets_okD [OF assms(1), of w k v] by (simp add: changes_def)

lemma srem_call:
  assumes "redis_ok glob call ks" "call w (lit ''SREM'') [k, v] = (r, w')"
  shows "ks w' = (if isl r then ks w else set_members k (members (ks w) k |-| {|v|}) (ks w))"
  using assms(2) sets_okD [OF assms(1), of w k v] by (simp add: changes_def)

subsection \<open>ADD and REMOVE\<close>

lemma add_namespace_effect:
  assumes ok: "redis_ok glob call ks"
  shows "\<exists>r w'. add_namespace S call g p u w = Some (r, w') \<and>
    (if isl r then ks w' = ks w
     else r = Inr reply_ok \<and> validate_prefix S p = Inr () \<and> validate_uri u = Inr () \<and>
       ks w' = fmupd (namespace_key g p) (OString u) (ks w))"
proof (cases "validate_prefix S p = Inr () \<and> validate_uri u = Inr ()")
  case True
  obtain r w' where c: "call w (lit ''SET'') [namespace_key g p, u] = (r, w')" by fastforce
  show ?thesis
    using True c set_call [OF ok c]
    by (cases r) (auto simp: add_namespace_def cmd_bind_def cmd_simps)
next
  case False
  then show ?thesis
    by (auto simp: add_namespace_def cmd_error_def split: sum.split)
qed

lemma remove_namespace_effect:
  assumes ok: "redis_ok glob call ks"
  shows "\<exists>r w'. remove_namespace call g p w = Some (r, w') \<and>
    (if isl r then ks w' = ks w
     else r = Inr reply_ok \<and> fmlookup (ks w) (namespace_key g p) \<noteq> None \<and>
       ks w' = fmdrop (namespace_key g p) (ks w)) \<and>
    (fmlookup (ks w) (namespace_key g p) = None \<longrightarrow> isl r)"
proof -
  obtain r w1 where c: "call w (lit ''EXISTS'') [namespace_key g p] = (r, w1)" by fastforce
  obtain r2 w2 where d: "call w1 (lit ''DEL'') [namespace_key g p] = (r2, w2)" by fastforce
  show ?thesis
    using c d exists_call [OF ok c] del_call [OF ok d]
    by (cases r; cases r2) (auto simp: remove_namespace_def cmd_bind_def cmd_simps)
qed

lemma namespaces_add_dispatch:
  assumes "upper sub = lit ''ADD''"
  shows "rdf_namespaces S upper call [c, Some g, Some sub, Some p, Some u] = add_namespace S call g p u"
  using assms by (simp add: rdf_namespaces_def arg_text_def cmd_bind_result ns_subcommand_from_str_def)

lemma namespaces_remove_dispatch:
  assumes "upper sub = lit ''REMOVE''"
  shows "rdf_namespaces S upper call [c, Some g, Some sub, Some p] = remove_namespace call g p"
  using assms by (simp add: rdf_namespaces_def arg_text_def cmd_bind_result ns_subcommand_from_str_def)

lemma namespaces_list_dispatch:
  assumes "upper sub = lit ''LIST''"
  shows "rdf_namespaces S upper call [c, Some g, Some sub] = list_namespaces call g"
  using assms by (simp add: rdf_namespaces_def arg_text_def cmd_bind_result ns_subcommand_from_str_def)

subsection \<open>LIST\<close>

definition pair_reply :: "rstr \<times> rstr \<Rightarrow> redis_value" where
  "pair_reply e = RArray [RSimple (fst e), RSimple (snd e)]"

definition listed :: "keyspace \<Rightarrow> rstr \<Rightarrow> rstr \<Rightarrow> (rstr \<times> rstr) option" where
  "listed m start key =
     (case fmlookup m key of Some (OString u) \<Rightarrow>
        if length start < length key then Some (drop (length start) key, u) else None | _ \<Rightarrow> None)"

lemma list_pairs_effect:
  assumes ok: "redis_ok glob call ks" and "\<forall>k\<in>set keys. prefix start k"
  shows "\<exists>r w'. list_pairs call (byte_len start) keys out w = Some (r, w') \<and> ks w' = ks w \<and>
    (\<forall>v. r = Inr v \<longrightarrow> v = RArray (out @ map pair_reply (List.map_filter (listed (ks w) start) keys)))"
  using assms(2)
proof (induction keys arbitrary: out w)
  case Nil
  then show ?case by (simp add: cmd_simps List.map_filter_simps)
next
  case (Cons k keys)
  then obtain p where k: "k = start @ p" by (auto simp: prefix_def)
  have rest: "\<forall>k\<in>set keys. prefix start k" using Cons.prems by simp
  show ?case
  proof (cases "p = []")
    case True
    with k Cons.IH [OF rest, of out w] show ?thesis
      by (auto simp: List.map_filter_simps listed_def split: option.split redis_object.split)
  next
    case False
    obtain r v where c: "call w (lit ''GET'') [k] = (r, v)" by fastforce
    note get = get_call [OF ok c]
    have gt: "byte_len start < byte_len k" "str_from k (byte_len start) = Some p"
      using False k by (simp_all add: str_from_append zero_less_iff_neq_zero)
    show ?thesis
    proof (cases r)
      case (Inl e)
      then show ?thesis using c gt get by (simp add: cmd_simps cmd_bind_def)
    next
      case (Inr x)
      let ?out = "case x of RSimple uri \<Rightarrow> out @ [RArray [RSimple p, RSimple uri]] | _ \<Rightarrow> out"
      have step: "list_pairs call (byte_len start) (k # keys) out w = list_pairs call (byte_len start) keys ?out v"
        using c gt Inr by (simp add: cmd_simps cmd_bind_def)
      have same: "ks v = ks w" and ans: "get_answer (fmlookup (ks w) k) x" using get Inr by auto
      have "?out @ map pair_reply (List.map_filter (listed (ks w) start) keys) =
          out @ map pair_reply (List.map_filter (listed (ks w) start) (k # keys))"
        using ans False k
        by (auto simp: get_answer_def listed_def List.map_filter_simps pair_reply_def
            split: option.splits redis_object.splits)
      then show ?thesis using Cons.IH [OF rest, of ?out v] step same by auto
    qed
  qed
qed

lemma list_namespaces_effect:
  assumes ok: "redis_ok glob call ks" and plain: "plain g"
  shows "\<exists>r w'. list_namespaces call g w = Some (r, w') \<and> ks w' = ks w \<and>
    (\<forall>v. r = Inr v \<longrightarrow> (\<exists>ps. v = RArray (map pair_reply ps) \<and>
       set ps = {(p, u). p \<noteq> [] \<and> ns_lookup (ks w) g p = Some u}))"
proof -
  have "plain (namespace_start g)"
    using plain by (simp add: namespace_start_def NAMESPACE_KEY_PREFIX_def plain_def str_simps)
  from scan_keys_prefix [OF ok this, of w] obtain keys w1
    where scan: "scan_keys call (namespace_start g @ [42]) w = Some (Inr keys, w1)" "ks w1 = ks w"
      "set keys = {k. k |\<in>| fmdom (ks w) \<and> prefix (namespace_start g) k}" .
  have "\<forall>k\<in>set keys. prefix (namespace_start g) k" using scan(3) by simp
  from list_pairs_effect [OF ok this, of "[]" w1] obtain r w'
    where run: "list_pairs call (byte_len (namespace_start g)) keys [] w1 = Some (r, w')" "ks w' = ks w1"
      and reply: "\<forall>v. r = Inr v \<longrightarrow> v = RArray (map pair_reply (List.map_filter (listed (ks w) (namespace_start g)) keys))"
    using scan(2) by auto
  have "set (List.map_filter (listed (ks w) (namespace_start g)) keys) =
      {(p, u). p \<noteq> [] \<and> ns_lookup (ks w) g p = Some u}" (is "?L = ?R")
  proof
    show "?L \<subseteq> ?R"
      by (auto simp: List.map_filter_def scan(3) listed_def ns_lookup_def namespace_key_def prefix_def
          split: option.splits redis_object.splits if_splits)
    show "?R \<subseteq> ?L"
    proof clarify
      fix p u assume pu: "p \<noteq> []" "ns_lookup (ks w) g p = Some u"
      then have l: "fmlookup (ks w) (namespace_start g @ p) = Some (OString u)"
        by (auto simp: ns_lookup_def namespace_key_def split: option.splits redis_object.splits)
      then have "namespace_start g @ p \<in> set keys" by (simp add: scan(3) fmdomI)
      moreover have "listed (ks w) (namespace_start g) (namespace_start g @ p) = Some (p, u)"
        using l pu(1) by (simp add: listed_def)
      ultimately show "(p, u) \<in> ?L" by (force simp: List.map_filter_def)
    qed
  qed
  then show ?thesis
    using scan(1) run scan(2) reply
    by (auto simp: list_namespaces_def namespace_pattern_def cmd_bind_def)
qed


subsection \<open>CREATE and DROP\<close>

abbreviation graph_set :: "keyspace \<Rightarrow> rstr fset" where
  "graph_set m \<equiv> members m RDF_GRAPHS_SET"

definition dels_succeed :: "'w redis_call \<Rightarrow> bool" where
  "dels_succeed call \<longleftrightarrow> (\<forall>w k. \<not> isl (fst (call w (lit ''DEL'') [k])))"

definition strings_kept :: "keyspace \<Rightarrow> keyspace \<Rightarrow> bool" where
  "strings_kept m m' \<longleftrightarrow> (\<forall>g p. ns_lookup m' g p = ns_lookup m g p)"

lemma strings_kept_refl: "strings_kept m m"
  by (simp add: strings_kept_def)

lemma strings_kept_trans: "strings_kept m m' \<Longrightarrow> strings_kept m' m'' \<Longrightarrow> strings_kept m m''"
  by (simp add: strings_kept_def)

lemma registry_key: "namespace_key g p \<noteq> RDF_GRAPHS_SET" "prefix (namespace_start g) RDF_GRAPHS_SET \<Longrightarrow> False"
  by (auto simp: namespace_key_def namespace_start_def NAMESPACE_KEY_PREFIX_def RDF_GRAPHS_SET_def str_simps)

lemma strings_kept_set_members: "strings_kept m (set_members RDF_GRAPHS_SET A m)"
  by (simp add: strings_kept_def ns_lookup_def set_members_def registry_key(1) registry_key(1) [symmetric])

lemma graph_command_kept:
  assumes "graph_command_ok ks (r, w') w g"
  shows "graph_set (ks w') = graph_set (ks w) \<and> strings_kept (ks w) (ks w')"
proof -
  have "fmlookup (ks w') k = fmlookup (ks w) k \<or> (graph_entry (fmlookup (ks w) k) \<and> graph_entry (fmlookup (ks w') k))" for k
    using assms by (auto simp: graph_command_ok_def)
  then have "(case fmlookup (ks w') k of Some (OString u) \<Rightarrow> Some u | _ \<Rightarrow> None) =
      (case fmlookup (ks w) k of Some (OString u) \<Rightarrow> Some u | _ \<Rightarrow> None)"
    and "members (ks w') k = members (ks w) k" for k
    unfolding members_def graph_entry_def by (metis option.simps redis_object.simps)+
  then show ?thesis by (simp add: strings_kept_def ns_lookup_def)
qed

lemma graph_query_call:
  assumes "redis_ok glob call ks" "call w (lit ''GRAPH.QUERY'') [g, q] = (r, w')"
  shows "graph_set (ks w') = graph_set (ks w) \<and> strings_kept (ks w) (ks w')"
  using assms graph_command_kept [of ks r w' w g] by (metis graphs_ok_def redis_ok_def)

lemma graph_delete_call:
  assumes "redis_ok glob call ks" "call w (lit ''GRAPH.DELETE'') [g] = (r, w')"
  shows "graph_set (ks w') = graph_set (ks w) \<and> strings_kept (ks w) (ks w')"
  using assms graph_command_kept [of ks r w' w g] by (metis graphs_ok_def redis_ok_def)

lemma registered_effect:
  assumes ok: "redis_ok glob call ks"
  obtains (error) e w' where "registered call g w = Some (Inl e, w')" "ks w' = ks w"
    | (known) w' where "registered call g w = Some (Inr (g |\<in>| graph_set (ks w)), w')" "ks w' = ks w"
proof -
  obtain r w' where c: "call w (lit ''SISMEMBER'') [RDF_GRAPHS_SET, g] = (r, w')" by fastforce
  show ?thesis
    using c sismember_call [OF ok c] that
    by (cases r) (auto simp: registered_def cmd_bind_def cmd_simps split: if_splits)
qed

lemma create_graph_effect:
  assumes ok: "redis_ok glob call ks"
  shows "\<exists>r w'. create_graph S call g w = Some (r, w') \<and> strings_kept (ks w) (ks w') \<and>
    (if isl r then graph_set (ks w') = graph_set (ks w)
     else r = Inr reply_ok \<and> validate_graph_name S g = Inr () \<and> g |\<notin>| graph_set (ks w) \<and>
       graph_set (ks w') = finsert g (graph_set (ks w)))"
proof (cases "validate_graph_name S g")
  case (Inl e)
  then show ?thesis by (auto simp: create_graph_def cmd_error_def strings_kept_refl)
next
  case valid: (Inr x)
  from ok show ?thesis
  proof (cases rule: registered_effect [of glob call ks g w])
    case (error e w')
    then show ?thesis using valid by (auto simp: create_graph_def cmd_bind_def strings_kept_refl)
  next
    case (known w1)
    obtain r w2 where q: "call w1 (lit ''GRAPH.QUERY'') [g, lit ''CREATE (n:__RDF_INIT__) DELETE n''] = (r, w2)" by fastforce
    obtain r3 w3 where a: "call w2 (lit ''SADD'') [RDF_GRAPHS_SET, g] = (r3, w3)" by fastforce
    note q2 = graph_query_call [OF ok q] and a2 = sadd_call [OF ok a]
    show ?thesis
      using known valid q q2 a a2 strings_kept_set_members strings_kept_trans
      by (cases r; cases r3) (auto simp: create_graph_def cmd_bind_def cmd_simps strings_kept_refl)
  qed
qed


lemma delete_keys_effect:
  assumes ok: "redis_ok glob call ks"
  shows "\<exists>w'. delete_keys call keys w = Some (Inr (), w') \<and>
    (\<forall>k. k \<notin> set keys \<longrightarrow> fmlookup (ks w') k = fmlookup (ks w) k) \<and>
    (dels_succeed call \<longrightarrow> (\<forall>k\<in>set keys. fmlookup (ks w') k = None))"
proof (induction keys arbitrary: w)
  case Nil
  then show ?case by (simp add: cmd_simps)
next
  case (Cons k keys)
  obtain r v where c: "call w (lit ''DEL'') [k] = (r, v)" by fastforce
  have del: "ks v = (if isl r then ks w else fmdrop k (ks w))" using del_call [OF ok c] .
  have succ: "dels_succeed call \<Longrightarrow> \<not> isl r" using c unfolding dels_succeed_def by (metis fst_conv)
  obtain w' where rest: "delete_keys call keys v = Some (Inr (), w')"
    "\<forall>j. j \<notin> set keys \<longrightarrow> fmlookup (ks w') j = fmlookup (ks v) j"
    "dels_succeed call \<longrightarrow> (\<forall>j\<in>set keys. fmlookup (ks w') j = None)"
    using Cons.IH by blast
  have "delete_keys call (k # keys) w = Some (Inr (), w')"
    using c rest(1) by (simp add: cmd_bind_def cmd_simps)
  moreover have "fmlookup (ks w') j = fmlookup (ks w) j" if "j \<notin> set (k # keys)" for j
    using that rest(2) del by simp
  moreover have "fmlookup (ks w') j = None" if "dels_succeed call" "j \<in> set (k # keys)" for j
    using that rest(2,3) del succ by (cases "j \<in> set keys") auto
  ultimately show ?case by blast
qed

text \<open>The graphs whose namespaces the pattern of one graph covers.\<close>

definition covers :: "rstr \<Rightarrow> rstr \<Rightarrow> bool" where
  "covers g h \<longleftrightarrow> h = g \<or> prefix (g @ [c_colon]) h"

lemma prefix_namespace_start:
  assumes "c_colon \<notin> set p"
  shows "prefix (namespace_start g) (namespace_key h p) \<longleftrightarrow> covers g h"
proof
  assume "prefix (namespace_start g) (namespace_key h p)"
  then obtain t where t: "g @ c_colon # t = h @ c_colon # p"
    by (auto simp: prefix_def namespace_start_def namespace_key_def)
  then consider us where "g = h @ us" "us @ c_colon # t = c_colon # p"
    | us where "h = g @ us" "us @ c_colon # p = c_colon # t"
    by (auto simp: append_eq_append_conv2)
  then show "covers g h"
  proof cases
    case 1
    then show ?thesis using assms by (cases us) (auto simp: covers_def)
  next
    case 2
    then show ?thesis by (cases us) (auto simp: covers_def prefix_def)
  qed
next
  assume "covers g h"
  then show "prefix (namespace_start g) (namespace_key h p)"
    by (auto simp: covers_def prefix_def namespace_start_def namespace_key_def)
qed

lemma drop_graph_effect:
  assumes ok: "redis_ok glob call ks" and plain: "plain g"
  shows "\<exists>r w'. drop_graph call g w = Some (r, w') \<and>
    (if isl r then graph_set (ks w') = graph_set (ks w) \<and> strings_kept (ks w) (ks w')
     else r = Inr reply_ok \<and> g |\<in>| graph_set (ks w) \<and>
       graph_set (ks w') = graph_set (ks w) |-| {|g|} \<and>
       (\<forall>h p. c_colon \<notin> set p \<and> \<not> covers g h \<longrightarrow> ns_lookup (ks w') h p = ns_lookup (ks w) h p) \<and>
       (dels_succeed call \<longrightarrow> (\<forall>h p. c_colon \<notin> set p \<and> covers g h \<longrightarrow> ns_lookup (ks w') h p = None)))"
  using ok
proof (cases rule: registered_effect [of glob call ks g w])
  case (error e w')
  then show ?thesis by (auto simp: drop_graph_def cmd_bind_def strings_kept_refl)
next
  case (known w1)
  obtain r w2 where q: "call w1 (lit ''GRAPH.DELETE'') [g] = (r, w2)" by fastforce
  obtain r3 w3 where a: "call w2 (lit ''SREM'') [RDF_GRAPHS_SET, g] = (r3, w3)" by fastforce
  note q2 = graph_delete_call [OF ok q] and a2 = srem_call [OF ok a]
  have kept: "strings_kept (ks w) (ks w3)"
    using q2 a2 known strings_kept_set_members strings_kept_trans by (auto split: if_splits)
  show ?thesis
  proof (cases "g |\<in>| graph_set (ks w) \<and> \<not> isl r3")
    case False
    then show ?thesis
      using known q q2 a a2 kept
      by (cases r3) (auto simp: drop_graph_def cmd_bind_def cmd_simps strings_kept_refl)
  next
    case True
    have "plain (namespace_start g)"
      using plain by (simp add: namespace_start_def NAMESPACE_KEY_PREFIX_def plain_def str_simps)
    from scan_keys_prefix [OF ok this, of w3] obtain keys w4
      where scan: "scan_keys call (namespace_start g @ [42]) w3 = Some (Inr keys, w4)" "ks w4 = ks w3"
        "set keys = {k. k |\<in>| fmdom (ks w3) \<and> prefix (namespace_start g) k}" .
    obtain w5 where del: "delete_keys call keys w4 = Some (Inr (), w5)"
      "\<forall>k. k \<notin> set keys \<longrightarrow> fmlookup (ks w5) k = fmlookup (ks w3) k"
      "dels_succeed call \<longrightarrow> (\<forall>k\<in>set keys. fmlookup (ks w5) k = None)"
      using delete_keys_effect [OF ok, of keys w4] scan(2) by auto
    have pat: "namespace_start g @ [42] = lit ''rdf:ns:'' @ g @ lit '':*''"
      by (simp add: namespace_start_def NAMESPACE_KEY_PREFIX_def str_simps)
    have run: "drop_graph call g w = Some (Inr reply_ok, w5)"
      using known True q a scan(1) del(1) pat by (cases r3) (auto simp: drop_graph_def cmd_bind_def cmd_simps)
    have "RDF_GRAPHS_SET \<notin> set keys" using scan(3) registry_key(2) by auto
    then have "graph_set (ks w5) = graph_set (ks w3)" using del(2) by (simp add: members_def)
    also have "\<dots> = graph_set (ks w) |-| {|g|}" using a2 q2 True known by simp
    finally have set: "graph_set (ks w5) = graph_set (ks w) |-| {|g|}" .
    have "ns_lookup (ks w5) h p = ns_lookup (ks w) h p" if "c_colon \<notin> set p" "\<not> covers g h" for h p
      using that kept del(2) scan(3) prefix_namespace_start [of p g h]
      by (simp add: ns_lookup_def strings_kept_def)
    moreover have "ns_lookup (ks w5) h p = None"
      if "dels_succeed call" "c_colon \<notin> set p" "covers g h" for h p
    proof (cases "namespace_key h p \<in> set keys")
      case True
      then show ?thesis using that(1) del(3) by (simp add: ns_lookup_def)
    next
      case False
      then have "fmlookup (ks w3) (namespace_key h p) = None"
        using scan(3) prefix_namespace_start [OF that(2), of g h] that(3) by (simp add: fmdom_notD)
      then show ?thesis using False del(2) by (simp add: ns_lookup_def)
    qed
    ultimately show ?thesis using run set True by auto
  qed
qed


lemma graph_create_dispatch:
  assumes "upper sub = lit ''CREATE''"
  shows "rdf_graph S upper call [c, Some sub, Some g] = create_graph S call g"
  using assms by (simp add: rdf_graph_def arg_text_def cmd_bind_result graph_subcommand_from_str_def one_name_def)

lemma graph_drop_dispatch:
  assumes "upper sub = lit ''DROP''"
  shows "rdf_graph S upper call [c, Some sub, Some g] = drop_graph call g"
  using assms by (simp add: rdf_graph_def arg_text_def cmd_bind_result graph_subcommand_from_str_def one_name_def)

subsection \<open>The commands on the abstract state\<close>

text \<open>C7: RDF.NAMESPACES ADD and REMOVE always reply; an error changes nothing, and a success changes one
  key of the server. ADD succeeds only with a valid prefix and URI and stores the URI for the prefix of its graph.
  REMOVE succeeds only if the prefix was there and drops it. For prefixes without a colon, the only ones that ADD
  stores, no other prefix and no other graph is affected; REMOVE does not check its prefix, and in general
  it drops the prefix q of the graph h for every way to read graph:prefix as h:q.\<close>

theorem namespaces_update_map:
  assumes "redis_ok glob call ks" "std_ok S" "upper a = lit ''ADD''" "upper d = lit ''REMOVE''"
  shows "(\<exists>r w'. rdf_namespaces S upper call [c, Some g, Some a, Some p, Some u] w = Some (r, w') \<and>
      (if isl r then ks w' = ks w
       else r = Inr reply_ok \<and> validate_prefix S p = Inr () \<and> validate_uri u = Inr () \<and> c_colon \<notin> set p \<and>
         (\<forall>h q. ns_lookup (ks w') h q = (if h @ c_colon # q = g @ c_colon # p then Some u else ns_lookup (ks w) h q)) \<and>
         (\<forall>h q. c_colon \<notin> set q \<longrightarrow>
            ns_lookup (ks w') h q = (if h = g \<and> q = p then Some u else ns_lookup (ks w) h q)))) \<and>
    (\<exists>r w'. rdf_namespaces S upper call [c, Some g, Some d, Some p] w = Some (r, w') \<and>
      (if isl r then ks w' = ks w
       else r = Inr reply_ok \<and> fmlookup (ks w) (namespace_key g p) \<noteq> None \<and>
         (\<forall>h q. ns_lookup (ks w') h q = (if h @ c_colon # q = g @ c_colon # p then None else ns_lookup (ks w) h q)) \<and>
         (\<forall>h q. c_colon \<notin> set p \<union> set q \<longrightarrow>
            ns_lookup (ks w') h q = (if h = g \<and> q = p then None else ns_lookup (ks w) h q))))"
proof
  let ?same = "\<lambda>w' v. \<forall>h q. ns_lookup (ks w') h q = (if h @ c_colon # q = g @ c_colon # p then v else ns_lookup (ks w) h q)"
  obtain r w' where run: "add_namespace S call g p u w = Some (r, w')"
    "if isl r then ks w' = ks w else r = Inr reply_ok \<and> validate_prefix S p = Inr () \<and>
       validate_uri u = Inr () \<and> ks w' = fmupd (namespace_key g p) (OString u) (ks w)"
    using add_namespace_effect [OF assms(1), of S g p u w] by blast
  then show "\<exists>r w'. rdf_namespaces S upper call [c, Some g, Some a, Some p, Some u] w = Some (r, w') \<and>
      (if isl r then ks w' = ks w
       else r = Inr reply_ok \<and> validate_prefix S p = Inr () \<and> validate_uri u = Inr () \<and> c_colon \<notin> set p \<and> ?same w' (Some u) \<and>
         (\<forall>h q. c_colon \<notin> set q \<longrightarrow>
            ns_lookup (ks w') h q = (if h = g \<and> q = p then Some u else ns_lookup (ks w) h q)))"
    unfolding namespaces_add_dispatch [where upper = upper, OF assms(3)]
    by (intro exI [of _ r] exI [of _ w']) (auto simp: ns_lookup_def namespace_key_eq colon_split valid_prefix_no_colon [OF assms(2)] split: if_splits)
  obtain r w' where run: "remove_namespace call g p w = Some (r, w')"
    "if isl r then ks w' = ks w else r = Inr reply_ok \<and> fmlookup (ks w) (namespace_key g p) \<noteq> None \<and>
       ks w' = fmdrop (namespace_key g p) (ks w)"
    using remove_namespace_effect [OF assms(1), of g p w] by blast
  then show "\<exists>r w'. rdf_namespaces S upper call [c, Some g, Some d, Some p] w = Some (r, w') \<and>
      (if isl r then ks w' = ks w
       else r = Inr reply_ok \<and> fmlookup (ks w) (namespace_key g p) \<noteq> None \<and> ?same w' None \<and>
         (\<forall>h q. c_colon \<notin> set p \<union> set q \<longrightarrow>
            ns_lookup (ks w') h q = (if h = g \<and> q = p then None else ns_lookup (ks w) h q)))"
    unfolding namespaces_remove_dispatch [where upper = upper, OF assms(4)]
    by (intro exI [of _ r] exI [of _ w']) (auto simp: ns_lookup_def namespace_key_eq colon_split split: if_splits)
qed

definition no_keys :: keyspace where "no_keys = fmempty"

definition ascii_upper :: "rstr \<Rightarrow> rstr" where
  "ascii_upper = map (\<lambda>c. if 97 \<le> c \<and> c \<le> 122 then c - 32 else c)"

theorem namespaces_update_map_witness:
  "(\<exists>r w'. rdf_namespaces ascii_std ascii_upper memory_call
      [None, Some (lit ''g''), Some (lit ''add''), Some (lit ''ex''), Some (lit ''http://e/'')] no_keys = Some (r, w') \<and>
    (if isl r then w' = no_keys else ns_lookup w' (lit ''g'') (lit ''ex'') = Some (lit ''http://e/''))) \<and>
   (let w = fmupd (namespace_key (lit ''g:b'') (lit ''p'')) (OString (lit ''u:'')) no_keys in
    \<exists>r w'. rdf_namespaces ascii_std ascii_upper memory_call
      [None, Some (lit ''g''), Some (lit ''Remove''), Some (lit ''b:p'')] w = Some (r, w') \<and>
    (if isl r then w' = w else ns_lookup w' (lit ''g:b'') (lit ''p'') = None))"
  using namespaces_update_map [OF memory_ok ascii_std_ok, of ascii_upper "lit ''add''" "lit ''Remove''"
      None "lit ''g''" "lit ''ex''" "lit ''http://e/''" no_keys]
    namespaces_update_map [OF memory_ok ascii_std_ok, of ascii_upper "lit ''add''" "lit ''Remove''"
      None "lit ''g''" "lit ''b:p''" "lit ''http://e/''" "fmupd (namespace_key (lit ''g:b'') (lit ''p'')) (OString (lit ''u:'')) no_keys"]
  unfolding Let_def
  by (intro conjI) (fastforce simp: ascii_upper_def str_simps split: if_splits)+

text \<open>REMOVE takes any prefix: with \<open>b:p\<close> for the graph \<open>g\<close> it drops the prefix \<open>p\<close> of the graph \<open>g:b\<close>.\<close>

lemma remove_reaches_other_graph:
  assumes "redis_ok glob call ks" "upper d = lit ''REMOVE''"
    "rdf_namespaces S upper call [c, Some g, Some d, Some (b @ c_colon # p)] w = Some (Inr v, w')"
  shows "ns_lookup (ks w') (g @ c_colon # b) p = None"
  using remove_namespace_effect [OF assms(1), of g "b @ c_colon # p" w] assms(3)
  unfolding namespaces_remove_dispatch [where upper = upper, OF assms(2)] namespace_key_colon
  by (auto simp: ns_lookup_def)

text \<open>RDF.NAMESPACES LIST always replies and changes nothing; unless a key cannot be read,
  its reply is the pairs of a prefix and its URI stored for the graph, each at least once, for
  every graph key without characters that are special in a pattern.\<close>

theorem namespaces_list_map:
  assumes "redis_ok glob call ks" "upper sub = lit ''LIST''" "plain g"
  shows "\<exists>r w'. rdf_namespaces S upper call [c, Some g, Some sub] w = Some (r, w') \<and> ks w' = ks w \<and>
    (\<forall>v. r = Inr v \<longrightarrow> (\<exists>ps. v = RArray (map pair_reply ps) \<and>
       set ps = {(p, u). p \<noteq> [] \<and> ns_lookup (ks w) g p = Some u}))"
  unfolding namespaces_list_dispatch [where upper = upper, OF assms(2)]
  by (rule list_namespaces_effect [OF assms(1,3)])

theorem namespaces_list_map_witness:
  "\<exists>r w'. rdf_namespaces ascii_std ascii_upper memory_call [None, Some (lit ''g''), Some (lit ''list'')]
      (fmupd (namespace_key (lit ''g'') (lit ''p'')) (OString (lit ''u:'')) no_keys) = Some (r, w') \<and>
    (\<forall>v. r = Inr v \<longrightarrow> (\<exists>ps. v = RArray (map pair_reply ps) \<and> (lit ''p'', lit ''u:'') \<in> set ps))"
proof -
  have "ns_lookup (fmupd (namespace_key (lit ''g'') (lit ''p'')) (OString (lit ''u:'')) no_keys) (lit ''g'') (lit ''p'') = Some (lit ''u:'')"
    by (simp add: ns_lookup_def)
  then show ?thesis
    using namespaces_list_map [OF memory_ok, of ascii_upper "lit ''list''" "lit ''g''" ascii_std None
        "fmupd (namespace_key (lit ''g'') (lit ''p'')) (OString (lit ''u:'')) no_keys"]
    by (fastforce simp: ascii_upper_def plain_def str_simps)
qed

text \<open>C8: RDF.GRAPH CREATE and DROP always reply, and they add and remove one name of the set of
  registered graphs: CREATE only for a valid name that is not in it, DROP only for one that is.
  An error leaves the set and all namespaces as they are; CREATE leaves the namespaces as they
  are, DROP removes all of its own graph and keeps those of every graph whose key does not
  continue its name with a colon.\<close>

theorem graph_registry_refined:
  assumes "redis_ok glob call ks" "plain g" "dels_succeed call"
    "upper create = lit ''CREATE''" "upper drp = lit ''DROP''"
  shows "(\<exists>r w'. rdf_graph S upper call [c, Some create, Some g] w = Some (r, w') \<and> strings_kept (ks w) (ks w') \<and>
      (if isl r then graph_set (ks w') = graph_set (ks w)
       else r = Inr reply_ok \<and> validate_graph_name S g = Inr () \<and> g |\<notin>| graph_set (ks w) \<and>
         graph_set (ks w') = finsert g (graph_set (ks w)))) \<and>
    (\<exists>r w'. rdf_graph S upper call [c, Some drp, Some g] w = Some (r, w') \<and>
      (if isl r then graph_set (ks w') = graph_set (ks w) \<and> strings_kept (ks w) (ks w')
       else r = Inr reply_ok \<and> g |\<in>| graph_set (ks w) \<and> graph_set (ks w') = graph_set (ks w) |-| {|g|} \<and>
         (\<forall>h p. c_colon \<notin> set p \<longrightarrow>
            ns_lookup (ks w') h p = (if covers g h then None else ns_lookup (ks w) h p))))"
proof
  show "\<exists>r w'. rdf_graph S upper call [c, Some create, Some g] w = Some (r, w') \<and> strings_kept (ks w) (ks w') \<and>
      (if isl r then graph_set (ks w') = graph_set (ks w)
       else r = Inr reply_ok \<and> validate_graph_name S g = Inr () \<and> g |\<notin>| graph_set (ks w) \<and>
         graph_set (ks w') = finsert g (graph_set (ks w)))"
    unfolding graph_create_dispatch [where upper = upper, OF assms(4)]
    by (rule create_graph_effect [OF assms(1)])
  show "\<exists>r w'. rdf_graph S upper call [c, Some drp, Some g] w = Some (r, w') \<and>
      (if isl r then graph_set (ks w') = graph_set (ks w) \<and> strings_kept (ks w) (ks w')
       else r = Inr reply_ok \<and> g |\<in>| graph_set (ks w) \<and> graph_set (ks w') = graph_set (ks w) |-| {|g|} \<and>
         (\<forall>h p. c_colon \<notin> set p \<longrightarrow>
            ns_lookup (ks w') h p = (if covers g h then None else ns_lookup (ks w) h p)))"
  proof -
    obtain r w' where run: "drop_graph call g w = Some (r, w')" and
      effect: "if isl r then graph_set (ks w') = graph_set (ks w) \<and> strings_kept (ks w) (ks w')
        else r = Inr reply_ok \<and> g |\<in>| graph_set (ks w) \<and> graph_set (ks w') = graph_set (ks w) |-| {|g|} \<and>
          (\<forall>h p. c_colon \<notin> set p \<and> \<not> covers g h \<longrightarrow> ns_lookup (ks w') h p = ns_lookup (ks w) h p) \<and>
          (dels_succeed call \<longrightarrow> (\<forall>h p. c_colon \<notin> set p \<and> covers g h \<longrightarrow> ns_lookup (ks w') h p = None))"
      using drop_graph_effect [OF assms(1,2), of w] by blast
    show ?thesis
      unfolding graph_drop_dispatch [where upper = upper, OF assms(5)]
      using run effect assms(3) by (intro exI [of _ r] exI [of _ w']) (cases "isl r"; simp)
  qed
qed

lemma memory_dels: "dels_succeed memory_call"
  by (simp add: dels_succeed_def memory_call_def)

theorem graph_registry_refined_witness:
  "\<exists>r w'. rdf_graph ascii_std ascii_upper memory_call [None, Some (lit ''create''), Some (lit ''g'')] no_keys = Some (r, w') \<and>
    graph_set w' = (if isl r then {||} else {|lit ''g''|})"
  using graph_registry_refined [OF memory_ok _ memory_dels, of "lit ''g''" ascii_upper "lit ''create''" "lit ''drop''" ascii_std None no_keys]
  by (fastforce simp: ascii_upper_def plain_def str_simps members_def no_keys_def)

subsection \<open>Where the representation leaks\<close>

text \<open>The keys of a graph \<open>a\<close> and of a graph \<open>a:b\<close> are not told apart: dropping \<open>a\<close> deletes the
  namespaces of \<open>a:b\<close>, and listing \<open>a\<close> shows them.\<close>

lemma drop_deletes_foreign_namespaces:
  assumes "redis_ok glob call ks" "plain g" "dels_succeed call" "drop_graph call g w = Some (Inr v, w')" "c_colon \<notin> set p"
  shows "ns_lookup (ks w') (g @ c_colon # h) p = None"
  using drop_graph_effect [OF assms(1,2), of w] assms(3-5) by (auto simp: covers_def)

lemma list_shows_foreign_namespaces:
  assumes "redis_ok glob call ks" "plain g" "list_namespaces call g w = Some (Inr v, w')"
    "ns_lookup (ks w) (g @ c_colon # h) p = Some u"
  shows "\<exists>ps. v = RArray (map pair_reply ps) \<and> (h @ c_colon # p, u) \<in> set ps"
proof -
  have "ns_lookup (ks w) g (h @ c_colon # p) = Some u"
    using assms(4) by (simp add: ns_lookup_def namespace_key_colon)
  then show ?thesis
    using list_namespaces_effect [OF assms(1,2), of w] assms(3) by auto
qed

text \<open>A graph may be named like the set of registered graphs. If that set does not exist yet,
  creating this graph fails and leaves a graph under the name of the set; from then on every
  graph is unknown and none can be created.\<close>

lemma create_blocks_registry:
  assumes ok: "redis_ok glob call ks" and free: "fmlookup (ks w) RDF_GRAPHS_SET = None"
    and run: "\<And>w q. fmlookup (ks w) RDF_GRAPHS_SET = None \<Longrightarrow> \<not> isl (fst (call w (lit ''GRAPH.QUERY'') [RDF_GRAPHS_SET, q]))"
    and valid: "validate_graph_name S RDF_GRAPHS_SET = Inr ()"
    and reads: "\<And>w k v. \<not> not_a_set (fmlookup (ks w) k) \<Longrightarrow> \<not> isl (fst (call w (lit ''SISMEMBER'') [k, v]))"
  shows "\<exists>e w'. create_graph S call RDF_GRAPHS_SET w = Some (Inl e, w') \<and>
    fmlookup (ks w') RDF_GRAPHS_SET = Some OOther \<and> (\<forall>g. \<exists>e w''. registered call g w' = Some (Inl e, w''))"
proof -
  let ?q = "lit ''CREATE (n:__RDF_INIT__) DELETE n''"
  obtain r1 w1 where s: "call w (lit ''SISMEMBER'') [RDF_GRAPHS_SET, RDF_GRAPHS_SET] = (r1, w1)" by fastforce
  obtain r2 w2 where q: "call w1 (lit ''GRAPH.QUERY'') [RDF_GRAPHS_SET, ?q] = (r2, w2)" by fastforce
  obtain r3 w3 where a: "call w2 (lit ''SADD'') [RDF_GRAPHS_SET, RDF_GRAPHS_SET] = (r3, w3)" by fastforce
  have r1: "ks w1 = ks w" "r1 = Inr (RInteger 0)"
    using sismember_call [OF ok s] reads [of w RDF_GRAPHS_SET RDF_GRAPHS_SET] s free
    by (cases r1; auto simp: members_def not_a_set_def)+
  have r2: "\<not> isl r2" using run [of w1 ?q] q r1(1) free by simp
  have "\<not> isl (fst (call w1 (lit ''GRAPH.QUERY'') [RDF_GRAPHS_SET, ?q])) \<longrightarrow>
      fmlookup (ks (snd (call w1 (lit ''GRAPH.QUERY'') [RDF_GRAPHS_SET, ?q]))) RDF_GRAPHS_SET = Some OOther"
    using ok unfolding redis_ok_def graphs_ok_def by blast
  then have w2: "fmlookup (ks w2) RDF_GRAPHS_SET = Some OOther" using q r2 by simp
  have refuse: "not_a_set (Some OOther)" by (simp add: not_a_set_def)
  have r3: "isl r3" using sets_okD [OF ok, of w2 RDF_GRAPHS_SET RDF_GRAPHS_SET] w2 refuse a by simp
  then have w3: "fmlookup (ks w3) RDF_GRAPHS_SET = Some OOther" using sadd_call [OF ok a] w2 by simp
  have "\<exists>e w''. registered call g w3 = Some (Inl e, w'')" for g
  proof -
    have "isl (fst (call w3 (lit ''SISMEMBER'') [RDF_GRAPHS_SET, g]))"
      using sets_okD [OF ok, of w3 RDF_GRAPHS_SET g] w3 refuse by simp
    then show ?thesis
      by (cases "call w3 (lit ''SISMEMBER'') [RDF_GRAPHS_SET, g]"; cases "fst (call w3 (lit ''SISMEMBER'') [RDF_GRAPHS_SET, g])")
        (auto simp: registered_def cmd_bind_def cmd_simps)
  qed
  moreover have "\<exists>e. create_graph S call RDF_GRAPHS_SET w = Some (Inl e, w3)"
    using valid s q a r1 r2 r3
    by (cases r2; cases r3) (auto simp: create_graph_def registered_def cmd_bind_def cmd_simps)
  ultimately show ?thesis using w3 by blast
qed

lemma create_blocks_registry_instance:
  "\<exists>e w'. create_graph ascii_std memory_call RDF_GRAPHS_SET no_keys = Some (Inl e, w') \<and>
    (\<forall>g. \<exists>e w''. registered memory_call g w' = Some (Inl e, w''))"
proof -
  have "validate_graph_name ascii_std RDF_GRAPHS_SET = Inr ()"
    by (simp add: validate_graph_name_def RDF_GRAPHS_SET_def ascii_std_def str_simps char_class_defs)
  then show ?thesis
    using create_blocks_registry [OF memory_ok, of no_keys ascii_std]
    by (auto simp: no_keys_def memory_call_def memory_graph_def memory_set_def Let_def)
qed

text \<open>With a pattern in place of a graph key the positions do not fit the keys found, and
  listing may panic.\<close>

lemma list_star_panics:
  "list_pairs memory_call (byte_len (namespace_start (lit ''*''))) [namespace_key [97, 233] (lit ''x'')] [] no_keys = None"
  by (simp add: namespace_start_def namespace_key_def NAMESPACE_KEY_PREFIX_def str_simps utf8_len_def
      str_from.simps cmd_panic_def)

end
