(* ===== verification/InsertFacts.thy ===== *)
theory InsertFacts
  imports ModuleBulk CypherSafety TurtleRoundTrip AdminFacts CypherBatch
begin

section \<open>What RDF.INSERT and RDF.BULK\_INSERT do\<close>

text \<open>
  The counts in the reply of an insertion and the queries it sends, that these are safe, that a
  document written by the Turtle serializer is inserted as its triples, that every triple of a
  file is in exactly one batch, and that only files below the allowed directory are read. The
  last lemmas show two faults: the guess of the format can panic, and the options that should
  stop a bulk insertion do not.
\<close>

subsection \<open>Counting\<close>

text \<open>The world after a list of queries.\<close>

definition after_queries :: "'w redis_call \<Rightarrow> rstr \<Rightarrow> rstr list \<Rightarrow> 'w \<Rightarrow> 'w" where
  "after_queries call g qs w = foldl (\<lambda>w q. snd (call w (lit ''GRAPH.QUERY'') [g, q])) w qs"

lemma run_queries_each:
  "\<exists>st'. run_queries call g False k qs st w = (st', after_queries call g qs w) \<and>
     is_statements_executed st' + is_errors st' = is_statements_executed st + is_errors st + length qs \<and>
     length (is_error_messages st') + is_errors st = length (is_error_messages st) + is_errors st'"
proof (induction qs arbitrary: st w)
  case Nil
  then show ?case by (simp add: after_queries_def)
next
  case (Cons q qs)
  obtain r v where c: "call w (lit ''GRAPH.QUERY'') [g, q] = (r, v)" by fastforce
  show ?case
  proof (cases r)
    case (Inl e)
    then show ?thesis
      using c Cons.IH [of "count_error e st" v] by (auto simp: after_queries_def count_error_def)
  next
    case (Inr x)
    then show ?thesis
      using c Cons.IH [of "st\<lparr>is_statements_executed := is_statements_executed st + 1\<rparr>" v]
      by (auto simp: after_queries_def)
  qed
qed

lemma execute_cypher_each:
  "\<exists>st. execute_cypher call g qs False n w = (st, after_queries call g qs w) \<and>
     is_statements_executed st + is_errors st = length qs"
  using run_queries_each [of call g "length qs" qs
      "\<lparr>is_triples_parsed = n, is_statements_generated = length qs, is_statements_executed = 0, is_errors = 0, is_error_messages = []\<rparr>" w]
  by (auto simp: execute_cypher_def after_queries_def Let_def)

lemma execute_cypher_atomic:
  assumes "qs \<noteq> []"
  shows "\<exists>st. execute_cypher call g qs True n w = (st, after_queries call g [join [c_nl] qs] w) \<and>
     ((is_statements_executed st = length qs \<and> is_errors st = 0) \<or>
      (is_statements_executed st = 0 \<and> is_errors st = 1))"
proof -
  obtain r v where c: "call w (lit ''GRAPH.QUERY'') [g, join [c_nl] qs] = (r, v)" by fastforce
  then show ?thesis
    using assms by (cases r) (simp_all add: execute_cypher_def after_queries_def count_error_def)
qed

text \<open>What the handler sends for an atomic insertion and for one that is not.\<close>

definition sent :: "bool \<Rightarrow> rstr list \<Rightarrow> rstr list" where
  "sent atomic qs = (if \<not> atomic then qs else if qs = [] then [] else [join [c_nl] qs])"

lemma execute_cypher_sent:
  "\<exists>st. execute_cypher call g qs atomic n w = (st, after_queries call g (sent atomic qs) w) \<and>
    (if atomic then qs \<noteq> [] \<longrightarrow> (is_statements_executed st, is_errors st) \<in> {(length qs, 0), (0, 1)}
     else is_statements_executed st + is_errors st = length qs)"
proof (cases atomic)
  case True
  show ?thesis
  proof (cases "qs = []")
    case True
    then show ?thesis using \<open>atomic\<close> by (simp add: execute_cypher_def sent_def after_queries_def)
  next
    case False
    then show ?thesis using execute_cypher_atomic [OF False, of call g n w] \<open>atomic\<close> by (auto simp: sent_def)
  qed
next
  case False
  then show ?thesis using execute_cypher_each [of call g qs n w] by (auto simp: sent_def)
qed

text \<open>The format the handler uses.\<close>

definition used_format :: "insert_args \<Rightarrow> rdf_format option" where
  "used_format a = (case ia_format a of Some f \<Rightarrow> Some f | None \<Rightarrow> detect_format (ia_data a))"

lemma rdf_insert_run:
  assumes "insert_args_parse E args = Inr a" "used_format a = Some f"
    "parse_rdf E (ia_data a) f n = Some (Inr ts, n')" "ts \<noteq> []"
    "map_triples (env_heads E) (env_subjects E) mapper_new ts = Some qs"
  shows "\<exists>ex er. rdf_insert E call args (w, n) =
      Some (Inr (counts_reply [length ts, ex, er]), (after_queries call (ia_graph_key a) (sent (ia_atomic a) qs) w, n')) \<and>
    (if ia_atomic a then qs \<noteq> [] \<longrightarrow> (ex, er) \<in> {(length qs, 0), (0, 1)} else ex + er = length qs)"
proof -
  obtain st where st: "execute_cypher call (ia_graph_key a) qs (ia_atomic a) (length ts) w =
      (st, after_queries call (ia_graph_key a) (sent (ia_atomic a) qs) w)"
    "if ia_atomic a then qs \<noteq> [] \<longrightarrow> (is_statements_executed st, is_errors st) \<in> {(length qs, 0), (0, 1)}
     else is_statements_executed st + is_errors st = length qs"
    using execute_cypher_sent [of call "ia_graph_key a" qs "ia_atomic a" "length ts" w] by blast
  show ?thesis
    using assms st
    by (intro exI [of _ "is_statements_executed st"] exI [of _ "is_errors st"] conjI)
      (simp_all add: rdf_insert_def cmd_bind_result used_format_def)
qed

lemma rdf_insert_cases:
  assumes "rdf_insert E call args (w, n) = Some (r, (w', n'))"
  obtains (unchanged) "w' = w"
    | (ran) a ts qs where "insert_args_parse E args = Inr a" "map_triples (env_heads E) (env_subjects E) mapper_new ts = Some qs"
      "w' = after_queries call (ia_graph_key a) (sent (ia_atomic a) qs) w"
proof (cases "insert_args_parse E args")
  case (Inl e)
  then show ?thesis using assms unchanged by (simp add: rdf_insert_def cmd_simps)
next
  case (Inr a)
  then obtain f where f: "used_format a = Some f"
    using assms by (auto simp: rdf_insert_def cmd_bind_result used_format_def split: option.splits)
  then obtain p m where p: "parse_rdf E (ia_data a) f n = Some (p, m)"
    using assms Inr by (auto simp: rdf_insert_def cmd_bind_result used_format_def split: option.splits)
  show ?thesis
  proof (cases p)
    case p_err: (Inl e)
    then show ?thesis
      using assms Inr f p unchanged by (simp add: rdf_insert_def cmd_bind_result used_format_def)
  next
    case p_ok: (Inr ts)
    show ?thesis
    proof (cases "ts = []")
      case True
      then show ?thesis
        using assms Inr f p p_ok unchanged by (simp add: rdf_insert_def cmd_bind_result used_format_def)
    next
      case False
      then obtain qs where qs: "map_triples (env_heads E) (env_subjects E) mapper_new ts = Some qs"
        using assms Inr f p p_ok
        by (auto simp: rdf_insert_def cmd_bind_result used_format_def split: option.splits)
      have "w' = after_queries call (ia_graph_key a) (sent (ia_atomic a) qs) w"
        using rdf_insert_run [OF Inr f _ False qs, of n m call w] p p_ok assms by auto
      then show ?thesis using ran Inr qs by blast
    qed
  qed
qed


subsection \<open>Safe queries\<close>

text \<open>A property of the server's state that no safe query destroys.\<close>

definition kept_by_safe :: "'w redis_call \<Rightarrow> ('w \<Rightarrow> bool) \<Rightarrow> bool" where
  "kept_by_safe call P \<longleftrightarrow> (\<forall>w g q. P w \<longrightarrow> safe_code q \<longrightarrow> P (snd (call w (lit ''GRAPH.QUERY'') [g, q])))"

lemma kept_by_safeD: "kept_by_safe call P \<Longrightarrow> P w \<Longrightarrow> safe_code q \<Longrightarrow> P (snd (call w (lit ''GRAPH.QUERY'') [g, q]))"
  by (simp add: kept_by_safe_def)

lemma after_queries_keep:
  assumes "kept_by_safe call P" "list_all safe_code qs" "P w"
  shows "P (after_queries call g qs w)"
  using assms(2,3)
proof (induction qs arbitrary: w)
  case (Cons q qs)
  then have "P (snd (call w (lit ''GRAPH.QUERY'') [g, q]))" using kept_by_safeD [OF assms(1)] by simp
  with Cons show ?case by (simp add: after_queries_def)
qed (simp add: after_queries_def)

lemma safe_lines: "list_all safe_code qs \<Longrightarrow> safe_code (join [c_nl] qs)"
  by (intro safe)

lemma safe_sent: "list_all safe_code qs \<Longrightarrow> list_all safe_code (sent atomic qs)"
  using safe_lines [of qs] by (simp add: sent_def)

definition orders_ok :: "('f, 'p, 'q) insert_env \<Rightarrow> bool" where
  "orders_ok E \<longleftrightarrow> hash_order (env_heads E) \<and> hash_order (env_subjects E)"

lemma map_triples_safe:
  "orders_ok E \<Longrightarrow> map_triples (env_heads E) (env_subjects E) mapper_new ts = Some qs \<Longrightarrow> list_all safe_code qs"
  by (auto simp: orders_ok_def map_triples_def intro: safe_batch)

text \<open>The closures and loops of the bulk insertion keep what safe queries keep.\<close>

definition batch_keeps :: "'s batch_run \<Rightarrow> ('s \<Rightarrow> bool) \<Rightarrow> bool" where
  "batch_keeps process P \<longleftrightarrow> (\<forall>ts n s r s'. P s \<longrightarrow> process ts n s = Some (r, s') \<longrightarrow> P s')"

lemma push_triples_keeps:
  assumes "batch_keeps process P"
  shows "push_triples process limit line ts (st, b, n, s) = Some (st', b', n', s') \<Longrightarrow> P s \<Longrightarrow> P s'"
proof (induction ts arbitrary: st b n s)
  case (Cons t ts)
  then show ?case
    using assms by (auto simp: batch_keeps_def Let_def split: if_splits option.splits)
qed simp

lemma stream_lines_keeps:
  assumes "batch_keeps process P"
  shows "stream_lines R process skip limit ls line x = Some (r, x') \<Longrightarrow> P (snd (snd (snd x))) \<Longrightarrow> P (snd (snd (snd x')))"
proof (induction ls arbitrary: line x)
  case (Cons l ls)
  obtain st b n s where x: "x = (st, b, n, s)" by (metis prod.exhaust)
  obtain st' b' n' s' where x': "x' = (st', b', n', s')" by (metis prod.exhaust)
  show ?case
    using Cons push_triples_keeps [OF assms, of limit "line + 1" _ st b n s] x
    by (auto simp: Let_def split: if_splits sum.splits option.splits)
qed auto

lemma stream_ntriples_keeps:
  assumes "batch_keeps process P" "P s" "stream_ntriples R process skip limit ls s = Some (r, s')"
  shows "P s'"
proof -
  obtain e st b n v where run: "stream_lines R process skip limit ls 0 (bs_new, [], skip, s) = Some (e, st, b, n, v)"
    using assms(3) by (auto simp: stream_ntriples_def split: option.splits)
  have "P v" using stream_lines_keeps [OF assms(1) run] assms(2) by simp
  then show ?thesis
    using assms(1,3) run by (auto simp: stream_ntriples_def batch_keeps_def split: sum.splits if_splits option.splits)
qed

lemma process_batch_keeps:
  assumes "orders_ok E" "kept_by_safe call P"
    "process_batch E call g ts w = Some (r, w')" "P w"
  shows "P w'"
proof (cases "ts = []")
  case False
  then obtain qs where qs: "map_triples (env_heads E) (env_subjects E) mapper_new ts = Some qs"
    using assms(3) by (auto simp: process_batch_def split: option.splits)
  have "P (snd (call w (lit ''GRAPH.QUERY'') [g, join [c_nl] qs]))"
    using kept_by_safeD [OF assms(2,4)] safe_lines map_triples_safe [OF assms(1) qs] by blast
  then show ?thesis
    using assms(3) False qs by (auto simp: process_batch_def split: prod.splits sum.splits)
qed (use assms in \<open>simp add: process_batch_def\<close>)

lemma guarded_batch_keeps:
  assumes "orders_ok E" "kept_by_safe call P"
  shows "batch_keeps (guarded_batch E call g cont k) (\<lambda>s. P (fst s))"
  unfolding batch_keeps_def
proof (intro allI impI)
  fix ts n s r s'
  assume "P (fst s)" and run: "guarded_batch E call g cont k ts n s = Some (r, s')"
  moreover obtain r' w' where "process_batch E call g ts (fst s) = Some (r', w')"
    using run by (auto simp: guarded_batch_def split: option.splits)
  ultimately show "P (fst s')"
    using process_batch_keeps [OF assms, of g ts "fst s" r' w']
    by (auto simp: guarded_batch_def Let_def split: sum.splits if_splits)
qed

lemma run_chunks_keeps:
  assumes "orders_ok E" "kept_by_safe call P"
  shows "run_chunks E call g tss st w = Some (st', w') \<Longrightarrow> P w \<Longrightarrow> P w'"
proof (induction tss arbitrary: st w)
  case (Cons ts tss)
  then obtain qs where qs: "map_triples (env_heads E) (env_subjects E) mapper_new ts = Some qs"
    by (auto split: option.splits)
  obtain r v where c: "call w (lit ''GRAPH.QUERY'') [g, join [c_nl] qs] = (r, v)" by fastforce
  have "P v" using kept_by_safeD [OF assms(2), of w "join [c_nl] qs" g] c Cons.prems(2) safe_lines [OF map_triples_safe [OF assms(1) qs]] by simp
  then show ?case using Cons qs c by (auto split: sum.splits)
qed simp


lemma stream_file_keeps:
  assumes "orders_ok E" "kept_by_safe call P" "P w" "stream_file E F call a path (w, n) = Some (r, (w', n'))"
  shows "P w'"
proof (cases "fs_lines F path")
  case (Inl e)
  then show ?thesis using assms(3,4) by (simp add: stream_file_def)
next
  case (Inr ls)
  let ?b = "ba_options a"
  obtain q v where "stream_ntriples (env_ntriples E)
      (guarded_batch E call (ba_graph_key a) (bo_continue_on_error ?b) (bo_max_errors ?b))
      (bo_skip_lines ?b) (bo_batch_size ?b) ls (w, 0) = Some (q, (w', v))"
    using Inr assms(4) by (auto simp: stream_file_def Let_def)
  from stream_ntriples_keeps [OF guarded_batch_keeps [OF assms(1,2)] _ this] assms(3)
  show ?thesis by simp
qed

lemma load_complete_keeps:
  assumes "orders_ok E" "kept_by_safe call P" "P w" "load_complete_file E F call g path f k (w, n) = Some (r, (w', n'))"
  shows "P w'"
  using run_chunks_keeps [OF assms(1,2)] assms(3,4)
  by (auto simp: load_complete_file_def split: sum.splits option.splits prod.splits)

lemma rdf_bulk_insert_cases:
  assumes "rdf_bulk_insert E F call args (w, n) = Some (r, (w', n'))"
  obtains (unchanged) "w' = w"
  | (ran) a path f r' where "bulk_args_parse E args = Inr a" "validate_file_path F (ba_file_path a) = Inr path"
      "stream_file E F call a path (w, n) = Some (r', (w', n')) \<or>
       load_complete_file E F call (ba_graph_key a) path f (bo_batch_size (ba_options a)) (w, n) = Some (r', (w', n'))"
proof (cases "bulk_args_parse E args")
  case (Inl e)
  then show thesis using assms unchanged by (simp add: rdf_bulk_insert_def cmd_simps)
next
  case a: (Inr a)
  show thesis
  proof (cases "validate_file_path F (ba_file_path a)")
    case (Inl e)
    then show thesis using assms a unchanged by (simp add: rdf_bulk_insert_def cmd_simps)
  next
    case path: (Inr path)
    let ?f = "bulk_format E a path"
    obtain r' where "(if ?f = FNTriples \<or> ?f = FNQuads then stream_file E F call a path
        else load_complete_file E F call (ba_graph_key a) path ?f (bo_batch_size (ba_options a))) (w, n) = Some (r', (w', n'))"
      using assms a path
      by (auto simp: rdf_bulk_insert_def cmd_bind_result Let_def elim!: cmd_bindE)
        (auto simp: cmd_return_def)
    then show thesis using ran [OF a path, of r' ?f] by (simp split: if_splits)
  qed
qed

lemma rdf_insert_keeps:
  assumes "orders_ok E" "kept_by_safe call P" "P w" "rdf_insert E call args (w, n) = Some (r, (w', n'))"
  shows "P w'"
  using assms(4)
proof (cases rule: rdf_insert_cases)
  case (ran a ts qs)
  then show ?thesis
    using after_queries_keep [OF assms(2) _ assms(3)] safe_sent map_triples_safe [OF assms(1)] by blast
qed (use assms in simp)

lemma rdf_bulk_insert_keeps:
  assumes "orders_ok E" "kept_by_safe call P" "P w" "rdf_bulk_insert E F call args (w, n) = Some (r, (w', n'))"
  shows "P w'"
  using assms(4)
proof (cases rule: rdf_bulk_insert_cases)
  case (ran a path f r')
  then show ?thesis using stream_file_keeps [OF assms(1-3)] load_complete_keeps [OF assms(1-3)] by blast
qed (use assms in simp)

text \<open>C3: Every query that RDF.INSERT and RDF.BULK_INSERT send to the server is injection-safe,
  whatever the document, its format and the options: a property of the server's state that no
  safe query destroys still holds after the command.\<close>

theorem insertion_sends_safe_queries:
  assumes "orders_ok E" "kept_by_safe call P" "P w"
  shows "(rdf_insert E call args (w, n) = Some (r, (w1, n1)) \<longrightarrow> P w1) \<and>
    (rdf_bulk_insert E F call args (w, n) = Some (r, (w2, n2)) \<longrightarrow> P w2)"
  using rdf_insert_keeps [OF assms] rdf_bulk_insert_keeps [OF assms] by blast


text \<open>The parameters of the witnesses.\<close>

definition one_quad :: "(rio_quad list, rio_quad) rio" where
  "one_quad = \<lparr>rio_new = (\<lambda>s. [((RioSubjBlank s, lit ''p:q'', RioBlank s), None)]), rio_is_end = (\<lambda>p. p = []),
     rio_step = (\<lambda>p. ((take 1 p, None), drop 1 p))\<rparr>"

definition sample_env :: "(rstr, rio_triple list, rio_quad list) insert_env" where
  "sample_env = \<lparr>env_std = ascii_std, env_upper = ascii_upper, env_ntriples = one_triple, env_trig = one_quad,
     env_heads = key_order, env_subjects = key_order\<rparr>"

definition no_files :: file_system where
  "no_files = \<lparr>fs_exists = (\<lambda>p. False), fs_canonicalize = Inr, fs_is_file = (\<lambda>p. False), fs_allowed_dir = None,
     fs_read = Inl, fs_lines = Inl\<rparr>"

lemma sample_env_ok: "orders_ok sample_env"
  by (simp add: orders_ok_def sample_env_def hash_order_key_order)

text \<open>A server that records the queries it gets.\<close>

definition log_call :: "rstr list redis_call" where
  "log_call qs name args = (Inr reply_ok, if name = lit ''GRAPH.QUERY'' then qs @ [args ! 1] else qs)"

text \<open>A parser that gives one triple of IRIs for every document.\<close>

definition named_triple :: "(rio_triple list, rio_triple) rio" where
  "named_triple = \<lparr>rio_new = (\<lambda>s. [(RioSubjNamed (lit ''p:a''), lit ''p:q'', RioNamed (lit ''p:b''))]),
     rio_is_end = (\<lambda>p. p = []), rio_step = (\<lambda>p. ((take 1 p, None), drop 1 p))\<rparr>"

definition named_env :: "(rstr, rio_triple list, rio_quad list) insert_env" where
  "named_env = sample_env\<lparr>env_ntriples := named_triple\<rparr>"

definition named_args :: "redis_arg list" where
  "named_args = [None, Some (lit ''g''), Some (lit ''b''), Some (lit ''FORMAT''), Some (lit ''NTRIPLES'')]"

lemma named_triple_read: "nt_parse_all_str named_triple None d =
    Some (Inr [triple_new (SubjIri (iri_new_unchecked (lit ''p:a''))) (iri_new_unchecked (lit ''p:q''))
      (ObjIri (iri_new_unchecked (lit ''p:b'')))])"
  unfolding nt_parse_all_str_def
  by (subst reader_loop.simps, subst reader_loop.simps)
    (simp add: named_triple_def parse_step_def convert_triple_def conv_then_def convert_predicate_def conv_result_def
      iri_new_def validate_def scheme_end_of_def fragment_start_of_def iri_new_unchecked_def is_control_def str_simps)

lemma named_insert_runs: "\<exists>r qs n. rdf_insert named_env log_call named_args ([], 0) = Some (r, (qs, n))"
proof -
  let ?t = "triple_new (SubjIri (iri_new_unchecked (lit ''p:a''))) (iri_new_unchecked (lit ''p:q''))
      (ObjIri (iri_new_unchecked (lit ''p:b'')))"
  have "detect_and_extract_collections key_order [?t] = Some ([], [?t])"
    by (rule detect_no_blank [OF hash_order_key_order]) (simp add: no_blank_def triple_new_def)
  then obtain qs where qs: "map_triples key_order key_order mapper_new [?t] = Some qs"
    by (auto simp: map_triples_def generate_batch_def batch_subjects_def)
  have args: "insert_args_parse named_env named_args = Inr \<lparr>ia_graph_key = lit ''g'', ia_data = lit ''b'',
      ia_format = Some FNTriples, ia_atomic = False\<rparr>"
    by (simp add: insert_args_parse_def named_args_def arg_text_def format_value_def rdf_format_from_str_def
      named_env_def sample_env_def ascii_upper_def ascii_std_def ascii_lower_def str_simps)
  have "env_heads named_env = key_order" "env_subjects named_env = key_order" "env_ntriples named_env = named_triple"
    by (simp_all add: named_env_def sample_env_def)
  then show ?thesis
    using qs by (cases "execute_cypher log_call (lit ''g'') qs False 1 []")
      (simp add: rdf_insert_def args cmd_simps reader_result_def named_triple_read)
qed

theorem insertion_sends_safe_queries_witness:
  "\<exists>r qs n. rdf_insert named_env log_call named_args ([], 0) = Some (r, (qs, n)) \<and> list_all safe_code qs"
proof -
  have env: "orders_ok named_env" using sample_env_ok by (simp add: orders_ok_def named_env_def)
  have kept: "kept_by_safe log_call (list_all safe_code)" by (simp add: kept_by_safe_def log_call_def)
  obtain r qs n where "rdf_insert named_env log_call named_args ([], 0) = Some (r, (qs, n))"
    using named_insert_runs by blast
  with insertion_sends_safe_queries [OF env kept, of "[]" named_args 0 r qs n no_files] show ?thesis by auto
qed

subsection \<open>Documents of the serializer\<close>

text \<open>C4: RDF.INSERT with FORMAT turtle of a document that the Turtle serializer wrote for at least one triple, with
  lexable prefixes and triples in the sense of \<open>turtle_read_back\<close> (which excludes, among others, bare decimals and doubles,
  respelled integers, control characters and local names with a dot at the end), maps
  exactly the triples of the document (blank nodes renamed by the parser's scope) and sends
  their statements in order, each once, or joined in one query if ATOMIC is given. The reply is
  the number of triples, of executed statements and of errors, which add up. There is no
  reply only if the extraction of RDF lists does not end.\<close>

theorem insert_written_turtle:
  assumes "std_ok (env_std E)" "hash_order iter" "lexable_table (env_std E) ps"
    "list_all (lexable_triple (env_std E) ps) ts" "ts \<noteq> []"
    "insert_args_parse E args = Inr a" "ia_format a = Some FTurtle"
    "ia_data a = fst (se_graph (env_std E) iter ts (serializer_with ps))"
  shows "case map_triples (env_heads E) (env_subjects E) mapper_new (map (triple_back (tp_scope (fst (tp_new n)))) ts) of
      None \<Rightarrow> rdf_insert E call args (w, n) = None
    | Some qs \<Rightarrow> \<exists>ex er. rdf_insert E call args (w, n) =
          Some (Inr (counts_reply [length ts, ex, er]),
            (after_queries call (ia_graph_key a) (sent (ia_atomic a) qs) w, snd (tp_new n))) \<and>
        (if ia_atomic a then qs \<noteq> [] \<longrightarrow> (ex, er) \<in> {(length qs, 0), (0, 1)} else ex + er = length qs)"
proof -
  let ?rd = "map (triple_back (tp_scope (fst (tp_new n)))) ts"
  have "readable_by (env_std E) iter ps" "plain_state (fst (tp_new n))"
    using assms(1-3) by (simp_all add: readable_by_def tp_new_def scope_generate_def plain_state_def)
  then obtain st' where st': "turtle_parse (env_std E) (fst (tp_new n)) (ia_data a) = Inr (?rd, st')"
    using turtle_text_parses [OF _ assms(4)] assms(8) by metis
  then have parse: "parse_rdf E (ia_data a) FTurtle n = Some (Inr ?rd, snd (tp_new n))"
    by (cases "tp_new n") (simp add: turtle_triples_def)
  have format: "used_format a = Some FTurtle" using assms(7) by (simp add: used_format_def)
  have ne: "?rd \<noteq> []" using assms(5) by simp
  show ?thesis
  proof (cases "map_triples (env_heads E) (env_subjects E) mapper_new ?rd")
    case None
    then show ?thesis
      using assms(6) format parse ne by (simp add: rdf_insert_def cmd_bind_result used_format_def)
  next
    case (Some qs)
    then show ?thesis using rdf_insert_run [OF assms(6) format parse ne Some, of call w] by simp
  qed
qed

definition sample_args :: "redis_arg list" where
  "sample_args = [None, Some (lit ''g''), Some (fst (se_graph ascii_std key_order sample_graph (serializer_with sample_prefixes))),
     Some (lit ''FORMAT''), Some (lit ''ttl'')]"

lemma sample_args_parse:
  "insert_args_parse sample_env sample_args = Inr \<lparr>ia_graph_key = lit ''g'',
     ia_data = fst (se_graph ascii_std key_order sample_graph (serializer_with sample_prefixes)),
     ia_format = Some FTurtle, ia_atomic = False\<rparr>"
  by (simp add: insert_args_parse_def sample_args_def arg_text_def format_value_def rdf_format_from_str_def
      sample_env_def ascii_upper_def ascii_std_def ascii_lower_def str_simps)

theorem insert_written_turtle_witness:
  "case map_triples key_order key_order mapper_new (map (triple_back (tp_scope (fst (tp_new 0)))) sample_graph) of
      None \<Rightarrow> rdf_insert sample_env log_call sample_args ([], 0) = None
    | Some qs \<Rightarrow> \<exists>ex er. rdf_insert sample_env log_call sample_args ([], 0) =
        Some (Inr (counts_reply [length sample_graph, ex, er]),
          (after_queries log_call (lit ''g'') qs [], snd (tp_new 0))) \<and> ex + er = length qs"
proof -
  have ne: "sample_graph \<noteq> []" by (simp add: sample_graph_def)
  have env: "env_std sample_env = ascii_std" "env_heads sample_env = key_order" "env_subjects sample_env = key_order"
    by (simp_all add: sample_env_def)
  from insert_written_turtle [OF _ hash_order_key_order _ _ ne sample_args_parse,
      where ps = sample_prefixes and n = 0 and call = log_call and w = "[]"]
    ascii_std_ok sample_prefixes_lexable sample_graph_lexable
  show ?thesis by (simp add: env sent_def split: option.splits)
qed


subsection \<open>Batches\<close>

text \<open>The closure of a batch with a record of the batches it was given.\<close>

definition recorded :: "'s batch_run \<Rightarrow> (triple list list \<times> 's) batch_run" where
  "recorded process ts n x =
     map_option (\<lambda>(r, s). (r, (fst x @ [ts], s))) (process ts n (snd x))"

text \<open>What is in the lines of a file after those that are skipped.\<close>

fun line_triples :: "('p, rio_triple) rio \<Rightarrow> rstr + rstr \<Rightarrow> triple list" where
  "line_triples R (Inl e) = []"
| "line_triples R (Inr s) =
     (if ignored_line (trim s) then []
      else (case nt_parse_all_str R None (trim s) of Some (Inr ts) \<Rightarrow> ts | _ \<Rightarrow> []))"

definition file_triples :: "('p, rio_triple) rio \<Rightarrow> nat \<Rightarrow> (rstr + rstr) list \<Rightarrow> triple list" where
  "file_triples R skip ls = concat (map (line_triples R) (drop skip ls))"

text \<open>The batches so far are full and the current one is not; together they are what was parsed.\<close>

definition batched :: "nat \<Rightarrow> triple list \<Rightarrow> (triple list list \<times> 's) stream_state \<Rightarrow> bool" where
  "batched limit seen x \<longleftrightarrow> (case x of (st, batch, n, (bs, s)) \<Rightarrow>
     concat bs @ batch = seen \<and> bs_triples_parsed st = length seen \<and>
     (\<forall>b\<in>set bs. length b = limit) \<and> length batch < limit)"

lemma push_triples_batched:
  assumes "0 < limit"
  shows "push_triples (recorded process) limit line ts x = Some y \<Longrightarrow> batched limit seen x \<Longrightarrow> batched limit (seen @ ts) y"
proof (induction ts arbitrary: x seen)
  case (Cons t ts)
  obtain st batch n bs s where x: "x = (st, batch, n, (bs, s))" by (metis prod.exhaust)
  let ?st = "st\<lparr>bs_triples_parsed := bs_triples_parsed st + 1\<rparr>"
  show ?case
  proof (cases "length (batch @ [t]) \<ge> limit")
    case True
    then obtain r s' where r: "process (batch @ [t]) n s = Some (r, s')"
      using Cons.prems(1) x by (cases "process (batch @ [t]) n s") (auto simp: recorded_def Let_def)
    then have "recorded process (batch @ [t]) n (bs, s) = Some (r, (bs @ [batch @ [t]], s'))"
      by (simp add: recorded_def)
    then have "push_triples (recorded process) limit line ts
        (batch_done line (batch @ [t]) r ?st, [], line + 1, (bs @ [batch @ [t]], s')) = Some y"
      using Cons.prems(1) x True by (simp add: Let_def)
    moreover have "batched limit (seen @ [t]) (batch_done line (batch @ [t]) r ?st, [], line + 1, (bs @ [batch @ [t]], s'))"
      using Cons.prems(2) x True assms
      by (auto simp: batched_def batch_done_def split: sum.splits)
    ultimately show ?thesis using Cons.IH [of _ "seen @ [t]"] by simp
  next
    case False
    then have "push_triples (recorded process) limit line ts (?st, batch @ [t], n, (bs, s)) = Some y"
      using Cons.prems(1) x by simp
    moreover have "batched limit (seen @ [t]) (?st, batch @ [t], n, (bs, s))"
      using Cons.prems(2) x False by (auto simp: batched_def)
    ultimately show ?thesis using Cons.IH [of _ "seen @ [t]"] by simp
  qed
qed simp

lemma stream_lines_batched:
  assumes "0 < limit"
  shows "stream_lines R (recorded process) skip limit ls line x = Some (Inr k, y) \<Longrightarrow> batched limit seen x \<Longrightarrow>
    batched limit (seen @ file_triples R (skip - line) ls) y"
proof (induction ls arbitrary: line x seen)
  case Nil
  then show ?case by (simp add: file_triples_def)
next
  case (Cons l ls)
  show ?case
  proof (cases "line + 1 \<le> skip")
    case True
    then have "skip - line = Suc (skip - (line + 1))" by simp
    then show ?thesis using Cons True by (simp add: file_triples_def)
  next
    case False
    then have drop0: "file_triples R (skip - line) (l # ls) = line_triples R l @ file_triples R (skip - (line + 1)) ls"
      by (simp add: file_triples_def)
    obtain s where l: "l = Inr s" using Cons.prems(1) False by (cases l) auto
    show ?thesis
    proof (cases "ignored_line (trim s)")
      case True
      then show ?thesis using Cons.IH [of "line + 1" x seen] Cons.prems False drop0 l by simp
    next
      case used: False
      then obtain p where p: "nt_parse_all_str R None (trim s) = Some p"
        using Cons.prems(1) False l by (auto split: option.splits)
      show ?thesis
      proof (cases p)
        case (Inl e)
        have "batched limit seen (parse_failed_line (line + 1) e (fst x), snd x)"
          using Cons.prems(2) by (auto simp: batched_def parse_failed_line_def split: prod.splits)
        then show ?thesis
          using Cons.IH [of "line + 1" _ seen] Cons.prems(1) False used l p Inl drop0 by simp
      next
        case (Inr ts)
        then obtain z where z: "push_triples (recorded process) limit (line + 1) ts x = Some z"
          using Cons.prems(1) False used l p by (auto split: option.splits)
        from push_triples_batched [OF assms z Cons.prems(2)] have "batched limit (seen @ ts) z" .
        then show ?thesis
          using Cons.IH [of "line + 1" z "seen @ ts"] Cons.prems(1) False used l p Inr drop0 z by simp
      qed
    qed
  qed
qed

lemma stream_batches:
  assumes "0 < limit" "stream_ntriples R (recorded process) skip limit ls ([], s) = Some (Inr st, (bs, s'))"
  shows "concat bs = file_triples R skip ls \<and> bs_triples_parsed st = length (file_triples R skip ls) \<and>
    (\<forall>b\<in>set (butlast bs). length b = limit) \<and> (\<forall>b\<in>set bs. b \<noteq> [] \<and> length b \<le> limit)"
proof -
  have empty: "batched limit [] (bs_new, [], skip, ([], s))"
    using assms(1) by (simp add: batched_def bs_new_def)
  obtain k st1 batch n bs1 s1 where run:
    "stream_lines R (recorded process) skip limit ls 0 (bs_new, [], skip, ([], s)) = Some (Inr k, (st1, batch, n, (bs1, s1)))"
    using assms(2) by (auto simp: stream_ntriples_def split: option.splits sum.splits prod.splits)
  from stream_lines_batched [OF assms(1) run empty]
  have b: "concat bs1 @ batch = file_triples R skip ls" "bs_triples_parsed st1 = length (file_triples R skip ls)"
    "\<forall>b\<in>set bs1. length b = limit" "length batch < limit"
    by (simp_all add: batched_def)
  show ?thesis
  proof (cases "batch = []")
    case True
    then have "bs = bs1" "st = st1" using assms(2) run by (auto simp: stream_ntriples_def)
    with b True assms(1) show ?thesis by (auto dest: in_set_butlastD)
  next
    case False
    then obtain r where "process batch n s1 = Some (r, s')" "bs = bs1 @ [batch]" "st = batch_done k batch r st1"
      using assms(2) run by (auto simp: stream_ntriples_def recorded_def split: option.splits)
    with b False assms(1) show ?thesis by (auto simp: batch_done_def split: sum.split)
  qed
qed

text \<open>C5: Reading a file in batches gives every triple of the lines after the skipped ones to
  the batch closure exactly once and in order, in batches of the given size of which only the
  last may be shorter, whatever the closure answers; the count of parsed triples is theirs.\<close>

theorem batches_cover_file:
  assumes "0 < limit" "stream_ntriples R (recorded process) skip limit ls ([], s) = Some (Inr st, (bs, s'))"
  shows "concat bs = file_triples R skip ls \<and> bs_triples_parsed st = length (file_triples R skip ls) \<and>
    (\<forall>b\<in>set (butlast bs). length b = limit) \<and> (\<forall>b\<in>set bs. b \<noteq> [] \<and> length b \<le> limit)"
  using assms by (rule stream_batches)

definition refuse_batch :: "unit batch_run" where
  "refuse_batch ts n s = Some (Inl (lit ''Stopped on error''), s)"

theorem batches_cover_file_witness:
  "\<exists>st bs. stream_ntriples named_triple (recorded refuse_batch) 0 1 [Inr (lit ''b''), Inr (lit ''c'')] ([], ()) = Some (Inr st, (bs, ())) \<and>
     concat bs = file_triples named_triple 0 [Inr (lit ''b''), Inr (lit ''c'')]"
proof -
  obtain st bs where run: "stream_ntriples named_triple (recorded refuse_batch) 0 1 [Inr (lit ''b''), Inr (lit ''c'')] ([], ()) =
      Some (Inr st, (bs, ()))"
    by (simp add: stream_ntriples_def named_triple_read ignored_line_def trim_def trim_start_def is_whitespace_def starts_def
        recorded_def refuse_batch_def Let_def str_simps)
  have "0 < (1::nat)" by simp
  from batches_cover_file [OF this run] run show ?thesis by blast
qed

text \<open>Chunks of a file that is read as a whole.\<close>

lemma chunks_cover: "0 < n \<Longrightarrow> concat (chunks n xs) = xs \<and> (\<forall>c\<in>set (chunks n xs). c \<noteq> [] \<and> length c \<le> n)"
proof (induction n xs rule: chunks.induct)
  case (1 n xs)
  show ?case
  proof (cases "xs = []")
    case True
    then show ?thesis by (simp add: chunks.simps [of n])
  next
    case False
    with 1 show ?thesis by (subst (1 2) chunks.simps) auto
  qed
qed

subsection \<open>Files below the allowed directory\<close>

text \<open>\<open>below a p\<close>: the path \<open>p\<close> is the directory \<open>a\<close> or in it. Two file systems agree below the configured directory if it
  resolves to the same path \<open>a\<close> in both, the same names lead to each path below \<open>a\<close>, and what is below \<open>a\<close> is the same,
  with the same contents of the regular files. Nothing is said of names that lead elsewhere: there
  may be a file in one file system and none in the other.\<close>

definition below :: "rstr \<Rightarrow> rstr \<Rightarrow> bool" where
  "below a p \<longleftrightarrow> prefix (path_components a) (path_components p)"

definition leads_to :: "file_system \<Rightarrow> rstr \<Rightarrow> rstr \<Rightarrow> bool" where
  "leads_to F p c \<longleftrightarrow> fs_exists F p \<and> fs_canonicalize F p = Inr c"

definition agree_below :: "rstr \<Rightarrow> rstr \<Rightarrow> file_system \<Rightarrow> file_system \<Rightarrow> bool" where
  "agree_below dir a F F' \<longleftrightarrow>
     fs_allowed_dir F = Some dir \<and> fs_allowed_dir F' = Some dir \<and>
     fs_canonicalize F dir = Inr a \<and> fs_canonicalize F' dir = Inr a \<and>
     (\<forall>c. below a c \<longrightarrow> (\<forall>p. leads_to F p c = leads_to F' p c) \<and> fs_is_file F c = fs_is_file F' c \<and>
       (fs_is_file F c \<longrightarrow> fs_read F c = fs_read F' c \<and> fs_lines F c = fs_lines F' c))"

lemma agree_below_sym: "agree_below dir a F F' \<Longrightarrow> agree_below dir a F' F"
  by (simp add: agree_below_def)






text \<open>A directory \<open>/d\<close> with a file and a link that leaves it; outside a file that is only in the first file system.\<close>

definition jail :: "bool \<Rightarrow> file_system" where
  "jail secret = \<lparr>fs_exists = (\<lambda>p. p = lit ''/d'' \<or> p = lit ''/d/a.nt'' \<or> secret \<and> (p = lit ''/s'' \<or> p = lit ''/d/l'')),
     fs_canonicalize = (\<lambda>p. if p = lit ''/d/l'' then Inr (lit ''/s'') else Inr p),
     fs_is_file = (\<lambda>p. p = lit ''/d/a.nt'' \<or> secret \<and> p = lit ''/s''), fs_allowed_dir = Some (lit ''/d''),
     fs_read = (\<lambda>p. if p = lit ''/d/a.nt'' then Inr (lit ''#'') else if secret \<and> p = lit ''/s'' then Inr (lit ''secret'') else Inl (lit ''no'')),
     fs_lines = (\<lambda>p. if p = lit ''/d/a.nt'' then Inr [Inr (lit ''#'')] else if secret \<and> p = lit ''/s'' then Inr [Inr (lit ''secret'')] else Inl (lit ''no''))\<rparr>"

definition jail_args :: "rstr \<Rightarrow> redis_arg list" where
  "jail_args p = [Some (lit ''RDF.BULK_INSERT''), Some (lit ''g''), Some p]"


lemma jail_args_parse:
  "bulk_args_parse sample_env (jail_args p) = Inr \<lparr>ba_graph_key = lit ''g'', ba_file_path = p, ba_options = bulk_defaults\<rparr>"
  by (simp add: bulk_args_parse_def jail_args_def arg_text_def)

lemma jail_paths:
  "validate_file_path (jail True) (lit ''/d/a.nt'') = Inr (lit ''/d/a.nt'')"
  "validate_file_path (jail True) (lit ''/d/l'') =
     Inl (lit ''Access denied: file must be within allowed directory '' @ [c_squote] @ lit ''/d'' @ [c_squote])"
  "validate_file_path (jail False) (lit ''/d/l'') = Inl (lit ''File not found: /d/l'')"
  by (simp_all add: validate_file_path_def jail_def path_starts_with_def path_components_def contains_str_def str_simps)





text \<open>The two refusals of the theorem do occur: the link of the directory tells whether the file outside it exists.\<close>

lemma jail_oracle:
  "rdf_bulk_insert sample_env (jail True) log_call (jail_args (lit ''/d/l'')) s =
     Some (Inl (Message (lit ''Access denied: file must be within allowed directory '' @ [c_squote] @ lit ''/d'' @ [c_squote])), s)"
  "rdf_bulk_insert sample_env (jail False) log_call (jail_args (lit ''/d/l'')) s =
     Some (Inl (Message (lit ''File not found: /d/l'')), s)"
  by (simp_all add: rdf_bulk_insert_def jail_args_parse cmd_bind_result jail_paths cmd_error_def)

text \<open>In general: a path that leads outside the directory is answered with "Access denied", one that leads nowhere with
  "File not found".\<close>

lemma existence_revealed:
  assumes "fs_allowed_dir F = Some dir" "fs_canonicalize F dir = Inr a" "\<not> contains_str (lit ''..'') p"
  shows "\<not> fs_exists F p \<Longrightarrow> validate_file_path F p = Inl (lit ''File not found: '' @ p)"
    "leads_to F p c \<Longrightarrow> \<not> below a c \<Longrightarrow> validate_file_path F p =
       Inl (lit ''Access denied: file must be within allowed directory '' @ [c_squote] @ a @ [c_squote])"
  using assms by (simp_all add: validate_file_path_def leads_to_def below_def path_starts_with_def)

subsection \<open>Faults\<close>

text \<open>The guess of the format slices each line after five bytes; a line like \<open>"\'et\'e" .\<close>, in which
  the fifth byte is inside a character, makes the command panic.\<close>

lemma detect_format_panics: "detect_format [c_dquote, 233, 116, 233, c_dquote, c_space, c_dot] = None"
  by (simp add: detect_format_def trim_def trim_start_def is_whitespace_def starts_def ignored_line_def
      graph_line_def utf8_len_def str_to.simps Let_def)

text \<open>On ASCII text it does not.\<close>

definition ascii :: "rstr \<Rightarrow> bool" where
  "ascii s \<longleftrightarrow> list_all (\<lambda>c. c < 128) s"

lemma set_dropWhile_ascii: "x \<in> set (dropWhile P s) \<Longrightarrow> x \<in> set s"
  by (metis set_dropWhileD)

lemma ascii_trim: "ascii s \<Longrightarrow> ascii (trim s)"
  by (auto simp: ascii_def trim_def trim_start_def list_all_iff dest!: set_dropWhile_ascii)

lemma str_to_ascii: "ascii s \<Longrightarrow> b \<le> byte_len s \<Longrightarrow> str_to s b \<noteq> None"
proof (induction s arbitrary: b)
  case Nil
  then show ?case by (simp add: str_to.simps)
next
  case (Cons c s)
  then show ?case by (cases b) (auto simp: str_to.simps [where b = "Suc _"] str_to.simps [where b = 0] ascii_def utf8_len_ascii)
qed

lemma split_lines_ascii: "ascii acc \<Longrightarrow> ascii s \<Longrightarrow> list_all ascii (split_lines acc s)"
proof (induction acc s rule: split_lines.induct)
  case (2 acc c cs)
  have "ascii (butlast acc)" using 2(3) by (auto simp: ascii_def list_all_iff dest: in_set_butlastD)
  with 2 show ?case by (auto simp: ascii_def)
qed simp

lemma any_graph_line_ascii: "list_all ascii ls \<Longrightarrow> any_graph_line ls \<noteq> None"
proof (induction ls)
  case (Cons l ls)
  have "graph_line (trim l) \<noteq> None"
    using Cons.prems str_to_ascii [OF ascii_trim, of l 5] by (auto simp: graph_line_def split: option.split)
  with Cons show ?case by (auto simp: Let_def split: option.split bool.split)
qed simp

lemma detect_format_ascii:
  assumes "ascii s"
  shows "detect_format s \<noteq> None"
proof -
  have "ascii (trim s)" using assms by (rule ascii_trim)
  then have "list_all ascii (split_lines [] (trim s))" using split_lines_ascii [of "[]" "trim s"] by (simp add: ascii_def)
  then obtain b where "any_graph_line (split_lines [] (trim s)) = Some b"
    using any_graph_line_ascii by blast
  then show ?thesis by (cases b) (simp_all add: detect_format_def Let_def)
qed

text \<open>STOPONERROR and MAXERRORS do not stop: the batches that reach the closure are those of the
  whole file even if it refuses each of them.\<close>

lemma stop_on_error_goes_on:
  assumes "0 < limit"
    "stream_ntriples R (recorded (guarded_batch E call g False 0)) skip limit ls ([], s) = Some (Inr st, (bs, s'))"
  shows "concat bs = file_triples R skip ls"
  using stream_batches [OF assms] by simp

end
