(* ===== verification/ModuleDelete.thy ===== *)
theory ModuleDelete
  imports AdminFacts CypherSafety
begin

section \<open>RDF.DELETE (module/src/commands/rdf\_delete.rs)\<close>

text \<open>
  Deletion by pattern: the parser of a pattern component, the arguments, the query that is built
  from them with the namespaces of the graph, and the command. The lemmas say that the query is
  injection-safe whatever the pattern and the namespaces, what the parser reads of a displayed
  term, and where the query does not say what the pattern means.
\<close>

subsection \<open>Pattern components\<close>

datatype pattern_component =
    PcWildcard
  | PcIri rstr
  | PcLiteral rstr "rstr option" "rstr option"
  | PcBlank rstr

text \<open>The text up to the closing quote and the text after it; a backslash hides the character
  after it.\<close>

fun closing_quote :: "rstr \<Rightarrow> rstr \<Rightarrow> (rstr \<times> rstr) option" where
  "closing_quote acc [] = None"
| "closing_quote acc (c # cs) =
     (if c = c_bslash then (case cs of [] \<Rightarrow> None | d # ds \<Rightarrow> closing_quote (acc @ [c, d]) ds)
      else if c = c_dquote then Some (acc, cs)
      else closing_quote (acc @ [c]) cs)"

text \<open>\<open>starts_with('<') && ends_with('>')\<close> and the slice between.\<close>

definition angle_text :: "rstr \<Rightarrow> rstr option" where
  "angle_text s = (if s \<noteq> [] \<and> hd s = c_lt \<and> last s = c_gt then Some (butlast (tl s)) else None)"

definition invalid_literal :: "rstr \<Rightarrow> rstr + 'a" where
  "invalid_literal s = Inl (lit ''Invalid literal format: '' @ s)"

definition literal_rest :: "rstr \<Rightarrow> rstr \<Rightarrow> rstr \<Rightarrow> rstr + pattern_component" where
  "literal_rest s v rest =
     (if prefix [c_at] rest then Inr (PcLiteral v (Some (drop 1 rest)) None)
      else if prefix [c_caret, c_caret] rest then
        (case angle_text (drop 2 rest) of
           Some d \<Rightarrow> Inr (PcLiteral v None (Some d))
         | None \<Rightarrow> Inl (lit ''Invalid datatype format: '' @ drop 2 rest))
      else if rest = [] then Inr (PcLiteral v None None)
      else invalid_literal s)"

definition pattern_parse :: "rstr \<Rightarrow> rstr + pattern_component" where
  "pattern_parse text =
     (let s = trim text in
      if s = [42] then Inr PcWildcard
      else case angle_text s of
        Some i \<Rightarrow> if i = [] then Inl (lit ''Empty IRI'') else Inr (PcIri i)
      | None \<Rightarrow>
          if prefix (lit ''_:'') s then
            (if drop 2 s = [] then Inl (lit ''Empty blank node label'') else Inr (PcBlank (lit ''_:'' @ drop 2 s)))
          else if prefix [c_dquote] s then
            (case closing_quote [] (drop 1 s) of
               Some (v, rest) \<Rightarrow> literal_rest s v rest
             | None \<Rightarrow> invalid_literal s)
          else if c_colon \<in> set s \<and> hd s \<noteq> c_colon then Inr (PcIri s)
          else Inl (lit ''Invalid pattern component: '' @ s @ lit ''. Use <uri>, '' @ [c_dquote] @ lit ''literal'' @
                 [c_dquote] @ lit '', _:blank, or *''))"

definition is_wildcard :: "pattern_component \<Rightarrow> bool" where
  "is_wildcard c \<longleftrightarrow> c = PcWildcard"

subsection \<open>Arguments\<close>

record delete_args =
  da_graph_key :: rstr
  da_subject :: pattern_component
  da_predicate :: pattern_component
  da_object :: pattern_component
  da_named_graph :: "rstr option"
  da_delete_orphans :: bool

definition component_arg :: "redis_arg list \<Rightarrow> nat \<Rightarrow> string \<Rightarrow> redis_error + pattern_component" where
  "component_arg args i invalid =
     (case arg_text args i invalid of Inl e \<Rightarrow> Inl e
      | Inr s \<Rightarrow> (case pattern_parse s of Inl e \<Rightarrow> Inl (Message (lit invalid @ lit '': '' @ e)) | Inr c \<Rightarrow> Inr c))"

fun delete_flags :: "(rstr \<Rightarrow> rstr) \<Rightarrow> redis_arg list \<Rightarrow> rstr option \<times> bool \<Rightarrow> redis_error + rstr option \<times> bool" where
  "delete_flags upper [] r = Inr r"
| "delete_flags upper (None # as) r = Inl (Message (lit ''Invalid argument''))"
| "delete_flags upper (Some arg # as) r =
     (if upper arg = lit ''GRAPH'' then
        (case as of [] \<Rightarrow> Inl (Message (lit ''GRAPH requires a value''))
         | None # _ \<Rightarrow> Inl (Message (lit ''Invalid graph name''))
         | Some g # as \<Rightarrow> delete_flags upper as (Some g, snd r))
      else if upper arg = lit ''ORPHANS'' then delete_flags upper as (fst r, True)
      else Inl (Message (lit ''Unknown option: '' @ upper arg)))"

definition delete_usage :: string where
  "delete_usage = ''Usage: RDF.DELETE <graph> <subject> <predicate> <object> [GRAPH <name>] [ORPHANS]''"

definition delete_args_parse :: "(rstr \<Rightarrow> rstr) \<Rightarrow> redis_arg list \<Rightarrow> redis_error + delete_args" where
  "delete_args_parse upper args =
     (if length args < 5 then Inl (Message (lit delete_usage))
      else case arg_text args 1 ''Invalid graph key'' of Inl e \<Rightarrow> Inl e | Inr g \<Rightarrow>
        (case component_arg args 2 ''Invalid subject'' of Inl e \<Rightarrow> Inl e | Inr s \<Rightarrow>
        (case component_arg args 3 ''Invalid predicate'' of Inl e \<Rightarrow> Inl e | Inr p \<Rightarrow>
        (case component_arg args 4 ''Invalid object'' of Inl e \<Rightarrow> Inl e | Inr ob \<Rightarrow>
        (case delete_flags upper (drop 5 args) (None, False) of Inl e \<Rightarrow> Inl e
         | Inr (n, f) \<Rightarrow> Inr \<lparr>da_graph_key = g, da_subject = s, da_predicate = p, da_object = ob,
             da_named_graph = n, da_delete_orphans = f\<rparr>)))))"

subsection \<open>The query\<close>

definition expand_prefix :: "'w redis_call \<Rightarrow> rstr \<Rightarrow> rstr \<Rightarrow> 'w \<Rightarrow> rstr option \<times> 'w" where
  "expand_prefix call g name w =
     (case split_colon name of
        Some (p, local) \<Rightarrow>
          (case call w (lit ''GET'') [lit ''rdf:ns:'' @ g @ [c_colon] @ p] of
             (Inr (RSimple u), w) \<Rightarrow> (Some (u @ local), w)
           | (_, w) \<Rightarrow> (None, w))
      | None \<Rightarrow> (None, w))"

definition delete_escape :: "rstr \<Rightarrow> rstr" where
  "delete_escape s =
     replace_char c_tab [c_bslash, 116] (replace_char c_cr [c_bslash, 114] (replace_char c_nl [c_bslash, 110]
       (replace_char c_squote [c_bslash, c_squote] (replace_char c_bslash [c_bslash, c_bslash] s))))"

definition in_quotes :: "rstr \<Rightarrow> rstr" where
  "in_quotes s = [c_squote] @ delete_escape s @ [c_squote]"

text \<open>The IRI of a component: a name is expanded if it may be prefixed and its prefix is known.\<close>

definition expanded_iri :: "'w redis_call \<Rightarrow> rstr \<Rightarrow> rstr \<Rightarrow> 'w \<Rightarrow> rstr \<times> 'w" where
  "expanded_iri call g i w =
     (if c_colon \<in> set i \<and> \<not> prefix (lit ''http'') i
      then (case expand_prefix call g i w of (r, w) \<Rightarrow> (case r of Some x \<Rightarrow> x | None \<Rightarrow> i, w))
      else (i, w))"

definition equals_text :: "rstr \<Rightarrow> string \<Rightarrow> rstr \<Rightarrow> rstr" where
  "equals_text var property v = var @ [c_dot] @ lit property @ lit '' = '' @ in_quotes v"

definition literal_conditions :: "rstr \<Rightarrow> rstr \<Rightarrow> rstr option \<Rightarrow> rstr option \<Rightarrow> rstr list" where
  "literal_conditions var v language datatype =
     [equals_text var ''value'' v] @
     (case language of Some l \<Rightarrow> [equals_text var ''language'' l] | None \<Rightarrow> []) @
     (case datatype of Some d \<Rightarrow> [equals_text var ''datatype'' d] | None \<Rightarrow> [])"

definition blank_condition :: "rstr \<Rightarrow> string \<Rightarrow> rstr \<Rightarrow> rstr" where
  "blank_condition var property i = equals_text var property i @ lit '' AND '' @ var @ lit ''.isBlank = true''"

fun build_where_condition ::
  "'w redis_call \<Rightarrow> rstr \<Rightarrow> pattern_component \<Rightarrow> rstr \<Rightarrow> string \<Rightarrow> 'w \<Rightarrow> rstr option \<times> 'w" where
  "build_where_condition call g PcWildcard var property w = (None, w)"
| "build_where_condition call g (PcIri i) var property w =
     (case expanded_iri call g i w of (x, w) \<Rightarrow> (Some (equals_text var property x), w))"
| "build_where_condition call g (PcBlank i) var property w = (Some (blank_condition var property i), w)"
| "build_where_condition call g (PcLiteral v l d) var property w =
     (Some (join (lit '' AND '') (literal_conditions var v l d)), w)"

text \<open>The conditions of the predicate and of the object, the same in all cases of the match.\<close>

fun predicate_conditions :: "'w redis_call \<Rightarrow> rstr \<Rightarrow> pattern_component \<Rightarrow> 'w \<Rightarrow> rstr list \<times> 'w" where
  "predicate_conditions call g (PcIri i) w =
     (case expanded_iri call g i w of (x, w) \<Rightarrow> ([equals_text (lit ''r'') ''predicate'' x], w))"
| "predicate_conditions call g _ w = ([], w)"

fun object_conditions :: "'w redis_call \<Rightarrow> rstr \<Rightarrow> pattern_component \<Rightarrow> 'w \<Rightarrow> rstr list \<times> 'w" where
  "object_conditions call g (PcIri i) w =
     (case expanded_iri call g i w of (x, w) \<Rightarrow> ([equals_text (lit ''o'') ''uri'' x], w))"
| "object_conditions call g (PcLiteral v l d) w = (literal_conditions (lit ''o'') v l d, w)"
| "object_conditions call g (PcBlank i) w = ([blank_condition (lit ''o'') ''uri'' i], w)"
| "object_conditions call g PcWildcard w = ([], w)"

definition subject_conditions :: "'w redis_call \<Rightarrow> rstr \<Rightarrow> pattern_component \<Rightarrow> 'w \<Rightarrow> rstr list \<times> 'w" where
  "subject_conditions call g c w =
     (case build_where_condition call g c (lit ''s'') ''uri'' w of
        (Some x, w) \<Rightarrow> ([x], w) | (None, w) \<Rightarrow> ([], w))"

definition where_conditions :: "'w redis_call \<Rightarrow> delete_args \<Rightarrow> 'w \<Rightarrow> rstr list \<times> 'w" where
  "where_conditions call a w =
     (let g = da_graph_key a;
          (cs, w) = (if is_wildcard (da_subject a) then ([], w) else subject_conditions call g (da_subject a) w);
          (cp, w) = (if is_wildcard (da_predicate a) then ([], w) else predicate_conditions call g (da_predicate a) w);
          (co, w) = (if is_wildcard (da_object a) then ([], w) else object_conditions call g (da_object a) w)
      in (cs @ cp @ co @
          (case da_named_graph a of Some n \<Rightarrow> [equals_text (lit ''r'') ''graph'' n] | None \<Rightarrow> []), w))"

definition literal_cleanup :: rstr where
  "literal_cleanup = lit '' WITH o WHERE o:Literal AND NOT EXISTS { (x)-[]->(o) } DELETE o''"

definition delete_query_text :: "rstr list \<Rightarrow> pattern_component \<Rightarrow> rstr" where
  "delete_query_text cs ob =
     lit ''MATCH (s)-[r]->(o)'' @
     (if cs = [] then [] else lit '' WHERE '' @ join (lit '' AND '') cs) @
     lit '' DELETE r'' @
     (case ob of PcLiteral _ _ _ \<Rightarrow> literal_cleanup | PcWildcard \<Rightarrow> literal_cleanup | _ \<Rightarrow> [])"

definition generate_delete_query :: "'w redis_call \<Rightarrow> delete_args \<Rightarrow> 'w \<Rightarrow> rstr \<times> 'w" where
  "generate_delete_query call a w =
     (case where_conditions call a w of (cs, w) \<Rightarrow> (delete_query_text cs (da_object a), w))"

definition generate_orphan_cleanup_query :: rstr where
  "generate_orphan_cleanup_query = lit ''MATCH (n) WHERE NOT EXISTS { (n)-[]-() } DELETE n''"

subsection \<open>The command\<close>

text \<open>The counts of relationships and nodes in a reply.\<close>

definition delete_stat :: "redis_value \<Rightarrow> int \<times> int \<Rightarrow> int \<times> int" where
  "delete_stat v d =
     (case v of RSimple s \<Rightarrow>
        if prefix (lit ''Relationships deleted:'') s then (stat_number (lit ''Relationships deleted:'') s, snd d)
        else if prefix (lit ''Nodes deleted:'') s then (fst d, stat_number (lit ''Nodes deleted:'') s)
        else d
      | _ \<Rightarrow> d)"

fun extract_delete_stats :: "redis_value \<Rightarrow> int \<times> int" where
  "extract_delete_stats (RArray arr) =
     (if arr = [] then (0, 0) else (case last arr of RArray stats \<Rightarrow> fold delete_stat stats (0, 0) | _ \<Rightarrow> (0, 0)))"
| "extract_delete_stats _ = (0, 0)"

text \<open>The sum of node counts is an \<open>i64\<close> addition; it wraps in a release build.\<close>

definition rdf_delete :: "(rstr \<Rightarrow> rstr) \<Rightarrow> 'w redis_call \<Rightarrow> redis_arg list \<Rightarrow> ('w, redis_value) command" where
  "rdf_delete upper call args =
     cmd_bind (cmd_result (delete_args_parse upper args)) (\<lambda>a.
     cmd_bind (registered call (da_graph_key a)) (\<lambda>exists.
       if \<not> exists then cmd_error (quoted_error ''Graph '' (da_graph_key a) '' does not exist'')
       else cmd_bind (\<lambda>w. Some (map_prod Inr id (generate_delete_query call a w))) (\<lambda>q.
         cmd_bind (redis_do call ''GRAPH.QUERY'' [da_graph_key a, q]) (\<lambda>r.
           if da_delete_orphans a then
             cmd_bind (redis_do call ''GRAPH.QUERY'' [da_graph_key a, generate_orphan_cleanup_query]) (\<lambda>r2.
               cmd_return (RArray [RInteger (word_of_int (fst (extract_delete_stats r))),
                 RInteger (word_of_int (snd (extract_delete_stats r)) + word_of_int (snd (extract_delete_stats r2)))]))
           else cmd_return (RInteger (word_of_int (fst (extract_delete_stats r))))))))"

subsection \<open>Injection safety\<close>

lemma delete_escape_chars:
  "delete_escape s = concat (map (\<lambda>c.
     if c = c_bslash then [c_bslash, c_bslash] else if c = c_squote then [c_bslash, c_squote]
     else if c = c_nl then [c_bslash, 110] else if c = c_cr then [c_bslash, 114]
     else if c = c_tab then [c_bslash, 116] else [c]) s)"
  by (induction s) (auto simp: delete_escape_def)

lemma scan_delete_escape: "scan (InString c_squote) (delete_escape s @ r) = scan (InString c_squote) r"
  unfolding delete_escape_chars by (induction s) auto

lemma safe_in_quotes [safe]: "safe_code (in_quotes s)"
  using scan_delete_escape [of s "[c_squote]"] by (simp add: safe_code_def in_quotes_def code_char_def)

lemma safe_words [safe]:
  "safe_code (lit '' AND '')" "safe_code (lit ''r'')" "safe_code [c_dot]" "safe_code (lit '' = '')"
  "safe_code (lit ''.isBlank = true'')" "safe_code (lit '' WHERE '')" "safe_code (lit ''MATCH (s)-[r]->(o)'')"
  "safe_code (lit '' DELETE r'')" "safe_code literal_cleanup" "safe_code generate_orphan_cleanup_query"
  by (simp_all add: safe_plain literal_cleanup_def generate_orphan_cleanup_query_def code_char_def num_char_def
      char_class_defs str_simps)

lemma safe_properties:
  "property \<in> {''value'', ''language'', ''datatype'', ''uri'', ''predicate'', ''graph''} \<Longrightarrow> safe_code (lit property)"
  by (auto simp: safe_plain code_char_def num_char_def char_class_defs str_simps)

lemma safe_equals [safe]:
  "property \<in> {''value'', ''language'', ''datatype'', ''uri'', ''predicate'', ''graph''} \<Longrightarrow> safe_code var \<Longrightarrow>
   safe_code (equals_text var property v)"
  unfolding equals_text_def by (intro safe safe_properties) auto

lemma safe_literal_conditions: "safe_code var \<Longrightarrow> list_all safe_code (literal_conditions var v l d)"
  by (auto simp: literal_conditions_def safe_equals split: option.split)

lemma safe_blank_condition: "safe_code var \<Longrightarrow> safe_code (blank_condition var ''uri'' i)"
  unfolding blank_condition_def by (intro safe) auto

lemma safe_subject_conditions: "list_all safe_code (fst (subject_conditions call g c w))"
proof (cases c)
  case (PcLiteral v l d)
  have "safe_code (join (lit '' AND '') (literal_conditions (lit ''s'') v l d))"
    by (intro safe safe_literal_conditions)
  then show ?thesis using PcLiteral by (simp add: subject_conditions_def)
qed (auto simp: subject_conditions_def safe_equals safe_blank_condition safe split: prod.split)

lemma safe_predicate_conditions: "list_all safe_code (fst (predicate_conditions call g c w))"
  by (cases c) (auto simp: safe_equals safe split: prod.split)

lemma safe_object_conditions: "list_all safe_code (fst (object_conditions call g c w))"
  by (cases c) (auto simp: safe_equals safe_blank_condition safe_literal_conditions safe split: prod.split)

lemma safe_where_conditions: "list_all safe_code (fst (where_conditions call a w))"
  by (simp add: where_conditions_def Let_def split_def safe_subject_conditions safe_predicate_conditions
      safe_object_conditions safe_equals safe split: option.split)

lemma safe_query_text: "list_all safe_code cs \<Longrightarrow> safe_code (delete_query_text cs ob)"
  unfolding delete_query_text_def
  by (cases ob; cases "cs = []") (auto intro!: safe simp: safe_join)


text \<open>A property of the server's state that no safe query and no reading command destroys.\<close>

definition kept_by_delete :: "'w redis_call \<Rightarrow> ('w \<Rightarrow> bool) \<Rightarrow> bool" where
  "kept_by_delete call P \<longleftrightarrow> (\<forall>w g q. P w \<longrightarrow>
     (safe_code q \<longrightarrow> P (snd (call w (lit ''GRAPH.QUERY'') [g, q]))) \<and>
     P (snd (call w (lit ''SISMEMBER'') [g, q])) \<and> P (snd (call w (lit ''GET'') [g])))"

lemma expanded_iri_keeps: "kept_by_delete call P \<Longrightarrow> P w \<Longrightarrow> P (snd (expanded_iri call g i w))"
proof -
  assume k: "kept_by_delete call P" "P w"
  have "P (snd (expand_prefix call g i w))"
  proof (cases "split_colon i")
    case (Some x)
    then obtain p l where x: "x = (p, l)" by fastforce
    obtain r v where c: "call w (lit ''GET'') [lit ''rdf:ns:'' @ g @ [c_colon] @ p] = (r, v)" by fastforce
    then have "P v" using k by (metis kept_by_delete_def snd_conv)
    then show ?thesis using Some x c
      by (auto simp: expand_prefix_def split: sum.split redis_value.split)
  qed (use k in \<open>simp add: expand_prefix_def\<close>)
  then show ?thesis using k by (simp add: expanded_iri_def split_def)
qed

lemma where_conditions_keeps:
  assumes k: "kept_by_delete call P" and w: "P w"
  shows "P (snd (where_conditions call a w))"
proof -
  have s: "P w \<Longrightarrow> P (snd (subject_conditions call g c w))" for g c w
    by (cases c) (simp_all add: subject_conditions_def split_def expanded_iri_keeps [OF k])
  have p: "P w \<Longrightarrow> P (snd (predicate_conditions call g c w))" for g c w
    by (cases c) (simp_all add: split_def expanded_iri_keeps [OF k])
  have ob: "P w \<Longrightarrow> P (snd (object_conditions call g c w))" for g c w
    by (cases c) (simp_all add: split_def expanded_iri_keeps [OF k])
  show ?thesis using w by (simp add: where_conditions_def Let_def split_def s p ob)
qed

text \<open>C9: Every query that RDF.DELETE sends is injection-safe, whatever the pattern, the graph
  names and the namespaces stored for the graph: a property of the server's state that survives
  safe queries and the reading commands survives the deletion.\<close>

theorem delete_sends_safe_queries:
  assumes "kept_by_delete call P" "P w" "rdf_delete upper call args w = Some (r, w')"
  shows "P w'"
proof (cases "delete_args_parse upper args")
  case (Inl e)
  then show ?thesis using assms by (simp add: rdf_delete_def cmd_simps)
next
  case a: (Inr a)
  note run = assms(3) [unfolded rdf_delete_def a cmd_bind_result]
  have query: "P v \<Longrightarrow> safe_code q \<Longrightarrow> call v (lit ''GRAPH.QUERY'') [g, q] = (x, v') \<Longrightarrow> P v'" for v g q x v'
    using assms(1) by (metis kept_by_delete_def snd_conv)
  obtain x w1 where m: "call w (lit ''SISMEMBER'') [RDF_GRAPHS_SET, da_graph_key a] = (x, w1)" by fastforce
  have w1: "P w1" using assms(1,2) m by (metis kept_by_delete_def snd_conv)
  obtain q w2 where g: "generate_delete_query call a w1 = (q, w2)" by fastforce
  then obtain cs where cs: "where_conditions call a w1 = (cs, w2)" "q = delete_query_text cs (da_object a)"
    by (auto simp: generate_delete_query_def split: prod.splits)
  have q: "safe_code q" "P w2"
    using safe_query_text safe_where_conditions [of call a w1] where_conditions_keeps [OF assms(1) w1, of a] cs by simp_all
  obtain y w3 where d: "call w2 (lit ''GRAPH.QUERY'') [da_graph_key a, q] = (y, w3)" by fastforce
  have w3: "P w3" using query [OF q(2,1) d] .
  obtain z w4 where o4: "call w3 (lit ''GRAPH.QUERY'') [da_graph_key a, generate_orphan_cleanup_query] = (z, w4)" by fastforce
  have w4: "P w4" using query [OF w3 safe_words(10) o4] .
  show ?thesis
    using run m g d o4 w1 w3 w4
    by (cases x; cases y; cases z)
      (auto simp: registered_def cmd_bind_def cmd_simps split: if_splits)
qed

text \<open>The server of the witness records the queries; every graph exists.\<close>

definition delete_log :: "rstr list redis_call" where
  "delete_log qs name args =
     (if name = lit ''GRAPH.QUERY'' then (Inr RNull, qs @ [args ! 1])
      else if name = lit ''SISMEMBER'' then (Inr (RInteger 1), qs) else (Inr RNull, qs))"

definition delete_sample :: "redis_arg list" where
  "delete_sample = [None, Some (lit ''g''), Some (lit ''<http://e/s>''), Some (lit ''*''), Some (lit ''*'')]"

theorem delete_sends_safe_queries_witness:
  "\<exists>r qs. rdf_delete ascii_upper delete_log delete_sample [] = Some (r, qs) \<and> list_all safe_code qs"
proof -
  have kept: "kept_by_delete delete_log (list_all safe_code)" by (auto simp: kept_by_delete_def delete_log_def str_simps)
  obtain a where a: "delete_args_parse ascii_upper delete_sample = Inr a"
    by (simp add: delete_args_parse_def delete_sample_def component_arg_def arg_text_def pattern_parse_def
        angle_text_def trim_def trim_start_def is_whitespace_def str_simps)
  obtain r qs where run: "rdf_delete ascii_upper delete_log delete_sample [] = Some (r, qs)"
    by (cases "generate_delete_query delete_log a []"; cases "da_delete_orphans a")
      (auto simp: rdf_delete_def a cmd_simps cmd_bind_def registered_def delete_log_def str_simps)
  from delete_sends_safe_queries [OF kept _ run] run show ?thesis by auto
qed

subsection \<open>Reading components\<close>

text \<open>What the parser reads of displayed terms; the escapes in a literal stay in its value.\<close>

lemma trim_id:
  assumes "s \<noteq> []" "\<not> is_whitespace (hd s)" "\<not> is_whitespace (last s)"
  shows "trim s = s"
proof -
  have "dropWhile is_whitespace s = s" "dropWhile is_whitespace (rev s) = rev s"
    using assms by (simp_all only: dropWhile_eq_self_iff hd_rev) simp_all
  then show ?thesis by (simp add: trim_def trim_start_def)
qed

lemma pattern_parse_iri:
  assumes "i \<noteq> []"
  shows "pattern_parse (c_lt # i @ [c_gt]) = Inr (PcIri i)"
proof -
  have "trim (c_lt # i @ [c_gt]) = c_lt # i @ [c_gt]" by (rule trim_id) (simp_all add: is_whitespace_def)
  then show ?thesis using assms by (simp add: pattern_parse_def angle_text_def)
qed

lemma escape_literal_chars:
  "escape_literal v = concat (map (\<lambda>c.
     if c = c_bslash then [c_bslash, c_bslash] else if c = c_dquote then [c_bslash, c_dquote]
     else if c = c_nl then [c_bslash, 110] else if c = c_cr then [c_bslash, 114]
     else if c = c_tab then [c_bslash, 116] else [c]) v)"
  by (induction v) (auto simp: escape_literal_def str_simps)

lemma closing_quote_escaped:
  "closing_quote acc (escape_literal v @ c_dquote # rest) = Some (acc @ escape_literal v, rest)"
  unfolding escape_literal_chars by (induction v arbitrary: acc) auto

lemma closing_quote_display:
  assumes "\<forall>g. lit_language l = Some g \<longrightarrow> g \<noteq> [] \<and> \<not> is_whitespace (last g)"
  shows "pattern_parse (literal_display l) = literal_rest (literal_display l) (escape_literal (lit_value l))
     (case lit_language l of Some g \<Rightarrow> c_at # g
      | None \<Rightarrow> (case lit_datatype l of Some dt \<Rightarrow> lit ''^^'' @ iri_display dt | None \<Rightarrow> []))"
proof -
  let ?tail = "case lit_language l of Some g \<Rightarrow> c_at # g
      | None \<Rightarrow> (case lit_datatype l of Some dt \<Rightarrow> lit ''^^'' @ iri_display dt | None \<Rightarrow> [])"
  have shown: "literal_display l = c_dquote # escape_literal (lit_value l) @ c_dquote # ?tail"
    by (simp add: literal_display_def)
  have "\<not> is_whitespace (last (literal_display l))"
    using assms by (auto simp: shown iri_display_def is_whitespace_def str_simps split: option.split)
  then have "trim (literal_display l) = literal_display l"
    by (intro trim_id) (simp_all add: shown is_whitespace_def)
  then show ?thesis
    using closing_quote_escaped [of "[]" "lit_value l" ?tail]
    by (simp add: pattern_parse_def angle_text_def shown str_simps)
qed

text \<open>C10: The pattern parser of RDF.DELETE reads back every displayed term, except for degenerate ones: an IRI that is not empty, a blank node whose label is
  not empty and does not end in white space or a closing angle bracket, and a literal with its language (not empty, no white space at the end) or
  datatype. IRI and label come back as they are; the value of a literal keeps the escapes of the
  text, so it is the literal's own text only if nothing in it had to be escaped.\<close>

theorem pattern_parse_displayed:
  assumes "iri_value i \<noteq> []" "bn_label b \<noteq> []" "\<not> is_whitespace (last (bn_label b))" "last (bn_label b) \<noteq> c_gt"
    "\<forall>g. lit_language l = Some g \<longrightarrow> g \<noteq> [] \<and> \<not> is_whitespace (last g)"
  shows "pattern_parse (object_display (ObjIri i)) = Inr (PcIri (iri_value i)) \<and>
    pattern_parse (object_display (ObjBlank b)) = Inr (PcBlank (lit ''_:'' @ bn_label b)) \<and>
    pattern_parse (object_display (ObjLiteral l)) = Inr (PcLiteral (escape_literal (lit_value l)) (lit_language l)
      (if lit_language l = None then map_option iri_value (lit_datatype l) else None))"
proof (intro conjI)
  show "pattern_parse (object_display (ObjIri i)) = Inr (PcIri (iri_value i))"
    using assms(1) by (simp add: iri_display_def pattern_parse_iri)
  have "trim (lit ''_:'' @ bn_label b) = lit ''_:'' @ bn_label b"
    using assms(2,3) by (intro trim_id) (simp_all add: str_simps is_whitespace_def)
  then show "pattern_parse (object_display (ObjBlank b)) = Inr (PcBlank (lit ''_:'' @ bn_label b))"
    using assms(2,4) by (simp add: bn_display_def pattern_parse_def angle_text_def str_simps)
  show "pattern_parse (object_display (ObjLiteral l)) = Inr (PcLiteral (escape_literal (lit_value l)) (lit_language l)
      (if lit_language l = None then map_option iri_value (lit_datatype l) else None))"
    using closing_quote_display [OF assms(5)]
    by (auto simp: literal_rest_def iri_display_def angle_text_def str_simps split: option.splits)
qed

theorem pattern_parse_displayed_witness:
  "pattern_parse (object_display (ObjLiteral (literal_new [c_dquote]))) = Inr (PcLiteral [c_bslash, c_dquote] None None)"
  using pattern_parse_displayed [of nil_iri "bn_new (lit ''b'')" "literal_new [c_dquote]"]
  by (simp add: nil_iri_def iri_new_unchecked_def RDF_NIL_def bn_new_def literal_new_def escape_literal_def str_simps is_whitespace_def)

text \<open>Angle brackets make no difference: an IRI that does not start with \<open>http\<close> is expanded like a
  prefixed name.\<close>

lemma bracketed_iri_expanded:
  assumes "c_colon \<in> set n" "\<not> is_whitespace (hd n)" "\<not> is_whitespace (last n)" "hd n \<notin> {c_colon, c_lt, c_dquote, c_underscore}"
  shows "pattern_parse (c_lt # n @ [c_gt]) = pattern_parse n"
proof -
  have ne: "n \<noteq> []" using assms(1) by auto
  then have "pattern_parse n = Inr (PcIri n)"
    using assms trim_id [OF ne assms(2,3)]
    by (cases n) (auto simp: pattern_parse_def angle_text_def str_simps Let_def)
  then show ?thesis using pattern_parse_iri [OF ne] by simp
qed

text \<open>A literal or a blank node as predicate is no condition: the query is the one for any
  predicate.\<close>

lemma predicate_not_iri_ignored:
  assumes "\<forall>i. da_predicate a \<noteq> PcIri i"
  shows "generate_delete_query call a w = generate_delete_query call (a\<lparr>da_predicate := PcWildcard\<rparr>) w"
  using assms by (cases "da_predicate a") (simp_all add: generate_delete_query_def where_conditions_def is_wildcard_def Let_def)

end
