(* ===== verification/ModuleQuery.thy ===== *)
theory ModuleQuery
  imports Redis Executor QuerySafety
begin

section \<open>RDF.QUERY (module/src/commands/rdf\_query.rs)\<close>

text \<open>
  The query command: its arguments, the executor that sends Cypher to the server and reads its
  reply, and the composition of parsing, translation, execution and output. The arguments are
  texts (the code reads them with \<open>to_string_lossy\<close>); \<open>debug\<close> is the debug format of an error.
\<close>

subsection \<open>Arguments\<close>

datatype output_format = OutJson | OutXml | OutCsv | OutTsv

definition output_format_from_str :: "(rstr \<Rightarrow> rstr) \<Rightarrow> rstr \<Rightarrow> output_format option" where
  "output_format_from_str lower s =
     (let l = lower s in
      if l = lit ''json'' then Some OutJson else if l = lit ''xml'' then Some OutXml
      else if l = lit ''csv'' then Some OutCsv else if l = lit ''tsv'' then Some OutTsv else None)"

record query_args =
  qa_graph_key :: rstr
  qa_query :: rstr
  qa_format :: output_format
  qa_timeout_ms :: "nat option"

definition u64_max :: nat where "u64_max = 2 ^ 64 - 1"

fun query_options ::
  "(rstr \<Rightarrow> rstr) \<Rightarrow> (rstr \<Rightarrow> rstr) \<Rightarrow> rstr list \<Rightarrow> output_format \<times> nat option \<Rightarrow> redis_error + output_format \<times> nat option" where
  "query_options upper lower [] r = Inr r"
| "query_options upper lower (arg # as) r =
     (if upper arg = lit ''FORMAT'' then
        (case as of [] \<Rightarrow> Inl (Message (lit ''FORMAT requires a value''))
         | v # as \<Rightarrow> (case output_format_from_str lower v of
             None \<Rightarrow> Inl (Message (lit ''Unknown format '' @ [c_squote] @ v @ [c_squote] @ lit ''. Use: json, xml, csv, tsv''))
           | Some f \<Rightarrow> query_options upper lower as (f, snd r)))
      else if upper arg = lit ''TIMEOUT'' then
        (case as of [] \<Rightarrow> Inl (Message (lit ''TIMEOUT requires a value''))
         | v # as \<Rightarrow> (case parse_unsigned u64_max v of
             None \<Rightarrow> Inl (Message (lit ''Invalid timeout value '' @ [c_squote] @ v @ [c_squote] @ lit ''. Must be integer milliseconds''))
           | Some t \<Rightarrow> query_options upper lower as (fst r, Some t)))
      else Inl (Message (lit ''Unknown argument: '' @ upper arg)))"

definition query_args_parse :: "(rstr \<Rightarrow> rstr) \<Rightarrow> (rstr \<Rightarrow> rstr) \<Rightarrow> rstr list \<Rightarrow> redis_error + query_args" where
  "query_args_parse upper lower args =
     (if length args < 3 then Inl WrongArity
      else (case query_options upper lower (drop 3 args) (OutJson, None) of
          Inl e \<Rightarrow> Inl e
        | Inr (f, t) \<Rightarrow> Inr \<lparr>qa_graph_key = args ! 1, qa_query = args ! 2, qa_format = f, qa_timeout_ms = t\<rparr>))"

subsection \<open>Replies of the server\<close>

text \<open>Property lists: pairs of a key that is a text and a value; an odd last element and other
  keys are skipped.\<close>

fun text_pairs :: "redis_value list \<Rightarrow> (rstr \<times> redis_value) list" where
  "text_pairs (k # v # r) = (case as_text k of Some s \<Rightarrow> (s, v) # text_pairs r | None \<Rightarrow> text_pairs r)"
| "text_pairs _ = []"

definition nth_array :: "redis_value list \<Rightarrow> nat \<Rightarrow> redis_value list" where
  "nth_array arr i = (if i < length arr then (case arr ! i of RArray ps \<Rightarrow> ps | _ \<Rightarrow> []) else [])"

lemma text_pairs_size: "(k, v) \<in> set (text_pairs ps) \<Longrightarrow> size v < Suc (size_list size ps)"
  by (induction ps rule: text_pairs.induct) (auto split: option.splits)

lemma nth_array_size: "size_list size (nth_array arr i) \<le> size_list size arr"
proof (cases "i < length arr")
  case True
  then have "size (arr ! i) < Suc (size_list size arr)"
    using size_list_estimation' [of "arr ! i" arr "size (arr ! i)" size] by (simp add: less_Suc_eq_le)
  then show ?thesis using True by (auto simp: nth_array_def split: redis_value.split)
qed (simp add: nth_array_def)

definition insert_all :: "(rstr \<times> 'v) list \<Rightarrow> (rstr, 'v) fmap \<Rightarrow> (rstr, 'v) fmap" where
  "insert_all kvs m = fold (\<lambda>(k, v) m. fmupd k v m) kvs m"

definition relationship_type :: "redis_value list \<Rightarrow> (rstr, cypher_value) fmap" where
  "relationship_type arr =
     (if 2 < length arr then (case as_text (arr ! 2) of Some t \<Rightarrow> fmupd (lit ''predicate'') (CvString t) fmempty | None \<Rightarrow> fmempty)
      else fmempty)"

text \<open>The type indicator at the start of an array: a node, a relationship, or neither.\<close>

definition type_indicator :: "redis_value list \<Rightarrow> nat" where
  "type_indicator arr = (case arr of RInteger t # _ \<Rightarrow> if t = 1 then 1 else if t = 2 then 2 else 0 | _ \<Rightarrow> 0)"

function parse_value :: "redis_value \<Rightarrow> cypher_value" where
  "parse_value (RInteger i) = CvInteger i"
| "parse_value (RFloat f) = CvFloat f"
| "parse_value (RSimple s) = CvString s"
| "parse_value (RBulk s) = CvString s"
| "parse_value (RArray arr) =
     (if type_indicator arr = 1
      then CvNode (insert_all (map (\<lambda>(k, v). (k, parse_value v)) (text_pairs (nth_array arr 3))) fmempty)
      else if type_indicator arr = 2
      then CvRelationship (insert_all (map (\<lambda>(k, v). (k, parse_value v)) (text_pairs (nth_array arr 5))) (relationship_type arr))
      else CvList (map parse_value arr))"
| "parse_value RNull = CvNull"
| "parse_value ROther = CvNull"
  by pat_completeness auto

termination
proof (relation "measure size", goal_cases)
  case (2 arr x k v)
  then show ?case using text_pairs_size [of k v] nth_array_size [of arr 3] by fastforce
next
  case (3 arr x k v)
  then show ?case using text_pairs_size [of k v] nth_array_size [of arr 5] by fastforce
next
  case (4 arr x)
  then show ?case by (simp add: less_Suc_eq_le size_list_estimation')
qed simp

fun parse_row :: "redis_value \<Rightarrow> cypher_value list" where
  "parse_row (RArray vs) = map parse_value vs"
| "parse_row _ = []"

definition header_text :: "redis_value \<Rightarrow> rstr" where
  "header_text h = (case as_text h of Some s \<Rightarrow> s | None \<Rightarrow> [])"

fun parse_result :: "redis_value \<Rightarrow> query_error + cypher_result" where
  "parse_result (RArray arr) = Inr \<lparr>cr_columns = map header_text (nth_array arr 0), cr_rows = map parse_row (nth_array arr 1)\<rparr>"
| "parse_result _ = Inl \<lparr>qe_message = lit ''Unexpected result format from FalkorDB'',
     qe_code = Some (lit ''PARSE_ERROR''), qe_query = None\<rparr>"

subsection \<open>The executor\<close>

definition graph_query_result :: "(redis_error \<Rightarrow> rstr) \<Rightarrow> rstr \<Rightarrow> redis_error + redis_value \<Rightarrow> query_error + cypher_result" where
  "graph_query_result debug q r =
     (case r of Inr v \<Rightarrow> parse_result v
      | Inl e \<Rightarrow> Inl \<lparr>qe_message = lit ''FalkorDB error: '' @ debug e, qe_code = Some (lit ''EXECUTE_ERROR''), qe_query = Some q\<rparr>)"

text \<open>Durations are in nanoseconds.\<close>

definition timeout_args :: "rstr \<Rightarrow> rstr \<Rightarrow> nat option \<Rightarrow> rstr list" where
  "timeout_args g q timeout =
     (case timeout of None \<Rightarrow> [g, q]
      | Some t \<Rightarrow> [g, q, lit ''TIMEOUT'', show_nat (min (t div 1000000) u64_max)])"

definition redis_executor :: "(redis_error \<Rightarrow> rstr) \<Rightarrow> 'w redis_call \<Rightarrow> rstr \<Rightarrow> 'w \<Rightarrow> cypher_executor" where
  "redis_executor debug srv g w =
     \<lparr>ce_execute = (\<lambda>q. graph_query_result debug q (fst (srv w (lit ''GRAPH.QUERY'') (timeout_args g q None)))),
      ce_execute_with_timeout = (\<lambda>q t. graph_query_result debug q (fst (srv w (lit ''GRAPH.QUERY'') (timeout_args g q (Some t)))))\<rparr>"

subsection \<open>The command\<close>

datatype query_failure = QfMessage redis_error | QfTranslation mapper_error

definition format_select_results :: "select_results \<Rightarrow> output_format \<Rightarrow> rstr" where
  "format_select_results r f =
     (case f of OutJson \<Rightarrow> select_to_json r | OutXml \<Rightarrow> select_to_xml r | OutCsv \<Rightarrow> select_to_csv r | OutTsv \<Rightarrow> select_to_tsv r)"

definition format_ask_results :: "ask_result \<Rightarrow> output_format \<Rightarrow> rstr" where
  "format_ask_results r f =
     (case f of OutJson \<Rightarrow> ask_to_json r | OutXml \<Rightarrow> ask_to_xml r | OutCsv \<Rightarrow> ask_to_csv r | OutTsv \<Rightarrow> ask_to_tsv r)"

text \<open>What is outside: the library functions, the grammar, the order of the variables, the debug
  format, and the two readings of the clock.\<close>

record query_env =
  qe_upper :: "rstr \<Rightarrow> rstr"
  qe_lower :: "rstr \<Rightarrow> rstr"
  qe_grammar :: sparql_grammar
  qe_variables :: "rstr fset \<Rightarrow> rstr list"
  qe_debug :: "redis_error \<Rightarrow> rstr"
  qe_before :: nat
  qe_after :: nat

definition query_configuration :: "query_args \<Rightarrow> query_config" where
  "query_configuration a = (case qa_timeout_ms a of Some ms \<Rightarrow> qc_with_timeout (ms * 1000000) qc_new | None \<Rightarrow> qc_new)"

definition query_reply :: "query_result \<Rightarrow> output_format \<Rightarrow> query_failure + redis_value" where
  "query_reply r f =
     (case r of
        QrSelect rs \<Rightarrow> Inr (RBulk (format_select_results rs f))
      | QrAsk a \<Rightarrow> Inr (RBulk (format_ask_results a f))
      | QrError e \<Rightarrow> Inl (QfMessage (Message (lit ''Query error: '' @ qe_display e))))"

text \<open>The server is called once, unless the time is over before.\<close>

definition after_query :: "query_env \<Rightarrow> 'w redis_call \<Rightarrow> query_args \<Rightarrow> cypher_query \<Rightarrow> 'w \<Rightarrow> 'w" where
  "after_query V srv a q w =
     (if exceeded (query_configuration a) (qe_before V) then w
      else snd (srv w (lit ''GRAPH.QUERY'')
             (timeout_args (qa_graph_key a) (cy_query q) (qc_timeout (query_configuration a)))))"

definition rdf_query :: "query_env \<Rightarrow> 'w redis_call \<Rightarrow> rstr list \<Rightarrow> 'w \<Rightarrow> (query_failure + redis_value) \<times> 'w" where
  "rdf_query V srv args w =
     (case query_args_parse (qe_upper V) (qe_lower V) args of
        Inl e \<Rightarrow> (Inl (QfMessage e), w)
      | Inr a \<Rightarrow>
          (case sparql_parse (qe_grammar V) sp_new (qa_query a) of
             Inl e \<Rightarrow> (Inl (QfMessage (Message (lit ''SPARQL parse error: '' @ show_error e))), w)
           | Inr query \<Rightarrow>
               (case translate_query (qe_variables V) query 0 of
                  (Inl e, _) \<Rightarrow> (Inl (QfTranslation e), w)
                | (Inr q, _) \<Rightarrow>
                    (query_reply
                       (execute_query (qe_before V) (qe_after V)
                          (redis_executor (qe_debug V) srv (qa_graph_key a) w) (query_configuration a) q)
                       (qa_format a),
                     after_query V srv a q w))))"


subsection \<open>The rows of a reply\<close>

text \<open>The term that a cell of a reply stands for, read off the reply: of a node its \<open>uri\<close>, or its
  \<open>value\<close> with language or datatype, of a relationship its predicate. A property given twice has its last
  value, and only texts count.\<close>

definition text_prop :: "redis_value list \<Rightarrow> rstr \<Rightarrow> rstr option" where
  "text_prop ps k = Option.bind (map_of (rev (text_pairs ps)) k) as_text"

definition node_term :: "redis_value list \<Rightarrow> rterm option" where
  "node_term ps =
     (case text_prop ps (lit ''uri'') of
        Some u \<Rightarrow> Some (if prefix (lit ''_:'') u then term_blank_node (drop 2 u) else term_iri u)
      | None \<Rightarrow> (case text_prop ps (lit ''value'') of None \<Rightarrow> None
          | Some v \<Rightarrow> Some (case text_prop ps (lit ''language'') of Some g \<Rightarrow> term_lang_literal v g
              | None \<Rightarrow> (case text_prop ps (lit ''datatype'') of Some d \<Rightarrow> term_typed_literal v d | None \<Rightarrow> term_literal v))))"

definition relationship_term :: "redis_value list \<Rightarrow> rterm option" where
  "relationship_term arr = map_option term_iri
     (case map_of (rev (text_pairs (nth_array arr 5))) (lit ''predicate'') of Some x \<Rightarrow> as_text x
      | None \<Rightarrow> if 2 < length arr then as_text (arr ! 2) else None)"

definition text_term :: "rstr \<Rightarrow> rterm" where
  "text_term s =
     (if prefix (lit ''http://'') s \<or> prefix (lit ''https://'') s \<or> prefix (lit ''urn:'') s then term_iri s
      else if prefix (lit ''_:'') s then term_blank_node (drop 2 s) else term_literal s)"

fun cell_term :: "redis_value \<Rightarrow> rterm option" where
  "cell_term (RInteger i) = Some (term_typed_literal (show_int (sint i)) (lit ''http://www.w3.org/2001/XMLSchema#integer''))"
| "cell_term (RFloat f) = Some (term_typed_literal f (lit ''http://www.w3.org/2001/XMLSchema#double''))"
| "cell_term (RSimple s) = Some (text_term s)"
| "cell_term (RBulk s) = Some (text_term s)"
| "cell_term (RArray arr) = (if type_indicator arr = 1 then node_term (nth_array arr 3)
     else if type_indicator arr = 2 then relationship_term arr else None)"
| "cell_term _ = None"

lemma insert_all_lookup: "fmlookup (insert_all kvs m) k = (case map_of (rev kvs) k of Some v \<Rightarrow> Some v | None \<Rightarrow> fmlookup m k)"
  by (induction kvs arbitrary: m) (auto simp: insert_all_def map_add_def split: option.split)

lemma map_of_parsed: "map_of (rev (map (\<lambda>(k, v). (k, f v)) kvs)) k = map_option f (map_of (rev kvs) k)"
  by (induction kvs) (auto simp: map_add_def split: option.split)

lemma parsed_text: "(case parse_value x of CvString s \<Rightarrow> Some s | _ \<Rightarrow> None) = as_text x"
  by (cases x) simp_all

lemma parsed_prop: "string_prop (insert_all (map (\<lambda>(k, v). (k, parse_value v)) (text_pairs ps)) fmempty) k = text_prop ps (lit k)"
  using parsed_text
  by (auto simp: string_prop_def insert_all_lookup map_of_parsed text_prop_def split: option.split)

lemma cell_parsed: "to_term (parse_value x) = cell_term x"
proof (cases x)
  case (RArray arr)
  have "string_prop (insert_all (map (\<lambda>(k, v). (k, parse_value v)) (text_pairs (nth_array arr 5))) (relationship_type arr)) ''predicate'' =
      (case map_of (rev (text_pairs (nth_array arr 5))) (lit ''predicate'') of Some x \<Rightarrow> as_text x
       | None \<Rightarrow> if 2 < length arr then as_text (arr ! 2) else None)"
    using parsed_text
    by (auto simp: string_prop_def insert_all_lookup map_of_parsed relationship_type_def split: option.split)
  then show ?thesis
    using RArray
    by (simp add: parsed_prop node_term_def relationship_term_def literal_term_def strip_blank_def split: option.split)
qed (simp_all add: text_term_def strip_blank_def)

text \<open>C12: RDF.QUERY answers a SELECT from the rows of the server's reply: when the server answers in time with
  an array, the reply of the command is the result, in the requested format, with the query's columns and one solution per row in
  their order, in which a column is bound to the term of the cell at its position if the row has such
  a cell and the cell has a term, and nothing else is bound.\<close>

theorem select_reply_read:
  assumes "query_args_parse (qe_upper V) (qe_lower V) args = Inr a"
    and "sparql_parse (qe_grammar V) sp_new (qa_query a) = Inr query"
    and "translate_query (qe_variables V) query 0 = (Inr q, c)" "cy_type q = CqSelect" "distinct (cy_variables q)"
    and "\<not> exceeded (query_configuration a) (qe_before V)" "\<not> exceeded (query_configuration a) (qe_after V)"
    and "srv w (lit ''GRAPH.QUERY'') (timeout_args (args ! 1) (cy_query q) (qc_timeout (query_configuration a))) = (Inr (RArray arr), w')"
  shows "\<exists>res. rdf_query V srv args w = (Inr (RBulk (format_select_results res (qa_format a))), w') \<and>
    sr_variables res = cy_variables q \<and> length (sr_bindings res) = length (nth_array arr 1) \<and>
    (\<forall>j < length (nth_array arr 1). \<forall>b cells. b = sr_bindings res ! j \<longrightarrow>
       cells = (case nth_array arr 1 ! j of RArray xs \<Rightarrow> xs | _ \<Rightarrow> []) \<longrightarrow>
       fset (fmdom b) \<subseteq> set (cy_variables q) \<and>
       (\<forall>i < length (cy_variables q). fmlookup b (cy_variables q ! i) = (if i < length cells then cell_term (cells ! i) else None)))"
proof -
  let ?r = "\<lparr>cr_columns = map header_text (nth_array arr 0), cr_rows = map parse_row (nth_array arr 1)\<rparr>"
  let ?res = "to_select_results q ?r"
  have key: "qa_graph_key a = args ! 1"
    using assms(1) by (auto simp: query_args_parse_def split: if_splits sum.splits prod.splits)
  have "run_query (redis_executor (qe_debug V) srv (qa_graph_key a) w) (query_configuration a) q = Inr ?r"
    using assms(8) key
    by (cases "qc_timeout (query_configuration a)") (simp_all add: run_query_def redis_executor_def graph_query_result_def)
  then have "rdf_query V srv args w = (Inr (RBulk (format_select_results ?res (qa_format a))), w')"
    using assms key by (simp add: rdf_query_def execute_query_def convert_result_def query_reply_def after_query_def)
  moreover have row: "parse_row x = map parse_value (case x of RArray xs \<Rightarrow> xs | _ \<Rightarrow> [])" for x
    by (cases x) simp_all
  ultimately show ?thesis
    using bind_keys [where b = fmempty] bind_rows [OF assms(5), where n = 0 and b = fmempty]
    by (intro exI [of _ ?res]) (auto simp: select_rows binding_of_row_def row cell_parsed split: option.split)
qed

text \<open>A list that starts with the integer 1 is read as a node without properties, and has no term.\<close>

lemma integer_list_read_as_node: "parse_value (RArray [RInteger 1, RInteger 5]) = CvNode fmempty"
  by (simp add: type_indicator_def nth_array_def insert_all_def)

subsection \<open>One safe query\<close>



text \<open>A grammar that knows two queries and refuses every other text.\<close>

definition spo :: gp where
  "spo = Bgp [\<lparr>st_subject = TpVariable (lit ''s''), st_predicate = NnpVariable (lit ''p''), st_object = TpVariable (lit ''o'')\<rparr>]"

definition two_queries :: sparql_grammar where
  "two_queries = \<lparr>g_parse_iri = Inr, g_with_base = (\<lambda>_. Inr ()),
     g_parse_query = (\<lambda>_ text.
       if text = lit ''SELECT * {?s ?p ?o}'' then Inr (SpSelect (Project spo [lit ''s'', lit ''o'']) None)
       else if text = lit ''ASK {?s ?p ?o FILTER(?o < '' @ [c_dquote] @ lit ''1 OR true'' @ [c_dquote] @ lit ''^^xsd:integer)}''
       then Inr (SpAsk (FilterP (ELess (EVariable (lit ''o'')) (ELiteral \<lparr>sl_value = lit ''1 OR true'',
            sl_datatype = xsd_namespace @ lit ''integer'', sl_display = []\<rparr>)) spo) None)
       else Inl (lit ''syntax error''))\<rparr>"

definition sample_query_env :: query_env where
  "sample_query_env = \<lparr>qe_upper = (\<lambda>s. s), qe_lower = (\<lambda>s. s), qe_grammar = two_queries,
     qe_variables = sorted_list_of_fset, qe_debug = (\<lambda>_. []), qe_before = 0, qe_after = 0\<rparr>"

lemmas sample_defs = sample_query_env_def two_queries_def spo_def sparql_parse_def parse_impl_def grammar_query_def sp_new_def


definition query_log :: "rstr list redis_call" where
  "query_log qs name args = (Inr (RArray [RArray [], RArray [RArray
     [RArray [RInteger 1, RInteger 7, RArray [], RArray [RSimple (lit ''uri''), RBulk (lit ''urn:e'')]], RInteger 5]]]), qs @ [args ! 1])"

definition select_args :: "rstr list" where
  "select_args = [lit ''RDF.QUERY'', lit ''g'', lit ''SELECT * {?s ?p ?o}'']"

lemma select_args_parse: "query_args_parse (qe_upper sample_query_env) (qe_lower sample_query_env) select_args =
    Inr \<lparr>qa_graph_key = lit ''g'', qa_query = lit ''SELECT * {?s ?p ?o}'', qa_format = OutJson, qa_timeout_ms = None\<rparr>"
  by (simp add: query_args_parse_def select_args_def)

lemma select_args_translate:
  obtains query q c where "sparql_parse (qe_grammar sample_query_env) sp_new (lit ''SELECT * {?s ?p ?o}'') = Inr query"
    "translate_query (qe_variables sample_query_env) query 0 = (Inr q, c)" "cy_type q = CqSelect"
    "cy_variables q = [lit ''s'', lit ''o'']" "query_raw query = {}"
  by (simp add: sample_defs extract_select_modifiers_def no_modifiers_def translate_select_def is_select_all_def
      projected_variables_def bind_def ret_def translate_triple_pattern_def next_var_def modifiers_text_def build_order_clause_def
      order_raw_def Let_def)

lemma select_args_time: "\<not> exceeded (query_configuration a) (qe_before sample_query_env)" "\<not> exceeded (query_configuration a) (qe_after sample_query_env)"
  by (auto simp: exceeded_def sample_query_env_def split: option.split)

theorem select_reply_read_witness:
  "\<exists>res w'. rdf_query sample_query_env query_log select_args [] = (Inr (RBulk (select_to_json res)), w') \<and>
     fmlookup (sr_bindings res ! 0) (lit ''s'') = Some (term_iri (lit ''urn:e'')) \<and>
     fmlookup (sr_bindings res ! 0) (lit ''o'') = Some (term_typed_literal (lit ''5'') (lit ''http://www.w3.org/2001/XMLSchema#integer''))"
proof -
  obtain query q c where q: "sparql_parse (qe_grammar sample_query_env) sp_new (lit ''SELECT * {?s ?p ?o}'') = Inr query"
    "translate_query (qe_variables sample_query_env) query 0 = (Inr q, c)" "cy_type q = CqSelect"
    "cy_variables q = [lit ''s'', lit ''o'']" by (rule select_args_translate)
  let ?cells = "[RArray [RInteger 1, RInteger 7, RArray [], RArray [RSimple (lit ''uri''), RBulk (lit ''urn:e'')]], RInteger 5]"
  have terms: "cell_term (?cells ! 0) = Some (term_iri (lit ''urn:e''))"
    "cell_term (?cells ! 1) = Some (term_typed_literal (lit ''5'') (lit ''http://www.w3.org/2001/XMLSchema#integer''))"
    by (simp_all add: type_indicator_def nth_array_def node_term_def text_prop_def str_simps show_int_def show_nat.simps)
  have "distinct (cy_variables q)" by (simp add: q(4) str_simps)
  from select_reply_read [OF select_args_parse _ q(2,3) this select_args_time, of query_log "[]" "[RArray [], RArray [RArray ?cells]]"] q(1)
  obtain res w' where "rdf_query sample_query_env query_log select_args [] = (Inr (RBulk (select_to_json res)), w')"
    and cells: "\<forall>i < 2. fmlookup (sr_bindings res ! 0) (cy_variables q ! i) = cell_term (?cells ! i)"
    by (auto simp: query_log_def nth_array_def format_select_results_def q(4) simp del: cell_term.simps)
  then show ?thesis using terms cells [rule_format, of 0] cells [rule_format, of 1] by (auto simp: q(4))
qed


end
