(* ===== verification/JsonLd.thy ===== *)
theory JsonLd
  imports Triple "HOL-Library.List_Lexorder" "HOL-Library.Finite_Map"
begin

section \<open>JSON-LD: contexts, expansion, compaction and framing (parser/src/rdf/jsonld)\<close>

text \<open>
  Documents are values of the crate serde\_json, which this theory models as far as the code
  uses them: a map is a list of members with ascending keys (the crate's \<open>BTreeMap\<close>; the
  byte order of UTF-8 strings is the order of their code points), a number one of its three kinds,
  where a float enters as the two texts the code makes of it. The functions that parse a text to a
  value and print an error are arguments. Slices at an offset that \<open>find\<close> returned are written as
  the parts before and after it. The orders in which the code walks through its hash maps when it
  compacts are arguments.
\<close>

subsection \<open>Values\<close>

datatype jnumber = PosInt u64 | NegInt int | Float rstr rstr   \<comment> \<open>printed by \<open>f64\<close>, printed by serde\_json\<close>

datatype jvalue =
    VNull | VBool bool | VNumber jnumber | VString rstr | VArray "jvalue list"
  | VObject "(rstr \<times> jvalue) list"

type_synonym jmap = "(rstr \<times> jvalue) list"

definition jm_get :: "string \<Rightarrow> jmap \<Rightarrow> jvalue option" where
  "jm_get k m = map_of m (lit k)"

fun jm_insert :: "rstr \<Rightarrow> jvalue \<Rightarrow> jmap \<Rightarrow> jmap" where
  "jm_insert k v [] = [(k, v)]"
| "jm_insert k v ((l, w) # m) =
     (if k < l then (k, v) # (l, w) # m else if k = l then (k, v) # m else (l, w) # jm_insert k v m)"

definition jm_extend :: "jmap \<Rightarrow> jmap \<Rightarrow> jmap" where
  "jm_extend m n = fold (\<lambda>(k, v). jm_insert k v) n m"

fun as_str :: "jvalue \<Rightarrow> rstr option" where
  "as_str (VString s) = Some s"
| "as_str _ = None"

fun as_object :: "jvalue \<Rightarrow> jmap option" where
  "as_object (VObject m) = Some m"
| "as_object _ = None"

text \<open>\<open>Value::get\<close> with a key: \<open>None\<close> on values that are no object.\<close>

definition value_get :: "string \<Rightarrow> jvalue \<Rightarrow> jvalue option" where
  "value_get k v = Option.bind (as_object v) (jm_get k)"

definition object1 :: "string \<Rightarrow> jvalue \<Rightarrow> jvalue" where
  "object1 k v = VObject [(lit k, v)]"

fun before_char :: "rchar \<Rightarrow> rstr \<Rightarrow> (rstr \<times> rstr) option" where
  "before_char c [] = None"
| "before_char c (x # xs) = (if x = c then Some ([], xs) else map_option (\<lambda>(a, b). (x # a, b)) (before_char c xs))"

subsection \<open>Errors (error.rs)\<close>

datatype jsonld_message = JlText rstr | JlParser parser_error | JlPredicate rstr parser_error

datatype jsonld_error =
    JsonParseError rstr | ContextError rstr | ExpansionError rstr | CompactionError rstr | FramingError rstr
  | RdfConversionError jsonld_message | InvalidIri rstr | InvalidDocument rstr
  | RemoteContextNotSupported rstr

definition context_error :: "string \<Rightarrow> jsonld_error" where
  "context_error s = ContextError (lit s)"

definition jl_then :: "jsonld_error + 'a \<Rightarrow> ('a \<Rightarrow> jsonld_error + 'b) \<Rightarrow> jsonld_error + 'b" where
  "jl_then r f = (case r of Inl e \<Rightarrow> Inl e | Inr x \<Rightarrow> f x)"

lemma jl_then_simps [simp]: "jl_then (Inl e) f = Inl e" "jl_then (Inr x) f = f x"
  by (simp_all add: jl_then_def)

lemma jl_then_Inr [simp]: "jl_then r f = Inr y \<longleftrightarrow> (\<exists>x. r = Inr x \<and> f x = Inr y)"
  by (simp add: jl_then_def split: sum.split)

text \<open>\<open>collect\<close> of results: the first error, or all values.\<close>

fun jl_all :: "(jsonld_error + 'a) list \<Rightarrow> jsonld_error + 'a list" where
  "jl_all [] = Inr []"
| "jl_all (r # rs) = jl_then r (\<lambda>x. jl_then (jl_all rs) (\<lambda>xs. Inr (x # xs)))"

subsection \<open>Contexts (context.rs)\<close>

datatype container_type = CtList | CtSet | CtIndex | CtLanguage | CtGraph | CtId | CtType

definition container_from_str :: "rstr \<Rightarrow> container_type option" where
  "container_from_str s =
     (if s = lit ''@list'' then Some CtList else if s = lit ''@set'' then Some CtSet
      else if s = lit ''@index'' then Some CtIndex else if s = lit ''@language'' then Some CtLanguage
      else if s = lit ''@graph'' then Some CtGraph else if s = lit ''@id'' then Some CtId
      else if s = lit ''@type'' then Some CtType else None)"

record term_definition =
  td_iri :: rstr
  td_type_coercion :: "rstr option"
  td_container :: "container_type option"
  td_language :: "rstr option"
  td_reverse :: bool

definition td_of_iri :: "rstr \<Rightarrow> term_definition" where
  "td_of_iri i = \<lparr>td_iri = i, td_type_coercion = None, td_container = None, td_language = None, td_reverse = False\<rparr>"

record resolved_context =
  rc_terms :: "(rstr, term_definition) fmap"
  rc_base :: "rstr option"
  rc_vocab :: "rstr option"
  rc_language :: "rstr option"

definition rc_default :: resolved_context where
  "rc_default = \<lparr>rc_terms = fmempty, rc_base = None, rc_vocab = None, rc_language = None\<rparr>"

definition keyword :: "rstr \<Rightarrow> bool" where
  "keyword s \<longleftrightarrow> prefix [64] s"

definition context_expand_iri :: "resolved_context \<Rightarrow> rstr \<Rightarrow> rstr" where
  "context_expand_iri c v =
     (if contains_str (lit ''://'') v then v
      else if keyword v then v
      else case before_char c_colon v of
        Some (p, rest) \<Rightarrow> (case fmlookup (rc_terms c) p of Some d \<Rightarrow> td_iri d @ rest | None \<Rightarrow> v)
      | None \<Rightarrow>
          (case fmlookup (rc_terms c) v of Some d \<Rightarrow> td_iri d
           | None \<Rightarrow> (case rc_vocab c of Some vocab \<Rightarrow> vocab @ v | None \<Rightarrow> v)))"

definition member_str :: "string \<Rightarrow> jmap \<Rightarrow> rstr option" where
  "member_str k m = Option.bind (jm_get k m) as_str"

fun parse_term_definition :: "rstr \<Rightarrow> jvalue \<Rightarrow> resolved_context \<Rightarrow> jsonld_error + term_definition" where
  "parse_term_definition name (VString i) c = Inr (td_of_iri (context_expand_iri c i))"
| "parse_term_definition name (VObject m) c = Inr
     \<lparr>td_iri = (case map_option (context_expand_iri c) (member_str ''@id'' m) of Some i \<Rightarrow> i
        | None \<Rightarrow> (case rc_vocab c of Some vocab \<Rightarrow> vocab @ name | None \<Rightarrow> name)),
      td_type_coercion = map_option (context_expand_iri c) (member_str ''@type'' m),
      td_container = Option.bind (member_str ''@container'' m) container_from_str,
      td_language = member_str ''@language'' m,
      td_reverse = (member_str ''@reverse'' m \<noteq> None)\<rparr>"
| "parse_term_definition name VNull c = Inr (td_of_iri [])"
| "parse_term_definition name _ c =
     Inl (ContextError (lit ''Invalid term definition for '' @ [c_squote] @ name @ [c_squote]))"

text \<open>One of the three settings: a string sets it, null leaves it, anything else is an error.\<close>

fun setting :: "string \<Rightarrow> jvalue \<Rightarrow> rstr option \<Rightarrow> jsonld_error + rstr option" where
  "setting msg (VString s) old = Inr (Some s)"
| "setting msg VNull old = Inr old"
| "setting msg _ old = Inl (context_error msg)"

fun context_members :: "jmap \<Rightarrow> resolved_context \<Rightarrow> jsonld_error + resolved_context" where
  "context_members [] c = Inr c"
| "context_members ((k, v) # m) c =
     jl_then
       (if k = lit ''@base'' then
          jl_then (setting ''@base must be a string or null'' v (rc_base c)) (\<lambda>b. Inr (c\<lparr>rc_base := b\<rparr>))
        else if k = lit ''@vocab'' then
          jl_then (setting ''@vocab must be a string or null'' v (rc_vocab c)) (\<lambda>b. Inr (c\<lparr>rc_vocab := b\<rparr>))
        else if k = lit ''@language'' then
          jl_then (setting ''@language must be a string or null'' v (rc_language c)) (\<lambda>b. Inr (c\<lparr>rc_language := b\<rparr>))
        else if \<not> keyword k then
          jl_then (parse_term_definition k v c) (\<lambda>d. Inr (c\<lparr>rc_terms := fmupd k d (rc_terms c)\<rparr>))
        else Inr c)
       (context_members m)"

definition resolve_object :: "jmap \<Rightarrow> rstr option \<Rightarrow> jsonld_error + resolved_context" where
  "resolve_object m base = context_members m (rc_default\<lparr>rc_base := base\<rparr>)"

text \<open>What a later context sets overrides what an earlier one has set.\<close>

definition merge_context :: "resolved_context \<Rightarrow> resolved_context \<Rightarrow> resolved_context" where
  "merge_context c d =
     \<lparr>rc_terms = fmadd (rc_terms c) (rc_terms d),
      rc_base = (if rc_base d \<noteq> None then rc_base d else rc_base c),
      rc_vocab = (if rc_vocab d \<noteq> None then rc_vocab d else rc_vocab c),
      rc_language = (if rc_language d \<noteq> None then rc_language d else rc_language c)\<rparr>"

fun context_resolve :: "jvalue \<Rightarrow> rstr option \<Rightarrow> jsonld_error + resolved_context"
  and resolve_array :: "jvalue list \<Rightarrow> rstr option \<Rightarrow> resolved_context \<Rightarrow> jsonld_error + resolved_context" where
  "context_resolve VNull base = Inr rc_default"
| "context_resolve (VString url) base = Inl (RemoteContextNotSupported url)"
| "context_resolve (VObject m) base = resolve_object m base"
| "context_resolve (VArray cs) base = resolve_array cs base rc_default"
| "context_resolve _ base = Inl (context_error ''Invalid @context value type'')"
| "resolve_array [] base r = Inr r"
| "resolve_array (c # cs) base r =
     jl_then (context_resolve c base) (\<lambda>d. resolve_array cs base (merge_context r d))"

subsection \<open>Expansion (parser.rs)\<close>

record jsonld_parser =
  lp_base_iri :: "rstr option"

definition lp_new :: jsonld_parser where
  "lp_new = \<lparr>lp_base_iri = None\<rparr>"

definition lp_with_base :: "rstr \<Rightarrow> jsonld_parser" where
  "lp_with_base b = \<lparr>lp_base_iri = Some b\<rparr>"

definition lp_set_base :: "rstr \<Rightarrow> jsonld_parser \<Rightarrow> jsonld_parser" where
  "lp_set_base b p = p\<lparr>lp_base_iri := Some b\<rparr>"

definition lp_parse :: "(rstr \<Rightarrow> rstr + jvalue) \<Rightarrow> rstr \<Rightarrow> jsonld_error + jvalue" where
  "lp_parse from_str input = map_sum JsonParseError id (from_str input)"

definition expand_term :: "resolved_context \<Rightarrow> rstr \<Rightarrow> rstr" where
  "expand_term c t =
     (if keyword t then t
      else case fmlookup (rc_terms c) t of Some d \<Rightarrow> td_iri d
      | None \<Rightarrow>
          (case before_char c_colon t of
             Some (p, rest) \<Rightarrow> (case fmlookup (rc_terms c) p of Some d \<Rightarrow> td_iri d @ rest | None \<Rightarrow> t)
           | None \<Rightarrow> (case rc_vocab c of Some vocab \<Rightarrow> vocab @ t | None \<Rightarrow> t)))"

definition expand_iri :: "resolved_context \<Rightarrow> rstr \<Rightarrow> rstr" where
  "expand_iri c i =
     (if contains_str (lit ''://'') i then i
      else if prefix (lit ''_:'') i then i
      else case rc_base c of None \<Rightarrow> expand_term c i
      | Some base \<Rightarrow>
          if prefix [c_hash] i then base @ i
          else case (if prefix [c_slash] i then split_str (lit ''://'') base else None) of
            Some (pre, rest) \<Rightarrow> pre @ lit ''://'' @ takeWhile (\<lambda>x. x \<noteq> c_slash) rest @ i
          | None \<Rightarrow> if c_slash \<in> set base then upto_last c_slash base @ i else expand_term c i)"

fun expand_type_value :: "resolved_context \<Rightarrow> jvalue \<Rightarrow> jvalue" where
  "expand_type_value c (VString s) = VArray [VString (expand_term c s)]"
| "expand_type_value c (VArray vs) = VArray (map (\<lambda>s. VString (expand_term c s)) (List.map_filter as_str vs))"
| "expand_type_value c v = v"

definition local_context :: "jmap \<Rightarrow> resolved_context \<Rightarrow> jsonld_error + resolved_context" where
  "local_context m parent =
     (case jm_get ''@context'' m of
        Some v \<Rightarrow> jl_then (context_resolve v (rc_base parent)) (\<lambda>d. Inr (merge_context parent d))
      | None \<Rightarrow> Inr parent)"

definition nested_keywords :: "rstr list" where
  "nested_keywords = map lit [''@value'', ''@language'', ''@list'', ''@set'', ''@graph'', ''@index'', ''@reverse'']"

definition object_value :: "jmap \<Rightarrow> jvalue" where
  "object_value m = (if m = [] then VNull else VObject m)"

definition string_property :: "resolved_context \<Rightarrow> rstr \<Rightarrow> rstr \<Rightarrow> jvalue" where
  "string_property c k s =
     (let d = fmlookup (rc_terms c) k in
      if Option.bind d td_type_coercion = Some (lit ''@id'')
      then VArray [object1 ''@id'' (VString (expand_iri c s))]
      else let m = [(lit ''@value'', VString s)];
               lang = (case Option.bind d td_language of Some l \<Rightarrow> Some l | None \<Rightarrow> rc_language c)
           in VArray [VObject (case lang of Some l \<Rightarrow> jm_insert (lit ''@language'') (VString l) m | None \<Rightarrow> m)])"

definition keep_value :: "rstr \<Rightarrow> jvalue \<Rightarrow> jmap \<Rightarrow> jmap" where
  "keep_value k v m = (if v = VNull then m else jm_insert k v m)"

function (sequential) expand_value :: "resolved_context \<Rightarrow> jvalue \<Rightarrow> jsonld_error + jvalue"
  and expand_values :: "resolved_context \<Rightarrow> jvalue list \<Rightarrow> jsonld_error + jvalue list"
  and expand_object :: "resolved_context \<Rightarrow> jmap \<Rightarrow> jsonld_error + jvalue"
  and expand_members :: "resolved_context \<Rightarrow> jmap \<Rightarrow> jmap \<Rightarrow> jsonld_error + jmap"
  and expand_property_value :: "resolved_context \<Rightarrow> rstr \<Rightarrow> jvalue \<Rightarrow> jsonld_error + jvalue"
  and expand_property_values :: "resolved_context \<Rightarrow> rstr \<Rightarrow> jvalue list \<Rightarrow> jsonld_error + jvalue list" where
  "expand_value c (VObject m) = expand_object c m"
| "expand_value c (VArray vs) = jl_then (expand_values c vs) (\<lambda>ws. Inr (VArray ws))"
| "expand_value c v = Inr v"
| "expand_values c [] = Inr []"
| "expand_values c (v # vs) = jl_then (expand_value c v) (\<lambda>w. jl_then (expand_values c vs) (\<lambda>ws. Inr (w # ws)))"
| "expand_object c m =
     jl_then (local_context m c) (\<lambda>c. jl_then (expand_members c m []) (\<lambda>r. Inr (object_value r)))"
| "expand_members c [] r = Inr r"
| "expand_members c ((k, v) # m) r =
     jl_then
       (if k = lit ''@context'' then Inr r
        else if k = lit ''@id'' then
          Inr (jm_insert k (case v of VString i \<Rightarrow> VString (expand_iri c i) | _ \<Rightarrow> v) r)
        else if k = lit ''@type'' then Inr (jm_insert k (expand_type_value c v) r)
        else if k \<in> set nested_keywords then
          jl_then (expand_value c v) (\<lambda>w. Inr (jm_insert k w r))
        else jl_then (expand_property_value c k v) (\<lambda>w. Inr (keep_value (expand_term c k) w r)))
       (expand_members c m)"
| "expand_property_value c k (VArray vs) = jl_then (expand_property_values c k vs) (\<lambda>ws. Inr (VArray ws))"
| "expand_property_value c k (VObject m) = expand_object c m"
| "expand_property_value c k (VString s) = Inr (string_property c k s)"
| "expand_property_value c k (VNumber n) = Inr (VArray [object1 ''@value'' (VNumber n)])"
| "expand_property_value c k (VBool b) = Inr (VArray [object1 ''@value'' (VBool b)])"
| "expand_property_value c k VNull = Inr VNull"
| "expand_property_values c k [] = Inr []"
| "expand_property_values c k (v # vs) =
     jl_then (expand_property_value c k v) (\<lambda>w. jl_then (expand_property_values c k vs) (\<lambda>ws. Inr (w # ws)))"
  by pat_completeness auto

termination
  by (relation "measure (case_sum
      (case_sum (\<lambda>(c, v). 2 * size v)
        (case_sum (\<lambda>(c, vs). 2 * size_list size vs) (\<lambda>(c, m). 2 * size_list (size_prod (\<lambda>_. 0) size) m + 1)))
      (case_sum (\<lambda>(c, m, r). 2 * size_list (size_prod (\<lambda>_. 0) size) m)
        (case_sum (\<lambda>(c, k, v). 2 * size v) (\<lambda>(c, k, vs). 2 * size_list size vs))))") auto

definition document_context :: "jsonld_parser \<Rightarrow> jvalue \<Rightarrow> jsonld_error + resolved_context" where
  "document_context p d =
     context_resolve (case value_get ''@context'' d of Some c \<Rightarrow> c | None \<Rightarrow> VNull) (lp_base_iri p)"

fun array_of :: "jvalue \<Rightarrow> jvalue" where
  "array_of (VArray vs) = VArray vs"
| "array_of VNull = VArray []"
| "array_of v = VArray [v]"

definition lp_expand :: "jsonld_parser \<Rightarrow> jvalue \<Rightarrow> jsonld_error + jvalue" where
  "lp_expand p d =
     jl_then (document_context p d) (\<lambda>c. jl_then (expand_value c d) (\<lambda>v. Inr (array_of v)))"

end
