(* ===== verification/JsonLdCompact.thy ===== *)
theory JsonLdCompact
  imports JsonLd
begin

section \<open>JSON-LD: compaction and framing (parser/src/rdf/jsonld/parser.rs)\<close>

text \<open>
  The reverse of a context maps IRIs to terms; the order in which the terms of the context
  are collected into it decides which of two terms for an IRI stays, and the order in which
  it is searched decides which prefix is found. Both orders are arguments.
\<close>

type_synonym term_order = "(rstr, term_definition) fmap \<Rightarrow> (rstr \<times> term_definition) list"
type_synonym reverse_order = "(rstr, rstr) fmap \<Rightarrow> (rstr \<times> rstr) list"

definition iri_to_term :: "term_order \<Rightarrow> resolved_context \<Rightarrow> (rstr, rstr) fmap" where
  "iri_to_term titer c = fold (\<lambda>(t, d). fmupd (td_iri d) t) (titer (rc_terms c)) fmempty"

fun prefix_match :: "(rstr \<times> rstr) list \<Rightarrow> rstr \<Rightarrow> rstr option" where
  "prefix_match [] i = None"
| "prefix_match ((p, t) # ps) i =
     (if prefix p i \<and> byte_len i > byte_len p \<and>
         c_slash \<notin> set (drop (length p) i) \<and> c_hash \<notin> set (drop (length p) i)
      then Some (t @ [c_colon] @ drop (length p) i) else prefix_match ps i)"

definition compact_iri :: "reverse_order \<Rightarrow> (rstr, rstr) fmap \<Rightarrow> rstr \<Rightarrow> rstr" where
  "compact_iri riter r i =
     (case fmlookup r i of Some t \<Rightarrow> t
      | None \<Rightarrow> (case prefix_match (riter r) i of Some s \<Rightarrow> s | None \<Rightarrow> i))"

fun compact_type_value :: "reverse_order \<Rightarrow> (rstr, rstr) fmap \<Rightarrow> jvalue \<Rightarrow> jvalue" where
  "compact_type_value riter r (VArray vs) =
     (case map (\<lambda>s. VString (compact_iri riter r s)) (List.map_filter as_str vs) of
        [v] \<Rightarrow> v | ws \<Rightarrow> VArray ws)"
| "compact_type_value riter r (VString s) = VString (compact_iri riter r s)"
| "compact_type_value riter r v = v"

fun single :: "jvalue \<Rightarrow> jvalue" where
  "single (VArray [v]) = v"
| "single v = v"

fun compact_value :: "reverse_order \<Rightarrow> (rstr, rstr) fmap \<Rightarrow> jvalue \<Rightarrow> jvalue"
  and compact_values :: "reverse_order \<Rightarrow> (rstr, rstr) fmap \<Rightarrow> jvalue list \<Rightarrow> jvalue list"
  and compact_members :: "reverse_order \<Rightarrow> (rstr, rstr) fmap \<Rightarrow> jmap \<Rightarrow> jmap \<Rightarrow> jmap" where
  "compact_value riter r (VArray vs) = VArray (compact_values riter r vs)"
| "compact_value riter r (VObject m) =
     (if length m = 1 \<and> jm_get ''@value'' m \<noteq> None then the (jm_get ''@value'' m)
      else VObject (compact_members riter r m []))"
| "compact_value riter r v = v"
| "compact_values riter r [] = []"
| "compact_values riter r (v # vs) = compact_value riter r v # compact_values riter r vs"
| "compact_members riter r [] acc = acc"
| "compact_members riter r ((k, v) # m) acc =
     compact_members riter r m
       (jm_insert (if keyword k then k else compact_iri riter r k)
          (if k = lit ''@id'' then (case v of VString i \<Rightarrow> VString (compact_iri riter r i) | _ \<Rightarrow> v)
           else if k = lit ''@type'' then compact_type_value riter r v
           else single (compact_value riter r v)) acc)"

definition with_context :: "jvalue \<Rightarrow> jmap \<Rightarrow> jvalue" where
  "with_context c m = VObject (if c = VNull then m else jm_extend (jm_insert (lit ''@context'') c []) m)"

definition in_graph :: "jvalue \<Rightarrow> jvalue list \<Rightarrow> jvalue" where
  "in_graph c vs = VObject (jm_insert (lit ''@graph'') (VArray vs)
     (if c = VNull then [] else jm_insert (lit ''@context'') c []))"

fun compacted :: "jvalue \<Rightarrow> jvalue \<Rightarrow> jvalue" where
  "compacted c (VObject m) = with_context c m"
| "compacted c (VArray [VObject m]) = with_context c m"
| "compacted c (VArray vs) = in_graph c vs"
| "compacted c v = v"

definition lp_compact :: "term_order \<Rightarrow> reverse_order \<Rightarrow> jsonld_parser \<Rightarrow> jvalue \<Rightarrow> jvalue \<Rightarrow> jsonld_error + jvalue" where
  "lp_compact titer riter p expanded c =
     jl_then (context_resolve c (lp_base_iri p)) (\<lambda>rc.
       Inr (compacted c (compact_value riter (iri_to_term titer rc) expanded)))"

subsection \<open>Framing\<close>

definition type_matches :: "jvalue option \<Rightarrow> jmap \<Rightarrow> bool" where
  "type_matches wanted m =
     (case wanted of None \<Rightarrow> True
      | Some w \<Rightarrow>
          (case (w, jm_get ''@type'' m) of
             (VArray ws, Some (VArray vs)) \<Rightarrow> list_ex (\<lambda>w. w \<in> set vs) ws
           | (VString s, Some (VArray vs)) \<Rightarrow> list_ex (\<lambda>v. as_str v = Some s) vs
           | (VObject _, _) \<Rightarrow> True
           | _ \<Rightarrow> False))"

definition id_matches :: "jvalue option \<Rightarrow> jmap \<Rightarrow> bool" where
  "id_matches wanted m =
     (case wanted of None \<Rightarrow> True
      | Some (VString s) \<Rightarrow> member_str ''@id'' m = Some s
      | Some (VObject _) \<Rightarrow> True
      | Some _ \<Rightarrow> False)"

definition node_matches_frame :: "jvalue option \<Rightarrow> jvalue option \<Rightarrow> jvalue \<Rightarrow> bool" where
  "node_matches_frame wtype wid v =
     (case as_object v of None \<Rightarrow> False | Some m \<Rightarrow> type_matches wtype m \<and> id_matches wid m)"

definition match_frame :: "jvalue \<Rightarrow> jmap \<Rightarrow> jvalue" where
  "match_frame expanded frame =
     (let nodes = (case expanded of VArray vs \<Rightarrow> vs | _ \<Rightarrow> [expanded]) in
      case filter (node_matches_frame (jm_get ''@type'' frame) (jm_get ''@id'' frame)) nodes of
        [v] \<Rightarrow> v | vs \<Rightarrow> VArray vs)"

definition lp_frame :: "term_order \<Rightarrow> reverse_order \<Rightarrow> jsonld_parser \<Rightarrow> jvalue \<Rightarrow> jvalue \<Rightarrow> jsonld_error + jvalue" where
  "lp_frame titer riter p document frame =
     jl_then (lp_expand p document) (\<lambda>expanded.
       case as_object frame of
         None \<Rightarrow> Inl (FramingError (lit ''Frame must be an object''))
       | Some m \<Rightarrow>
           (case (case jm_get ''@context'' m of Some c \<Rightarrow> c | None \<Rightarrow> VNull) of
              VNull \<Rightarrow> Inr (match_frame expanded m)
            | c \<Rightarrow> lp_compact titer riter p (match_frame expanded m) c))"

end
