(* ===== verification/JsonLdRdf.thy ===== *)
theory JsonLdRdf
  imports JsonLd
begin

section \<open>JSON-LD: conversion to RDF (parser/src/rdf/jsonld/conversion.rs)\<close>

text \<open>
  The state of a conversion is its blank node scope, the map from the document's labels, and the
  quads pushed so far. An error ends the conversion; the state it leaves behind is left out.
  \<open>Iri::new\<close> of a constant of the RDF vocabulary is evaluated like any other.
\<close>

record jsonld_to_rdf =
  jr_scope :: bn_scope
  jr_map :: "(rstr, blank_node) fmap"
  jr_quads :: "quad list"

definition jr_new :: "u64 \<Rightarrow> jsonld_to_rdf \<times> u64" where
  "jr_new global = (case scope_generate global of (s, global) \<Rightarrow>
     (\<lparr>jr_scope = s, jr_map = fmempty, jr_quads = []\<rparr>, global))"

definition rdf_error :: "string \<Rightarrow> jsonld_error" where
  "rdf_error s = RdfConversionError (JlText (lit s))"

definition jr_iri :: "rstr \<Rightarrow> jsonld_error + iri" where
  "jr_iri s = map_sum (\<lambda>e. RdfConversionError (JlParser e)) id (iri_new s)"

definition rdf_name :: "string \<Rightarrow> rstr" where
  "rdf_name n = lit ''http://www.w3.org/1999/02/22-rdf-syntax-ns#'' @ lit n"

definition jr_push :: "subject \<Rightarrow> iri \<Rightarrow> object \<Rightarrow> jsonld_to_rdf \<Rightarrow> jsonld_to_rdf" where
  "jr_push s p ob x = x\<lparr>jr_quads := jr_quads x @ [quad_in_default_graph (triple_new s p ob)]\<rparr>"

definition jr_next :: "jsonld_to_rdf \<Rightarrow> blank_node \<times> jsonld_to_rdf" where
  "jr_next x = (case scope_next (jr_scope x) of (b, s) \<Rightarrow> (b, x\<lparr>jr_scope := s\<rparr>))"

definition jr_blank :: "rstr \<Rightarrow> jsonld_to_rdf \<Rightarrow> blank_node \<times> jsonld_to_rdf" where
  "jr_blank l x =
     (case fmlookup (jr_map x) l of Some b \<Rightarrow> (b, x)
      | None \<Rightarrow> let b = scope_map (jr_scope x) l in (b, x\<lparr>jr_map := fmupd l b (jr_map x)\<rparr>))"

text \<open>What an \<open>@id\<close> names: a blank node after \<open>_:\<close>, an IRI otherwise.\<close>

definition jr_named :: "(blank_node \<Rightarrow> 'a) \<Rightarrow> (iri \<Rightarrow> 'a) \<Rightarrow> rstr \<Rightarrow> jsonld_to_rdf \<Rightarrow> jsonld_error + 'a \<times> jsonld_to_rdf" where
  "jr_named blank named i x =
     (if prefix (lit ''_:'') i then (case jr_blank (drop 2 i) x of (b, x) \<Rightarrow> Inr (blank b, x))
      else jl_then (jr_iri i) (\<lambda>i. Inr (named i, x)))"

definition get_subject :: "jmap \<Rightarrow> jsonld_to_rdf \<Rightarrow> jsonld_error + subject \<times> jsonld_to_rdf" where
  "get_subject m x =
     (case jm_get ''@id'' m of
        Some v \<Rightarrow> (case as_str v of Some i \<Rightarrow> jr_named SubjBlank SubjIri i x
          | None \<Rightarrow> Inl (rdf_error ''@id must be a string''))
      | None \<Rightarrow> (case jr_next x of (b, x) \<Rightarrow> Inr (SubjBlank b, x)))"

fun type_triples :: "subject \<Rightarrow> iri \<Rightarrow> jvalue list \<Rightarrow> jsonld_to_rdf \<Rightarrow> jsonld_error + jsonld_to_rdf" where
  "type_triples s p [] x = Inr x"
| "type_triples s p (v # vs) x =
     (case as_str v of None \<Rightarrow> type_triples s p vs x
      | Some i \<Rightarrow> jl_then (jr_iri i) (\<lambda>i. type_triples s p vs (jr_push s p (ObjIri i) x)))"

definition process_types :: "subject \<Rightarrow> jvalue option \<Rightarrow> jsonld_to_rdf \<Rightarrow> jsonld_error + jsonld_to_rdf" where
  "process_types s types x =
     (case types of None \<Rightarrow> Inr x
      | Some v \<Rightarrow> jl_then (jr_iri (rdf_name ''type'')) (\<lambda>p.
          case v of VArray vs \<Rightarrow> type_triples s p vs x
          | VString i \<Rightarrow> jl_then (jr_iri i) (\<lambda>i. Inr (jr_push s p (ObjIri i) x))
          | _ \<Rightarrow> Inr x))"

text \<open>\<open>as i64\<close> reads a 64-bit word as a signed integer.\<close>

fun number_literal :: "jnumber \<Rightarrow> literal" where
  "number_literal (Float shown json) = literal_double shown"
| "number_literal (NegInt n) = literal_integer n"
| "number_literal (PosInt n) = literal_integer (sint n)"

fun number_text :: "jnumber \<Rightarrow> rstr" where
  "number_text (Float shown json) = json"
| "number_text (NegInt n) = show_int n"
| "number_text (PosInt n) = show_nat (unat n)"

fun value_text :: "jvalue \<Rightarrow> rstr option" where
  "value_text (VString s) = Some s"
| "value_text (VNumber n) = Some (number_text n)"
| "value_text (VBool b) = Some (if b then lit ''true'' else lit ''false'')"
| "value_text _ = None"

fun inferred_literal :: "jvalue \<Rightarrow> rstr \<Rightarrow> literal" where
  "inferred_literal (VNumber n) s = number_literal n"
| "inferred_literal (VBool b) s = literal_boolean b"
| "inferred_literal _ s = literal_new s"

definition jr_literal :: "parser_error + literal \<Rightarrow> jsonld_error + object" where
  "jr_literal r = map_sum (\<lambda>e. RdfConversionError (JlParser e)) ObjLiteral r"

definition value_object_to_literal :: "jmap \<Rightarrow> jsonld_error + object" where
  "value_object_to_literal m =
     (case jm_get ''@value'' m of
        None \<Rightarrow> Inl (rdf_error ''Value object missing @value'')
      | Some v \<Rightarrow>
          (case value_text v of
             None \<Rightarrow> Inl (rdf_error ''@value must be a string, number, or boolean'')
           | Some s \<Rightarrow>
               (case member_str ''@language'' m of
                  Some l \<Rightarrow> jr_literal (literal_with_language s l)
                | None \<Rightarrow>
                    (case member_str ''@type'' m of
                       Some d \<Rightarrow> jl_then (jr_iri d) (\<lambda>d. Inr (ObjLiteral (literal_with_datatype s d)))
                     | None \<Rightarrow> Inr (ObjLiteral (inferred_literal v s))))))"

fun subject_object :: "subject \<Rightarrow> object" where
  "subject_object (SubjIri i) = ObjIri i"
| "subject_object (SubjBlank b) = ObjBlank b"

definition push_object :: "subject \<Rightarrow> iri \<Rightarrow> object option \<times> jsonld_to_rdf \<Rightarrow> jsonld_to_rdf" where
  "push_object s p r = (case r of (Some ob, x) \<Rightarrow> jr_push s p ob x | (None, x) \<Rightarrow> x)"

definition invalid_predicate :: "rstr \<Rightarrow> jsonld_error + iri" where
  "invalid_predicate k = map_sum (\<lambda>e. RdfConversionError (JlPredicate k e)) id (iri_new k)"

definition link_previous :: "blank_node option \<Rightarrow> iri \<Rightarrow> blank_node \<Rightarrow> jsonld_to_rdf \<Rightarrow> jsonld_to_rdf" where
  "link_previous prev p b x = (case prev of Some a \<Rightarrow> jr_push (SubjBlank a) p (ObjBlank b) x | None \<Rightarrow> x)"

text \<open>The values of a property: the elements of an array, or the value itself.\<close>

fun property_items :: "jvalue \<Rightarrow> jvalue list" where
  "property_items (VArray vs) = vs"
| "property_items v = [v]"

lemma property_items_size: "size_list size (property_items v) \<le> Suc (size v)"
  by (cases v) simp_all

lemma size_member: "map_of m k = Some v \<Longrightarrow> size v < size_list (size_prod (\<lambda>_. 0) size) (m :: jmap)"
  by (induction m) (auto split: if_splits)

function (sequential) process_node :: "jvalue \<Rightarrow> jsonld_to_rdf \<Rightarrow> jsonld_error + subject option \<times> jsonld_to_rdf"
  and process_members :: "subject \<Rightarrow> jmap \<Rightarrow> jsonld_to_rdf \<Rightarrow> jsonld_error + jsonld_to_rdf"
  and process_values :: "subject \<Rightarrow> iri \<Rightarrow> jvalue list \<Rightarrow> jsonld_to_rdf \<Rightarrow> jsonld_error + jsonld_to_rdf"
  and value_to_object :: "jvalue \<Rightarrow> jsonld_to_rdf \<Rightarrow> jsonld_error + object option \<times> jsonld_to_rdf"
  and list_items :: "iri \<Rightarrow> iri \<Rightarrow> jvalue list \<Rightarrow> blank_node option \<Rightarrow> blank_node option \<Rightarrow> jsonld_to_rdf \<Rightarrow>
     jsonld_error + (blank_node option \<times> blank_node option) \<times> jsonld_to_rdf" where
  "process_node (VObject m) x =
     (if jm_get ''@value'' m \<noteq> None then Inr (None, x)
      else if jm_get ''@list'' m \<noteq> None then Inr (None, x)
      else jl_then (get_subject m x) (\<lambda>(s, x).
        jl_then (process_types s (jm_get ''@type'' m) x) (\<lambda>x.
          jl_then (process_members s m x) (\<lambda>x. Inr (Some s, x)))))"
| "process_node _ x = Inr (None, x)"
| "process_members s [] x = Inr x"
| "process_members s ((k, v) # m) x =
     (if keyword k then process_members s m x
      else jl_then (invalid_predicate k) (\<lambda>p.
        jl_then (process_values s p (property_items v) x) (process_members s m)))"
| "process_values s p [] x = Inr x"
| "process_values s p (v # vs) x =
     jl_then (value_to_object v x) (\<lambda>r. process_values s p vs (push_object s p r))"
| "value_to_object (VObject m) x =
     (if jm_get ''@value'' m \<noteq> None then
        jl_then (value_object_to_literal m) (\<lambda>ob. Inr (Some ob, x))
      else (case jm_get ''@id'' m of
        Some v \<Rightarrow> (case as_str v of
            Some i \<Rightarrow> jl_then (jr_named ObjBlank ObjIri i x) (\<lambda>(ob, x). Inr (Some ob, x))
          | None \<Rightarrow> Inl (rdf_error ''@id must be a string''))
      | None \<Rightarrow> (case map_of m (lit ''@list'') of
          Some v \<Rightarrow> (case v of
              VArray items \<Rightarrow>
                if items = [] then jl_then (jr_iri (rdf_name ''nil'')) (\<lambda>i. Inr (Some (ObjIri i), x))
                else jl_then (jr_iri (rdf_name ''first'')) (\<lambda>first.
                  jl_then (jr_iri (rdf_name ''rest'')) (\<lambda>rest.
                    jl_then (jr_iri (rdf_name ''nil'')) (\<lambda>nil.
                      jl_then (list_items first rest items None None x) (\<lambda>((head, prev), x).
                        Inr (map_option ObjBlank head,
                          case prev of Some b \<Rightarrow> jr_push (SubjBlank b) rest (ObjIri nil) x | None \<Rightarrow> x)))))
            | _ \<Rightarrow> Inl (rdf_error ''@list must be an array''))
        | None \<Rightarrow> jl_then (process_node (VObject m) x) (\<lambda>(s, x). Inr (map_option subject_object s, x)))))"
| "value_to_object (VString s) x = Inr (Some (ObjLiteral (literal_new s)), x)"
| "value_to_object (VNumber n) x = Inr (Some (ObjLiteral (number_literal n)), x)"
| "value_to_object (VBool b) x = Inr (Some (ObjLiteral (literal_boolean b)), x)"
| "value_to_object VNull x = Inr (None, x)"
| "value_to_object (VArray _) x = Inl (rdf_error ''Unexpected array in value position'')"
| "list_items first rest [] head prev x = Inr ((head, prev), x)"
| "list_items first rest (v # vs) head prev x =
     (case jr_next x of (b, x) \<Rightarrow>
        jl_then (value_to_object v (link_previous prev rest b x)) (\<lambda>r.
          list_items first rest vs (if head = None then Some b else head) (Some b)
            (push_object (SubjBlank b) first r)))"
  by pat_completeness auto

termination
  by (relation "measure (case_sum
      (case_sum (\<lambda>(v, x). 3 * size v) (\<lambda>(s, m, x). 3 * size_list (size_prod (\<lambda>_. 0) size) m))
      (case_sum (\<lambda>(s, p, vs, x). 3 * size_list size vs)
        (case_sum (\<lambda>(v, x). 3 * size v + 1) (\<lambda>(f, r, vs, h, p, x). 3 * size_list size vs))))")
    (auto dest!: size_member simp: le_imp_less_Suc property_items_size intro: le_less_trans [OF mult_le_mono2 [OF property_items_size]])

fun process_nodes :: "jvalue list \<Rightarrow> jsonld_to_rdf \<Rightarrow> jsonld_error + jsonld_to_rdf" where
  "process_nodes [] x = Inr x"
| "process_nodes (v # vs) x = jl_then (process_node v x) (\<lambda>(_, x). process_nodes vs x)"

definition jr_convert :: "jvalue \<Rightarrow> jsonld_to_rdf \<Rightarrow> jsonld_error + quad list \<times> jsonld_to_rdf" where
  "jr_convert expanded x =
     (let x = x\<lparr>jr_quads := []\<rparr> in
      jl_then (case expanded of
          VArray vs \<Rightarrow> process_nodes vs x
        | VObject m \<Rightarrow> process_nodes [VObject m] x
        | _ \<Rightarrow> Inl (rdf_error ''Expanded JSON-LD must be an array or object''))
        (\<lambda>x. Inr (jr_quads x, x)))"

definition jr_convert_to_triples :: "jvalue \<Rightarrow> jsonld_to_rdf \<Rightarrow> jsonld_error + triple list \<times> jsonld_to_rdf" where
  "jr_convert_to_triples expanded x = jl_then (jr_convert expanded x) (\<lambda>(qs, x). Inr (map q_triple qs, x))"

text \<open>\<open>to_rdf\<close> and \<open>to_rdf_quads\<close>, with the process-wide counter of generated scopes.\<close>

definition lp_to_rdf_quads :: "jsonld_parser \<Rightarrow> jvalue \<Rightarrow> u64 \<Rightarrow> (jsonld_error + quad list) \<times> u64" where
  "lp_to_rdf_quads p d global =
     (case lp_expand p d of Inl e \<Rightarrow> (Inl e, global)
      | Inr v \<Rightarrow> (case jr_new global of (x, global) \<Rightarrow> (map_sum id fst (jr_convert v x), global)))"

definition lp_to_rdf :: "jsonld_parser \<Rightarrow> jvalue \<Rightarrow> u64 \<Rightarrow> (jsonld_error + triple list) \<times> u64" where
  "lp_to_rdf p d global =
     (case lp_expand p d of Inl e \<Rightarrow> (Inl e, global)
      | Inr v \<Rightarrow> (case jr_new global of (x, global) \<Rightarrow> (map_sum id fst (jr_convert_to_triples v x), global)))"

end
