(* ===== verification/JsonLdWriter.thy ===== *)
theory JsonLdWriter
  imports Serializer
begin

section \<open>The JSON-LD serializer (parser/src/rdf/serializer/jsonld.rs)\<close>

text \<open>
  The serializer collects nodes by subject and graph and writes one document at the end. The
  nodes and properties are written in the order of their keys; the orders in which the prefixes
  are searched and the named graphs written are arguments. Writers that fail are left out.
\<close>

datatype jl_value = JlId rstr | JlLiteral rstr "rstr option" "rstr option"   \<comment> \<open>value, datatype, language\<close>

record jl_node =
  jn_id :: "rstr option"
  jn_types :: "rstr list"
  jn_properties :: "(rstr, jl_value list) fmap"

type_synonym jl_nodes = "(rstr, jl_node) fmap"
type_synonym graph_order = "(rstr, jl_nodes) fmap \<Rightarrow> (rstr \<times> jl_nodes) list"

record jsonld_ser =
  js_prefixes :: prefix_table
  js_use_context :: bool
  js_nodes :: jl_nodes
  js_named_graphs :: "(rstr, jl_nodes) fmap"
  js_pretty :: bool

definition js_new :: jsonld_ser where
  "js_new = \<lparr>js_prefixes = fmempty, js_use_context = True, js_nodes = fmempty, js_named_graphs = fmempty, js_pretty = True\<rparr>"

definition js_expanded :: jsonld_ser where
  "js_expanded = \<lparr>js_prefixes = fmempty, js_use_context = False, js_nodes = fmempty, js_named_graphs = fmempty, js_pretty = True\<rparr>"

definition js_set_pretty :: "bool \<Rightarrow> jsonld_ser \<Rightarrow> jsonld_ser" where
  "js_set_pretty b w = w\<lparr>js_pretty := b\<rparr>"

definition js_add_prefix :: "rstr \<Rightarrow> rstr \<Rightarrow> jsonld_ser \<Rightarrow> jsonld_ser" where
  "js_add_prefix p i w = w\<lparr>js_prefixes := fmupd p i (js_prefixes w)\<rparr>"

definition js_clear :: "jsonld_ser \<Rightarrow> jsonld_ser" where
  "js_clear w = w\<lparr>js_nodes := fmempty, js_named_graphs := fmempty\<rparr>"

subsection \<open>Collecting\<close>

fun subject_to_id :: "subject \<Rightarrow> rstr" where
  "subject_to_id (SubjIri i) = iri_value i"
| "subject_to_id (SubjBlank b) = lit ''_:'' @ bn_label b"

fun graph_name_to_id :: "graph_name \<Rightarrow> rstr" where
  "graph_name_to_id (GraphIri i) = iri_value i"
| "graph_name_to_id (GraphBlank b) = lit ''_:'' @ bn_label b"

fun object_to_value :: "object \<Rightarrow> jl_value" where
  "object_to_value (ObjIri i) = JlId (iri_value i)"
| "object_to_value (ObjBlank b) = JlId (lit ''_:'' @ bn_label b)"
| "object_to_value (ObjLiteral l) = JlLiteral (lit_value l) (map_option iri_value (lit_datatype l)) (lit_language l)"

text \<open>\<open>get_or_create_node\<close> with the change that is made to the node it returns.\<close>

definition change_node :: "rstr \<Rightarrow> (jl_node \<Rightarrow> jl_node) \<Rightarrow> jl_nodes \<Rightarrow> jl_nodes" where
  "change_node i f nodes = fmupd i (f (case fmlookup nodes i of Some n \<Rightarrow> n
     | None \<Rightarrow> \<lparr>jn_id = Some i, jn_types = [], jn_properties = fmempty\<rparr>)) nodes"

definition js_change :: "subject \<Rightarrow> graph_name option \<Rightarrow> (jl_node \<Rightarrow> jl_node) \<Rightarrow> jsonld_ser \<Rightarrow> jsonld_ser" where
  "js_change s g f w =
     (case g of
        None \<Rightarrow> w\<lparr>js_nodes := change_node (subject_to_id s) f (js_nodes w)\<rparr>
      | Some g \<Rightarrow> let nodes = (case fmlookup (js_named_graphs w) (graph_name_to_id g) of Some n \<Rightarrow> n | None \<Rightarrow> fmempty)
          in w\<lparr>js_named_graphs := fmupd (graph_name_to_id g) (change_node (subject_to_id s) f nodes) (js_named_graphs w)\<rparr>)"

definition RDF_TYPE_TEXT :: rstr where
  "RDF_TYPE_TEXT = lit ''http://www.w3.org/1999/02/22-rdf-syntax-ns#type''"

definition node_add_type :: "rstr \<Rightarrow> jl_node \<Rightarrow> jl_node" where
  "node_add_type i n = n\<lparr>jn_types := jn_types n @ [i]\<rparr>"

definition node_add_property :: "rstr \<Rightarrow> jl_value \<Rightarrow> jl_node \<Rightarrow> jl_node" where
  "node_add_property p v n = n\<lparr>jn_properties := fmupd p
     ((case fmlookup (jn_properties n) p of Some vs \<Rightarrow> vs | None \<Rightarrow> []) @ [v]) (jn_properties n)\<rparr>"

definition node_change :: "triple \<Rightarrow> jl_node \<Rightarrow> jl_node" where
  "node_change t =
     (case (iri_value (t_predicate t) = RDF_TYPE_TEXT, t_object t) of
        (True, ObjIri i) \<Rightarrow> node_add_type (iri_value i)
      | _ \<Rightarrow> node_add_property (iri_value (t_predicate t)) (object_to_value (t_object t)))"

definition js_triple :: "triple \<Rightarrow> jsonld_ser \<Rightarrow> jsonld_ser" where
  "js_triple t w = js_change (t_subject t) None (node_change t) w"

definition js_quad :: "quad \<Rightarrow> jsonld_ser \<Rightarrow> jsonld_ser" where
  "js_quad q w = js_change (t_subject (q_triple q)) (q_graph q) (node_change (q_triple q)) w"

subsection \<open>Writing\<close>

fun js_compact_with :: "'f rust_std \<Rightarrow> (rstr \<times> rstr) list \<Rightarrow> rstr \<Rightarrow> rstr" where
  "js_compact_with S [] i = i"
| "js_compact_with S ((p, n) # ps) i =
     (if prefix n i \<and> is_valid_local_name S (drop (length n) i) then p @ [c_colon] @ drop (length n) i
      else js_compact_with S ps i)"

definition js_compact_iri :: "'f rust_std \<Rightarrow> prefix_order \<Rightarrow> jsonld_ser \<Rightarrow> rstr \<Rightarrow> rstr" where
  "js_compact_iri S iter w i = (if \<not> js_use_context w then i else js_compact_with S (iter (js_prefixes w)) i)"

definition dquoted :: "rstr \<Rightarrow> rstr" where
  "dquoted s = [c_dquote] @ s @ [c_dquote]"

fun js_value :: "'f rust_std \<Rightarrow> prefix_order \<Rightarrow> jsonld_ser \<Rightarrow> jl_value \<Rightarrow> rstr" where
  "js_value S iter w (JlId i) =
     (let c = js_compact_iri S iter w i in
      if c = i then [123] @ dquoted (lit ''@id'') @ lit '': '' @ dquoted (escape_json_string i) @ [125]
      else [123] @ dquoted (lit ''@id'') @ lit '': '' @ dquoted (escape_json_string c) @ [125])"
| "js_value S iter w (JlLiteral v dt lang) =
     (if lang \<noteq> None \<or> dt \<noteq> None then
        [123] @ dquoted (lit ''@value'') @ lit '': '' @ dquoted (escape_json_string v) @
        (case lang of
           Some l \<Rightarrow> lit '', '' @ dquoted (lit ''@language'') @ lit '': '' @ dquoted l
         | None \<Rightarrow> (case dt of
             Some d \<Rightarrow> if d \<noteq> xsd_string_iri then lit '', '' @ dquoted (lit ''@type'') @ lit '': '' @ dquoted (js_compact_iri S iter w d) else []
           | None \<Rightarrow> [])) @ [125]
      else dquoted (escape_json_string v))"

definition js_newline :: "jsonld_ser \<Rightarrow> rstr" where
  "js_newline w = (if js_pretty w then [c_nl] else [])"

definition js_indent :: "jsonld_ser \<Rightarrow> rstr" where
  "js_indent w = (if js_pretty w then lit ''  '' else [])"

text \<open>A text that is written after a comma unless it is the first.\<close>

definition after_first :: "bool \<Rightarrow> rstr \<Rightarrow> rstr" where
  "after_first first t = (if first then [] else [c_comma]) @ t"

definition js_types :: "'f rust_std \<Rightarrow> prefix_order \<Rightarrow> jsonld_ser \<Rightarrow> rstr list \<Rightarrow> rstr" where
  "js_types S iter w ts =
     (let q = (\<lambda>t. dquoted (js_compact_iri S iter w t)) in
      case ts of [t] \<Rightarrow> q t | _ \<Rightarrow> [c_lbracket] @ join (lit '', '') (map q ts) @ [c_rbracket])"

definition js_property :: "'f rust_std \<Rightarrow> prefix_order \<Rightarrow> jsonld_ser \<Rightarrow> rstr \<Rightarrow> rstr \<times> jl_value list \<Rightarrow> rstr" where
  "js_property S iter w inner = (\<lambda>(p, vs).
     js_newline w @ inner @ dquoted (escape_json_string (js_compact_iri S iter w p)) @ [c_colon] @
     (case vs of [v] \<Rightarrow> [c_space] @ js_value S iter w v
      | _ \<Rightarrow> lit '' ['' @ join [c_comma] (map (\<lambda>v. [c_space] @ js_value S iter w v) vs) @ lit '' ]''))"

fun js_properties :: "'f rust_std \<Rightarrow> prefix_order \<Rightarrow> jsonld_ser \<Rightarrow> rstr \<Rightarrow> (rstr \<times> jl_value list) list \<Rightarrow> bool \<Rightarrow> rstr" where
  "js_properties S iter w inner [] first = []"
| "js_properties S iter w inner (p # ps) first =
     after_first first (js_property S iter w inner p) @ js_properties S iter w inner ps False"

definition js_node :: "'f rust_std \<Rightarrow> prefix_order \<Rightarrow> jsonld_ser \<Rightarrow> rstr \<Rightarrow> bool \<Rightarrow> jl_node \<Rightarrow> rstr" where
  "js_node S iter w indent include_id n =
     (let inner = indent @ js_indent w;
          idt = (case (include_id, jn_id n) of
             (True, Some i) \<Rightarrow> js_newline w @ inner @ dquoted (lit ''@id'') @ lit '': '' @ dquoted (escape_json_string i)
           | _ \<Rightarrow> []);
          first = (\<not> include_id \<or> jn_id n = None);
          types = (if jn_types n = [] then [] else
             after_first first (js_newline w @ inner @ dquoted (lit ''@type'') @ lit '': '' @ js_types S iter w (jn_types n)))
      in idt @ types @ js_properties S iter w inner (key_order (jn_properties n)) (first \<and> jn_types n = []))"

fun js_nodes_text :: "'f rust_std \<Rightarrow> prefix_order \<Rightarrow> jsonld_ser \<Rightarrow> rstr \<Rightarrow> (rstr \<times> jl_node) list \<Rightarrow> bool \<Rightarrow> rstr" where
  "js_nodes_text S iter w indent [] first = []"
| "js_nodes_text S iter w indent ((k, n) # ns) first =
     after_first first (js_newline w @ indent @ [123] @ js_node S iter w indent True n @ js_newline w @ indent @ [125]) @
     js_nodes_text S iter w indent ns False"

definition js_nodes_array :: "'f rust_std \<Rightarrow> prefix_order \<Rightarrow> jsonld_ser \<Rightarrow> jl_nodes \<Rightarrow> rstr \<Rightarrow> bool \<Rightarrow> rstr" where
  "js_nodes_array S iter w nodes indent skip = js_nodes_text S iter w indent (key_order nodes) skip"

definition has_context :: "jsonld_ser \<Rightarrow> bool" where
  "has_context w \<longleftrightarrow> js_use_context w \<and> js_prefixes w \<noteq> fmempty"

definition js_context :: "jsonld_ser \<Rightarrow> rstr" where
  "js_context w =
     (if has_context w then
        js_newline w @ js_indent w @ dquoted (lit ''@context'') @ lit '': {'' @
        join [c_comma] (map (\<lambda>(p, i). js_newline w @ js_indent w @ js_indent w @ dquoted p @ [c_colon] @ [c_space] @ dquoted i)
          (key_order (js_prefixes w))) @
        js_newline w @ js_indent w @ [125]
      else [])"

definition js_named_graph :: "'f rust_std \<Rightarrow> prefix_order \<Rightarrow> jsonld_ser \<Rightarrow> rstr \<times> jl_nodes \<Rightarrow> rstr" where
  "js_named_graph S iter w = (\<lambda>(g, nodes). let nl = js_newline w; ind = js_indent w in
     [c_comma] @ nl @ ind @ [123] @
     nl @ ind @ ind @ dquoted (lit ''@id'') @ lit '': '' @ dquoted g @ [c_comma] @
     nl @ ind @ ind @ dquoted (lit ''@graph'') @ lit '': ['' @
     js_nodes_array S iter w nodes (ind @ ind) True @
     nl @ ind @ ind @ [c_rbracket] @
     nl @ ind @ [125])"

definition js_body :: "'f rust_std \<Rightarrow> prefix_order \<Rightarrow> graph_order \<Rightarrow> jsonld_ser \<Rightarrow> rstr" where
  "js_body S iter giter w =
     (let nl = js_newline w; ind = js_indent w;
          comma = (if has_context w then [c_comma] else []) in
      if js_named_graphs w \<noteq> fmempty then
        comma @ nl @ ind @ dquoted (lit ''@graph'') @ lit '': ['' @
        js_nodes_array S iter w (js_nodes w) ind True @
        concat (map (js_named_graph S iter w) (giter (js_named_graphs w))) @
        nl @ ind @ [c_rbracket]
      else (case key_order (js_nodes w) of
          [] \<Rightarrow> []
        | [(k, n)] \<Rightarrow> comma @ js_node S iter w ind True n
        | _ \<Rightarrow> comma @ nl @ ind @ dquoted (lit ''@graph'') @ lit '': ['' @
            js_nodes_array S iter w (js_nodes w) ind True @ nl @ ind @ [c_rbracket]))"

definition js_output :: "'f rust_std \<Rightarrow> prefix_order \<Rightarrow> graph_order \<Rightarrow> jsonld_ser \<Rightarrow> rstr" where
  "js_output S iter giter w =
     [123] @ js_context w @ js_body S iter giter w @ js_newline w @ [125] @ js_newline w"

end
