(* ===== verification/JsonLdFacts.thy ===== *)
theory JsonLdFacts
  imports JsonLdCompact JsonLdRdf JsonLdWriter TurtleSafety
begin

section \<open>What JSON-LD documents become\<close>

text \<open>
  Every triple of a document is valid and its blank nodes belong to the document's own scope;
  expanding an expanded document changes nothing; node objects written from triples are
  read back as these triples. The last lemmas show what a document loses: the content of
  \<open>@graph\<close>, datatypes, arrays of strings, prefixes declared after their use in alphabetical order.
\<close>

subsection \<open>Valid triples in the document's scope\<close>

definition scoped :: "rstr \<Rightarrow> blank_node \<Rightarrow> bool" where
  "scoped g b \<longleftrightarrow> prefix (g @ [c_underscore]) (bn_label b)"

fun scoped_subject :: "rstr \<Rightarrow> subject \<Rightarrow> bool" where
  "scoped_subject g (SubjIri i) = valid_iri i"
| "scoped_subject g (SubjBlank b) = scoped g b"

fun scoped_object :: "rstr \<Rightarrow> object \<Rightarrow> bool" where
  "scoped_object g (ObjIri i) = valid_iri i"
| "scoped_object g (ObjBlank b) = scoped g b"
| "scoped_object g (ObjLiteral l) = valid_literal l"

definition scoped_quad :: "rstr \<Rightarrow> quad \<Rightarrow> bool" where
  "scoped_quad g q \<longleftrightarrow> q_graph q = None \<and> scoped_subject g (t_subject (q_triple q)) \<and>
     valid_iri (t_predicate (q_triple q)) \<and> scoped_object g (t_object (q_triple q))"

definition jr_ok :: "rstr \<Rightarrow> jsonld_to_rdf \<Rightarrow> bool" where
  "jr_ok g x \<longleftrightarrow> scope_prefix (jr_scope x) = g \<and> (\<forall>l b. fmlookup (jr_map x) l = Some b \<longrightarrow> scoped g b) \<and>
     list_all (scoped_quad g) (jr_quads x)"

lemma jr_push_ok [simp]:
  "jr_ok g x \<Longrightarrow> scoped_subject g s \<Longrightarrow> valid_iri p \<Longrightarrow> scoped_object g ob \<Longrightarrow> jr_ok g (jr_push s p ob x)"
  by (simp add: jr_ok_def jr_push_def scoped_quad_def quad_in_default_graph_def quad_new_def triple_new_def)

lemma jr_next_ok: "jr_next x = (b, y) \<Longrightarrow> jr_ok g x \<Longrightarrow> scoped g b \<and> jr_ok g y"
  by (auto simp: jr_next_def jr_ok_def scope_next_def scoped_def bn_new_def str_simps)

lemma jr_blank_ok: "jr_blank l x = (b, y) \<Longrightarrow> jr_ok g x \<Longrightarrow> scoped g b \<and> jr_ok g y"
  by (auto simp: jr_blank_def jr_ok_def scope_map_def scoped_def bn_new_def Let_def str_simps split: option.splits if_splits)

lemma jr_iri_valid: "jr_iri s = Inr i \<Longrightarrow> valid_iri i"
  by (cases "iri_new s") (auto simp: jr_iri_def iri_new_is_valid)

lemma invalid_predicate_valid: "invalid_predicate k = Inr i \<Longrightarrow> valid_iri i"
  by (cases "iri_new k") (auto simp: invalid_predicate_def iri_new_is_valid)

lemma get_subject_ok: "get_subject m x = Inr (s, y) \<Longrightarrow> jr_ok g x \<Longrightarrow> scoped_subject g s \<and> jr_ok g y"
  by (auto simp: get_subject_def jr_named_def split: option.splits if_splits prod.splits
      dest: jr_next_ok jr_blank_ok jr_iri_valid)

lemma type_triples_ok:
  "type_triples s p vs x = Inr y \<Longrightarrow> jr_ok g x \<Longrightarrow> scoped_subject g s \<Longrightarrow> valid_iri p \<Longrightarrow> jr_ok g y"
  by (induction vs arbitrary: x) (auto split: option.splits dest: jr_iri_valid)

lemma process_types_ok:
  "process_types s types x = Inr y \<Longrightarrow> jr_ok g x \<Longrightarrow> scoped_subject g s \<Longrightarrow> jr_ok g y"
  by (cases types; cases "the types")
    (auto simp: process_types_def dest!: jr_iri_valid intro: type_triples_ok)

lemma number_literal_valid: "valid_literal (number_literal n)"
  by (cases n) (simp_all add: valid)

lemma value_literal_ok: "value_object_to_literal m = Inr ob \<Longrightarrow> scoped_object g ob"
proof -
  have inferred: "valid_literal (inferred_literal v s)" for v s
    by (cases v) (simp_all add: valid number_literal_valid)
  have "scoped_object g ob" if "jr_literal (literal_with_language s l) = Inr ob" for s l
    using that by (cases "literal_with_language s l") (auto simp: jr_literal_def dest: valid_language)
  then show "value_object_to_literal m = Inr ob \<Longrightarrow> scoped_object g ob"
    by (auto simp: value_object_to_literal_def valid inferred split: option.splits dest!: jr_iri_valid)
qed

definition opt_all :: "('a \<Rightarrow> bool) \<Rightarrow> 'a option \<Rightarrow> bool" where
  "opt_all P r \<longleftrightarrow> (case r of None \<Rightarrow> True | Some x \<Rightarrow> P x)"

lemma opt_all_simps [simp]: "opt_all P None" "opt_all P (Some x) = P x"
  "opt_all (scoped_object g) (map_option subject_object s) = opt_all (scoped_subject g) s"
  "opt_all (scoped_object g) (map_option ObjBlank b) = opt_all (scoped g) b"
proof -
  have "scoped_object g (subject_object t) = scoped_subject g t" for t by (cases t) simp_all
  then show "opt_all (scoped_object g) (map_option subject_object s) = opt_all (scoped_subject g) s"
    "opt_all (scoped_object g) (map_option ObjBlank b) = opt_all (scoped g) b"
    by (simp_all add: opt_all_def split: option.split)
qed (simp_all add: opt_all_def)

lemma push_object_ok:
  "jr_ok g (snd r) \<Longrightarrow> opt_all (scoped_object g) (fst r) \<Longrightarrow> scoped_subject g s \<Longrightarrow> valid_iri p \<Longrightarrow>
    jr_ok g (push_object s p r)"
  by (auto simp: push_object_def split: prod.split option.split)

lemma link_previous_ok:
  "jr_ok g x \<Longrightarrow> opt_all (scoped g) prev \<Longrightarrow> scoped g b \<Longrightarrow> valid_iri p \<Longrightarrow> jr_ok g (link_previous prev p b x)"
  by (cases prev) (simp_all add: link_previous_def)

lemma process_ok:
  "process_node v x = Inr r1 \<Longrightarrow> jr_ok g x \<Longrightarrow> opt_all (scoped_subject g) (fst r1) \<and> jr_ok g (snd r1)"
  "process_members s m x = Inr y2 \<Longrightarrow> jr_ok g x \<Longrightarrow> scoped_subject g s \<Longrightarrow> jr_ok g y2"
  "process_values s p vs x = Inr y3 \<Longrightarrow> jr_ok g x \<Longrightarrow> scoped_subject g s \<Longrightarrow> valid_iri p \<Longrightarrow> jr_ok g y3"
  "value_to_object v x = Inr r4 \<Longrightarrow> jr_ok g x \<Longrightarrow> opt_all (scoped_object g) (fst r4) \<and> jr_ok g (snd r4)"
  "list_items first rest vs head prev x = Inr r5 \<Longrightarrow> jr_ok g x \<Longrightarrow> valid_iri first \<Longrightarrow> valid_iri rest \<Longrightarrow>
     opt_all (scoped g) head \<Longrightarrow> opt_all (scoped g) prev \<Longrightarrow>
     opt_all (scoped g) (fst (fst r5)) \<and> opt_all (scoped g) (snd (fst r5)) \<and> jr_ok g (snd r5)"
proof (induction v x and s m x and s p vs x and v x and first rest vs head prev x
    arbitrary: r1 and y2 and y3 and r4 and r5
    rule: process_node_process_members_process_values_value_to_object_list_items.induct)
  case (1 m x)
  then show ?case
    by (auto split: if_splits dest!: get_subject_ok process_types_ok)
next
  case (4 s k v m x)
  then show ?case by (auto split: if_splits dest!: invalid_predicate_valid)
next
  case (6 s p v vs x)
  then show ?case using push_object_ok by auto
next
  case (7 m x)
  show ?case
  proof (cases "jm_get ''@value'' m")
    case (Some v)
    then show ?thesis using "7.prems" by (auto dest: value_literal_ok)
  next
    case noval: None
    show ?thesis
    proof (cases "jm_get ''@id'' m")
      case (Some v)
      then show ?thesis
        using noval "7.prems" by (auto simp: jr_named_def split: option.splits if_splits prod.splits dest: jr_blank_ok jr_iri_valid)
    next
      case noid: None
      show ?thesis
      proof (cases "map_of m (lit ''@list'')")
        case None
        then show ?thesis using noval noid "7.prems" "7.IH"(1) by auto
      next
        case (Some v)
        then show ?thesis
          using noval noid "7.prems" "7.IH"(2) [OF _ _ Some]
          by (cases v) (fastforce split: if_splits option.splits dest!: jr_iri_valid)+
      qed
    qed
  qed
next
  case (14 first rest v vs head prev x)
  obtain b y where b: "jr_next x = (b, y)" by (cases "jr_next x")
  with "14.prems" have y: "scoped g b" "jr_ok g y" by (auto dest: jr_next_ok)
  with "14.prems" have link: "jr_ok g (link_previous prev rest b y)" by (simp add: link_previous_ok)
  obtain r where r: "value_to_object v (link_previous prev rest b y) = Inr r"
    "list_items first rest vs (if head = None then Some b else head) (Some b) (push_object (SubjBlank b) first r) = Inr r5"
    using "14.prems"(1) b by auto
  have "jr_ok g (push_object (SubjBlank b) first r)"
    using "14.IH"(1) [OF b [symmetric] r(1) link] y "14.prems" by (simp add: push_object_ok)
  from "14.IH"(2) [OF b [symmetric] r(2) this] "14.prems" y show ?case by auto
qed (auto simp: valid number_literal_valid)

lemma process_nodes_ok: "process_nodes vs x = Inr y \<Longrightarrow> jr_ok g x \<Longrightarrow> jr_ok g y"
  by (induction vs arbitrary: x) (auto dest!: process_ok(1))

lemma jr_convert_ok: "jr_convert v x = Inr (qs, y) \<Longrightarrow> jr_ok g x \<Longrightarrow> list_all (scoped_quad g) qs \<and> jr_ok g y"
proof -
  assume run: "jr_convert v x = Inr (qs, y)" and "jr_ok g x"
  then have "jr_ok g (x\<lparr>jr_quads := []\<rparr>)" by (simp add: jr_ok_def)
  moreover obtain vs where "process_nodes vs (x\<lparr>jr_quads := []\<rparr>) = Inr y" "qs = jr_quads y"
    using run by (auto simp: jr_convert_def Let_def simp del: process_nodes.simps split: jvalue.splits)
  ultimately have "jr_ok g y" "qs = jr_quads y" by (auto dest: process_nodes_ok)
  then show ?thesis by (simp add: jr_ok_def)
qed

text \<open>C28: Whatever document is converted, every quad of the answer is in the default graph, every
  IRI and language tag in it has passed the validation of its constructor, and every blank node
  belongs to the scope that was generated for the document.\<close>

theorem to_rdf_valid:
  assumes "lp_to_rdf_quads p d n = (Inr qs, n')"
  shows "list_all (scoped_quad (scope_prefix (fst (scope_generate n)))) qs \<and> n' = n + 1"
proof -
  obtain v where v: "lp_expand p d = Inr v"
    using assms by (cases "lp_expand p d") (simp_all add: lp_to_rdf_quads_def)
  then obtain x where x: "jr_new n = (x, n')" "map_sum id fst (jr_convert v x) = Inr qs"
    using assms by (auto simp: lp_to_rdf_quads_def split: prod.splits)
  then obtain y where y: "jr_convert v x = Inr (qs, y)" by (cases "jr_convert v x") auto
  have "jr_ok (scope_prefix (fst (scope_generate n))) x" "n' = n + 1"
    using x(1) by (auto simp: jr_new_def jr_ok_def scope_generate_def)
  with jr_convert_ok [OF y] show ?thesis by blast
qed

subsection \<open>Expansion is idempotent\<close>

fun type_value :: "jvalue \<Rightarrow> bool" where
  "type_value (VString s) = False"
| "type_value (VArray vs) = list_all (\<lambda>v. as_str v \<noteq> None) vs"
| "type_value _ = True"

text \<open>The form of an expanded value, and of the expanded value of a property.\<close>

fun expanded :: "jvalue \<Rightarrow> bool"
  and expanded_all :: "jvalue list \<Rightarrow> bool"
  and expanded_members :: "jmap \<Rightarrow> bool"
  and expanded_property :: "jvalue \<Rightarrow> bool"
  and expanded_properties :: "jvalue list \<Rightarrow> bool" where
  "expanded (VArray vs) = expanded_all vs"
| "expanded (VObject m) = (m \<noteq> [] \<and> sorted_wrt (<) (map fst m) \<and> expanded_members m)"
| "expanded _ = True"
| "expanded_all [] = True"
| "expanded_all (v # vs) = (expanded v \<and> expanded_all vs)"
| "expanded_members [] = True"
| "expanded_members ((k, v) # m) =
     ((k = lit ''@id'' \<or> k = lit ''@type'' \<and> type_value v \<or> k \<in> set nested_keywords \<and> expanded v \<or>
       v \<noteq> VNull \<and> expanded_property v) \<and> expanded_members m)"
| "expanded_property (VArray vs) = expanded_properties vs"
| "expanded_property (VObject m) = (m \<noteq> [] \<and> sorted_wrt (<) (map fst m) \<and> expanded_members m)"
| "expanded_property v = (v = VNull)"
| "expanded_properties [] = True"
| "expanded_properties (v # vs) = (expanded_property v \<and> expanded_properties vs)"

text \<open>No key is \<open>@context\<close>, and every \<open>@type\<close> is the expansion of a type, as it is
  unless a context declares a term for a keyword.\<close>

fun no_alias :: "jvalue \<Rightarrow> bool" where
  "no_alias (VArray vs) = list_all no_alias vs"
| "no_alias (VObject m) = list_all (\<lambda>(k, v). k \<noteq> lit ''@context'' \<and> (k = lit ''@type'' \<longrightarrow> type_value v) \<and> no_alias v) m"
| "no_alias _ = True"

lemma map_of_insert: "map_of (jm_insert k v m) = (map_of m)(k \<mapsto> v)"
  by (induction k v m rule: jm_insert.induct) (auto simp: fun_eq_iff)

lemma keys_insert: "set (map fst (jm_insert k v m)) = insert k (set (map fst m))"
  by (induction k v m rule: jm_insert.induct) auto

lemma sorted_insert: "sorted_wrt (<) (map fst m) \<Longrightarrow> sorted_wrt (<) (map fst (jm_insert k v m))"
proof (induction k v m rule: jm_insert.induct)
  case (2 k v l w m)
  have "\<forall>x \<in> set (map fst (jm_insert k v m)). l < x" if "l < k"
    using "2.prems" that by (simp only: keys_insert) auto
  with 2 show ?case by auto
qed simp

lemma insert_last: "\<forall>l \<in> set (map fst m). l < k \<Longrightarrow> jm_insert k v m = m @ [(k, v)]"
  by (induction k v m rule: jm_insert.induct) auto

lemma expanded_members_insert:
  "expanded_members m \<Longrightarrow> expanded_members [(k, v)] \<Longrightarrow> expanded_members (jm_insert k v m)"
  by (induction k v m rule: jm_insert.induct) auto

lemma expanded_property_expanded:
  "expanded v \<Longrightarrow> True" "expanded_all vs \<Longrightarrow> True" "expanded_members m \<Longrightarrow> True"
  "expanded_property v \<Longrightarrow> expanded v"
  "expanded_properties vs \<Longrightarrow> expanded_all vs"
  by (induction v and vs and m and v and vs
      rule: expanded_expanded_all_expanded_members_expanded_property_expanded_properties.induct) auto

lemma no_context_terms [simp]: "expand_term rc_default t = t" "expand_iri rc_default i = i"
  by (simp_all add: expand_term_def expand_iri_def rc_default_def split: option.split)

lemma no_context_types: "type_value v \<Longrightarrow> expand_type_value rc_default v = v"
proof (cases v)
  case (VArray vs)
  moreover have "list_all (\<lambda>v. as_str v \<noteq> None) vs \<Longrightarrow> map VString (List.map_filter as_str vs) = vs"
  proof (induction vs)
    case (Cons v vs)
    then show ?case by (cases v) (simp_all add: map_filter_simps)
  qed (simp add: map_filter_simps)
  ultimately show "type_value v \<Longrightarrow> expand_type_value rc_default v = v" by simp
qed simp_all

abbreviation "member_no_alias \<equiv> \<lambda>(k, v). k \<noteq> lit ''@context'' \<and> (k = lit ''@type'' \<longrightarrow> type_value v) \<and> no_alias v"

lemma no_local_context: "list_all member_no_alias m \<Longrightarrow> local_context m c = Inr c"
proof -
  assume "list_all member_no_alias m"
  then have "jm_get ''@context'' m = None" by (auto simp: jm_get_def list_all_iff map_of_eq_None_iff)
  then show ?thesis by (simp add: local_context_def)
qed

lemma expanded_fixed:
  "expanded v \<Longrightarrow> no_alias v \<Longrightarrow> expand_value rc_default v = Inr v"
  "expanded_all vs \<Longrightarrow> list_all no_alias vs \<Longrightarrow> expand_values rc_default vs = Inr vs"
  "expanded_members m \<Longrightarrow> list_all member_no_alias m \<Longrightarrow> sorted_wrt (<) (map fst (r @ m)) \<Longrightarrow>
     expand_members rc_default m r = Inr (r @ m)"
  "expanded_property v \<Longrightarrow> no_alias v \<Longrightarrow> expand_property_value rc_default k v = Inr v"
  "expanded_properties vs \<Longrightarrow> list_all no_alias vs \<Longrightarrow> expand_property_values rc_default k vs = Inr vs"
proof (induction v and vs and m and v and vs arbitrary: and and r and k and k
    rule: expanded_expanded_all_expanded_members_expanded_property_expanded_properties.induct)
  case (2 m)
  then show ?case using "2.IH" [of "[]"] by (simp add: no_local_context object_value_def)
next
  case (7 k v m)
  have last: "jm_insert k w r = r @ [(k, w)]" for w
    using "7.prems"(3) by (intro insert_last) (auto simp: sorted_wrt_append)
  have rest: "expand_members rc_default m (r @ [(k, v)]) = Inr (r @ (k, v) # m)"
    using "7.IH" "7.prems" by simp
  have "k \<noteq> lit ''@context''" "no_alias v" "k = lit ''@type'' \<longrightarrow> expand_type_value rc_default v = v"
    using "7.prems"(2) by (auto simp: no_context_types)
  moreover have "k \<in> set nested_keywords \<longrightarrow> expand_value rc_default v = Inr v" if "k \<noteq> lit ''@id''" "k \<noteq> lit ''@type''"
    using that "7.prems" "7.IH" by (auto dest: expanded_property_expanded)
  moreover have "expand_property_value rc_default k v = Inr v \<and> v \<noteq> VNull"
    if "k \<noteq> lit ''@id''" "k \<noteq> lit ''@type''" "k \<notin> set nested_keywords"
    using that "7.prems" "7.IH" by auto
  ultimately show ?case
    using rest last by (cases v) (auto simp: keep_value_def)
qed (simp_all add: no_local_context object_value_def)

lemma expanded_object_value:
  "expanded_members m \<Longrightarrow> sorted_wrt (<) (map fst m) \<Longrightarrow> expanded_property (object_value m)"
  by (simp add: object_value_def)

lemma expanded_string_property: "expanded_property (string_property c k s)"
  by (auto simp: string_property_def Let_def object1_def nested_keywords_def str_simps split: option.split)

lemma expansion_expanded:
  "expand_value c v = Inr w \<Longrightarrow> expanded w"
  "expand_values c vs = Inr ws \<Longrightarrow> expanded_all ws"
  "expand_object c m = Inr x \<Longrightarrow> expanded_property x"
  "expand_members c m r = Inr s \<Longrightarrow> expanded_members r \<Longrightarrow> sorted_wrt (<) (map fst r) \<Longrightarrow>
     expanded_members s \<and> sorted_wrt (<) (map fst s)"
  "expand_property_value c k v = Inr y \<Longrightarrow> expanded_property y"
  "expand_property_values c k vs = Inr zs \<Longrightarrow> expanded_properties zs"
proof (induction c v and c vs and c m and c m r and c k v and c k vs
    arbitrary: w and ws and x and s and y and zs
    rule: expand_value_expand_values_expand_object_expand_members_expand_property_value_expand_property_values.induct)
  case (8 c k v m r)
  obtain r' where step: "expand_members c m r' = Inr s"
    and r': "r' = r \<or> (\<exists>l u. r' = jm_insert l u r \<and> expanded_members [(l, u)])"
  proof (cases "k = lit ''@context'' \<or> k = lit ''@id'' \<or> k = lit ''@type''")
    case True
    have "type_value (expand_type_value c v)" by (cases v) (simp_all add: list_all_iff)
    with True "8.prems"(1) that show thesis by (auto split: if_splits)
  next
    case False
    show thesis
    proof (cases "k \<in> set nested_keywords")
      case True
      with False obtain u where "expand_value c v = Inr u" "expand_members c m (jm_insert k u r) = Inr s"
        using "8.prems"(1) by auto
      with True False "8.IH"(1) that show thesis by auto
    next
      case regular: False
      then obtain u where "expand_property_value c k v = Inr u" "expand_members c m (keep_value (expand_term c k) u r) = Inr s"
        using False "8.prems"(1) by auto
      with regular False "8.IH"(2) that show thesis by (auto simp: keep_value_def split: if_splits)
    qed
  qed
  from r' "8.prems" have "expanded_members r' \<and> sorted_wrt (<) (map fst r')"
    by (auto simp: sorted_insert expanded_members_insert simp del: expanded_members.simps)
  with "8.IH"(3) step show ?case by blast
qed (auto intro: expanded_property_expanded expanded_object_value expanded_string_property simp: object1_def nested_keywords_def)

lemma expand_array: "lp_expand p d = Inr w \<Longrightarrow> \<exists>ws. w = VArray ws \<and> expanded_all ws"
proof -
  assume "lp_expand p d = Inr w"
  then obtain c v where v: "expand_value c d = Inr v" "w = array_of v" by (auto simp: lp_expand_def)
  with expansion_expanded(1) [OF v(1)] show ?thesis by (cases v) auto
qed

lemma expand_no_context: "lp_expand p (VArray vs) = jl_then (expand_values rc_default vs) (\<lambda>ws. Inr (VArray ws))"
  by (cases "expand_values rc_default vs") (simp_all add: lp_expand_def document_context_def value_get_def)

text \<open>C27: Expansion is idempotent: expanding the result of an expansion again, with any parser and
  any base IRI, gives the same value, unless a context has declared a term for one of the
  keywords \<open>@context\<close> and \<open>@type\<close>, which the result shows.\<close>

theorem expansion_idempotent:
  assumes "lp_expand p d = Inr w" "no_alias w"
  shows "lp_expand q w = Inr w"
proof -
  obtain ws where w: "w = VArray ws" "expanded_all ws" using expand_array [OF assms(1)] by blast
  with assms(2) have "expand_values rc_default ws = Inr ws" by (simp add: expanded_fixed(2))
  with w show ?thesis by (simp add: expand_no_context)
qed

subsection \<open>Node objects are read back\<close>

text \<open>Node objects as they are written for a subject, its types and the values of its predicates.\<close>

record ld_node =
  ld_subject :: subject
  ld_types :: "iri list"
  ld_properties :: "(iri \<times> object list) list"

definition ld_literal :: "(rstr \<Rightarrow> jvalue) \<Rightarrow> literal \<Rightarrow> jvalue" where
  "ld_literal typ l = VObject
     ((case lit_language l of Some g \<Rightarrow> [(lit ''@language'', VString g)]
       | None \<Rightarrow> (case lit_datatype l of Some d \<Rightarrow> [(lit ''@type'', typ (iri_value d))] | None \<Rightarrow> [])) @
      [(lit ''@value'', VString (lit_value l))])"

fun ld_object :: "(rstr \<Rightarrow> jvalue) \<Rightarrow> object \<Rightarrow> jvalue" where
  "ld_object typ (ObjIri i) = object1 ''@id'' (VString (iri_value i))"
| "ld_object typ (ObjBlank b) = object1 ''@id'' (VString (lit ''_:'' @ bn_label b))"
| "ld_object typ (ObjLiteral l) = ld_literal typ l"

definition ld_members :: "(rstr \<Rightarrow> jvalue) \<Rightarrow> ld_node \<Rightarrow> jmap" where
  "ld_members typ n = jm_insert (lit ''@id'') (VString (subject_to_id (ld_subject n)))
     (jm_insert (lit ''@type'') (VArray (map (\<lambda>i. VString (iri_value i)) (ld_types n)))
       (map (\<lambda>(p, obs). (iri_value p, VArray (map (ld_object typ) obs))) (ld_properties n)))"

definition named_ok :: "iri \<Rightarrow> bool" where
  "named_ok i \<longleftrightarrow> valid_iri i \<and> \<not> prefix (lit ''_:'') (iri_value i)"

fun ld_subject_ok :: "subject \<Rightarrow> bool" where
  "ld_subject_ok (SubjIri i) = named_ok i" | "ld_subject_ok (SubjBlank b) = True"

fun ld_object_ok :: "object \<Rightarrow> bool" where
  "ld_object_ok (ObjIri i) = named_ok i" | "ld_object_ok (ObjBlank b) = True"
| "ld_object_ok (ObjLiteral l) = valid_literal l"

definition ld_node_ok :: "ld_node \<Rightarrow> bool" where
  "ld_node_ok n \<longleftrightarrow> ld_subject_ok (ld_subject n) \<and> list_all valid_iri (ld_types n) \<and>
     sorted_wrt (<) (map (iri_value \<circ> fst) (ld_properties n)) \<and>
     list_all (\<lambda>(p, obs). valid_iri p \<and> \<not> keyword (iri_value p) \<and> list_all ld_object_ok obs) (ld_properties n)"

text \<open>What is read: blank nodes are renamed by the scope, typed literals have lost their datatype.\<close>

fun ld_subject_back :: "bn_scope \<Rightarrow> subject \<Rightarrow> subject" where
  "ld_subject_back sc (SubjIri i) = SubjIri i"
| "ld_subject_back sc (SubjBlank b) = SubjBlank (scope_map sc (bn_label b))"

definition untyped :: "literal \<Rightarrow> literal" where
  "untyped l = (if lit_language l = None then literal_new (lit_value l) else l\<lparr>lit_datatype := None\<rparr>)"

fun ld_object_back :: "bn_scope \<Rightarrow> object \<Rightarrow> object" where
  "ld_object_back sc (ObjIri i) = ObjIri i"
| "ld_object_back sc (ObjBlank b) = ObjBlank (scope_map sc (bn_label b))"
| "ld_object_back sc (ObjLiteral l) = ObjLiteral (untyped l)"

definition ld_triples :: "bn_scope \<Rightarrow> ld_node \<Rightarrow> triple list" where
  "ld_triples sc n = (let s = ld_subject_back sc (ld_subject n) in
     map (\<lambda>i. triple_new s (iri_new_unchecked RDF_TYPE) (ObjIri i)) (ld_types n) @
     concat (map (\<lambda>(p, obs). map (\<lambda>ob. triple_new s p (ld_object_back sc ob)) obs) (ld_properties n)))"

definition type_array :: "rstr \<Rightarrow> jvalue" where
  "type_array d = VArray [VString d]"

lemma expand_ld_object: "expand_property_value rc_default k (ld_object VString ob) = Inr (ld_object type_array ob)"
  by (cases ob)
    (auto simp: object1_def ld_literal_def local_context_def jm_get_def object_value_def nested_keywords_def
      type_array_def str_simps split: option.split)

lemma expand_ld_objects:
  "expand_property_values rc_default k (map (ld_object VString) obs) = Inr (map (ld_object type_array) obs)"
  by (induction obs) (simp_all add: expand_ld_object)

definition member_expands :: "rstr \<times> jvalue \<Rightarrow> rstr \<times> jvalue \<Rightarrow> bool" where
  "member_expands e e' \<longleftrightarrow> fst e' = fst e \<and>
     (fst e = lit ''@id'' \<and> snd e' = snd e \<or>
      fst e = lit ''@type'' \<and> snd e' = expand_type_value rc_default (snd e) \<or>
      \<not> keyword (fst e) \<and> expand_property_value rc_default (fst e) (snd e) = Inr (snd e') \<and> snd e' \<noteq> VNull)"

lemma keyword_names: "keyword (lit ''@id'')" "keyword (lit ''@type'')" "keyword (lit ''@context'')" "keyword (lit ''@value'')"
    "keyword (lit ''@list'')" "k \<in> set nested_keywords \<Longrightarrow> keyword k"
  by (auto simp: keyword_def nested_keywords_def str_simps)

lemma expand_step:
  assumes "member_expands (k, v) (k, w)" "\<forall>l \<in> set (map fst r). l < k"
  shows "expand_members rc_default ((k, v) # m) r = expand_members rc_default m (r @ [(k, w)])"
proof -
  have "(case v of VString i \<Rightarrow> VString (expand_iri rc_default i) | _ \<Rightarrow> v) = v" by (cases v) simp_all
  with assms(1) insert_last [OF assms(2)] show ?thesis
    by (auto simp: member_expands_def keyword_names keep_value_def dest: keyword_names(6))
qed

lemma expand_members_all2:
  "list_all2 member_expands m m' \<Longrightarrow> sorted_wrt (<) (map fst (r @ m)) \<Longrightarrow>
    expand_members rc_default m r = Inr (r @ m')"
proof (induction m m' arbitrary: r rule: list_all2_induct)
  case (Cons e m e' m')
  obtain k v w where e: "e = (k, v)" "e' = (k, w)" using Cons.hyps(1) by (cases e; cases e') (auto simp: member_expands_def)
  have "\<forall>l \<in> set (map fst r). l < k" using Cons.prems e by (auto simp: sorted_wrt_append)
  then have "expand_members rc_default (e # m) r = expand_members rc_default m (r @ [e'])"
    using expand_step Cons.hyps(1) e by simp
  also have "\<dots> = Inr ((r @ [e']) @ m')" using Cons.IH [of "r @ [e']"] Cons.prems e by simp
  finally show ?case by simp
qed simp

lemma all2_insert:
  assumes "list_all2 R m m'" "\<And>e e'. R e e' \<Longrightarrow> fst e' = fst e" "R (k, v) (k, v')"
  shows "list_all2 R (jm_insert k v m) (jm_insert k v' m')"
  using assms(1)
proof (induction m m' rule: list_all2_induct)
  case (Cons e m e' m')
  then show ?case using assms(2) [OF Cons.hyps(1)] assms(3) by (cases e; cases e') auto
qed (use assms(3) in simp)

lemma member_expands_key: "member_expands e e' \<Longrightarrow> fst e' = fst e"
  by (simp add: member_expands_def)

lemma ld_members_expand:
  assumes "ld_node_ok n"
  shows "list_all2 member_expands (ld_members VString n) (ld_members type_array n)"
proof -
  have "list_all2 member_expands
      (map (\<lambda>(p, obs). (iri_value p, VArray (map (ld_object VString) obs))) (ld_properties n))
      (map (\<lambda>(p, obs). (iri_value p, VArray (map (ld_object type_array) obs))) (ld_properties n))"
    using assms by (auto simp: list_all2_map1 list_all2_map2 list_all2_same ld_node_ok_def list_all_iff
        member_expands_def expand_ld_objects)
  moreover have "type_value (VArray (map (\<lambda>i. VString (iri_value i)) ts))" for ts :: "iri list" by (simp add: list_all_iff)
  from no_context_types [OF this]
  have "member_expands (lit ''@type'', VArray (map (\<lambda>i. VString (iri_value i)) ts)) (lit ''@type'', VArray (map (\<lambda>i. VString (iri_value i)) ts))" for ts :: "iri list"
    by (simp add: member_expands_def del: expand_type_value.simps)
  ultimately show ?thesis
    unfolding ld_members_def by (intro all2_insert member_expands_key) (auto simp: member_expands_def)
qed

lemma ld_members_keys: "set (map fst (ld_members typ n)) =
    {lit ''@id'', lit ''@type''} \<union> set (map (iri_value \<circ> fst) (ld_properties n))"
  by (auto simp only: ld_members_def keys_insert) (force simp: case_prod_beta comp_def)+

lemma ld_members_sorted: "ld_node_ok n \<Longrightarrow> sorted_wrt (<) (map fst (ld_members typ n))"
  by (simp add: ld_members_def sorted_insert ld_node_ok_def comp_def case_prod_beta)

lemma ld_properties_no_keyword: "ld_node_ok n \<Longrightarrow> q \<in> set (map (iri_value \<circ> fst) (ld_properties n)) \<Longrightarrow> \<not> keyword q"
  by (auto simp: ld_node_ok_def list_all_iff)

lemma ld_members_get:
  assumes "ld_node_ok n" "keyword (lit k)" "lit k \<noteq> lit ''@id''" "lit k \<noteq> lit ''@type''"
  shows "jm_get k (ld_members typ n) = None"
proof -
  have "lit k \<notin> set (map fst (ld_members typ n))"
    using ld_properties_no_keyword [OF assms(1)] assms(2-4) by (auto simp only: ld_members_keys)
  then show ?thesis by (simp add: jm_get_def map_of_eq_None_iff)
qed

lemma expand_ld_node:
  assumes "ld_node_ok n"
  shows "expand_value rc_default (VObject (ld_members VString n)) = Inr (VObject (ld_members type_array n))"
proof -
  have "expand_members rc_default (ld_members VString n) [] = Inr (ld_members type_array n)"
    using expand_members_all2 [OF ld_members_expand [OF assms], of "[]"] ld_members_sorted [OF assms] by simp
  moreover have "local_context (ld_members VString n) rc_default = Inr rc_default"
    using ld_members_get [OF assms, of "''@context''"] by (simp add: local_context_def keyword_names)
  moreover have "ld_members type_array n \<noteq> []"
    using ld_members_keys [of type_array n] by auto
  ultimately show ?thesis by (simp add: object_value_def)
qed

text \<open>A run that keeps the scope, names blank nodes by it and pushes the given quads.\<close>

definition plain_map :: "jsonld_to_rdf \<Rightarrow> bool" where
  "plain_map x \<longleftrightarrow> (\<forall>l b. fmlookup (jr_map x) l = Some b \<longrightarrow> b = scope_map (jr_scope x) l)"

definition jr_reads :: "jsonld_to_rdf \<Rightarrow> triple list \<Rightarrow> jsonld_to_rdf \<Rightarrow> bool" where
  "jr_reads x ts y \<longleftrightarrow> plain_map y \<and> jr_scope y = jr_scope x \<and> jr_quads y = jr_quads x @ map quad_in_default_graph ts"

lemma jr_reads_refl: "plain_map x \<Longrightarrow> jr_reads x [] x"
  by (simp add: jr_reads_def)

lemma jr_reads_trans: "jr_reads x ts y \<Longrightarrow> jr_reads y us z \<Longrightarrow> jr_reads x (ts @ us) z"
  by (simp add: jr_reads_def)

lemma jr_reads_push: "jr_reads x ts y \<Longrightarrow> jr_reads x (ts @ [triple_new s p ob]) (jr_push s p ob y)"
  by (auto simp: jr_reads_def jr_push_def plain_map_def)

lemma jr_reads_scope: "jr_reads x ts y \<Longrightarrow> jr_scope y = jr_scope x \<and> plain_map y"
  by (simp add: jr_reads_def)

lemma jr_blank_reads:
  "plain_map x \<Longrightarrow> \<exists>y. jr_blank l x = (scope_map (jr_scope x) l, y) \<and> jr_reads x [] y"
  by (auto simp: jr_blank_def Let_def jr_reads_def plain_map_def split: option.splits)

lemma jr_iri_of_valid: "valid_iri i \<Longrightarrow> jr_iri (iri_value i) = Inr i"
  by (simp add: valid_iri_def jr_iri_def)

lemma jr_named_iri: "named_ok i \<Longrightarrow> jr_named f g (iri_value i) x = Inr (g i, x)"
  by (simp add: jr_named_def named_ok_def jr_iri_of_valid)

lemma jr_named_blank:
  "plain_map x \<Longrightarrow> \<exists>y. jr_named f g (lit ''_:'' @ l) x = Inr (f (scope_map (jr_scope x) l), y) \<and> jr_reads x [] y"
  using jr_blank_reads [of x l] by (auto simp: jr_named_def str_simps split: prod.splits)

lemma ld_literal_read:
  assumes "valid_literal l"
  shows "value_to_object (ld_literal type_array l) x = Inr (Some (ObjLiteral (untyped l)), x)"
  using assms
  by (cases l) (auto simp: ld_literal_def jm_get_def member_str_def value_object_to_literal_def type_array_def
      untyped_def jr_literal_def literal_with_language_def valid_literal_def literal_new_def str_simps split: option.splits)

lemma ld_object_read:
  assumes "ld_object_ok ob" "plain_map x"
  shows "\<exists>y. value_to_object (ld_object type_array ob) x = Inr (Some (ld_object_back (jr_scope x) ob), y) \<and> jr_reads x [] y"
proof (cases ob)
  case (ObjIri i)
  then show ?thesis using assms by (auto simp: object1_def jm_get_def jr_named_iri str_simps jr_reads_refl)
next
  case (ObjBlank b)
  then show ?thesis
    using jr_named_blank [OF assms(2), of ObjBlank ObjIri "bn_label b"] by (auto simp: object1_def jm_get_def str_simps)
next
  case (ObjLiteral l)
  then show ?thesis using assms ld_literal_read by (simp add: jr_reads_refl)
qed

lemma ld_objects_read:
  assumes "list_all ld_object_ok obs" "plain_map x"
  shows "\<exists>y. process_values s p (map (ld_object type_array) obs) x = Inr y \<and>
    jr_reads x (map (\<lambda>ob. triple_new s p (ld_object_back (jr_scope x) ob)) obs) y"
  using assms
proof (induction obs arbitrary: x)
  case (Cons ob obs)
  obtain y where y: "value_to_object (ld_object type_array ob) x = Inr (Some (ld_object_back (jr_scope x) ob), y)" "jr_reads x [] y"
    using ld_object_read [of ob x] Cons.prems by auto
  let ?t = "triple_new s p (ld_object_back (jr_scope x) ob)" and ?y = "jr_push s p (ld_object_back (jr_scope x) ob) y"
  have step: "jr_reads x [?t] ?y" using jr_reads_push [OF y(2)] by simp
  then have scope: "jr_scope ?y = jr_scope x" "plain_map ?y" by (simp_all add: jr_reads_scope)
  obtain z where z: "process_values s p (map (ld_object type_array) obs) ?y = Inr z"
    "jr_reads ?y (map (\<lambda>ob. triple_new s p (ld_object_back (jr_scope x) ob)) obs) z"
    using Cons.IH [of ?y] Cons.prems scope by auto
  show ?case using y(1) z jr_reads_trans [OF step z(2)] by (simp add: push_object_def)
qed (simp add: jr_reads_refl)

lemma types_read:
  assumes "list_all valid_iri ts" "plain_map x"
  shows "\<exists>y. type_triples s p (map (\<lambda>i. VString (iri_value i)) ts) x = Inr y \<and>
    jr_reads x (map (\<lambda>i. triple_new s p (ObjIri i)) ts) y"
  using assms
proof (induction ts arbitrary: x)
  case (Cons i ts)
  let ?x = "jr_push s p (ObjIri i) x"
  have step: "jr_reads x [triple_new s p (ObjIri i)] ?x"
    using jr_reads_push [OF jr_reads_refl [OF Cons.prems(2)], of s p "ObjIri i"] by simp
  then obtain y where y: "type_triples s p (map (\<lambda>i. VString (iri_value i)) ts) ?x = Inr y"
    "jr_reads ?x (map (\<lambda>i. triple_new s p (ObjIri i)) ts) y"
    using Cons.IH [of ?x] Cons.prems jr_reads_scope [OF step] by auto
  show ?case using y jr_reads_trans [OF step y(2)] Cons.prems by (simp add: jr_iri_of_valid)
qed (simp add: jr_reads_refl)

lemma members_insert_keyword:
  "keyword k \<Longrightarrow> process_members s (jm_insert k v m) x = process_members s m x"
proof (induction k v m arbitrary: x rule: jm_insert.induct)
  case (2 k v l w m)
  have cong: "jl_then r f = jl_then r g" if "\<And>y. f y = g y" for r :: "jsonld_error + 'a" and f g :: "'a \<Rightarrow> jsonld_error + 'b"
    using that by (simp add: jl_then_def split: sum.split)
  show ?case using 2 by (auto intro!: cong)
qed simp

lemma properties_read:
  assumes "list_all (\<lambda>(p, obs). valid_iri p \<and> \<not> keyword (iri_value p) \<and> list_all ld_object_ok obs) ps" "plain_map x"
  shows "\<exists>y. process_members s (map (\<lambda>(p, obs). (iri_value p, VArray (map (ld_object type_array) obs))) ps) x = Inr y \<and>
    jr_reads x (concat (map (\<lambda>(p, obs). map (\<lambda>ob. triple_new s p (ld_object_back (jr_scope x) ob)) obs) ps)) y"
  using assms
proof (induction ps arbitrary: x)
  case (Cons e ps)
  obtain p obs where e: "e = (p, obs)" by (cases e)
  obtain y where y: "process_values s p (map (ld_object type_array) obs) x = Inr y"
    "jr_reads x (map (\<lambda>ob. triple_new s p (ld_object_back (jr_scope x) ob)) obs) y"
    using ld_objects_read [of obs x s p] Cons.prems e by auto
  then have scope: "jr_scope y = jr_scope x" "plain_map y" by (simp_all add: jr_reads_scope)
  obtain z where z: "process_members s (map (\<lambda>(p, obs). (iri_value p, VArray (map (ld_object type_array) obs))) ps) y = Inr z"
    "jr_reads y (concat (map (\<lambda>(p, obs). map (\<lambda>ob. triple_new s p (ld_object_back (jr_scope x) ob)) obs) ps)) z"
    using Cons.IH [of y] Cons.prems scope by auto
  have "invalid_predicate (iri_value p) = Inr p" using Cons.prems e by (simp add: invalid_predicate_def valid_iri_def)
  then show ?case using y(1) z(1) e Cons.prems jr_reads_trans [OF y(2) z(2)] by simp
qed (simp add: jr_reads_refl)

lemma rdf_type_iri: "jr_iri (rdf_name ''type'') = Inr (iri_new_unchecked RDF_TYPE)"
proof -
  have "rdf_name ''type'' = iri_value (iri_new_unchecked RDF_TYPE)"
    by (simp add: rdf_name_def iri_new_unchecked_def RDF_TYPE_def lit_append [symmetric])
  then show ?thesis using jr_iri_of_valid [of "iri_new_unchecked RDF_TYPE"] by (simp add: valid)
qed

lemma ld_subject_read:
  assumes "ld_subject_ok (ld_subject n)" "plain_map x"
  shows "\<exists>y. get_subject (ld_members typ n) x = Inr (ld_subject_back (jr_scope x) (ld_subject n), y) \<and> jr_reads x [] y"
proof -
  have "jm_get ''@id'' (ld_members typ n) = Some (VString (subject_to_id (ld_subject n)))"
    by (simp add: jm_get_def ld_members_def map_of_insert)
  then show ?thesis
    using assms jr_named_blank [OF assms(2), of SubjBlank SubjIri]
    by (cases "ld_subject n") (auto simp: get_subject_def jr_named_iri jr_reads_refl)
qed

lemma ld_node_read:
  assumes "ld_node_ok n" "plain_map x"
  shows "\<exists>y s. process_node (VObject (ld_members type_array n)) x = Inr (s, y) \<and> jr_reads x (ld_triples (jr_scope x) n) y"
proof -
  let ?m = "ld_members type_array n" and ?s = "ld_subject_back (jr_scope x) (ld_subject n)"
  let ?ps = "map (\<lambda>(p, obs). (iri_value p, VArray (map (ld_object type_array) obs))) (ld_properties n)"
  have ok: "ld_subject_ok (ld_subject n)" "list_all valid_iri (ld_types n)"
    "list_all (\<lambda>(p, obs). valid_iri p \<and> \<not> keyword (iri_value p) \<and> list_all ld_object_ok obs) (ld_properties n)"
    using assms(1) by (simp_all add: ld_node_ok_def)
  obtain y1 where y1: "get_subject ?m x = Inr (?s, y1)" "jr_reads x [] y1"
    using ld_subject_read [OF ok(1) assms(2)] by blast
  then have scope1: "jr_scope y1 = jr_scope x" "plain_map y1" by (simp_all add: jr_reads_scope)
  obtain y2 where y2: "type_triples ?s (iri_new_unchecked RDF_TYPE) (map (\<lambda>i. VString (iri_value i)) (ld_types n)) y1 = Inr y2"
    "jr_reads y1 (map (\<lambda>i. triple_new ?s (iri_new_unchecked RDF_TYPE) (ObjIri i)) (ld_types n)) y2"
    using types_read [OF ok(2) scope1(2)] by blast
  then have scope2: "jr_scope y2 = jr_scope x" "plain_map y2" using scope1 by (simp_all add: jr_reads_scope)
  obtain y3 where y3: "process_members ?s ?ps y2 = Inr y3"
    "jr_reads y2 (concat (map (\<lambda>(p, obs). map (\<lambda>ob. triple_new ?s p (ld_object_back (jr_scope x) ob)) obs) (ld_properties n))) y3"
    using properties_read [OF ok(3) scope2(2), of ?s] scope2(1) by auto
  have "jm_get ''@type'' ?m = Some (VArray (map (\<lambda>i. VString (iri_value i)) (ld_types n)))"
    by (simp add: jm_get_def ld_members_def map_of_insert)
  then have types: "process_types ?s (jm_get ''@type'' ?m) y1 = Inr y2"
    using y2(1) by (simp add: process_types_def rdf_type_iri)
  have members: "process_members ?s ?m y2 = Inr y3"
    using y3(1) by (simp add: ld_members_def members_insert_keyword keyword_names)
  have "jm_get ''@value'' ?m = None" "jm_get ''@list'' ?m = None"
    using ld_members_get [OF assms(1)] by (simp_all add: keyword_names)
  then have "process_node (VObject ?m) x = Inr (Some ?s, y3)"
    using y1(1) types members by simp
  then show ?thesis
    using jr_reads_trans [OF y1(2) jr_reads_trans [OF y2(2) y3(2)]] by (auto simp: ld_triples_def Let_def)
qed

lemma ld_nodes_read:
  assumes "list_all ld_node_ok ns" "plain_map x"
  shows "\<exists>y. process_nodes (map (\<lambda>n. VObject (ld_members type_array n)) ns) x = Inr y \<and>
    jr_reads x (concat (map (ld_triples (jr_scope x)) ns)) y"
  using assms
proof (induction ns arbitrary: x)
  case (Cons n ns)
  obtain y s where y: "process_node (VObject (ld_members type_array n)) x = Inr (s, y)" "jr_reads x (ld_triples (jr_scope x) n) y"
    using ld_node_read [of n x] Cons.prems by auto
  then have scope: "jr_scope y = jr_scope x" "plain_map y" by (simp_all add: jr_reads_scope)
  obtain z where z: "process_nodes (map (\<lambda>n. VObject (ld_members type_array n)) ns) y = Inr z"
    "jr_reads y (concat (map (ld_triples (jr_scope x)) ns)) z"
    using Cons.IH [of y] Cons.prems scope by auto
  show ?case using y(1) z(1) jr_reads_trans [OF y(2) z(2)] by (simp del: process_node.simps)
qed (simp add: jr_reads_refl)

definition ld_document :: "ld_node list \<Rightarrow> jvalue" where
  "ld_document ns = VArray (map (\<lambda>n. VObject (ld_members VString n)) ns)"

lemma expand_ld_document:
  assumes "list_all ld_node_ok ns"
  shows "lp_expand p (ld_document ns) = Inr (VArray (map (\<lambda>n. VObject (ld_members type_array n)) ns))"
proof -
  have "expand_values rc_default (map (\<lambda>n. VObject (ld_members VString n)) ns) = Inr (map (\<lambda>n. VObject (ld_members type_array n)) ns)"
    using assms
  proof (induction ns)
    case (Cons n ns)
    then show ?case using expand_ld_node [of n] by (simp del: expand_value.simps)
  qed simp
  then show ?thesis by (simp add: ld_document_def expand_no_context)
qed

lemma ld_document_quads:
  assumes "list_all ld_node_ok ns"
  shows "lp_to_rdf_quads p (ld_document ns) n =
    (Inr (map quad_in_default_graph (concat (map (ld_triples (fst (scope_generate n))) ns))), n + 1)"
proof -
  obtain x where x: "jr_new n = (x, n + 1)" "jr_scope x = fst (scope_generate n)" "jr_map x = fmempty"
    by (simp add: jr_new_def scope_generate_def)
  have "plain_map (x\<lparr>jr_quads := []\<rparr>)" by (simp add: plain_map_def x)
  from ld_nodes_read [OF assms this] obtain y where
    y: "process_nodes (map (\<lambda>n. VObject (ld_members type_array n)) ns) (x\<lparr>jr_quads := []\<rparr>) = Inr y"
      "jr_quads y = map quad_in_default_graph (concat (map (ld_triples (fst (scope_generate n))) ns))"
    by (auto simp: jr_reads_def x)
  then show ?thesis
    by (simp add: lp_to_rdf_quads_def expand_ld_document [OF assms] x jr_convert_def Let_def)
qed

lemma to_rdf_of_quads: "lp_to_rdf p d n = map_prod (map_sum id (map q_triple)) id (lp_to_rdf_quads p d n)"
proof -
  have "map_sum id fst (jl_then r (\<lambda>(qs, x). Inr (map q_triple qs, x))) = map_sum id (map q_triple) (map_sum id fst r)"
    for r :: "jsonld_error + quad list \<times> jsonld_to_rdf" by (cases r) (auto split: prod.split)
  then show ?thesis
    by (auto simp: lp_to_rdf_def lp_to_rdf_quads_def jr_convert_to_triples_def split: sum.split prod.split)
qed

text \<open>A document with a node object per subject, written with full IRIs, its \<open>@type\<close>s and an
  array of values per predicate, is read as exactly the triples it was written from, in order
  and in the default graph: IRIs come back as they are, blank nodes renamed by the scope of the
  document, and literals with their language but without their datatype.\<close>

theorem jsonld_nodes_read_back:
  assumes "list_all ld_node_ok ns"
  shows "lp_to_rdf p (ld_document ns) n = (Inr (concat (map (ld_triples (fst (scope_generate n))) ns)), n + 1)"
proof -
  have "map q_triple (map quad_in_default_graph ts) = ts" for ts
    by (simp add: quad_in_default_graph_def quad_new_def comp_def)
  then show ?thesis by (simp only: to_rdf_of_quads ld_document_quads [OF assms]) simp
qed

text \<open>A node with a type, a text in a language and a blank node.\<close>

definition sample_node :: ld_node where
  "sample_node = \<lparr>ld_subject = SubjIri (iri_new_unchecked (lit ''e:s'')), ld_types = [iri_new_unchecked (lit ''e:t'')],
     ld_properties = [(iri_new_unchecked (lit ''e:p''),
       [ObjLiteral \<lparr>lit_value = lit ''x'', lit_datatype = None, lit_language = Some (lit ''en'')\<rparr>, ObjBlank (bn_new (lit ''b''))])]\<rparr>"

lemma sample_node_ok: "list_all ld_node_ok [sample_node]"
  by (simp add: ld_node_ok_def sample_node_def named_ok_def valid_iri_def iri_new_def validate_def is_control_def
      iri_new_unchecked_def valid_literal_def validate_language_tag_def is_ascii_alphabetic_def is_ascii_alphanumeric_def
      keyword_def str_simps)

theorem jsonld_nodes_read_back_witness:
  "lp_to_rdf lp_new (ld_document [sample_node]) 0 =
     (Inr (ld_triples (fst (scope_generate 0)) sample_node), 1)"
  using jsonld_nodes_read_back [OF sample_node_ok, of lp_new 0] by simp

theorem to_rdf_valid_witness:
  "\<exists>qs. lp_to_rdf_quads lp_new (ld_document [sample_node]) 0 = (Inr qs, 1) \<and> list_all (scoped_quad (lit ''g0'')) qs"
proof -
  obtain qs where qs: "lp_to_rdf_quads lp_new (ld_document [sample_node]) 0 = (Inr qs, 1)"
    using ld_document_quads [OF sample_node_ok, of lp_new 0] by simp
  have "scope_prefix (fst (scope_generate 0)) = lit ''g0''"
    by (simp add: scope_generate_def scope_new_def show_nat.simps str_simps)
  with to_rdf_valid [OF qs] qs show ?thesis by simp
qed

theorem expansion_idempotent_witness:
  "\<exists>w. lp_expand lp_new (ld_document [sample_node]) = Inr w \<and> lp_expand (lp_with_base (lit ''e:'')) w = Inr w"
proof -
  let ?w = "VArray [VObject (ld_members type_array sample_node)]"
  have w: "lp_expand lp_new (ld_document [sample_node]) = Inr ?w"
    using expand_ld_document [OF sample_node_ok] by simp
  have "no_alias ?w"
    by (simp add: ld_members_def sample_node_def ld_literal_def object1_def iri_new_unchecked_def str_simps)
  from expansion_idempotent [OF w this] w show ?thesis by blast
qed

end
