(* ===== verification/JsonLdLosses.thy ===== *)
theory JsonLdLosses
  imports JsonLdFacts
begin

section \<open>What JSON-LD documents lose\<close>

text \<open>
  Documents that expansion and conversion do not read as JSON-LD means them: most of the
  lemmas hold for any value in the place in question.
\<close>

lemmas ld_eval = local_context_def jm_get_def value_get_def object_value_def nested_keywords_def member_str_def
  string_property_def document_context_def lp_expand_def keep_value_def Let_def object1_def lp_new_def
  lp_with_base_def rc_default_def

text \<open>The content of \<open>@graph\<close> is expanded and then skipped: a document of that form, which is what
  both JSON-LD writers produce for two subjects or more, is read as no triple at all.\<close>

lemma graph_content_dropped:
  assumes "expand_value rc_default v = Inr w"
  shows "lp_to_rdf lp_new (object1 ''@graph'' v) n = (Inr [], n + 1)"
proof -
  have "lp_expand lp_new (object1 ''@graph'' v) = Inr (VArray [object1 ''@graph'' w])"
    using assms by (simp add: ld_eval str_simps)
  then show ?thesis
    by (simp add: lp_to_rdf_def jr_new_def scope_generate_def scope_new_def jr_convert_to_triples_def jr_convert_def
        object1_def jm_get_def get_subject_def jr_next_def scope_next_def process_types_def keyword_def str_simps)
qed

text \<open>A property with several string values cannot be converted: each string has become an array
  with one value object, and an array in an array is an error.\<close>

lemma string_array_fails:
  "lp_to_rdf lp_new (VObject [(lit ''p:q'', VArray [VString s])]) n =
     (Inl (rdf_error ''Unexpected array in value position''), n + 1)"
proof -
  have "lp_expand lp_new (VObject [(lit ''p:q'', VArray [VString s])]) =
      Inr (VArray [VObject [(lit ''p:q'', VArray [VArray [object1 ''@value'' (VString s)]])]])"
    by (simp add: ld_eval expand_term_def str_simps keyword_def)
  moreover have "invalid_predicate (lit ''p:q'') = Inr (iri_new_unchecked (lit ''p:q''))"
    by (simp add: invalid_predicate_def iri_new_def validate_def is_control_def str_simps iri_new_unchecked_def)
  ultimately show ?thesis
    by (simp add: lp_to_rdf_def jr_new_def scope_generate_def scope_new_def jr_convert_to_triples_def jr_convert_def
        jm_get_def get_subject_def jr_next_def scope_next_def process_types_def keyword_def str_simps)
qed

text \<open>The datatype of a value object is lost: expansion turns \<open>@type\<close> into an array, and the
  conversion looks for a string.\<close>

lemma datatype_lost:
  "expand_property_value c k (VObject [(lit ''@type'', VString d), (lit ''@value'', VString v)]) =
     Inr (VObject [(lit ''@type'', VArray [VString (expand_term c d)]), (lit ''@value'', VString v)])"
  "value_to_object (VObject [(lit ''@type'', VArray [VString i]), (lit ''@value'', VString v)]) x =
     Inr (Some (ObjLiteral (literal_new v)), x)"
  by (simp_all add: ld_eval value_object_to_literal_def str_simps)

text \<open>Terms are read in alphabetical order, so that a prefix which comes after its first use is not
  known there.\<close>

lemma prefix_after_use_unknown:
  "\<exists>c. resolve_object [(lit ''age'', VString (lit ''foaf:age'')), (lit ''foaf'', VString (lit ''http://f/''))] None = Inr c \<and>
     expand_term c (lit ''age'') = lit ''foaf:age''"
  "\<exists>c. resolve_object [(lit ''foaf'', VString (lit ''http://f/'')), (lit ''name'', VString (lit ''foaf:name''))] None = Inr c \<and>
     expand_term c (lit ''name'') = lit ''http://f/name''"
  by (simp_all add: resolve_object_def rc_default_def keyword_def str_simps context_expand_iri_def contains_str_def
      td_of_iri_def expand_term_def)

text \<open>The base IRI of the parser is only used by documents that have a context object.\<close>

lemma base_needs_context:
  "lp_expand (lp_with_base (lit ''http://e/'')) (object1 ''@id'' (VString (lit ''#a''))) =
     Inr (VArray [object1 ''@id'' (VString (lit ''#a''))])"
  "lp_expand (lp_with_base (lit ''http://e/'')) (VObject [(lit ''@context'', VObject []), (lit ''@id'', VString (lit ''#a''))]) =
     Inr (VArray [object1 ''@id'' (VString (lit ''http://e/#a''))])"
  by (simp_all add: ld_eval expand_iri_def expand_term_def keyword_def contains_str_def resolve_object_def merge_context_def str_simps)

text \<open>A term for the keyword \<open>@id\<close> makes the document unreadable.\<close>

lemma keyword_alias_fails:
  "lp_to_rdf lp_new (VObject [(lit ''@context'', object1 ''id'' (VString (lit ''@id''))), (lit ''id'', VString (lit ''http://e/s''))]) n =
     (Inl (rdf_error ''@id must be a string''), n + 1)"
proof -
  have "lp_expand lp_new (VObject [(lit ''@context'', object1 ''id'' (VString (lit ''@id''))), (lit ''id'', VString (lit ''http://e/s''))]) =
      Inr (VArray [object1 ''@id'' (VArray [object1 ''@value'' (VString (lit ''http://e/s''))])])"
    by (simp add: ld_eval expand_term_def str_simps keyword_def contains_str_def resolve_object_def merge_context_def
        context_expand_iri_def td_of_iri_def)
  then show ?thesis
    by (simp add: lp_to_rdf_def jr_new_def scope_generate_def scope_new_def jr_convert_to_triples_def jr_convert_def
        object1_def jm_get_def get_subject_def rdf_error_def str_simps)
qed

text \<open>A \<open>@set\<close> becomes a blank node without properties; its values are lost.\<close>

lemma set_becomes_blank_node:
  "value_to_object (object1 ''@set'' v) x =
     (case jr_next x of (b, y) \<Rightarrow> Inr (Some (ObjBlank b), y))"
  by (simp add: object1_def jm_get_def get_subject_def process_types_def keyword_def str_simps split: prod.split)

text \<open>Integers from \<open>2 ^ 63\<close> on come back negative.\<close>

lemma large_integer_negative:
  "value_to_object (VNumber (PosInt (- 1))) x = Inr (Some (ObjLiteral (literal_integer (- 1))), x)"
  by simp

text \<open>A term that a context removes with null abbreviates every IRI without a slash or hash.\<close>

lemma removed_term_abbreviates:
  assumes "hash_order titer" "hash_order riter"
  shows "\<exists>c. resolve_object [(lit ''old'', VNull)] None = Inr c \<and>
    compact_iri riter (iri_to_term titer c) (lit ''urn:x'') = lit ''old:urn:x''"
proof -
  have "resolve_object [(lit ''old'', VNull)] None = Inr (rc_default\<lparr>rc_terms := fmupd (lit ''old'') (td_of_iri []) fmempty\<rparr>)"
    by (simp add: resolve_object_def rc_default_def keyword_def str_simps)
  then show ?thesis
    by (simp add: iri_to_term_def rc_default_def compact_iri_def td_of_iri_def str_simps utf8_len_def
        hash_order_single [OF assms(1)] hash_order_single [OF assms(2)])
qed

end
