(* ===== verification/JsonLdText.thy ===== *)
theory JsonLdText
  imports JsonLdWriter ExportFacts
begin

section \<open>The JSON-LD serializer writes JSON\<close>

text \<open>
  The text of the serializer is in the JSON grammar and stands for a document that is given
  explicitly, if the strings it writes without escaping need none and the default graph is not
  empty when there are named graphs. Without the latter the text is no JSON.
\<close>

subsection \<open>Strings\<close>

lemma escape_json_chars: "json_chars (escape_json_string s) s"
proof (induction s)
  case (Cons c s)
  have u: "u_escape c = [c_bslash, 117] @ upper_hex4 c" by (simp add: u_escape_def)
  have split: "escape_json_string (c # s) = escape_json_char c @ escape_json_string s" by (simp add: escape_json_string_def)
  show ?case unfolding split using Cons u_escape_json [of c, OF _ Cons] u
    by (auto simp: simple_escapes_def is_control_def intro!: jc_plain jc_escape)
qed (simp add: escape_json_string_def jc_Nil)

lemma dquoted_escaped: "json_text (dquoted (escape_json_string s)) (JString s)"
  unfolding dquoted_def by (rule jt_string) (rule escape_json_chars)

definition json_plain :: "rstr \<Rightarrow> bool" where
  "json_plain s \<longleftrightarrow> (\<forall>c \<in> set s. 32 \<le> c \<and> c \<noteq> c_dquote \<and> c \<noteq> c_bslash)"

lemma dquoted_plain: "json_plain s \<Longrightarrow> json_text (dquoted s) (JString s)"
proof -
  have "json_chars s s" if "json_plain s" using that
    by (induction s) (auto simp: json_plain_def intro: json_chars.intros)
  then show "json_plain s \<Longrightarrow> json_text (dquoted s) (JString s)" unfolding dquoted_def by (blast intro: jt_string)
qed

lemma json_plain_simps [simp]: "json_plain (s @ t) \<longleftrightarrow> json_plain s \<and> json_plain t"
  "json_plain (c # s) \<longleftrightarrow> 32 \<le> c \<and> c \<noteq> c_dquote \<and> c \<noteq> c_bslash \<and> json_plain s"
  by (auto simp: json_plain_def)

lemma json_plain_drop: "json_plain s \<Longrightarrow> json_plain (drop n s)"
  by (auto simp: json_plain_def dest: in_set_dropD)

lemma plain_keys: "json_plain (lit ''@id'')" "json_plain (lit ''@type'')" "json_plain (lit ''@value'')"
  "json_plain (lit ''@language'')" "json_plain (lit ''@graph'')" "json_plain (lit ''@context'')"
  by (simp_all add: json_plain_def str_simps)

definition prefixes_plain :: "jsonld_ser \<Rightarrow> bool" where
  "prefixes_plain w \<longleftrightarrow> (\<forall>p i. fmlookup (js_prefixes w) p = Some i \<longrightarrow> json_plain p \<and> json_plain i)"

lemma compact_plain:
  assumes "hash_order iter" "prefixes_plain w" "json_plain i"
  shows "json_plain (js_compact_iri S iter w i)"
proof -
  have "json_plain (js_compact_with S ps i)" if "\<forall>(p, n) \<in> set ps. json_plain p" for ps
    using that assms(3) by (induction ps) (auto simp: json_plain_drop)
  moreover have "\<forall>(p, n) \<in> set (iter (js_prefixes w)). json_plain p"
    using assms(1,2) by (auto simp: prefixes_plain_def hash_order_in_iff)
  ultimately show ?thesis using assms(3) by (simp add: js_compact_iri_def)
qed

lemma member_colon: "json_text a (JString k) \<Longrightarrow> json_text b j \<Longrightarrow> member_text (a @ c_colon # b) (k, j)"
  unfolding member_text_def by auto

lemma member_colon_space: "json_text a (JString k) \<Longrightarrow> json_text b j \<Longrightarrow> member_text (a @ lit '': '' @ b) (k, j)"
  using member_colon [OF _ jt_before [of "[c_space]" b j]] by (simp add: str_simps json_space_def)

subsection \<open>Values\<close>

fun value_doc :: "'f rust_std \<Rightarrow> prefix_order \<Rightarrow> jsonld_ser \<Rightarrow> jl_value \<Rightarrow> json" where
  "value_doc S iter w (JlId i) = JObject [(lit ''@id'', JString (js_compact_iri S iter w i))]"
| "value_doc S iter w (JlLiteral v dt lang) =
     (if lang = None \<and> dt = None then JString v
      else JObject ((lit ''@value'', JString v) #
        (case lang of Some l \<Rightarrow> [(lit ''@language'', JString l)]
         | None \<Rightarrow> (case dt of
             Some d \<Rightarrow> if d \<noteq> xsd_string_iri then [(lit ''@type'', JString (js_compact_iri S iter w d))] else []
           | None \<Rightarrow> []))))"

fun value_plain :: "jl_value \<Rightarrow> bool" where
  "value_plain (JlId i) = True"
| "value_plain (JlLiteral v dt lang) =
     ((case dt of Some d \<Rightarrow> json_plain d | None \<Rightarrow> True) \<and> (case lang of Some l \<Rightarrow> json_plain l | None \<Rightarrow> True))"

lemma js_value_text:
  assumes "hash_order iter" "prefixes_plain w" "value_plain v"
  shows "json_text (js_value S iter w v) (value_doc S iter w v)"
proof (cases v)
  case (JlId i)
  have "member_text (dquoted (lit ''@id'') @ lit '': '' @ dquoted (escape_json_string (js_compact_iri S iter w i)))
      (lit ''@id'', JString (js_compact_iri S iter w i))"
    by (intro member_colon_space dquoted_plain plain_keys dquoted_escaped)
  from one_jw [OF this] show ?thesis by (cases "js_compact_iri S iter w i = i") (simp_all add: JlId Let_def)
next
  case (JlLiteral t dt lang)
  have val: "member_text (dquoted (lit ''@value'') @ lit '': '' @ dquoted (escape_json_string t)) (lit ''@value'', JString t)"
    by (intro member_colon_space dquoted_plain plain_keys dquoted_escaped)
  have named: "member_text (dquoted (lit k) @ lit '': '' @ dquoted u) (lit k, JString u)" if "json_plain u" "json_plain (lit k)" for k u
    using that by (intro member_colon_space dquoted_plain)
  have comma: "lit '', '' = [c_comma, c_space]" by (simp add: str_simps)
  show ?thesis
  proof (cases lang)
    case (Some l)
    then show ?thesis
      using two_jw [OF val named [of l "''@language''"]] assms(3) by (simp add: JlLiteral comma plain_keys)
  next
    case lang: None
    show ?thesis
    proof (cases dt)
      case None
      then show ?thesis by (simp add: JlLiteral lang dquoted_escaped)
    next
      case (Some d)
      have "json_plain (js_compact_iri S iter w d)"
        using assms(3) by (intro compact_plain [OF assms(1,2)]) (simp add: JlLiteral Some)
      then show ?thesis
        using two_jw [OF val named [of _ "''@type''"]] one_jw [OF val] by (simp add: JlLiteral lang Some comma plain_keys)
    qed
  qed
qed

subsection \<open>Nodes\<close>

definition array_or_single :: "('a \<Rightarrow> json) \<Rightarrow> 'a list \<Rightarrow> json" where
  "array_or_single f xs = (case xs of [x] \<Rightarrow> f x | _ \<Rightarrow> JArray (map f xs))"

definition node_doc :: "'f rust_std \<Rightarrow> prefix_order \<Rightarrow> jsonld_ser \<Rightarrow> jl_node \<Rightarrow> (rstr \<times> json) list" where
  "node_doc S iter w n =
     (case jn_id n of Some i \<Rightarrow> [(lit ''@id'', JString i)] | None \<Rightarrow> []) @
     (if jn_types n = [] then []
      else [(lit ''@type'', array_or_single (\<lambda>t. JString (js_compact_iri S iter w t)) (jn_types n))]) @
     map (\<lambda>(p, vs). (js_compact_iri S iter w p, array_or_single (value_doc S iter w) vs)) (key_order (jn_properties n))"

definition node_plain :: "jl_node \<Rightarrow> bool" where
  "node_plain n \<longleftrightarrow> jn_id n \<noteq> None \<and> list_all json_plain (jn_types n) \<and>
     (\<forall>p vs. fmlookup (jn_properties n) p = Some vs \<longrightarrow> list_all value_plain vs)"

lemma js_spaces [simp]: "json_space (js_newline w)" "json_space (js_indent w)" "json_space [c_space]" "json_space (lit ''  '')"
  by (auto simp: js_newline_def js_indent_def json_space_def str_simps)

lemma jt_blank: "json_text t j \<Longrightarrow> json_text (c_space # t) j" "json_text t j \<Longrightarrow> json_text (c_space # t @ [c_space]) j"
  using jt_before [of "[c_space]" t j] jt_space [of "[c_space]" "[c_space]" t j] by simp_all

text \<open>An array whose elements are separated by a comma and a blank, or preceded by a blank.\<close>

lemma array_comma_space:
  assumes "\<And>x. x \<in> set xs \<Longrightarrow> json_text (f x) (g x)"
  shows "json_text ([c_lbracket] @ join (lit '', '') (map f xs) @ [c_rbracket]) (JArray (map g xs))"
proof -
  have "list_all2 json_text (map f xs) (map g xs)"
    using assms by (simp add: list_all2_map1 list_all2_map2 list_all2_same)
  then have "list_all2 json_text (spaced [c_space] (map f xs)) (map g xs)"
    by (rule spaced_all2 [rotated]) (simp add: jt_blank)
  from jt_array [OF _ this, of "[]"] show ?thesis
    using join_spaced [of "[c_space]" "map f xs"] by (simp add: str_simps)
qed

lemma array_space_each:
  assumes "\<And>x. x \<in> set xs \<Longrightarrow> json_text (f x) (g x)"
  shows "json_text (lit '' ['' @ join [c_comma] (map (\<lambda>v. [c_space] @ f v) xs) @ lit '' ]'') (JArray (map g xs))"
proof (cases xs rule: rev_cases)
  case Nil
  then show ?thesis using jt_before [OF _ jt_array [of "[c_space]" "[]" "[]"], of "[c_space]"] by (simp add: str_simps)
next
  case (snoc ys y)
  let ?t = "map (\<lambda>v. [c_space] @ f v) ys @ [[c_space] @ f y @ [c_space]]"
  have "list_all2 json_text ?t (map g (ys @ [y]))"
    using assms by (auto simp: snoc list_all2_map1 list_all2_map2 list_all2_same intro!: list_all2_appendI jt_blank)
  from jt_before [OF _ jt_array [OF _ this, of "[]"], of "[c_space]"]
  have "json_text ([c_space] @ [c_lbracket] @ join [c_comma] ?t @ [c_rbracket]) (JArray (map g xs))" by (simp add: snoc)
  moreover have "join [c_comma] (us @ [u @ v]) = join [c_comma] (us @ [u]) @ v" for us and u v :: rstr
    by (induction us) (auto simp: join_Cons)
  from this [of "map (\<lambda>v. [c_space] @ f v) ys" "[c_space] @ f y" "[c_space]"]
  have "join [c_comma] ?t = join [c_comma] (map (\<lambda>v. [c_space] @ f v) xs) @ [c_space]" by (simp add: snoc)
  ultimately show ?thesis by (simp add: str_simps)
qed

lemma js_types_text:
  assumes "\<And>t. t \<in> set ts \<Longrightarrow> json_plain (js_compact_iri S iter w t)"
  shows "json_text (js_types S iter w ts) (array_or_single (\<lambda>t. JString (js_compact_iri S iter w t)) ts)"
proof -
  have each: "t \<in> set ts \<Longrightarrow> json_text (dquoted (js_compact_iri S iter w t)) (JString (js_compact_iri S iter w t))" for t
    using assms dquoted_plain by blast
  show ?thesis
    using each array_comma_space [of ts "\<lambda>t. dquoted (js_compact_iri S iter w t)", OF each]
    by (auto simp: js_types_def array_or_single_def Let_def split: list.split)
qed

lemma js_property_member:
  assumes "hash_order iter" "prefixes_plain w" "list_all value_plain vs" "json_space inner"
  shows "member_text (js_property S iter w inner (p, vs)) (js_compact_iri S iter w p, array_or_single (value_doc S iter w) vs)"
proof -
  have each: "v \<in> set vs \<Longrightarrow> json_text (js_value S iter w v) (value_doc S iter w v)" for v
    using assms by (intro js_value_text) (simp_all add: list_all_iff)
  have "json_text (case vs of [v] \<Rightarrow> [c_space] @ js_value S iter w v
      | _ \<Rightarrow> lit '' ['' @ join [c_comma] (map (\<lambda>v. [c_space] @ js_value S iter w v) vs) @ lit '' ]'')
    (array_or_single (value_doc S iter w) vs)"
    using each array_space_each [of vs "js_value S iter w", OF each] jt_before [of "[c_space]", OF _ each]
    by (auto simp: array_or_single_def split: list.split)
  from member_before [OF _ member_colon [OF dquoted_escaped this, of "js_compact_iri S iter w p"], of "js_newline w @ inner"]
  show ?thesis using assms(4) by (simp add: js_property_def)
qed

text \<open>The members of a node are texts between commas.\<close>

definition node_pieces :: "'f rust_std \<Rightarrow> prefix_order \<Rightarrow> jsonld_ser \<Rightarrow> rstr \<Rightarrow> jl_node \<Rightarrow> rstr list" where
  "node_pieces S iter w indent n = (let inner = indent @ js_indent w in
     (case jn_id n of Some i \<Rightarrow> [js_newline w @ inner @ dquoted (lit ''@id'') @ lit '': '' @ dquoted (escape_json_string i)] | None \<Rightarrow> []) @
     (if jn_types n = [] then [] else [js_newline w @ inner @ dquoted (lit ''@type'') @ lit '': '' @ js_types S iter w (jn_types n)]) @
     map (js_property S iter w inner) (key_order (jn_properties n)))"

lemma js_properties_join:
  "js_properties S iter w inner ps first =
     (if first then join [c_comma] (map (js_property S iter w inner) ps)
      else concat (map (\<lambda>p. [c_comma] @ js_property S iter w inner p) ps))"
proof -
  have "js_properties S iter w inner ps False = concat (map (\<lambda>p. [c_comma] @ js_property S iter w inner p) ps)" for ps
    by (induction ps) (simp_all add: after_first_def)
  then show ?thesis by (cases ps) (simp_all add: after_first_def join_rest comp_def)
qed

lemma js_node_join: "js_node S iter w indent True n = join [c_comma] (node_pieces S iter w indent n)"
  by (cases "jn_id n"; cases "jn_types n = []")
    (simp_all add: js_node_def node_pieces_def Let_def js_properties_join after_first_def join_rest comp_def)

lemma node_members:
  assumes "hash_order iter" "prefixes_plain w" "node_plain n" "json_space indent"
  shows "list_all2 member_text (node_pieces S iter w indent n) (node_doc S iter w n)"
proof -
  let ?inner = "indent @ js_indent w"
  have spaces: "json_space (js_newline w @ ?inner)" using assms(4) by simp
  have key: "member_text (js_newline w @ ?inner @ dquoted (lit k) @ lit '': '' @ t) (lit k, j)"
    if "json_plain (lit k)" "json_text t j" for k t j
    using member_before [OF spaces member_colon_space [OF dquoted_plain [OF that(1)] that(2)]] by simp
  have types: "json_text (js_types S iter w (jn_types n)) (array_or_single (\<lambda>t. JString (js_compact_iri S iter w t)) (jn_types n))"
    using assms(3) by (intro js_types_text compact_plain [OF assms(1,2)]) (simp add: node_plain_def list_all_iff)
  have "member_text (js_property S iter w ?inner (p, vs)) (js_compact_iri S iter w p, array_or_single (value_doc S iter w) vs)"
    if "(p, vs) \<in> set (key_order (jn_properties n))" for p vs
    using that assms(3,4) hash_order_in_iff [OF hash_order_key_order, of p vs "jn_properties n"]
    by (intro js_property_member assms(1,2)) (auto simp: node_plain_def)
  then have "list_all2 member_text (map (js_property S iter w ?inner) (key_order (jn_properties n)))
      (map (\<lambda>(p, vs). (js_compact_iri S iter w p, array_or_single (value_doc S iter w) vs)) (key_order (jn_properties n)))"
    by (auto simp: list_all2_map1 list_all2_map2 list_all2_same)
  then show ?thesis
    using key [OF plain_keys(1) dquoted_escaped] key [OF plain_keys(2) types]
    by (auto simp: node_pieces_def node_doc_def Let_def intro!: list_all2_appendI split: option.split)
qed

lemma node_object:
  assumes "hash_order iter" "prefixes_plain w" "node_plain n" "json_space indent"
  shows "json_text (js_newline w @ indent @ [123] @ js_node S iter w indent True n @ js_newline w @ indent @ [125])
    (JObject (node_doc S iter w n))"
proof -
  have "json_text ([123] @ [] @ join ([c_comma] @ []) (node_pieces S iter w indent n) @ (js_newline w @ indent) @ [125])
      (JObject (node_doc S iter w n))"
    using node_members [OF assms] assms(4) by (intro members_lines) simp_all
  from jt_before [OF _ this, of "js_newline w @ indent"] show ?thesis
    using assms(4) by (simp add: js_node_join)
qed

subsection \<open>Documents\<close>

definition nodes_doc :: "'f rust_std \<Rightarrow> prefix_order \<Rightarrow> jsonld_ser \<Rightarrow> jl_nodes \<Rightarrow> json list" where
  "nodes_doc S iter w nodes = map (\<lambda>(k, n). JObject (node_doc S iter w n)) (key_order nodes)"

definition graph_doc :: "'f rust_std \<Rightarrow> prefix_order \<Rightarrow> jsonld_ser \<Rightarrow> rstr \<times> jl_nodes \<Rightarrow> json" where
  "graph_doc S iter w = (\<lambda>(g, nodes).
     JObject [(lit ''@id'', JString g), (lit ''@graph'', JArray (nodes_doc S iter w nodes))])"

definition body_doc :: "'f rust_std \<Rightarrow> prefix_order \<Rightarrow> graph_order \<Rightarrow> jsonld_ser \<Rightarrow> (rstr \<times> json) list" where
  "body_doc S iter giter w =
     (if js_named_graphs w \<noteq> fmempty then
        [(lit ''@graph'', JArray (nodes_doc S iter w (js_nodes w) @ map (graph_doc S iter w) (giter (js_named_graphs w))))]
      else (case key_order (js_nodes w) of
          [] \<Rightarrow> [] | [(k, n)] \<Rightarrow> node_doc S iter w n
        | _ \<Rightarrow> [(lit ''@graph'', JArray (nodes_doc S iter w (js_nodes w)))]))"

definition output_doc :: "'f rust_std \<Rightarrow> prefix_order \<Rightarrow> graph_order \<Rightarrow> jsonld_ser \<Rightarrow> json" where
  "output_doc S iter giter w = JObject
     ((if has_context w then [(lit ''@context'', JObject (map (\<lambda>(p, i). (p, JString i)) (key_order (js_prefixes w))))] else []) @
      body_doc S iter giter w)"

definition nodes_plain :: "jl_nodes \<Rightarrow> bool" where
  "nodes_plain nodes \<longleftrightarrow> (\<forall>k n. fmlookup nodes k = Some n \<longrightarrow> node_plain n)"

definition node_texts :: "'f rust_std \<Rightarrow> prefix_order \<Rightarrow> jsonld_ser \<Rightarrow> rstr \<Rightarrow> jl_nodes \<Rightarrow> rstr list" where
  "node_texts S iter w indent nodes = map (\<lambda>(k, n).
     js_newline w @ indent @ [123] @ js_node S iter w indent True n @ js_newline w @ indent @ [125]) (key_order nodes)"

lemma nodes_array_join: "js_nodes_array S iter w nodes indent True = join [c_comma] (node_texts S iter w indent nodes)"
proof -
  let ?f = "\<lambda>(k, n). js_newline w @ indent @ [123] @ js_node S iter w indent True n @ js_newline w @ indent @ [125]"
  have "js_nodes_text S iter w indent ns False = concat (map (\<lambda>n. [c_comma] @ ?f n) ns)" for ns
    by (induction ns) (auto simp: after_first_def)
  then have "js_nodes_text S iter w indent ns True = join [c_comma] (map ?f ns)" for ns
    by (cases ns) (auto simp: after_first_def join_rest comp_def)
  then show ?thesis by (simp add: js_nodes_array_def node_texts_def)
qed

lemma nodes_texts:
  assumes "hash_order iter" "prefixes_plain w" "nodes_plain nodes" "json_space indent"
  shows "list_all2 json_text (node_texts S iter w indent nodes) (nodes_doc S iter w nodes)"
proof -
  have "node_plain n" if "(k, n) \<in> set (key_order nodes)" for k n
    using that assms(3) hash_order_in_iff [OF hash_order_key_order, of k n nodes] by (auto simp: nodes_plain_def)
  then show ?thesis
    using node_object [OF assms(1,2) _ assms(4)]
    by (auto simp: node_texts_def nodes_doc_def list_all2_map1 list_all2_map2 list_all2_same)
qed

text \<open>The text of an array of elements, closed on a line of its own.\<close>

lemma closed_array:
  assumes "list_all2 json_text ts js" "json_space sp"
  shows "json_text (lit ''['' @ join [c_comma] ts @ sp @ [c_rbracket]) (JArray js)"
proof (cases ts rule: rev_cases)
  case Nil
  then show ?thesis using assms jt_array [of sp "[]" "[]"] by (simp add: str_simps)
next
  case (snoc us u)
  then obtain ks k where js: "js = ks @ [k]" "list_all2 json_text us ks" "json_text u k"
    using assms(1) by (auto simp: list_all2_append1 list_all2_Cons1)
  then have "list_all2 json_text (us @ [u @ sp]) js" using assms(2) by (auto intro!: list_all2_appendI jt_after)
  from jt_array [OF _ this, of "[]"]
  have "json_text ([c_lbracket] @ join [c_comma] (us @ [u @ sp]) @ [c_rbracket]) (JArray js)" by simp
  moreover have "join [c_comma] (us @ [u @ v]) = join [c_comma] (us @ [u]) @ v" for v
    by (induction us) (auto simp: join_Cons)
  ultimately show ?thesis by (simp add: snoc str_simps)
qed

lemma graph_member:
  assumes "list_all2 json_text ts js" "json_space sp" "json_space before"
  shows "member_text (before @ dquoted (lit ''@graph'') @ lit '': ['' @ join [c_comma] ts @ sp @ [c_rbracket]) (lit ''@graph'', JArray js)"
  using member_before [OF assms(3) member_colon_space [OF dquoted_plain [OF plain_keys(5)] closed_array [OF assms(1,2)]]]
  by (simp add: str_simps)

lemma named_graph_text:
  assumes "hash_order iter" "prefixes_plain w" "nodes_plain nodes" "json_plain g"
  shows "\<exists>t. js_named_graph S iter w (g, nodes) = [c_comma] @ t \<and> json_text t (graph_doc S iter w (g, nodes))"
proof -
  let ?sp = "js_newline w @ js_indent w" and ?sp2 = "js_newline w @ js_indent w @ js_indent w"
  let ?id = "?sp2 @ dquoted (lit ''@id'') @ lit '': '' @ dquoted g"
  let ?gr = "?sp2 @ dquoted (lit ''@graph'') @ lit '': ['' @
    join [c_comma] (node_texts S iter w (js_indent w @ js_indent w) nodes) @ ?sp2 @ [c_rbracket]"
  have "member_text ?id (lit ''@id'', JString g)"
    using member_before [of ?sp2, OF _ member_colon_space [OF dquoted_plain [OF plain_keys(1)] dquoted_plain [OF assms(4)]]] by simp
  moreover have "member_text ?gr (lit ''@graph'', JArray (nodes_doc S iter w nodes))"
    by (intro graph_member nodes_texts assms(1-3)) simp_all
  ultimately have "list_all2 member_text [?id, ?gr] [(lit ''@id'', JString g), (lit ''@graph'', JArray (nodes_doc S iter w nodes))]"
    by simp
  from members_lines [OF _ _ _ this, of "[]" "[]" ?sp]
  have "json_text ([123] @ [] @ join ([c_comma] @ []) [?id, ?gr] @ ?sp @ [125]) (graph_doc S iter w (g, nodes))"
    by (simp add: graph_doc_def)
  from jt_before [OF _ this, of ?sp] show ?thesis
    by (intro exI [of _ "?sp @ [123] @ [] @ join ([c_comma] @ []) [?id, ?gr] @ ?sp @ [125]"] conjI)
      (simp_all add: js_named_graph_def Let_def nodes_array_join)
qed

definition ser_plain :: "jsonld_ser \<Rightarrow> bool" where
  "ser_plain w \<longleftrightarrow> prefixes_plain w \<and> nodes_plain (js_nodes w) \<and>
     (\<forall>g nodes. fmlookup (js_named_graphs w) g = Some nodes \<longrightarrow> json_plain g \<and> nodes_plain nodes) \<and>
     (js_named_graphs w \<noteq> fmempty \<longrightarrow> js_nodes w \<noteq> fmempty)"

lemma join_append: "join [c_comma] (xs @ ys) = join [c_comma] xs @ (if xs \<noteq> [] \<and> ys \<noteq> [] then [c_comma] else []) @ join [c_comma] ys"
  by (induction xs) (auto simp: join_Cons)

lemma context_member:
  assumes "prefixes_plain w"
  shows "member_text (js_newline w @ js_indent w @ dquoted (lit ''@context'') @ lit '': {'' @
      join [c_comma] (map (\<lambda>(p, i). js_newline w @ js_indent w @ js_indent w @ dquoted p @ [c_colon] @ [c_space] @ dquoted i)
        (key_order (js_prefixes w))) @ js_newline w @ js_indent w @ [125])
    (lit ''@context'', JObject (map (\<lambda>(p, i). (p, JString i)) (key_order (js_prefixes w))))"
proof -
  let ?sp = "js_newline w @ js_indent w"
  let ?ms = "map (\<lambda>(p, i). js_newline w @ js_indent w @ js_indent w @ dquoted p @ [c_colon] @ [c_space] @ dquoted i) (key_order (js_prefixes w))"
  have "member_text (js_newline w @ js_indent w @ js_indent w @ dquoted p @ [c_colon] @ [c_space] @ dquoted i) (p, JString i)"
    if "(p, i) \<in> set (key_order (js_prefixes w))" for p i
  proof -
    have "json_plain p" "json_plain i"
      using that assms hash_order_in_iff [OF hash_order_key_order, of p i "js_prefixes w"] by (auto simp: prefixes_plain_def)
    then have "member_text (dquoted p @ c_colon # ([c_space] @ dquoted i)) (p, JString i)"
      by (intro member_colon jt_before dquoted_plain) simp_all
    from member_before [OF _ this, of "js_newline w @ js_indent w @ js_indent w"] show ?thesis by simp
  qed
  then have "list_all2 member_text ?ms (map (\<lambda>(p, i). (p, JString i)) (key_order (js_prefixes w)))"
    by (auto simp: list_all2_map1 list_all2_map2 list_all2_same)
  from members_lines [OF _ _ _ this, of "[]" "[]" ?sp]
  have "json_text ([123] @ join [c_comma] ?ms @ ?sp @ [125]) (JObject (map (\<lambda>(p, i). (p, JString i)) (key_order (js_prefixes w))))"
    by simp
  from member_before [OF _ member_colon_space [OF dquoted_plain [OF plain_keys(6)] this], of ?sp]
  show ?thesis by (simp add: str_simps)
qed

lemma graphs_join:
  assumes "\<And>g. g \<in> set gs \<Longrightarrow> f g = [c_comma] @ h g" "ts \<noteq> []"
  shows "join [c_comma] ts @ concat (map f gs) = join [c_comma] (ts @ map h gs)"
  using assms(1)
proof (induction gs rule: rev_induct)
  case (snoc g gs)
  have "join [c_comma] (ts @ map h (gs @ [g])) = join [c_comma] ((ts @ map h gs) @ [h g])" by simp
  also have "\<dots> = join [c_comma] (ts @ map h gs) @ [c_comma] @ h g"
    using assms(2) by (simp only: join_append) simp
  finally show ?case using snoc by simp
qed simp

lemma body_pieces:
  assumes "hash_order iter" "hash_order giter" "ser_plain w"
  shows "\<exists>ps. js_body S iter giter w = (if has_context w \<and> ps \<noteq> [] then [c_comma] else []) @ join [c_comma] ps \<and>
    list_all2 member_text ps (body_doc S iter giter w)"
proof -
  let ?sp = "js_newline w @ js_indent w"
  have w: "prefixes_plain w" "nodes_plain (js_nodes w)" using assms(3) by (simp_all add: ser_plain_def)
  note nodes = nodes_texts [OF assms(1) w, of "js_indent w" S]
  show ?thesis
  proof (cases "js_named_graphs w = fmempty")
    case False
    let ?gs = "giter (js_named_graphs w)" and ?ts = "node_texts S iter w (js_indent w) (js_nodes w)"
    have "\<exists>t. js_named_graph S iter w g = [c_comma] @ t \<and> json_text t (graph_doc S iter w g)" if "g \<in> set ?gs" for g
    proof -
      obtain i nodes where g: "g = (i, nodes)" by (cases g)
      with that have "fmlookup (js_named_graphs w) i = Some nodes" using hash_order_in_iff [OF assms(2)] by simp
      with assms(3) show ?thesis
        unfolding g by (intro named_graph_text assms(1) w) (auto simp: ser_plain_def)
    qed
    then obtain h where h: "g \<in> set ?gs \<Longrightarrow> js_named_graph S iter w g = [c_comma] @ h g \<and> json_text (h g) (graph_doc S iter w g)" for g
      by metis
    have "key_order (js_nodes w) \<noteq> []"
      using assms(3) False hash_order_in_iff [OF hash_order_key_order, of _ _ "js_nodes w"]
      by (auto simp: ser_plain_def) (metis fmap_ext fmempty_lookup not_None_eq empty_iff list.set(1))
    then have ne: "?ts \<noteq> []" by (simp add: node_texts_def)
    have "list_all2 json_text (?ts @ map h ?gs) (nodes_doc S iter w (js_nodes w) @ map (graph_doc S iter w) ?gs)"
      using nodes h by (auto intro!: list_all2_appendI simp: list_all2_map1 list_all2_map2 list_all2_same)
    from graph_member [OF this, of ?sp ?sp] False h graphs_join [of ?gs "js_named_graph S iter w" h, OF _ ne]
    show ?thesis
      by (intro exI [of _ "[?sp @ dquoted (lit ''@graph'') @ lit '': ['' @ join [c_comma] (?ts @ map h ?gs) @ ?sp @ [c_rbracket]]"])
        (simp add: js_body_def body_doc_def Let_def nodes_array_join)
  next
    case True
    show ?thesis
    proof (cases "length (key_order (js_nodes w)) = 1")
      case single: True
      then obtain k n where kn: "key_order (js_nodes w) = [(k, n)]"
        by (metis One_nat_def length_0_conv length_Suc_conv surj_pair)
      then have n: "node_plain n"
        using w(2) hash_order_in_iff [OF hash_order_key_order, of k n "js_nodes w"] by (auto simp: nodes_plain_def)
      then have "node_pieces S iter w (js_indent w) n \<noteq> []" by (auto simp: node_pieces_def Let_def node_plain_def)
      with node_members [OF assms(1) w(1) n, of "js_indent w" S] show ?thesis
        by (intro exI [of _ "node_pieces S iter w (js_indent w) n"]) (simp add: js_body_def body_doc_def Let_def True kn js_node_join)
    next
      case several: False
      show ?thesis
      proof (cases "key_order (js_nodes w)")
        case Nil
        then show ?thesis by (intro exI [of _ "[]"]) (simp add: js_body_def body_doc_def Let_def True)
      next
        case (Cons e es)
        with several obtain e' es' where "key_order (js_nodes w) = e # e' # es'" by (cases es) auto
        moreover obtain k n where "e = (k, n)" by (cases e)
        ultimately have body: "key_order (js_nodes w) = (k, n) # e' # es'" by simp
        from graph_member [OF nodes, of ?sp ?sp] show ?thesis
          by (intro exI [of _ "[?sp @ dquoted (lit ''@graph'') @ lit '': ['' @
                join [c_comma] (node_texts S iter w (js_indent w) (js_nodes w)) @ ?sp @ [c_rbracket]]"])
            (simp add: js_body_def body_doc_def Let_def True body nodes_array_join)
      qed
    qed
  qed
qed

lemma output_text:
  assumes "hash_order iter" "hash_order giter" "ser_plain w"
  shows "json_text (js_output S iter giter w) (output_doc S iter giter w)"
proof -
  obtain ps where ps: "js_body S iter giter w = (if has_context w \<and> ps \<noteq> [] then [c_comma] else []) @ join [c_comma] ps"
    "list_all2 member_text ps (body_doc S iter giter w)" using body_pieces [OF assms] by blast
  let ?cs = "if has_context w then [js_context w] else []"
  have "js_context w @ js_body S iter giter w = join [c_comma] (?cs @ ps)"
    by (simp add: join_append ps(1)) (simp add: js_context_def)
  then have out: "js_output S iter giter w = ([123] @ [] @ join ([c_comma] @ []) (?cs @ ps) @ js_newline w @ [125]) @ js_newline w"
    by (simp add: js_output_def)
  have "prefixes_plain w" using assms(3) by (simp add: ser_plain_def)
  from context_member [OF this] have "list_all2 member_text (?cs @ ps)
      ((if has_context w then [(lit ''@context'', JObject (map (\<lambda>(p, i). (p, JString i)) (key_order (js_prefixes w))))] else []) @
       body_doc S iter giter w)"
    using ps(2) by (auto simp: js_context_def intro!: list_all2_appendI)
  then show ?thesis
    unfolding out output_doc_def by (intro jt_after members_lines) simp_all
qed

subsection \<open>What is collected\<close>

text \<open>The nodes of the default graph or of a named one.\<close>

definition graph_nodes :: "jsonld_ser \<Rightarrow> rstr option \<Rightarrow> jl_nodes" where
  "graph_nodes w h = (case h of None \<Rightarrow> js_nodes w
     | Some g \<Rightarrow> (case fmlookup (js_named_graphs w) g of Some nodes \<Rightarrow> nodes | None \<Rightarrow> fmempty))"

definition node_quads :: "rstr option \<Rightarrow> rstr \<Rightarrow> quad list \<Rightarrow> triple list" where
  "node_quads h s qs = map q_triple (filter (\<lambda>q. map_option graph_name_to_id (q_graph q) = h \<and>
     subject_to_id (t_subject (q_triple q)) = s) qs)"

definition type_of_triple :: "triple \<Rightarrow> rstr option" where
  "type_of_triple t = (case (iri_value (t_predicate t) = RDF_TYPE_TEXT, t_object t) of
     (True, ObjIri i) \<Rightarrow> Some (iri_value i) | _ \<Rightarrow> None)"

definition property_values :: "rstr \<Rightarrow> triple list \<Rightarrow> jl_value list" where
  "property_values p ts = map (\<lambda>t. object_to_value (t_object t))
     (filter (\<lambda>t. type_of_triple t = None \<and> iri_value (t_predicate t) = p) ts)"

definition node_is :: "rstr \<Rightarrow> triple list \<Rightarrow> jl_node \<Rightarrow> bool" where
  "node_is s ts n \<longleftrightarrow> jn_id n = Some s \<and> jn_types n = List.map_filter type_of_triple ts \<and>
     (\<forall>p. fmlookup (jn_properties n) p = (if property_values p ts = [] then None else Some (property_values p ts)))"

lemma map_filter_append: "List.map_filter f (xs @ ys) = List.map_filter f xs @ List.map_filter f ys"
  by (simp add: List.map_filter_def)

lemma node_is_step: "node_is s ts n \<Longrightarrow> node_is s (ts @ [t]) (node_change t n)"
proof (cases "type_of_triple t")
  case None
  moreover from this have "node_change t = node_add_property (iri_value (t_predicate t)) (object_to_value (t_object t))"
    by (cases "t_object t") (auto simp: node_change_def type_of_triple_def split: bool.splits)
  ultimately show "node_is s ts n \<Longrightarrow> node_is s (ts @ [t]) (node_change t n)"
    by (auto simp: node_is_def node_add_property_def property_values_def map_filter_append map_filter_simps split: option.splits)
next
  case (Some i)
  moreover from this have "node_change t = node_add_type i"
    by (cases "t_object t") (auto simp: node_change_def type_of_triple_def split: bool.splits)
  ultimately show "node_is s ts n \<Longrightarrow> node_is s (ts @ [t]) (node_change t n)"
    by (auto simp: node_is_def node_add_type_def property_values_def map_filter_append map_filter_simps)
qed

lemma js_quad_nodes: "graph_nodes (js_quad q w) h =
    (if h = map_option graph_name_to_id (q_graph q)
     then change_node (subject_to_id (t_subject (q_triple q))) (node_change (q_triple q)) (graph_nodes w h)
     else graph_nodes w h)"
  by (auto simp: graph_nodes_def js_quad_def js_change_def Let_def split: option.splits)

definition collects :: "quad list \<Rightarrow> jsonld_ser \<Rightarrow> bool" where
  "collects qs w \<longleftrightarrow> (\<forall>h s. case fmlookup (graph_nodes w h) s of None \<Rightarrow> node_quads h s qs = []
     | Some n \<Rightarrow> node_quads h s qs \<noteq> [] \<and> node_is s (node_quads h s qs) n)"

lemma collects_step: "collects qs w \<Longrightarrow> collects (qs @ [q]) (js_quad q w)"
  unfolding collects_def
proof (intro allI)
  fix h s
  assume "\<forall>h s. case fmlookup (graph_nodes w h) s of None \<Rightarrow> node_quads h s qs = []
     | Some n \<Rightarrow> node_quads h s qs \<noteq> [] \<and> node_is s (node_quads h s qs) n"
  then have old: "case fmlookup (graph_nodes w h) s of None \<Rightarrow> node_quads h s qs = []
     | Some n \<Rightarrow> node_quads h s qs \<noteq> [] \<and> node_is s (node_quads h s qs) n" by blast
  have fresh: "node_is s [t] (node_change t \<lparr>jn_id = Some s, jn_types = [], jn_properties = fmempty\<rparr>)" for t
    using node_is_step [of s "[]" "\<lparr>jn_id = Some s, jn_types = [], jn_properties = fmempty\<rparr>" t]
    by (simp add: node_is_def property_values_def map_filter_simps)
  show "case fmlookup (graph_nodes (js_quad q w) h) s of None \<Rightarrow> node_quads h s (qs @ [q]) = []
     | Some n \<Rightarrow> node_quads h s (qs @ [q]) \<noteq> [] \<and> node_is s (node_quads h s (qs @ [q])) n"
  proof (cases "h = map_option graph_name_to_id (q_graph q) \<and> s = subject_to_id (t_subject (q_triple q))")
    case True
    then have split: "node_quads h s (qs @ [q]) = node_quads h s qs @ [q_triple q]" by (simp add: node_quads_def)
    from True have "fmlookup (graph_nodes (js_quad q w) h) s = Some (node_change (q_triple q)
        (case fmlookup (graph_nodes w h) s of Some n \<Rightarrow> n | None \<Rightarrow> \<lparr>jn_id = Some s, jn_types = [], jn_properties = fmempty\<rparr>))"
      by (auto simp: js_quad_nodes change_node_def)
    with old split fresh node_is_step show ?thesis by (cases "fmlookup (graph_nodes w h) s") auto
  next
    case False
    then have "node_quads h s (qs @ [q]) = node_quads h s qs" by (auto simp: node_quads_def)
    moreover have "fmlookup (graph_nodes (js_quad q w) h) s = fmlookup (graph_nodes w h) s"
      using False by (auto simp: js_quad_nodes change_node_def)
    ultimately show ?thesis using old by (cases "fmlookup (graph_nodes w h) s") simp_all
  qed
qed

lemma collects_fold: "collects [] w \<Longrightarrow> collects qs (fold js_quad qs w)"
  by (induction qs rule: rev_induct) (simp_all add: collects_step)

lemma fold_settings: "js_prefixes (fold js_quad qs w) = js_prefixes w \<and> js_use_context (fold js_quad qs w) = js_use_context w \<and>
    js_pretty (fold js_quad qs w) = js_pretty w"
  by (induction qs arbitrary: w) (auto simp: js_quad_def js_change_def Let_def split: option.splits)

text \<open>The strings that are written as they are need no escape.\<close>

definition quad_plain :: "quad \<Rightarrow> bool" where
  "quad_plain q \<longleftrightarrow> (case q_graph q of None \<Rightarrow> True | Some g \<Rightarrow> json_plain (graph_name_to_id g)) \<and>
     (case type_of_triple (q_triple q) of Some i \<Rightarrow> json_plain i | None \<Rightarrow> value_plain (object_to_value (t_object (q_triple q))))"

definition fresh_serializer :: "jsonld_ser \<Rightarrow> bool" where
  "fresh_serializer w \<longleftrightarrow> prefixes_plain w \<and> js_nodes w = fmempty \<and> js_named_graphs w = fmempty"

lemma node_is_plain:
  assumes "node_is s ts n" "\<forall>t \<in> set ts. case type_of_triple t of Some i \<Rightarrow> json_plain i | None \<Rightarrow> value_plain (object_to_value (t_object t))"
  shows "node_plain n"
  using assms by (auto simp: node_plain_def node_is_def property_values_def list_all_iff List.map_filter_def split: if_splits)

lemma named_graph_keys:
  "fmlookup (js_named_graphs (fold js_quad qs w)) g \<noteq> None \<longleftrightarrow>
     fmlookup (js_named_graphs w) g \<noteq> None \<or> (\<exists>q \<in> set qs. map_option graph_name_to_id (q_graph q) = Some g)"
  by (induction qs arbitrary: w) (auto simp: js_quad_def js_change_def Let_def split: option.splits if_splits)

lemma collected_plain:
  assumes "fresh_serializer w" "list_all quad_plain qs" "(\<exists>q \<in> set qs. q_graph q = None) \<or> (\<forall>q \<in> set qs. q_graph q = None)"
  shows "collects qs (fold js_quad qs w) \<and> ser_plain (fold js_quad qs w)"
proof -
  let ?w = "fold js_quad qs w"
  have "collects [] w" using assms(1) by (simp add: collects_def graph_nodes_def fresh_serializer_def node_quads_def split: option.split)
  then have c: "collects qs ?w" by (rule collects_fold)
  have node: "node_plain n" if "fmlookup (graph_nodes ?w h) s = Some n" for h s n
  proof -
    have "node_is s (node_quads h s qs) n" using c that by (force simp: collects_def split: option.splits)
    then show ?thesis
      by (rule node_is_plain) (use assms(2) in \<open>auto simp: node_quads_def list_all_iff quad_plain_def\<close>)
  qed
  have default: "nodes_plain (js_nodes ?w)" using node [of None] by (simp add: nodes_plain_def graph_nodes_def)
  have named: "json_plain g \<and> nodes_plain nodes" if g: "fmlookup (js_named_graphs ?w) g = Some nodes" for g nodes
  proof
    obtain q where "q \<in> set qs" "map_option graph_name_to_id (q_graph q) = Some g"
      using g named_graph_keys [of qs w g] assms(1) by (auto simp: fresh_serializer_def)
    then show "json_plain g" using assms(2) by (auto simp: list_all_iff quad_plain_def)
    show "nodes_plain nodes" using node [of "Some g"] g by (simp add: nodes_plain_def graph_nodes_def)
  qed
  have "js_nodes ?w \<noteq> fmempty" if ng: "js_named_graphs ?w \<noteq> fmempty"
  proof -
    obtain g where "fmlookup (js_named_graphs ?w) g \<noteq> None" using ng by (metis fmap_ext fmempty_lookup)
    then have "\<not> (\<forall>q \<in> set qs. q_graph q = None)"
      using named_graph_keys [of qs w g] assms(1) by (auto simp: fresh_serializer_def)
    then obtain q where q: "q \<in> set qs" "q_graph q = None" using assms(3) by blast
    then have "node_quads None (subject_to_id (t_subject (q_triple q))) qs \<noteq> []" by (auto simp: node_quads_def filter_empty_conv)
    then have "fmlookup (graph_nodes ?w None) (subject_to_id (t_subject (q_triple q))) \<noteq> None"
      using c by (force simp: collects_def split: option.splits)
    then show ?thesis by (auto simp: graph_nodes_def)
  qed
  then show ?thesis
    using c default named assms(1) fold_settings [of qs w]
    by (auto simp: ser_plain_def prefixes_plain_def fresh_serializer_def)
qed

text \<open>C29: A fresh JSON-LD serializer writes a text of the JSON grammar for the document that it has
  collected, and this is one node per subject and graph, with its types and the values of each predicate in
  the order of the quads: provided that the strings it writes unescaped (graph names, types, datatypes, language tags, prefixes and
  their namespaces) need no escape, and that the default graph is not empty if there is a named one (otherwise the text starts an
  array with a comma).\<close>

theorem jsonld_serializer_correct:
  assumes "hash_order iter" "hash_order giter" "fresh_serializer w" "list_all quad_plain qs"
    and "(\<exists>q \<in> set qs. q_graph q = None) \<or> (\<forall>q \<in> set qs. q_graph q = None)"
  shows "json_text (js_output S iter giter (fold js_quad qs w)) (output_doc S iter giter (fold js_quad qs w)) \<and>
    (\<forall>h s. case fmlookup (graph_nodes (fold js_quad qs w) h) s of None \<Rightarrow> node_quads h s qs = []
       | Some n \<Rightarrow> node_quads h s qs \<noteq> [] \<and> node_is s (node_quads h s qs) n)"
  using collected_plain [OF assms(3-5)] output_text [OF assms(1,2)] unfolding collects_def by blast

text \<open>A triple with a text in a language.\<close>

definition language_quad :: quad where
  "language_quad = quad_in_default_graph (triple_new (SubjIri (iri_new_unchecked (lit ''e:s''))) (iri_new_unchecked (lit ''e:p''))
     (ObjLiteral \<lparr>lit_value = [c_dquote], lit_datatype = None, lit_language = Some (lit ''en'')\<rparr>))"

theorem jsonld_serializer_correct_witness:
  "json_text (js_output ascii_std key_order key_order (fold js_quad [language_quad] js_new))
     (output_doc ascii_std key_order key_order (fold js_quad [language_quad] js_new))"
proof -
  have "fresh_serializer js_new" by (simp add: fresh_serializer_def prefixes_plain_def js_new_def)
  moreover have "list_all quad_plain [language_quad]"
    by (simp add: quad_plain_def language_quad_def quad_in_default_graph_def quad_new_def triple_new_def type_of_triple_def
        iri_new_unchecked_def json_plain_def RDF_TYPE_TEXT_def str_simps)
  moreover have "\<exists>q \<in> set [language_quad]. q_graph q = None"
    by (simp add: language_quad_def quad_in_default_graph_def quad_new_def)
  ultimately show ?thesis
    using jsonld_serializer_correct [OF hash_order_key_order hash_order_key_order] by blast
qed

text \<open>When only named graphs have been written, the array starts with a comma.\<close>

lemma leading_comma:
  assumes "hash_order giter" "js_named_graphs w \<noteq> fmempty" "js_nodes w = fmempty"
  shows "\<exists>rest. js_output S iter giter w = [123] @ js_context w @ (if has_context w then [c_comma] else []) @
    js_newline w @ js_indent w @ dquoted (lit ''@graph'') @ lit '': [,'' @ rest"
proof -
  obtain g nodes gs where "giter (js_named_graphs w) = (g, nodes) # gs"
    using assms(1,2) by (metis fmap_ext fmempty_lookup hash_order_def list.exhaust map_of.simps(1) surj_pair)
  moreover have "js_nodes_array S iter w fmempty i True = []" for i
    by (simp add: js_nodes_array_def hash_order_empty [OF hash_order_key_order])
  ultimately show ?thesis
    by (simp add: js_output_def js_body_def Let_def assms js_named_graph_def str_simps)
qed

end
