(* ===== verification/TurtleExport.thy ===== *)
theory TurtleExport
  imports TurtleRoundTrip TurtleSafety Export "HOL-Library.Multiset"
begin

section \<open>The Turtle export read back by the Turtle parser\<close>

text \<open>
  The exporter groups the triples by subject and predicate in hash maps and writes a block per
  subject, with predicates separated by semicolons and objects by commas. The lemmas follow the
  two steps of the other Turtle round trip: the tokens of the text, and what the parser makes of
  them; a grouping keeps the triples up to their order.
\<close>

subsection \<open>Terms that survive\<close>

definition exportable_iri :: "'f rust_std \<Rightarrow> prefix_table \<Rightarrow> iri \<Rightarrow> bool" where
  "exportable_iri S ps i \<longleftrightarrow> plain_iri i \<and> list_all (\<lambda>c. tw_iri_char c = [c]) (iri_value i) \<and>
     (\<forall>p ns. fmlookup ps p = Some ns \<longrightarrow> prefix ns (iri_value i) \<longrightarrow>
        tw_local_name (drop (length ns) (iri_value i)) \<longrightarrow> lexable_local S (drop (length ns) (iri_value i)))"

definition exportable_literal :: "'f rust_std \<Rightarrow> prefix_table \<Rightarrow> literal \<Rightarrow> bool" where
  "exportable_literal S ps l \<longleftrightarrow> plain_text (lit_value l) \<and>
     (case lit_language l of Some g \<Rightarrow> plain_lang S g
      | None \<Rightarrow> (case lit_datatype l of Some d \<Rightarrow> exportable_iri S ps d | None \<Rightarrow> True))"

fun exportable_subject :: "'f rust_std \<Rightarrow> prefix_table \<Rightarrow> subject \<Rightarrow> bool" where
  "exportable_subject S ps (SubjIri i) = exportable_iri S ps i"
| "exportable_subject S ps (SubjBlank b) = plain_label S (bn_label b)"

fun exportable_object :: "'f rust_std \<Rightarrow> prefix_table \<Rightarrow> object \<Rightarrow> bool" where
  "exportable_object S ps (ObjIri i) = exportable_iri S ps i"
| "exportable_object S ps (ObjBlank b) = plain_label S (bn_label b)"
| "exportable_object S ps (ObjLiteral l) = exportable_literal S ps l"

definition exportable_triple :: "'f rust_std \<Rightarrow> prefix_table \<Rightarrow> triple \<Rightarrow> bool" where
  "exportable_triple S ps t \<longleftrightarrow> exportable_subject S ps (t_subject t) \<and> exportable_iri S ps (t_predicate t) \<and>
     exportable_object S ps (t_object t)"

text \<open>A writer whose prefixes can be read and whose indentation is blank.\<close>

definition exports :: "'f rust_std \<Rightarrow> prefix_order \<Rightarrow> turtle_writer \<Rightarrow> bool" where
  "exports S iter w \<longleftrightarrow> std_ok S \<and> hash_order iter \<and> lexable_table S (tw_prefixes w) \<and> list_all is_whitespace (tw_indent w)"

subsection \<open>The tokens of terms\<close>

lemma name_end_exported:
  assumes "std_ok S"
  shows "name_end S c_space" "name_end S c_comma" "name_end S c_nl"
  using assms space_class [OF assms]
  by (auto simp: name_end_def std_ok_def is_pn_chars_def is_pn_chars_u_def is_pn_chars_base_def
      is_ascii_digit_def is_ascii_alphabetic_def is_ascii_alphanumeric_def)

definition tw_literal_kinds :: "(rstr \<times> rstr) list \<Rightarrow> literal \<Rightarrow> 'f token_kind list" where
  "tw_literal_kinds l x = StringLiteral (lit_value x) #
     (case lit_language x of Some g \<Rightarrow> [LangTag g]
      | None \<Rightarrow> (case lit_datatype x of
          Some d \<Rightarrow> if iri_value d = xsd_string_iri then [] else [DoubleCaret, kind_by tw_local_name l (iri_value d)]
        | None \<Rightarrow> []))"

fun tw_subject_kind :: "(rstr \<times> rstr) list \<Rightarrow> subject \<Rightarrow> 'f token_kind" where
  "tw_subject_kind l (SubjIri i) = kind_by tw_local_name l (iri_value i)"
| "tw_subject_kind l (SubjBlank b) = BlankNodeLabel (bn_label b)"

definition tw_predicate_kind :: "(rstr \<times> rstr) list \<Rightarrow> iri \<Rightarrow> 'f token_kind" where
  "tw_predicate_kind l p = (if iri_value p = RDF_TYPE then KwA else kind_by tw_local_name l (iri_value p))"

fun tw_object_kinds :: "(rstr \<times> rstr) list \<Rightarrow> object \<Rightarrow> 'f token_kind list" where
  "tw_object_kinds l (ObjIri i) = [kind_by tw_local_name l (iri_value i)]"
| "tw_object_kinds l (ObjBlank b) = [BlankNodeLabel (bn_label b)]"
| "tw_object_kinds l (ObjLiteral x) = tw_literal_kinds l x"

lemma concat_single_chars: "list_all (\<lambda>c. f c = [c]) s \<Longrightarrow> concat (map f s) = s"
  by (induction s) simp_all

lemma lexes_tw_compact:
  assumes S: "std_ok S" and d: "name_end S d" and r: "lexes S (d # rest) ks" and i: "plain_iri i"
    and l: "\<forall>(p, ns) \<in> set l. lexable_prefix S p \<and> (prefix ns (iri_value i) \<longrightarrow>
        tw_local_name (drop (length ns) (iri_value i)) \<longrightarrow> lexable_local S (drop (length ns) (iri_value i)))"
  shows "lexes S ((case tw_compact l (iri_value i) of Some s \<Rightarrow> s | None \<Rightarrow> [c_lt] @ iri_value i @ [c_gt]) @ d # rest)
     (kind_by tw_local_name l (iri_value i) # ks)"
  using l
proof (induction l)
  case Nil
  then show ?case using r i by (simp add: lexes_iri)
next
  case (Cons x l)
  then show ?case using lexes_token [OF reads_prefixed [OF S d] _ r] by (cases x) auto
qed

lemma lexes_tw_iri:
  assumes "exports S iter w" "exportable_iri S (tw_prefixes w) i" "name_end S d" "lexes S (d # rest) ks"
  shows "lexes S (tw_iri iter w i @ d # rest) (kind_by tw_local_name (iter (tw_prefixes w)) (iri_value i) # ks)"
proof -
  have esc: "tw_escaped_iri (iri_value i) = iri_value i"
    using assms(2) by (simp add: tw_escaped_iri_def exportable_iri_def concat_single_chars del: tw_iri_char.simps)
  have "\<forall>(p, ns) \<in> set (iter (tw_prefixes w)). lexable_prefix S p \<and> (prefix ns (iri_value i) \<longrightarrow>
        tw_local_name (drop (length ns) (iri_value i)) \<longrightarrow> lexable_local S (drop (length ns) (iri_value i)))"
    using assms(1,2) hash_order_in_iff [of iter] by (auto simp: exports_def exportable_iri_def lexable_table_def)
  from lexes_tw_compact [OF _ assms(3,4) _ this] show ?thesis
    unfolding tw_iri_def esc using assms(1,2) by (simp add: exports_def exportable_iri_def)
qed

lemma lexes_tw_label:
  "exports S iter w \<Longrightarrow> plain_label S (bn_label b) \<Longrightarrow> name_end S d \<Longrightarrow> lexes S (d # rest) ks \<Longrightarrow>
    lexes S (tw_blank b @ d # rest) (BlankNodeLabel (bn_label b) # ks)"
  by (simp add: tw_blank_def str_simps exports_def) (rule lexes_token [OF reads_label]; simp)

lemma tw_string_same: "plain_text v \<Longrightarrow> tw_escaped_string v = escape_string v"
  by (induction v) (auto simp: tw_escaped_string_def escape_string_def plain_text_def)

lemma long_text_yields:
  "x = acc @ v \<Longrightarrow>
    yields (string_loop c_dquote True (p, tw_escaped_long_string v @ c_dquote # c_dquote # c_dquote # rest) acc) x rest"
proof (induction v arbitrary: p acc)
  case (Cons c v)
  have IH: "yields (string_loop c_dquote True (q, tw_escaped_long_string v @ c_dquote # c_dquote # c_dquote # rest) (acc @ [c])) x rest" for q
    using Cons.IH Cons.prems by simp
  have e: "tw_escaped_long_string (a # v) =
      (if a = c_bslash \<or> a = c_dquote then [c_bslash, a] else [a]) @ tw_escaped_long_string v" for a
    by (simp add: tw_escaped_long_string_def)
  consider "c = c_bslash" | "c = c_dquote" | "c \<notin> {c_bslash, c_dquote}" by auto
  then show ?case by cases (use IH in \<open>simp_all add: e unescape_def\<close>)
qed (simp add: tw_escaped_long_string_def)

lemma reads_long_text:
  "reads S (c_dquote # c_dquote # c_dquote # tw_escaped_long_string v @ c_dquote # c_dquote # c_dquote # rest) (StringLiteral v) rest"
proof (rule reads_intro)
  fix p :: lex_pos
  let ?w = "tw_escaped_long_string v @ c_dquote # c_dquote # c_dquote # rest"
  from long_text_yields [of v "[]" v "adv_pos c_dquote (adv_pos c_dquote (adv_pos c_dquote p))" rest]
  have "yields (read_string_literal c_dquote (p, c_dquote # c_dquote # c_dquote # ?w)) (StringLiteral v) rest"
    by (auto elim!: yieldsE simp: read_string_literal_def Let_def simp del: string_loop.simps)
  then show "yields (read_kind S c_dquote (p, c_dquote # c_dquote # c_dquote # ?w)) (StringLiteral v) rest"
    by (simp add: read_kind_def)
qed (simp_all add: is_whitespace_def)

lemma lexes_tw_quoted:
  assumes v: "plain_text v" and q: "rest = [] \<or> hd rest \<noteq> c_dquote" and r: "lexes S rest ks"
  shows "lexes S ((if c_nl \<in> set v \<or> c_cr \<in> set v
      then [c_dquote, c_dquote, c_dquote] @ tw_escaped_long_string v @ [c_dquote, c_dquote, c_dquote]
      else [c_dquote] @ tw_escaped_string v @ [c_dquote]) @ rest) (StringLiteral v # ks)"
  using lexes_token [OF reads_string [OF v q] _ r] lexes_token [OF reads_long_text _ r] v by (simp add: tw_string_same)

lemma lexes_tw_literal:
  assumes W: "exports S iter w" and x: "exportable_literal S (tw_prefixes w) x" and d: "name_end S d" "d \<noteq> c_dquote"
    and r: "lexes S (d # rest) ks"
  shows "lexes S (tw_literal iter w x @ d # rest) (tw_literal_kinds (iter (tw_prefixes w)) x @ ks)"
proof -
  have v: "plain_text (lit_value x)" using x by (simp add: exportable_literal_def)
  note quoted = lexes_tw_quoted [OF v]
  show ?thesis
  proof (cases "lit_language x")
    case (Some g)
    then have "lexes S (c_at # g @ d # rest) (LangTag g # ks)"
      using lexes_token [OF reads_lang [OF _ d(1)] _ r] x W by (simp add: exportable_literal_def exports_def)
    from quoted [OF _ this] Some show ?thesis
      by (simp add: tw_literal_def Let_def tw_literal_kinds_def)
  next
    case None
    show ?thesis
    proof (cases "\<exists>dt. lit_datatype x = Some dt \<and> iri_value dt \<noteq> xsd_string_iri")
      case True
      then obtain dt where dt: "lit_datatype x = Some dt" "iri_value dt \<noteq> xsd_string_iri" by blast
      then have "exportable_iri S (tw_prefixes w) dt" using x None by (simp add: exportable_literal_def)
      from lexes_token [OF reads_caret _ lexes_tw_iri [OF W this d(1) r]]
      have "lexes S (c_caret # c_caret # tw_iri iter w dt @ d # rest)
          (DoubleCaret # kind_by tw_local_name (iter (tw_prefixes w)) (iri_value dt) # ks)" by simp
      from quoted [OF _ this] None dt show ?thesis
        by (simp add: tw_literal_def Let_def tw_literal_kinds_def literal_datatype_def str_simps)
    next
      case False
      then have "iri_value (literal_datatype x) = xsd_string_iri"
        using None by (auto simp: literal_datatype_def xsd_string_def xsd_datatype_def xsd_string_iri_def split: option.splits)
      with quoted [OF _ r] d(2) None False show ?thesis
        by (auto simp: tw_literal_def Let_def tw_literal_kinds_def split: option.splits)
    qed
  qed
qed

lemma lexes_tw_object:
  "exports S iter w \<Longrightarrow> exportable_object S (tw_prefixes w) ob \<Longrightarrow> name_end S d \<Longrightarrow> d \<noteq> c_dquote \<Longrightarrow> lexes S (d # rest) ks \<Longrightarrow>
    lexes S (tw_object iter w ob @ d # rest) (tw_object_kinds (iter (tw_prefixes w)) ob @ ks)"
  by (cases ob) (simp_all add: lexes_tw_iri lexes_tw_label lexes_tw_literal)

lemma lexes_tw_subject:
  "exports S iter w \<Longrightarrow> exportable_subject S (tw_prefixes w) s \<Longrightarrow> name_end S d \<Longrightarrow> lexes S (d # rest) ks \<Longrightarrow>
    lexes S (tw_subject iter w s @ d # rest) (tw_subject_kind (iter (tw_prefixes w)) s # ks)"
  by (cases s) (simp_all add: lexes_tw_iri lexes_tw_label)

lemma lexes_tw_predicate:
  assumes W: "exports S iter w" and p: "exportable_iri S (tw_prefixes w) p" and r: "lexes S (c_space # rest) ks"
  shows "lexes S (tw_predicate iter w p @ c_space # rest) (tw_predicate_kind (iter (tw_prefixes w)) p # ks)"
proof (cases "iri_value p = RDF_TYPE")
  case True
  have "lexes S (97 # c_space # rest) (KwA # ks)"
    using lexes_token [OF reads_a _ r] W by (simp add: exports_def)
  then show ?thesis by (simp add: tw_predicate_def rdf_type_text tw_predicate_kind_def True) (simp add: str_simps)
next
  case False
  have "name_end S c_space" using W by (simp add: exports_def name_end_space)
  from lexes_tw_iri [OF W p this r] False show ?thesis
    by (simp add: tw_predicate_def rdf_type_text tw_predicate_kind_def)
qed

subsection \<open>The tokens of a document\<close>

text \<open>A block is a subject with its predicates, each with its objects.\<close>

type_synonym block = "subject \<times> (rstr \<times> object list) list"

definition exportable_pred :: "'f rust_std \<Rightarrow> prefix_table \<Rightarrow> rstr \<times> object list \<Rightarrow> bool" where
  "exportable_pred S ps e \<longleftrightarrow> exportable_iri S ps (iri_new_unchecked (fst e)) \<and> snd e \<noteq> [] \<and>
     list_all (exportable_object S ps) (snd e)"

definition exportable_block :: "'f rust_std \<Rightarrow> prefix_table \<Rightarrow> block \<Rightarrow> bool" where
  "exportable_block S ps b \<longleftrightarrow> exportable_subject S ps (fst b) \<and> snd b \<noteq> [] \<and> list_all (exportable_pred S ps) (snd b)"

definition pred_kinds :: "(rstr \<times> rstr) list \<Rightarrow> rstr \<times> object list \<Rightarrow> 'f token_kind list" where
  "pred_kinds l e = tw_predicate_kind l (iri_new_unchecked (fst e)) # tw_object_kinds l (hd (snd e)) @
     concat (map (\<lambda>ob. Comma # tw_object_kinds l ob) (tl (snd e)))"

definition block_kinds :: "(rstr \<times> rstr) list \<Rightarrow> block \<Rightarrow> 'f token_kind list" where
  "block_kinds l b = tw_subject_kind l (fst b) # pred_kinds l (hd (snd b)) @
     concat (map (\<lambda>e. Semicolon # pred_kinds l e) (tl (snd b))) @ [Dot]"

lemma enumerate_later:
  assumes "\<And>k x. f (Suc k) x = g x"
  shows "concat (map (\<lambda>(k, x). f k x) (enumerate (Suc n) xs)) = concat (map g xs)"
  by (induction xs arbitrary: n) (simp_all add: assms)

lemma concat_enumerate:
  assumes "\<And>k x. f (Suc k) x = g x" "xs \<noteq> []"
  shows "concat (map (\<lambda>(k, x). f k x) (enumerate 0 xs)) = f 0 (hd xs) @ concat (map g (tl xs))"
  using enumerate_later [of f g 0 "tl xs", OF assms(1)] assms(2) by (cases xs) simp_all

lemma reads_comma: "reads S (c_comma # rest) Comma rest"
  by (rule reads_intro) (simp_all add: read_kind_def is_whitespace_def)

lemma lexes_white: "list_all is_whitespace u \<Longrightarrow> lexes S w ks \<Longrightarrow> lexes S (u @ w) ks"
  by (induction u) (simp_all add: lexes_blank)

lemma lexes_more_objects:
  assumes W: "exports S iter w" and r: "lexes S (c_space # rest) ks" and obs: "list_all (exportable_object S (tw_prefixes w)) obs"
  shows "lexes S (concat (map (\<lambda>ob. lit '', '' @ tw_object iter w ob) obs) @ c_space # rest)
     (concat (map (\<lambda>ob. Comma # tw_object_kinds (iter (tw_prefixes w)) ob) obs) @ ks)"
  using obs
proof (induction obs)
  case (Cons ob obs)
  let ?rest = "concat (map (\<lambda>ob. lit '', '' @ tw_object iter w ob) obs) @ c_space # rest"
  obtain d v where v: "?rest = d # v" "d = c_comma \<or> d = c_space" by (cases obs) (auto simp: str_simps)
  then have "name_end S d" "d \<noteq> c_dquote" using W name_end_exported [of S] by (auto simp: exports_def)
  from lexes_tw_object [OF W _ this] Cons v
  have "lexes S (tw_object iter w ob @ ?rest) (tw_object_kinds (iter (tw_prefixes w)) ob @
      concat (map (\<lambda>ob. Comma # tw_object_kinds (iter (tw_prefixes w)) ob) obs) @ ks)" by simp
  from lexes_token [OF reads_comma _ lexes_space(1) [OF this]] show ?case by (simp add: str_simps)
qed (simp add: r)

lemma lexes_tw_objects:
  assumes W: "exports S iter w" and r: "lexes S (c_space # rest) ks"
    and obs: "list_all (exportable_object S (tw_prefixes w)) obs" "obs \<noteq> []"
  shows "lexes S (concat (map (\<lambda>(j, ob). (if j = 0 then [c_space] else lit '', '') @ tw_object iter w ob) (enumerate 0 obs)) @ c_space # rest)
     (tw_object_kinds (iter (tw_prefixes w)) (hd obs) @
      concat (map (\<lambda>ob. Comma # tw_object_kinds (iter (tw_prefixes w)) ob) (tl obs)) @ ks)"
proof -
  let ?rest = "concat (map (\<lambda>ob. lit '', '' @ tw_object iter w ob) (tl obs)) @ c_space # rest"
  have all: "exportable_object S (tw_prefixes w) (hd obs)" "list_all (exportable_object S (tw_prefixes w)) (tl obs)"
    using obs by (cases obs; simp)+
  obtain d v where v: "?rest = d # v" "d = c_comma \<or> d = c_space" by (cases "tl obs") (auto simp: str_simps)
  then have "name_end S d" "d \<noteq> c_dquote" using W name_end_exported [of S] by (auto simp: exports_def)
  from lexes_tw_object [OF W all(1) this] lexes_more_objects [OF W r all(2)] v
  have "lexes S (tw_object iter w (hd obs) @ ?rest) (tw_object_kinds (iter (tw_prefixes w)) (hd obs) @
      concat (map (\<lambda>ob. Comma # tw_object_kinds (iter (tw_prefixes w)) ob) (tl obs)) @ ks)" by simp
  then show ?thesis
    using concat_enumerate [of "\<lambda>j ob. (if j = 0 then [c_space] else lit '', '') @ tw_object iter w ob"
        "\<lambda>ob. lit '', '' @ tw_object iter w ob" obs, OF _ obs(2)]
    by (simp add: lexes_space)
qed

lemma lexes_pred:
  assumes W: "exports S iter w" and r: "lexes S (c_space # rest) ks" and e: "exportable_pred S (tw_prefixes w) e"
  shows "lexes S (tw_predicate iter w (iri_new_unchecked (fst e)) @
      concat (map (\<lambda>(j, ob). (if j = 0 then [c_space] else lit '', '') @ tw_object iter w ob) (enumerate 0 (snd e))) @ c_space # rest)
    (pred_kinds (iter (tw_prefixes w)) e @ ks)"
proof -
  let ?obs = "concat (map (\<lambda>(j, ob). (if j = 0 then [c_space] else lit '', '') @ tw_object iter w ob) (enumerate 0 (snd e)))"
  from e have p: "exportable_iri S (tw_prefixes w) (iri_new_unchecked (fst e))" "snd e \<noteq> []"
    "list_all (exportable_object S (tw_prefixes w)) (snd e)" by (simp_all add: exportable_pred_def)
  obtain v where v: "?obs @ c_space # rest = c_space # v" using p(2) by (cases "snd e") auto
  from lexes_tw_predicate [OF W p(1), of v] lexes_tw_objects [OF W r p(3,2)] v
  show ?thesis by (simp add: pred_kinds_def)
qed

definition pred_text :: "prefix_order \<Rightarrow> turtle_writer \<Rightarrow> rstr \<times> object list \<Rightarrow> rstr" where
  "pred_text iter w e = tw_indent w @ tw_predicate iter w (iri_new_unchecked (fst e)) @
     concat (map (\<lambda>(j, ob). (if j = 0 then [c_space] else lit '', '') @ tw_object iter w ob) (enumerate 0 (snd e)))"

lemma pred_block_text:
  "tw_predicate_block iter w k e = (if k = 0 then [c_nl] else lit '' ;'' @ [c_nl]) @ pred_text iter w e"
  by (cases e) (simp add: tw_predicate_block_def pred_text_def)

lemma lexes_pred_text:
  "exports S iter w \<Longrightarrow> lexes S (c_space # rest) ks \<Longrightarrow> exportable_pred S (tw_prefixes w) e \<Longrightarrow>
    lexes S (pred_text iter w e @ c_space # rest) (pred_kinds (iter (tw_prefixes w)) e @ ks)"
  unfolding pred_text_def append_assoc
  by (rule lexes_white) (simp_all add: exports_def lexes_pred [unfolded exports_def])

lemma lexes_more_preds:
  assumes W: "exports S iter w" and r: "lexes S (c_space # rest) ks"
  shows "list_all (exportable_pred S (tw_prefixes w)) es \<Longrightarrow>
    lexes S (concat (map (\<lambda>e. lit '' ;'' @ [c_nl] @ pred_text iter w e) es) @ c_space # rest)
      (concat (map (\<lambda>e. Semicolon # pred_kinds (iter (tw_prefixes w)) e) es) @ ks)"
proof (induction es)
  case (Cons e es)
  let ?rest = "concat (map (\<lambda>e. lit '' ;'' @ [c_nl] @ pred_text iter w e) es) @ c_space # rest"
  obtain v where v: "?rest = c_space # v" by (cases es) (auto simp: str_simps)
  from lexes_pred_text [OF W _ , of v _ e] Cons v
  have "lexes S (pred_text iter w e @ ?rest) (pred_kinds (iter (tw_prefixes w)) e @
      concat (map (\<lambda>e. Semicolon # pred_kinds (iter (tw_prefixes w)) e) es) @ ks)" by simp
  from lexes_space(1) [OF lexes_token [OF reads_semicolon _ lexes_space(2) [OF this]]] show ?case by (simp add: str_simps)
qed (simp add: r)

definition block_text :: "prefix_order \<Rightarrow> turtle_writer \<Rightarrow> block \<Rightarrow> rstr" where
  "block_text iter w b = tw_subject iter w (fst b) @
     concat (map (\<lambda>(k, e). tw_predicate_block iter w k e) (enumerate 0 (snd b))) @ lit '' .'' @ [c_nl]"

lemma lexes_block:
  assumes W: "exports S iter w" and b: "exportable_block S (tw_prefixes w) b" and r: "lexes S rest ks"
  shows "lexes S (block_text iter w b @ rest) (block_kinds (iter (tw_prefixes w)) b @ ks)"
proof -
  from b have b': "exportable_subject S (tw_prefixes w) (fst b)" "snd b \<noteq> []" "exportable_pred S (tw_prefixes w) (hd (snd b))"
    "list_all (exportable_pred S (tw_prefixes w)) (tl (snd b))" by (cases "snd b"; simp add: exportable_block_def)+
  let ?rest = "concat (map (\<lambda>e. lit '' ;'' @ [c_nl] @ pred_text iter w e) (tl (snd b))) @ c_space # c_dot # c_nl # rest"
  have "lexes S (c_space # c_dot # c_nl # rest) (Dot # ks)"
    by (intro lexes_space lexes_token [OF reads_dot] r) simp
  from lexes_more_preds [OF W this b'(4)]
  have more: "lexes S ?rest (concat (map (\<lambda>e. Semicolon # pred_kinds (iter (tw_prefixes w)) e) (tl (snd b))) @ Dot # ks)" .
  obtain v where v: "?rest = c_space # v" by (cases "tl (snd b)") (auto simp: str_simps)
  from lexes_space(2) [OF lexes_pred_text [OF W more [unfolded v] b'(3)]]
  have "lexes S (c_nl # pred_text iter w (hd (snd b)) @ ?rest)
      (pred_kinds (iter (tw_prefixes w)) (hd (snd b)) @ concat (map (\<lambda>e. Semicolon # pred_kinds (iter (tw_prefixes w)) e) (tl (snd b))) @ Dot # ks)"
    unfolding v by simp
  moreover have "name_end S c_nl" using W name_end_exported [of S] by (simp add: exports_def)
  ultimately have "lexes S (tw_subject iter w (fst b) @ c_nl # pred_text iter w (hd (snd b)) @ ?rest)
      (block_kinds (iter (tw_prefixes w)) b @ ks)"
    using lexes_tw_subject [OF W b'(1)] by (simp add: block_kinds_def)
  moreover have "block_text iter w b @ rest = tw_subject iter w (fst b) @ c_nl # pred_text iter w (hd (snd b)) @ ?rest"
    using concat_enumerate [of "tw_predicate_block iter w" "\<lambda>e. lit '' ;'' @ [c_nl] @ pred_text iter w e" "snd b", OF _ b'(2)]
    by (simp add: block_text_def pred_block_text str_simps)
  ultimately show ?thesis by simp
qed

subsection \<open>What the parser makes of them\<close>

lemma token_resolves:
  assumes "plain_state st" "knows st l" "plain_iri i" "tk_kind t = kind_by tw_local_name l (iri_value i)"
  shows "tk_kind t = IriRef (iri_value i) \<or>
    (\<exists>p loc. tk_kind t = PrefixedName p loc \<and> expand_prefixed_name st p loc = Inr i)"
  unfolding assms(4) by (rule kind_resolves [OF assms(1-3)])

lemma tw_predicate_parses:
  assumes "plain_state st" "knows st l" "plain_iri p" "upcoming ts pos (tw_predicate_kind l p # ks)"
  shows "parse_predicate ts pos st = Inr (p, Suc pos)"
proof (cases "iri_value p = RDF_TYPE")
  case True
  then show ?thesis using assms valid_iri_eq [of p]
    by (simp add: parse_predicate_def tok_def upcoming_Cons tw_predicate_kind_def plain_iri_def)
next
  case False
  then have kind: "pos < length ts" "tk_kind (ts ! pos) = kind_by tw_local_name l (iri_value p)"
    using assms(4) by (simp_all add: upcoming_Cons tw_predicate_kind_def)
  from token_resolves [OF assms(1-3) kind(2)] kind(1) assms show ?thesis
    by (auto simp: parse_predicate_def tok_def plain_iri_def resolve_plain)
qed

lemma tw_subject_parses:
  assumes st: "plain_state st" and kn: "knows st l" and s: "exportable_subject S ps s"
    and u: "upcoming ts pos (tw_subject_kind l s # ks)"
  shows "\<exists>st'. parse_subject S n ts pos st 0 = Inr (subject_back (tp_scope st) s, Suc pos, st') \<and> only_blanks st st'"
proof (cases s)
  case (SubjIri i)
  then have i: "plain_iri i" and kind: "pos < length ts" "tk_kind (ts ! pos) = kind_by tw_local_name l (iri_value i)"
    using s u by (simp_all add: upcoming_Cons exportable_iri_def)
  from token_resolves [OF st kn i kind(2)] kind(1) SubjIri i st show ?thesis
    by (auto simp: parse_subject_def tok_def plain_iri_def resolve_plain only_blanks_def)
next
  case (SubjBlank b)
  with get_blank_maps [OF st, of "bn_label b"] u show ?thesis
    by (auto simp: parse_subject_def tok_def upcoming_Cons)
qed

definition after_object :: "'f token_kind \<Rightarrow> bool" where
  "after_object k \<longleftrightarrow> k \<in> {Dot, Semicolon, Comma}"

lemma tw_literal_parses:
  assumes st: "plain_state st" and kn: "knows st l" and x: "exportable_literal S ps x"
    and u: "upcoming ts pos (tw_literal_kinds l x @ k # ks)" and k: "after_object k"
  shows "\<exists>pos'. parse_object S (Suc n) ts pos st 0 = Inr (ObjLiteral (literal_back x), pos', st) \<and> upcoming ts pos' (k # ks)"
proof -
  from u have head: "pos < length ts" "tk_kind (ts ! pos) = StringLiteral (lit_value x)"
    by (simp_all add: tw_literal_kinds_def upcoming_Cons)
  have "\<exists>pos'. parse_literal ts pos st (lit_value x) = Inr (ObjLiteral (literal_back x), pos', st) \<and> upcoming ts pos' (k # ks)"
  proof (cases "lit_language x")
    case (Some g)
    then have "literal_with_language (lit_value x) g = Inr (literal_back x)"
      using x by (simp add: exportable_literal_def plain_lang_def literal_with_language_def literal_back_def)
    then show ?thesis using u Some
      by (auto simp: tw_literal_kinds_def upcoming_Cons parse_literal_def Let_def lift_err_def)
  next
    case None
    show ?thesis
    proof (cases "\<exists>d. lit_datatype x = Some d \<and> iri_value d \<noteq> xsd_string_iri")
      case True
      then obtain d where d: "lit_datatype x = Some d" "iri_value d \<noteq> xsd_string_iri" by blast
      then have i: "plain_iri d" using x None by (simp add: exportable_literal_def exportable_iri_def)
      have kind: "tk_kind (ts ! Suc (Suc pos)) = kind_by tw_local_name l (iri_value d)"
        using u None d by (simp add: tw_literal_kinds_def upcoming_Cons)
      from token_resolves [OF st kn i kind] u None d i show ?thesis
        by (auto simp: tw_literal_kinds_def upcoming_Cons parse_literal_def Let_def literal_back_def parse_datatype_iri_def
            tok_def resolve_plain st plain_iri_def)
    next
      case no: False
      then show ?thesis using u None k
        by (auto simp: after_object_def tw_literal_kinds_def upcoming_Cons parse_literal_def Let_def literal_back_def split: option.splits)
    qed
  qed
  then show ?thesis using head by (auto simp: tok_def)
qed

lemma tw_object_parses:
  assumes st: "plain_state st" and kn: "knows st l" and ob: "exportable_object S ps ob"
    and u: "upcoming ts pos (tw_object_kinds l ob @ k # ks)" and k: "after_object k"
  shows "\<exists>pos' st'. parse_object S (Suc n) ts pos st 0 = Inr (object_back (tp_scope st) ob, pos', st') \<and>
    only_blanks st st' \<and> upcoming ts pos' (k # ks)"
proof (cases ob)
  case (ObjIri i)
  then have i: "plain_iri i" and kind: "pos < length ts" "tk_kind (ts ! pos) = kind_by tw_local_name l (iri_value i)"
    and next_up: "upcoming ts (Suc pos) (k # ks)" using ob u by (simp_all add: upcoming_Cons exportable_iri_def)
  from token_resolves [OF st kn i kind(2)] kind(1) next_up ObjIri i st show ?thesis
    by (auto simp: tok_def plain_iri_def resolve_plain only_blanks_def)
next
  case (ObjBlank b)
  with get_blank_maps [OF st, of "bn_label b"] u show ?thesis
    by (auto simp: tok_def upcoming_Cons)
next
  case (ObjLiteral x)
  with tw_literal_parses [OF st kn, of S ps x ts pos k ks n] ob u k st show ?thesis
    by (auto simp: only_blanks_def)
qed

text \<open>The triples of a list of objects, of a predicate and of a block.\<close>

definition object_triples :: "subject \<Rightarrow> iri \<Rightarrow> object list \<Rightarrow> triple list" where
  "object_triples s p obs = map (triple_new s p) obs"

definition pred_triples :: "subject \<Rightarrow> rstr \<times> object list \<Rightarrow> triple list" where
  "pred_triples s e = object_triples s (iri_new_unchecked (fst e)) (snd e)"

definition block_triples :: "block \<Rightarrow> triple list" where
  "block_triples b = concat (map (pred_triples (fst b)) (snd b))"

definition objects_rest :: "(rstr \<times> rstr) list \<Rightarrow> object list \<Rightarrow> 'f token_kind list" where
  "objects_rest l obs = concat (map (\<lambda>ob. Comma # tw_object_kinds l ob) obs)"

lemma objects_parse:
  assumes k: "k = Dot \<or> k = Semicolon" and p: "plain_iri p"
  shows "going st l \<Longrightarrow> list_all (exportable_object S ps) (ob # obs) \<Longrightarrow> subj = subject_back (tp_scope st) s \<Longrightarrow>
    upcoming ts pos (tw_object_kinds l ob @ objects_rest l obs @ k # ks) \<Longrightarrow> length obs + 2 \<le> n \<Longrightarrow>
    \<exists>pos' st'. parse_object_list S n ts pos subj p st 0 = Inr (pos', st') \<and>
      extends_by st (object_triples s p (ob # obs)) st' \<and> upcoming ts pos' (k # ks)"
proof (induction obs arbitrary: ob st pos n)
  case Nil
  obtain m where m: "n = Suc (Suc m)" using Nil(5) by (metis Suc_le_D add_2_eq_Suc' list.size(3) Suc_le_mono)
  have u: "upcoming ts pos (tw_object_kinds l ob @ k # ks)" using Nil(4) by (simp add: objects_rest_def)
  have st: "plain_state st" "knows st l" using Nil(1) by (simp_all add: going_def)
  from tw_object_parses [OF st _ u, of S ps m] Nil(2) k obtain pos2 st2 where
    o2: "parse_object S (Suc m) ts pos st 0 = Inr (object_back (tp_scope st) ob, pos2, st2)"
    and b2: "only_blanks st st2" and u2: "upcoming ts pos2 (k # ks)" by (auto simp: after_object_def)
  have "\<not> is_kind ts pos2 Comma" using u2 k by (auto simp: upcoming_Cons is_kind_def)
  then have "parse_object_list S n ts pos subj p st 0 = Inr (pos2, push_triple (triple_new subj p (object_back (tp_scope st) ob)) st2)"
    using o2 by (simp add: m Let_def del: parse_object.simps)
  moreover have "extends_by st (object_triples s p [ob]) (push_triple (triple_new subj p (object_back (tp_scope st) ob)) st2)"
    using b2 Nil(3) by (auto simp: extends_by_def only_blanks_def push_triple_def plain_state_def object_triples_def
        triple_back_def triple_new_def)
  ultimately show ?case using u2 by blast
next
  case (Cons ob' obs)
  obtain m where m: "n = Suc (Suc m)" "length obs + 1 \<le> m"
    using Cons.prems(5) by (cases n; cases "n - 1") auto
  have u: "upcoming ts pos (tw_object_kinds l ob @ Comma # tw_object_kinds l ob' @ objects_rest l obs @ k # ks)"
    using Cons.prems(4) by (simp add: objects_rest_def)
  have st: "plain_state st" "knows st l" using Cons.prems(1) by (simp_all add: going_def)
  from tw_object_parses [OF st _ u, of S ps m] Cons.prems(2) obtain pos2 st2 where
    o2: "parse_object S (Suc m) ts pos st 0 = Inr (object_back (tp_scope st) ob, pos2, st2)"
    and b2: "only_blanks st st2"
    and u2: "upcoming ts pos2 (Comma # tw_object_kinds l ob' @ objects_rest l obs @ k # ks)" by (auto simp: after_object_def)
  let ?st = "push_triple (triple_new subj p (object_back (tp_scope st) ob)) st2"
  have ext: "extends_by st (object_triples s p [ob]) ?st"
    using b2 Cons.prems(3) by (auto simp: extends_by_def only_blanks_def push_triple_def plain_state_def object_triples_def
        triple_back_def triple_new_def)
  have "is_kind ts pos2 Comma" "upcoming ts (Suc pos2) (tw_object_kinds l ob' @ objects_rest l obs @ k # ks)"
    using u2 by (auto simp: upcoming_Cons is_kind_def)
  moreover have "subj = subject_back (tp_scope ?st) s" using ext Cons.prems(3) by (simp add: extends_by_def)
  ultimately obtain pos' st' where
    r: "parse_object_list S (Suc m) ts (Suc pos2) subj p ?st 0 = Inr (pos', st')"
      "extends_by ?st (object_triples s p (ob' # obs)) st'" "upcoming ts pos' (k # ks)"
    using Cons.IH [OF going_after [OF Cons.prems(1) ext], of ob' "Suc pos2" "Suc m"] Cons.prems(2) m(2) by auto
  have "parse_object_list S n ts pos subj p st 0 = Inr (pos', st')"
    using o2 r(1) \<open>is_kind ts pos2 Comma\<close> by (simp add: m(1) Let_def del: parse_object.simps)
  with extends_trans [OF ext r(2)] r(3) show ?case by (auto simp: object_triples_def)
qed

lemma tw_pred_parses:
  assumes st: "going st l" and e: "exportable_pred S ps e" and k: "k = Dot \<or> k = Semicolon"
    and subj: "subj = subject_back (tp_scope st) s" and u: "upcoming ts pos (pred_kinds l e @ k # ks)" and n: "length (snd e) + 2 \<le> n"
  shows "\<exists>pos' st'. extends_by st (pred_triples s e) st' \<and> upcoming ts pos' (k # ks) \<and>
    parse_predicate_object_list S n ts pos subj st 0 =
      (if k = Semicolon then
         (let pos3 = skip_semicolons ts (pos' + 1)
          in if length ts \<le> pos3 then Inr (pos3, st')
             else if tk_kind (ts ! pos3) \<in> {Dot, CloseBracket, Eof} then Inr (pos3, st')
             else parse_predicate_object_list S (n - 1) ts pos3 subj st' 0)
       else Inr (pos', st'))"
proof -
  obtain ob obs where obs: "snd e = ob # obs" using e by (cases "snd e") (auto simp: exportable_pred_def)
  obtain m where m: "n = Suc m" "length obs + 2 \<le> m" using n obs by (cases n) auto
  let ?p = "iri_new_unchecked (fst e)"
  have p: "plain_iri ?p" and all: "list_all (exportable_object S ps) (ob # obs)"
    using e obs by (auto simp: exportable_pred_def exportable_iri_def)
  have s: "plain_state st" "knows st l" using st by (simp_all add: going_def)
  from u have u1: "upcoming ts pos (tw_predicate_kind l ?p # tw_object_kinds l ob @ objects_rest l obs @ k # ks)"
    by (simp add: pred_kinds_def objects_rest_def obs)
  note pr = tw_predicate_parses [OF s p u1]
  from u1 have "upcoming ts (Suc pos) (tw_object_kinds l ob @ objects_rest l obs @ k # ks)" by (simp add: upcoming_Cons)
  from objects_parse [OF k p st all subj this m(2)] obtain pos2 st2 where
    o2: "parse_object_list S m ts (Suc pos) subj ?p st 0 = Inr (pos2, st2)"
    and ext: "extends_by st (pred_triples s e) st2" and u2: "upcoming ts pos2 (k # ks)"
    by (auto simp: pred_triples_def obs)
  have "is_kind ts pos2 Semicolon = (k = Semicolon)" using u2 k by (auto simp: upcoming_Cons is_kind_def)
  with o2 pr ext u2 show ?thesis
    unfolding m(1) diff_Suc_1 by (intro exI [of _ pos2] exI [of _ st2]) (simp del: parse_object_list.simps)
qed

lemma tw_predicate_first:
  fixes k :: "'f token_kind"
  assumes "k = tw_predicate_kind l p"
  shows "k \<noteq> Semicolon \<and> k \<notin> {Dot, CloseBracket, Eof}"
proof -
  have "(kind_by tw_local_name l (iri_value p) :: 'f token_kind) = IriRef (iri_value p) \<or>
      (\<exists>q loc. (kind_by tw_local_name l (iri_value p) :: 'f token_kind) = PrefixedName q loc)" by (rule kind_by_cases)
  then show ?thesis by (auto simp: assms tw_predicate_kind_def)
qed

lemma tw_subject_first:
  fixes k :: "'f token_kind"
  assumes "k = tw_subject_kind l s"
  shows "(\<exists>v. k = IriRef v) \<or> (\<exists>p loc. k = PrefixedName p loc) \<or> (\<exists>v. k = BlankNodeLabel v)"
proof (cases s)
  case (SubjIri i)
  have "(kind_by tw_local_name l (iri_value i) :: 'f token_kind) = IriRef (iri_value i) \<or>
      (\<exists>q loc. (kind_by tw_local_name l (iri_value i) :: 'f token_kind) = PrefixedName q loc)" by (rule kind_by_cases)
  then show ?thesis by (auto simp: assms SubjIri)
qed (simp add: assms)

definition weight :: "(rstr \<times> object list) list \<Rightarrow> nat" where
  "weight es = sum_list (map (\<lambda>e. length (snd e)) es)"

lemma preds_parse:
  "going st l \<Longrightarrow> list_all (exportable_pred S ps) (e # es) \<Longrightarrow> subj = subject_back (tp_scope st) s \<Longrightarrow>
    upcoming ts pos (pred_kinds l e @ concat (map (\<lambda>e. Semicolon # pred_kinds l e) es) @ Dot # ks) \<Longrightarrow>
    weight (e # es) + 2 \<le> n \<Longrightarrow>
    \<exists>pos' st'. parse_predicate_object_list S n ts pos subj st 0 = Inr (pos', st') \<and>
      extends_by st (concat (map (pred_triples s) (e # es))) st' \<and> upcoming ts pos' (Dot # ks)"
proof (induction es arbitrary: e st pos n)
  case Nil
  then have e: "exportable_pred S ps e" "length (snd e) + 2 \<le> n"
    and u: "upcoming ts pos (pred_kinds l e @ Dot # ks)" by (simp_all add: weight_def)
  from tw_pred_parses [OF Nil(1) e(1) _ Nil(3) u e(2)] show ?case by auto
next
  case (Cons e' es)
  have e: "exportable_pred S ps e" "length (snd e) + 2 \<le> n" "1 \<le> length (snd e)"
    using Cons.prems(2,5) by (auto simp: weight_def exportable_pred_def Suc_le_eq)
  let ?more = "concat (map (\<lambda>e. Semicolon # pred_kinds l e) es) @ Dot # ks"
  have u: "upcoming ts pos (pred_kinds l e @ Semicolon # pred_kinds l e' @ ?more)" using Cons.prems(4) by simp
  from tw_pred_parses [OF Cons.prems(1) e(1) _ Cons.prems(3) u e(2)] obtain pos2 st2 where
    ext: "extends_by st (pred_triples s e) st2"
    and u2: "upcoming ts pos2 (Semicolon # pred_kinds l e' @ ?more)"
    and pol: "parse_predicate_object_list S n ts pos subj st 0 =
      (let pos3 = skip_semicolons ts (pos2 + 1)
        in if length ts \<le> pos3 then Inr (pos3, st2)
           else if tk_kind (ts ! pos3) \<in> {Dot, CloseBracket, Eof} then Inr (pos3, st2)
           else parse_predicate_object_list S (n - 1) ts pos3 subj st2 0)" by auto
  from u2 have u3: "upcoming ts (Suc pos2) (pred_kinds l e' @ ?more)" and inside: "Suc pos2 < length ts"
    and kind: "tk_kind (ts ! Suc pos2) = tw_predicate_kind l (iri_new_unchecked (fst e'))"
    by (simp_all add: upcoming_Cons pred_kinds_def)
  have "tk_kind (ts ! Suc pos2) \<noteq> Semicolon \<and> tk_kind (ts ! Suc pos2) \<notin> {Dot, CloseBracket, Eof}"
    using kind by (rule tw_predicate_first)
  then have first: "tk_kind (ts ! Suc pos2) \<notin> {Dot, CloseBracket, Eof}" "skip_semicolons ts (pos2 + 1) = Suc pos2"
    using skip_semicolons.simps [of ts "Suc pos2"] by (simp_all add: is_kind_def)
  then have step: "parse_predicate_object_list S n ts pos subj st 0 = parse_predicate_object_list S (n - 1) ts (Suc pos2) subj st2 0"
    using pol inside by (simp add: Let_def)
  have "subj = subject_back (tp_scope st2) s" using ext Cons.prems(3) by (simp add: extends_by_def)
  moreover have "weight (e' # es) + 2 \<le> n - 1" using Cons.prems(5) e(3) by (simp add: weight_def)
  ultimately obtain pos' st' where
    "parse_predicate_object_list S (n - 1) ts (Suc pos2) subj st2 0 = Inr (pos', st')"
    "extends_by st2 (concat (map (pred_triples s) (e' # es))) st'" "upcoming ts pos' (Dot # ks)"
    using Cons.IH [OF going_after [OF Cons.prems(1) ext], of e' "Suc pos2" "n - 1"] Cons.prems(2) u3 by auto
  then show ?case using step extends_trans [OF ext] by fastforce
qed

lemma block_parses:
  assumes st: "going st l" and b: "exportable_block S ps b" and u: "upcoming ts pos (block_kinds l b @ ks)"
    and n: "weight (snd b) + 2 \<le> n"
  shows "\<exists>pos' st'. parse_statement S n ts pos st = Inr (pos', st') \<and> extends_by st (block_triples b) st' \<and>
    upcoming ts pos' ks \<and> pos < length ts \<and> tk_kind (ts ! pos) \<noteq> Eof"
proof -
  obtain s e es where b': "b = (s, e # es)" using b by (cases b; cases "snd b") (auto simp: exportable_block_def)
  have u1: "upcoming ts pos (tw_subject_kind l s # pred_kinds l e @ concat (map (\<lambda>e. Semicolon # pred_kinds l e) es) @ Dot # ks)"
    using u by (simp add: b' block_kinds_def)
  have s: "exportable_subject S ps s" "list_all (exportable_pred S ps) (e # es)" using b by (simp_all add: b' exportable_block_def)
  have "plain_state st" "knows st l" using st by (simp_all add: going_def)
  from tw_subject_parses [OF this s(1) u1, of n] obtain st1 where
    s1: "parse_subject S n ts pos st 0 = Inr (subject_back (tp_scope st) s, Suc pos, st1)" and b1: "only_blanks st st1" by blast
  from going_blanks [OF st b1] have g1: "going st1 l" and e1: "extends_by st [] st1" by simp_all
  from u1 have u2: "upcoming ts (Suc pos) (pred_kinds l e @ concat (map (\<lambda>e. Semicolon # pred_kinds l e) es) @ Dot # ks)"
    and inside: "pos < length ts" and kind: "tk_kind (ts ! pos) = tw_subject_kind l s" by (simp_all add: upcoming_Cons)
  have "subject_back (tp_scope st) s = subject_back (tp_scope st1) s" using b1 by (simp add: only_blanks_def)
  from preds_parse [OF g1 s(2) this u2, of n] n b' obtain pos2 st2 where
    p2: "parse_predicate_object_list S n ts (Suc pos) (subject_back (tp_scope st) s) st1 0 = Inr (pos2, st2)"
    and e2: "extends_by st1 (block_triples b) st2" and u3: "upcoming ts pos2 (Dot # ks)" by (auto simp: block_triples_def)
  have first: "(\<exists>v. tk_kind (ts ! pos) = IriRef v) \<or> (\<exists>p loc. tk_kind (ts ! pos) = PrefixedName p loc) \<or>
      (\<exists>v. tk_kind (ts ! pos) = BlankNodeLabel v)"
    using kind by (rule tw_subject_first)
  then have "parse_statement S n ts pos st = parse_triples S n ts pos st"
    using inside by (auto simp: parse_statement_def tok_def)
  moreover from u3 have "skip_dot ts pos2 = Suc pos2" "upcoming ts (Suc pos2) ks"
    by (simp_all add: skip_dot_def is_kind_def upcoming_Cons)
  ultimately show ?thesis
    using s1 p2 inside first extends_trans [OF e1 e2]
    by (intro exI [of _ "Suc pos2"] exI [of _ st2]) (auto simp: parse_triples_def)
qed

lemma blocks_parse:
  "going st l \<Longrightarrow> list_all (exportable_block S ps) bs \<Longrightarrow> upcoming ts pos (concat (map (block_kinds l) bs) @ [Eof]) \<Longrightarrow>
    sum_list (map (\<lambda>b. weight (snd b)) bs) + 2 \<le> n \<Longrightarrow> length bs < k \<Longrightarrow>
    \<exists>st'. parse_loop S n k ts pos st = Inr st' \<and> extends_by st (concat (map block_triples bs)) st'"
proof (induction bs arbitrary: st pos k)
  case Nil
  then show ?case by (cases k) (auto simp: upcoming_Cons extends_by_def going_def)
next
  case (Cons b bs)
  obtain k' where k: "k = Suc k'" "length bs < k'" using Cons.prems(5) by (cases k) simp_all
  have b: "exportable_block S ps b" "weight (snd b) + 2 \<le> n"
    and u: "upcoming ts pos (block_kinds l b @ concat (map (block_kinds l) bs) @ [Eof])" using Cons.prems by simp_all
  from block_parses [OF Cons.prems(1) b(1) u b(2)] obtain pos2 st2 where
    p2: "parse_statement S n ts pos st = Inr (pos2, st2)" "extends_by st (block_triples b) st2"
      "upcoming ts pos2 (concat (map (block_kinds l) bs) @ [Eof])" "pos < length ts" "tk_kind (ts ! pos) \<noteq> Eof" by blast
  then have "parse_loop S n k ts pos st = parse_loop S n k' ts pos2 st2" by (simp add: k(1))
  with Cons.IH [OF going_after [OF Cons.prems(1) p2(2)] _ p2(3) _ k(2)] Cons.prems(2,4) extends_trans [OF p2(2)]
  show ?case by auto
qed

subsection \<open>Documents\<close>

text \<open>A text that is read as a block, whatever follows it.\<close>

definition writes_block :: "'f rust_std \<Rightarrow> prefix_order \<Rightarrow> turtle_writer \<Rightarrow> rstr \<times> block \<Rightarrow> bool" where
  "writes_block S iter w x \<longleftrightarrow> exportable_block S (tw_prefixes w) (snd x) \<and>
     (\<forall>rest ks. lexes S rest ks \<longrightarrow> lexes S (fst x @ rest) (block_kinds (iter (tw_prefixes w)) (snd x) @ ks))"

definition document_text :: "prefix_order \<Rightarrow> turtle_writer \<Rightarrow> rstr list \<Rightarrow> rstr" where
  "document_text iter w xs = tw_prefix_lines iter w @ concat xs"

lemma document_lexes:
  assumes W: "exports S iter w" and bs: "list_all (writes_block S iter w) bs"
  shows "lexes S (document_text iter w (map fst bs))
      (concat (map (\<lambda>(p, i). [PrefixKeyword, PrefixedName p [], IriRef i, Dot]) (iter (tw_prefixes w))) @
       concat (map (block_kinds (iter (tw_prefixes w))) (map snd bs)) @ [Eof])"
proof -
  from bs have body: "lexes S (concat (map fst bs)) (concat (map (block_kinds (iter (tw_prefixes w))) (map snd bs)) @ [Eof])"
    by (induction bs) (simp_all add: lexes_end writes_block_def)
  have "\<forall>(p, i) \<in> set (iter (tw_prefixes w)). lexable_prefix S p \<and> plain_iri (iri_new_unchecked i)"
    using W hash_order_in_iff [of iter] by (auto simp: exports_def lexable_table_def)
  from lexes_declarations [of S "(if fmdom (tw_prefixes w) \<noteq> {||} then [c_nl] else []) @ concat (map fst bs)", OF _ _ this]
  show ?thesis using W body by (simp add: document_text_def tw_prefix_lines_def exports_def lexes_space)
qed

lemma pred_kinds_weight: "exportable_pred S ps e \<Longrightarrow> length (snd e) \<le> length (pred_kinds l e :: 'f token_kind list)"
proof -
  assume e: "exportable_pred S ps e"
  have "length (concat (map (\<lambda>ob. Comma # tw_object_kinds l ob) obs) :: 'f token_kind list) \<ge> length obs" for obs
    by (induction obs) auto
  from this [of "tl (snd e)"] e show ?thesis by (cases "snd e") (auto simp: pred_kinds_def exportable_pred_def)
qed

lemma block_kinds_weight:
  assumes "exportable_block S ps b"
  shows "weight (snd b) + 2 \<le> length (block_kinds l b :: 'f token_kind list)"
proof -
  obtain s e es where b: "b = (s, e # es)" using assms by (cases b; cases "snd b") (auto simp: exportable_block_def)
  have all: "list_all (exportable_pred S ps) (e # es)" using assms by (simp add: b exportable_block_def)
  then have "weight es \<le> length (concat (map (\<lambda>e. Semicolon # pred_kinds l e) es) :: 'f token_kind list)"
  proof (induction es)
    case (Cons x es)
    have "length (snd x) \<le> length (pred_kinds l x :: 'f token_kind list)"
      using Cons.prems by (intro pred_kinds_weight [of S ps]) simp
    then show ?case using Cons by (simp add: weight_def)
  qed (simp add: weight_def)
  moreover have "length (snd e) \<le> length (pred_kinds l e :: 'f token_kind list)"
    using all by (intro pred_kinds_weight [of S ps]) simp
  ultimately show ?thesis by (simp add: b block_kinds_def weight_def)
qed

lemma document_parses:
  fixes S :: "'f rust_std"
  assumes W: "exports S iter w" and st: "plain_state st"
    and bs: "list_all (writes_block S iter w) bs"
  shows "\<exists>st'. turtle_parse S st (document_text iter w (map fst bs)) =
    Inr (map (triple_back (tp_scope st)) (concat (map (block_triples \<circ> snd) bs)), st')"
proof -
  let ?l = "iter (tw_prefixes w)" and ?bs = "map snd bs"
  from document_lexes [OF W bs] obtain tks where
    tks: "tokenize S (lexer_new (document_text iter w (map fst bs))) = Some (Inr tks)"
      "map tk_kind tks = concat (map (\<lambda>(p, i). [PrefixKeyword, PrefixedName p [], IriRef i, Dot]) ?l) @
        concat (map (block_kinds ?l) ?bs) @ [Eof]"
    unfolding lexes_def lexer_new_def by blast
  have all: "list_all (exportable_block S (tw_prefixes w)) ?bs" using bs by (auto simp: list_all_iff writes_block_def)
  then have bound: "sum_list (map (\<lambda>b. weight (snd b)) ?bs) + 2 * length ?bs
      \<le> length (concat (map (block_kinds ?l) ?bs) :: 'f token_kind list)"
  proof (induction ?bs arbitrary: bs)
    case (Cons b bs')
    then obtain x ys where bs: "bs = x # ys" "b = snd x" "bs' = map snd ys" by (cases bs) auto
    have "sum_list (map (\<lambda>b. weight (snd b)) (map snd ys)) + 2 * length (map snd ys)
        \<le> length (concat (map (block_kinds ?l) (map snd ys)) :: 'f token_kind list)"
      using Cons.hyps(1) [OF bs(3)] Cons.prems by (simp add: bs)
    moreover have "weight (snd (snd x)) + 2 \<le> length (block_kinds ?l (snd x) :: 'f token_kind list)"
      using Cons.prems block_kinds_weight [of S "tw_prefixes w" "snd x" ?l] by (simp add: bs)
    ultimately show ?case by (simp add: bs)
  qed simp
  have "length (concat (map (\<lambda>(p, i). [PrefixKeyword, PrefixedName p [], IriRef i, Dot :: 'f token_kind]) l)) = 4 * length l" for l
    by (induction l) auto
  then have len: "4 * length ?l + sum_list (map (\<lambda>b. weight (snd b)) ?bs) + 2 * length ?bs + 1 \<le> length tks"
    using bound arg_cong [OF tks(2), of length] by simp
  have up: "upcoming tks 0 (concat (map (\<lambda>(p, i). [PrefixKeyword, PrefixedName p [], IriRef i, Dot]) ?l) @
      concat (map (block_kinds ?l) ?bs) @ [Eof])" using tks(2) by (simp add: upcoming_def)
  let ?st0 = "st\<lparr>tp_triples := []\<rparr>"
  have "list_all (\<lambda>(p, i). plain_iri (iri_new_unchecked i)) ?l"
    using W hash_order_in_iff [of iter] by (auto simp: exports_def lexable_table_def list_all_iff)
  from header_parses [OF up this, of "length tks + 1" S "fuel_for tks" ?st0] len obtain pos where
    head: "parse_loop S (fuel_for tks) (length tks + 1) tks 0 ?st0 =
        parse_loop S (fuel_for tks) (length tks + 1 - length ?l) tks pos (add_all ?l ?st0)"
    and u: "upcoming tks pos (concat (map (block_kinds ?l) ?bs) @ [Eof])" by auto
  have "hash_order iter" using W by (simp add: exports_def)
  then have "knows (add_all ?l ?st0) ?l" by (intro add_all_knows hash_order_distinct)
  then have "going (add_all ?l ?st0) ?l" using st by (simp add: going_def add_all_def plain_state_def)
  moreover have "length ?bs < length tks + 1 - length ?l" using len by linarith
  moreover have "sum_list (map (\<lambda>b. weight (snd b)) ?bs) + 2 \<le> fuel_for tks" using len by (simp add: fuel_for_def)
  ultimately obtain st' where
    "parse_loop S (fuel_for tks) (length tks + 1) tks 0 ?st0 = Inr st'"
    "extends_by (add_all ?l ?st0) (concat (map block_triples ?bs)) st'"
    unfolding head using blocks_parse [OF _ all u] by blast
  then show ?thesis by (auto simp: turtle_parse_def tks(1) parse_tokens_def extends_by_def add_all_def)
qed

subsection \<open>Grouping\<close>

lemma lookup_group_by:
  "fmlookup (group_by key val xs) k =
     (if filter (\<lambda>x. key x = k) xs = [] then None else Some (map val (filter (\<lambda>x. key x = k) xs)))"
proof (induction xs rule: rev_induct)
  case (snoc x xs)
  have "group_by key val (xs @ [x]) = fmupd (key x)
      ((case fmlookup (group_by key val xs) (key x) of Some l \<Rightarrow> l | None \<Rightarrow> []) @ [val x]) (group_by key val xs)"
    by (simp add: group_by_def)
  then show ?case using snoc by auto
qed (simp add: group_by_def)

lemma entry_group_by:
  assumes "hash_order iter"
  shows "(k, l) \<in> set (iter (group_by key val xs)) \<longleftrightarrow>
     filter (\<lambda>x. key x = k) xs \<noteq> [] \<and> l = map val (filter (\<lambda>x. key x = k) xs)"
  using hash_order_in_iff [OF assms, of k l "group_by key val xs"] by (auto simp: lookup_group_by)

text \<open>The parts of a list by key are the list, up to the order.\<close>

lemma mset_parts:
  "distinct (map fst es) \<Longrightarrow> \<forall>e \<in> set es. mset (f e) = mset (filter (\<lambda>x. key x = fst e) xs) \<Longrightarrow>
    mset (concat (map f es)) = mset (filter (\<lambda>x. key x \<in> fst ` set es) xs)"
proof (induction es)
  case (Cons e es)
  have "key x = fst e \<Longrightarrow> key x \<notin> fst ` set es" for x using Cons.prems(1) by auto
  then have "filter_mset (\<lambda>x. key x \<in> fst ` set (e # es)) (mset xs) =
      filter_mset (\<lambda>x. key x = fst e) (mset xs) + filter_mset (\<lambda>x. key x \<in> fst ` set es) (mset xs)"
    by (induction xs) auto
  then show ?case using Cons by (simp add: mset_filter)
qed simp

lemma mset_group_by:
  assumes "hash_order iter"
    and "\<And>k l. (k, l) \<in> set (iter (group_by key val xs)) \<Longrightarrow> mset (f (k, l)) = mset (filter (\<lambda>x. key x = k) xs)"
  shows "mset (concat (map f (iter (group_by key val xs)))) = mset xs"
proof -
  let ?es = "iter (group_by key val xs)"
  have "mset (concat (map f ?es)) = mset (filter (\<lambda>x. key x \<in> fst ` set ?es) xs)"
    by (rule mset_parts) (use assms in \<open>auto simp: hash_order_distinct\<close>)
  moreover have "key x \<in> fst ` set ?es" if "x \<in> set xs" for x
    using that entry_group_by [OF assms(1), of "key x" _ key val xs] by (force simp: filter_empty_conv)
  ultimately show ?thesis by (simp cong: filter_cong)
qed

subsection \<open>The blocks of a graph\<close>

lemma exportable_iri_eq: "exportable_iri S ps i \<Longrightarrow> i = iri_new_unchecked (iri_value i)"
  by (simp add: exportable_iri_def plain_iri_def valid_iri_eq)

lemma subject_key_inject:
  "exportable_subject S ps s \<Longrightarrow> exportable_subject S ps s' \<Longrightarrow> tw_subject_key s = tw_subject_key s' \<Longrightarrow> s = s'"
  by (cases s; cases s') (auto simp: str_simps dest!: exportable_iri_eq)

definition predicates_of :: "object_order \<Rightarrow> triple list \<Rightarrow> (rstr \<times> object list) list" where
  "predicates_of piter ts = piter (group_by (\<lambda>t. iri_value (t_predicate t)) t_object ts)"

lemma predicates_of_triples:
  assumes p: "hash_order piter" and ts: "list_all (exportable_triple S ps) ts" and s: "\<forall>t \<in> set ts. t_subject t = s"
  shows "mset (block_triples (s, predicates_of piter ts)) = mset ts"
  unfolding block_triples_def predicates_of_def fst_conv snd_conv
proof (rule mset_group_by [OF p])
  fix k l assume "(k, l) \<in> set (piter (group_by (\<lambda>t. iri_value (t_predicate t)) t_object ts))"
  then have l: "l = map t_object (filter (\<lambda>t. iri_value (t_predicate t) = k) ts)" by (simp add: entry_group_by [OF p])
  have "triple_new s (iri_new_unchecked k) (t_object t) = t" if "t \<in> set ts" "iri_value (t_predicate t) = k" for t
    using that ts s exportable_iri_eq [of S ps "t_predicate t"]
    by (cases t) (auto simp: list_all_iff exportable_triple_def triple_new_def)
  then have "pred_triples s (k, l) = filter (\<lambda>t. iri_value (t_predicate t) = k) ts"
    unfolding l pred_triples_def object_triples_def fst_conv snd_conv map_map by (intro map_idI) simp
  then show "mset (pred_triples s (k, l)) = mset (filter (\<lambda>t. iri_value (t_predicate t) = k) ts)" by simp
qed

lemma predicates_exportable:
  assumes p: "hash_order piter" and ts: "list_all (exportable_triple S ps) ts" "ts \<noteq> []" and s: "exportable_subject S ps s"
  shows "exportable_block S ps (s, predicates_of piter ts)"
proof -
  have e: "exportable_pred S ps (k, l)" if "(k, l) \<in> set (predicates_of piter ts)" for k l
  proof -
    from that have kl: "filter (\<lambda>t. iri_value (t_predicate t) = k) ts \<noteq> []"
      "l = map t_object (filter (\<lambda>t. iri_value (t_predicate t) = k) ts)"
      by (simp_all add: predicates_of_def entry_group_by [OF p])
    then obtain t where t: "t \<in> set ts" "iri_value (t_predicate t) = k" by (auto simp: filter_empty_conv)
    then have "exportable_iri S ps (t_predicate t)" using ts(1) by (auto simp: list_all_iff exportable_triple_def)
    then have "exportable_iri S ps (iri_new_unchecked k)" using exportable_iri_eq t(2) by metis
    then show ?thesis using kl ts(1) by (auto simp: exportable_pred_def list_all_iff exportable_triple_def)
  qed
  have "(iri_value (t_predicate (hd ts)), map t_object (filter (\<lambda>t. iri_value (t_predicate t) = iri_value (t_predicate (hd ts))) ts))
      \<in> set (predicates_of piter ts)"
    using ts(2) by (cases ts) (auto simp: predicates_of_def entry_group_by [OF p])
  then have "predicates_of piter ts \<noteq> []" by auto
  then show ?thesis using e s by (auto simp: exportable_block_def list_all_iff)
qed

lemma subject_block_text:
  "tw_subject_block iter piter w ts = block_text iter w (t_subject (hd ts), predicates_of piter ts)"
  by (simp add: tw_subject_block_def block_text_def predicates_of_def Let_def)

text \<open>The blocks with the texts the exporter writes for them: grouped, or one for each triple.\<close>

definition grouped_blocks :: "prefix_order \<Rightarrow> subject_order \<Rightarrow> object_order \<Rightarrow> turtle_writer \<Rightarrow> triple list \<Rightarrow> (rstr \<times> block) list" where
  "grouped_blocks iter siter piter w ts =
     map (\<lambda>(k, e). ((if k = 0 then [] else [c_nl]) @ tw_subject_block iter piter w (snd e),
         (t_subject (hd (snd e)), predicates_of piter (snd e))))
       (enumerate 0 (siter (group_by (\<lambda>t. tw_subject_key (t_subject t)) (\<lambda>t. t) ts)))"

definition single_blocks :: "prefix_order \<Rightarrow> turtle_writer \<Rightarrow> triple list \<Rightarrow> (rstr \<times> block) list" where
  "single_blocks iter w ts =
     map (\<lambda>t. (tw_triple iter w t, (t_subject t, [(iri_value (t_predicate t), [t_object t])]))) ts"

lemma tw_triples_text:
  "tw_triples iter siter piter w ts = document_text iter w
     (map fst (if tw_group_by_subject w then grouped_blocks iter siter piter w ts else single_blocks iter w ts))"
  by (simp add: tw_triples_def tw_grouped_def document_text_def grouped_blocks_def single_blocks_def comp_def split_def)

lemma block_writes:
  "exports S iter w \<Longrightarrow> list_all is_whitespace u \<Longrightarrow> exportable_block S (tw_prefixes w) b \<Longrightarrow> writes_block S iter w (u @ block_text iter w b, b)"
  by (simp add: writes_block_def lexes_white lexes_block)

lemma group_facts:
  assumes h: "hash_order siter" and ts: "list_all (exportable_triple S ps) ts"
    and e: "(k, us) \<in> set (siter (group_by (\<lambda>t. tw_subject_key (t_subject t)) (\<lambda>t. t) ts))"
  shows "us = filter (\<lambda>t. tw_subject_key (t_subject t) = k) ts" "us \<noteq> []" "list_all (exportable_triple S ps) us"
    "\<forall>t \<in> set us. t_subject t = t_subject (hd us)" "exportable_subject S ps (t_subject (hd us))"
proof -
  from e show us: "us = filter (\<lambda>t. tw_subject_key (t_subject t) = k) ts" "us \<noteq> []"
    by (simp_all add: entry_group_by [OF h])
  show all: "list_all (exportable_triple S ps) us" using ts by (auto simp: us(1) list_all_iff)
  have h: "hd us \<in> set us" using us(2) by simp
  then show "exportable_subject S ps (t_subject (hd us))" using all by (auto simp: list_all_iff exportable_triple_def)
  have "\<forall>t \<in> set us. tw_subject_key (t_subject t) = k \<and> exportable_subject S ps (t_subject t)"
    using all by (auto simp: us(1) list_all_iff exportable_triple_def)
  with h show "\<forall>t \<in> set us. t_subject t = t_subject (hd us)" by (metis subject_key_inject)
qed

lemma map_enumerate_snd: "map (\<lambda>x. f (snd x)) (enumerate n xs) = map f xs"
  by (induction xs arbitrary: n) simp_all

lemma list_all_enumerate: "list_all (\<lambda>e. \<forall>k. P (k, e)) xs \<Longrightarrow> list_all P (enumerate n xs)"
  by (induction xs arbitrary: n) simp_all

lemma grouped_blocks_written:
  assumes W: "exports S iter w" and h: "hash_order siter" "hash_order piter"
    and ts: "list_all (exportable_triple S (tw_prefixes w)) ts"
  shows "list_all (writes_block S iter w) (grouped_blocks iter siter piter w ts)"
proof -
  have w: "writes_block S iter w ((if n = 0 then [] else [c_nl]) @ tw_subject_block iter piter w us,
      (t_subject (hd us), predicates_of piter us))"
    if "(k, us) \<in> set (siter (group_by (\<lambda>t. tw_subject_key (t_subject t)) (\<lambda>t. t) ts))" for n :: nat and k us
    unfolding subject_block_text
    by (rule block_writes [OF W _ predicates_exportable [OF h(2) group_facts(3,2,5) [OF h(1) ts that]]])
      (simp add: is_whitespace_def)
  have "list_all (\<lambda>e. \<forall>n::nat. writes_block S iter w ((if n = 0 then [] else [c_nl]) @ tw_subject_block iter piter w (snd e),
      (t_subject (hd (snd e)), predicates_of piter (snd e)))) (siter (group_by (\<lambda>t. tw_subject_key (t_subject t)) (\<lambda>t. t) ts))"
    unfolding list_all_iff
  proof (intro ballI allI)
    fix e and n :: nat
    assume e: "e \<in> set (siter (group_by (\<lambda>t. tw_subject_key (t_subject t)) (\<lambda>t. t) ts))"
    obtain k us where "e = (k, us)" by (cases e)
    with w [of k us n] e show "writes_block S iter w ((if n = 0 then [] else [c_nl]) @ tw_subject_block iter piter w (snd e),
        (t_subject (hd (snd e)), predicates_of piter (snd e)))" by simp
  qed
  then show ?thesis
    unfolding grouped_blocks_def list.pred_map
    by (intro list_all_enumerate) (simp add: comp_def)
qed

lemma grouped_blocks_triples:
  assumes h: "hash_order siter" "hash_order piter" and ts: "list_all (exportable_triple S ps) ts"
  shows "mset (concat (map (block_triples \<circ> snd) (grouped_blocks iter siter piter w ts))) = mset ts"
proof -
  let ?es = "siter (group_by (\<lambda>t. tw_subject_key (t_subject t)) (\<lambda>t. t) ts)"
  have "map (block_triples \<circ> snd) (grouped_blocks iter siter piter w ts) =
      map (\<lambda>e. block_triples (t_subject (hd (snd e)), predicates_of piter (snd e))) ?es"
    by (simp add: grouped_blocks_def comp_def split_def
        map_enumerate_snd [of "\<lambda>e. block_triples (t_subject (hd (snd e)), predicates_of piter (snd e))"])
  moreover have "mset (concat (map (\<lambda>e. block_triples (t_subject (hd (snd e)), predicates_of piter (snd e))) ?es)) = mset ts"
  proof (rule mset_group_by [OF h(1)])
    fix k us assume e: "(k, us) \<in> set ?es"
    note g = group_facts [OF h(1) ts e]
    show "mset (block_triples (t_subject (hd (snd (k, us))), predicates_of piter (snd (k, us)))) =
        mset (filter (\<lambda>t. tw_subject_key (t_subject t) = k) ts)"
      unfolding snd_conv predicates_of_triples [OF h(2) g(3,4)] using g(1) by simp
  qed
  ultimately show ?thesis by simp
qed

lemma single_blocks_written:
  assumes W: "exports S iter w" and ts: "list_all (exportable_triple S (tw_prefixes w)) ts"
  shows "list_all (writes_block S iter w) (single_blocks iter w ts)"
proof -
  have "writes_block S iter w (tw_triple iter w t, (t_subject t, [(iri_value (t_predicate t), [t_object t])]))"
    if "exportable_triple S (tw_prefixes w) t" for t
  proof -
    have t: "exportable_subject S (tw_prefixes w) (t_subject t)" "exportable_iri S (tw_prefixes w) (t_predicate t)"
      "exportable_object S (tw_prefixes w) (t_object t)" using that by (simp_all add: exportable_triple_def)
    have p: "iri_new_unchecked (iri_value (t_predicate t)) = t_predicate t" using exportable_iri_eq [OF t(2)] by simp
    have space: "name_end S c_space" using W by (simp add: exports_def name_end_space)
    have "lexes S (tw_triple iter w t @ rest) (block_kinds (iter (tw_prefixes w))
        (t_subject t, [(iri_value (t_predicate t), [t_object t])]) @ ks)" if "lexes S rest ks" for rest ks
    proof -
      have "lexes S (c_space # c_dot # c_nl # rest) (Dot # ks)"
        by (intro lexes_space lexes_token [OF reads_dot] that) simp
      note ob = lexes_tw_object [OF W t(3) space _ this]
      note pr = lexes_tw_predicate [OF W t(2) lexes_space(1) [OF ob]]
      from lexes_tw_subject [OF W t(1) space lexes_space(1) [OF pr]]
      show ?thesis by (simp add: tw_triple_def block_kinds_def pred_kinds_def p str_simps)
    qed
    then show ?thesis using t by (simp add: writes_block_def exportable_block_def exportable_pred_def p)
  qed
  then show ?thesis using ts by (simp add: single_blocks_def list_all_iff)
qed

lemma single_blocks_triples:
  "list_all (exportable_triple S ps) ts \<Longrightarrow> concat (map (block_triples \<circ> snd) (single_blocks iter w ts)) = ts"
proof (induction ts)
  case (Cons t ts)
  then have "triple_new (t_subject t) (iri_new_unchecked (iri_value (t_predicate t))) (t_object t) = t"
    using exportable_iri_eq [of S ps "t_predicate t"] by (cases t) (simp add: exportable_triple_def triple_new_def)
  then show ?case using Cons
    by (simp add: single_blocks_def block_triples_def pred_triples_def object_triples_def)
qed (simp add: single_blocks_def)

text \<open>C24: The Turtle export is read back, under conditions that the text must meet: the prefixes are lexable as for the serializer and the
  indentation is blank; the IRIs are valid, without backslash, white space and the characters that the writer escapes, and where
  one is abbreviated its local name is a name of the lexer (no dot at the end, no two in a row); labels are names without dots;
  texts hold no control character besides tab, line feed and carriage return; language tags are well formed and no directive
  keywords. Then for every iteration order of the three hash maps a fresh
  Turtle parser returns from the export exactly the triples, with blank nodes renamed by its scope and
  \<open>xsd:string\<close> literals plain: in their order without grouping, and as the same multiset with it. The excluded escapes and dots are
  faults, shown below.\<close>

theorem turtle_export_read_back:
  assumes "exports S iter w" "hash_order siter" "hash_order piter" "list_all (exportable_triple S (tw_prefixes w)) ts"
  shows "\<exists>us st'. turtle_parse S (fst (tp_new g)) (tw_triples iter siter piter w ts) =
      Inr (map (triple_back (tp_scope (fst (tp_new g)))) us, st') \<and>
    mset us = mset ts \<and> (\<not> tw_group_by_subject w \<longrightarrow> us = ts)"
proof -
  let ?bs = "if tw_group_by_subject w then grouped_blocks iter siter piter w ts else single_blocks iter w ts"
  have "list_all (writes_block S iter w) ?bs"
    using grouped_blocks_written [OF assms] single_blocks_written [OF assms(1,4)] by simp
  from document_parses [OF assms(1) _ this, of "fst (tp_new g)"]
  have "\<exists>st'. turtle_parse S (fst (tp_new g)) (tw_triples iter siter piter w ts) =
      Inr (map (triple_back (tp_scope (fst (tp_new g)))) (concat (map (block_triples \<circ> snd) ?bs)), st')"
    by (simp add: tw_triples_text tp_new_def scope_generate_def plain_state_def)
  moreover have "mset (concat (map (block_triples \<circ> snd) ?bs)) = mset ts"
    using grouped_blocks_triples [OF assms(2-4)] single_blocks_triples [OF assms(4)] by simp
  moreover have "\<not> tw_group_by_subject w \<Longrightarrow> concat (map (block_triples \<circ> snd) ?bs) = ts"
    using single_blocks_triples [OF assms(4)] by simp
  ultimately show ?thesis by blast
qed

definition sample_writer :: turtle_writer where
  "sample_writer = tw_new\<lparr>tw_prefixes := sample_prefixes\<rparr>"

lemma exportable_iri_sample:
  assumes "valid_iri_text v" "list_all (\<lambda>c. \<not> is_whitespace c \<and> c \<noteq> c_bslash) v" "list_all (\<lambda>c. tw_iri_char c = [c]) v"
    "prefix (lit ''http://e/'') v \<longrightarrow> lexable_local ascii_std (drop (length (lit ''http://e/'')) v)"
  shows "exportable_iri ascii_std sample_prefixes (iri_new_unchecked v)"
  using assms by (auto simp: exportable_iri_def sample_prefixes_def plain_iri_unchecked simp del: tw_iri_char.simps split: if_splits)

lemma sample_iris_exportable:
  "exportable_iri ascii_std sample_prefixes (iri_new_unchecked (lit ''http://e/s''))"
  "exportable_iri ascii_std sample_prefixes (iri_new_unchecked (lit ''http://e/n''))"
  "exportable_iri ascii_std sample_prefixes (iri_new_unchecked (lit ''http://e/l''))"
  "exportable_iri ascii_std sample_prefixes (iri_new_unchecked (lit ''http://e/C.1''))"
  "exportable_iri ascii_std sample_prefixes (iri_new_unchecked RDF_TYPE)"
  "exportable_iri ascii_std sample_prefixes xsd_integer"
  unfolding xsd_integer_def xsd_datatype_def xsd_namespace_def RDF_TYPE_def
  by (rule exportable_iri_sample; simp add: valid_iri_text_def ascii_std_def is_pn_chars_def is_pn_chars_u_def
      is_pn_chars_base_def char_class_defs str_simps)+

theorem turtle_export_read_back_witness:
  "\<exists>us st'. turtle_parse ascii_std (fst (tp_new 7)) (tw_triples key_order key_order key_order sample_writer sample_graph) =
      Inr (map (triple_back (tp_scope (fst (tp_new 7)))) us, st') \<and> mset us = mset sample_graph"
proof -
  have "exports ascii_std key_order sample_writer"
    using sample_prefixes_lexable ascii_std_ok hash_order_key_order
    by (simp add: exports_def sample_writer_def tw_new_def is_whitespace_def str_simps)
  moreover have "plain_text (lit ''-5'')" "plain_text [97, c_nl, c_dquote]"
    by (simp_all add: plain_text_def is_control_def str_simps)
  moreover have "plain_lang ascii_std (lit ''en'')"
    by (simp add: plain_lang_def validate_language_tag_def ascii_std_def char_class_defs ascii_lower_def str_simps)
  moreover have "plain_label ascii_std (lit ''x'')"
    by (simp add: ascii_std_def is_pn_chars_def is_pn_chars_u_def is_pn_chars_base_def char_class_defs str_simps)
  ultimately have "list_all (exportable_triple ascii_std (tw_prefixes sample_writer)) sample_graph"
    by (simp add: sample_graph_def sample_writer_def exportable_triple_def triple_new_def sample_iris_exportable
        exportable_literal_def bn_new_def literal_with_datatype_def)
  from turtle_export_read_back [OF \<open>exports ascii_std key_order sample_writer\<close> hash_order_key_order hash_order_key_order this, of 7]
  show ?thesis by blast
qed

subsection \<open>What does not survive\<close>

text \<open>The escapes of the exporter for characters of an IRI are not those the lexer reads: the brace of
  an IRI comes back as the text \<open>u007B\<close>.\<close>

lemma iri_escape_changed:
  "\<exists>t st. turtle_parse ascii_std (fst (tp_new 0)) (tw_triple key_order tw_new
       (triple_new (SubjIri (iri_new_unchecked (lit ''http://e/{''))) (iri_new_unchecked (lit ''http://e/p'')) (ObjBlank (bn_new (lit ''x''))))) =
     Inr ([t], st) \<and> t_subject t = SubjIri (iri_new_unchecked (lit ''http://e/u007B''))"
proof -
  have written: "tw_triple key_order tw_new (triple_new (SubjIri (iri_new_unchecked (lit ''http://e/{'')))
      (iri_new_unchecked (lit ''http://e/p'')) (ObjBlank (bn_new (lit ''x'')))) =
    lit ''<http://e/'' @ [c_bslash] @ lit ''u007B> <http://e/p> _:x .'' @ [c_nl]"
    by (simp add: tw_triple_def triple_new_def tw_iri_def tw_new_def tw_predicate_def tw_blank_def bn_new_def
        tw_escaped_iri_def u_escape_def upper_hex4_def upper_hex_def hash_order_empty [OF hash_order_key_order] iri_new_unchecked_def str_simps is_control_def)
  show ?thesis unfolding written
    by (simp add: lexer_eval parser_eval ascii_std_ok iri_new_unchecked_def triple_new_def)
qed

text \<open>Two dots in a row are a local name for the exporter, but not for the lexer: the export of such an
  IRI under a prefix is no document.\<close>

lemma two_dots_rejected:
  "\<exists>e. turtle_parse ascii_std (fst (tp_new 0)) (tw_triple key_order sample_writer
       (triple_new (SubjIri (iri_new_unchecked (lit ''http://e/a..b''))) (iri_new_unchecked (lit ''http://e/p'')) (ObjBlank (bn_new (lit ''x''))))) =
     Inl (Fail e)"
proof -
  have order: "key_order sample_prefixes = [(lit ''ex'', lit ''http://e/'')]"
    unfolding sample_prefixes_def by (rule hash_order_single [OF hash_order_key_order])
  have written: "tw_triple key_order sample_writer (triple_new (SubjIri (iri_new_unchecked (lit ''http://e/a..b'')))
      (iri_new_unchecked (lit ''http://e/p'')) (ObjBlank (bn_new (lit ''x'')))) = lit ''ex:a..b ex:p _:x .'' @ [c_nl]"
    by (simp add: tw_triple_def triple_new_def tw_iri_def tw_new_def sample_writer_def order tw_predicate_def tw_blank_def bn_new_def
        tw_local_name_def iri_new_unchecked_def str_simps char_class_defs)
  show ?thesis unfolding written by (simp add: lexer_eval parser_eval ascii_std_ok)
qed

end
