(* ===== verification/JsonReader.thy ===== *)
theory JsonReader
  imports JsonResults
begin

section \<open>A reader of JSON texts\<close>

text \<open>
  A reader for the grammar of \<open>JsonResults\<close>. It returns the value of every text in the grammar, so no text
  stands for two values. The fuel is the length of the text.
\<close>

definition skip_space :: "rstr \<Rightarrow> rstr" where
  "skip_space s = dropWhile (\<lambda>c. c = c_space \<or> c = c_tab \<or> c = c_nl \<or> c = c_cr) s"

definition simple_escape :: "rchar \<Rightarrow> rchar option" where
  "simple_escape = map_of [(c_dquote, c_dquote), (c_bslash, c_bslash), (c_slash, c_slash), (98, 8), (102, 12),
     (110, c_nl), (114, c_cr), (116, c_tab)]"

fun read_chars :: "rstr \<Rightarrow> (rstr \<times> rstr) option" where
  "read_chars [] = None"
| "read_chars (c # s) =
     (if c = c_dquote then Some ([], s)
      else if c = c_bslash then (case s of [] \<Rightarrow> None
        | e # s \<Rightarrow>
            if e = 117 then (case s of
                a # b # d # f # s \<Rightarrow>
                  if list_all is_hex [a, b, d, f]
                  then map_option (map_prod (Cons (((hex_value a * 16 + hex_value b) * 16 + hex_value d) * 16 + hex_value f)) id) (read_chars s)
                  else None
              | _ \<Rightarrow> None)
            else (case simple_escape e of None \<Rightarrow> None | Some x \<Rightarrow> map_option (map_prod (Cons x) id) (read_chars s)))
      else if 32 \<le> c then map_option (map_prod (Cons c) id) (read_chars s) else None)"

fun read_value :: "nat \<Rightarrow> rstr \<Rightarrow> (json \<times> rstr) option"
  and read_elements :: "nat \<Rightarrow> rstr \<Rightarrow> (json list \<times> rstr) option"
  and read_members :: "nat \<Rightarrow> rstr \<Rightarrow> ((rstr \<times> json) list \<times> rstr) option" where
  "read_value 0 s = None"
| "read_value (Suc n) s = (case skip_space s of [] \<Rightarrow> None
     | c # r \<Rightarrow>
         if c = c_dquote then map_option (map_prod JString id) (read_chars r)
         else if c = c_lbracket then (case skip_space r of [] \<Rightarrow> None
           | x # u \<Rightarrow> if x = c_rbracket then Some (JArray [], u) else map_option (map_prod JArray id) (read_elements n r))
         else if c = 123 then (case skip_space r of [] \<Rightarrow> None
           | x # u \<Rightarrow> if x = 125 then Some (JObject [], u) else map_option (map_prod JObject id) (read_members n r))
         else if prefix (lit ''true'') (c # r) then Some (JBool True, drop 4 (c # r))
         else if prefix (lit ''false'') (c # r) then Some (JBool False, drop 5 (c # r))
         else None)"
| "read_elements 0 s = None"
| "read_elements (Suc n) s = (case read_value n s of None \<Rightarrow> None
     | Some (j, r) \<Rightarrow> (case skip_space r of [] \<Rightarrow> None
         | x # u \<Rightarrow> if x = c_comma then map_option (map_prod (Cons j) id) (read_elements n u)
             else if x = c_rbracket then Some ([j], u) else None))"
| "read_members 0 s = None"
| "read_members (Suc n) s = (case read_value n s of
       Some (JString k, r) \<Rightarrow> (case skip_space r of [] \<Rightarrow> None
         | x # u \<Rightarrow> if x \<noteq> c_colon then None else (case read_value n u of None \<Rightarrow> None
             | Some (j, r) \<Rightarrow> (case skip_space r of [] \<Rightarrow> None
                 | x # u \<Rightarrow> if x = c_comma then map_option (map_prod (Cons (k, j)) id) (read_members n u)
                     else if x = 125 then Some ([(k, j)], u) else None)))
     | _ \<Rightarrow> None)"

definition json_read :: "rstr \<Rightarrow> json option" where
  "json_read t = (case read_value (length t) t of
     Some (j, r) \<Rightarrow> if skip_space r = [] then Some j else None | None \<Rightarrow> None)"

subsection \<open>It reads the grammar\<close>

lemma chars_read: "json_chars t v \<Longrightarrow> read_chars (t @ c_dquote # r) = Some (v, r)"
proof (induction rule: json_chars.induct)
  case (jc_escape e c t v)
  then have "simple_escape e = Some c \<and> e \<noteq> 117" by (auto simp: simple_escapes_def simple_escape_def)
  then show ?case using jc_escape by simp
qed simp_all

lemma skip_simps [simp]: "skip_space [] = []"
  "skip_space (c # s) = (if c = c_space \<or> c = c_tab \<or> c = c_nl \<or> c = c_cr then skip_space s else c # s)"
  by (simp_all add: skip_space_def)

lemma skip_over: "json_space w \<Longrightarrow> skip_space (w @ s) = skip_space s"
  by (induction w) (auto simp: json_space_def)

lemma skip_skip: "skip_space (skip_space s) = skip_space s"
  by (simp add: skip_space_def)

lemma read_value_skip: "read_value n (skip_space s) = read_value n s"
  by (cases n) (simp_all add: skip_skip)

lemma read_after_space:
  assumes "json_space w"
  shows "read_value n (w @ s) = read_value n s" "read_elements n (w @ s) = read_elements n s" "read_members n (w @ s) = read_members n s"
proof -
  show v: "read_value n (w @ s) = read_value n s" for n
    using read_value_skip [of n "w @ s"] read_value_skip [of n s] skip_over [OF assms] by simp
  show "read_elements n (w @ s) = read_elements n s" by (cases n) (simp_all add: v)
  show "read_members n (w @ s) = read_members n s" by (cases n) (simp_all add: v)
qed

text \<open>A text is read before anything else, and does not start like what may stand in its place.\<close>

definition reads_text :: "rstr \<Rightarrow> json \<Rightarrow> bool" where
  "reads_text t j \<longleftrightarrow> (\<forall>n rest. length t \<le> n \<longrightarrow>
      (\<exists>r. read_value n (t @ rest) = Some (j, r) \<and> skip_space r = skip_space rest)) \<and>
    (\<exists>c u. skip_space t = c # u \<and> c \<noteq> c_rbracket \<and> c \<noteq> 125)"

lemma reads_textD: "reads_text t j \<Longrightarrow> length t \<le> n \<Longrightarrow> \<exists>r. read_value n (t @ rest) = Some (j, r) \<and> skip_space r = skip_space rest"
  by (simp add: reads_text_def)

lemma skip_append: "skip_space t = c # u \<Longrightarrow> skip_space (t @ s) = c # u @ s"
  by (induction t) (auto split: if_splits)

lemma reads_start: "reads_text t j \<Longrightarrow> \<exists>c u. skip_space (t @ s) = c # u \<and> c \<noteq> c_rbracket \<and> c \<noteq> 125"
  unfolding reads_text_def using skip_append by fastforce

lemma elements_read:
  "list_all2 reads_text ts js \<Longrightarrow> ts \<noteq> [] \<Longrightarrow> length (join [c_comma] ts) < n \<Longrightarrow>
    read_elements n (join [c_comma] ts @ c_rbracket # rest) = Some (js, rest)"
proof (induction ts js arbitrary: n rule: list_all2_induct)
  case (Cons t ts j js)
  obtain m where n: "n = Suc m" using Cons.prems(2) by (cases n) auto
  show ?case
  proof (cases "ts = []")
    case True
    then show ?thesis
      using Cons.hyps reads_textD [OF Cons.hyps(1), of m "c_rbracket # rest"] Cons.prems n by fastforce
  next
    case False
    have "length t \<le> m" using Cons.prems n False by (simp add: join_Cons)
    from reads_textD [OF Cons.hyps(1) this, of "c_comma # join [c_comma] ts @ c_rbracket # rest"] obtain r where
      "read_value m (t @ c_comma # join [c_comma] ts @ c_rbracket # rest) = Some (j, r)"
      "skip_space r = c_comma # join [c_comma] ts @ c_rbracket # rest" by auto
    moreover have "length (join [c_comma] ts) < m" using Cons.prems n False by (simp add: join_Cons)
    ultimately show ?thesis using Cons.IH [OF False] False n by (simp add: join_Cons)
  qed
qed simp

definition reads_member :: "rstr \<Rightarrow> rstr \<times> json \<Rightarrow> bool" where
  "reads_member t m \<longleftrightarrow> (\<exists>a b. t = a @ c_colon # b \<and> reads_text a (JString (fst m)) \<and> reads_text b (snd m))"

lemma members_read:
  "list_all2 reads_member ts ms \<Longrightarrow> ts \<noteq> [] \<Longrightarrow> length (join [c_comma] ts) < n \<Longrightarrow>
    read_members n (join [c_comma] ts @ 125 # rest) = Some (ms, rest)"
proof (induction ts ms arbitrary: n rule: list_all2_induct)
  case (Cons t ts e ms)
  obtain m where n: "n = Suc m" using Cons.prems(2) by (cases n) auto
  obtain a b where t: "t = a @ c_colon # b" "reads_text a (JString (fst e))" "reads_text b (snd e)"
    using Cons.hyps(1) by (auto simp: reads_member_def)
  let ?s = "if ts = [] then 125 # rest else c_comma # join [c_comma] ts @ 125 # rest"
  have len: "length a \<le> m" "length b \<le> m" using Cons.prems n t(1) by (auto simp: join_Cons split: if_splits)
  from reads_textD [OF t(2) len(1), of "c_colon # b @ ?s"] obtain r where
    r: "read_value m (a @ c_colon # b @ ?s) = Some (JString (fst e), r)" "skip_space r = c_colon # b @ ?s" by auto
  from reads_textD [OF t(3) len(2), of ?s] obtain u where
    u: "read_value m (b @ ?s) = Some (snd e, u)" "skip_space u = ?s" by (auto split: if_splits)
  have split: "join [c_comma] (t # ts) @ 125 # rest = a @ c_colon # b @ ?s" by (simp add: t(1) join_Cons)
  show ?case
  proof (cases "ts = []")
    case True
    then show ?thesis unfolding split using r u n Cons.hyps by simp
  next
    case False
    then have "length (join [c_comma] ts) < m" using Cons.prems n t(1) by (simp add: join_Cons)
    then show ?thesis unfolding split using r u n Cons.IH [OF False] False by simp
  qed
qed simp

lemma reads_textI:
  assumes "\<And>n rest. length t \<le> Suc n \<Longrightarrow> read_value (Suc n) (t @ rest) = Some (j, rest)"
    and "t = c # u" "c \<notin> {c_space, c_tab, c_nl, c_cr, c_rbracket, 125}"
  shows "reads_text t j"
  unfolding reads_text_def
proof (intro conjI allI impI)
  fix n rest
  assume "length t \<le> n"
  then obtain m where "n = Suc m" using assms(2) by (cases n) auto
  then show "\<exists>r. read_value n (t @ rest) = Some (j, r) \<and> skip_space r = skip_space rest"
    using assms(1) \<open>length t \<le> n\<close> by auto
qed (use assms(2,3) in simp)

lemma text_read: "json_text t j \<Longrightarrow> reads_text t j"
proof (induction rule: json_text.induct)
  case (jt_string t v)
  then show ?case using chars_read by (intro reads_textI) auto
next
  case jt_true
  show ?case by (rule reads_textI) (auto simp: str_simps)
next
  case jt_false
  show ?case by (rule reads_textI) (auto simp: str_simps)
next
  case (jt_space w w' t j)
  have "\<exists>r. read_value n ((w @ t @ w') @ rest) = Some (j, r) \<and> skip_space r = skip_space rest" if "length (w @ t @ w') \<le> n" for n rest
    using reads_textD [OF jt_space.IH, of n "w' @ rest"] that
    by (simp add: read_after_space [OF jt_space.hyps(1)] skip_over [OF jt_space.hyps(2)])
  moreover have "\<exists>c u. skip_space (w @ t @ w') = c # u \<and> c \<noteq> c_rbracket \<and> c \<noteq> 125"
    using reads_start [OF jt_space.IH, of w'] by (simp add: skip_over [OF jt_space.hyps(1)])
  ultimately show ?case unfolding reads_text_def by blast
next
  case (jt_array w ts js)
  have ts: "list_all2 reads_text ts js" using jt_array(2) by (rule list_all2_mono) blast
  show ?case
  proof (rule reads_textI)
    fix n rest
    assume len: "length ([c_lbracket] @ w @ join [c_comma] ts @ [c_rbracket]) \<le> Suc n"
    show "read_value (Suc n) (([c_lbracket] @ w @ join [c_comma] ts @ [c_rbracket]) @ rest) = Some (JArray js, rest)"
    proof (cases ts)
      case Nil
      then show ?thesis using ts by (simp add: skip_over [OF jt_array(1)])
    next
      case (Cons t us)
      then obtain j where "reads_text t j" using ts by (auto simp: list_all2_Cons1)
      from reads_start [OF this, of "(if us = [] then [] else [c_comma] @ join [c_comma] us) @ c_rbracket # rest"] Cons
      obtain c u where "skip_space (join [c_comma] ts @ c_rbracket # rest) = c # u" "c \<noteq> c_rbracket" by (auto simp: join_Cons)
      moreover have "read_elements n (join [c_comma] ts @ c_rbracket # rest) = Some (js, rest)"
        using elements_read [OF ts, of n rest] len Cons by simp
      ultimately show ?thesis
        by (simp add: skip_over [OF jt_array(1)] read_after_space [OF jt_array(1)])
    qed
  qed (simp, simp)
next
  case (jt_object w ts ms)
  have ts: "list_all2 reads_member ts ms"
    using jt_object(2) by (rule list_all2_mono) (auto simp: reads_member_def)
  show ?case
  proof (rule reads_textI)
    fix n rest
    assume len: "length ([123] @ w @ join [c_comma] ts @ [125]) \<le> Suc n"
    show "read_value (Suc n) (([123] @ w @ join [c_comma] ts @ [125]) @ rest) = Some (JObject ms, rest)"
    proof (cases ts)
      case Nil
      then show ?thesis using ts by (simp add: skip_over [OF jt_object(1)])
    next
      case (Cons t us)
      then obtain a b k where t: "t = a @ c_colon # b" "reads_text a (JString k)" using ts by (auto simp: list_all2_Cons1 reads_member_def)
      from reads_start [OF t(2), of "c_colon # b @ (if us = [] then [] else [c_comma] @ join [c_comma] us) @ 125 # rest"] Cons t(1)
      obtain c u where "skip_space (join [c_comma] ts @ 125 # rest) = c # u" "c \<noteq> 125" by (auto simp: join_Cons)
      moreover have "read_members n (join [c_comma] ts @ 125 # rest) = Some (ms, rest)"
        using members_read [OF ts, of n rest] len Cons by simp
      ultimately show ?thesis
        by (simp add: skip_over [OF jt_object(1)] read_after_space [OF jt_object(1)])
    qed
  qed (simp, simp)
qed

text \<open>The reader returns the value of every text, so a text has one value.\<close>

lemma json_text_read: "json_text t j \<Longrightarrow> json_read t = Some j"
  using reads_textD [OF text_read, of t j "length t" "[]"] by (auto simp: json_read_def)

lemma json_text_unique: "json_text t j \<Longrightarrow> json_text t i \<Longrightarrow> i = j"
  using json_text_read [of t j] json_text_read [of t i] by simp

end
