(* ===== verification/JsonLdRoundTrip.thy ===== *)
theory JsonLdRoundTrip
  imports JsonLdText JsonLdFacts TurtleExport JsonReader
begin

section \<open>Reading what the JSON-LD serializer writes\<close>

text \<open>
  The JSON-LD parser reads the document of a single subject that the serializer writes, with or without a
  context of prefixes: compaction is undone by expansion, the members of the node become its triples.
\<close>

subsection \<open>JSON documents as values\<close>

text \<open>A parser of JSON text stores objects as sorted maps, in which the last member of a name counts.\<close>

primrec json_value :: "json \<Rightarrow> jvalue" where
  "json_value (JString s) = VString s"
| "json_value (JBool b) = VBool b"
| "json_value (JArray js) = VArray (map json_value js)"
| "json_value (JObject ms) = VObject (jm_extend [] (map (map_prod id json_value) ms))"

lemma extend_Cons: "jm_extend m (e # n) = jm_extend (jm_insert (fst e) (snd e) m) n"
  by (simp add: jm_extend_def case_prod_beta)

lemma extend_Nil [simp]: "jm_extend m [] = m"
  by (simp add: jm_extend_def)

lemma extend_sorted: "sorted_wrt (<) (map fst m) \<Longrightarrow> sorted_wrt (<) (map fst (jm_extend m n))"
  by (induction n arbitrary: m) (simp_all add: extend_Cons sorted_insert)

lemma set_insert: "k \<notin> set (map fst m) \<Longrightarrow> set (jm_insert k v m) = insert (k, v) (set m)"
  by (induction k v m rule: jm_insert.induct) auto

lemma set_extend:
  "distinct (map fst n) \<Longrightarrow> set (map fst m) \<inter> set (map fst n) = {} \<Longrightarrow> set (jm_extend m n) = set m \<union> set n"
proof (induction n arbitrary: m)
  case (Cons e n)
  have new: "fst e \<notin> set (map fst m)" using Cons.prems by auto
  have "set (map fst (jm_insert (fst e) (snd e) m)) \<inter> set (map fst n) = {}"
    using Cons.prems by (simp only: keys_insert) auto
  then show ?case using Cons.IH Cons.prems by (simp only: extend_Cons) (auto simp: set_insert [OF new])
qed simp

lemma sorted_maps_eq:
  fixes a b :: jmap
  assumes "sorted_wrt (<) (map fst a)" "sorted_wrt (<) (map fst b)" "set a = set b"
  shows "a = b"
proof (rule map_sorted_distinct_set_unique [where f = fst])
  show "inj_on fst (set a \<union> set b)" using assms by (simp add: strict_sorted_iff distinct_map)
qed (use assms in \<open>simp_all add: strict_sorted_iff\<close>)

text \<open>An object with sorted members is the value with these members.\<close>

lemma extend_sorted_id: "sorted_wrt (<) (map fst n) \<Longrightarrow> jm_extend [] n = n"
  using extend_sorted [of "[]" n] by (intro sorted_maps_eq) (simp_all add: set_extend strict_sorted_iff)

lemma extend_set_eq:
  assumes "distinct (map fst a)" "distinct (map fst b)" "set a = set b"
  shows "jm_extend [] a = jm_extend [] b"
  using assms by (intro sorted_maps_eq) (simp_all add: extend_sorted set_extend)

lemma extend_mset: "distinct (map fst n) \<Longrightarrow> mset (jm_extend [] n) = mset n"
proof (rule set_eq_iff_mset_eq_distinct [THEN iffD1])
  assume d: "distinct (map fst n)"
  show "distinct (jm_extend [] n)" using extend_sorted [of "[]" n] by (simp add: strict_sorted_iff distinct_map)
  show "distinct n" using d by (simp add: distinct_map)
  show "set (jm_extend [] n) = set n" using d by (simp add: set_extend)
qed

subsection \<open>Contexts of prefixes\<close>

text \<open>The context a table of prefixes is read as.\<close>

definition prefix_context :: "(rstr, term_definition) fmap \<Rightarrow> resolved_context" where
  "prefix_context T = rc_default\<lparr>rc_terms := T\<rparr>"

definition terms_of :: "prefix_table \<Rightarrow> (rstr, term_definition) fmap \<Rightarrow> bool" where
  "terms_of P T \<longleftrightarrow> (\<forall>p. fmlookup T p = map_option td_of_iri (fmlookup P p))"

text \<open>Prefixes that a context can declare, and namespaces that only names of other schemes start with.\<close>

definition context_prefixes :: "prefix_table \<Rightarrow> bool" where
  "context_prefixes P \<longleftrightarrow> (\<forall>p n. fmlookup P p = Some n \<longrightarrow> c_colon \<notin> set p \<and> \<not> keyword p \<and> p \<noteq> [c_underscore] \<and>
     contains_str (lit ''://'') n \<and> \<not> prefix (lit ''_:'') n)"

lemma context_prefix_members:
  assumes "list_all (\<lambda>(p, n). \<not> keyword p \<and> contains_str (lit ''://'') n) ps"
  shows "context_members (map (\<lambda>(p, n). (p, VString n)) ps) c =
    Inr (c\<lparr>rc_terms := fold (\<lambda>(p, n). fmupd p (td_of_iri n)) ps (rc_terms c)\<rparr>)"
  using assms
proof (induction ps arbitrary: c)
  case (Cons e ps)
  obtain p n where e: "e = (p, n)" by (cases e)
  have "\<not> keyword p" "context_expand_iri c n = n" using Cons.prems e by (simp_all add: context_expand_iri_def)
  moreover from this have "p \<noteq> lit ''@base''" "p \<noteq> lit ''@vocab''" "p \<noteq> lit ''@language''"
    by (auto simp: keyword_def str_simps)
  ultimately show ?case using Cons e by simp
qed simp

lemma lookup_terms:
  "distinct (map fst ps) \<Longrightarrow> fmlookup (fold (\<lambda>(p, n). fmupd p (td_of_iri n)) ps T) k =
     (case map_of ps k of Some n \<Rightarrow> Some (td_of_iri n) | None \<Rightarrow> fmlookup T k)"
proof (induction ps arbitrary: T)
  case (Cons e ps)
  obtain p n where e: "e = (p, n)" by (cases e)
  have "map_of ps p = None" using Cons.prems e by (simp add: map_of_eq_None_iff)
  then show ?case using Cons e by (simp split: option.split)
qed simp

definition context_value :: "prefix_table \<Rightarrow> jvalue" where
  "context_value P = VObject (map (\<lambda>(p, n). (p, VString n)) (key_order P))"

lemma key_order_sorted: "sorted_wrt (<) (map fst (key_order m))"
  using hash_order_distinct [OF hash_order_key_order, of m] by (simp add: key_order_def strict_sorted_iff)
    (simp add: sorted_list_of_fmap_def comp_def sorted_list_of_fset.rep_eq)

lemma context_resolved:
  assumes "context_prefixes P"
  shows "\<exists>T. terms_of P T \<and> context_resolve (context_value P) None = Inr (prefix_context T)"
proof -
  let ?T = "fold (\<lambda>(p, n). fmupd p (td_of_iri n)) (key_order P) fmempty"
  have order: "hash_order (key_order :: prefix_table \<Rightarrow> _)" by (rule hash_order_key_order)
  have "list_all (\<lambda>(p, n). \<not> keyword p \<and> contains_str (lit ''://'') n) (key_order P)"
    using assms by (auto simp: list_all_iff context_prefixes_def hash_order_in_iff [OF hash_order_key_order])
  from context_prefix_members [OF this, of rc_default]
  have "context_resolve (context_value P) None = Inr (prefix_context ?T)"
    by (simp add: context_value_def resolve_object_def prefix_context_def rc_default_def)
  moreover have "terms_of P ?T"
    using order by (simp add: hash_order_def terms_of_def lookup_terms split: option.split)
  ultimately show ?thesis by blast
qed

lemma merge_same: "merge_context (prefix_context T) (prefix_context T) = prefix_context T"
  by (simp add: merge_context_def prefix_context_def rc_default_def)

subsection \<open>Expansion undoes compaction\<close>

text \<open>An IRI whose scheme is not taken for one of the prefixes.\<close>

definition readable_text :: "prefix_table \<Rightarrow> rstr \<Rightarrow> bool" where
  "readable_text P v \<longleftrightarrow> c_colon \<in> set v \<and> \<not> keyword v \<and> \<not> prefix (lit ''_:'') v \<and>
     fmlookup P (takeWhile (\<lambda>c. c \<noteq> c_colon) v) = None"

lemma before_char_split: "c \<notin> set p \<Longrightarrow> before_char c (p @ c # r) = Some (p, r)"
  by (induction p) auto

lemma before_char_takeWhile: "c \<in> set v \<Longrightarrow> \<exists>r. before_char c v = Some (takeWhile (\<lambda>x. x \<noteq> c) v, r)"
  by (induction v) auto

lemma before_char_later: "x \<in> set t \<Longrightarrow> \<exists>r u. before_char c (a @ c # t) = Some (r, u) \<and> x \<in> set u"
  by (induction a) auto

lemma compact_cases:
  assumes "hash_order iter"
  shows "js_compact_with S (iter P) v = v \<or>
    (\<exists>p n l. fmlookup P p = Some n \<and> v = n @ l \<and> is_valid_local_name S l \<and> js_compact_with S (iter P) v = p @ c_colon # l)"
proof -
  have "js_compact_with S ps v = v \<or>
      (\<exists>p n l. (p, n) \<in> set ps \<and> v = n @ l \<and> is_valid_local_name S l \<and> js_compact_with S ps v = p @ c_colon # l)" for ps
  proof (induction ps)
    case (Cons e ps)
    obtain p n where e: "e = (p, n)" by (cases e)
    show ?case
    proof (cases "prefix n v \<and> is_valid_local_name S (drop (length n) v)")
      case True
      then show ?thesis by (force simp: e prefix_def)
    next
      case False
      then show ?thesis using Cons e by auto
    qed
  qed simp
  from this [of "iter P"] show ?thesis by (simp only: hash_order_in_iff [OF assms])
qed

lemma prefix_context_simps [simp]:
  "rc_terms (prefix_context T) = T" "rc_base (prefix_context T) = None" "rc_vocab (prefix_context T) = None"
  "rc_language (prefix_context T) = None"
  by (simp_all add: prefix_context_def rc_default_def)

lemma local_name_no_slash:
  assumes "std_ok S" "is_valid_local_name S l" "c_colon \<notin> set p"
  shows "\<not> contains_str (lit ''://'') (p @ c_colon # l)"
proof
  have l: "c_slash \<notin> set l" using assms(1,2)
    by (auto simp: is_valid_local_name_def list_all_iff std_ok_def is_ascii_alphanumeric_def is_ascii_alphabetic_def is_ascii_digit_def)
  assume "contains_str (lit ''://'') (p @ c_colon # l)"
  then obtain a b where "p @ c_colon # l = a @ c_colon # [c_slash, c_slash] @ b"
    by (auto simp: contains_str_iff sublist_def str_simps)
  moreover obtain r t where "before_char c_colon (a @ c_colon # [c_slash, c_slash] @ b) = Some (r, t)" "c_slash \<in> set t"
    using before_char_later [of c_slash "[c_slash, c_slash] @ b" c_colon a] by auto
  ultimately show False using before_char_split [OF assms(3), of l] l by auto
qed

lemma readable_fixed:
  assumes "context_prefixes P" "terms_of P T" "readable_text P v"
  shows "expand_term (prefix_context T) v = v" "expand_iri (prefix_context T) v = v"
proof -
  have v: "c_colon \<in> set v" "\<not> keyword v" "\<not> prefix (lit ''_:'') v" "fmlookup T (takeWhile (\<lambda>c. c \<noteq> c_colon) v) = None"
    using assms(2,3) by (simp_all add: readable_text_def terms_of_def)
  have "fmlookup T v = None" using v(1) assms(1,2) by (cases "fmlookup P v") (auto simp: context_prefixes_def terms_of_def)
  moreover obtain r where "before_char c_colon v = Some (takeWhile (\<lambda>c. c \<noteq> c_colon) v, r)"
    using before_char_takeWhile [OF v(1)] by blast
  ultimately show "expand_term (prefix_context T) v = v" "expand_iri (prefix_context T) v = v"
    using v by (simp_all add: expand_term_def expand_iri_def)
qed

lemma compact_expanded:
  assumes "std_ok S" "hash_order iter" "context_prefixes P" "terms_of P T" "readable_text P v"
  shows "expand_term (prefix_context T) (js_compact_with S (iter P) v) = v"
    "expand_iri (prefix_context T) (js_compact_with S (iter P) v) = v"
proof -
  let ?c = "js_compact_with S (iter P) v"
  have colon: "fmlookup T k = None" if "c_colon \<in> set k" for k
    using that assms(3,4) by (cases "fmlookup P k") (auto simp: context_prefixes_def terms_of_def)
  have "expand_term (prefix_context T) ?c = v \<and> expand_iri (prefix_context T) ?c = v"
    using compact_cases [OF assms(2), of S P v]
  proof
    assume "?c = v"
    then show ?thesis using readable_fixed [OF assms(3-5)] by simp
  next
    assume "\<exists>p n l. fmlookup P p = Some n \<and> v = n @ l \<and> is_valid_local_name S l \<and> ?c = p @ c_colon # l"
    then obtain p n l where c: "fmlookup P p = Some n" "v = n @ l" "is_valid_local_name S l" "?c = p @ c_colon # l" by blast
    have p: "c_colon \<notin> set p" "\<not> keyword p" "p \<noteq> [c_underscore]" using assms(3) c(1) by (auto simp: context_prefixes_def)
    have "\<not> keyword (p @ c_colon # l)" using p(2) by (cases p) (simp_all add: keyword_def)
    moreover have "\<not> prefix (lit ''_:'') (p @ c_colon # l)" using p(1,3) by (cases p; cases "tl p") (auto simp: str_simps)
    moreover have "fmlookup T p = Some (td_of_iri n)" using assms(4) c(1) by (simp add: terms_of_def)
    ultimately show ?thesis unfolding c(4)
      using colon [of "p @ c_colon # l"] before_char_split [OF p(1), of l] local_name_no_slash [OF assms(1) c(3) p(1)] c(2)
      by (simp add: expand_term_def expand_iri_def td_of_iri_def)
  qed
  then show "expand_term (prefix_context T) ?c = v" "expand_iri (prefix_context T) ?c = v" by simp_all
qed

lemma blank_not_compacted:
  assumes "hash_order iter" "context_prefixes P"
  shows "js_compact_with S (iter P) (lit ''_:'' @ l) = lit ''_:'' @ l"
proof -
  have "\<not> prefix n (lit ''_:'' @ l)" if "fmlookup P p = Some n" for p n
  proof
    assume n: "prefix n (lit ''_:'' @ l)"
    have ns: "contains_str (lit ''://'') n" "\<not> prefix (lit ''_:'') n" using assms(2) that by (auto simp: context_prefixes_def)
    then have "length n < 2" using n prefix_length_prefix [of "lit ''_:''" "lit ''_:'' @ l" n] by force
    moreover have "3 \<le> length n" using ns(1) sublist_length_le [of "lit ''://''" n] by (simp add: contains_str_iff)
    ultimately show False by simp
  qed
  then show ?thesis using compact_cases [OF assms(1), of S P "lit ''_:'' @ l"] by (metis prefixI)
qed

subsection \<open>Values\<close>

definition written_prefixes :: "jsonld_ser \<Rightarrow> prefix_table" where
  "written_prefixes w = (if js_use_context w then js_prefixes w else fmempty)"

lemma written_prefixes_context: "has_context w \<longleftrightarrow> written_prefixes w \<noteq> fmempty"
  by (simp add: has_context_def written_prefixes_def)

lemma compact_written: "hash_order iter \<Longrightarrow> js_compact_iri S iter w i = js_compact_with S (iter (written_prefixes w)) i"
  by (simp add: js_compact_iri_def written_prefixes_def hash_order_empty)

text \<open>What makes terms readable: the context of the document, its prefixes and the terms it declares.\<close>

definition reads_context :: "'f rust_std \<Rightarrow> prefix_order \<Rightarrow> jsonld_ser \<Rightarrow> (rstr, term_definition) fmap \<Rightarrow> bool" where
  "reads_context S iter w T \<longleftrightarrow> std_ok S \<and> hash_order iter \<and> context_prefixes (written_prefixes w) \<and> terms_of (written_prefixes w) T"

definition readable_iri :: "jsonld_ser \<Rightarrow> iri \<Rightarrow> bool" where
  "readable_iri w i \<longleftrightarrow> valid_iri i \<and> readable_text (written_prefixes w) (iri_value i)"

fun readable_object :: "jsonld_ser \<Rightarrow> object \<Rightarrow> bool" where
  "readable_object w (ObjIri i) = readable_iri w i"
| "readable_object w (ObjBlank b) = True"
| "readable_object w (ObjLiteral l) = (valid_literal l \<and>
     (case lit_datatype l of Some d \<Rightarrow> readable_iri w d | None \<Rightarrow> True))"

fun plain_string :: "object \<Rightarrow> bool" where
  "plain_string (ObjLiteral l) = (lit_language l = None \<and> lit_datatype l = None)"
| "plain_string _ = False"

text \<open>The datatype \<open>xsd:string\<close> is not written.\<close>

fun written_object :: "object \<Rightarrow> object" where
  "written_object (ObjLiteral l) = ObjLiteral
     (if lit_language l = None \<and> map_option iri_value (lit_datatype l) = Some xsd_string_iri then l\<lparr>lit_datatype := None\<rparr> else l)"
| "written_object ob = ob"

lemma readable_expands:
  assumes "reads_context S iter w T" "readable_iri w i"
  shows "expand_term (prefix_context T) (js_compact_iri S iter w (iri_value i)) = iri_value i"
    "expand_iri (prefix_context T) (js_compact_iri S iter w (iri_value i)) = iri_value i"
  using compact_expanded [of S iter "written_prefixes w" T "iri_value i"] assms
  by (simp_all add: reads_context_def readable_iri_def compact_written)

lemma expand_id_blank: "expand_iri (prefix_context T) (lit ''_:'' @ l) = lit ''_:'' @ l"
  by (simp add: expand_iri_def)

lemmas expand_eval = local_context_def jm_get_def object_value_def nested_keywords_def jm_extend_def object1_def str_simps

lemma value_expands:
  assumes "reads_context S iter w T" "readable_object w ob" "\<not> plain_string ob"
  shows "expand_property_value (prefix_context T) k (json_value (value_doc S iter w (object_to_value ob))) =
    Inr (ld_object type_array (written_object ob))"
proof (cases ob)
  case (ObjIri i)
  then show ?thesis using readable_expands [OF assms(1), of i] assms(2) by (simp add: expand_eval)
next
  case (ObjBlank b)
  have "js_compact_iri S iter w (lit ''_:'' @ bn_label b) = lit ''_:'' @ bn_label b"
    using assms(1) by (simp add: reads_context_def compact_written blank_not_compacted)
  then show ?thesis using ObjBlank expand_id_blank [of T "bn_label b"] by (simp add: expand_eval)
next
  case (ObjLiteral l)
  show ?thesis
  proof (cases "lit_language l")
    case (Some g)
    then show ?thesis using ObjLiteral by (simp add: expand_eval ld_literal_def)
  next
    case None
    then obtain d where d: "lit_datatype l = Some d" using assms(3) ObjLiteral by auto
    then have "readable_iri w d" using assms(2) ObjLiteral by simp
    then show ?thesis
      using readable_expands [OF assms(1), of d] ObjLiteral None d by (simp add: expand_eval ld_literal_def type_array_def)
  qed
qed

lemma string_expands:
  assumes "plain_string ob" "fmlookup T k = None"
  shows "expand_property_value (prefix_context T) k (json_value (value_doc S iter w (object_to_value ob))) =
    Inr (VArray [ld_object type_array (written_object ob)])"
  using assms by (cases ob) (simp_all add: string_property_def ld_literal_def)

lemma written_object_back: "ld_object_back sc (written_object ob) = ld_object_back sc ob"
  by (cases ob) (simp_all add: untyped_def)

lemma written_object_ok: "readable_object w ob \<Longrightarrow> ld_object_ok (written_object ob)"
  by (cases ob) (auto simp: readable_iri_def readable_text_def named_ok_def valid_literal_def split: option.splits)

text \<open>A property is written with one value or an array of values; a string must be alone.\<close>

definition lone_strings :: "object list \<Rightarrow> bool" where
  "lone_strings obs \<longleftrightarrow> length obs = 1 \<or> \<not> list_ex plain_string obs"

lemma property_expands:
  assumes c: "reads_context S iter w T" and r: "list_all (readable_object w) obs" and l: "lone_strings obs" and k: "fmlookup T k = None"
  shows "\<exists>v. expand_property_value (prefix_context T) k
      (json_value (array_or_single (value_doc S iter w) (map object_to_value obs))) = Inr v \<and>
    v \<noteq> VNull \<and> property_items v = map (ld_object type_array \<circ> written_object) obs"
proof (cases "\<exists>ob. obs = [ob]")
  case True
  then obtain ob where ob: "obs = [ob]" by blast
  have obj: "property_items (ld_object type_array x) = [ld_object type_array x] \<and> ld_object type_array x \<noteq> VNull" for x
    by (cases x) (simp_all add: object1_def ld_literal_def)
  show ?thesis
    using value_expands [OF c, of ob k] string_expands [OF _ k, of ob S iter w] r obj ob
    by (cases "plain_string ob") (simp_all add: array_or_single_def)
next
  case False
  then have n: "\<not> list_ex plain_string obs" using l by (auto simp: lone_strings_def length_Suc_conv)
  have "expand_property_values (prefix_context T) k (map (json_value \<circ> (value_doc S iter w \<circ> object_to_value)) obs) =
      Inr (map (ld_object type_array \<circ> written_object) obs)"
    using r n
  proof (induction obs)
    case (Cons ob obs)
    then show ?case using value_expands [OF c, of ob k] by simp
  qed simp
  moreover have "array_or_single (value_doc S iter w) (map object_to_value obs) = JArray (map (value_doc S iter w \<circ> object_to_value) obs)"
    using False by (cases obs; cases "tl obs") (simp_all add: array_or_single_def)
  ultimately show ?thesis by simp
qed

subsection \<open>The node\<close>

text \<open>What a member of an object is expanded to.\<close>

definition entry_expands :: "resolved_context \<Rightarrow> rstr \<times> jvalue \<Rightarrow> rstr \<times> jvalue \<Rightarrow> bool" where
  "entry_expands c = (\<lambda>(k, v) (l, u).
     k = lit ''@id'' \<and> l = k \<and> u = (case v of VString i \<Rightarrow> VString (expand_iri c i) | _ \<Rightarrow> v) \<or>
     k = lit ''@type'' \<and> l = k \<and> u = expand_type_value c v \<or>
     \<not> keyword k \<and> l = expand_term c k \<and> u \<noteq> VNull \<and> expand_property_value c k v = Inr u)"

lemma expand_entries:
  "list_all2 (entry_expands c) m m' \<Longrightarrow> expand_members c m r = Inr (jm_extend r m')"
proof (induction m m' arbitrary: r rule: list_all2_induct)
  case (Cons e m e' m')
  obtain k v l u where e: "e = (k, v)" "e' = (l, u)" by (cases e; cases e')
  have "k = lit ''@id'' \<and> l = k \<and> u = (case v of VString i \<Rightarrow> VString (expand_iri c i) | _ \<Rightarrow> v) \<or>
     k = lit ''@type'' \<and> l = k \<and> u = expand_type_value c v \<or>
     \<not> keyword k \<and> l = expand_term c k \<and> u \<noteq> VNull \<and> expand_property_value c k v = Inr u"
    using Cons.hyps(1) e by (simp add: entry_expands_def)
  then have "expand_members c (e # m) r = expand_members c m (jm_insert l u r)"
    by (elim disjE) (auto simp: e keep_value_def keyword_names dest: keyword_names(6))
  then show ?case using Cons.IH e by (simp add: extend_Cons)
qed simp

lemma expand_members_context:
  "expand_members c (filter (\<lambda>e. fst e \<noteq> lit ''@context'') m) r = expand_members c m r"
proof (induction m arbitrary: r)
  case (Cons e m)
  have cong: "jl_then r f = jl_then r g" if "\<And>y. f y = g y" for r :: "jsonld_error + 'a" and f g :: "'a \<Rightarrow> jsonld_error + 'b"
    using that by (simp add: jl_then_def split: sum.split)
  show ?case using Cons by (cases e) (auto intro!: cong)
qed simp

text \<open>Members that expand to others, in whatever order they are stored.\<close>

lemma expand_stored:
  assumes e: "list_all2 (entry_expands c) L L'" and d: "distinct (map fst (ctx @ L))" "distinct (map fst L')"
    and x: "set (map fst ctx) \<subseteq> {lit ''@context''}" "lit ''@context'' \<notin> set (map fst L)"
  shows "expand_members c (jm_extend [] (ctx @ L)) [] = Inr (jm_extend [] L')"
proof -
  let ?P = "\<lambda>e. fst e \<noteq> lit ''@context''" and ?D = "jm_extend [] (ctx @ L)"
  have "filter ?P ctx = []" "filter ?P L = L" using x by (force simp: filter_empty_conv filter_id_conv)+
  then have "mset (filter ?P ?D) = mset L" using extend_mset [OF d(1)] by (simp add: mset_filter) (simp flip: mset_filter)
  from list_all2_reorder_left_invariance [OF e this] obtain M where
    M: "list_all2 (entry_expands c) (filter ?P ?D) M" "mset M = mset L'" by auto
  have "expand_members c ?D [] = Inr (jm_extend [] M)"
    using expand_entries [OF M(1), of "[]"] by (simp add: expand_members_context)
  moreover have "distinct (map fst M)" using d(2) M(2) by (metis mset_eq_imp_distinct_iff mset_map)
  then have "jm_extend [] M = jm_extend [] L'" using d(2) mset_eq_setD [OF M(2)] by (rule extend_set_eq)
  ultimately show ?thesis by simp
qed

lemma extend_lookup: "distinct (map fst n) \<Longrightarrow> map_of (jm_extend [] n) = map_of n"
proof -
  assume d: "distinct (map fst n)"
  have "distinct (map fst (jm_extend [] n))" using extend_sorted [of "[]" n] by (simp add: strict_sorted_iff)
  from map_of_inject_set [OF this d] show ?thesis using d by (simp add: set_extend)
qed

definition context_member :: "jsonld_ser \<Rightarrow> jmap" where
  "context_member w = (if has_context w then [(lit ''@context'', context_value (written_prefixes w))] else [])"

lemma context_read:
  assumes "context_prefixes (written_prefixes w)" "distinct (map fst (context_member w @ L))" "lit ''@context'' \<notin> set (map fst L)"
  shows "\<exists>T. terms_of (written_prefixes w) T \<and>
    document_context lp_new (VObject (jm_extend [] (context_member w @ L))) = Inr (prefix_context T) \<and>
    local_context (jm_extend [] (context_member w @ L)) (prefix_context T) = Inr (prefix_context T)"
proof (cases "has_context w")
  case True
  obtain T where "terms_of (written_prefixes w) T" "context_resolve (context_value (written_prefixes w)) None = Inr (prefix_context T)"
    using context_resolved [OF assms(1)] by blast
  then show ?thesis using True extend_lookup [OF assms(2)]
    by (auto simp: document_context_def local_context_def value_get_def jm_get_def context_member_def lp_new_def merge_same)
next
  case False
  have "terms_of (written_prefixes w) fmempty" using False by (simp add: written_prefixes_context terms_of_def)
  moreover have "map_of L (lit ''@context'') = None" using assms(3) by (simp add: map_of_eq_None_iff)
  moreover have "prefix_context fmempty = rc_default" by (simp add: prefix_context_def rc_default_def)
  ultimately show ?thesis using False extend_lookup [OF assms(2)]
    by (auto simp: document_context_def local_context_def value_get_def jm_get_def context_member_def lp_new_def intro!: exI [of _ fmempty])
qed

lemma compact_key:
  assumes "reads_context S iter w T" "readable_iri w i"
  shows "\<not> keyword (js_compact_iri S iter w (iri_value i))" "fmlookup T (js_compact_iri S iter w (iri_value i)) = None"
proof -
  let ?c = "js_compact_iri S iter w (iri_value i)" and ?P = "written_prefixes w"
  have c: "hash_order iter" "context_prefixes ?P" using assms(1) by (simp_all add: reads_context_def)
  have "\<not> keyword (js_compact_with S (iter ?P) (iri_value i)) \<and> c_colon \<in> set (js_compact_with S (iter ?P) (iri_value i))"
    using compact_cases [OF c(1), of S ?P "iri_value i"]
  proof
    assume "js_compact_with S (iter ?P) (iri_value i) = iri_value i"
    then show ?thesis using assms(2) by (simp add: readable_iri_def readable_text_def)
  next
    assume "\<exists>p n l. fmlookup ?P p = Some n \<and> iri_value i = n @ l \<and> is_valid_local_name S l \<and>
      js_compact_with S (iter ?P) (iri_value i) = p @ c_colon # l"
    then obtain p n l where e: "fmlookup ?P p = Some n" "js_compact_with S (iter ?P) (iri_value i) = p @ c_colon # l" by blast
    have "\<not> keyword p" using c(2) e(1) by (auto simp: context_prefixes_def)
    then have "\<not> keyword (p @ c_colon # l)" by (cases p) (simp_all add: keyword_def)
    then show ?thesis unfolding e(2) by simp
  qed
  then have "\<not> keyword ?c \<and> c_colon \<in> set ?c" by (simp add: compact_written [OF c(1)])
  moreover have "fmlookup T k = None" if "c_colon \<in> set k" for k
    using that assms(1) by (cases "fmlookup ?P k") (auto simp: context_prefixes_def reads_context_def terms_of_def)
  ultimately show "\<not> keyword ?c" "fmlookup T ?c = None" by simp_all
qed

definition objects_with :: "rstr \<Rightarrow> triple list \<Rightarrow> object list" where
  "objects_with p ts = map t_object (filter (\<lambda>t. type_of_triple t = None \<and> iri_value (t_predicate t) = p) ts)"

definition readable_triple :: "jsonld_ser \<Rightarrow> triple \<Rightarrow> bool" where
  "readable_triple w t \<longleftrightarrow> readable_iri w (t_predicate t) \<and> readable_object w (t_object t)"

lemma type_of_triple_Some:
  "type_of_triple t = Some v \<Longrightarrow> iri_value (t_predicate t) = RDF_TYPE_TEXT \<and> (\<exists>i. t_object t = ObjIri i \<and> iri_value i = v)"
  by (cases "t_object t"; cases "iri_value (t_predicate t) = RDF_TYPE_TEXT") (simp_all add: type_of_triple_def)

lemma types_expand:
  assumes "reads_context S iter w T" "\<forall>t \<in> set ts. \<exists>i. readable_iri w i \<and> iri_value i = t"
  shows "expand_type_value (prefix_context T) (json_value (array_or_single (\<lambda>t. JString (js_compact_iri S iter w t)) ts)) =
    VArray (map VString ts)"
proof -
  have e: "expand_term (prefix_context T) (js_compact_iri S iter w t) = t" if t: "t \<in> set ts" for t
  proof -
    from bspec [OF assms(2) t] obtain i where "readable_iri w i" "iri_value i = t" by blast
    then show ?thesis using readable_expands(1) [OF assms(1), of i] by simp
  qed
  show ?thesis
  proof (cases "\<exists>t. ts = [t]")
    case True
    then show ?thesis using e by (auto simp: array_or_single_def)
  next
    case False
    then have "array_or_single (\<lambda>t. JString (js_compact_iri S iter w t)) ts = JArray (map (\<lambda>t. JString (js_compact_iri S iter w t)) ts)"
      by (cases ts; cases "tl ts") (simp_all add: array_or_single_def)
    then show ?thesis using e by (simp add: List.map_filter_def comp_def)
  qed
qed

definition node_entries :: "'f rust_std \<Rightarrow> prefix_order \<Rightarrow> jsonld_ser \<Rightarrow> jl_node \<Rightarrow> jmap" where
  "node_entries S iter w n = map (map_prod id json_value) (node_doc S iter w n)"

text \<open>The members that the expanded node has beside its properties.\<close>

definition expanded_head :: "rstr \<Rightarrow> rstr list \<Rightarrow> jmap" where
  "expanded_head s ts = (lit ''@id'', VString s) # (if ts = [] then [] else [(lit ''@type'', VArray (map VString ts))])"

definition reads_property :: "triple list \<Rightarrow> rstr \<times> jvalue \<Rightarrow> bool" where
  "reads_property ts = (\<lambda>(p, v). property_items v = map (ld_object type_array \<circ> written_object) (objects_with p ts))"

lemma property_entry:
  assumes c: "reads_context S iter w T" and r: "list_all (readable_triple w) ts" and l: "\<forall>p. objects_with p ts = [] \<or> lone_strings (objects_with p ts)"
    and p: "objects_with p ts \<noteq> []"
  shows "\<exists>u. entry_expands (prefix_context T) (js_compact_iri S iter w p,
      json_value (array_or_single (value_doc S iter w) (property_values p ts))) (p, u) \<and> reads_property ts (p, u)"
proof -
  obtain t where t: "t \<in> set ts" "iri_value (t_predicate t) = p" using p by (auto simp: objects_with_def filter_empty_conv)
  then have i: "readable_iri w (t_predicate t)" using r by (simp add: list_all_iff readable_triple_def)
  note k = compact_key [OF c i] readable_expands(1) [OF c i]
  have "list_all (readable_object w) (objects_with p ts)" using r by (auto simp: list_all_iff objects_with_def readable_triple_def)
  moreover have "property_values p ts = map object_to_value (objects_with p ts)"
    by (simp add: property_values_def objects_with_def)
  ultimately show ?thesis
    using property_expands [OF c _ _ k(2), of "objects_with p ts"] l p k t(2)
    by (auto simp: entry_expands_def reads_property_def)
qed

lemma node_expands:
  assumes c: "reads_context S iter w T" and n: "node_is s ts n" and r: "list_all (readable_triple w) ts"
    and l: "\<forall>p. objects_with p ts = [] \<or> lone_strings (objects_with p ts)" and s: "expand_iri (prefix_context T) s = s"
  shows "\<exists>ps. map fst ps = map fst (key_order (jn_properties n)) \<and> list_all (reads_property ts) ps \<and>
    list_all2 (entry_expands (prefix_context T)) (node_entries S iter w n) (expanded_head s (List.map_filter type_of_triple ts) @ ps)"
proof -
  let ?props = "map (\<lambda>(p, vs). (js_compact_iri S iter w p, json_value (array_or_single (value_doc S iter w) vs))) (key_order (jn_properties n))"
  have stored: "vs = property_values p ts \<and> objects_with p ts \<noteq> []" if "(p, vs) \<in> set (key_order (jn_properties n))" for p vs
    using that n hash_order_in_iff [OF hash_order_key_order, of p vs "jn_properties n"]
    by (auto simp: node_is_def property_values_def objects_with_def split: if_splits)
  have "\<exists>ps. map fst ps = map fst es \<and> list_all (reads_property ts) ps \<and>
      list_all2 (entry_expands (prefix_context T))
        (map (\<lambda>(p, vs). (js_compact_iri S iter w p, json_value (array_or_single (value_doc S iter w) vs))) es) ps"
    if "set es \<subseteq> set (key_order (jn_properties n))" for es
    using that
  proof (induction es)
    case (Cons e es)
    obtain p vs where e: "e = (p, vs)" by (cases e)
    then have "vs = property_values p ts" "objects_with p ts \<noteq> []" using stored Cons.prems by auto
    with property_entry [OF c r l] e obtain u where
      "entry_expands (prefix_context T) (js_compact_iri S iter w p, json_value (array_or_single (value_doc S iter w) vs)) (p, u)"
      "reads_property ts (p, u)" by blast
    moreover obtain ps where "map fst ps = map fst es" "list_all (reads_property ts) ps"
      "list_all2 (entry_expands (prefix_context T))
        (map (\<lambda>(p, vs). (js_compact_iri S iter w p, json_value (array_or_single (value_doc S iter w) vs))) es) ps"
      using Cons by auto
    ultimately show ?case using e by (intro exI [of _ "(p, u) # ps"]) simp
  qed simp
  then obtain ps where ps: "map fst ps = map fst (key_order (jn_properties n))" "list_all (reads_property ts) ps"
    "list_all2 (entry_expands (prefix_context T)) ?props ps" by blast
  have "\<exists>i. readable_iri w i \<and> iri_value i = t" if t: "t \<in> set (List.map_filter type_of_triple ts)" for t
  proof -
    obtain u where u: "u \<in> set ts" "type_of_triple u = Some t" using t by (auto simp: List.map_filter_def)
    then obtain i where "t_object u = ObjIri i" "iri_value i = t" using type_of_triple_Some by blast
    moreover have "readable_object w (t_object u)" using u(1) r by (simp add: list_all_iff readable_triple_def)
    ultimately show ?thesis by auto
  qed
  then have types: "expand_type_value (prefix_context T)
      (json_value (array_or_single (\<lambda>t. JString (js_compact_iri S iter w t)) (List.map_filter type_of_triple ts))) =
      VArray (map VString (List.map_filter type_of_triple ts))"
    by (intro types_expand [OF c]) blast
  let ?ts = "List.map_filter type_of_triple ts"
  let ?tj = "json_value (array_or_single (\<lambda>t. JString (js_compact_iri S iter w t)) ?ts)"
  have "entry_expands (prefix_context T) (lit ''@id'', VString s) (lit ''@id'', VString s)" by (simp add: entry_expands_def s)
  moreover have "entry_expands (prefix_context T) (lit ''@type'', ?tj) (lit ''@type'', VArray (map VString ?ts))"
    unfolding types [symmetric] by (simp add: entry_expands_def del: expand_type_value.simps)
  moreover have "node_entries S iter w n = (lit ''@id'', VString s) # (if ?ts = [] then [] else [(lit ''@type'', ?tj)]) @ ?props"
    using n by (simp add: node_entries_def node_doc_def node_is_def case_prod_beta comp_def)
  ultimately have "list_all2 (entry_expands (prefix_context T)) (node_entries S iter w n) (expanded_head s ?ts @ ps)"
    using ps(3) by (simp add: expanded_head_def)
  with ps(1,2) show ?thesis by blast
qed

text \<open>The keys of the node, compacted and expanded, are distinct.\<close>

lemma property_key:
  assumes "node_is s ts n" "list_all (readable_triple w) ts" "p \<in> set (map fst (key_order (jn_properties n)))"
  shows "\<exists>t \<in> set ts. type_of_triple t = None \<and> readable_iri w (t_predicate t) \<and> iri_value (t_predicate t) = p"
proof -
  obtain vs where "(p, vs) \<in> set (key_order (jn_properties n))" using assms(3) by auto
  then have "property_values p ts \<noteq> []"
    using assms(1) hash_order_in_iff [OF hash_order_key_order, of p vs "jn_properties n"] by (auto simp: node_is_def split: if_splits)
  then show ?thesis using assms(2) by (auto simp: property_values_def filter_empty_conv list_all_iff readable_triple_def)
qed

lemma entries_keys: "map fst (node_entries S iter w n) =
    (case jn_id n of Some i \<Rightarrow> [lit ''@id''] | None \<Rightarrow> []) @ (if jn_types n = [] then [] else [lit ''@type'']) @
    map (js_compact_iri S iter w) (map fst (key_order (jn_properties n)))"
  by (simp add: node_entries_def node_doc_def case_prod_beta comp_def split: option.split)

lemma context_no_key: "set (map fst (context_member w)) \<subseteq> {lit ''@context''}" "distinct (map fst (context_member w))"
  by (auto simp: context_member_def)

lemma node_keys:
  assumes c: "reads_context S iter w T" and n: "node_is s ts n" and r: "list_all (readable_triple w) ts"
  shows "distinct (map fst (node_entries S iter w n))" "lit ''@context'' \<notin> set (map fst (node_entries S iter w n))"
    "map fst ps = map fst (key_order (jn_properties n)) \<Longrightarrow> distinct (map fst (expanded_head s us @ ps))"
proof -
  let ?keys = "map fst (key_order (jn_properties n))" and ?c = "js_compact_iri S iter w"
  have d: "distinct ?keys" by (rule hash_order_distinct [OF hash_order_key_order])
  have k: "\<not> keyword (?c p) \<and> expand_term (prefix_context T) (?c p) = p \<and> \<not> keyword p" if p: "p \<in> set ?keys" for p
  proof -
    from property_key [OF n r p] obtain t :: triple where "readable_iri w (t_predicate t)" "iri_value (t_predicate t) = p" by auto
    then show ?thesis using compact_key [OF c] readable_expands [OF c] by (auto simp: readable_iri_def readable_text_def)
  qed
  then have "inj_on ?c (set ?keys)" by (metis inj_onI)
  then have "distinct (map ?c ?keys)" by (intro distinct_map [THEN iffD2] conjI d)
  moreover have "lit ''@id'' \<notin> set (map ?c ?keys)" "lit ''@type'' \<notin> set (map ?c ?keys)" "lit ''@context'' \<notin> set (map ?c ?keys)"
    using k keyword_names(1-3) by (auto simp only: set_map) fastforce+
  ultimately show "distinct (map fst (node_entries S iter w n))" "lit ''@context'' \<notin> set (map fst (node_entries S iter w n))"
    unfolding entries_keys by (auto split: option.split)
  assume "map fst ps = ?keys"
  moreover have "lit ''@id'' \<notin> set ?keys" "lit ''@type'' \<notin> set ?keys" using k keyword_names(1,2) by blast+
  ultimately show "distinct (map fst (expanded_head s us @ ps))" using d by (auto simp: expanded_head_def)
qed

subsection \<open>The document of a node\<close>

lemma document_expands:
  assumes c: "std_ok S" "hash_order iter" "context_prefixes (written_prefixes w)"
    and n: "node_is s ts n" and r: "list_all (readable_triple w) ts"
    and l: "\<forall>p. objects_with p ts = [] \<or> lone_strings (objects_with p ts)"
    and s: "prefix (lit ''_:'') s \<or> readable_text (written_prefixes w) s"
  shows "\<exists>ps. map fst ps = map fst (key_order (jn_properties n)) \<and> list_all (reads_property ts) ps \<and>
    lp_expand lp_new (VObject (jm_extend [] (context_member w @ node_entries S iter w n))) =
      Inr (VArray [VObject (jm_extend [] (expanded_head s (List.map_filter type_of_triple ts) @ ps))])"
proof -
  let ?D = "jm_extend [] (context_member w @ node_entries S iter w n)" and ?ts = "List.map_filter type_of_triple ts"
  have ctx: "reads_context S iter w T" if "terms_of (written_prefixes w) T" for T
    using c that by (simp add: reads_context_def)
  obtain T0 where "terms_of (written_prefixes w) T0" using context_resolved [OF c(3)] by blast
  note keys = node_keys [OF ctx [OF this] n r]
  have d: "distinct (map fst (context_member w @ node_entries S iter w n))"
    using keys(1,2) by (auto simp: context_member_def)
  obtain T where T: "terms_of (written_prefixes w) T" "document_context lp_new (VObject ?D) = Inr (prefix_context T)"
    "local_context ?D (prefix_context T) = Inr (prefix_context T)"
    using context_read [OF c(3) d keys(2)] by blast
  have "expand_iri (prefix_context T) s = s"
    using s readable_fixed(2) [OF c(3) T(1)] by (auto simp: prefix_def expand_id_blank)
  from node_expands [OF ctx [OF T(1)] n r l this] obtain ps where
    ps: "map fst ps = map fst (key_order (jn_properties n))" "list_all (reads_property ts) ps"
      "list_all2 (entry_expands (prefix_context T)) (node_entries S iter w n) (expanded_head s ?ts @ ps)" by blast
  have "expand_members (prefix_context T) ?D [] = Inr (jm_extend [] (expanded_head s ?ts @ ps))"
    by (rule expand_stored [OF ps(3) d keys(3) [OF ps(1)] context_no_key(1) keys(2)])
  moreover have "jm_extend [] (expanded_head s ?ts @ ps) \<noteq> []"
    using set_extend [of "expanded_head s ?ts @ ps" "[]"] keys(3) [OF ps(1)] by (auto simp: expanded_head_def)
  ultimately have "lp_expand lp_new (VObject ?D) = Inr (VArray [VObject (jm_extend [] (expanded_head s ?ts @ ps))])"
    using T(2,3) by (simp add: lp_expand_def object_value_def)
  with ps(1,2) show ?thesis by blast
qed

text \<open>Values are processed alike in an array and alone.\<close>

lemma members_items:
  "list_all2 (\<lambda>e f. fst e = fst f \<and> property_items (snd e) = property_items (snd f)) m m' \<Longrightarrow>
    process_members s m x = process_members s m' x"
proof (induction m m' arbitrary: x rule: list_all2_induct)
  case (Cons e m f m')
  have cong: "jl_then r f = jl_then r g" if "\<And>y. f y = g y" for r :: "jsonld_error + 'a" and f g :: "'a \<Rightarrow> jsonld_error + 'b"
    using that by (simp add: jl_then_def split: sum.split)
  show ?case using Cons by (cases e; cases f) (auto intro!: cong)
qed simp

text \<open>The node that is written.\<close>

definition written_node :: "subject \<Rightarrow> triple list \<Rightarrow> rstr list \<Rightarrow> ld_node" where
  "written_node s ts keys = \<lparr>ld_subject = s, ld_types = map iri_new_unchecked (List.map_filter type_of_triple ts),
     ld_properties = map (\<lambda>p. (iri_new_unchecked p, map written_object (objects_with p ts))) keys\<rparr>"

lemma unchecked_value [simp]: "iri_value (iri_new_unchecked v) = v"
  by (simp add: iri_new_unchecked_def)

lemma node_processed:
  assumes k: "sorted_wrt (<) keys" "\<forall>p \<in> set keys. \<not> keyword p" and ps: "map fst ps = keys" "list_all (reads_property ts) ps"
  shows "process_node (VObject (jm_extend [] (expanded_head (subject_to_id s) (List.map_filter type_of_triple ts) @ ps))) x =
    process_node (VObject (ld_members type_array (written_node s ts keys))) x"
proof -
  let ?ts = "List.map_filter type_of_triple ts" and ?s = "subject_to_id s"
  let ?E = "jm_insert (lit ''@id'') (VString ?s) (if ?ts = [] then ps else jm_insert (lit ''@type'') (VArray (map VString ?ts)) ps)"
  let ?L = "ld_members type_array (written_node s ts keys)"
  have no: "lit ''@id'' \<notin> set (map fst ps)" "lit ''@type'' \<notin> set (map fst ps)" "lit ''@value'' \<notin> set (map fst ps)"
    "lit ''@list'' \<notin> set (map fst ps)"
    using k(2) keyword_names unfolding ps(1) by blast+
  have sorted: "sorted_wrt (<) (map fst ps)" using k(1) ps(1) by simp
  have E: "jm_extend [] (expanded_head ?s ?ts @ ps) = ?E"
  proof (rule sorted_maps_eq)
    show "sorted_wrt (<) (map fst ?E)" using sorted by (simp add: sorted_insert)
    have d: "distinct (map fst (expanded_head ?s ?ts @ ps))"
      using no sorted by (auto simp: expanded_head_def strict_sorted_iff)
    have "lit ''@id'' \<notin> set (map fst (jm_insert (lit ''@type'') (VArray (map VString ?ts)) ps))"
      using no(1) by (simp only: keys_insert) simp
    then show "set (jm_extend [] (expanded_head ?s ?ts @ ps)) = set ?E"
      using d no(1,2) by (auto simp: set_extend set_insert expanded_head_def)
  qed (simp add: extend_sorted)
  have props: "list_all2 (\<lambda>e f. fst e = fst f \<and> property_items (snd e) = property_items (snd f)) ps
      (map (\<lambda>(p, obs). (iri_value p, VArray (map (ld_object type_array) obs))) (ld_properties (written_node s ts keys)))"
    using ps(2) unfolding ps(1) [symmetric]
    by (auto simp: written_node_def list_all2_map2 list_all2_same list_all_iff reads_property_def)
  have "process_members u ?E y = process_members u ?L y" for u y
    using members_items [OF props, of u y] by (simp add: ld_members_def members_insert_keyword keyword_names)
  moreover have "jm_get ''@id'' ?E = jm_get ''@id'' ?L"
    by (simp add: jm_get_def ld_members_def map_of_insert written_node_def)
  moreover have "process_types u (jm_get ''@type'' ?E) y = process_types u (jm_get ''@type'' ?L) y" for u y
    using no(2) by (simp add: jm_get_def ld_members_def map_of_insert written_node_def process_types_def rdf_type_iri comp_def
        map_of_eq_None_iff [THEN iffD2])
  moreover have "map_of ps (lit ''@value'') = None" "map_of ps (lit ''@list'') = None"
    using no(3,4) by (simp_all only: map_of_eq_None_iff set_map [symmetric]) simp_all
  moreover have "map_of (map (\<lambda>(p, obs). (iri_value p, VArray (map (ld_object type_array) obs))) (ld_properties (written_node s ts keys))) q = None"
    if "keyword q" for q
    using k(2) that by (auto simp: map_of_eq_None_iff written_node_def)
  then have "jm_get ''@value'' ?L = None" "jm_get ''@list'' ?L = None"
    by (simp_all add: jm_get_def ld_members_def map_of_insert keyword_names)
  ultimately show ?thesis unfolding E by (simp add: get_subject_def jm_get_def map_of_insert)
qed

subsection \<open>The round trip\<close>

fun readable_subject :: "jsonld_ser \<Rightarrow> subject \<Rightarrow> bool" where
  "readable_subject w (SubjIri i) = readable_iri w i"
| "readable_subject w (SubjBlank b) = True"

definition jsonld_back :: "bn_scope \<Rightarrow> triple \<Rightarrow> triple" where
  "jsonld_back sc t = triple_new (ld_subject_back sc (t_subject t)) (t_predicate t) (ld_object_back sc (t_object t))"

lemma valid_unchecked: "valid_iri i \<Longrightarrow> iri_new_unchecked (iri_value i) = i"
  using iri_new_Inr [of "iri_value i" i] by (simp add: valid_iri_def)

lemma written_node_ok:
  assumes s: "readable_subject w s" and r: "list_all (readable_triple w) ts"
    and k: "sorted_wrt (<) keys" "\<forall>p \<in> set keys. \<exists>t \<in> set ts. type_of_triple t = None \<and> readable_iri w (t_predicate t) \<and> iri_value (t_predicate t) = p"
  shows "ld_node_ok (written_node s ts keys)"
proof -
  have "ld_subject_ok s" using s by (cases s) (auto simp: named_ok_def readable_iri_def readable_text_def)
  moreover have "list_all valid_iri (map iri_new_unchecked (List.map_filter type_of_triple ts))"
  proof -
    have "valid_iri (iri_new_unchecked v)" if t: "t \<in> set ts" "type_of_triple t = Some v" for t v
    proof -
      obtain i where i: "t_object t = ObjIri i" "iri_value i = v" using type_of_triple_Some [OF t(2)] by blast
      have "readable_object w (t_object t)" using r t(1) by (simp add: list_all_iff readable_triple_def)
      then show ?thesis using i valid_unchecked [of i] by (auto simp: readable_iri_def)
    qed
    then show ?thesis by (auto simp: list_all_iff List.map_filter_def)
  qed
  moreover have "valid_iri (iri_new_unchecked p) \<and> \<not> keyword p" if p: "p \<in> set keys" for p
  proof -
    from bspec [OF k(2) p] obtain t :: triple where "readable_iri w (t_predicate t)" "iri_value (t_predicate t) = p" by auto
    then show ?thesis using valid_unchecked [of "t_predicate t"] by (auto simp: readable_iri_def readable_text_def)
  qed
  moreover have "list_all ld_object_ok (map written_object (objects_with p ts))" for p
    using r written_object_ok by (auto simp: list_all_iff objects_with_def readable_triple_def)
  ultimately show ?thesis using k(1)
    by (simp add: ld_node_ok_def written_node_def comp_def list_all_iff)
qed

text \<open>The triples of the node are those it was written from, types first, then by predicate.\<close>

lemma written_node_triples:
  assumes r: "list_all (readable_triple w) ts" and s: "list_all (\<lambda>t. t_subject t = s) ts"
    and k: "distinct keys" "set keys = {iri_value (t_predicate t) | t. t \<in> set ts \<and> type_of_triple t = None}"
  shows "\<exists>us. mset us = mset ts \<and> ld_triples sc (written_node s ts keys) = map (jsonld_back sc) us"
proof -
  let ?us = "filter (\<lambda>t. type_of_triple t \<noteq> None) ts"
  let ?of = "\<lambda>p. filter (\<lambda>t. type_of_triple t = None \<and> iri_value (t_predicate t) = p) ts"
  have valid: "valid_iri (t_predicate t)" "t_subject t = s" if "t \<in> set ts" for t
    using r s that by (auto simp: list_all_iff readable_triple_def readable_iri_def)
  have one: "jsonld_back sc t = triple_new (ld_subject_back sc s) (iri_new_unchecked RDF_TYPE) (ObjIri (iri_new_unchecked (the (type_of_triple t))))"
    if t: "t \<in> set ts" "type_of_triple t \<noteq> None" for t
  proof -
    obtain v where v: "type_of_triple t = Some v" using t(2) by blast
    obtain i where i: "iri_value (t_predicate t) = RDF_TYPE_TEXT" "t_object t = ObjIri i" "iri_value i = v"
      using type_of_triple_Some [OF v] by blast
    have "readable_object w (t_object t)" using r t(1) by (simp add: list_all_iff readable_triple_def)
    then have "valid_iri i" using i(2) by (simp add: readable_iri_def)
    then show ?thesis
      using i v valid [OF t(1)] valid_unchecked [of i] valid_unchecked [of "t_predicate t"]
      by (auto simp: jsonld_back_def RDF_TYPE_TEXT_def RDF_TYPE_def)
  qed
  have types: "map (\<lambda>i. triple_new (ld_subject_back sc s) (iri_new_unchecked RDF_TYPE) (ObjIri i))
      (map iri_new_unchecked (List.map_filter type_of_triple ts)) = map (jsonld_back sc) ?us"
    using one by (simp add: List.map_filter_def)
  have objs: "map (\<lambda>ob. triple_new (ld_subject_back sc s) (iri_new_unchecked p) (ld_object_back sc ob)) (map written_object (objects_with p ts)) =
      map (jsonld_back sc) (?of p)" for p
    using valid valid_unchecked by (auto simp: objects_with_def jsonld_back_def written_object_back)
  have "ld_triples sc (written_node s ts keys) = map (jsonld_back sc) (?us @ concat (map ?of keys))"
    using types objs by (simp add: ld_triples_def written_node_def Let_def map_concat comp_def)
  moreover have "mset (?us @ concat (map ?of keys)) = mset ts"
  proof -
    let ?ns = "filter (\<lambda>t. type_of_triple t = None) ts"
    have "mset (concat (map (\<lambda>e. ?of (fst e)) (map (\<lambda>p. (p, ())) keys))) =
        mset (filter (\<lambda>t. iri_value (t_predicate t) \<in> fst ` set (map (\<lambda>p. (p, ())) keys)) ?ns)"
      by (rule mset_parts) (simp_all add: k(1) comp_def conj_commute)
    moreover have "filter (\<lambda>t. iri_value (t_predicate t) \<in> fst ` set (map (\<lambda>p. (p, ())) keys)) ?ns = ?ns"
      using k(2) by (intro filter_True) (auto simp: image_iff)
    ultimately have "mset (concat (map (\<lambda>e. ?of (fst e)) (map (\<lambda>p. (p, ())) keys))) = mset ?ns" by (simp only:)
    then have "mset (concat (map ?of keys)) = mset ?ns" by (simp only: map_map comp_def fst_conv)
    then show ?thesis using multiset_partition [of "mset ts" "\<lambda>t. type_of_triple t \<noteq> None"] by (simp add: mset_filter)
  qed
  ultimately show ?thesis by blast
qed

lemma js_triple_quad: "js_triple t w = js_quad (quad_in_default_graph t) w"
  by (simp add: js_triple_def js_quad_def quad_in_default_graph_def)

lemma fold_triples: "fold js_triple ts w = fold js_quad (map quad_in_default_graph ts) w"
proof -
  have "js_triple = js_quad \<circ> quad_in_default_graph" by (simp add: fun_eq_iff js_triple_quad)
  then show ?thesis by (simp only: fold_map)
qed

lemma readable_settings:
  assumes "js_prefixes v = js_prefixes w" "js_use_context v = js_use_context w"
  shows "written_prefixes v = written_prefixes w" "readable_iri v = readable_iri w" "readable_triple v = readable_triple w"
proof -
  show p: "written_prefixes v = written_prefixes w" using assms by (simp add: written_prefixes_def)
  then show i: "readable_iri v = readable_iri w" by (simp add: fun_eq_iff readable_iri_def)
  have "readable_object v ob = readable_object w ob" for ob by (cases ob) (simp_all add: i split: option.split)
  then show "readable_triple v = readable_triple w" by (simp add: fun_eq_iff readable_triple_def i)
qed

text \<open>The serializer has collected one node.\<close>

lemma single_node:
  assumes "fresh_serializer w" "ts \<noteq> []" "list_all (\<lambda>t. t_subject t = s) ts"
    and c: "collects (map quad_in_default_graph ts) v" and v: "v = fold js_triple ts w"
  shows "\<exists>n. js_nodes v = fmupd (subject_to_id s) n fmempty \<and> node_is (subject_to_id s) ts n \<and> js_named_graphs v = fmempty"
proof -
  let ?s = "subject_to_id s" and ?qs = "map quad_in_default_graph ts"
  have quads: "node_quads None u ?qs = (if u = ?s then ts else [])" for u
    using assms(3) by (auto simp: node_quads_def quad_in_default_graph_def list_all_iff filter_map comp_def
        intro!: filter_True filter_False)
  have at: "case fmlookup (js_nodes v) u of None \<Rightarrow> node_quads None u ?qs = []
      | Some n \<Rightarrow> node_quads None u ?qs \<noteq> [] \<and> node_is u (node_quads None u ?qs) n" for u
    using c unfolding collects_def by (auto simp: graph_nodes_def dest: spec [of _ None])
  obtain n where n: "fmlookup (js_nodes v) ?s = Some n" "node_is ?s ts n"
    using at [of ?s] assms(2) by (auto simp: quads split: option.splits)
  have "fmlookup (js_nodes v) u = None" if "u \<noteq> ?s" for u
    using at [of u] that by (auto simp: quads split: option.splits)
  then have "js_nodes v = fmupd ?s n fmempty" using n(1) by (intro fmap_ext) auto
  moreover have "fmlookup (js_named_graphs v) g = None" for g
    using named_graph_keys [of ?qs w g] assms(1) by (auto simp: v fold_triples fresh_serializer_def quad_in_default_graph_def)
  then have "js_named_graphs v = fmempty" by (intro fmap_ext) auto
  ultimately show ?thesis using n(2) by blast
qed

lemma single_document:
  assumes "js_nodes v = fmupd s n fmempty" "js_named_graphs v = fmempty"
  shows "json_value (output_doc S iter giter v) = VObject (jm_extend [] (context_member v @ node_entries S iter v n))"
proof -
  have "key_order (js_nodes v) = [(s, n)]" unfolding assms(1) by (rule hash_order_single [OF hash_order_key_order])
  then have body: "body_doc S iter giter v = node_doc S iter v n" by (simp add: body_doc_def assms(2))
  let ?c = "JObject (map (\<lambda>(p, i). (p, JString i)) (key_order (js_prefixes v)))"
  have "json_value ?c = VObject (map (\<lambda>(p, i). (p, VString i)) (key_order (js_prefixes v)))"
  proof -
    have "jm_extend [] (map (\<lambda>(p, i). (p, VString i)) (key_order (js_prefixes v))) = map (\<lambda>(p, i). (p, VString i)) (key_order (js_prefixes v))"
      using key_order_sorted [of "js_prefixes v"] by (intro extend_sorted_id) (simp add: case_prod_unfold comp_def)
    then show ?thesis by (simp add: case_prod_unfold comp_def)
  qed
  then have "has_context v \<Longrightarrow> json_value ?c = context_value (written_prefixes v)"
    by (simp add: context_value_def written_prefixes_def has_context_def)
  then show ?thesis
    by (cases "has_context v") (simp_all add: output_doc_def body context_member_def node_entries_def)
qed

text \<open>The predicates of the node are those of the triples that are no types.\<close>

lemma node_predicates:
  assumes "node_is s ts n"
  shows "set (map fst (key_order (jn_properties n))) = {iri_value (t_predicate t) | t. t \<in> set ts \<and> type_of_triple t = None}"
proof -
  have "p \<in> set (map fst (key_order (jn_properties n))) \<longleftrightarrow> fmlookup (jn_properties n) p \<noteq> None" for p
    by (cases "fmlookup (jn_properties n) p") (simp_all add: image_iff Bex_def hash_order_in_iff [OF hash_order_key_order])
  moreover have "fmlookup (jn_properties n) p \<noteq> None \<longleftrightarrow> (\<exists>t \<in> set ts. type_of_triple t = None \<and> iri_value (t_predicate t) = p)" for p
    using assms by (auto simp: node_is_def property_values_def filter_empty_conv split: if_splits)
  ultimately have "p \<in> set (map fst (key_order (jn_properties n))) \<longleftrightarrow>
      (\<exists>t \<in> set ts. type_of_triple t = None \<and> iri_value (t_predicate t) = p)" for p
    by (rule trans)
  then show ?thesis by (intro set_eqI) (simp only: mem_Collect_eq, blast)
qed

text \<open>The conversion of an expanded document that is processed like a node.\<close>

lemma node_converted:
  assumes "lp_expand p d = Inr (VArray [VObject m])" "ld_node_ok node"
    and "\<And>x. process_node (VObject m) x = process_node (VObject (ld_members type_array node)) x"
  shows "lp_to_rdf p d n = (Inr (ld_triples (fst (scope_generate n)) node), n + 1)"
proof -
  obtain x where x: "jr_new n = (x, n + 1)" "jr_scope x = fst (scope_generate n)" "jr_map x = fmempty"
    by (simp add: jr_new_def scope_generate_def)
  have "plain_map (x\<lparr>jr_quads := []\<rparr>)" by (simp add: plain_map_def x)
  from ld_node_read [OF assms(2) this] obtain y u where
    "process_node (VObject m) (x\<lparr>jr_quads := []\<rparr>) = Inr (u, y)"
    "jr_reads (x\<lparr>jr_quads := []\<rparr>) (ld_triples (fst (scope_generate n)) node) y"
    unfolding assms(3) by (auto simp: x)
  then show ?thesis
    by (simp add: lp_to_rdf_def assms(1) x jr_convert_to_triples_def jr_convert_def Let_def jr_reads_def
        quad_in_default_graph_def comp_def del: process_node.simps)
qed

lemma written_document_read:
  assumes "std_ok S" "hash_order iter" "fresh_serializer w" "context_prefixes (written_prefixes w)"
    and "ts \<noteq> []" "list_all (\<lambda>t. t_subject t = s) ts" "readable_subject w s" "list_all (readable_triple w) ts"
    and "\<forall>p. objects_with p ts = [] \<or> lone_strings (objects_with p ts)"
    and c: "collects (map quad_in_default_graph ts) (fold js_triple ts w)"
  shows "\<exists>us. mset us = mset ts \<and> lp_to_rdf lp_new (json_value (output_doc S iter giter (fold js_triple ts w))) n =
       (Inr (map (jsonld_back (fst (scope_generate n))) us), n + 1)"
proof -
  let ?v = "fold js_triple ts w" and ?s = "subject_to_id s" and ?types = "List.map_filter type_of_triple ts"
  have v: "js_prefixes ?v = js_prefixes w" "js_use_context ?v = js_use_context w"
    using fold_settings [of "map quad_in_default_graph ts" w] by (simp_all add: fold_triples)
  note settings = readable_settings [OF v]
  obtain m where m: "js_nodes ?v = fmupd ?s m fmempty" "node_is ?s ts m" "js_named_graphs ?v = fmempty"
    using single_node [OF assms(3,5,6) c refl] by blast
  let ?keys = "map fst (key_order (jn_properties m))"
  have r: "list_all (readable_triple ?v) ts" using assms(8) settings(3) by simp
  have "prefix (lit ''_:'') ?s \<or> readable_text (written_prefixes ?v) ?s"
    using assms(7) settings(1) by (cases s) (simp_all add: readable_iri_def)
  from document_expands [OF assms(1,2) _ m(2) r assms(9) this] assms(4) settings(1) obtain ps where
    ps: "map fst ps = ?keys" "list_all (reads_property ts) ps"
      "lp_expand lp_new (json_value (output_doc S iter giter ?v)) =
        Inr (VArray [VObject (jm_extend [] (expanded_head ?s ?types @ ps))])"
    unfolding single_document [OF m(1,3)] by auto
  have keys: "\<forall>p \<in> set ?keys. \<exists>t \<in> set ts. type_of_triple t = None \<and> readable_iri w (t_predicate t) \<and> iri_value (t_predicate t) = p"
    using property_key [OF m(2) r] settings(2) by auto
  then have "\<forall>p \<in> set ?keys. \<not> keyword p" by (auto simp: readable_iri_def readable_text_def)
  from node_converted [OF ps(3) written_node_ok [OF assms(7,8) key_order_sorted keys] node_processed [OF key_order_sorted this ps(1,2)]]
  have "lp_to_rdf lp_new (json_value (output_doc S iter giter ?v)) n = (Inr (ld_triples (fst (scope_generate n)) (written_node s ts ?keys)), n + 1)" .
  with written_node_triples [OF assms(8,6) hash_order_distinct [OF hash_order_key_order] node_predicates [OF m(2)]]
  show ?thesis by metis
qed

text \<open>A parser of JSON text that reads this text as the grammar does.\<close>

definition reads_as_written :: "(rstr \<Rightarrow> rstr + jvalue) \<Rightarrow> rstr \<Rightarrow> bool" where
  "reads_as_written from_str t \<longleftrightarrow> (\<forall>d. json_text t d \<longrightarrow> from_str t = Inr (json_value d))"

text \<open>C26: The JSON-LD parser reads what a fresh JSON-LD serializer writes about one subject, with or without a context of
  prefixes, under these conditions: the prefixes can be declared by a context (no colon, no keyword, not \<open>_\<close>, a
  namespace with \<open>://\<close>), and the strings written unescaped need no escape; IRIs are valid, not keywords, do not start with \<open>_:\<close>, and their scheme is no prefix of the table; literals are
  valid; and a string without language and datatype is the only value of its predicate (two of them make the conversion
  fail). Then, whatever parser of JSON text is used, as long as it reads the text as the grammar does, the
  document is parsed, and the triples it is converted to are exactly those that were written, each once, with blank nodes renamed by the scope of
  the conversion, and literals with their language but without their datatype, which is lost.\<close>

theorem jsonld_written_read_back:
  assumes "std_ok S" "hash_order iter" "hash_order giter" "fresh_serializer w" "context_prefixes (written_prefixes w)"
    and "ts \<noteq> []" "list_all (\<lambda>t. t_subject t = s) ts" "readable_subject w s" "list_all (readable_triple w) ts"
    and "list_all quad_plain (map quad_in_default_graph ts)"
    and "\<forall>p. objects_with p ts = [] \<or> lone_strings (objects_with p ts)"
    and "reads_as_written from_str (js_output S iter giter (fold js_triple ts w))"
  shows "\<exists>d us. lp_parse from_str (js_output S iter giter (fold js_triple ts w)) = Inr d \<and> mset us = mset ts \<and>
    lp_to_rdf lp_new d n = (Inr (map (jsonld_back (fst (scope_generate n))) us), n + 1)"
proof -
  have c: "collects (map quad_in_default_graph ts) (fold js_triple ts w)" "ser_plain (fold js_triple ts w)"
    using collected_plain [OF assms(4,10)] by (simp_all add: fold_triples quad_in_default_graph_def)
  have "from_str (js_output S iter giter (fold js_triple ts w)) = Inr (json_value (output_doc S iter giter (fold js_triple ts w)))"
    using assms(12) output_text [OF assms(2,3) c(2), of S] unfolding reads_as_written_def by blast
  with written_document_read [OF assms(1,2,4-9,11) c(1), of giter n] show ?thesis
    by (intro exI [of _ "json_value (output_doc S iter giter (fold js_triple ts w))"]) (simp add: lp_parse_def)
qed

text \<open>A subject with a type, two values of a predicate and a plain string, under a prefix.\<close>

definition prefixed_serializer :: jsonld_ser where
  "prefixed_serializer = js_add_prefix (lit ''ex'') (lit ''http://e/'') js_new"

definition described :: "triple list" where
  "described = map (\<lambda>(p, ob). triple_new (SubjIri (iri_new_unchecked (lit ''http://e/s''))) (iri_new_unchecked p) ob)
     [(lit ''http://e/knows'', ObjBlank (bn_new (lit ''x''))),
      (RDF_TYPE_TEXT, ObjIri (iri_new_unchecked (lit ''http://e/C''))),
      (lit ''http://e/knows'', ObjIri (iri_new_unchecked (lit ''urn:y''))),
      (lit ''http://e/name'', ObjLiteral \<lparr>lit_value = [97, c_dquote], lit_datatype = None, lit_language = None\<rparr>)]"

lemma readable_sample:
  assumes "valid_iri_text v" "readable_text (fmupd (lit ''ex'') (lit ''http://e/'') fmempty) v"
  shows "readable_iri prefixed_serializer (iri_new_unchecked v)"
  using assms iri_new_valid [of v]
  by (simp add: readable_iri_def valid_iri_def written_prefixes_def prefixed_serializer_def js_add_prefix_def js_new_def)

lemma described_iris:
  "readable_iri prefixed_serializer (iri_new_unchecked (lit ''http://e/s''))"
  "readable_iri prefixed_serializer (iri_new_unchecked (lit ''http://e/knows''))"
  "readable_iri prefixed_serializer (iri_new_unchecked (lit ''http://e/C''))"
  "readable_iri prefixed_serializer (iri_new_unchecked (lit ''http://e/name''))"
  "readable_iri prefixed_serializer (iri_new_unchecked (lit ''urn:y''))"
  "readable_iri prefixed_serializer (iri_new_unchecked RDF_TYPE_TEXT)"
  unfolding RDF_TYPE_TEXT_def
  by (rule readable_sample; simp add: valid_iri_text_def readable_text_def keyword_def is_control_def str_simps)+

lemma described_types:
  "map type_of_triple described = [None, Some (lit ''http://e/C''), None, None]"
  by (simp add: described_def type_of_triple_def triple_new_def RDF_TYPE_TEXT_def iri_new_unchecked_def str_simps)

theorem jsonld_written_read_back_witness:
  "\<exists>d us. lp_parse (\<lambda>t. case json_read t of Some d \<Rightarrow> Inr (json_value d) | None \<Rightarrow> Inl (lit ''expected value''))
       (js_output ascii_std key_order key_order (fold js_triple described prefixed_serializer)) = Inr d \<and>
     mset us = mset described \<and> lp_to_rdf lp_new d 0 = (Inr (map (jsonld_back (fst (scope_generate 0))) us), 1)"
proof -
  let ?f = "\<lambda>t. case json_read t of Some d \<Rightarrow> Inr (json_value d) | None \<Rightarrow> Inl (lit ''expected value'')"
  have "reads_as_written ?f t" for t
    by (simp add: reads_as_written_def json_text_read)
  moreover
  have nil: "json_plain []" by (simp add: json_plain_def)
  have "fresh_serializer prefixed_serializer"
    by (simp add: fresh_serializer_def prefixes_plain_def prefixed_serializer_def js_add_prefix_def js_new_def str_simps nil)
  moreover have "context_prefixes (written_prefixes prefixed_serializer)"
    by (simp add: context_prefixes_def written_prefixes_def prefixed_serializer_def js_add_prefix_def js_new_def keyword_def
        contains_str_def str_simps)
  moreover have "described \<noteq> []" "list_all (\<lambda>t. t_subject t = SubjIri (iri_new_unchecked (lit ''http://e/s''))) described"
    by (simp_all add: described_def triple_new_def)
  moreover have "readable_subject prefixed_serializer (SubjIri (iri_new_unchecked (lit ''http://e/s'')))"
    by (simp add: described_iris)
  moreover have "list_all (readable_triple prefixed_serializer) described"
    by (simp add: described_def readable_triple_def triple_new_def described_iris valid_literal_def)
  moreover have "list_all quad_plain (map quad_in_default_graph described)"
    using described_types
    by (simp add: described_def quad_plain_def quad_in_default_graph_def triple_new_def str_simps bn_new_def nil)
  moreover have "\<forall>p. objects_with p described = [] \<or> lone_strings (objects_with p described)"
    using described_types
    by (auto simp: described_def objects_with_def triple_new_def lone_strings_def iri_new_unchecked_def str_simps)
  ultimately show ?thesis
    using jsonld_written_read_back [OF ascii_std_ok hash_order_key_order hash_order_key_order, of prefixed_serializer described
        "SubjIri (iri_new_unchecked (lit ''http://e/s''))" ?f 0] by simp
qed

end
