(* ===== verification/DictionaryLocks.thy ===== *)
theory DictionaryLocks
  imports Dictionary
begin

section \<open>The locks of the dictionary (storage/src/dictionary.rs)\<close>

text \<open>
  Calls of the dictionary as threads that acquire and drop the guards of its two locks one by one. A guard
  blocks other threads and the thread that holds it alike; whether readers also wait for waiting writers is
  left open by the library, so both policies are modelled. The lemmas show that no state is a deadlock
  and that every run is short, and that what happens under the locks may be taken as one step, as
  \<open>dict_step\<close> does. No operation panics under a guard in a release build, so poisoned locks are left out.
\<close>

subsection \<open>Calls and their guards\<close>

text \<open>\<open>Forward\<close> is the lock of \<open>iri_to_id\<close>, \<open>Reverse\<close> that of \<open>id_to_iri\<close>. The other queries hold the same
  single guard as \<open>get_id\<close> or \<open>get_iri\<close>.\<close>

datatype dict_lock = Forward | Reverse

datatype lock_mode = Shared | Exclusive

datatype dict_call = GetOrInsert rstr | GetId rstr | GetIri iri_id | ImportAll "(iri_id \<times> rstr) list" | ClearAll

datatype dict_reply = ReplyId iri_id | ReplyIdOption "iri_id option" | ReplyIri "rstr option" | ReplyUnit

datatype dict_write = WriteInsert rstr | WriteImport "(iri_id \<times> rstr) list" | WriteClear

text \<open>Where a call stands: before its first guard, with a read guard, after a miss of the fast path, with the
  write guard of the first lock, with both write guards, or back.\<close>

datatype phase =
    Start dict_call
  | Reading dict_call
  | MissedPath rstr
  | HasForward dict_write
  | HasBoth dict_write
  | Done dict_reply

fun wants :: "phase \<Rightarrow> (dict_lock \<times> lock_mode) option" where
  "wants (Start (GetOrInsert v)) = Some (Forward, Shared)"
| "wants (Start (GetId v)) = Some (Forward, Shared)"
| "wants (Start (GetIri n)) = Some (Reverse, Shared)"
| "wants (Start (ImportAll es)) = Some (Forward, Exclusive)"
| "wants (Start ClearAll) = Some (Forward, Exclusive)"
| "wants (MissedPath v) = Some (Forward, Exclusive)"
| "wants (HasForward x) = Some (Reverse, Exclusive)"
| "wants _ = None"

fun granted :: "phase \<Rightarrow> phase" where
  "granted (Start (ImportAll es)) = HasForward (WriteImport es)"
| "granted (Start ClearAll) = HasForward WriteClear"
| "granted (Start c) = Reading c"
| "granted (MissedPath v) = HasForward (WriteInsert v)"
| "granted (HasForward x) = HasBoth x"
| "granted ph = ph"

text \<open>The guards that are alive.\<close>

fun held :: "phase \<Rightarrow> (dict_lock \<times> lock_mode) set" where
  "held (Reading (GetOrInsert v)) = {(Forward, Shared)}"
| "held (Reading (GetId v)) = {(Forward, Shared)}"
| "held (Reading (GetIri n)) = {(Reverse, Shared)}"
| "held (MissedPath v) = {}"
| "held (HasForward x) = {(Forward, Exclusive)}"
| "held (HasBoth x) = {(Forward, Exclusive), (Reverse, Exclusive)}"
| "held _ = {}"

text \<open>What a call does with its guards; they are dropped at the end.\<close>

fun body :: "phase \<Rightarrow> dictionary \<Rightarrow> phase \<times> dictionary" where
  "body (Reading (GetOrInsert v)) d =
     ((case fmlookup (iri_to_id d) v of Some n \<Rightarrow> Done (ReplyId n) | None \<Rightarrow> MissedPath v), d)"
| "body (Reading (GetId v)) d = (Done (ReplyIdOption (fmlookup (iri_to_id d) v)), d)"
| "body (Reading (GetIri n)) d = (Done (ReplyIri (fmlookup (id_to_iri d) n)), d)"
| "body (HasBoth (WriteInsert v)) d = (let (n, d') = dict_insert_locked d v in (Done (ReplyId n), d'))"
| "body (HasBoth (WriteImport es)) d = (Done ReplyUnit, dict_import d es)"
| "body (HasBoth WriteClear) d = (Done ReplyUnit, dict_clear d)"
| "body ph d = (ph, d)"

fun finished :: "phase \<Rightarrow> bool" where
  "finished (Done r) = True" | "finished _ = False"

subsection \<open>Steps\<close>

record lock_sys =
  shared :: dictionary
  phases :: "phase list"

text \<open>A lock can be taken if no guard is in the way; with \<open>fair\<close>, a reader also waits while a writer waits.\<close>

definition available :: "bool \<Rightarrow> lock_sys \<Rightarrow> dict_lock \<Rightarrow> lock_mode \<Rightarrow> bool" where
  "available fair s l m \<longleftrightarrow>
     (\<forall>ph \<in> set (phases s). (l, Exclusive) \<notin> held ph \<and> (m = Exclusive \<longrightarrow> (l, Shared) \<notin> held ph) \<and>
        (fair \<and> m = Shared \<longrightarrow> wants ph \<noteq> Some (l, Exclusive)))"

inductive lock_step :: "bool \<Rightarrow> lock_sys \<Rightarrow> lock_sys \<Rightarrow> bool" for fair where
  acquire: "t < length (phases s) \<Longrightarrow> wants (phases s ! t) = Some (l, m) \<Longrightarrow> available fair s l m \<Longrightarrow>
     lock_step fair s (s\<lparr>phases := (phases s)[t := granted (phases s ! t)]\<rparr>)"
| work: "t < length (phases s) \<Longrightarrow> wants (phases s ! t) = None \<Longrightarrow> \<not> finished (phases s ! t) \<Longrightarrow>
     body (phases s ! t) (shared s) = (ph, d) \<Longrightarrow>
     lock_step fair s (s\<lparr>shared := d, phases := (phases s)[t := ph]\<rparr>)"

inductive lock_runs :: "bool \<Rightarrow> lock_sys \<Rightarrow> nat \<Rightarrow> lock_sys \<Rightarrow> bool" for fair s0 where
  none: "lock_runs fair s0 0 s0"
| more: "lock_runs fair s0 n s \<Longrightarrow> lock_step fair s s' \<Longrightarrow> lock_runs fair s0 (Suc n) s'"

inductive_cases lock_stepE: "lock_step fair s s'"

definition calls_start :: "dictionary \<Rightarrow> dict_call list \<Rightarrow> lock_sys" where
  "calls_start d cs = \<lparr>shared = d, phases = map Start cs\<rparr>"

subsection \<open>Runs are short\<close>

fun steps_left :: "phase \<Rightarrow> nat" where
  "steps_left (Start (GetOrInsert v)) = 5"
| "steps_left (Start (ImportAll es)) = 3"
| "steps_left (Start ClearAll) = 3"
| "steps_left (Start c) = 2"
| "steps_left (Reading (GetOrInsert v)) = 4"
| "steps_left (Reading c) = 1"
| "steps_left (MissedPath v) = 3"
| "steps_left (HasForward x) = 2"
| "steps_left (HasBoth x) = 1"
| "steps_left (Done r) = 0"

lemma granted_left: "wants ph = Some x \<Longrightarrow> steps_left (granted ph) < steps_left ph"
  by (cases ph rule: wants.cases) simp_all

text \<open>Phases in which a thread can be.\<close>

fun proper :: "phase \<Rightarrow> bool" where
  "proper (Reading (ImportAll es)) = False" | "proper (Reading ClearAll) = False" | "proper _ = True"

lemma start_waits: "wants (Start c) \<noteq> None"
  by (cases c) simp_all

lemma body_left: "wants ph = None \<Longrightarrow> \<not> finished ph \<Longrightarrow> proper ph \<Longrightarrow> body ph d = (ph', d') \<Longrightarrow> steps_left ph' < steps_left ph"
  by (cases "(ph, d)" rule: body.cases) (auto simp: start_waits split: option.splits prod.splits)

definition left_in :: "lock_sys \<Rightarrow> nat" where
  "left_in s = sum_list (map steps_left (phases s))"

lemma left_update: "t < length phs \<Longrightarrow> steps_left ph < steps_left (phs ! t) \<Longrightarrow>
    sum_list (map steps_left (phs[t := ph])) < sum_list (map steps_left phs)"
proof (induction phs arbitrary: t)
  case (Cons x phs)
  then show ?case by (cases t) auto
qed simp

definition all_proper :: "lock_sys \<Rightarrow> bool" where
  "all_proper s \<longleftrightarrow> list_all proper (phases s)"

lemma granted_proper: "wants ph = Some x \<Longrightarrow> proper (granted ph)"
  by (cases ph rule: wants.cases) simp_all

lemma body_proper: "proper ph \<Longrightarrow> body ph d = (ph', d') \<Longrightarrow> proper ph'"
  by (cases "(ph, d)" rule: body.cases) (auto split: option.splits prod.splits)

lemma all_proper_update: "all_proper s \<Longrightarrow> proper ph \<Longrightarrow> list_all proper ((phases s)[t := ph])"
  by (auto simp: all_proper_def list_all_iff dest!: set_update_subset_insert [THEN subsetD])

lemma lock_step_left: "lock_step fair s s' \<Longrightarrow> all_proper s \<Longrightarrow> left_in s' < left_in s \<and> all_proper s'"
proof (erule lock_stepE)
  fix t l m
  assume "s' = s\<lparr>phases := (phases s)[t := granted (phases s ! t)]\<rparr>" "t < length (phases s)"
    "wants (phases s ! t) = Some (l, m)" "all_proper s"
  then show ?thesis
    using left_update granted_left granted_proper all_proper_update by (auto simp: left_in_def all_proper_def [of "s\<lparr>phases := ps\<rparr>" for ps])
next
  fix t ph d
  assume a: "s' = s\<lparr>shared := d, phases := (phases s)[t := ph]\<rparr>" "t < length (phases s)"
    "wants (phases s ! t) = None" "\<not> finished (phases s ! t)" "body (phases s ! t) (shared s) = (ph, d)" "all_proper s"
  then have "proper (phases s ! t)" by (simp add: all_proper_def list_all_length)
  then show ?thesis
    using a left_update body_left body_proper all_proper_update by (auto simp: left_in_def all_proper_def [of "s\<lparr>shared := d', phases := ps\<rparr>" for d' ps])
qed

lemma start_left: "left_in (calls_start d cs) \<le> 5 * length cs"
proof (induction cs)
  case (Cons c cs)
  then show ?case by (cases c) (simp_all add: left_in_def calls_start_def)
qed (simp add: left_in_def calls_start_def)

lemma runs_left: "lock_runs fair (calls_start d cs) n s \<Longrightarrow> n + left_in s \<le> 5 * length cs \<and> all_proper s"
proof (induction rule: lock_runs.induct)
  case none
  show ?case using start_left by (simp add: all_proper_def calls_start_def list_all_iff)
next
  case (more n s s')
  then show ?case using lock_step_left [OF more.hyps(2)] by auto
qed

subsection \<open>No deadlock\<close>

text \<open>A thread that waits for the first lock holds nothing, and one that holds the second lock waits for nothing.\<close>

lemma forward_waiter_free: "wants ph = Some (Forward, m) \<Longrightarrow> held ph = {}"
  by (cases ph rule: wants.cases) simp_all

lemma reverse_reader_free: "wants ph = Some (Reverse, Shared) \<Longrightarrow> held ph = {}"
  by (cases ph rule: wants.cases) simp_all

lemma reverse_holder_works: "(Reverse, m) \<in> held ph \<Longrightarrow> wants ph = None \<and> \<not> finished ph"
  by (cases ph rule: held.cases) auto

lemma forward_holder: "(Forward, m) \<in> held ph \<Longrightarrow> wants ph = None \<and> \<not> finished ph \<or> wants ph = Some (Reverse, Exclusive)"
  by (cases ph rule: held.cases) auto

lemma unfinished: "wants ph = Some x \<Longrightarrow> \<not> finished ph"
  by (cases ph) auto

lemma can_work: "ph \<in> set (phases s) \<Longrightarrow> wants ph = None \<Longrightarrow> \<not> finished ph \<Longrightarrow> \<exists>s'. lock_step fair s s'"
  by (metis in_set_conv_nth lock_step.work surj_pair)

lemma can_acquire: "ph \<in> set (phases s) \<Longrightarrow> wants ph = Some (l, m) \<Longrightarrow> available fair s l m \<Longrightarrow> \<exists>s'. lock_step fair s s'"
  by (metis in_set_conv_nth lock_step.acquire)

lemma no_deadlock:
  assumes "ph \<in> set (phases s)" "\<not> finished ph"
  shows "\<exists>s'. lock_step fair s s'"
proof (rule ccontr)
  assume stuck: "\<nexists>s'. lock_step fair s s'"
  have waiting: "wants q \<noteq> None" if "q \<in> set (phases s)" "\<not> finished q" for q
    using can_work that stuck by blast
  have no_reverse: "(Reverse, m) \<notin> held q" if "q \<in> set (phases s)" for q m
    using reverse_holder_works waiting that by blast
  have no_reverse_writer: "wants q \<noteq> Some (Reverse, Exclusive)" if "q \<in> set (phases s)" for q
    using can_acquire [OF that, of Reverse Exclusive fair] no_reverse stuck by (auto simp: available_def)
  have no_forward: "(Forward, m) \<notin> held q" if "q \<in> set (phases s)" for q m
    using forward_holder waiting no_reverse_writer that by blast
  have no_writer: "wants q \<noteq> Some (Forward, Exclusive)" if "q \<in> set (phases s)" for q
    using can_acquire [OF that, of Forward Exclusive fair] no_forward stuck by (auto simp: available_def)
  obtain l m where "wants ph = Some (l, m)" using waiting assms by fastforce
  moreover have "m = Shared" using calculation no_writer no_reverse_writer assms(1) by (cases m; cases l) auto
  moreover have "available fair s l Shared"
    using no_forward no_reverse no_writer no_reverse_writer by (cases l) (auto simp: available_def)
  ultimately show False using can_acquire [OF assms(1)] stuck by blast
qed

subsection \<open>Calls return what was asked\<close>

fun belongs :: "dict_call \<Rightarrow> phase \<Rightarrow> bool" where
  "belongs c (Start c') = (c' = c)"
| "belongs c (Reading c') = (c' = c)"
| "belongs c (MissedPath v) = (c = GetOrInsert v)"
| "belongs c (HasForward (WriteInsert v)) = (c = GetOrInsert v)"
| "belongs c (HasForward (WriteImport es)) = (c = ImportAll es)"
| "belongs c (HasForward WriteClear) = (c = ClearAll)"
| "belongs c (HasBoth (WriteInsert v)) = (c = GetOrInsert v)"
| "belongs c (HasBoth (WriteImport es)) = (c = ImportAll es)"
| "belongs c (HasBoth WriteClear) = (c = ClearAll)"
| "belongs c (Done r) = (case c of GetOrInsert v \<Rightarrow> \<exists>n. r = ReplyId n | GetId v \<Rightarrow> \<exists>n. r = ReplyIdOption n
     | GetIri n \<Rightarrow> \<exists>v. r = ReplyIri v | _ \<Rightarrow> r = ReplyUnit)"

lemma belongs_granted: "belongs c ph \<Longrightarrow> wants ph = Some x \<Longrightarrow> belongs c (granted ph)"
proof (cases ph)
  case (HasForward y)
  then show "belongs c ph \<Longrightarrow> wants ph = Some x \<Longrightarrow> belongs c (granted ph)" by (cases y) auto
next
  case (Start y)
  then show "belongs c ph \<Longrightarrow> wants ph = Some x \<Longrightarrow> belongs c (granted ph)" by (cases y) auto
qed auto

lemma belongs_body: "belongs c ph \<Longrightarrow> body ph d = (ph', d') \<Longrightarrow> belongs c ph'"
  by (cases "(ph, d)" rule: body.cases) (auto split: option.splits prod.splits)

lemma runs_belong: "lock_runs fair (calls_start d cs) n s \<Longrightarrow> list_all2 belongs cs (phases s)"
proof (induction rule: lock_runs.induct)
  case none
  show ?case by (simp add: calls_start_def list_all2_map2 list_all2_same)
next
  case (more n s s')
  from more.hyps(2) show ?case
    by (rule lock_stepE)
      (use more.IH belongs_granted belongs_body in \<open>auto simp: list_all2_conv_all_nth nth_list_update\<close>)
qed

subsection \<open>The locked part is one step\<close>

text \<open>Runs of \<open>get_or_insert\<close> alone, read as states of \<open>dict_sys\<close>: taking a guard changes nothing there, and each of
  the other steps is a step of \<open>dict_step\<close>.\<close>

fun as_caller :: "dict_call \<Rightarrow> phase \<Rightarrow> caller" where
  "as_caller (GetOrInsert v) (Start c) = Calling v"
| "as_caller (GetOrInsert v) (Reading c) = Calling v"
| "as_caller (GetOrInsert v) (Done (ReplyId n)) = Returned v n"
| "as_caller (GetOrInsert v) ph = Missed v"
| "as_caller c ph = Missed []"

definition as_dict_sys :: "dict_call list \<Rightarrow> lock_sys \<Rightarrow> dict_sys" where
  "as_dict_sys cs s = \<lparr>dict = shared s, callers = (\<lambda>t. if t < length cs then as_caller (cs ! t) (phases s ! t) else Calling [])\<rparr>"

lemma as_dict_sys_update:
  assumes "length (phases s) = length cs" "t < length cs"
  shows "as_dict_sys cs (s\<lparr>shared := d, phases := (phases s)[t := ph]\<rparr>) =
    (as_dict_sys cs s)\<lparr>dict := d, callers := (callers (as_dict_sys cs s))(t := as_caller (cs ! t) ph)\<rparr>"
  using assms by (auto simp: as_dict_sys_def nth_list_update)

lemma lock_step_simulates:
  assumes "lock_step fair s s'" "list_all2 belongs cs (phases s)" "\<forall>c \<in> set cs. \<exists>v. c = GetOrInsert v"
  shows "as_dict_sys cs s' = as_dict_sys cs s \<or> dict_step (as_dict_sys cs s) (as_dict_sys cs s')"
  using assms(1)
proof (rule lock_stepE)
  fix t l m
  assume s': "s' = s\<lparr>phases := (phases s)[t := granted (phases s ! t)]\<rparr>"
    and t: "t < length (phases s)" and w: "wants (phases s ! t) = Some (l, m)"
  have len: "length (phases s) = length cs" using assms(2) by (simp add: list_all2_lengthD)
  have b: "belongs (cs ! t) (phases s ! t)" using assms(2) t by (simp add: list_all2_conv_all_nth)
  obtain v where v: "cs ! t = GetOrInsert v" using assms(3) t len by fastforce
  have "as_caller (cs ! t) (granted (phases s ! t)) = as_caller (cs ! t) (phases s ! t)"
    using w b v by (cases "phases s ! t" rule: wants.cases) auto
  moreover have "callers (as_dict_sys cs s) t = as_caller (cs ! t) (phases s ! t)" using t len by (simp add: as_dict_sys_def)
  moreover have "dict (as_dict_sys cs s) = shared s" by (simp add: as_dict_sys_def)
  ultimately have "as_dict_sys cs s' = as_dict_sys cs s"
    using as_dict_sys_update [OF len, where t = t and d = "shared s" and ph = "granted (phases s ! t)"] t len s' by (simp add: fun_upd_idem)
  then show ?thesis ..
next
  fix t ph d
  assume s': "s' = s\<lparr>shared := d, phases := (phases s)[t := ph]\<rparr>" and t: "t < length (phases s)"
    and w: "wants (phases s ! t) = None" "\<not> finished (phases s ! t)" and bd: "body (phases s ! t) (shared s) = (ph, d)"
  have len: "length (phases s) = length cs" using assms(2) by (simp add: list_all2_lengthD)
  have b: "belongs (cs ! t) (phases s ! t)" using assms(2) t by (simp add: list_all2_conv_all_nth)
  obtain v where v: "cs ! t = GetOrInsert v" using assms(3) t len by fastforce
  let ?a = "as_dict_sys cs s"
  have c: "callers ?a t = as_caller (cs ! t) (phases s ! t)" and di: "dict ?a = shared s"
    using t len by (simp_all add: as_dict_sys_def)
  have up: "as_dict_sys cs s' = ?a\<lparr>dict := d, callers := (callers ?a)(t := as_caller (cs ! t) ph)\<rparr>"
    using as_dict_sys_update [OF len] t len s' by simp
  consider "phases s ! t = Reading (GetOrInsert v)" | "phases s ! t = HasBoth (WriteInsert v)"
    using w b v by (cases "phases s ! t" rule: held.cases; cases "phases s ! t" rule: wants.cases) (auto elim: belongs.elims)
  then have "dict_step ?a (as_dict_sys cs s')"
  proof cases
    case 1
    have "d = shared s" using bd 1 by auto
    then have up': "as_dict_sys cs s' = ?a\<lparr>callers := (callers ?a)(t := as_caller (cs ! t) ph)\<rparr>" using up di by simp
    show ?thesis
      using fast_hit [of ?a t v] fast_miss [of ?a t v] c di v 1 bd up' by (cases "fmlookup (iri_to_id (shared s)) v") auto
  next
    case 2
    then show ?thesis using locked [of ?a t v] c di v bd up by (auto split: prod.splits)
  qed
  then show ?thesis ..
qed

text \<open>C40: No call of the dictionary can block for ever: whatever calls run concurrently, whatever the
  interleaving and whether or not waiting writers go before readers, in every reachable state in which some
  call has not returned a thread can take a step (its lock is free, or it holds what it needs); every run has at most five
  steps per call; so every run that cannot go on is one in which all calls have returned, and
  \<open>get_or_insert\<close> has returned an id.\<close>

theorem calls_return:
  assumes "lock_runs fair (calls_start d cs) n s"
  shows "n \<le> 5 * length cs \<and> length (phases s) = length cs \<and>
    ((\<exists>s'. lock_step fair s s') \<or>
     (\<forall>t < length cs. \<exists>r. phases s ! t = Done r \<and> (\<forall>v. cs ! t = GetOrInsert v \<longrightarrow> (\<exists>i. r = ReplyId i))))"
proof -
  have own: "list_all2 belongs cs (phases s)" by (rule runs_belong [OF assms])
  have "\<exists>r. phases s ! t = Done r \<and> (\<forall>v. cs ! t = GetOrInsert v \<longrightarrow> (\<exists>i. r = ReplyId i))"
    if stuck: "\<nexists>s'. lock_step fair s s'" and t: "t < length cs" for t
  proof -
    have "t < length (phases s)" using own t by (simp add: list_all2_lengthD)
    then have "finished (phases s ! t)" using no_deadlock stuck nth_mem by blast
    then obtain r where "phases s ! t = Done r" by (cases "phases s ! t") auto
    then show ?thesis using own t by (auto simp: list_all2_conv_all_nth)
  qed
  then show ?thesis using runs_left [OF assms] own by (auto simp: list_all2_lengthD)
qed

text \<open>Two calls that intern the same IRI, up to the point where both have missed: the run goes on.\<close>

theorem calls_return_witness:
  "\<exists>s. lock_runs True (calls_start dict_new [GetOrInsert [1], GetOrInsert [1]]) 4 s \<and> phases s = [MissedPath [1], MissedPath [1]] \<and>
     (\<exists>s'. lock_step True s s')"
proof -
  let ?s = "\<lambda>a b. \<lparr>shared = dict_new, phases = [a, b]\<rparr>" and ?c = "GetOrInsert [1]"
  have a: "lock_step True (?s (Start ?c) (Start ?c)) (?s (Reading ?c) (Start ?c))"
    using lock_step.acquire [of 0 "?s (Start ?c) (Start ?c)" Forward Shared] by (simp add: available_def)
  have b: "lock_step True (?s (Reading ?c) (Start ?c)) (?s (Reading ?c) (Reading ?c))"
    using lock_step.acquire [of 1 "?s (Reading ?c) (Start ?c)" Forward Shared] by (simp add: available_def)
  have c: "lock_step True (?s (Reading ?c) (Reading ?c)) (?s (MissedPath [1]) (Reading ?c))"
    using lock_step.work [of 0 "?s (Reading ?c) (Reading ?c)"] by (simp add: dict_new_def)
  have d: "lock_step True (?s (MissedPath [1]) (Reading ?c)) (?s (MissedPath [1]) (MissedPath [1]))"
    using lock_step.work [of 1 "?s (MissedPath [1]) (Reading ?c)"] by (simp add: dict_new_def)
  have "calls_start dict_new [?c, ?c] = ?s (Start ?c) (Start ?c)" by (simp add: calls_start_def)
  then have run: "lock_runs True (calls_start dict_new [?c, ?c]) 4 (?s (MissedPath [1]) (MissedPath [1]))"
    using lock_runs.more [OF lock_runs.more [OF lock_runs.more [OF lock_runs.more [OF lock_runs.none a] b] c] d]
    by (simp add: eval_nat_numeral)
  from calls_return [OF run] have "\<exists>s'. lock_step True (?s (MissedPath [1]) (MissedPath [1])) s'"
    by (auto simp: less_Suc_eq)
  with run show ?thesis by force
qed

end
