(* ===== verification/Compliance.thy ===== *)
theory Compliance
  imports TurtleSafety Readers SparqlFront JsonLd
begin

section \<open>The compliance suites and their reports (tests-compliance/src)\<close>

text \<open>
  The suites the repository measures its parsers with: the report and its counters, the runs of
  the Turtle, N-Triples, N-Quads and SPARQL suites, and the markdown and JSON texts of reports.
  The Turtle suite runs the model's parser; rio, the SPARQL grammar and the JSON printer are
  arguments, and so are the operations on floats and the text of an error. A test whose parser
  panics or does not return ends the run: the result is \<open>None\<close>. ComplianceFacts says what the suites measure.
\<close>

subsection \<open>Reports (lib.rs)\<close>

datatype test_type = PositiveParser | NegativeParser | PositiveEval | QuerySyntax | QueryEval

record test_result =
  tr_name :: rstr
  tr_passed :: bool
  tr_test_type :: test_type
  tr_error :: "rstr option"
  tr_expected :: "rstr option"
  tr_actual :: "rstr option"

datatype gap_severity = GapLow | GapMedium | GapHigh

record compliance_gap =
  gap_feature :: rstr
  gap_reason :: rstr
  gap_severity :: gap_severity
  gap_spec_reference :: "rstr option"

record compliance_report =
  cr_suite_name :: rstr
  cr_total :: u64
  cr_passed :: u64
  cr_failed :: u64
  cr_skipped :: u64
  cr_results :: "test_result list"
  cr_gaps :: "compliance_gap list"

definition cr_new :: "rstr \<Rightarrow> compliance_report" where
  "cr_new name = \<lparr>cr_suite_name = name, cr_total = 0, cr_passed = 0, cr_failed = 0, cr_skipped = 0,
     cr_results = [], cr_gaps = []\<rparr>"

definition cr_add_result :: "test_result \<Rightarrow> compliance_report \<Rightarrow> compliance_report" where
  "cr_add_result t r =
     (let r = (if tr_passed t then r\<lparr>cr_passed := cr_passed r + 1\<rparr> else r\<lparr>cr_failed := cr_failed r + 1\<rparr>)
      in r\<lparr>cr_total := cr_total r + 1, cr_results := cr_results r @ [t]\<rparr>)"

definition cr_add_skipped :: "rstr \<Rightarrow> rstr \<Rightarrow> compliance_report \<Rightarrow> compliance_report" where
  "cr_add_skipped name reason r =
     r\<lparr>cr_skipped := cr_skipped r + 1, cr_total := cr_total r + 1,
       cr_results := cr_results r @ [\<lparr>tr_name = name, tr_passed = False, tr_test_type = PositiveParser,
         tr_error = Some (lit ''Skipped: '' @ reason), tr_expected = None, tr_actual = None\<rparr>]\<rparr>"

definition cr_add_gap :: "compliance_gap \<Rightarrow> compliance_report \<Rightarrow> compliance_report" where
  "cr_add_gap g r = r\<lparr>cr_gaps := cr_gaps r @ [g]\<rparr>"

text \<open>The float operations the reports use: of \<open>usize\<close>, division, the factor, the sum of an
  iterator, the text with one digit after the point and the JSON value.\<close>

record 'f percent_ops =
  pc_of :: "u64 \<Rightarrow> 'f"
  pc_div :: "'f \<Rightarrow> 'f \<Rightarrow> 'f"
  pc_mul :: "'f \<Rightarrow> 'f \<Rightarrow> 'f"
  pc_sum :: "'f list \<Rightarrow> 'f"
  pc_hundred :: 'f
  pc_show :: "'f \<Rightarrow> rstr"
  pc_json :: "'f \<Rightarrow> jvalue"

text \<open>The subtraction panics where it would wrap.\<close>

definition compliance_percentage :: "'f percent_ops \<Rightarrow> compliance_report \<Rightarrow> 'f option" where
  "compliance_percentage F r =
     (if cr_total r = 0 then Some (pc_hundred F)
      else if cr_total r < cr_skipped r then None
      else Some (pc_mul F (pc_div F (pc_of F (cr_passed r)) (pc_of F (cr_total r - cr_skipped r))) (pc_hundred F)))"

definition cr_summary :: "'f percent_ops \<Rightarrow> compliance_report \<Rightarrow> rstr option" where
  "cr_summary F r =
     map_option (\<lambda>p. cr_suite_name r @ lit '': '' @ show_nat (unat (cr_passed r)) @ lit ''/'' @
       show_nat (unat (cr_total r - cr_skipped r)) @ lit '' passed ('' @ pc_show F p @ lit ''% compliant), '' @
       show_nat (unat (cr_failed r)) @ lit '' failed, '' @ show_nat (unat (cr_skipped r)) @ lit '' skipped'')
     (compliance_percentage F r)"

subsection \<open>Running tests\<close>

text \<open>A parser under test: the text of its error, or \<open>None\<close> within for success, with the
  process-wide counter of blank node scopes; no result at all for a panic.\<close>

type_synonym tested_parser = "rstr \<Rightarrow> u64 \<Rightarrow> (rstr option \<times> u64) option"

text \<open>The bodies of the loops over the positive and over the negative tests.\<close>

definition positive_result :: "test_type \<Rightarrow> rstr \<Rightarrow> rstr option \<Rightarrow> test_result" where
  "positive_result k name e =
     \<lparr>tr_name = name, tr_passed = (e = None), tr_test_type = k, tr_error = e, tr_expected = None, tr_actual = None\<rparr>"

definition negative_result :: "test_type \<Rightarrow> rstr \<Rightarrow> rstr option \<Rightarrow> test_result" where
  "negative_result k name e =
     \<lparr>tr_name = name, tr_passed = (e \<noteq> None), tr_test_type = k,
      tr_error = (if e = None then Some (lit ''Expected parse error but succeeded'') else None),
      tr_expected = Some (lit ''Parse error''),
      tr_actual = Some (if e = None then lit ''Success'' else lit ''Error'')\<rparr>"

fun run_tests ::
  "tested_parser \<Rightarrow> (rstr \<Rightarrow> rstr option \<Rightarrow> test_result) \<Rightarrow> (rstr \<times> rstr) list \<Rightarrow> compliance_report \<times> u64 \<Rightarrow>
   (compliance_report \<times> u64) option" where
  "run_tests parse result [] rn = Some rn"
| "run_tests parse result ((name, input) # ts) (r, n) =
     (case parse input n of
        None \<Rightarrow> None
      | Some (e, n) \<Rightarrow> run_tests parse result ts (cr_add_result (result name e) r, n))"

text \<open>The parsers of the suites: a new Turtle parser for each test, the reader of N-Triples, the
  SPARQL parser.\<close>

definition turtle_tested :: "'f rust_std \<Rightarrow> (parser_error \<Rightarrow> rstr) \<Rightarrow> tested_parser" where
  "turtle_tested S show input n =
     (case tp_new n of (p, n) \<Rightarrow>
        (case turtle_parse S p input of
           Inl (Fail e) \<Rightarrow> Some (Some (show e), n)
         | Inl _ \<Rightarrow> None
         | Inr _ \<Rightarrow> Some (None, n)))"

definition ntriples_tested :: "('p, rio_triple) rio \<Rightarrow> (reader_message \<Rightarrow> rstr) \<Rightarrow> tested_parser" where
  "ntriples_tested R show input n =
     map_option (\<lambda>x. (case x of Inl e \<Rightarrow> Some (pe_display show e) | Inr _ \<Rightarrow> None, n)) (nt_parse_all_str R None input)"

definition sparql_tested :: "sparql_grammar \<Rightarrow> tested_parser" where
  "sparql_tested G input n =
     Some (case sparql_parse G sp_new input of Inl e \<Rightarrow> Some (show_error e) | Inr _ \<Rightarrow> None, n)"

subsection \<open>The suites (rdf.rs, sparql.rs)\<close>

definition turtle_positive_tests :: "(rstr \<times> rstr) list" where
  "turtle_positive_tests =
    [(lit ''turtle-syntax-base-01'', lit ''@base <http://example.org/> .''),
     (lit ''turtle-syntax-base-02'', lit ''BASE <http://example.org/>''),
     (lit ''turtle-syntax-prefix-01'', lit ''@prefix : <http://example.org/> .''),
     (lit ''turtle-syntax-prefix-02'', lit ''PREFIX : <http://example.org/>''),
     (lit ''turtle-syntax-prefix-03'', lit ''@prefix p: <http://example.org/> .''),
     (lit ''turtle-syntax-uri-01'', lit ''<http://example.org/> <http://example.org/p> <http://example.org/o> .''),
     (lit ''turtle-syntax-string-01'', lit ''<http://example.org/s> <http://example.org/p> \"string\" .''),
     (lit ''turtle-syntax-string-02'', lit ''<http://example.org/s> <http://example.org/p> \"string\"@en .''),
     (lit ''turtle-syntax-string-03'', lit ''<http://example.org/s> <http://example.org/p> \"string\"^^<http://example.org/dt> .''),
     (lit ''turtle-syntax-number-01'', lit ''<http://example.org/s> <http://example.org/p> 42 .''),
     (lit ''turtle-syntax-number-02'', lit ''<http://example.org/s> <http://example.org/p> -42 .''),
     (lit ''turtle-syntax-number-03'', lit ''<http://example.org/s> <http://example.org/p> 3.14 .''),
     (lit ''turtle-syntax-number-04'', lit ''<http://example.org/s> <http://example.org/p> 1.5e10 .''),
     (lit ''turtle-syntax-bnode-01'', lit ''_:b1 <http://example.org/p> <http://example.org/o> .''),
     (lit ''turtle-syntax-bnode-02'', lit ''<http://example.org/s> <http://example.org/p> _:b1 .''),
     (lit ''turtle-syntax-bnode-03'', lit ''[ <http://example.org/p> <http://example.org/o> ] <http://example.org/p2> <http://example.org/o2> .''),
     (lit ''turtle-syntax-list-01'', lit ''<http://example.org/s> <http://example.org/p> () .''),
     (lit ''turtle-syntax-list-02'', lit ''<http://example.org/s> <http://example.org/p> (\"a\" \"b\") .''),
     (lit ''turtle-syntax-kw-01'', lit ''<http://example.org/s> a <http://example.org/Type> .''),
     (lit ''turtle-syntax-kw-02'', lit ''@prefix : <http://example.org/> . :s a :Type .''),
     (lit ''turtle-syntax-struct-01'', lit ''@prefix : <http://example.org/> . :s :p :o1 ; :q :o2 .''),
     (lit ''turtle-syntax-struct-02'', lit ''@prefix : <http://example.org/> . :s :p :o1 , :o2 .'')]"

definition turtle_negative_tests :: "(rstr \<times> rstr) list" where
  "turtle_negative_tests =
    [(lit ''turtle-syntax-bad-base-01'', lit ''@base .''),
     (lit ''turtle-syntax-bad-base-02'', lit ''@base http://example.org/ .''),
     (lit ''turtle-syntax-bad-prefix-01'', lit ''@prefix .''),
     (lit ''turtle-syntax-bad-uri-01'', lit ''<http://example .org/> <http://example.org/p> <http://example.org/o> .''),
     (lit ''turtle-syntax-bad-string-01'', lit ''<http://example.org/s> <http://example.org/p> \"unterminated .''),
     (lit ''turtle-syntax-bad-num-01'', lit ''<http://example.org/s> <http://example.org/p> 123abc .'')]"

definition ntriples_positive_tests :: "(rstr \<times> rstr) list" where
  "ntriples_positive_tests =
    [(lit ''nt-syntax-uri-01'', lit ''<http://example.org/s> <http://example.org/p> <http://example.org/o> .''),
     (lit ''nt-syntax-uri-02'', lit ''<http://example.org/resource1> <http://example.org/property> <http://example.org/resource2> .''),
     (lit ''nt-syntax-bnode-01'', lit ''_:b1 <http://example.org/p> <http://example.org/o> .''),
     (lit ''nt-syntax-bnode-02'', lit ''<http://example.org/s> <http://example.org/p> _:b2 .''),
     (lit ''nt-syntax-bnode-03'', lit ''_:b1 <http://example.org/p> _:b2 .''),
     (lit ''nt-syntax-string-01'', lit ''<http://example.org/s> <http://example.org/p> \"string\" .''),
     (lit ''nt-syntax-string-02'', lit ''<http://example.org/s> <http://example.org/p> \"string with spaces\" .''),
     (lit ''nt-syntax-string-03'', lit ''<http://example.org/s> <http://example.org/p> \"string'' @ [c_bslash] @ lit ''nwith'' @ [c_bslash] @ lit ''tescape\" .''),
     (lit ''nt-syntax-str-esc-01'', lit ''<http://example.org/s> <http://example.org/p> \"escaped'' @ [c_bslash] @ lit ''\"quote\" .''),
     (lit ''nt-syntax-datatypes-01'', lit ''<http://example.org/s> <http://example.org/p> \"42\"^^<http://www.w3.org/2001/XMLSchema#integer> .''),
     (lit ''nt-syntax-datatypes-02'', lit ''<http://example.org/s> <http://example.org/p> \"true\"^^<http://www.w3.org/2001/XMLSchema#boolean> .''),
     (lit ''nt-syntax-lang-01'', lit ''<http://example.org/s> <http://example.org/p> \"hello\"@en .''),
     (lit ''nt-syntax-lang-02'', lit ''<http://example.org/s> <http://example.org/p> \"bonjour\"@fr-FR .'')]"

definition ntriples_negative_tests :: "(rstr \<times> rstr) list" where
  "ntriples_negative_tests =
    [(lit ''nt-syntax-bad-uri-01'', lit ''http://example.org/s> <http://example.org/p> <http://example.org/o> .''),
     (lit ''nt-syntax-bad-uri-02'', lit ''<http://example.org/s <http://example.org/p> <http://example.org/o> .''),
     (lit ''nt-syntax-bad-string-01'', lit ''<http://example.org/s> <http://example.org/p> unterminated .''),
     (lit ''nt-syntax-bad-esc-01'', lit ''<http://example.org/s> <http://example.org/p> \"bad'' @ [c_bslash] @ lit ''escape\" .''),
     (lit ''nt-syntax-bad-lang-01'', lit ''<http://example.org/s> <http://example.org/p> \"string\"@ .'')]"

definition nquads_positive_tests :: "(rstr \<times> rstr) list" where
  "nquads_positive_tests =
    [(lit ''nq-syntax-uri-01'', lit ''<http://example.org/s> <http://example.org/p> <http://example.org/o> .''),
     (lit ''nq-syntax-bnode-01'', lit ''_:b1 <http://example.org/p> <http://example.org/o> .''),
     (lit ''nq-syntax-string-01'', lit ''<http://example.org/s> <http://example.org/p> \"string\" .''),
     (lit ''nq-syntax-datatypes-01'', lit ''<http://example.org/s> <http://example.org/p> \"42\"^^<http://www.w3.org/2001/XMLSchema#integer> .'')]"

definition sparql_pattern_tests :: "(rstr \<times> rstr) list" where
  "sparql_pattern_tests =
    [(lit ''syntax-basic-01'', lit ''SELECT * WHERE { ?s ?p ?o }''),
     (lit ''syntax-basic-02'', lit ''SELECT ?s ?p ?o WHERE { ?s ?p ?o }''),
     (lit ''syntax-basic-03'', lit ''SELECT * { ?s ?p ?o }''),
     (lit ''syntax-basic-04'', lit ''PREFIX : <http://example.org/> SELECT * { :s :p :o }''),
     (lit ''syntax-basic-05'', lit ''BASE <http://example.org/> SELECT * { <s> <p> <o> }''),
     (lit ''syntax-select-01'', lit ''SELECT ?x WHERE { ?x ?p ?o }''),
     (lit ''syntax-select-02'', lit ''SELECT ?x ?y WHERE { ?x ?p ?y }''),
     (lit ''syntax-select-distinct'', lit ''SELECT DISTINCT ?x WHERE { ?x ?p ?o }''),
     (lit ''syntax-select-reduced'', lit ''SELECT REDUCED ?x WHERE { ?x ?p ?o }''),
     (lit ''syntax-construct-01'', lit ''CONSTRUCT { ?s ?p ?o } WHERE { ?s ?p ?o }''),
     (lit ''syntax-construct-02'', lit ''CONSTRUCT { <http://example.org/s> <http://example.org/p> ?o } WHERE { ?s ?p ?o }''),
     (lit ''syntax-ask-01'', lit ''ASK { ?s ?p ?o }''),
     (lit ''syntax-describe-01'', lit ''DESCRIBE ?x WHERE { ?x ?p ?o }''),
     (lit ''syntax-describe-02'', lit ''DESCRIBE <http://example.org/x>''),
     (lit ''syntax-filter-01'', lit ''SELECT * WHERE { ?s ?p ?o FILTER (?o = 42) }''),
     (lit ''syntax-filter-02'', lit ''SELECT * WHERE { ?s ?p ?o FILTER regex(?o, \"test\") }''),
     (lit ''syntax-filter-03'', lit ''SELECT * WHERE { ?s ?p ?o FILTER (bound(?o)) }''),
     (lit ''syntax-filter-04'', lit ''SELECT * WHERE { ?s ?p ?o FILTER (?o > 10 && ?o < 100) }''),
     (lit ''syntax-filter-05'', lit ''SELECT * WHERE { ?s ?p ?o FILTER (?o > 10 || ?o < 0) }''),
     (lit ''syntax-filter-06'', lit ''SELECT * WHERE { ?s ?p ?o FILTER (!bound(?o)) }''),
     (lit ''syntax-lit-01'', lit ''SELECT * { ?s ?p \"string\" }''),
     (lit ''syntax-lit-02'', lit ''SELECT * { ?s ?p \"string\"@en }''),
     (lit ''syntax-lit-03'', lit ''SELECT * { ?s ?p \"42\"^^<http://www.w3.org/2001/XMLSchema#integer> }''),
     (lit ''syntax-lit-04'', lit ''SELECT * { ?s ?p 42 }''),
     (lit ''syntax-lit-05'', lit ''SELECT * { ?s ?p 3.14 }''),
     (lit ''syntax-lit-06'', lit ''SELECT * { ?s ?p 1e10 }''),
     (lit ''syntax-lit-07'', lit ''SELECT * { ?s ?p true }''),
     (lit ''syntax-lit-08'', lit ''SELECT * { ?s ?p false }''),
     (lit ''syntax-optional-01'', lit ''SELECT * WHERE { ?s ?p ?o OPTIONAL { ?s ?p2 ?o2 } }''),
     (lit ''syntax-optional-02'', lit ''SELECT * WHERE { ?s ?p ?o OPTIONAL { ?s ?p2 ?o2 OPTIONAL { ?s ?p3 ?o3 } } }''),
     (lit ''syntax-union-01'', lit ''SELECT * WHERE { { ?s ?p ?o } UNION { ?s ?p2 ?o2 } }''),
     (lit ''syntax-union-02'', lit ''SELECT * WHERE { { ?s ?p ?o } UNION { ?s ?p2 ?o2 } UNION { ?s ?p3 ?o3 } }'')]"

definition sparql_modifier_tests :: "(rstr \<times> rstr) list" where
  "sparql_modifier_tests =
    [(lit ''syntax-graph-01'', lit ''SELECT * WHERE { GRAPH <http://example.org/g> { ?s ?p ?o } }''),
     (lit ''syntax-graph-02'', lit ''SELECT * WHERE { GRAPH ?g { ?s ?p ?o } }''),
     (lit ''syntax-bnode-01'', lit ''SELECT * WHERE { _:b1 ?p ?o }''),
     (lit ''syntax-bnode-02'', lit ''SELECT * WHERE { [ ?p ?o ] ?p2 ?o2 }''),
     (lit ''syntax-bnode-03'', lit ''SELECT * WHERE { ?s ?p [ ?p2 ?o2 ] }''),
     (lit ''syntax-collection-01'', lit ''SELECT * WHERE { ?s ?p () }''),
     (lit ''syntax-collection-02'', lit ''SELECT * WHERE { ?s ?p (1 2 3) }''),
     (lit ''syntax-order-01'', lit ''SELECT * WHERE { ?s ?p ?o } ORDER BY ?o''),
     (lit ''syntax-order-02'', lit ''SELECT * WHERE { ?s ?p ?o } ORDER BY ASC(?o)''),
     (lit ''syntax-order-03'', lit ''SELECT * WHERE { ?s ?p ?o } ORDER BY DESC(?o)''),
     (lit ''syntax-limit-01'', lit ''SELECT * WHERE { ?s ?p ?o } LIMIT 10''),
     (lit ''syntax-offset-01'', lit ''SELECT * WHERE { ?s ?p ?o } OFFSET 5''),
     (lit ''syntax-limit-offset'', lit ''SELECT * WHERE { ?s ?p ?o } LIMIT 10 OFFSET 5''),
     (lit ''syntax-aggregate-01'', lit ''SELECT (COUNT(*) AS ?c) WHERE { ?s ?p ?o }''),
     (lit ''syntax-aggregate-02'', lit ''SELECT (SUM(?o) AS ?sum) WHERE { ?s ?p ?o }''),
     (lit ''syntax-aggregate-03'', lit ''SELECT (AVG(?o) AS ?avg) WHERE { ?s ?p ?o }''),
     (lit ''syntax-aggregate-04'', lit ''SELECT (MIN(?o) AS ?min) WHERE { ?s ?p ?o }''),
     (lit ''syntax-aggregate-05'', lit ''SELECT (MAX(?o) AS ?max) WHERE { ?s ?p ?o }''),
     (lit ''syntax-aggregate-06'', lit ''SELECT ?s (COUNT(?o) AS ?c) WHERE { ?s ?p ?o } GROUP BY ?s''),
     (lit ''syntax-aggregate-07'', lit ''SELECT ?s (COUNT(?o) AS ?c) WHERE { ?s ?p ?o } GROUP BY ?s HAVING (COUNT(?o) > 5)''),
     (lit ''syntax-bind-01'', lit ''SELECT * WHERE { ?s ?p ?o BIND (?o * 2 AS ?double) }''),
     (lit ''syntax-values-01'', lit ''SELECT * WHERE { VALUES ?x { 1 2 3 } ?s ?p ?x }''),
     (lit ''syntax-values-02'', lit ''SELECT * WHERE { ?s ?p ?o } VALUES ?x { 1 2 }''),
     (lit ''syntax-subquery-01'', lit ''SELECT * WHERE { { SELECT ?s WHERE { ?s ?p ?o } } }''),
     (lit ''syntax-minus-01'', lit ''SELECT * WHERE { ?s ?p ?o MINUS { ?s <http://example.org/exclude> ?o } }''),
     (lit ''syntax-exists-01'', lit ''SELECT * WHERE { ?s ?p ?o FILTER EXISTS { ?s <http://example.org/p2> ?o2 } }''),
     (lit ''syntax-not-exists-01'', lit ''SELECT * WHERE { ?s ?p ?o FILTER NOT EXISTS { ?s <http://example.org/p2> ?o2 } }''),
     (lit ''syntax-path-01'', lit ''SELECT * WHERE { ?s <http://example.org/p>/<http://example.org/q> ?o }''),
     (lit ''syntax-path-02'', lit ''SELECT * WHERE { ?s <http://example.org/p>* ?o }''),
     (lit ''syntax-path-03'', lit ''SELECT * WHERE { ?s <http://example.org/p>+ ?o }''),
     (lit ''syntax-path-04'', lit ''SELECT * WHERE { ?s <http://example.org/p>? ?o }''),
     (lit ''syntax-path-05'', lit ''SELECT * WHERE { ?s ^<http://example.org/p> ?o }''),
     (lit ''syntax-path-06'', lit ''SELECT * WHERE { ?s (<http://example.org/p>|<http://example.org/q>) ?o }''),
     (lit ''syntax-service-01'', lit ''SELECT * WHERE { SERVICE <http://example.org/sparql> { ?s ?p ?o } }''),
     (lit ''syntax-service-02'', lit ''SELECT * WHERE { SERVICE SILENT <http://example.org/sparql> { ?s ?p ?o } }'')]"

definition sparql_negative_tests :: "(rstr \<times> rstr) list" where
  "sparql_negative_tests =
    [(lit ''syntax-bad-01'', lit ''SELET * WHERE { ?s ?p ?o }''),
     (lit ''syntax-bad-02'', lit ''SELECT * WHERE { ?s ?p ?o''),
     (lit ''syntax-bad-03'', lit ''SELECT WHERE { ?s ?p ?o }''),
     (lit ''syntax-bad-04'', lit ''SELECT * { ?s ?p }''),
     (lit ''syntax-bad-05'', lit ''SELECT * WHERE ?s ?p ?o }'')]"

definition update_operations :: "(rstr \<times> rstr) list" where
  "update_operations =
    [(lit ''INSERT DATA'', lit ''Insert static triples''),
     (lit ''DELETE DATA'', lit ''Delete static triples''),
     (lit ''DELETE/INSERT WHERE'', lit ''Modify data based on patterns''),
     (lit ''CLEAR GRAPH'', lit ''Clear named graphs''),
     (lit ''DROP GRAPH'', lit ''Drop named graphs''),
     (lit ''CREATE GRAPH'', lit ''Create named graphs''),
     (lit ''LOAD'', lit ''Load data from URI''),
     (lit ''COPY'', lit ''Copy graph contents''),
     (lit ''MOVE'', lit ''Move graph contents''),
     (lit ''ADD'', lit ''Add graph contents'')]"

definition run_turtle_tests ::
  "'f rust_std \<Rightarrow> (parser_error \<Rightarrow> rstr) \<Rightarrow> u64 \<Rightarrow> (compliance_report \<times> u64) option" where
  "run_turtle_tests S show n =
     map_option (map_prod (\<lambda>r. cr_add_gap \<lparr>gap_feature = lit ''Long literals with embedded quotes'',
         gap_reason = lit ''Edge cases with triple-quoted strings containing quotes may not parse correctly'',
         gap_severity = GapLow, gap_spec_reference = Some (lit ''Turtle 1.1 Section 2.5.2'')\<rparr>
       (cr_add_gap \<lparr>gap_feature = lit ''Unicode escape sequences ('' @ [c_bslash] @ lit ''uXXXX, '' @ [c_bslash] @ lit ''UXXXXXXXX)'',
         gap_reason = lit ''Partial support - basic escapes work, full Unicode escapes need enhancement'',
         gap_severity = GapLow, gap_spec_reference = Some (lit ''Turtle 1.1 Section 6.1'')\<rparr> r)) id)
     (Option.bind
        (run_tests (turtle_tested S show) (positive_result PositiveParser) turtle_positive_tests
           (cr_new (lit ''RDF 1.1 Turtle''), n))
        (run_tests (turtle_tested S show) (negative_result NegativeParser) turtle_negative_tests))"

definition run_ntriples_tests :: "('p, rio_triple) rio \<Rightarrow> (reader_message \<Rightarrow> rstr) \<Rightarrow> u64 \<Rightarrow> (compliance_report \<times> u64) option" where
  "run_ntriples_tests R show n =
     Option.bind
       (run_tests (ntriples_tested R show) (positive_result PositiveParser) ntriples_positive_tests
          (cr_new (lit ''RDF 1.1 N-Triples''), n))
       (run_tests (ntriples_tested R show) (negative_result NegativeParser) ntriples_negative_tests)"

definition run_nquads_tests :: "('p, rio_triple) rio \<Rightarrow> (reader_message \<Rightarrow> rstr) \<Rightarrow> u64 \<Rightarrow> (compliance_report \<times> u64) option" where
  "run_nquads_tests R show n =
     map_option (map_prod (cr_add_gap \<lparr>gap_feature = lit ''Named graph (4th component)'',
         gap_reason = lit ''N-Quads graph component parsing needs dedicated implementation'',
         gap_severity = GapMedium, gap_spec_reference = Some (lit ''N-Quads 1.1 Section 4'')\<rparr>) id)
     (run_tests (ntriples_tested R show) (positive_result PositiveParser) nquads_positive_tests
        (cr_new (lit ''RDF 1.1 N-Quads''), n))"

definition run_sparql_syntax_tests :: "sparql_grammar \<Rightarrow> u64 \<Rightarrow> (compliance_report \<times> u64) option" where
  "run_sparql_syntax_tests G n =
     map_option (map_prod (\<lambda>r. cr_add_gap \<lparr>gap_feature = lit ''Full-text search functions'',
         gap_reason = lit ''Functions like bif:contains are vendor extensions'',
         gap_severity = GapLow, gap_spec_reference = None\<rparr>
       (cr_add_gap \<lparr>gap_feature = lit ''SPARQL 1.1 Update'',
         gap_reason = lit ''Update operations (INSERT, DELETE, LOAD, etc.) parsing not implemented'',
         gap_severity = GapHigh, gap_spec_reference = Some (lit ''SPARQL 1.1 Update Section 3'')\<rparr> r)) id)
     (Option.bind
        (run_tests (sparql_tested G) (positive_result QuerySyntax) (sparql_pattern_tests @ sparql_modifier_tests)
           (cr_new (lit ''SPARQL 1.1 Query Syntax''), n))
        (run_tests (sparql_tested G) (negative_result QuerySyntax) sparql_negative_tests))"

text \<open>The name of a skipped update test: in lower case, with hyphens for spaces and slashes.\<close>

definition update_test_name :: "rstr \<Rightarrow> rstr" where
  "update_test_name op =
     lit ''update-'' @ map (\<lambda>c. if c = c_space \<or> c = c_slash then c_minus else c) (map ascii_lower op)"

definition run_sparql_update_tests :: compliance_report where
  "run_sparql_update_tests =
     cr_add_gap \<lparr>gap_feature = lit ''SPARQL 1.1 Update'',
       gap_reason = lit ''Full SPARQL Update specification not implemented. Update operations are handled via RDF.INSERT command instead.'',
       gap_severity = GapHigh, gap_spec_reference = Some (lit ''https://www.w3.org/TR/sparql11-update/'')\<rparr>
     (fold (\<lambda>(op, _). cr_add_skipped (update_test_name op) (lit ''SPARQL Update ('' @ op @ lit '') not implemented''))
        update_operations (cr_new (lit ''SPARQL 1.1 Update Syntax'')))"

subsection \<open>The texts of reports (report.rs)\<close>

text \<open>A report whose percentage panics ends the generation: \<open>None\<close>.\<close>

definition md_line :: "string \<Rightarrow> rstr" where
  "md_line s = lit s @ [c_nl]"

definition md_summary_row :: "'f percent_ops \<Rightarrow> compliance_report \<Rightarrow> rstr option" where
  "md_summary_row F r =
     map_option (\<lambda>p. lit ''| '' @ cr_suite_name r @ lit '' | '' @ show_nat (unat (cr_passed r)) @ lit '' | '' @
       show_nat (unat (cr_failed r)) @ lit '' | '' @ show_nat (unat (cr_skipped r)) @ lit '' | '' @
       pc_show F p @ lit ''% |'' @ [c_nl])
     (compliance_percentage F r)"

definition md_failed_test :: "test_result \<Rightarrow> rstr" where
  "md_failed_test t =
     lit ''- **'' @ tr_name t @ lit ''**: '' @
     (case tr_error t of Some e \<Rightarrow> e | None \<Rightarrow> lit ''Unknown error'') @ [c_nl]"

text \<open>The severities start with a green, yellow or red circle.\<close>

fun md_severity :: "gap_severity \<Rightarrow> rstr" where
  "md_severity GapLow = 128994 # lit '' Low''"
| "md_severity GapMedium = 128993 # lit '' Medium''"
| "md_severity GapHigh = 128308 # lit '' High''"

definition md_gap :: "compliance_gap \<Rightarrow> rstr" where
  "md_gap g =
     lit ''- **'' @ gap_feature g @ lit ''** ('' @ md_severity (gap_severity g) @ md_line '')'' @
     lit ''  - '' @ gap_reason g @ [c_nl] @
     (case gap_spec_reference g of Some spec \<Rightarrow> lit ''  - Spec: '' @ spec @ [c_nl] | None \<Rightarrow> [])"

definition md_suite :: "compliance_report \<Rightarrow> rstr" where
  "md_suite r =
     (let failed = filter (\<lambda>t. \<not> tr_passed t) (cr_results r)
      in lit ''## '' @ cr_suite_name r @ [c_nl, c_nl] @
         (if failed = [] then []
          else md_line ''### Failed Tests'' @ [c_nl] @ concat (map md_failed_test failed) @ [c_nl]) @
         (if cr_gaps r = [] then []
          else md_line ''### Known Compliance Gaps'' @ [c_nl] @ concat (map md_gap (cr_gaps r)) @ [c_nl]))"

definition md_references :: rstr where
  "md_references =
     md_line ''## Specification References'' @ [c_nl] @
     md_line ''- [RDF 1.1 Turtle](https://www.w3.org/TR/turtle/)'' @
     md_line ''- [RDF 1.1 N-Triples](https://www.w3.org/TR/n-triples/)'' @
     md_line ''- [RDF 1.1 N-Quads](https://www.w3.org/TR/n-quads/)'' @
     md_line ''- [SPARQL 1.1 Query Language](https://www.w3.org/TR/sparql11-query/)'' @
     md_line ''- [SPARQL 1.1 Update](https://www.w3.org/TR/sparql11-update/)'' @ [c_nl] @
     md_line ''## W3C Test Suites'' @ [c_nl] @
     md_line ''- [RDF 1.1 Test Cases](https://www.w3.org/2013/RDFTests/)'' @
     md_line ''- [SPARQL 1.1 Test Suite](https://www.w3.org/2009/sparql/docs/tests/)''"

text \<open>All or none of some optional values.\<close>

fun all_some :: "'a option list \<Rightarrow> 'a list option" where
  "all_some [] = Some []"
| "all_some (None # xs) = None"
| "all_some (Some x # xs) = map_option (Cons x) (all_some xs)"

definition generate_markdown_report :: "'f percent_ops \<Rightarrow> compliance_report list \<Rightarrow> rstr option" where
  "generate_markdown_report F reports =
     map_option (\<lambda>rows.
       md_line ''# FalkorSemantic W3C Compliance Report'' @ [c_nl] @
       md_line ''This document summarizes compliance with W3C RDF and SPARQL specifications.'' @ [c_nl] @
       md_line ''## Summary'' @ [c_nl] @
       md_line ''| Test Suite | Passed | Failed | Skipped | Compliance |'' @
       md_line ''|------------|--------|--------|---------|------------|'' @
       concat rows @ [c_nl] @ concat (map md_suite reports) @ md_references)
     (all_some (map (md_summary_row F) reports))"

text \<open>An object of the macro \<open>json!\<close>, and the JSON of an optional text.\<close>

definition json_object :: "(string \<times> jvalue) list \<Rightarrow> jvalue" where
  "json_object kvs = VObject (jm_extend [] (map (\<lambda>(k, v). (lit k, v)) kvs))"

definition json_text_option :: "rstr option \<Rightarrow> jvalue" where
  "json_text_option x = (case x of Some s \<Rightarrow> VString s | None \<Rightarrow> VNull)"

definition json_severity :: "gap_severity \<Rightarrow> rstr" where
  "json_severity s = (case s of GapLow \<Rightarrow> lit ''Low'' | GapMedium \<Rightarrow> lit ''Medium'' | GapHigh \<Rightarrow> lit ''High'')"

definition json_suite :: "'f percent_ops \<Rightarrow> compliance_report \<Rightarrow> jvalue option" where
  "json_suite F r =
     map_option (\<lambda>p. json_object
       [(''name'', VString (cr_suite_name r)), (''total'', VNumber (PosInt (cr_total r))),
        (''passed'', VNumber (PosInt (cr_passed r))), (''failed'', VNumber (PosInt (cr_failed r))),
        (''skipped'', VNumber (PosInt (cr_skipped r))), (''compliance_percentage'', pc_json F p),
        (''failed_tests'', VArray (map (\<lambda>t. json_object
           [(''name'', VString (tr_name t)), (''error'', json_text_option (tr_error t))])
           (filter (\<lambda>t. \<not> tr_passed t) (cr_results r)))),
        (''gaps'', VArray (map (\<lambda>g. json_object
           [(''feature'', VString (gap_feature g)), (''reason'', VString (gap_reason g)),
            (''severity'', VString (json_severity (gap_severity g))),
            (''spec_reference'', json_text_option (gap_spec_reference g))]) (cr_gaps r)))])
     (compliance_percentage F r)"

definition json_report_value :: "'f percent_ops \<Rightarrow> compliance_report list \<Rightarrow> jvalue option" where
  "json_report_value F reports =
     Option.bind (all_some (map (json_suite F) reports)) (\<lambda>suites.
       map_option (\<lambda>ps. json_object
         [(''version'', VString (lit ''1.0'')), (''suites'', VArray suites),
          (''overall_compliance'', pc_json F (if reports = [] then pc_hundred F
             else pc_div F (pc_sum F ps) (pc_of F (word_of_nat (length reports)))))])
       (all_some (map (compliance_percentage F) reports)))"

text \<open>\<open>pretty\<close> is \<open>serde_json::to_string_pretty\<close>.\<close>

definition generate_json_report :: "(jvalue \<Rightarrow> rstr option) \<Rightarrow> 'f percent_ops \<Rightarrow> compliance_report list \<Rightarrow> rstr option" where
  "generate_json_report pretty F reports =
     map_option (\<lambda>v. case pretty v of Some s \<Rightarrow> s | None \<Rightarrow> lit ''{}'') (json_report_value F reports)"

end
