(* ===== verification/ComplianceFacts.thy ===== *)
theory ComplianceFacts
  imports Compliance
begin

section \<open>What the compliance suites measure\<close>

text \<open>
  The counters of reports and runs, and the Turtle suite, which the model's lexer and parser pass as
  a whole: every document of the suite is evaluated by the rules of the two.
\<close>

subsection \<open>The counters of a report\<close>

text \<open>What the counters of a report say of its results.\<close>

definition report_counts :: "compliance_report \<Rightarrow> bool" where
  "report_counts r \<longleftrightarrow>
     cr_total r = word_of_nat (length (cr_results r)) \<and>
     cr_passed r = word_of_nat (length (filter tr_passed (cr_results r))) \<and>
     cr_failed r + cr_skipped r = word_of_nat (length (filter (\<lambda>t. \<not> tr_passed t) (cr_results r)))"

lemma report_counts_new: "report_counts (cr_new name)"
  by (simp add: report_counts_def cr_new_def)

lemma report_counts_result: "report_counts r \<Longrightarrow> report_counts (cr_add_result t r)"
  by (auto simp: report_counts_def cr_add_result_def Let_def algebra_simps)

lemma report_counts_skipped: "report_counts r \<Longrightarrow> report_counts (cr_add_skipped name reason r)"
  by (auto simp: report_counts_def cr_add_skipped_def algebra_simps)

lemma report_counts_gap: "report_counts (cr_add_gap g r) = report_counts r"
  by (simp add: report_counts_def cr_add_gap_def)

text \<open>A run adds a result for every test.\<close>

definition suite_errors :: "tested_parser \<Rightarrow> rstr \<Rightarrow> u64 \<Rightarrow> rstr option option" where
  "suite_errors parse input n = map_option fst (parse input n)"
subsection \<open>What a run counts\<close>

definition all_passed :: "nat \<Rightarrow> compliance_report \<Rightarrow> compliance_report \<Rightarrow> bool" where
  "all_passed k r r' \<longleftrightarrow>
     (\<exists>us. cr_results r' = cr_results r @ us \<and> length us = k \<and> list_all tr_passed us) \<and>
     cr_total r' = cr_total r + word_of_nat k \<and> cr_passed r' = cr_passed r + word_of_nat k \<and>
     cr_failed r' = cr_failed r \<and> cr_skipped r' = cr_skipped r"

lemma all_passed_refl: "all_passed 0 r r"
  by (simp add: all_passed_def)

lemma all_passed_step: "tr_passed t \<Longrightarrow> all_passed k (cr_add_result t r) r' \<Longrightarrow> all_passed (Suc k) r r'"
  by (auto simp: all_passed_def cr_add_result_def algebra_simps)

lemma all_passed_trans: "all_passed k r r' \<Longrightarrow> all_passed l r' r'' \<Longrightarrow> all_passed (k + l) r r''"
  by (auto simp: all_passed_def algebra_simps)

lemma run_tests_all_passed:
  assumes "\<And>m. list_all (\<lambda>t. \<exists>e. parse (snd t) m = Some (e, m + 1) \<and> tr_passed (result (fst t) e)) ts"
  shows "\<exists>r'. run_tests parse result ts (r, n) = Some (r', n + word_of_nat (length ts)) \<and> all_passed (length ts) r r'"
  using assms
proof (induction ts arbitrary: r n)
  case Nil
  then show ?case by (simp add: all_passed_refl)
next
  case (Cons t ts)
  obtain name input where t: "t = (name, input)" by (cases t)
  obtain e where e: "parse input n = Some (e, n + 1)" "tr_passed (result name e)"
    using Cons.prems [of n] by (auto simp: t)
  obtain r' where "run_tests parse result ts (cr_add_result (result name e) r, n + 1) =
      Some (r', n + 1 + word_of_nat (length ts))" "all_passed (length ts) (cr_add_result (result name e) r) r'"
    using Cons.IH [of "cr_add_result (result name e) r" "n + 1"] Cons.prems by fastforce
  then show ?case
    using e by (auto simp: t add.assoc intro: all_passed_step)
qed

text \<open>With a parser that keeps no state a run is a fold.\<close>

lemma run_tests_fold:
  assumes "\<And>i m. parse i m = Some (f i, m)"
  shows "run_tests parse result ts (r, n) = Some (fold (\<lambda>(name, i). cr_add_result (result name (f i))) ts r, n)"
  by (induction ts arbitrary: r) (auto simp: assms)

lemma fold_results:
  "cr_results (fold (\<lambda>(name, i). cr_add_result (result name (f i))) ts r) =
     cr_results r @ map (\<lambda>(name, i). result name (f i)) ts"
  by (induction ts arbitrary: r) (auto simp: cr_add_result_def Let_def)

lemma fold_counts:
  "report_counts r \<Longrightarrow> report_counts (fold (\<lambda>(name, i). cr_add_result (result name (f i))) ts r)"
  by (induction ts arbitrary: r) (auto intro: report_counts_result)

lemma result_passed [simp]:
  "tr_passed (positive_result k name e) = (e = None)" "tr_passed (negative_result k name e) = (e \<noteq> None)"
  by (simp_all add: positive_result_def negative_result_def)

lemma report_fields [simp]:
  "cr_results (cr_new name) = []" "cr_skipped (cr_new name) = 0"
  "cr_results (cr_add_gap g r) = cr_results r" "cr_skipped (cr_add_gap g r) = cr_skipped r"
  by (simp_all add: cr_new_def cr_add_gap_def)

lemma fold_skipped:
  "cr_skipped (fold (\<lambda>(name, i). cr_add_result (result name (f i))) ts r) = cr_skipped r"
  by (induction ts arbitrary: r) (auto simp: cr_add_result_def Let_def)

text \<open>the SPARQL suite counts exactly the positive queries that the parser accepts and the negative
  ones that it rejects, and its counters agree with its results.\<close>

theorem sparql_suite_counts:
  "\<exists>r. run_sparql_syntax_tests G n = Some (r, n) \<and> report_counts r \<and> cr_skipped r = 0 \<and>
     map tr_passed (cr_results r) =
       map (\<lambda>t. sparql_is_valid G sp_new (snd t)) (sparql_pattern_tests @ sparql_modifier_tests) @
       map (\<lambda>t. \<not> sparql_is_valid G sp_new (snd t)) sparql_negative_tests"
proof -
  define f where "f i = (case sparql_parse G sp_new i of Inl e \<Rightarrow> Some (show_error e) | Inr _ \<Rightarrow> None)" for i
  have f: "sparql_tested G i m = Some (f i, m)" for i m
    by (simp add: sparql_tested_def f_def)
  have ok: "(f i = None) = sparql_is_valid G sp_new i" for i
    by (simp add: f_def sparql_is_valid_def split: sum.split)
  show ?thesis
    by (simp add: run_sparql_syntax_tests_def run_tests_fold [of "sparql_tested G" f, OF f] report_counts_gap
        fold_counts report_counts_new, simp add: fold_results fold_skipped ok split_beta)
qed

subsection \<open>The Turtle suite\<close>

lemma suite_numbers:
  "parse_i64 (lit ''42'') = Some 42" "parse_i64 (lit ''-42'') = Some (- 42)" "parse_i64 (lit ''123'') = Some 123"
  by (simp_all add: lit_def parse_i64_def parse_signed_def all_digits_def is_ascii_digit_def digits_value_def)

lemma suite_floats:
  "std_ok S \<Longrightarrow> \<exists>v. parse_f64 S (lit ''3.14'') = Some v" "std_ok S \<Longrightarrow> \<exists>v. parse_f64 S (lit ''1.5e10'') = Some v"
  by (simp_all add: std_ok_def parses_f64_def f64_number_ok_def f64_exponent_ok_def all_digits_def
      is_ascii_digit_def ascii_lower_def lit_def flip: not_None_eq)

lemma turtle_positive_pass:
  assumes "std_ok S"
  shows "list_all (\<lambda>t. turtle_tested S disp (snd t) n = Some (None, n + 1)) turtle_positive_tests"
proof -
  obtain v w where "parse_f64 S (lit ''3.14'') = Some v" "parse_f64 S (lit ''1.5e10'') = Some w"
    using suite_floats [OF assms] by blast
  then show ?thesis using assms suite_numbers
    by (simp add: turtle_tested_def lexer_eval parser_eval turtle_positive_tests_def)
qed

lemma turtle_negative_fail:
  "std_ok S \<Longrightarrow> list_all (\<lambda>t. \<exists>e. turtle_tested S disp (snd t) n = Some (Some e, n + 1)) turtle_negative_tests"
  using suite_numbers by (simp add: turtle_tested_def lexer_eval parser_eval turtle_negative_tests_def)

text \<open>The Turtle suite passes as a whole: whatever the Unicode tables, the floats and the texts of
  errors are, the parser accepts each of the 22 positive documents and rejects each of the 6 negative
  ones, none panics, and the report says so.\<close>

theorem turtle_suite_passes:
  assumes "std_ok S"
  shows "\<exists>r. run_turtle_tests S disp n = Some (r, n + 28) \<and> list_all tr_passed (cr_results r) \<and>
    length (cr_results r) = 28 \<and> cr_total r = 28 \<and> cr_passed r = 28 \<and> cr_failed r = 0 \<and> cr_skipped r = 0"
proof -
  have lengths: "length turtle_positive_tests = 22" "length turtle_negative_tests = 6"
    by (simp_all add: turtle_positive_tests_def turtle_negative_tests_def)
  have pos: "\<exists>r'. run_tests (turtle_tested S disp) (positive_result PositiveParser) turtle_positive_tests (r, m) =
      Some (r', m + 22) \<and> all_passed 22 r r'" for r m
    using run_tests_all_passed [of "turtle_tested S disp" "positive_result PositiveParser" turtle_positive_tests r m]
      turtle_positive_pass [OF assms, of disp] by (simp add: lengths)
  have neg: "\<exists>r'. run_tests (turtle_tested S disp) (negative_result NegativeParser) turtle_negative_tests (r, m) =
      Some (r', m + 6) \<and> all_passed 6 r r'" for r m
    using run_tests_all_passed [of "turtle_tested S disp" "negative_result NegativeParser" turtle_negative_tests r m]
      turtle_negative_fail [OF assms, of disp] by (fastforce simp: lengths list_all_iff)
  obtain r1 where r1: "run_tests (turtle_tested S disp) (positive_result PositiveParser) turtle_positive_tests
      (cr_new (lit ''RDF 1.1 Turtle''), n) = Some (r1, n + 22)" "all_passed 22 (cr_new (lit ''RDF 1.1 Turtle'')) r1"
    using pos by blast
  obtain r2 where r2: "run_tests (turtle_tested S disp) (negative_result NegativeParser) turtle_negative_tests
      (r1, n + 22) = Some (r2, n + 22 + 6)" "all_passed 6 r1 r2"
    using neg by blast
  show ?thesis
    using r1 all_passed_trans [OF r1(2) r2(2)] r2(1)
    by (auto simp: run_turtle_tests_def all_passed_def cr_new_def cr_add_gap_def add.assoc list_all_iff)
qed

theorem turtle_suite_passes_witness:
  "\<exists>r. run_turtle_tests ascii_std (\<lambda>e. []) 7 = Some (r, 35) \<and> cr_passed r = 28"
  using turtle_suite_passes [OF ascii_std_ok, of "\<lambda>e. []" 7] by auto

text \<open>the update suite skips all of its tests; its percentage is the quotient of two zeros.\<close>

theorem update_suite_zero_by_zero:
  "cr_total run_sparql_update_tests = 10 \<and> cr_skipped run_sparql_update_tests = 10 \<and>
   compliance_percentage F run_sparql_update_tests =
     Some (pc_mul F (pc_div F (pc_of F 0) (pc_of F 0)) (pc_hundred F))"
  by (simp add: run_sparql_update_tests_def update_operations_def cr_add_skipped_def cr_add_gap_def cr_new_def
      compliance_percentage_def)

end
