(* ===== verification/Benchmarks.thy ===== *)
theory Benchmarks
  imports RoundTrip ModuleBulk
begin

section \<open>The benchmarks (tests-e2e/src/benchmarks.rs)\<close>

text \<open>
  The data the benchmarks generate and the commands they send: a command of the client is a
  \<open>redis_call\<close> on the server, whose reply is mostly ignored. Starting a server, reading clocks and printing are
  left out; a duration is an argument. The counts are far from the bounds of \<open>usize\<close>.
\<close>

subsection \<open>Results\<close>

text \<open>The float operations of a result: of \<open>usize\<close>, the seconds of a duration, division.\<close>

record ('d, 'f) bench_ops =
  bo_of :: "nat \<Rightarrow> 'f"
  bo_secs :: "'d \<Rightarrow> 'f"
  bo_div :: "'f \<Rightarrow> 'f \<Rightarrow> 'f"

record ('d, 'f) bench_result =
  br_name :: rstr
  br_duration :: 'd
  br_operations :: nat
  br_ops_per_sec :: 'f
  br_items_per_sec :: "'f option"

definition br_new :: "('d, 'f) bench_ops \<Rightarrow> rstr \<Rightarrow> 'd \<Rightarrow> nat \<Rightarrow> ('d, 'f) bench_result" where
  "br_new F name d ops = \<lparr>br_name = name, br_duration = d, br_operations = ops,
     br_ops_per_sec = bo_div F (bo_of F ops) (bo_secs F d), br_items_per_sec = None\<rparr>"

definition br_with_items :: "('d, 'f) bench_ops \<Rightarrow> nat \<Rightarrow> ('d, 'f) bench_result \<Rightarrow> ('d, 'f) bench_result" where
  "br_with_items F items r = r\<lparr>br_items_per_sec := Some (bo_div F (bo_of F items) (bo_secs F (br_duration r)))\<rparr>"

subsection \<open>Generated data\<close>

definition entity_ref :: "nat \<Rightarrow> rstr" where
  "entity_ref i = lit ''<http://example.org/entity/'' @ show_nat i @ [c_gt]"

definition entity_type_line :: "nat \<Rightarrow> rstr" where
  "entity_type_line i = entity_ref i @
     lit '' <http://www.w3.org/1999/02/22-rdf-syntax-ns#type> <http://example.org/Entity> .''"

text \<open>Without a dot at its end, as in the code.\<close>

definition entity_property_line :: "nat \<Rightarrow> nat \<Rightarrow> rstr" where
  "entity_property_line i p = entity_ref i @ lit '' <http://example.org/prop'' @ show_nat p @ lit ''> '' @
     [c_dquote] @ lit ''value_'' @ show_nat i @ [c_underscore] @ show_nat p @ [c_dquote]"

definition entity_relation_line :: "nat \<Rightarrow> nat \<Rightarrow> nat \<Rightarrow> rstr" where
  "entity_relation_line n i r = entity_ref i @ lit '' <http://example.org/rel'' @ show_nat r @ lit ''> '' @
     entity_ref ((i + r * 17 + 1) mod n) @ lit '' .''"

definition generate_ntriples :: "nat \<Rightarrow> nat \<Rightarrow> nat \<Rightarrow> rstr" where
  "generate_ntriples entities properties relations = join [c_nl] (concat (map (\<lambda>i.
     [entity_type_line i] @ map (entity_property_line i) [0..<properties] @
     map (entity_relation_line entities i) [0..<relations]) [0..<entities]))"

definition person_ref :: "nat \<Rightarrow> rstr" where
  "person_ref i = lit ''<http://example.org/person/'' @ show_nat i @ [c_gt]"

definition person_lines :: "nat \<Rightarrow> rstr list" where
  "person_lines i =
     [person_ref i @ lit '' <http://www.w3.org/1999/02/22-rdf-syntax-ns#type> <http://xmlns.com/foaf/0.1/Person> .'',
      person_ref i @ lit '' <http://xmlns.com/foaf/0.1/name> '' @ [c_dquote] @ lit ''Person '' @ show_nat i @ [c_dquote] @ lit '' .'',
      person_ref i @ lit '' <http://xmlns.com/foaf/0.1/age> '' @ [c_dquote] @ show_nat (18 + i mod 62) @ [c_dquote] @
        lit ''^^<http://www.w3.org/2001/XMLSchema#integer> .'']"

definition friends :: "nat \<Rightarrow> nat \<Rightarrow> nat \<Rightarrow> nat list" where
  "friends n k i = filter (\<lambda>f. f \<noteq> i) (map (\<lambda>j. (i + j * 13 + 1) mod n) [0..<k])"

definition knows_line :: "nat \<Rightarrow> nat \<Rightarrow> rstr" where
  "knows_line i f = person_ref i @ lit '' <http://xmlns.com/foaf/0.1/knows> '' @ person_ref f @ lit '' .''"

definition generate_social_network :: "nat \<Rightarrow> nat \<Rightarrow> rstr" where
  "generate_social_network persons avg = join [c_nl] (concat (map (\<lambda>i.
     person_lines i @ map (knows_line i) (friends persons avg i)) [0..<persons]))"

subsection \<open>Commands\<close>

definition send :: "'w redis_call \<Rightarrow> string \<Rightarrow> rstr list \<Rightarrow> 'w \<Rightarrow> 'w" where
  "send call name args w = snd (call w (lit name) args)"

definition cleanup_graph :: "'w redis_call \<Rightarrow> rstr \<Rightarrow> 'w \<Rightarrow> 'w" where
  "cleanup_graph call g w = send call ''GRAPH.DELETE'' [g] (send call ''DEL'' [g] w)"

text \<open>\<open>data.lines().collect::<Vec<_>>().chunks(n)\<close>, each joined again.\<close>

definition line_batches :: "nat \<Rightarrow> rstr \<Rightarrow> rstr list" where
  "line_batches n data = map (join [c_nl]) (chunks n (split_lines [] data))"

fun insert_until_error :: "'w redis_call \<Rightarrow> rstr \<Rightarrow> rstr list \<Rightarrow> 'w \<Rightarrow> 'w" where
  "insert_until_error call g [] w = w"
| "insert_until_error call g (b # bs) w =
     (case call w (lit ''RDF.INSERT'') [g, b] of
        (Inl e, w) \<Rightarrow> w
      | (Inr r, w) \<Rightarrow> insert_until_error call g bs w)"

definition benchmark_bulk_insert ::
  "'f rust_std \<Rightarrow> ('d, 'g) bench_ops \<Rightarrow> 'd \<Rightarrow> 'w redis_call \<Rightarrow> rstr \<Rightarrow> nat \<Rightarrow> nat \<Rightarrow> 'w \<Rightarrow> ('d, 'g) bench_result \<times> 'w" where
  "benchmark_bulk_insert S F d call name triples batch w =
     (let g = lit ''bench_'' @ to_lowercase S (replace_char c_space [c_underscore] name);
          w = cleanup_graph call g w;
          data = generate_ntriples (triples div 5) 2 2;
          actual = length (split_lines [] data);
          w = (if batch > 0 \<and> actual > batch then insert_until_error call g (line_batches batch data) w
               else send call ''RDF.INSERT'' [g, data] w)
      in (br_with_items F actual (br_new F name d 1), cleanup_graph call g w))"

definition insert_batches :: "'w redis_call \<Rightarrow> rstr \<Rightarrow> rstr list \<Rightarrow> 'w \<Rightarrow> 'w" where
  "insert_batches call g bs w = fold (\<lambda>b. send call ''RDF.INSERT'' [g, b]) bs w"

definition setup_query_benchmark_graph :: "'w redis_call \<Rightarrow> rstr \<Rightarrow> nat \<Rightarrow> 'w \<Rightarrow> 'w" where
  "setup_query_benchmark_graph call g persons w =
     insert_batches call g (line_batches 50000 (generate_social_network persons 10)) (cleanup_graph call g w)"

text \<open>Three queries to warm up, then the iterations of which the successful ones are counted.\<close>

fun run_iterations :: "'w redis_call \<Rightarrow> rstr \<Rightarrow> rstr \<Rightarrow> nat \<Rightarrow> nat \<Rightarrow> 'w \<Rightarrow> nat \<times> 'w" where
  "run_iterations call g q 0 ok w = (ok, w)"
| "run_iterations call g q (Suc k) ok w =
     (case call w (lit ''RDF.QUERY'') [g, q] of
        (Inl e, w) \<Rightarrow> run_iterations call g q k ok w
      | (Inr r, w) \<Rightarrow> run_iterations call g q k (ok + 1) w)"

definition benchmark_query ::
  "('d, 'f) bench_ops \<Rightarrow> 'd \<Rightarrow> 'w redis_call \<Rightarrow> rstr \<Rightarrow> rstr \<Rightarrow> rstr \<Rightarrow> nat \<Rightarrow> 'w \<Rightarrow> ('d, 'f) bench_result \<times> nat \<times> 'w" where
  "benchmark_query F d call name g q iterations w =
     (let w = ((send call ''RDF.QUERY'' [g, q]) ^^ 3) w
      in (br_new F name d iterations, run_iterations call g q iterations 0 w))"

text \<open>The same people in Cypher, with a statement per person and per friendship.\<close>

definition create_person :: "nat \<Rightarrow> rstr" where
  "create_person i = lit ''CREATE (p:Person {id: '' @ show_nat i @ lit '', name: '' @ [c_squote] @ lit ''Person '' @ show_nat i @
     [c_squote] @ lit '', age: '' @ show_nat (18 + i mod 62) @ lit ''})''"

definition create_knows :: "nat \<times> nat \<Rightarrow> rstr" where
  "create_knows = (\<lambda>(a, b). lit ''MATCH (a:Person {id: '' @ show_nat a @ lit ''}), (b:Person {id: '' @ show_nat b @
     lit ''}) CREATE (a)-[:KNOWS]->(b)'')"

definition friendships :: "nat \<Rightarrow> nat \<Rightarrow> (nat \<times> nat) list" where
  "friendships n k = concat (map (\<lambda>i. map (Pair i) (friends n k i)) [0..<n])"

definition setup_comparison_graph :: "'w redis_call \<Rightarrow> rstr \<Rightarrow> rstr \<Rightarrow> nat \<Rightarrow> 'w \<Rightarrow> 'w" where
  "setup_comparison_graph call rdf cypher persons w =
     (let w = cleanup_graph call cypher (cleanup_graph call rdf w);
          w = insert_batches call rdf (line_batches 10000 (generate_social_network persons 5)) w;
          w = fold (\<lambda>i. send call ''GRAPH.QUERY'' [cypher, create_person i]) [0..<persons] w
      in fold (fold (\<lambda>m. send call ''GRAPH.QUERY'' [cypher, m])) (map (map create_knows) (chunks 1000 (friendships persons 5))) w)"

definition bench_sparql :: "'w redis_call \<Rightarrow> rstr \<Rightarrow> rstr \<Rightarrow> nat \<Rightarrow> 'w \<Rightarrow> 'w" where
  "bench_sparql call g q iterations = (send call ''RDF.QUERY'' [g, q]) ^^ iterations"

definition bench_cypher :: "'w redis_call \<Rightarrow> rstr \<Rightarrow> rstr \<Rightarrow> nat \<Rightarrow> 'w \<Rightarrow> 'w" where
  "bench_cypher call g q iterations = (send call ''GRAPH.QUERY'' [g, q]) ^^ iterations"

end
