(* ===== verification/BenchmarkFacts.thy ===== *)
theory BenchmarkFacts
  imports Benchmarks InsertFacts ModuleDelete TurtleSafety
begin

section \<open>What the benchmarks insert\<close>

text \<open>
  Every batch of the generated social network is guessed to be N-Triples and is a document of its part of the network,
  and the people and friendships of the Cypher graph are those of the RDF graph. The documents of the bulk insertion
  benchmark are no documents, because their property lines lack the dot.
\<close>

subsection \<open>Documents of lines\<close>

text \<open>A line with an N-Triples statement of printable characters, which is not taken for a quad.\<close>

definition data_line :: "rstr \<Rightarrow> bool" where
  "data_line l \<longleftrightarrow> (\<exists>r. l = lit ''<http:'' @ r) \<and> last l \<in> {c_dot, c_dquote} \<and> (\<forall>c \<in> set l. 32 \<le> c \<and> c < 127 \<and> c \<noteq> c_semi) \<and> \<not> quads_line l"

lemma data_line_not_blank: "data_line l \<Longrightarrow> l \<noteq> [] \<and> hd l = c_lt \<and> \<not> is_whitespace (hd l) \<and> \<not> is_whitespace (last l)"
proof -
  assume l: "data_line l"
  then have "last l = c_dot \<or> last l = c_dquote" by (simp add: data_line_def)
  then have "\<not> is_whitespace (last l)" by (elim disjE) (simp_all add: is_whitespace_def)
  moreover obtain r where "l = lit ''<http:'' @ r" using l by (auto simp: data_line_def)
  ultimately show ?thesis by (simp add: str_simps is_whitespace_def)
qed

lemma data_line_trim: "data_line l \<Longrightarrow> trim l = l"
  by (rule trim_id) (auto dest: data_line_not_blank)

lemma split_lines_line: "c_nl \<notin> set l \<Longrightarrow> split_lines acc (l @ r) = split_lines (acc @ l) r"
  by (induction l arbitrary: acc) auto

lemma split_lines_join:
  assumes "\<forall>l \<in> set ls. c_nl \<notin> set l \<and> l \<noteq> [] \<and> last l \<noteq> c_cr"
  shows "split_lines [] (join [c_nl] ls) = ls"
  using assms
proof (induction ls)
  case (Cons l ls)
  then show ?case
    using split_lines_line [of l "[]" "[]"] split_lines_line [of l "[]" "c_nl # join [c_nl] ls"]
    by (simp add: join_Cons)
qed simp

lemma data_lines_split: "list_all data_line ls \<Longrightarrow> split_lines [] (join [c_nl] ls) = ls"
proof (rule split_lines_join)
  assume "list_all data_line ls"
  then show "\<forall>l \<in> set ls. c_nl \<notin> set l \<and> l \<noteq> [] \<and> last l \<noteq> c_cr"
    using data_line_not_blank by (fastforce simp: list_all_iff data_line_def)
qed

lemma data_line_graph: "data_line l \<Longrightarrow> graph_line l = Some False"
proof -
  assume "data_line l"
  then obtain r where l: "l = lit ''<http:'' @ r" by (auto simp: data_line_def)
  have five: "byte_len (lit ''<http'') = 5" by (simp add: str_simps utf8_len_def)
  have "l = lit ''<http'' @ c_colon # r" by (simp add: l str_simps)
  then show ?thesis
    using str_to_append [of "lit ''<http''" "c_colon # r"] unfolding five
    by (simp add: graph_line_def str_simps ascii_lower_def utf8_len_def)
qed

lemma data_line_simple: "data_line l \<Longrightarrow> \<not> turtle_line l \<and> \<not> ignored_line l"
proof -
  assume d: "data_line l"
  then obtain r where l: "l = lit ''<http:'' @ r" by (auto simp: data_line_def)
  have "c_semi \<notin> set l" using d by (auto simp: data_line_def)
  then show ?thesis by (simp add: l turtle_line_def ignored_line_def starts_def str_simps)
qed

lemma data_lines_detected:
  assumes "list_all data_line ls" "ls \<noteq> []"
  shows "detect_format (join [c_nl] ls) = Some FNTriples"
proof -
  let ?d = "join [c_nl] ls"
  have "?d \<noteq> [] \<and> hd ?d = hd (hd ls) \<and> last ?d = last (last ls)"
    using assms
  proof (induction ls)
    case (Cons l ls)
    then show ?case using data_line_not_blank [of l] by (simp add: join_Cons)
  qed simp
  then have ends: "?d \<noteq> []" "hd ?d = hd (hd ls)" "last ?d = last (last ls)" by simp_all
  have "data_line (hd ls)" "data_line (last ls)" using assms by (simp_all add: list_all_iff)
  from data_line_not_blank [OF this(1)] data_line_not_blank [OF this(2)]
  have lt: "hd ?d = c_lt" and trim: "trim ?d = ?d"
    using ends trim_id [of ?d] by (simp_all add: is_whitespace_def)
  have "any_graph_line ls = Some False" "\<not> any_turtle_line ls"
    using assms(1) by (induction ls)
      (simp_all add: data_line_trim data_line_graph data_line_simple any_turtle_line_def Let_def)
  moreover have "\<not> first_line_quads ls"
    using assms by (cases ls) (auto simp: data_line_trim data_line_simple, simp add: data_line_def)
  ultimately show ?thesis
    by (simp add: detect_format_def trim data_lines_split [OF assms(1)] starts_def lt)
qed

lemma lexes_joined:
  assumes "std_ok S"
  shows "list_all2 (\<lambda>l t. nt_triple t = l @ [c_nl]) ls ts \<Longrightarrow> list_all (plain_triple S) ts \<Longrightarrow>
    lexes S (join [c_nl] ls) (concat (map triple_kinds ts) @ [Eof])"
proof (induction ls ts rule: list_all2_induct)
  case (Cons l ls t ts)
  show ?case
  proof (cases "ls = []")
    case True
    then show ?thesis using Cons lexes_line [OF assms, of t l "[]" "[Eof]"] by (simp add: lexes_end)
  next
    case False
    then show ?thesis
      using Cons lexes_line [OF assms, of t l "c_nl # join [c_nl] ls" "concat (map triple_kinds ts) @ [Eof]"]
      by (simp add: join_Cons lexes_space)
  qed
qed (simp add: lexes_end)

subsection \<open>The social network\<close>

definition example_iri :: "string \<Rightarrow> iri" where
  "example_iri s = iri_new_unchecked (lit s)"

definition person_iri :: "nat \<Rightarrow> iri" where
  "person_iri i = iri_new_unchecked (lit ''http://example.org/person/'' @ show_nat i)"

definition person_triples :: "nat \<Rightarrow> triple list" where
  "person_triples i = map (\<lambda>(p, ob). triple_new (SubjIri (person_iri i)) (example_iri p) ob)
     [(''http://www.w3.org/1999/02/22-rdf-syntax-ns#type'', ObjIri (example_iri ''http://xmlns.com/foaf/0.1/Person'')),
      (''http://xmlns.com/foaf/0.1/name'',
         ObjLiteral \<lparr>lit_value = lit ''Person '' @ show_nat i, lit_datatype = None, lit_language = None\<rparr>),
      (''http://xmlns.com/foaf/0.1/age'', ObjLiteral \<lparr>lit_value = show_nat (18 + i mod 62),
         lit_datatype = Some (example_iri ''http://www.w3.org/2001/XMLSchema#integer''), lit_language = None\<rparr>)]"

definition knows_triple :: "nat \<times> nat \<Rightarrow> triple" where
  "knows_triple = (\<lambda>(i, f). triple_new (SubjIri (person_iri i)) (example_iri ''http://xmlns.com/foaf/0.1/knows'')
     (ObjIri (person_iri f)))"

definition network_triples :: "nat \<Rightarrow> nat \<Rightarrow> triple list" where
  "network_triples n k = concat (map (\<lambda>i. person_triples i @ map (\<lambda>f. knows_triple (i, f)) (friends n k i)) [0..<n])"

lemma show_nat_chars: "c \<in> set (show_nat n) \<Longrightarrow> 48 \<le> c \<and> c \<le> 57"
  using show_nat_digits [of c n] by (simp add: is_ascii_digit_def)

lemma show_nat_word: "\<forall>c \<in> set (show_nat n). \<not> is_whitespace c"
  by (auto simp: is_whitespace_def dest!: show_nat_chars)

lemma escape_plain: "\<forall>c \<in> set s. 32 \<le> c \<and> c < 127 \<and> c \<noteq> c_dquote \<and> c \<noteq> c_bslash \<Longrightarrow> escape_string s = s"
  by (induction s) (auto simp: escape_string_def is_control_def)

lemma plain_chars: "\<forall>c \<in> set s. 32 \<le> c \<and> c < 127 \<Longrightarrow> plain_text s"
  by (auto simp: plain_text_def list_all_iff is_control_def)

lemma person_written: "list_all2 (\<lambda>l t. nt_triple t = l @ [c_nl]) (person_lines i) (person_triples i)"
proof -
  have "escape_string (lit ''Person '' @ show_nat i) = lit ''Person '' @ show_nat i" for i
    by (rule escape_plain) (auto simp: str_simps dest!: show_nat_chars)
  moreover have "escape_string (show_nat i) = show_nat i" for i
    by (rule escape_plain) (auto dest!: show_nat_chars)
  ultimately show ?thesis
    by (simp add: person_lines_def person_triples_def nt_triple_def triple_new_def person_ref_def person_iri_def
        example_iri_def iri_new_unchecked_def nt_literal_def xsd_string_iri_def str_simps)
qed

lemma knows_written: "nt_triple (knows_triple (i, f)) = knows_line i f @ [c_nl]"
  by (simp add: knows_triple_def knows_line_def nt_triple_def triple_new_def person_ref_def person_iri_def
      example_iri_def iri_new_unchecked_def str_simps)

lemma person_iri_plain: "plain_iri (person_iri i)"
  unfolding person_iri_def
  by (rule plain_iri_unchecked)
    (auto simp: valid_iri_text_def list_all_iff str_simps is_control_def is_whitespace_def dest!: show_nat_chars)

lemma example_iris_plain:
  "plain_iri (example_iri ''http://xmlns.com/foaf/0.1/knows'')" "plain_iri (example_iri ''http://xmlns.com/foaf/0.1/name'')"
  "plain_iri (example_iri ''http://xmlns.com/foaf/0.1/age'')" "plain_iri (example_iri ''http://xmlns.com/foaf/0.1/Person'')"
  "plain_iri (example_iri ''http://www.w3.org/1999/02/22-rdf-syntax-ns#type'')"
  "plain_iri (example_iri ''http://www.w3.org/2001/XMLSchema#integer'')"
  unfolding example_iri_def
  by (rule plain_iri_unchecked; simp add: valid_iri_text_def str_simps is_control_def is_whitespace_def)+

lemma person_plain: "list_all (plain_triple S) (person_triples i)" "plain_triple S (knows_triple (i, f))"
proof -
  have "plain_text (lit ''Person '' @ show_nat i)" "plain_text (show_nat (18 + i mod 62))"
    by (rule plain_chars; auto simp: str_simps dest!: show_nat_chars)+
  then show "list_all (plain_triple S) (person_triples i)" "plain_triple S (knows_triple (i, f))"
    by (simp_all add: person_triples_def knows_triple_def plain_triple_def triple_new_def plain_literal_def
        person_iri_plain example_iris_plain)
qed

lemma split_person: "split_ws (person_ref i @ r) acc = split_ws r (acc @ person_ref i)"
proof (rule split_ws_word)
  show "\<forall>c \<in> set (person_ref i). \<not> is_whitespace c"
    using show_nat_word [of i] by (auto simp: person_ref_def str_simps is_whitespace_def)
qed

lemma person_ref_chars: "c \<in> set (person_ref i) \<Longrightarrow> 32 \<le> c \<and> c < 127 \<and> c \<noteq> c_semi"
  by (auto simp: person_ref_def str_simps dest!: show_nat_chars)

lemma person_ref_start: "\<exists>r. person_ref i = lit ''<http:'' @ r"
  by (simp add: person_ref_def str_simps)

lemma person_not_quads:
  "\<not> quads_line (person_ref i @ lit '' <http://www.w3.org/1999/02/22-rdf-syntax-ns#type> <http://xmlns.com/foaf/0.1/Person> .'')"
  "\<not> quads_line (person_ref i @ lit '' <http://xmlns.com/foaf/0.1/name> '' @ [c_dquote] @ lit ''Person '' @ show_nat i @ [c_dquote] @ lit '' .'')"
  "\<not> quads_line (person_ref i @ lit '' <http://xmlns.com/foaf/0.1/age> '' @ [c_dquote] @ show_nat j @ [c_dquote] @
        lit ''^^<http://www.w3.org/2001/XMLSchema#integer> .'')"
proof -
  have "show_nat i \<noteq> []" "hd (show_nat i) \<noteq> c_lt" "hd (show_nat i) \<noteq> c_underscore" using show_nat_hd [of i] by auto
  then have n: "hd (show_nat i @ r) \<noteq> c_lt" "\<not> prefix [c_underscore, c_colon] (show_nat i @ r)" for r
    by (cases "show_nat i"; simp)+
  have "person_ref i \<noteq> []" by (simp add: person_ref_def str_simps)
  note eval = quads_line_def split_whitespace_def split_person split_ws_word [OF show_nat_word] str_simps
    is_whitespace_def starts_def Let_def this
  show "\<not> quads_line (person_ref i @ lit '' <http://www.w3.org/1999/02/22-rdf-syntax-ns#type> <http://xmlns.com/foaf/0.1/Person> .'')"
    by (simp add: eval)
  show "\<not> quads_line (person_ref i @ lit '' <http://xmlns.com/foaf/0.1/name> '' @ [c_dquote] @ lit ''Person '' @ show_nat i @ [c_dquote] @ lit '' .'')"
    using n [of "[c_dquote]"] n [of "[]"] by (simp add: eval)
  show "\<not> quads_line (person_ref i @ lit '' <http://xmlns.com/foaf/0.1/age> '' @ [c_dquote] @ show_nat j @ [c_dquote] @
        lit ''^^<http://www.w3.org/2001/XMLSchema#integer> .'')"
    by (simp add: eval)
qed

lemma data_line_person:
  assumes "\<not> quads_line (person_ref i @ s)" "s \<noteq> []" "last s = c_dot" "\<forall>c \<in> set s. 32 \<le> c \<and> c < 127 \<and> c \<noteq> c_semi"
  shows "data_line (person_ref i @ s)"
proof -
  obtain r where "person_ref i = lit ''<http:'' @ r" using person_ref_start by blast
  then have "person_ref i @ s = lit ''<http:'' @ (r @ s)" by simp
  then show ?thesis using assms person_ref_chars [of _ i] unfolding data_line_def by auto
qed

lemma person_data: "list_all data_line (person_lines i)"
proof -
  have "32 \<le> c \<and> c < 127 \<and> c \<noteq> c_semi" if "c \<in> set (show_nat n)" for c n
    using show_nat_chars [OF that] by simp
  then show ?thesis
    unfolding person_lines_def list.pred_inject
    by (intro conjI data_line_person person_not_quads TrueI) (auto simp: str_simps)
qed

lemma knows_data: "data_line (knows_line i f)"
proof -
  obtain r where "person_ref i = lit ''<http:'' @ r" using person_ref_start by blast
  moreover have "\<not> quads_line (knows_line i f)"
    using split_person [of i] split_person [of f]
    by (simp add: knows_line_def quads_line_def split_whitespace_def str_simps is_whitespace_def starts_def Let_def)
  ultimately show ?thesis
    using person_ref_chars [of _ i] person_ref_chars [of _ f]
    by (auto simp: knows_line_def data_line_def str_simps)
qed

lemma join_chunks:
  "list_all2 P xs ys \<Longrightarrow> list_all2 (list_all2 P) (chunks n xs) (chunks n ys)"
proof (induction n xs arbitrary: ys rule: chunks.induct)
  case (1 n xs)
  then have "xs = [] \<longleftrightarrow> ys = []" by (auto dest: list_all2_lengthD)
  then show ?case
    using 1 list_all2_takeI [OF 1(2), of n] list_all2_dropI [OF 1(2), of n]
    by (simp add: chunks.simps [of n xs] chunks.simps [of n ys])
qed

definition network_lines :: "nat \<Rightarrow> nat \<Rightarrow> rstr list" where
  "network_lines n k = concat (map (\<lambda>i. person_lines i @ map (knows_line i) (friends n k i)) [0..<n])"

lemma network_written: "list_all2 (\<lambda>l t. nt_triple t = l @ [c_nl]) (network_lines n k) (network_triples n k)"
proof -
  have one: "list_all2 (\<lambda>l t. nt_triple t = l @ [c_nl]) (person_lines i @ map (knows_line i) (friends n k i))
      (person_triples i @ map (\<lambda>f. knows_triple (i, f)) (friends n k i))" for i
    by (intro list_all2_appendI person_written) (simp add: list_all2_map1 list_all2_map2 list_all2_same knows_written)
  have "list_all2 (\<lambda>l t. nt_triple t = l @ [c_nl])
      (concat (map (\<lambda>i. person_lines i @ map (knows_line i) (friends n k i)) is))
      (concat (map (\<lambda>i. person_triples i @ map (\<lambda>f. knows_triple (i, f)) (friends n k i)) is))" for "is"
  proof (induction "is")
    case (Cons i "is")
    then show ?case unfolding list.map concat.simps by (intro list_all2_appendI one)
  qed simp
  then show ?thesis unfolding network_lines_def network_triples_def .
qed

lemma network_data: "list_all data_line (network_lines n k)"
  using person_data knows_data by (fastforce simp: network_lines_def list_all_iff)

lemma network_plain: "list_all (plain_triple S) (network_triples n k)"
  using person_plain by (fastforce simp: network_triples_def list_all_iff)

text \<open>Every batch of the social network is guessed to be N-Triples and a Turtle parser reads it as its part of
  the network, so that the batches together insert the network, each triple once and in order.\<close>

theorem social_network_batches:
  assumes S: "std_ok S" and n: "0 < n"
  shows "list_all2 (\<lambda>b ts. detect_format b = Some FNTriples \<and>
      (\<exists>st. turtle_parse S (fst (tp_new g)) b = Inr (map (triple_back (tp_scope (fst (tp_new g)))) ts, st)))
      (line_batches n (generate_social_network persons avg)) (chunks n (network_triples persons avg)) \<and>
    concat (chunks n (network_triples persons avg)) = network_triples persons avg"
proof -
  let ?ls = "network_lines persons avg" and ?ts = "network_triples persons avg"
  have "list_all2 (\<lambda>ls ts. detect_format (join [c_nl] ls) = Some FNTriples \<and>
      (\<exists>st. turtle_parse S (fst (tp_new g)) (join [c_nl] ls) = Inr (map (triple_back (tp_scope (fst (tp_new g)))) ts, st)))
      (chunks n ?ls) (chunks n ?ts)"
  proof (rule list_all2_all_nthI)
    have all: "list_all2 (list_all2 (\<lambda>l t. nt_triple t = l @ [c_nl])) (chunks n ?ls) (chunks n ?ts)"
      by (rule join_chunks [OF network_written])
    then show "length (chunks n ?ls) = length (chunks n ?ts)" by (rule list_all2_lengthD)
    fix i assume i: "i < length (chunks n ?ls)"
    let ?l = "chunks n ?ls ! i" and ?t = "chunks n ?ts ! i"
    have w: "list_all2 (\<lambda>l t. nt_triple t = l @ [c_nl]) ?l ?t" using all i by (rule list_all2_nthD)
    have in_l: "?l \<in> set (chunks n ?ls)" using i by simp
    have in_t: "?t \<in> set (chunks n ?ts)" using i list_all2_lengthD [OF all] by simp
    have "set ?l \<subseteq> set ?ls" "?l \<noteq> []" using in_l chunks_cover [OF n, of ?ls] by (metis set_concat UN_upper, blast)
    then have d: "detect_format (join [c_nl] ?l) = Some FNTriples"
      using network_data by (intro data_lines_detected) (auto simp: list_all_iff)
    have "set ?t \<subseteq> set ?ts" using in_t chunks_cover [OF n, of ?ts] by (metis set_concat UN_upper)
    then have "list_all (plain_triple S) ?t" using network_plain [of S] by (auto simp: list_all_iff)
    moreover have "plain_state (fst (tp_new g))" by (simp add: tp_new_def scope_generate_def plain_state_def)
    ultimately have "\<exists>st. turtle_parse S (fst (tp_new g)) (join [c_nl] ?l) =
        Inr (map (triple_back (tp_scope (fst (tp_new g)))) ?t, st)"
      using triples_parse [OF lexes_joined [OF S w]] by blast
    with d show "detect_format (join [c_nl] ?l) = Some FNTriples \<and>
      (\<exists>st. turtle_parse S (fst (tp_new g)) (join [c_nl] ?l) = Inr (map (triple_back (tp_scope (fst (tp_new g)))) ?t, st))"
      by simp
  qed
  moreover have "split_lines [] (generate_social_network persons avg) = ?ls"
    unfolding generate_social_network_def network_lines_def [symmetric] by (rule data_lines_split [OF network_data])
  ultimately show ?thesis
    using chunks_cover [OF n, of ?ts] by (simp add: line_batches_def list_all2_map1)
qed

text \<open>The friendships of the Cypher graph are those of the RDF graph, in the same order.\<close>

lemma same_friendships:
  "filter (\<lambda>t. t_predicate t = example_iri ''http://xmlns.com/foaf/0.1/knows'') (network_triples n k) =
     map knows_triple (friendships n k)"
proof -
  let ?P = "\<lambda>t. t_predicate t = example_iri ''http://xmlns.com/foaf/0.1/knows''"
  have "filter ?P (person_triples i) = []" for i
    by (simp add: person_triples_def triple_new_def example_iri_def iri_new_unchecked_def)
  moreover have "filter ?P (map (\<lambda>f. knows_triple (i, f)) fs) = map (\<lambda>f. knows_triple (i, f)) fs" for i fs
    by (induction fs) (simp_all add: knows_triple_def triple_new_def)
  ultimately show ?thesis
    by (simp add: network_triples_def friendships_def filter_concat map_concat comp_def)
qed

lemma one_entity:
  "generate_ntriples 1 1 1 = join [c_nl] [entity_type_line 0, entity_property_line 0 0, entity_relation_line 1 0 0]"
  by (simp add: generate_ntriples_def)

lemmas eval_lines = entity_type_line_def entity_property_line_def entity_relation_line_def entity_ref_def
  show_nat.simps [of 0] str_simps

text \<open>The property lines of the other generator lack their dot, so what the insertion benchmark sends is no N-Triples
  document, although it is guessed to be one.\<close>

lemma property_line_unterminated:
  "last (entity_property_line i p) = c_dquote"
  "entity_property_line 0 0 \<in> set (split_lines [] (generate_ntriples 1 1 1))"
  "detect_format (generate_ntriples 1 1 1) = Some FNTriples"
proof -
  have "data_line (entity_type_line 0)" "data_line (entity_property_line 0 0)" "data_line (entity_relation_line 1 0 0)"
    by (simp_all add: data_line_def eval_lines quads_line_def split_whitespace_def is_whitespace_def starts_def Let_def)
  then have lines: "list_all data_line [entity_type_line 0, entity_property_line 0 0, entity_relation_line 1 0 0]" by simp
  show "last (entity_property_line i p) = c_dquote" by (simp add: entity_property_line_def)
  show "entity_property_line 0 0 \<in> set (split_lines [] (generate_ntriples 1 1 1))"
    unfolding one_entity data_lines_split [OF lines] by simp
  show "detect_format (generate_ntriples 1 1 1) = Some FNTriples"
    unfolding one_entity by (rule data_lines_detected [OF lines]) simp
qed

text \<open>The Turtle parser expects no dot at the end of a statement: it reads the same document.\<close>

lemma undotted_statements_read:
  "\<exists>ts st. turtle_parse ascii_std (fst (tp_new 0)) (generate_ntriples 1 1 1) = Inr (ts, st) \<and> length ts = 3"
  unfolding one_entity by (simp add: eval_lines lexer_eval parser_eval ascii_std_ok)

end
