(* ===== verification/XmlResults.thy ===== *)
theory XmlResults
  imports JsonReader
begin

section \<open>The XML results are XML\<close>

text \<open>
  A reader of XML documents of elements that hold either text or elements with blanks between them,
  and the proof that it reads the writer's texts as the results they are given. Characters that XML forbids
  or changes (controls, a raw carriage return) are no text for it.
\<close>

datatype xml = XLeaf rstr "(rstr \<times> rstr) list" rstr | XNode rstr "(rstr \<times> rstr) list" "xml list"

subsection \<open>The reader\<close>

text \<open>The characters XML can hold, less the carriage return, which it reads as a line feed.\<close>

definition xml_legal :: "rchar \<Rightarrow> bool" where
  "xml_legal c \<longleftrightarrow> c = c_tab \<or> c = c_nl \<or> (32 \<le> c \<and> c \<le> 55295) \<or> (57344 \<le> c \<and> c \<le> 65533) \<or> (65536 \<le> c \<and> c \<le> 1114111)"

definition text_legal :: "rstr \<Rightarrow> bool" where
  "text_legal s \<longleftrightarrow> list_all xml_legal s"

text \<open>In an attribute a tab or a line feed is read as a blank.\<close>

definition attr_legal :: "rstr \<Rightarrow> bool" where
  "attr_legal s \<longleftrightarrow> list_all (\<lambda>c. xml_legal c \<and> 32 \<le> c) s"

definition xml_name_char :: "rchar \<Rightarrow> bool" where
  "xml_name_char c \<longleftrightarrow> is_ascii_alphanumeric c \<or> c = c_colon"

fun read_attrs :: "nat \<Rightarrow> rstr \<Rightarrow> ((rstr \<times> rstr) list \<times> rstr) option" where
  "read_attrs 0 s = None"
| "read_attrs (Suc n) s =
     (if s = [] \<or> hd s \<noteq> c_space then Some ([], s)
      else (case dropWhile xml_name_char (tl s) of
          x # y # u \<Rightarrow>
            if x = 61 \<and> y = c_dquote then (case xml_data u of
                (v, z # t) \<Rightarrow> if z = c_dquote \<and> attr_legal v
                  then map_option (map_prod (Cons (takeWhile xml_name_char (tl s), v)) id) (read_attrs n t) else None
              | _ \<Rightarrow> None) else None
        | _ \<Rightarrow> None))"

fun read_element :: "nat \<Rightarrow> rstr \<Rightarrow> (xml \<times> rstr) option"
  and read_children :: "nat \<Rightarrow> rstr \<Rightarrow> (xml list \<times> rstr) option" where
  "read_element 0 s = None"
| "read_element (Suc n) s =
     (if s = [] \<or> hd s \<noteq> c_lt then None
      else (let name = takeWhile xml_name_char (tl s) in
        case read_attrs n (dropWhile xml_name_char (tl s)) of None \<Rightarrow> None
        | Some (as, u) \<Rightarrow>
            if prefix (lit ''/>'') u then Some (XLeaf name as [], drop 2 u)
            else if prefix [c_gt] u then
              (case xml_data (drop 1 u) of (v, t) \<Rightarrow>
                 (case (if prefix (lit ''</'') t then (if text_legal v then Some (XLeaf name as v, t) else None)
                        else if json_space v then map_option (map_prod (XNode name as) id) (read_children n t) else None) of
                    None \<Rightarrow> None
                  | Some (x, t) \<Rightarrow> if prefix (lit ''</'' @ name @ [c_gt]) t then Some (x, drop (length name + 3) t) else None))
            else None))"
| "read_children 0 s = None"
| "read_children (Suc n) s =
     (if prefix (lit ''</'') (skip_space s) then Some ([], skip_space s)
      else (case read_element n (skip_space s) of None \<Rightarrow> None
        | Some (x, u) \<Rightarrow> map_option (map_prod (Cons x) id) (read_children n u)))"

definition xml_declaration :: rstr where
  "xml_declaration = lit ''<?xml version='' @ [c_dquote] @ lit ''1.0'' @ [c_dquote] @ lit ''?>''"

definition read_document :: "rstr \<Rightarrow> xml option" where
  "read_document s =
     (if prefix xml_declaration s
      then (case read_element (length s) (skip_space (drop (length xml_declaration) s)) of
          Some (x, r) \<Rightarrow> if skip_space r = [] then Some x else None | None \<Rightarrow> None)
      else None)"

subsection \<open>It reads elements\<close>

definition attrs_text :: "(rstr \<times> rstr) list \<Rightarrow> rstr" where
  "attrs_text as = concat (map (\<lambda>(k, v). [c_space] @ k @ [61, c_dquote] @ xml_escaped v @ [c_dquote]) as)"

definition xml_name :: "rstr \<Rightarrow> bool" where
  "xml_name s \<longleftrightarrow> s \<noteq> [] \<and> list_all xml_name_char s"

definition attrs_ok :: "(rstr \<times> rstr) list \<Rightarrow> bool" where
  "attrs_ok as \<longleftrightarrow> list_all (\<lambda>(k, v). xml_name k \<and> attr_legal v) as"

lemma name_span:
  "xml_name s \<Longrightarrow> r = [] \<or> \<not> xml_name_char (hd r) \<Longrightarrow> takeWhile xml_name_char (s @ r) = s \<and> dropWhile xml_name_char (s @ r) = r"
  by (cases r) (auto simp: xml_name_def list_all_iff takeWhile_append dropWhile_append)

lemma name_chars: "\<not> xml_name_char 61" "\<not> xml_name_char c_space" "\<not> xml_name_char c_gt" "\<not> xml_name_char c_slash"
  by (simp_all add: xml_name_char_def char_class_defs)

lemma attrs_read:
  "attrs_ok as \<Longrightarrow> r \<noteq> [] \<Longrightarrow> hd r \<noteq> c_space \<Longrightarrow> length as < n \<Longrightarrow> read_attrs n (attrs_text as @ r) = Some (as, r)"
proof (induction as arbitrary: n)
  case Nil
  then show ?case by (cases n) (simp_all add: attrs_text_def)
next
  case (Cons a as)
  obtain k v where a: "a = (k, v)" by (cases a)
  obtain m where n: "n = Suc m" using Cons.prems by (cases n) auto
  have ok: "xml_name k" "attr_legal v" "attrs_ok as" using Cons.prems(1) a by (simp_all add: attrs_ok_def)
  have split: "attrs_text (a # as) @ r = c_space # (k @ 61 # c_dquote # xml_escaped v @ c_dquote # attrs_text as @ r)"
    by (simp add: attrs_text_def a)
  show ?case unfolding split
    using name_span [OF ok(1), of "61 # c_dquote # xml_escaped v @ c_dquote # attrs_text as @ r"] name_chars(1)
      xml_reads_back [of c_dquote v "attrs_text as @ r"] Cons.IH [OF ok(3), of m] Cons.prems n ok(2) a
    by simp
qed

definition reads_elem :: "rstr \<Rightarrow> xml \<Rightarrow> bool" where
  "reads_elem t x \<longleftrightarrow> (\<exists>c u. t = c_lt # c # u \<and> c \<noteq> c_slash) \<and> (\<forall>n rest. length t \<le> n \<longrightarrow> read_element n (t @ rest) = Some (x, rest))"

lemma attrs_length: "length as \<le> length (attrs_text as)"
  by (induction as) (auto simp: attrs_text_def)

definition start_tag :: "rstr \<Rightarrow> (rstr \<times> rstr) list \<Rightarrow> rstr" where
  "start_tag name as = [c_lt] @ name @ attrs_text as"

text \<open>What remains after the start of a tag has been read.\<close>

lemma element_started:
  assumes name: "xml_name name" "attrs_ok as" and r: "r \<noteq> []" "hd r \<in> {c_gt, c_slash}" and n: "length (start_tag name as) \<le> n"
  shows "read_element (Suc n) (start_tag name as @ r) =
    (if prefix (lit ''/>'') r then Some (XLeaf name as [], drop 2 r)
     else if prefix [c_gt] r then
       (case xml_data (drop 1 r) of (v, t) \<Rightarrow>
          (case (if prefix (lit ''</'') t then (if text_legal v then Some (XLeaf name as v, t) else None)
                 else if json_space v then map_option (map_prod (XNode name as) id) (read_children n t) else None) of
             None \<Rightarrow> None
           | Some (x, t) \<Rightarrow> if prefix (lit ''</'' @ name @ [c_gt]) t then Some (x, drop (length name + 3) t) else None))
     else None)"
proof -
  have "\<not> xml_name_char (hd (attrs_text as @ r))"
    using r(2) name_chars by (cases as) (auto simp: attrs_text_def)
  then have "takeWhile xml_name_char (name @ attrs_text as @ r) = name \<and> dropWhile xml_name_char (name @ attrs_text as @ r) = attrs_text as @ r"
    using name_span [OF name(1)] by blast
  moreover have "read_attrs n (attrs_text as @ r) = Some (as, r)"
    using attrs_read [OF name(2) r(1), of n] r(2) n attrs_length [of as] by (auto simp: start_tag_def)
  ultimately show ?thesis by (simp add: start_tag_def Let_def)
qed

declare read_element.simps(2) [simp del]

lemma start_shape: "xml_name name \<Longrightarrow> \<exists>c u. start_tag name as @ r = c_lt # c # u \<and> c \<noteq> c_slash"
  using name_chars(4) by (cases name) (auto simp: start_tag_def xml_name_def)

lemma reads_elemI:
  assumes "xml_name name" and "\<And>n rest. length (start_tag name as @ r) \<le> Suc n \<Longrightarrow>
    read_element (Suc n) (start_tag name as @ r @ rest) = Some (x, rest)"
  shows "reads_elem (start_tag name as @ r) x"
  unfolding reads_elem_def
proof (intro conjI allI impI)
  fix n rest
  assume n: "length (start_tag name as @ r) \<le> n"
  then obtain m where "n = Suc m" by (cases n) (auto simp: start_tag_def)
  then show "read_element n ((start_tag name as @ r) @ rest) = Some (x, rest)" using assms(2) n by simp
qed (rule start_shape [OF assms(1)])

lemma empty_read: "xml_name name \<Longrightarrow> attrs_ok as \<Longrightarrow> reads_elem (start_tag name as @ lit ''/>'') (XLeaf name as [])"
proof (rule reads_elemI)
  fix n rest
  assume "xml_name name" "attrs_ok as" "length (start_tag name as @ lit ''/>'') \<le> Suc n"
  then show "read_element (Suc n) (start_tag name as @ lit ''/>'' @ rest) = Some (XLeaf name as [], rest)"
    using element_started [of name as "lit ''/>'' @ rest" n] by (simp add: str_simps)
qed

definition end_tag :: "rstr \<Rightarrow> rstr" where
  "end_tag name = lit ''</'' @ name @ [c_gt]"

lemma drop_end: "drop (length name + 3) (c_lt # c_slash # name @ c_gt # rest) = rest"
  by (simp add: eval_nat_numeral)

lemma leaf_read:
  assumes "xml_name name" "attrs_ok as" "text_legal v"
  shows "reads_elem (start_tag name as @ [c_gt] @ xml_escaped v @ end_tag name) (XLeaf name as v)"
proof (rule reads_elemI [OF assms(1)])
  fix n rest
  assume "length (start_tag name as @ [c_gt] @ xml_escaped v @ end_tag name) \<le> Suc n"
  then show "read_element (Suc n) (start_tag name as @ ([c_gt] @ xml_escaped v @ end_tag name) @ rest) = Some (XLeaf name as v, rest)"
    using element_started [OF assms(1,2), of "[c_gt] @ xml_escaped v @ end_tag name @ rest" n] assms(3)
      xml_reads_back [of c_lt v "tl (end_tag name) @ rest"]
    by (simp add: end_tag_def str_simps drop_end)
qed

lemma read_children_skip: "json_space w \<Longrightarrow> read_children n (w @ s) = read_children n s"
  by (cases n) (simp_all add: skip_over)

text \<open>Children with the same blanks around each.\<close>

definition children_text :: "rstr \<Rightarrow> rstr \<Rightarrow> rstr list \<Rightarrow> rstr" where
  "children_text w w' ts = concat (map (\<lambda>t. w @ t @ w') ts)"

lemma children_read:
  assumes w: "json_space w" "json_space w'" "json_space v"
  shows "list_all2 reads_elem ts xs \<Longrightarrow> length (children_text w w' ts) < n \<Longrightarrow>
    read_children n (children_text w w' ts @ v @ lit ''</'' @ rest) = Some (xs, lit ''</'' @ rest)"
proof (induction ts xs arbitrary: n rule: list_all2_induct)
  case Nil
  then show ?case by (cases n) (simp_all add: children_text_def skip_over [OF w(3)] str_simps)
next
  case (Cons t ts x xs)
  obtain m where n: "n = Suc m" using Cons.prems by (cases n) auto
  let ?s = "children_text w w' ts @ v @ lit ''</'' @ rest"
  obtain c u where t: "t = c_lt # c # u" "c \<noteq> c_slash" using Cons.hyps(1) by (auto simp: reads_elem_def)
  have skip: "skip_space (w @ t @ r) = t @ r" for r using t(1) by (simp add: skip_over [OF w(1)])
  have "read_element m (t @ w' @ ?s) = Some (x, w' @ ?s)"
    using Cons.hyps(1) Cons.prems n by (simp add: reads_elem_def children_text_def)
  moreover have "read_children m (w' @ ?s) = Some (xs, lit ''</'' @ rest)"
    using Cons.IH [of m] Cons.prems n t(1) by (simp add: read_children_skip [OF w(2)] children_text_def)
  moreover have "\<not> prefix (lit ''</'') (t @ w' @ ?s)" using t by (simp add: str_simps)
  moreover have "children_text w w' (t # ts) @ v @ lit ''</'' @ rest = w @ t @ w' @ ?s" by (simp add: children_text_def)
  ultimately show ?case using skip [of "w' @ ?s"] n by simp
qed

definition xnode :: "rstr \<Rightarrow> (rstr \<times> rstr) list \<Rightarrow> rstr \<Rightarrow> xml list \<Rightarrow> xml" where
  "xnode name as blank cs = (if cs = [] then XLeaf name as blank else XNode name as cs)"

lemma escaped_space: "json_space w \<Longrightarrow> xml_escaped w = w"
  by (induction w) (auto simp: json_space_def xml_escaped_def)

lemma space_data: "json_space w \<Longrightarrow> xml_data (w @ c_lt # r) = (w, c_lt # r)"
  using xml_reads_back [of c_lt w r] by (simp add: escaped_space)

definition blank_legal :: "rstr \<Rightarrow> bool" where
  "blank_legal w \<longleftrightarrow> json_space w \<and> text_legal w"

lemma node_read:
  assumes name: "xml_name name" "attrs_ok as" and w: "blank_legal w0" "blank_legal w" "blank_legal w'" "blank_legal w1"
    and c: "list_all2 reads_elem ts xs"
  shows "reads_elem (start_tag name as @ [c_gt] @ w0 @ children_text w w' ts @ w1 @ end_tag name) (xnode name as (w0 @ w1) xs)"
proof (rule reads_elemI [OF name(1)])
  fix n rest
  have sp: "json_space w0" "json_space w" "json_space w'" "json_space w1" using w by (simp_all add: blank_legal_def)
  have e: "end_tag name @ rest = lit ''</'' @ name @ c_gt # rest" by (simp add: end_tag_def)
  let ?r = "w0 @ children_text w w' ts @ w1 @ end_tag name @ rest"
  assume n: "length (start_tag name as @ [c_gt] @ w0 @ children_text w w' ts @ w1 @ end_tag name) \<le> Suc n"
  then have started: "read_element (Suc n) (start_tag name as @ ([c_gt] @ w0 @ children_text w w' ts @ w1 @ end_tag name) @ rest) =
       (case xml_data ?r of (v, t) \<Rightarrow>
          (case (if prefix (lit ''</'') t then (if text_legal v then Some (XLeaf name as v, t) else None)
                 else if json_space v then map_option (map_prod (XNode name as) id) (read_children n t) else None) of
             None \<Rightarrow> None
           | Some (x, t) \<Rightarrow> if prefix (lit ''</'' @ name @ [c_gt]) t then Some (x, drop (length name + 3) t) else None))"
    using element_started [OF name, of "[c_gt] @ ?r" n] by (simp add: str_simps end_tag_def)
  have close: "prefix (lit ''</'' @ name @ [c_gt]) (end_tag name @ rest)" "drop (length name + 3) (end_tag name @ rest) = rest"
    by (simp_all add: end_tag_def str_simps drop_end)
  show "read_element (Suc n) (start_tag name as @ ([c_gt] @ w0 @ children_text w w' ts @ w1 @ end_tag name) @ rest) =
      Some (xnode name as (w0 @ w1) xs, rest)"
  proof (cases ts)
    case Nil
    have "json_space (w0 @ w1)" "text_legal (w0 @ w1)" using w by (auto simp: blank_legal_def json_space_def text_legal_def)
    then have "xml_data ?r = (w0 @ w1, end_tag name @ rest)"
      using space_data [of "w0 @ w1" "tl (end_tag name) @ rest"] Nil by (simp add: children_text_def end_tag_def str_simps)
    then show ?thesis unfolding started using Nil c close \<open>text_legal (w0 @ w1)\<close>
      by (simp add: xnode_def) (simp add: end_tag_def str_simps)
  next
    case (Cons t us)
    then obtain x ys where xs: "xs = x # ys" "reads_elem t x" using c by (auto simp: list_all2_Cons1)
    then obtain d u where t: "t = c_lt # d # u" "d \<noteq> c_slash" by (auto simp: reads_elem_def)
    let ?t = "t @ w' @ children_text w w' us @ w1 @ end_tag name @ rest"
    have r: "?r = (w0 @ w) @ ?t" by (simp add: Cons children_text_def)
    have sp0: "json_space (w0 @ w)" using sp(1,2) by (auto simp: json_space_def)
    have "xml_data ?r = (w0 @ w, ?t)"
      unfolding r using space_data [OF sp0, of "d # u @ w' @ children_text w w' us @ w1 @ end_tag name @ rest"] t(1) by simp
    moreover have "read_children n ?t = Some (xs, end_tag name @ rest)"
      using children_read [OF sp(2,3,4) c, of n "name @ c_gt # rest"] n read_children_skip [OF sp(2), of n ?t]
      by (simp add: Cons children_text_def e end_tag_def)
    moreover have "\<not> prefix (lit ''</'') ?t" using t by (simp add: str_simps)
    ultimately show ?thesis unfolding started using sp0 close xs(1) by (simp add: xnode_def)
  qed
qed

subsection \<open>The writer\<close>

fun term_tree :: "rterm \<Rightarrow> xml" where
  "term_tree (RIri i) = XLeaf (lit ''uri'') [] (iri_value i)"
| "term_tree (RLiteral l) = XLeaf (lit ''literal'')
     (case lit_language l of Some g \<Rightarrow> [(lit ''xml:lang'', g)]
      | None \<Rightarrow> (case lit_datatype l of
            Some d \<Rightarrow> if iri_value d = xsd_string_text then [] else [(lit ''datatype'', iri_value d)]
          | None \<Rightarrow> []))
     (lit_value l)"
| "term_tree (RBlank b) = XLeaf (lit ''bnode'') [] (bn_label b)"

definition binding_tree :: "row_binding \<Rightarrow> rstr \<Rightarrow> xml option" where
  "binding_tree b v = map_option (\<lambda>t. XNode (lit ''binding'') [(lit ''name'', v)] [term_tree t]) (fmlookup b v)"

definition result_tree :: "bool \<Rightarrow> rstr list \<Rightarrow> row_binding \<Rightarrow> xml" where
  "result_tree p vs b = xnode (lit ''result'') [] (json_nl p @ json_indent p 2) (List.map_filter (binding_tree b) vs)"

definition sparql_attrs :: "(rstr \<times> rstr) list" where
  "sparql_attrs = [(lit ''xmlns'', lit ''http://www.w3.org/2005/sparql-results#'')]"

definition select_tree :: "bool \<Rightarrow> select_results \<Rightarrow> xml" where
  "select_tree p r = XNode (lit ''sparql'') sparql_attrs
     [xnode (lit ''head'') [] (json_nl p @ json_indent p 1)
        (map (\<lambda>v. XLeaf (lit ''variable'') [(lit ''name'', v)] []) (sr_variables r)),
      xnode (lit ''results'') [] (json_nl p @ json_indent p 1) (map (result_tree p (sr_variables r)) (sr_bindings r))]"

definition ask_tree :: "ask_result \<Rightarrow> xml" where
  "ask_tree a = XNode (lit ''sparql'') sparql_attrs
     [XLeaf (lit ''head'') [] [], XLeaf (lit ''boolean'') [] (show_result (ar_result a))]"

text \<open>Terms of which XML can hold the text.\<close>

fun term_legal :: "rterm \<Rightarrow> bool" where
  "term_legal (RIri i) = text_legal (iri_value i)"
| "term_legal (RLiteral l) = (text_legal (lit_value l) \<and>
     (case lit_language l of Some g \<Rightarrow> attr_legal g | None \<Rightarrow> True) \<and>
     (case lit_datatype l of Some d \<Rightarrow> attr_legal (iri_value d) | None \<Rightarrow> True))"
| "term_legal (RBlank b) = text_legal (bn_label b)"

definition select_legal :: "select_results \<Rightarrow> bool" where
  "select_legal r \<longleftrightarrow> list_all attr_legal (sr_variables r) \<and>
     list_all (\<lambda>b. \<forall>v t. fmlookup b v = Some t \<longrightarrow> term_legal t) (sr_bindings r)"

lemma names: "xml_name (lit ''uri'')" "xml_name (lit ''literal'')" "xml_name (lit ''bnode'')" "xml_name (lit ''binding'')"
  "xml_name (lit ''result'')" "xml_name (lit ''results'')" "xml_name (lit ''head'')" "xml_name (lit ''variable'')"
  "xml_name (lit ''sparql'')" "xml_name (lit ''boolean'')" "xml_name (lit ''name'')" "xml_name (lit ''xml:lang'')"
  "xml_name (lit ''datatype'')" "xml_name (lit ''xmlns'')"
  by (simp_all add: xml_name_def xml_name_char_def char_class_defs str_simps)

lemma attrs_ok_simps [simp]: "attrs_ok []" "attrs_ok ((k, v) # as) \<longleftrightarrow> xml_name k \<and> attr_legal v \<and> attrs_ok as"
  by (simp_all add: attrs_ok_def)

lemma term_read: "term_legal t \<Longrightarrow> reads_elem (xml_term t) (term_tree t)"
proof (cases t)
  case (RIri i)
  then show "term_legal t \<Longrightarrow> ?thesis"
    using leaf_read [OF names(1), of "[]" "iri_value i"] by (simp add: start_tag_def end_tag_def attrs_text_def str_simps)
next
  case (RBlank b)
  then show "term_legal t \<Longrightarrow> ?thesis"
    using leaf_read [OF names(3), of "[]" "bn_label b"] by (simp add: start_tag_def end_tag_def attrs_text_def str_simps)
next
  case (RLiteral l)
  let ?as = "case lit_language l of Some g \<Rightarrow> [(lit ''xml:lang'', g)]
      | None \<Rightarrow> (case lit_datatype l of
            Some d \<Rightarrow> if iri_value d = xsd_string_text then [] else [(lit ''datatype'', iri_value d)] | None \<Rightarrow> [])"
  assume "term_legal t"
  then have "attrs_ok ?as" "text_legal (lit_value l)" using RLiteral names by (auto split: option.splits)
  from leaf_read [OF names(2) this] show ?thesis
    by (auto simp: RLiteral start_tag_def end_tag_def attrs_text_def str_simps split: option.splits)
qed

lemma blanks: "blank_legal []" "blank_legal (json_nl p)" "blank_legal (json_indent p n)"
  by (auto simp: blank_legal_def json_space_def text_legal_def json_nl_def json_indent_def xml_legal_def list_all_iff)

definition binding_text :: "row_binding \<Rightarrow> rstr \<Rightarrow> rstr option" where
  "binding_text b v = map_option (\<lambda>t. lit ''<binding name='' @ [c_dquote] @ xml_escaped v @ [c_dquote, c_gt] @
     xml_term t @ lit ''</binding>'') (fmlookup b v)"

lemma bindings_split:
  "concat (map (xml_binding p b) vs) = children_text (json_indent p 3) (json_nl p) (List.map_filter (binding_text b) vs)"
  by (induction vs) (auto simp: children_text_def List.map_filter_simps binding_text_def xml_binding_def split: option.split)

lemma binding_read:
  assumes "attr_legal v" "\<forall>v t. fmlookup b v = Some t \<longrightarrow> term_legal t" "binding_text b v = Some s"
  shows "\<exists>x. binding_tree b v = Some x \<and> reads_elem s x"
proof -
  obtain t where t: "fmlookup b v = Some t" using assms(3) by (auto simp: binding_text_def)
  then have "list_all2 reads_elem [xml_term t] [term_tree t]" using term_read assms(2) by simp
  from node_read [OF names(4) _ blanks(1,1,1,1) this, of "[(lit ''name'', v)]"] show ?thesis
    using assms(1,3) t names by (auto simp: binding_text_def binding_tree_def xnode_def start_tag_def end_tag_def attrs_text_def
        children_text_def str_simps)
qed

lemma bindings_read:
  assumes "\<forall>v t. fmlookup b v = Some t \<longrightarrow> term_legal t"
  shows "list_all attr_legal vs \<Longrightarrow> list_all2 reads_elem (List.map_filter (binding_text b) vs) (List.map_filter (binding_tree b) vs)"
proof (induction vs)
  case (Cons v vs)
  show ?case
  proof (cases "binding_text b v")
    case None
    then have "binding_tree b v = None" by (simp add: binding_text_def binding_tree_def)
    then show ?thesis using Cons None by (simp add: List.map_filter_simps)
  next
    case (Some s)
    then obtain x where "binding_tree b v = Some x" "reads_elem s x" using binding_read [OF _ assms Some] Cons.prems by auto
    then show ?thesis using Cons Some by (simp add: List.map_filter_simps)
  qed
qed (simp add: List.map_filter_simps)

lemma result_read:
  assumes "list_all attr_legal vs" "\<forall>v t. fmlookup b v = Some t \<longrightarrow> term_legal t"
  shows "reads_elem (lit ''<result>'' @ json_nl p @ concat (map (xml_binding p b) vs) @ json_indent p 2 @ lit ''</result>'') (result_tree p vs b)"
  using node_read [OF names(5) _ blanks(2,3,2,3) bindings_read [OF assms(2,1)], of "[]" p p 3 p p 2]
  by (simp add: result_tree_def bindings_split start_tag_def end_tag_def attrs_text_def str_simps)

lemma results_split:
  "concat (map (xml_result p vs) bs) = children_text (json_indent p 2) (json_nl p)
     (map (\<lambda>b. lit ''<result>'' @ json_nl p @ concat (map (xml_binding p b) vs) @ json_indent p 2 @ lit ''</result>'') bs)"
  by (induction bs) (simp_all add: children_text_def xml_result_def)

lemma results_read:
  assumes "select_legal r"
  shows "reads_elem (lit ''<results>'' @ json_nl p @ concat (map (xml_result p (sr_variables r)) (sr_bindings r)) @
      json_indent p 1 @ lit ''</results>'')
    (xnode (lit ''results'') [] (json_nl p @ json_indent p 1) (map (result_tree p (sr_variables r)) (sr_bindings r)))"
proof -
  have "list_all2 reads_elem
      (map (\<lambda>b. lit ''<result>'' @ json_nl p @ concat (map (xml_binding p b) (sr_variables r)) @ json_indent p 2 @ lit ''</result>'')
        (sr_bindings r)) (map (result_tree p (sr_variables r)) (sr_bindings r))"
    using assms result_read by (auto simp: select_legal_def list_all2_map1 list_all2_map2 list_all2_same list_all_iff)
  from node_read [OF names(6) _ blanks(2,3,2,3) this, of "[]" p p 2 p p 1] show ?thesis
    by (simp add: results_split start_tag_def end_tag_def attrs_text_def str_simps)
qed

lemma variables_split:
  "concat (map (\<lambda>v. json_indent p 2 @ lit ''<variable name='' @ [c_dquote] @ xml_escaped v @ [c_dquote] @ lit ''/>'' @ json_nl p) vs) =
   children_text (json_indent p 2) (json_nl p) (map (\<lambda>v. start_tag (lit ''variable'') [(lit ''name'', v)] @ lit ''/>'') vs)"
  by (induction vs) (simp_all add: children_text_def start_tag_def attrs_text_def str_simps)

lemma head_read:
  assumes "list_all attr_legal vs"
  shows "reads_elem (lit ''<head>'' @ json_nl p @
      concat (map (\<lambda>v. json_indent p 2 @ lit ''<variable name='' @ [c_dquote] @ xml_escaped v @ [c_dquote] @ lit ''/>'' @ json_nl p) vs) @
      json_indent p 1 @ lit ''</head>'')
    (xnode (lit ''head'') [] (json_nl p @ json_indent p 1) (map (\<lambda>v. XLeaf (lit ''variable'') [(lit ''name'', v)] []) vs))"
proof -
  have "list_all2 reads_elem (map (\<lambda>v. start_tag (lit ''variable'') [(lit ''name'', v)] @ lit ''/>'') vs)
      (map (\<lambda>v. XLeaf (lit ''variable'') [(lit ''name'', v)] []) vs)"
    using assms empty_read [OF names(8)] names(11) by (auto simp: list_all2_map1 list_all2_map2 list_all2_same list_all_iff)
  from node_read [OF names(7) _ blanks(2,3,2,3) this, of "[]" p p 2 p p 1] show ?thesis
    unfolding variables_split by (simp add: start_tag_def end_tag_def attrs_text_def str_simps)
qed

lemma sparql_attrs_facts:
  "attrs_ok sparql_attrs"
  "start_tag (lit ''sparql'') sparql_attrs =
     lit ''<sparql xmlns='' @ [c_dquote] @ lit ''http://www.w3.org/2005/sparql-results#'' @ [c_dquote]"
  by (simp_all add: sparql_attrs_def xml_name_def xml_name_char_def char_class_defs attr_legal_def xml_legal_def start_tag_def attrs_text_def xml_escaped_def str_simps)

lemma document_read:
  assumes "list_all2 reads_elem ts xs" "xs \<noteq> []"
  shows "read_document (xml_header p @ children_text (json_indent p 1) (json_nl p) ts @ xml_footer p) =
    Some (XNode (lit ''sparql'') sparql_attrs xs)"
proof -
  let ?e = "start_tag (lit ''sparql'') sparql_attrs @ [c_gt] @ json_nl p @ children_text (json_indent p 1) (json_nl p) ts @
    [] @ end_tag (lit ''sparql'')"
  have e: "reads_elem ?e (XNode (lit ''sparql'') sparql_attrs xs)"
    using node_read [OF names(9) sparql_attrs_facts(1) blanks(2,3,2,1) assms(1), of p p 1 p] assms(2) by (simp add: xnode_def)
  have s: "xml_header p @ children_text (json_indent p 1) (json_nl p) ts @ xml_footer p = xml_declaration @ json_nl p @ ?e @ json_nl p"
    unfolding sparql_attrs_facts(2) by (simp add: xml_header_def xml_footer_def xml_declaration_def end_tag_def str_simps)
  have blank: "json_space (json_nl p)" using blanks(2) by (simp add: blank_legal_def)
  obtain c u where "?e = c_lt # c # u" using e by (auto simp: reads_elem_def)
  then have skip: "skip_space (json_nl p @ ?e @ json_nl p) = ?e @ json_nl p"
    using skip_over [OF blank] by simp
  have "read_element (length (xml_declaration @ json_nl p @ ?e @ json_nl p)) (?e @ json_nl p) =
      Some (XNode (lit ''sparql'') sparql_attrs xs, json_nl p)"
    using e unfolding reads_elem_def by simp
  moreover have "skip_space (json_nl p) = []" using skip_over [OF blank, of "[]"] by simp
  ultimately show ?thesis unfolding s read_document_def using skip by simp
qed

text \<open>C25: XML results are XML, if XML can hold them: for a select result whose texts hold only characters of XML other than the carriage return
  (of those below 32, only tab and line feed), and whose variables, tags and datatypes hold none below 32, the text that is written, pretty-printed or not, is a document that a reader of XML reads as the
  tree of exactly that result: the variables in the head, one \<open>result\<close> per row, and in it one \<open>binding\<close> per bound
  variable with the text, language tag and datatype of its term. The other characters are written as they are, which gives no XML document, or, for a carriage return, one that is read as a line feed.\<close>

theorem xml_results_read_back:
  assumes "select_legal r"
  shows "read_document (write_select_xml p r) = Some (select_tree p r)"
proof -
  let ?h = "lit ''<head>'' @ json_nl p @
      concat (map (\<lambda>v. json_indent p 2 @ lit ''<variable name='' @ [c_dquote] @ xml_escaped v @ [c_dquote] @ lit ''/>'' @ json_nl p)
        (sr_variables r)) @ json_indent p 1 @ lit ''</head>''"
  let ?b = "lit ''<results>'' @ json_nl p @ concat (map (xml_result p (sr_variables r)) (sr_bindings r)) @
      json_indent p 1 @ lit ''</results>''"
  have "write_select_xml p r = xml_header p @ children_text (json_indent p 1) (json_nl p) [?h, ?b] @ xml_footer p"
    by (simp add: write_select_xml_def children_text_def)
  then show ?thesis
    using document_read [of "[?h, ?b]"] head_read [of "sr_variables r" p] results_read [OF assms, of p] assms
    by (simp add: select_tree_def select_legal_def)
qed

text \<open>The same for the answer of an \<open>ASK\<close> query.\<close>

lemma ask_read_back: "read_document (write_ask_xml p a) = Some (ask_tree a)"
proof -
  have h: "reads_elem (lit ''<head/>'') (XLeaf (lit ''head'') [] [])"
    using empty_read [OF names(7), of "[]"] by (simp add: start_tag_def attrs_text_def str_simps)
  have "text_legal (show_result b) \<and> xml_escaped (show_result b) = show_result b" for b
    by (cases b) (simp_all add: text_legal_def xml_legal_def xml_escaped_def str_simps show_result_def)
  then have "reads_elem (lit ''<boolean>'' @ show_result (ar_result a) @ lit ''</boolean>'')
      (XLeaf (lit ''boolean'') [] (show_result (ar_result a)))"
    using leaf_read [OF names(10), of "[]" "show_result (ar_result a)"] by (simp add: start_tag_def end_tag_def attrs_text_def str_simps)
  then show ?thesis
    using document_read [of "[lit ''<head/>'', lit ''<boolean>'' @ show_result (ar_result a) @ lit ''</boolean>'']"] h
    by (simp add: ask_tree_def write_ask_xml_def children_text_def)
qed

text \<open>The literal \<open>a<b&\<close> with a quote in its language tag, in a row of two columns of which one is unbound.\<close>

definition sample_results :: select_results where
  "sample_results = \<lparr>sr_variables = [lit ''s'', lit ''t''],
     sr_bindings = [fmupd (lit ''s'') (RLiteral \<lparr>lit_value = [97, c_lt, 98, 38, c_nl], lit_datatype = None,
       lit_language = Some [101, c_dquote]\<rparr>) fmempty]\<rparr>"

theorem xml_results_read_back_witness:
  "read_document (write_select_xml True sample_results) = Some (select_tree True sample_results) \<and>
   result_tree True (sr_variables sample_results) (hd (sr_bindings sample_results)) =
     XNode (lit ''result'') [] [XNode (lit ''binding'') [(lit ''name'', lit ''s'')]
       [XLeaf (lit ''literal'') [(lit ''xml:lang'', [101, c_dquote])] [97, c_lt, 98, 38, c_nl]]]"
proof -
  have "select_legal sample_results"
    by (auto simp: select_legal_def sample_results_def attr_legal_def text_legal_def xml_legal_def str_simps)
  from xml_results_read_back [OF this, of True] show ?thesis
    by (simp add: sample_results_def result_tree_def xnode_def binding_tree_def List.map_filter_simps str_simps)
qed

text \<open>Without the premise there is no XML: a character that XML cannot hold stands in the text as it is.\<close>

lemma xml_control_written:
  assumes "c < 32" "c \<noteq> c_tab" "c \<noteq> c_nl" "c \<in> set (lit_value l)"
  shows "c \<in> set (xml_term (RLiteral l)) \<and> \<not> xml_legal c"
proof -
  have "c \<in> set (xml_escaped (lit_value l))"
    using assms by (auto simp: xml_escaped_def intro!: bexI [of _ c])
  then show ?thesis using assms(1-3) by (auto simp: xml_legal_def)
qed

end
