(* ===== verification/Spec2Isabelle.thy ===== *)
theory Spec2Isabelle
  imports NamespaceStore Dictionary Cache Index Statistics CypherBatch Delete TurtleSafety QuerySafety TranslationFacts Executor Optimizer SerializerFacts ExportFacts InsertFacts ModuleDelete ModuleQuery JsonLdLosses JsonLdRoundTrip DictionaryLocks ComplianceFacts TurtleExport BenchmarkFacts XmlResults
begin

text \<open>
  FalkorSemantic stores RDF in a property graph. It reads RDF documents and SPARQL queries
  (\<open>parser\<close>), interns and indexes what they mention (\<open>storage\<close>), maps triples to Cypher statements and
  queries to one Cypher query each (\<open>mapper\<close>), and offers all of it as commands of a Redis module
  (\<open>module\<close>): RDF.INSERT and RDF.BULK_INSERT parse a document, map its triples and send the statements to
  the server, RDF.DELETE builds one deletion query, RDF.QUERY translates, executes and formats a query, RDF.GRAPH and
  RDF.NAMESPACES keep their state in keys of the server. This development models the four crates, and the data of their suites and benchmarks,
  as they are in the Rust sources and proves what makes them correct.

  \<^bold>\<open>Layout.\<close>
  \<^item> \<open>Prelude\<close>: strings as lists of code points with byte offsets and slices whose panic is \<open>None\<close>; the
    string and number functions of the standard library that the code uses; what is promised of
    iterating over a hash map; the interface of keyed stores as a locale.
  \<^item> \<open>Iri\<close>, \<open>BlankNode\<close>, \<open>RdfLiteral\<close>, \<open>Namespace\<close>, \<open>Triple\<close> (parser/src/rdf): the RDF terms, their validation,
    accessors, display and equality, the namespace registry, triples, quads and patterns.
  \<^item> \<open>NamespaceStore\<close>, \<open>Dictionary\<close>, \<open>DictionaryLocks\<close>, \<open>Cache\<close>, \<open>Index\<close>, \<open>Statistics\<close> (storage/src): the shared state. A \<open>RwLock\<close>
    is the record it guards and an operation a function on it; where an operation takes
    the lock twice (\<open>get_or_insert\<close>) its interleavings are a step relation. The guards of the dictionary's two locks
    are steps of their own in \<open>DictionaryLocks\<close>.
  \<^item> \<open>TurtleLexer\<close>, \<open>TurtleParser\<close>, \<open>TurtleSafety\<close> (parser/src/formats/turtle): the tokens, the recursive descent over
    them, and the proof that it returns on every input.
  \<^item> \<open>Readers\<close> (parser/src/formats): N-Triples, N-Quads and TriG over the crate rio, in one go and as iterators.
  \<^item> \<open>Serializer\<close> (parser/src/rdf/serializer), \<open>Export\<close> (parser/src/export): the two families of writers. \<open>RoundTrip\<close>,
    \<open>TurtleRoundTrip\<close>, \<open>TurtleExport\<close>, \<open>SerializerFacts\<close> and \<open>ExportFacts\<close> hold the lemmas about them.
  \<^item> \<open>JsonLd\<close>, \<open>JsonLdCompact\<close>, \<open>JsonLdRdf\<close> (parser/src/rdf/jsonld), \<open>JsonLdWriter\<close>
    (parser/src/rdf/serializer/jsonld.rs): contexts and expansion, compaction and framing, conversion to RDF, and the
    serializer. \<open>JsonLdFacts\<close>, \<open>JsonLdLosses\<close>, \<open>JsonLdText\<close> and \<open>JsonLdRoundTrip\<close> hold the lemmas.
  \<^item> \<open>Sparql\<close>, \<open>SparqlFront\<close> (parser/src/sparql): the algebra, prefixes, validation and entry points.
  \<^item> \<open>QueryResults\<close>, \<open>ResultFormats\<close>, \<open>JsonResults\<close>, \<open>JsonReader\<close>, \<open>XmlResults\<close> (parser/src/results): bindings and the
    six result formats; the grammar of JSON texts, and a reader that shows that a text stands for one value only; a
    reader of XML documents, which reads the XML results as the trees of their rows.
  \<^item> \<open>Schema\<close>, \<open>Cypher\<close>, \<open>RdfLists\<close>, \<open>CypherSafety\<close>, \<open>CypherBatch\<close>, \<open>Delete\<close> (mapper/src/graph, mapper/src/lib.rs):
    node and edge records, escaping, the statements that insert and delete triples.
  \<^item> \<open>Translator\<close>, \<open>QuerySafety\<close>, \<open>TranslationFacts\<close>, \<open>Executor\<close>, \<open>Optimizer\<close> (mapper/src/query): the translation of the
    algebra to Cypher, the execution of a query, the ordering of its patterns.
  \<^item> \<open>Redis\<close>, \<open>AdminCommands\<close>, \<open>AdminFacts\<close>, \<open>ModuleInsert\<close>, \<open>ModuleBulk\<close>, \<open>InsertFacts\<close>, \<open>ModuleDelete\<close>, \<open>ModuleQuery\<close>
    (module/src): the calls to the server and the commands, each composed of the operations above.
  \<^item> \<open>Compliance\<close>, \<open>ComplianceFacts\<close> (tests-compliance/src): the suites the repository measures its parsers with.
  \<^item> \<open>Benchmarks\<close>, \<open>BenchmarkFacts\<close> (tests-e2e/src/benchmarks.rs): the data and the commands of the benchmarks.

  \<^bold>\<open>Conventions.\<close> A struct is a record, an enum a datatype, a \<open>Result\<close> a sum with the error on the left, a
  panic or a loop that does not end the value \<open>None\<close>. \<open>u64\<close> and \<open>IriId\<close> are 64-bit words that wrap; \<open>usize\<close>
  counters of elements are natural numbers. Functions that iterate over a \<open>HashMap\<close> take the
  iteration as an argument, and properties assume of it only that it lists every entry once
  (\<open>hash_order\<close>). Clock readings, hash functions, float arithmetic and the Unicode tables are arguments too
  (\<open>std_ok\<close> is what is assumed of the tables). Third-party code is a parameter: the rio parsers (the record
  \<open>rio\<close>), the SPARQL grammar (\<open>grammar_ok\<close>: variables and blank node labels are names), the parser of JSON text, the file
  system (the record \<open>file_system\<close>), and the server (\<open>redis_call\<close>; \<open>redis_ok\<close> is the documented effect of the key
  commands, with an instance over a finite map).

  \<^bold>\<open>What the lemmas show.\<close> For each component an invariant that its operations keep and the meaning
  of its operations against an abstract specification: the dictionary is a bijection also under
  concurrent interning, and its locks never deadlock; caches never exceed their capacity and return what was inserted last;
  the type and predicate indexes are relations; statistics count exactly; a registry has the namespaces bound last, and its
  reverse map holds inverses only; slices never panic; the registered graphs are a set and the namespaces of a graph a map that the
  administrative commands update. Injection safety: RDF text never leaves its quotes in an inserted or deleted
  statement, and in a query only the text of a literal of a numeric datatype that is no numeral does, up to the queries that the commands send (\<open>CypherSafety\<close>, \<open>Delete\<close>, \<open>QuerySafety\<close>, \<open>InsertFacts\<close>,
  \<open>ModuleDelete\<close>, \<open>ModuleQuery\<close>). Round trips: N-Triples and Turtle documents of the serializers and the Turtle export,
  grouped or not, are read back by the Turtle parser, JSON-LD node objects and what the JSON-LD serializer writes about one
  subject by the JSON-LD parser, the result formats and both JSON-LD writers are
  texts of the grammar of their format, displayed terms are read by the pattern parser of RDF.DELETE, the rows of the
  server by the executor. Each round trip states the texts it covers; what lies outside and comes back changed is
  shown by lemmas of its own. The Turtle suite of the repository is evaluated
  on the model and passes, and the network of its benchmarks is read batch by batch. Batches group triples by subject without loss, RDF lists are extracted in order, and exactly
  the cyclic ones make the generator run forever (\<open>RdfLists\<close>); every triple of a bulk file is in exactly one
  batch; a bulk insertion depends on no file outside the configured directory but for the text of a refusal. The interfaces \<open>keyed_store\<close>, \<open>lossy_store\<close>
  and \<open>relation_store\<close> are locales interpreted on the registry, the namespace store, the caches and the
  indexes. Where the code does not do what its comments say, a lemma states what it does.

  \<^bold>\<open>Bounds.\<close> The walk along an RDF list, the tokenizer, the key scan and the loops over rio are partial functions;
  \<open>walk_n\<close> bounds the rounds of the first, and one more than the number of \<open>rdf:rest\<close> entries is enough. The
  tokenizer is proved to end. The Turtle parser takes fuel; \<open>fuel_for\<close> gives it four per token, and
  \<open>TurtleSafety\<close> proves this enough for every input. The recursion over JSON values is total by their size.

  \<^bold>\<open>Not modelled.\<close> The end-to-end and unit tests are not part of the system; of the benchmarks the
  starting of a server, the clocks and the printing are left out. Formatting of
  error messages is left out where errors carry the arguments of their message. The state of a parser or
  converter after an error and writers that fail are left out. Of third-party code only what is
  stated above is assumed. The parser of JSON text is third-party code: of the JSON-LD
  documents that are read back it is assumed that it reads their text as the JSON grammar does.
\<close>

end
